(* ===== verification/Prelude.thy ===== *)
theory Prelude
  imports Main "HOL-Library.Word" "HOL-Library.Monad_Syntax"
begin

text \<open>
  Shared vocabulary of the development: the machine-integer types of the C sources, the
  collections of simplification rules the component theories add to, and the generic lemmas on
  circular buffers and bit masks that several components use.

  A C function that can fail an \<open>assert\<close> or reach undefined behaviour returns an
  \<open>option\<close>: \<open>None\<close> is the failed assertion (the process aborts) or the undefined
  operation.  Error returns of the C code (\<open>NULL\<close>, \<open>-1\<close>, \<open>1\<close>) are values of
  the model and never \<open>None\<close> of the surrounding result.
\<close>

unbundle bit_operations_syntax

section \<open>Machine integers\<close>

type_synonym u8 = "8 word"
type_synonym u16 = "16 word"
type_synonym u32 = "32 word"
type_synonym u64 = "64 word"
type_synonym i32 = "32 word"
type_synonym i64 = "64 word"

named_theorems ring_simps \<open>circular buffers seen as lists\<close>
named_theorems model_defs \<open>definitions unfolded when a concrete run is evaluated\<close>

section \<open>Assertions\<close>

definition c_assert :: "bool \<Rightarrow> unit option" where
  "c_assert b = (if b then Some () else None)"

lemma c_assert_simps [simp]:
  "c_assert True = Some ()" "c_assert False = None"
  by (simp_all add: c_assert_def)

lemma c_assert_eq_Some [simp]: "c_assert b = Some u \<longleftrightarrow> b"
  by (simp add: c_assert_def)

lemma c_assert_bind [simp]:
  "(c_assert b \<bind> f = Some y) \<longleftrightarrow> b \<and> f () = Some y"
  by (simp add: c_assert_def)

lemma map_Some_the: "None \<notin> set xs \<Longrightarrow> map Some (map the xs) = xs"
  by (induction xs) auto

section \<open>Power-of-two masks\<close>

text \<open>\<open>x & (size - 1)\<close> for a power of two, the hash of every slot table of the program.\<close>

lemma unat_mask_mod:
  fixes x :: "'a::len word"
  shows "k \<le> LENGTH('a) \<Longrightarrow> unat (x AND mask k) = unat x mod 2 ^ k"
  by (simp flip: take_bit_eq_mask take_bit_eq_mod add: unsigned_take_bit_eq)

lemma sint_eq_unat:
  fixes w :: "'a::len word"
  shows "unat w < 2 ^ (LENGTH('a) - 1) \<Longrightarrow> sint w = int (unat w)"
proof -
  assume "unat w < 2 ^ (LENGTH('a) - 1)"
  then have "int (unat w) < int (2 ^ (LENGTH('a) - 1))" by (simp only: of_nat_less_iff)
  then have "uint w < 2 ^ (LENGTH('a) - 1)" by simp
  moreover have "- (2 ^ (LENGTH('a) - 1)) \<le> uint w" by (rule order_trans [of _ 0]) simp_all
  ultimately show ?thesis by (simp add: sint_uint signed_take_bit_int_eq_self)
qed

lemma sint_nonneg:
  fixes w :: "'a::len word"
  assumes "0 \<le> sint w"
  shows "sint w = int (unat w)"
proof -
  have neg: "\<not> bit (uint w) (LENGTH('a) - 1)"
    using assms by (simp add: sint_uint)
  have "take_bit LENGTH('a) (uint w) = uint w" by (simp add: take_bit_int_eq_self)
  then have "uint w = take_bit (Suc (LENGTH('a) - 1)) (uint w)" by simp
  also have "\<dots> = take_bit (LENGTH('a) - 1) (uint w)"
    using neg by (simp only: take_bit_Suc_from_most) simp
  finally show ?thesis
    using neg by (simp add: sint_uint signed_take_bit_eq_if_positive)
qed

lemma unat_drop: "unat (drop_bit k (a :: 'a::len word)) = unat a div 2 ^ k"
  unfolding unat_drop_bit_eq by (rule drop_bit_eq_div)

lemma and_not_of_and_zero:
  fixes h m :: "'a::len word"
  assumes "h AND m = 0"
  shows "h AND NOT m = h"
proof -
  have "h = h AND (m OR NOT m)" by simp
  also have "\<dots> = (h AND m) OR (h AND NOT m)" by (simp only: bit.conj_disj_distrib)
  finally show ?thesis using assms by simp
qed

lemma mod_mod_power: "k \<le> m \<Longrightarrow> (x::nat) mod 2 ^ m mod 2 ^ k = x mod 2 ^ k"
  by (simp add: mod_mod_cancel le_imp_power_dvd)

section \<open>Circular buffers\<close>

text \<open>\<open>ring_seg buf h n\<close>: the \<open>n\<close> cells read from index \<open>h\<close> on, wrapping round.\<close>

definition ring_seg :: "'a list \<Rightarrow> nat \<Rightarrow> nat \<Rightarrow> 'a list" where
  "ring_seg buf h n = map (\<lambda>i. buf ! ((h + i) mod length buf)) [0..<n]"

lemma length_ring_seg [simp]: "length (ring_seg buf h n) = n"
  by (simp add: ring_seg_def)

lemma ring_seg_0 [simp]: "ring_seg buf h 0 = []"
  by (simp add: ring_seg_def)

lemma ring_seg_nth: "i < n \<Longrightarrow> ring_seg buf h n ! i = buf ! ((h + i) mod length buf)"
  by (simp add: ring_seg_def)

lemma ring_seg_Suc_front:
  assumes "h < length buf"
  shows "ring_seg buf h (Suc n) = buf ! h # ring_seg buf (Suc h mod length buf) n"
proof (rule nth_equalityI)
  fix i assume i: "i < length (ring_seg buf h (Suc n))"
  show "ring_seg buf h (Suc n) ! i = (buf ! h # ring_seg buf (Suc h mod length buf) n) ! i"
  proof (cases i)
    case 0
    then show ?thesis using assms by (simp add: ring_seg_nth)
  next
    case (Suc j)
    then show ?thesis using i by (simp add: ring_seg_nth mod_simps)
  qed
qed simp

lemma ring_seg_Suc_back:
  "ring_seg buf h (Suc n) = ring_seg buf h n @ [buf ! ((h + n) mod length buf)]"
  by (simp add: ring_seg_def)

lemma ring_index_inj:
  fixes h i j m :: nat
  assumes "i < m" "j < m" "(h + i) mod m = (h + j) mod m"
  shows "i = j"
proof -
  have *: "a = b" if "a \<le> b" "b < m" "(h + a) mod m = (h + b) mod m" for a b :: nat
  proof -
    have "m dvd (h + b) - (h + a)"
      using that by (metis add_le_mono1 add.commute mod_eq_dvd_iff_nat)
    then have "m dvd b - a" by simp
    moreover have "b - a < m" using that by simp
    ultimately have "b - a = 0" using dvd_imp_le by force
    then show ?thesis using that by simp
  qed
  show ?thesis using * [of i j] * [of j i] assms by (cases "i \<le> j") auto
qed

lemma ring_seg_update_outside:
  assumes "n \<le> k" "k < length buf"
  shows "ring_seg (buf[(h + k) mod length buf := x]) h n = ring_seg buf h n"
proof (rule nth_equalityI)
  fix i assume "i < length (ring_seg (buf[(h + k) mod length buf := x]) h n)"
  then have i: "i < n" by simp
  have "(h + k) mod length buf \<noteq> (h + i) mod length buf"
    using ring_index_inj [of i "length buf" k h] i assms by force
  then show "ring_seg (buf[(h + k) mod length buf := x]) h n ! i = ring_seg buf h n ! i"
    using i by (simp add: ring_seg_nth)
qed simp

lemma ring_seg_push_back [ring_simps]:
  assumes "n < length buf"
  shows "ring_seg (buf[(h + n) mod length buf := x]) h (Suc n) = ring_seg buf h n @ [x]"
  using assms ring_seg_update_outside [of n n buf h x]
  by (simp add: ring_seg_Suc_back) (metis mod_less_divisor nth_list_update_eq gr_implies_not0 neq0_conv)

lemma ring_seg_push_front [ring_simps]:
  assumes "n < length buf" "h' < length buf" "Suc h' mod length buf = h"
  shows "ring_seg (buf[h' := x]) h' (Suc n) = x # ring_seg buf h n"
proof -
  have "ring_seg (buf[h' := x]) h' (Suc n) = x # ring_seg (buf[h' := x]) h n"
    using assms by (simp add: ring_seg_Suc_front)
  moreover have "ring_seg (buf[h' := x]) h n = ring_seg buf h n"
  proof (rule nth_equalityI)
    fix i assume "i < length (ring_seg (buf[h' := x]) h n)"
    then have i: "i < n" by simp
    have "(h + i) mod length buf = (h' + Suc i) mod length buf"
      using assms(3) by (metis add_Suc_shift mod_add_left_eq)
    moreover have "(h' + Suc i) mod length buf \<noteq> h'"
      using ring_index_inj [of "Suc i" "length buf" 0 h'] i assms by force
    ultimately show "ring_seg (buf[h' := x]) h n ! i = ring_seg buf h n ! i"
      using i by (simp add: ring_seg_nth)
  qed simp
  ultimately show ?thesis by simp
qed

lemma ring_seg_copy:
  assumes "n \<le> length buf" "n \<le> m"
  shows "ring_seg (map (\<lambda>i. buf ! ((h + i) mod length buf)) [0..<n] @ pad) 0 n = ring_seg buf h n"
  using assms by (intro nth_equalityI) (auto simp: ring_seg_def nth_append mod_less)

end
