(* ===== verification/Fifo.thy ===== *)
theory Fifo
  imports Prelude
begin

text \<open>
  The interface of a queue as its clients see it: an abstraction to lists, an invariant, a push
  and a pop.  Three components provide it (the per-service message queue, the global queue of
  runnable services, and the queue of messages waiting for a global name); the client lemmas
  below are proved once and reach each of them through an interpretation.
  \<open>bound\<close> is the number of entries the provider can hold, \<open>None\<close> when it grows.
\<close>

definition within_bound :: "nat option \<Rightarrow> nat \<Rightarrow> bool" where
  "within_bound b n = (case b of None \<Rightarrow> True | Some m \<Rightarrow> n \<le> m)"

lemma within_bound_None [simp]: "within_bound None n"
  by (simp add: within_bound_def)

lemma within_bound_mono: "within_bound b n \<Longrightarrow> m \<le> n \<Longrightarrow> within_bound b m"
  by (auto simp: within_bound_def split: option.splits)

text \<open>\<open>n\<close> calls of a pop, up to the first that finds nothing.\<close>

fun pop_n :: "('q \<Rightarrow> 'a option \<times> 'q) \<Rightarrow> nat \<Rightarrow> 'q \<Rightarrow> 'a list \<times> 'q" where
  "pop_n pop 0 q = ([], q)"
| "pop_n pop (Suc n) q = (case pop q of
     (None, q') \<Rightarrow> ([], q')
   | (Some x, q') \<Rightarrow> (let (xs, q'') = pop_n pop n q' in (x # xs, q'')))"

locale fifo =
  fixes inv :: "'q \<Rightarrow> bool"
    and contents :: "'q \<Rightarrow> 'a list"
    and bound :: "nat option"
    and push :: "'a \<Rightarrow> 'q \<Rightarrow> 'q"
    and pop :: "'q \<Rightarrow> 'a option \<times> 'q"
  assumes push_inv: "inv q \<Longrightarrow> within_bound bound (Suc (length (contents q))) \<Longrightarrow> inv (push x q)"
    and push_contents: "inv q \<Longrightarrow> within_bound bound (Suc (length (contents q))) \<Longrightarrow>
      contents (push x q) = contents q @ [x]"
    and pop_inv: "inv q \<Longrightarrow> inv (snd (pop q))"
    and pop_empty: "inv q \<Longrightarrow> contents q = [] \<Longrightarrow> fst (pop q) = None \<and> contents (snd (pop q)) = []"
    and pop_nonempty: "inv q \<Longrightarrow> contents q = x # xs \<Longrightarrow>
      fst (pop q) = Some x \<and> contents (snd (pop q)) = xs"
begin

text \<open>A burst of pushes, in program order.\<close>

lemma push_all:
  "inv q \<Longrightarrow> within_bound bound (length (contents q) + length xs) \<Longrightarrow>
     inv (fold push xs q) \<and> contents (fold push xs q) = contents q @ xs"
proof (induction xs arbitrary: q)
  case (Cons x xs)
  have "within_bound bound (Suc (length (contents q)))"
    by (rule within_bound_mono [OF Cons.prems(2)]) simp
  with Cons show ?case by (simp add: push_inv push_contents)
qed simp

text \<open>Popping \<open>n\<close> times delivers the \<open>n\<close> oldest entries and leaves the rest.\<close>

lemma pop_n_take:
  "inv q \<Longrightarrow> fst (pop_n pop n q) = take n (contents q) \<and>
     contents (snd (pop_n pop n q)) = drop n (contents q) \<and> inv (snd (pop_n pop n q))"
proof (induction n arbitrary: q)
  case (Suc n)
  show ?case
  proof (cases "contents q")
    case Nil
    with pop_empty [OF Suc.prems] pop_inv [OF Suc.prems] show ?thesis
      by (cases "pop q") simp
  next
    case (Cons x xs)
    with pop_nonempty [OF Suc.prems] pop_inv [OF Suc.prems] Suc.IH [of "snd (pop q)"] show ?thesis
      by (cases "pop q") (auto split: prod.splits)
  qed
qed simp

lemma pop_Some_iff: "inv q \<Longrightarrow> fst (pop q) = None \<longleftrightarrow> contents q = []"
  using pop_empty pop_nonempty by (cases "contents q") auto

text \<open>What was pushed last comes out after everything that was waiting, in order.\<close>

lemma fifo_order:
  assumes "inv q" "within_bound bound (length (contents q) + length xs)"
  shows "fst (pop_n pop (length (contents q) + length xs) (fold push xs q)) = contents q @ xs"
  using push_all [OF assms] pop_n_take [of "fold push xs q"] by simp

end

end
