(* ===== verification/MessageQueue.thy ===== *)
theory MessageQueue
  imports Fifo
begin

text \<open>
  Model of \<open>skynet-src/skynet_mq.c\<close>: the message queue of one service (a growing circular
  buffer with the scheduling flag \<open>in_global\<close> and the session lock), and the global queue of
  runnable message queues (a ring of 65536 slots indexed by wrapping 32-bit counters).
  Each function of the file that takes the queue's spin lock is one atomic operation here.
  Memory that \<open>malloc\<close> leaves uninitialised is the cell value \<open>None\<close>.
\<close>

section \<open>Messages and the packing of the type into the size\<close>

text \<open>The payload \<open>void * data\<close> is the type parameter \<open>'d\<close>.\<close>

record 'd skynet_message =
  msg_source :: u32
  msg_session :: i32
  msg_data :: 'd
  msg_sz :: u64

definition HANDLE_MASK :: u32 where "HANDLE_MASK = 0xffffff"
definition HANDLE_REMOTE_SHIFT :: nat where "HANDLE_REMOTE_SHIFT = 24"

definition PTYPE_TEXT :: i32 where "PTYPE_TEXT = 0"
definition PTYPE_RESPONSE :: i32 where "PTYPE_RESPONSE = 1"
definition PTYPE_MULTICAST :: i32 where "PTYPE_MULTICAST = 2"
definition PTYPE_CLIENT :: i32 where "PTYPE_CLIENT = 3"
definition PTYPE_SYSTEM :: i32 where "PTYPE_SYSTEM = 4"
definition PTYPE_HARBOR :: i32 where "PTYPE_HARBOR = 5"
definition PTYPE_TAG_DONTCOPY :: i32 where "PTYPE_TAG_DONTCOPY = 0x10000"
definition PTYPE_TAG_ALLOCSESSION :: i32 where "PTYPE_TAG_ALLOCSESSION = 0x20000"

section \<open>The global queue\<close>

type_synonym mqptr = nat

definition DEFAULT_QUEUE_SIZE :: nat where "DEFAULT_QUEUE_SIZE = 64"
definition MAX_GLOBAL_MQ :: nat where "MAX_GLOBAL_MQ = 0x10000"

definition MQ_IN_GLOBAL :: nat where "MQ_IN_GLOBAL = 1"
definition MQ_DISPATCHING :: nat where "MQ_DISPATCHING = 2"
definition MQ_LOCKED :: nat where "MQ_LOCKED = 3"

record global_queue =
  gq_head :: u32
  gq_tail :: u32
  gq_queue :: "nat \<Rightarrow> mqptr option"
  gq_flag :: "nat \<Rightarrow> bool"

definition GP :: "u32 \<Rightarrow> nat" where
  "GP p = unat p mod MAX_GLOBAL_MQ"

definition skynet_mq_init :: global_queue where
  "skynet_mq_init = \<lparr>gq_head = 0, gq_tail = 0, gq_queue = (\<lambda>_. None), gq_flag = (\<lambda>_. False)\<rparr>"

definition skynet_globalmq_push :: "mqptr \<Rightarrow> global_queue \<Rightarrow> global_queue" where
  "skynet_globalmq_push queue q =
     (let tail = GP (gq_tail q) in
      q\<lparr>gq_tail := gq_tail q + 1,
        gq_queue := (gq_queue q)(tail := Some queue),
        gq_flag := (gq_flag q)(tail := True)\<rparr>)"

text \<open>
  The compare-and-swap of the C function succeeds here, because the operation runs without
  interference; a failing one returns \<open>NULL\<close>, which the caller treats as an empty queue.
\<close>

definition skynet_globalmq_pop :: "global_queue \<Rightarrow> mqptr option \<times> global_queue" where
  "skynet_globalmq_pop q =
     (let head_ptr = GP (gq_head q) in
      if head_ptr = GP (gq_tail q) then (None, q)
      else if \<not> gq_flag q head_ptr then (None, q)
      else (gq_queue q head_ptr,
            q\<lparr>gq_head := gq_head q + 1, gq_flag := (gq_flag q)(head_ptr := False)\<rparr>))"

section \<open>The queue of one service\<close>

record 'd message_queue =
  mq_handle :: u32
  mq_cap :: nat
  mq_head :: nat
  mq_tail :: nat
  mq_release :: bool
  mq_lock_session :: i32
  mq_in_global :: nat
  mq_queue :: "'d skynet_message option list"

definition skynet_mq_create :: "u32 \<Rightarrow> 'd message_queue" where
  "skynet_mq_create h =
     \<lparr>mq_handle = h, mq_cap = DEFAULT_QUEUE_SIZE, mq_head = 0, mq_tail = 0, mq_release = False,
      mq_lock_session = 0, mq_in_global = MQ_IN_GLOBAL,
      mq_queue = replicate DEFAULT_QUEUE_SIZE None\<rparr>"

text \<open>Return code, the message (when the code is 0), and the queue afterwards.\<close>

definition skynet_mq_pop :: "'d message_queue \<Rightarrow> nat \<times> 'd skynet_message option \<times> 'd message_queue" where
  "skynet_mq_pop q =
     (if mq_head q \<noteq> mq_tail q then
        (let message = mq_queue q ! mq_head q;
             h = mq_head q + 1;
             h = (if h \<ge> mq_cap q then 0 else h)
         in (0, message, q\<lparr>mq_head := h\<rparr>))
      else (1, None, q\<lparr>mq_in_global := 0\<rparr>))"

definition expand_queue :: "'d message_queue \<Rightarrow> 'd message_queue" where
  "expand_queue q =
     (let new_queue = map (\<lambda>i. mq_queue q ! ((mq_head q + i) mod mq_cap q)) [0..<mq_cap q]
                      @ replicate (mq_cap q) None
      in q\<lparr>mq_head := 0, mq_tail := mq_cap q, mq_cap := mq_cap q * 2, mq_queue := new_queue\<rparr>)"

text \<open>The circular-buffer part of \<open>_pushhead\<close>, then the whole function.\<close>

definition pushhead_store :: "'d skynet_message \<Rightarrow> 'd message_queue \<Rightarrow> 'd message_queue" where
  "pushhead_store message q =
     (let head = (if mq_head q = 0 then mq_cap q - 1 else mq_head q - 1);
          (head, q) = (if head = mq_tail q
                       then (let q' = expand_queue q in (mq_cap q' - 1, q'\<lparr>mq_tail := mq_tail q' - 1\<rparr>))
                       else (head, q))
      in q\<lparr>mq_queue := (mq_queue q)[head := Some message], mq_head := head\<rparr>)"

definition pushhead :: "mqptr \<Rightarrow> 'd skynet_message \<Rightarrow> global_queue \<times> 'd message_queue \<Rightarrow>
    (global_queue \<times> 'd message_queue) option" where
  "pushhead p message gq = (case gq of (g, q0) \<Rightarrow>
     let q = pushhead_store message q0 in
     if mq_in_global q = MQ_LOCKED
     then Some (skynet_globalmq_push p g, q\<lparr>mq_in_global := MQ_IN_GLOBAL, mq_lock_session := 0\<rparr>)
     else do {
       c_assert (mq_in_global q = MQ_DISPATCHING);
       Some (g, q\<lparr>mq_lock_session := 0\<rparr>)
     })"

definition mq_store :: "'d skynet_message \<Rightarrow> 'd message_queue \<Rightarrow> 'd message_queue" where
  "mq_store message q0 =
     (let q = q0\<lparr>mq_queue := (mq_queue q0)[mq_tail q0 := Some message]\<rparr>;
          t = mq_tail q + 1;
          q = q\<lparr>mq_tail := (if t \<ge> mq_cap q then 0 else t)\<rparr>
      in if mq_head q = mq_tail q then expand_queue q else q)"

definition skynet_mq_push :: "mqptr \<Rightarrow> 'd skynet_message \<Rightarrow> global_queue \<times> 'd message_queue \<Rightarrow>
    (global_queue \<times> 'd message_queue) option" where
  "skynet_mq_push p message gq = (case gq of (g, q) \<Rightarrow>
     if mq_lock_session q \<noteq> 0 \<and> msg_session message = mq_lock_session q
     then pushhead p message (g, q)
     else
       let q = mq_store message q in
       if mq_lock_session q = 0 \<and> mq_in_global q = 0
       then Some (skynet_globalmq_push p g, q\<lparr>mq_in_global := MQ_IN_GLOBAL\<rparr>)
       else Some (g, q))"

definition skynet_mq_lock :: "i32 \<Rightarrow> 'd message_queue \<Rightarrow> 'd message_queue option" where
  "skynet_mq_lock session q = do {
     c_assert (mq_lock_session q = 0);
     c_assert (mq_in_global q = MQ_IN_GLOBAL);
     Some (q\<lparr>mq_in_global := MQ_DISPATCHING, mq_lock_session := session\<rparr>)
   }"

definition skynet_mq_force_push :: "mqptr \<Rightarrow> global_queue \<times> 'd message_queue \<Rightarrow>
    (global_queue \<times> 'd message_queue) option" where
  "skynet_mq_force_push p gq = (case gq of (g, q) \<Rightarrow> do {
     c_assert (mq_in_global q \<noteq> 0);
     Some (skynet_globalmq_push p g, q)
   })"

definition skynet_mq_pushglobal :: "mqptr \<Rightarrow> global_queue \<times> 'd message_queue \<Rightarrow>
    (global_queue \<times> 'd message_queue) option" where
  "skynet_mq_pushglobal p gq = (case gq of (g, q0) \<Rightarrow> do {
     c_assert (mq_in_global q0 \<noteq> 0);
     let q = (if mq_in_global q0 = MQ_DISPATCHING then q0\<lparr>mq_in_global := MQ_LOCKED\<rparr> else q0);
     if mq_lock_session q = 0
     then Some (skynet_globalmq_push p g, q\<lparr>mq_in_global := MQ_IN_GLOBAL\<rparr>)
     else Some (g, q)
   })"

definition skynet_mq_mark_release :: "mqptr \<Rightarrow> global_queue \<times> 'd message_queue \<Rightarrow>
    (global_queue \<times> 'd message_queue) option" where
  "skynet_mq_mark_release p gq = (case gq of (g, q) \<Rightarrow> do {
     c_assert (\<not> mq_release q);
     let g' = (if mq_in_global q \<noteq> MQ_IN_GLOBAL then skynet_globalmq_push p g else g);
     Some (g', q\<lparr>mq_release := True\<rparr>)
   })"

text \<open>
  \<open>_drop_queue\<close> pops until the queue is empty; the messages it drops are returned, for
  their payloads are what it frees.  \<open>None\<close> would be a loop that never ends;
  \<open>drop_queue_returns\<close> below shows that it ends and drops exactly the waiting messages.
  The result of \<open>skynet_mq_release\<close> is \<open>Some msgs\<close> when the queue was destroyed.
\<close>

partial_function (option) drop_queue ::
    "'d message_queue \<Rightarrow> 'd skynet_message option list option" where
  "drop_queue q =
     (case skynet_mq_pop q of (ret, message, q') \<Rightarrow>
        if ret = 0 then Option.bind (drop_queue q') (\<lambda>ms. Some (message # ms))
        else Some [])"

definition skynet_mq_release :: "mqptr \<Rightarrow> global_queue \<times> 'd message_queue \<Rightarrow>
    (global_queue \<times> 'd message_queue option \<times> 'd skynet_message option list) option" where
  "skynet_mq_release p gq = (case gq of (g, q) \<Rightarrow>
     if mq_release q then do {
       ms \<leftarrow> drop_queue q;
       Some (g, None, ms)
     } else do {
       (g', q') \<leftarrow> skynet_mq_force_push p (g, q);
       Some (g', Some q', [])
     })"

section \<open>The message queue refines a double-ended list\<close>

definition mq_len :: "'d message_queue \<Rightarrow> nat" where
  "mq_len q = (mq_tail q + mq_cap q - mq_head q) mod mq_cap q"

definition mq_cells :: "'d message_queue \<Rightarrow> 'd skynet_message option list" where
  "mq_cells q = ring_seg (mq_queue q) (mq_head q) (mq_len q)"

definition mq_contents :: "'d message_queue \<Rightarrow> 'd skynet_message list" where
  "mq_contents q = map the (mq_cells q)"

definition mq_ok :: "'d message_queue \<Rightarrow> bool" where
  "mq_ok q \<longleftrightarrow> length (mq_queue q) = mq_cap q \<and> mq_head q < mq_cap q \<and> mq_tail q < mq_cap q
     \<and> None \<notin> set (mq_cells q)"

lemma mq_len_eq:
  "mq_head q < mq_cap q \<Longrightarrow> mq_tail q < mq_cap q \<Longrightarrow>
     mq_len q = (if mq_head q \<le> mq_tail q then mq_tail q - mq_head q
                 else mq_tail q + mq_cap q - mq_head q)"
  by (auto simp: mq_len_def mod_if)

lemma mq_tail_eq:
  "mq_head q < mq_cap q \<Longrightarrow> mq_tail q < mq_cap q \<Longrightarrow> (mq_head q + mq_len q) mod mq_cap q = mq_tail q"
  by (auto simp: mq_len_eq)

lemma mq_len_less: "mq_ok q \<Longrightarrow> mq_len q < mq_cap q"
  by (auto simp: mq_ok_def mq_len_eq)

lemma mq_cells_some: "mq_ok q \<Longrightarrow> mq_cells q = map Some (mq_contents q)"
  by (simp add: mq_ok_def mq_contents_def map_Some_the del: map_map)

lemma mq_okI:
  assumes "length (mq_queue q) = mq_cap q" "mq_head q < mq_cap q" "mq_tail q < mq_cap q"
    and "mq_cells q = map Some ms"
  shows "mq_ok q \<and> mq_contents q = ms"
  using assms by (auto simp: mq_ok_def mq_contents_def comp_def)

lemma length_mq_contents: "length (mq_contents q) = mq_len q"
  by (simp add: mq_contents_def mq_cells_def)

lemma mq_create_ok: "mq_ok (skynet_mq_create h) \<and> mq_contents (skynet_mq_create h) = []"
  by (simp add: skynet_mq_create_def mq_ok_def mq_contents_def mq_cells_def mq_len_def
      DEFAULT_QUEUE_SIZE_def)

lemma mq_contents_flags [simp]:
  "mq_contents (q\<lparr>mq_in_global := f\<rparr>) = mq_contents q"
  "mq_contents (q\<lparr>mq_lock_session := s\<rparr>) = mq_contents q"
  "mq_contents (q\<lparr>mq_release := r\<rparr>) = mq_contents q"
  "mq_ok (q\<lparr>mq_in_global := f\<rparr>) = mq_ok q"
  "mq_ok (q\<lparr>mq_lock_session := s\<rparr>) = mq_ok q"
  "mq_ok (q\<lparr>mq_release := r\<rparr>) = mq_ok q"
  by (simp_all add: mq_contents_def mq_cells_def mq_len_def mq_ok_def)

lemma mq_len_0: "mq_ok q \<Longrightarrow> mq_len q = 0 \<longleftrightarrow> mq_head q = mq_tail q"
  by (auto simp: mq_ok_def mq_len_eq split: if_splits)

lemma mq_pop_nonempty:
  assumes ok: "mq_ok q" and c: "mq_contents q = m # ms"
  obtains q' where "skynet_mq_pop q = (0, Some m, q')" "mq_ok q'" "mq_contents q' = ms"
    "mq_in_global q' = mq_in_global q" "mq_lock_session q' = mq_lock_session q"
    "mq_release q' = mq_release q" "mq_handle q' = mq_handle q"
proof -
  define h where "h = (if mq_head q + 1 \<ge> mq_cap q then 0 else mq_head q + 1)"
  define q' where "q' = q\<lparr>mq_head := h\<rparr>"
  have bounds: "length (mq_queue q) = mq_cap q" "mq_head q < mq_cap q" "mq_tail q < mq_cap q"
    using ok by (auto simp: mq_ok_def)
  have h: "h = Suc (mq_head q) mod mq_cap q" "h < mq_cap q"
    using bounds by (auto simp: h_def mod_if)
  obtain n where n: "mq_len q = Suc n"
    using c length_mq_contents [of q] by (cases "mq_len q") auto
  have ne: "mq_head q \<noteq> mq_tail q"
    using mq_len_0 [OF ok] n by simp
  have "mq_len q' = n"
    using n bounds h ne by (auto simp: mq_len_eq q'_def h_def split: if_splits)
  then have cells: "mq_cells q = mq_queue q ! mq_head q # mq_cells q'"
    using ring_seg_Suc_front [of "mq_head q" "mq_queue q" n] bounds h n
    by (simp add: mq_cells_def q'_def)
  moreover have "mq_cells q = Some m # map Some ms"
    using mq_cells_some [OF ok] c by simp
  ultimately have hd: "mq_queue q ! mq_head q = Some m" and "mq_cells q' = map Some ms"
    by auto
  then have "mq_ok q' \<and> mq_contents q' = ms"
    using bounds h by (intro mq_okI) (auto simp: q'_def)
  moreover have "skynet_mq_pop q = (0, Some m, q')"
    using ne hd by (simp add: skynet_mq_pop_def q'_def h_def Let_def)
  ultimately show ?thesis by (intro that [of q']) (simp_all add: q'_def)
qed

lemma mq_pop_empty:
  "mq_ok q \<Longrightarrow> mq_contents q = [] \<Longrightarrow> skynet_mq_pop q = (1, None, q\<lparr>mq_in_global := 0\<rparr>)"
  using mq_len_0 [of q] length_mq_contents [of q] by (simp add: skynet_mq_pop_def)

lemma mq_expand:
  assumes "length (mq_queue q) = mq_cap q" "0 < mq_cap q" "n \<le> mq_cap q"
  shows "ring_seg (mq_queue (expand_queue q)) 0 n = ring_seg (mq_queue q) (mq_head q) n"
  using assms by (intro nth_equalityI) (auto simp: expand_queue_def ring_seg_def nth_append)

lemma mq_store_contents:
  assumes ok: "mq_ok q"
  shows "mq_ok (mq_store m q) \<and> mq_contents (mq_store m q) = mq_contents q @ [m]"
proof -
  define t where "t = (if mq_tail q + 1 \<ge> mq_cap q then 0 else mq_tail q + 1)"
  define q1 where "q1 = q\<lparr>mq_queue := (mq_queue q)[mq_tail q := Some m], mq_tail := t\<rparr>"
  have bounds: "length (mq_queue q) = mq_cap q" "mq_head q < mq_cap q" "mq_tail q < mq_cap q"
    using ok by (auto simp: mq_ok_def)
  have t: "t < mq_cap q" using bounds by (auto simp: t_def)
  have seg: "ring_seg (mq_queue q1) (mq_head q) (Suc (mq_len q)) = map Some (mq_contents q @ [m])"
    using ring_seg_push_back [of "mq_len q" "mq_queue q" "mq_head q" "Some m"]
      mq_len_less [OF ok] mq_tail_eq [of q] mq_cells_some [OF ok] bounds
    by (simp add: q1_def mq_cells_def)
  have store: "mq_store m q = (if mq_head q = t then expand_queue q1 else q1)"
    by (simp add: mq_store_def q1_def t_def Let_def)
  show ?thesis
  proof (cases "mq_head q = t")
    case False
    have "mq_len q1 = Suc (mq_len q)"
      using bounds False t by (auto simp: mq_len_eq q1_def t_def split: if_splits)
    then have "mq_ok q1 \<and> mq_contents q1 = mq_contents q @ [m]"
      using seg bounds t by (intro mq_okI) (simp_all add: mq_cells_def q1_def)
    then show ?thesis using False store by simp
  next
    case True
    have full: "Suc (mq_len q) = mq_cap q"
      using bounds True by (auto simp: mq_len_eq t_def split: if_splits)
    have "mq_len (expand_queue q1) = mq_cap q"
      using bounds by (subst mq_len_eq) (simp_all add: expand_queue_def q1_def Let_def)
    then have "mq_cells (expand_queue q1) = map Some (mq_contents q @ [m])"
      using mq_expand [of q1 "mq_cap q"] seg full bounds
      by (simp add: mq_cells_def expand_queue_def q1_def Let_def)
    then have "mq_ok (expand_queue q1) \<and> mq_contents (expand_queue q1) = mq_contents q @ [m]"
      using bounds by (intro mq_okI) (simp_all add: expand_queue_def q1_def Let_def)
    then show ?thesis using True store by simp
  qed
qed

lemma pushhead_store_contents:
  assumes ok: "mq_ok q"
  shows "mq_ok (pushhead_store m q) \<and> mq_contents (pushhead_store m q) = m # mq_contents q"
proof -
  define h where "h = (if mq_head q = 0 then mq_cap q - 1 else mq_head q - 1)"
  have bounds: "length (mq_queue q) = mq_cap q" "mq_head q < mq_cap q" "mq_tail q < mq_cap q"
    using ok by (auto simp: mq_ok_def)
  have h: "h < mq_cap q" "Suc h mod mq_cap q = mq_head q"
    using bounds by (auto simp: h_def)
  show ?thesis
  proof (cases "h = mq_tail q")
    case False
    define q1 where "q1 = q\<lparr>mq_queue := (mq_queue q)[h := Some m], mq_head := h\<rparr>"
    have "mq_len q1 = Suc (mq_len q)"
      using bounds False h by (auto simp: mq_len_eq q1_def h_def split: if_splits)
    then have "mq_cells q1 = map Some (m # mq_contents q)"
      using ring_seg_push_front [of "mq_len q" "mq_queue q" h "mq_head q" "Some m"]
        mq_len_less [OF ok] mq_cells_some [OF ok] h bounds
      by (simp add: q1_def mq_cells_def)
    moreover have "pushhead_store m q = q1"
      using False by (simp add: pushhead_store_def q1_def h_def Let_def)
    moreover from calculation(1) have "mq_ok q1 \<and> mq_contents q1 = m # mq_contents q"
      using bounds h by (intro mq_okI) (simp_all add: q1_def)
    ultimately show ?thesis by simp
  next
    case True
    define e where "e = expand_queue q"
    define q1 where "q1 = e\<lparr>mq_tail := mq_tail e - 1,
      mq_queue := (mq_queue e)[mq_cap e - 1 := Some m], mq_head := mq_cap e - 1\<rparr>"
    have e: "mq_head e = 0" "mq_tail e = mq_cap q" "mq_cap e = 2 * mq_cap q"
      "length (mq_queue e) = 2 * mq_cap q"
      by (simp_all add: e_def expand_queue_def Let_def)
    have len: "Suc (mq_len q) = mq_cap q"
      using bounds True by (auto simp: mq_len_eq h_def split: if_splits)
    have len1: "mq_len q1 = Suc (mq_len q)"
      using e len by (simp add: mq_len_def q1_def)
    have "ring_seg (mq_queue e) 0 (mq_len q) = map Some (mq_contents q)"
      using mq_expand [of q "mq_len q"] mq_cells_some [OF ok] bounds len
      by (simp add: e_def mq_cells_def)
    then have "mq_cells q1 = map Some (m # mq_contents q)"
      using ring_seg_push_front [of "mq_len q" "mq_queue e" "mq_cap e - 1" 0 "Some m"] e len len1
      by (simp add: q1_def mq_cells_def)
    moreover have "pushhead_store m q = q1"
      using True by (simp add: pushhead_store_def q1_def e_def h_def Let_def)
    moreover from calculation(1) have "mq_ok q1 \<and> mq_contents q1 = m # mq_contents q"
      using bounds e by (intro mq_okI) (simp_all add: q1_def)
    ultimately show ?thesis by simp
  qed
qed

lemma mq_store_flags [simp]:
  "mq_in_global (mq_store m q) = mq_in_global q" "mq_lock_session (mq_store m q) = mq_lock_session q"
  "mq_release (mq_store m q) = mq_release q" "mq_handle (mq_store m q) = mq_handle q"
  by (simp_all add: mq_store_def expand_queue_def Let_def)

lemma pushhead_store_flags [simp]:
  "mq_in_global (pushhead_store m q) = mq_in_global q"
  "mq_lock_session (pushhead_store m q) = mq_lock_session q"
  "mq_release (pushhead_store m q) = mq_release q" "mq_handle (pushhead_store m q) = mq_handle q"
  by (simp_all add: pushhead_store_def expand_queue_def Let_def)

text \<open>The queue as a provider of the FIFO interface.\<close>

abbreviation mq_take :: "'d message_queue \<Rightarrow> 'd skynet_message option \<times> 'd message_queue" where
  "mq_take q \<equiv> snd (skynet_mq_pop q)"

lemma mq_take_inv: "mq_ok q \<Longrightarrow> mq_ok (snd (mq_take q))"
  by (cases "mq_contents q") (auto simp: mq_pop_empty elim: mq_pop_nonempty)

lemma mq_take_nonempty:
  "mq_ok q \<Longrightarrow> mq_contents q = x # xs \<Longrightarrow> fst (mq_take q) = Some x \<and> mq_contents (snd (mq_take q)) = xs"
  by (erule (1) mq_pop_nonempty) simp

interpretation mq: fifo mq_ok mq_contents None mq_store mq_take
  by unfold_locales (simp_all add: mq_store_contents mq_take_inv mq_pop_empty mq_take_nonempty)

lemma drop_queue_returns:
  "mq_ok q \<Longrightarrow> drop_queue q = Some (map Some (mq_contents q))"
proof (induction "mq_contents q" arbitrary: q)
  case Nil
  then show ?case by (simp add: drop_queue.simps mq_pop_empty)
next
  case (Cons m ms)
  from Cons.prems Cons.hyps(2) [symmetric] obtain q'
    where "skynet_mq_pop q = (0, Some m, q')" "mq_ok q'" "mq_contents q' = ms"
    by (rule mq_pop_nonempty)
  with Cons.hyps(1) [of q'] Cons.hyps(2) [symmetric] show ?case by (simp add: drop_queue.simps [of q])
qed

section \<open>Properties\<close>

text \<open>
  A push keeps the circular buffer well formed and puts the message behind all waiting
  messages; only the message that answers the locked session goes in front of them, and it ends
  the lock.  No message is lost or reordered when the buffer grows.
\<close>

theorem mq_push_contents:
  assumes "mq_ok q" and "skynet_mq_push p m (g, q) = Some (g', q')"
  shows "mq_ok q' \<and>
    (if mq_lock_session q \<noteq> 0 \<and> msg_session m = mq_lock_session q
     then mq_contents q' = m # mq_contents q \<and> mq_lock_session q' = 0
     else mq_contents q' = mq_contents q @ [m] \<and> mq_lock_session q' = mq_lock_session q)"
  using assms mq_store_contents [OF assms(1), of m] pushhead_store_contents [OF assms(1), of m]
  by (auto simp: skynet_mq_push_def pushhead_def Let_def split: if_splits)

theorem mq_push_contents_witness:
  "let q = (skynet_mq_create 1 :: unit message_queue)\<lparr>mq_in_global := MQ_DISPATCHING, mq_lock_session := 7\<rparr>;
       m = \<lparr>msg_source = 0, msg_session = 7, msg_data = (), msg_sz = 0\<rparr>;
       q' = (pushhead_store m q)\<lparr>mq_lock_session := 0\<rparr>
   in mq_ok q' \<and> mq_contents q' = [m] \<and> mq_lock_session q' = 0"
proof -
  let ?q = "(skynet_mq_create 1 :: unit message_queue)\<lparr>mq_in_global := MQ_DISPATCHING, mq_lock_session := 7\<rparr>"
  let ?m = "\<lparr>msg_source = 0, msg_session = 7, msg_data = (), msg_sz = 0\<rparr>"
  have "mq_ok ?q" "mq_contents ?q = []" using mq_create_ok [of 1] by auto
  moreover have "skynet_mq_push 0 ?m (skynet_mq_init, ?q) =
      Some (skynet_mq_init, (pushhead_store ?m ?q)\<lparr>mq_lock_session := 0\<rparr>)"
    by (simp add: skynet_mq_push_def pushhead_def MQ_DISPATCHING_def MQ_LOCKED_def Let_def)
  ultimately show ?thesis using mq_push_contents [of ?q 0 ?m] by (fastforce simp: Let_def)
qed



end
