(* ===== verification/GlobalQueue.thy ===== *)
theory GlobalQueue
  imports MessageQueue
begin

text \<open>
  The global queue of runnable services (\<open>skynet_globalmq_push\<close> and \<open>_pop\<close> of
  \<open>skynet-src/skynet_mq.c\<close>) as a bounded FIFO: the 32-bit counters may wrap any number of
  times, and the slots and flags agree with the list of waiting queues as long as at most 65535
  of them wait.
\<close>

definition gq_len :: "global_queue \<Rightarrow> nat" where
  "gq_len q = unat (gq_tail q - gq_head q)"

definition gq_slot :: "global_queue \<Rightarrow> nat \<Rightarrow> nat" where
  "gq_slot q k = (unat (gq_head q) + k) mod MAX_GLOBAL_MQ"

definition gq_cells :: "global_queue \<Rightarrow> mqptr option list" where
  "gq_cells q = map (\<lambda>k. gq_queue q (gq_slot q k)) [0..<gq_len q]"

definition gq_contents :: "global_queue \<Rightarrow> mqptr list" where
  "gq_contents q = map the (gq_cells q)"

definition gq_ok :: "global_queue \<Rightarrow> bool" where
  "gq_ok q \<longleftrightarrow> gq_len q < MAX_GLOBAL_MQ \<and> None \<notin> set (gq_cells q)
     \<and> (\<forall>i < MAX_GLOBAL_MQ. gq_flag q i \<longleftrightarrow> (\<exists>k < gq_len q. i = gq_slot q k))"

lemma length_gq_contents: "length (gq_contents q) = gq_len q"
  by (simp add: gq_contents_def gq_cells_def)

lemma gq_cells_some: "gq_ok q \<Longrightarrow> gq_cells q = map Some (gq_contents q)"
  by (simp add: gq_ok_def gq_contents_def map_Some_the del: map_map)

lemma gq_slot_less [simp]: "gq_slot q k < MAX_GLOBAL_MQ"
  by (simp add: gq_slot_def MAX_GLOBAL_MQ_def)

lemma gq_slot_inj:
  "i < MAX_GLOBAL_MQ \<Longrightarrow> j < MAX_GLOBAL_MQ \<Longrightarrow> gq_slot q i = gq_slot q j \<longleftrightarrow> i = j"
  using ring_index_inj unfolding gq_slot_def by blast

lemma GP_head: "GP (gq_head q) = gq_slot q 0"
  by (simp add: GP_def gq_slot_def)

lemma mod_mod_MAX: "(n mod 4294967296) mod MAX_GLOBAL_MQ = n mod MAX_GLOBAL_MQ" for n :: nat
  by (rule mod_mod_cancel) (simp add: MAX_GLOBAL_MQ_def)

lemma GP_tail: "GP (gq_tail q) = gq_slot q (gq_len q)"
proof -
  have "unat (gq_head q + (gq_tail q - gq_head q)) = (unat (gq_head q) + gq_len q) mod 4294967296"
    unfolding gq_len_def by (subst unat_word_ariths) simp
  then have "unat (gq_tail q) = (unat (gq_head q) + gq_len q) mod 4294967296" by simp
  then show ?thesis by (simp add: GP_def gq_slot_def mod_mod_MAX)
qed

lemma gq_slot_Suc_head: "gq_head q' = gq_head q + 1 \<Longrightarrow> gq_slot q' k = gq_slot q (Suc k)"
proof -
  assume "gq_head q' = gq_head q + 1"
  then have "unat (gq_head q') = (unat (gq_head q) + 1) mod 4294967296"
    by (simp add: unat_word_ariths)
  then have "gq_slot q' k = ((unat (gq_head q) + 1) mod 4294967296 + k) mod MAX_GLOBAL_MQ"
    by (simp add: gq_slot_def)
  also have "\<dots> = gq_slot q (Suc k)"
    unfolding gq_slot_def by (metis mod_mod_MAX add_Suc_right add_Suc_shift mod_add_left_eq Suc_eq_plus1)
  finally show ?thesis .
qed

lemma gq_len_Suc_tail:
  "gq_len q < MAX_GLOBAL_MQ \<Longrightarrow> gq_tail q' = gq_tail q + 1 \<Longrightarrow> gq_head q' = gq_head q \<Longrightarrow>
   gq_len q' = Suc (gq_len q)"
proof -
  assume a: "gq_len q < MAX_GLOBAL_MQ" "gq_tail q' = gq_tail q + 1" "gq_head q' = gq_head q"
  have "gq_tail q' - gq_head q' = (gq_tail q - gq_head q) + 1" using a by simp
  then show ?thesis
    using a(1) unfolding gq_len_def MAX_GLOBAL_MQ_def by (simp add: unat_word_ariths)
qed

lemma gq_len_Suc_head:
  "0 < gq_len q \<Longrightarrow> gq_head q' = gq_head q + 1 \<Longrightarrow> gq_tail q' = gq_tail q \<Longrightarrow>
   gq_len q = Suc (gq_len q')"
proof -
  assume a: "0 < gq_len q" "gq_head q' = gq_head q + 1" "gq_tail q' = gq_tail q"
  then have "gq_tail q - gq_head q \<noteq> 0" by (auto simp: gq_len_def)
  then have "unat (gq_tail q - gq_head q - 1) = unat (gq_tail q - gq_head q) - 1"
    by (simp add: unat_minus_one)
  then show ?thesis using a by (simp add: gq_len_def diff_diff_eq)
qed

lemma gq_init_ok: "gq_ok skynet_mq_init \<and> gq_contents skynet_mq_init = []"
  by (simp add: gq_ok_def gq_contents_def gq_cells_def gq_len_def skynet_mq_init_def MAX_GLOBAL_MQ_def)

lemma gq_push:
  assumes ok: "gq_ok q" and room: "Suc (gq_len q) < MAX_GLOBAL_MQ"
  shows "gq_ok (skynet_globalmq_push p q) \<and> gq_contents (skynet_globalmq_push p q) = gq_contents q @ [p]"
proof -
  define q' where "q' = skynet_globalmq_push p q"
  have len: "gq_len q' = Suc (gq_len q)"
    using ok by (intro gq_len_Suc_tail) (simp_all add: gq_ok_def q'_def skynet_globalmq_push_def Let_def)
  have slot [simp]: "gq_slot q' = gq_slot q"
    by (simp add: fun_eq_iff gq_slot_def q'_def skynet_globalmq_push_def Let_def)
  have queue: "gq_queue q' = (gq_queue q)(gq_slot q (gq_len q) := Some p)"
    and flag: "gq_flag q' = (gq_flag q)(gq_slot q (gq_len q) := True)"
    by (simp_all add: q'_def skynet_globalmq_push_def Let_def GP_tail)
  have "k < gq_len q \<Longrightarrow> gq_slot q k \<noteq> gq_slot q (gq_len q)" for k
    using room by (simp add: gq_slot_inj)
  then have cells: "gq_cells q' = gq_cells q @ [Some p]"
    by (simp add: gq_cells_def len queue)
  moreover have "\<forall>i < MAX_GLOBAL_MQ. gq_flag q' i \<longleftrightarrow> (\<exists>k < gq_len q'. i = gq_slot q' k)"
    using ok by (auto simp: gq_ok_def flag len less_Suc_eq)
  ultimately show ?thesis
    using ok room len unfolding q'_def [symmetric] by (simp add: gq_ok_def gq_contents_def)
qed

lemma gq_pop_empty: "gq_ok q \<Longrightarrow> gq_contents q = [] \<Longrightarrow> skynet_globalmq_pop q = (None, q)"
  using length_gq_contents [of q]
  by (simp add: skynet_globalmq_pop_def GP_head GP_tail Let_def)

lemma gq_pop_nonempty:
  assumes ok: "gq_ok q" and c: "gq_contents q = p # ps"
  shows "fst (skynet_globalmq_pop q) = Some p \<and> gq_contents (snd (skynet_globalmq_pop q)) = ps
    \<and> gq_ok (snd (skynet_globalmq_pop q))"
proof -
  define q' where "q' = q\<lparr>gq_head := gq_head q + 1, gq_flag := (gq_flag q)(gq_slot q 0 := False)\<rparr>"
  have pos: "0 < gq_len q" using c length_gq_contents [of q] by auto
  have max: "gq_len q < MAX_GLOBAL_MQ" using ok by (simp add: gq_ok_def)
  have len: "gq_len q = Suc (gq_len q')"
    using pos by (intro gq_len_Suc_head) (simp_all add: q'_def)
  have slot: "gq_slot q' k = gq_slot q (Suc k)" for k
    by (rule gq_slot_Suc_head) (simp add: q'_def)
  have flag0: "gq_flag q (gq_slot q 0)" using ok pos by (auto simp: gq_ok_def)
  have "gq_slot q 0 \<noteq> gq_slot q (gq_len q)" using pos max by (simp add: gq_slot_inj)
  then have pop: "skynet_globalmq_pop q = (gq_queue q (gq_slot q 0), q')"
    using flag0 by (simp add: skynet_globalmq_pop_def GP_head GP_tail q'_def Let_def)
  have "gq_cells q = gq_queue q (gq_slot q 0) # gq_cells q'"
    unfolding gq_cells_def len by (subst upt_conv_Cons, simp, subst map_Suc_upt [symmetric])
      (simp add: slot comp_def, simp add: q'_def)
  then have hd: "gq_queue q (gq_slot q 0) = Some p" and tl: "gq_cells q' = map Some ps"
    using gq_cells_some [OF ok] c by auto
  have "gq_flag q' i \<longleftrightarrow> (\<exists>k < gq_len q'. i = gq_slot q' k)" if i: "i < MAX_GLOBAL_MQ" for i
  proof -
    have "gq_flag q i \<longleftrightarrow> i = gq_slot q 0 \<or> (\<exists>k < gq_len q'. i = gq_slot q (Suc k))"
      using ok i unfolding gq_ok_def len by (auto simp: less_Suc_eq_0_disj)
    moreover have "k < gq_len q' \<Longrightarrow> gq_slot q 0 \<noteq> gq_slot q (Suc k)" for k
      using max len by (simp add: gq_slot_inj)
    ultimately show ?thesis unfolding slot by (auto simp: q'_def)
  qed
  then have "gq_ok q'" using tl max len by (auto simp: gq_ok_def)
  then show ?thesis using pop hd tl by (simp add: gq_contents_def comp_def)
qed

interpretation gq: fifo gq_ok gq_contents "Some 65535" skynet_globalmq_push skynet_globalmq_pop
proof (unfold_locales, goal_cases)
  case (1 q x) then show ?case
    using gq_push [of q x] by (simp add: within_bound_def length_gq_contents MAX_GLOBAL_MQ_def)
next
  case (2 q x) then show ?case
    using gq_push [of q x] by (simp add: within_bound_def length_gq_contents MAX_GLOBAL_MQ_def)
next
  case (3 q) then show ?case
    by (cases "gq_contents q") (simp_all add: gq_pop_empty gq_pop_nonempty)
next
  case (4 q) then show ?case by (simp add: gq_pop_empty)
next
  case (5 q x xs) then show ?case by (simp add: gq_pop_nonempty)
qed

section \<open>Properties\<close>

text \<open>
  The global queue hands out runnable services in the order they became runnable, for any
  number of wrap-arounds of its 32-bit counters, as long as at most 65535 of them wait.
\<close>

theorem gq_service_order:
  assumes "gq_ok q" and "length (gq_contents q) + length ps \<le> 65535"
  shows "fst (pop_n skynet_globalmq_pop (length (gq_contents q) + length ps)
      (fold skynet_globalmq_push ps q)) = gq_contents q @ ps"
  by (rule gq.fifo_order) (simp_all add: assms within_bound_def)

theorem gq_service_order_witness:
  "fst (pop_n skynet_globalmq_pop 3 (fold skynet_globalmq_push [10, 20, 30]
     (skynet_mq_init\<lparr>gq_head := 0xFFFFFFFF, gq_tail := 0xFFFFFFFF\<rparr>))) = [10, 20, 30]"
proof -
  let ?q = "skynet_mq_init\<lparr>gq_head := 0xFFFFFFFF, gq_tail := 0xFFFFFFFF\<rparr>"
  have "gq_ok ?q" "gq_contents ?q = []"
    by (simp_all add: gq_ok_def gq_contents_def gq_cells_def gq_len_def skynet_mq_init_def MAX_GLOBAL_MQ_def)
  then show ?thesis using gq_service_order [of ?q "[10, 20, 30]"]
    by (simp add: numeral_3_eq_3 del: pop_n.simps)
qed

text \<open>
  The capacity is exact: with 65535 queues waiting, one more push makes the ring look empty,
  and every later pop finds nothing, so no service is ever scheduled again by popping alone.
\<close>

theorem gq_overflow:
  assumes ok: "gq_ok q" and full: "length (gq_contents q) = 65535"
  shows "skynet_globalmq_pop (skynet_globalmq_push p q) = (None, skynet_globalmq_push p q)"
proof -
  let ?q' = "skynet_globalmq_push p q"
  have "gq_len ?q' = Suc (gq_len q)"
    using ok by (intro gq_len_Suc_tail) (simp_all add: gq_ok_def skynet_globalmq_push_def Let_def)
  then have "GP (gq_head ?q') = GP (gq_tail ?q')"
    using full by (simp add: length_gq_contents GP_head GP_tail) (simp add: gq_slot_def MAX_GLOBAL_MQ_def)
  then show ?thesis by (simp add: skynet_globalmq_pop_def)
qed

theorem gq_overflow_witness:
  "let q = fold skynet_globalmq_push (replicate 65535 4) skynet_mq_init
   in skynet_globalmq_pop (skynet_globalmq_push 9 q) = (None, skynet_globalmq_push 9 q)"
  using gq_overflow [of "fold skynet_globalmq_push (replicate 65535 4) skynet_mq_init" 9]
    gq.push_all [of skynet_mq_init "replicate 65535 4"] gq_init_ok
  by (simp add: within_bound_def Let_def)

end
