(* ===== verification/Scheduler.thy ===== *)
theory Scheduler
  imports GlobalQueue "HOL-Library.Multiset"
begin

text \<open>
  How worker threads, senders, creators and retiring services interleave on the message queues:
  the steps of \<open>skynet_context_message_dispatch\<close>, \<open>skynet_context_push\<close>,
  \<open>skynet_context_new\<close> and \<open>skynet_handle_retire\<close> (files
  \<open>skynet-src/skynet_server.c\<close> and \<open>skynet_handle.c\<close>), cut where another thread can
  run in between.  An activity is what one thread is in the middle of; the threads themselves
  are interchangeable, so their activities form a multiset.  The operations on the queues are
  those of \<open>MessageQueue\<close>, unchanged.

  A thread that took a queue out of the global queue, or created it, holds the queue's
  \<^emph>\<open>token\<close>; a thread that grabbed the service's context holds a \<^emph>\<open>reference\<close>.
\<close>

section \<open>States and steps\<close>

datatype 'd activity =
    Creating mqptr \<comment> \<open>in \<open>skynet_context_new\<close>, before \<open>skynet_context_release\<close>\<close>
  | Launching mqptr \<comment> \<open>same, the context reference dropped\<close>
  | Fetched mqptr \<comment> \<open>after \<open>skynet_globalmq_pop\<close>\<close>
  | Grabbed mqptr \<comment> \<open>after \<open>skynet_handle_grab\<close>, before \<open>skynet_mq_pop\<close>\<close>
  | Running mqptr \<comment> \<open>in the service's callback\<close>
  | Finishing mqptr \<comment> \<open>before \<open>skynet_mq_pushglobal\<close>\<close>
  | Leaving mqptr \<comment> \<open>after a \<open>skynet_mq_pop\<close> that found nothing\<close>
  | Sending mqptr "'d skynet_message" \<comment> \<open>in \<open>skynet_context_push\<close>, before the push\<close>
  | Sent mqptr \<comment> \<open>same, after the push\<close>

fun token_of :: "'d activity \<Rightarrow> mqptr option" where
  "token_of (Creating p) = Some p"
| "token_of (Launching p) = Some p"
| "token_of (Fetched p) = Some p"
| "token_of (Grabbed p) = Some p"
| "token_of (Running p) = Some p"
| "token_of (Finishing p) = Some p"
| "token_of _ = None"

fun ref_of :: "'d activity \<Rightarrow> mqptr option" where
  "ref_of (Creating p) = Some p"
| "ref_of (Grabbed p) = Some p"
| "ref_of (Running p) = Some p"
| "ref_of (Leaving p) = Some p"
| "ref_of (Sending p m) = Some p"
| "ref_of (Sent p) = Some p"
| "ref_of _ = None"

record 'd sched =
  s_gq :: global_queue
  s_mq :: "mqptr \<Rightarrow> 'd message_queue option"
  s_reg :: "mqptr \<Rightarrow> bool" \<comment> \<open>the handle table still refers to the context\<close>
  s_ref :: "mqptr \<Rightarrow> nat" \<comment> \<open>\<open>ctx->ref\<close>\<close>
  s_acts :: "'d activity multiset"

definition sched_init :: "'d sched" where
  "sched_init = \<lparr>s_gq = skynet_mq_init, s_mq = (\<lambda>_. None), s_reg = (\<lambda>_. False),
                 s_ref = (\<lambda>_. 0), s_acts = {#}\<rparr>"

definition become :: "'d activity \<Rightarrow> 'd activity multiset \<Rightarrow> 'd sched \<Rightarrow> 'd sched" where
  "become x ys s = s\<lparr>s_acts := s_acts s - {#x#} + ys\<rparr>"

text \<open>\<open>skynet_context_release\<close>: the last reference destroys the context and marks its queue.\<close>

definition release_ref :: "mqptr \<Rightarrow> 'd sched \<Rightarrow> 'd sched option" where
  "release_ref p s =
     (if s_ref s p = 1 then
        (case s_mq s p of
           None \<Rightarrow> None
         | Some q \<Rightarrow> do {
             (g, q') \<leftarrow> skynet_mq_mark_release p (s_gq s, q);
             Some (s\<lparr>s_ref := (s_ref s)(p := 0), s_gq := g, s_mq := (s_mq s)(p := Some q')\<rparr>)
           })
      else Some (s\<lparr>s_ref := (s_ref s)(p := s_ref s p - 1)\<rparr>))"

datatype 'd action =
    Create mqptr u32 | CreateDone mqptr | Launch mqptr
  | Fetch | Grab mqptr | Discard "'d activity" mqptr | Pop mqptr | Lock mqptr i32
  | Return mqptr | PushGlobal mqptr | Leave mqptr
  | SendGrab mqptr "'d skynet_message" | SendPush mqptr "'d skynet_message" | SendDone mqptr
  | Retire mqptr

text \<open>
  When a step can be taken.  Creation needs a fresh queue and room for its token; the bound on
  the number of queues is the capacity of the global queue.
\<close>

fun enabled :: "'d action \<Rightarrow> 'd sched \<Rightarrow> bool" where
  "enabled (Create p h) s = (s_mq s p = None \<and> card {p. s_mq s p \<noteq> None} < 65535)"
| "enabled (CreateDone p) s = (Creating p \<in># s_acts s)"
| "enabled (Launch p) s = (Launching p \<in># s_acts s)"
| "enabled Fetch s = (fst (skynet_globalmq_pop (s_gq s)) \<noteq> None)"
| "enabled (Grab p) s = (Fetched p \<in># s_acts s \<and> s_reg s p)"
| "enabled (Discard x p) s =
     (x \<in># s_acts s \<and> (x = Fetched p \<or> x = Launching p) \<and> \<not> s_reg s p)"
| "enabled (Pop p) s = (Grabbed p \<in># s_acts s)"
| "enabled (Lock p session) s = (Running p \<in># s_acts s)"
| "enabled (Return p) s = (Running p \<in># s_acts s)"
| "enabled (PushGlobal p) s = (Finishing p \<in># s_acts s)"
| "enabled (Leave p) s = (Leaving p \<in># s_acts s)"
| "enabled (SendGrab p m) s = s_reg s p"
| "enabled (SendPush p m) s = (Sending p m \<in># s_acts s)"
| "enabled (SendDone p) s = (Sent p \<in># s_acts s)"
| "enabled (Retire p) s = s_reg s p"

text \<open>An operation on the queue at \<open>p\<close>; \<open>None\<close> when the queue is gone or an assertion fails.\<close>

definition on_mq :: "mqptr \<Rightarrow> (global_queue \<times> 'd message_queue \<Rightarrow> (global_queue \<times> 'd message_queue) option)
    \<Rightarrow> 'd sched \<Rightarrow> 'd sched option" where
  "on_mq p f s = (case s_mq s p of
     None \<Rightarrow> None
   | Some q \<Rightarrow> do {
       (g, q') \<leftarrow> f (s_gq s, q);
       Some (s\<lparr>s_gq := g, s_mq := (s_mq s)(p := Some q')\<rparr>)
     })"

fun sched_do :: "'d action \<Rightarrow> 'd sched \<Rightarrow> 'd sched option" where
  "sched_do (Create p h) s = Some (s\<lparr>s_mq := (s_mq s)(p := Some (skynet_mq_create h)),
     s_reg := (s_reg s)(p := True), s_ref := (s_ref s)(p := 2), s_acts := add_mset (Creating p) (s_acts s)\<rparr>)"
| "sched_do (CreateDone p) s = release_ref p (become (Creating p) {#Launching p#} s)"
| "sched_do (Launch p) s = on_mq p (skynet_mq_force_push p) (become (Launching p) {#} s)"
| "sched_do Fetch s = (case skynet_globalmq_pop (s_gq s) of (r, g) \<Rightarrow>
     (case r of None \<Rightarrow> Some (s\<lparr>s_gq := g\<rparr>)
      | Some p \<Rightarrow> Some (s\<lparr>s_gq := g, s_acts := add_mset (Fetched p) (s_acts s)\<rparr>)))"
| "sched_do (Grab p) s =
     Some (become (Fetched p) {#Grabbed p#} (s\<lparr>s_ref := (s_ref s)(p := s_ref s p + 1)\<rparr>))"
| "sched_do (Discard x p) s = (case s_mq s p of None \<Rightarrow> None | Some q \<Rightarrow> do {
     (g, r, ms) \<leftarrow> skynet_mq_release p (s_gq s, q);
     Some (become x {#} (s\<lparr>s_gq := g, s_mq := (s_mq s)(p := r)\<rparr>))
   })"
| "sched_do (Pop p) s = (case s_mq s p of None \<Rightarrow> None | Some q \<Rightarrow>
     (case skynet_mq_pop q of (ret, message, q') \<Rightarrow>
        Some (become (Grabbed p) (if ret = 0 then {#Running p#} else {#Leaving p#})
          (s\<lparr>s_mq := (s_mq s)(p := Some q')\<rparr>))))"
| "sched_do (Lock p session) s = on_mq p (\<lambda>(g, q). do { q' \<leftarrow> skynet_mq_lock session q; Some (g, q') }) s"
| "sched_do (Return p) s = release_ref p (become (Running p) {#Finishing p#} s)"
| "sched_do (PushGlobal p) s = on_mq p (skynet_mq_pushglobal p) (become (Finishing p) {#} s)"
| "sched_do (Leave p) s = release_ref p (become (Leaving p) {#} s)"
| "sched_do (SendGrab p m) s =
     Some (s\<lparr>s_ref := (s_ref s)(p := s_ref s p + 1), s_acts := add_mset (Sending p m) (s_acts s)\<rparr>)"
| "sched_do (SendPush p m) s = on_mq p (skynet_mq_push p m) (become (Sending p m) {#Sent p#} s)"
| "sched_do (SendDone p) s = release_ref p (become (Sent p) {#} s)"
| "sched_do (Retire p) s = release_ref p (s\<lparr>s_reg := (s_reg s)(p := False)\<rparr>)"

text \<open>
  The one thing that must not happen: the last reference to a service goes away while one of
  its callbacks that set the session lock has not yet put the queue back.  \<open>Findings\<close>
  shows what happens then.
\<close>

fun drops :: "'d action \<Rightarrow> mqptr option" where
  "drops (CreateDone p) = Some p"
| "drops (Return p) = Some p"
| "drops (Leave p) = Some p"
| "drops (SendDone p) = Some p"
| "drops (Retire p) = Some p"
| "drops _ = None"

definition lawful :: "'d action \<Rightarrow> 'd sched \<Rightarrow> bool" where
  "lawful a s = (case drops a of None \<Rightarrow> True | Some p \<Rightarrow>
     (case s_mq s p of None \<Rightarrow> True | Some q \<Rightarrow>
        s_ref s p = 1 \<longrightarrow> mq_in_global q \<noteq> MQ_DISPATCHING))"

inductive sched_step :: "'d sched \<Rightarrow> 'd sched \<Rightarrow> bool" where
  act: "enabled a s \<Longrightarrow> lawful a s \<Longrightarrow> sched_do a s = Some t \<Longrightarrow> sched_step s t"

inductive sched_reachable :: "'d sched \<Rightarrow> bool" where
  start: "sched_reachable sched_init"
| step: "sched_reachable s \<Longrightarrow> sched_step s t \<Longrightarrow> sched_reachable t"

inductive_cases sched_stepE: "sched_step s t"

section \<open>The invariant\<close>

definition held :: "('d activity \<Rightarrow> bool) \<Rightarrow> 'd sched \<Rightarrow> nat" where
  "held P s = size (filter_mset P (s_acts s))"

definition tokens :: "'d sched \<Rightarrow> mqptr \<Rightarrow> nat" where
  "tokens s p = count (mset (gq_contents (s_gq s))) p + held (\<lambda>x. token_of x = Some p) s"

definition refs :: "'d sched \<Rightarrow> mqptr \<Rightarrow> nat" where
  "refs s p = (if s_reg s p then 1 else 0) + held (\<lambda>x. ref_of x = Some p) s"

definition firm :: "'d sched \<Rightarrow> mqptr \<Rightarrow> nat" where
  "firm s p = held (\<lambda>x. token_of x = Some p \<and> x \<noteq> Fetched p) s"

definition busy :: "'d sched \<Rightarrow> mqptr \<Rightarrow> nat" where
  "busy s p = held (\<lambda>x. x = Running p \<or> x = Finishing p) s"

definition queue_core :: "'d sched \<Rightarrow> mqptr \<Rightarrow> 'd message_queue \<Rightarrow> bool" where
  "queue_core s p q \<longleftrightarrow>
     mq_ok q \<and> mq_in_global q \<le> 3
     \<and> tokens s p = (if mq_in_global q = 1 \<or> mq_in_global q = 2 \<or> mq_release q then 1 else 0)
     \<and> (0 < firm s p \<longrightarrow> mq_in_global q = 1 \<or> mq_in_global q = 2)
     \<and> (mq_in_global q = 2 \<longrightarrow> 0 < busy s p \<and> \<not> mq_release q)
     \<and> (mq_lock_session q \<noteq> 0 \<longrightarrow> mq_in_global q = 2 \<or> mq_in_global q = 3)
     \<and> (mq_in_global q = 3 \<longrightarrow> mq_lock_session q \<noteq> 0)
     \<and> (mq_in_global q = 0 \<longrightarrow> mq_contents q = [])"

definition queue_inv :: "'d sched \<Rightarrow> mqptr \<Rightarrow> 'd message_queue \<Rightarrow> bool" where
  "queue_inv s p q \<longleftrightarrow> queue_core s p q \<and> s_ref s p = refs s p \<and> (mq_release q \<longleftrightarrow> s_ref s p = 0)"

definition ptr_inv :: "'d sched \<Rightarrow> mqptr \<Rightarrow> bool" where
  "ptr_inv s p = (case s_mq s p of
     None \<Rightarrow> tokens s p = 0 \<and> s_ref s p = 0 \<and> refs s p = 0
   | Some q \<Rightarrow> queue_inv s p q)"

definition sched_inv :: "'d sched \<Rightarrow> bool" where
  "sched_inv s \<longleftrightarrow> gq_ok (s_gq s) \<and> finite {p. s_mq s p \<noteq> None} \<and> card {p. s_mq s p \<noteq> None} \<le> 65535
     \<and> (\<forall>p. ptr_inv s p)"

lemmas mq_flag_defs = MQ_IN_GLOBAL_def MQ_DISPATCHING_def MQ_LOCKED_def
lemmas count_defs = tokens_def refs_def firm_def busy_def held_def

lemma ptr_inv_cong:
  assumes "s_mq t p = s_mq s p" "s_ref t p = s_ref s p" "tokens t p = tokens s p"
    "refs t p = refs s p" "firm t p = firm s p" "busy t p = busy s p" "ptr_inv s p"
  shows "ptr_inv t p"
  using assms(7) unfolding ptr_inv_def queue_inv_def queue_core_def assms(1-6) .

lemma sched_invD:
  "sched_inv s \<Longrightarrow> ptr_inv s p"
  "sched_inv s \<Longrightarrow> gq_ok (s_gq s)"
  "sched_inv s \<Longrightarrow> finite {p. s_mq s p \<noteq> None}"
  "sched_inv s \<Longrightarrow> card {p. s_mq s p \<noteq> None} \<le> 65535"
  by (simp_all add: sched_inv_def)

lemma sched_inv_queue: "sched_inv s \<Longrightarrow> s_mq s p = Some q \<Longrightarrow> queue_inv s p q"
  using sched_invD(1) [of s p] by (simp add: ptr_inv_def)

lemma held_pos: "x \<in># s_acts s \<Longrightarrow> P x \<Longrightarrow> 0 < held P s"
  using multi_member_split [of x "s_acts s"] by (auto simp: held_def)

lemma token_queue: "sched_inv s \<Longrightarrow> 0 < tokens s p \<or> 0 < refs s p \<Longrightarrow> \<exists>q. s_mq s p = Some q"
  using sched_invD(1) [of s p] by (cases "s_mq s p") (auto simp: ptr_inv_def)

lemma tokens_le_1: "sched_inv s \<Longrightarrow> tokens s p \<le> 1"
  using sched_invD(1) [of s p] by (auto simp: ptr_inv_def queue_inv_def queue_core_def split: option.splits if_splits)

text \<open>The global queue never holds more entries than there are queues.\<close>

lemma sched_gq_length:
  assumes inv: "sched_inv s" and p: "s_mq s p \<noteq> None" "p \<notin> set (gq_contents (s_gq s))"
  shows "gq_len (s_gq s) < 65535"
proof -
  let ?xs = "gq_contents (s_gq s)"
  have "count (mset ?xs) x \<le> 1" for x
    using tokens_le_1 [OF inv, of x] by (simp add: tokens_def)
  then have dist: "distinct ?xs"
    by (metis distinct_count_atmost_1 in_multiset_in_set not_in_iff le_antisym not_less_eq_eq One_nat_def
        count_greater_zero_iff Suc_leI)
  have sub: "set ?xs \<subseteq> {p. s_mq s p \<noteq> None} - {p}"
  proof
    fix x assume x: "x \<in> set ?xs"
    then have "0 < tokens s x" by (simp add: tokens_def)
    then show "x \<in> {p. s_mq s p \<noteq> None} - {p}"
      using token_queue [OF inv, of x] x p by auto
  qed
  have "length ?xs = card (set ?xs)" using dist by (simp add: distinct_card)
  also have "\<dots> \<le> card ({p. s_mq s p \<noteq> None} - {p})"
    using sub sched_invD(3) [OF inv] by (intro card_mono) auto
  also have "\<dots> < 65535"
    using sched_invD(3,4) [OF inv] p by (simp add: card_gt_0_iff)
  finally show ?thesis by (simp add: length_gq_contents)
qed

lemma sched_push:
  assumes "sched_inv s" "s_mq s p \<noteq> None" "p \<notin> set (gq_contents (s_gq s))"
  shows "gq_ok (skynet_globalmq_push p (s_gq s)) \<and>
    gq_contents (skynet_globalmq_push p (s_gq s)) = gq_contents (s_gq s) @ [p]"
  using sched_gq_length [OF assms] sched_invD(2) [OF assms(1)]
  by (intro gq_push) (simp_all add: MAX_GLOBAL_MQ_def)

section \<open>Every step keeps the invariant\<close>

lemma sched_invI:
  assumes "sched_inv s" "gq_ok (s_gq t)" "{p'. s_mq t p' \<noteq> None} \<subseteq> {p'. s_mq s p' \<noteq> None}"
    "ptr_inv t p" "\<And>p'. p' \<noteq> p \<Longrightarrow> ptr_inv t p'"
  shows "sched_inv t"
  unfolding sched_inv_def
proof (intro conjI)
  show "finite {p. s_mq t p \<noteq> None}"
    by (rule finite_subset [OF assms(3) sched_invD(3) [OF assms(1)]])
  show "card {p. s_mq t p \<noteq> None} \<le> 65535"
    using card_mono [OF sched_invD(3) [OF assms(1)] assms(3)] sched_invD(4) [OF assms(1)] by simp
  show "\<forall>p. ptr_inv t p" using assms(4,5) by metis
qed (rule assms(2))

text \<open>Dropping a reference.  \<open>u\<close> is the state with the activity already gone.\<close>

lemma mark_release_core:
  assumes inv: "sched_inv s" and q: "s_mq s p = Some q" and gq: "s_gq u = s_gq s"
    and same: "tokens u p = tokens s p" "firm u p = firm s p" "busy u p = busy s p"
    and live: "\<not> mq_release q" and lawful: "mq_in_global q \<noteq> 2"
  obtains g where "skynet_mq_mark_release p (s_gq u, q) = Some (g, q\<lparr>mq_release := True\<rparr>)"
    "gq_ok g" "\<And>v. s_gq v = g \<Longrightarrow> s_acts v = s_acts u \<Longrightarrow> queue_core v p (q\<lparr>mq_release := True\<rparr>)"
    "\<And>p'. p' \<noteq> p \<Longrightarrow> count (mset (gq_contents g)) p' = count (mset (gq_contents (s_gq s))) p'"
proof (cases "mq_in_global q = 1")
  case True
  have "queue_core s p q" using sched_inv_queue [OF inv q] by (simp add: queue_inv_def)
  then show ?thesis
    using True live same gq sched_invD(2) [OF inv]
    by (intro that [of "s_gq u"])
      (auto simp: skynet_mq_mark_release_def mq_flag_defs queue_core_def count_defs)
next
  case False
  have core: "queue_core s p q" using sched_inv_queue [OF inv q] by (simp add: queue_inv_def)
  then have 0: "tokens s p = 0" using False lawful live by (simp add: queue_core_def)
  then have "p \<notin> set (gq_contents (s_gq s))" by (simp add: tokens_def)
  then have push: "gq_ok (skynet_globalmq_push p (s_gq s))"
    "gq_contents (skynet_globalmq_push p (s_gq s)) = gq_contents (s_gq s) @ [p]"
    using sched_push [OF inv] q by simp_all
  have "queue_core v p (q\<lparr>mq_release := True\<rparr>)"
    if "s_gq v = skynet_globalmq_push p (s_gq s)" "s_acts v = s_acts u" for v
    using core that push 0 same gq False lawful by (auto simp: queue_core_def count_defs)
  then show ?thesis
    using False live push gq
    by (intro that [of "skynet_globalmq_push p (s_gq s)"])
      (simp_all add: skynet_mq_mark_release_def mq_flag_defs)
qed

lemma drop_ref:
  assumes inv: "sched_inv s"
    and u: "s_mq u = s_mq s" "s_ref u = s_ref s" "s_gq u = s_gq s"
    and same: "\<And>p'. tokens u p' = tokens s p'" "\<And>p'. firm u p' = firm s p'" "\<And>p'. busy u p' = busy s p'"
      "\<And>p'. p' \<noteq> p \<Longrightarrow> refs u p' = refs s p'" "refs s p = Suc (refs u p)"
    and lawful: "\<And>q. s_ref s p = 1 \<Longrightarrow> s_mq s p = Some q \<Longrightarrow> mq_in_global q \<noteq> 2"
  shows "\<exists>t. release_ref p u = Some t \<and> sched_inv t"
proof -
  obtain q where q: "s_mq s p = Some q" using token_queue [OF inv, of p] same(5) by auto
  have qi: "queue_core s p q" "s_ref s p = refs s p" "\<not> mq_release q"
    using sched_inv_queue [OF inv q] same(5) by (auto simp: queue_inv_def)
  have other: "ptr_inv v p'" if "p' \<noteq> p" "s_mq v p' = s_mq s p'" "s_ref v p' = s_ref s p'"
    "s_acts v = s_acts u" "s_reg v p' = s_reg u p'"
    "count (mset (gq_contents (s_gq v))) p' = count (mset (gq_contents (s_gq s))) p'" for v p'
    using same(1-3) [of p'] same(4) [OF that(1)] that u(3) sched_invD(1) [OF inv, of p']
    by (intro ptr_inv_cong [of v p' s]) (simp_all add: count_defs)
  show ?thesis
  proof (cases "s_ref s p = 1")
    case False
    define t where "t = u\<lparr>s_ref := (s_ref u)(p := s_ref u p - 1)\<rparr>"
    have "ptr_inv t p"
      using False q qi u same by (auto simp: t_def ptr_inv_def queue_inv_def queue_core_def count_defs)
    moreover have "ptr_inv t p'" if "p' \<noteq> p" for p'
      using that u by (intro other) (simp_all add: t_def)
    ultimately have "sched_inv t"
      using u sched_invD(2) [OF inv] by (intro sched_invI [OF inv, of t p]) (auto simp: t_def)
    moreover have "release_ref p u = Some t" using False u by (simp add: release_ref_def t_def)
    ultimately show ?thesis by blast
  next
    case True
    obtain g where g: "skynet_mq_mark_release p (s_gq u, q) = Some (g, q\<lparr>mq_release := True\<rparr>)"
      "gq_ok g" "\<And>v. s_gq v = g \<Longrightarrow> s_acts v = s_acts u \<Longrightarrow> queue_core v p (q\<lparr>mq_release := True\<rparr>)"
      "\<And>p'. p' \<noteq> p \<Longrightarrow> count (mset (gq_contents g)) p' = count (mset (gq_contents (s_gq s))) p'"
      using mark_release_core [OF inv q u(3) same(1-3) qi(3) lawful [OF True q]] by blast
    define t where "t = u\<lparr>s_ref := (s_ref u)(p := 0), s_gq := g,
      s_mq := (s_mq u)(p := Some (q\<lparr>mq_release := True\<rparr>))\<rparr>"
    have "refs t p = 0" using True qi same(5) by (simp add: t_def count_defs)
    then have "ptr_inv t p"
      using g(3) [of t] by (simp add: t_def ptr_inv_def queue_inv_def)
    moreover have "ptr_inv t p'" if "p' \<noteq> p" for p'
      using that u g(4) by (intro other) (simp_all add: t_def)
    ultimately have "sched_inv t"
      using u g(2) q by (intro sched_invI [OF inv, of t p]) (auto simp: t_def)
    moreover have "release_ref p u = Some t"
      using True u q g(1) by (simp add: release_ref_def t_def)
    ultimately show ?thesis by blast
  qed
qed

definition about :: "mqptr \<Rightarrow> 'd activity \<Rightarrow> bool" where
  "about p x \<longleftrightarrow> token_of x = Some p \<or> ref_of x = Some p"

lemma held_about:
  assumes "filter_mset (about p) (s_acts t) = filter_mset (about p) (s_acts s)" "\<And>x. P x \<Longrightarrow> about p x"
  shows "held P t = held P s"
proof -
  have "filter_mset P (s_acts v) = filter_mset P (filter_mset (about p) (s_acts v))" for v :: "'a sched"
    using assms(2) by (auto simp: filter_filter_mset intro!: filter_mset_cong)
  then show ?thesis using assms(1) by (simp add: held_def)
qed

lemma ptr_inv_other:
  assumes "sched_inv s" "s_mq t p = s_mq s p" "s_ref t p = s_ref s p" "s_reg t p = s_reg s p"
    "count (mset (gq_contents (s_gq t))) p = count (mset (gq_contents (s_gq s))) p"
    "filter_mset (about p) (s_acts t) = filter_mset (about p) (s_acts s)"
  shows "ptr_inv t p"
proof -
  note held = held_about [OF assms(6)]
  have "held (\<lambda>x. token_of x = Some p) t = held (\<lambda>x. token_of x = Some p) s"
    "held (\<lambda>x. ref_of x = Some p) t = held (\<lambda>x. ref_of x = Some p) s"
    "firm t p = firm s p" "busy t p = busy s p"
    unfolding firm_def busy_def by (rule held; auto simp: about_def)+
  then show ?thesis
    using assms(2-5) sched_invD(1) [OF assms(1), of p]
    by (intro ptr_inv_cong [of t p s]) (simp_all add: tokens_def refs_def)
qed

lemma busy_firm_tokens: "busy s p \<le> firm s p" "firm s p \<le> tokens s p"
  by (auto simp: count_defs intro!: size_mset_mono filter_mset_mono_strong trans_le_add2)

lemma acts_split:
  assumes "x \<in># s_acts s"
  obtains A where "s_acts s = add_mset x A" "\<And>ys u. s_acts (become x ys (u\<lparr>s_acts := s_acts s\<rparr>)) = A + ys"
    "\<And>ys. s_acts (become x ys s) = A + ys"
  using multi_member_split [OF assms] by (auto simp: become_def)

lemma become_simps [simp]:
  "s_mq (become x ys s) = s_mq s" "s_gq (become x ys s) = s_gq s"
  "s_ref (become x ys s) = s_ref s" "s_reg (become x ys s) = s_reg s"
  by (simp_all add: become_def)

lemma step_drop:
  assumes inv: "sched_inv s" and law: "lawful a s" and a: "drops a = Some p" and e: "enabled a s"
  shows "\<exists>t. sched_do a s = Some t \<and> sched_inv t"
proof -
  have law': "\<And>q. s_ref s p = 1 \<Longrightarrow> s_mq s p = Some q \<Longrightarrow> mq_in_global q \<noteq> 2"
    using law a by (simp add: lawful_def mq_flag_defs)
  have drop: "\<exists>t. release_ref p (become x ys s) = Some t \<and> sched_inv t"
    if x: "x \<in># s_acts s" and "(x, ys) \<in> {(Creating p, {#Launching p#}), (Running p, {#Finishing p#}),
      (Leaving p, {#}), (Sent p, {#})}" for x and ys :: "'a activity multiset"
  proof (rule drop_ref [OF inv _ _ _ _ _ _ _ _ law'])
    obtain A where A: "s_acts s = add_mset x A" "s_acts (become x ys s) = A + ys"
      using acts_split [OF x] by metis
    show "refs s p = Suc (refs (become x ys s) p)"
      using A that(2) by (auto simp: count_defs)
  qed (use that x in \<open>auto simp: count_defs become_def dest!: multi_member_split\<close>)
  show ?thesis
  proof (cases a)
    case (Retire p')
    then show ?thesis
      using a e by (auto simp: count_defs intro!: drop_ref [OF inv _ _ _ _ _ _ _ _ law'])
  qed (use a e in \<open>auto intro!: drop\<close>)
qed

lemma about_simps [simp]:
  "about p (Creating p') \<longleftrightarrow> p' = p" "about p (Launching p') \<longleftrightarrow> p' = p"
  "about p (Fetched p') \<longleftrightarrow> p' = p" "about p (Grabbed p') \<longleftrightarrow> p' = p"
  "about p (Running p') \<longleftrightarrow> p' = p" "about p (Finishing p') \<longleftrightarrow> p' = p"
  "about p (Leaving p') \<longleftrightarrow> p' = p" "about p (Sending p' m) \<longleftrightarrow> p' = p"
  "about p (Sent p') \<longleftrightarrow> p' = p"
  by (auto simp: about_def)

text \<open>
  The other steps work on one queue \<open>p\<close>: replace one activity by others of the same queue,
  and one queue by its successor.
\<close>

lemma step_one:
  assumes inv: "sched_inv s"
    and gq: "gq_ok (s_gq t)" "\<And>p'. p' \<noteq> p \<Longrightarrow>
      count (mset (gq_contents (s_gq t))) p' = count (mset (gq_contents (s_gq s))) p'"
    and t: "\<And>p'. p' \<noteq> p \<Longrightarrow> s_mq t p' = s_mq s p'" "s_mq s p \<noteq> None"
      "\<And>p'. p' \<noteq> p \<Longrightarrow> s_ref t p' = s_ref s p'" "s_reg t = s_reg s"
    and acts: "\<And>p'. p' \<noteq> p \<Longrightarrow> filter_mset (about p') (s_acts t) = filter_mset (about p') (s_acts s)"
    and p: "ptr_inv t p"
  shows "sched_inv t"
proof (rule sched_invI [OF inv gq(1) _ p])
  show "{p'. s_mq t p' \<noteq> None} \<subseteq> {p'. s_mq s p' \<noteq> None}"
    using t(1,2) by (metis (mono_tags, lifting) mem_Collect_eq subsetI)
  show "ptr_inv t p'" if "p' \<noteq> p" for p'
    by (rule ptr_inv_other [OF inv]) (simp_all add: that gq t acts)
qed

text \<open>What an activity tells about its queue.\<close>

lemma act_queue:
  assumes inv: "sched_inv s" and x: "x \<in># s_acts s" "token_of x = Some p \<or> ref_of x = Some p"
  obtains q where "s_mq s p = Some q" "queue_inv s p q"
proof -
  have "0 < tokens s p \<or> 0 < refs s p"
    using x(2) held_pos [OF x(1), of "\<lambda>x. token_of x = Some p"]
      held_pos [OF x(1), of "\<lambda>x. ref_of x = Some p"] by (auto simp: tokens_def refs_def)
  then show ?thesis
    using token_queue [OF inv, of p] sched_inv_queue [OF inv] that by blast
qed

lemma act_token:
  assumes inv: "sched_inv s" and x: "x \<in># s_acts s" "token_of x = Some p"
  shows "p \<notin> set (gq_contents (s_gq s))" "tokens s p = 1"
    "\<And>y. y \<in># s_acts s - {#x#} \<Longrightarrow> token_of y \<noteq> Some p"
proof -
  obtain A where A: "s_acts s = add_mset x A" using multi_member_split [OF x(1)] by blast
  have 1: "tokens s p \<le> 1" by (rule tokens_le_1 [OF inv])
  then show "tokens s p = 1" "p \<notin> set (gq_contents (s_gq s))"
    using x(2) A by (auto simp: tokens_def held_def)
  show "token_of y \<noteq> Some p" if "y \<in># s_acts s - {#x#}" for y
    using 1 x(2) A that by (auto simp: tokens_def held_def dest!: multi_member_split)
qed

lemma step_Create:
  assumes inv: "sched_inv s" and e: "enabled (Create p h) s"
  shows "\<exists>t. sched_do (Create p h) s = Some t \<and> sched_inv t"
proof -
  let ?q = "skynet_mq_create h :: 'a message_queue"
  define t where "t = s\<lparr>s_mq := (s_mq s)(p := Some ?q),
     s_reg := (s_reg s)(p := True), s_ref := (s_ref s)(p := 2), s_acts := add_mset (Creating p) (s_acts s)\<rparr>"
  have p: "tokens s p = 0" "refs s p = 0"
    using sched_invD(1) [OF inv, of p] e by (simp_all add: ptr_inv_def)
  have "ptr_inv t p"
    using p mq_create_ok [of h]
    by (simp add: t_def ptr_inv_def queue_inv_def queue_core_def count_defs skynet_mq_create_def
        MQ_IN_GLOBAL_def split: if_splits)
  moreover have "ptr_inv t p'" if "p' \<noteq> p" for p'
    by (rule ptr_inv_other [OF inv]) (use that in \<open>auto simp: t_def\<close>)
  moreover have "{p'. s_mq t p' \<noteq> None} = insert p {p'. s_mq s p' \<noteq> None}"
    by (auto simp: t_def)
  ultimately have "\<forall>p. ptr_inv t p" "{p'. s_mq t p' \<noteq> None} = insert p {p'. s_mq s p' \<noteq> None}"
    by metis+
  then have "sched_inv t"
    using e sched_invD(2,3) [OF inv] unfolding sched_inv_def
    by (simp add: card_insert_if) (simp add: t_def)
  then show ?thesis by (simp add: t_def)
qed

lemma step_Fetch:
  assumes inv: "sched_inv s" and e: "enabled Fetch s"
  shows "\<exists>t. sched_do Fetch s = Some t \<and> sched_inv t"
proof -
  have "gq_contents (s_gq s) \<noteq> []"
    using e gq_pop_empty [OF sched_invD(2) [OF inv]] by auto
  then obtain p ps where c: "gq_contents (s_gq s) = p # ps" by (cases "gq_contents (s_gq s)") auto
  define g where "g = snd (skynet_globalmq_pop (s_gq s))"
  have g: "skynet_globalmq_pop (s_gq s) = (Some p, g)" "gq_contents g = ps" "gq_ok g"
    using gq_pop_nonempty [OF sched_invD(2) [OF inv] c] by (simp_all add: g_def prod_eq_iff)
  define t where "t = s\<lparr>s_gq := g, s_acts := add_mset (Fetched p) (s_acts s)\<rparr>"
  have "0 < tokens s p" using c by (simp add: tokens_def)
  then obtain q where q: "s_mq s p = Some q" using token_queue [OF inv] by blast
  have "tokens t p = tokens s p" "firm t p = firm s p" "busy t p = busy s p" "refs t p = refs s p"
    using g c by (simp_all add: t_def count_defs)
  then have "ptr_inv t p"
    using sched_invD(1) [OF inv, of p] by (intro ptr_inv_cong [of t p s]) (simp_all add: t_def)
  then have "sched_inv t"
    using q g c by (intro step_one [OF inv, of t p]) (auto simp: t_def)
  then show ?thesis using g by (simp add: t_def)
qed

lemma step_Grab:
  assumes inv: "sched_inv s" and e: "enabled (Grab p) s"
  shows "\<exists>t. sched_do (Grab p) s = Some t \<and> sched_inv t"
proof -
  have x: "Fetched p \<in># s_acts s" "s_reg s p" using e by auto
  then obtain q where q: "s_mq s p = Some q" "queue_inv s p q"
    using act_queue [OF inv x(1), of p] by auto
  obtain A where A: "s_acts s = add_mset (Fetched p) A" using multi_member_split [OF x(1)] by blast
  define t where "t = become (Fetched p) {#Grabbed p#} (s\<lparr>s_ref := (s_ref s)(p := s_ref s p + 1)\<rparr>)"
  have acts: "s_acts t = add_mset (Grabbed p) A" using A by (simp add: t_def become_def)
  have t: "s_mq t = s_mq s" "s_gq t = s_gq s" "s_reg t = s_reg s" "s_ref t = (s_ref s)(p := s_ref s p + 1)"
    by (simp_all add: t_def)
  have counts: "tokens t p = tokens s p" "busy t p = busy s p" "refs t p = refs s p + 1" "0 < refs s p"
    using A acts x(2) t by (simp_all add: count_defs)
  have one: "tokens s p = 1" by (rule act_token(2) [OF inv x(1)]) simp
  have core: "queue_core s p q" and r: "s_ref s p = refs s p" "\<not> mq_release q"
    using q(2) counts(4) by (simp_all add: queue_inv_def)
  have "mq_in_global q = 1 \<or> mq_in_global q = 2"
    using core one r(2) unfolding queue_core_def by presburger
  then have "queue_core t p q"
    using core unfolding queue_core_def counts by simp
  then have "ptr_inv t p"
    using q(1) r by (simp add: ptr_inv_def queue_inv_def t counts)
  then have "sched_inv t"
    using q A acts t sched_invD(2) [OF inv]
    by (intro step_one [OF inv, of t p]) simp_all
  then show ?thesis by (simp add: t_def)
qed

lemma step_Pop:
  assumes inv: "sched_inv s" and e: "enabled (Pop p) s"
  shows "\<exists>t. sched_do (Pop p) s = Some t \<and> sched_inv t"
proof -
  have x: "Grabbed p \<in># s_acts s" using e by simp
  then obtain q where q: "s_mq s p = Some q" "queue_inv s p q"
    using act_queue [OF inv x, of p] by auto
  note one = act_token [OF inv x, of p, simplified]
  obtain A where A: "s_acts s = add_mset (Grabbed p) A" using multi_member_split [OF x] by blast
  have A0: "\<And>y. y \<in># A \<Longrightarrow> token_of y \<noteq> Some p" using one(3) A by simp
  then have "Running p \<notin># A" "Finishing p \<notin># A" by fastforce+
  then have b: "busy s p = 0" by (auto simp: A busy_def held_def filter_mset_eq_mempty_iff)
  have g: "mq_in_global q = 1" "mq_ok q" "mq_lock_session q = 0" "\<not> mq_release q"
  proof -
    have "0 < firm s p" "0 < refs s p" using A by (simp_all add: count_defs)
    then show "mq_in_global q = 1" "mq_ok q" "mq_lock_session q = 0" "\<not> mq_release q"
      using q(2) b by (auto simp: queue_inv_def queue_core_def)
  qed
  have empty: "filter_mset (\<lambda>x. token_of x = Some p) A = {#}" "filter_mset (\<lambda>x. token_of x = Some p \<and> x \<noteq> Fetched p) A = {#}"
    using A0 by (auto simp: filter_mset_eq_mempty_iff)
  show ?thesis
  proof (cases "mq_contents q")
    case Nil
    define t where "t = become (Grabbed p) {#Leaving p#} (s\<lparr>s_mq := (s_mq s)(p := Some (q\<lparr>mq_in_global := 0\<rparr>))\<rparr>)"
    have acts: "s_acts t = add_mset (Leaving p) A" using A by (simp add: t_def become_def)
    have "tokens t p = 0" "firm t p = 0" "refs t p = refs s p"
      using A acts one empty by (simp_all add: t_def count_defs)
    then have "ptr_inv t p"
      using q g Nil by (simp add: t_def ptr_inv_def queue_inv_def queue_core_def)
    then have "sched_inv t"
      using q A acts sched_invD(2) [OF inv] by (intro step_one [OF inv, of t p]) (auto simp: t_def)
    then show ?thesis using mq_pop_empty [OF g(2) Nil] q by (simp add: t_def)
  next
    case (Cons m ms)
    obtain q' where q': "skynet_mq_pop q = (0, Some m, q')" "mq_ok q'" "mq_contents q' = ms"
      "mq_in_global q' = mq_in_global q" "mq_lock_session q' = mq_lock_session q"
      "mq_release q' = mq_release q"
      using mq_pop_nonempty [OF g(2) Cons] by metis
    define t where "t = become (Grabbed p) {#Running p#} (s\<lparr>s_mq := (s_mq s)(p := Some q')\<rparr>)"
    have acts: "s_acts t = add_mset (Running p) A" using A by (simp add: t_def become_def)
    have "tokens t p = tokens s p" "firm t p = firm s p" "refs t p = refs s p"
      using A acts by (simp_all add: t_def count_defs)
    then have "ptr_inv t p"
      using q g q' by (simp add: t_def ptr_inv_def queue_inv_def queue_core_def)
    then have "sched_inv t"
      using q A acts sched_invD(2) [OF inv] by (intro step_one [OF inv, of t p]) (auto simp: t_def)
    then show ?thesis using q' q by (simp add: t_def)
  qed
qed

lemma token_flag:
  assumes "queue_core s p q" "tokens s p = 1" "\<not> mq_release q"
  shows "mq_in_global q = 1 \<or> mq_in_global q = 2"
  using assms unfolding queue_core_def by presburger

text \<open>A thread that holds the token puts the queue back into the global queue.\<close>

lemma token_to_global:
  assumes inv: "sched_inv s" and x: "x \<in># s_acts s" "token_of x = Some p" "ref_of x = None"
    and q: "s_mq s p = Some q"
    and t: "t = become x {#} (s\<lparr>s_gq := skynet_globalmq_push p (s_gq s), s_mq := (s_mq s)(p := Some q')\<rparr>)"
    and q': "mq_ok q'" "mq_contents q' = mq_contents q" "mq_release q' = mq_release q"
      "mq_in_global q' = 1 \<and> mq_lock_session q' = 0
       \<or> mq_in_global q' = mq_in_global q \<and> mq_lock_session q' = mq_lock_session q \<and> x \<noteq> Finishing p"
  shows "sched_inv t"
proof -
  obtain A where A: "s_acts s = add_mset x A" using multi_member_split [OF x(1)] by blast
  note one = act_token [OF inv x(1,2)]
  have push: "gq_ok (skynet_globalmq_push p (s_gq s))"
    "gq_contents (skynet_globalmq_push p (s_gq s)) = gq_contents (s_gq s) @ [p]"
    using sched_push [OF inv] q one(1) by simp_all
  have t': "s_acts t = A" "s_gq t = skynet_globalmq_push p (s_gq s)" "s_mq t = (s_mq s)(p := Some q')"
    "s_ref t = s_ref s" "s_reg t = s_reg s"
    using A by (simp_all add: t become_def)
  have counts: "tokens t p = 1" "refs t p = refs s p"
    using one(2) A x push t' by (simp_all add: count_defs)
  have qi: "queue_core s p q" "s_ref s p = refs s p" "mq_release q \<longleftrightarrow> s_ref s p = 0"
    using sched_inv_queue [OF inv q] by (simp_all add: queue_inv_def)
  have busy: "busy t p = busy s p" if "x \<noteq> Finishing p" "x \<noteq> Running p"
    using that A t' by (simp add: count_defs)
  have firm: "firm t p \<le> firm s p" using A t' by (simp add: count_defs)
  have "x \<noteq> Running p" using x by auto
  have "queue_core t p q'"
    using q'(4)
  proof
    assume a: "mq_in_global q' = 1 \<and> mq_lock_session q' = 0"
    show ?thesis using a q' counts by (simp add: queue_core_def)
  next
    assume a: "mq_in_global q' = mq_in_global q \<and> mq_lock_session q' = mq_lock_session q \<and> x \<noteq> Finishing p"
    then have b: "busy t p = busy s p" using busy \<open>x \<noteq> Running p\<close> by simp
    have tok: "tokens t p = tokens s p" using counts one(2) by simp
    have fi: "0 < firm t p \<Longrightarrow> 0 < firm s p" using firm by simp
    show ?thesis
      unfolding queue_core_def q'(2,3) b tok a [THEN conjunct1] a [THEN conjunct2, THEN conjunct1]
      using qi(1) [unfolded queue_core_def] fi q'(1) by (satx | argo | metis)
  qed
  then have "ptr_inv t p" using qi q' counts by (simp add: ptr_inv_def queue_inv_def t')
  moreover have "about p x" using x by (simp add: about_def)
  moreover have "\<not> about p' x" if "p' \<noteq> p" for p' using x that by (auto simp: about_def)
  ultimately show ?thesis
    using q A t' push by (intro step_one [OF inv, of t p]) simp_all
qed

lemma step_Launch:
  assumes inv: "sched_inv s" and e: "enabled (Launch p) s"
  shows "\<exists>t. sched_do (Launch p) s = Some t \<and> sched_inv t"
proof -
  have x: "Launching p \<in># s_acts s" using e by simp
  then obtain q where q: "s_mq s p = Some q" "queue_inv s p q"
    using act_queue [OF inv x, of p] by auto
  have "0 < firm s p" using x by (simp add: firm_def held_pos)
  then have g: "mq_in_global q \<noteq> 0" "mq_ok q" using q(2) by (auto simp: queue_inv_def queue_core_def)
  define t where "t = become (Launching p) {#}
    (s\<lparr>s_gq := skynet_globalmq_push p (s_gq s), s_mq := (s_mq s)(p := Some q)\<rparr>)"
  have "sched_do (Launch p) s = Some t"
    using q g by (simp add: t_def on_mq_def skynet_mq_force_push_def become_def)
  moreover have "sched_inv t"
    by (rule token_to_global [OF inv x _ _ q(1) t_def]) (simp_all add: g)
  ultimately show ?thesis by blast
qed

lemma step_PushGlobal:
  assumes inv: "sched_inv s" and e: "enabled (PushGlobal p) s"
  shows "\<exists>t. sched_do (PushGlobal p) s = Some t \<and> sched_inv t"
proof -
  have x: "Finishing p \<in># s_acts s" using e by simp
  then obtain q where q: "s_mq s p = Some q" "queue_inv s p q"
    using act_queue [OF inv x, of p] by auto
  have "0 < firm s p" using x by (simp add: firm_def held_pos)
  then have g: "mq_in_global q = 1 \<and> mq_lock_session q = 0 \<or> mq_in_global q = 2 \<and> \<not> mq_release q"
    and ok: "mq_ok q" using q(2) by (auto simp: queue_inv_def queue_core_def)
  show ?thesis
  proof (cases "mq_lock_session q = 0")
    case True
    define q' where "q' = q\<lparr>mq_in_global := MQ_IN_GLOBAL\<rparr>"
    define t where "t = become (Finishing p) {#}
      (s\<lparr>s_gq := skynet_globalmq_push p (s_gq s), s_mq := (s_mq s)(p := Some q')\<rparr>)"
    have "sched_do (PushGlobal p) s = Some t"
      using q g True
      by (auto simp: t_def q'_def on_mq_def skynet_mq_pushglobal_def become_def mq_flag_defs Let_def)
    moreover have "sched_inv t"
      by (rule token_to_global [OF inv x _ _ q(1) t_def])
        (simp_all add: q'_def ok True MQ_IN_GLOBAL_def)
    ultimately show ?thesis by blast
  next
    case False
    define t where "t = become (Finishing p) {#} (s\<lparr>s_mq := (s_mq s)(p := Some (q\<lparr>mq_in_global := 3\<rparr>))\<rparr>)"
    have "sched_do (PushGlobal p) s = Some t"
      using q g False
      by (auto simp: t_def on_mq_def skynet_mq_pushglobal_def become_def mq_flag_defs Let_def)
    moreover have "sched_inv t"
    proof -
      obtain A where A: "s_acts s = add_mset (Finishing p) A" using multi_member_split [OF x] by blast
      have t': "s_acts t = A" "s_gq t = s_gq s" "s_ref t = s_ref s" "s_reg t = s_reg s"
        "s_mq t = (s_mq s)(p := Some (q\<lparr>mq_in_global := 3\<rparr>))"
        using A by (simp_all add: t_def become_def)
      have "Suc (tokens t p) = tokens s p" "refs t p = refs s p"
        using A t' by (simp_all add: count_defs)
      then have counts: "tokens t p = 0" "refs t p = refs s p" "firm t p = 0"
        using act_token(2) [OF inv x, of p] busy_firm_tokens [of t p] by simp_all
      have "queue_core t p (q\<lparr>mq_in_global := 3\<rparr>)"
        using g False ok by (simp add: queue_core_def counts)
      then have "ptr_inv t p" using q counts by (simp add: ptr_inv_def queue_inv_def t')
      then show ?thesis
        using q(1) A t' sched_invD(2) [OF inv] by (intro step_one [OF inv, of t p]) simp_all
    qed
    ultimately show ?thesis by blast
  qed
qed

lemma step_Discard:
  assumes inv: "sched_inv s" and e: "enabled (Discard x p) s"
  shows "\<exists>t. sched_do (Discard x p) s = Some t \<and> sched_inv t"
proof -
  have x: "x \<in># s_acts s" "token_of x = Some p" "ref_of x = None" "x \<noteq> Finishing p" using e by auto
  then obtain q where q: "s_mq s p = Some q" "queue_inv s p q"
    using act_queue [OF inv x(1), of p] by auto
  have core: "queue_core s p q" and ok: "mq_ok q" using q(2) by (auto simp: queue_inv_def queue_core_def)
  note one = act_token [OF inv x(1,2)]
  show ?thesis
  proof (cases "mq_release q")
    case False
    then have g: "mq_in_global q \<noteq> 0" using token_flag [OF core one(2)] by auto
    define t where "t = become x {#} (s\<lparr>s_gq := skynet_globalmq_push p (s_gq s), s_mq := (s_mq s)(p := Some q)\<rparr>)"
    have "sched_do (Discard x p) s = Some t"
      using q g False by (simp add: t_def skynet_mq_release_def skynet_mq_force_push_def)
    moreover have "sched_inv t"
      by (rule token_to_global [OF inv x(1-3) q(1) t_def]) (simp_all add: ok x)
    ultimately show ?thesis by blast
  next
    case True
    define t where "t = become x {#} (s\<lparr>s_gq := s_gq s, s_mq := (s_mq s)(p := None)\<rparr>)"
    have "sched_do (Discard x p) s = Some t"
      using q True by (simp add: t_def skynet_mq_release_def drop_queue_returns [OF ok])
    moreover have "sched_inv t"
    proof -
      obtain A where A: "s_acts s = add_mset x A" using multi_member_split [OF x(1)] by blast
      have t': "s_acts t = A" "s_gq t = s_gq s" "s_ref t = s_ref s" "s_reg t = s_reg s"
        "s_mq t = (s_mq s)(p := None)"
        using A by (simp_all add: t_def become_def)
      have "Suc (tokens t p) = tokens s p" "refs t p = refs s p"
        using A t' x by (simp_all add: count_defs)
      moreover have "s_ref s p = refs s p" "s_ref s p = 0"
        using q(2) True by (simp_all add: queue_inv_def)
      ultimately have "tokens t p = 0" "refs t p = 0" "s_ref s p = 0" using one(2) by simp_all
      then have "ptr_inv t p" by (simp add: ptr_inv_def t')
      moreover have "\<not> about p' x" if "p' \<noteq> p" for p' using x that by (auto simp: about_def)
      ultimately show ?thesis
        using q(1) A t' sched_invD(2) [OF inv] by (intro step_one [OF inv, of t p]) simp_all
    qed
    ultimately show ?thesis by blast
  qed
qed

lemma step_Lock:
  assumes inv: "sched_inv s" and e: "enabled (Lock p session) s"
    and t: "sched_do (Lock p session) s = Some t"
  shows "sched_inv t"
proof -
  have x: "Running p \<in># s_acts s" using e by simp
  then obtain q where q: "s_mq s p = Some q" "queue_inv s p q"
    using act_queue [OF inv x, of p] by auto
  define q' where "q' = q\<lparr>mq_in_global := MQ_DISPATCHING, mq_lock_session := session\<rparr>"
  have g: "mq_lock_session q = 0" "mq_in_global q = 1"
    and t': "t = s\<lparr>s_gq := s_gq s, s_mq := (s_mq s)(p := Some q')\<rparr>"
    using t q by (auto simp: on_mq_def skynet_mq_lock_def q'_def MQ_IN_GLOBAL_def)
  have counts: "tokens t p = tokens s p" "refs t p = refs s p" "firm t p = firm s p" "busy t p = busy s p"
    by (simp_all add: t' count_defs)
  have f: "s_mq t p = Some q'" "s_ref t = s_ref s" "mq_release q' = mq_release q"
    by (simp_all add: t' q'_def)
  have "0 < busy s p" using x by (simp add: busy_def held_pos)
  moreover have "0 < refs s p" using x by (simp add: refs_def held_pos)
  ultimately have "queue_core t p q'"
    using q(2) g by (simp add: queue_inv_def queue_core_def counts q'_def MQ_DISPATCHING_def)
  then have "ptr_inv t p"
    using q(2) f by (simp add: ptr_inv_def queue_inv_def counts)
  then show ?thesis
    using q(1) sched_invD(2) [OF inv] by (intro step_one [OF inv, of t p]) (simp_all add: t')
qed

lemma step_SendGrab:
  assumes inv: "sched_inv s" and e: "enabled (SendGrab p m) s"
  shows "\<exists>t. sched_do (SendGrab p m) s = Some t \<and> sched_inv t"
proof -
  define t where "t = s\<lparr>s_ref := (s_ref s)(p := s_ref s p + 1), s_acts := add_mset (Sending p m) (s_acts s)\<rparr>"
  have r: "0 < refs s p" using e by (simp add: refs_def)
  then obtain q where q: "s_mq s p = Some q" using token_queue [OF inv] by blast
  have qi: "queue_inv s p q" by (rule sched_inv_queue [OF inv q])
  have counts: "tokens t p = tokens s p" "refs t p = refs s p + 1" "firm t p = firm s p" "busy t p = busy s p"
    by (simp_all add: t_def count_defs)
  have f: "s_mq t = s_mq s" "s_ref t p = s_ref s p + 1" by (simp_all add: t_def)
  have "queue_core t p q" using qi unfolding queue_inv_def queue_core_def counts by satx
  then have "ptr_inv t p"
    using qi r q f by (simp add: ptr_inv_def queue_inv_def counts)
  then have "sched_inv t"
    using q(1) sched_invD(2) [OF inv] by (intro step_one [OF inv, of t p]) (simp_all add: t_def)
  then show ?thesis by (simp add: t_def)
qed

text \<open>The three outcomes of a push: into the global queue, stored only, or as an unlock message.\<close>

lemma push_cases:
  assumes core: "queue_core s p q" and live: "\<not> mq_release q"
  obtains (wake) q' where "skynet_mq_push p m (g, q) = Some (skynet_globalmq_push p g, q')"
      "mq_in_global q = 0 \<or> mq_in_global q = 3"
      "mq_in_global q' = 1" "mq_lock_session q' = 0" "mq_release q' = mq_release q" "mq_ok q'"
  | (store) q' where "skynet_mq_push p m (g, q) = Some (g, q')" "mq_in_global q \<noteq> 0"
      "mq_in_global q' = mq_in_global q" "mq_release q' = mq_release q" "mq_ok q'"
      "mq_lock_session q' = mq_lock_session q \<or> mq_lock_session q' = 0 \<and> mq_in_global q = 2"
proof -
  have ok: "mq_ok q" "mq_in_global q \<le> 3"
    and lock: "mq_lock_session q \<noteq> 0 \<longrightarrow> mq_in_global q = 2 \<or> mq_in_global q = 3"
    using core by (simp_all add: queue_core_def)
  note st = mq_store_contents [OF ok(1), of m] pushhead_store_contents [OF ok(1), of m]
  show ?thesis
  proof (cases "mq_lock_session q \<noteq> 0 \<and> msg_session m = mq_lock_session q")
    case True
    then have "mq_in_global q = 2 \<or> mq_in_global q = 3" using lock by simp
    then show ?thesis
    proof
      assume "mq_in_global q = 3"
      then show ?thesis using True st
        by (intro wake [of "(pushhead_store m q)\<lparr>mq_in_global := 1, mq_lock_session := 0\<rparr>"])
          (simp_all add: skynet_mq_push_def pushhead_def mq_flag_defs Let_def)
    next
      assume "mq_in_global q = 2"
      then show ?thesis using True st
        by (intro store [of "(pushhead_store m q)\<lparr>mq_lock_session := 0\<rparr>"])
          (simp_all add: skynet_mq_push_def pushhead_def mq_flag_defs Let_def)
    qed
  next
    case unlocked: False
    show ?thesis
    proof (cases "mq_lock_session q = 0 \<and> mq_in_global q = 0")
      case True
      then show ?thesis using unlocked st
        by (intro wake [of "(mq_store m q)\<lparr>mq_in_global := 1\<rparr>"])
          (simp_all add: skynet_mq_push_def mq_flag_defs Let_def)
    next
      case False
      then show ?thesis using unlocked st lock
        by (intro store [of "mq_store m q"]) (auto simp: skynet_mq_push_def mq_flag_defs Let_def)
    qed
  qed
qed

lemma step_SendPush:
  assumes inv: "sched_inv s" and e: "enabled (SendPush p m) s"
  shows "\<exists>t. sched_do (SendPush p m) s = Some t \<and> sched_inv t"
proof -
  have x: "Sending p m \<in># s_acts s" using e by simp
  then obtain q where q: "s_mq s p = Some q" "queue_inv s p q"
    using act_queue [OF inv x, of p] by auto
  obtain A where A: "s_acts s = add_mset (Sending p m) A" using multi_member_split [OF x] by blast
  have r: "0 < refs s p" using A by (simp add: count_defs)
  have core: "queue_core s p q" and ref: "s_ref s p = refs s p" and live: "\<not> mq_release q"
    using q(2) r by (auto simp: queue_inv_def)
  show ?thesis
    using core live
  proof (cases rule: push_cases [where m = m and g = "s_gq s"])
    case (wake q')
    define t where "t = become (Sending p m) {#Sent p#}
      (s\<lparr>s_gq := skynet_globalmq_push p (s_gq s), s_mq := (s_mq s)(p := Some q')\<rparr>)"
    have t': "s_acts t = add_mset (Sent p) A" "s_gq t = skynet_globalmq_push p (s_gq s)"
      "s_ref t = s_ref s" "s_reg t = s_reg s" "s_mq t = (s_mq s)(p := Some q')"
      using A by (simp_all add: t_def become_def)
    have tok0: "tokens s p = 0" using core live wake(2) by (auto simp: queue_core_def)
    then have push: "gq_ok (skynet_globalmq_push p (s_gq s))"
      "gq_contents (skynet_globalmq_push p (s_gq s)) = gq_contents (s_gq s) @ [p]"
      using sched_push [OF inv, of p] q(1) by (simp_all add: tokens_def)
    have counts: "tokens t p = 1" "refs t p = refs s p"
      using A t' push tok0 by (simp_all add: count_defs)
    have "queue_core t p q'" using wake counts by (simp add: queue_core_def)
    then have "ptr_inv t p" using wake counts ref live r by (simp add: ptr_inv_def queue_inv_def t')
    then have "sched_inv t"
      using q(1) A t' push by (intro step_one [OF inv, of t p]) simp_all
    moreover have "sched_do (SendPush p m) s = Some t"
      using q wake(1) by (simp add: t_def on_mq_def become_def)
    ultimately show ?thesis by blast
  next
    case (store q')
    define t where "t = become (Sending p m) {#Sent p#} (s\<lparr>s_gq := s_gq s, s_mq := (s_mq s)(p := Some q')\<rparr>)"
    have t': "s_acts t = add_mset (Sent p) A" "s_gq t = s_gq s"
      "s_ref t = s_ref s" "s_reg t = s_reg s" "s_mq t = (s_mq s)(p := Some q')"
      using A by (simp_all add: t_def become_def)
    have counts: "tokens t p = tokens s p" "refs t p = refs s p" "firm t p = firm s p" "busy t p = busy s p"
      using A t' by (simp_all add: count_defs)
    have "queue_core t p q'"
      using core store unfolding queue_core_def counts by auto
    then have "ptr_inv t p" using store counts ref live r by (simp add: ptr_inv_def queue_inv_def t')
    then have "sched_inv t"
      using q(1) A t' sched_invD(2) [OF inv] by (intro step_one [OF inv, of t p]) simp_all
    moreover have "sched_do (SendPush p m) s = Some t"
      using q store(1) by (simp add: t_def on_mq_def become_def)
    ultimately show ?thesis by blast
  qed
qed

section \<open>Reachable states\<close>

text \<open>Every lawful step but \<open>Lock\<close> succeeds: no assertion fails and no freed queue is touched.\<close>

lemma sched_progress:
  assumes "sched_inv s" "enabled a s" "lawful a s" "\<forall>p n. a \<noteq> Lock p n"
  shows "\<exists>t. sched_do a s = Some t \<and> sched_inv t"
proof (cases "drops a")
  case (Some p)
  then show ?thesis using step_drop assms by blast
next
  case None
  with assms show ?thesis
    by (cases a) (simp_all only: drops.simps option.distinct step_Create step_Launch step_Fetch
      step_Grab step_Discard step_Pop step_PushGlobal step_SendGrab step_SendPush, blast)
qed

lemma sched_step_inv: "sched_step s t \<Longrightarrow> sched_inv s \<Longrightarrow> sched_inv t"
  by (elim sched_stepE) (metis option.inject sched_progress step_Lock)

lemma sched_init_inv: "sched_inv sched_init"
  by (simp add: sched_inv_def ptr_inv_def gq_init_ok sched_init_def count_defs)

lemma reachable_inv: "sched_reachable s \<Longrightarrow> sched_inv s"
  by (induction rule: sched_reachable.induct) (auto intro: sched_init_inv sched_step_inv)

text \<open>Runs as lists of actions, for concrete executions; \<open>g\<close> is a condition on each step.\<close>

fun sched_run :: "('d action \<Rightarrow> 'd sched \<Rightarrow> bool) \<Rightarrow> 'd action list \<Rightarrow> 'd sched \<Rightarrow> 'd sched option" where
  "sched_run g [] s = Some s"
| "sched_run g (a # as) s =
     (if enabled a s \<and> g a s then Option.bind (sched_do a s) (sched_run g as) else None)"

lemma sched_run_reachable:
  "sched_run lawful as s = Some t \<Longrightarrow> sched_reachable s \<Longrightarrow> sched_reachable t"
proof (induction as arbitrary: s)
  case (Cons a as)
  then obtain u where "enabled a s" "lawful a s" "sched_do a s = Some u" "sched_run lawful as u = Some t"
    by (auto split: if_splits bind_splits)
  with Cons show ?case by (blast intro: sched_reachable.step sched_step.act)
qed simp

definition unit_message :: "i32 \<Rightarrow> unit skynet_message" where
  "unit_message session = \<lparr>msg_source = 0, msg_session = session, msg_data = (), msg_sz = 0\<rparr>"

text \<open>One service, created, sent one message, its callback running.\<close>

definition run_to_callback :: "unit action list" where
  "run_to_callback = [Create 0 1, CreateDone 0, Launch 0, SendGrab 0 (unit_message 0),
     SendPush 0 (unit_message 0), SendDone 0, Fetch, Grab 0, Pop 0]"

definition callback_gq :: "global_queue" where
  "callback_gq = snd (skynet_globalmq_pop (skynet_globalmq_push 0 skynet_mq_init))"

definition callback_queue :: "unit message_queue" where
  "callback_queue = (skynet_mq_create 1)\<lparr>mq_head := 1, mq_tail := 1,
     mq_queue := (replicate 64 None)[0 := Some (unit_message 0)]\<rparr>"

definition callback_state :: "unit sched" where
  "callback_state = \<lparr>s_gq = callback_gq, s_mq = (\<lambda>_. None)(0 := Some callback_queue),
     s_reg = (\<lambda>_. False)(0 := True), s_ref = (\<lambda>_. 0)(0 := 2), s_acts = {#Running 0#}\<rparr>"

lemma run_to_callback: "sched_run lawful run_to_callback sched_init = Some callback_state"
  by (simp add: run_to_callback_def sched_init_def lawful_def release_ref_def become_def on_mq_def
      skynet_mq_force_push_def skynet_mq_create_def skynet_mq_push_def skynet_mq_pop_def mq_store_def
      skynet_globalmq_pop_def skynet_globalmq_push_def skynet_mq_init_def GP_def MAX_GLOBAL_MQ_def
      mq_flag_defs DEFAULT_QUEUE_SIZE_def unit_message_def Let_def callback_state_def callback_gq_def
      callback_queue_def numeral_2_eq_2)

lemma callback_reachable: "sched_reachable callback_state"
  using sched_run_reachable [OF run_to_callback sched_reachable.start] .

section \<open>Properties\<close>

text \<open>
  C1: A service's callback is never run by two threads at once: while one thread is in the
  callback of a queue's service, no other thread has taken that queue, and the queue is not in
  the global queue for another thread to take.
\<close>

theorem sched_exclusive:
  assumes "sched_reachable s" and "Running p \<in># s_acts s"
  shows "filter_mset (\<lambda>x. token_of x = Some p) (s_acts s) = {#Running p#}
    \<and> p \<notin> set (gq_contents (s_gq s))"
proof -
  have inv: "sched_inv s" by (rule reachable_inv [OF assms(1)])
  note one = act_token [OF inv assms(2), of p, simplified]
  obtain A where A: "s_acts s = add_mset (Running p) A" using multi_member_split [OF assms(2)] by blast
  then have "filter_mset (\<lambda>x. token_of x = Some p) A = {#}"
    using one(3) by (simp add: filter_mset_eq_mempty_iff)
  then show ?thesis using one(1) by (simp add: A)
qed

theorem sched_exclusive_witness:
  "filter_mset (\<lambda>x. token_of x = Some 0) (s_acts callback_state) = {#Running 0#}
    \<and> 0 \<notin> set (gq_contents (s_gq callback_state))"
  by (rule sched_exclusive [OF callback_reachable]) (simp add: callback_state_def)

text \<open>
  C2: No message is left behind: a queue that holds a message is in the global queue, or a
  thread has it in hand and will put it back, or its service is waiting under a session lock
  for the answer that unlocks it.
\<close>

theorem sched_no_lost_wakeup:
  assumes "sched_reachable s" and "s_mq s p = Some q" and "mq_contents q \<noteq> []"
  shows "p \<in> set (gq_contents (s_gq s)) \<or> (\<exists>x. x \<in># s_acts s \<and> token_of x = Some p)
    \<or> mq_in_global q = MQ_LOCKED \<and> 0 < mq_lock_session q"
proof -
  have core: "queue_core s p q"
    using sched_inv_queue [OF reachable_inv [OF assms(1)] assms(2)] by (simp add: queue_inv_def)
  then have "mq_in_global q \<noteq> 0" "mq_in_global q \<le> 3"
    using assms(3) by (auto simp: queue_core_def)
  then consider "mq_in_global q = 1 \<or> mq_in_global q = 2" | "mq_in_global q = 3" by linarith
  then show ?thesis
  proof cases
    case 1
    then have "tokens s p = 1" using core unfolding queue_core_def by presburger
    then have "p \<in> set (gq_contents (s_gq s)) \<or> held (\<lambda>x. token_of x = Some p) s \<noteq> 0"
      by (cases "p \<in> set (gq_contents (s_gq s))") (simp_all add: tokens_def count_eq_zero_iff [THEN iffD2])
    then show ?thesis by (auto simp: held_def filter_mset_eq_mempty_iff)
  next
    case 2
    then show ?thesis using core by (simp add: queue_core_def MQ_LOCKED_def word_neq_0_conv [symmetric])
  qed
qed

definition waiting_state :: "unit sched" where
  "waiting_state = the (sched_run lawful [SendGrab 0 (unit_message 0), SendPush 0 (unit_message 0)] callback_state)"

lemma waiting_run:
  "sched_run lawful [SendGrab 0 (unit_message 0), SendPush 0 (unit_message 0)] callback_state = Some waiting_state
   \<and> s_mq waiting_state 0 = Some (mq_store (unit_message 0) callback_queue)"
  by (simp add: waiting_state_def callback_state_def lawful_def on_mq_def skynet_mq_push_def
      callback_queue_def skynet_mq_create_def MQ_IN_GLOBAL_def Let_def become_def)

theorem sched_no_lost_wakeup_witness:
  "0 \<in> set (gq_contents (s_gq waiting_state)) \<or> (\<exists>x. x \<in># s_acts waiting_state \<and> token_of x = Some 0)
    \<or> mq_in_global (mq_store (unit_message 0) callback_queue) = MQ_LOCKED
      \<and> 0 < mq_lock_session (mq_store (unit_message 0) callback_queue)"
proof (rule sched_no_lost_wakeup)
  show "sched_reachable waiting_state"
    using sched_run_reachable [OF _ callback_reachable] waiting_run by blast
  show "s_mq waiting_state 0 = Some (mq_store (unit_message 0) callback_queue)"
    using waiting_run by blast
  have "mq_ok callback_queue"
    by (simp add: mq_ok_def callback_queue_def skynet_mq_create_def mq_cells_def mq_len_def DEFAULT_QUEUE_SIZE_def)
  then show "mq_contents (mq_store (unit_message 0) callback_queue) \<noteq> []"
    by (simp add: mq_store_contents)
qed



text \<open>
  The lawfulness condition is needed.  A service that sets its session lock and retires in
  the same callback is freed under the thread that runs it: after the last reference is dropped
  the queue goes into the global queue, a second thread takes and frees it, and the first
  thread's \<open>skynet_mq_pushglobal\<close> then works on freed memory.
\<close>

theorem sched_locked_exit_use_after_free:
  "\<exists>s. sched_run (\<lambda>_ _. True) [Lock 0 1, Retire 0, Return 0, Fetch, Discard (Fetched 0) 0] callback_state = Some s
     \<and> enabled (PushGlobal 0) s \<and> s_mq s 0 = None \<and> sched_do (PushGlobal 0) s = None"
proof -
  have "mq_ok (callback_queue\<lparr>mq_in_global := 2, mq_lock_session := 1, mq_release := True\<rparr>)"
    by (simp add: mq_ok_def callback_queue_def skynet_mq_create_def mq_cells_def mq_len_def DEFAULT_QUEUE_SIZE_def)
  note dq = drop_queue_returns [OF this]
  show ?thesis
    using dq
    by (simp add: callback_state_def on_mq_def skynet_mq_lock_def release_ref_def become_def
      skynet_mq_mark_release_def skynet_mq_release_def callback_gq_def skynet_globalmq_pop_def
      skynet_globalmq_push_def skynet_mq_init_def GP_def MAX_GLOBAL_MQ_def mq_flag_defs Let_def
      callback_queue_def skynet_mq_create_def)
qed

end
