(* ===== verification/SlotTable.thy ===== *)
theory SlotTable
  imports Prelude
begin

text \<open>
  Tables of \<open>2 ^ k\<close> slots in which an object with key \<open>x\<close> lives in slot
  \<open>x & (2 ^ k - 1)\<close>: the handle table of \<open>skynet-src/skynet_handle.c\<close> and the
  connection table of \<open>gate/main.c\<close>.
\<close>

unbundle bit_operations_syntax

section \<open>Slots\<close>

definition slot_index :: "u32 \<Rightarrow> nat \<Rightarrow> nat" where
  "slot_index x n = unat (x AND of_nat (n - 1))"

lemma slot_index_mod: "k \<le> 32 \<Longrightarrow> slot_index x (2 ^ k) = unat x mod 2 ^ k"
proof -
  assume k: "k \<le> 32"
  have "(of_nat (2 ^ k - 1) :: u32) = mask k"
    by (simp add: of_nat_diff mask_eq_decr_exp)
  then show ?thesis using k by (simp add: slot_index_def unat_mask_mod)
qed

definition slots_ok :: "('c \<Rightarrow> u32) \<Rightarrow> 'c option list \<Rightarrow> bool" where
  "slots_ok key slots \<longleftrightarrow>
     (\<forall>j < length slots. \<forall>c. slots ! j = Some c \<longrightarrow> unat (key c) mod length slots = j)"

definition slots_get :: "('c \<Rightarrow> u32) \<Rightarrow> 'c option list \<Rightarrow> u32 \<Rightarrow> 'c option" where
  "slots_get key slots x =
     (case slots ! (unat x mod length slots) of
        Some c \<Rightarrow> if key c = x then Some c else None
      | None \<Rightarrow> None)"

lemma slots_ok_nth: "slots_ok key slots \<Longrightarrow> j < length slots \<Longrightarrow> slots ! j = Some c \<Longrightarrow>
  unat (key c) mod length slots = j"
  by (simp add: slots_ok_def)

lemma slots_get_Some:
  "slots_get key slots x = Some c \<longleftrightarrow> slots ! (unat x mod length slots) = Some c \<and> key c = x"
  by (auto simp: slots_get_def split: option.splits)

lemma slots_get_empty: "0 < n \<Longrightarrow> slots_get key (replicate n None) x = None"
  by (simp add: slots_get_def)

lemma slots_ok_empty: "slots_ok key (replicate n None)"
  by (simp add: slots_ok_def)

lemma slots_ok_update:
  "slots_ok key slots \<Longrightarrow> unat (key c) mod length slots = j \<Longrightarrow> slots_ok key (slots[j := Some c])"
  by (cases "j < length slots") (auto simp: slots_ok_def nth_list_update list_update_beyond)

lemma slots_ok_clear: "slots_ok key slots \<Longrightarrow> slots_ok key (slots[j := None])"
  by (cases "j < length slots") (auto simp: slots_ok_def nth_list_update list_update_beyond split: if_splits)

lemma slots_ok_cong: "(\<And>c. Some c \<in> set slots \<Longrightarrow> key' c = key c) \<Longrightarrow> slots_ok key' slots = slots_ok key slots"
  unfolding slots_ok_def by (metis nth_mem)

lemma slots_get_cong:
  "0 < length slots \<Longrightarrow> (\<And>c. Some c \<in> set slots \<Longrightarrow> key' c = key c) \<Longrightarrow> slots_get key' slots x = slots_get key slots x"
proof (cases "slots ! (unat x mod length slots)")
  case (Some c)
  assume "0 < length slots" and cong: "\<And>c. Some c \<in> set slots \<Longrightarrow> key' c = key c"
  then have "Some c \<in> set slots" using Some nth_mem [of "unat x mod length slots" slots] by simp
  then show ?thesis using Some cong by (simp add: slots_get_def)
qed (simp add: slots_get_def)

text \<open>An object put into an empty slot of its own index shows up under its key and nowhere else.\<close>

lemma slots_get_update:
  assumes ok: "slots_ok key slots" and n: "0 < length slots"
    and empty: "slots ! (unat (key c) mod length slots) = None"
  shows "slots_get key (slots[unat (key c) mod length slots := Some c]) = (slots_get key slots)(key c \<mapsto> c)"
    and "slots_get key slots (key c) = None"
proof -
  let ?j = "unat (key c) mod length slots"
  have j: "?j < length slots" using n by simp
  show "slots_get key slots (key c) = None"
    using empty by (simp add: slots_get_def)
  show "slots_get key (slots[?j := Some c]) = (slots_get key slots)(key c \<mapsto> c)"
  proof
    fix x
    show "slots_get key (slots[?j := Some c]) x = ((slots_get key slots)(key c \<mapsto> c)) x"
      using empty j by (auto simp: slots_get_def nth_list_update split: option.splits)
  qed
qed

lemma slots_get_clear:
  assumes ok: "slots_ok key slots" and get: "slots_get key slots x = Some c" and n: "0 < length slots"
  shows "slots_get key (slots[unat x mod length slots := None]) = (slots_get key slots)(x := None)"
proof
  fix y
  have j: "unat x mod length slots < length slots" using n by simp
  show "slots_get key (slots[unat x mod length slots := None]) y = ((slots_get key slots)(x := None)) y"
  proof (cases "unat y mod length slots = unat x mod length slots")
    case True
    moreover have "slots_get key slots y = None" if "y \<noteq> x"
      using get True that by (auto simp: slots_get_Some) (simp add: slots_get_def)
    ultimately show ?thesis using j by (simp add: slots_get_def)
  next
    case False
    then show ?thesis by (auto simp: slots_get_def)
  qed
qed

text \<open>Probing \<open>length\<close> consecutive keys visits every slot.\<close>

lemma slots_probe:
  fixes x j n :: nat
  assumes "j < n"
  shows "\<exists>i < n. (x + i) mod n = j"
proof -
  have n: "0 < n" using assms by simp
  let ?i = "(j + n - x mod n) mod n"
  have "(x + ?i) mod n = (x mod n + (j + n - x mod n)) mod n" by (simp add: mod_simps)
  also have "x mod n + (j + n - x mod n) = j + n" using n by (simp add: less_imp_le trans_le_add2)
  finally show ?thesis using assms n by (intro exI [of _ ?i]) simp
qed

lemma slots_get_set:
  assumes "slots_ok key slots" "0 < length slots"
  shows "slots_get key slots x = Some c \<longleftrightarrow> Some c \<in> set slots \<and> key c = x"
proof
  assume "slots_get key slots x = Some c"
  then show "Some c \<in> set slots \<and> key c = x"
    using assms(2) nth_mem [of "unat x mod length slots" slots] by (simp add: slots_get_Some)
next
  assume a: "Some c \<in> set slots \<and> key c = x"
  then obtain j where "j < length slots" "slots ! j = Some c" by (metis in_set_conv_nth)
  then show "slots_get key slots x = Some c"
    using slots_ok_nth [OF assms(1)] a by (metis slots_get_Some)
qed

lemma slots_get_cong_set:
  assumes "slots_ok key slots" "0 < length slots" "slots_ok key slots'" "0 < length slots'"
    and "set slots - {None} = set slots' - {None}"
  shows "slots_get key slots = slots_get key slots'"
proof
  fix x
  have "Some c \<in> set slots \<longleftrightarrow> Some c \<in> set slots'" for c using assms(5) by blast
  then show "slots_get key slots x = slots_get key slots' x"
    using slots_get_set [OF assms(1,2), of x] slots_get_set [OF assms(3,4), of x]
    by (metis option.exhaust)
qed

lemma slots_ran: "slots_ok key slots \<Longrightarrow> 0 < length slots \<Longrightarrow> c \<in> ran (slots_get key slots) \<longleftrightarrow> Some c \<in> set slots"
  by (auto simp: ran_def slots_get_set)

text \<open>The occupied slots hold different objects under different keys.\<close>

lemma slots_full:
  assumes "slots_ok key slots" "0 < length slots" "None \<notin> set slots"
  shows "distinct (map (\<lambda>c. unat (key (the c)) mod length slots) slots)"
    and "length slots \<le> card (dom (slots_get key slots))"
proof -
  have slot: "slots ! j = Some (the (slots ! j))" "unat (key (the (slots ! j))) mod length slots = j"
    if "j < length slots" for j
  proof -
    show "slots ! j = Some (the (slots ! j))" using that assms(3) by (metis nth_mem option.collapse)
    then show "unat (key (the (slots ! j))) mod length slots = j"
      using slots_ok_nth [OF assms(1) that] by metis
  qed
  then have map: "map (\<lambda>c. unat (key (the c)) mod length slots) slots = [0..<length slots]"
    by (intro nth_equalityI) auto
  then show "distinct (map (\<lambda>c. unat (key (the c)) mod length slots) slots)" by simp
  have inj: "inj_on (\<lambda>j. key (the (slots ! j))) {..<length slots}"
    by (intro inj_onI) (metis slot(2) lessThan_iff)
  have "(\<lambda>j. key (the (slots ! j))) ` {..<length slots} \<subseteq> dom (slots_get key slots)"
    using slot(1) nth_mem slots_get_set [OF assms(1,2)] by fastforce
  then have "card ((\<lambda>j. key (the (slots ! j))) ` {..<length slots}) \<le> card (dom (slots_get key slots))"
    by (intro card_mono) simp_all
  then show "length slots \<le> card (dom (slots_get key slots))"
    using inj by (simp add: card_image)
qed

lemma slots_twice_free:
  assumes "slots_ok key slots" "length slots = 2 * n" "0 < n"
    and "set slots - {None} \<subseteq> set old" "length old = n"
  shows "None \<in> set slots"
proof (rule ccontr)
  assume "None \<notin> set slots"
  then have "distinct slots"
    using slots_full(1) [OF assms(1)] assms(2,3) by (metis distinct_map nat_0_less_mult_iff zero_less_numeral)
  then have "2 * n \<le> card (set old)"
    using assms(2,4) \<open>None \<notin> set slots\<close> by (metis Diff_empty Diff_insert0 List.finite_set card_mono distinct_card)
  then show False using card_length [of old] assms(3,5) by simp
qed

section \<open>Rehashing into twice the size\<close>

fun slots_move :: "('c \<Rightarrow> u32) \<Rightarrow> nat \<Rightarrow> 'c option list \<Rightarrow> 'c option list \<Rightarrow> 'c option list option" where
  "slots_move key n [] new = Some new"
| "slots_move key n (None # cs) new = None"
| "slots_move key n (Some c # cs) new = do {
     let hash = slot_index (key c) n;
     c_assert (new ! hash = None);
     slots_move key n cs (new[hash := Some c])
   }"

lemma slots_move_ok:
  assumes "length new = 2 ^ Suc k" "Suc k \<le> 32" "None \<notin> set cs"
    and "slots_ok key new"
    and "distinct (map (\<lambda>c. unat (key (the c)) mod 2 ^ k) cs)"
    and "\<And>c c'. Some c \<in> set cs \<Longrightarrow> Some c' \<in> set new \<Longrightarrow> unat (key c) mod 2 ^ k \<noteq> unat (key c') mod 2 ^ k"
  shows "\<exists>new'. slots_move key (2 ^ Suc k) cs new = Some new' \<and> length new' = length new
    \<and> slots_ok key new' \<and> set new' - {None} = set cs \<union> (set new - {None})"
  using assms
proof (induction cs arbitrary: new)
  case Nil
  then show ?case by auto
next
  case (Cons c0 cs)
  then obtain c where c0: "c0 = Some c" by (cases c0) auto
  define h where "h = unat (key c) mod 2 ^ Suc k"
  have h: "slot_index (key c) (2 ^ Suc k) = h" "h < length new"
    using Cons.prems(1,2) slot_index_mod [of "Suc k" "key c"] by (simp_all add: h_def)
  have empty: "new ! h = None"
  proof (rule ccontr)
    assume "new ! h \<noteq> None"
    then obtain c' where c': "new ! h = Some c'" by auto
    then have "unat (key c') mod 2 ^ Suc k = h"
      using slots_ok_nth [OF Cons.prems(4) h(2)] Cons.prems(1) by metis
    then have "unat (key c') mod 2 ^ Suc k mod 2 ^ k = unat (key c) mod 2 ^ Suc k mod 2 ^ k"
      by (simp add: h_def)
    then have "unat (key c) mod 2 ^ k = unat (key c') mod 2 ^ k"
      by (simp add: mod_mod_cancel)
    moreover have "Some c' \<in> set new" using c' h(2) by (metis nth_mem)
    ultimately show False using Cons.prems(6) [of c c'] c0 by simp
  qed
  have "\<exists>new'. slots_move key (2 ^ Suc k) cs (new[h := Some c]) = Some new' \<and>
      length new' = length (new[h := Some c]) \<and> slots_ok key new' \<and>
      set new' - {None} = set cs \<union> (set (new[h := Some c]) - {None})"
  proof (rule Cons.IH)
    show "slots_ok key (new[h := Some c])"
      using Cons.prems(1,4) by (intro slots_ok_update) (simp_all add: h_def)
    show "unat (key d) mod 2 ^ k \<noteq> unat (key d') mod 2 ^ k"
      if "Some d \<in> set cs" "Some d' \<in> set (new[h := Some c])" for d d'
    proof (cases "Some d' \<in> set new")
      case True
      then show ?thesis using Cons.prems(6) that by simp
    next
      case False
      then have "d' = c" using that(2) set_update_subset_insert [of new h "Some c"] by auto
      moreover have "unat (key c) mod 2 ^ k \<noteq> unat (key d) mod 2 ^ k"
        using Cons.prems(5) c0 that(1) by (force simp: image_iff)
      ultimately show ?thesis by simp
    qed
  qed (use Cons.prems c0 in auto)
  moreover have "set (new[h := Some c]) - {None} = insert (Some c) (set new - {None})"
  proof -
    have "new = take h new @ None # drop (Suc h) new" using empty h(2) id_take_nth_drop by metis
    then have "set new = insert None (set (take h new) \<union> set (drop (Suc h) new))"
      by (metis list.simps(15) set_append Un_insert_right)
    moreover have "set (new[h := Some c]) = insert (Some c) (set (take h new) \<union> set (drop (Suc h) new))"
      using h(2) by (simp add: upd_conv_take_nth_drop)
    ultimately show ?thesis by auto
  qed
  ultimately show ?case using c0 empty h by (auto simp: Let_def)
qed

end
