(* ===== verification/Registry.thy ===== *)
theory Registry
  imports Prelude
begin

text \<open>
  The interface of the components that hand out identifiers: the handle storage gives a fresh
  32-bit handle to every service, the gate a fresh id to every connection.  A client only sees
  \<open>lookup\<close>, \<open>register\<close> and \<open>retire\<close>; the locale collects what it may rely on.
\<close>

datatype ('i, 'v) reg_op = Register 'v | Retire 'i

fun reg_run :: "('v \<Rightarrow> 's \<Rightarrow> ('i \<times> 's) option) \<Rightarrow> ('i \<Rightarrow> 's \<Rightarrow> 's option) \<Rightarrow>
    ('i, 'v) reg_op list \<Rightarrow> 's \<Rightarrow> ('i list \<times> 's) option" where
  "reg_run register retire [] s = Some ([], s)"
| "reg_run register retire (Register v # ops) s = do {
     (i, s) \<leftarrow> register v s;
     (is, s) \<leftarrow> reg_run register retire ops s;
     Some (i # is, s)
   }"
| "reg_run register retire (Retire i # ops) s = do {
     s \<leftarrow> retire i s;
     reg_run register retire ops s
   }"

fun registered :: "('i, 'v) reg_op list \<Rightarrow> 'v list" where
  "registered [] = []"
| "registered (Register v # ops) = v # registered ops"
| "registered (Retire i # ops) = registered ops"

lemma registered_map [simp]: "registered (map Register vs) = vs"
  by (induction vs) auto

locale registry =
  fixes inv :: "'s \<Rightarrow> bool"
    and lookup :: "'s \<Rightarrow> 'i \<Rightarrow> 'v option"
    and register :: "'v \<Rightarrow> 's \<Rightarrow> ('i \<times> 's) option"
    and retire :: "'i \<Rightarrow> 's \<Rightarrow> 's option"
  assumes register_lookup: "inv s \<Longrightarrow> v \<notin> ran (lookup s) \<Longrightarrow> register v s = Some (i, s') \<Longrightarrow>
      inv s' \<and> lookup s i = None \<and> lookup s' = (lookup s)(i \<mapsto> v)"
    and retire_returns: "inv s \<Longrightarrow> lookup s i = Some v \<Longrightarrow> \<exists>s'. retire i s = Some s'"
    and retire_keeps: "inv s \<Longrightarrow> retire i s = Some s' \<Longrightarrow> inv s' \<and> lookup s' = (lookup s)(i := None)"
    and lookup_inj: "inv s \<Longrightarrow> lookup s i = Some v \<Longrightarrow> lookup s j = Some v \<Longrightarrow> i = j"
begin

text \<open>An object registered under an id stays there until that id is retired.\<close>

lemma lookup_stable:
  assumes "inv s" "reg_run register retire ops s = Some (is, s')" "lookup s i = Some v"
    and "Retire i \<notin> set ops"
    and "distinct (registered ops)" "set (registered ops) \<inter> ran (lookup s) = {}"
  shows "inv s' \<and> lookup s' i = Some v \<and> i \<notin> set is"
  using assms
proof (induction ops arbitrary: s "is")
  case Nil
  then show ?case by simp
next
  case (Cons op ops)
  show ?case
  proof (cases op)
    case (Register w)
    then obtain j s1 js where r: "register w s = Some (j, s1)"
        and run: "reg_run register retire ops s1 = Some (js, s')" and is_eq: "is = j # js"
      using Cons.prems(2) by (auto simp: Option.bind_eq_Some_conv)
    have fresh: "w \<notin> ran (lookup s)" using Cons.prems(6) Register by auto
    have l: "inv s1" "lookup s j = None" "lookup s1 = (lookup s)(j \<mapsto> w)"
      using register_lookup [OF Cons.prems(1) fresh r] by auto
    have ran: "ran (lookup s1) = insert w (ran (lookup s))"
      using l(2,3) by simp
    have "j \<noteq> i" using l(2) Cons.prems(3) by auto
    moreover from this have "lookup s1 i = Some v" using l(3) Cons.prems(3) by simp
    moreover have "set (registered ops) \<inter> ran (lookup s1) = {}"
      using Cons.prems(5,6) Register ran by auto
    ultimately show ?thesis
      using Cons.IH [OF l(1) run] Cons.prems(4,5) Register is_eq by auto
  next
    case (Retire j)
    then obtain s1 where r: "retire j s = Some s1" and run: "reg_run register retire ops s1 = Some (is, s')"
      using Cons.prems(2) by (auto simp: Option.bind_eq_Some_conv)
    have "lookup s1 i = Some v"
      using retire_keeps [OF Cons.prems(1) r] Cons.prems(3,4) Retire by simp
    moreover have "ran (lookup s1) \<subseteq> ran (lookup s)"
      using retire_keeps [OF Cons.prems(1) r] by (auto simp: ran_def)
    ultimately show ?thesis
      using Cons.IH [OF conjunct1 [OF retire_keeps [OF Cons.prems(1) r]] run] Cons.prems(4-6) Retire by auto
  qed
qed

text \<open>As long as nothing is retired, the ids handed out are distinct.\<close>

lemma ids_distinct:
  assumes "inv s" "reg_run register retire (map Register vs) s = Some (is, s')"
    and "distinct vs" "set vs \<inter> ran (lookup s) = {}"
  shows "distinct is \<and> (\<forall>i \<in> set is. lookup s i = None) \<and> map (lookup s') is = map Some vs"
  using assms
proof (induction vs arbitrary: s "is")
  case (Cons v vs)
  then obtain j s1 js where r: "register v s = Some (j, s1)"
      and run: "reg_run register retire (map Register vs) s1 = Some (js, s')" and is_eq: "is = j # js"
    by (auto simp: Option.bind_eq_Some_conv)
  have fresh: "v \<notin> ran (lookup s)" using Cons.prems(4) by auto
  have l: "inv s1" "lookup s j = None" "lookup s1 = (lookup s)(j \<mapsto> v)"
    using register_lookup [OF Cons.prems(1) fresh r] by auto
  have ran: "ran (lookup s1) = insert v (ran (lookup s))" using l(2,3) by simp
  have dis: "set vs \<inter> ran (lookup s1) = {}" using Cons.prems(3,4) ran by auto
  have IH: "distinct js \<and> (\<forall>i \<in> set js. lookup s1 i = None) \<and> map (lookup s') js = map Some vs"
    using Cons.IH [OF l(1) run _ dis] Cons.prems(3) by simp
  have "Retire j \<notin> set (map Register vs)" by auto
  then have "lookup s' j = Some v"
    using lookup_stable [OF l(1) run, of j v] l(3) Cons.prems(3) dis by simp
  moreover have "lookup s i = None" if "i \<in> set js" for i
    using IH that l(3) by (metis fun_upd_apply option.distinct(1))
  ultimately show ?case using IH is_eq l(2,3) by (auto simp: fun_upd_def split: if_splits)
qed simp

end

end
