(* ===== verification/CString.thy ===== *)
theory CString
  imports Prelude "HOL-Library.Char_ord" "HOL-Library.List_Lexorder"
begin

text \<open>
  C strings: lists of characters without the terminating NUL, and the comparison functions of
  the C library on them.  \<open>strcmp\<close> is the usual loop over unsigned characters; its sign is the
  lexicographic order, which is what the binary searches of the program rely on.
\<close>

fun strcmp :: "string \<Rightarrow> string \<Rightarrow> int" where
  "strcmp [] [] = 0"
| "strcmp [] (c # cs) = - of_char c"
| "strcmp (c # cs) [] = of_char c"
| "strcmp (a # as) (b # bs) = (if a = b then strcmp as bs else of_char a - of_char b)"

definition cstring :: "string \<Rightarrow> bool" where
  "cstring s \<longleftrightarrow> CHR 0x00 \<notin> set s"

lemma cstring_simps [simp]:
  "cstring []" "cstring (c # s) \<longleftrightarrow> c \<noteq> CHR 0x00 \<and> cstring s"
  by (auto simp: cstring_def)

lemma of_char_pos: "c \<noteq> CHR 0x00 \<Longrightarrow> (0::int) < of_char c"
proof -
  assume "c \<noteq> CHR 0x00"
  then have "(of_char c :: nat) \<noteq> of_char (CHR 0x00)" by (simp only: of_char_eq_iff not_False_eq_True)
  then have "0 < (of_char c :: nat)" by simp
  then show ?thesis by (metis of_nat_0_less_iff of_nat_of_char)
qed

lemma of_char_less: "(of_char a :: int) < of_char b \<longleftrightarrow> a < b"
proof -
  have "(of_char c :: int) = int (of_char c)" for c by (simp only: of_nat_of_char)
  then show ?thesis unfolding less_char_def by (simp only: of_nat_less_iff)
qed

lemma strcmp_0: "cstring a \<Longrightarrow> cstring b \<Longrightarrow> strcmp a b = 0 \<longleftrightarrow> a = b"
  by (induction a b rule: strcmp.induct) (auto dest: of_char_pos)

lemma strcmp_neg: "cstring a \<Longrightarrow> cstring b \<Longrightarrow> strcmp a b < 0 \<longleftrightarrow> a < b"
  by (induction a b rule: strcmp.induct) (auto dest: of_char_pos simp: of_char_less)

lemma strcmp_pos: "cstring a \<Longrightarrow> cstring b \<Longrightarrow> 0 < strcmp a b \<longleftrightarrow> b < a"
  using strcmp_0 [of a b] strcmp_neg [of a b] by (metis linorder_neq_iff order_less_asym')

end
