(* ===== verification/HandleStorage.thy ===== *)
theory HandleStorage
  imports SlotTable Registry CString MessageQueue
begin

text \<open>
  \<open>skynet-src/skynet_handle.c\<close>: the table from 32-bit handles to service contexts, and the
  sorted array of local service names.  A context is an abstract pointer \<open>'c\<close>; its field
  \<open>ctx->handle\<close>, which the table reads through \<open>skynet_context_handle\<close>, is a map from
  pointers to handles that is part of the state.  The reader-writer lock makes every operation
  atomic, except that \<open>skynet_handle_register\<close> writes \<open>ctx->handle\<close> after it has unlocked: the
  two halves are separate definitions and the race between them is \<open>register_race\<close>.
\<close>

unbundle bit_operations_syntax

section \<open>The data\<close>

record handle_name =
  hn_name :: string
  hn_handle :: u32

text \<open>\<open>name\<close> has \<open>name_cap\<close> cells; a cell that was never written is \<open>None\<close>, and reading it is an error.\<close>

record 'c handle_storage =
  harbor :: u32
  handle_index :: u32
  slot_size :: nat
  slot :: "'c option list"
  name_cap :: nat
  name_count :: nat
  name :: "handle_name option list"

type_synonym 'c handle_state = "'c handle_storage \<times> ('c \<Rightarrow> u32)"

definition DEFAULT_SLOT_SIZE :: nat where "DEFAULT_SLOT_SIZE = 4"

definition skynet_handle_init :: "u32 \<Rightarrow> 'c handle_storage" where
  "skynet_handle_init h =
     \<lparr>harbor = push_bit HANDLE_REMOTE_SHIFT (h AND 0xff), handle_index = 1,
      slot_size = DEFAULT_SLOT_SIZE, slot = replicate DEFAULT_SLOT_SIZE None,
      name_cap = 2, name_count = 0, name = replicate 2 None\<rparr>"

section \<open>Handles\<close>

text \<open>The inner loop of \<open>skynet_handle_register\<close>: the first free slot from \<open>handle_index\<close> on.\<close>

definition handle_probe :: "'c handle_storage \<Rightarrow> nat option" where
  "handle_probe s =
     find (\<lambda>i. slot s ! slot_index ((of_nat i + handle_index s) AND HANDLE_MASK) (slot_size s) = None)
       [0..<slot_size s]"

definition handle_grow :: "('c \<Rightarrow> u32) \<Rightarrow> 'c handle_storage \<Rightarrow> 'c handle_storage option" where
  "handle_grow hdl s = do {
     c_assert (int (slot_size s) * 2 - 1 \<le> uint HANDLE_MASK);
     new_slot \<leftarrow> slots_move hdl (slot_size s * 2) (slot s) (replicate (slot_size s * 2) None);
     Some (s\<lparr>slot := new_slot, slot_size := slot_size s * 2\<rparr>)
   }"

text \<open>The part under the write lock: the slot is taken, the handle is not yet in the context.\<close>

partial_function (option) handle_reserve ::
  "('c \<Rightarrow> u32) \<Rightarrow> 'c \<Rightarrow> 'c handle_storage \<Rightarrow> (u32 \<times> 'c handle_storage) option" where
  "handle_reserve hdl ctx s =
     (case handle_probe s of
        Some i \<Rightarrow>
          let handle = (of_nat i + handle_index s) AND HANDLE_MASK;
              hash = slot_index handle (slot_size s)
          in Some (handle, s\<lparr>slot := (slot s)[hash := Some ctx], handle_index := handle + 1\<rparr>)
      | None \<Rightarrow> do {
          s \<leftarrow> handle_grow hdl s;
          handle_reserve hdl ctx s
        })"

declare handle_reserve.simps [code]

definition skynet_handle_register :: "'c \<Rightarrow> 'c handle_state \<Rightarrow> (u32 \<times> 'c handle_state) option" where
  "skynet_handle_register ctx st = do {
     let (s, hdl) = st;
     (handle, s) \<leftarrow> handle_reserve hdl ctx s;
     let handle = handle OR harbor s;
     Some (handle, s, hdl(ctx := handle))
   }"

definition skynet_handle_grab :: "u32 \<Rightarrow> 'c handle_state \<Rightarrow> 'c option" where
  "skynet_handle_grab handle st =
     (let (s, hdl) = st;
          hash = slot_index handle (slot_size s)
      in case slot s ! hash of
           Some ctx \<Rightarrow> if hdl ctx = handle then Some ctx else None
         | None \<Rightarrow> None)"

section \<open>Names\<close>

text \<open>
  The binary search, which \<open>skynet_handle_findname\<close> and \<open>_insert_name\<close> both contain:
  \<open>Inr\<close> the handle of an equal name, \<open>Inl\<close> the final value of \<open>begin\<close>.
\<close>

function name_search :: "handle_name option list \<Rightarrow> string \<Rightarrow> int \<Rightarrow> int \<Rightarrow> (int + u32) option" where
  "name_search cells nm begin' end' =
     (if begin' \<le> end' then
        let mid = (begin' + end') div 2 in
        do {
          n \<leftarrow> cells ! nat mid;
          let c = strcmp (hn_name n) nm;
          if c = 0 then Some (Inr (hn_handle n))
          else if c < 0 then name_search cells nm (mid + 1) end'
          else name_search cells nm begin' (mid - 1)
        }
      else Some (Inl begin'))"
  by pat_completeness auto

termination
  by (relation "measure (\<lambda>(_, _, b, e). nat (e - b + 1))") auto

declare name_search.simps [simp del]

definition skynet_handle_findname :: "string \<Rightarrow> 'c handle_storage \<Rightarrow> u32 option" where
  "skynet_handle_findname nm s = do {
     r \<leftarrow> name_search (name s) nm 0 (int (name_count s) - 1);
     Some (case r of Inr handle \<Rightarrow> handle | Inl _ \<Rightarrow> 0)
   }"

text \<open>
  \<open>_insert_name_before\<close>: shift the cells from \<open>before\<close> on by one, in place or, when the array
  is full, into one of twice the size.
\<close>

fun shift_cells :: "nat \<Rightarrow> nat \<Rightarrow> 'a list \<Rightarrow> 'a list" where
  "shift_cells 0 before cells = cells"
| "shift_cells (Suc i) before cells =
     (if before < Suc i then shift_cells i before (cells[Suc i := cells ! i]) else cells)"

definition insert_name_before :: "string \<Rightarrow> u32 \<Rightarrow> nat \<Rightarrow> 'c handle_storage \<Rightarrow> 'c handle_storage" where
  "insert_name_before nm handle before s =
     (let s = (if name_cap s \<le> name_count s then
                 s\<lparr>name_cap := name_cap s * 2,
                   name := take before (name s) @ [None] @
                     take (name_count s - before) (drop before (name s)) @
                     replicate (name_cap s * 2 - name_count s - 1) None\<rparr>
               else s\<lparr>name := shift_cells (name_count s) before (name s)\<rparr>)
      in s\<lparr>name := (name s)[before := Some \<lparr>hn_name = nm, hn_handle = handle\<rparr>],
           name_count := name_count s + 1\<rparr>)"

definition skynet_handle_namehandle ::
  "u32 \<Rightarrow> string \<Rightarrow> 'c handle_storage \<Rightarrow> (string option \<times> 'c handle_storage) option" where
  "skynet_handle_namehandle handle nm s = do {
     r \<leftarrow> name_search (name s) nm 0 (int (name_count s) - 1);
     Some (case r of
             Inr _ \<Rightarrow> (None, s)
           | Inl before \<Rightarrow> (Some nm, insert_name_before nm handle (nat before) s))
   }"

section \<open>Retirement\<close>

text \<open>The loop that drops every name of the retired handle and moves the others down.\<close>

function compact_names :: "u32 \<Rightarrow> nat \<Rightarrow> nat \<Rightarrow> nat \<Rightarrow> handle_name option list \<Rightarrow>
    (nat \<times> handle_name option list) option" where
  "compact_names handle n i j cells =
     (if i < n then do {
        nm \<leftarrow> cells ! i;
        if hn_handle nm = handle then compact_names handle n (Suc i) j cells
        else compact_names handle n (Suc i) (Suc j) (if i \<noteq> j then cells[j := cells ! i] else cells)
      } else Some (j, cells))"
  by pat_completeness auto

termination
  by (relation "measure (\<lambda>(_, n, i, _, _). n - i)") auto

declare compact_names.simps [simp del]

text \<open>The context whose reference the table gives up is returned with the new state.\<close>

definition skynet_handle_retire :: "u32 \<Rightarrow> 'c handle_state \<Rightarrow> ('c option \<times> 'c handle_state) option" where
  "skynet_handle_retire handle st =
     (let (s, hdl) = st;
          hash = slot_index handle (slot_size s)
      in case slot s ! hash of
           Some ctx \<Rightarrow>
             if hdl ctx = handle then do {
               let s = s\<lparr>slot := (slot s)[hash := None]\<rparr>;
               (j, cells) \<leftarrow> compact_names handle (name_count s) 0 0 (name s);
               Some (Some ctx, s\<lparr>name := cells, name_count := j\<rparr>, hdl)
             } else Some (None, s, hdl)
         | None \<Rightarrow> Some (None, s, hdl))"

section \<open>The name array as a sorted list\<close>

definition names :: "'c handle_storage \<Rightarrow> (string \<times> u32) list" where
  "names s = map (\<lambda>c. (hn_name (the c), hn_handle (the c))) (take (name_count s) (name s))"

definition names_ok :: "'c handle_storage \<Rightarrow> bool" where
  "names_ok s \<longleftrightarrow> length (name s) = name_cap s \<and> 0 < name_cap s \<and> name_count s \<le> name_cap s \<and>
     None \<notin> set (take (name_count s) (name s)) \<and>
     sorted_wrt (<) (map fst (names s)) \<and> (\<forall>n \<in> fst ` set (names s). cstring n)"

lemma length_names: "names_ok s \<Longrightarrow> length (names s) = name_count s"
  by (simp add: names_ok_def names_def)

lemma names_nth:
  assumes "names_ok s" "i < name_count s"
  shows "\<exists>n. name s ! i = Some n \<and> names s ! i = (hn_name n, hn_handle n)"
proof -
  have "take (name_count s) (name s) ! i \<in> set (take (name_count s) (name s))"
    using assms by (intro nth_mem) (simp add: names_ok_def)
  then obtain n where "name s ! i = Some n"
    using assms by (cases "name s ! i") (auto simp: names_ok_def)
  then show ?thesis using assms by (simp add: names_def names_ok_def)
qed

lemma names_less:
  "names_ok s \<Longrightarrow> i < j \<Longrightarrow> j < name_count s \<Longrightarrow> fst (names s ! i) < fst (names s ! j)"
  using length_names [of s] sorted_wrt_nth_less [of "(<)" "map fst (names s)" i j]
  by (simp add: names_ok_def)

text \<open>What the binary search returns, for any part of the array known to hold the place.\<close>

lemma name_search_correct:
  assumes "names_ok s" "cstring nm" "0 \<le> b" "e < int (name_count s)" "b \<le> e + 1"
    and "\<And>i. i < nat b \<Longrightarrow> fst (names s ! i) < nm"
    and "\<And>i. e < int i \<Longrightarrow> i < name_count s \<Longrightarrow> nm < fst (names s ! i)"
  shows "(\<exists>h. name_search (name s) nm b e = Some (Inr h) \<and> (nm, h) \<in> set (names s)) \<or>
    (\<exists>p. name_search (name s) nm b e = Some (Inl (int p)) \<and> p \<le> name_count s \<and>
       (\<forall>i < p. fst (names s ! i) < nm) \<and> (\<forall>i. p \<le> i \<and> i < name_count s \<longrightarrow> nm < fst (names s ! i)))"
  using assms(2-)
proof (induction "name s" nm b e rule: name_search.induct)
  case (1 nm b e)
  show ?case
  proof (cases "b \<le> e")
    case False
    then have "b = e + 1" using "1.prems" by simp
    moreover have "name_search (name s) nm b e = Some (Inl (int (nat b)))"
      using False "1.prems"(2) by (simp add: name_search.simps [of _ _ b e])
    ultimately show ?thesis using "1.prems" by (intro disjI2 exI [of _ "nat b"]) auto
  next
    case True
    define mid where "mid = (b + e) div 2"
    have mid: "b \<le> mid" "mid \<le> e" "nat mid < name_count s"
      using True "1.prems"(2,3) by (auto simp: mid_def)
    obtain n where n: "name s ! nat mid = Some n" "names s ! nat mid = (hn_name n, hn_handle n)"
      using names_nth [OF assms(1) mid(3)] by blast
    have inset: "(hn_name n, hn_handle n) \<in> set (names s)"
      using n(2) mid(3) length_names [OF assms(1)] nth_mem by metis
    then have cs: "cstring (hn_name n)" using assms(1) by (force simp: names_ok_def)
    have step: "name_search (name s) nm b e =
        (let c = strcmp (hn_name n) nm in
         if c = 0 then Some (Inr (hn_handle n))
         else if c < 0 then name_search (name s) nm (mid + 1) e
         else name_search (name s) nm b (mid - 1))"
      using True n(1) by (simp add: name_search.simps [of _ _ b e] mid_def Let_def)
    consider "hn_name n = nm" | "hn_name n < nm" | "nm < hn_name n"
      using linorder_less_linear by blast
    then show ?thesis
    proof cases
      case 1
      then have "strcmp (hn_name n) nm = 0" using strcmp_0 [OF cs "1.prems"(1)] by blast
      then show ?thesis using step inset 1 by auto
    next
      case 2
      then have c: "strcmp (hn_name n) nm \<noteq> 0" "strcmp (hn_name n) nm < 0"
        using strcmp_neg [OF cs "1.prems"(1)] by simp_all
      have "fst (names s ! i) < nm" if "i < nat (mid + 1)" for i
      proof (cases "i = nat mid")
        case False
        then have "i < nat mid" using that by simp
        then show ?thesis using names_less [OF assms(1) _ mid(3)] n(2) 2 by fastforce
      qed (use n(2) 2 in simp)
      then show ?thesis
        using step c "1.hyps"(1) [OF True mid_def n(1) refl c(1,2)] mid "1.prems" by (simp add: Let_def)
    next
      case 3
      then have c: "strcmp (hn_name n) nm \<noteq> 0" "\<not> strcmp (hn_name n) nm < 0"
        using strcmp_pos [OF cs "1.prems"(1)] by simp_all
      have "nm < fst (names s ! i)" if "mid - 1 < int i" "i < name_count s" for i
      proof (cases "i = nat mid")
        case False
        then have "nat mid < i" using that mid(1) "1.prems"(2) by simp
        then show ?thesis using names_less [OF assms(1) _ that(2)] n(2) 3 by fastforce
      qed (use n(2) 3 in simp)
      then show ?thesis
        using step c "1.hyps"(2) [OF True mid_def n(1) refl c(1,2)] mid "1.prems" by (simp add: Let_def)
    qed
  qed
qed

lemma map_of_sorted_not:
  "\<forall>i < p. fst (xs ! i) \<noteq> nm \<Longrightarrow> \<forall>i. p \<le> i \<and> i < length xs \<longrightarrow> fst (xs ! i) \<noteq> nm \<Longrightarrow> map_of xs nm = None"
  by (metis in_set_conv_nth map_of_eq_None_iff imageE linorder_not_less)

lemma name_search_whole:
  assumes "names_ok s" "cstring nm"
  shows "(\<exists>h. name_search (name s) nm 0 (int (name_count s) - 1) = Some (Inr h) \<and> map_of (names s) nm = Some h) \<or>
    (\<exists>p. name_search (name s) nm 0 (int (name_count s) - 1) = Some (Inl (int p)) \<and> p \<le> name_count s \<and>
       map_of (names s) nm = None \<and>
       (\<forall>i < p. fst (names s ! i) < nm) \<and> (\<forall>i. p \<le> i \<and> i < name_count s \<longrightarrow> nm < fst (names s ! i)))"
proof -
  have dist: "distinct (map fst (names s))"
    using assms(1) strict_sorted_iff by (auto simp: names_ok_def)
  have "map_of (names s) nm = None"
    if "\<forall>i < p. fst (names s ! i) < nm" "\<forall>i. p \<le> i \<and> i < name_count s \<longrightarrow> nm < fst (names s ! i)" for p
    using that length_names [OF assms(1)] by (intro map_of_sorted_not [of p]) auto
  then show ?thesis
    using name_search_correct [OF assms, of 0 "int (name_count s) - 1"] map_of_is_SomeI [OF dist] by auto
qed

section \<open>Insertion and compaction\<close>

lemma length_shift_cells [simp]: "length (shift_cells i before cells) = length cells"
  by (induction i arbitrary: cells) auto

lemma shift_cells_nth:
  "i < length cells \<Longrightarrow> k < length cells \<Longrightarrow>
   shift_cells i before cells ! k = (if before < k \<and> k \<le> i then cells ! (k - 1) else cells ! k)"
  by (induction i arbitrary: cells) (auto simp: nth_list_update le_Suc_eq)

lemma insert_cells:
  fixes nm :: string and h :: u32 and s :: "'c handle_storage"
  assumes "names_ok s" "p \<le> name_count s"
  defines "s' \<equiv> insert_name_before nm h p s"
  shows "take (name_count s + 1) (name s') =
      take p (name s) @ [Some \<lparr>hn_name = nm, hn_handle = h\<rparr>] @ drop p (take (name_count s) (name s))"
    and "length (name s') = name_cap s'" "name_count s' = name_count s + 1" "name_count s' \<le> name_cap s'"
    and "slot s' = slot s" "slot_size s' = slot_size s" "harbor s' = harbor s" "handle_index s' = handle_index s"
proof -
  have len: "length (name s) = name_cap s" "name_count s \<le> name_cap s" "0 < name_cap s"
    using assms(1) by (auto simp: names_ok_def)
  show "name_count s' = name_count s + 1" "slot s' = slot s" "slot_size s' = slot_size s"
      "harbor s' = harbor s" "handle_index s' = handle_index s"
    by (simp_all add: s'_def insert_name_before_def Let_def)
  show "length (name s') = name_cap s'" "name_count s' \<le> name_cap s'"
    using len assms(2) by (auto simp: s'_def insert_name_before_def Let_def)
  show "take (name_count s + 1) (name s') =
      take p (name s) @ [Some \<lparr>hn_name = nm, hn_handle = h\<rparr>] @ drop p (take (name_count s) (name s))"
  proof (cases "name_cap s \<le> name_count s")
    case True
    then show ?thesis
      using len assms(2) by (simp add: s'_def insert_name_before_def Let_def list_update_append drop_take Suc_diff_le)
  next
    case False
    then show ?thesis
      using len assms(2)
      by (intro nth_equalityI)
        (auto simp: s'_def insert_name_before_def Let_def shift_cells_nth nth_list_update nth_append)
  qed
qed

lemma names_insert:
  assumes "names_ok s" "p \<le> name_count s"
  shows "names (insert_name_before nm h p s) = take p (names s) @ (nm, h) # drop p (names s)"
proof -
  have "take p (name s) = take p (take (name_count s) (name s))" using assms(2) by simp
  then show ?thesis
    using insert_cells(1,3) [OF assms, of nm h] by (simp add: names_def take_map drop_map del: take_take)
qed

lemma names_ok_insert:
  assumes ok: "names_ok s" and p: "p \<le> name_count s" and nm: "cstring nm"
    and lo: "\<forall>i < p. fst (names s ! i) < nm" and hi: "\<forall>i. p \<le> i \<and> i < name_count s \<longrightarrow> nm < fst (names s ! i)"
  shows "names_ok (insert_name_before nm h p s)"
    and "map_of (names (insert_name_before nm h p s)) = (map_of (names s))(nm \<mapsto> h)"
proof -
  let ?s' = "insert_name_before nm h p s"
  note len = length_names [OF ok]
  have before: "x < nm" if "x \<in> fst ` set (take p (names s))" for x
    using that lo p len by (auto simp: in_set_conv_nth) (metis fst_conv)
  have after: "nm < x" if "x \<in> fst ` set (drop p (names s))" for x
    using that hi p len by (auto simp: in_set_conv_nth) (metis fst_conv le_add1 less_diff_conv add.commute)
  have "sorted_wrt (<) (map fst (take p (names s) @ drop p (names s)))"
    using ok by (simp add: names_ok_def)
  then have srt: "sorted_wrt (<) (map fst (names ?s'))"
    unfolding names_insert [OF ok p] map_append sorted_wrt_append
    using before after by (auto simp: image_iff) 
  have "set (names ?s') = insert (nm, h) (set (names s))"
    unfolding names_insert [OF ok p] by simp (metis append_take_drop_id set_append)
  then have cs: "\<forall>n \<in> fst ` set (names ?s'). cstring n"
    using ok nm by (simp add: names_ok_def)
  have "set (take (name_count ?s') (name ?s')) \<subseteq>
      insert (Some \<lparr>hn_name = nm, hn_handle = h\<rparr>) (set (take (name_count s) (name s)))"
    unfolding insert_cells(3) [OF ok p] insert_cells(1) [OF ok p]
    using p set_take_subset_set_take [of p "name_count s" "name s"] set_drop_subset [of p "take (name_count s) (name s)"]
    by auto
  then have "None \<notin> set (take (name_count ?s') (name ?s'))"
    using ok by (auto simp: names_ok_def)
  then show "names_ok ?s'"
    using srt cs insert_cells(2,3,4) [OF ok p, of nm h] unfolding names_ok_def by simp
  show "map_of (names ?s') = (map_of (names s))(nm \<mapsto> h)"
  proof
    fix x
    have "map_of (names s) x = (map_of (drop p (names s)) ++ map_of (take p (names s))) x"
      by (metis append_take_drop_id map_of_append)
    moreover have "map_of (take p (names s)) nm = None"
      using before by (auto simp: map_of_eq_None_iff)
    ultimately show "map_of (names ?s') x = ((map_of (names s))(nm \<mapsto> h)) x"
      unfolding names_insert [OF ok p] by (auto simp: map_add_def split: option.splits)
  qed
qed

lemma compact_names_correct:
  assumes "j \<le> i" "i \<le> n" "n \<le> length cells" "\<And>k. i \<le> k \<Longrightarrow> k < n \<Longrightarrow> cells ! k \<noteq> None"
  shows "\<exists>j' cells'. compact_names h n i j cells = Some (j', cells') \<and> j' \<le> n \<and> length cells' = length cells \<and>
    take j' cells' = take j cells @ filter (\<lambda>c. hn_handle (the c) \<noteq> h) (drop i (take n cells))"
  using assms
proof (induction h n i j cells rule: compact_names.induct)
  case (1 h n i j cells)
  show ?case
  proof (cases "i < n")
    case False
    then have "compact_names h n i j cells = Some (j, cells)"
      by (simp add: compact_names.simps [of h n i j cells])
    then show ?thesis using "1.prems" False by simp
  next
    case True
    then obtain nm where nm: "cells ! i = Some nm" using "1.prems"(4) [of i] by auto
    have dr: "drop i (take n cells) = cells ! i # drop (Suc i) (take n cells)"
      using True "1.prems"(3) by (simp add: Cons_nth_drop_Suc [symmetric])
    show ?thesis
    proof (cases "hn_handle nm = h")
      case eq: True
      then show ?thesis
        using "1.IH"(1) [OF True nm eq] "1.prems" True nm dr by (simp add: compact_names.simps [of _ _ i])
    next
      case False
      define cells1 where "cells1 = (if i \<noteq> j then cells[j := cells ! i] else cells)"
      have l: "length cells1 = length cells" by (simp add: cells1_def)
      have "take (Suc j) cells1 = take j cells @ [cells ! i]"
        using "1.prems" True by (auto simp: cells1_def take_Suc_conv_app_nth)
      moreover have "drop (Suc i) (take n cells1) = drop (Suc i) (take n cells)"
        using "1.prems"(1) by (auto simp: cells1_def take_update_swap)
      moreover have "cells1 ! k \<noteq> None" if "Suc i \<le> k" "k < n" for k
        using that "1.prems"(1,4) by (auto simp: cells1_def nth_list_update)
      ultimately show ?thesis
        using "1.IH"(2) [OF True nm False] "1.prems"(1-3) True nm dr False l
        by (simp add: compact_names.simps [of _ _ i j] flip: cells1_def)
    qed
  qed
qed

lemma names_retire:
  assumes ok: "names_ok s"
  shows "\<exists>j cells. compact_names h (name_count s) 0 0 (name s) = Some (j, cells) \<and>
    names_ok (s\<lparr>name := cells, name_count := j\<rparr>) \<and>
    names (s\<lparr>name := cells, name_count := j\<rparr>) = filter (\<lambda>(_, h'). h' \<noteq> h) (names s)"
proof -
  have len: "length (name s) = name_cap s" "name_count s \<le> name_cap s" "0 < name_cap s"
    using ok by (auto simp: names_ok_def)
  have "name s ! k \<noteq> None" if "k < name_count s" for k
    using names_nth [OF ok that] by auto
  then obtain j cells where c: "compact_names h (name_count s) 0 0 (name s) = Some (j, cells)" "j \<le> name_count s"
      "length cells = length (name s)"
      and t: "take j cells = filter (\<lambda>c. hn_handle (the c) \<noteq> h) (take (name_count s) (name s))"
    using compact_names_correct [of 0 0 "name_count s" "name s" h] len by auto
  let ?s' = "s\<lparr>name := cells, name_count := j\<rparr>"
  have n: "names ?s' = filter (\<lambda>(_, h'). h' \<noteq> h) (names s)"
    by (simp add: names_def t filter_map o_def)
  have "sorted_wrt (<) (map fst (names ?s'))"
    unfolding n using ok by (auto simp: names_ok_def sorted_wrt_map intro: sorted_wrt_filter)
  moreover have "None \<notin> set (take j cells)" using ok by (simp add: t names_ok_def)
  ultimately have "names_ok ?s'"
    using ok c len n by (auto simp: names_ok_def)
  then show ?thesis using c n by blast
qed

lemma retire_slot_size:
  "skynet_handle_retire handle st = Some (c, st') \<Longrightarrow> slot_size (fst st') = slot_size (fst st)"
  by (auto simp: skynet_handle_retire_def Let_def Option.bind_eq_Some_conv split: prod.splits option.splits if_splits)

text \<open>One round of \<open>skynet_handle_retireall\<close> over the slots \<open>i ..< slot_size\<close>: how many contexts it met.\<close>

function retire_round :: "nat \<Rightarrow> nat \<Rightarrow> 'c handle_state \<Rightarrow> (nat \<times> 'c handle_state) option" where
  "retire_round i n st =
     (if i < slot_size (fst st) then
        case slot (fst st) ! i of
          Some ctx \<Rightarrow> do {
            (_, st') \<leftarrow> skynet_handle_retire (snd st ctx) st;
            retire_round (Suc i) (Suc n) st'
          }
        | None \<Rightarrow> retire_round (Suc i) n st
      else Some (n, st))"
  by pat_completeness auto

termination
  by (relation "measure (\<lambda>(i, _, st). slot_size (fst st) - i)") (auto dest: retire_slot_size)

declare retire_round.simps [simp del]

partial_function (option) skynet_handle_retireall :: "'c handle_state \<Rightarrow> 'c handle_state option" where
  "skynet_handle_retireall st = do {
     (n, st) \<leftarrow> retire_round 0 0 st;
     if n = 0 then Some st else skynet_handle_retireall st
   }"

section \<open>The invariant\<close>

definition handle_ok :: "'c handle_state \<Rightarrow> bool" where
  "handle_ok st \<longleftrightarrow> (let (s, hdl) = st in
     (\<exists>k \<le> 24. slot_size s = 2 ^ k) \<and> length (slot s) = slot_size s \<and> slots_ok hdl (slot s) \<and>
     harbor s AND HANDLE_MASK = 0 \<and> names_ok s)"

definition handle_lookup :: "'c handle_state \<Rightarrow> u32 \<Rightarrow> 'c option" where
  "handle_lookup st = slots_get (snd st) (slot (fst st))"

lemma handle_okD:
  assumes "handle_ok (s, hdl)"
  shows "\<exists>k \<le> 24. slot_size s = 2 ^ k" "length (slot s) = slot_size s" "0 < slot_size s" "slots_ok hdl (slot s)"
    "harbor s AND HANDLE_MASK = 0" "names_ok s"
  using assms by (auto simp: handle_ok_def)

lemma handle_index_mod:
  "handle_ok (s, hdl) \<Longrightarrow> slot_index x (slot_size s) = unat x mod slot_size s"
  using handle_okD(1) [of s hdl] slot_index_mod by fastforce

lemma skynet_handle_grab_lookup: "handle_ok st \<Longrightarrow> skynet_handle_grab h st = handle_lookup st h"
  by (cases st) (simp add: skynet_handle_grab_def handle_lookup_def slots_get_def handle_index_mod handle_okD(2))

lemma HANDLE_MASK_mask: "HANDLE_MASK = mask 24"
  by (simp add: HANDLE_MASK_def mask_numeral)

lemma handle_mask_mod:
  "k \<le> 24 \<Longrightarrow> unat ((x AND HANDLE_MASK) :: u32) mod 2 ^ k = unat x mod 2 ^ k"
  using mod_mod_power [of k 24 "unat x"] by (simp add: HANDLE_MASK_mask unat_mask_mod)

lemma handle_or_mod:
  fixes h x :: u32
  assumes "h AND HANDLE_MASK = 0" "k \<le> 24"
  shows "unat ((x AND HANDLE_MASK) OR h) mod 2 ^ k = unat x mod 2 ^ k"
proof -
  have "((x AND HANDLE_MASK) OR h) AND HANDLE_MASK = x AND HANDLE_MASK"
    using assms(1) by (simp add: bit.conj_disj_distrib bit.conj_disj_distrib2 ac_simps)
  then show ?thesis
    using handle_mask_mod [OF assms(2), of "(x AND HANDLE_MASK) OR h"] handle_mask_mod [OF assms(2), of x] by simp
qed

lemma init_ok: "handle_ok (skynet_handle_init h, hdl)"
proof -
  have "push_bit 24 (h AND 0xff) AND HANDLE_MASK = (0 :: u32)" for h
    by (rule bit_word_eqI) (simp add: HANDLE_MASK_mask bit_simps)
  moreover have "\<exists>k \<le> 24. DEFAULT_SLOT_SIZE = 2 ^ k"
    by (rule exI [of _ 2]) (simp add: DEFAULT_SLOT_SIZE_def)
  ultimately show ?thesis
    by (simp add: handle_ok_def skynet_handle_init_def HANDLE_REMOTE_SHIFT_def slots_ok_empty
        names_ok_def names_def)
qed

section \<open>Registration\<close>

lemma handle_probe_Some:
  assumes "handle_ok (s, hdl)" "handle_probe s = Some i"
  shows "slot s ! (unat (of_nat i + handle_index s) mod slot_size s) = None"
proof -
  obtain k where k: "k \<le> 24" "slot_size s = 2 ^ k" using handle_okD(1) [OF assms(1)] by blast
  have "slot s ! slot_index ((of_nat i + handle_index s) AND HANDLE_MASK) (slot_size s) = None"
    using assms(2) by (auto simp: handle_probe_def find_Some_iff)
  then show ?thesis
    using handle_mask_mod [OF k(1)] handle_index_mod [OF assms(1)] by (simp add: k(2))
qed

lemma handle_probe_None:
  assumes "handle_ok (s, hdl)" "handle_probe s = None"
  shows "None \<notin> set (slot s)"
proof
  assume "None \<in> set (slot s)"
  then obtain j where j: "j < slot_size s" "slot s ! j = None"
    by (metis in_set_conv_nth handle_okD(2) [OF assms(1)])
  obtain k where k: "k \<le> 24" "slot_size s = 2 ^ k" using handle_okD(1) [OF assms(1)] by blast
  obtain i where i: "i < slot_size s" "(unat (handle_index s) + i) mod slot_size s = j"
    using slots_probe [OF j(1)] by blast
  have "unat (of_nat i + handle_index s) mod 2 ^ k = (unat (handle_index s) + i) mod 2 ^ k"
  proof -
    have "unat (of_nat i + handle_index s) = (i + unat (handle_index s)) mod 2 ^ 32"
      by (simp add: unat_word_ariths unat_of_nat mod_simps)
    then show ?thesis using mod_mod_power [of k 32] k(1) by (simp add: add.commute)
  qed
  then have "slot_index ((of_nat i + handle_index s) AND HANDLE_MASK) (slot_size s) = j"
    using i(2) handle_mask_mod [OF k(1)] handle_index_mod [OF assms(1)] by (simp add: k(2))
  then show False
    using assms(2) i(1) j(2) by (auto simp: handle_probe_def find_None_iff)
qed

text \<open>Growing keeps every registration; it fails only once all \<open>2 ^ 24\<close> handles are taken.\<close>

lemma handle_grow_Some:
  assumes ok: "handle_ok (s, hdl)" and full: "handle_probe s = None" and grow: "handle_grow hdl s = Some s'"
  shows "handle_ok (s', hdl) \<and>
    handle_lookup (s', hdl) = handle_lookup (s, hdl) \<and> handle_probe s' \<noteq> None \<and>
    names s' = names s \<and> harbor s' = harbor s"
proof -
  note okD = handle_okD [OF ok]
  obtain k where k: "k \<le> 24" "slot_size s = 2 ^ k" using okD(1) by blast
  have none: "None \<notin> set (slot s)" by (rule handle_probe_None [OF ok full])
  have "int (slot_size s) * 2 - 1 \<le> uint HANDLE_MASK"
    using grow by (simp add: handle_grow_def)
  then have "(2::int) ^ Suc k < 2 ^ 25" by (simp add: k(2) HANDLE_MASK_def)
  then have "Suc k < 25" by (rule power_less_imp_less_exp [rotated]) simp
  then have k24: "k < 24" by simp
  have "\<exists>new'. slots_move hdl (2 ^ Suc k) (slot s) (replicate (2 ^ Suc k) None) = Some new' \<and>
      length new' = length (replicate (2 ^ Suc k) (None :: 'a option)) \<and> slots_ok hdl new' \<and>
      set new' - {None} = set (slot s) \<union> (set (replicate (2 ^ Suc k) None) - {None})"
    using slots_full(1) [OF okD(4) _ none] okD(2,3) k k24 none
    by (intro slots_move_ok) (simp_all add: slots_ok_empty)
  then obtain new where new: "slots_move hdl (2 * 2 ^ k) (slot s) (replicate (2 * 2 ^ k) None) = Some new"
      "length new = 2 * 2 ^ k" "slots_ok hdl new" "set new - {None} = set (slot s) - {None}"
    using none by auto
  have s': "s' = s\<lparr>slot := new, slot_size := slot_size s * 2\<rparr>"
    using grow new(1) by (simp add: handle_grow_def k(2) ac_simps)
  have ok': "handle_ok (s', hdl)"
    using new(2,3) okD(5,6) k k24
    by (auto simp: handle_ok_def s' names_ok_def names_def intro!: exI [of _ "Suc k"])
  have "handle_lookup (s', hdl) = handle_lookup (s, hdl)"
    using slots_get_cong_set [OF new(3) _ okD(4)] new(2,4) okD(2,3) k
    by (simp add: handle_lookup_def s')
  moreover have "None \<in> set (slot s')"
    using slots_twice_free [OF new(3,2), of "slot s"] new(4) okD(2) k by (simp add: s')
  then have "handle_probe s' \<noteq> None"
    using handle_probe_None [OF ok'] by blast
  ultimately show ?thesis using ok' by (simp add: s' names_def)
qed

lemma handle_grow_ok:
  assumes ok: "handle_ok (s, hdl)" and full: "handle_probe s = None"
    and room: "card (dom (handle_lookup (s, hdl))) < 2 ^ 24"
  shows "\<exists>s'. handle_grow hdl s = Some s'"
proof -
  note okD = handle_okD [OF ok]
  obtain k where k: "k \<le> 24" "slot_size s = 2 ^ k" using okD(1) by blast
  have none: "None \<notin> set (slot s)" by (rule handle_probe_None [OF ok full])
  have "slot_size s \<le> card (dom (handle_lookup (s, hdl)))"
    using slots_full(2) [OF okD(4) _ none] okD(2,3) by (simp add: handle_lookup_def)
  then have "(2::nat) ^ k < 2 ^ 24" using room k(2) by simp
  then have k24: "k < 24" by (rule power_less_imp_less_exp [rotated]) simp
  have "(2::int) ^ Suc k \<le> 2 ^ 24" by (rule power_increasing) (use k24 in auto)
  then have assert: "int (slot_size s) * 2 - 1 \<le> uint HANDLE_MASK"
    by (simp add: k(2) HANDLE_MASK_def)
  have "\<exists>new'. slots_move hdl (2 ^ Suc k) (slot s) (replicate (2 ^ Suc k) None) = Some new' \<and>
      length new' = length (replicate (2 ^ Suc k) (None :: 'a option)) \<and> slots_ok hdl new' \<and>
      set new' - {None} = set (slot s) \<union> (set (replicate (2 ^ Suc k) None) - {None})"
    using slots_full(1) [OF okD(4) _ none] okD(2,3) k k24 none
    by (intro slots_move_ok) (simp_all add: slots_ok_empty)
  then show ?thesis
    using assert by (auto simp: handle_grow_def k(2) ac_simps)
qed

lemma handle_reserve_free:
  assumes "handle_probe s = Some i"
  shows "handle_reserve hdl ctx s =
     (let handle = (of_nat i + handle_index s) AND HANDLE_MASK
      in Some (handle, s\<lparr>slot := (slot s)[slot_index handle (slot_size s) := Some ctx], handle_index := handle + 1\<rparr>))"
  by (subst handle_reserve.simps) (simp add: assms Let_def)

lemma handle_reserve_grow:
  assumes "handle_probe s = None" "handle_grow hdl s = Some s'"
  shows "handle_reserve hdl ctx s = handle_reserve hdl ctx s'"
  by (subst handle_reserve.simps) (simp add: assms)

lemma register_free:
  assumes ok: "handle_ok (s, hdl)" and ctx: "ctx \<notin> ran (handle_lookup (s, hdl))" and free: "handle_probe s = Some i"
  shows "\<exists>h s' hdl'. skynet_handle_register ctx (s, hdl) = Some (h, s', hdl') \<and> handle_ok (s', hdl') \<and>
    handle_lookup (s, hdl) h = None \<and> handle_lookup (s', hdl') = (handle_lookup (s, hdl))(h \<mapsto> ctx) \<and>
    names s' = names s \<and> h AND NOT HANDLE_MASK = harbor s"
proof -
  note okD = handle_okD [OF ok]
  obtain k where k: "k \<le> 24" "slot_size s = 2 ^ k" using okD(1) by blast
  define x where "x = of_nat i + handle_index s"
  define h where "h = (x AND HANDLE_MASK) OR harbor s"
  define j where "j = unat x mod slot_size s"
  define s' where "s' = s\<lparr>slot := (slot s)[j := Some ctx], handle_index := (x AND HANDLE_MASK) + 1\<rparr>"
  have j: "slot_index (x AND HANDLE_MASK) (slot_size s) = j" "unat h mod slot_size s = j" "slot s ! j = None"
    using handle_mask_mod [OF k(1), of x] handle_or_mod [OF okD(5) k(1), of x] handle_probe_Some [OF ok free]
      handle_index_mod [OF ok]
    by (simp_all add: j_def h_def x_def k(2))
  have reg: "skynet_handle_register ctx (s, hdl) = Some (h, s', hdl(ctx := h))"
    using j(1) by (simp add: skynet_handle_register_def handle_reserve_free [OF free] Let_def s'_def h_def x_def)
  have notin: "Some ctx \<notin> set (slot s)"
    using ctx slots_ran [OF okD(4)] okD(2,3) by (simp add: handle_lookup_def)
  let ?hdl = "hdl(ctx := h)"
  have cong: "?hdl c = hdl c" if "Some c \<in> set (slot s)" for c
    using that notin by auto
  have okh: "slots_ok ?hdl (slot s)" using slots_ok_cong [of "slot s" ?hdl hdl, OF cong] okD(4) by blast
  have look: "slots_get ?hdl (slot s) = slots_get hdl (slot s)"
    using slots_get_cong [of "slot s" ?hdl hdl, OF _ cong] okD(2,3) by (intro ext) auto
  have pos: "0 < length (slot s)" using okD(2,3) by simp
  have idx: "unat (?hdl ctx) mod length (slot s) = j" using j(2) okD(2) by simp
  have "slots_ok ?hdl (slot s')"
    using slots_ok_update [of ?hdl, OF okh idx] by (simp add: s'_def del: fun_upd_apply)
  then have ok': "handle_ok (s', ?hdl)"
    using okD k by (auto simp: handle_ok_def s'_def names_ok_def names_def)
  note upd = slots_get_update [OF okh pos, of ctx, unfolded idx, OF j(3)]
  have "handle_lookup (s, hdl) h = None" "handle_lookup (s', ?hdl) = (handle_lookup (s, hdl))(h \<mapsto> ctx)"
    using upd look by (simp_all add: handle_lookup_def s'_def)
  moreover have "h AND NOT HANDLE_MASK = harbor s"
  proof -
    have "harbor s AND NOT HANDLE_MASK = harbor s"
      by (rule and_not_of_and_zero [OF okD(5)])
    then show ?thesis
      by (simp add: h_def bit.conj_disj_distrib2 and.assoc)
  qed
  moreover have "names s' = names s" by (simp add: s'_def names_def)
  ultimately show ?thesis using reg ok' by blast
qed

lemma register_ok:
  assumes ok: "handle_ok (s, hdl)" and ctx: "ctx \<notin> ran (handle_lookup (s, hdl))"
    and room: "card (dom (handle_lookup (s, hdl))) < 2 ^ 24"
  shows "\<exists>h s' hdl'. skynet_handle_register ctx (s, hdl) = Some (h, s', hdl') \<and> handle_ok (s', hdl') \<and>
    handle_lookup (s, hdl) h = None \<and> handle_lookup (s', hdl') = (handle_lookup (s, hdl))(h \<mapsto> ctx) \<and>
    names s' = names s \<and> h AND NOT HANDLE_MASK = harbor s"
proof (cases "handle_probe s")
  case (Some i)
  then show ?thesis by (rule register_free [OF ok ctx])
next
  case None
  then obtain s1 where s1: "handle_grow hdl s = Some s1" "handle_ok (s1, hdl)"
      "handle_lookup (s1, hdl) = handle_lookup (s, hdl)" "handle_probe s1 \<noteq> None"
      "names s1 = names s" "harbor s1 = harbor s"
    using handle_grow_ok [OF ok None room] handle_grow_Some [OF ok None] by blast
  then obtain i where "handle_probe s1 = Some i" by blast
  moreover have "skynet_handle_register ctx (s, hdl) = skynet_handle_register ctx (s1, hdl)"
    by (simp add: skynet_handle_register_def handle_reserve_grow [OF None s1(1)])
  ultimately show ?thesis
    using register_free [OF s1(2), of ctx i] ctx s1(3,5,6) by simp
qed

end
