(* ===== verification/HandleTable.thy ===== *)
theory HandleTable
  imports HandleStorage
begin

text \<open>
  What \<open>skynet_handle.c\<close> promises: a registration gives a handle that was free and stays bound
  to its context until it is retired, the table can be rehashed at any time, the names of a
  retired service go with it, and \<open>skynet_handle_retireall\<close> ends with an empty table.
\<close>

unbundle bit_operations_syntax

section \<open>Retiring\<close>

lemma retire_ok:
  assumes ok: "handle_ok (s, hdl)"
  shows "\<exists>s'. skynet_handle_retire h (s, hdl) = Some (handle_lookup (s, hdl) h, s', hdl) \<and> handle_ok (s', hdl) \<and>
    handle_lookup (s', hdl) = (handle_lookup (s, hdl))(h := None) \<and>
    names s' = (if handle_lookup (s, hdl) h = None then names s else filter (\<lambda>(_, h'). h' \<noteq> h) (names s)) \<and>
    slot_size s' = slot_size s \<and>
    slot s' = (if handle_lookup (s, hdl) h = None then slot s else (slot s)[unat h mod slot_size s := None])"
proof (cases "handle_lookup (s, hdl) h")
  case None
  then have "slot s ! (unat h mod slot_size s) = None \<or>
      (\<exists>c. slot s ! (unat h mod slot_size s) = Some c \<and> hdl c \<noteq> h)"
    using handle_okD(2) [OF ok] by (auto simp: handle_lookup_def slots_get_def split: option.splits if_splits)
  then have "skynet_handle_retire h (s, hdl) = Some (None, s, hdl)"
    by (auto simp: skynet_handle_retire_def handle_index_mod [OF ok] Let_def)
  then show ?thesis using None ok by (auto simp: fun_upd_idem)
next
  case (Some c)
  note okD = handle_okD [OF ok]
  have c: "slot s ! (unat h mod slot_size s) = Some c" "hdl c = h"
    using Some okD(2) by (simp_all add: handle_lookup_def slots_get_Some)
  let ?s1 = "s\<lparr>slot := (slot s)[unat h mod slot_size s := None]\<rparr>"
  have n1: "names_ok ?s1" "names ?s1 = names s"
    using okD(6) by (simp_all add: names_ok_def names_def)
  obtain j cells where n: "compact_names h (name_count s) 0 0 (name s) = Some (j, cells)"
      "names_ok (?s1\<lparr>name := cells, name_count := j\<rparr>)"
      "names (?s1\<lparr>name := cells, name_count := j\<rparr>) = filter (\<lambda>(_, h'). h' \<noteq> h) (names s)"
    using names_retire [OF n1(1), of h] n1(2) by auto
  define s' where "s' = ?s1\<lparr>name := cells, name_count := j\<rparr>"
  have r: "skynet_handle_retire h (s, hdl) = Some (Some c, s', hdl)"
    using c n(1) by (simp add: skynet_handle_retire_def handle_index_mod [OF ok] s'_def)
  have "slots_ok hdl (slot s')" using slots_ok_clear [OF okD(4)] by (simp add: s'_def)
  then have "handle_ok (s', hdl)"
    using okD n(2) by (simp add: handle_ok_def s'_def)
  moreover have "handle_lookup (s', hdl) = (handle_lookup (s, hdl))(h := None)"
    using slots_get_clear [OF okD(4), of h c] Some okD(2,3) by (simp add: handle_lookup_def s'_def)
  ultimately show ?thesis using r Some n(3) by (simp add: s'_def)
qed

definition handle_remove :: "u32 \<Rightarrow> 'c handle_state \<Rightarrow> 'c handle_state option" where
  "handle_remove h st = map_option snd (skynet_handle_retire h st)"

lemma handle_lookup_inj:
  "handle_ok st \<Longrightarrow> handle_lookup st h = Some c \<Longrightarrow> snd st c = h"
  by (simp add: handle_lookup_def slots_get_Some)

lemma register_law:
  assumes "handle_ok st" "c \<notin> ran (handle_lookup st)" "skynet_handle_register c st = Some (h, st')"
  shows "handle_ok st' \<and> handle_lookup st h = None \<and> handle_lookup st' = (handle_lookup st)(h \<mapsto> c)"
proof -
  obtain s hdl where st: "st = (s, hdl)" by force
  obtain i s1 where i: "handle_probe s1 = Some i" and s1: "handle_ok (s1, hdl)"
      "handle_lookup (s1, hdl) = handle_lookup (s, hdl)"
      "skynet_handle_register c (s, hdl) = skynet_handle_register c (s1, hdl)"
  proof (cases "handle_probe s")
    case (Some i)
    then show ?thesis using that [of s i] assms(1) st by simp
  next
    case None
    have "handle_grow hdl s \<noteq> None"
    proof
      assume "handle_grow hdl s = None"
      then have "handle_reserve hdl c s = None" by (subst handle_reserve.simps) (simp add: None)
      then show False using assms(3) st by (simp add: skynet_handle_register_def)
    qed
    then obtain s1 where s1: "handle_grow hdl s = Some s1" by blast
    have ok: "handle_ok (s, hdl)" using assms(1) st by simp
    have g: "handle_ok (s1, hdl) \<and> handle_lookup (s1, hdl) = handle_lookup (s, hdl) \<and> handle_probe s1 \<noteq> None"
      using handle_grow_Some [OF ok None s1] by blast
    then obtain i where "handle_probe s1 = Some i" by blast
    moreover have "skynet_handle_register c (s, hdl) = skynet_handle_register c (s1, hdl)"
      by (simp add: skynet_handle_register_def handle_reserve_grow [OF None s1])
    ultimately show ?thesis using that [of s1 i] g by blast
  qed
  then show ?thesis
    using register_free [OF s1(1) _ i, of c] assms(2,3) st by auto
qed

interpretation handles: registry handle_ok handle_lookup skynet_handle_register handle_remove
proof unfold_locales
  show "handle_ok st' \<and> handle_lookup st h = None \<and> handle_lookup st' = (handle_lookup st)(h \<mapsto> c)"
    if "handle_ok st" "c \<notin> ran (handle_lookup st)" "skynet_handle_register c st = Some (h, st')"
    for st st' :: "'a handle_state" and c h
    using register_law [OF that] .
  show "\<exists>st'. handle_remove h st = Some st'" if "handle_ok st" for st :: "'a handle_state" and h
    using retire_ok [of "fst st" "snd st" h] that by (auto simp: handle_remove_def)
  show "handle_ok st' \<and> handle_lookup st' = (handle_lookup st)(h := None)"
    if "handle_ok st" "handle_remove h st = Some st'" for st st' :: "'a handle_state" and h
    using retire_ok [of "fst st" "snd st" h] that by (auto simp: handle_remove_def)
  show "h = h'" if "handle_ok st" "handle_lookup st h = Some c" "handle_lookup st h' = Some c"
    for st :: "'a handle_state" and h h' c
    using handle_lookup_inj [OF that(1,2)] handle_lookup_inj [OF that(1,3)] by simp
qed

section \<open>Retiring everything\<close>

text \<open>\<open>st'\<close> is \<open>st\<close> with some handles retired: the names of exactly those handles are gone.\<close>

definition retired_from :: "'c handle_state \<Rightarrow> 'c handle_state \<Rightarrow> bool" where
  "retired_from st st' \<longleftrightarrow> handle_ok st' \<and> snd st' = snd st \<and> handle_lookup st' \<subseteq>\<^sub>m handle_lookup st \<and>
     names (fst st') = filter (\<lambda>(_, h). handle_lookup st' h = handle_lookup st h) (names (fst st)) \<and>
     length (slot (fst st')) = length (slot (fst st)) \<and>
     (\<forall>j. slot (fst st) ! j = None \<longrightarrow> slot (fst st') ! j = None)"

lemma retired_from_refl: "handle_ok st \<Longrightarrow> retired_from st st"
  by (simp add: retired_from_def)

lemma retired_from_trans:
  assumes "retired_from st st'" "retired_from st' st''"
  shows "retired_from st st''"
proof -
  have "handle_lookup st'' h = handle_lookup st' h \<and> handle_lookup st' h = handle_lookup st h
      \<longleftrightarrow> handle_lookup st'' h = handle_lookup st h" for h
    using assms unfolding retired_from_def map_le_def by (metis domIff)
  then have "filter (\<lambda>(_, h). handle_lookup st'' h = handle_lookup st' h)
       (filter (\<lambda>(_, h). handle_lookup st' h = handle_lookup st h) ns) =
     filter (\<lambda>(_, h). handle_lookup st'' h = handle_lookup st h) ns" for ns
    unfolding filter_filter by (intro filter_cong) auto
  moreover have "handle_lookup st'' \<subseteq>\<^sub>m handle_lookup st"
    using assms map_le_trans by (auto simp: retired_from_def)
  ultimately show ?thesis using assms by (simp add: retired_from_def)
qed

lemma retire_slot:
  assumes ok: "handle_ok st" and j: "j < slot_size (fst st)" "slot (fst st) ! j = Some c"
  shows "\<exists>st'. skynet_handle_retire (snd st c) st = Some (Some c, st') \<and> retired_from st st' \<and>
    slot (fst st') ! j = None"
proof -
  obtain s hdl where st: "st = (s, hdl)" by force
  note okD = handle_okD [OF ok [unfolded st]]
  have idx: "unat (hdl c) mod slot_size s = j"
    using slots_ok_nth [OF okD(4)] j okD(2) st by simp
  have l: "handle_lookup (s, hdl) (hdl c) = Some c"
    using j idx okD(2) st by (simp add: handle_lookup_def slots_get_Some)
  obtain s' where s': "skynet_handle_retire (hdl c) (s, hdl) = Some (Some c, s', hdl)" "handle_ok (s', hdl)"
      "handle_lookup (s', hdl) = (handle_lookup (s, hdl))(hdl c := None)"
      "names s' = filter (\<lambda>(_, h'). h' \<noteq> hdl c) (names s)"
      "slot s' = (slot s)[j := None]" "slot_size s' = slot_size s"
    using retire_ok [OF ok [unfolded st], of "hdl c"] l idx by auto
  have "(h' \<noteq> hdl c) = (handle_lookup (s', hdl) h' = handle_lookup (s, hdl) h')" for h'
    using l s'(3) by auto
  then have "names s' = filter (\<lambda>(_, h). handle_lookup (s', hdl) h = handle_lookup (s, hdl) h) (names s)"
    by (simp add: s'(4))
  moreover have "handle_lookup (s', hdl) \<subseteq>\<^sub>m handle_lookup (s, hdl)"
    by (auto simp: s'(3) map_le_def)
  moreover have "slot s ! i = None \<longrightarrow> slot s' ! i = None" for i
    by (cases "i = j") (use j okD(2) st s'(5) in auto)
  ultimately have "retired_from (s, hdl) (s', hdl)"
    using s'(2,5) by (simp add: retired_from_def)
  then show ?thesis using s'(1,5) j(1) okD(2) st by auto
qed

lemma retire_round_ok:
  assumes "handle_ok st" "\<forall>j < i. slot (fst st) ! j = None"
  shows "\<exists>n' st'. retire_round i n st = Some (n', st') \<and> n \<le> n' \<and> retired_from st st' \<and>
    (\<forall>j < slot_size (fst st). slot (fst st') ! j = None) \<and>
    ((\<forall>j < slot_size (fst st). slot (fst st) ! j = None) \<longrightarrow> n' = n \<and> st' = st)"
  using assms
proof (induction i n st rule: retire_round.induct)
  case (1 i n st)
  show ?case
  proof (cases "i < slot_size (fst st)")
    case False
    then show ?thesis
      using "1.prems" by (subst retire_round.simps) (auto intro: retired_from_refl)
  next
    case True
    show ?thesis
    proof (cases "slot (fst st) ! i")
      case None
      have "\<forall>j < Suc i. slot (fst st) ! j = None" using "1.prems"(2) None less_Suc_eq by auto
      then show ?thesis
        using "1.IH"(1) [OF True None "1.prems"(1)] True None by (subst retire_round.simps) simp
    next
      case (Some c)
      obtain st1 where st1: "skynet_handle_retire (snd st c) st = Some (Some c, st1)" "retired_from st st1"
          "slot (fst st1) ! i = None"
        using retire_slot [OF "1.prems"(1) True Some] by blast
      have size: "slot_size (fst st1) = slot_size (fst st)" using retire_slot_size [OF st1(1)] .
      have pre: "handle_ok st1" "\<forall>j < Suc i. slot (fst st1) ! j = None"
        using st1(2,3) "1.prems"(2) by (auto simp: retired_from_def less_Suc_eq)
      have step: "retire_round i n st = retire_round (Suc i) (Suc n) st1"
        using True Some st1(1) by (subst retire_round.simps) simp
      obtain n' st' where IH: "retire_round (Suc i) (Suc n) st1 = Some (n', st')" "Suc n \<le> n'" "retired_from st1 st'"
          "\<forall>j < slot_size (fst st). slot (fst st') ! j = None"
        using "1.IH"(2) [OF True Some st1(1) refl pre] size by auto
      have "\<not> (\<forall>j < slot_size (fst st). slot (fst st) ! j = None)" using True Some by auto
      then show ?thesis using step IH retired_from_trans [OF st1(2) IH(3)] by auto
    qed
  qed
qed

lemma lookup_empty:
  assumes "handle_ok st" "\<forall>j < slot_size (fst st). slot (fst st) ! j = None"
  shows "handle_lookup st = Map.empty"
proof
  fix h :: u32
  have "unat h mod length (slot (fst st)) < slot_size (fst st)"
    using handle_okD(2,3) [of "fst st" "snd st"] assms(1) by simp
  then show "handle_lookup st h = None"
    using assms(2) by (simp add: handle_lookup_def slots_get_def)
qed

lemma retireall_ok:
  assumes ok: "handle_ok st"
  shows "\<exists>st'. skynet_handle_retireall st = Some st' \<and> retired_from st st' \<and> handle_lookup st' = Map.empty"
proof -
  obtain n1 st1 where r1: "retire_round 0 0 st = Some (n1, st1)" "retired_from st st1"
      "\<forall>j < slot_size (fst st). slot (fst st1) ! j = None"
    using retire_round_ok [OF ok, of 0 0] by auto
  have ok1: "handle_ok st1" using r1(2) by (simp add: retired_from_def)
  have "slot_size (fst st1) = slot_size (fst st)"
    using r1(2) ok handle_okD(2) [of "fst st1" "snd st1"] handle_okD(2) [of "fst st" "snd st"] ok1
    by (simp add: retired_from_def)
  then have empty: "\<forall>j < slot_size (fst st1). slot (fst st1) ! j = None" using r1(3) by simp
  then have r2: "retire_round 0 0 st1 = Some (0, st1)"
    using retire_round_ok [OF ok1, of 0 0] by auto
  have again: "skynet_handle_retireall st1 = Some st1"
    by (subst skynet_handle_retireall.simps) (simp add: r2)
  have "skynet_handle_retireall st = Some st1"
    by (subst skynet_handle_retireall.simps) (simp add: r1(1) again)
  then show ?thesis using r1(2) lookup_empty [OF ok1 empty] by blast
qed

section \<open>The properties\<close>

text \<open>
  C8: Registering a context that is not in the table succeeds while fewer than \<open>2 ^ 24\<close> contexts
  are live: the doubling rehash never hits its assertions and loses no registration, the handle
  returned was free, carries the harbor id in its top byte, and maps to the context afterwards;
  all other handles and all names are unchanged.
\<close>

theorem handle_register_correct:
  assumes "handle_ok (s, hdl)" "ctx \<notin> ran (handle_lookup (s, hdl))"
    and "card (dom (handle_lookup (s, hdl))) < 2 ^ 24"
  shows "\<exists>h s' hdl'. skynet_handle_register ctx (s, hdl) = Some (h, s', hdl') \<and> handle_ok (s', hdl') \<and>
    skynet_handle_grab h (s, hdl) = None \<and>
    (\<forall>x. skynet_handle_grab x (s', hdl') = (if x = h then Some ctx else skynet_handle_grab x (s, hdl))) \<and>
    names s' = names s \<and> h AND NOT HANDLE_MASK = harbor s"
proof -
  obtain h s' hdl' where r: "skynet_handle_register ctx (s, hdl) = Some (h, s', hdl')" "handle_ok (s', hdl')"
      "handle_lookup (s, hdl) h = None" "handle_lookup (s', hdl') = (handle_lookup (s, hdl))(h \<mapsto> ctx)"
      "names s' = names s" "h AND NOT HANDLE_MASK = harbor s"
    using register_ok [OF assms] by blast
  show ?thesis
    using r skynet_handle_grab_lookup [OF assms(1)] skynet_handle_grab_lookup [OF r(2)]
    by (intro exI [of _ h] exI [of _ s'] exI [of _ hdl']) simp
qed

lemma init_lookup: "handle_lookup (skynet_handle_init h, hdl) = Map.empty"
  by (intro ext) (simp add: handle_lookup_def skynet_handle_init_def slots_get_empty DEFAULT_SLOT_SIZE_def
      del: replicate.simps)

lemma handle_register_correct_witness:
  "\<exists>h s' hdl'. skynet_handle_register () (skynet_handle_init 3, \<lambda>_. 0) = Some (h, s', hdl') \<and>
    skynet_handle_grab h (s', hdl') = Some () \<and> h AND NOT HANDLE_MASK = 0x3000000"
proof -
  have "harbor (skynet_handle_init 3 :: unit handle_storage) = 0x3000000"
    by (simp add: skynet_handle_init_def HANDLE_REMOTE_SHIFT_def push_bit_eq_mult)
  moreover have "() \<notin> ran (handle_lookup (skynet_handle_init 3, \<lambda>_. 0))"
    "card (dom (handle_lookup (skynet_handle_init 3, \<lambda>_::unit. 0))) < 2 ^ 24"
    by (simp_all add: init_lookup)
  ultimately show ?thesis
    using handle_register_correct [OF init_ok [of 3 "\<lambda>_. 0"], of "()"] by auto
qed

text \<open>
  C9: A service found under a handle stays there through any sequence of registrations (of other
  contexts) and retirements (of other handles), and none of those registrations is given its handle.
\<close>

theorem handle_stable:
  assumes "handle_ok st" "reg_run skynet_handle_register handle_remove ops st = Some (hs, st')"
    and "skynet_handle_grab h st = Some ctx" "Retire h \<notin> set ops"
    and "distinct (registered ops)" "\<forall>c. c \<in> set (registered ops) \<longrightarrow> (\<forall>x. skynet_handle_grab x st \<noteq> Some c)"
  shows "skynet_handle_grab h st' = Some ctx \<and> h \<notin> set hs"
proof -
  have "set (registered ops) \<inter> ran (handle_lookup st) = {}"
    using assms(6) skynet_handle_grab_lookup [OF assms(1)] by (auto simp: ran_def)
  then show ?thesis
    using handles.lookup_stable [OF assms(1,2) _ assms(4,5)] assms(3)
      skynet_handle_grab_lookup [OF assms(1)] skynet_handle_grab_lookup by metis
qed

lemma handle_stable_witness:
  "\<exists>st st'. skynet_handle_register 5 (skynet_handle_init 0, \<lambda>_::nat. 0) = Some (1, st) \<and>
    reg_run skynet_handle_register handle_remove [Register 7, Retire 2] st = Some ([2], st') \<and>
    skynet_handle_grab 1 st' = Some 5"
proof -
  let ?init = "(skynet_handle_init 0, \<lambda>_::nat. 0 :: u32)"
  let ?run = "reg_run skynet_handle_register handle_remove [Register 5, Register 7, Retire 2] ?init"
  have "map_option fst ?run = Some [1, 2]" by code_simp
  then obtain st st' where r: "skynet_handle_register 5 ?init = Some (1, st)"
      "reg_run skynet_handle_register handle_remove [Register 7, Retire 2] st = Some ([2], st')"
    by (auto simp: Option.bind_eq_Some_conv split: Option.bind_splits)
  have l: "handle_ok st" "handle_lookup st = [1 \<mapsto> 5]"
    using register_law [OF init_ok _ r(1)] by (simp_all add: init_lookup)
  have grab: "skynet_handle_grab x st = ([1 \<mapsto> 5]) x" for x
    by (simp only: skynet_handle_grab_lookup [OF l(1)] l(2))
  have "\<forall>x. skynet_handle_grab x st \<noteq> Some 7" by (simp add: grab)
  then have "skynet_handle_grab 1 st' = Some 5" using handle_stable [OF l(1) r(2), of 1 5] grab by simp
  then show ?thesis using r by blast
qed

text \<open>
  Retiring a handle removes exactly that registration and exactly the names bound to it, and
  gives back the context whose reference the table held; retiring a handle that is not
  registered (or was replaced in its slot) changes nothing.
\<close>

theorem handle_retire_correct:
  assumes "handle_ok (s, hdl)"
  shows "\<exists>s'. skynet_handle_retire h (s, hdl) = Some (skynet_handle_grab h (s, hdl), s', hdl) \<and> handle_ok (s', hdl) \<and>
    (\<forall>x. skynet_handle_grab x (s', hdl) = (if x = h then None else skynet_handle_grab x (s, hdl))) \<and>
    names s' = (if skynet_handle_grab h (s, hdl) = None then names s else filter (\<lambda>(_, h'). h' \<noteq> h) (names s))"
proof -
  obtain s' where s': "skynet_handle_retire h (s, hdl) = Some (handle_lookup (s, hdl) h, s', hdl)" "handle_ok (s', hdl)"
    "handle_lookup (s', hdl) = (handle_lookup (s, hdl))(h := None)"
    "names s' = (if handle_lookup (s, hdl) h = None then names s else filter (\<lambda>(_, h'). h' \<noteq> h) (names s))"
    using retire_ok [OF assms, of h] by blast
  then show ?thesis
    using skynet_handle_grab_lookup [OF assms] skynet_handle_grab_lookup [OF s'(2)]
    by (intro exI [of _ s']) simp
qed

lemma handle_retire_correct_witness:
  "\<exists>s'. skynet_handle_retire 5 (skynet_handle_init 1, \<lambda>_::unit. 0) =
      Some (skynet_handle_grab 5 (skynet_handle_init 1, \<lambda>_. 0), s', \<lambda>_. 0) \<and> handle_ok (s', \<lambda>_. 0)"
  using handle_retire_correct [OF init_ok [of 1 "\<lambda>_::unit. 0"], of 5] by blast

text \<open>
  \<open>skynet_handle_retireall\<close> terminates from every reachable table: afterwards no handle
  resolves, and the names that are left are those whose handle was not registered.
\<close>

theorem handle_retireall_empties:
  assumes "handle_ok st"
  shows "\<exists>st'. skynet_handle_retireall st = Some st' \<and> handle_ok st' \<and> (\<forall>h. skynet_handle_grab h st' = None) \<and>
    names (fst st') = filter (\<lambda>(_, h). skynet_handle_grab h st = None) (names (fst st))"
proof -
  obtain st' where st': "skynet_handle_retireall st = Some st'" "retired_from st st'" "handle_lookup st' = Map.empty"
    using retireall_ok [OF assms] by blast
  have ok': "handle_ok st'" using st'(2) by (simp add: retired_from_def)
  have "(handle_lookup st' h = handle_lookup st h) = (skynet_handle_grab h st = None)" for h
    using st'(3) skynet_handle_grab_lookup [OF assms] by auto
  then show ?thesis
    using st' ok' skynet_handle_grab_lookup [OF ok'] by (simp add: retired_from_def)
qed

lemma handle_retireall_empties_witness:
  "\<exists>st'. skynet_handle_retireall (skynet_handle_init 1, \<lambda>_::unit. 0) = Some st' \<and> handle_ok st'"
  using handle_retireall_empties [OF init_ok [of 1 "\<lambda>_::unit. 0"]] by blast

text \<open>
  \<open>skynet_handle_namehandle\<close> and \<open>skynet_handle_findname\<close> on the sorted array, grown by
  doubling, are a finite map from names to handles: a new name is bound and found, an existing
  name is refused and keeps its handle, every other name resolves as before (0 when unknown).
\<close>

theorem namehandle_findname:
  assumes "names_ok s" "cstring nm"
  shows "\<exists>r s'. skynet_handle_namehandle h nm s = Some (r, s') \<and> names_ok s' \<and>
    (if nm \<in> fst ` set (names s) then r = None \<and> s' = s
     else r = Some nm \<and> map_of (names s') = (map_of (names s))(nm \<mapsto> h)) \<and>
    skynet_handle_findname nm s = Some (case map_of (names s) nm of Some x \<Rightarrow> x | None \<Rightarrow> 0) \<and>
    skynet_handle_findname nm s' = Some (case map_of (names s) nm of Some x \<Rightarrow> x | None \<Rightarrow> h)"
proof -
  have find: "skynet_handle_findname nm s = Some (case map_of (names s) nm of Some x \<Rightarrow> x | None \<Rightarrow> 0)"
    if "names_ok s" for s :: "'a handle_storage"
    using name_search_whole [OF that assms(2)] by (auto simp: skynet_handle_findname_def)
  show ?thesis
  proof (cases "map_of (names s) nm")
    case (Some x)
    then have "name_search (name s) nm 0 (int (name_count s) - 1) = Some (Inr x)"
      using name_search_whole [OF assms] by auto
    moreover have "nm \<in> fst ` set (names s)" using Some by (metis map_of_eq_None_iff option.distinct(1))
    ultimately show ?thesis
      using Some assms(1) find [OF assms(1)] by (simp add: skynet_handle_namehandle_def)
  next
    case None
    then obtain p where p: "name_search (name s) nm 0 (int (name_count s) - 1) = Some (Inl (int p))"
        "p \<le> name_count s" "\<forall>i < p. fst (names s ! i) < nm"
        "\<forall>i. p \<le> i \<and> i < name_count s \<longrightarrow> nm < fst (names s ! i)"
      using name_search_whole [OF assms] by auto
    note ins = names_ok_insert [OF assms(1) p(2) assms(2) p(3,4), of h]
    have "nm \<notin> fst ` set (names s)" using None by (simp add: map_of_eq_None_iff)
    then show ?thesis
      using p(1) ins find [OF assms(1)] find [OF ins(1)] None by (simp add: skynet_handle_namehandle_def)
  qed
qed

lemma namehandle_findname_witness:
  "\<exists>r s'. skynet_handle_namehandle 7 ''logger'' (skynet_handle_init 1 :: unit handle_storage) = Some (r, s') \<and>
    names_ok s' \<and> skynet_handle_findname ''logger'' s' = Some 7"
proof -
  have "names (skynet_handle_init 1 :: unit handle_storage) = []"
    by (simp add: names_def skynet_handle_init_def)
  then show ?thesis
    using namehandle_findname [of "skynet_handle_init 1 :: unit handle_storage" "''logger''" 7]
      handle_okD(6) [OF init_ok [of 1 "\<lambda>_::unit. 0"]]
    by auto
qed

section \<open>Handle 0 and the late write of the handle\<close>

text \<open>A service that starts and ends, over and over, from handle \<open>i\<close> on.\<close>

fun churn :: "nat \<Rightarrow> nat \<Rightarrow> (u32, unit) reg_op list" where
  "churn i 0 = []"
| "churn i (Suc n) = Register () # Retire (of_nat i) # churn (Suc i) n"

abbreviation churned :: "nat \<Rightarrow> unit handle_storage" where
  "churned i \<equiv> skynet_handle_init 0\<lparr>handle_index := of_nat i\<rparr>"

lemma churned_register:
  assumes "i \<le> 2 ^ 24"
  defines "h \<equiv> of_nat i AND HANDLE_MASK"
  shows "skynet_handle_register () (churned i, hdl) =
    Some (h, (churned i)\<lparr>slot := (replicate 4 None)[slot_index h 4 := Some ()], handle_index := h + 1\<rparr>, hdl(() := h))"
proof -
  have "slot_index x 4 < 4" for x
    using slot_index_mod [of 2 x] by simp
  then have "handle_probe (churned i) = Some 0"
    by (simp add: handle_probe_def upt_rec skynet_handle_init_def DEFAULT_SLOT_SIZE_def del: replicate.simps)
  then show ?thesis
    by (simp add: skynet_handle_register_def handle_reserve_free h_def skynet_handle_init_def
        DEFAULT_SLOT_SIZE_def HANDLE_REMOTE_SHIFT_def Let_def)
qed

lemma churned_step:
  assumes "i < 2 ^ 24"
  shows "\<exists>st. skynet_handle_register () (churned i, hdl) = Some (of_nat i, st) \<and>
    handle_remove (of_nat i) st = Some (churned (Suc i), hdl(() := of_nat i))"
proof -
  have h: "(of_nat i :: u32) AND HANDLE_MASK = of_nat i"
  proof -
    have "unat ((of_nat i :: u32) AND HANDLE_MASK) = unat (of_nat i :: u32)"
      using assms by (simp add: HANDLE_MASK_mask unat_mask_mod unat_of_nat)
    then show ?thesis by (rule word_unat_eq_iff [THEN iffD2])
  qed
  have "slot_index x 4 < 4" for x using slot_index_mod [of 2 x] by simp
  moreover have "(replicate 4 None)[k := Some (), k := None] = replicate 4 None" for k
    by (cases "k < 4") (simp_all add: list_update_same_conv list_update_beyond del: replicate.simps)
  moreover have "compact_names x 0 0 0 cells = Some (0, cells)" for x cells
    by (simp add: compact_names.simps)
  ultimately show ?thesis
    using churned_register [of i hdl] assms
    by (simp add: h handle_remove_def skynet_handle_retire_def skynet_handle_init_def DEFAULT_SLOT_SIZE_def add.commute
        del: replicate.simps)
qed

lemma churn_run:
  "i + n \<le> 2 ^ 24 \<Longrightarrow> \<exists>hs hdl'. reg_run skynet_handle_register handle_remove (churn i n @ ops) (churned i, hdl) =
     map_option (\<lambda>(hs', st). (hs @ hs', st)) (reg_run skynet_handle_register handle_remove ops (churned (i + n), hdl'))"
proof (induction n arbitrary: i hdl)
  case 0
  show ?case by (intro exI [of _ "[]"] exI [of _ hdl]) (simp add: option.map_ident case_prod_beta)
next
  case (Suc n)
  obtain st where st: "skynet_handle_register () (churned i, hdl) = Some (of_nat i, st)"
      "handle_remove (of_nat i) st = Some (churned (Suc i), hdl(() := of_nat i))"
    using churned_step [of i hdl] Suc.prems by auto
  have room: "Suc i + n \<le> 2 ^ 24" using Suc.prems by simp
  obtain hs hdl' where IH: "reg_run skynet_handle_register handle_remove (churn (Suc i) n @ ops) (churned (Suc i), hdl(() := of_nat i)) =
     map_option (\<lambda>(hs', st). (hs @ hs', st)) (reg_run skynet_handle_register handle_remove ops (churned (Suc i + n), hdl'))"
    using Suc.IH [OF room, of "hdl(() := of_nat i)"] by blast
  show ?case
    by (intro exI [of _ "of_nat i # hs"] exI [of _ hdl'])
      (cases "reg_run skynet_handle_register handle_remove ops (churned (Suc i + n), hdl')";
       simp add: st IH case_prod_beta del: of_nat_Suc)
qed

text \<open>
  Handle 0, which the code reserves for the system, is issued: on a node without a harbor id
  (\<open>harbor = 0\<close>), after \<open>2 ^ 24 - 1\<close> short-lived services the next one is registered as handle 0.
\<close>

theorem handle_zero_issued:
  "\<exists>ops hs st. reg_run skynet_handle_register handle_remove (ops @ [Register ()]) (skynet_handle_init 0, \<lambda>_. 0) =
     Some (hs @ [0], st)"
proof -
  have init: "churned 1 = skynet_handle_init 0" by (simp add: skynet_handle_init_def)
  obtain hs hdl' where run: "reg_run skynet_handle_register handle_remove (churn 1 (2 ^ 24 - 1) @ [Register ()]) (churned 1, \<lambda>_. 0) =
     map_option (\<lambda>(hs', st). (hs @ hs', st)) (reg_run skynet_handle_register handle_remove [Register ()] (churned (1 + (2 ^ 24 - 1)), hdl'))"
    using churn_run [of 1 "2 ^ 24 - 1" "[Register ()]" "\<lambda>_. 0"] by auto
  have "(of_nat (2 ^ 24) :: u32) AND HANDLE_MASK = 0" by (simp add: HANDLE_MASK_def)
  then have "\<exists>st. reg_run skynet_handle_register handle_remove [Register ()] (churned (2 ^ 24), hdl') = Some ([0], st)"
    using churned_register [of "2 ^ 24" hdl'] by simp
  then show ?thesis using run init by (intro exI [of _ "churn 1 (2 ^ 24 - 1)"]) auto
qed

text \<open>
  The handle is written into the context only after the table is unlocked.  When another
  thread's registration rehashes in between, the context is filed under whatever its
  \<open>handle\<close> field held (the field is uninitialised memory, here 0) and its own handle does not
  resolve afterwards.
\<close>

theorem register_race:
  "\<exists>h4 s4 s5 hdl5.
     handle_reserve (\<lambda>c. if c = 4 then 0 else of_nat c) (4::nat)
       (skynet_handle_init 0\<lparr>slot := [None, Some 1, Some 2, Some 3], handle_index := 4\<rparr>) = Some (h4, s4) \<and>
     skynet_handle_register 5 (s4, \<lambda>c. if c = 4 then 0 else of_nat c) = Some (5, s5, hdl5) \<and>
     h4 = 4 \<and> skynet_handle_grab h4 (s5, hdl5(4 := h4)) = None"
proof -
  let ?hdl = "\<lambda>c::nat. if c = 4 then 0 else of_nat c :: u32"
  let ?s = "skynet_handle_init 0\<lparr>slot := [None, Some 1, Some 2, Some (3::nat)], handle_index := 4\<rparr>"
  let ?s4 = "?s\<lparr>slot := [Some 4, Some 1, Some 2, Some 3], handle_index := 5\<rparr>"
  let ?s5 = "?s4\<lparr>slot := [Some 4, Some 1, Some 2, Some 3, None, None, None, None], slot_size := 8\<rparr>"
  note ev = skynet_handle_init_def DEFAULT_SLOT_SIZE_def HANDLE_MASK_def HANDLE_REMOTE_SHIFT_def slot_index_def
  have upd: "[a, b, c, d, e, f, g, h][5 := x] = [a, b, c, d, e, x, g, h]" for a b c d e f g h x :: "nat option"
    by (simp add: numeral_eq_Suc)
  have p4: "handle_probe ?s = Some 0" and p5: "handle_probe ?s4 = None" and p6: "handle_probe ?s5 = Some 0"
    by code_simp+
  have r4: "handle_reserve ?hdl 4 ?s = Some (4, ?s4)"
    unfolding handle_reserve_free [OF p4] by (simp add: ev Let_def)
  have g5: "handle_grow ?hdl ?s4 = Some ?s5"
    by code_simp
  have r5: "handle_reserve ?hdl 5 ?s4 = Some (5, ?s5\<lparr>slot := [Some 4, Some 1, Some 2, Some 3, None, Some 5, None, None], handle_index := 6\<rparr>)"
    unfolding handle_reserve_grow [OF p5 g5] handle_reserve_free [OF p6]
    using upd [of "Some 4" "Some 1" "Some 2" "Some 3" None None None None "Some 5"] by (simp add: ev Let_def)
  show ?thesis
    using r4 r5 by (simp add: skynet_handle_register_def skynet_handle_grab_def ev Let_def)
qed

end
