(* ===== verification/Timer.thy ===== *)
theory Timer
  imports MessageQueue
begin

text \<open>
  \<open>skynet-src/skynet_timer.c\<close>: the hierarchical timer wheel (256 near lists and four levels
  of 63 lists), with its 32-bit clock.  A linked list is the list of its nodes; the event that
  \<open>timer_add\<close> copies behind the node is part of the node.  The clocks of the operating system
  are arguments.  \<open>skynet_context_push\<close>, which delivers the time-out message, is the
  argument \<open>push\<close> on a world \<open>'w\<close>; \<open>Server\<close> provides it.

  \<open>None\<close> is an access outside the wheel's arrays, or a loop that does not end.  Signed
  overflow of the clock wraps, as on the two's-complement machines the program is built for;
  the properties hold for the \<open>2 ^ 31\<close> ticks before that happens.
\<close>

unbundle bit_operations_syntax

section \<open>The wheel\<close>

definition TIME_NEAR_SHIFT :: nat where "TIME_NEAR_SHIFT = 8"
definition TIME_NEAR :: i32 where "TIME_NEAR = push_bit TIME_NEAR_SHIFT 1"
definition TIME_LEVEL_SHIFT :: nat where "TIME_LEVEL_SHIFT = 6"
definition TIME_LEVEL :: i32 where "TIME_LEVEL = push_bit TIME_LEVEL_SHIFT 1"
definition TIME_NEAR_MASK :: i32 where "TIME_NEAR_MASK = TIME_NEAR - 1"
definition TIME_LEVEL_MASK :: i32 where "TIME_LEVEL_MASK = TIME_LEVEL - 1"

record timer_event =
  te_handle :: u32
  te_session :: i32

record timer_node = timer_event +
  expire :: i32

record timer =
  near :: "timer_node list list"
  levels :: "timer_node list list list"
  time :: i32
  current :: u32
  starttime :: u32
  current_point :: u64
  origin_point :: u64

definition link :: "nat \<Rightarrow> timer_node \<Rightarrow> timer_node list list \<Rightarrow> timer_node list list" where
  "link idx node ls = ls[idx := ls ! idx @ [node]]"

definition link_clear :: "nat \<Rightarrow> timer_node list list \<Rightarrow> timer_node list \<times> timer_node list list" where
  "link_clear idx ls = (ls ! idx, ls[idx := []])"

text \<open>The level loop of \<open>add_node\<close>; it leaves \<open>i = 3\<close> when no mask matches.\<close>

function add_level :: "i32 \<Rightarrow> i32 \<Rightarrow> i32 \<Rightarrow> nat \<Rightarrow> nat" where
  "add_level time' current_time msk i =
     (if i < 3 then
        if time' OR (msk - 1) = current_time OR (msk - 1) then i
        else add_level time' current_time (push_bit TIME_LEVEL_SHIFT msk) (i + 1)
      else i)"
  by pat_completeness auto

termination
  by (relation "measure (\<lambda>(_, _, _, i). 3 - i)") auto

declare add_level.simps [simp del]

definition add_node :: "timer_node \<Rightarrow> timer \<Rightarrow> timer option" where
  "add_node node T =
     (let time' = expire node;
          current_time = time T
      in if time' OR TIME_NEAR_MASK = current_time OR TIME_NEAR_MASK then
           Some (T\<lparr>near := link (unat (time' AND TIME_NEAR_MASK)) node (near T)\<rparr>)
         else
           let i = add_level time' current_time (push_bit TIME_LEVEL_SHIFT TIME_NEAR) 0;
               idx = sint (signed_drop_bit (TIME_NEAR_SHIFT + i * TIME_LEVEL_SHIFT) time' AND TIME_LEVEL_MASK) - 1
           in do {
             c_assert (0 \<le> idx);
             Some (T\<lparr>levels := (levels T)[i := link (nat idx) node (levels T ! i)]\<rparr>)
           })"

definition timer_add :: "u32 \<Rightarrow> i32 \<Rightarrow> i32 \<Rightarrow> timer \<Rightarrow> timer option" where
  "timer_add handle session time' T =
     add_node \<lparr>te_handle = handle, te_session = session, expire = time' + time T\<rparr> T"

fun add_nodes :: "timer_node list \<Rightarrow> timer \<Rightarrow> timer option" where
  "add_nodes [] T = Some T"
| "add_nodes (node # nodes) T = do { T \<leftarrow> add_node node T; add_nodes nodes T }"

text \<open>The cascade loop of \<open>timer_shift\<close>.\<close>

partial_function (option) shift_loop :: "i32 \<Rightarrow> i32 \<Rightarrow> nat \<Rightarrow> timer \<Rightarrow> timer option" where
  "shift_loop msk time' i T =
     (if time T AND (msk - 1) = 0 then
        let idx = sint (time' AND TIME_LEVEL_MASK) in
        if idx \<noteq> 0 then do {
          c_assert (i < 4);
          let idx = idx - 1;
          let (nodes, ls) = link_clear (nat idx) (levels T ! i);
          add_nodes nodes (T\<lparr>levels := (levels T)[i := ls]\<rparr>)
        } else shift_loop (push_bit TIME_LEVEL_SHIFT msk) (signed_drop_bit TIME_LEVEL_SHIFT time') (i + 1) T
      else Some T)"

definition timer_shift :: "timer \<Rightarrow> timer option" where
  "timer_shift T =
     (let T = T\<lparr>time := time T + 1\<rparr> in
      shift_loop TIME_NEAR (signed_drop_bit TIME_NEAR_SHIFT (time T)) 0 T)"

section \<open>Dispatch\<close>

definition timeout_message :: "timer_event \<Rightarrow> 'd option skynet_message" where
  "timeout_message event =
     \<lparr>msg_source = 0, msg_session = te_session event, msg_data = None,
      msg_sz = push_bit HANDLE_REMOTE_SHIFT (ucast PTYPE_RESPONSE)\<rparr>"

type_synonym ('d, 'w) context_push = "u32 \<Rightarrow> 'd option skynet_message \<Rightarrow> 'w \<Rightarrow> int \<times> 'w"

fun dispatch_list :: "('d, 'w) context_push \<Rightarrow> timer_node list \<Rightarrow> 'w \<Rightarrow> 'w" where
  "dispatch_list push [] w = w"
| "dispatch_list push (node # nodes) w =
     dispatch_list push nodes
       (snd (push (te_handle node) (timeout_message (timer_event.truncate node)) w))"

partial_function (option) timer_execute ::
  "('d, 'w) context_push \<Rightarrow> timer \<times> 'w \<Rightarrow> (timer \<times> 'w) option" where
  "timer_execute push Tw =
     (let (T, w) = Tw;
          idx = unat (time T AND TIME_NEAR_MASK)
      in if near T ! idx \<noteq> [] then
           let (nodes, ls) = link_clear idx (near T);
               w = dispatch_list push nodes w
           in timer_execute push (T\<lparr>near := ls\<rparr>, w)
         else Some (T, w))"

definition timer_update :: "('d, 'w) context_push \<Rightarrow> timer \<times> 'w \<Rightarrow> (timer \<times> 'w) option" where
  "timer_update push Tw = do {
     (T, w) \<leftarrow> timer_execute push Tw;
     T \<leftarrow> timer_shift T;
     timer_execute push (T, w)
   }"

definition timer_create_timer :: timer where
  "timer_create_timer =
     \<lparr>near = replicate 256 [], levels = replicate 4 (replicate 63 []), time = 0,
      current = 0, starttime = 0, current_point = 0, origin_point = 0\<rparr>"

section \<open>The interface\<close>

definition skynet_timeout :: "('d, 'w) context_push \<Rightarrow> u32 \<Rightarrow> i32 \<Rightarrow> i32 \<Rightarrow> timer \<times> 'w \<Rightarrow> (i32 \<times> timer \<times> 'w) option" where
  "skynet_timeout push handle time' session Tw =
     (let (T, w) = Tw in
      if time' = 0 then
        let (r, w) = push handle (timeout_message \<lparr>te_handle = handle, te_session = session\<rparr>) w
        in Some (if r \<noteq> 0 then -1 else session, T, w)
      else do {
        T \<leftarrow> timer_add handle session time' T;
        Some (session, T, w)
      })"

fun timer_updates :: "('d, 'w) context_push \<Rightarrow> nat \<Rightarrow> timer \<times> 'w \<Rightarrow> (timer \<times> 'w) option" where
  "timer_updates push 0 Tw = Some Tw"
| "timer_updates push (Suc n) Tw = do { Tw \<leftarrow> timer_update push Tw; timer_updates push n Tw }"

text \<open>\<open>cp\<close> is the monotonic clock in centiseconds that \<open>gettime\<close> reads.\<close>

definition skynet_updatetime :: "('d, 'w) context_push \<Rightarrow> u64 \<Rightarrow> timer \<times> 'w \<Rightarrow> (timer \<times> 'w) option" where
  "skynet_updatetime push cp Tw =
     (let (T, w) = Tw in
      if cp < current_point T then Some (T, w)
      else if cp \<noteq> current_point T then
        let diff = ucast (cp - current_point T) :: u32;
            oc = current T;
            T = T\<lparr>current_point := cp, current := current T + diff\<rparr>;
            T = (if current T < oc then T\<lparr>starttime := starttime T + 0xffffffff div 100\<rparr> else T)
        in timer_updates push (unat diff) (T, w)
      else Some (T, w))"

definition skynet_gettime_fixsec :: "timer \<Rightarrow> u32" where "skynet_gettime_fixsec T = starttime T"
definition skynet_gettime :: "timer \<Rightarrow> u32" where "skynet_gettime T = current T"

text \<open>\<open>sec\<close> and \<open>cs\<close> are the real time (seconds, centiseconds), \<open>point\<close> the monotonic clock.\<close>

definition skynet_timer_init :: "u32 \<Rightarrow> u32 \<Rightarrow> u64 \<Rightarrow> timer" where
  "skynet_timer_init sec cs point =
     timer_create_timer\<lparr>starttime := sec, current := cs, current_point := point, origin_point := point\<rparr>"

end
