(* ===== verification/TimerWheel.thy ===== *)
theory TimerWheel
  imports Timer
begin

text \<open>
  Where a node sits in the timer wheel is a function of the clock and its expiry (\<open>place\<close>), and
  the cascade of \<open>timer_shift\<close> moves exactly the nodes whose place changes with the tick.
  Hence every node is dispatched at the tick it expires, in the order of insertion.
\<close>

unbundle bit_operations_syntax

section \<open>The words of the wheel\<close>

lemma or_mask_eq:
  fixes a b :: "'a::len word"
  shows "a OR mask k = b OR mask k \<longleftrightarrow> unat a div 2 ^ k = unat b div 2 ^ k"
proof -
  have "a OR mask k = b OR mask k \<longleftrightarrow> drop_bit k a = drop_bit k b"
  proof
    assume *: "a OR mask k = b OR mask k"
    show "drop_bit k a = drop_bit k b"
    proof (rule bit_eqI)
      fix n
      have "bit (a OR mask k) (k + n) = bit (b OR mask k) (k + n)" using * by simp
      then show "bit (drop_bit k a) n = bit (drop_bit k b) n" by (simp add: bit_simps)
    qed
  next
    assume *: "drop_bit k a = drop_bit k b"
    show "a OR mask k = b OR mask k"
    proof (rule bit_eqI)
      fix n assume "possible_bit TYPE('a word) n"
      moreover have "bit (drop_bit k a) (n - k) = bit (drop_bit k b) (n - k)" using * by simp
      ultimately show "bit (a OR mask k) n = bit (b OR mask k) n"
        by (cases "n < k") (auto simp: bit_simps possible_bit_word)
    qed
  qed
  also have "\<dots> \<longleftrightarrow> unat (drop_bit k a) = unat (drop_bit k b)" by (simp add: word_unat_eq_iff)
  finally show ?thesis by (simp only: unat_drop)
qed

lemma signed_digit:
  fixes e :: i32
  assumes "n \<le> 26"
  shows "sint (signed_drop_bit n e AND mask 6) = int (unat e div 2 ^ n mod 64)"
proof -
  have eq: "signed_drop_bit n e AND mask 6 = drop_bit n e AND mask 6"
  proof (rule bit_eqI)
    fix m assume "possible_bit TYPE(32 word) m"
    then show "bit (signed_drop_bit n e AND mask 6) m = bit (drop_bit n e AND mask 6) m"
      using assms by (cases "m < 6") (auto simp: bit_simps)
  qed
  have u: "unat (drop_bit n e AND mask 6) = unat e div 2 ^ n mod 64"
    using unat_mask_mod [of 6 "drop_bit n e"] unat_drop [of n e] by (simp del: drop_bit_eq_div)
  moreover have "unat e div 2 ^ n mod 64 < 64" by simp
  ultimately have "sint (drop_bit n e AND mask 6) = int (unat (drop_bit n e AND mask 6))"
    by (intro sint_eq_unat) (simp del: drop_bit_eq_div)
  then show ?thesis unfolding eq u .
qed

lemma wheel_masks:
  "TIME_NEAR_MASK = mask 8" "TIME_LEVEL_MASK = mask 6" "TIME_NEAR - 1 = mask 8"
  "TIME_NEAR_SHIFT + i * TIME_LEVEL_SHIFT = 8 + i * 6"
  by (simp_all add: TIME_NEAR_MASK_def TIME_NEAR_def TIME_NEAR_SHIFT_def TIME_LEVEL_MASK_def
      TIME_LEVEL_def TIME_LEVEL_SHIFT_def mask_eq_decr_exp push_bit_eq_mult)

lemma level_masks:
  "push_bit TIME_LEVEL_SHIFT TIME_NEAR = 16384" "push_bit TIME_LEVEL_SHIFT (16384 :: i32) = 1048576"
  "push_bit TIME_LEVEL_SHIFT (1048576 :: i32) = 67108864"
  "a OR 16383 = b OR (16383 :: i32) \<longleftrightarrow> unat a div 2 ^ 14 = unat b div 2 ^ 14"
  "a OR 1048575 = b OR (1048575 :: i32) \<longleftrightarrow> unat a div 2 ^ 20 = unat b div 2 ^ 20"
  "a OR 67108863 = b OR (67108863 :: i32) \<longleftrightarrow> unat a div 2 ^ 26 = unat b div 2 ^ 26"
  using or_mask_eq [of a 14 b] or_mask_eq [of a 20 b] or_mask_eq [of a 26 b]
  by (simp_all add: TIME_NEAR_def TIME_NEAR_SHIFT_def TIME_LEVEL_SHIFT_def mask_eq_decr_exp push_bit_eq_mult)

section \<open>Places\<close>

datatype place = Near nat | Level nat nat

definition level :: "nat \<Rightarrow> nat \<Rightarrow> nat" where
  "level t e = (if e div 2 ^ 14 = t div 2 ^ 14 then 0 else if e div 2 ^ 20 = t div 2 ^ 20 then 1
     else if e div 2 ^ 26 = t div 2 ^ 26 then 2 else 3)"

definition digit :: "nat \<Rightarrow> nat \<Rightarrow> nat" where
  "digit i e = e div 2 ^ (8 + i * 6) mod 64"

definition place :: "nat \<Rightarrow> nat \<Rightarrow> place" where
  "place t e = (if e div 2 ^ 8 = t div 2 ^ 8 then Near (e mod 2 ^ 8)
     else Level (level t e) (digit (level t e) e - 1))"

fun valid_place :: "place \<Rightarrow> bool" where
  "valid_place (Near j) \<longleftrightarrow> j < 256"
| "valid_place (Level i j) \<longleftrightarrow> i < 4 \<and> j < 63"

fun nodes_at :: "timer \<Rightarrow> place \<Rightarrow> timer_node list" where
  "nodes_at T (Near j) = near T ! j"
| "nodes_at T (Level i j) = levels T ! i ! j"

fun put :: "place \<Rightarrow> timer_node \<Rightarrow> timer \<Rightarrow> timer" where
  "put (Near j) n T = T\<lparr>near := link j n (near T)\<rparr>"
| "put (Level i j) n T = T\<lparr>levels := (levels T)[i := link j n (levels T ! i)]\<rparr>"

definition shape :: "timer \<Rightarrow> bool" where
  "shape T \<longleftrightarrow> length (near T) = 256 \<and> length (levels T) = 4 \<and> (\<forall>l \<in> set (levels T). length l = 63)"

lemma shape_nth: "shape T \<Longrightarrow> i < 4 \<Longrightarrow> length (levels T ! i) = 63"
  by (simp add: shape_def)

lemma put_time [simp]: "time (put p n T) = time T"
  by (cases p) simp_all

lemma put_shape:
  assumes "shape T"
  shows "shape (put p n T)"
proof (cases p)
  case (Near j)
  then show ?thesis using assms by (simp add: shape_def link_def)
next
  case (Level i j)
  have "length l = 63" if "l \<in> set ((levels T)[i := link j n (levels T ! i)])" for l
  proof (cases "i < 4 \<and> l = link j n (levels T ! i)")
    case True
    then show ?thesis using shape_nth [OF assms] by (simp add: link_def)
  next
    case False
    then have "l \<in> set (levels T)"
      using that set_update_subset_insert [of "levels T" i "link j n (levels T ! i)"] assms
      by (cases "i < 4") (auto simp: shape_def list_update_beyond)
    then show ?thesis using assms by (simp add: shape_def)
  qed
  then show ?thesis using Level assms by (simp add: shape_def)
qed

lemma put_at:
  assumes "shape T" "valid_place p" "valid_place q"
  shows "nodes_at (put p n T) q = (if q = p then nodes_at T q @ [n] else nodes_at T q)"
proof (cases p)
  case (Near j)
  then show ?thesis using assms by (cases q) (auto simp: shape_def link_def nth_list_update)
next
  case (Level i j)
  then show ?thesis
    using assms shape_nth [OF assms(1), of i]
    by (cases q) (auto simp: shape_def link_def nth_list_update)
qed

lemma level_le: "level t e \<le> 3"
  by (simp add: level_def)

text \<open>A later time differs from the clock first in a digit that is larger, so never 0.\<close>

lemma div_eq_mono: "(a::nat) div 2 ^ m = b div 2 ^ m \<Longrightarrow> m \<le> n \<Longrightarrow> a div 2 ^ n = b div 2 ^ n"
  by (metis div_exp_eq le_add_diff_inverse)

lemma digit_pos:
  assumes "t \<le> e" "e < 2 ^ 32" "e div 2 ^ (8 + i * 6) \<noteq> t div 2 ^ (8 + i * 6)"
    and "e div 2 ^ (8 + Suc i * 6) = t div 2 ^ (8 + Suc i * 6)"
  shows "0 < digit i e"
proof (rule ccontr)
  assume "\<not> 0 < digit i e"
  then have "e div 2 ^ (8 + i * 6) = 64 * (e div 2 ^ (8 + i * 6) div 64)"
    using mult_div_mod_eq [of 64 "e div 2 ^ (8 + i * 6)"] by (simp add: digit_def)
  also have "e div 2 ^ (8 + i * 6) div 64 = t div 2 ^ (8 + i * 6) div 64"
    using assms(4) by (simp add: div_mult2_eq [symmetric] power_add ac_simps)
  finally have "e div 2 ^ (8 + i * 6) \<le> t div 2 ^ (8 + i * 6)" by simp
  moreover have "t div 2 ^ (8 + i * 6) \<le> e div 2 ^ (8 + i * 6)" using assms(1) by (rule div_le_mono)
  ultimately show False using assms(3) by simp
qed

lemma level_cases:
  "level t e = 0 \<and> e div 2 ^ 14 = t div 2 ^ 14 \<or>
   level t e = 1 \<and> e div 2 ^ 14 \<noteq> t div 2 ^ 14 \<and> e div 2 ^ 20 = t div 2 ^ 20 \<or>
   level t e = 2 \<and> e div 2 ^ 20 \<noteq> t div 2 ^ 20 \<and> e div 2 ^ 26 = t div 2 ^ 26 \<or>
   level t e = 3 \<and> e div 2 ^ 26 \<noteq> t div 2 ^ 26"
  by (simp add: level_def del: power_numeral)

lemma level_props:
  assumes "t \<le> e" "e < 2 ^ 32" "e div 2 ^ 8 \<noteq> t div 2 ^ 8"
  shows "e div 2 ^ (8 + level t e * 6) \<noteq> t div 2 ^ (8 + level t e * 6)"
    and "e div 2 ^ (8 + Suc (level t e) * 6) = t div 2 ^ (8 + Suc (level t e) * 6)"
proof -
  have top: "e div 2 ^ 32 = t div 2 ^ 32" using assms(1,2) by (simp only: div_less order.strict_trans1)
  have exps: "8 + 0 * 6 = (8::nat)" "8 + 1 * 6 = (14::nat)" "8 + 2 * 6 = (20::nat)" "8 + 3 * 6 = (26::nat)"
    "8 + Suc 0 * 6 = (14::nat)" "8 + Suc 1 * 6 = (20::nat)" "8 + Suc 2 * 6 = (26::nat)" "8 + Suc 3 * 6 = (32::nat)"
    by simp_all
  have "e div 2 ^ (8 + level t e * 6) \<noteq> t div 2 ^ (8 + level t e * 6) \<and>
      e div 2 ^ (8 + Suc (level t e) * 6) = t div 2 ^ (8 + Suc (level t e) * 6)"
    using level_cases [of t e]
  proof (elim disjE conjE)
    assume "level t e = 0" "e div 2 ^ 14 = t div 2 ^ 14"
    then show ?thesis using assms(3) by (simp only: exps) simp
  next
    assume "level t e = 1" "e div 2 ^ 14 \<noteq> t div 2 ^ 14" "e div 2 ^ 20 = t div 2 ^ 20"
    then show ?thesis by (simp only: exps) simp
  next
    assume "level t e = 2" "e div 2 ^ 20 \<noteq> t div 2 ^ 20" "e div 2 ^ 26 = t div 2 ^ 26"
    then show ?thesis by (simp only: exps) simp
  next
    assume "level t e = 3" "e div 2 ^ 26 \<noteq> t div 2 ^ 26"
    then show ?thesis using top by (simp only: exps) simp
  qed
  then show "e div 2 ^ (8 + level t e * 6) \<noteq> t div 2 ^ (8 + level t e * 6)"
    "e div 2 ^ (8 + Suc (level t e) * 6) = t div 2 ^ (8 + Suc (level t e) * 6)"
    by blast+
qed

lemma level_unique:
  assumes "t \<le> e" "e < 2 ^ 32" "i < 4" "e div 2 ^ (8 + i * 6) \<noteq> t div 2 ^ (8 + i * 6)"
    and "e div 2 ^ (8 + Suc i * 6) = t div 2 ^ (8 + Suc i * 6)"
  shows "level t e = i"
proof -
  have "e div 2 ^ 8 \<noteq> t div 2 ^ 8" using div_eq_mono [of e 8 t] assms(4) by auto
  note l = level_props [OF assms(1,2) this]
  show ?thesis
  proof (rule ccontr)
    assume "level t e \<noteq> i"
    then consider "Suc (level t e) \<le> i" | "Suc i \<le> level t e" by linarith
    then show False
    proof cases
      case 1
      then show False using div_eq_mono [OF l(2), of "8 + i * 6"] assms(4) by simp
    next
      case 2
      then show False using div_eq_mono [OF assms(5), of "8 + level t e * 6"] l(1) by simp
    qed
  qed
qed

lemma digit_level_pos:
  assumes "t \<le> e" "e < 2 ^ 32" "e div 2 ^ 8 \<noteq> t div 2 ^ 8"
  shows "0 < digit (level t e) e"
  using digit_pos [OF assms(1,2) level_props [OF assms]] .

lemma place_valid: "t \<le> e \<Longrightarrow> e < 2 ^ 32 \<Longrightarrow> valid_place (place t e)"
  using level_le [of t e] digit_level_pos [of t e] mod_less_divisor [of 64 "e div 2 ^ (8 + level t e * 6)"]
  by (auto simp: place_def digit_def)

section \<open>\<open>add_node\<close> puts a node at its place\<close>

lemma add_level_level:
  "add_level e t (push_bit TIME_LEVEL_SHIFT TIME_NEAR) 0 = level (unat t) (unat e)"
  by (simp add: add_level.simps level_masks level_def del: power_numeral)

lemma add_node_place:
  assumes "unat (time T) \<le> unat (expire n)"
  shows "add_node n T = Some (put (place (unat (time T)) (unat (expire n))) n T)"
proof (cases "unat (expire n) div 2 ^ 8 = unat (time T) div 2 ^ 8")
  case True
  then show ?thesis
    by (simp add: add_node_def wheel_masks or_mask_eq place_def unat_mask_mod)
next
  case False
  let ?i = "level (unat (time T)) (unat (expire n))"
  have lt: "unat (expire n) < 2 ^ 32" using unsigned_less [of "expire n"] by simp
  have pos: "0 < digit ?i (unat (expire n))" using digit_level_pos [OF assms lt False] .
  have "sint (signed_drop_bit (8 + ?i * 6) (expire n) AND mask 6) = int (digit ?i (unat (expire n)))"
    using signed_digit [of "8 + ?i * 6" "expire n"] level_le [of "unat (time T)" "unat (expire n)"]
    by (simp add: digit_def)
  then show ?thesis
    using False pos
    by (simp add: add_node_def wheel_masks or_mask_eq place_def add_level_level Let_def nat_diff_distrib)
qed

section \<open>What a tick changes\<close>

lemma div_step:
  fixes t :: nat
  assumes "Suc t mod 2 ^ m \<noteq> 0"
  shows "Suc t div 2 ^ m = t div 2 ^ m"
  using assms by (simp add: div_Suc)

lemma div_step_above:
  assumes "Suc t mod 2 ^ (8 + k * 6) = 0" "digit k (Suc t) \<noteq> 0" "8 + Suc k * 6 \<le> m"
  shows "Suc t div 2 ^ m = t div 2 ^ m"
proof -
  have "Suc t mod 2 ^ (8 + Suc k * 6) \<noteq> 0"
  proof
    assume "Suc t mod 2 ^ (8 + Suc k * 6) = 0"
    then obtain c where "Suc t = 2 ^ (8 + k * 6) * (64 * c)"
      by (auto simp: power_add ac_simps elim!: dvdE simp flip: dvd_eq_mod_eq_0)
    then have "Suc t div 2 ^ (8 + k * 6) = 64 * c" by simp
    then show False using assms(2) by (simp add: digit_def)
  qed
  then show ?thesis using div_eq_mono [OF div_step assms(3)] by blast
qed

lemma div_step_at:
  assumes "Suc t mod 2 ^ m = 0" "Suc t \<le> e"
  shows "e div 2 ^ m \<noteq> t div 2 ^ m"
proof -
  have "Suc t div 2 ^ m = Suc (t div 2 ^ m)" using assms(1) by (simp add: div_Suc)
  moreover have "Suc t div 2 ^ m \<le> e div 2 ^ m" using assms(2) by (rule div_le_mono)
  ultimately show ?thesis by simp
qed

lemma place_step_none:
  assumes "Suc t mod 2 ^ 8 \<noteq> 0"
  shows "place (Suc t) e = place t e"
proof -
  have "Suc t div 2 ^ m = t div 2 ^ m" if "8 \<le> m" for m
    using div_eq_mono [OF div_step [OF assms] that] .
  then show ?thesis by (simp add: place_def level_def del: power_numeral)
qed

lemma place_step:
  assumes "Suc t mod 2 ^ (8 + k * 6) = 0" "digit k (Suc t) \<noteq> 0" "k < 4" "Suc t \<le> e" "e < 2 ^ 32"
    and "place (Suc t) e \<noteq> place t e"
  shows "place t e = Level k (digit k (Suc t) - 1)"
proof -
  note above = div_step_above [OF assms(1,2)]
  have "e div 2 ^ (8 + k * 6) \<noteq> t div 2 ^ (8 + k * 6)" using div_step_at [OF assms(1,4)] .
  then have low: "e div 2 ^ m \<noteq> t div 2 ^ m" if "m \<le> 8 + k * 6" for m
    using div_eq_mono [OF _ that] by blast
  define l where "l = level t e"
  have te: "t \<le> e" using assms(4) by simp
  have near: "e div 2 ^ 8 \<noteq> t div 2 ^ 8" by (rule low) simp
  note lp = level_props [OF te assms(5) near, folded l_def]
  have "k \<le> l"
  proof (rule ccontr)
    assume "\<not> k \<le> l"
    then have "8 + Suc l * 6 \<le> 8 + k * 6" by simp
    then show False using low lp(2) by blast
  qed
  have same: "place (Suc t) e = place t e" if "level (Suc t) e = l" "e div 2 ^ 8 \<noteq> Suc t div 2 ^ 8"
    using that near by (simp add: place_def l_def)
  have same': "place (Suc t) e = place t e"
    if "e div 2 ^ (8 + l * 6) \<noteq> Suc t div 2 ^ (8 + l * 6)" "e div 2 ^ (8 + Suc l * 6) = Suc t div 2 ^ (8 + Suc l * 6)"
  proof (rule same)
    show "level (Suc t) e = l"
      using level_unique [OF assms(4,5) _ that] level_le [of t e] by (simp add: l_def)
    show "e div 2 ^ 8 \<noteq> Suc t div 2 ^ 8" using that(1) div_eq_mono [of e 8 "Suc t" "8 + l * 6"] by auto
  qed
  show ?thesis
  proof (cases "l = k")
    case True
    have "e div 2 ^ (8 + l * 6) = Suc t div 2 ^ (8 + l * 6)"
      using same' assms(6) above [of "8 + Suc l * 6"] lp(2) True by auto
    then show ?thesis using near True by (simp add: place_def digit_def l_def [symmetric])
  next
    case False
    then have "8 + Suc k * 6 \<le> 8 + l * 6" using \<open>k \<le> l\<close> by simp
    then show ?thesis
      using same' assms(6) lp above [of "8 + l * 6"] above [of "8 + Suc l * 6"] by simp
  qed
qed

section \<open>The cascade\<close>

lemma add_nodes_at:
  assumes "shape T" "\<forall>n \<in> set ns. unat (time T) \<le> unat (expire n)"
  shows "\<exists>T'. add_nodes ns T = Some T' \<and> shape T' \<and> time T' = time T \<and>
    (\<forall>q. valid_place q \<longrightarrow>
       nodes_at T' q = nodes_at T q @ filter (\<lambda>n. place (unat (time T)) (unat (expire n)) = q) ns)"
  using assms
proof (induction ns arbitrary: T)
  case (Cons n ns)
  let ?p = "place (unat (time T)) (unat (expire n))"
  have lt: "unat (expire n) < 2 ^ 32" using unsigned_less [of "expire n"] by simp
  have le: "unat (time T) \<le> unat (expire n)" using Cons.prems(2) by simp
  note p = place_valid [OF le lt]
  have "\<forall>m \<in> set ns. unat (time (put ?p n T)) \<le> unat (expire m)" using Cons.prems(2) by simp
  from Cons.IH [OF put_shape [OF Cons.prems(1)] this]
  obtain T' where T': "add_nodes ns (put ?p n T) = Some T'" "shape T'" "time T' = time T"
      "\<forall>q. valid_place q \<longrightarrow> nodes_at T' q = nodes_at (put ?p n T) q @
         filter (\<lambda>n. place (unat (time T)) (unat (expire n)) = q) ns"
    by auto
  then show ?case
    using add_node_place [OF le] put_at [OF Cons.prems(1) p] by (intro exI [of _ T']) auto
qed simp

definition clear_level :: "nat \<Rightarrow> nat \<Rightarrow> timer \<Rightarrow> timer" where
  "clear_level i j T = T\<lparr>levels := (levels T)[i := (levels T ! i)[j := []]]\<rparr>"

lemma mod_next_digit:
  assumes "x mod 2 ^ (8 + i * 6) = 0" "digit i x = 0"
  shows "x mod 2 ^ (8 + Suc i * 6) = 0"
proof -
  have "(2::nat) ^ (8 + Suc i * 6) = 2 ^ (8 + i * 6) * 64" by (simp add: power_add)
  then show ?thesis using assms by (simp only: mod_mult2_eq digit_def mult_zero_right add_0)
qed

lemma shift_loop_hit:
  assumes "time T AND (m - 1) = 0" "sint (tm AND TIME_LEVEL_MASK) = int d" "d \<noteq> 0" "i < 4"
  shows "shift_loop m tm i T = add_nodes (levels T ! i ! (d - 1)) (clear_level i (d - 1) T)"
proof -
  have "nat (int d - 1) = d - 1" by simp
  then show ?thesis
    using assms by (subst shift_loop.simps) (simp add: Let_def link_clear_def clear_level_def)
qed

lemma shift_loop_miss:
  assumes "time T AND (m - 1) = 0" "sint (tm AND TIME_LEVEL_MASK) = 0"
  shows "shift_loop m tm i T = shift_loop (push_bit TIME_LEVEL_SHIFT m) (signed_drop_bit TIME_LEVEL_SHIFT tm) (i + 1) T"
  using assms by (subst shift_loop.simps) simp

lemma shift_loop_spec:
  assumes "i < 4" "unat (time T) mod 2 ^ (8 + i * 6) = 0" "0 < unat (time T)"
  shows "\<exists>k < 4. unat (time T) mod 2 ^ (8 + k * 6) = 0 \<and> digit k (unat (time T)) \<noteq> 0 \<and>
    shift_loop (push_bit (i * 6) TIME_NEAR) (signed_drop_bit (8 + i * 6) (time T)) i T =
      add_nodes (levels T ! k ! (digit k (unat (time T)) - 1)) (clear_level k (digit k (unat (time T)) - 1) T)"
  using assms
proof (induction "4 - i" arbitrary: i)
  case (Suc x)
  have mask: "push_bit (i * 6) TIME_NEAR - 1 = mask (8 + i * 6)"
    by (simp add: TIME_NEAR_def TIME_NEAR_SHIFT_def mask_eq_decr_exp push_bit_eq_mult power_add)
  have zero: "time T AND (push_bit (i * 6) TIME_NEAR - 1) = 0"
  proof -
    have "unat (time T AND mask (8 + i * 6)) = 0"
      using Suc.prems(1,2) by (simp add: unat_mask_mod)
    then have "time T AND mask (8 + i * 6) = 0" by (rule unat_eq_0 [THEN iffD1])
    then show ?thesis unfolding mask .
  qed
  have dig: "sint (signed_drop_bit (8 + i * 6) (time T) AND TIME_LEVEL_MASK) = int (digit i (unat (time T)))"
    unfolding wheel_masks using signed_digit [of "8 + i * 6" "time T"] Suc.prems(1) by (simp add: digit_def)
  show ?case
  proof (cases "digit i (unat (time T)) = 0")
    case False
    have "shift_loop (push_bit (i * 6) TIME_NEAR) (signed_drop_bit (8 + i * 6) (time T)) i T =
        add_nodes (levels T ! i ! (digit i (unat (time T)) - 1)) (clear_level i (digit i (unat (time T)) - 1) T)"
      by (rule shift_loop_hit [OF zero dig False Suc.prems(1)])
    then show ?thesis using Suc.prems(1,2) False by (intro exI [of _ i] conjI)
  next
    case True
    have step: "unat (time T) mod 2 ^ (8 + Suc i * 6) = 0"
      by (rule mod_next_digit [OF Suc.prems(2) True])
    have "Suc i < 4"
    proof (rule ccontr)
      assume "\<not> Suc i < 4"
      then have "8 + Suc i * 6 = 32" using Suc.prems(1) by simp
      then have "unat (time T) mod 2 ^ 32 = 0" using step by metis
      moreover have "unat (time T) < 2 ^ 32" using unsigned_less [of "time T"] by simp
      ultimately show False using Suc.prems(3) by (simp only: mod_less)
    qed
    moreover have "shift_loop (push_bit (i * 6) TIME_NEAR) (signed_drop_bit (8 + i * 6) (time T)) i T =
        shift_loop (push_bit (Suc i * 6) TIME_NEAR) (signed_drop_bit (8 + Suc i * 6) (time T)) (Suc i) T"
    proof -
      have "push_bit (Suc i * 6) TIME_NEAR = push_bit TIME_LEVEL_SHIFT (push_bit (i * 6) TIME_NEAR)"
        "signed_drop_bit (8 + Suc i * 6) (time T) = signed_drop_bit TIME_LEVEL_SHIFT (signed_drop_bit (8 + i * 6) (time T))"
        by (simp_all add: TIME_LEVEL_SHIFT_def ac_simps)
      then show ?thesis using shift_loop_miss [OF zero] dig True by simp
    qed
    ultimately show ?thesis
      using Suc.hyps(1) [of "Suc i"] Suc.hyps(2) step Suc.prems(3) by simp
  qed
qed simp

end
