(* ===== verification/TimerSpec.thy ===== *)
theory TimerSpec
  imports TimerWheel
begin

text \<open>
  The contract of the timer: per tick a queue of events, \<open>spec_add\<close> appends to the queue of the
  tick at which the event is due, \<open>spec_update\<close> delivers the queue of the next tick.  The wheel
  refines it for \<open>2 ^ 31 - 1\<close> ticks.  Outside that range, or with a negative time-out, the wheel
  leaves its arrays; those runs are exhibited at the end.
\<close>

unbundle bit_operations_syntax

section \<open>The invariant\<close>

definition wheel_ok :: "timer \<Rightarrow> bool" where
  "wheel_ok T \<longleftrightarrow> shape T \<and>
     (\<forall>p. valid_place p \<longrightarrow> (\<forall>n \<in> set (nodes_at T p).
        unat (time T) \<le> unat (expire n) \<and> place (unat (time T)) (unat (expire n)) = p))"

definition pending :: "timer \<Rightarrow> nat \<Rightarrow> timer_node list" where
  "pending T e = filter (\<lambda>n. unat (expire n) = e) (nodes_at T (place (unat (time T)) e))"

lemma wheel_okD:
  "wheel_ok T \<Longrightarrow> valid_place p \<Longrightarrow> n \<in> set (nodes_at T p) \<Longrightarrow>
   unat (time T) \<le> unat (expire n) \<and> place (unat (time T)) (unat (expire n)) = p"
  by (simp add: wheel_ok_def)

lemma place_ok: "t \<le> e \<Longrightarrow> e < 2 ^ 31 \<Longrightarrow> valid_place (place t e)"
  by (rule place_valid) simp_all

lemma place_node: "t \<le> unat (expire n) \<Longrightarrow> valid_place (place t (unat (expire n)))"
  using unsigned_less [of "expire n"] by (intro place_valid) simp_all

lemma near_now:
  assumes "wheel_ok T"
  shows "near T ! (unat (time T) mod 256) = pending T (unat (time T))"
proof -
  let ?p = "Near (unat (time T) mod 256)"
  have p: "place (unat (time T)) (unat (time T)) = ?p" by (simp add: place_def)
  have "unat (expire n) = unat (time T)" if "n \<in> set (nodes_at T ?p)" for n
  proof -
    have "place (unat (time T)) (unat (expire n)) = ?p" using wheel_okD [OF assms _ that] by simp
    then have "unat (expire n) div 256 = unat (time T) div 256" "unat (expire n) mod 256 = unat (time T) mod 256"
      by (auto simp: place_def split: if_splits)
    then show ?thesis by (metis div_mod_decomp)
  qed
  then show ?thesis by (simp add: pending_def p)
qed

text \<open>The wheel's operations do not touch the clocks of \<open>skynet_gettime\<close>.\<close>

definition clocks :: "timer \<Rightarrow> u32 \<times> u32 \<times> u64 \<times> u64" where
  "clocks T = (current T, starttime T, current_point T, origin_point T)"

lemma add_node_clocks: "add_node n T = Some T' \<Longrightarrow> clocks T' = clocks T"
  by (auto simp: add_node_def clocks_def Let_def split: if_splits)

lemma add_nodes_clocks: "add_nodes ns T = Some T' \<Longrightarrow> clocks T' = clocks T"
  by (induction ns arbitrary: T) (auto simp: Option.bind_eq_Some_conv dest: add_node_clocks)

lemma shift_loop_clocks:
  assumes "shift_loop m tm i T = Some T'"
  shows "clocks T' = clocks T"
proof (rule shift_loop.raw_induct [OF _ assms, of "\<lambda>_ _ _ T T'. clocks T' = clocks T"])
  fix f :: "i32 \<Rightarrow> i32 \<Rightarrow> nat \<Rightarrow> timer \<Rightarrow> timer option" and m tm i T T'
  assume hyp: "\<And>m tm i T T'. f m tm i T = Some T' \<Longrightarrow> clocks T' = clocks T"
    and body: "(if time T AND (m - 1) = 0 then
        let idx = sint (tm AND TIME_LEVEL_MASK)
        in if idx \<noteq> 0 then c_assert (i < 4) \<bind> (\<lambda>_. let idx = idx - 1; (nodes, ls) = link_clear (nat idx) (levels T ! i)
             in add_nodes nodes (T\<lparr>levels := (levels T)[i := ls]\<rparr>))
           else f (push_bit TIME_LEVEL_SHIFT m) (signed_drop_bit TIME_LEVEL_SHIFT tm) (i + 1) T
      else Some T) = Some T'"
  show "clocks T' = clocks T"
  proof (cases "time T AND (m - 1) = 0 \<and> sint (tm AND TIME_LEVEL_MASK) = 0")
    case True
    then show ?thesis using body hyp by simp
  next
    case False
    then show ?thesis
      using body add_nodes_clocks by (fastforce simp: clocks_def Let_def link_clear_def split: if_splits)
  qed
qed

lemma clear_near_ok:
  assumes "wheel_ok T"
  defines "T' \<equiv> T\<lparr>near := (near T)[unat (time T) mod 256 := []]\<rparr>"
  shows "wheel_ok T'" "pending T' e = (if e = unat (time T) then [] else pending T e)"
proof -
  have sh: "shape T" using assms(1) by (simp add: wheel_ok_def)
  have sub: "set (nodes_at T' p) \<subseteq> set (nodes_at T p)" if "valid_place p" for p
    using that sh by (cases p) (auto simp: T'_def shape_def nth_list_update)
  then show ok': "wheel_ok T'"
    using assms(1) by (force simp: wheel_ok_def T'_def shape_def)
  show "pending T' e = (if e = unat (time T) then [] else pending T e)"
  proof (cases "place (unat (time T)) e")
    case (Near j)
    show ?thesis
    proof (cases "j = unat (time T) mod 256")
      case True
      have "near T ! j = pending T (unat (time T))" using near_now [OF assms(1)] True by simp
      then have "n \<in> set (near T ! j) \<Longrightarrow> unat (expire n) = unat (time T)" for n by (simp add: pending_def)
      then have "pending T e = []" if "e \<noteq> unat (time T)"
        using that Near by (auto simp: pending_def filter_empty_conv)
      then show ?thesis using Near True sh by (simp add: pending_def T'_def shape_def)
    next
      case False
      have "e \<noteq> unat (time T)" using False Near by (auto simp: place_def)
      then show ?thesis using Near False by (simp add: pending_def T'_def)
    qed
  next
    case (Level i j)
    then have "e \<noteq> unat (time T)" by (auto simp: place_def)
    then show ?thesis using Level by (simp add: pending_def T'_def)
  qed
qed

lemma timer_execute_ok:
  assumes "wheel_ok T"
  shows "\<exists>T'. timer_execute push (T, w) = Some (T', dispatch_list push (pending T (unat (time T))) w) \<and>
    wheel_ok T' \<and> time T' = time T \<and> clocks T' = clocks T \<and>
    (\<forall>e. pending T' e = (if e = unat (time T) then [] else pending T e))"
proof -
  have idx: "unat (time T AND TIME_NEAR_MASK) = unat (time T) mod 256"
    by (simp add: wheel_masks unat_mask_mod)
  define T' where "T' = T\<lparr>near := (near T)[unat (time T) mod 256 := []]\<rparr>"
  have T': "wheel_ok T'" "pending T' e = (if e = unat (time T) then [] else pending T e)" for e
    using clear_near_ok [OF assms] by (simp_all add: T'_def)
  have t': "time T' = time T" "clocks T' = clocks T" by (simp_all add: T'_def clocks_def)
  have stop: "timer_execute push (T', w) = Some (T', w)" for w
    using near_now [OF T'(1)] T'(2) [of "unat (time T)"]
    by (subst timer_execute.simps) (simp add: t' idx)
  show ?thesis
  proof (cases "pending T (unat (time T)) = []")
    case True
    then have "timer_execute push (T, w) = Some (T, w)"
      using near_now [OF assms] by (subst timer_execute.simps) (simp add: idx)
    then show ?thesis using assms True by auto
  next
    case False
    then have "timer_execute push (T, w) = timer_execute push (T', dispatch_list push (pending T (unat (time T))) w)"
      using near_now [OF assms] by (subst timer_execute.simps) (simp add: idx link_clear_def T'_def Let_def)
    then show ?thesis using T' t' stop by auto
  qed
qed

lemma timer_add_ok:
  assumes ok: "wheel_ok T" and d: "unat (time T) + unat d < 2 ^ 32"
    and n_def: "n = \<lparr>te_handle = h, te_session = s, expire = d + time T\<rparr>"
  shows "\<exists>T'. timer_add h s d T = Some T' \<and> wheel_ok T' \<and> time T' = time T \<and>
    (\<forall>e < 2 ^ 32. unat (time T) \<le> e \<longrightarrow>
       pending T' e = (if e = unat (time T) + unat d then pending T e @ [n] else pending T e))"
proof -
  have e: "unat (expire n) = unat (time T) + unat d"
    using d by (simp add: n_def unat_word_ariths) 
  let ?p = "place (unat (time T)) (unat (expire n))"
  have le: "unat (time T) \<le> unat (expire n)" using e by simp
  have sh: "shape T" using ok by (simp add: wheel_ok_def)
  note p = place_node [OF le]
  have add: "timer_add h s d T = Some (put ?p n T)"
    using add_node_place [OF le] by (simp add: timer_add_def n_def)
  have at: "nodes_at (put ?p n T) q = (if q = ?p then nodes_at T q @ [n] else nodes_at T q)" if "valid_place q" for q
    using put_at [OF sh p that] .
  have "unat (time T) \<le> unat (expire m) \<and> place (unat (time T)) (unat (expire m)) = q"
    if q: "valid_place q" "m \<in> set (nodes_at (put ?p n T) q)" for q m
  proof (cases "m \<in> set (nodes_at T q)")
    case False
    then have "q = ?p \<and> m = n" using q(2) unfolding at [OF q(1)] by (simp split: if_splits)
    then show ?thesis using le by simp
  qed (use wheel_okD [OF ok q(1)] in simp)
  then have "wheel_ok (put ?p n T)"
    using put_shape [OF sh] by (simp add: wheel_ok_def)
  moreover have "pending (put ?p n T) e' = (if e' = unat (time T) + unat d then pending T e' @ [n] else pending T e')"
    if "e' < 2 ^ 32" "unat (time T) \<le> e'" for e'
    using at [OF place_valid [OF that(2,1)]] e by (simp add: pending_def)
  ultimately show ?thesis using add by auto
qed

section \<open>The tick\<close>

lemma clear_level_at:
  assumes "shape T" "k < 4" "valid_place p"
  shows "nodes_at (clear_level k j T) p = (if p = Level k j then [] else nodes_at T p)"
  using assms shape_nth [OF assms(1,2)]
  by (cases p) (auto simp: clear_level_def shape_def nth_list_update)

lemma clear_level_shape:
  assumes "shape T" "k < 4"
  shows "shape (clear_level k j T)"
proof -
  have "set ((levels T)[k := (levels T ! k)[j := []]]) \<subseteq> insert ((levels T ! k)[j := []]) (set (levels T))"
    by (rule set_update_subset_insert)
  then show ?thesis using assms shape_nth [OF assms] by (auto simp: shape_def clear_level_def)
qed

lemma timer_shift_ok:
  assumes ok: "wheel_ok T" and t: "unat (time T) + 1 < 2 ^ 32" and now: "pending T (unat (time T)) = []"
  shows "\<exists>T'. timer_shift T = Some T' \<and> wheel_ok T' \<and> unat (time T') = unat (time T) + 1 \<and>
    (\<forall>e < 2 ^ 32. unat (time T) < e \<longrightarrow> pending T' e = pending T e)"
proof -
  define T1 where "T1 = T\<lparr>time := time T + 1\<rparr>"
  have t1: "unat (time T1) = Suc (unat (time T))"
    using t by (simp add: T1_def unat_word_ariths)
  have at1: "nodes_at T1 p = nodes_at T p" for p by (cases p) (simp_all add: T1_def)
  have sh: "shape T" and sh1: "shape T1" using ok by (simp_all add: wheel_ok_def shape_def T1_def)
  have later: "Suc (unat (time T)) \<le> unat (expire n)" if p: "valid_place p" and n: "n \<in> set (nodes_at T p)" for p n
  proof -
    have "unat (time T) \<noteq> unat (expire n)"
    proof
      assume *: "unat (time T) = unat (expire n)"
      then have "n \<in> set (pending T (unat (time T)))"
        using wheel_okD [OF ok p n] n by (simp add: pending_def)
      then show False using now by simp
    qed
    then show ?thesis using wheel_okD [OF ok p n] by simp
  qed
  have lt: "unat (expire n) < 2 ^ 32" for n :: timer_node using unsigned_less [of "expire n"] by simp
  show ?thesis
  proof (cases "Suc (unat (time T)) mod 2 ^ 8 = 0")
    case False
    have "time T1 AND (TIME_NEAR - 1) \<noteq> 0"
    proof
      assume "time T1 AND (TIME_NEAR - 1) = 0"
      then have "unat (time T1 AND mask 8) = 0" by (simp add: wheel_masks)
      then show False using False t1 by (simp add: unat_mask_mod)
    qed
    then have shift: "timer_shift T = Some T1"
      unfolding timer_shift_def T1_def [symmetric] Let_def by (subst shift_loop.simps) simp
    have place: "place (unat (time T1)) e = place (unat (time T)) e" for e
      using place_step_none [OF False] t1 by simp
    have "wheel_ok T1"
      unfolding wheel_ok_def at1 place using sh1 later wheel_okD [OF ok] t1 by simp
    moreover have "pending T1 e = pending T e" for e
      by (simp add: pending_def place at1)
    ultimately show ?thesis using shift t1 by auto
  next
    case True
    obtain k where k: "k < 4" "unat (time T1) mod 2 ^ (8 + k * 6) = 0" "digit k (unat (time T1)) \<noteq> 0"
      "shift_loop (push_bit (0 * 6) TIME_NEAR) (signed_drop_bit (8 + 0 * 6) (time T1)) 0 T1 =
         add_nodes (levels T1 ! k ! (digit k (unat (time T1)) - 1)) (clear_level k (digit k (unat (time T1)) - 1) T1)"
      using shift_loop_spec [of 0 T1] True t1 by auto
    define p where "p = Level k (digit k (unat (time T1)) - 1)"
    define T2 where "T2 = clear_level k (digit k (unat (time T1)) - 1) T1"
    have p: "valid_place p"
      using k(1,3) mod_less_divisor [of 64 "unat (time T1) div 2 ^ (8 + k * 6)"] by (simp add: p_def digit_def)
    have t2: "time T2 = time T1" by (simp add: T2_def clear_level_def)
    have sh2: "shape T2" using clear_level_shape [OF sh1 k(1)] by (simp add: T2_def)
    have at2: "nodes_at T2 q = (if q = p then [] else nodes_at T q)" if "valid_place q" for q
      using clear_level_at [OF sh1 k(1) that] by (simp add: T2_def p_def at1)
    have moved: "levels T1 ! k ! (digit k (unat (time T1)) - 1) = nodes_at T p"
      using at1 [of p] by (simp add: p_def)
    have "\<forall>n \<in> set (nodes_at T p). unat (time T2) \<le> unat (expire n)"
      using later [OF p] by (simp add: t2 t1)
    from add_nodes_at [OF sh2 this]
    obtain T' where T': "add_nodes (nodes_at T p) T2 = Some T'" "shape T'" "time T' = time T1"
        "\<And>q. valid_place q \<Longrightarrow> nodes_at T' q = nodes_at T2 q @
           filter (\<lambda>n. place (unat (time T1)) (unat (expire n)) = q) (nodes_at T p)"
      by (auto simp: t2)
    have shift: "timer_shift T = Some T'"
      using k(4) T'(1) unfolding timer_shift_def T1_def [symmetric] T2_def moved Let_def
      by (simp add: TIME_NEAR_SHIFT_def)
    have stay: "place (unat (time T1)) e = place (unat (time T)) e"
      if "Suc (unat (time T)) \<le> e" "e < 2 ^ 32" "place (unat (time T)) e \<noteq> p" for e
      using place_step [of "unat (time T)" k e] k(1-3) t1 that p_def by metis
    have "unat (time T') \<le> unat (expire n) \<and> place (unat (time T')) (unat (expire n)) = q"
      if q: "valid_place q" and n: "n \<in> set (nodes_at T' q)" for q n
    proof -
      consider "n \<in> set (nodes_at T q)" "q \<noteq> p"
        | "n \<in> set (nodes_at T p)" "place (unat (time T1)) (unat (expire n)) = q"
        using n unfolding T'(4) [OF q] at2 [OF q] by (auto split: if_splits)
      then show ?thesis
      proof cases
        case 1
        have "place (unat (time T)) (unat (expire n)) = q" using wheel_okD [OF ok q 1(1)] by simp
        then show ?thesis using stay [OF later [OF q 1(1)] lt] later [OF q 1(1)] 1(2) T'(3) t1 by simp
      next
        case 2
        then show ?thesis using later [OF p 2(1)] T'(3) t1 by simp
      qed
    qed
    then have "wheel_ok T'" using T'(2) by (simp add: wheel_ok_def)
    moreover have "pending T' e = pending T e" if e: "e < 2 ^ 32" "unat (time T) < e" for e
    proof -
      have se: "Suc (unat (time T)) \<le> e" using e by simp
      let ?q = "place (unat (time T1)) e"
      have q: "valid_place ?q" using place_valid [of "unat (time T1)" e] se e t1 by simp
      have r: "valid_place (place (unat (time T)) e)" using place_valid [of "unat (time T)" e] e by simp
      have split: "pending T' e = filter (\<lambda>n. unat (expire n) = e) (nodes_at T2 ?q) @
          filter (\<lambda>n. unat (expire n) = e) (nodes_at T p)"
        unfolding pending_def T'(3) T'(4) [OF q] by (auto simp: filter_filter intro!: filter_cong)
      show ?thesis
      proof (cases "place (unat (time T)) e = p")
        case True
        have "filter (\<lambda>n. unat (expire n) = e) (nodes_at T2 ?q) = []"
        proof (cases "?q = p")
          case False
          have "unat (expire n) \<noteq> e" if "n \<in> set (nodes_at T ?q)" for n
            using wheel_okD [OF ok q that] True False by auto
          then show ?thesis by (simp add: at2 [OF q] False)
        qed (simp add: at2 [OF p])
        then show ?thesis using split True by (simp add: pending_def)
      next
        case False
        then have qq: "?q = place (unat (time T)) e" using stay [OF se e(1)] by simp
        have "filter (\<lambda>n. unat (expire n) = e) (nodes_at T p) = []"
          using wheel_okD [OF ok p] False by (auto simp: filter_empty_conv)
        then show ?thesis using split qq False at2 [OF r] by (simp add: pending_def)
      qed
    qed
    ultimately show ?thesis using shift T'(3) t1 by auto
  qed
qed

lemma dispatch_list_append: "dispatch_list push (xs @ ys) w = dispatch_list push ys (dispatch_list push xs w)"
  by (induction xs arbitrary: w) auto

lemma timer_update_ok:
  assumes ok: "wheel_ok T" and t: "unat (time T) + 1 < 2 ^ 32"
  shows "\<exists>T'. timer_update push (T, w) =
      Some (T', dispatch_list push (pending T (unat (time T)) @ pending T (unat (time T) + 1)) w) \<and>
    wheel_ok T' \<and> unat (time T') = unat (time T) + 1 \<and> clocks T' = clocks T \<and>
    (\<forall>e < 2 ^ 32. unat (time T') \<le> e \<longrightarrow> pending T' e = (if e = unat (time T') then [] else pending T e))"
proof -
  obtain T1 where T1: "timer_execute push (T, w) = Some (T1, dispatch_list push (pending T (unat (time T))) w)"
      "wheel_ok T1" "time T1 = time T" "clocks T1 = clocks T" "\<forall>e. pending T1 e = (if e = unat (time T) then [] else pending T e)"
    using timer_execute_ok [OF ok, of push w] by blast
  have t1: "unat (time T1) + 1 < 2 ^ 32" "pending T1 (unat (time T1)) = []" using T1(3,5) t by simp_all
  obtain T2 where T2: "timer_shift T1 = Some T2" "wheel_ok T2" "unat (time T2) = unat (time T) + 1"
      "\<forall>e < 2 ^ 32. unat (time T) < e \<longrightarrow> pending T2 e = pending T1 e"
    using timer_shift_ok [OF T1(2) t1] T1(3) by auto
  have p2: "pending T2 e = pending T e" if "e < 2 ^ 32" "unat (time T) < e" for e
    using T2(4) T1(5) that by simp
  obtain T3 where T3: "timer_execute push (T2, dispatch_list push (pending T (unat (time T))) w) =
        Some (T3, dispatch_list push (pending T2 (unat (time T2))) (dispatch_list push (pending T (unat (time T))) w))"
      "wheel_ok T3" "time T3 = time T2" "clocks T3 = clocks T2" "\<forall>e. pending T3 e = (if e = unat (time T2) then [] else pending T2 e)"
    using timer_execute_ok [OF T2(2), of push] by blast
  have "pending T2 (unat (time T2)) = pending T (unat (time T) + 1)" using p2 t T2(3) by simp
  then have "timer_update push (T, w) =
      Some (T3, dispatch_list push (pending T (unat (time T)) @ pending T (unat (time T) + 1)) w)"
    using T1(1) T2(1) T3(1) by (simp add: timer_update_def dispatch_list_append)
  moreover have "pending T3 e = (if e = unat (time T3) then [] else pending T e)" if "e < 2 ^ 32" "unat (time T3) \<le> e" for e
    using that T3(3,5) T2(3) p2 by simp
  moreover have "clocks T2 = clocks T1"
    using T2(1) shift_loop_clocks [of _ _ 0 "T1\<lparr>time := time T1 + 1\<rparr>" T2]
    by (simp add: timer_shift_def clocks_def)
  ultimately show ?thesis using T3(2-4) T2(3) T1(4) by auto
qed

section \<open>The specification\<close>

datatype timer_op = Timeout u32 i32 i32 | Tick

text \<open>\<open>Timeout handle session time\<close> is a call of \<open>skynet_timeout\<close>, \<open>Tick\<close> one centisecond.\<close>

fun timer_run :: "('d, 'w) context_push \<Rightarrow> timer_op list \<Rightarrow> timer \<times> 'w \<Rightarrow> (timer \<times> 'w) option" where
  "timer_run push [] Tw = Some Tw"
| "timer_run push (Timeout h s d # ops) Tw = do {
     (_, Tw) \<leftarrow> skynet_timeout push h d s Tw;
     timer_run push ops Tw
   }"
| "timer_run push (Tick # ops) Tw = do { Tw \<leftarrow> timer_update push Tw; timer_run push ops Tw }"

type_synonym event_queues = "nat \<Rightarrow> timer_event list"

definition deliver :: "('d, 'w) context_push \<Rightarrow> timer_event list \<Rightarrow> 'w \<Rightarrow> 'w" where
  "deliver push = fold (\<lambda>ev w. snd (push (te_handle ev) (timeout_message ev) w))"

fun spec_run :: "('d, 'w) context_push \<Rightarrow> timer_op list \<Rightarrow> nat \<Rightarrow> event_queues \<Rightarrow> 'w \<Rightarrow> 'w" where
  "spec_run push [] t q w = w"
| "spec_run push (Timeout h s d # ops) t q w =
     (let ev = \<lparr>te_handle = h, te_session = s\<rparr> in
      if d = 0 then spec_run push ops t q (deliver push [ev] w)
      else spec_run push ops t (q(t + unat d := q (t + unat d) @ [ev])) w)"
| "spec_run push (Tick # ops) t q w = spec_run push ops (t + 1) q (deliver push (q (t + 1)) w)"

fun within_range :: "timer_op list \<Rightarrow> nat \<Rightarrow> bool" where
  "within_range [] t \<longleftrightarrow> True"
| "within_range (Timeout h s d # ops) t \<longleftrightarrow> 0 \<le> sint d \<and> t + unat d < 2 ^ 31 \<and> within_range ops t"
| "within_range (Tick # ops) t \<longleftrightarrow> t + 1 < 2 ^ 31 \<and> within_range ops (t + 1)"

lemma dispatch_list_deliver:
  "dispatch_list push ns w = deliver push (map timer_event.truncate ns) w"
  by (induction ns arbitrary: w) (simp_all add: deliver_def timer_event.truncate_def)

lemma timer_run_refines:
  assumes "wheel_ok T" "pending T (unat (time T)) = []" "within_range ops (unat (time T))"
    and "\<forall>e < 2 ^ 31. unat (time T) < e \<longrightarrow> q e = map timer_event.truncate (pending T e)"
  shows "\<exists>T'. timer_run push ops (T, w) = Some (T', spec_run push ops (unat (time T)) q w) \<and> wheel_ok T'"
  using assms
proof (induction ops arbitrary: T q w)
  case Nil
  then show ?case by simp
next
  case (Cons op ops)
  show ?case
  proof (cases op)
    case (Timeout h s d)
    let ?ev = "\<lparr>te_handle = h, te_session = s\<rparr>"
    show ?thesis
    proof (cases "d = 0")
      case True
      have step: "timer_run push (op # ops) (T, w) = timer_run push ops (T, deliver push [?ev] w)"
        by (simp add: Timeout True skynet_timeout_def deliver_def Let_def split: prod.splits)
      have spec: "spec_run push (op # ops) (unat (time T)) q w = spec_run push ops (unat (time T)) q (deliver push [?ev] w)"
        by (simp add: Timeout True)
      show ?thesis
        unfolding step spec using Cons.IH [OF Cons.prems(1,2) _ Cons.prems(4)] Cons.prems(3) Timeout by simp
    next
      case False
      then have d: "0 < unat d" "unat (time T) + unat d < 2 ^ 31"
        using Cons.prems(3) Timeout by (simp_all add: unat_gt_0)
      let ?n = "\<lparr>te_handle = h, te_session = s, expire = d + time T\<rparr>"
      obtain T1 where T1: "timer_add h s d T = Some T1" "wheel_ok T1" "time T1 = time T"
          "\<forall>e < 2 ^ 32. unat (time T) \<le> e \<longrightarrow>
             pending T1 e = (if e = unat (time T) + unat d then pending T e @ [?n] else pending T e)"
        using timer_add_ok [OF Cons.prems(1) _ refl, of d h s] d(2) by auto
      have now: "pending T1 (unat (time T1)) = []"
        using T1(3,4) Cons.prems(2) d by simp
      have q: "\<forall>e < 2 ^ 31. unat (time T1) < e \<longrightarrow>
          (q(unat (time T) + unat d := q (unat (time T) + unat d) @ [?ev])) e = map timer_event.truncate (pending T1 e)"
        using T1(3,4) Cons.prems(4) d by (simp add: timer_event.truncate_def)
      have w: "within_range ops (unat (time T1))" using Cons.prems(3) T1(3) Timeout by simp
      show ?thesis
        using Cons.IH [OF T1(2) now w q, of w] T1(1,3) False by (simp add: Timeout skynet_timeout_def Let_def del: fun_upd_apply)
    qed
  next
    case Tick
    have t: "unat (time T) + 1 < 2 ^ 31" using Cons.prems(3) Tick by simp
    obtain T1 where T1: "timer_update push (T, w) =
          Some (T1, dispatch_list push (pending T (unat (time T)) @ pending T (unat (time T) + 1)) w)"
        "wheel_ok T1" "unat (time T1) = unat (time T) + 1"
        "\<forall>e < 2 ^ 32. unat (time T1) \<le> e \<longrightarrow> pending T1 e = (if e = unat (time T1) then [] else pending T e)"
      using timer_update_ok [OF Cons.prems(1), of push w] t by auto
    have now: "pending T1 (unat (time T1)) = []" using T1(3,4) t by simp
    have q: "\<forall>e < 2 ^ 31. unat (time T1) < e \<longrightarrow> q e = map timer_event.truncate (pending T1 e)"
      using T1(3,4) Cons.prems(4) by simp
    have w: "within_range ops (unat (time T1))" using Cons.prems(3) T1(3) Tick by simp
    have "q (unat (time T) + 1) = map timer_event.truncate (pending T (unat (time T) + 1))"
      using Cons.prems(4) t by simp
    then show ?thesis
      using Cons.IH [OF T1(2) now w q] T1(1,3) Cons.prems(2) by (simp add: Tick dispatch_list_deliver)
  qed
qed

lemma timer_init_ok:
  "wheel_ok (skynet_timer_init sec cs pt)" "time (skynet_timer_init sec cs pt) = 0"
  "e < 2 ^ 32 \<Longrightarrow> pending (skynet_timer_init sec cs pt) e = []"
proof -
  have none: "nodes_at (skynet_timer_init sec cs pt) p = []" if "valid_place p" for p
    using that by (cases p) (simp_all add: skynet_timer_init_def timer_create_timer_def del: replicate.simps)
  moreover have "shape (skynet_timer_init sec cs pt)"
    by (simp add: shape_def skynet_timer_init_def timer_create_timer_def del: replicate.simps)
  ultimately show "wheel_ok (skynet_timer_init sec cs pt)" by (simp add: wheel_ok_def)
  show t: "time (skynet_timer_init sec cs pt) = 0"
    by (simp add: skynet_timer_init_def timer_create_timer_def)
  show "pending (skynet_timer_init sec cs pt) e = []" if "e < 2 ^ 32"
    using none [OF place_valid [of 0 e]] that t by (simp add: pending_def)
qed

section \<open>The properties\<close>

text \<open>
  C11: The timer wheel delivers on time: for every sequence of time-outs and ticks that stays below
  \<open>2 ^ 31\<close> centiseconds, the messages it pushes, in their order, are those of the specification
  in which an event set at tick \<open>t\<close> for \<open>d\<close> ticks is delivered at tick \<open>t + d\<close>, after those set
  for that tick before it, and a zero time-out is delivered at once.  The cascade always ends and
  stays inside the wheel's arrays.
\<close>

theorem timer_delivers_on_time:
  assumes "within_range ops 0"
  shows "\<exists>T'. timer_run push ops (skynet_timer_init sec cs pt, w) = Some (T', spec_run push ops 0 (\<lambda>_. []) w)"
  using timer_run_refines [OF timer_init_ok(1), of sec cs pt ops "\<lambda>_. []" push w] assms
  by (auto simp: timer_init_ok)

lemma timer_delivers_on_time_witness:
  "\<exists>T'. timer_run (\<lambda>h (m :: unit option skynet_message) w. (0, w @ [(h, msg_session m)]))
     [Timeout 5 1 2, Timeout 6 2 1, Tick, Timeout 7 3 1, Tick] (skynet_timer_init 0 0 0, []) =
     Some (T', [(6, 2), (5, 1), (7, 3)])"
proof -
  have "within_range [Timeout 5 1 2, Timeout 6 2 1, Tick, Timeout 7 3 1, Tick] 0" by simp
  moreover have "spec_run (\<lambda>h (m :: unit option skynet_message) w. (0, w @ [(h, msg_session m)]))
     [Timeout 5 1 2, Timeout 6 2 1, Tick, Timeout 7 3 1, Tick] 0 (\<lambda>_. []) [] = [(6, 2), (5, 1), (7, 3)]"
    by (simp add: deliver_def timeout_message_def)
  ultimately show ?thesis
    using timer_delivers_on_time [of "[Timeout 5 1 2, Timeout 6 2 1, Tick, Timeout 7 3 1, Tick]"
        "\<lambda>h (m :: unit option skynet_message) w. (0, w @ [(h, msg_session m)])" 0 0 0 "[]"] by simp
qed

fun due :: "(nat \<Rightarrow> 'a list) \<Rightarrow> nat \<Rightarrow> nat \<Rightarrow> 'a list" where
  "due q t 0 = []"
| "due q t (Suc n) = q (t + 1) @ due q (t + 1) n"

lemma due_cong: "(\<And>e. t < e \<Longrightarrow> e \<le> t + n \<Longrightarrow> q e = q' e) \<Longrightarrow> due q t n = due q' t n"
  by (induction n arbitrary: t) auto

lemma timer_updates_ok:
  assumes "wheel_ok T" "pending T (unat (time T)) = []" "unat (time T) + n < 2 ^ 31"
  shows "\<exists>T'. timer_updates push n (T, w) =
      Some (T', dispatch_list push (due (pending T) (unat (time T)) n) w) \<and>
    wheel_ok T' \<and> unat (time T') = unat (time T) + n \<and> clocks T' = clocks T"
  using assms
proof (induction n arbitrary: T w)
  case (Suc n)
  let ?t = "unat (time T)"
  obtain T1 where T1: "timer_update push (T, w) = Some (T1, dispatch_list push (pending T ?t @ pending T (?t + 1)) w)"
      "wheel_ok T1" "unat (time T1) = ?t + 1" "clocks T1 = clocks T"
      "\<forall>e < 2 ^ 32. unat (time T1) \<le> e \<longrightarrow> pending T1 e = (if e = unat (time T1) then [] else pending T e)"
    using timer_update_ok [OF Suc.prems(1), of push w] Suc.prems(3) by auto
  let ?w = "dispatch_list push (pending T ?t @ pending T (?t + 1)) w"
  have pre: "pending T1 (unat (time T1)) = []" "unat (time T1) + n < 2 ^ 31"
    using T1(3,5) Suc.prems(3) by simp_all
  have "due (pending T1) (?t + 1) n = due (pending T) (?t + 1) n"
    using T1(3,5) Suc.prems(3) by (intro due_cong) auto
  then show ?case
    using Suc.IH [OF T1(2) pre, of ?w] T1(1,3,4) Suc.prems(2) by (simp add: dispatch_list_append)
qed simp

text \<open>
  Each call of \<open>skynet_updatetime\<close> catches up with the clock: when \<open>diff\<close> centiseconds have
  passed it makes \<open>diff\<close> ticks, delivers what was due at each of them in order, and
  \<open>skynet_gettime\<close> has advanced by exactly \<open>diff\<close> (wrapping at \<open>2 ^ 32\<close>).
\<close>

theorem updatetime_catches_up:
  assumes "wheel_ok T" "pending T (unat (time T)) = []"
    and "cp = current_point T + of_nat diff" "0 < diff" "unat (time T) + diff < 2 ^ 31"
    and "unat (current_point T) + diff < 2 ^ 64"
  shows "\<exists>T'. skynet_updatetime push cp (T, w) =
      Some (T', dispatch_list push (due (pending T) (unat (time T)) diff) w) \<and>
    wheel_ok T' \<and> unat (time T') = unat (time T) + diff \<and> current_point T' = cp \<and>
    skynet_gettime T' = skynet_gettime T + of_nat diff"
proof -
  have ucp: "unat cp = unat (current_point T) + diff"
    using assms(3,6) by (simp add: unat_word_ariths unat_of_nat)
  have ge: "\<not> cp < current_point T" "cp \<noteq> current_point T"
    using ucp assms(4) by (auto simp: word_less_nat_alt)
  have diff: "ucast (cp - current_point T) = (of_nat diff :: u32)"
  proof (rule word_unat_eq_iff [THEN iffD2])
    show "unat (ucast (cp - current_point T) :: u32) = unat (of_nat diff :: u32)"
      using assms(3,5) by (simp add: unsigned_ucast_eq unat_of_nat take_bit_eq_mod)
  qed
  have n: "unat (of_nat diff :: u32) = diff" using assms(5) by (simp add: unat_of_nat)
  define T1 where "T1 = (let oc = current T; T = T\<lparr>current_point := cp, current := current T + of_nat diff\<rparr>
    in if current T < oc then T\<lparr>starttime := starttime T + 0xffffffff div 100\<rparr> else T)"
  have T1: "time T1 = time T" "current_point T1 = cp" "current T1 = current T + of_nat diff" "shape T1 = shape T"
    "nodes_at T1 p = nodes_at T p" for p
    by (cases p; simp add: T1_def Let_def shape_def)+
  have "wheel_ok T1" "pending T1 e = pending T e" for e
    using assms(1) by (simp_all add: wheel_ok_def pending_def T1)
  then have "wheel_ok T1" "pending T1 = pending T" by auto
  moreover have "skynet_updatetime push cp (T, w) = timer_updates push diff (T1, w)"
    using ge by (simp add: skynet_updatetime_def diff n T1_def Let_def)
  ultimately show ?thesis
    using timer_updates_ok [of T1 diff push w] assms(2,5) T1 by (auto simp: clocks_def skynet_gettime_def)
qed

lemma updatetime_catches_up_witness:
  "\<exists>T'. skynet_updatetime (\<lambda>h (m :: unit option skynet_message) w. (0, w + 1)) 103 (skynet_timer_init 7 50 100, 0 :: nat) = Some (T', 0) \<and>
    unat (time T') = 3 \<and> skynet_gettime T' = 53"
proof -
  let ?T = "skynet_timer_init 7 50 100"
  let ?push = "\<lambda>h (m :: unit option skynet_message) w. (0, w + 1 :: nat)"
  have "current_point ?T = 100" "skynet_gettime ?T = 50"
    by (simp_all add: skynet_timer_init_def skynet_gettime_def)
  moreover have "due (pending ?T) 0 3 = []" by (simp add: numeral_3_eq_3 timer_init_ok)
  ultimately show ?thesis
    using updatetime_catches_up [OF timer_init_ok(1), of 7 50 100 103 3 ?push 0]
    by (auto simp: timer_init_ok)
qed

text \<open>
  A negative time-out, which \<open>skynet_command\<close> passes on unchecked, can index one cell before a
  level of the wheel: 256 centiseconds after the start, a time-out of -1 does.
\<close>

theorem timer_negative_timeout:
  "\<exists>T. timer_run push (replicate 256 Tick) (skynet_timer_init sec cs pt, w) = Some (T, w) \<and>
     skynet_timeout push h (-1) s (T, w) = None"
proof -
  have ticks: "\<exists>T'. timer_run push (replicate n Tick) (T, w) = Some (T', w) \<and> unat (time T') = unat (time T) + n"
    if "wheel_ok T" "\<forall>e < 2 ^ 32. unat (time T) \<le> e \<longrightarrow> pending T e = []" "unat (time T) + n < 2 ^ 31" for n T
    using that
  proof (induction n arbitrary: T)
    case (Suc n)
    obtain T1 where T1: "timer_update push (T, w) =
          Some (T1, dispatch_list push (pending T (unat (time T)) @ pending T (unat (time T) + 1)) w)"
        "wheel_ok T1" "unat (time T1) = unat (time T) + 1"
        "\<forall>e < 2 ^ 32. unat (time T1) \<le> e \<longrightarrow> pending T1 e = (if e = unat (time T1) then [] else pending T e)"
      using timer_update_ok [OF Suc.prems(1), of push w] Suc.prems(3) by auto
    then show ?case using Suc.IH [of T1] Suc.prems by auto
  qed simp
  obtain T where T: "timer_run push (replicate 256 Tick) (skynet_timer_init sec cs pt, w) = Some (T, w)"
      "unat (time T) = 256"
    using ticks [OF timer_init_ok(1), of sec cs pt 256] by (auto simp: timer_init_ok)
  have t: "time T = 256" using T(2) by (intro word_unat_eq_iff [THEN iffD2]) simp
  have "add_level 255 256 (push_bit TIME_LEVEL_SHIFT TIME_NEAR) 0 = 0"
    by (simp add: add_level_level level_def)
  then have "add_node \<lparr>te_handle = h, te_session = s, expire = 255\<rparr> T = None"
    by (simp add: add_node_def t wheel_masks Let_def mask_numeral)
  then have "skynet_timeout push h (-1) s (T, w) = None"
    by (simp add: skynet_timeout_def timer_add_def t)
  then show ?thesis using T(1) by blast
qed

text \<open>
  When the 32-bit clock wraps round to 0, the cascade loop of \<open>timer_shift\<close> never ends (its mask
  has been shifted out and every digit of the clock is 0): the timer thread hangs.
\<close>

theorem timer_wrap_hangs:
  assumes "time T = -1"
  shows "timer_shift T = None"
proof -
  have hang: "time T' = 0 \<longrightarrow> tm = 0 \<longrightarrow> False" if "shift_loop m tm i T' = Some T''" for m tm i T' T''
  proof (rule shift_loop.raw_induct [OF _ that, of "\<lambda>m tm i T' T''. time T' = 0 \<longrightarrow> tm = 0 \<longrightarrow> False"])
    fix f :: "i32 \<Rightarrow> i32 \<Rightarrow> nat \<Rightarrow> timer \<Rightarrow> timer option" and m tm i T T'
    assume hyp: "\<And>m tm i T T'. f m tm i T = Some T' \<Longrightarrow> time T = 0 \<longrightarrow> tm = 0 \<longrightarrow> False"
      and body: "(if time T AND (m - 1) = 0 then
          let idx = sint (tm AND TIME_LEVEL_MASK)
          in if idx \<noteq> 0 then c_assert (i < 4) \<bind> (\<lambda>_. let idx = idx - 1; (nodes, ls) = link_clear (nat idx) (levels T ! i)
               in add_nodes nodes (T\<lparr>levels := (levels T)[i := ls]\<rparr>))
             else f (push_bit TIME_LEVEL_SHIFT m) (signed_drop_bit TIME_LEVEL_SHIFT tm) (i + 1) T
        else Some T) = Some T'"
    show "time T = 0 \<longrightarrow> tm = 0 \<longrightarrow> False"
    proof (intro impI)
      assume z: "time T = 0" "tm = 0"
      have s0: "signed_drop_bit TIME_LEVEL_SHIFT (0 :: i32) = 0" by (rule bit_eqI) (simp add: bit_simps)
      have "f (push_bit TIME_LEVEL_SHIFT m) (signed_drop_bit TIME_LEVEL_SHIFT tm) (i + 1) T = Some T'"
        using body by (simp add: z)
      then show False using hyp s0 z by metis
    qed
  qed
  have s0: "signed_drop_bit TIME_NEAR_SHIFT (0 :: i32) = 0" by (rule bit_eqI) (simp add: bit_simps)
  then show ?thesis
    using hang [of TIME_NEAR 0 0 "T\<lparr>time := 0\<rparr>"] assms
    by (cases "timer_shift T") (simp_all add: timer_shift_def)
qed

lemma timer_wrap_hangs_witness: "timer_shift (timer_create_timer\<lparr>time := -1\<rparr>) = None"
  by (rule timer_wrap_hangs) simp

end
