(* ===== verification/Multicast.thy ===== *)
theory Multicast
  imports HandleTable
begin

text \<open>
  \<open>skynet-src/skynet_multicast.c\<close>: the reference-counted multicast message and the multicast
  group, a sorted array of handles with two queues of pending changes that \<open>combine_queue\<close>
  merges in place.  Cells that \<open>realloc\<close> adds are \<open>None\<close> until they are written, and
  reading one is an error.  An index that the C code runs down to -1 is kept as index + 1.
\<close>

section \<open>Arrays and groups\<close>

record u32array =
  arr_cap :: nat
  arr_data :: "u32 list"

record skynet_multicast_group =
  enter_queue :: u32array
  leave_queue :: u32array
  grp_cap :: nat
  grp_number :: nat
  grp_data :: "u32 option list"

text \<open>\<open>number\<close> of an array is the length of \<open>arr_data\<close>; the cells behind it are never read.\<close>

definition push_array :: "u32 \<Rightarrow> u32array \<Rightarrow> u32array" where
  "push_array v a =
     (let a = (if arr_cap a \<le> length (arr_data a)
               then a\<lparr>arr_cap := (if arr_cap a * 2 = 0 then 4 else arr_cap a * 2)\<rparr> else a)
      in a\<lparr>arr_data := arr_data a @ [v]\<rparr>)"

definition skynet_multicast_newgroup :: skynet_multicast_group where
  "skynet_multicast_newgroup =
     \<lparr>enter_queue = \<lparr>arr_cap = 0, arr_data = []\<rparr>, leave_queue = \<lparr>arr_cap = 0, arr_data = []\<rparr>,
      grp_cap = 0, grp_number = 0, grp_data = []\<rparr>"

definition skynet_multicast_entergroup :: "u32 \<Rightarrow> skynet_multicast_group \<Rightarrow> skynet_multicast_group" where
  "skynet_multicast_entergroup handle g = g\<lparr>enter_queue := push_array handle (enter_queue g)\<rparr>"

definition skynet_multicast_leavegroup :: "u32 \<Rightarrow> skynet_multicast_group \<Rightarrow> skynet_multicast_group" where
  "skynet_multicast_leavegroup handle g = g\<lparr>leave_queue := push_array handle (leave_queue g)\<rparr>"

section \<open>\<open>combine_queue\<close>\<close>

text \<open>The comparison of \<open>qsort\<close>, and \<open>qsort\<close> itself as an insertion sort that calls it.\<close>

definition compar_uint :: "u32 \<Rightarrow> u32 \<Rightarrow> int" where
  "compar_uint a b = sint (a - b)"

fun qsort_insert :: "('a \<Rightarrow> 'a \<Rightarrow> int) \<Rightarrow> 'a \<Rightarrow> 'a list \<Rightarrow> 'a list" where
  "qsort_insert cmp x [] = [x]"
| "qsort_insert cmp x (y # ys) = (if cmp x y \<le> 0 then x # y # ys else y # qsort_insert cmp x ys)"

definition qsort :: "('a \<Rightarrow> 'a \<Rightarrow> int) \<Rightarrow> 'a list \<Rightarrow> 'a list" where
  "qsort cmp xs = foldr (qsort_insert cmp) xs []"

text \<open>The merge of the sorted enter queue, from the top down.\<close>

function enter_loop :: "u32 list \<Rightarrow> nat \<Rightarrow> nat \<Rightarrow> nat \<Rightarrow> u32 \<Rightarrow> u32 option list \<Rightarrow>
    (nat \<times> nat \<times> u32 option list) option" where
  "enter_loop enterq i old_index new_index last' data =
     (if i = 0 then Some (old_index, new_index, data)
      else
        let handle = enterq ! (i - 1) in
        if handle = last' then enter_loop enterq (i - 1) old_index new_index last' data
        else
          let last' = handle in
          if old_index = 0 then
            enter_loop enterq (i - 1) old_index (new_index - 1) last' (data[new_index - 1 := Some handle])
          else do {
            p \<leftarrow> data ! (old_index - 1);
            if handle = p then enter_loop enterq (i - 1) old_index new_index last' data
            else if p < handle then
              enter_loop enterq (i - 1) old_index (new_index - 1) last' (data[new_index - 1 := Some handle])
            else
              enter_loop enterq i (old_index - 1) (new_index - 1) 0 (data[new_index - 1 := data ! (old_index - 1)])
          })"
  by pat_completeness auto

termination
  by (relation "measure (\<lambda>(_, i, old, _). i + old)") auto

declare enter_loop.simps [simp del]

text \<open>\<open>while (old_index >= 0)\<close>: what is left of the old members moves up.\<close>

fun move_old :: "nat \<Rightarrow> nat \<Rightarrow> u32 option list \<Rightarrow> nat \<times> u32 option list" where
  "move_old 0 new_index data = (new_index, data)"
| "move_old (Suc old_index) new_index data =
     move_old old_index (new_index - 1) (data[new_index - 1 := data ! old_index])"

text \<open>The removal of the sorted leave queue; the last component collects the handles reported by \<open>skynet_error\<close>.\<close>

function leave_loop :: "u32 list \<Rightarrow> nat \<Rightarrow> nat \<Rightarrow> nat \<Rightarrow> nat \<Rightarrow> int \<Rightarrow> u32 option list \<Rightarrow> u32 list \<Rightarrow>
    (nat \<times> nat \<times> int \<times> u32 option list \<times> u32 list) option" where
  "leave_loop leaveq new_size i old_index new_index cnt data errs =
     (if i < length leaveq then
        if new_size \<le> old_index then Some (old_index, new_index, 0, data, errs)
        else
          let handle = leaveq ! i in do {
            p \<leftarrow> data ! old_index;
            if handle = p then leave_loop leaveq new_size (i + 1) (old_index + 1) new_index (cnt - 1) data errs
            else if p < handle then
              leave_loop leaveq new_size i (old_index + 1) (new_index + 1) cnt (data[new_index := data ! old_index]) errs
            else leave_loop leaveq new_size (i + 1) old_index new_index cnt data (errs @ [handle])
          }
      else Some (old_index, new_index, cnt, data, errs))"
  by pat_completeness auto

termination
  by (relation "measure (\<lambda>(q, n, i, old, _). (length q - i) + (n - old))") auto

declare leave_loop.simps [simp del]

text \<open>\<open>while (new_index < cnt)\<close>: the members behind the last removal move down.\<close>

function move_down :: "nat \<Rightarrow> nat \<Rightarrow> int \<Rightarrow> u32 option list \<Rightarrow> nat \<times> u32 option list" where
  "move_down old_index new_index cnt data =
     (if int new_index < cnt
      then move_down (old_index + 1) (new_index + 1) cnt (data[new_index := data ! old_index])
      else (new_index, data))"
  by pat_completeness auto

termination
  by (relation "measure (\<lambda>(_, new, cnt, _). nat (cnt - int new))") auto

declare move_down.simps [simp del]

definition combine_queue :: "skynet_multicast_group \<Rightarrow> (skynet_multicast_group \<times> u32 list) option" where
  "combine_queue grp =
     (let enterq = qsort compar_uint (arr_data (enter_queue grp));
          leaveq = qsort compar_uint (arr_data (leave_queue grp));
          enter = length enterq;
          new_size = grp_number grp + enter;
          (cap, data) = (if grp_cap grp < new_size
                         then (new_size, grp_data grp @ replicate (new_size - grp_cap grp) None)
                         else (grp_cap grp, grp_data grp))
      in do {
        (old_index, new_index, data) \<leftarrow> enter_loop enterq enter (grp_number grp) new_size 0 data;
        let (new_index, data) = move_old old_index new_index data;
        let old_index = new_index;
        (old_index, new_index, cnt, data, errs) \<leftarrow>
          leave_loop leaveq new_size 0 old_index 0 (int new_size - int old_index) data [];
        let (new_index, data) = move_down old_index new_index cnt data;
        Some (grp\<lparr>enter_queue := (enter_queue grp)\<lparr>arr_data := []\<rparr>,
                    leave_queue := (leave_queue grp)\<lparr>arr_data := []\<rparr>,
                    grp_cap := cap, grp_data := data, grp_number := new_index\<rparr>, errs)
      })"

section \<open>Sorting handles of one harbor\<close>

lemma qsort_insert_props:
  assumes "\<And>x y. x \<in> S \<Longrightarrow> y \<in> S \<Longrightarrow> (cmp x y \<le> 0) = (x \<le> y)" "x \<in> S" "set xs \<subseteq> S" "sorted xs"
  shows "set (qsort_insert cmp x xs) = insert x (set xs) \<and> sorted (qsort_insert cmp x xs)"
  using assms(3,4) by (induction xs) (use assms(1,2) in \<open>auto dest: order_less_imp_le simp: not_le\<close>)

lemma qsort_props:
  fixes S :: "'a::linorder set"
  assumes cmp: "\<And>x y. x \<in> S \<Longrightarrow> y \<in> S \<Longrightarrow> (cmp x y \<le> 0) = (x \<le> y)" and xs: "set xs \<subseteq> S"
  shows "set (qsort cmp xs) = set xs" "sorted (qsort cmp xs)"
proof -
  have "set (qsort cmp xs) = set xs \<and> sorted (qsort cmp xs)"
    using xs
  proof (induction xs)
    case (Cons x xs)
    then show ?case
      using qsort_insert_props [of S cmp x "qsort cmp xs"] cmp by (simp add: qsort_def)
  qed (simp add: qsort_def)
  then show "set (qsort cmp xs) = set xs" "sorted (qsort cmp xs)" by auto
qed

lemma length_qsort [simp]: "length (qsort cmp xs) = length xs"
proof -
  have "length (qsort_insert cmp x ys) = Suc (length ys)" for x ys by (induction ys) auto
  then show ?thesis by (induction xs) (simp_all add: qsort_def)
qed

text \<open>The handles of one node share the top byte; the comparison is right on such a window.\<close>

definition same_harbor :: "u32 set \<Rightarrow> bool" where
  "same_harbor S \<longleftrightarrow> (\<exists>h. \<forall>x \<in> S. drop_bit HANDLE_REMOTE_SHIFT x = h)"

lemma div_eq_diff:
  assumes "(a::nat) div m = b div m" "0 < m"
  shows "a - b < m"
proof -
  have "a - b \<le> a - a div m * m"
    using assms(1) div_times_less_eq_dividend [of b m] by (simp add: diff_le_mono2)
  also have "\<dots> = a mod m" by (simp add: minus_div_mult_eq_mod)
  finally show ?thesis using assms(2) by (meson le_less_trans mod_less_divisor)
qed

lemma compar_uint_window:
  assumes "drop_bit HANDLE_REMOTE_SHIFT x = drop_bit HANDLE_REMOTE_SHIFT y"
  shows "compar_uint x y \<le> 0 \<longleftrightarrow> x \<le> y"
proof -
  have eq: "unat x div 2 ^ 24 = unat y div 2 ^ 24"
    using assms unat_drop [of 24 x] unat_drop [of 24 y] by (simp add: HANDLE_REMOTE_SHIFT_def del: drop_bit_eq_div)
  have pos: "sint (a - b) = int (unat a - unat b)" if "unat b \<le> unat a" "unat a div 2 ^ 24 = unat b div 2 ^ 24" for a b :: u32
  proof -
    have "unat a - unat b < 2 ^ 24"
      using div_eq_diff [OF that(2)] by simp
    moreover have "unat (a - b) = unat a - unat b" using that(1) by (simp add: unat_sub word_le_nat_alt)
    ultimately have "unat (a - b) < 2 ^ (LENGTH(32) - 1)" by simp
    then have "sint (a - b) = int (unat (a - b))" by (rule sint_eq_unat)
    then show ?thesis using \<open>unat (a - b) = unat a - unat b\<close> by simp
  qed
  show ?thesis
  proof (cases "unat y \<le> unat x")
    case True
    then have "sint (x - y) \<le> 0 \<longleftrightarrow> unat x \<le> unat y" using pos [OF True eq] by linarith
    then show ?thesis by (simp only: compar_uint_def word_le_nat_alt)
  next
    case False
    then have "sint (y - x) = int (unat y - unat x)" using pos [of x y] eq by simp
    moreover have "sint (- (y - x)) = - sint (y - x)"
    proof -
      have "unat y - unat x < 2 ^ 31" using div_eq_diff [of "unat y" "2 ^ 24" "unat x"] eq by simp
      then have "sint (of_int (- int (unat y - unat x)) :: u32) = - int (unat y - unat x)"
        by (subst signed_of_int) (simp add: signed_take_bit_int_eq_self)
      moreover have "- (y - x) = (of_int (- int (unat y - unat x)) :: u32)"
        using False by (simp add: of_nat_diff)
      ultimately show ?thesis using \<open>sint (y - x) = int (unat y - unat x)\<close> by simp
    qed
    moreover have "x \<le> y" using False by (simp add: word_le_nat_alt)
    ultimately show ?thesis using False by (simp add: compar_uint_def word_le_def)
  qed
qed

lemma qsort_handles:
  assumes "same_harbor (set xs)"
  shows "set (qsort compar_uint xs) = set xs" "sorted (qsort compar_uint xs)"
  using qsort_props [of "set xs" compar_uint xs] compar_uint_window assms
  by (auto simp: same_harbor_def)

section \<open>The merge\<close>

lemma drop_write:
  "0 < new \<Longrightarrow> new \<le> length data \<Longrightarrow> drop (new - 1) (data[new - 1 := x]) = x # drop new data"
  by (cases new) (simp_all add: Cons_nth_drop_Suc [symmetric])

lemma move_old_correct:
  assumes "old \<le> new" "new \<le> length (take n data)"
  shows "\<exists>data'. move_old old new data = (new - old, data') \<and> length data' = length data \<and>
    drop (new - old) (take n data') = take old (take n data) @ drop new (take n data)"
  using assms
proof (induction old arbitrary: new data)
  case 0
  then show ?case by simp
next
  case (Suc old)
  let ?data = "data[new - 1 := data ! old]"
  obtain data' where d: "move_old old (new - 1) ?data = (new - 1 - old, data')" "length data' = length ?data"
      "drop (new - 1 - old) (take n data') = take old (take n ?data) @ drop (new - 1) (take n ?data)"
  proof -
    have "old \<le> new - 1" "new - 1 \<le> length (take n ?data)" using Suc.prems by auto
    from Suc.IH [OF this] show ?thesis by (elim exE conjE) (rule that)
  qed
  have t: "take old (take n ?data) = take old (take n data)" using Suc.prems(1) by (simp add: take_update_swap [of n])
  have dr: "drop (new - 1) (take n ?data) = data ! old # drop new (take n data)"
    using drop_write [of new "take n data" "data ! old"] Suc.prems by (simp add: take_update_swap [of n])
  have tk: "take (Suc old) (take n data) = take old (take n data) @ [data ! old]"
    using Suc.prems take_Suc_conv_app_nth [of old "take n data"] by simp
  have ix: "new - 1 - old = new - Suc old" by simp
  have "move_old (Suc old) new data = (new - Suc old, data')" using d(1) unfolding ix by simp
  moreover have "drop (new - Suc old) (take n data') = take (Suc old) (take n data) @ drop new (take n data)"
    using d(3) unfolding ix t dr tk by simp
  ultimately show ?case using d(2) by simp
qed

text \<open>
  The state of the merge: the first \<open>old\<close> cells still hold the old members \<open>O\<close>, the cells from
  \<open>new\<close> on the merged ones \<open>W\<close>; an entry that is already in \<open>W\<close> is \<open>last\<close>.
\<close>

definition merge_inv :: "u32 list \<Rightarrow> nat \<Rightarrow> nat \<Rightarrow> nat \<Rightarrow> u32 \<Rightarrow> u32 option list \<Rightarrow> u32 list \<Rightarrow> u32 list \<Rightarrow> bool" where
  "merge_inv enterq i old new last' data O' W \<longleftrightarrow>
     i \<le> length enterq \<and> sorted enterq \<and> 0 \<notin> set enterq \<and> length O' = old \<and> old + i \<le> new \<and> new \<le> length data \<and>
     take old data = map Some O' \<and> drop new data = map Some W \<and> sorted_wrt (<) (O' @ W) \<and>
     (\<forall>x \<in> set (take i enterq). \<forall>w \<in> set W. x \<le> w \<and> (x = w \<longrightarrow> x = last')) \<and>
     (last' \<noteq> 0 \<longrightarrow> last' \<in> set W \<union> set O')"

lemma merge_write:
  assumes "new \<le> length data" "old < new" "take old data = map Some O'" "drop new data = map Some W"
  shows "take old (data[new - 1 := Some h]) = map Some O'" "drop (new - 1) (data[new - 1 := Some h]) = map Some (h # W)"
proof -
  show "take old (data[new - 1 := Some h]) = map Some O'" using assms by simp
  have "drop (new - 1) (data[new - 1 := Some h]) = Some h # drop new data"
    using drop_write [of new data] assms(1,2) by simp
  then show "drop (new - 1) (data[new - 1 := Some h]) = map Some (h # W)" using assms(4) by simp
qed

lemma enter_step:
  assumes "i \<noteq> 0"
  shows "enter_loop enterq i old new last' data =
    (let h = enterq ! (i - 1) in
     if h = last' then enter_loop enterq (i - 1) old new last' data
     else if old = 0 then enter_loop enterq (i - 1) 0 (new - 1) h (data[new - 1 := Some h])
     else case data ! (old - 1) of None \<Rightarrow> None | Some p \<Rightarrow>
       if h = p then enter_loop enterq (i - 1) old new h data
       else if p < h then enter_loop enterq (i - 1) old (new - 1) h (data[new - 1 := Some h])
       else enter_loop enterq i (old - 1) (new - 1) 0 (data[new - 1 := Some p]))"
  using assms by (subst enter_loop.simps) (simp add: Let_def split: option.split)

text \<open>The four moves of the merge keep its invariant.\<close>

lemma merge_take:
  assumes "0 < i" "i \<le> length enterq" "sorted enterq"
  shows "take i enterq = take (i - 1) enterq @ [enterq ! (i - 1)]"
    and "\<forall>x \<in> set (take (i - 1) enterq). x \<le> enterq ! (i - 1)"
proof -
  show "take i enterq = take (i - 1) enterq @ [enterq ! (i - 1)]"
    using assms(1,2) by (cases i) (simp_all add: take_Suc_conv_app_nth)
  then have "sorted (take (i - 1) enterq @ [enterq ! (i - 1)])"
    using assms(3) by (metis sorted_wrt_take)
  then show "\<forall>x \<in> set (take (i - 1) enterq). x \<le> enterq ! (i - 1)"
    by (simp add: sorted_append)
qed

lemma merge_skip:
  assumes inv: "merge_inv enterq i old new last' data O' W" and i: "0 < i"
    and h: "h = enterq ! (i - 1)" "h \<in> set W \<union> set O'" and l: "l = h" "\<forall>w \<in> set W. h \<le> w"
  shows "merge_inv enterq (i - 1) old new l data O' W"
proof -
  note t = merge_take [of i enterq]
  have "x \<le> w \<and> (x = w \<longrightarrow> x = l)" if "x \<in> set (take (i - 1) enterq)" "w \<in> set W" for x w
    using that t(2) inv i h l by (force simp: merge_inv_def)
  then show ?thesis using inv i h l by (auto simp: merge_inv_def)
qed

lemma merge_place:
  assumes inv: "merge_inv enterq i old new last' data O' W" and i: "0 < i"
    and h: "h = enterq ! (i - 1)" "h \<noteq> last'" "\<forall>x \<in> set O'. x < h"
  shows "merge_inv enterq (i - 1) old (new - 1) h (data[new - 1 := Some h]) O' (h # W)"
proof -
  note t = merge_take [of i enterq]
  have b: "new \<le> length data" "old < new" "take old data = map Some O'" "drop new data = map Some W"
    "i \<le> length enterq" "sorted enterq"
    using inv i by (auto simp: merge_inv_def)
  have hin: "h \<in> set (take i enterq)" using t(1) i b(5,6) h(1) by simp
  have hw: "h < w" if "w \<in> set W" for w
    using inv hin that h(2) by (force simp: merge_inv_def)
  have "sorted_wrt (<) (O' @ h # W)"
    using inv h(3) hw by (auto simp: merge_inv_def sorted_wrt_append)
  moreover have "x \<le> w \<and> (x = w \<longrightarrow> x = h)" if "x \<in> set (take (i - 1) enterq)" "w \<in> set (h # W)" for x w
    using that t(2) i b(5,6) h(1) hw by (metis leD le_less_trans nless_le order.order_iff_strict set_ConsD)
  ultimately show ?thesis
    using inv i merge_write [OF b(1-4)] by (auto simp: merge_inv_def)
qed

lemma merge_copy:
  assumes inv: "merge_inv enterq i old new last' data (O' @ [p]) W" and i: "0 < i" and h: "enterq ! (i - 1) < p"
  shows "merge_inv enterq i (old - 1) (new - 1) 0 (data[new - 1 := Some p]) O' (p # W)"
proof -
  note t = merge_take [of i enterq]
  have b: "new \<le> length data" "old - 1 < new" "take old data = map Some (O' @ [p])" "drop new data = map Some W"
    "i \<le> length enterq" "sorted enterq" "length O' = old - 1" "0 < old" "old + i \<le> new"
    using inv i by (auto simp: merge_inv_def)
  have tk: "take (old - 1) data = map Some O'"
  proof -
    have "take (old - 1) (take old data) = map Some O'" using b(3,7) by simp
    then show ?thesis by (simp add: min_def)
  qed
  have lt: "x < p" if "x \<in> set (take i enterq)" for x
    using that t(1) t(2) i b(5,6) h by (metis Un_iff empty_iff le_less_trans list.set(1) set_ConsD set_append)
  have pw: "p < w" if "w \<in> set W" for w using inv that by (auto simp: merge_inv_def sorted_wrt_append)
  have srt: "sorted_wrt (<) (O' @ p # W)" using inv by (simp add: merge_inv_def)
  have le: "x \<le> w \<and> (x = w \<longrightarrow> x = 0)" if "x \<in> set (take i enterq)" "w \<in> set (p # W)" for x w
    using lt [OF that(1)] pw that(2) by (metis less_imp_le less_trans nless_le set_ConsD)
  show ?thesis
    using inv srt le merge_write [OF b(1,2) tk b(4), of p] b by (auto simp: merge_inv_def)
qed

lemma enter_loop_correct:
  assumes "merge_inv enterq i old new last' (take n data) O' W"
  shows "\<exists>old' new' data' O1 W1. enter_loop enterq i old new last' data = Some (old', new', data') \<and>
    length data' = length data \<and> old' \<le> new' \<and> new' \<le> length (take n data) \<and>
    take old' (take n data') = map Some O1 \<and> drop new' (take n data') = map Some W1 \<and>
    sorted_wrt (<) (O1 @ W1) \<and> set (O1 @ W1) = set O' \<union> set W \<union> set (take i enterq)"
  using assms
proof (induction "i + old" arbitrary: i old new last' data O' W rule: less_induct)
  case less
  show ?case
  proof (cases "i = 0")
    case True
    then show ?thesis
      using less.prems by (auto simp: merge_inv_def enter_loop.simps [of _ 0])
  next
    case False
    let ?h = "enterq ! (i - 1)"
    note t = merge_take [of i enterq]
    have b: "i \<le> length enterq" "sorted enterq" "0 \<notin> set enterq" "length O' = old" "old + i \<le> new" "new \<le> length (take n data)"
      "take old (take n data) = map Some O'"
      using less.prems by (auto simp: merge_inv_def)
    have tk: "take i enterq = take (i - 1) enterq @ [?h]" using t(1) False b(1,2) by simp
    have h0: "?h \<noteq> 0" using b(1,3) False nth_mem [of "i - 1" enterq] by (metis diff_less less_le_trans neq0_conv zero_less_one)
    have hw: "\<forall>w \<in> set W. ?h \<le> w" using less.prems tk by (simp add: merge_inv_def)
    have IH: ?thesis
      if "i' + old' < i + old" "merge_inv enterq i' old' new' l' (take n data') O1 W1"
        "enter_loop enterq i old new last' data = enter_loop enterq i' old' new' l' data'"
        "set O1 \<union> set W1 \<union> set (take i' enterq) = set O' \<union> set W \<union> set (take i enterq)" "length data' = length data"
      for i' old' new' l' data' O1 W1
      using less.hyps [OF that(1,2)] that(5) unfolding that(3,4) by simp
    consider "?h = last'" | "?h \<noteq> last'" "old = 0" | p O1 where "?h \<noteq> last'" "O' = O1 @ [p]" "0 < old"
      using b(4) by (cases O' rule: rev_cases) auto
    then show ?thesis
    proof cases
      case 1
      have hin: "?h \<in> set W \<union> set O'" using less.prems 1 h0 by (auto simp: merge_inv_def)
      show ?thesis
      proof (rule IH)
        show "merge_inv enterq (i - 1) old new last' (take n data) O' W"
          using merge_skip [OF less.prems _ refl hin _ hw] False 1 by simp
        show "enter_loop enterq i old new last' data = enter_loop enterq (i - 1) old new last' data"
          using enter_step [OF False] 1 by (simp add: Let_def)
      qed (use False tk hin in auto)
    next
      case 2
      then have "O' = []" using b(4) by simp
      show ?thesis
      proof (rule IH)
        show "merge_inv enterq (i - 1) old (new - 1) ?h (take n (data[new - 1 := Some ?h])) O' (?h # W)"
          using merge_place [OF less.prems _ refl 2(1)] False \<open>O' = []\<close> by (simp add: take_update_swap [of n])
        show "enter_loop enterq i old new last' data = enter_loop enterq (i - 1) old (new - 1) ?h (data[new - 1 := Some ?h])"
          using enter_step [OF False] 2 by (simp add: Let_def)
      qed (use False tk in auto)
    next
      case 3
      have srt: "\<forall>x \<in> set O1. x < p" using less.prems 3(2) by (simp add: merge_inv_def sorted_wrt_append)
      have p: "data ! (old - 1) = Some p"
      proof -
        have old: "old = Suc (length O1)" using b(4) 3(2) by simp
        have "take old (take n data) ! length O1 = Some p"
          using b(7) 3(2) nth_append_length [of "map Some O1" "Some p" "[]"] by simp
        then show ?thesis using old b(5,6) by simp
      qed
      consider "?h = p" | "p < ?h" | "?h < p" by (rule linorder_cases [of ?h p]) auto
      then show ?thesis
      proof cases
        case 31: 1
        have hin: "?h \<in> set W \<union> set O'" using 31 3(2) by simp
        show ?thesis
        proof (rule IH)
          show "merge_inv enterq (i - 1) old new ?h (take n data) O' W"
            using merge_skip [OF less.prems _ refl hin refl hw] False by simp
          show "enter_loop enterq i old new last' data = enter_loop enterq (i - 1) old new ?h data"
            using enter_step [OF False] 3(1,3) p 31 by (simp add: Let_def)
        qed (use False tk hin in auto)
      next
        case 32: 2
        then have neq: "?h \<noteq> p" and below: "\<forall>x \<in> set O'. x < ?h" using srt 3(2) by auto
        show ?thesis
        proof (rule IH)
          show "merge_inv enterq (i - 1) old (new - 1) ?h (take n (data[new - 1 := Some ?h])) O' (?h # W)"
            using merge_place [OF less.prems _ refl 3(1)] False below by (simp add: take_update_swap [of n])
          show "enter_loop enterq i old new last' data = enter_loop enterq (i - 1) old (new - 1) ?h (data[new - 1 := Some ?h])"
            using enter_step [OF False] 3(1,3) p 32 neq by (simp add: Let_def)
        qed (use False tk in auto)
      next
        case 33: 3
        then have neq: "?h \<noteq> p" "\<not> p < ?h" by auto
        show ?thesis
        proof (rule IH)
          show "merge_inv enterq i (old - 1) (new - 1) 0 (take n (data[new - 1 := Some p])) O1 (p # W)"
            using merge_copy [OF less.prems [unfolded 3(2)] _ 33] False by (simp add: take_update_swap [of n])
          show "enter_loop enterq i old new last' data = enter_loop enterq i (old - 1) (new - 1) 0 (data[new - 1 := Some p])"
            using enter_step [OF False] 3(1,3) p neq by (simp add: Let_def)
        qed (use 3 in auto)
      qed
    qed
  qed
qed

section \<open>The removal\<close>

lemma drop_take_Cons: "old < n \<Longrightarrow> n \<le> length data \<Longrightarrow> drop old (take n data) = data ! old # drop (Suc old) (take n data)"
  using Cons_nth_drop_Suc [of old "take n data"] by simp

lemma leave_loop_correct:
  assumes "sorted_wrt (<) R" "drop old (take size' data) = map Some R" "size' \<le> length data" "sorted leaveq"
    and "new \<le> old" "take new data = map Some K" "cnt = int (new + length R)"
    and "old \<le> size'"
  shows "\<exists>old' new' cnt' data' errs' R1 K1. leave_loop leaveq size' i old new cnt data errs = Some (old', new', cnt', data', errs') \<and>
    length data' = length data \<and> new' \<le> old' \<and> old' \<le> size' \<and> drop old' (take size' data') = map Some R1 \<and> take new' data' = map Some K1 \<and>
    (cnt' = int (new' + length R1) \<or> R1 = [] \<and> cnt' = 0) \<and>
    K1 @ R1 = K @ filter (\<lambda>x. x \<notin> set (drop i leaveq)) R"
  using assms
proof (induction leaveq size' i old new cnt data errs arbitrary: R K rule: leave_loop.induct)
  case (1 leaveq size' i old new cnt data errs)
  show ?case
  proof (cases "i < length leaveq")
    case False
    then show ?thesis
      using "1.prems" by (subst leave_loop.simps) auto
  next
    case True
    let ?h = "leaveq ! i"
    have dr: "drop i leaveq = ?h # drop (Suc i) leaveq" using True by (simp add: Cons_nth_drop_Suc)
    have ge: "?h \<le> x" if "x \<in> set (drop (Suc i) leaveq)" for x
    proof -
      have "sorted (?h # drop (Suc i) leaveq)" using "1.prems"(4) dr by (metis sorted_wrt_drop)
      then show ?thesis using that by simp
    qed
    show ?thesis
    proof (cases "size' \<le> old")
      case out: True
      then have "R = []" using "1.prems"(2,3) by simp
      then show ?thesis
        using "1.prems" True out by (subst leave_loop.simps) auto
    next
      case False
      then obtain p R' where R: "R = p # R'" using "1.prems"(2,3) by (cases R) auto
      have nth: "data ! old = Some p" "drop (Suc old) (take size' data) = map Some R'"
        using drop_take_Cons [of old size' data] "1.prems"(2,3) False R by simp_all
      have srt: "sorted_wrt (<) R'" "\<forall>x \<in> set R'. p < x" using "1.prems"(1) R by simp_all
      have keep: "filter (\<lambda>x. x \<notin> set (drop i leaveq)) xs = filter (\<lambda>x. x \<notin> set (drop (Suc i) leaveq)) xs"
        if "?h \<notin> set xs" for xs
        using that by (intro filter_cong) (auto simp: dr)
      consider "?h = p" | "p < ?h" | "?h < p" by (rule linorder_cases [of ?h p]) auto
      then show ?thesis
      proof cases
        case eq: 1
        have c: "cnt - 1 = int (new + length R')" using "1.prems"(7) R by simp
        have fil: "filter (\<lambda>x. x \<notin> set (drop i leaveq)) R = filter (\<lambda>x. x \<notin> set (drop (Suc i) leaveq)) R'"
          using keep [of R'] srt(2) eq R by (auto simp: dr)
        show ?thesis
          using "1.IH"(1) [OF True False refl nth(1) eq srt(1), of K] "1.prems"(3-6,8) nth(2) c eq True False nth(1)
          by (subst leave_loop.simps) (simp add: fil)
      next
        case lt: 2
        have neq: "?h \<noteq> p" using lt by simp
        let ?data = "data[new := data ! old]"
        have c: "cnt = int (Suc new + length R')" using "1.prems"(7) R by simp
        have d: "drop (Suc old) (take size' ?data) = map Some R'" using nth(2) "1.prems"(5) by (simp add: take_update_swap [of size'])
        have tk: "take (Suc new) ?data = map Some (K @ [p])"
          using "1.prems"(3,5,6) False nth(1) by (simp add: take_Suc_conv_app_nth)
        have "p \<notin> set (drop i leaveq)" using lt by (auto simp: dr dest!: ge)
        then have fil: "K @ filter (\<lambda>x. x \<notin> set (drop i leaveq)) R = (K @ [p]) @ filter (\<lambda>x. x \<notin> set (drop i leaveq)) R'"
          by (simp add: R)
        show ?thesis
          using "1.IH"(2) [OF True False refl nth(1) neq lt srt(1), of "K @ [p]"] "1.prems"(3-5,8) d tk c neq lt True False nth(1)
          by (subst leave_loop.simps) (simp add: fil)
      next
        case gt: 3
        have neq: "?h \<noteq> p" "\<not> p < ?h" using gt by auto
        have "?h \<notin> set R" using R gt srt(2) by auto
        then show ?thesis
          using "1.IH"(3) [OF True False refl nth(1) neq "1.prems"(1), of K] "1.prems"(2-8) neq gt True False nth(1) keep
          by (subst leave_loop.simps) simp
      qed
    qed
  qed
qed

lemma move_down_correct:
  assumes "drop old (take n data) = map Some R" "take new data = map Some K" "new \<le> old" "n \<le> length data"
    and "cnt = int (new + length R) \<or> R = [] \<and> cnt = 0"
  shows "\<exists>data'. move_down old new cnt data = (new + length R, data') \<and> length data' = length data \<and>
    take (new + length R) data' = map Some (K @ R)"
  using assms
proof (induction R arbitrary: old new data K)
  case Nil
  then show ?case by (subst move_down.simps) auto
next
  case (Cons p R)
  let ?data = "data[new := data ! old]"
  have "old < length (take n data)" using Cons.prems(1) by (metis drop_all list.discI list.simps(9) not_less)
  then have old: "old < n" "old < length data" by simp_all
  have nth: "data ! old = Some p" "drop (Suc old) (take n data) = map Some R"
    using drop_take_Cons [OF old(1) Cons.prems(4)] Cons.prems(1) by simp_all
  have d: "drop (Suc old) (take n ?data) = map Some R" using nth(2) Cons.prems(3) by (simp add: take_update_swap [of n])
  have tk: "take (Suc new) ?data = map Some (K @ [p])"
    using Cons.prems(2,3) old nth(1) by (simp add: take_Suc_conv_app_nth)
  have step: "move_down old new cnt data = move_down (old + 1) (new + 1) cnt ?data"
    using Cons.prems(5) by (subst move_down.simps) simp
  have "\<exists>data'. move_down (Suc old) (Suc new) cnt ?data = (Suc new + length R, data') \<and> length data' = length ?data \<and>
    take (Suc new + length R) data' = map Some ((K @ [p]) @ R)"
    using Cons.prems(3-5) by (intro Cons.IH d tk) auto
  then show ?case unfolding step by simp
qed

section \<open>The group as a set\<close>

definition members :: "skynet_multicast_group \<Rightarrow> u32 list" where
  "members g = map the (take (grp_number g) (grp_data g))"

definition group_ok :: "skynet_multicast_group \<Rightarrow> bool" where
  "group_ok g \<longleftrightarrow> grp_number g \<le> grp_cap g \<and> length (grp_data g) = grp_cap g \<and>
     None \<notin> set (take (grp_number g) (grp_data g)) \<and> sorted_wrt (<) (members g)"

lemma sorted_wrt_less_unique:
  fixes xs ys :: "'a::linorder list"
  shows "sorted_wrt (<) xs \<Longrightarrow> sorted_wrt (<) ys \<Longrightarrow> set xs = set ys \<Longrightarrow> xs = ys"
  by (metis sorted_distinct_set_unique strict_sorted_iff)

lemma combine_queue_merges:
  assumes "group_ok g" "0 \<notin> set (arr_data (enter_queue g))"
    and "same_harbor (set (arr_data (enter_queue g)))" "same_harbor (set (arr_data (leave_queue g)))"
  shows "\<exists>g' errs. combine_queue g = Some (g', errs) \<and> group_ok g' \<and>
    arr_data (enter_queue g') = [] \<and> arr_data (leave_queue g') = [] \<and>
    members g' = sorted_list_of_set (set (members g) \<union> set (arr_data (enter_queue g)) - set (arr_data (leave_queue g)))"
proof -
  let ?enterq = "qsort compar_uint (arr_data (enter_queue g))"
  let ?leaveq = "qsort compar_uint (arr_data (leave_queue g))"
  note qe = qsort_handles [OF assms(3)] and ql = qsort_handles [OF assms(4)]
  define size' where "size' = grp_number g + length ?enterq"
  define cap where "cap = max (grp_cap g) size'"
  define data where "data = grp_data g @ replicate (cap - grp_cap g) None"
  have g: "grp_number g \<le> grp_cap g" "length (grp_data g) = grp_cap g"
    "None \<notin> set (take (grp_number g) (grp_data g))" "sorted_wrt (<) (members g)"
    using assms(1) by (auto simp: group_ok_def)
  have len: "length data = cap" "size' \<le> cap" using g(2) by (auto simp: data_def cap_def)
  have tk: "take (grp_number g) data = map Some (members g)"
    using g(1,2) map_Some_the [OF g(3)] by (simp add: data_def members_def)
  have lm: "length (members g) = grp_number g" using g(1,2) by (simp add: members_def)
  have data_eq: "(if grp_cap g < size' then (size', grp_data g @ replicate (size' - grp_cap g) None)
      else (grp_cap g, grp_data g)) = (cap, data)"
    by (auto simp: cap_def data_def)
  have "merge_inv ?enterq (length ?enterq) (grp_number g) size' 0 (take size' data) (members g) []"
    using qe assms(2) lm len tk g(4) by (simp add: merge_inv_def size'_def min_def)
  from enter_loop_correct [OF this]
  obtain old1 new1 data1 O1 W1 where e: "enter_loop ?enterq (length ?enterq) (grp_number g) size' 0 data = Some (old1, new1, data1)"
      "length data1 = cap" "old1 \<le> new1" "new1 \<le> size'"
      "take old1 (take size' data1) = map Some O1" "drop new1 (take size' data1) = map Some W1" "sorted_wrt (<) (O1 @ W1)"
      "set (O1 @ W1) = set (members g) \<union> set ?enterq"
    using len by auto
  obtain data2 where m: "move_old old1 new1 data1 = (new1 - old1, data2)" "length data2 = cap"
      "drop (new1 - old1) (take size' data2) = map Some (O1 @ W1)"
    using move_old_correct [of old1 new1 size' data1] e len by auto
  let ?R = "O1 @ W1"
  have lR: "int size' - int (new1 - old1) = int (0 + length ?R)"
    using arg_cong [OF m(3), of length] m(2) len(2) e(3,4) by auto
  obtain old3 new3 cnt data3 errs R3 K3 where l: "leave_loop ?leaveq size' 0 (new1 - old1) 0 (int size' - int (new1 - old1)) data2 [] =
        Some (old3, new3, cnt, data3, errs)"
      "length data3 = cap" "new3 \<le> old3" "old3 \<le> size'" "drop old3 (take size' data3) = map Some R3" "take new3 data3 = map Some K3"
      "cnt = int (new3 + length R3) \<or> R3 = [] \<and> cnt = 0"
      "K3 @ R3 = filter (\<lambda>x. x \<notin> set ?leaveq) ?R"
    using leave_loop_correct [OF e(7) m(3) _ ql(2), of 0 "[]" "int size' - int (new1 - old1)" 0 "[]"] m(2) len(2) lR
    by auto
  obtain data4 where d: "move_down old3 new3 cnt data3 = (new3 + length R3, data4)" "length data4 = cap"
      "take (new3 + length R3) data4 = map Some (K3 @ R3)"
    using move_down_correct [OF l(5,6,3) _ l(7)] l(2) len(2) by auto
  define g' where "g' = g\<lparr>enter_queue := (enter_queue g)\<lparr>arr_data := []\<rparr>, leave_queue := (leave_queue g)\<lparr>arr_data := []\<rparr>,
    grp_cap := cap, grp_data := data4, grp_number := new3 + length R3\<rparr>"
  have run: "combine_queue g = Some (g', errs)"
    unfolding combine_queue_def Let_def size'_def [symmetric] data_eq g'_def
    using e(1) m(1) l(1) d(1) by simp
  have mem: "members g' = filter (\<lambda>x. x \<notin> set ?leaveq) ?R"
    using d(3) l(8) by (simp add: g'_def members_def o_def)
  have srt: "sorted_wrt (<) (members g')"
    unfolding mem using e(7) by (rule sorted_wrt_filter)
  have "new3 + length R3 \<le> cap"
    using arg_cong [OF l(5), of length] l(2,3,4) len(2) by auto
  then have "group_ok g'"
    using srt d by (simp add: group_ok_def g'_def)
  moreover have "members g' = sorted_list_of_set (set (members g) \<union> set (arr_data (enter_queue g)) - set (arr_data (leave_queue g)))"
  proof (rule sorted_wrt_less_unique [OF srt])
    show "set (members g') = set (sorted_list_of_set (set (members g) \<union> set (arr_data (enter_queue g)) - set (arr_data (leave_queue g))))"
      using e(8) qe(1) ql(1) by (auto simp: mem)
  qed simp
  ultimately show ?thesis using run by (auto simp: g'_def)
qed

text \<open>
  C12: \<open>combine_queue\<close>, an in-place merge over two sorted queues with duplicates, never reads an
  uninitialised or foreign cell, and leaves the group as the strictly sorted array of (old
  members and entered handles) without the left ones, with both queues empty.  The handles must
  be non-zero and of one node, for the order of \<open>compar_uint\<close>.
\<close>

theorem combine_queue_correct:
  assumes "group_ok g" "0 \<notin> set (arr_data (enter_queue g))"
    and "same_harbor (set (arr_data (enter_queue g)))" "same_harbor (set (arr_data (leave_queue g)))"
  shows "\<exists>g' errs. combine_queue g = Some (g', errs) \<and> group_ok g' \<and>
    arr_data (enter_queue g') = [] \<and> arr_data (leave_queue g') = [] \<and>
    members g' = sorted_list_of_set (set (members g) \<union> set (arr_data (enter_queue g)) - set (arr_data (leave_queue g)))"
  using assms by (rule combine_queue_merges)

end
