(* ===== verification/Cast.thy ===== *)
theory Cast
  imports Multicast
begin

text \<open>
  The life of a multicast message (\<open>skynet-src/skynet_multicast.c\<close>): its reference count, the two
  casts, and the receivers, which run in other threads and may dispatch their copy at any time
  after it was sent.  A schedule says how many copies are dispatched after each send.  Touching a
  freed message is \<open>None\<close>.
\<close>

section \<open>The message\<close>

record 'd skynet_multicast_message =
  mc_ref :: int
  mc_msg :: 'd
  mc_sz :: u64
  mc_source :: u32
  mc_freed :: bool

definition skynet_multicast_create :: "'d \<Rightarrow> u64 \<Rightarrow> u32 \<Rightarrow> 'd skynet_multicast_message" where
  "skynet_multicast_create msg sz source =
     \<lparr>mc_ref = 0, mc_msg = msg, mc_sz = sz, mc_source = source, mc_freed = False\<rparr>"

definition skynet_multicast_copy :: "int \<Rightarrow> 'd skynet_multicast_message \<Rightarrow> 'd skynet_multicast_message option" where
  "skynet_multicast_copy copy mc =
     (if mc_freed mc then None
      else let r = mc_ref mc + copy in Some (mc\<lparr>mc_ref := r, mc_freed := (r = 0)\<rparr>))"

definition skynet_multicast_dispatch ::
  "(u32 \<Rightarrow> 'd \<Rightarrow> u64 \<Rightarrow> 'w \<Rightarrow> 'w) option \<Rightarrow> 'd skynet_multicast_message \<Rightarrow> 'w \<Rightarrow> ('d skynet_multicast_message \<times> 'w) option" where
  "skynet_multicast_dispatch func msg w =
     (if mc_freed msg then None
      else
        let w = (case func of Some f \<Rightarrow> f (mc_source msg) (mc_msg msg) (mc_sz msg) w | None \<Rightarrow> w);
            ref = mc_ref msg - 1
        in Some (msg\<lparr>mc_ref := ref, mc_freed := (ref = 0)\<rparr>, w))"

section \<open>Sending to many\<close>

text \<open>\<open>inbox\<close>: the copies sent and not yet dispatched; \<open>sent\<close>: the contexts they were sent to.\<close>

record ('c, 'd) cast_state =
  cs_mc :: "'d skynet_multicast_message"
  inbox :: nat
  sent :: "('c \<times> unit skynet_message) list"

fun receivers :: "nat \<Rightarrow> ('c, 'd) cast_state \<Rightarrow> ('c, 'd) cast_state option" where
  "receivers 0 s = Some s"
| "receivers (Suc k) s =
     (if inbox s = 0 then Some s
      else do {
        (mc, _) \<leftarrow> skynet_multicast_dispatch None (cs_mc s) ();
        receivers k (s\<lparr>cs_mc := mc, inbox := inbox s - 1\<rparr>)
      })"

definition multicast_smsg :: "u32 \<Rightarrow> unit skynet_message" where
  "multicast_smsg source =
     \<lparr>msg_source = source, msg_session = 0, msg_data = (),
      msg_sz = 0 OR ucast (push_bit HANDLE_REMOTE_SHIFT PTYPE_MULTICAST)\<rparr>"

text \<open>The loop of both casts; \<open>gone\<close> collects the handles that no longer resolve.\<close>

fun cast_loop :: "'c handle_state \<Rightarrow> u32 \<Rightarrow> (nat \<Rightarrow> nat) \<Rightarrow> u32 list \<Rightarrow> ('c, 'd) cast_state \<Rightarrow> u32 list \<Rightarrow>
    (('c, 'd) cast_state \<times> u32 list) option" where
  "cast_loop st source sched [] s gone = Some (s, gone)"
| "cast_loop st source sched (p # ps) s gone =
     (case skynet_handle_grab p st of
        Some ctx \<Rightarrow> do {
          s \<leftarrow> receivers (sched (length (sent s)))
                 (s\<lparr>inbox := inbox s + 1, sent := sent s @ [(ctx, multicast_smsg source)]\<rparr>);
          cast_loop st source sched ps s gone
        }
      | None \<Rightarrow> cast_loop st source sched ps s (gone @ [p]))"

definition skynet_multicast_cast ::
  "'c handle_state \<Rightarrow> (nat \<Rightarrow> nat) \<Rightarrow> 'c \<Rightarrow> u32 list \<Rightarrow> 'd skynet_multicast_message \<Rightarrow> ('c, 'd) cast_state option" where
  "skynet_multicast_cast st sched from' dests msg = do {
     let source = snd st from';
     mc \<leftarrow> skynet_multicast_copy (int (length dests)) msg;
     let s = \<lparr>cs_mc = mc, inbox = 0, sent = []\<rparr>;
     if length dests = 0 then Some s
     else do {
       (s, gone) \<leftarrow> cast_loop st source sched dests s [];
       if length gone \<noteq> 0 then do {
         mc \<leftarrow> skynet_multicast_copy (- int (length gone)) (cs_mc s);
         Some (s\<lparr>cs_mc := mc\<rparr>)
       } else Some s
     }
   }"

definition skynet_multicast_castgroup ::
  "'c handle_state \<Rightarrow> (nat \<Rightarrow> nat) \<Rightarrow> 'c \<Rightarrow> skynet_multicast_group \<Rightarrow> 'd skynet_multicast_message \<Rightarrow>
   (int \<times> skynet_multicast_group \<times> ('c, 'd) cast_state) option" where
  "skynet_multicast_castgroup st sched from' g msg = do {
     (g, _) \<leftarrow> combine_queue g;
     let s = \<lparr>cs_mc = msg, inbox = 0, sent = []\<rparr>;
     (s, gone) \<leftarrow>
       (if 0 < grp_number g then do {
          let source = snd st from';
          mc \<leftarrow> skynet_multicast_copy (int (grp_number g)) msg;
          cast_loop st source sched (map the (take (grp_number g) (grp_data g))) (s\<lparr>cs_mc := mc\<rparr>) []
        } else Some (s, []));
     let g = fold skynet_multicast_leavegroup gone g;
     mc \<leftarrow> skynet_multicast_copy (- int (length gone)) (cs_mc s);
     Some (int (grp_number g) - int (length gone), g, s\<lparr>cs_mc := mc\<rparr>)
   }"

section \<open>The count\<close>

text \<open>\<open>held\<close> references belong to copies not yet sent.\<close>

definition count_ok :: "nat \<Rightarrow> ('c, 'd) cast_state \<Rightarrow> bool" where
  "count_ok held s \<longleftrightarrow> mc_ref (cs_mc s) = int (inbox s + held) \<and> mc_freed (cs_mc s) = (inbox s + held = 0)"

lemma receivers_ok:
  assumes "count_ok held s"
  shows "\<exists>s'. receivers k s = Some s' \<and> count_ok held s' \<and> sent s' = sent s \<and> inbox s' = inbox s - k"
  using assms
proof (induction k arbitrary: s)
  case (Suc k)
  show ?case
  proof (cases "inbox s = 0")
    case False
    define mc where "mc = (cs_mc s)\<lparr>mc_ref := mc_ref (cs_mc s) - 1, mc_freed := (mc_ref (cs_mc s) - 1 = 0)\<rparr>"
    have "receivers (Suc k) s = receivers k (s\<lparr>cs_mc := mc, inbox := inbox s - 1\<rparr>)"
      using Suc.prems False by (simp add: skynet_multicast_dispatch_def count_ok_def mc_def)
    moreover have "count_ok held (s\<lparr>cs_mc := mc, inbox := inbox s - 1\<rparr>)"
      using Suc.prems False by (auto simp: count_ok_def mc_def)
    ultimately show ?thesis using Suc.IH [of "s\<lparr>cs_mc := mc, inbox := inbox s - 1\<rparr>"] by auto
  qed (use Suc.prems in auto)
qed auto

definition live :: "'c handle_state \<Rightarrow> u32 \<Rightarrow> bool" where
  "live st p \<longleftrightarrow> skynet_handle_grab p st \<noteq> None"

definition copies :: "'c handle_state \<Rightarrow> u32 \<Rightarrow> u32 list \<Rightarrow> ('c \<times> unit skynet_message) list" where
  "copies st source ps = map (\<lambda>p. (the (skynet_handle_grab p st), multicast_smsg source)) (filter (live st) ps)"

lemma cast_loop_ok:
  assumes "count_ok (length ps + length gone) s"
  shows "\<exists>s'. cast_loop st source sched ps s gone = Some (s', gone @ filter (\<lambda>p. \<not> live st p) ps) \<and>
    count_ok (length (gone @ filter (\<lambda>p. \<not> live st p) ps)) s' \<and> sent s' = sent s @ copies st source ps"
  using assms
proof (induction ps arbitrary: s gone)
  case (Cons p ps)
  show ?case
  proof (cases "skynet_handle_grab p st")
    case None
    then show ?thesis using Cons.IH [of "gone @ [p]" s] Cons.prems by (simp add: live_def copies_def)
  next
    case (Some ctx)
    let ?s = "s\<lparr>inbox := inbox s + 1, sent := sent s @ [(ctx, multicast_smsg source)]\<rparr>"
    have "count_ok (length ps + length gone) ?s" using Cons.prems by (simp add: count_ok_def)
    from receivers_ok [OF this, of "sched (length (sent s))"]
    obtain s1 where "receivers (sched (length (sent s))) ?s = Some s1" "count_ok (length ps + length gone) s1"
        "sent s1 = sent ?s"
      by blast
    then show ?thesis
      using Cons.IH [of gone s1] Some by (simp add: live_def copies_def)
  qed
qed (simp add: copies_def)

section \<open>The properties\<close>

text \<open>
  C14: However the receivers' dispatches interleave with \<open>skynet_multicast_cast\<close>, no freed message
  is touched; a copy is sent to every destination that resolves, in order; and when the cast
  returns, the reference count is the number of copies still to be dispatched, the message being
  freed exactly when there are none.
\<close>

theorem cast_safe:
  assumes "mc_ref msg = 0" "\<not> mc_freed msg"
  shows "\<exists>s. skynet_multicast_cast st sched from' dests msg = Some s \<and> sent s = copies st (snd st from') dests \<and>
    mc_ref (cs_mc s) = int (inbox s) \<and> (mc_freed (cs_mc s) = (inbox s = 0))"
proof -
  define mc where "mc = msg\<lparr>mc_ref := int (length dests), mc_freed := (int (length dests) = 0)\<rparr>"
  have copy: "skynet_multicast_copy (int (length dests)) msg = Some mc"
    using assms by (simp add: skynet_multicast_copy_def mc_def)
  show ?thesis
  proof (cases "dests = []")
    case True
    then show ?thesis using copy by (simp add: skynet_multicast_cast_def mc_def copies_def)
  next
    case False
    let ?s = "\<lparr>cs_mc = mc, inbox = 0, sent = []\<rparr>"
    let ?gone = "filter (\<lambda>p. \<not> live st p) dests"
    have "count_ok (length dests + length []) ?s" by (simp add: count_ok_def mc_def)
    from cast_loop_ok [OF this, of st "snd st from'" sched]
    obtain s' where s': "cast_loop st (snd st from') sched dests ?s [] = Some (s', ?gone)"
        "count_ok (length ?gone) s'" "sent s' = copies st (snd st from') dests"
      by auto
    show ?thesis
    proof (cases "?gone = []")
      case True
      then have "skynet_multicast_cast st sched from' dests msg = Some s'"
        using copy s'(1) False by (simp add: skynet_multicast_cast_def)
      then show ?thesis using s' True by (simp add: count_ok_def)
    next
      case gone: False
      let ?mc = "(cs_mc s')\<lparr>mc_ref := int (inbox s'), mc_freed := (inbox s' = 0)\<rparr>"
      have "skynet_multicast_copy (- int (length ?gone)) (cs_mc s') = Some ?mc"
        using s'(2) gone by (simp add: skynet_multicast_copy_def count_ok_def)
      then have "skynet_multicast_cast st sched from' dests msg = Some (s'\<lparr>cs_mc := ?mc\<rparr>)"
        using copy s'(1) False gone by (simp add: skynet_multicast_cast_def)
      then show ?thesis using s' by simp
    qed
  qed
qed

lemma cast_safe_witness:
  "\<exists>s. skynet_multicast_cast (skynet_handle_init 1, \<lambda>_::nat. 7) (\<lambda>_. 1) 0 [1, 2] (skynet_multicast_create () 3 7) = Some s \<and>
    (mc_freed (cs_mc s) = (inbox s = 0))"
  using cast_safe [of "skynet_multicast_create () 3 7" "(skynet_handle_init 1, \<lambda>_::nat. 7)" "\<lambda>_. 1" 0 "[1, 2]"]
  by (auto simp: skynet_multicast_create_def)

lemma cast_loop_inbox:
  assumes "count_ok (length ps + length gone) s" "cast_loop st source sched ps s gone = Some (s', gone')"
  shows "(\<forall>k. sched k = 0) \<Longrightarrow> inbox s' = inbox s + length (filter (live st) ps)"
    and "(\<forall>k. sched k = 1) \<Longrightarrow> inbox s = 0 \<Longrightarrow> inbox s' = 0"
proof -
  have step: "\<exists>s1. cast_loop st source sched ps s1 gone = Some (s', gone') \<and> count_ok (length ps + length gone) s1 \<and>
      inbox s1 = inbox s + 1 - sched (length (sent s))"
    if "count_ok (length (p # ps) + length gone) s" "cast_loop st source sched (p # ps) s gone = Some (s', gone')" "live st p"
    for p ps s and gone :: "u32 list"
  proof -
    from that(3) obtain ctx where ctx: "skynet_handle_grab p st = Some ctx" by (auto simp: live_def)
    let ?s = "s\<lparr>inbox := inbox s + 1, sent := sent s @ [(ctx, multicast_smsg source)]\<rparr>"
    have "count_ok (length ps + length gone) ?s" using that(1) by (simp add: count_ok_def)
    from receivers_ok [OF this, of "sched (length (sent s))"]
    obtain s1 where s1: "receivers (sched (length (sent s))) ?s = Some s1" "count_ok (length ps + length gone) s1"
        "inbox s1 = inbox ?s - sched (length (sent s))"
      by blast
    then have "cast_loop st source sched ps s1 gone = Some (s', gone')"
      using that(2) ctx by simp
    then show ?thesis using s1(2,3) by (intro exI [of _ s1]) simp
  qed
  show "(\<forall>k. sched k = 0) \<Longrightarrow> inbox s' = inbox s + length (filter (live st) ps)"
    using assms
  proof (induction ps arbitrary: s gone)
    case (Cons p ps)
    show ?case
    proof (cases "live st p")
      case True
      then obtain s1 where "cast_loop st source sched ps s1 gone = Some (s', gone')" "count_ok (length ps + length gone) s1"
          "inbox s1 = inbox s + 1"
        using step [OF Cons.prems(2,3)] Cons.prems(1) by auto
      then show ?thesis using Cons.IH [OF Cons.prems(1), of gone s1] True by simp
    next
      case False
      then show ?thesis using Cons.IH [OF Cons.prems(1), of "gone @ [p]" s] Cons.prems(2,3) by (simp add: live_def)
    qed
  qed simp
  show "(\<forall>k. sched k = 1) \<Longrightarrow> inbox s = 0 \<Longrightarrow> inbox s' = 0"
    using assms
  proof (induction ps arbitrary: s gone)
    case (Cons p ps)
    show ?case
    proof (cases "live st p")
      case True
      then obtain s1 where "cast_loop st source sched ps s1 gone = Some (s', gone')" "count_ok (length ps + length gone) s1"
          "inbox s1 = 0"
        using step [OF Cons.prems(3,4)] Cons.prems(1,2) by auto
      then show ?thesis using Cons.IH [OF Cons.prems(1), of s1 gone] by simp
    next
      case False
      then show ?thesis using Cons.IH [OF Cons.prems(1,2), of "gone @ [p]"] Cons.prems(3,4) by (simp add: live_def)
    qed
  qed simp
qed

lemma leave_fold_data:
  "grp_data (fold skynet_multicast_leavegroup ps g) = grp_data g \<and>
   grp_number (fold skynet_multicast_leavegroup ps g) = grp_number g"
  by (induction ps arbitrary: g) (simp_all add: skynet_multicast_leavegroup_def)

lemma leave_fold:
  "arr_data (leave_queue (fold skynet_multicast_leavegroup ps g)) = arr_data (leave_queue g) @ ps"
  "arr_data (enter_queue (fold skynet_multicast_leavegroup ps g)) = arr_data (enter_queue g)"
  "members (fold skynet_multicast_leavegroup ps g) = members g"
  "grp_number (fold skynet_multicast_leavegroup ps g) = grp_number g"
proof -
  show "arr_data (leave_queue (fold skynet_multicast_leavegroup ps g)) = arr_data (leave_queue g) @ ps"
    by (induction ps arbitrary: g) (simp_all add: skynet_multicast_leavegroup_def push_array_def Let_def)
  show "arr_data (enter_queue (fold skynet_multicast_leavegroup ps g)) = arr_data (enter_queue g)"
    by (induction ps arbitrary: g) (simp_all add: skynet_multicast_leavegroup_def)
qed (simp_all add: members_def leave_fold_data)

lemma castgroup_loop:
  assumes "mc_ref msg = 0" "\<not> mc_freed msg" "group_ok g" "members g \<noteq> []"
  shows "\<exists>mc s. skynet_multicast_copy (int (grp_number g)) msg = Some mc \<and> grp_number g = length (members g) \<and>
    cast_loop st source sched (map the (take (grp_number g) (grp_data g))) \<lparr>cs_mc = mc, inbox = 0, sent = []\<rparr> [] =
      Some (s, filter (\<lambda>p. \<not> live st p) (members g)) \<and>
    count_ok (length (filter (\<lambda>p. \<not> live st p) (members g))) s \<and> sent s = copies st source (members g) \<and>
    ((\<forall>k. sched k = 0) \<longrightarrow> inbox s = length (filter (live st) (members g))) \<and> ((\<forall>k. sched k = 1) \<longrightarrow> inbox s = 0)"
proof -
  have n: "grp_number g = length (members g)" using assms(3) by (simp add: members_def group_ok_def)
  let ?mc = "msg\<lparr>mc_ref := int (grp_number g), mc_freed := False\<rparr>"
  have copy: "skynet_multicast_copy (int (grp_number g)) msg = Some ?mc"
    using assms n by (simp add: skynet_multicast_copy_def)
  let ?s = "\<lparr>cs_mc = ?mc, inbox = 0, sent = []\<rparr>"
  have ok: "count_ok (length (members g) + length []) ?s" using n assms(4) by (simp add: count_ok_def)
  from cast_loop_ok [OF ok, of st source sched]
  obtain s where s: "cast_loop st source sched (members g) ?s [] = Some (s, filter (\<lambda>p. \<not> live st p) (members g))"
      "count_ok (length (filter (\<lambda>p. \<not> live st p) (members g))) s" "sent s = copies st source (members g)"
    by auto
  have "(\<forall>k. sched k = 0) \<longrightarrow> inbox s = length (filter (live st) (members g))" "(\<forall>k. sched k = 1) \<longrightarrow> inbox s = 0"
    using cast_loop_inbox [OF ok s(1)] by auto
  then show ?thesis using copy n s unfolding members_def by blast
qed


text \<open>
  The last statement of \<open>skynet_multicast_castgroup\<close> touches the message unconditionally: when
  every member resolves and the receivers dispatch their copies as fast as they are sent, the
  message has been freed by then.
\<close>

theorem castgroup_use_after_free:
  assumes "mc_ref msg = 0" "\<not> mc_freed msg" "group_ok g" "members g \<noteq> []" "arr_data (enter_queue g) = []"
    "arr_data (leave_queue g) = []" "filter (live st) (members g) = members g"
  shows "skynet_multicast_castgroup st (\<lambda>_. 1) from' g msg = None"
proof -
  obtain g1 errs where g1: "combine_queue g = Some (g1, errs)" "group_ok g1"
      "members g1 = sorted_list_of_set (set (members g))"
    using combine_queue_merges [OF assms(3)] assms(5,6) by (auto simp: same_harbor_def)
  have srt: "members g1 = members g"
    using g1(3) assms(3) strict_sorted_iff sorted_list_of_set.idem_if_sorted_distinct
    by (metis group_ok_def)
  have gone: "filter (\<lambda>p. \<not> live st p) (members g) = []"
    using assms(7) by (metis (mono_tags, lifting) filter_False filter_id_conv)
  obtain mc s where s: "skynet_multicast_copy (int (grp_number g1)) msg = Some mc"
      "cast_loop st (snd st from') (\<lambda>_. 1) (map the (take (grp_number g1) (grp_data g1))) \<lparr>cs_mc = mc, inbox = 0, sent = []\<rparr> [] =
         Some (s, [])"
      "count_ok 0 s" "inbox s = 0" "grp_number g1 = length (members g1)"
    using castgroup_loop [OF assms(1,2) g1(2), of st "snd st from'" "\<lambda>_. 1"] srt gone assms(4) by auto
  have "skynet_multicast_copy 0 (cs_mc s) = None"
    using s(3,4) by (simp add: skynet_multicast_copy_def count_ok_def)
  then show ?thesis
    using g1(1) s(1,2,5) srt assms(4) by (simp add: skynet_multicast_castgroup_def)
qed

text \<open>A group of the services 1 and 2 of a fresh node.\<close>

definition demo_group :: skynet_multicast_group where
  "demo_group = skynet_multicast_newgroup\<lparr>grp_cap := 2, grp_number := 2, grp_data := [Some 1, Some 2]\<rparr>"

definition demo_table :: "nat handle_state" where
  "demo_table = (skynet_handle_init 0\<lparr>slot := [None, Some 1, Some 2, None]\<rparr>, of_nat)"

lemma demo_ok: "group_ok demo_group" "members demo_group = [1, 2]"
  "arr_data (enter_queue demo_group) = []" "arr_data (leave_queue demo_group) = []"
  by (simp_all add: demo_group_def skynet_multicast_newgroup_def group_ok_def members_def numeral_2_eq_2)

lemma demo_live: "live demo_table 1" "live demo_table 2"
  by (simp_all add: live_def demo_table_def skynet_handle_grab_def slot_index_def skynet_handle_init_def
      DEFAULT_SLOT_SIZE_def)


lemma castgroup_use_after_free_witness:
  "skynet_multicast_castgroup demo_table (\<lambda>_. 1) 1 demo_group (skynet_multicast_create () 3 1) = None"
  by (rule castgroup_use_after_free) (simp_all add: demo_ok demo_live skynet_multicast_create_def)

lemma combine_queue_correct_witness:
  "\<exists>g' errs. combine_queue (skynet_multicast_leavegroup 2 (skynet_multicast_entergroup 7 demo_group)) = Some (g', errs) \<and>
    members g' = [1, 7]"
proof -
  let ?g = "skynet_multicast_leavegroup 2 (skynet_multicast_entergroup 7 demo_group)"
  have q: "arr_data (enter_queue ?g) = [7]" "arr_data (leave_queue ?g) = [2]" "members ?g = [1, 2]" "group_ok ?g"
    using demo_ok by (simp_all add: skynet_multicast_leavegroup_def skynet_multicast_entergroup_def push_array_def Let_def
        members_def group_ok_def)
  have "{1, 2} \<union> {7} - {2} = {1, 7 :: u32}" by auto
  then show ?thesis
    using combine_queue_correct [of ?g] q by (auto simp: same_harbor_def)
qed

text \<open>
  The comparison function that \<open>combine_queue\<close> gives to \<open>qsort\<close> is not an order: two handles
  whose difference is \<open>2 ^ 31\<close> are each less than the other, and of handles of three nodes each
  can be less than the next.
\<close>

theorem compar_uint_not_an_order:
  "compar_uint 0 0x80000000 < 0 \<and> compar_uint 0x80000000 0 < 0 \<and>
   compar_uint 0x01000001 0x41000001 < 0 \<and> compar_uint 0x41000001 0x91000001 < 0 \<and> compar_uint 0x91000001 0x01000001 < 0"
  by (simp add: compar_uint_def)

end
