(* ===== verification/Format.thy ===== *)
theory Format
  imports CString
begin

text \<open>
  The conversions between numbers and text of the C library that the program's commands use:
  \<open>sprintf\<close> with \<open>%x\<close>, \<open>%d\<close> and \<open>%u\<close>, \<open>strtoul\<close> and \<open>strtol\<close> (64-bit \<open>long\<close>), and the round trips
  between them.
\<close>

section \<open>Printing\<close>

definition digit_chars :: string where "digit_chars = ''0123456789abcdef''"

definition digit_char :: "nat \<Rightarrow> char" where "digit_char d = digit_chars ! d"

fun print_base :: "nat \<Rightarrow> nat \<Rightarrow> string" where
  "print_base b n = (if b \<le> 1 \<or> n < b then [digit_char n] else print_base b (n div b) @ [digit_char (n mod b)])"

declare print_base.simps [simp del]

definition sprintf_x :: "u32 \<Rightarrow> string" where "sprintf_x x = print_base 16 (unat x)"
definition sprintf_u :: "u32 \<Rightarrow> string" where "sprintf_u x = print_base 10 (unat x)"

definition sprintf_d :: "i32 \<Rightarrow> string" where
  "sprintf_d x = (if sint x < 0 then CHR ''-'' # print_base 10 (nat (- sint x)) else print_base 10 (nat (sint x)))"

section \<open>Parsing\<close>

definition digit_value :: "char \<Rightarrow> nat option" where
  "digit_value c =
     (let v = of_char c in
      if 48 \<le> v \<and> v \<le> 57 then Some (v - 48)
      else if 97 \<le> v \<and> v \<le> 122 then Some (v - 87)
      else if 65 \<le> v \<and> v \<le> 90 then Some (v - 55)
      else None)"

fun parse_digits :: "nat \<Rightarrow> nat \<Rightarrow> string \<Rightarrow> nat \<times> string" where
  "parse_digits b acc [] = (acc, [])"
| "parse_digits b acc (c # s) =
     (case digit_value c of
        Some d \<Rightarrow> if d < b then parse_digits b (acc * b + d) s else (acc, c # s)
      | None \<Rightarrow> (acc, c # s))"

definition isspace :: "char \<Rightarrow> bool" where
  "isspace c \<longleftrightarrow> (of_char c :: nat) \<in> {9, 10, 11, 12, 13, 32}"

definition parse_sign :: "string \<Rightarrow> bool \<times> string" where
  "parse_sign s = (case s of
     c # r \<Rightarrow> if c = CHR ''-'' then (True, r) else if c = CHR ''+'' then (False, r) else (False, s)
   | [] \<Rightarrow> (False, []))"

definition hex_prefix :: "string \<Rightarrow> bool" where
  "hex_prefix s = (case s of
     a # x # d # r \<Rightarrow> a = CHR ''0'' \<and> (x = CHR ''x'' \<or> x = CHR ''X'') \<and>
       (case digit_value d of Some v \<Rightarrow> v < 16 | None \<Rightarrow> False)
   | _ \<Rightarrow> False)"

text \<open>\<open>strtoul(s, NULL, 16)\<close> and \<open>strtol(s, NULL, 10)\<close>, with the clamping to the range of the result.\<close>

definition strtoul16 :: "string \<Rightarrow> u64" where
  "strtoul16 s =
     (let (neg, s) = parse_sign (dropWhile isspace s);
          s = (if hex_prefix s then drop 2 s else s);
          v = fst (parse_digits 16 0 s)
      in if 2 ^ 64 \<le> v then -1 else if neg then - of_nat v else of_nat v)"

definition strtol10 :: "string \<Rightarrow> i64" where
  "strtol10 s =
     (let (neg, s) = parse_sign (dropWhile isspace s);
          v = int (fst (parse_digits 10 0 s));
          v = (if neg then - v else v)
      in of_int (max (- (2 ^ 63)) (min (2 ^ 63 - 1) v)))"

text \<open>
  The conversions of \<open>sscanf\<close> that the commands use, on the rest of the input: \<open>%s\<close> (a word),
  \<open>%d\<close> and \<open>%x\<close>; \<open>None\<close> is a matching failure, which ends the scan.
\<close>

definition scan_s :: "string \<Rightarrow> (string \<times> string) option" where
  "scan_s s =
     (let s = dropWhile isspace s; w = takeWhile (\<lambda>c. \<not> isspace c) s
      in if w = [] then None else Some (w, drop (length w) s))"

definition starts_digit :: "nat \<Rightarrow> string \<Rightarrow> bool" where
  "starts_digit b s = (case s of c # _ \<Rightarrow> (case digit_value c of Some d \<Rightarrow> d < b | None \<Rightarrow> False) | [] \<Rightarrow> False)"

definition scan_d :: "string \<Rightarrow> (i32 \<times> string) option" where
  "scan_d s =
     (let (neg, s) = parse_sign (dropWhile isspace s) in
      if \<not> starts_digit 10 s then None
      else
        let (v, rest) = parse_digits 10 0 s;
            v = (if neg then - int v else int v)
        in Some (of_int (max (- (2 ^ 63)) (min (2 ^ 63 - 1) v)), rest))"

definition scan_x :: "string \<Rightarrow> (u32 \<times> string) option" where
  "scan_x s =
     (let (neg, s) = parse_sign (dropWhile isspace s);
          s = (if hex_prefix s then drop 2 s else s)
      in if \<not> starts_digit 16 s then None
         else
           let (v, rest) = parse_digits 16 0 s;
               u = (if 2 ^ 64 \<le> v then -1 else if neg then - of_nat v else of_nat v :: u64)
           in Some (ucast u, rest))"

section \<open>Round trips\<close>

lemma digit_value_char: "d < 16 \<Longrightarrow> digit_value (digit_char d) = Some d"
proof -
  assume "d < 16"
  moreover have "\<forall>d < 16. digit_value (digit_char d) = Some d"
    by (simp add: All_less_Suc numeral_eq_Suc digit_value_def digit_char_def digit_chars_def)
  ultimately show ?thesis by blast
qed

lemma parse_digits_append:
  "(\<forall>c \<in> set xs. \<exists>d. digit_value c = Some d \<and> d < b) \<Longrightarrow>
   parse_digits b acc (xs @ ys) = parse_digits b (fst (parse_digits b acc xs)) ys"
  by (induction xs arbitrary: acc) auto

lemma print_base_digits:
  "1 < b \<Longrightarrow> b \<le> 16 \<Longrightarrow> \<forall>c \<in> set (print_base b n). \<exists>d. digit_value c = Some d \<and> d < b"
proof (induction b n rule: print_base.induct)
  case (1 b n)
  show ?case
  proof (cases "n < b")
    case True
    then show ?thesis using "1.prems" digit_value_char [of n] by (subst print_base.simps) simp
  next
    case False
    have "n mod b < b" using "1.prems" by simp
    then have "\<exists>d. digit_value (digit_char (n mod b)) = Some d \<and> d < b"
      using digit_value_char [of "n mod b"] "1.prems"(2) by force
    then show ?thesis using "1.IH" "1.prems" False by (subst print_base.simps) auto
  qed
qed

lemma parse_print:
  "1 < b \<Longrightarrow> b \<le> 16 \<Longrightarrow> fst (parse_digits b 0 (print_base b n)) = n"
proof (induction b n rule: print_base.induct)
  case (1 b n)
  show ?case
  proof (cases "n < b")
    case True
    then show ?thesis using "1.prems" digit_value_char [of n] by (subst print_base.simps) simp
  next
    case False
    have m: "n mod b < b" using "1.prems" by simp
    then have "digit_value (digit_char (n mod b)) = Some (n mod b)"
      using digit_value_char [of "n mod b"] "1.prems"(2) by linarith
    moreover have "parse_digits b 0 (print_base b (n div b) @ ys) = parse_digits b (fst (parse_digits b 0 (print_base b (n div b)))) ys" for ys
      by (rule parse_digits_append [OF print_base_digits [OF "1.prems"]])
    ultimately show ?thesis
      using "1.IH" "1.prems" False m by (subst print_base.simps) simp
  qed
qed

lemma print_base_not_empty [simp]: "print_base b n \<noteq> []"
  by (subst print_base.simps) simp

lemma print_base_length: "1 < b \<Longrightarrow> n < b ^ Suc k \<Longrightarrow> length (print_base b n) \<le> Suc k"
proof (induction b n arbitrary: k rule: print_base.induct)
  case (1 b n)
  show ?case
  proof (cases "n < b")
    case True
    then show ?thesis by (subst print_base.simps) simp
  next
    case False
    then obtain k' where k: "k = Suc k'" using "1.prems"(2) by (cases k) auto
    have "n div b < b ^ Suc k'" using "1.prems" k by (simp add: less_mult_imp_div_less mult.commute)
    then show ?thesis using "1.IH" [of k'] "1.prems"(1) False k by (subst print_base.simps) simp
  qed
qed

lemma sprintf_x_length: "length (sprintf_x x) \<le> 8"
proof -
  have "unat x < 2 ^ 32" using unsigned_less [of x] by simp
  then have "unat x < 16 ^ Suc 7" by simp
  then show ?thesis using print_base_length [of 16 "unat x" 7] by (simp only: sprintf_x_def) simp
qed

text \<open>A string of hexadecimal digits has no leading space, sign or prefix.\<close>

definition hex_digits :: "string \<Rightarrow> bool" where
  "hex_digits s \<longleftrightarrow> (\<forall>c \<in> set s. \<exists>d. digit_value c = Some d \<and> d < 16)"

lemma hex_digits_plain:
  assumes "hex_digits s"
  shows "dropWhile isspace s = s" "parse_sign s = (False, s)" "\<not> hex_prefix s"
proof -
  have nosp: "\<not> isspace c" "c \<noteq> CHR ''-''" "c \<noteq> CHR ''+''" "c \<noteq> CHR ''x''" "c \<noteq> CHR ''X''" if "c \<in> set s" for c
    using assms that by (auto simp: hex_digits_def isspace_def digit_value_def Let_def split: if_splits)
  show "dropWhile isspace s = s" using nosp(1) by (cases s) auto
  show "parse_sign s = (False, s)" using nosp(2,3) by (cases s) (auto simp: parse_sign_def)
  show "\<not> hex_prefix s"
    using nosp(4,5) by (auto simp: hex_prefix_def split: list.splits)
qed

lemma strtoul16_digits:
  "hex_digits s \<Longrightarrow> strtoul16 s = (let v = fst (parse_digits 16 0 s) in if 2 ^ 64 \<le> v then -1 else of_nat v)"
  by (simp add: strtoul16_def hex_digits_plain Let_def)

lemma strtoul_sprintf_x: "ucast (strtoul16 (sprintf_x x)) = x"
proof -
  have "hex_digits (sprintf_x x)"
    using print_base_digits [of 16 "unat x"] by (simp add: hex_digits_def sprintf_x_def)
  have "unat x < 2 ^ 32" using unsigned_less [of x] by simp
  then have "unat x < 2 ^ 64" by simp
  with \<open>hex_digits (sprintf_x x)\<close> have "strtoul16 (sprintf_x x) = of_nat (unat x)"
    by (simp add: strtoul16_digits sprintf_x_def parse_print)
  then have eq: "strtoul16 (sprintf_x x) = ucast x" by simp
  show ?thesis unfolding eq by (rule bit_word_eqI) (simp add: bit_simps)
qed

end
