(* ===== verification/Group.thy ===== *)
theory Group
  imports MessageQueue Format "HOL-Library.Signed_Division"
begin

text \<open>
  \<open>skynet-src/skynet_group.c\<close>: the table from group numbers to the multicast services that keep
  the groups, 1024 hash chains.  The functions of \<open>skynet_server.c\<close> it calls are arguments:
  \<open>new_ctx\<close> is \<open>skynet_context_new("multicast", NULL)\<close>, \<open>ctx_handle\<close> reads \<open>ctx->handle\<close> and
  \<open>send\<close> is \<open>skynet_context_send\<close> with source 0, type \<open>PTYPE_SYSTEM\<close> and session 0, all on a world
  \<open>'w\<close>.  The spin lock makes every operation atomic.  \<open>None\<close> is an access outside the table or the
  failed \<open>assert(inst)\<close>.
\<close>

definition HASH_SIZE :: nat where "HASH_SIZE = 1024"

record 'c group_node =
  gn_handle :: i32
  gn_ctx :: 'c

record 'c group_table =
  gt_node :: "'c group_node list list"

definition skynet_group_init :: "'c group_table" where
  "skynet_group_init = \<lparr>gt_node = replicate HASH_SIZE []\<rparr>"

text \<open>\<open>handle % HASH_SIZE\<close> on signed integers, checked where it is used as an index.\<close>

definition group_hash :: "i32 \<Rightarrow> nat option" where
  "group_hash handle = do {
     let hash = sint handle smod int HASH_SIZE;
     c_assert (0 \<le> hash);
     Some (nat hash)
   }"

text \<open>The walk down a chain.\<close>

fun chain_find :: "i32 \<Rightarrow> 'c group_node list \<Rightarrow> 'c option" where
  "chain_find handle [] = None"
| "chain_find handle (node # nodes) =
     (if gn_handle node = handle then Some (gn_ctx node) else chain_find handle nodes)"

text \<open>The walk with a pointer to the link, which unlinks the first node of the handle.\<close>

fun chain_unlink :: "i32 \<Rightarrow> 'c group_node list \<Rightarrow> 'c option \<times> 'c group_node list" where
  "chain_unlink handle [] = (None, [])"
| "chain_unlink handle (node # nodes) =
     (if gn_handle node = handle then (Some (gn_ctx node), nodes)
      else let (r, nodes) = chain_unlink handle nodes in (r, node # nodes))"

type_synonym ('c, 'w) new_context = "'w \<Rightarrow> ('c \<times> 'w) option"
type_synonym ('c, 'w) send_text = "'c \<Rightarrow> string \<Rightarrow> 'w \<Rightarrow> 'w"

definition create_group :: "('c, 'w) new_context \<Rightarrow> i32 \<Rightarrow> 'c group_table \<times> 'w \<Rightarrow> ('c \<times> 'c group_table \<times> 'w) option" where
  "create_group new_ctx handle gw = do {
     let (g, w) = gw;
     hash \<leftarrow> group_hash handle;
     (inst, w) \<leftarrow> new_ctx w;
     let new_node = \<lparr>gn_handle = handle, gn_ctx = inst\<rparr>;
     Some (inst, g\<lparr>gt_node := (gt_node g)[hash := new_node # gt_node g ! hash]\<rparr>, w)
   }"

definition skynet_group_query ::
  "('c, 'w) new_context \<Rightarrow> ('w \<Rightarrow> 'c \<Rightarrow> u32) \<Rightarrow> i32 \<Rightarrow> 'c group_table \<times> 'w \<Rightarrow> (u32 \<times> 'c group_table \<times> 'w) option" where
  "skynet_group_query new_ctx ctx_handle handle gw = do {
     let (g, w) = gw;
     hash \<leftarrow> group_hash handle;
     case chain_find handle (gt_node g ! hash) of
       Some ctx \<Rightarrow> Some (ctx_handle w ctx, g, w)
     | None \<Rightarrow> do {
         (ctx, g, w) \<leftarrow> create_group new_ctx handle (g, w);
         Some (ctx_handle w ctx, g, w)
       }
   }"

text \<open>\<open>sprintf(tmp, "%s %x", cmd, node)\<close>; the buffer has 16 bytes.\<close>

definition send_command :: "('c, 'w) send_text \<Rightarrow> 'c \<Rightarrow> string \<Rightarrow> u32 \<Rightarrow> 'w \<Rightarrow> 'w option" where
  "send_command send ctx cmd node w = do {
     let tmp = cmd @ '' '' @ sprintf_x node;
     c_assert (length tmp + 1 \<le> 16);
     Some (send ctx tmp w)
   }"

definition skynet_group_enter ::
  "('c, 'w) new_context \<Rightarrow> ('c, 'w) send_text \<Rightarrow> i32 \<Rightarrow> u32 \<Rightarrow> 'c group_table \<times> 'w \<Rightarrow> ('c group_table \<times> 'w) option" where
  "skynet_group_enter new_ctx send handle n gw = do {
     let (g, w) = gw;
     hash \<leftarrow> group_hash handle;
     case chain_find handle (gt_node g ! hash) of
       Some ctx \<Rightarrow> do { w \<leftarrow> send_command send ctx ''E'' n w; Some (g, w) }
     | None \<Rightarrow> do {
         (inst, g, w) \<leftarrow> create_group new_ctx handle (g, w);
         w \<leftarrow> send_command send inst ''E'' n w;
         Some (g, w)
       }
   }"

definition skynet_group_leave ::
  "('c, 'w) send_text \<Rightarrow> i32 \<Rightarrow> u32 \<Rightarrow> 'c group_table \<times> 'w \<Rightarrow> ('c group_table \<times> 'w) option" where
  "skynet_group_leave send handle n gw = do {
     let (g, w) = gw;
     hash \<leftarrow> group_hash handle;
     case chain_find handle (gt_node g ! hash) of
       Some ctx \<Rightarrow> do { w \<leftarrow> send_command send ctx ''L'' n w; Some (g, w) }
     | None \<Rightarrow> Some (g, w)
   }"

definition skynet_group_clear ::
  "('c, 'w) send_text \<Rightarrow> i32 \<Rightarrow> 'c group_table \<times> 'w \<Rightarrow> ('c group_table \<times> 'w) option" where
  "skynet_group_clear send handle gw = do {
     let (g, w) = gw;
     hash \<leftarrow> group_hash handle;
     let (r, nodes) = chain_unlink handle (gt_node g ! hash);
     case r of
       Some ctx \<Rightarrow> Some (g\<lparr>gt_node := (gt_node g)[hash := nodes]\<rparr>, send ctx ''C'' w)
     | None \<Rightarrow> Some (g, w)
   }"

section \<open>The table as a finite map\<close>

definition group_ctx :: "'c group_table \<Rightarrow> i32 \<Rightarrow> 'c option" where
  "group_ctx g handle = (case group_hash handle of Some hash \<Rightarrow> chain_find handle (gt_node g ! hash) | None \<Rightarrow> None)"

definition groups_ok :: "'c group_table \<Rightarrow> bool" where
  "groups_ok g \<longleftrightarrow> length (gt_node g) = HASH_SIZE \<and>
     (\<forall>h < HASH_SIZE. distinct (map gn_handle (gt_node g ! h)) \<and>
        (\<forall>node \<in> set (gt_node g ! h). group_hash (gn_handle node) = Some h))"

lemma group_hash_nonneg:
  assumes "0 \<le> sint handle"
  shows "group_hash handle = Some (unat handle mod HASH_SIZE)" "unat handle mod HASH_SIZE < HASH_SIZE"
proof -
  have s: "sint handle = int (unat handle)" using assms by (rule sint_nonneg)
  show "unat handle mod HASH_SIZE < HASH_SIZE" by (simp add: HASH_SIZE_def)
  show "group_hash handle = Some (unat handle mod HASH_SIZE)"
    using assms by (simp add: group_hash_def s signed_modulo_int_def HASH_SIZE_def nat_mod_distrib)
qed

lemma chain_find_map: "chain_find h nodes = map_of (map (\<lambda>n. (gn_handle n, gn_ctx n)) nodes) h"
  by (induction nodes) auto

lemma chain_unlink_find:
  "distinct (map gn_handle nodes) \<Longrightarrow> chain_unlink h nodes = (r, nodes') \<Longrightarrow>
   r = chain_find h nodes \<and> (\<forall>x. chain_find x nodes' = (if x = h then None else chain_find x nodes)) \<and>
   set nodes' \<subseteq> set nodes \<and> distinct (map gn_handle nodes')"
proof (induction nodes arbitrary: r nodes')
  case (Cons n nodes)
  have none: "chain_find x nodes = None" if "x \<notin> gn_handle ` set nodes" for x
    using that by (auto simp: chain_find_map map_of_eq_None_iff image_image)
  show ?case
  proof (cases "gn_handle n = h")
    case True
    then show ?thesis using Cons.prems none by auto
  next
    case False
    obtain r1 nodes1 where u: "chain_unlink h nodes = (r1, nodes1)" by force
    have IH: "r1 = chain_find h nodes \<and> (\<forall>x. chain_find x nodes1 = (if x = h then None else chain_find x nodes)) \<and>
        set nodes1 \<subseteq> set nodes \<and> distinct (map gn_handle nodes1)"
      using Cons.IH [OF _ u] Cons.prems(1) by simp
    have eq: "r = r1" "nodes' = n # nodes1" using Cons.prems(2) False u by auto
    have "gn_handle n \<notin> gn_handle ` set nodes1" using IH Cons.prems(1) by auto
    then show ?thesis using IH False by (auto simp: eq)
  qed
qed auto

lemma group_hash_less: "group_hash handle = Some h \<Longrightarrow> h < HASH_SIZE"
  by (cases "0 \<le> sint handle")
    (auto simp: group_hash_nonneg group_hash_def HASH_SIZE_def signed_modulo_int_def Let_def sgn_if split: if_splits)

lemma init_groups: "groups_ok skynet_group_init" "group_ctx skynet_group_init h = None"
proof -
  have none: "gt_node skynet_group_init ! i = []" if "i < HASH_SIZE" for i
    using that by (simp add: skynet_group_init_def del: replicate.simps)
  then show "groups_ok skynet_group_init" by (simp add: groups_ok_def skynet_group_init_def HASH_SIZE_def)
  show "group_ctx skynet_group_init h = None"
    by (cases "group_hash h") (simp_all add: group_ctx_def none group_hash_less)
qed

lemma create_group_ok:
  assumes ok: "groups_ok g" and pos: "0 \<le> sint handle" and new: "new_ctx w = Some (inst, w')"
    and none: "group_ctx g handle = None"
  shows "\<exists>g'. create_group new_ctx handle (g, w) = Some (inst, g', w') \<and> groups_ok g' \<and>
    group_ctx g' = (group_ctx g)(handle \<mapsto> inst)"
proof -
  obtain hash where h: "group_hash handle = Some hash" "hash < HASH_SIZE"
    using group_hash_nonneg [OF pos] by blast
  let ?n = "\<lparr>gn_handle = handle, gn_ctx = inst\<rparr>"
  define g' where "g' = g\<lparr>gt_node := (gt_node g)[hash := ?n # gt_node g ! hash]\<rparr>"
  have len: "length (gt_node g) = HASH_SIZE" using ok by (simp add: groups_ok_def)
  have cr: "create_group new_ctx handle (g, w) = Some (inst, g', w')"
    using h(1) new by (simp add: create_group_def g'_def)
  have "chain_find handle (gt_node g ! hash) = None" using none h(1) by (simp add: group_ctx_def)
  then have "handle \<notin> gn_handle ` set (gt_node g ! hash)"
    by (auto simp: chain_find_map map_of_eq_None_iff image_image)
  then have ok': "groups_ok g'"
    using ok h by (auto simp: groups_ok_def g'_def nth_list_update)
  have "group_ctx g' x = ((group_ctx g)(handle \<mapsto> inst)) x" for x
  proof (cases "group_hash x")
    case None
    then show ?thesis using h(1) by (auto simp: group_ctx_def)
  next
    case (Some hx)
    then show ?thesis using h len by (auto simp: group_ctx_def g'_def nth_list_update)
  qed
  then show ?thesis using cr ok' by blast
qed

lemma clear_group_ok:
  assumes ok: "groups_ok g" and pos: "0 \<le> sint handle"
  shows "\<exists>g'. skynet_group_clear send handle (g, w) =
      Some (g', case group_ctx g handle of Some ctx \<Rightarrow> send ctx ''C'' w | None \<Rightarrow> w) \<and> groups_ok g' \<and>
    group_ctx g' = (group_ctx g)(handle := None)"
proof -
  obtain hash where h: "group_hash handle = Some hash" "hash < HASH_SIZE"
    using group_hash_nonneg [OF pos] by blast
  obtain r nodes where u: "chain_unlink handle (gt_node g ! hash) = (r, nodes)" by force
  have len: "length (gt_node g) = HASH_SIZE" and dist: "distinct (map gn_handle (gt_node g ! hash))"
    using ok h(2) by (auto simp: groups_ok_def)
  have c: "r = group_ctx g handle" "\<And>x. chain_find x nodes = (if x = handle then None else chain_find x (gt_node g ! hash))"
    "set nodes \<subseteq> set (gt_node g ! hash)" "distinct (map gn_handle nodes)"
    using chain_unlink_find [OF dist u] h(1) by (auto simp: group_ctx_def)
  show ?thesis
  proof (cases r)
    case None
    then show ?thesis
      using c(1) h(1) u ok by (auto simp: skynet_group_clear_def fun_upd_idem)
  next
    case (Some ctx)
    have eq: "group_ctx g handle = Some ctx" using c(1) Some by simp
    define g' where "g' = g\<lparr>gt_node := (gt_node g)[hash := nodes]\<rparr>"
    have "groups_ok g'" using ok h c(3,4) by (auto simp: groups_ok_def g'_def nth_list_update)
    moreover have "group_ctx g' = (group_ctx g)(handle := None)"
    proof
      fix x
      show "group_ctx g' x = ((group_ctx g)(handle := None)) x"
        using h len c(2) by (cases "group_hash x") (auto simp: group_ctx_def g'_def nth_list_update)
    qed
    ultimately show ?thesis
      using c(1) h(1) u by (intro exI [of _ g']) (simp add: skynet_group_clear_def g'_def eq Some)
  qed
qed

section \<open>The properties\<close>

text \<open>
  For the non-negative group numbers the hash chains are a finite map: a query returns the
  handle of the group's service, creating one for an unknown group and for no other; enter
  sends the text command \<open>E <handle>\<close> (which fits its 16-byte buffer) to it, leave sends
  \<open>L <handle>\<close> and does nothing to an unknown group.
\<close>

theorem group_table_correct:
  fixes new_ctx :: "('c, 'w) new_context"
  assumes "groups_ok g" "0 \<le> sint handle" "new_ctx w = Some (inst, w')"
  shows "\<exists>g'. let ctx = (case group_ctx g handle of Some c \<Rightarrow> c | None \<Rightarrow> inst);
         v = (case group_ctx g handle of Some c \<Rightarrow> w | None \<Rightarrow> w') in
    skynet_group_query new_ctx ctx_handle handle (g, w) = Some (ctx_handle v ctx, g', v) \<and>
    skynet_group_enter new_ctx send handle n (g, w) = Some (g', send ctx (''E '' @ sprintf_x n) v) \<and>
    groups_ok g' \<and> group_ctx g' = (group_ctx g)(handle \<mapsto> ctx) \<and>
    skynet_group_leave send handle n (g', v) = Some (g', send ctx (''L '' @ sprintf_x n) v)"
proof -
  obtain hash where h: "group_hash handle = Some hash" "hash < HASH_SIZE"
    using group_hash_nonneg [OF assms(2)] by blast
  have len: "length (sprintf_x n) \<le> 8" by (rule sprintf_x_length)
  show ?thesis
  proof (cases "group_ctx g handle")
    case (Some c)
    then have "chain_find handle (gt_node g ! hash) = Some c" using h by (simp add: group_ctx_def)
    then show ?thesis
      using assms(1) h Some len
      by (auto simp: skynet_group_query_def skynet_group_enter_def skynet_group_leave_def send_command_def fun_upd_idem Let_def)
  next
    case None
    then have f: "chain_find handle (gt_node g ! hash) = None" using h by (simp add: group_ctx_def)
    obtain g' where g': "create_group new_ctx handle (g, w) = Some (inst, g', w')" "groups_ok g'"
        "group_ctx g' = (group_ctx g)(handle \<mapsto> inst)"
      using create_group_ok [OF assms(1,2) _ None, of new_ctx w inst w'] assms(3) by blast
    have "chain_find handle (gt_node g' ! hash) = Some inst"
      using g'(3) h by (simp add: group_ctx_def fun_eq_iff split: option.splits)
    then show ?thesis
      using g' h None f len
      by (auto simp: skynet_group_query_def skynet_group_enter_def skynet_group_leave_def send_command_def Let_def)
  qed
qed

lemma group_table_correct_witness:
  "\<exists>g' g''. skynet_group_query (\<lambda>w. Some (7 :: nat, w)) (\<lambda>_ c. of_nat c) 2000 (skynet_group_init, [] :: (nat \<times> string) list) = Some (7, g', []) \<and>
    skynet_group_enter (\<lambda>w. Some (7 :: nat, w)) (\<lambda>c t w. w @ [(c, t)]) 2000 31 (skynet_group_init, []) = Some (g'', [(7, ''E 1f'')])"
proof -
  have "sprintf_x 31 = ''1f''" by (simp add: sprintf_x_def print_base.simps digit_char_def digit_chars_def)
  moreover have "(0::int) \<le> sint (2000 :: i32)" by simp
  ultimately show ?thesis
    using group_table_correct [OF init_groups(1), of 2000 "\<lambda>w. Some (7 :: nat, w)" "[] :: (nat \<times> string) list" 7 "[]"
        "\<lambda>_ c. of_nat c" "\<lambda>c t w. w @ [(c, t)]" 31]
    by (auto simp: init_groups Let_def)
qed

text \<open>
  Clearing a group sends the command \<open>C\<close> to its service and removes that group only.
\<close>

theorem group_clear_correct:
  assumes "groups_ok g" "0 \<le> sint handle"
  shows "\<exists>g'. skynet_group_clear send handle (g, w) =
      Some (g', case group_ctx g handle of Some ctx \<Rightarrow> send ctx ''C'' w | None \<Rightarrow> w) \<and> groups_ok g' \<and>
    group_ctx g' = (group_ctx g)(handle := None)"
  by (rule clear_group_ok [OF assms])

lemma group_clear_correct_witness:
  "\<exists>g'. skynet_group_clear (\<lambda>c t w. w @ [(c, t)]) 5 (skynet_group_init :: nat group_table, []) = Some (g', []) \<and> groups_ok g'"
proof -
  have "(0::int) \<le> sint (5 :: i32)" by simp
  from group_clear_correct [OF init_groups(1) this, of "\<lambda>c t w. w @ [(c, t)]" "[]"] show ?thesis
    by (auto simp: init_groups)
qed

text \<open>
  A negative group number, which \<open>sscanf\<close> of a \<open>GROUP\<close> command accepts, gives a negative
  index into the 1024 chains for every number that is not a multiple of 1024: all four
  operations read outside the table.
\<close>

theorem group_negative_index:
  assumes "sint handle < 0" "sint handle mod 1024 \<noteq> 0"
  shows "skynet_group_query new_ctx ctx_handle handle (g, w) = None \<and>
    skynet_group_enter new_ctx send handle n (g, w) = None \<and>
    skynet_group_leave send handle n (g, w) = None \<and> skynet_group_clear send handle (g, w) = None"
proof -
  have "\<bar>sint handle\<bar> mod 1024 \<noteq> 0"
    using assms by (simp add: zmod_zminus1_eq_if abs_if)
  then have "0 < \<bar>sint handle\<bar> mod 1024" using pos_mod_sign [of 1024 "\<bar>sint handle\<bar>"] by linarith
  then have "group_hash handle = None"
    using assms(1) by (simp add: group_hash_def signed_modulo_int_def HASH_SIZE_def Let_def)
  then show ?thesis
    by (simp_all add: skynet_group_query_def skynet_group_enter_def skynet_group_leave_def skynet_group_clear_def)
qed

lemma group_negative_index_witness:
  "skynet_group_leave (\<lambda>c t w. w) (-1) 3 (skynet_group_init :: nat group_table, ()) = None"
  using group_negative_index [of "-1" "\<lambda>w. None" "\<lambda>_ _. 0" "skynet_group_init :: nat group_table" "()" "\<lambda>c t w. w" 3] by simp

end
