(* ===== verification/Module.thy ===== *)
theory Module
  imports CString
begin

text \<open>
  \<open>skynet-src/skynet_module.c\<close>: the table of at most 32 loaded C services.  The dynamic linker is an
  argument: \<open>dlopen\<close> maps a file name to a library, \<open>dlsym\<close> a library and a symbol to an address.
  \<open>None\<close> is \<open>exit(1)\<close>, a failed assertion, or a write outside the local buffers.
\<close>

definition MAX_MODULE_TYPE :: nat where "MAX_MODULE_TYPE = 32"

record skynet_module =
  m_name :: string
  m_module :: nat
  m_create :: "nat option"
  m_init :: "nat option"
  m_release :: "nat option"

text \<open>\<open>count\<close> is the length of \<open>m\<close>; the entries of the array behind it are not yet valid.\<close>

record modules =
  m_path :: string
  m_list :: "skynet_module list"

definition skynet_module_init :: "string \<Rightarrow> modules" where
  "skynet_module_init path = \<lparr>m_path = path, m_list = []\<rparr>"

text \<open>
  \<open>_try_open\<close>: the file name, the path with its first \<open>?\<close> replaced, in a buffer of \<open>sz\<close> bytes that
  must also hold the final NUL.
\<close>

definition try_open_name :: "string \<Rightarrow> string \<Rightarrow> string option" where
  "try_open_name path name = do {
     let sz = length path + length name;
     let front = takeWhile (\<lambda>c. c \<noteq> CHR ''?'') path;
     c_assert (length front + length name \<le> sz);
     case drop (length front) path of
       _ # rest \<Rightarrow> do {
         c_assert (length front + length name + length rest + 1 \<le> sz);
         Some (front @ name @ rest)
       }
     | [] \<Rightarrow> None
   }"

definition module_find :: "string \<Rightarrow> modules \<Rightarrow> skynet_module option" where
  "module_find name M = find (\<lambda>m. strcmp (m_name m) name = 0) (m_list M)"

text \<open>\<open>_open_sym\<close>; the return value is \<open>mod->init == NULL\<close>.\<close>

definition open_sym :: "(nat \<Rightarrow> string \<Rightarrow> nat option) \<Rightarrow> skynet_module \<Rightarrow> (bool \<times> skynet_module) option" where
  "open_sym dlsym m = do {
     let name_size = length (m_name m);
     c_assert (name_size + length ''_release'' + 1 \<le> name_size + 9);
     let m = m\<lparr>m_create := dlsym (m_module m) (m_name m @ ''_create''),
               m_init := dlsym (m_module m) (m_name m @ ''_init''),
               m_release := dlsym (m_module m) (m_name m @ ''_release'')\<rparr>;
     Some (m_init m = None, m)
   }"

definition skynet_module_query ::
  "(string \<Rightarrow> nat option) \<Rightarrow> (nat \<Rightarrow> string \<Rightarrow> nat option) \<Rightarrow> string \<Rightarrow> modules \<Rightarrow> (skynet_module option \<times> modules) option" where
  "skynet_module_query dlopen dlsym name M =
     (case module_find name M of
        Some m \<Rightarrow> Some (Some m, M)
      | None \<Rightarrow>
          if length (m_list M) < MAX_MODULE_TYPE then do {
            file \<leftarrow> try_open_name (m_path M) name;
            case dlopen file of
              None \<Rightarrow> Some (None, M)
            | Some dl \<Rightarrow> do {
                (failed, m) \<leftarrow> open_sym dlsym
                  \<lparr>m_name = name, m_module = dl, m_create = None, m_init = None, m_release = None\<rparr>;
                if \<not> failed then Some (Some m, M\<lparr>m_list := m_list M @ [m]\<rparr>)
                else Some (None, M)
              }
          } else Some (None, M))"

definition skynet_module_insert :: "skynet_module \<Rightarrow> modules \<Rightarrow> modules option" where
  "skynet_module_insert m M = do {
     c_assert (module_find (m_name m) M = None \<and> length (m_list M) < MAX_MODULE_TYPE);
     Some (M\<lparr>m_list := m_list M @ [m]\<rparr>)
   }"

section \<open>The table\<close>

definition modules_ok :: "modules \<Rightarrow> bool" where
  "modules_ok M \<longleftrightarrow> length (m_list M) \<le> MAX_MODULE_TYPE \<and> CHR ''?'' \<in> set (m_path M) \<and>
     distinct (map m_name (m_list M)) \<and> (\<forall>m \<in> set (m_list M). cstring (m_name m) \<and> m_init m \<noteq> None)"

lemma try_open_name_ok:
  assumes "CHR ''?'' \<in> set path"
  shows "try_open_name path name =
    Some (takeWhile (\<lambda>c. c \<noteq> CHR ''?'') path @ name @ tl (dropWhile (\<lambda>c. c \<noteq> CHR ''?'') path))"
proof -
  let ?front = "takeWhile (\<lambda>c. c \<noteq> CHR ''?'') path"
  have "dropWhile (\<lambda>c. c \<noteq> CHR ''?'') path \<noteq> []" using assms by (simp add: dropWhile_eq_Nil_conv)
  then obtain c rest where d: "dropWhile (\<lambda>c. c \<noteq> CHR ''?'') path = c # rest" by (cases "dropWhile (\<lambda>c. c \<noteq> CHR ''?'') path") auto
  have p: "path = ?front @ c # rest" using d takeWhile_dropWhile_id [of "\<lambda>c. c \<noteq> CHR ''?''" path] by simp
  then have "length path = length ?front + 1 + length rest" by (metis add.assoc length_Cons length_append plus_1_eq_Suc)
  moreover have "drop (length ?front) path = c # rest" using d by (simp add: dropWhile_eq_drop)
  ultimately show ?thesis by (simp add: try_open_name_def Let_def d)
qed

lemma find_key:
  "distinct (map f xs) \<Longrightarrow> \<forall>x \<in> set xs. P x \<longleftrightarrow> f x = k \<Longrightarrow> find P xs = Some m \<longleftrightarrow> m \<in> set xs \<and> f m = k"
  by (induction xs) auto

lemma module_find_Some:
  "modules_ok M \<Longrightarrow> cstring name \<Longrightarrow> module_find name M = Some m \<longleftrightarrow> m \<in> set (m_list M) \<and> m_name m = name"
  unfolding module_find_def using strcmp_0 by (intro find_key) (auto simp: modules_ok_def)

text \<open>
  \<open>skynet_module_query\<close> keeps a table of at most 32 modules with distinct names, each with an
  \<open>init\<close> function; it returns a module exactly of the name asked for, the same one as long as the
  process lives, and opens the file that the path pattern gives for the name, within its buffers.
\<close>

theorem module_query_correct:
  assumes "modules_ok M" "cstring name"
  shows "\<exists>r M'. skynet_module_query dlopen dlsym name M = Some (r, M') \<and> modules_ok M' \<and>
    set (m_list M) \<subseteq> set (m_list M') \<and>
    (case r of
       Some m \<Rightarrow> m_name m = name \<and> skynet_module_query dlopen dlsym name M' = Some (Some m, M') \<and>
         (module_find name M = None \<longrightarrow>
            dlopen (takeWhile (\<lambda>c. c \<noteq> CHR ''?'') (m_path M) @ name @ tl (dropWhile (\<lambda>c. c \<noteq> CHR ''?'') (m_path M)))
              = Some (m_module m) \<and> m_init m = dlsym (m_module m) (name @ ''_init''))
     | None \<Rightarrow> M' = M \<and> module_find name M = None)"
proof (cases "module_find name M")
  case (Some m)
  then have "m_name m = name" using module_find_Some [OF assms] by simp
  then show ?thesis using Some assms(1) by (simp add: skynet_module_query_def)
next
  case None
  let ?file = "takeWhile (\<lambda>c. c \<noteq> CHR ''?'') (m_path M) @ name @ tl (dropWhile (\<lambda>c. c \<noteq> CHR ''?'') (m_path M))"
  have opened: "try_open_name (m_path M) name = Some ?file"
    using try_open_name_ok assms(1) by (simp add: modules_ok_def)
  show ?thesis
  proof (cases "length (m_list M) < MAX_MODULE_TYPE")
    case False
    then show ?thesis using None assms(1) by (simp add: skynet_module_query_def)
  next
    case room: True
    show ?thesis
    proof (cases "dlopen ?file")
      case nofile: None
      then show ?thesis using None assms(1) room opened by (simp add: skynet_module_query_def)
    next
      case (Some dl)
      define m where "m = \<lparr>m_name = name, m_module = dl, m_create = dlsym dl (name @ ''_create''),
        m_init = dlsym dl (name @ ''_init''), m_release = dlsym dl (name @ ''_release'')\<rparr>"
      have sym: "open_sym dlsym \<lparr>m_name = name, m_module = dl, m_create = None, m_init = None, m_release = None\<rparr> =
          Some (m_init m = None, m)"
        by (simp add: open_sym_def m_def)
      show ?thesis
      proof (cases "m_init m")
        case noinit: None
        then show ?thesis using None assms(1) room opened Some sym by (simp add: skynet_module_query_def)
      next
        case init: (Some f)
        let ?M = "M\<lparr>m_list := m_list M @ [m]\<rparr>"
        have q: "skynet_module_query dlopen dlsym name M = Some (Some m, ?M)"
          using None room opened Some sym init by (simp add: skynet_module_query_def)
        have "name \<notin> m_name ` set (m_list M)"
          using None module_find_Some [OF assms] by force
        then have ok': "modules_ok ?M"
          using assms room init by (auto simp: modules_ok_def m_def)
        then have "module_find name ?M = Some m"
          using module_find_Some [OF ok' assms(2)] by (simp add: m_def)
        then have "skynet_module_query dlopen dlsym name ?M = Some (Some m, ?M)"
          by (simp add: skynet_module_query_def)
        then show ?thesis using q ok' Some by (auto simp: m_def)
      qed
    qed
  qed
qed

lemma module_query_correct_witness:
  "\<exists>m M'. skynet_module_query (\<lambda>f. if f = ''./harbor.so'' then Some 1 else None) (\<lambda>_ s. Some (length s)) ''harbor''
     (skynet_module_init ''./?.so'') = Some (Some m, M') \<and> m_name m = ''harbor'' \<and> modules_ok M'"
proof -
  let ?dl = "\<lambda>f. if f = ''./harbor.so'' then Some (1 :: nat) else None"
  let ?sym = "\<lambda>_ s. Some (length s)"
  let ?M = "skynet_module_init ''./?.so''"
  have ok: "modules_ok ?M" by (simp add: modules_ok_def skynet_module_init_def)
  have "map_option fst (skynet_module_query ?dl ?sym ''harbor'' ?M) =
     Some (Some \<lparr>m_name = ''harbor'', m_module = 1, m_create = Some 13, m_init = Some 11, m_release = Some 14\<rparr>)"
    by code_simp
  then show ?thesis
    using module_query_correct [OF ok, of "''harbor''" ?dl ?sym] by (auto split: option.splits)
qed

end
