(* ===== verification/Server.thy ===== *)
theory Server
  imports HandleTable Timer Cast Group Module
begin

text \<open>
  \<open>skynet-src/skynet_server.c\<close>, with \<open>skynet_harbor.c\<close>, \<open>skynet_env.c\<close>, \<open>skynet_error.c\<close> and
  \<open>skynet_monitor.c\<close>: the service contexts of one node and every operation a service can call.
  The record \<open>node\<close> holds the state of the process: the heap of contexts and of queues (a freed
  object is \<open>None\<close>), and the states of the components below.  Contexts and queues are numbered
  in the order of their allocation.  The services themselves (the shared libraries loaded by
  \<open>skynet_module.c\<close>) are the record \<open>module_api\<close> of arguments.  \<open>None\<close> is a failed assertion or an
  access to a freed object.
\<close>

unbundle bit_operations_syntax

section \<open>The state of a node\<close>

text \<open>What a \<open>void *\<close> message points to.\<close>

datatype payload =
    PNull
  | PBytes string
  | PRemoteName (rn_name: string) (rn_handle: u32)
  | PRemoteMessage (rm_name: string) (rm_handle: u32) (rm_message: payload) (rm_sz: u64)
  | PMulticast nat
  | PLocalcast (lc_group: "u32 list") (lc_msg: payload) (lc_sz: u64)

type_synonym message = "payload skynet_message"

record skynet_context =
  ctx_instance :: nat
  ctx_mod :: skynet_module
  ctx_handle :: u32
  ctx_ref :: int
  ctx_result :: string
  ctx_cb :: "nat option"
  ctx_session_id :: i32
  ctx_forward :: u32
  ctx_queue :: mqptr
  ctx_init :: bool
  ctx_endless :: bool

text \<open>\<open>node_freed\<close> records the payloads given to \<open>free\<close>, \<open>node_log\<close> the lines given to \<open>skynet_error\<close>.\<close>

record node =
  node_handles :: "nat handle_storage"
  node_ctx :: "nat \<Rightarrow> skynet_context option"
  node_mq :: "mqptr \<Rightarrow> payload message_queue option"
  node_gmq :: global_queue
  node_mods :: modules
  node_timer :: timer
  node_group :: "nat group_table"
  node_mc :: "nat \<Rightarrow> payload skynet_multicast_message option"
  node_env :: "string \<Rightarrow> string option"
  node_harbor :: u32
  node_remote :: "nat option"
  node_logger :: i32
  node_total :: int
  node_next :: nat
  node_freed :: "payload list"
  node_log :: "string list"

text \<open>
  The services: \<open>create\<close>, \<open>init\<close> and \<open>release\<close> of a module (by the address \<open>dlsym\<close> found), and the
  callback a service installed.  They may call every operation of the node.
\<close>

record module_api =
  api_dlopen :: "string \<Rightarrow> nat option"
  api_dlsym :: "nat \<Rightarrow> string \<Rightarrow> nat option"
  api_create :: "nat \<Rightarrow> node \<Rightarrow> (nat option \<times> node) option"
  api_init :: "nat \<Rightarrow> nat \<Rightarrow> nat \<Rightarrow> string option \<Rightarrow> node \<Rightarrow> (int \<times> node) option"
  api_release :: "nat \<Rightarrow> nat \<Rightarrow> node \<Rightarrow> node option"
  api_callback :: "nat \<Rightarrow> nat \<Rightarrow> i32 \<Rightarrow> i32 \<Rightarrow> u32 \<Rightarrow> payload \<Rightarrow> u64 \<Rightarrow> node \<Rightarrow> (int \<times> node) option"

definition free_data :: "payload \<Rightarrow> node \<Rightarrow> node" where
  "free_data d n = n\<lparr>node_freed := node_freed n @ [d]\<rparr>"

definition set_ctx :: "nat \<Rightarrow> skynet_context \<Rightarrow> node \<Rightarrow> node" where
  "set_ctx c ctx n = n\<lparr>node_ctx := (node_ctx n)(c \<mapsto> ctx)\<rparr>"

text \<open>\<open>ctx->handle\<close> of every context, which the handle storage reads.\<close>

definition ctx_handles :: "node \<Rightarrow> nat \<Rightarrow> u32" where
  "ctx_handles n c = (case node_ctx n c of Some ctx \<Rightarrow> ctx_handle ctx | None \<Rightarrow> 0)"

definition with_mq ::
  "mqptr \<Rightarrow> (global_queue \<times> payload message_queue \<Rightarrow> (global_queue \<times> payload message_queue) option) \<Rightarrow> node \<Rightarrow> node option" where
  "with_mq p f n = do {
     q \<leftarrow> node_mq n p;
     (g, q) \<leftarrow> f (node_gmq n, q);
     Some (n\<lparr>node_gmq := g, node_mq := (node_mq n)(p \<mapsto> q)\<rparr>)
   }"

section \<open>References to a context\<close>

definition skynet_context_grab :: "nat \<Rightarrow> node \<Rightarrow> node option" where
  "skynet_context_grab c n = do {
     ctx \<leftarrow> node_ctx n c;
     Some (set_ctx c (ctx\<lparr>ctx_ref := ctx_ref ctx + 1\<rparr>) n)
   }"

definition skynet_module_instance_release :: "module_api \<Rightarrow> skynet_module \<Rightarrow> nat \<Rightarrow> node \<Rightarrow> node option" where
  "skynet_module_instance_release api m inst n =
     (case m_release m of Some f \<Rightarrow> api_release api f inst n | None \<Rightarrow> Some n)"

definition delete_context :: "module_api \<Rightarrow> nat \<Rightarrow> node \<Rightarrow> node option" where
  "delete_context api c n = do {
     ctx \<leftarrow> node_ctx n c;
     n \<leftarrow> skynet_module_instance_release api (ctx_mod ctx) (ctx_instance ctx) n;
     n \<leftarrow> with_mq (ctx_queue ctx) (skynet_mq_mark_release (ctx_queue ctx)) n;
     Some (n\<lparr>node_ctx := (node_ctx n)(c := None), node_total := node_total n - 1\<rparr>)
   }"

text \<open>The result is false when the context was deleted (\<open>NULL\<close> in C).\<close>

definition skynet_context_release :: "module_api \<Rightarrow> nat \<Rightarrow> node \<Rightarrow> (bool \<times> node) option" where
  "skynet_context_release api c n = do {
     ctx \<leftarrow> node_ctx n c;
     let n = set_ctx c (ctx\<lparr>ctx_ref := ctx_ref ctx - 1\<rparr>) n;
     if ctx_ref ctx - 1 = 0 then do {
       n \<leftarrow> delete_context api c n;
       Some (False, n)
     } else Some (True, n)
   }"

text \<open>\<open>skynet_handle_grab\<close> and \<open>skynet_handle_retire\<close> with the reference counts they change.\<close>

definition handle_grab :: "u32 \<Rightarrow> node \<Rightarrow> (nat option \<times> node) option" where
  "handle_grab h n =
     (case skynet_handle_grab h (node_handles n, ctx_handles n) of
        Some c \<Rightarrow> do { n \<leftarrow> skynet_context_grab c n; Some (Some c, n) }
      | None \<Rightarrow> Some (None, n))"

definition handle_retire :: "module_api \<Rightarrow> u32 \<Rightarrow> node \<Rightarrow> node option" where
  "handle_retire api h n = do {
     (r, hs, _) \<leftarrow> skynet_handle_retire h (node_handles n, ctx_handles n);
     let n = n\<lparr>node_handles := hs\<rparr>;
     case r of
       Some c \<Rightarrow> map_option snd (skynet_context_release api c n)
     | None \<Rightarrow> Some n
   }"

section \<open>Messages\<close>

definition skynet_context_push :: "module_api \<Rightarrow> u32 \<Rightarrow> message \<Rightarrow> node \<Rightarrow> (int \<times> node) option" where
  "skynet_context_push api handle message n = do {
     (r, n) \<leftarrow> handle_grab handle n;
     case r of
       None \<Rightarrow> Some (-1, n)
     | Some c \<Rightarrow> do {
         ctx \<leftarrow> node_ctx n c;
         n \<leftarrow> with_mq (ctx_queue ctx) (skynet_mq_push (ctx_queue ctx) message) n;
         (_, n) \<leftarrow> skynet_context_release api c n;
         Some (0, n)
       }
   }"

text \<open>The type of a message travels in the top bits of its size.\<close>

definition pack_type :: "i32 \<Rightarrow> u64" where
  "pack_type ty = scast (push_bit HANDLE_REMOTE_SHIFT ty)"

definition unpack_type :: "u64 \<Rightarrow> i32" where
  "unpack_type sz = ucast (drop_bit HANDLE_REMOTE_SHIFT sz)"

definition unpack_size :: "u64 \<Rightarrow> u64" where
  "unpack_size sz = sz AND ucast HANDLE_MASK"

definition skynet_context_send ::
  "nat \<Rightarrow> payload \<Rightarrow> u64 \<Rightarrow> u32 \<Rightarrow> i32 \<Rightarrow> i32 \<Rightarrow> node \<Rightarrow> node option" where
  "skynet_context_send c msg sz source ty session n = do {
     ctx \<leftarrow> node_ctx n c;
     let smsg = \<lparr>msg_source = source, msg_session = session, msg_data = msg, msg_sz = sz OR pack_type ty\<rparr>;
     with_mq (ctx_queue ctx) (skynet_mq_push (ctx_queue ctx) smsg) n
   }"

text \<open>
  \<open>skynet_error\<close>: the line (already formatted; the buffer doubles until it fits) goes to the
  service named \<open>logger\<close>, whose handle is looked up until it is not negative and then kept.
\<close>

definition skynet_error :: "module_api \<Rightarrow> nat option \<Rightarrow> string \<Rightarrow> node \<Rightarrow> node option" where
  "skynet_error api context line n = do {
     n \<leftarrow> (if sint (node_logger n) < 0
            then do { h \<leftarrow> skynet_handle_findname ''logger'' (node_handles n); Some (n\<lparr>node_logger := h\<rparr>) }
            else Some n);
     if sint (node_logger n) < 0 then Some n
     else do {
       source \<leftarrow> (case context of None \<Rightarrow> Some 0 | Some c \<Rightarrow> map_option ctx_handle (node_ctx n c));
       let smsg = \<lparr>msg_source = source, msg_session = 0, msg_data = PBytes line,
                   msg_sz = of_nat (length line) OR pack_type PTYPE_TEXT\<rparr>;
       (r, n) \<leftarrow> skynet_context_push api (node_logger n) smsg (n\<lparr>node_log := node_log n @ [line]\<rparr>);
       if r \<noteq> 0 then Some (free_data (PBytes line) n) else Some n
     }
   }"

section \<open>Other nodes\<close>

definition GLOBALNAME_LENGTH :: nat where "GLOBALNAME_LENGTH = 16"

text \<open>The sizes of \<open>struct remote_name\<close> and \<open>struct remote_message\<close> on a 64-bit machine.\<close>

definition sizeof_remote_name :: u64 where "sizeof_remote_name = 20"
definition sizeof_remote_message :: u64 where "sizeof_remote_message = 40"

definition skynet_harbor_init :: "u32 \<Rightarrow> u32" where
  "skynet_harbor_init id' = push_bit HANDLE_REMOTE_SHIFT id'"

definition skynet_harbor_message_isremote :: "u32 \<Rightarrow> node \<Rightarrow> bool" where
  "skynet_harbor_message_isremote handle n \<longleftrightarrow> handle AND NOT HANDLE_MASK \<noteq> node_harbor n"

definition skynet_harbor_send :: "string \<Rightarrow> u32 \<Rightarrow> payload \<Rightarrow> u64 \<Rightarrow> u32 \<Rightarrow> i32 \<Rightarrow> node \<Rightarrow> node option" where
  "skynet_harbor_send nm h msg sz source session n = do {
     let ty = unpack_type sz;
     let sz = unpack_size sz;
     c_assert (ty \<noteq> PTYPE_SYSTEM \<and> ty \<noteq> PTYPE_HARBOR);
     remote \<leftarrow> node_remote n;
     skynet_context_send remote (PRemoteMessage nm h msg sz) sizeof_remote_message source ty session n
   }"

definition isdigit :: "char \<Rightarrow> bool" where "isdigit c \<longleftrightarrow> CHR ''0'' \<le> c \<and> c \<le> CHR ''9''"

definition skynet_harbor_register :: "string \<Rightarrow> u32 \<Rightarrow> node \<Rightarrow> node option" where
  "skynet_harbor_register nm h n = do {
     let number = list_all isdigit (take GLOBALNAME_LENGTH nm);
     c_assert (\<not> number);
     remote \<leftarrow> node_remote n;
     skynet_context_send remote (PRemoteName nm h) sizeof_remote_name 0 PTYPE_SYSTEM 0 n
   }"

definition copy_name :: "string \<Rightarrow> string" where
  "copy_name addr =
     take GLOBALNAME_LENGTH addr @ replicate (GLOBALNAME_LENGTH - length addr) (CHR 0x00)"

definition skynet_isremote :: "u32 \<Rightarrow> node \<Rightarrow> bool \<times> i32" where
  "skynet_isremote handle n =
     (skynet_harbor_message_isremote handle n, drop_bit HANDLE_REMOTE_SHIFT handle)"

definition send_message :: "module_api \<Rightarrow> u32 \<Rightarrow> message \<Rightarrow> node \<Rightarrow> node option" where
  "send_message api des msg n =
     (if skynet_harbor_message_isremote des n then
        skynet_harbor_send [] des (msg_data msg) (msg_sz msg) (msg_source msg) (msg_session msg) n
      else do {
        (r, n) \<leftarrow> skynet_context_push api des msg n;
        if r \<noteq> 0 then
          skynet_error api None
            (''Drop message from '' @ sprintf_x (msg_source msg) @ '' forward to '' @ sprintf_x des @
             '' (size='' @ sprintf_d (ucast (msg_sz msg)) @ '')'') (free_data (msg_data msg) n)
        else Some n
      })"

section \<open>Dispatch\<close>

text \<open>\<open>_forwarding\<close>: the callback may have asked that its message be passed on.\<close>

definition forwarding :: "module_api \<Rightarrow> nat \<Rightarrow> message \<Rightarrow> node \<Rightarrow> (int \<times> node) option" where
  "forwarding api c msg n = do {
     ctx \<leftarrow> node_ctx n c;
     if ctx_forward ctx \<noteq> 0 then do {
       n \<leftarrow> send_message api (ctx_forward ctx) msg (set_ctx c (ctx\<lparr>ctx_forward := 0\<rparr>) n);
       Some (1, n)
     } else Some (0, n)
   }"

text \<open>\<open>_mc\<close>, the callback for a multicast message: what is forwarded is a copy.\<close>

definition mc_callback :: "module_api \<Rightarrow> nat \<Rightarrow> u32 \<Rightarrow> payload \<Rightarrow> u64 \<Rightarrow> node \<Rightarrow> node option" where
  "mc_callback api c source msg sz n = do {
     let ty = unpack_type sz;
     let sz = unpack_size sz;
     ctx \<leftarrow> node_ctx n c;
     cb \<leftarrow> ctx_cb ctx;
     (_, n) \<leftarrow> api_callback api cb c ty 0 source msg sz n;
     ctx \<leftarrow> node_ctx n c;
     if ctx_forward ctx \<noteq> 0 then
       send_message api (ctx_forward ctx)
         \<lparr>msg_source = source, msg_session = 0, msg_data = msg, msg_sz = sz OR pack_type ty\<rparr>
         (set_ctx c (ctx\<lparr>ctx_forward := 0\<rparr>) n)
     else Some n
   }"

definition dispatch_message :: "module_api \<Rightarrow> nat \<Rightarrow> message \<Rightarrow> node \<Rightarrow> node option" where
  "dispatch_message api c msg n = do {
     ctx \<leftarrow> node_ctx n c;
     c_assert (ctx_init ctx);
     let ty = unpack_type (msg_sz msg);
     let sz = unpack_size (msg_sz msg);
     if ty = PTYPE_MULTICAST then
       (case msg_data msg of
          PMulticast p \<Rightarrow> do {
            mc \<leftarrow> node_mc n p;
            (mc, r) \<leftarrow> skynet_multicast_dispatch
               (Some (\<lambda>source d sz r. r \<bind> mc_callback api c source d sz)) mc (Some n);
            n \<leftarrow> r;
            let n = n\<lparr>node_mc := (node_mc n)(p := (if mc_freed mc then None else Some mc))\<rparr>;
            Some (if mc_freed mc then free_data (mc_msg mc) n else n)
          }
        | _ \<Rightarrow> None)
     else do {
       cb \<leftarrow> ctx_cb ctx;
       (reserve, n) \<leftarrow> api_callback api cb c ty (msg_session msg) (msg_source msg) (msg_data msg) sz n;
       (f, n) \<leftarrow> forwarding api c msg n;
       if reserve = 0 \<and> f = 0 then Some (free_data (msg_data msg) n) else Some n
     }
   }"

record skynet_monitor =
  sm_version :: i32
  sm_check_version :: i32
  sm_source :: u32
  sm_destination :: u32

definition skynet_monitor_new :: skynet_monitor where
  "skynet_monitor_new = \<lparr>sm_version = 0, sm_check_version = 0, sm_source = 0, sm_destination = 0\<rparr>"

definition skynet_monitor_trigger :: "u32 \<Rightarrow> u32 \<Rightarrow> skynet_monitor \<Rightarrow> skynet_monitor" where
  "skynet_monitor_trigger source destination sm =
     sm\<lparr>sm_source := source, sm_destination := destination, sm_version := sm_version sm + 1\<rparr>"

definition skynet_context_endless :: "module_api \<Rightarrow> u32 \<Rightarrow> node \<Rightarrow> node option" where
  "skynet_context_endless api handle n = do {
     (r, n) \<leftarrow> handle_grab handle n;
     case r of
       None \<Rightarrow> Some n
     | Some c \<Rightarrow> do {
         ctx \<leftarrow> node_ctx n c;
         (_, n) \<leftarrow> skynet_context_release api c (set_ctx c (ctx\<lparr>ctx_endless := True\<rparr>) n);
         Some n
       }
   }"

definition pad8 :: "string \<Rightarrow> string" where "pad8 s = replicate (8 - length s) (CHR ''0'') @ s"

definition skynet_monitor_check :: "module_api \<Rightarrow> skynet_monitor \<times> node \<Rightarrow> (skynet_monitor \<times> node) option" where
  "skynet_monitor_check api smn = do {
     let (sm, n) = smn;
     if sm_version sm = sm_check_version sm then
       if sm_destination sm \<noteq> 0 then do {
         n \<leftarrow> skynet_context_endless api (sm_destination sm) n;
         n \<leftarrow> skynet_error api None
           (''A message from [ :'' @ pad8 (sprintf_x (sm_source sm)) @ '' ] to [ :'' @
            pad8 (sprintf_x (sm_destination sm)) @ '' ] maybe in an endless loop'') n;
         Some (sm, n)
       } else Some (sm, n)
     else Some (sm\<lparr>sm_check_version := sm_version sm\<rparr>, n)
   }"

text \<open>The result is 1 when there was no queue to serve.\<close>

definition skynet_context_message_dispatch ::
  "module_api \<Rightarrow> skynet_monitor \<times> node \<Rightarrow> (int \<times> skynet_monitor \<times> node) option" where
  "skynet_context_message_dispatch api smn = do {
     let (sm, n) = smn;
     let (r, g) = skynet_globalmq_pop (node_gmq n);
     let n = n\<lparr>node_gmq := g\<rparr>;
     case r of
       None \<Rightarrow> Some (1, sm, n)
     | Some p \<Rightarrow> do {
         q \<leftarrow> node_mq n p;
         let handle = mq_handle q;
         (r, n) \<leftarrow> handle_grab handle n;
         case r of
           None \<Rightarrow> do {
             q \<leftarrow> node_mq n p;
             (g, q, ms) \<leftarrow> skynet_mq_release p (node_gmq n, q);
             let n = n\<lparr>node_gmq := g, node_mq := (node_mq n)(p := q),
                        node_freed := node_freed n @ map (\<lambda>m. msg_data (the m)) ms\<rparr>;
             n \<leftarrow> (if 0 < length ms
                   then skynet_error api None
                     (''Drop message queue '' @ sprintf_x handle @ '' ('' @ print_base 10 (length ms) @ '' messages)'') n
                   else Some n);
             Some (0, sm, n)
           }
         | Some c \<Rightarrow> do {
             q \<leftarrow> node_mq n p;
             let (ret, msg, q) = skynet_mq_pop q;
             let n = n\<lparr>node_mq := (node_mq n)(p \<mapsto> q)\<rparr>;
             if ret \<noteq> 0 then do {
               (_, n) \<leftarrow> skynet_context_release api c n;
               Some (0, sm, n)
             } else do {
               msg \<leftarrow> msg;
               let sm = skynet_monitor_trigger (msg_source msg) handle sm;
               ctx \<leftarrow> node_ctx n c;
               n \<leftarrow> (case ctx_cb ctx of
                      None \<Rightarrow> skynet_error api None
                        (''Drop message from '' @ sprintf_x (msg_source msg) @ '' to '' @ sprintf_x handle @
                         '' without callback , size = '' @ sprintf_d (ucast (msg_sz msg))) (free_data (msg_data msg) n)
                    | Some _ \<Rightarrow> dispatch_message api c msg n);
               ctx \<leftarrow> node_ctx n c;
               c_assert (p = ctx_queue ctx);
               (_, n) \<leftarrow> skynet_context_release api c n;
               n \<leftarrow> with_mq p (skynet_mq_pushglobal p) n;
               Some (0, skynet_monitor_trigger 0 0 sm, n)
             }
           }
       }
   }"

section \<open>Contexts\<close>

definition skynet_module_instance_create :: "module_api \<Rightarrow> skynet_module \<Rightarrow> node \<Rightarrow> (nat option \<times> node) option" where
  "skynet_module_instance_create api m n =
     (case m_create m of Some f \<Rightarrow> api_create api f n | None \<Rightarrow> Some (Some (2 ^ 64 - 1), n))"

definition skynet_module_instance_init ::
  "module_api \<Rightarrow> skynet_module \<Rightarrow> nat \<Rightarrow> nat \<Rightarrow> string option \<Rightarrow> node \<Rightarrow> (int \<times> node) option" where
  "skynet_module_instance_init api m inst c parm n = do {
     f \<leftarrow> m_init m;
     api_init api f inst c parm n
   }"

text \<open>\<open>skynet_context_new\<close> up to the call of \<open>init\<close>: the context is registered and has its queue.\<close>

definition context_alloc :: "skynet_module \<Rightarrow> nat \<Rightarrow> node \<Rightarrow> (nat \<times> node) option" where
  "context_alloc m inst n = do {
     let c = node_next n;
     let p = c + 1;
     let ctx = \<lparr>ctx_instance = inst, ctx_mod = m, ctx_handle = 0, ctx_ref = 2, ctx_result = [], ctx_cb = None,
                ctx_session_id = 0, ctx_forward = 0, ctx_queue = p, ctx_init = False, ctx_endless = False\<rparr>;
     let n = set_ctx c ctx (n\<lparr>node_next := c + 2\<rparr>);
     (h, hs, hdl) \<leftarrow> skynet_handle_register c (node_handles n, ctx_handles n);
     let n = set_ctx c (ctx\<lparr>ctx_handle := hdl c\<rparr>) (n\<lparr>node_handles := hs\<rparr>);
     Some (c, n\<lparr>node_mq := (node_mq n)(p \<mapsto> skynet_mq_create h), node_total := node_total n + 1\<rparr>)
   }"

definition skynet_context_new :: "module_api \<Rightarrow> string \<Rightarrow> string option \<Rightarrow> node \<Rightarrow> (nat option \<times> node) option" where
  "skynet_context_new api nm param n = do {
     (m, mods) \<leftarrow> skynet_module_query (api_dlopen api) (api_dlsym api) nm (node_mods n);
     let n = n\<lparr>node_mods := mods\<rparr>;
     case m of None \<Rightarrow> Some (None, n) | Some m \<Rightarrow> do {
       (inst, n) \<leftarrow> skynet_module_instance_create api m n;
       case inst of None \<Rightarrow> Some (None, n) | Some inst \<Rightarrow> do {
         (c, n) \<leftarrow> context_alloc m inst n;
         let queue = c + 1;
         (r, n) \<leftarrow> skynet_module_instance_init api m inst c param n;
         if r = 0 then do {
           (alive, n) \<leftarrow> skynet_context_release api c n;
           n \<leftarrow> (if alive then do { ctx \<leftarrow> node_ctx n c; Some (set_ctx c (ctx\<lparr>ctx_init := True\<rparr>) n) } else Some n);
           n \<leftarrow> with_mq queue (skynet_mq_force_push queue) n;
           Some (if alive then Some c else None, n)
         } else do {
           (_, n) \<leftarrow> skynet_context_release api c n;
           ctx \<leftarrow> node_ctx n c;
           n \<leftarrow> handle_retire api (ctx_handle ctx) n;
           q \<leftarrow> node_mq n queue;
           (g, q, ms) \<leftarrow> skynet_mq_release queue (node_gmq n, q);
           Some (None, n\<lparr>node_gmq := g, node_mq := (node_mq n)(queue := q),
                         node_freed := node_freed n @ map (\<lambda>m. msg_data (the m)) ms\<rparr>)
         }
       }
     }
   }"

definition skynet_context_newsession :: "nat \<Rightarrow> node \<Rightarrow> (i32 \<times> node) option" where
  "skynet_context_newsession c n = do {
     ctx \<leftarrow> node_ctx n c;
     let id' = ctx_session_id ctx + 1;
     Some (id' AND 0x7fffffff, set_ctx c (ctx\<lparr>ctx_session_id := id'\<rparr>) n)
   }"

definition skynet_forward :: "nat \<Rightarrow> u32 \<Rightarrow> node \<Rightarrow> node option" where
  "skynet_forward c destination n = do {
     ctx \<leftarrow> node_ctx n c;
     c_assert (ctx_forward ctx = 0);
     Some (set_ctx c (ctx\<lparr>ctx_forward := destination\<rparr>) n)
   }"

definition skynet_callback :: "nat \<Rightarrow> nat option \<Rightarrow> node \<Rightarrow> node option" where
  "skynet_callback c cb n = do {
     ctx \<leftarrow> node_ctx n c;
     Some (set_ctx c (ctx\<lparr>ctx_cb := cb\<rparr>) n)
   }"

section \<open>Sending\<close>

definition PTYPE_TAG :: "i32 \<Rightarrow> i32 \<Rightarrow> bool" where "PTYPE_TAG tag ty \<longleftrightarrow> ty AND tag \<noteq> 0"

text \<open>
  \<open>_filter_args\<close>: allocate the session, copy the data (the copy has the same contents), and pack
  the type into the size.  The result is the session and the packed size.
\<close>

definition filter_args :: "nat \<Rightarrow> i32 \<Rightarrow> i32 \<Rightarrow> u64 \<Rightarrow> node \<Rightarrow> (i32 \<times> u64 \<times> node) option" where
  "filter_args c ty session sz n = do {
     (session, n) \<leftarrow> (if PTYPE_TAG PTYPE_TAG_ALLOCSESSION ty then do {
                         c_assert (session = 0);
                         skynet_context_newsession c n
                       } else Some (session, n));
     c_assert (unpack_size sz = sz);
     Some (session, sz OR pack_type (ty AND 0xff), n)
   }"

definition skynet_send ::
  "module_api \<Rightarrow> nat \<Rightarrow> u32 \<Rightarrow> u32 \<Rightarrow> i32 \<Rightarrow> i32 \<Rightarrow> payload \<Rightarrow> u64 \<Rightarrow> node \<Rightarrow> (i32 \<times> node) option" where
  "skynet_send api c source destination ty session data sz n = do {
     (session, sz, n) \<leftarrow> filter_args c ty session sz n;
     ctx \<leftarrow> node_ctx n c;
     let source = (if source = 0 then ctx_handle ctx else source);
     if destination = 0 then Some (session, n)
     else if skynet_harbor_message_isremote destination n then do {
       n \<leftarrow> skynet_harbor_send [] destination data sz source session n;
       Some (session, n)
     } else do {
       (r, n) \<leftarrow> skynet_context_push api destination
          \<lparr>msg_source = source, msg_session = session, msg_data = data, msg_sz = sz\<rparr> n;
       if r \<noteq> 0 then do {
         n \<leftarrow> skynet_error api None
           (''Drop message from '' @ sprintf_x source @ '' to '' @ sprintf_x destination @
            '' (type='' @ sprintf_d (ty) @ '')(size='' @ sprintf_d (ucast (unpack_size sz)) @ '')'') (free_data data n);
         Some (-1, n)
       } else Some (session, n)
     }
   }"

text \<open>The first character of a C string, the terminating NUL for an empty one.\<close>

definition first_char :: "string \<Rightarrow> char" where
  "first_char s = (case s of c # _ \<Rightarrow> c | [] \<Rightarrow> CHR 0x00)"

definition skynet_sendname ::
  "module_api \<Rightarrow> nat \<Rightarrow> string \<Rightarrow> i32 \<Rightarrow> i32 \<Rightarrow> payload \<Rightarrow> u64 \<Rightarrow> node \<Rightarrow> (i32 \<times> node) option" where
  "skynet_sendname api c addr ty session data sz n = do {
     ctx \<leftarrow> node_ctx n c;
     let source = ctx_handle ctx;
     if first_char addr = CHR '':'' then
       skynet_send api c source (ucast (strtoul16 (tl addr))) ty session data sz n
     else if first_char addr = CHR ''.'' then do {
       des \<leftarrow> skynet_handle_findname (tl addr) (node_handles n);
       if des = 0 then do {
         let n = (if PTYPE_TAG PTYPE_TAG_DONTCOPY ty then free_data data n else n);
         n \<leftarrow> skynet_error api (Some c) (''Drop message to '' @ addr) n;
         Some (session, n)
       } else skynet_send api c source des ty session data sz n
     } else do {
       (session, sz, n) \<leftarrow> filter_args c ty session sz n;
       n \<leftarrow> skynet_harbor_send (copy_name addr) 0 data sz source session n;
       Some (session, n)
     }
   }"

definition skynet_queryname :: "module_api \<Rightarrow> nat \<Rightarrow> string \<Rightarrow> node \<Rightarrow> (u32 \<times> node) option" where
  "skynet_queryname api c nm n =
     (if first_char nm = CHR '':'' then Some (ucast (strtoul16 (tl nm)), n)
      else if first_char nm = CHR ''.'' then do {
        h \<leftarrow> skynet_handle_findname (tl nm) (node_handles n);
        Some (h, n)
      } else do {
        n \<leftarrow> skynet_error api (Some c) (''Don't support query global name '' @ nm) n;
        Some (0, n)
      })"

section \<open>Commands\<close>

definition hex_upper :: string where "hex_upper = ''0123456789ABCDEF''"

definition id_to_hex :: "u32 \<Rightarrow> string" where
  "id_to_hex id' =
     CHR '':'' # map (\<lambda>i. hex_upper ! unat (drop_bit ((7 - i) * 4) id' AND 0xf)) [0..<8]"

text \<open>A command whose answer is a text stores it in \<open>ctx->result\<close>, 32 bytes, and returns that.\<close>

definition answer :: "nat \<Rightarrow> string \<Rightarrow> node \<Rightarrow> (string option \<times> node) option" where
  "answer c text' n = do {
     ctx \<leftarrow> node_ctx n c;
     c_assert (length text' + 1 \<le> 32);
     Some (Some text', set_ctx c (ctx\<lparr>ctx_result := text'\<rparr>) n)
   }"

text \<open>\<open>skynet_context_push\<close> as the timer calls it, and the timer's operations on the node.\<close>

definition timer_push :: "module_api \<Rightarrow> (payload, node option) context_push" where
  "timer_push api handle m w =
     (let m' = \<lparr>msg_source = msg_source m, msg_session = msg_session m,
               msg_data = (case msg_data m of Some d \<Rightarrow> d | None \<Rightarrow> PNull), msg_sz = msg_sz m\<rparr>
      in case w \<bind> skynet_context_push api handle m' of
           Some (r, n) \<Rightarrow> (r, Some n)
         | None \<Rightarrow> (0, None))"

definition node_timeout :: "module_api \<Rightarrow> u32 \<Rightarrow> i32 \<Rightarrow> i32 \<Rightarrow> node \<Rightarrow> (i32 \<times> node) option" where
  "node_timeout api handle ti session n = do {
     (r, T, w) \<leftarrow> skynet_timeout (timer_push api) handle ti session (node_timer n, Some n);
     n \<leftarrow> w;
     Some (r, n\<lparr>node_timer := T\<rparr>)
   }"

definition node_updatetime :: "module_api \<Rightarrow> u64 \<Rightarrow> node \<Rightarrow> node option" where
  "node_updatetime api cp n = do {
     (T, w) \<leftarrow> skynet_updatetime (timer_push api) cp (node_timer n, Some n);
     n \<leftarrow> w;
     Some (n\<lparr>node_timer := T\<rparr>)
   }"

text \<open>The group table on the node: a new group gets a \<open>multicast\<close> service, a command is a system message.\<close>

definition group_new :: "module_api \<Rightarrow> (nat, node option) new_context" where
  "group_new api w = do {
     n \<leftarrow> w;
     (r, n) \<leftarrow> skynet_context_new api ''multicast'' None n;
     c \<leftarrow> r;
     Some (c, Some n)
   }"

definition group_send :: "(nat, node option) send_text" where
  "group_send c t w = w \<bind> skynet_context_send c (PBytes (t @ [CHR 0x00])) (of_nat (length t + 1)) 0 PTYPE_SYSTEM 0"

definition group_handle :: "node option \<Rightarrow> nat \<Rightarrow> u32" where
  "group_handle w c = (case w of Some n \<Rightarrow> ctx_handles n c | None \<Rightarrow> 0)"

definition put_group :: "nat group_table \<times> node option \<Rightarrow> node option" where
  "put_group gw = map_option (\<lambda>n. n\<lparr>node_group := fst gw\<rparr>) (snd gw)"

definition group_command ::
  "module_api \<Rightarrow> nat \<Rightarrow> string \<Rightarrow> i32 \<Rightarrow> u32 \<Rightarrow> node \<Rightarrow> (string option \<times> node) option" where
  "group_command api c cmd handle v n = do {
     ctx \<leftarrow> node_ctx n c;
     if v \<noteq> 0 \<and> skynet_harbor_message_isremote v n then do {
       n \<leftarrow> skynet_error api (Some c) (''Can't add remote handle '' @ sprintf_x v) n;
       Some (None, n)
     } else
       let self = (if v \<noteq> 0 then v else ctx_handle ctx) in
       if cmd = ''ENTER'' then do {
         gw \<leftarrow> skynet_group_enter (group_new api) group_send handle self (node_group n, Some n);
         n \<leftarrow> put_group gw;
         Some (None, n)
       } else if cmd = ''LEAVE'' then do {
         gw \<leftarrow> skynet_group_leave group_send handle self (node_group n, Some n);
         n \<leftarrow> put_group gw;
         Some (None, n)
       } else if cmd = ''QUERY'' then do {
         (addr, gw) \<leftarrow> skynet_group_query (group_new api) group_handle handle (node_group n, Some n);
         n \<leftarrow> put_group gw;
         if addr = 0 then Some (None, n) else answer c (id_to_hex addr) n
       } else if cmd = ''CLEAR'' then do {
         gw \<leftarrow> skynet_group_clear group_send handle (node_group n, Some n);
         n \<leftarrow> put_group gw;
         Some (None, n)
       } else Some (None, n)
   }"

definition skynet_setenv :: "string \<Rightarrow> string \<Rightarrow> node \<Rightarrow> node option" where
  "skynet_setenv key v n = do {
     c_assert (node_env n key = None);
     Some (n\<lparr>node_env := (node_env n)(key \<mapsto> v)\<rparr>)
   }"

text \<open>\<open>skynet_handle_retireall\<close> with the releases: one round over the slots, then again until none is met.\<close>

partial_function (option) retireall_round :: "module_api \<Rightarrow> nat \<Rightarrow> nat \<Rightarrow> node \<Rightarrow> (nat \<times> node) option" where
  "retireall_round api i k n =
     (if i < slot_size (node_handles n) then
        case slot (node_handles n) ! i of
          Some c \<Rightarrow> do {
            n \<leftarrow> handle_retire api (ctx_handles n c) n;
            retireall_round api (i + 1) (k + 1) n
          }
        | None \<Rightarrow> retireall_round api (i + 1) k n
      else Some (k, n))"

partial_function (option) handle_retireall :: "module_api \<Rightarrow> node \<Rightarrow> node option" where
  "handle_retireall api n = do {
     (k, n) \<leftarrow> retireall_round api 0 0 n;
     if k = 0 then Some n else handle_retireall api n
   }"

text \<open>\<open>strsep(&args, " \t\r\n")\<close>: the part before the first separator, and the part behind it if there is one.\<close>

definition separator :: "char \<Rightarrow> bool" where
  "separator c \<longleftrightarrow> (of_char c :: nat) \<in> {32, 9, 13, 10}"

definition strsep :: "string \<Rightarrow> string \<times> string option" where
  "strsep s =
     (let t = takeWhile (\<lambda>c. \<not> separator c) s
      in (t, case drop (length t) s of [] \<Rightarrow> None | _ # r \<Rightarrow> Some r))"

section \<open>\<open>skynet_command\<close>, one definition per command\<close>

type_synonym command_result = "(string option \<times> node) option"

definition cmd_timeout :: "module_api \<Rightarrow> nat \<Rightarrow> string \<Rightarrow> node \<Rightarrow> command_result" where
  "cmd_timeout api c param n = do {
     let ti = ucast (strtol10 param);
     (session, n) \<leftarrow> skynet_context_newsession c n;
     ctx \<leftarrow> node_ctx n c;
     (_, n) \<leftarrow> node_timeout api (ctx_handle ctx) ti session n;
     answer c (sprintf_d session) n
   }"

definition cmd_lock :: "nat \<Rightarrow> node \<Rightarrow> command_result" where
  "cmd_lock c n = do {
     ctx \<leftarrow> node_ctx n c;
     if \<not> ctx_init ctx then Some (None, n)
     else do {
       n \<leftarrow> with_mq (ctx_queue ctx)
              (\<lambda>(g, q). map_option (Pair g) (skynet_mq_lock (ctx_session_id ctx + 1) q)) n;
       Some (None, n)
     }
   }"

definition cmd_reg :: "nat \<Rightarrow> string option \<Rightarrow> node \<Rightarrow> command_result" where
  "cmd_reg c param n = do {
     ctx \<leftarrow> node_ctx n c;
     case param of
       None \<Rightarrow> answer c (CHR '':'' # sprintf_x (ctx_handle ctx)) n
     | Some p \<Rightarrow>
         if p = [] then answer c (CHR '':'' # sprintf_x (ctx_handle ctx)) n
         else if first_char p = CHR ''.'' then do {
           (r, hs) \<leftarrow> skynet_handle_namehandle (ctx_handle ctx) (tl p) (node_handles n);
           Some (r, n\<lparr>node_handles := hs\<rparr>)
         } else do {
           c_assert (ctx_handle ctx \<noteq> 0);
           n \<leftarrow> skynet_harbor_register (copy_name p) (ctx_handle ctx) n;
           Some (None, n)
         }
   }"

definition cmd_query :: "nat \<Rightarrow> string \<Rightarrow> node \<Rightarrow> command_result" where
  "cmd_query c param n =
     (if first_char param = CHR ''.'' then do {
        h \<leftarrow> skynet_handle_findname (tl param) (node_handles n);
        answer c (CHR '':'' # sprintf_x h) n
      } else Some (None, n))"

text \<open>\<open>sscanf(param, "%s %s", name, handle)\<close> into uninitialised arrays: a missing word is an error when it is read.\<close>

definition cmd_name :: "nat \<Rightarrow> string \<Rightarrow> node \<Rightarrow> command_result" where
  "cmd_name c param n = do {
     (nm, rest) \<leftarrow> scan_s param;
     (handle, _) \<leftarrow> scan_s rest;
     if first_char handle \<noteq> CHR '':'' then Some (None, n)
     else
       let handle_id = ucast (strtoul16 (tl handle)) in
       if handle_id = 0 then Some (None, n)
       else if first_char nm = CHR ''.'' then do {
         (r, hs) \<leftarrow> skynet_handle_namehandle handle_id (tl nm) (node_handles n);
         Some (r, n\<lparr>node_handles := hs\<rparr>)
       } else do {
         n \<leftarrow> skynet_harbor_register (copy_name nm) handle_id n;
         Some (None, n)
       }
   }"

definition cmd_kill :: "module_api \<Rightarrow> nat \<Rightarrow> string \<Rightarrow> node \<Rightarrow> command_result" where
  "cmd_kill api c param n = do {
     (handle, n) \<leftarrow>
       (if first_char param = CHR '':'' then Some (ucast (strtoul16 (tl param)), n)
        else if first_char param = CHR ''.'' then do {
          h \<leftarrow> skynet_handle_findname (tl param) (node_handles n);
          Some (h, n)
        } else do {
          n \<leftarrow> skynet_error api (Some c) (''Can't kill '' @ param) n;
          Some (0, n)
        });
     n \<leftarrow> (if handle \<noteq> 0 then handle_retire api handle n else Some n);
     Some (None, n)
   }"

definition cmd_launch :: "module_api \<Rightarrow> nat \<Rightarrow> string \<Rightarrow> node \<Rightarrow> command_result" where
  "cmd_launch api c param n = do {
     let (m, args) = strsep param;
     (inst, n) \<leftarrow> skynet_context_new api m args n;
     case inst of
       None \<Rightarrow> Some (None, n)
     | Some i \<Rightarrow> do {
         ctx \<leftarrow> node_ctx n i;
         answer c (id_to_hex (ctx_handle ctx)) n
       }
   }"

definition cmd_setenv :: "string \<Rightarrow> node \<Rightarrow> command_result" where
  "cmd_setenv param n =
     (let key = takeWhile (\<lambda>ch. ch \<noteq> CHR '' '') param in
      case drop (length key) param of
        [] \<Rightarrow> Some (None, n)
      | _ # v \<Rightarrow> do { n \<leftarrow> skynet_setenv key v n; Some (None, n) })"

text \<open>\<open>sscanf(tmp, "%s %d :%x", cmd, &handle, &addr)\<close>; numbers that are not scanned stay 0.\<close>

definition scan_group :: "string \<Rightarrow> (string \<times> i32 \<times> u32) option" where
  "scan_group tmp = do {
     (cmd, rest) \<leftarrow> scan_s tmp;
     Some (case scan_d rest of
             None \<Rightarrow> (cmd, 0, 0)
           | Some (h, rest) \<Rightarrow>
               (case dropWhile isspace rest of
                  ch # rest \<Rightarrow>
                    if ch = CHR '':'' then (case scan_x rest of Some (v, _) \<Rightarrow> (cmd, h, v) | None \<Rightarrow> (cmd, h, 0))
                    else (cmd, h, 0)
                | [] \<Rightarrow> (cmd, h, 0)))
   }"

definition cmd_group :: "module_api \<Rightarrow> nat \<Rightarrow> string \<Rightarrow> node \<Rightarrow> command_result" where
  "cmd_group api c param n = do {
     (cmd, handle, addr) \<leftarrow> scan_group param;
     group_command api c cmd handle addr n
   }"

definition cmd_endless :: "nat \<Rightarrow> node \<Rightarrow> command_result" where
  "cmd_endless c n = do {
     ctx \<leftarrow> node_ctx n c;
     if ctx_endless ctx then
       Some (Some ''1'', set_ctx c (ctx\<lparr>ctx_result := ''1'', ctx_endless := False\<rparr>) n)
     else Some (None, n)
   }"

text \<open>A parameter that is dereferenced must not be \<open>NULL\<close>.\<close>

definition skynet_command :: "module_api \<Rightarrow> nat \<Rightarrow> string \<Rightarrow> string option \<Rightarrow> node \<Rightarrow> command_result" where
  "skynet_command api c cmd param n =
     (if cmd = ''TIMEOUT'' then param \<bind> (\<lambda>p. cmd_timeout api c p n)
      else if cmd = ''LOCK'' then cmd_lock c n
      else if cmd = ''REG'' then cmd_reg c param n
      else if cmd = ''QUERY'' then param \<bind> (\<lambda>p. cmd_query c p n)
      else if cmd = ''NAME'' then param \<bind> (\<lambda>p. cmd_name c p n)
      else if cmd = ''NOW'' then answer c (sprintf_u (skynet_gettime (node_timer n))) n
      else if cmd = ''EXIT'' then do {
        ctx \<leftarrow> node_ctx n c;
        n \<leftarrow> handle_retire api (ctx_handle ctx) n;
        Some (None, n)
      }
      else if cmd = ''KILL'' then param \<bind> (\<lambda>p. cmd_kill api c p n)
      else if cmd = ''LAUNCH'' then param \<bind> (\<lambda>p. cmd_launch api c p n)
      else if cmd = ''GETENV'' then param \<bind> (\<lambda>p. Some (node_env n p, n))
      else if cmd = ''SETENV'' then param \<bind> (\<lambda>p. cmd_setenv p n)
      else if cmd = ''STARTTIME'' then answer c (sprintf_u (skynet_gettime_fixsec (node_timer n))) n
      else if cmd = ''GROUP'' then param \<bind> (\<lambda>p. cmd_group api c p n)
      else if cmd = ''ENDLESS'' then cmd_endless c n
      else if cmd = ''ABORT'' then do { n \<leftarrow> handle_retireall api n; Some (None, n) }
      else Some (None, n))"

section \<open>Start\<close>

definition node_start :: "u32 \<Rightarrow> string \<Rightarrow> u32 \<Rightarrow> u32 \<Rightarrow> u64 \<Rightarrow> node" where
  "node_start id' module_path sec cs point =
     \<lparr>node_handles = skynet_handle_init id', node_ctx = (\<lambda>_. None), node_mq = (\<lambda>_. None), node_gmq = skynet_mq_init,
      node_mods = skynet_module_init module_path, node_timer = skynet_timer_init sec cs point,
      node_group = skynet_group_init, node_mc = (\<lambda>_. None), node_env = (\<lambda>_. None),
      node_harbor = skynet_harbor_init id', node_remote = None, node_logger = -1, node_total = 0,
      node_next = 0, node_freed = [], node_log = []\<rparr>"

definition skynet_harbor_start :: "module_api \<Rightarrow> string \<Rightarrow> string \<Rightarrow> node \<Rightarrow> (int \<times> node) option" where
  "skynet_harbor_start api master local n = do {
     let args = master @ '' '' @ local @ '' '' @ sprintf_d (drop_bit HANDLE_REMOTE_SHIFT (node_harbor n));
     c_assert (length args + 1 \<le> length master + length local + 32);
     (inst, n) \<leftarrow> skynet_context_new api ''harbor'' (Some args) n;
     case inst of
       None \<Rightarrow> Some (1, n)
     | Some c \<Rightarrow> Some (0, n\<lparr>node_remote := Some c\<rparr>)
   }"

end
