(* ===== verification/ServerProps.thy ===== *)
theory ServerProps
  imports Server
begin

text \<open>
  The properties of \<open>skynet-src/skynet_server.c\<close>: a send reaches exactly the queue of the service the
  handle names and leaves every reference count as it was, the type and size of a message survive
  their packing, names and printed handles resolve to the services they were made for, and the
  life of a context from \<open>skynet_context_new\<close> to its deletion.
\<close>

unbundle bit_operations_syntax

section \<open>Sending to a live service\<close>

definition resolves :: "node \<Rightarrow> u32 \<Rightarrow> nat \<Rightarrow> skynet_context \<Rightarrow> payload message_queue \<Rightarrow> bool" where
  "resolves n h c ctx q \<longleftrightarrow> skynet_handle_grab h (node_handles n, ctx_handles n) = Some c \<and>
     node_ctx n c = Some ctx \<and> 0 < ctx_ref ctx \<and> node_mq n (ctx_queue ctx) = Some q"

text \<open>The node with the queue of \<open>ctx\<close> and the global queue replaced.\<close>

definition put_queue :: "node \<Rightarrow> mqptr \<Rightarrow> global_queue \<times> payload message_queue \<Rightarrow> node" where
  "put_queue n p gq = n\<lparr>node_gmq := fst gq, node_mq := (node_mq n)(p \<mapsto> snd gq)\<rparr>"

lemma set_ctx_same: "node_ctx n c = Some ctx \<Longrightarrow> set_ctx c ctx (set_ctx c ctx' n) = n"
  by (simp add: set_ctx_def fun_upd_idem)

lemma context_push_live:
  assumes "resolves n h c ctx q" "skynet_mq_push (ctx_queue ctx) m (node_gmq n, q) = Some gq"
  shows "skynet_context_push api h m n = Some (0, put_queue n (ctx_queue ctx) gq)"
proof -
  obtain g q' where gq: "gq = (g, q')" by force
  let ?up = "ctx\<lparr>ctx_ref := ctx_ref ctx + 1\<rparr>"
  have r: "skynet_handle_grab h (node_handles n, ctx_handles n) = Some c" "node_ctx n c = Some ctx"
    "0 < ctx_ref ctx" "node_mq n (ctx_queue ctx) = Some q"
    using assms(1) by (auto simp: resolves_def)
  have grab: "handle_grab h n = Some (Some c, set_ctx c ?up n)"
    using r by (simp add: handle_grab_def skynet_context_grab_def)
  let ?n = "(set_ctx c ?up n)\<lparr>node_gmq := g, node_mq := (node_mq n)(ctx_queue ctx \<mapsto> q')\<rparr>"
  have push: "with_mq (ctx_queue ctx) (skynet_mq_push (ctx_queue ctx) m) (set_ctx c ?up n) = Some ?n"
    using r(4) assms(2) gq by (simp add: with_mq_def set_ctx_def)
  have "skynet_context_release api c ?n = Some (True, set_ctx c ctx ?n)"
    using r(3) by (simp add: skynet_context_release_def set_ctx_def)
  moreover have "set_ctx c ctx ?n = put_queue n (ctx_queue ctx) gq"
    using r(2) by (simp add: set_ctx_def put_queue_def gq fun_upd_idem)
  ultimately show ?thesis
    using grab push by (simp add: skynet_context_push_def set_ctx_def)
qed

lemma context_push_dead:
  "skynet_handle_grab h (node_handles n, ctx_handles n) = None \<Longrightarrow> skynet_context_push api h m n = Some (-1, n)"
  by (simp add: skynet_context_push_def handle_grab_def)

lemma context_send_live:
  "node_ctx n c = Some ctx \<Longrightarrow> node_mq n (ctx_queue ctx) = Some q \<Longrightarrow>
   skynet_mq_push (ctx_queue ctx)
     \<lparr>msg_source = source, msg_session = session, msg_data = d, msg_sz = sz OR pack_type ty\<rparr> (node_gmq n, q) = Some gq \<Longrightarrow>
   skynet_context_send c d sz source ty session n = Some (put_queue n (ctx_queue ctx) gq)"
  by (cases gq) (simp add: skynet_context_send_def with_mq_def put_queue_def)

section \<open>The packing of type and size\<close>

lemma unpack_pack:
  assumes "unpack_size sz = sz" "0 \<le> sint ty" "sint ty < 128"
  shows "unpack_type (sz OR pack_type ty) = ty" "unpack_size (sz OR pack_type ty) = sz"
proof -
  have sz: "\<not> bit sz k" if "24 \<le> k" for k
  proof -
    have "bit sz k = (bit sz k \<and> bit (ucast HANDLE_MASK :: u64) k)"
      using assms(1) by (metis unpack_size_def bit_and_iff)
    moreover have "\<not> bit (ucast HANDLE_MASK :: u64) k"
      using that by (simp add: HANDLE_MASK_mask bit_simps)
    ultimately show ?thesis by simp
  qed
  have "int (unat ty) < int 128" using assms(3) sint_nonneg [OF assms(2)] by simp
  then have u: "unat ty < 2 ^ 7" by (simp only: of_nat_less_iff) simp
  have ty: "\<not> bit ty k" if "7 \<le> k" for k
  proof -
    have "ty = take_bit 7 ty"
      using u by (simp add: word_unat_eq_iff unsigned_take_bit_eq take_bit_nat_eq_self)
    then show ?thesis using that by (metis bit_take_bit_iff not_less)
  qed
  have pack: "bit (pack_type ty) k = (24 \<le> k \<and> k < 31 \<and> bit ty (k - 24))" for k
  proof (cases "k < 32")
    case True
    then show ?thesis using ty [of "k - 24"]
      by (cases "k = 31") (auto simp: pack_type_def HANDLE_REMOTE_SHIFT_def bit_simps)
  next
    case False
    then show ?thesis using ty [of 7]
      by (auto simp: pack_type_def HANDLE_REMOTE_SHIFT_def bit_simps)
  qed
  show "unpack_type (sz OR pack_type ty) = ty"
  proof (rule bit_word_eqI)
    fix k assume "k < LENGTH(32)"
    then show "bit (unpack_type (sz OR pack_type ty)) k = bit ty k"
      using sz [of "24 + k"] pack [of "24 + k"] ty [of k]
      by (cases "k < 7") (simp_all add: unpack_type_def HANDLE_REMOTE_SHIFT_def bit_simps)
  qed
  show "unpack_size (sz OR pack_type ty) = sz"
  proof (rule bit_word_eqI)
    fix k assume "k < LENGTH(64)"
    then show "bit (unpack_size (sz OR pack_type ty)) k = bit sz k"
      using sz [of k] pack [of k]
      by (cases "k < 24") (simp_all add: unpack_size_def HANDLE_MASK_mask bit_simps)
  qed
qed

text \<open>
  A message of a type below 128 and a size below \<open>2 ^ 24\<close> keeps both through the packing into
  one word that \<open>_filter_args\<close> and \<open>skynet_context_send\<close> do and \<open>_dispatch_message\<close> undoes; the
  tag bits above are dropped, and a session is allocated exactly when the tag asks for it.
\<close>

theorem filter_args_correct:
  assumes "node_ctx n c = Some ctx" "unpack_size sz = sz" "0 \<le> sint (ty AND 0xff)" "sint (ty AND 0xff) < 128"
    and "ty AND PTYPE_TAG_ALLOCSESSION = 0 \<or> session = 0"
  shows "\<exists>sz'. filter_args c ty session sz n =
      (if ty AND PTYPE_TAG_ALLOCSESSION = 0 then Some (session, sz', n)
       else map_option (\<lambda>(s, n). (s, sz', n)) (skynet_context_newsession c n)) \<and>
    unpack_type sz' = ty AND 0xff \<and> unpack_size sz' = sz"
  using unpack_pack [OF assms(2-4)] assms(1,2,5)
  by (intro exI [of _ "sz OR pack_type (ty AND 0xff)"])
    (auto simp: filter_args_def PTYPE_TAG_def skynet_context_newsession_def Let_def)

definition demo_ctx :: skynet_context where
  "demo_ctx = \<lparr>ctx_instance = 0, ctx_mod = \<lparr>m_name = [], m_module = 0, m_create = None, m_init = None, m_release = None\<rparr>,
     ctx_handle = 1, ctx_ref = 1, ctx_result = [], ctx_cb = None, ctx_session_id = 6, ctx_forward = 0, ctx_queue = 1,
     ctx_init = True, ctx_endless = False\<rparr>"

lemma filter_args_correct_witness:
  "\<exists>sz' n'. filter_args 0 0x20003 0 1000 (set_ctx 0 demo_ctx (node_start 0 [] 0 0 0)) = Some (7, sz', n') \<and>
     unpack_type sz' = PTYPE_CLIENT \<and> unpack_size sz' = 1000"
proof -
  let ?n = "set_ctx 0 demo_ctx (node_start 0 [] 0 0 0)"
  have n: "node_ctx ?n 0 = Some demo_ctx" by (simp add: set_ctx_def)
  have sz: "unpack_size 1000 = 1000" by (simp add: unpack_size_def HANDLE_MASK_def)
  have ty: "(0x20003 :: i32) AND 0xff = 3" "(0x20003 :: i32) AND PTYPE_TAG_ALLOCSESSION \<noteq> 0"
    by (simp_all add: PTYPE_TAG_ALLOCSESSION_def)
  obtain sz' where "filter_args 0 0x20003 0 1000 ?n = map_option (\<lambda>(s, n). (s, sz', n)) (skynet_context_newsession 0 ?n)"
      "unpack_type sz' = 3" "unpack_size sz' = 1000"
    using filter_args_correct [OF n sz, where ty = "0x20003" and session = "0"] ty by auto
  moreover have "\<exists>n'. skynet_context_newsession 0 ?n = Some (7, n')"
    using n by (simp add: skynet_context_newsession_def demo_ctx_def)
  ultimately show ?thesis by (auto simp: PTYPE_CLIENT_def Let_def)
qed

text \<open>
  From 128 on the type is negative when it is shifted into the size, and comes back changed:
  \<open>type &= 0xff\<close> promises 256 types.
\<close>

theorem pack_type_high:
  "unpack_type (pack_type 0x80) = 0xffffff80 \<and> unpack_type (pack_type 0x80) \<noteq> 0x80 AND 0xff"
  by (simp add: pack_type_def unpack_type_def HANDLE_REMOTE_SHIFT_def push_bit_eq_mult drop_bit_eq_div)

section \<open>Sessions\<close>

fun newsessions :: "nat \<Rightarrow> nat \<Rightarrow> node \<Rightarrow> (i32 list \<times> node) option" where
  "newsessions c 0 n = Some ([], n)"
| "newsessions c (Suc k) n = do {
     (s, n) \<leftarrow> skynet_context_newsession c n;
     (ss, n) \<leftarrow> newsessions c k n;
     Some (s # ss, n)
   }"

lemma newsession_step:
  "node_ctx n c = Some ctx \<Longrightarrow> skynet_context_newsession c n =
     Some ((ctx_session_id ctx + 1) AND mask 31, set_ctx c (ctx\<lparr>ctx_session_id := ctx_session_id ctx + 1\<rparr>) n)"
  by (simp add: skynet_context_newsession_def mask_numeral Let_def)

lemma newsessions_eq:
  "node_ctx n c = Some ctx \<Longrightarrow>
   \<exists>n'. newsessions c k n = Some (map (\<lambda>i. (ctx_session_id ctx + 1 + of_nat i) AND mask 31) [0..<k], n')"
proof (induction k arbitrary: n ctx)
  case (Suc k)
  let ?ctx = "ctx\<lparr>ctx_session_id := ctx_session_id ctx + 1\<rparr>"
  obtain n' where "newsessions c k (set_ctx c ?ctx n) =
      Some (map (\<lambda>i. (ctx_session_id ?ctx + 1 + of_nat i) AND mask 31) [0..<k], n')"
    using Suc.IH [of "set_ctx c ?ctx n" ?ctx] by (auto simp: set_ctx_def)
  moreover have "map f [0..<Suc k] = f 0 # map (\<lambda>i. f (Suc i)) [0..<k]" for f :: "nat \<Rightarrow> i32"
    by (simp add: upt_conv_Cons map_Suc_upt [symmetric] del: upt_Suc)
  ultimately show ?case
    using newsession_step [OF Suc.prems] by (simp add: ac_simps del: upt_Suc)
qed simp

text \<open>
  The sessions a context hands out are never negative, and any \<open>2 ^ 31\<close> consecutive ones are
  pairwise different.
\<close>

theorem newsessions_distinct:
  assumes "node_ctx n c = Some ctx" "k \<le> 2 ^ 31"
  shows "\<exists>ss n'. newsessions c k n = Some (ss, n') \<and> length ss = k \<and> distinct ss \<and>
    list_all (\<lambda>s. 0 \<le> sint s) ss"
proof -
  let ?f = "\<lambda>i. (ctx_session_id ctx + 1 + of_nat i) AND mask 31 :: i32"
  have unat_add: "unat (a + of_nat i) = (unat a + i) mod 2 ^ 32" for a :: i32 and i
    by (simp add: unat_word_ariths unat_of_nat mod_simps)
  have u: "unat (?f i) = (unat (ctx_session_id ctx + 1) + i) mod 2 ^ 31" for i
  proof -
    have "unat (ctx_session_id ctx + 1 + of_nat i) mod 2 ^ 31 =
        (unat (ctx_session_id ctx + 1) + i) mod 2 ^ 32 mod 2 ^ 31"
      unfolding unat_add by (simp add: unat_of_nat mod_simps)
    then show ?thesis using unat_mask_mod [of 31 "ctx_session_id ctx + 1 + of_nat i"] mod_mod_power [of 31 32] by simp
  qed
  have "i = j" if "i < k" "j < k" "?f i = ?f j" for i j
  proof -
    have "(unat (ctx_session_id ctx + 1) + i) mod 2 ^ 31 = (unat (ctx_session_id ctx + 1) + j) mod 2 ^ 31"
      using u that(3) by metis
    then show ?thesis using ring_index_inj [of i "2 ^ 31" j] that(1,2) assms(2) by auto
  qed
  then have "distinct (map ?f [0..<k])" by (auto simp: distinct_map inj_on_def)
  moreover have "0 \<le> sint (?f i)" for i
  proof -
    have "unat (?f i) < 2 ^ (LENGTH(32) - 1)" using u [of i] by simp
    then show ?thesis by (simp only: sint_eq_unat)
  qed
  ultimately show ?thesis
    using newsessions_eq [OF assms(1), of k] by (auto simp: list_all_iff)
qed

lemma newsessions_distinct_witness:
  "\<exists>ss n'. newsessions 0 3 (set_ctx 0 demo_ctx (node_start 0 [] 0 0 0)) = Some (ss, n') \<and> length ss = 3 \<and> distinct ss"
  using newsessions_distinct [of "set_ctx 0 demo_ctx (node_start 0 [] 0 0 0)" 0 demo_ctx 3]
  by (auto simp: set_ctx_def)

text \<open>
  The comment says that a session is always positive; the one after \<open>0x7fffffff\<close> is 0, which
  \<open>_filter_args\<close> and the services take for "no session".  And \<open>LOCK\<close> waits for the unmasked
  \<open>session_id + 1\<close>: from then on no session that is handed out unlocks the queue.
\<close>

theorem newsession_zero:
  assumes "node_ctx n c = Some ctx" "ctx_session_id ctx = 0x7fffffff"
  shows "\<exists>n'. skynet_context_newsession c n = Some (0, n')"
  using assms by (simp add: newsession_step mask_numeral)

theorem lock_never_unlocked:
  assumes "node_ctx n c = Some ctx" "ctx_init ctx" "node_mq n (ctx_queue ctx) = Some q"
    and "skynet_mq_lock (ctx_session_id ctx + 1) q = Some q'" "sint (ctx_session_id ctx + 1) < 0"
  shows "\<exists>n' q' s n''. cmd_lock c n = Some (None, n') \<and> node_mq n' (ctx_queue ctx) = Some q' \<and>
    skynet_context_newsession c n' = Some (s, n'') \<and> mq_lock_session q' \<noteq> s"
proof -
  let ?n = "n\<lparr>node_mq := (node_mq n)(ctx_queue ctx \<mapsto> q')\<rparr>"
  have l: "mq_lock_session q' = ctx_session_id ctx + 1"
    using assms(4) by (auto simp: skynet_mq_lock_def)
  have "cmd_lock c n = Some (None, ?n)"
    using assms(1-4) by (simp add: cmd_lock_def with_mq_def)
  moreover have "(ctx_session_id ctx + 1) AND mask 31 \<noteq> ctx_session_id ctx + 1"
  proof
    assume eq: "(ctx_session_id ctx + 1) AND mask 31 = ctx_session_id ctx + 1"
    have "unat ((ctx_session_id ctx + 1) AND mask 31) < 2 ^ (LENGTH(32) - 1)"
      using unat_mask_mod [of 31 "ctx_session_id ctx + 1"] by simp
    then have "0 \<le> sint (ctx_session_id ctx + 1)" by (simp only: eq sint_eq_unat)
    then show False using assms(5) by simp
  qed
  ultimately show ?thesis
    using newsession_step [of ?n c ctx] assms(1) l by auto
qed

section \<open>Send\<close>

text \<open>
  \<open>skynet_send\<close> to a local service that is not locked appends exactly one message to its
  queue, with the sender's handle for a zero source, the session, the data, and the type and
  size recoverable; reference counts, handle table and all other queues are as before, and the
  queue is scheduled when it was idle.
\<close>

theorem send_delivers:
  assumes "node_ctx n c = Some ctx" "resolves n destination d dctx q" "mq_ok q" "mq_lock_session q = 0"
    and "destination \<noteq> 0" "destination AND NOT HANDLE_MASK = node_harbor n"
    and "unpack_size sz = sz" "0 \<le> sint (ty AND 0xff)" "sint (ty AND 0xff) < 128" "ty AND PTYPE_TAG_ALLOCSESSION = 0"
  shows "\<exists>g' q' sz'. skynet_send api c source destination ty session data sz n =
      Some (session, n\<lparr>node_gmq := g', node_mq := (node_mq n)(ctx_queue dctx \<mapsto> q')\<rparr>) \<and>
    mq_ok q' \<and> mq_contents q' = mq_contents q @
      [\<lparr>msg_source = (if source = 0 then ctx_handle ctx else source), msg_session = session, msg_data = data, msg_sz = sz'\<rparr>] \<and>
    unpack_type sz' = ty AND 0xff \<and> unpack_size sz' = sz \<and>
    (if mq_in_global q = 0 then g' = skynet_globalmq_push (ctx_queue dctx) (node_gmq n) \<and> mq_in_global q' = MQ_IN_GLOBAL
     else g' = node_gmq n \<and> mq_in_global q' = mq_in_global q)"
proof -
  define sz' where "sz' = sz OR pack_type (ty AND 0xff)"
  have pack: "unpack_type sz' = ty AND 0xff" "unpack_size sz' = sz"
    using unpack_pack [OF assms(7-9)] by (simp_all add: sz'_def)
  have args: "filter_args c ty session sz n = Some (session, sz', n)"
    using assms(7,10) by (simp add: filter_args_def PTYPE_TAG_def sz'_def)
  define m :: message where "m = \<lparr>msg_source = (if source = 0 then ctx_handle ctx else source),
    msg_session = session, msg_data = data, msg_sz = sz'\<rparr>"
  define gq where "gq = (if mq_in_global q = 0
    then (skynet_globalmq_push (ctx_queue dctx) (node_gmq n), (mq_store m q)\<lparr>mq_in_global := MQ_IN_GLOBAL\<rparr>)
    else (node_gmq n, mq_store m q))"
  have push: "skynet_mq_push (ctx_queue dctx) m (node_gmq n, q) = Some gq"
    using assms(4) by (simp add: skynet_mq_push_def Let_def gq_def)
  have "skynet_send api c source destination ty session data sz n = Some (session, put_queue n (ctx_queue dctx) gq)"
    using args assms(1,5,6) context_push_live [OF assms(2) push, of api]
    by (simp add: skynet_send_def skynet_harbor_message_isremote_def m_def Let_def)
  moreover have "mq_ok (snd gq)" "mq_contents (snd gq) = mq_contents q @ [m]"
    using mq_store_contents [OF assms(3), of m] by (simp_all add: gq_def)
  ultimately show ?thesis
    using pack by (intro exI [of _ "fst gq"] exI [of _ "snd gq"] exI [of _ sz'])
      (simp add: put_queue_def m_def gq_def)
qed

text \<open>A node with two services: number 0 with handle 1, number 2 with handle 2 and a callback.\<close>

definition demo_module :: skynet_module where
  "demo_module = \<lparr>m_name = ''echo'', m_module = 0, m_create = None, m_init = None, m_release = None\<rparr>"

definition demo_node :: node where
  "demo_node = the (do {
     (_, n) \<leftarrow> context_alloc demo_module 0 (node_start 0 [] 0 0 0);
     (_, n) \<leftarrow> context_alloc demo_module 0 n;
     skynet_callback 2 (Some 7) n
   })"

definition demo_api :: module_api where
  "demo_api = \<lparr>api_dlopen = (\<lambda>_. None), api_dlsym = (\<lambda>_ _. None), api_create = (\<lambda>_ n. Some (None, n)),
     api_init = (\<lambda>_ _ _ _ n. Some (0, n)), api_release = (\<lambda>_ _ n. Some n),
     api_callback = (\<lambda>_ _ _ _ _ _ _ n. Some (0, n))\<rparr>"

lemma demo_facts:
  "(case node_ctx demo_node 0 of Some ctx \<Rightarrow> ctx_handle ctx = 1 \<and> ctx_ref ctx = 2 \<and> ctx_queue ctx = 1 | None \<Rightarrow> False)"
  "(case node_ctx demo_node 2 of Some ctx \<Rightarrow> ctx_handle ctx = 2 \<and> ctx_ref ctx = 2 \<and> ctx_queue ctx = 3 | None \<Rightarrow> False)"
  "skynet_handle_grab 2 (node_handles demo_node, ctx_handles demo_node) = Some 2"
  "skynet_handle_grab 9 (node_handles demo_node, ctx_handles demo_node) = None"
  "(case node_mq demo_node 3 of Some q \<Rightarrow> mq_lock_session q = 0 \<and> mq_in_global q = MQ_IN_GLOBAL | None \<Rightarrow> False)"
  "node_harbor demo_node = 0"
  by code_simp+

lemma demo_queue: "node_mq demo_node 3 = Some (skynet_mq_create 2)"
  by code_simp

lemma send_delivers_witness:
  "\<exists>g' q' sz'. skynet_send demo_api 0 0 2 PTYPE_CLIENT 5 (PBytes ''hello'') 5 demo_node =
      Some (5, demo_node\<lparr>node_gmq := g', node_mq := (node_mq demo_node)(3 \<mapsto> q')\<rparr>) \<and>
    mq_contents q' = [\<lparr>msg_source = 1, msg_session = 5, msg_data = PBytes ''hello'', msg_sz = sz'\<rparr>] \<and>
    unpack_type sz' = PTYPE_CLIENT \<and> unpack_size sz' = 5"
proof -
  obtain ctx where ctx: "node_ctx demo_node 0 = Some ctx" "ctx_handle ctx = 1"
    using demo_facts(1) by (auto split: option.splits)
  obtain dctx where d: "node_ctx demo_node 2 = Some dctx" "ctx_ref dctx = 2" "ctx_queue dctx = 3"
    using demo_facts(2) by (auto split: option.splits)
  have r: "resolves demo_node 2 2 dctx (skynet_mq_create 2)"
    using d demo_facts(3) demo_queue by (simp add: resolves_def)
  have q: "mq_ok (skynet_mq_create 2 :: payload message_queue)" "mq_contents (skynet_mq_create 2 :: payload message_queue) = []"
    using mq_create_ok [of 2] by auto
  have l: "mq_lock_session (skynet_mq_create 2 :: payload message_queue) = 0"
    by (simp add: skynet_mq_create_def)
  have h: "(2 :: u32) \<noteq> 0" "(2 :: u32) AND NOT HANDLE_MASK = node_harbor demo_node"
    "unpack_size 5 = 5" "0 \<le> sint (PTYPE_CLIENT AND 0xff)" "sint (PTYPE_CLIENT AND 0xff) < 128"
    "PTYPE_CLIENT AND PTYPE_TAG_ALLOCSESSION = 0" "PTYPE_CLIENT AND 0xff = PTYPE_CLIENT"
    using demo_facts(6)
    by (simp_all add: HANDLE_MASK_def unpack_size_def PTYPE_CLIENT_def PTYPE_TAG_ALLOCSESSION_def)
  show ?thesis
    using send_delivers [OF ctx(1) r q(1) l h(1-6), of demo_api 0 5 "PBytes ''hello''"] ctx(2) d(3) q(2) h(7)
    by auto
qed

text \<open>
  C15: A message to another node goes, whole, to the harbor service as one remote message with the
  destination and the size without its type bits; a message to a local handle that is not
  registered is freed and reported, and the sender gets -1.
\<close>

theorem send_elsewhere:
  assumes "node_ctx n c = Some ctx" "unpack_size sz = sz" "0 \<le> sint (ty AND 0xff)" "sint (ty AND 0xff) < 128"
    and "ty AND PTYPE_TAG_ALLOCSESSION = 0" "ty AND 0xff \<noteq> PTYPE_SYSTEM" "ty AND 0xff \<noteq> PTYPE_HARBOR"
    and "source \<noteq> 0" "destination \<noteq> 0"
    and "destination AND NOT HANDLE_MASK \<noteq> node_harbor n \<or>
      skynet_handle_grab destination (node_handles n, ctx_handles n) = None"
  shows "skynet_send api c source destination ty session data sz n =
    (if destination AND NOT HANDLE_MASK \<noteq> node_harbor n then
       node_remote n \<bind> (\<lambda>r. map_option (Pair session)
         (skynet_context_send r (PRemoteMessage [] destination data sz) sizeof_remote_message source (ty AND 0xff) session n))
     else
       map_option (Pair (-1)) (skynet_error api None
         (''Drop message from '' @ sprintf_x source @ '' to '' @ sprintf_x destination @
          '' (type='' @ sprintf_d ty @ '')(size='' @ sprintf_d (ucast sz) @ '')'') (free_data data n)))"
proof -
  define sz' where "sz' = sz OR pack_type (ty AND 0xff)"
  have pack: "unpack_type sz' = ty AND 0xff" "unpack_size sz' = sz"
    using unpack_pack [OF assms(2-4)] by (simp_all add: sz'_def)
  have args: "filter_args c ty session sz n = Some (session, sz', n)"
    using assms(2,5) by (simp add: filter_args_def PTYPE_TAG_def sz'_def)
  show ?thesis
  proof (cases "destination AND NOT HANDLE_MASK = node_harbor n")
    case True
    then show ?thesis
      using args assms(1,8-10) pack
      by (simp add: skynet_send_def skynet_harbor_message_isremote_def context_push_dead map_option_case
          option.case_eq_if split: Option.bind_split)
  next
    case False
    then show ?thesis
      using args assms(1,6-9) pack
      by (simp add: skynet_send_def skynet_harbor_message_isremote_def skynet_harbor_send_def map_option_case
          option.case_eq_if split: Option.bind_split)
  qed
qed

lemma send_elsewhere_witness:
  "\<exists>n'. skynet_send demo_api 0 1 9 PTYPE_CLIENT 5 (PBytes ''hello'') 5 demo_node = Some (-1, n') \<and>
     hd (node_freed n') = PBytes ''hello''"
proof -
  obtain ctx where ctx: "node_ctx demo_node 0 = Some ctx"
    using demo_facts(1) by (auto split: option.splits)
  have h: "unpack_size 5 = 5" "0 \<le> sint (PTYPE_CLIENT AND 0xff)" "sint (PTYPE_CLIENT AND 0xff) < 128"
    "PTYPE_CLIENT AND PTYPE_TAG_ALLOCSESSION = 0" "PTYPE_CLIENT AND 0xff \<noteq> PTYPE_SYSTEM"
    "PTYPE_CLIENT AND 0xff \<noteq> PTYPE_HARBOR" "(1 :: u32) \<noteq> 0" "(9 :: u32) \<noteq> 0"
    "(9 :: u32) AND NOT HANDLE_MASK \<noteq> node_harbor demo_node \<or>
      skynet_handle_grab 9 (node_handles demo_node, ctx_handles demo_node) = None"
    using demo_facts(4)
    by (simp_all add: HANDLE_MASK_def unpack_size_def PTYPE_CLIENT_def PTYPE_SYSTEM_def PTYPE_HARBOR_def PTYPE_TAG_ALLOCSESSION_def)
  have loc: "(9 :: u32) AND NOT HANDLE_MASK = node_harbor demo_node"
    using demo_facts(6) by (simp add: HANDLE_MASK_def)
  have fn: "skynet_handle_findname ''logger'' (node_handles demo_node) = Some 0"
    "node_logger demo_node = -1" "node_freed demo_node = []"
    "skynet_handle_grab 0 (node_handles demo_node, ctx_handles demo_node) = None"
    by code_simp+
  have "\<exists>n'. skynet_error demo_api None line (free_data (PBytes ''hello'') demo_node) = Some n' \<and>
      node_freed n' = [PBytes ''hello'', PBytes line]" for line
  proof -
    let ?n = "(free_data (PBytes ''hello'') demo_node)\<lparr>node_logger := 0, node_log := node_log demo_node @ [line]\<rparr>"
    have "ctx_handles ?n = ctx_handles demo_node" by (rule ext) (simp add: ctx_handles_def free_data_def)
    then have "skynet_handle_grab 0 (node_handles ?n, ctx_handles ?n) = None"
      using fn(4) by (simp add: free_data_def)
    then show ?thesis
      using fn(1-3) context_push_dead [of 0 ?n demo_api]
      by (simp add: skynet_error_def free_data_def)
  qed
  then show ?thesis
    using send_elsewhere [OF ctx h, of demo_api 5 "PBytes ''hello''"] loc by fastforce
qed

end
