(* ===== verification/Delivery.thy ===== *)
theory Delivery
  imports ServerProps GlobalQueue
begin

text \<open>
  A message from end to end: what \<open>skynet_send\<close> puts into a queue is what
  \<open>skynet_context_message_dispatch\<close> hands to the callback of the receiver, in the order of the
  sends, and the payload is freed exactly when nobody keeps it.
\<close>

section \<open>One dispatch\<close>

text \<open>The end of a dispatch: the reference is given back and the queue is scheduled again.\<close>

definition dispatch_end :: "module_api \<Rightarrow> mqptr \<Rightarrow> nat \<Rightarrow> skynet_monitor \<Rightarrow> node \<Rightarrow> (int \<times> skynet_monitor \<times> node) option" where
  "dispatch_end api p c sm n = do {
     ctx \<leftarrow> node_ctx n c;
     c_assert (p = ctx_queue ctx);
     (_, n) \<leftarrow> skynet_context_release api c n;
     n \<leftarrow> with_mq p (skynet_mq_pushglobal p) n;
     Some (0, skynet_monitor_trigger 0 0 sm, n)
   }"

text \<open>The node while the callback of \<open>c\<close> runs: one queue less, one message less, one reference more.\<close>

definition in_callback :: "nat \<Rightarrow> skynet_context \<Rightarrow> global_queue \<Rightarrow> payload message_queue \<Rightarrow> node \<Rightarrow> node" where
  "in_callback c ctx g q n = set_ctx c (ctx\<lparr>ctx_ref := ctx_ref ctx + 1\<rparr>)
     (n\<lparr>node_gmq := g, node_mq := (node_mq n)(ctx_queue ctx \<mapsto> q)\<rparr>)"

lemma dispatch_step:
  assumes pop: "skynet_globalmq_pop (node_gmq n) = (Some p, g)"
    and q: "resolves n (mq_handle q) c ctx q" "p = ctx_queue ctx"
    and m: "skynet_mq_pop q = (0, Some m, q')"
    and cb: "ctx_cb ctx = Some cb" "ctx_init ctx" "unpack_type (msg_sz m) \<noteq> PTYPE_MULTICAST"
  shows "skynet_context_message_dispatch api (sm, n) = do {
      (reserve, n2) \<leftarrow> api_callback api cb c (unpack_type (msg_sz m)) (msg_session m) (msg_source m)
         (msg_data m) (unpack_size (msg_sz m)) (in_callback c ctx g q' n);
      (f, n2) \<leftarrow> forwarding api c m n2;
      dispatch_end api p c (skynet_monitor_trigger (msg_source m) (mq_handle q) sm)
         (if reserve = 0 \<and> f = 0 then free_data (msg_data m) n2 else n2)
    }"
proof -
  let ?n = "n\<lparr>node_gmq := g\<rparr>"
  let ?up = "ctx\<lparr>ctx_ref := ctx_ref ctx + 1\<rparr>"
  have r: "skynet_handle_grab (mq_handle q) (node_handles n, ctx_handles n) = Some c" "node_ctx n c = Some ctx"
    "node_mq n p = Some q"
    using q by (auto simp: resolves_def)
  have "ctx_handles ?n = ctx_handles n" by (rule ext) (simp add: ctx_handles_def)
  then have grab: "handle_grab (mq_handle q) ?n = Some (Some c, set_ctx c ?up ?n)"
    using r(1,2) by (simp add: handle_grab_def skynet_context_grab_def)
  have e: "(set_ctx c ?up ?n)\<lparr>node_mq := (node_mq n)(p \<mapsto> q')\<rparr> = in_callback c ctx g q' n"
    by (simp add: in_callback_def set_ctx_def q(2))
  have c: "node_ctx (in_callback c ctx g q' n) c = Some ?up" by (simp add: in_callback_def set_ctx_def)
  have s: "node_mq (set_ctx c ?up ?n) p = Some q" "node_mq (set_ctx c ?up ?n) = node_mq n"
    "node_ctx (set_ctx c ?up ?n) c = Some ?up"
    using r(3) by (simp_all add: set_ctx_def)
  have d: "dispatch_message api c m (in_callback c ctx g q' n) = do {
      (reserve, n2) \<leftarrow> api_callback api cb c (unpack_type (msg_sz m)) (msg_session m) (msg_source m)
         (msg_data m) (unpack_size (msg_sz m)) (in_callback c ctx g q' n);
      (f, n2) \<leftarrow> forwarding api c m n2;
      Some (if reserve = 0 \<and> f = 0 then free_data (msg_data m) n2 else n2)}"
    using c cb by (simp add: dispatch_message_def c_assert_def if_distrib [of Some])
  have "skynet_context_message_dispatch api (sm, n) =
      dispatch_message api c m (in_callback c ctx g q' n) \<bind>
      dispatch_end api p c (skynet_monitor_trigger (msg_source m) (mq_handle q) sm)"
    using pop r(3) s grab m cb(1) c
    by (simp add: skynet_context_message_dispatch_def e dispatch_end_def [abs_def] Let_def)
  then show ?thesis unfolding d by (simp add: split_def)
qed

section \<open>From the send to the callback\<close>

lemma dispatch_end_alive:
  assumes "node_ctx n c = Some ctx" "1 < ctx_ref ctx" "node_mq n (ctx_queue ctx) = Some q"
    and "mq_in_global q = MQ_IN_GLOBAL" "mq_lock_session q = 0"
  shows "dispatch_end api (ctx_queue ctx) c sm n = Some (0, skynet_monitor_trigger 0 0 sm,
    set_ctx c (ctx\<lparr>ctx_ref := ctx_ref ctx - 1\<rparr>) (n\<lparr>node_gmq := skynet_globalmq_push (ctx_queue ctx) (node_gmq n)\<rparr>))"
proof -
  have "q\<lparr>mq_in_global := MQ_IN_GLOBAL\<rparr> = q" using assms(4) by (cases q) simp
  then show ?thesis
    using assms
    by (simp add: dispatch_end_def skynet_context_release_def set_ctx_def with_mq_def skynet_mq_pushglobal_def
        MQ_IN_GLOBAL_def MQ_DISPATCHING_def Let_def fun_upd_idem)
qed

text \<open>
  C4: From end to end: a message sent to a service that is idle, on a node where no other service
  is waiting, is what the next dispatch hands to that service's callback, with the type, session,
  sender, data and size of the send; while the callback runs the service's queue is empty again
  and the service has one more reference; afterwards the payload is freed unless the callback
  keeps it or has it forwarded.
\<close>

theorem send_dispatch:
  assumes c: "node_ctx n c = Some ctx" and d: "resolves n destination d dctx q"
    and q: "mq_ok q" "mq_contents q = []" "mq_in_global q = 0" "mq_lock_session q = 0" "mq_handle q = destination"
    and g: "gq_ok (node_gmq n)" "gq_contents (node_gmq n) = []"
    and cb: "ctx_cb dctx = Some cb" "ctx_init dctx"
    and dest: "destination \<noteq> 0" "destination AND NOT HANDLE_MASK = node_harbor n" and src: "source \<noteq> 0"
    and ty: "unpack_size sz = sz" "0 \<le> sint (ty AND 0xff)" "sint (ty AND 0xff) < 128"
      "ty AND PTYPE_TAG_ALLOCSESSION = 0" "ty AND 0xff \<noteq> PTYPE_MULTICAST"
  shows "\<exists>n1 n2 q2 m. skynet_send api c source destination ty session data sz n = Some (session, n1) \<and>
    msg_data m = data \<and> msg_source m = source \<and> msg_session m = session \<and>
    node_mq n2 (ctx_queue dctx) = Some q2 \<and> mq_contents q2 = [] \<and> gq_contents (node_gmq n2) = [] \<and>
    node_ctx n2 d = Some (dctx\<lparr>ctx_ref := ctx_ref dctx + 1\<rparr>) \<and>
    skynet_context_message_dispatch api (sm, n1) = do {
      (reserve, n3) \<leftarrow> api_callback api cb d (ty AND 0xff) session source data sz n2;
      (f, n3) \<leftarrow> forwarding api d m n3;
      dispatch_end api (ctx_queue dctx) d (skynet_monitor_trigger source destination sm)
        (if reserve = 0 \<and> f = 0 then free_data data n3 else n3)
    }"
proof -
  define sz' where "sz' = sz OR pack_type (ty AND 0xff)"
  have pack: "unpack_type sz' = ty AND 0xff" "unpack_size sz' = sz"
    using unpack_pack [OF ty(1-3)] by (simp_all add: sz'_def)
  have args: "filter_args c ty session sz n = Some (session, sz', n)"
    using ty(1,4) by (simp add: filter_args_def PTYPE_TAG_def sz'_def)
  define m :: message where "m = \<lparr>msg_source = source, msg_session = session, msg_data = data, msg_sz = sz'\<rparr>"
  define p where "p = ctx_queue dctx"
  define q1 where "q1 = (mq_store m q)\<lparr>mq_in_global := MQ_IN_GLOBAL\<rparr>"
  define n1 where "n1 = put_queue n p (skynet_globalmq_push p (node_gmq n), q1)"
  have push: "skynet_mq_push p m (node_gmq n, q) = Some (skynet_globalmq_push p (node_gmq n), q1)"
    using q by (simp add: skynet_mq_push_def Let_def q1_def)
  have send: "skynet_send api c source destination ty session data sz n = Some (session, n1)"
    using args c dest src context_push_live [OF d push [unfolded p_def], of api]
    by (simp add: skynet_send_def skynet_harbor_message_isremote_def m_def Let_def n1_def p_def)
  have q1: "mq_ok q1" "mq_contents q1 = [m]" "mq_handle q1 = destination"
    using mq_store_contents [OF q(1), of m] q(2,5) by (simp_all add: q1_def)
  obtain q2 where q2: "skynet_mq_pop q1 = (0, Some m, q2)" "mq_contents q2 = []"
    using mq_pop_nonempty [OF q1(1,2)] by metis
  have room: "Suc (gq_len (node_gmq n)) < MAX_GLOBAL_MQ"
    using g(2) length_gq_contents [of "node_gmq n"] by (simp add: MAX_GLOBAL_MQ_def)
  have g1: "gq_ok (skynet_globalmq_push p (node_gmq n))" "gq_contents (skynet_globalmq_push p (node_gmq n)) = [p]"
    using gq_push [OF g(1) room] g(2) by auto
  obtain g2 where g2: "skynet_globalmq_pop (node_gmq n1) = (Some p, g2)" "gq_contents g2 = []"
    using gq_pop_nonempty [OF g1] by (cases "skynet_globalmq_pop (node_gmq n1)") (auto simp: n1_def put_queue_def)
  have "ctx_handles n1 = ctx_handles n" by (rule ext) (simp add: ctx_handles_def n1_def put_queue_def)
  then have res: "resolves n1 (mq_handle q1) d dctx q1"
    using d q1(3) by (simp add: resolves_def n1_def put_queue_def p_def)
  have ty': "unpack_type (msg_sz m) \<noteq> PTYPE_MULTICAST" using pack ty(5) by (simp add: m_def)
  note step = dispatch_step [OF g2(1) res p_def q2(1) cb ty', of api sm]
  let ?n2 = "in_callback d dctx g2 q2 n1"
  have n2: "node_mq ?n2 (ctx_queue dctx) = Some q2" "gq_contents (node_gmq ?n2) = []"
    "node_ctx ?n2 d = Some (dctx\<lparr>ctx_ref := ctx_ref dctx + 1\<rparr>)"
    using g2(2) by (simp_all add: in_callback_def set_ctx_def p_def)
  have m': "msg_data m = data \<and> msg_source m = source \<and> msg_session m = session"
      "unpack_type (msg_sz m) = ty AND 0xff" "unpack_size (msg_sz m) = sz"
    using pack by (simp_all add: m_def)
  show ?thesis
    using send m' n2 q2(2) step [unfolded m'(2,3) q1(3) p_def] by blast
qed

text \<open>The demo node with service 2 started and idle.\<close>

definition idle_node :: node where
  "idle_node = (case node_ctx demo_node 2 of
     Some ctx \<Rightarrow> (set_ctx 2 (ctx\<lparr>ctx_init := True\<rparr>) demo_node)
       \<lparr>node_mq := (node_mq demo_node)(3 \<mapsto> (skynet_mq_create 2)\<lparr>mq_in_global := 0\<rparr>), node_gmq := skynet_mq_init\<rparr>
   | None \<Rightarrow> demo_node)"

lemma send_dispatch_witness:
  "\<exists>n1 n2. skynet_send demo_api 0 1 2 PTYPE_CLIENT 5 (PBytes ''hello'') 5 idle_node = Some (5, n1) \<and>
    gq_contents (node_gmq n2) = [] \<and>
    skynet_context_message_dispatch demo_api (skynet_monitor_new, n1) =
      dispatch_end demo_api 3 2 (skynet_monitor_trigger 1 2 skynet_monitor_new) (free_data (PBytes ''hello'') n2)"
proof -
  obtain ctx where c: "node_ctx idle_node 0 = Some ctx"
    using demo_facts(1) by (cases "node_ctx demo_node 2") (auto simp: idle_node_def set_ctx_def split: option.splits)
  obtain d0 where d0: "node_ctx demo_node 2 = Some d0" "ctx_ref d0 = 2" "ctx_queue d0 = 3" "ctx_handle d0 = 2"
    using demo_facts(2) by (auto split: option.splits)
  have cb: "case node_ctx demo_node 2 of Some ctx \<Rightarrow> ctx_cb ctx = Some 7 \<and> ctx_forward ctx = 0 | None \<Rightarrow> False"
    by code_simp
  let ?q = "(skynet_mq_create 2 :: payload message_queue)\<lparr>mq_in_global := 0\<rparr>"
  let ?d = "d0\<lparr>ctx_init := True\<rparr>"
  have i: "idle_node = (set_ctx 2 ?d demo_node)\<lparr>node_mq := (node_mq demo_node)(3 \<mapsto> ?q), node_gmq := skynet_mq_init\<rparr>"
    using d0(1) by (simp add: idle_node_def)
  have "ctx_handles idle_node = ctx_handles demo_node"
    using d0(1) by (intro ext) (simp add: i ctx_handles_def set_ctx_def)
  then have r: "resolves idle_node 2 2 ?d ?q"
    using d0 demo_facts(3) by (simp add: resolves_def i set_ctx_def)
  have q: "mq_ok ?q" "mq_contents ?q = []" "mq_in_global ?q = 0" "mq_lock_session ?q = 0" "mq_handle ?q = 2"
    using mq_create_ok [of 2] by (simp_all add: mq_ok_def skynet_mq_create_def mq_contents_def mq_cells_def mq_len_def)
  have g: "gq_ok (node_gmq idle_node)" "gq_contents (node_gmq idle_node) = []"
    using gq_init_ok by (simp_all add: i set_ctx_def)
  have h: "(2 :: u32) \<noteq> 0" "(2 :: u32) AND NOT HANDLE_MASK = node_harbor idle_node" "(1 :: u32) \<noteq> 0"
    "unpack_size 5 = 5" "0 \<le> sint (PTYPE_CLIENT AND 0xff)" "sint (PTYPE_CLIENT AND 0xff) < 128"
    "PTYPE_CLIENT AND PTYPE_TAG_ALLOCSESSION = 0" "PTYPE_CLIENT AND 0xff \<noteq> PTYPE_MULTICAST"
    using demo_facts(6)
    by (simp_all add: HANDLE_MASK_def unpack_size_def PTYPE_CLIENT_def PTYPE_MULTICAST_def PTYPE_TAG_ALLOCSESSION_def i set_ctx_def)
  have d: "ctx_cb ?d = Some 7" "ctx_init ?d" "ctx_forward ?d = 0" "ctx_queue ?d = 3"
    using cb d0 by simp_all
  show ?thesis
    using send_dispatch [OF c r q g d(1,2) h, of demo_api 5 "PBytes ''hello''" skynet_monitor_new] d(3,4)
    by (auto simp: demo_api_def forwarding_def)
qed

end
