(* ===== verification/Lifecycle.thy ===== *)
theory Lifecycle
  imports ServerProps
begin

text \<open>
  The life of a service (\<open>skynet_context_new\<close>, the reference count, \<open>skynet_handle_retire\<close>) and the
  texts that name services: \<open>:%x\<close>, the fixed-width form of \<open>_id_to_hex\<close>, and registered names.
\<close>

unbundle bit_operations_syntax

section \<open>Handles as text\<close>

lemma digit_value_upper: "d < 16 \<Longrightarrow> digit_value (hex_upper ! d) = Some d"
proof -
  assume "d < 16"
  moreover have "\<forall>d < 16. digit_value (hex_upper ! d) = Some d"
    by (simp add: All_less_Suc numeral_eq_Suc digit_value_def hex_upper_def)
  ultimately show ?thesis by blast
qed

lemma parse_upper:
  "\<forall>d \<in> set ds. d < 16 \<Longrightarrow> parse_digits 16 acc (map ((!) hex_upper) ds) = (foldl (\<lambda>a d. a * 16 + d) acc ds, [])"
  by (induction ds arbitrary: acc) (auto simp: digit_value_upper)

definition nibble :: "nat \<Rightarrow> nat \<Rightarrow> nat" where "nibble n i = n div 16 ^ (7 - i) mod 16"

lemma foldl_nibbles:
  assumes "n < 16 ^ 8"
  shows "k \<le> 8 \<Longrightarrow> foldl (\<lambda>a d. a * 16 + d) 0 (map (nibble n) [0..<k]) = n div 16 ^ (8 - k)"
proof (induction k)
  case 0
  then show ?case using assms by simp
next
  case (Suc k)
  have e: "8 - k = Suc (7 - k)" "8 - Suc k = 7 - k" using Suc.prems by simp_all
  have "n div 16 ^ (8 - k) * 16 + nibble n k = n div 16 ^ (8 - Suc k)"
    unfolding e nibble_def power_Suc2 div_mult2_eq by simp
  then show ?case using Suc by simp
qed

lemma id_to_hex_nibbles: "id_to_hex h = CHR '':'' # map ((!) hex_upper) (map (nibble (unat h)) [0..<8])"
proof -
  have "unat (drop_bit ((7 - i) * 4) h AND 0xf) = nibble (unat h) i" for i
  proof -
    have "drop_bit ((7 - i) * 4) h AND 0xf = drop_bit ((7 - i) * 4) h AND mask 4" by (simp add: mask_numeral)
    moreover have "(2 :: nat) ^ ((7 - i) * 4) = 16 ^ (7 - i)"
      using power_mult [of "2 :: nat" 4 "7 - i"] by (simp add: mult.commute)
    ultimately show ?thesis
      using unat_mask_mod [of 4 "drop_bit ((7 - i) * 4) h"] by (simp only: nibble_def unat_drop) simp
  qed
  then show ?thesis by (simp add: id_to_hex_def comp_def)
qed

lemma strtoul_id_to_hex: "ucast (strtoul16 (tl (id_to_hex h))) = h"
proof -
  let ?ds = "map (nibble (unat h)) [0..<8]"
  have ds: "\<forall>d \<in> set ?ds. d < 16" by (simp add: nibble_def)
  have hx: "hex_digits (map ((!) hex_upper) ?ds)"
    using ds digit_value_upper by (auto simp: hex_digits_def)
  have "unat h < 2 ^ 32" using unsigned_less [of h] by simp
  then have small: "unat h < 16 ^ 8" "unat h < 2 ^ 64" by simp_all
  have "parse_digits 16 0 (map ((!) hex_upper) ?ds) = (unat h, [])"
    using parse_upper [OF ds, of 0] foldl_nibbles [OF small(1), of 8] by simp
  then have "strtoul16 (tl (id_to_hex h)) = of_nat (unat h)"
    using small(2) hx by (simp only: id_to_hex_nibbles list.sel strtoul16_digits) (simp add: Let_def)
  then have eq: "strtoul16 (tl (id_to_hex h)) = ucast h" by simp
  show ?thesis unfolding eq by (rule bit_word_eqI) (simp add: bit_simps)
qed

text \<open>
  Every text by which the server tells a service its own or another handle, \<open>:%x\<close> of REG and
  QUERY and the eight digits of LAUNCH and GROUP QUERY, reads back as that handle, both in
  \<open>skynet_queryname\<close> and as the address of \<open>skynet_sendname\<close>.
\<close>

theorem handle_text_roundtrip:
  "skynet_queryname api c (CHR '':'' # sprintf_x h) n = Some (h, n) \<and>
   skynet_queryname api c (id_to_hex h) n = Some (h, n) \<and>
   (node_ctx n c = Some ctx \<and> addr \<in> {CHR '':'' # sprintf_x h, id_to_hex h} \<longrightarrow>
     skynet_sendname api c addr ty session data sz n = skynet_send api c (ctx_handle ctx) h ty session data sz n)"
  using strtoul_id_to_hex [of h] strtoul_sprintf_x [of h]
  by (auto simp: skynet_queryname_def skynet_sendname_def first_char_def id_to_hex_def)

lemma handle_text_roundtrip_witness:
  "skynet_queryname demo_api 0 '':2a'' demo_node = Some (42, demo_node) \<and>
   skynet_queryname demo_api 0 '':0000002A'' demo_node = Some (42, demo_node)"
proof -
  have "CHR '':'' # sprintf_x 42 = '':2a''" "id_to_hex 42 = '':0000002A''" by code_simp+
  then show ?thesis
    using handle_text_roundtrip [of demo_api 0 42 demo_node] by metis
qed

end
