(* ===== verification/NodeInv.thy ===== *)
theory NodeInv
  imports ServerProps
begin

text \<open>
  The invariant that ties the components of a node together: every registered handle resolves to a
  live context, every live context has a positive reference count and a live, well-formed queue of
  its own.  Under it the operations of \<open>skynet_server.c\<close> never fail an assertion and never touch a
  freed object, and they keep it.
\<close>

section \<open>The invariant\<close>

definition queue_ok :: "payload message_queue \<Rightarrow> bool" where
  "queue_ok q \<longleftrightarrow> mq_ok q \<and> \<not> mq_release q \<and>
     (mq_lock_session q \<noteq> 0 \<longrightarrow> mq_in_global q = MQ_DISPATCHING \<or> mq_in_global q = MQ_LOCKED)"

definition lookup_ctx :: "node \<Rightarrow> u32 \<Rightarrow> nat option" where
  "lookup_ctx n = handle_lookup (node_handles n, ctx_handles n)"

definition ctx_live :: "node \<Rightarrow> nat \<Rightarrow> skynet_context \<Rightarrow> bool" where
  "ctx_live n c ctx \<longleftrightarrow> node_ctx n c = Some ctx \<and> 0 < ctx_ref ctx \<and> c < node_next n \<and> ctx_queue ctx < node_next n \<and>
     (\<exists>q. node_mq n (ctx_queue ctx) = Some q \<and> queue_ok q \<and> mq_handle q = ctx_handle ctx)"

definition node_ok :: "node \<Rightarrow> bool" where
  "node_ok n \<longleftrightarrow> handle_ok (node_handles n, ctx_handles n) \<and>
     (\<forall>c ctx. node_ctx n c = Some ctx \<longrightarrow> ctx_live n c ctx) \<and>
     (\<forall>c c' ctx ctx'. node_ctx n c = Some ctx \<and> node_ctx n c' = Some ctx' \<and> ctx_queue ctx = ctx_queue ctx' \<longrightarrow> c = c') \<and>
     (\<forall>h c. lookup_ctx n h = Some c \<longrightarrow> node_ctx n c \<noteq> None)"

lemma node_okD:
  assumes "node_ok n"
  shows "handle_ok (node_handles n, ctx_handles n)"
    "node_ctx n c = Some ctx \<Longrightarrow> ctx_live n c ctx"
    "node_ctx n c = Some ctx \<Longrightarrow> node_ctx n c' = Some ctx' \<Longrightarrow> ctx_queue ctx = ctx_queue ctx' \<Longrightarrow> c = c'"
    "lookup_ctx n h = Some c \<Longrightarrow> node_ctx n c \<noteq> None"
  using assms unfolding node_ok_def by blast+

lemma grab_lookup: "node_ok n \<Longrightarrow> skynet_handle_grab h (node_handles n, ctx_handles n) = lookup_ctx n h"
  by (simp add: lookup_ctx_def skynet_handle_grab_lookup [OF node_okD(1)])

lemma lookup_live:
  assumes "node_ok n" "lookup_ctx n h = Some c"
  obtains ctx q where "node_ctx n c = Some ctx" "ctx_handle ctx = h" "ctx_live n c ctx" "resolves n h c ctx q" "queue_ok q"
proof -
  obtain ctx where ctx: "node_ctx n c = Some ctx" using node_okD(4) [OF assms] by auto
  have "ctx_handles n c = h"
    using handle_lookup_inj [OF node_okD(1) [OF assms(1)], of h c] assms(2) by (simp add: lookup_ctx_def)
  moreover obtain q where "node_mq n (ctx_queue ctx) = Some q" "queue_ok q" "0 < ctx_ref ctx"
    using node_okD(2) [OF assms(1) ctx] by (auto simp: ctx_live_def)
  ultimately show thesis
    using ctx node_okD(2) [OF assms(1) ctx] assms grab_lookup [OF assms(1), of h]
    by (intro that [of ctx q]) (auto simp: resolves_def ctx_handles_def)
qed

section \<open>Pushing\<close>

text \<open>What sending may change: queues, the global queue, the log and the freed payloads.\<close>

definition same_services :: "node \<Rightarrow> node \<Rightarrow> bool" where
  "same_services n n' \<longleftrightarrow> node_handles n' = node_handles n \<and> node_ctx n' = node_ctx n \<and> node_next n' = node_next n \<and>
     node_remote n' = node_remote n \<and> node_harbor n' = node_harbor n \<and> node_total n' = node_total n"

lemma same_services_refl [simp]: "same_services n n"
  by (simp add: same_services_def)

lemma same_services_trans: "same_services n n' \<Longrightarrow> same_services n' n'' \<Longrightarrow> same_services n n''"
  by (simp add: same_services_def)

lemma same_services_handles: "same_services n n' \<Longrightarrow> ctx_handles n' = ctx_handles n \<and> lookup_ctx n' = lookup_ctx n"
  by (simp add: same_services_def lookup_ctx_def ctx_handles_def [abs_def])

lemma node_ok_cong:
  assumes "node_ok n" "same_services n n'" "node_mq n' = node_mq n"
  shows "node_ok n'"
  using assms same_services_handles [OF assms(2)] by (simp add: node_ok_def ctx_live_def same_services_def)

lemma queue_push_ok:
  assumes "queue_ok q"
  shows "\<exists>g' q'. skynet_mq_push p m (g, q) = Some (g', q') \<and> queue_ok q' \<and> mq_handle q' = mq_handle q"
proof -
  have q: "mq_ok q" "\<not> mq_release q" "mq_lock_session q \<noteq> 0 \<longrightarrow> mq_in_global q = MQ_DISPATCHING \<or> mq_in_global q = MQ_LOCKED"
    using assms by (auto simp: queue_ok_def)
  have ps: "mq_ok (pushhead_store m q)" using pushhead_store_contents [OF q(1)] by simp
  show ?thesis
  proof (cases "mq_lock_session q \<noteq> 0 \<and> msg_session m = mq_lock_session q")
    case True
    then show ?thesis
      using q ps by (cases "mq_in_global q = MQ_LOCKED") (auto simp: skynet_mq_push_def pushhead_def queue_ok_def Let_def)
  next
    case False
    have "mq_ok (mq_store m q)" using mq_store_contents [OF q(1)] by simp
    then show ?thesis
      using False q by (auto simp: skynet_mq_push_def queue_ok_def Let_def)
  qed
qed

lemma put_queue_ok:
  assumes "node_ok n" "node_ctx n c = Some ctx" "queue_ok q" "mq_handle q = ctx_handle ctx"
  shows "node_ok (put_queue n (ctx_queue ctx) (g, q)) \<and> same_services n (put_queue n (ctx_queue ctx) (g, q))"
proof -
  let ?n = "put_queue n (ctx_queue ctx) (g, q)"
  have s: "same_services n ?n" by (simp add: same_services_def put_queue_def)
  have "ctx_live ?n c' ctx'" if "node_ctx n c' = Some ctx'" for c' ctx'
    using node_okD(2) [OF assms(1) that] node_okD(3) [OF assms(1,2) that] assms that
    by (cases "ctx_queue ctx' = ctx_queue ctx") (auto simp: ctx_live_def put_queue_def)
  moreover have "node_ctx ?n = node_ctx n" "node_handles ?n = node_handles n" by (simp_all add: put_queue_def)
  ultimately show ?thesis
    using assms(1) s same_services_handles [OF s] by (simp add: node_ok_def)
qed

lemma context_push_ok:
  assumes "node_ok n"
  shows "\<exists>n'. skynet_context_push api h m n = Some (if lookup_ctx n h = None then -1 else 0, n') \<and>
    node_ok n' \<and> same_services n n'"
proof (cases "lookup_ctx n h")
  case None
  then show ?thesis using assms context_push_dead [of h n api m] by (simp add: grab_lookup)
next
  case (Some c)
  then obtain ctx q where c: "node_ctx n c = Some ctx" "ctx_live n c ctx" "resolves n h c ctx q" "queue_ok q"
    by (rule lookup_live [OF assms])
  then have hq: "mq_handle q = ctx_handle ctx" by (auto simp: ctx_live_def resolves_def)
  obtain g' q' where p: "skynet_mq_push (ctx_queue ctx) m (node_gmq n, q) = Some (g', q')" "queue_ok q'" "mq_handle q' = mq_handle q"
    using queue_push_ok [OF c(4), of "ctx_queue ctx" m "node_gmq n"] by blast
  show ?thesis
    using context_push_live [OF c(3) p(1), of api] put_queue_ok [OF assms c(1) p(2), of g'] p(3) hq Some by auto
qed

lemma context_send_ok:
  assumes "node_ok n" "node_ctx n c = Some ctx"
  shows "\<exists>n'. skynet_context_send c d sz source ty session n = Some n' \<and> node_ok n' \<and> same_services n n'"
proof -
  obtain q where q: "node_mq n (ctx_queue ctx) = Some q" "queue_ok q" "mq_handle q = ctx_handle ctx"
    using node_okD(2) [OF assms] by (auto simp: ctx_live_def)
  let ?m = "\<lparr>msg_source = source, msg_session = session, msg_data = d, msg_sz = sz OR pack_type ty\<rparr>"
  obtain g' q' where p: "skynet_mq_push (ctx_queue ctx) ?m (node_gmq n, q) = Some (g', q')" "queue_ok q'" "mq_handle q' = mq_handle q"
    using queue_push_ok [OF q(2)] by blast
  show ?thesis
    using context_send_live [OF assms(2) q(1) p(1)] put_queue_ok [OF assms p(2), of g'] p(3) q(3) by auto
qed

lemma logger_cstring: "cstring ''logger''"
  by (simp add: cstring_def)

lemma findname_total:
  assumes "node_ok n" "cstring nm"
  shows "skynet_handle_findname nm (node_handles n) =
    Some (case map_of (names (node_handles n)) nm of Some h \<Rightarrow> h | None \<Rightarrow> 0)"
  using name_search_whole [OF handle_okD(6) [OF node_okD(1) [OF assms(1)]] assms(2)]
  by (auto simp: skynet_handle_findname_def)

lemma free_data_ok: "node_ok n \<Longrightarrow> node_ok (free_data d n) \<and> same_services n (free_data d n)"
  using node_ok_cong [of n "free_data d n"] by (simp add: free_data_def same_services_def)

lemma error_ok:
  assumes "node_ok n" "\<And>c. context = Some c \<Longrightarrow> node_ctx n c \<noteq> None"
  shows "\<exists>n'. skynet_error api context line n = Some n' \<and> node_ok n' \<and> same_services n n'"
proof -
  obtain h where h: "skynet_handle_findname ''logger'' (node_handles n) = Some h"
    using findname_total [OF assms(1) logger_cstring] by blast
  define n1 where "n1 = (if sint (node_logger n) < 0 then n\<lparr>node_logger := h\<rparr> else n)"
  have n1: "node_ok n1" "same_services n n1"
    using assms(1) node_ok_cong [of n n1] by (auto simp: n1_def same_services_def)
  obtain s where s: "(case context of None \<Rightarrow> Some 0 | Some c \<Rightarrow> map_option ctx_handle (node_ctx n1 c)) = Some s"
    using assms(2) n1(2) by (cases "context") (auto simp: same_services_def)
  let ?n2 = "n1\<lparr>node_log := node_log n1 @ [line]\<rparr>"
  have n2: "node_ok ?n2" "same_services n1 ?n2"
    using n1(1) node_ok_cong [of n1 ?n2] by (auto simp: same_services_def)
  let ?m = "\<lparr>msg_source = s, msg_session = 0, msg_data = PBytes line, msg_sz = of_nat (length line) OR pack_type PTYPE_TEXT\<rparr>"
  obtain r n3 where n3: "skynet_context_push api (node_logger n1) ?m ?n2 = Some (r, n3)" "node_ok n3" "same_services ?n2 n3"
    using context_push_ok [OF n2(1), of api "node_logger n1" ?m] by blast
  have e: "(if sint (node_logger n) < 0
      then do { h \<leftarrow> skynet_handle_findname ''logger'' (node_handles n); Some (n\<lparr>node_logger := h\<rparr>) } else Some n) = Some n1"
    using h by (simp add: n1_def)
  have "skynet_error api context line n =
      (if sint (node_logger n1) < 0 then Some n1 else Some (if r \<noteq> 0 then free_data (PBytes line) n3 else n3))"
    unfolding skynet_error_def e using s n3(1) by simp
  moreover have "same_services n n3" using n1(2) n2(2) n3(3) same_services_trans by blast
  ultimately show ?thesis
    using n1 n3(2) free_data_ok [OF n3(2), of "PBytes line"] same_services_trans [of n n3] by auto
qed

section \<open>Sending\<close>

text \<open>What a sender must respect: the packing, and that a remote destination has a harbor service.\<close>

definition sendable :: "u32 \<Rightarrow> i32 \<Rightarrow> i32 \<Rightarrow> u64 \<Rightarrow> node \<Rightarrow> bool" where
  "sendable destination ty session sz n \<longleftrightarrow> unpack_size sz = sz \<and> 0 \<le> sint (ty AND 0xff) \<and> sint (ty AND 0xff) < 128 \<and>
     (ty AND PTYPE_TAG_ALLOCSESSION = 0 \<or> session = 0) \<and>
     (skynet_harbor_message_isremote destination n \<longrightarrow>
        ty AND 0xff \<noteq> PTYPE_SYSTEM \<and> ty AND 0xff \<noteq> PTYPE_HARBOR \<and>
        (case node_remote n of Some r \<Rightarrow> node_ctx n r \<noteq> None | None \<Rightarrow> False))"

lemma set_ctx_ok:
  assumes ok: "node_ok n" and c: "node_ctx n c = Some ctx"
    and ctx': "ctx_handle ctx' = ctx_handle ctx" "ctx_queue ctx' = ctx_queue ctx" "0 < ctx_ref ctx'"
  shows "node_ok (set_ctx c ctx' n) \<and> lookup_ctx (set_ctx c ctx' n) = lookup_ctx n"
proof -
  let ?n = "set_ctx c ctx' n"
  have h: "ctx_handles ?n = ctx_handles n"
    using c ctx'(1) by (intro ext) (simp add: ctx_handles_def set_ctx_def)
  then have l: "lookup_ctx ?n = lookup_ctx n" by (simp add: lookup_ctx_def set_ctx_def)
  have old: "\<exists>x'. node_ctx n c' = Some x' \<and> ctx_queue x' = ctx_queue x \<and> ctx_handle x' = ctx_handle x \<and>
      (0 < ctx_ref x' \<longrightarrow> 0 < ctx_ref x)" if "node_ctx ?n c' = Some x" for c' x
    using that c ctx' by (cases "c' = c") (auto simp: set_ctx_def)
  have live: "ctx_live ?n c' x" if x: "node_ctx ?n c' = Some x" for c' x
  proof -
    obtain x' where x': "node_ctx n c' = Some x'" "ctx_queue x' = ctx_queue x" "ctx_handle x' = ctx_handle x"
        "0 < ctx_ref x' \<longrightarrow> 0 < ctx_ref x"
      using old [OF x] by blast
    have "ctx_live n c' x'" by (rule node_okD(2) [OF ok x'(1)])
    then show ?thesis using x x' by (auto simp: ctx_live_def set_ctx_def)
  qed
  have dist: "c1 = c2" if eq: "node_ctx ?n c1 = Some x1 \<and> node_ctx ?n c2 = Some x2 \<and> ctx_queue x1 = ctx_queue x2" for c1 c2 x1 x2
  proof -
    obtain y1 y2 where "node_ctx n c1 = Some y1" "ctx_queue y1 = ctx_queue x1"
        "node_ctx n c2 = Some y2" "ctx_queue y2 = ctx_queue x2"
      using old [of c1 x1] old [of c2 x2] eq by blast
    then show ?thesis using node_okD(3) [OF ok, of c1 y1 c2 y2] eq by simp
  qed
  have reg: "node_ctx ?n c' \<noteq> None" if "lookup_ctx ?n h' = Some c'" for h' c'
    using node_okD(4) [OF ok, of h' c'] that l by (simp add: set_ctx_def)
  have "handle_ok (node_handles ?n, ctx_handles ?n)"
    using node_okD(1) [OF ok] h by (simp add: set_ctx_def)
  then show ?thesis using live dist reg l unfolding node_ok_def by blast
qed

lemma newsession_ok:
  assumes "node_ok n" "node_ctx n c = Some ctx"
  shows "\<exists>s n'. skynet_context_newsession c n = Some (s, n') \<and> node_ok n' \<and> lookup_ctx n' = lookup_ctx n \<and>
    node_ctx n' = (node_ctx n)(c \<mapsto> ctx\<lparr>ctx_session_id := ctx_session_id ctx + 1\<rparr>) \<and>
    node_remote n' = node_remote n \<and> node_harbor n' = node_harbor n"
proof -
  have "0 < ctx_ref ctx" using node_okD(2) [OF assms] by (simp add: ctx_live_def)
  then have "node_ok (set_ctx c (ctx\<lparr>ctx_session_id := ctx_session_id ctx + 1\<rparr>) n)"
      "lookup_ctx (set_ctx c (ctx\<lparr>ctx_session_id := ctx_session_id ctx + 1\<rparr>) n) = lookup_ctx n"
    using set_ctx_ok [OF assms, of "ctx\<lparr>ctx_session_id := ctx_session_id ctx + 1\<rparr>"] by simp_all
  then show ?thesis
    using newsession_step [OF assms(2)] by (simp add: set_ctx_def)
qed

lemma filter_args_ok:
  assumes "node_ok n" "node_ctx n c = Some ctx" "sendable destination ty session sz n"
  shows "\<exists>s n' ctx'. filter_args c ty session sz n = Some (s, sz OR pack_type (ty AND 0xff), n') \<and> node_ok n' \<and>
    lookup_ctx n' = lookup_ctx n \<and> node_ctx n' = (node_ctx n)(c \<mapsto> ctx') \<and> ctx_ref ctx' = ctx_ref ctx \<and>
    node_remote n' = node_remote n \<and> node_harbor n' = node_harbor n \<and>
    (ty AND PTYPE_TAG_ALLOCSESSION = 0 \<longrightarrow> s = session \<and> n' = n)"
proof (cases "ty AND PTYPE_TAG_ALLOCSESSION = 0")
  case True
  then show ?thesis
    using assms by (intro exI [of _ session] exI [of _ n] exI [of _ ctx])
      (simp add: filter_args_def PTYPE_TAG_def sendable_def fun_upd_idem)
next
  case False
  then show ?thesis
    using newsession_ok [OF assms(1,2)] assms(3) by (fastforce simp: filter_args_def PTYPE_TAG_def sendable_def)
qed

text \<open>
  C5: On a node whose invariant holds, a send that respects the size and type limits always
  returns, touches no freed object and fails no assertion; the handle table and all reference
  counts are as before, the invariant holds again, and the result is -1 exactly when the
  destination is a local handle that no service has.
\<close>

theorem send_safe:
  assumes "node_ok n" "node_ctx n c = Some ctx" "sendable destination ty session sz n"
  shows "\<exists>r n'. skynet_send api c source destination ty session data sz n = Some (r, n') \<and> node_ok n' \<and>
    lookup_ctx n' = lookup_ctx n \<and> map_option ctx_ref \<circ> node_ctx n' = map_option ctx_ref \<circ> node_ctx n \<and>
    (ty AND PTYPE_TAG_ALLOCSESSION = 0 \<and> session \<noteq> -1 \<longrightarrow>
      (r = -1) = (destination \<noteq> 0 \<and> \<not> skynet_harbor_message_isremote destination n \<and> lookup_ctx n destination = None))"
proof -
  define sz' where "sz' = sz OR pack_type (ty AND 0xff)"
  have pack: "unpack_type sz' = ty AND 0xff"
    using assms(3) unpack_pack(1) by (simp add: sz'_def sendable_def)
  obtain s n1 ctx1 where a: "filter_args c ty session sz n = Some (s, sz', n1)" "node_ok n1" "lookup_ctx n1 = lookup_ctx n"
      "node_ctx n1 = (node_ctx n)(c \<mapsto> ctx1)" "ctx_ref ctx1 = ctx_ref ctx"
      "node_remote n1 = node_remote n" "node_harbor n1 = node_harbor n"
      "ty AND PTYPE_TAG_ALLOCSESSION = 0 \<longrightarrow> s = session \<and> n1 = n"
    using filter_args_ok [OF assms] unfolding sz'_def by blast
  have refs: "map_option ctx_ref \<circ> node_ctx n1 = map_option ctx_ref \<circ> node_ctx n"
    using a(4,5) assms(2) by auto
  have done': "map_option ctx_ref \<circ> node_ctx n' = map_option ctx_ref \<circ> node_ctx n \<and> lookup_ctx n' = lookup_ctx n"
    if "same_services n1 n'" for n'
    using refs a(3) same_services_handles [OF that] that by (simp add: same_services_def)
  define src where "src = (if source = 0 then ctx_handle ctx1 else source)"
  have c1: "node_ctx n1 c = Some ctx1" using a(4) by simp
  show ?thesis
  proof (cases "destination = 0")
    case True
    then show ?thesis using a c1 refs by (auto simp: skynet_send_def)
  next
    case dest: False
    show ?thesis
    proof (cases "skynet_harbor_message_isremote destination n")
      case True
      then have rem: "skynet_harbor_message_isremote destination n1" using a(7) by (simp add: skynet_harbor_message_isremote_def)
      obtain r where r0: "node_remote n = Some r" "node_ctx n r \<noteq> None"
        using assms(3) True by (auto simp: sendable_def split: option.splits)
      then obtain rctx where r: "node_remote n1 = Some r" "node_ctx n1 r = Some rctx"
        using a(4,6) by (cases "r = c") auto
      have ty: "ty AND 0xff \<noteq> PTYPE_SYSTEM" "ty AND 0xff \<noteq> PTYPE_HARBOR"
        using assms(3) True by (auto simp: sendable_def)
      obtain n2 where n2: "skynet_harbor_send [] destination data sz' src s n1 = Some n2" "node_ok n2" "same_services n1 n2"
        using context_send_ok [OF a(2) r(2)] r(1) pack ty by (fastforce simp: skynet_harbor_send_def Let_def)
      then have "skynet_send api c source destination ty session data sz n = Some (s, n2)"
        using a(1) c1 rem dest by (simp add: skynet_send_def src_def)
      then show ?thesis using n2 done' [OF n2(3)] a(8) True by auto
    next
      case False
      then have loc: "\<not> skynet_harbor_message_isremote destination n1" using a(7) by (simp add: skynet_harbor_message_isremote_def)
      let ?m = "\<lparr>msg_source = src, msg_session = s, msg_data = data, msg_sz = sz'\<rparr>"
      obtain n2 where n2: "skynet_context_push api destination ?m n1 = Some (if lookup_ctx n destination = None then -1 else 0, n2)"
          "node_ok n2" "same_services n1 n2"
        using context_push_ok [OF a(2), of api destination ?m] a(3) by auto
      note f = free_data_ok [OF n2(2), of data]
      obtain n3 where n3: "skynet_error api None (''Drop message from '' @ sprintf_x src @ '' to '' @ sprintf_x destination @
            '' (type='' @ sprintf_d ty @ '')(size='' @ sprintf_d (ucast (unpack_size sz')) @ '')'') (free_data data n2) = Some n3"
          "node_ok n3" "same_services (free_data data n2) n3"
        using error_ok [of "free_data data n2" None api] f by fastforce
      have "same_services n1 n3" using n2(3) f n3(3) same_services_trans by blast
      then have "skynet_send api c source destination ty session data sz n =
          Some (if lookup_ctx n destination = None then (-1, n3) else (s, n2))"
        using a(1) c1 loc dest n2(1) n3(1) by (simp add: skynet_send_def src_def)
      then have eq: "skynet_send api c source destination ty session data sz n =
          (if lookup_ctx n destination = None then Some (-1, n3) else Some (s, n2))" by simp
      show ?thesis
      proof (cases "lookup_ctx n destination = None")
        case True
        then show ?thesis using eq n3(2) done' [OF \<open>same_services n1 n3\<close>] dest False by simp
      next
        case registered: False
        have "s \<noteq> -1" if "ty AND PTYPE_TAG_ALLOCSESSION = 0 \<and> session \<noteq> -1"
          using a(8) that by simp
        then show ?thesis using registered eq n2(2) done' [OF n2(3)] by auto
      qed
    qed
  qed
qed

section \<open>The end of a service\<close>

text \<open>A module whose \<open>release\<close> leaves the node alone.\<close>

definition quiet_release :: "module_api \<Rightarrow> bool" where
  "quiet_release api \<longleftrightarrow> (\<forall>f inst n. api_release api f inst n = Some n)"

lemma quiet_releaseD: "quiet_release api \<Longrightarrow> skynet_module_instance_release api m inst n = Some n"
  by (simp add: quiet_release_def skynet_module_instance_release_def split: option.splits)

lemma mark_release_ok:
  assumes "queue_ok q"
  shows "\<exists>g'. skynet_mq_mark_release p (g, q) = Some (g', q\<lparr>mq_release := True\<rparr>)"
  using assms by (simp add: queue_ok_def skynet_mq_mark_release_def Let_def)

text \<open>The node without the context \<open>c\<close>, its queue marked.\<close>

lemma delete_context_eq:
  assumes "quiet_release api" "node_ctx n c = Some ctx" "node_mq n (ctx_queue ctx) = Some q" "queue_ok q"
  shows "\<exists>g. delete_context api c n = Some (n\<lparr>node_gmq := g,
    node_mq := (node_mq n)(ctx_queue ctx \<mapsto> q\<lparr>mq_release := True\<rparr>), node_ctx := (node_ctx n)(c := None),
    node_total := node_total n - 1\<rparr>)"
  using mark_release_ok [OF assms(4), of "ctx_queue ctx" "node_gmq n"] assms(2,3) quiet_releaseD [OF assms(1)]
  by (auto simp: delete_context_def with_mq_def)

lemma handle_ok_hdl:
  assumes ok: "handle_ok (s, hdl)" and c: "\<And>c'. hdl' c' \<noteq> hdl c' \<Longrightarrow> \<forall>h. handle_lookup (s, hdl) h \<noteq> Some c'"
  shows "handle_ok (s, hdl') \<and> handle_lookup (s, hdl') = handle_lookup (s, hdl)"
proof -
  note okD = handle_okD [OF ok]
  have cong: "hdl' c' = hdl c'" if "Some c' \<in> set (slot s)" for c'
  proof (rule ccontr)
    assume "hdl' c' \<noteq> hdl c'"
    then have "c' \<notin> ran (handle_lookup (s, hdl))" using c by (auto simp: ran_def)
    then show False using that slots_ran [OF okD(4)] okD(2,3) by (simp add: handle_lookup_def)
  qed
  have "slots_ok hdl' (slot s)" using slots_ok_cong [of "slot s" hdl' hdl, OF cong] okD(4) by blast
  moreover have "slots_get hdl' (slot s) = slots_get hdl (slot s)"
    using slots_get_cong [of "slot s" hdl' hdl, OF _ cong] okD(2,3) by (intro ext) auto
  ultimately show ?thesis using ok by (auto simp: handle_ok_def handle_lookup_def)
qed

lemma release_unregistered:
  assumes ok: "node_ok n" and quiet: "quiet_release api" and c: "node_ctx n c = Some ctx"
    and unreg: "\<forall>h. lookup_ctx n h \<noteq> Some c"
  shows "\<exists>n'. skynet_context_release api c n = Some (ctx_ref ctx \<noteq> 1, n') \<and> node_ok n' \<and> lookup_ctx n' = lookup_ctx n \<and>
    node_ctx n' = (node_ctx n)(c := if ctx_ref ctx = 1 then None else Some (ctx\<lparr>ctx_ref := ctx_ref ctx - 1\<rparr>)) \<and>
    node_next n' = node_next n \<and>
    (\<forall>p. node_mq n p = None \<longrightarrow> node_mq n' p = None) \<and>
    (\<forall>p. p \<noteq> ctx_queue ctx \<longrightarrow> node_mq n' p = node_mq n p)"
proof (cases "ctx_ref ctx = 1")
  case False
  have pos: "0 < ctx_ref ctx" using node_okD(2) [OF ok c] by (simp add: ctx_live_def)
  let ?ctx = "ctx\<lparr>ctx_ref := ctx_ref ctx - 1\<rparr>"
  have "node_ok (set_ctx c ?ctx n) \<and> lookup_ctx (set_ctx c ?ctx n) = lookup_ctx n"
    using set_ctx_ok [OF ok c, of ?ctx] pos False by simp
  moreover have "skynet_context_release api c n = Some (True, set_ctx c ?ctx n)"
    using c False by (simp add: skynet_context_release_def)
  ultimately show ?thesis using False by (simp add: set_ctx_def)
next
  case True
  obtain q where q: "node_mq n (ctx_queue ctx) = Some q" "queue_ok q"
    using node_okD(2) [OF ok c] by (auto simp: ctx_live_def)
  let ?ctx = "ctx\<lparr>ctx_ref := 0\<rparr>"
  let ?n1 = "set_ctx c ?ctx n"
  have c1: "node_ctx ?n1 c = Some ?ctx" "node_mq ?n1 (ctx_queue ?ctx) = Some q" using q by (simp_all add: set_ctx_def)
  obtain g where g: "delete_context api c ?n1 = Some (?n1\<lparr>node_gmq := g,
      node_mq := (node_mq ?n1)(ctx_queue ?ctx \<mapsto> q\<lparr>mq_release := True\<rparr>), node_ctx := (node_ctx ?n1)(c := None),
      node_total := node_total ?n1 - 1\<rparr>)"
    using delete_context_eq [OF quiet c1 q(2)] by blast
  define n' where "n' = n\<lparr>node_gmq := g, node_mq := (node_mq n)(ctx_queue ctx \<mapsto> q\<lparr>mq_release := True\<rparr>),
    node_ctx := (node_ctx n)(c := None), node_total := node_total n - 1\<rparr>"
  have rel: "skynet_context_release api c n = Some (False, n')"
    using c True g by (simp add: skynet_context_release_def set_ctx_def n'_def)
  have "ctx_handles n' c' \<noteq> ctx_handles n c' \<Longrightarrow> c' = c" for c'
    by (auto simp: ctx_handles_def n'_def split: if_splits)
  then have h: "handle_ok (node_handles n', ctx_handles n') \<and> lookup_ctx n' = lookup_ctx n"
    using handle_ok_hdl [OF node_okD(1) [OF ok], of "ctx_handles n'"] unreg
    by (fastforce simp: lookup_ctx_def n'_def)
  have old: "node_ctx n c' = Some x \<and> c' \<noteq> c" if "node_ctx n' c' = Some x" for c' x
    using that by (auto simp: n'_def split: if_splits)
  have live: "ctx_live n' c' x" if x: "node_ctx n' c' = Some x" for c' x
  proof -
    have "ctx_queue x \<noteq> ctx_queue ctx" using node_okD(3) [OF ok, of c' x c ctx] old [OF x] c by blast
    then show ?thesis using node_okD(2) [OF ok, of c' x] old [OF x] x by (auto simp: ctx_live_def n'_def)
  qed
  have dist: "c1 = c2" if "node_ctx n' c1 = Some x1 \<and> node_ctx n' c2 = Some x2 \<and> ctx_queue x1 = ctx_queue x2" for c1 c2 x1 x2
    using old [of c1 x1] old [of c2 x2] node_okD(3) [OF ok, of c1 x1 c2 x2] that by blast
  have reg: "node_ctx n' c' \<noteq> None" if "lookup_ctx n' h' = Some c'" for h' c'
    using that h unreg node_okD(4) [OF ok, of h' c'] by (auto simp: n'_def)
  have "node_ok n'" using h live dist reg unfolding node_ok_def by blast
  then show ?thesis using rel h True q(1) by (auto simp: n'_def)
qed

lemma handle_retire_ok:
  assumes ok: "node_ok n" and quiet: "quiet_release api" and h: "lookup_ctx n h = Some c" and c: "node_ctx n c = Some ctx"
  shows "\<exists>n'. handle_retire api h n = Some n' \<and> node_ok n' \<and> lookup_ctx n' = (lookup_ctx n)(h := None) \<and>
    node_ctx n' = (node_ctx n)(c := if ctx_ref ctx = 1 then None else Some (ctx\<lparr>ctx_ref := ctx_ref ctx - 1\<rparr>)) \<and>
    (\<forall>p. node_mq n p = None \<longrightarrow> node_mq n' p = None)"
proof -
  obtain hs hdl where r: "skynet_handle_retire h (node_handles n, ctx_handles n) = Some (Some c, hs, hdl)"
    and hs: "handle_ok (hs, ctx_handles n)" "handle_lookup (hs, ctx_handles n) = (lookup_ctx n)(h := None)"
    using retire_ok [OF node_okD(1) [OF ok], of h] h by (auto simp: lookup_ctx_def)
  let ?n = "n\<lparr>node_handles := hs\<rparr>"
  have hd: "ctx_handles ?n = ctx_handles n" by (rule ext) (simp add: ctx_handles_def)
  then have l: "lookup_ctx ?n = (lookup_ctx n)(h := None)" using hs(2) by (simp add: lookup_ctx_def)
  have "node_ctx ?n c' \<noteq> None" if "lookup_ctx ?n h' = Some c'" for h' c'
    using that l node_okD(4) [OF ok, of h' c'] by (auto split: if_splits)
  then have n: "node_ok ?n"
    using ok hs(1) hd unfolding node_ok_def by (simp add: ctx_live_def)
  have "h' = h" if "lookup_ctx n h' = Some c" for h'
    using handle_lookup_inj [OF node_okD(1) [OF ok]] that h by (auto simp: lookup_ctx_def)
  then have unreg: "\<forall>h. lookup_ctx ?n h \<noteq> Some c" using l by auto
  have c': "node_ctx ?n c = Some ctx" using c by simp
  show ?thesis
    using release_unregistered [OF n quiet c' unreg] r l by (auto simp: handle_retire_def)
qed

text \<open>
  C7: Retiring a handle (\<open>EXIT\<close>, \<open>KILL\<close>) takes exactly that handle out of the table and one
  reference off its service; the service is deleted at that moment exactly when this was the last
  reference, and the invariant holds again, so no registered handle ever resolves to a deleted
  service.
\<close>

theorem retire_safe:
  assumes "node_ok n" "quiet_release api" "lookup_ctx n h = Some c" "node_ctx n c = Some ctx"
  shows "\<exists>n'. handle_retire api h n = Some n' \<and> node_ok n' \<and> lookup_ctx n' = (lookup_ctx n)(h := None) \<and>
    node_ctx n' = (node_ctx n)(c := if ctx_ref ctx = 1 then None else Some (ctx\<lparr>ctx_ref := ctx_ref ctx - 1\<rparr>))"
  using handle_retire_ok [OF assms] by blast

section \<open>The start of a service\<close>

lemma node_start_ok: "node_ok (node_start i path sec cs point)"
proof -
  have "handle_ok (skynet_handle_init i, \<lambda>_::nat. 0)" by (rule init_ok)
  moreover have "ctx_handles (node_start i path sec cs point) = (\<lambda>_. 0)"
    by (rule ext) (simp add: ctx_handles_def node_start_def)
  ultimately show ?thesis
    using init_lookup [of i "\<lambda>_::nat. 0"] by (simp add: node_ok_def lookup_ctx_def node_start_def)
qed

definition new_ctx :: "skynet_module \<Rightarrow> nat \<Rightarrow> u32 \<Rightarrow> mqptr \<Rightarrow> skynet_context" where
  "new_ctx m inst h p = \<lparr>ctx_instance = inst, ctx_mod = m, ctx_handle = h, ctx_ref = 2, ctx_result = [], ctx_cb = None,
     ctx_session_id = 0, ctx_forward = 0, ctx_queue = p, ctx_init = False, ctx_endless = False\<rparr>"

lemma queue_create_ok: "queue_ok (skynet_mq_create h)"
  unfolding queue_ok_def by (simp add: mq_create_ok [THEN conjunct1]) (simp add: skynet_mq_create_def)

lemma fresh_unregistered: "node_ok n \<Longrightarrow> node_ctx n c = None \<Longrightarrow> lookup_ctx n h \<noteq> Some c"
  using node_okD(4) by blast

lemma context_alloc_ok:
  assumes ok: "node_ok n" and room: "card (dom (lookup_ctx n)) < 2 ^ 24"
  shows "\<exists>h n'. context_alloc m inst n = Some (node_next n, n') \<and> node_ok n' \<and> lookup_ctx n h = None \<and>
    lookup_ctx n' = (lookup_ctx n)(h \<mapsto> node_next n) \<and>
    node_ctx n' = (node_ctx n)(node_next n \<mapsto> new_ctx m inst h (node_next n + 1)) \<and>
    node_mq n' = (node_mq n)(node_next n + 1 \<mapsto> skynet_mq_create h) \<and> node_next n' = node_next n + 2 \<and>
    node_gmq n' = node_gmq n"
proof -
  define c where "c = node_next n"
  let ?n1 = "set_ctx c (new_ctx m inst 0 (c + 1)) (n\<lparr>node_next := c + 2\<rparr>)"
  have fresh: "node_ctx n c = None"
  proof (rule ccontr)
    assume "node_ctx n c \<noteq> None"
    then obtain x where "node_ctx n c = Some x" by blast
    then have "ctx_live n c x" by (rule node_okD(2) [OF ok])
    then show False by (simp add: ctx_live_def c_def)
  qed
  have diff: "c' = c" if "ctx_handles ?n1 c' \<noteq> ctx_handles n c'" for c'
    using that by (auto simp: ctx_handles_def set_ctx_def split: if_splits)
  have "handle_ok (node_handles n, ctx_handles ?n1) \<and> handle_lookup (node_handles n, ctx_handles ?n1) = lookup_ctx n"
    unfolding lookup_ctx_def
    by (rule handle_ok_hdl [OF node_okD(1) [OF ok]]) (use diff fresh_unregistered [OF ok fresh] in \<open>auto simp: lookup_ctx_def\<close>)
  moreover have "c \<notin> ran (lookup_ctx n)" using fresh_unregistered [OF ok fresh] by (auto simp: ran_def)
  ultimately obtain h hs hdl where r: "skynet_handle_register c (node_handles n, ctx_handles ?n1) = Some (h, hs, hdl)"
    and hs: "handle_ok (hs, hdl)" "lookup_ctx n h = None" "handle_lookup (hs, hdl) = (lookup_ctx n)(h \<mapsto> c)"
    using register_ok [of "node_handles n" "ctx_handles ?n1" c] room by auto
  have hdl: "hdl = (ctx_handles ?n1)(c := h)"
    using r by (auto simp: skynet_handle_register_def Let_def split: Option.bind_splits)
  define n' where "n' = n\<lparr>node_handles := hs, node_ctx := (node_ctx n)(c \<mapsto> new_ctx m inst h (c + 1)),
    node_mq := (node_mq n)(c + 1 \<mapsto> skynet_mq_create h), node_next := c + 2, node_total := node_total n + 1\<rparr>"
  have alloc: "context_alloc m inst n = Some (c, n')"
    using r hdl by (simp add: context_alloc_def new_ctx_def Let_def set_ctx_def n'_def c_def)
  have hn': "ctx_handles n' = hdl"
    by (rule ext) (simp add: hdl ctx_handles_def n'_def set_ctx_def new_ctx_def)
  then have h: "handle_ok (node_handles n', ctx_handles n')" "lookup_ctx n' = (lookup_ctx n)(h \<mapsto> c)"
    using hs by (simp_all add: lookup_ctx_def n'_def)
  have old: "ctx_live n c' x" if "node_ctx n' c' = Some x" "c' \<noteq> c" for c' x
    using node_okD(2) [OF ok, of c' x] that by (simp add: n'_def)
  have live: "ctx_live n' c' x" if x: "node_ctx n' c' = Some x" for c' x
  proof (cases "c' = c")
    case True
    then show ?thesis using x queue_create_ok [of h] by (auto simp: ctx_live_def n'_def new_ctx_def skynet_mq_create_def)
  next
    case False
    then show ?thesis using old [OF x False] x by (auto simp: ctx_live_def n'_def c_def)
  qed
  have dist: "c1 = c2" if eq: "node_ctx n' c1 = Some x1 \<and> node_ctx n' c2 = Some x2 \<and> ctx_queue x1 = ctx_queue x2" for c1 c2 x1 x2
  proof -
    have new: "ctx_queue x = c + 1" if "node_ctx n' c = Some x" for x using that by (auto simp: n'_def new_ctx_def)
    have less: "ctx_queue x < c" if "node_ctx n' c' = Some x" "c' \<noteq> c" for c' x
      using old [OF that] by (simp add: ctx_live_def c_def)
    show ?thesis
    proof (cases "c1 = c \<or> c2 = c")
      case True
      then show ?thesis using eq new less by (metis Suc_eq_plus1 less_SucI less_irrefl)
    next
      case False
      then show ?thesis using eq node_okD(3) [OF ok, of c1 x1 c2 x2] by (simp add: n'_def)
    qed
  qed
  have reg: "node_ctx n' c' \<noteq> None" if "lookup_ctx n' h' = Some c'" for h' c'
    using that h(2) node_okD(4) [OF ok, of h' c'] by (auto simp: n'_def split: if_splits)
  have "node_ok n'" using h(1) live dist reg unfolding node_ok_def by blast
  then show ?thesis using alloc h(2) hs(2) by (auto simp: n'_def c_def)
qed

text \<open>What the module's \<open>init\<close> may do to the context it was given: it keeps the creator's reference and the queue.\<close>

definition after_init :: "node \<Rightarrow> nat \<Rightarrow> skynet_context \<Rightarrow> payload message_queue \<Rightarrow> bool" where
  "after_init n c ctx q \<longleftrightarrow> node_ok n \<and> node_ctx n c = Some ctx \<and> ctx_ref ctx = 2 \<and> ctx_queue ctx = c + 1 \<and>
     lookup_ctx n (ctx_handle ctx) = Some c \<and> node_mq n (c + 1) = Some q \<and>
     mq_in_global q = MQ_IN_GLOBAL \<and> mq_lock_session q = 0"

lemma drop_mq_ok:
  assumes "node_ok n" "\<And>c ctx. node_ctx n c = Some ctx \<Longrightarrow> ctx_queue ctx \<noteq> p"
  shows "node_ok (n\<lparr>node_gmq := g, node_mq := (node_mq n)(p := None), node_freed := fs\<rparr>)" (is "node_ok ?n")
proof -
  have "ctx_live ?n c ctx" if "node_ctx n c = Some ctx" for c ctx
    using node_okD(2) [OF assms(1) that] assms(2) [OF that] by (auto simp: ctx_live_def)
  moreover have "ctx_handles ?n = ctx_handles n" by (rule ext) (simp add: ctx_handles_def)
  ultimately show ?thesis
    using assms(1) unfolding node_ok_def by (simp add: lookup_ctx_def)
qed

text \<open>
  C6: \<open>skynet_context_new\<close> either starts the service or leaves nothing behind.  When \<open>init\<close>
  succeeds the service is registered, marked initialised, holds exactly the one reference of the
  handle table and its queue is scheduled; when \<open>init\<close> fails its handle is retired, the context is
  deleted and its queue destroyed.  The invariant of the node holds in both cases.
\<close>

theorem context_new_correct:
  assumes query: "skynet_module_query (api_dlopen api) (api_dlsym api) nm (node_mods n) = Some (Some m, mods)"
    and create: "skynet_module_instance_create api m (n\<lparr>node_mods := mods\<rparr>) = Some (Some inst, n1)"
    and alloc: "context_alloc m inst n1 = Some (c, n2)"
    and init: "skynet_module_instance_init api m inst c param n2 = Some (r, n3)"
    and n3: "after_init n3 c ctx q" and quiet: "quiet_release api"
  shows "\<exists>n'. skynet_context_new api nm param n = Some (if r = 0 then Some c else None, n') \<and> node_ok n' \<and>
    (if r = 0 then lookup_ctx n' = lookup_ctx n3 \<and>
       node_ctx n' c = Some (ctx\<lparr>ctx_ref := 1, ctx_init := True\<rparr>) \<and> node_mq n' = node_mq n3 \<and>
       node_gmq n' = skynet_globalmq_push (c + 1) (node_gmq n3)
     else lookup_ctx n' = (lookup_ctx n3)(ctx_handle ctx := None) \<and>
       node_ctx n' = (node_ctx n3)(c := None) \<and> node_mq n' (c + 1) = None)"
proof -
  have a: "node_ok n3" "node_ctx n3 c = Some ctx" "ctx_ref ctx = 2" "ctx_queue ctx = c + 1"
    "lookup_ctx n3 (ctx_handle ctx) = Some c" "node_mq n3 (c + 1) = Some q"
    "mq_in_global q = MQ_IN_GLOBAL" "mq_lock_session q = 0"
    using n3 by (simp_all add: after_init_def)
  let ?c1 = "ctx\<lparr>ctx_ref := 1\<rparr>"
  let ?n4 = "set_ctx c ?c1 n3"
  have n4: "node_ok ?n4" "lookup_ctx ?n4 = lookup_ctx n3"
    using set_ctx_ok [OF a(1,2), of ?c1] by simp_all
  have rel: "skynet_context_release api c n3 = Some (True, ?n4)"
    using a(2,3) by (simp add: skynet_context_release_def)
  have new: "skynet_context_new api nm param n = (if r = 0 then do {
        n \<leftarrow> do { ctx \<leftarrow> node_ctx ?n4 c; Some (set_ctx c (ctx\<lparr>ctx_init := True\<rparr>) ?n4) };
        n \<leftarrow> with_mq (c + 1) (skynet_mq_force_push (c + 1)) n;
        Some (Some c, n)
      } else do {
        ctx \<leftarrow> node_ctx ?n4 c;
        n \<leftarrow> handle_retire api (ctx_handle ctx) ?n4;
        q \<leftarrow> node_mq n (c + 1);
        (g, q, ms) \<leftarrow> skynet_mq_release (c + 1) (node_gmq n, q);
        Some (None, n\<lparr>node_gmq := g, node_mq := (node_mq n)(c + 1 := q),
                      node_freed := node_freed n @ map (\<lambda>m. msg_data (the m)) ms\<rparr>) })"
    using query create alloc init rel by (simp add: skynet_context_new_def Let_def)
  show ?thesis
  proof (cases "r = 0")
    case True
    let ?c2 = "?c1\<lparr>ctx_init := True\<rparr>"
    let ?n5 = "set_ctx c ?c2 ?n4"
    have c4: "node_ctx ?n4 c = Some ?c1" by (simp add: set_ctx_def)
    have n5: "node_ok ?n5" "lookup_ctx ?n5 = lookup_ctx n3"
      using set_ctx_ok [OF n4(1) c4, of ?c2] n4(2) by simp_all
    have c5: "node_ctx ?n5 c = Some ?c2" by (simp add: set_ctx_def)
    have q5: "node_mq ?n5 = node_mq n3" "node_gmq ?n5 = node_gmq n3" by (simp_all add: set_ctx_def)
    have hq: "queue_ok q" "mq_handle q = ctx_handle ?c2"
      using node_okD(2) [OF a(1,2)] a(4,6) by (auto simp: ctx_live_def)
    define n6 where "n6 = put_queue ?n5 (c + 1) (skynet_globalmq_push (c + 1) (node_gmq n3), q)"
    have n6: "node_ok n6" "same_services ?n5 n6"
      using put_queue_ok [OF n5(1) c5 hq] a(4) by (simp_all add: n6_def)
    have "with_mq (c + 1) (skynet_mq_force_push (c + 1)) ?n5 = Some n6"
      using a(6,7) q5 by (simp add: with_mq_def skynet_mq_force_push_def MQ_IN_GLOBAL_def n6_def put_queue_def)
    then have "skynet_context_new api nm param n = Some (Some c, n6)"
      using new True c4 by simp
    moreover have "node_ctx n6 c = Some ?c2" "lookup_ctx n6 = lookup_ctx n3"
      using n6(2) c5 n5(2) same_services_handles [OF n6(2)] by (simp_all add: same_services_def)
    moreover have "node_mq n6 = node_mq n3" "node_gmq n6 = skynet_globalmq_push (c + 1) (node_gmq n3)"
      using a(6) q5 by (simp_all add: n6_def put_queue_def fun_upd_idem)
    ultimately show ?thesis using True n6(1) by simp
  next
    case False
    have c4: "node_ctx ?n4 c = Some ?c1" by (simp add: set_ctx_def)
    obtain hs where r: "skynet_handle_retire (ctx_handle ctx) (node_handles ?n4, ctx_handles ?n4) = Some (Some c, hs, ctx_handles ?n4)"
      using retire_ok [OF node_okD(1) [OF n4(1)], of "ctx_handle ctx"] a(5) n4(2) by (auto simp: lookup_ctx_def)
    obtain n5 where n5: "handle_retire api (ctx_handle ctx) ?n4 = Some n5" "node_ok n5"
        "lookup_ctx n5 = (lookup_ctx n3)(ctx_handle ctx := None)" "node_ctx n5 = (node_ctx ?n4)(c := None)"
        "\<exists>q'. node_mq n5 (c + 1) = Some q' \<and> mq_release q' \<and> mq_ok q'"
    proof -
      obtain n' where n': "handle_retire api (ctx_handle ctx) ?n4 = Some n'" "node_ok n'"
          "lookup_ctx n' = (lookup_ctx ?n4)(ctx_handle ctx := None)" "node_ctx n' = (node_ctx ?n4)(c := None)"
        using handle_retire_ok [OF n4(1) quiet _ c4, of "ctx_handle ctx"] a(5) n4(2) by auto
      let ?n = "?n4\<lparr>node_handles := hs\<rparr>"
      let ?nz = "set_ctx c (?c1\<lparr>ctx_ref := 0\<rparr>) ?n"
      have q0: "node_ctx ?nz c = Some (?c1\<lparr>ctx_ref := 0\<rparr>)" "node_mq ?nz (ctx_queue (?c1\<lparr>ctx_ref := 0\<rparr>)) = Some q"
        using a(4,6) by (simp_all add: set_ctx_def)
      have hq: "queue_ok q" using node_okD(2) [OF a(1,2)] a(4,6) by (auto simp: ctx_live_def)
      have "handle_retire api (ctx_handle ctx) ?n4 = map_option snd (skynet_context_release api c ?n)"
        using r by (simp add: handle_retire_def)
      then have "handle_retire api (ctx_handle ctx) ?n4 = delete_context api c ?nz"
        by (simp add: skynet_context_release_def set_ctx_def Option.map_conv_bind_option)
      then have "node_mq n' (c + 1) = Some (q\<lparr>mq_release := True\<rparr>)"
        using delete_context_eq [OF quiet q0 hq] n'(1) a(4) by auto
      moreover have "mq_ok (q\<lparr>mq_release := True\<rparr>)" using hq by (simp add: queue_ok_def)
      ultimately show thesis using that [of n'] n' n4(2) by simp
    qed
    then obtain q' where q': "node_mq n5 (c + 1) = Some q'" "mq_release q'" "mq_ok q'" by blast
    let ?ms = "map Some (mq_contents q')"
    define n6 where "n6 = n5\<lparr>node_mq := (node_mq n5)(c + 1 := None), node_freed := node_freed n5 @ map (\<lambda>m. msg_data (the m)) ?ms\<rparr>"
    have rel': "skynet_mq_release (c + 1) (node_gmq n5, q') = Some (node_gmq n5, None, ?ms)"
      using q' drop_queue_returns [OF q'(3)] by (simp add: skynet_mq_release_def)
    have n6': "n6 = n5\<lparr>node_gmq := node_gmq n5, node_mq := (node_mq n5)(c + 1 := None),
        node_freed := node_freed n5 @ map (\<lambda>m. msg_data (the m)) ?ms\<rparr>" by (simp add: n6_def)
    have other: "ctx_queue x \<noteq> c + 1" if "node_ctx n5 c' = Some x" for c' x
    proof -
      have "node_ctx n3 c' = Some x" "c' \<noteq> c" using that n5(4) by (auto simp: set_ctx_def split: if_splits)
      then show ?thesis using node_okD(3) [OF a(1), of c' x c ctx] a(2,4) by auto
    qed
    have "node_ok n6" unfolding n6' by (rule drop_mq_ok [OF n5(2) other])
    moreover have "skynet_context_new api nm param n = Some (None, n6)"
      using new False c4 n5(1) q'(1) rel' by (simp add: n6')
    moreover have "lookup_ctx n6 = lookup_ctx n5"
      by (rule ext) (simp add: lookup_ctx_def n6_def ctx_handles_def [abs_def])
    moreover have "node_ctx n6 = (node_ctx n3)(c := None)" using n5(4) by (simp add: n6_def set_ctx_def)
    moreover have "node_mq n6 (c + 1) = None" by (simp add: n6_def)
    ultimately show ?thesis using False n5(3) by simp
  qed
qed

section \<open>Concrete nodes\<close>

lemma card_lookup_small: "finite (dom f) \<Longrightarrow> card (dom f) \<le> k \<Longrightarrow> card (dom (f(h \<mapsto> c))) \<le> Suc k"
  by (simp add: card_insert_if)

lemma demo_node_ok: "node_ok demo_node"
proof -
  let ?n0' = "node_start 0 [] 0 0 0"
  have e: "lookup_ctx ?n0' = Map.empty"
    using init_lookup [of 0 "ctx_handles ?n0'"] by (simp add: lookup_ctx_def node_start_def)
  obtain h1 n1 where n1: "context_alloc demo_module 0 ?n0' = Some (0, n1)" "node_ok n1"
      "lookup_ctx n1 = [h1 \<mapsto> 0]" "node_next n1 = 2"
    using context_alloc_ok [OF node_start_ok, of 0 "[]" 0 0 0 demo_module 0] e by (auto simp: node_start_def)
  have "card (dom (lookup_ctx n1)) < 2 ^ 24" using n1(3) by simp
  then obtain h2 n2 where n2: "context_alloc demo_module 0 n1 = Some (2, n2)" "node_ok n2"
      "node_ctx n2 2 = Some (new_ctx demo_module 0 h2 3)"
    using context_alloc_ok [OF n1(2), of demo_module 0] n1(4) by auto
  have "demo_node = set_ctx 2 ((new_ctx demo_module 0 h2 3)\<lparr>ctx_cb := Some 7\<rparr>) n2"
    using n1(1) n2(1,3) by (simp add: demo_node_def skynet_callback_def)
  then show ?thesis
    using set_ctx_ok [OF n2(2,3), of "(new_ctx demo_module 0 h2 3)\<lparr>ctx_cb := Some 7\<rparr>"] by (simp add: new_ctx_def)
qed

lemma send_safe_witness:
  "\<exists>r n'. skynet_send demo_api 0 0 2 PTYPE_CLIENT 5 (PBytes ''hello'') 5 demo_node = Some (r, n') \<and> node_ok n' \<and> r \<noteq> -1"
proof -
  obtain ctx where ctx: "node_ctx demo_node 0 = Some ctx"
    using demo_facts(1) by (auto split: option.splits)
  have "sendable 2 PTYPE_CLIENT 5 5 demo_node"
    using demo_facts(6)
    by (simp add: sendable_def skynet_harbor_message_isremote_def HANDLE_MASK_def unpack_size_def PTYPE_CLIENT_def
        PTYPE_TAG_ALLOCSESSION_def)
  moreover have "lookup_ctx demo_node 2 = Some 2" using grab_lookup [OF demo_node_ok, of 2] demo_facts(3) by simp
  moreover have "PTYPE_CLIENT AND PTYPE_TAG_ALLOCSESSION = 0" by (simp add: PTYPE_CLIENT_def PTYPE_TAG_ALLOCSESSION_def)
  ultimately show ?thesis
    using send_safe [OF demo_node_ok ctx, of 2 PTYPE_CLIENT 5 5 demo_api 0 "PBytes ''hello''"] by auto
qed

lemma demo_quiet: "quiet_release demo_api"
  by (simp add: quiet_release_def demo_api_def)

lemma retire_safe_witness:
  "\<exists>n'. handle_retire demo_api 2 demo_node = Some n' \<and> node_ok n' \<and> lookup_ctx n' 2 = None"
proof -
  have l: "lookup_ctx demo_node 2 = Some 2" using grab_lookup [OF demo_node_ok, of 2] demo_facts(3) by simp
  obtain ctx where ctx: "node_ctx demo_node 2 = Some ctx"
    using demo_facts(2) by (auto split: option.splits)
  show ?thesis using retire_safe [OF demo_node_ok demo_quiet l ctx] by auto
qed

text \<open>A module whose \<open>init\<close> reports a failure.\<close>

definition fail_api :: module_api where
  "fail_api = demo_api\<lparr>api_dlopen := (\<lambda>_. Some 1), api_dlsym := (\<lambda>_ s. if s = ''s_init'' then Some 5 else None),
     api_init := (\<lambda>_ _ _ _ n. Some (1, n))\<rparr>"

lemma context_new_correct_witness:
  "\<exists>n'. skynet_context_new fail_api ''s'' None (node_start 0 ''?.so'' 0 0 0) = Some (None, n') \<and> node_ok n' \<and> node_ctx n' 0 = None"
proof -
  let ?n = "node_start 0 ''?.so'' 0 0 0"
  let ?m = "\<lparr>m_name = ''s'', m_module = 1, m_create = None, m_init = Some 5, m_release = None\<rparr>"
  let ?mods = "\<lparr>m_path = ''?.so'', m_list = [?m]\<rparr>"
  have "skynet_module_query (\<lambda>_. Some 1) (\<lambda>_ s. if s = ''s_init'' then Some 5 else None) ''s'' (skynet_module_init ''?.so'') =
      Some (Some ?m, ?mods)"
    by code_simp
  then have query: "skynet_module_query (api_dlopen fail_api) (api_dlsym fail_api) ''s'' (node_mods ?n) = Some (Some ?m, ?mods)"
    by (simp add: fail_api_def node_start_def)
  have create: "skynet_module_instance_create fail_api ?m (?n\<lparr>node_mods := ?mods\<rparr>) = Some (Some (2 ^ 64 - 1), ?n\<lparr>node_mods := ?mods\<rparr>)"
    by (simp add: skynet_module_instance_create_def)
  have ok: "node_ok (?n\<lparr>node_mods := ?mods\<rparr>)"
    using node_ok_cong [OF node_start_ok [of 0 "''?.so''" 0 0 0], of "?n\<lparr>node_mods := ?mods\<rparr>"] by (simp add: same_services_def)
  have "lookup_ctx (?n\<lparr>node_mods := ?mods\<rparr>) = Map.empty"
    using init_lookup [of 0 "ctx_handles (?n\<lparr>node_mods := ?mods\<rparr>)"] by (simp add: lookup_ctx_def node_start_def)
  then obtain h n2 where n2: "context_alloc ?m (2 ^ 64 - 1) (?n\<lparr>node_mods := ?mods\<rparr>) = Some (0, n2)" "node_ok n2"
      "lookup_ctx n2 = [h \<mapsto> 0]" "node_ctx n2 0 = Some (new_ctx ?m (2 ^ 64 - 1) h 1)" "node_mq n2 1 = Some (skynet_mq_create h)"
    using context_alloc_ok [OF ok, of ?m "2 ^ 64 - 1"] by (auto simp: node_start_def)
  have init: "skynet_module_instance_init fail_api ?m (2 ^ 64 - 1) 0 None n2 = Some (1, n2)"
    by (simp add: skynet_module_instance_init_def fail_api_def)
  have a: "after_init n2 0 (new_ctx ?m (2 ^ 64 - 1) h 1) (skynet_mq_create h)"
    using n2 by (simp add: after_init_def new_ctx_def skynet_mq_create_def)
  have quiet: "quiet_release fail_api" by (simp add: quiet_release_def fail_api_def demo_api_def)
  show ?thesis
    using context_new_correct [OF query create n2(1) init a quiet] by auto
qed

text \<open>
  When the module's \<open>init\<close> fails after it has already retired itself (a script that calls \<open>EXIT\<close>
  and then raises), the release that follows deletes the context, and \<open>skynet_context_new\<close> reads
  \<open>ctx->handle\<close> from the freed memory.
\<close>

theorem context_new_use_after_free:
  assumes "skynet_module_query (api_dlopen api) (api_dlsym api) nm (node_mods n) = Some (Some m, mods)"
    and "skynet_module_instance_create api m (n\<lparr>node_mods := mods\<rparr>) = Some (Some inst, n1)"
    and "context_alloc m inst n1 = Some (c, n2)"
    and "skynet_module_instance_init api m inst c param n2 = Some (r, n3)" "r \<noteq> 0"
    and "node_ok n3" "node_ctx n3 c = Some ctx" "ctx_ref ctx = 1" "\<forall>h. lookup_ctx n3 h \<noteq> Some c" "quiet_release api"
  shows "skynet_context_new api nm param n = None"
  using assms(1-5) release_unregistered [OF assms(6,10,7,9)] assms(8)
  by (auto simp: skynet_context_new_def Let_def)

end
