(* ===== verification/RingBuffer.thy ===== *)
theory RingBuffer
  imports Prelude
begin

text \<open>
  \<open>gate/ringbuffer.c\<close>: the buffer in which the gate keeps what it has read from its connections.
  The memory behind \<open>struct ringbuffer\<close> is a list of 32-bit cells; a block is the offset of its
  header (\<open>length\<close>, \<open>offset\<close>, \<open>id\<close>, \<open>next\<close>: four cells), its bytes follow the header.  A block
  shorter than a header (the rest of a split) has only its length.  Numbers are C \<open>int\<close>s: their
  values as \<open>int\<close>, with the conversion \<open>wrap\<close> where a value can leave the range.  \<open>None\<close> is a failed
  assertion or an access outside the buffer; \<open>NULL\<close> results are values.
\<close>

unbundle bit_operations_syntax

section \<open>Memory\<close>

definition wrap :: "int \<Rightarrow> int" where "wrap x = sint (of_int x :: i32)"

record ringbuffer =
  rb_size :: int
  rb_head :: int
  rb_mem :: "i32 list"

definition valid :: "int \<Rightarrow> ringbuffer \<Rightarrow> bool" where
  "valid p rb \<longleftrightarrow> 0 \<le> p \<and> p mod 4 = 0 \<and> nat (p div 4) < length (rb_mem rb)"

definition cell :: "int \<Rightarrow> ringbuffer \<Rightarrow> int" where
  "cell p rb = sint (rb_mem rb ! nat (p div 4))"

definition upd :: "int \<Rightarrow> int \<Rightarrow> ringbuffer \<Rightarrow> ringbuffer" where
  "upd p v rb = rb\<lparr>rb_mem := (rb_mem rb)[nat (p div 4) := of_int v]\<rparr>"

definition get :: "int \<Rightarrow> ringbuffer \<Rightarrow> int option" where
  "get p rb = (if valid p rb then Some (cell p rb) else None)"

definition put :: "int \<Rightarrow> int \<Rightarrow> ringbuffer \<Rightarrow> ringbuffer option" where
  "put p v rb = (if valid p rb then Some (upd p v rb) else None)"

text \<open>Single bytes, little endian, for the data of the blocks.\<close>

definition byte_valid :: "int \<Rightarrow> ringbuffer \<Rightarrow> bool" where
  "byte_valid p rb \<longleftrightarrow> 0 \<le> p \<and> nat (p div 4) < length (rb_mem rb)"

definition byte :: "int \<Rightarrow> ringbuffer \<Rightarrow> u8" where
  "byte p rb = ucast (drop_bit (8 * nat (p mod 4)) (rb_mem rb ! nat (p div 4)))"

definition set_byte :: "int \<Rightarrow> u8 \<Rightarrow> ringbuffer \<Rightarrow> ringbuffer" where
  "set_byte p b rb =
     (let k = 8 * nat (p mod 4); w = rb_mem rb ! nat (p div 4)
      in rb\<lparr>rb_mem := (rb_mem rb)[nat (p div 4) :=
              (w AND NOT (push_bit k 0xff)) OR push_bit k (ucast b)]\<rparr>)"

fun memcpy :: "int \<Rightarrow> int \<Rightarrow> nat \<Rightarrow> ringbuffer \<Rightarrow> ringbuffer option" where
  "memcpy dst src 0 rb = Some rb"
| "memcpy dst src (Suc n) rb =
     (if byte_valid src rb \<and> byte_valid dst rb
      then memcpy (dst + 1) (src + 1) n (set_byte dst (byte src rb) rb) else None)"

fun store_bytes :: "int \<Rightarrow> u8 list \<Rightarrow> ringbuffer \<Rightarrow> ringbuffer option" where
  "store_bytes dst [] rb = Some rb"
| "store_bytes dst (b # bs) rb =
     (if byte_valid dst rb then store_bytes (dst + 1) bs (set_byte dst b rb) else None)"

section \<open>Blocks\<close>

definition HDR :: int where "HDR = 16"

definition align4 :: "int \<Rightarrow> int" where "align4 s = wrap ((s + 3) div 4 * 4)"

abbreviation blk_length :: "int \<Rightarrow> ringbuffer \<Rightarrow> int option" where "blk_length b rb \<equiv> get b rb"
abbreviation blk_offset :: "int \<Rightarrow> ringbuffer \<Rightarrow> int option" where "blk_offset b rb \<equiv> get (b + 4) rb"
abbreviation blk_id :: "int \<Rightarrow> ringbuffer \<Rightarrow> int option" where "blk_id b rb \<equiv> get (b + 8) rb"
abbreviation blk_next :: "int \<Rightarrow> ringbuffer \<Rightarrow> int option" where "blk_next b rb \<equiv> get (b + 12) rb"

text \<open>\<open>length >= sizeof(struct ringbuffer_block)\<close> is a comparison of unsigned numbers.\<close>

definition has_header :: "int \<Rightarrow> bool" where "has_header l \<longleftrightarrow> l < 0 \<or> HDR \<le> l"

definition block_next :: "ringbuffer \<Rightarrow> int \<Rightarrow> int option option" where
  "block_next rb blk = do {
     l \<leftarrow> blk_length blk rb;
     let align_length = align4 l;
     if wrap (align_length + blk) = rb_size rb then Some None
     else do {
       c_assert (wrap (align_length + blk) < rb_size rb);
       Some (Some (wrap (blk + align_length)))
     }
   }"

text \<open>The memory of a new buffer is what \<open>malloc\<close> returned.\<close>

definition ringbuffer_new :: "i32 list \<Rightarrow> int \<Rightarrow> ringbuffer option" where
  "ringbuffer_new memory sz = do {
     let rb = \<lparr>rb_size = sz, rb_head = 0, rb_mem = memory\<rparr>;
     rb \<leftarrow> put 0 sz rb;
     put 8 (-1) rb
   }"

partial_function (option) link_end :: "ringbuffer \<Rightarrow> int \<Rightarrow> int option" where
  "link_end rb head = do {
     n \<leftarrow> blk_next head rb;
     if 0 \<le> n then link_end rb n else Some head
   }"

definition ringbuffer_link :: "int \<Rightarrow> int \<Rightarrow> ringbuffer \<Rightarrow> ringbuffer option" where
  "ringbuffer_link head next rb = do {
     head \<leftarrow> link_end rb head;
     i \<leftarrow> blk_id head rb;
     rb \<leftarrow> put (next + 8) i rb;
     put (head + 12) next rb
   }"

section \<open>Allocation\<close>

definition alloc_block :: "int \<Rightarrow> int \<Rightarrow> ringbuffer \<Rightarrow> (int \<times> ringbuffer) option" where
  "alloc_block total_size sz rb = do {
     let blk = rb_head rb;
     let align_length = align4 (HDR + sz);
     rb \<leftarrow> put blk (HDR + sz) rb;
     rb \<leftarrow> put (blk + 4) 0 rb;
     rb \<leftarrow> put (blk + 12) (-1) rb;
     rb \<leftarrow> put (blk + 8) (-1) rb;
     next \<leftarrow> block_next rb blk;
     case next of
       Some n \<Rightarrow> do {
         let rb = rb\<lparr>rb_head := n\<rparr>;
         if align_length < total_size then do {
           rb \<leftarrow> put n (total_size - align_length) rb;
           rb \<leftarrow> (if has_header (total_size - align_length) then put (n + 8) (-1) rb else Some rb);
           Some (blk, rb)
         } else Some (blk, rb)
       }
     | None \<Rightarrow> Some (blk, rb\<lparr>rb_head := 0\<rparr>)
   }"

definition block_used :: "ringbuffer \<Rightarrow> int \<Rightarrow> bool option" where
  "block_used rb blk = do {
     l \<leftarrow> blk_length blk rb;
     if has_header l then do { i \<leftarrow> blk_id blk rb; Some (0 \<le> i) } else Some False
   }"

text \<open>One pass over the blocks from \<open>blk\<close> on: a block in use, enough free space, or the end.\<close>

datatype scan = Used | Found int | End

partial_function (option) alloc_scan :: "ringbuffer \<Rightarrow> int \<Rightarrow> int \<Rightarrow> int \<Rightarrow> scan option" where
  "alloc_scan rb align_length free_size blk = do {
     u \<leftarrow> block_used rb blk;
     if u then Some Used
     else do {
       l \<leftarrow> blk_length blk rb;
       let free_size = wrap (free_size + align4 l);
       if align_length \<le> free_size then Some (Found free_size)
       else do {
         next \<leftarrow> block_next rb blk;
         case next of Some b \<Rightarrow> alloc_scan rb align_length free_size b | None \<Rightarrow> Some End
       }
     }
   }"

fun alloc_rounds :: "nat \<Rightarrow> int \<Rightarrow> ringbuffer \<Rightarrow> (int option \<times> ringbuffer) option" where
  "alloc_rounds 0 sz rb = Some (None, rb)"
| "alloc_rounds (Suc k) sz rb = do {
     r \<leftarrow> alloc_scan rb (align4 (HDR + sz)) 0 (rb_head rb);
     case r of
       Used \<Rightarrow> Some (None, rb)
     | Found free_size \<Rightarrow> do { (b, rb) \<leftarrow> alloc_block free_size sz rb; Some (Some b, rb) }
     | End \<Rightarrow> alloc_rounds k sz (rb\<lparr>rb_head := 0\<rparr>)
   }"

definition ringbuffer_alloc :: "int \<Rightarrow> ringbuffer \<Rightarrow> (int option \<times> ringbuffer) option" where
  "ringbuffer_alloc sz rb = alloc_rounds 2 sz rb"

section \<open>Collection\<close>

partial_function (option) last_id_scan :: "ringbuffer \<Rightarrow> int \<Rightarrow> int option option" where
  "last_id_scan rb blk = do {
     u \<leftarrow> block_used rb blk;
     if u then do { i \<leftarrow> blk_id blk rb; Some (Some i) }
     else do {
       next \<leftarrow> block_next rb blk;
       case next of Some b \<Rightarrow> last_id_scan rb b | None \<Rightarrow> Some None
     }
   }"

fun last_id :: "nat \<Rightarrow> ringbuffer \<Rightarrow> (int \<times> ringbuffer) option" where
  "last_id 0 rb = Some (-1, rb)"
| "last_id (Suc k) rb = do {
     r \<leftarrow> last_id_scan rb (rb_head rb);
     case r of Some i \<Rightarrow> Some (i, rb) | None \<Rightarrow> last_id k (rb\<lparr>rb_head := 0\<rparr>)
   }"

partial_function (option) collect_scan :: "int \<Rightarrow> int \<Rightarrow> ringbuffer \<Rightarrow> ringbuffer option" where
  "collect_scan i blk rb = do {
     l \<leftarrow> blk_length blk rb;
     rb \<leftarrow> (if has_header l then do {
              j \<leftarrow> blk_id blk rb;
              if j = i then put (blk + 8) (-1) rb else Some rb
            } else Some rb);
     next \<leftarrow> block_next rb blk;
     case next of Some b \<Rightarrow> collect_scan i b rb | None \<Rightarrow> Some rb
   }"

definition ringbuffer_collect :: "ringbuffer \<Rightarrow> (int \<times> ringbuffer) option" where
  "ringbuffer_collect rb = do {
     (i, rb) \<leftarrow> last_id 2 rb;
     rb \<leftarrow> collect_scan i 0 rb;
     Some (i, rb)
   }"

definition ringbuffer_shrink :: "int \<Rightarrow> int \<Rightarrow> ringbuffer \<Rightarrow> ringbuffer option" where
  "ringbuffer_shrink blk sz rb =
     (if sz = 0 then Some (rb\<lparr>rb_head := blk\<rparr>)
      else do {
        let align_length = align4 (HDR + sz);
        l \<leftarrow> blk_length blk rb;
        let old_length = align4 l;
        c_assert (align_length \<le> old_length);
        rb \<leftarrow> put blk (sz + HDR) rb;
        if align_length = old_length then Some rb
        else do {
          next \<leftarrow> block_next rb blk;
          b \<leftarrow> next;
          rb \<leftarrow> put b (old_length - align_length) rb;
          rb \<leftarrow> (if has_header (old_length - align_length) then put (b + 8) (-1) rb else Some rb);
          Some (rb\<lparr>rb_head := b\<rparr>)
        }
      })"

section \<open>Chains of blocks\<close>

definition block_id :: "ringbuffer \<Rightarrow> int \<Rightarrow> int option" where
  "block_id rb blk = do {
     l \<leftarrow> blk_length blk rb;
     c_assert (has_header l);
     i \<leftarrow> blk_id blk rb;
     c_assert (0 \<le> i);
     Some i
   }"

partial_function (option) free_chain :: "int \<Rightarrow> int \<Rightarrow> ringbuffer \<Rightarrow> ringbuffer option" where
  "free_chain i blk rb = do {
     n \<leftarrow> blk_next blk rb;
     if 0 \<le> n then do {
       j \<leftarrow> block_id rb n;
       c_assert (j = i);
       rb \<leftarrow> put (n + 8) (-1) rb;
       free_chain i n rb
     } else Some rb
   }"

definition ringbuffer_free :: "int option \<Rightarrow> ringbuffer \<Rightarrow> ringbuffer option" where
  "ringbuffer_free blk rb = (case blk of
     None \<Rightarrow> Some rb
   | Some b \<Rightarrow> do {
       i \<leftarrow> block_id rb b;
       rb \<leftarrow> put (b + 8) (-1) rb;
       free_chain i b rb
     })"

text \<open>The payload a block holds from its \<open>offset\<close> on.\<close>

definition data_length :: "ringbuffer \<Rightarrow> int \<Rightarrow> int option" where
  "data_length rb blk = do {
     l \<leftarrow> blk_length blk rb;
     f \<leftarrow> blk_offset blk rb;
     Some (wrap (l - HDR - f))
   }"

definition body_length :: "ringbuffer \<Rightarrow> int \<Rightarrow> int option" where
  "body_length rb blk = map_option (\<lambda>l. wrap (l - HDR)) (blk_length blk rb)"

partial_function (option) data_rest :: "ringbuffer \<Rightarrow> int \<Rightarrow> int \<Rightarrow> int \<Rightarrow> int option" where
  "data_rest rb sz ret blk = do {
     n \<leftarrow> blk_next blk rb;
     if 0 \<le> n then do {
       l \<leftarrow> body_length rb n;
       let ret = wrap (ret + l);
       if sz \<le> ret then Some sz else data_rest rb sz ret n
     } else Some ret
   }"

partial_function (option) data_find ::
  "ringbuffer \<Rightarrow> int \<Rightarrow> int \<Rightarrow> int \<Rightarrow> int \<Rightarrow> (int \<times> int option) option" where
  "data_find rb sz skip len blk =
     (if skip < len then
        if sz \<le> wrap (len - skip) then do {
          f \<leftarrow> blk_offset blk rb;
          Some (sz, Some (blk + HDR + f + skip))
        } else do {
          r \<leftarrow> data_rest rb sz (wrap (len - skip)) blk;
          Some (r, None)
        }
      else do {
        n \<leftarrow> blk_next blk rb;
        if n < 0 then do { c_assert (len = skip); Some (0, None) }
        else do {
          f \<leftarrow> blk_offset n rb;
          c_assert (f = 0);
          l \<leftarrow> body_length rb n;
          data_find rb sz (wrap (skip - len)) l n
        }
      })"

text \<open>The result and the pointer (an offset into the buffer, or \<open>NULL\<close>).\<close>

definition ringbuffer_data :: "ringbuffer \<Rightarrow> int \<Rightarrow> int \<Rightarrow> int \<Rightarrow> (int \<times> int option) option" where
  "ringbuffer_data rb blk sz skip = do {
     len \<leftarrow> data_length rb blk;
     data_find rb sz skip len blk
   }"

partial_function (option) copy_blocks ::
  "int \<Rightarrow> int \<Rightarrow> int \<Rightarrow> int \<Rightarrow> int \<Rightarrow> ringbuffer \<Rightarrow> (int \<times> ringbuffer) option" where
  "copy_blocks from src len ptr sz rb =
     (if len < sz then do {
        rb \<leftarrow> memcpy ptr src (nat len) rb;
        n \<leftarrow> blk_next from rb;
        c_assert (0 \<le> n);
        f \<leftarrow> blk_offset n rb;
        c_assert (f = 0);
        l \<leftarrow> body_length rb n;
        copy_blocks n (n + HDR) l (ptr + len) (sz - len) rb
      } else do {
        rb \<leftarrow> memcpy ptr src (nat sz) rb;
        Some (from, rb)
      })"

partial_function (option) copy_find :: "int \<Rightarrow> int \<Rightarrow> int \<Rightarrow> int \<Rightarrow> int \<Rightarrow> ringbuffer \<Rightarrow> (int \<times> ringbuffer) option" where
  "copy_find from len skip to' sz rb =
     (if skip < len then do {
        f \<leftarrow> blk_offset from rb;
        (from, rb) \<leftarrow> copy_blocks from (from + HDR + f + skip) (len - skip) (to' + HDR) sz rb;
        i \<leftarrow> blk_id from rb;
        rb \<leftarrow> put (to' + 8) i rb;
        Some (to' + HDR, rb)
      } else do {
        n \<leftarrow> blk_next from rb;
        c_assert (0 \<le> n);
        f \<leftarrow> blk_offset n rb;
        c_assert (f = 0);
        l \<leftarrow> body_length rb n;
        copy_find n l (wrap (skip - len)) to' sz rb
      })"

definition ringbuffer_copy :: "int \<Rightarrow> int \<Rightarrow> int \<Rightarrow> ringbuffer \<Rightarrow> (int \<times> ringbuffer) option" where
  "ringbuffer_copy from skip to' rb = do {
     sz \<leftarrow> body_length rb to';
     len \<leftarrow> data_length rb from;
     copy_find from len skip to' sz rb
   }"

partial_function (option) yield_blocks :: "int \<Rightarrow> int \<Rightarrow> int \<Rightarrow> ringbuffer \<Rightarrow> (int option \<times> ringbuffer) option" where
  "yield_blocks blk len skip rb =
     (if skip < len then do {
        f \<leftarrow> blk_offset blk rb;
        rb \<leftarrow> put (blk + 4) (f + skip) rb;
        Some (Some blk, rb)
      } else do {
        rb \<leftarrow> put (blk + 8) (-1) rb;
        n \<leftarrow> blk_next blk rb;
        if n < 0 then Some (None, rb)
        else do {
          f \<leftarrow> blk_offset n rb;
          c_assert (f = 0);
          l \<leftarrow> body_length rb n;
          yield_blocks n l (wrap (skip - len)) rb
        }
      })"

definition ringbuffer_yield :: "int \<Rightarrow> int \<Rightarrow> ringbuffer \<Rightarrow> (int option \<times> ringbuffer) option" where
  "ringbuffer_yield blk skip rb = do {
     len \<leftarrow> data_length rb blk;
     yield_blocks blk len skip rb
   }"

declare link_end.simps [code] alloc_scan.simps [code] last_id_scan.simps [code] collect_scan.simps [code]
  free_chain.simps [code] data_rest.simps [code] data_find.simps [code] copy_blocks.simps [code]
  copy_find.simps [code] yield_blocks.simps [code]

end
