(* ===== verification/RingLayout.thy ===== *)
theory RingLayout
  imports RingBuffer
begin

text \<open>
  The layout invariant of the gate's buffer: from offset 0 on, the blocks follow each other without a
  gap up to the end of the buffer, and \<open>head\<close> is the start of a block.  Allocation, shrinking and
  collection keep it, never move or touch a block in use, and hand out space that no block in use
  occupies.
\<close>

section \<open>Cells\<close>

lemma sint_of_int [simp]: "- (2 ^ 31) \<le> x \<Longrightarrow> x < 2 ^ 31 \<Longrightarrow> sint (of_int x :: i32) = x"
  by (simp add: signed_of_int signed_take_bit_int_eq_self)

lemma wrap_id [simp]: "- (2 ^ 31) \<le> x \<Longrightarrow> x < 2 ^ 31 \<Longrightarrow> wrap x = x"
  by (simp add: wrap_def)

lemma valid_upd [simp]: "valid p (upd q v rb) = valid p rb"
  by (simp add: valid_def upd_def)

lemma upd_fields [simp]: "rb_size (upd p v rb) = rb_size rb" "rb_head (upd p v rb) = rb_head rb"
    "length (rb_mem (upd p v rb)) = length (rb_mem rb)"
  by (simp_all add: upd_def)

lemma head_update [simp]: "valid p (rb\<lparr>rb_head := h\<rparr>) = valid p rb" "cell p (rb\<lparr>rb_head := h\<rparr>) = cell p rb"
    "get p (rb\<lparr>rb_head := h\<rparr>) = get p rb"
  by (simp_all add: valid_def cell_def get_def)

lemma cell_upd:
  assumes "valid p rb" "valid q rb" "- (2 ^ 31) \<le> v" "v < 2 ^ 31"
  shows "cell p (upd q v rb) = (if p = q then v else cell p rb)"
proof -
  have "p = q \<longleftrightarrow> nat (p div 4) = nat (q div 4)"
  proof
    assume eq: "nat (p div 4) = nat (q div 4)"
    have "p = p div 4 * 4" "q = q div 4 * 4" "0 \<le> p div 4" "0 \<le> q div 4"
      using assms(1,2) by (auto simp: valid_def)
    then show "p = q" using eq by (metis eq_nat_nat_iff)
  qed simp
  then show ?thesis using assms by (auto simp: cell_def upd_def valid_def)
qed

lemma put_valid: "valid p rb \<Longrightarrow> put p v rb = Some (upd p v rb)"
  by (simp add: put_def)

lemma get_valid: "valid p rb \<Longrightarrow> get p rb = Some (cell p rb)"
  by (simp add: get_def)

section \<open>The layout\<close>

definition al :: "int \<Rightarrow> int" where "al l = (l + 3) div 4 * 4"

lemma al_bounds: "l \<le> al l" "al l < l + 4" "al l mod 4 = 0"
  by (auto simp: al_def)

lemma al_id: "l mod 4 = 0 \<Longrightarrow> al l = l"
  unfolding al_def by presburger

lemma al_mono: "a \<le> b \<Longrightarrow> al a \<le> al b"
  unfolding al_def by (simp add: zdiv_mono1)

lemma align4_al: "0 \<le> l \<Longrightarrow> l < 2 ^ 31 - 4 \<Longrightarrow> align4 l = al l"
  using al_bounds [of l] by (simp add: align4_def al_def [symmetric])

text \<open>\<open>tiles rb a bs e\<close>: the blocks \<open>bs\<close> fill the buffer from \<open>a\<close> to \<open>e\<close>.\<close>

fun tiles :: "ringbuffer \<Rightarrow> int \<Rightarrow> int list \<Rightarrow> int \<Rightarrow> bool" where
  "tiles rb a [] e \<longleftrightarrow> a = e"
| "tiles rb a (b # bs) e \<longleftrightarrow> b = a \<and> valid a rb \<and> 0 < cell a rb \<and> a + al (cell a rb) \<le> e \<and> tiles rb (a + al (cell a rb)) bs e"

lemma tiles_le: "tiles rb a bs e \<Longrightarrow> a \<le> e"
proof (induction bs arbitrary: a)
  case (Cons b bs)
  then show ?case using al_bounds(1) [of "cell a rb"] by fastforce
qed simp

lemma tiles_append:
  "tiles rb a (xs @ ys) e \<longleftrightarrow> (\<exists>m. tiles rb a xs m \<and> tiles rb m ys e \<and> m \<le> e)"
proof (induction xs arbitrary: a)
  case Nil
  then show ?case using tiles_le by auto
next
  case (Cons x xs)
  then show ?case using tiles_le by fastforce
qed

lemma tiles_end: "tiles rb a bs x \<Longrightarrow> tiles rb a bs y \<Longrightarrow> x = y"
  by (induction bs arbitrary: a) auto

lemma tiles_mem:
  "tiles rb a bs e \<Longrightarrow> b \<in> set bs \<Longrightarrow>
    a \<le> b \<and> valid b rb \<and> 0 < cell b rb \<and> b + al (cell b rb) \<le> e"
proof (induction bs arbitrary: a)
  case (Cons x bs)
  have "0 < al (cell x rb)" using Cons.prems(1) al_bounds(1) [of "cell x rb"] by auto
  then show ?case using Cons by (auto dest!: Cons.IH)
qed simp

lemma tiles_cong:
  "(\<And>b. b \<in> set bs \<Longrightarrow> cell b rb' = cell b rb \<and> valid b rb') \<Longrightarrow> tiles rb a bs e \<Longrightarrow> tiles rb' a bs e"
  by (induction bs arbitrary: a) auto

lemma tiles_split:
  assumes "tiles rb a bs e" "b \<in> set bs"
  shows "\<exists>xs ys. bs = xs @ b # ys \<and> tiles rb a xs b \<and> tiles rb b (b # ys) e"
proof -
  obtain xs ys where bs: "bs = xs @ b # ys" using assms(2) by (metis split_list)
  then obtain m where "tiles rb a xs m" "tiles rb m (b # ys) e" using assms(1) tiles_append by blast
  then show ?thesis using bs by auto
qed

text \<open>Two different blocks do not overlap.\<close>

lemma tiles_disjoint:
  assumes "tiles rb a bs e" "b \<in> set bs" "c \<in> set bs" "b < c"
  shows "b + al (cell b rb) \<le> c"
proof -
  obtain xs ys where bs: "bs = xs @ b # ys" and t: "tiles rb a xs b" "tiles rb b (b # ys) e"
    using tiles_split [OF assms(1,2)] by blast
  have "x < b" if "x \<in> set xs" for x
    using tiles_mem [OF t(1) that] al_bounds(1) [of "cell x rb"] by auto
  then have "c \<in> set ys" using assms(3,4) bs by force
  then show ?thesis using tiles_mem t(2) by auto
qed

definition rb_ok :: "ringbuffer \<Rightarrow> int list \<Rightarrow> bool" where
  "rb_ok rb bs \<longleftrightarrow> 0 < rb_size rb \<and> rb_size rb < 2 ^ 30 \<and> rb_size rb mod 4 = 0 \<and>
     int (length (rb_mem rb)) = rb_size rb div 4 \<and> tiles rb 0 bs (rb_size rb) \<and> rb_head rb \<in> set bs"

lemma valid_size: "rb_ok rb bs \<Longrightarrow> valid p rb \<longleftrightarrow> 0 \<le> p \<and> p mod 4 = 0 \<and> p < rb_size rb"
  unfolding rb_ok_def valid_def by (auto simp: nat_less_iff)

lemma ok_block:
  assumes "rb_ok rb bs" "b \<in> set bs"
  shows "valid b rb" "0 < cell b rb" "cell b rb < 2 ^ 31 - 4" "b + al (cell b rb) \<le> rb_size rb"
    "align4 (cell b rb) = al (cell b rb)" "0 \<le> b" "b mod 4 = 0" "b < rb_size rb"
proof -
  have t: "0 \<le> b \<and> valid b rb \<and> 0 < cell b rb \<and> b + al (cell b rb) \<le> rb_size rb"
    using tiles_mem [of rb 0 bs "rb_size rb" b] assms by (auto simp: rb_ok_def)
  then show *: "valid b rb" "0 < cell b rb" "b + al (cell b rb) \<le> rb_size rb" "0 \<le> b" by auto
  show "b mod 4 = 0" "b < rb_size rb" using *(1) valid_size [OF assms(1)] by auto
  have "rb_size rb < 2 ^ 30" using assms(1) by (simp add: rb_ok_def)
  then have "cell b rb < 2 ^ 30" using * al_bounds(1) [of "cell b rb"] by linarith
  then show "cell b rb < 2 ^ 31 - 4" by simp
  then show "align4 (cell b rb) = al (cell b rb)" using *(2) by (intro align4_al) simp_all
qed

lemma ok_header:
  assumes "rb_ok rb bs" "b \<in> set bs" "HDR \<le> cell b rb"
  shows "valid (b + 4) rb" "valid (b + 8) rb" "valid (b + 12) rb"
proof -
  have "b + 16 \<le> rb_size rb" using ok_block(4) [OF assms(1,2)] al_bounds(1) [of "cell b rb"] assms(3) by (simp add: HDR_def)
  then show "valid (b + 4) rb" "valid (b + 8) rb" "valid (b + 12) rb"
    using ok_block(6,7) [OF assms(1,2)] by (auto simp: valid_size [OF assms(1)])
qed

lemma has_header_pos: "0 < l \<Longrightarrow> has_header l = (HDR \<le> l)"
  by (auto simp: has_header_def)

definition used :: "ringbuffer \<Rightarrow> int \<Rightarrow> bool" where
  "used rb b \<longleftrightarrow> HDR \<le> cell b rb \<and> 0 \<le> cell (b + 8) rb"

lemma block_used_eq:
  assumes "rb_ok rb bs" "b \<in> set bs"
  shows "block_used rb b = Some (used rb b)"
  using ok_block(1,2) [OF assms] ok_header(2) [OF assms] has_header_pos [OF ok_block(2) [OF assms]]
  by (auto simp: block_used_def get_def used_def)

lemma block_next_eq:
  assumes ok: "rb_ok rb bs" and bs: "bs = xs @ b # ys"
  shows "block_next rb b = Some (case ys of [] \<Rightarrow> None | c # _ \<Rightarrow> Some c)"
proof -
  have b: "b \<in> set bs" using bs by simp
  note k = ok_block [OF ok b]
  have t: "tiles rb b (b # ys) (rb_size rb)"
    using ok bs tiles_append [of rb 0 xs "b # ys"] by (auto simp: rb_ok_def)
  have small: "rb_size rb < 2 ^ 30" using ok by (simp add: rb_ok_def)
  have "0 < al (cell b rb)" using k(2) al_bounds(1) [of "cell b rb"] by linarith
  then have w: "wrap (al (cell b rb) + b) = al (cell b rb) + b" "wrap (b + al (cell b rb)) = b + al (cell b rb)"
    using k small by (auto intro!: wrap_id)
  have n: "block_next rb b = (if al (cell b rb) + b = rb_size rb then Some None
      else if al (cell b rb) + b < rb_size rb then Some (Some (b + al (cell b rb))) else None)"
    unfolding block_next_def get_valid [OF k(1)] by (simp add: k(5) w Let_def)
  show ?thesis
  proof (cases ys)
    case Nil
    then have "b + al (cell b rb) = rb_size rb" using t by simp
    then show ?thesis using n Nil by (simp add: add.commute)
  next
    case (Cons c cs)
    then have "c = b + al (cell b rb)" "valid c rb" using t by auto
    moreover from this have "c < rb_size rb" using valid_size [OF ok] by simp
    ultimately show ?thesis using n Cons by (simp add: add.commute)
  qed
qed

section \<open>Frames\<close>

text \<open>Nothing outside \<open>lo .. hi\<close> has changed.\<close>

definition frame :: "int \<Rightarrow> int \<Rightarrow> ringbuffer \<Rightarrow> ringbuffer \<Rightarrow> bool" where
  "frame lo hi rb rb' \<longleftrightarrow> rb_size rb' = rb_size rb \<and> length (rb_mem rb') = length (rb_mem rb) \<and>
     (\<forall>i. \<not> (lo \<le> 4 * int i \<and> 4 * int i < hi) \<longrightarrow> rb_mem rb' ! i = rb_mem rb ! i)"

lemma frame_refl [simp]: "frame lo hi rb rb"
  by (simp add: frame_def)

lemma frame_head [simp]: "frame lo hi rb (rb'\<lparr>rb_head := h\<rparr>) = frame lo hi rb rb'"
    "frame lo hi (rb\<lparr>rb_head := h\<rparr>) rb' = frame lo hi rb rb'"
  by (simp_all add: frame_def)

lemma frame_trans: "frame lo hi rb rb' \<Longrightarrow> frame lo hi rb' rb'' \<Longrightarrow> frame lo hi rb rb''"
  by (simp add: frame_def)

lemma frame_mono: "frame lo hi rb rb' \<Longrightarrow> lo' \<le> lo \<Longrightarrow> hi \<le> hi' \<Longrightarrow> frame lo' hi' rb rb'"
  by (fastforce simp: frame_def)

lemma frame_upd: "frame lo hi rb rb' \<Longrightarrow> valid q rb' \<Longrightarrow> lo \<le> q \<Longrightarrow> q < hi \<Longrightarrow> frame lo hi rb (upd q v rb')"
  by (auto simp: frame_def upd_def valid_def nth_list_update)

lemma frame_valid: "frame lo hi rb rb' \<Longrightarrow> valid p rb' = valid p rb"
  by (simp add: frame_def valid_def)

lemma frame_cell: "frame lo hi rb rb' \<Longrightarrow> valid p rb \<Longrightarrow> p < lo \<or> hi \<le> p \<Longrightarrow> cell p rb' = cell p rb"
  by (auto simp: frame_def cell_def valid_def)

lemma frame_byte: "frame lo hi rb rb' \<Longrightarrow> lo mod 4 = 0 \<Longrightarrow> hi mod 4 = 0 \<Longrightarrow> 0 \<le> p \<Longrightarrow> p < lo \<or> hi \<le> p \<Longrightarrow> byte p rb' = byte p rb"
proof -
  assume f: "frame lo hi rb rb'" "lo mod 4 = 0" "hi mod 4 = 0" "0 \<le> p" "p < lo \<or> hi \<le> p"
  have "p < lo \<Longrightarrow> p div 4 * 4 < lo" "hi \<le> p \<Longrightarrow> hi \<le> p div 4 * 4" using f(2,3) by presburger+
  then have "\<not> (lo \<le> 4 * int (nat (p div 4)) \<and> 4 * int (nat (p div 4)) < hi)" using f(4,5) by auto
  then show ?thesis using f(1) by (simp add: frame_def byte_def)
qed

lemma frame_tiles:
  assumes "frame lo hi rb rb'" "tiles rb a bs e" "e \<le> lo \<or> hi \<le> a"
  shows "tiles rb' a bs e"
proof (rule tiles_cong [OF _ assms(2)])
  fix b assume "b \<in> set bs"
  then have b: "a \<le> b" "valid b rb" "0 < cell b rb" "b + al (cell b rb) \<le> e" using tiles_mem [OF assms(2)] by auto
  then have "b < e" using al_bounds(1) [of "cell b rb"] by linarith
  then show "cell b rb' = cell b rb \<and> valid b rb'"
    using frame_cell [OF assms(1) b(2)] frame_valid [OF assms(1)] b assms(3) by auto
qed

section \<open>Allocation\<close>

lemma alloc_scan_spec:
  assumes ok: "rb_ok rb bs" and free: "0 \<le> free" "free + (rb_size rb - hd xs) < 2 ^ 30"
    and bs: "bs = pre @ xs" "xs \<noteq> []"
  shows "\<exists>r. alloc_scan rb a free (hd xs) = Some r \<and>
    (case r of
       Used \<Rightarrow> \<exists>b \<in> set xs. used rb b
     | End \<Rightarrow> (\<forall>b \<in> set xs. \<not> used rb b) \<and> free + (rb_size rb - hd xs) < a
     | Found t \<Rightarrow> \<exists>us vs m. xs = us @ vs \<and> us \<noteq> [] \<and> (\<forall>u \<in> set us. \<not> used rb u) \<and> tiles rb (hd xs) us m \<and>
         m \<le> rb_size rb \<and> t = free + (m - hd xs) \<and> a \<le> t)"
  using free bs
proof (induction xs arbitrary: pre free)
  case (Cons b xs)
  have b: "b \<in> set bs" using Cons.prems(3) by simp
  note k = ok_block [OF ok b]
  note u = block_used_eq [OF ok b]
  define f where "f = free + al (cell b rb)"
  have f: "wrap (free + align4 (cell b rb)) = f" "0 \<le> f"
    using k(2,4,5) Cons.prems(1,2) al_bounds(1) [of "cell b rb"] by (auto simp: f_def intro!: wrap_id)
  have nx: "block_next rb b = Some (case xs of [] \<Rightarrow> None | c # _ \<Rightarrow> Some c)"
    using block_next_eq [OF ok Cons.prems(3)] .
  have t: "tiles rb b (b # xs) (rb_size rb)"
    using ok Cons.prems(3) tiles_append [of rb 0 pre "b # xs"] by (auto simp: rb_ok_def)
  show ?case
  proof (cases "used rb b")
    case True
    then show ?thesis using u by (simp add: alloc_scan.simps [of _ _ _ b])
  next
    case unused: False
    show ?thesis
    proof (cases "a \<le> f")
      case True
      have "alloc_scan rb a free b = Some (Found f)"
        using u unused k(1) True f(1) by (simp add: alloc_scan.simps [of _ _ _ b] get_valid)
      moreover have "\<exists>us vs m. b # xs = us @ vs \<and> us \<noteq> [] \<and> (\<forall>u \<in> set us. \<not> used rb u) \<and> tiles rb b us m \<and>
          m \<le> rb_size rb \<and> f = free + (m - b) \<and> a \<le> f"
        by (rule exI [of _ "[b]"], rule exI [of _ xs], rule exI [of _ "b + al (cell b rb)"])
          (use unused True k in \<open>simp add: f_def\<close>)
      ultimately show ?thesis by simp
    next
      case more: False
      show ?thesis
      proof (cases xs)
        case Nil
        then show ?thesis using u unused k(1) more f(1) nx t by (simp add: alloc_scan.simps [of _ _ _ b] get_valid f_def)
      next
        case (Cons c cs)
        then have c: "c = b + al (cell b rb)" using t by simp
        have "f + (rb_size rb - hd xs) < 2 ^ 30" using Cons.prems(2) Cons c by (simp add: f_def)
        from Cons.IH [of f "pre @ [b]", OF f(2) this] obtain r where r: "alloc_scan rb a f (hd xs) = Some r" and
          spec: "case r of Used \<Rightarrow> \<exists>b \<in> set xs. used rb b | End \<Rightarrow> (\<forall>b \<in> set xs. \<not> used rb b) \<and> f + (rb_size rb - hd xs) < a
            | Found t \<Rightarrow> \<exists>us vs m. xs = us @ vs \<and> us \<noteq> [] \<and> (\<forall>u \<in> set us. \<not> used rb u) \<and> tiles rb (hd xs) us m \<and>
                m \<le> rb_size rb \<and> t = f + (m - hd xs) \<and> a \<le> t"
          using Cons.prems(3) Cons by auto
        have "alloc_scan rb a free b = Some r"
          using u unused k(1) more f(1) nx r Cons by (simp add: alloc_scan.simps [of _ _ _ b] get_valid)
        moreover have "\<exists>us' vs m. b # xs = us' @ vs \<and> us' \<noteq> [] \<and> (\<forall>u \<in> set us'. \<not> used rb u) \<and> tiles rb b us' m \<and>
            m \<le> rb_size rb \<and> t = free + (m - b) \<and> a \<le> t" if rt: "r = Found t" for t
        proof -
          obtain us vs m where o: "xs = us @ vs" "us \<noteq> []" "\<forall>u \<in> set us. \<not> used rb u" "tiles rb (hd xs) us m"
              "m \<le> rb_size rb" "t = f + (m - hd xs)" "a \<le> t"
            using spec rt by auto
          have hx: "hd xs = b + al (cell b rb)" using Cons c by simp
          show ?thesis
            by (rule exI [of _ "b # us"], rule exI [of _ vs], rule exI [of _ m])
              (use o [unfolded hx] k unused tiles_le [OF o(4) [unfolded hx]] in \<open>auto simp: f_def\<close>)
        qed
        moreover have "hd xs = b + al (cell b rb)" using Cons c by simp
        ultimately show ?thesis using spec unused by (cases r) (auto simp: f_def)
      qed
    qed
  qed
qed simp


lemma alloc_block_spec:
  assumes ok: "rb_ok rb bs" and bs: "bs = pre @ us @ vs" "us \<noteq> []" "rb_head rb = hd us"
    and m: "tiles rb (rb_head rb) us m" "m \<le> rb_size rb"
    and sz: "0 \<le> sz" "al (HDR + sz) \<le> m - rb_head rb" and tot: "tot = m - rb_head rb"
  defines "h \<equiv> rb_head rb" and "a \<equiv> al (HDR + sz)"
  shows "\<exists>rb' rest. alloc_block tot sz rb = Some (h, rb') \<and> rb_ok rb' (pre @ h # rest @ vs) \<and>
    (rest = [] \<and> a = tot \<or> rest = [h + a] \<and> a < tot \<and> \<not> used rb' (h + a)) \<and> frame h m rb rb' \<and>
    cell h rb' = HDR + sz \<and> cell (h + 4) rb' = 0 \<and> cell (h + 8) rb' = -1 \<and> cell (h + 12) rb' = -1"
proof -
  have small: "rb_size rb < 2 ^ 30" "0 < rb_size rb" "rb_size rb mod 4 = 0" using ok by (auto simp: rb_ok_def)
  have h: "0 \<le> h" "h mod 4 = 0" using ok_block(6,7) [OF ok, of h] bs by (auto simp: h_def)
  have a: "16 + sz \<le> a" "a mod 4 = 0" "a \<le> tot" using sz al_bounds [of "HDR + sz"] tot by (auto simp: a_def h_def HDR_def)
  have t0: "tiles rb 0 pre h" "tiles rb m vs (rb_size rb)"
  proof -
    have "tiles rb 0 (pre @ us @ vs) (rb_size rb)" using ok bs by (simp add: rb_ok_def)
    then obtain p q where pq: "tiles rb 0 pre p" "tiles rb p us q" "tiles rb q vs (rb_size rb)"
      unfolding tiles_append by blast
    have "p = h" using pq(2) bs(2,3) by (cases us) (auto simp: h_def)
    moreover have "x = y" if "tiles rb z xs x" "tiles rb z xs y" for x y z xs
      using that by (induction xs arbitrary: z) auto
    then have "q = m" using pq(2) m(1) \<open>p = h\<close> by (auto simp: h_def)
    ultimately show "tiles rb 0 pre h" "tiles rb m vs (rb_size rb)" using pq by auto
  qed
  have m4: "m mod 4 = 0"
  proof (cases vs)
    case Nil
    then show ?thesis using t0(2) small by simp
  next
    case (Cons v vs')
    then show ?thesis using ok_block(7) [OF ok, of m] bs t0(2) by simp
  qed
  have v: "valid p rb" if "h \<le> p" "p < m" "p mod 4 = 0" for p
    using that h m(2) by (simp add: valid_size [OF ok])
  have hm: "h + 16 \<le> m" using a sz tot by (auto simp: h_def)
  have vh: "valid h rb" "valid (h + 4) rb" "valid (h + 8) rb" "valid (h + 12) rb"
    using v hm h by (auto simp: mod_add_eq)
  define rb1 where "rb1 = upd (h + 8) (-1) (upd (h + 12) (-1) (upd (h + 4) 0 (upd h (HDR + sz) rb)))"
  have szr: "HDR + sz < 2 ^ 30" using a(1) tot hm m(2) small h sz by (auto simp: h_def a_def HDR_def)
  have f1: "frame h m rb rb1"
    unfolding rb1_def using hm by (intro frame_upd frame_refl) (simp_all add: vh)
  have c1: "cell h rb1 = HDR + sz" "cell (h + 4) rb1 = 0" "cell (h + 8) rb1 = -1" "cell (h + 12) rb1 = -1"
    unfolding rb1_def using vh szr sz by (simp_all add: cell_upd HDR_def)
  have al4: "align4 (HDR + sz) = a" using szr sz by (simp add: align4_al a_def HDR_def)
  have hm': "h + a \<le> m" using a(3) tot by (simp add: h_def)
  have w: "wrap (a + h) = h + a" "wrap (h + a) = h + a"
    using hm' m(2) small h a(1) sz by (auto intro!: wrap_id)
  have n1: "block_next rb1 h = Some (if h + a = rb_size rb then None else Some (h + a))"
  proof -
    have "get h rb1 = Some (HDR + sz)" using c1(1) vh(1) frame_valid [OF f1] by (simp add: get_valid)
    moreover have "rb_size rb1 = rb_size rb" using f1 by (simp add: frame_def)
    ultimately show ?thesis using al4 w hm' m(2) unfolding block_next_def by simp
  qed
  have start: "alloc_block tot sz rb = (if h + a = rb_size rb then Some (h, rb1\<lparr>rb_head := 0\<rparr>)
      else if a < tot then do {
        rb \<leftarrow> put (h + a) (tot - a) (rb1\<lparr>rb_head := h + a\<rparr>);
        rb \<leftarrow> (if has_header (tot - a) then put (h + a + 8) (-1) rb else Some rb);
        Some (h, rb)
      } else Some (h, rb1\<lparr>rb_head := h + a\<rparr>))"
  proof -
    have "put h (HDR + sz) rb = Some (upd h (HDR + sz) rb)" by (rule put_valid [OF vh(1)])
    moreover have "put (h + 4) 0 (upd h (HDR + sz) rb) = Some (upd (h + 4) 0 (upd h (HDR + sz) rb))"
      by (rule put_valid) (simp add: vh)
    moreover have "put (h + 12) (-1) (upd (h + 4) 0 (upd h (HDR + sz) rb)) =
        Some (upd (h + 12) (-1) (upd (h + 4) 0 (upd h (HDR + sz) rb)))"
      by (rule put_valid) (simp add: vh)
    moreover have "put (h + 8) (-1) (upd (h + 12) (-1) (upd (h + 4) 0 (upd h (HDR + sz) rb))) = Some rb1"
      unfolding rb1_def by (rule put_valid) (simp add: vh)
    ultimately show ?thesis
      using n1 al4 unfolding alloc_block_def h_def [symmetric] by (simp add: Let_def)
  qed
  have sizes: "rb_size rb1 = rb_size rb" "length (rb_mem rb1) = length (rb_mem rb)" using f1 by (auto simp: frame_def)
  have th: "tiles rb' h [h] (h + a)" if "cell h rb' = HDR + sz" "valid h rb'" for rb'
    using that sz by (simp add: a_def HDR_def)
  have okI: "rb_ok rb' (pre @ h # rest @ vs)"
    if "frame h m rb rb'" "cell h rb' = HDR + sz" "tiles rb' (h + a) rest m" "rb_head rb' \<in> set (pre @ h # rest @ vs)" for rb' rest
  proof -
    have "tiles rb' 0 pre h" by (rule frame_tiles [OF that(1) t0(1)]) simp
    moreover have "tiles rb' m vs (rb_size rb)" by (rule frame_tiles [OF that(1) t0(2)]) simp
    moreover have "tiles rb' h [h] (h + a)" using th [OF that(2)] frame_valid [OF that(1)] vh(1) by simp
    ultimately have "tiles rb' 0 (pre @ [h] @ rest @ vs) (rb_size rb)"
      unfolding tiles_append using that(3) hm' m(2) hm by force
    then show ?thesis using that(1,4) ok by (simp add: rb_ok_def frame_def)
  qed
  show ?thesis
  proof (cases "a < tot")
    case False
    then have at: "a = tot" "h + a = m" using a(3) tot by (auto simp: h_def)
    define rb' where "rb' = rb1\<lparr>rb_head := (if h + a = rb_size rb then 0 else h + a)\<rparr>"
    have "alloc_block tot sz rb = Some (h, rb')" using start at by (simp add: rb'_def)
    moreover have "frame h m rb rb'" using f1 by (simp add: rb'_def)
    moreover have "rb_head rb' \<in> set (pre @ h # [] @ vs)"
    proof (cases "h + a = rb_size rb")
      case True
      then show ?thesis using t0(1) by (cases pre) (auto simp: rb'_def)
    next
      case False
      then show ?thesis using t0(2) at by (cases vs) (auto simp: rb'_def)
    qed
    ultimately show ?thesis
      using okI [of rb' "[]"] c1 at by (intro exI [of _ rb'] exI [of _ "[]"]) (auto simp: rb'_def)
  next
    case True
    define n where "n = h + a"
    define d where "d = tot - a"
    have nm: "n + d = m" "n mod 4 = 0" "h + 16 \<le> n" "n \<noteq> rb_size rb"
      using True a m(2) h tot sz by (auto simp: n_def d_def h_def mod_add_eq)
    have d: "4 \<le> d" "d mod 4 = 0" "d < 2 ^ 30"
    proof -
      show "d mod 4 = 0" using nm(1,2) m4 by presburger
      then show "4 \<le> d" using True unfolding d_def by presburger
      show "d < 2 ^ 30" using nm(1,3) h m(2) small by simp
    qed
    have vn: "valid n rb1" using v [of n] nm d frame_valid [OF f1] by simp
    define rb2 where "rb2 = upd n d (rb1\<lparr>rb_head := n\<rparr>)"
    define rb' where "rb' = (if 16 \<le> d then upd (n + 8) (-1) rb2 else rb2)"
    have "(n + 8) mod 4 = 0" using nm(2) by presburger
    then have v8: "valid (n + 8) rb1" if "16 \<le> d" using v [of "n + 8"] nm that frame_valid [OF f1] by simp
    have "put n d (rb1\<lparr>rb_head := n\<rparr>) = Some rb2" unfolding rb2_def by (rule put_valid) (simp add: vn)
    moreover have "(if has_header d then put (n + 8) (-1) rb2 else Some rb2) = Some rb'"
      using d v8 by (auto simp: has_header_def HDR_def rb'_def rb2_def intro!: put_valid)
    ultimately have alloc: "alloc_block tot sz rb = Some (h, rb')"
      using start [folded d_def n_def] True nm(4) by simp
    have f2: "frame h m rb rb2"
      unfolding rb2_def using f1 vn nm d h by (intro frame_upd) simp_all
    have f': "frame h m rb rb'"
      unfolding rb'_def using f2 v8 nm by (auto simp: rb2_def intro!: frame_upd)
    have keep: "cell p rb' = cell p rb1" if "valid p rb1" "p < n" for p
      using that vn v8 d by (auto simp: rb'_def rb2_def cell_upd)
    have hd: "valid h rb1" "valid (h + 4) rb1" "valid (h + 8) rb1" "valid (h + 12) rb1"
      using vh frame_valid [OF f1] by simp_all
    have cn: "cell n rb' = d" using vn v8 d by (auto simp: rb'_def rb2_def cell_upd)
    have cn8: "cell (n + 8) rb' = -1" if "16 \<le> d" using that v8 by (simp add: rb'_def rb2_def cell_upd)
    have "tiles rb' n [n] m"
      using cn d nm(1) vn frame_valid [OF f'] frame_valid [OF f1] by (simp add: al_id)
    moreover have "rb_head rb' = n" by (simp add: rb'_def rb2_def)
    ultimately have "rb_ok rb' (pre @ h # [n] @ vs)"
      using okI [of rb' "[n]"] f' keep [OF hd(1)] c1 nm(3) by (simp add: n_def)
    moreover have "\<not> used rb' n" using cn cn8 by (auto simp: used_def HDR_def)
    ultimately show ?thesis
      using alloc True f' c1 keep [OF hd(1)] keep [OF hd(2)] keep [OF hd(3)] keep [OF hd(4)] nm(3)
      by (intro exI [of _ rb'] exI [of _ "[n]"]) (simp add: n_def)
  qed
qed


text \<open>A block in use, and what belongs to it, is the same in both buffers.\<close>

definition keeps :: "ringbuffer \<Rightarrow> ringbuffer \<Rightarrow> int list \<Rightarrow> int \<Rightarrow> bool" where
  "keeps rb rb' bs' b \<longleftrightarrow> b \<in> set bs' \<and> used rb' b \<and> cell b rb' = cell b rb \<and>
     (\<forall>p. b \<le> p \<and> p < b + cell b rb \<longrightarrow> byte p rb' = byte p rb)"

lemma frame_keeps:
  assumes ok: "rb_ok rb bs" and b: "b \<in> set bs" "used rb b" and f: "frame lo hi rb rb'" "lo mod 4 = 0" "hi mod 4 = 0"
    and out: "b + al (cell b rb) \<le> lo \<or> hi \<le> b" and b': "b \<in> set bs'"
  shows "keeps rb rb' bs' b"
proof -
  have hdr: "HDR \<le> cell b rb" using b(2) by (simp add: used_def)
  note k = ok_block [OF ok b(1)]
  have v8: "valid (b + 8) rb" using ok_header(2) [OF ok b(1) hdr] .
  have l: "cell b rb \<le> al (cell b rb)" by (rule al_bounds)
  have "cell b rb' = cell b rb" using frame_cell [OF f(1) k(1)] out hdr l by (auto simp: HDR_def)
  moreover have "cell (b + 8) rb' = cell (b + 8) rb" using frame_cell [OF f(1) v8] out hdr l by (auto simp: HDR_def)
  moreover have "byte p rb' = byte p rb" if "b \<le> p" "p < b + cell b rb" for p
    using frame_byte [OF f, of p] that k(6) out l by auto
  ultimately show ?thesis using b(2) b' by (simp add: keeps_def used_def)
qed

lemma alloc_found:
  assumes ok: "rb_ok rb bs" and sz: "0 \<le> sz" "sz < 2 ^ 31 - 32"
    and bs: "bs = pre @ us @ vs" "us \<noteq> []" "rb_head rb = hd us" "\<forall>u \<in> set us. \<not> used rb u"
    and m: "tiles rb (rb_head rb) us m" "m \<le> rb_size rb" and a: "al (HDR + sz) \<le> m - rb_head rb"
  shows "\<exists>rb' bs'. alloc_block (m - rb_head rb) sz rb = Some (rb_head rb, rb') \<and> rb_ok rb' bs' \<and>
    rb_head rb \<in> set bs' \<and> \<not> used rb' (rb_head rb) \<and> cell (rb_head rb) rb' = HDR + sz \<and>
    cell (rb_head rb + 4) rb' = 0 \<and> cell (rb_head rb + 12) rb' = -1 \<and>
    (\<forall>b \<in> set bs. used rb b \<longrightarrow> keeps rb rb' bs' b \<and> (b + cell b rb \<le> rb_head rb \<or> rb_head rb + HDR + sz \<le> b))"
proof -
  obtain rb' rest where r: "alloc_block (m - rb_head rb) sz rb = Some (rb_head rb, rb')"
      "rb_ok rb' (pre @ rb_head rb # rest @ vs)" "frame (rb_head rb) m rb rb'"
      "cell (rb_head rb) rb' = HDR + sz" "cell (rb_head rb + 4) rb' = 0" "cell (rb_head rb + 8) rb' = -1" "cell (rb_head rb + 12) rb' = -1"
    using alloc_block_spec [OF ok bs(1-3) m sz(1) a refl] by blast
  have h: "rb_head rb mod 4 = 0" using ok_block(7) [OF ok, of "rb_head rb"] bs by simp
  have whole: "tiles rb 0 (pre @ us @ vs) (rb_size rb)" using ok bs by (simp add: rb_ok_def)
  have m4: "m mod 4 = 0"
  proof (cases vs)
    case Nil
    then have "tiles rb 0 (pre @ us) (rb_size rb)" using whole by simp
    then obtain p where "tiles rb p us (rb_size rb)" unfolding tiles_append by blast
    moreover from this have "p = rb_head rb" using bs(2,3) by (cases us) auto
    ultimately have "m = rb_size rb" using m(1) tiles_end by blast
    then show ?thesis using ok by (simp add: rb_ok_def)
  next
    case (Cons v vs')
    obtain p q where "tiles rb p us q" "tiles rb q vs (rb_size rb)" using whole unfolding tiles_append by blast
    moreover from this have "p = rb_head rb" using bs(2,3) by (cases us) auto
    ultimately have "v = m" using m(1) tiles_end Cons by auto
    then show ?thesis using ok_block(7) [OF ok, of v] bs Cons by simp
  qed
  have "keeps rb rb' (pre @ rb_head rb # rest @ vs) b \<and> (b + cell b rb \<le> rb_head rb \<or> rb_head rb + HDR + sz \<le> b)"
    if b: "b \<in> set bs" "used rb b" for b
  proof -
    have "b \<notin> set us" using b(2) bs(4) by blast
    then have mem: "b \<in> set pre \<or> b \<in> set vs" using b(1) bs(1) by auto
    have hd: "rb_head rb \<in> set us" using bs(2,3) by simp
    have tt: "tiles rb 0 bs (rb_size rb)" using whole bs(1) by simp
    have ord: "b + al (cell b rb) \<le> rb_head rb \<or> m \<le> b"
    proof -
      obtain p q where pq: "tiles rb 0 pre p" "tiles rb p us q" "tiles rb q vs (rb_size rb)" using whole unfolding tiles_append by blast
      have "p = rb_head rb" using pq(2) bs(2,3) by (cases us) auto
      moreover from this have "q = m" using pq(2) m(1) tiles_end by blast
      ultimately show ?thesis using mem tiles_mem [OF pq(1), of b] tiles_mem [OF pq(3), of b] by auto
    qed
    have "keeps rb rb' (pre @ rb_head rb # rest @ vs) b"
      by (rule frame_keeps [OF ok b r(3) h m4 ord]) (use mem in auto)
    then show ?thesis using ord al_bounds(1) [of "cell b rb"] al_bounds(1) [of "HDR + sz"] a by auto
  qed
  moreover have "\<not> used rb' (rb_head rb)" using r(6) by (simp add: used_def)
  ultimately show ?thesis using r by (intro exI [of _ rb'] exI [of _ "pre @ rb_head rb # rest @ vs"]) auto
qed


lemma al_le: "e mod 4 = 0 \<Longrightarrow> al x \<le> e \<longleftrightarrow> x \<le> e"
  unfolding al_def by presburger

lemma alloc_round:
  assumes ok: "rb_ok rb bs" and sz: "0 \<le> sz" "sz < 2 ^ 31 - 32"
  shows "\<exists>r. alloc_scan rb (align4 (HDR + sz)) 0 (rb_head rb) = Some r \<and>
    (case r of
       Used \<Rightarrow> \<exists>b \<in> set bs. used rb b
     | End \<Rightarrow> rb_head rb = 0 \<longrightarrow> rb_size rb < HDR + sz
     | Found t \<Rightarrow> \<exists>h rb' bs'. alloc_block t sz rb = Some (h, rb') \<and> rb_ok rb' bs' \<and>
         h \<in> set bs' \<and> \<not> used rb' h \<and> cell h rb' = HDR + sz \<and> cell (h + 4) rb' = 0 \<and> cell (h + 12) rb' = -1 \<and>
         (\<forall>b \<in> set bs. used rb b \<longrightarrow> keeps rb rb' bs' b \<and> (b + cell b rb \<le> h \<or> h + HDR + sz \<le> b)))"
proof -
  have "rb_head rb \<in> set bs" using ok by (simp add: rb_ok_def)
  then obtain pre ys where bs: "bs = pre @ rb_head rb # ys" by (metis split_list)
  let ?xs = "rb_head rb # ys"
  have al4: "align4 (HDR + sz) = al (HDR + sz)" using sz by (intro align4_al) (simp_all add: HDR_def)
  have h0: "0 \<le> rb_head rb" using ok_block(6) [OF ok] bs by simp
  have small: "rb_size rb < 2 ^ 30" "rb_size rb mod 4 = 0" using ok by (auto simp: rb_ok_def)
  obtain r where r: "alloc_scan rb (al (HDR + sz)) 0 (rb_head rb) = Some r" and
    spec: "case r of Used \<Rightarrow> \<exists>b \<in> set ?xs. used rb b
      | End \<Rightarrow> (\<forall>b \<in> set ?xs. \<not> used rb b) \<and> 0 + (rb_size rb - rb_head rb) < al (HDR + sz)
      | Found t \<Rightarrow> \<exists>us vs m. ?xs = us @ vs \<and> us \<noteq> [] \<and> (\<forall>u \<in> set us. \<not> used rb u) \<and> tiles rb (rb_head rb) us m \<and>
          m \<le> rb_size rb \<and> t = 0 + (m - rb_head rb) \<and> al (HDR + sz) \<le> t"
    using alloc_scan_spec [OF ok, of 0 ?xs pre "al (HDR + sz)", unfolded list.sel, OF _ _ bs] h0 small by force
  show ?thesis
  proof (cases r)
    case Used
    then show ?thesis using r spec al4 bs by auto
  next
    case End
    then show ?thesis using r spec al4 al_le [OF small(2), of "HDR + sz"] by auto
  next
    case (Found t)
    then obtain us vs m where u: "?xs = us @ vs" "us \<noteq> []" "\<forall>u \<in> set us. \<not> used rb u" "tiles rb (rb_head rb) us m"
        "m \<le> rb_size rb" "t = m - rb_head rb" "al (HDR + sz) \<le> m - rb_head rb"
      using spec by auto
    have "bs = pre @ us @ vs" "rb_head rb = hd us" using bs u(1,2) by (auto simp: hd_append)
        (metis hd_append2 list.sel(1))
    then show ?thesis
      using alloc_found [OF ok sz _ u(2) _ u(3,4,5,7)] r Found al4 u(6) by fastforce
  qed
qed

lemma head_0:
  assumes "rb_ok rb bs"
  shows "rb_ok (rb\<lparr>rb_head := 0\<rparr>) bs" "used (rb\<lparr>rb_head := 0\<rparr>) b = used rb b"
    "keeps (rb\<lparr>rb_head := 0\<rparr>) rb' bs' b = keeps rb rb' bs' b"
proof -
  have tiles: "tiles (rb\<lparr>rb_head := 0\<rparr>) a xs e = tiles rb a xs e" for a xs e
    by (induction xs arbitrary: a) auto
  have "bs \<noteq> []" using assms by (auto simp: rb_ok_def)
  then have "0 \<in> set bs" using assms by (cases bs) (auto simp: rb_ok_def)
  then show "rb_ok (rb\<lparr>rb_head := 0\<rparr>) bs" using assms tiles by (simp add: rb_ok_def)
  show "used (rb\<lparr>rb_head := 0\<rparr>) b = used rb b" by (simp add: used_def)
  show "keeps (rb\<lparr>rb_head := 0\<rparr>) rb' bs' b = keeps rb rb' bs' b" by (simp add: keeps_def byte_def)
qed

lemma keeps_refl: "b \<in> set bs \<Longrightarrow> used rb b \<Longrightarrow> keeps rb rb bs b"
  by (simp add: keeps_def)

text \<open>
  C16: \<open>ringbuffer_alloc\<close> for any request below \<open>2 ^ 31 - 32\<close> returns, keeps the layout of the buffer
  and every byte of every block in use, and gives out a fresh block of the wanted length that
  overlaps no block in use; it fails only when some block is in use or the request does not fit
  into the whole buffer.
\<close>

theorem ring_alloc_correct:
  assumes "rb_ok rb bs" "0 \<le> sz" "sz < 2 ^ 31 - 32"
  shows "\<exists>r rb' bs'. ringbuffer_alloc sz rb = Some (r, rb') \<and> rb_ok rb' bs' \<and>
    (\<forall>b \<in> set bs. used rb b \<longrightarrow> keeps rb rb' bs' b) \<and>
    (case r of
       Some h \<Rightarrow> h \<in> set bs' \<and> \<not> used rb' h \<and> cell h rb' = HDR + sz \<and> cell (h + 4) rb' = 0 \<and> cell (h + 12) rb' = -1 \<and>
         (\<forall>b \<in> set bs. used rb b \<longrightarrow> b + cell b rb \<le> h \<or> h + HDR + sz \<le> b)
     | None \<Rightarrow> (\<exists>b \<in> set bs. used rb b) \<or> rb_size rb < HDR + sz)"
proof -
  let ?a = "align4 (HDR + sz)"
  obtain r where r: "alloc_scan rb ?a 0 (rb_head rb) = Some r" and spec: "case r of
       Used \<Rightarrow> \<exists>b \<in> set bs. used rb b
     | End \<Rightarrow> rb_head rb = 0 \<longrightarrow> rb_size rb < HDR + sz
     | Found t \<Rightarrow> \<exists>h rb' bs'. alloc_block t sz rb = Some (h, rb') \<and> rb_ok rb' bs' \<and>
         h \<in> set bs' \<and> \<not> used rb' h \<and> cell h rb' = HDR + sz \<and> cell (h + 4) rb' = 0 \<and> cell (h + 12) rb' = -1 \<and>
         (\<forall>b \<in> set bs. used rb b \<longrightarrow> keeps rb rb' bs' b \<and> (b + cell b rb \<le> h \<or> h + HDR + sz \<le> b))"
    using alloc_round [OF assms] by blast
  have two: "ringbuffer_alloc sz rb = alloc_rounds (Suc (Suc 0)) sz rb"
    by (simp add: ringbuffer_alloc_def numeral_2_eq_2)
  show ?thesis
  proof (cases r)
    case Used
    then show ?thesis using r spec two assms(1) keeps_refl by auto
  next
    case (Found t)
    then obtain h rb' bs' where h: "alloc_block t sz rb = Some (h, rb')" "rb_ok rb' bs'"
         "h \<in> set bs'" "\<not> used rb' h" "cell h rb' = HDR + sz" "cell (h + 4) rb' = 0" "cell (h + 12) rb' = -1"
         "\<forall>b \<in> set bs. used rb b \<longrightarrow> keeps rb rb' bs' b \<and> (b + cell b rb \<le> h \<or> h + HDR + sz \<le> b)"
      using spec by auto
    then show ?thesis using r Found two by (intro exI [of _ "Some h"] exI [of _ rb'] exI [of _ bs']) auto
  next
    case End
    let ?rb = "rb\<lparr>rb_head := 0\<rparr>"
    note ok0 = head_0 [OF assms(1)]
    obtain r where r': "alloc_scan ?rb ?a 0 (rb_head ?rb) = Some r" and spec: "case r of
         Used \<Rightarrow> \<exists>b \<in> set bs. used ?rb b
       | End \<Rightarrow> rb_head ?rb = 0 \<longrightarrow> rb_size ?rb < HDR + sz
       | Found t \<Rightarrow> \<exists>h rb' bs'. alloc_block t sz ?rb = Some (h, rb') \<and> rb_ok rb' bs' \<and>
           h \<in> set bs' \<and> \<not> used rb' h \<and> cell h rb' = HDR + sz \<and> cell (h + 4) rb' = 0 \<and> cell (h + 12) rb' = -1 \<and>
           (\<forall>b \<in> set bs. used ?rb b \<longrightarrow> keeps ?rb rb' bs' b \<and> (b + cell b ?rb \<le> h \<or> h + HDR + sz \<le> b))"
      using alloc_round [OF ok0(1) assms(2,3)] by blast
    have run: "ringbuffer_alloc sz rb = alloc_rounds (Suc 0) sz ?rb" using r End two by simp
    have kp: "\<forall>b \<in> set bs. used rb b \<longrightarrow> keeps rb ?rb bs b"
      by (simp add: keeps_def byte_def used_def)
    show ?thesis
    proof (cases r)
      case Used
      have "ringbuffer_alloc sz rb = Some (None, ?rb)" using run r' Used by simp
      then show ?thesis using spec Used ok0(1,2) kp by auto
    next
      case (Found t)
      then obtain h rb' bs' where h: "alloc_block t sz ?rb = Some (h, rb')" "rb_ok rb' bs'"
           "h \<in> set bs'" "\<not> used rb' h" "cell h rb' = HDR + sz" "cell (h + 4) rb' = 0" "cell (h + 12) rb' = -1"
           "\<forall>b \<in> set bs. used rb b \<longrightarrow> keeps rb rb' bs' b \<and> (b + cell b rb \<le> h \<or> h + HDR + sz \<le> b)"
        using spec ok0(2,3) by auto
      then show ?thesis using r' Found run by (intro exI [of _ "Some h"] exI [of _ rb'] exI [of _ bs']) auto
    next
      case End
      have "ringbuffer_alloc sz rb = Some (None, ?rb\<lparr>rb_head := 0\<rparr>)" using run r' End by simp
      then show ?thesis using spec End ok0(1) kp by auto
    qed
  qed
qed

end
