(* ===== verification/RingOps.thy ===== *)
theory RingOps
  imports RingLayout
begin

text \<open>
  Collecting and shrinking on the gate's buffer, on top of the layout invariant, and the requests
  that break it.
\<close>

section \<open>The oldest id\<close>

lemma last_id_scan_find:
  assumes ok: "rb_ok rb bs"
  shows "bs = pre @ xs \<Longrightarrow> xs \<noteq> [] \<Longrightarrow>
    last_id_scan rb (hd xs) = Some (map_option (\<lambda>b. cell (b + 8) rb) (find (used rb) xs))"
proof (induction xs arbitrary: pre)
  case (Cons b xs)
  have b: "b \<in> set bs" using Cons.prems(1) by simp
  note u = block_used_eq [OF ok b]
  have nx: "block_next rb b = Some (case xs of [] \<Rightarrow> None | c # _ \<Rightarrow> Some c)"
    by (rule block_next_eq [OF ok Cons.prems(1)])
  show ?case
  proof (cases "used rb b")
    case True
    then have "valid (b + 8) rb" using ok_header(2) [OF ok b] by (simp add: used_def)
    then show ?thesis using u True by (simp add: last_id_scan.simps [of _ b] get_valid)
  next
    case False
    show ?thesis
    proof (cases xs)
      case Nil
      then show ?thesis using u False nx by (simp add: last_id_scan.simps [of _ b])
    next
      case (Cons c cs)
      then have "last_id_scan rb c = Some (map_option (\<lambda>b. cell (b + 8) rb) (find (used rb) xs))"
        using Cons.IH [of "pre @ [b]"] Cons.prems(1) by simp
      then show ?thesis using u False nx Cons by (simp add: last_id_scan.simps [of _ b])
    qed
  qed
qed simp

lemma find_Some_mem: "find P xs = Some x \<Longrightarrow> x \<in> set xs \<and> P x"
  by (induction xs) (auto split: if_splits)

lemma last_id_spec:
  assumes ok: "rb_ok rb bs"
  shows "\<exists>i rb'. last_id 2 rb = Some (i, rb') \<and> (rb' = rb \<or> rb' = rb\<lparr>rb_head := 0\<rparr>) \<and>
    (if \<exists>b \<in> set bs. used rb b then \<exists>b \<in> set bs. used rb b \<and> i = cell (b + 8) rb else i = -1)"
proof -
  have "rb_head rb \<in> set bs" using ok by (simp add: rb_ok_def)
  then obtain pre ys where bs: "bs = pre @ rb_head rb # ys" by (metis split_list)
  have 1: "last_id_scan rb (rb_head rb) = Some (map_option (\<lambda>b. cell (b + 8) rb) (find (used rb) (rb_head rb # ys)))"
    using last_id_scan_find [OF ok bs] by simp
  let ?rb = "rb\<lparr>rb_head := 0\<rparr>"
  note ok0 = head_0 [OF ok]
  have ne: "bs \<noteq> []" using bs by simp
  have hd: "hd bs = 0" using ok ne by (cases bs) (auto simp: rb_ok_def)
  have used0: "used ?rb = used rb" using ok0(2) by blast
  have 2: "last_id_scan ?rb 0 = Some (map_option (\<lambda>b. cell (b + 8) rb) (find (used rb) bs))"
    using last_id_scan_find [OF ok0(1), of "[]" bs] ne hd used0 by simp
  have two: "last_id 2 rb = last_id (Suc (Suc 0)) rb" by (simp add: numeral_2_eq_2)
  show ?thesis
  proof (cases "find (used rb) (rb_head rb # ys)")
    case (Some b)
    then have "b \<in> set bs" "used rb b" using find_Some_mem [OF Some] bs by auto
    moreover have "last_id 2 rb = Some (cell (b + 8) rb, rb)" using two 1 Some by simp
    ultimately show ?thesis by auto
  next
    case None
    then have run: "last_id 2 rb = last_id (Suc 0) ?rb" using two 1 by simp
    show ?thesis
    proof (cases "find (used rb) bs")
      case (Some b)
      then have "b \<in> set bs" "used rb b" using find_Some_mem [OF Some] by auto
      moreover have "last_id 2 rb = Some (cell (b + 8) rb, ?rb)" using run 2 Some by simp
      ultimately show ?thesis by auto
    next
      case none: None
      then have "\<not> (\<exists>b \<in> set bs. used rb b)" by (simp add: find_None_iff)
      moreover have "last_id 2 rb = Some (-1, ?rb\<lparr>rb_head := 0\<rparr>)" using run 2 none by simp
      ultimately show ?thesis by auto
    qed
  qed
qed

section \<open>Releasing all blocks of an id\<close>

definition owned :: "ringbuffer \<Rightarrow> int \<Rightarrow> int \<Rightarrow> bool" where
  "owned rb i b \<longleftrightarrow> HDR \<le> cell b rb \<and> cell (b + 8) rb = i"

text \<open>Exactly the id cells of the blocks in \<open>xs\<close> that belong to \<open>i\<close> have become -1.\<close>

definition released :: "int \<Rightarrow> int list \<Rightarrow> ringbuffer \<Rightarrow> ringbuffer \<Rightarrow> bool" where
  "released i xs rb rb' \<longleftrightarrow> rb_head rb' = rb_head rb \<and> rb_size rb' = rb_size rb \<and>
     length (rb_mem rb') = length (rb_mem rb) \<and>
     (\<forall>p. valid p rb \<longrightarrow> cell p rb' = (if \<exists>b \<in> set xs. owned rb i b \<and> p = b + 8 then -1 else cell p rb))"

lemma released_valid: "released i xs rb rb' \<Longrightarrow> valid p rb' = valid p rb"
  by (simp add: released_def valid_def)

lemma header_cells_apart:
  assumes ok: "rb_ok rb bs" and b: "b \<in> set bs" "HDR \<le> cell b rb" and c: "c \<in> set bs" "c \<noteq> b"
  shows "c + HDR \<le> b \<or> b + HDR \<le> c \<or> c + al (cell c rb) \<le> b"
proof -
  have t: "tiles rb 0 bs (rb_size rb)" using ok by (simp add: rb_ok_def)
  show ?thesis
  proof (cases "b < c")
    case True
    then show ?thesis using tiles_disjoint [OF t b(1) c(1)] b(2) al_bounds(1) [of "cell b rb"] by linarith
  next
    case False
    then show ?thesis using tiles_disjoint [OF t c(1) b(1)] c(2) by linarith
  qed
qed

lemma not_length_cell:
  assumes "rb_ok rb bs" "b \<in> set bs" "HDR \<le> cell b rb" "c \<in> set bs"
  shows "c \<noteq> b + 4" "c \<noteq> b + 8" "c \<noteq> b + 12"
proof -
  have t: "tiles rb 0 bs (rb_size rb)" using assms(1) by (simp add: rb_ok_def)
  have "b < c \<Longrightarrow> b + HDR \<le> c" using tiles_disjoint [OF t assms(2,4)] assms(3) al_bounds(1) [of "cell b rb"] by linarith
  then show "c \<noteq> b + 4" "c \<noteq> b + 8" "c \<noteq> b + 12" by (auto simp: HDR_def)
qed

lemma id_cells_differ:
  assumes "rb_ok rb bs" "b \<in> set bs" "HDR \<le> cell b rb" "c \<in> set bs" "HDR \<le> cell c rb" "c \<noteq> b"
  shows "c + 8 \<noteq> b + 8"
  using assms(6) by simp

lemma ok_cells:
  assumes ok: "rb_ok rb bs" and "rb_head rb' = rb_head rb" "rb_size rb' = rb_size rb"
    "length (rb_mem rb') = length (rb_mem rb)" "\<And>b. b \<in> set bs \<Longrightarrow> cell b rb' = cell b rb"
  shows "rb_ok rb' bs"
proof -
  have v: "valid p rb' = valid p rb" for p using assms(4) by (simp add: valid_def)
  have "tiles rb' 0 bs (rb_size rb)"
    by (rule tiles_cong [of bs rb' rb]) (use ok assms(5) v ok_block(1) [OF ok] in \<open>auto simp: rb_ok_def\<close>)
  then show ?thesis using ok assms(2-4) by (simp add: rb_ok_def)
qed

lemma upd_id_ok:
  assumes ok: "rb_ok rb bs" and b: "b \<in> set bs" "HDR \<le> cell b rb" and v: "- (2 ^ 31) \<le> v" "v < 2 ^ 31"
  shows "rb_ok (upd (b + 8) v rb) bs"
  by (rule ok_cells [OF ok]) (use cell_upd [OF ok_block(1) [OF ok] ok_header(2) [OF ok b] v] not_length_cell(2) [OF ok b] in auto)

lemma collect_scan_spec:
  assumes ok: "rb_ok rb bs"
  shows "bs = pre @ xs \<Longrightarrow> xs \<noteq> [] \<Longrightarrow> \<exists>rb'. collect_scan i (hd xs) rb = Some rb' \<and> released i xs rb rb' \<and> rb_ok rb' bs"
  using ok
proof (induction xs arbitrary: pre rb)
  case (Cons b xs)
  note ok = Cons.prems(3)
  have b: "b \<in> set bs" using Cons.prems(1) by simp
  note k = ok_block [OF ok b]
  define rb1 where "rb1 = (if owned rb i b then upd (b + 8) (-1) rb else rb)"
  have ok1: "rb_ok rb1 bs" using upd_id_ok [OF ok b, of "-1"] ok by (simp add: rb1_def owned_def)
  have v8: "HDR \<le> cell b rb \<Longrightarrow> valid (b + 8) rb" by (rule ok_header(2) [OF ok b])
  have rel1: "released i [b] rb rb1"
    using cell_upd [OF _ v8, of _ "-1"] by (auto simp: released_def rb1_def owned_def)
  have step: "(if has_header (cell b rb) then do {
        j \<leftarrow> blk_id b rb; if j = i then put (b + 8) (-1) rb else Some rb } else Some rb) = Some rb1"
    using has_header_pos [OF k(2)] v8 by (auto simp: rb1_def owned_def get_valid put_valid)
  have nx: "block_next rb1 b = Some (case xs of [] \<Rightarrow> None | c # _ \<Rightarrow> Some c)"
    by (rule block_next_eq [OF ok1 Cons.prems(1)])
  show ?case
  proof (cases xs)
    case Nil
    then show ?thesis
      using step nx k(1) rel1 ok1 by (simp add: collect_scan.simps [of _ b] get_valid cong: if_cong)
  next
    case (Cons c cs)
    obtain rb' where rb': "collect_scan i (hd xs) rb1 = Some rb'" "released i xs rb1 rb'" "rb_ok rb' bs"
      using Cons.IH [of "pre @ [b]" rb1] Cons.prems(1) ok1 Cons by auto
    have "collect_scan i b rb = Some rb'"
      using step nx k(1) rb'(1) Cons by (simp add: collect_scan.simps [of _ b] get_valid cong: if_cong)
    moreover have "released i (b # xs) rb rb'"
    proof -
      have dist: "distinct bs"
      proof -
        have "tiles rb a ys e \<Longrightarrow> distinct ys" for a ys e
        proof (induction ys arbitrary: a)
          case (Cons y ys)
          have "0 < al (cell a rb)" using Cons.prems al_bounds(1) [of "cell a rb"] by auto
          then have "a \<notin> set ys" using Cons.prems tiles_mem [of rb "a + al (cell a rb)" ys e a] by auto
          then show ?case using Cons by auto
        qed simp
        then show ?thesis using ok by (auto simp: rb_ok_def)
      qed
      have "owned rb1 i c = owned rb i c" if "c \<in> set xs" for c
      proof -
        have c: "c \<in> set bs" "c \<noteq> b" using that Cons.prems(1) dist by auto
        have 1: "cell c rb1 = cell c rb"
          using rel1 ok_block(1) [OF ok c(1)] not_length_cell(2) [OF ok b _ c(1)] by (auto simp: released_def owned_def)
        have "HDR \<le> cell c rb \<Longrightarrow> cell (c + 8) rb1 = cell (c + 8) rb"
          using rel1 ok_header(2) [OF ok c(1)] c(2) by (auto simp: released_def)
        then show ?thesis using 1 by (auto simp: owned_def)
      qed
      then show ?thesis using rel1 rb'(2) released_valid [OF rel1] by (auto simp: released_def)
    qed
    ultimately show ?thesis using rb'(3) by auto
  qed
qed simp

lemma byte_cell:
  assumes "cell (p div 4 * 4) rb' = cell (p div 4 * 4) rb"
  shows "byte p rb' = byte p rb"
proof -
  have "of_int (sint (rb_mem rb' ! nat (p div 4))) = (of_int (sint (rb_mem rb ! nat (p div 4))) :: i32)"
    using assms by (simp add: cell_def)
  then show ?thesis by (simp add: byte_def)
qed

text \<open>
  \<open>ringbuffer_collect\<close> on a well-formed buffer picks the id of a block in use, takes all blocks of
  that id out of use and changes nothing else; it returns -1 exactly when no block is in use.
\<close>

theorem ring_collect_correct:
  assumes "rb_ok rb bs"
  shows "\<exists>i rb'. ringbuffer_collect rb = Some (i, rb') \<and> rb_ok rb' bs \<and>
    (i = -1 \<longleftrightarrow> (\<forall>b \<in> set bs. \<not> used rb b)) \<and> (i \<noteq> -1 \<longrightarrow> (\<exists>b \<in> set bs. used rb b \<and> owned rb i b)) \<and>
    (\<forall>b \<in> set bs. cell b rb' = cell b rb \<and> used rb' b = (used rb b \<and> \<not> owned rb i b))"
proof -
  obtain i rb1 where i: "last_id 2 rb = Some (i, rb1)" "rb1 = rb \<or> rb1 = rb\<lparr>rb_head := 0\<rparr>"
    "if \<exists>b \<in> set bs. used rb b then \<exists>b \<in> set bs. used rb b \<and> i = cell (b + 8) rb else i = -1"
    using last_id_spec [OF assms] by blast
  have ok1: "rb_ok rb1 bs" using i(2) assms head_0(1) by blast
  have same: "cell p rb1 = cell p rb" "valid p rb1 = valid p rb" "owned rb1 i b = owned rb i b" "used rb1 b = used rb b" for p b
    using i(2) by (auto simp: owned_def used_def)
  have ne: "bs \<noteq> []" using assms by (auto simp: rb_ok_def)
  have hd: "hd bs = 0" using assms ne by (cases bs) (auto simp: rb_ok_def)
  obtain rb' where rb': "collect_scan i 0 rb1 = Some rb'" "released i bs rb1 rb'" "rb_ok rb' bs"
    using collect_scan_spec [OF ok1, of "[]" bs i] ne hd by auto
  have run: "ringbuffer_collect rb = Some (i, rb')" using i(1) rb'(1) by (simp add: ringbuffer_collect_def)
  have cells: "cell b rb' = cell b rb \<and> used rb' b = (used rb b \<and> \<not> owned rb i b)" if b: "b \<in> set bs" for b
  proof -
    have "cell b rb' = (if \<exists>c \<in> set bs. owned rb i c \<and> b = c + 8 then -1 else cell b rb)"
      using rb'(2) same ok_block(1) [OF assms b] by (auto simp: released_def)
    moreover have "\<not> (\<exists>c \<in> set bs. owned rb i c \<and> b = c + 8)"
      using not_length_cell(2) [OF assms _ _ b] by (auto simp: owned_def)
    ultimately have 1: "cell b rb' = cell b rb" by simp
    have "HDR \<le> cell b rb \<Longrightarrow> cell (b + 8) rb' = (if owned rb i b then -1 else cell (b + 8) rb)"
      using rb'(2) same ok_header(2) [OF assms b] b by (auto simp: released_def)
    then show ?thesis using 1 by (auto simp: used_def owned_def split: if_splits)
  qed
  have "(i = -1 \<longleftrightarrow> (\<forall>b \<in> set bs. \<not> used rb b)) \<and> (i \<noteq> -1 \<longrightarrow> (\<exists>b \<in> set bs. used rb b \<and> owned rb i b))"
    using i(3) by (auto simp: used_def owned_def split: if_splits)
  then show ?thesis using run rb'(3) cells by blast
qed


section \<open>Shrinking a block\<close>

lemma ok_replace:
  assumes ok: "rb_ok rb bs" and bs: "bs = pre @ us @ vs" "us \<noteq> []" and us: "tiles rb (hd us) us m"
    and f: "frame (hd us) m rb rb'" and us': "tiles rb' (hd us) us' m" "rb_head rb' \<in> set (pre @ us' @ vs)"
  shows "rb_ok rb' (pre @ us' @ vs)"
proof -
  have "tiles rb 0 (pre @ us @ vs) (rb_size rb)" using ok bs by (simp add: rb_ok_def)
  then obtain p q where pq: "tiles rb 0 pre p" "tiles rb p us q" "tiles rb q vs (rb_size rb)"
    unfolding tiles_append by blast
  have p: "p = hd us" using pq(2) bs(2) by (cases us) auto
  then have q: "q = m" using pq(2) us tiles_end by blast
  have "tiles rb' 0 pre (hd us)" using frame_tiles [OF f pq(1)] p by simp
  moreover have "tiles rb' m vs (rb_size rb)" using frame_tiles [OF f pq(3)] q by simp
  moreover have "hd us \<le> m" "m \<le> rb_size rb" using tiles_le [OF us] tiles_le [OF pq(3)] q by auto
  ultimately have "tiles rb' 0 (pre @ us' @ vs) (rb_size rb)"
    unfolding tiles_append using us'(1) by force
  then show ?thesis using f us'(2) ok by (simp add: rb_ok_def frame_def)
qed

lemma upd_byte:
  assumes "valid q rb" "0 \<le> p" "p < q \<or> q + 4 \<le> p"
  shows "byte p (upd q v rb) = byte p rb"
proof -
  have "nat (p div 4) \<noteq> nat (q div 4)"
  proof
    assume eq: "nat (p div 4) = nat (q div 4)"
    then have "p div 4 = q div 4" using assms(1,2) by (auto simp: valid_def)
    then show False using assms(1,3) unfolding valid_def by presburger
  qed
  then show ?thesis by (simp add: byte_def upd_def)
qed

text \<open>
  \<open>ringbuffer_shrink\<close> cuts a block down to \<open>sz\<close> bytes of data: the layout stays, the remaining
  space becomes a free block where the next allocation starts, the bytes that stay in the block
  and everything outside it are unchanged.
\<close>

theorem ring_shrink_correct:
  assumes ok: "rb_ok rb bs" and bs: "bs = pre @ b # vs" and sz: "0 < sz" "HDR + sz \<le> cell b rb"
  shows "\<exists>rb' rest. ringbuffer_shrink b sz rb = Some rb' \<and> rb_ok rb' (pre @ b # rest @ vs) \<and>
    (rest = [] \<or> rest = [b + al (HDR + sz)] \<and> rb_head rb' = b + al (HDR + sz) \<and> \<not> used rb' (b + al (HDR + sz))) \<and>
    cell b rb' = HDR + sz \<and> frame b (b + al (cell b rb)) rb rb' \<and>
    (\<forall>p. b + 4 \<le> p \<and> p < b + HDR + sz \<longrightarrow> byte p rb' = byte p rb)"
proof -
  have b: "b \<in> set bs" using bs by simp
  note k = ok_block [OF ok b]
  define a where "a = al (HDR + sz)"
  define l where "l = al (cell b rb)"
  have le: "a \<le> l" unfolding a_def l_def by (rule al_mono [OF sz(2)])
  have ab: "HDR + sz \<le> a" "a mod 4 = 0" "l mod 4 = 0" using al_bounds [of "HDR + sz"] al_bounds(3) [of "cell b rb"]
    by (simp_all add: a_def l_def)
  have small: "rb_size rb < 2 ^ 30" using ok by (simp add: rb_ok_def)
  have lim: "b + l \<le> rb_size rb" using k(4) by (simp add: l_def)
  have szr: "HDR + sz < 2 ^ 30" using ab(1) le lim k(6) small by simp
  have al4: "align4 (HDR + sz) = a" using szr sz by (simp add: align4_al a_def HDR_def)
  have w: "wrap (a + b) = b + a" "wrap (b + a) = b + a"
    using le lim k(6) ab(1) sz small by (auto simp: HDR_def intro!: wrap_id)
  define rb1 where "rb1 = upd b (sz + HDR) rb"
  have f1: "frame b (b + l) rb rb1"
    unfolding rb1_def using k(1) le ab(1) sz by (intro frame_upd frame_refl) (simp_all add: HDR_def)
  have c1: "cell b rb1 = HDR + sz" unfolding rb1_def using k(1) szr sz by (simp add: cell_upd HDR_def)
  have old: "tiles rb b [b] (b + l)" using k(1,2) by (simp add: l_def)
  have bytes1: "byte p rb1 = byte p rb" if "b + 4 \<le> p" for p
    using upd_byte [OF k(1), of p "sz + HDR"] that k(6) by (simp add: rb1_def)
  have hd: "hd [b] = b" by simp
  have start: "ringbuffer_shrink b sz rb = (if a = l then Some rb1 else do {
        next \<leftarrow> block_next rb1 b;
        c \<leftarrow> next;
        rb \<leftarrow> put c (l - a) rb1;
        rb \<leftarrow> (if has_header (l - a) then put (c + 8) (-1) rb else Some rb);
        Some (rb\<lparr>rb_head := c\<rparr>) })"
    using sz(1) k(1,5) al4 le by (simp add: ringbuffer_shrink_def get_valid put_valid l_def [symmetric] rb1_def Let_def)
  show ?thesis
  proof (cases "a = l")
    case True
    have "tiles rb1 b [b] (b + l)" using c1 k(1) True sz by (simp add: rb1_def a_def HDR_def)
    moreover have "rb_head rb1 \<in> set bs" using ok by (simp add: rb1_def rb_ok_def)
    ultimately have "rb_ok rb1 (pre @ [b] @ vs)"
      using ok_replace [OF ok, of pre "[b]" vs "b + l" rb1 "[b]"] bs old f1 by simp
    then show ?thesis
      using start True c1 f1 bytes1 by (intro exI [of _ rb1] exI [of _ "[]"]) (simp add: l_def)
  next
    case False
    define n where "n = b + a"
    define d where "d = l - a"
    have d: "4 \<le> d" "d mod 4 = 0" using False le ab unfolding d_def by presburger+
    have nm: "n + d = b + l" "n mod 4 = 0" "b + HDR + sz \<le> n" "(n + 8) mod 4 = 0"
      using ab k(7) by (auto simp: n_def d_def)
    have d2: "d < 2 ^ 30" using nm lim k(6) small sz by (simp add: HDR_def)
    have nlt: "b + a < rb_size rb" using d lim by (simp add: d_def)
    have nx: "block_next rb1 b = Some (Some n)"
    proof -
      have "get b rb1 = Some (HDR + sz)" using c1 k(1) by (simp add: get_valid rb1_def)
      moreover have "rb_size rb1 = rb_size rb" by (simp add: rb1_def)
      ultimately show ?thesis using al4 w nlt unfolding block_next_def by (simp add: n_def)
    qed
    have vn: "valid n rb1" using nm d lim k(6) sz by (simp add: rb1_def valid_size [OF ok] HDR_def)
    have v8: "valid (n + 8) rb1" if "16 \<le> d" using nm that lim k(6) sz by (simp add: rb1_def valid_size [OF ok] HDR_def)
    define rb2 where "rb2 = upd n d rb1"
    define rb3 where "rb3 = (if 16 \<le> d then upd (n + 8) (-1) rb2 else rb2)"
    define rb' where "rb' = rb3\<lparr>rb_head := n\<rparr>"
    have "put n d rb1 = Some rb2" unfolding rb2_def by (rule put_valid [OF vn])
    moreover have "(if has_header d then put (n + 8) (-1) rb2 else Some rb2) = Some rb3"
      using d v8 by (auto simp: has_header_def HDR_def rb3_def rb2_def intro!: put_valid)
    ultimately have run: "ringbuffer_shrink b sz rb = Some rb'"
      using start [folded d_def] False nx by (simp add: rb'_def)
    have f2: "frame b (b + l) rb rb2" unfolding rb2_def using f1 vn nm d sz by (intro frame_upd) (simp_all add: HDR_def)
    have f': "frame b (b + l) rb rb'"
      unfolding rb'_def rb3_def using f2 v8 nm sz by (auto simp: rb2_def HDR_def intro!: frame_upd)
    have vb: "valid b rb1" using k(1) by (simp add: rb1_def)
    have cb: "cell b rb' = HDR + sz" using c1 vb vn v8 d d2 nm sz by (auto simp: rb'_def rb3_def rb2_def cell_upd HDR_def)
    have cn: "cell n rb' = d" using vn v8 d d2 by (auto simp: rb'_def rb3_def rb2_def cell_upd)
    have cn8: "cell (n + 8) rb' = -1" if "16 \<le> d" using that v8 by (simp add: rb'_def rb3_def rb2_def cell_upd)
    have vv: "valid p rb' = valid p rb" for p by (rule frame_valid [OF f'])
    have "tiles rb' b [b, n] (b + l)"
    proof -
      have "b + al (cell b rb') = n" unfolding cb n_def a_def ..
      moreover have "n + al (cell n rb') = b + l" unfolding cn al_id [OF d(2)] by (rule nm(1))
      moreover have "valid b rb'" "valid n rb'" using vv k(1) vn by (simp_all add: rb1_def)
      moreover have "0 < cell b rb'" "0 < cell n rb'" using cb cn d(1) sz(1) by (simp_all add: HDR_def)
      moreover have "n \<le> b + l" "b \<le> b + l" using nm(1) d(1) ab(1) le sz(1) by (simp_all add: HDR_def)
      ultimately show ?thesis by simp
    qed
    then have r1: "rb_ok rb' (pre @ b # [n] @ vs)"
      using ok_replace [OF ok, of pre "[b]" vs "b + l" rb' "[b, n]"] bs old f' by (simp add: rb'_def)
    have r2: "rb_head rb' = n" by (simp add: rb'_def)
    have r3: "\<not> used rb' n" using cn cn8 by (auto simp: used_def HDR_def)
    have r4: "byte p rb' = byte p rb" if "b + 4 \<le> p" "p < b + HDR + sz" for p
    proof -
      have "byte p rb3 = byte p rb1"
        using upd_byte [OF vn, of p d] upd_byte [of "n + 8" rb2 p "-1"] v8 that nm k(6) by (auto simp: rb3_def rb2_def)
      then show ?thesis using bytes1 [OF that(1)] by (simp add: rb'_def byte_def)
    qed
    have n: "b + al (HDR + sz) = n" by (simp only: n_def a_def)
    have l: "al (cell b rb) = l" by (simp only: l_def)
    show ?thesis
      unfolding n l
    proof (rule exI [of _ rb'], rule exI [of _ "[n]"], intro conjI)
      show "[n] = [] \<or> [n] = [n] \<and> rb_head rb' = n \<and> \<not> used rb' n" using r2 r3 by blast
      show "ringbuffer_shrink b sz rb = Some rb'" by (rule run)
      show "rb_ok rb' (pre @ b # [n] @ vs)" by (rule r1)
      show "cell b rb' = HDR + sz" by (rule cb)
      show "frame b (b + l) rb rb'" by (rule f')
      show "\<forall>p. b + 4 \<le> p \<and> p < b + HDR + sz \<longrightarrow> byte p rb' = byte p rb" using r4 by blast
    qed
  qed
qed


section \<open>Concrete buffers\<close>

definition demo_rb :: ringbuffer where
  "demo_rb = the (ringbuffer_new (replicate 25 0) 100)"

lemma demo_rb_eq: "demo_rb = \<lparr>rb_size = 100, rb_head = 0, rb_mem = (replicate 25 0)[0 := 100, 2 := -1]\<rparr>"
  by code_simp

lemma demo_rb_ok: "rb_ok demo_rb [0]"
  by (simp add: demo_rb_eq rb_ok_def valid_def cell_def al_def)

lemma ring_alloc_correct_witness:
  "\<exists>h rb' bs'. ringbuffer_alloc 20 demo_rb = Some (Some h, rb') \<and> rb_ok rb' bs' \<and> cell h rb' = 36"
proof -
  have sz: "rb_size demo_rb = 100" by (simp add: demo_rb_eq)
  have free: "\<not> used demo_rb 0" by (simp add: used_def demo_rb_eq cell_def)
  obtain r rb' bs' where r: "ringbuffer_alloc 20 demo_rb = Some (r, rb')" "rb_ok rb' bs'"
    and spec: "case r of Some h \<Rightarrow> h \<in> set bs' \<and> \<not> used rb' h \<and> cell h rb' = HDR + 20 \<and> cell (h + 4) rb' = 0 \<and> cell (h + 12) rb' = -1 \<and>
         (\<forall>b \<in> set [0]. used demo_rb b \<longrightarrow> b + cell b demo_rb \<le> h \<or> h + HDR + 20 \<le> b)
       | None \<Rightarrow> (\<exists>b \<in> set [0]. used demo_rb b) \<or> rb_size demo_rb < HDR + 20"
    using ring_alloc_correct [OF demo_rb_ok, of 20] by auto
  have "r \<noteq> None" using spec free sz by (cases r) (auto simp: HDR_def)
  then show ?thesis using r spec by (auto simp: HDR_def)
qed

lemma ring_collect_correct_witness:
  "\<exists>rb'. ringbuffer_collect demo_rb = Some (-1, rb') \<and> rb_ok rb' [0]"
proof -
  have "\<not> used demo_rb 0" by (simp add: used_def demo_rb_eq cell_def)
  then show ?thesis using ring_collect_correct [OF demo_rb_ok] by auto
qed

lemma ring_shrink_correct_witness:
  "\<exists>rb'. ringbuffer_shrink 0 40 demo_rb = Some rb' \<and> rb_ok rb' [0, 56] \<and> cell 0 rb' = 56"
proof -
  have "\<exists>rb' rest. ringbuffer_shrink 0 40 demo_rb = Some rb' \<and> rb_ok rb' (0 # rest) \<and>
      (rest = [] \<or> rest = [56]) \<and> cell 0 rb' = 56"
    using ring_shrink_correct [OF demo_rb_ok, of "[]" 0 "[]" 40] by (auto simp: demo_rb_eq cell_def HDR_def al_def)
  then obtain rb' rest where r: "ringbuffer_shrink 0 40 demo_rb = Some rb'" "rb_ok rb' (0 # rest)"
      "rest = [] \<or> rest = [56]" "cell 0 rb' = 56" by blast
  have "rb_size rb' = 100"
    using ring_shrink_correct [OF demo_rb_ok, of "[]" 0 "[]" 40] r(1) by (auto simp: demo_rb_eq cell_def HDR_def frame_def)
  then have "rest \<noteq> []" using r(2,4) by (auto simp: rb_ok_def al_def)
  then show ?thesis using r by auto
qed

text \<open>
  A request near \<open>2 ^ 31\<close>, which a client of the gate can make with the length field of a four-byte
  header, overflows the length computation and makes \<open>ringbuffer_alloc\<close> write a block header in
  front of the buffer.
\<close>

theorem ring_alloc_overflow: "ringbuffer_alloc 0x7fffffff demo_rb = None"
  by code_simp

end
