(* ===== verification/System.thy ===== *)
theory System
  imports Prelude
begin

text \<open>The results of system calls: a value, or \<open>errno\<close> as far as the program looks at it.\<close>

datatype errno = EINTR | EWOULDBLOCK | EOTHER
datatype 'a sysret = Done 'a | Fail errno

end
