(* ===== verification/Mread.thy ===== *)
theory Mread
  imports RingOps Format System
begin

text \<open>
  \<open>gate/mread.c\<close>: the pool of client connections of the gate.  A connection is a slot of the array
  \<open>sockets\<close>; what it has sent is kept in the ring buffer, as a chain of blocks from \<open>node\<close> on, and
  what could not be written to it yet is the queue \<open>client\<close>.  The build is the default one of the
  \<open>Makefile\<close> on Linux: \<open>HAVE_EPOLL\<close> and \<open>TENCENT\<close>, not \<open>WEBSOCKET\<close>.

  Pointers into \<open>sockets\<close> are indices, pointers into the ring buffer are offsets.  The system calls
  are the record \<open>os\<close> of arguments, which act on a state of their own (\<open>mp_world\<close>).  \<open>None\<close> is a
  failed assertion, an access outside an array, or a retry that never ends.
\<close>

section \<open>The system\<close>

text \<open>What \<open>epoll\<close> reports an event for: \<open>LISTENSOCKET\<close>, or a slot.  The flag of a registration is \<open>EPOLLOUT\<close>.\<close>

datatype target = Listen | Client nat
datatype ctl = Ctl_Add target bool | Ctl_Mod target bool | Ctl_Del

record event =
  ev_target :: target
  ev_out :: bool
  ev_in :: bool

type_synonym address = "string \<times> int"

record 'w os =
  os_socket :: "'w \<Rightarrow> int \<times> 'w"
  os_getfl :: "int \<Rightarrow> 'w \<Rightarrow> int \<times> 'w"
  os_set_nonblock :: "int \<Rightarrow> int \<Rightarrow> 'w \<Rightarrow> int \<times> 'w"
  os_setsockopt :: "int \<Rightarrow> string \<Rightarrow> 'w \<Rightarrow> 'w"
  os_bind :: "int \<Rightarrow> u32 \<Rightarrow> int \<Rightarrow> 'w \<Rightarrow> int \<times> 'w"
  os_listen :: "int \<Rightarrow> int \<Rightarrow> 'w \<Rightarrow> int \<times> 'w"
  os_accept :: "int \<Rightarrow> 'w \<Rightarrow> (int \<times> address) \<times> 'w"
  os_epoll_create :: "int \<Rightarrow> 'w \<Rightarrow> int \<times> 'w"
  os_epoll_ctl :: "int \<Rightarrow> ctl \<Rightarrow> int \<Rightarrow> 'w \<Rightarrow> int \<times> 'w"
  os_epoll_wait :: "int \<Rightarrow> nat \<Rightarrow> int \<Rightarrow> 'w \<Rightarrow> event list option \<times> 'w"
  os_write :: "int \<Rightarrow> u8 list \<Rightarrow> 'w \<Rightarrow> nat sysret \<times> 'w"
  os_read :: "int \<Rightarrow> int \<Rightarrow> 'w \<Rightarrow> u8 list sysret \<times> 'w"
  os_close :: "int \<Rightarrow> 'w \<Rightarrow> 'w"
  os_malloc :: "int \<Rightarrow> 'w \<Rightarrow> i32 list \<times> 'w"
  os_free :: "nat \<Rightarrow> 'w \<Rightarrow> 'w"

section \<open>The pool\<close>

definition BACKLOG :: int where "BACKLOG = 511"
definition READQUEUE :: nat where "READQUEUE = 32"
definition READBLOCKSIZE :: int where "READBLOCKSIZE = 2048"
definition RINGBUFFER_DEFAULT :: int where "RINGBUFFER_DEFAULT = 1024 * 1024"

datatype socket_status = SOCKET_INVALID | SOCKET_CLOSED | SOCKET_SUSPEND | SOCKET_READ
  | SOCKET_POLLIN | SOCKET_FIRST_POLLIN | SOCKET_CONNECTED | SOCKET_HALFCLOSE

text \<open>\<open>status >= SOCKET_ALIVE\<close>.\<close>

fun alive :: "socket_status \<Rightarrow> bool" where
  "alive SOCKET_INVALID = False"
| "alive SOCKET_CLOSED = False"
| "alive _ = True"

text \<open>A \<open>send_buffer\<close> is the \<open>size\<close> bytes from \<open>buff\<close> on and the pointer to free when they are sent.\<close>

record send_buffer =
  sb_buff :: "u8 list"
  sb_ptr :: nat

record socket =
  s_fd :: int
  s_node :: "int option"
  s_temp :: "int option"
  s_client :: "send_buffer list"
  s_enablewrite :: bool
  s_status :: socket_status
  s_ip :: string
  s_port :: int

record 'w mread_pool =
  mp_listen_fd :: int
  mp_epoll_fd :: int
  mp_max_connection :: nat
  mp_closed :: int
  mp_active :: "nat option"
  mp_skip :: int
  mp_sockets :: "socket list"
  mp_free_socket :: "nat option"
  mp_ev :: "event list"
  mp_queue_head :: nat
  mp_rb :: ringbuffer
  mp_world :: 'w

definition socket_at :: "nat \<Rightarrow> 'w mread_pool \<Rightarrow> socket option" where
  "socket_at i m = (if i < length (mp_sockets m) then Some (mp_sockets m ! i) else None)"

definition set_socket :: "nat \<Rightarrow> socket \<Rightarrow> 'w mread_pool \<Rightarrow> 'w mread_pool" where
  "set_socket i s m = m\<lparr>mp_sockets := (mp_sockets m)[i := s]\<rparr>"

section \<open>Sending\<close>

definition epoll_ctl :: "'w os \<Rightarrow> ctl \<Rightarrow> int \<Rightarrow> 'w mread_pool \<Rightarrow> int \<times> 'w mread_pool" where
  "epoll_ctl os op fd m =
     (let (r, w) = os_epoll_ctl os (mp_epoll_fd m) op fd (mp_world m) in (r, m\<lparr>mp_world := w\<rparr>))"

definition turn_on :: "'w os \<Rightarrow> nat \<Rightarrow> 'w mread_pool \<Rightarrow> 'w mread_pool option" where
  "turn_on os i m = do {
     s \<leftarrow> socket_at i m;
     if \<not> alive (s_status s) \<or> s_enablewrite s then Some m
     else Some (set_socket i (s\<lparr>s_enablewrite := True\<rparr>) (snd (epoll_ctl os (Ctl_Mod (Client i) True) (s_fd s) m)))
   }"

definition turn_off :: "'w os \<Rightarrow> nat \<Rightarrow> 'w mread_pool \<Rightarrow> 'w mread_pool option" where
  "turn_off os i m = do {
     s \<leftarrow> socket_at i m;
     if \<not> alive (s_status s) \<or> \<not> s_enablewrite s then Some m
     else Some (set_socket i (s\<lparr>s_enablewrite := False\<rparr>) (snd (epoll_ctl os (Ctl_Mod (Client i) False) (s_fd s) m)))
   }"

definition free_buffer :: "'w os \<Rightarrow> send_buffer list \<Rightarrow> 'w \<Rightarrow> 'w" where
  "free_buffer os sc w = fold (\<lambda>sb. os_free os (sb_ptr sb)) sc w"

text \<open>\<open>write\<close>, repeated while it is interrupted.\<close>

partial_function (option) write_retry :: "'w os \<Rightarrow> int \<Rightarrow> u8 list \<Rightarrow> 'w \<Rightarrow> (nat sysret \<times> 'w) option" where
  "write_retry os fd buff w =
     (let (r, w) = os_write os fd buff w
      in if r = Fail EINTR then write_retry os fd buff w else Some (r, w))"

fun client_send :: "'w os \<Rightarrow> int \<Rightarrow> send_buffer list \<Rightarrow> 'w \<Rightarrow> (send_buffer list \<times> 'w) option" where
  "client_send os fd [] w = Some ([], w)"
| "client_send os fd (tmp # c) w = do {
     (r, w) \<leftarrow> write_retry os fd (sb_buff tmp) w;
     case r of
       Fail e \<Rightarrow> Some (if e = EWOULDBLOCK then (tmp # c, w) else ([], free_buffer os (tmp # c) w))
     | Done sz \<Rightarrow>
         if sz \<noteq> length (sb_buff tmp) then do {
           c_assert (sz < length (sb_buff tmp));
           Some (tmp\<lparr>sb_buff := drop sz (sb_buff tmp)\<rparr> # c, w)
         } else client_send os fd c (os_free os (sb_ptr tmp) w)
   }"

definition client_push :: "u8 list \<Rightarrow> nat \<Rightarrow> send_buffer list \<Rightarrow> send_buffer list" where
  "client_push buf ptr c = c @ [\<lparr>sb_buff = buf, sb_ptr = ptr\<rparr>]"

definition try_close :: "'w os \<Rightarrow> nat \<Rightarrow> 'w mread_pool \<Rightarrow> 'w mread_pool option" where
  "try_close os i m = do {
     s \<leftarrow> socket_at i m;
     m \<leftarrow> (if s_client s = [] then turn_off os i m else Some m);
     s \<leftarrow> socket_at i m;
     if s_status s \<noteq> SOCKET_HALFCLOSE then Some m
     else if s_client s = [] then do {
       let m = set_socket i (s\<lparr>s_status := SOCKET_CLOSED, s_node := None, s_temp := None\<rparr>) m;
       let m = snd (epoll_ctl os Ctl_Del (s_fd s) m);
       Some (m\<lparr>mp_world := os_close os (s_fd s) (mp_world m), mp_closed := mp_closed m + 1\<rparr>)
     } else Some m
   }"

text \<open>The loop of \<open>mread_push\<close>: everything was written, or some bytes are left, or the connection is broken.\<close>

datatype push_result = Written | Pending "u8 list" | Broken

partial_function (option) push_write :: "'w os \<Rightarrow> int \<Rightarrow> u8 list \<Rightarrow> 'w \<Rightarrow> (push_result \<times> 'w) option" where
  "push_write os fd buffer w = do {
     (r, w) \<leftarrow> write_retry os fd buffer w;
     case r of
       Fail e \<Rightarrow> Some (if e = EWOULDBLOCK then Pending buffer else Broken, w)
     | Done sz \<Rightarrow>
         if sz = length buffer then Some (Written, w) else push_write os fd (drop sz buffer) w
   }"

definition mread_push :: "'w os \<Rightarrow> nat \<Rightarrow> u8 list \<Rightarrow> nat \<Rightarrow> 'w mread_pool \<Rightarrow> 'w mread_pool option" where
  "mread_push os i buffer ptr m = do {
     s \<leftarrow> socket_at i m;
     if s_status s \<in> {SOCKET_INVALID, SOCKET_CLOSED, SOCKET_HALFCLOSE} then
       Some (m\<lparr>mp_world := os_free os ptr (mp_world m)\<rparr>)
     else do {
       (r, w) \<leftarrow> (if s_client s = [] then push_write os (s_fd s) buffer (mp_world m)
                  else Some (Pending buffer, mp_world m));
       let m = m\<lparr>mp_world := w\<rparr>;
       case r of
         Written \<Rightarrow> Some (m\<lparr>mp_world := os_free os ptr (mp_world m)\<rparr>)
       | Broken \<Rightarrow> try_close os i (set_socket i (s\<lparr>s_status := SOCKET_HALFCLOSE\<rparr>) m)
       | Pending buffer \<Rightarrow> turn_on os i (set_socket i (s\<lparr>s_client := client_push buffer ptr (s_client s)\<rparr>) m)
     }
   }"

section \<open>Creation\<close>

text \<open>The address and port of a slot are not set before \<open>accept\<close>.  The last entry is out of range when \<open>max\<close> is 0.\<close>

definition create_sockets :: "nat \<Rightarrow> socket list option" where
  "create_sockets max' = do {
     c_assert (0 < max');
     Some ((map (\<lambda>i. \<lparr>s_fd = int i + 1, s_node = None, s_temp = None, s_client = [], s_enablewrite = False,
                     s_status = SOCKET_INVALID, s_ip = [], s_port = 0\<rparr>) [0..<max'])
             [max' - 1 := \<lparr>s_fd = -1, s_node = None, s_temp = None, s_client = [], s_enablewrite = False,
                     s_status = SOCKET_INVALID, s_ip = [], s_port = 0\<rparr>])
   }"

definition create_rb :: "'w os \<Rightarrow> int \<Rightarrow> 'w \<Rightarrow> (ringbuffer \<times> 'w) option" where
  "create_rb os sz w = do {
     let sz = align4 sz;
     let sz = (if sz < READBLOCKSIZE * 2 then READBLOCKSIZE * 2 else sz);
     let (memory, w) = os_malloc os sz w;
     rb \<leftarrow> ringbuffer_new memory sz;
     Some (rb, w)
   }"

definition set_nonblocking :: "'w os \<Rightarrow> int \<Rightarrow> 'w \<Rightarrow> int \<times> 'w" where
  "set_nonblocking os fd w =
     (let (flag, w) = os_getfl os fd w
      in if flag = -1 then (-1, w) else os_set_nonblock os fd flag w)"

definition mread_create ::
  "'w os \<Rightarrow> u32 \<Rightarrow> int \<Rightarrow> nat \<Rightarrow> int \<Rightarrow> 'w \<Rightarrow> ('w mread_pool option \<times> 'w) option" where
  "mread_create os addr port max' buffer_size w = (
     let (listen_fd, w) = os_socket os w in
     if listen_fd = -1 then Some (None, w) else
     let (r, w) = set_nonblocking os listen_fd w in
     if r = -1 then Some (None, w) else
     let w = os_setsockopt os listen_fd ''SO_REUSEADDR'' w;
         (r, w) = os_bind os listen_fd addr port w in
     if r = -1 then Some (None, os_close os listen_fd w) else
     let (r, w) = os_listen os listen_fd BACKLOG w in
     if r = -1 then Some (None, os_close os listen_fd w) else
     let (epoll_fd, w) = os_epoll_create os (int max' + 1) w in
     if epoll_fd = -1 then Some (None, os_close os listen_fd w) else
     let (r, w) = os_epoll_ctl os epoll_fd (Ctl_Add Listen False) listen_fd w in
     if r = -1 then Some (None, os_close os epoll_fd (os_close os listen_fd w)) else
     do {
       socks \<leftarrow> create_sockets max';
       (rb, w) \<leftarrow> create_rb os (if buffer_size = 0 then RINGBUFFER_DEFAULT else buffer_size) w;
       Some (Some \<lparr>mp_listen_fd = listen_fd, mp_epoll_fd = epoll_fd, mp_max_connection = max', mp_closed = 0,
                mp_active = None, mp_skip = 0, mp_sockets = socks, mp_free_socket = Some 0, mp_ev = [],
                mp_queue_head = 0, mp_rb = rb, mp_world = w\<rparr>, w)
     })"

text \<open>\<open>mread_close\<close>: it gives the queue of the first slot to \<open>free\<close>, not those of the others.\<close>

definition mread_close :: "'w os \<Rightarrow> 'w mread_pool \<Rightarrow> 'w option" where
  "mread_close os m = do {
     let w = fold (\<lambda>s w. if alive (s_status s) then os_close os (s_fd s) w else w)
                  (take (mp_max_connection m) (mp_sockets m)) (mp_world m);
     s \<leftarrow> socket_at 0 m;
     let w = free_buffer os (s_client s) w;
     let w = (if 0 \<le> mp_listen_fd m then os_close os (mp_listen_fd m) w else w);
     Some (os_close os (mp_epoll_fd m) w)
   }"

section \<open>Polling\<close>

definition read_queue :: "'w os \<Rightarrow> int \<Rightarrow> 'w mread_pool \<Rightarrow> int \<times> 'w mread_pool" where
  "read_queue os timeout m =
     (let (r, w) = os_epoll_wait os (mp_epoll_fd m) READQUEUE timeout (mp_world m);
          m = m\<lparr>mp_queue_head := 0, mp_world := w\<rparr>
      in case r of
           None \<Rightarrow> (-1, m\<lparr>mp_ev := []\<rparr>)
         | Some ev \<Rightarrow> (int (length ev), m\<lparr>mp_ev := ev\<rparr>))"

text \<open>What \<open>_read_one\<close> does with a writable connection: send what waits, close it if that was the last.\<close>

definition write_event :: "'w os \<Rightarrow> nat \<Rightarrow> 'w mread_pool \<Rightarrow> 'w mread_pool option" where
  "write_event os i m = do {
     s \<leftarrow> socket_at i m;
     (c, w) \<leftarrow> client_send os (s_fd s) (s_client s) (mp_world m);
     try_close os i ((set_socket i (s\<lparr>s_client := c\<rparr>) m)\<lparr>mp_world := w\<rparr>)
   }"

text \<open>\<open>_read_one\<close> on the events that are left, \<open>ev\<close> from \<open>queue_head\<close> on.\<close>

fun read_events :: "'w os \<Rightarrow> event list \<Rightarrow> 'w mread_pool \<Rightarrow> (target option \<times> 'w mread_pool) option" where
  "read_events os [] m = Some (None, m)"
| "read_events os (e # evs) m = do {
     let m = m\<lparr>mp_queue_head := mp_queue_head m + 1\<rparr>;
     case ev_target e of
       Listen \<Rightarrow> Some (Some Listen, m)
     | Client i \<Rightarrow> do {
         s \<leftarrow> socket_at i m;
         m \<leftarrow> (if ev_out e \<and> s_status s \<noteq> SOCKET_CLOSED then write_event os i m else Some m);
         s \<leftarrow> socket_at i m;
         if ev_in e \<and> alive (s_status s) \<and> s_status s \<noteq> SOCKET_HALFCLOSE then Some (Some (Client i), m)
         else read_events os evs m
       }
   }"

definition read_one :: "'w os \<Rightarrow> 'w mread_pool \<Rightarrow> (target option \<times> 'w mread_pool) option" where
  "read_one os m = read_events os (drop (mp_queue_head m) (mp_ev m)) m"

text \<open>A free slot keeps the index of the next one in \<open>fd\<close>, the last one \<open>-1\<close>.\<close>

definition alloc_socket :: "'w mread_pool \<Rightarrow> (nat option \<times> 'w mread_pool) option" where
  "alloc_socket m = (case mp_free_socket m of
     None \<Rightarrow> Some (None, m)
   | Some i \<Rightarrow> do {
       s \<leftarrow> socket_at i m;
       Some (Some i, m\<lparr>mp_free_socket := (if s_fd s < 0 then None else Some (nat (s_fd s)))\<rparr>)
     })"

definition add_client :: "'w os \<Rightarrow> int \<Rightarrow> 'w mread_pool \<Rightarrow> (nat option \<times> 'w mread_pool) option" where
  "add_client os fd m = do {
     (r, m) \<leftarrow> alloc_socket m;
     case r of
       None \<Rightarrow> Some (None, m\<lparr>mp_world := os_close os fd (mp_world m)\<rparr>)
     | Some i \<Rightarrow> do {
         let (e, m) = epoll_ctl os (Ctl_Add (Client i) False) fd m;
         if e = -1 then Some (None, m\<lparr>mp_world := os_close os fd (mp_world m)\<rparr>)
         else do {
           s \<leftarrow> socket_at i m;
           Some (Some i, set_socket i (s\<lparr>s_fd := fd, s_node := None, s_status := SOCKET_CONNECTED,
                                         s_enablewrite := False\<rparr>) m)
         }
       }
   }"

definition report_closed :: "'w mread_pool \<Rightarrow> (nat \<times> 'w mread_pool) option" where
  "report_closed m = do {
     i \<leftarrow> find (\<lambda>i. s_status (mp_sockets m ! i) = SOCKET_CLOSED) [0..<mp_max_connection m];
     Some (i, m\<lparr>mp_active := Some i\<rparr>)
   }"

definition accept_client :: "'w os \<Rightarrow> 'w mread_pool \<Rightarrow> (nat option \<times> 'w mread_pool) option" where
  "accept_client os m = do {
     let ((client_fd, ip, port), w) = os_accept os (mp_listen_fd m) (mp_world m);
     if 0 \<le> client_fd then do {
       let w = snd (set_nonblocking os client_fd w);
       let w = os_setsockopt os client_fd ''SO_KEEPALIVE'' w;
       (r, m) \<leftarrow> add_client os client_fd (m\<lparr>mp_world := w\<rparr>);
       case r of
         Some i \<Rightarrow> do {
           s \<leftarrow> socket_at i m;
           Some (Some i, (set_socket i (s\<lparr>s_ip := ip, s_port := port\<rparr>) m)\<lparr>mp_active := None\<rparr>)
         }
       | None \<Rightarrow> Some (None, m)
     } else Some (None, m\<lparr>mp_world := w\<rparr>)
   }"

text \<open>The loop of \<open>mread_poll\<close>; its result is the slot with something to report, or \<open>-1\<close>.\<close>

partial_function (option) poll_loop :: "'w os \<Rightarrow> 'w mread_pool \<Rightarrow> (nat option \<times> 'w mread_pool) option" where
  "poll_loop os m = do {
     (r, m) \<leftarrow> read_one os m;
     case r of
       None \<Rightarrow> Some (None, m\<lparr>mp_active := None\<rparr>)
     | Some Listen \<Rightarrow> do {
         (r, m) \<leftarrow> accept_client os m;
         case r of Some i \<Rightarrow> Some (Some i, m) | None \<Rightarrow> poll_loop os m
       }
     | Some (Client i) \<Rightarrow> do {
         c_assert (i < mp_max_connection m);
         s \<leftarrow> socket_at i m;
         Some (Some i, (set_socket i (s\<lparr>s_status := (if s_status s = SOCKET_CONNECTED then SOCKET_FIRST_POLLIN
                                                     else SOCKET_POLLIN)\<rparr>) m)\<lparr>mp_active := Some i\<rparr>)
       }
   }"

definition poll_queue :: "'w os \<Rightarrow> int \<Rightarrow> 'w mread_pool \<Rightarrow> (nat option \<times> 'w mread_pool) option" where
  "poll_queue os timeout m =
     (if length (mp_ev m) \<le> mp_queue_head m then
        if 0 < mp_closed m then do { (i, m) \<leftarrow> report_closed m; Some (Some i, m) }
        else do {
          let (r, m) = read_queue os timeout m;
          if r = -1 then Some (None, m\<lparr>mp_active := None\<rparr>) else poll_loop os m
        }
      else poll_loop os m)"

definition mread_poll :: "'w os \<Rightarrow> int \<Rightarrow> 'w mread_pool \<Rightarrow> (nat option \<times> 'w mread_pool) option" where
  "mread_poll os timeout m = do {
     let m = m\<lparr>mp_skip := 0\<rparr>;
     case mp_active m of
       Some i \<Rightarrow> do {
         s \<leftarrow> socket_at i m;
         if s_status s = SOCKET_READ then Some (Some i, m) else poll_queue os timeout m
       }
     | None \<Rightarrow> poll_queue os timeout m
   }"

definition mread_socket :: "nat \<Rightarrow> 'w mread_pool \<Rightarrow> int option" where
  "mread_socket i m = map_option s_fd (socket_at i m)"

definition mread_client_ip :: "nat \<Rightarrow> 'w mread_pool \<Rightarrow> string option" where
  "mread_client_ip i m = map_option s_ip (socket_at i m)"

definition mread_client_port :: "nat \<Rightarrow> 'w mread_pool \<Rightarrow> int option" where
  "mread_client_port i m = map_option s_port (socket_at i m)"

section \<open>Closing\<close>

definition mread_close_client :: "'w os \<Rightarrow> nat \<Rightarrow> 'w mread_pool \<Rightarrow> 'w mread_pool option" where
  "mread_close_client os i m = do {
     s \<leftarrow> socket_at i m;
     if \<not> alive (s_status s) \<or> s_status s = SOCKET_HALFCLOSE then Some m
     else try_close os i (set_socket i (s\<lparr>s_status := SOCKET_HALFCLOSE\<rparr>) m)
   }"

text \<open>The index may be negative: \<open>ringbuffer_collect\<close> returns \<open>-1\<close> when no block is in use.\<close>

definition force_close_client :: "'w os \<Rightarrow> int \<Rightarrow> 'w mread_pool \<Rightarrow> 'w mread_pool option" where
  "force_close_client os id' m = do {
     c_assert (0 \<le> id');
     s \<leftarrow> socket_at (nat id') m;
     if \<not> alive (s_status s) \<or> s_status s = SOCKET_HALFCLOSE then Some m
     else try_close os (nat id')
       ((set_socket (nat id') (s\<lparr>s_client := [], s_status := SOCKET_HALFCLOSE\<rparr>) m)
         \<lparr>mp_world := free_buffer os (s_client s) (mp_world m)\<rparr>)
   }"

definition close_active :: "'w os \<Rightarrow> nat \<Rightarrow> 'w mread_pool \<Rightarrow> 'w mread_pool option" where
  "close_active os i m = do {
     s \<leftarrow> socket_at i m;
     rb \<leftarrow> ringbuffer_free (s_temp s) (mp_rb m);
     rb \<leftarrow> ringbuffer_free (s_node s) rb;
     force_close_client os (int i) (m\<lparr>mp_rb := rb\<rparr>)
   }"

end
