(* ===== verification/MreadPull.thy ===== *)
theory MreadPull
  imports Mread
begin

text \<open>
  The reading half of \<open>gate/mread.c\<close>: \<open>mread_pull\<close>, which returns a pointer to the next \<open>size\<close> bytes
  of the active connection once they have all arrived, \<open>mread_yield\<close>, which gives back what was
  pulled, and \<open>mread_closed\<close>.  The text in front of the first data of a connection behind a TGW
  proxy is removed by \<open>FindTGWHeader\<close>.
\<close>

section \<open>The proxy header\<close>

definition char_of_byte :: "u8 \<Rightarrow> char" where "char_of_byte b = char_of (unat b)"
definition byte_of_char :: "char \<Rightarrow> u8" where "byte_of_char c = of_char c"

text \<open>The memory behind a pointer into the buffer, to the end of the buffer, as text.\<close>

definition text_from :: "ringbuffer \<Rightarrow> int \<Rightarrow> string" where
  "text_from rb p = map (\<lambda>i. char_of_byte (byte (p + int i) rb)) [0..<nat (4 * int (length (rb_mem rb)) - p)]"

fun strstr :: "string \<Rightarrow> string \<Rightarrow> string option" where
  "strstr n [] = (if n = [] then Some [] else None)"
| "strstr n (c # s) = (if take (length n) (c # s) = n then Some (c # s) else strstr n s)"

text \<open>\<open>memchr(p, '\n', len - (p - buf))\<close>, as an index into \<open>buf\<close>.\<close>

definition find_nl :: "string \<Rightarrow> nat \<Rightarrow> nat \<Rightarrow> nat option" where
  "find_nl buf len p = find (\<lambda>i. buf ! i = CHR 0x0A) [p..<len]"

lemma find_nl_ge: "find_nl buf len p = Some q \<Longrightarrow> p \<le> q \<and> q < len \<and> buf ! q = CHR 0x0A"
  unfolding find_nl_def find_Some_iff by auto

text \<open>The loop that looks for the third line end: the number found and the pointer.\<close>

definition tgw_step :: "string \<Rightarrow> nat \<Rightarrow> nat \<Rightarrow> nat \<Rightarrow> nat \<times> nat option" where
  "tgw_step buf len n p =
     (if buf ! p = CHR 0x0A then (n + 1, Some (p + 1)) else (n, find_nl buf len p))"

lemma tgw_step_grows: "tgw_step buf len n p = (n', Some q) \<Longrightarrow> p < q"
  using find_nl_ge [of buf len p q] by (cases "q = p") (auto simp: tgw_step_def split: if_splits)

function tgw_lines :: "string \<Rightarrow> nat \<Rightarrow> nat \<Rightarrow> nat \<Rightarrow> nat \<times> nat option" where
  "tgw_lines buf len n p =
     (case tgw_step buf len n p of
        (n, None) \<Rightarrow> (n, None)
      | (n, Some q) \<Rightarrow> if n < 3 \<and> q < len then tgw_lines buf len n q else (n, Some q))"
  by auto

termination tgw_lines
  by (relation "measure (\<lambda>(buf, len, n, p). len - p)") (auto dest!: sym [THEN tgw_step_grows])

declare tgw_lines.simps [simp del]

text \<open>\<open>sscanf(addr, "ugw:%15[^: ] %*[:]%d", ip, &port)\<close>: what it assigns.\<close>

definition scan_ugw :: "string \<Rightarrow> string option \<times> i32 option" where
  "scan_ugw a =
     (let a = drop 4 a;
          ip = take 15 (takeWhile (\<lambda>c. c \<noteq> CHR '':'' \<and> c \<noteq> CHR '' '') a);
          r = dropWhile isspace (drop (length ip) a);
          r' = dropWhile (\<lambda>c. c = CHR '':'') r
      in if ip = [] then (None, None)
         else if r' = r then (Some ip, None)
         else (Some ip, map_option fst (scan_d r')))"

definition set_address :: "string option \<times> i32 option \<Rightarrow> socket \<Rightarrow> socket" where
  "set_address a s =
     s\<lparr>s_ip := (case fst a of Some ip \<Rightarrow> ip | None \<Rightarrow> s_ip s),
       s_port := (case snd a of Some p \<Rightarrow> sint p | None \<Rightarrow> s_port s)\<rparr>"

text \<open>
  \<open>FindTGWHeader\<close> on the memory from \<open>buf\<close> on, of which \<open>len\<close> bytes have been read: the length of the
  header, 0 when there is none.  \<open>strstr\<close> reads up to the first NUL, which need not be among the
  \<open>len\<close> bytes: it is \<open>None\<close> when there is none in the whole buffer.
\<close>

definition find_tgw_header :: "string \<Rightarrow> nat \<Rightarrow> socket \<Rightarrow> (nat \<times> socket) option" where
  "find_tgw_header buf len s =
     (if len \<le> 14 \<or> take 14 buf \<noteq> ''tgw_l7_forward'' \<and> take 3 buf \<noteq> ''ugw'' then Some (0, s)
      else (case tgw_lines buf len 0 0 of
              (n, None) \<Rightarrow> Some (0, s)
            | (n, Some p) \<Rightarrow>
                if n < 3 \<or> p = 0 then Some (0, s)
                else do {
                  c_assert (CHR 0x00 \<in> set buf);
                  case strstr ''ugw'' (takeWhile (\<lambda>c. c \<noteq> CHR 0x00) buf) of
                    Some addr \<Rightarrow> Some (p, if take 4 addr = ''ugw:'' then set_address (scan_ugw addr) s else s)
                  | None \<Rightarrow> Some (p, s)
                }))"

section \<open>Pulling\<close>

text \<open>\<open>_ringbuffer_read\<close>: the number of bytes there are, and the pointer when there are \<open>size\<close> in one block.\<close>

definition ringbuffer_read :: "nat \<Rightarrow> int \<Rightarrow> 'w mread_pool \<Rightarrow> (int \<times> int option) option" where
  "ringbuffer_read i sz m = do {
     s \<leftarrow> socket_at i m;
     case s_node s of
       None \<Rightarrow> Some (0, None)
     | Some b \<Rightarrow> RingBuffer.ringbuffer_data (mp_rb m) b sz (mp_skip m)
   }"

text \<open>\<open>skip_all\<close>, which empties the input of a connection that is being closed.\<close>

partial_function (option) skip_all :: "'w os \<Rightarrow> nat \<Rightarrow> 'w mread_pool \<Rightarrow> 'w mread_pool option" where
  "skip_all os i m = do {
     s \<leftarrow> socket_at i m;
     let (r, w) = os_read os (s_fd s) 1024 (mp_world m);
     if r = Done [] then
       skip_all os i ((set_socket i (s\<lparr>s_client := []\<rparr>) m)\<lparr>mp_world := free_buffer os (s_client s) w\<rparr>)
     else case r of
       Done data \<Rightarrow> if length data \<noteq> 1024 then Some (m\<lparr>mp_world := w\<rparr>) else skip_all os i (m\<lparr>mp_world := w\<rparr>)
     | Fail e \<Rightarrow> Some (m\<lparr>mp_world := w\<rparr>)
   }"

text \<open>Allocate, and close other connections until there is room; no block when it is the own one that goes.\<close>

partial_function (option) alloc_collect ::
  "'w os \<Rightarrow> nat \<Rightarrow> int \<Rightarrow> 'w mread_pool \<Rightarrow> (int option \<times> 'w mread_pool) option" where
  "alloc_collect os i sz m = do {
     (blk, rb) \<leftarrow> ringbuffer_alloc sz (mp_rb m);
     let m = m\<lparr>mp_rb := rb\<rparr>;
     case blk of
       Some b \<Rightarrow> Some (Some b, m)
     | None \<Rightarrow> do {
         (collect_id, rb) \<leftarrow> ringbuffer_collect (mp_rb m);
         m \<leftarrow> force_close_client os collect_id (m\<lparr>mp_rb := rb\<rparr>);
         if int i = collect_id then Some (None, m) else alloc_collect os i sz m
       }
   }"

definition link_node :: "nat \<Rightarrow> int \<Rightarrow> 'w mread_pool \<Rightarrow> 'w mread_pool option" where
  "link_node i blk m = do {
     s \<leftarrow> socket_at i m;
     case s_node s of
       Some b \<Rightarrow> do { rb \<leftarrow> ringbuffer_link b blk (mp_rb m); Some (m\<lparr>mp_rb := rb\<rparr>) }
     | None \<Rightarrow> do {
         rb \<leftarrow> put (blk + 8) (int i) (mp_rb m);
         Some (set_socket i (s\<lparr>s_node := Some blk\<rparr>) (m\<lparr>mp_rb := rb\<rparr>))
       }
   }"

definition shrink_block :: "int \<Rightarrow> int \<Rightarrow> 'w mread_pool \<Rightarrow> 'w mread_pool option" where
  "shrink_block blk sz m = do { rb \<leftarrow> ringbuffer_shrink blk sz (mp_rb m); Some (m\<lparr>mp_rb := rb\<rparr>) }"

definition set_status :: "nat \<Rightarrow> socket_status \<Rightarrow> 'w mread_pool \<Rightarrow> 'w mread_pool option" where
  "set_status i st m = do { s \<leftarrow> socket_at i m; Some (set_socket i (s\<lparr>s_status := st\<rparr>) m) }"

partial_function (option) read_retry :: "'w os \<Rightarrow> int \<Rightarrow> int \<Rightarrow> 'w \<Rightarrow> (u8 list sysret \<times> 'w) option" where
  "read_retry os fd sz w =
     (let (r, w) = os_read os fd sz w
      in if r = Fail EINTR then read_retry os fd sz w else Some (r, w))"

text \<open>
  The proxy header in front of the \<open>bytes\<close> at \<open>buffer\<close>: the number of bytes that are left, moved to
  the front (the two regions of the \<open>memcpy\<close> may overlap; it copies from the front), and whether
  a header was found.
\<close>

definition strip_header :: "nat \<Rightarrow> int \<Rightarrow> nat \<Rightarrow> 'w mread_pool \<Rightarrow> (nat \<times> bool \<times> 'w mread_pool) option" where
  "strip_header i buffer bytes m = do {
     s \<leftarrow> socket_at i m;
     if s_status s = SOCKET_FIRST_POLLIN \<and> 0 < bytes then do {
       (httplen, s) \<leftarrow> find_tgw_header (text_from (mp_rb m) buffer) bytes s;
       let m = set_socket i s m;
       if httplen \<noteq> 0 then do {
         rb \<leftarrow> memcpy buffer (buffer + int httplen) (bytes - httplen) (mp_rb m);
         Some (bytes - httplen, True, m\<lparr>mp_rb := rb\<rparr>)
       } else Some (bytes, False, m)
     } else Some (bytes, False, m)
   }"

text \<open>
  One \<open>read\<close> into the block \<open>blk\<close> of \<open>rd\<close> bytes, \<open>sz\<close> of which are missing: true when they are there,
  and the block is cut down to what was read.
\<close>

definition pull_read :: "'w os \<Rightarrow> nat \<Rightarrow> int \<Rightarrow> int \<Rightarrow> int \<Rightarrow> 'w mread_pool \<Rightarrow> (bool \<times> 'w mread_pool) option" where
  "pull_read os i blk rd sz m = do {
     s \<leftarrow> socket_at i m;
     (r, w) \<leftarrow> read_retry os (s_fd s) rd (mp_world m);
     let m = m\<lparr>mp_world := w\<rparr>;
     case r of
       Done data \<Rightarrow> do {
         rb \<leftarrow> store_bytes (blk + HDR) data (mp_rb m);
         (bytes, header, m) \<leftarrow> strip_header i (blk + HDR) (length data) (m\<lparr>mp_rb := rb\<rparr>);
         if header \<and> bytes = 0 then do { m \<leftarrow> set_status i SOCKET_SUSPEND m; Some (False, m) }
         else if 0 < bytes then do {
           m \<leftarrow> shrink_block blk (int bytes) m;
           if int bytes < sz then do {
             m \<leftarrow> link_node i blk m;
             m \<leftarrow> set_status i SOCKET_SUSPEND m;
             Some (False, m)
           } else do { m \<leftarrow> set_status i SOCKET_READ m; Some (True, m) }
         } else do {
           m \<leftarrow> shrink_block blk 0 m;
           m \<leftarrow> close_active os i m;
           Some (False, m)
         }
       }
     | Fail e \<Rightarrow> do {
         m \<leftarrow> shrink_block blk 0 m;
         m \<leftarrow> (if e = EWOULDBLOCK then set_status i SOCKET_SUSPEND m else close_active os i m);
         Some (False, m)
       }
   }"

text \<open>The bytes are there: a pointer to them, or to a copy of them when they are in several blocks.\<close>

definition pull_data :: "'w os \<Rightarrow> nat \<Rightarrow> int \<Rightarrow> 'w mread_pool \<Rightarrow> (int option \<times> 'w mread_pool) option" where
  "pull_data os i sz m = do {
     s \<leftarrow> socket_at i m;
     node \<leftarrow> s_node s;
     (real_rd, ret) \<leftarrow> RingBuffer.ringbuffer_data (mp_rb m) node sz (mp_skip m);
     case ret of
       Some p \<Rightarrow> Some (Some p, m\<lparr>mp_skip := wrap (mp_skip m + sz)\<rparr>)
     | None \<Rightarrow> do {
         c_assert (real_rd = sz);
         (temp, m) \<leftarrow> alloc_collect os i sz m;
         case temp of
           None \<Rightarrow> Some (None, m)
         | Some t \<Rightarrow> do {
             rb \<leftarrow> put (t + 8) (int i) (mp_rb m);
             s \<leftarrow> socket_at i m;
             rb \<leftarrow> (case s_temp s of Some t' \<Rightarrow> ringbuffer_link t t' rb | None \<Rightarrow> Some rb);
             node \<leftarrow> s_node s;
             (p, rb) \<leftarrow> ringbuffer_copy node (mp_skip m) t rb;
             Some (Some p, (set_socket i (s\<lparr>s_temp := Some t\<rparr>) m)
                            \<lparr>mp_rb := rb, mp_skip := wrap (mp_skip m + sz)\<rparr>)
           }
       }
   }"

definition mread_pull :: "'w os \<Rightarrow> int \<Rightarrow> 'w mread_pool \<Rightarrow> (int option \<times> 'w mread_pool) option" where
  "mread_pull os sz m = (case mp_active m of
     None \<Rightarrow> Some (None, m)
   | Some i \<Rightarrow> do {
       s \<leftarrow> socket_at i m;
       (rd_size, buffer) \<leftarrow> ringbuffer_read i sz m;
       case buffer of
         Some p \<Rightarrow> Some (Some p, m\<lparr>mp_skip := wrap (mp_skip m + sz)\<rparr>)
       | None \<Rightarrow>
           if s_status s = SOCKET_READ then do { m \<leftarrow> set_status i SOCKET_SUSPEND m; Some (None, m) }
           else if s_status s \<in> {SOCKET_CLOSED, SOCKET_SUSPEND} then Some (None, m)
           else if s_status s = SOCKET_HALFCLOSE then do { m \<leftarrow> skip_all os i m; Some (None, m) }
           else do {
             c_assert (s_status s \<in> {SOCKET_POLLIN, SOCKET_FIRST_POLLIN});
             let missing = wrap (sz - rd_size);
             let rd = (if READBLOCKSIZE < missing then missing else READBLOCKSIZE);
             (blk, m) \<leftarrow> alloc_collect os i rd m;
             case blk of
               None \<Rightarrow> Some (None, m)
             | Some blk \<Rightarrow> do {
                 (ready, m) \<leftarrow> pull_read os i blk rd missing m;
                 if ready then do { m \<leftarrow> link_node i blk m; pull_data os i sz m } else Some (None, m)
               }
           }
     })"

section \<open>Giving back\<close>

definition mread_yield :: "'w mread_pool \<Rightarrow> 'w mread_pool option" where
  "mread_yield m = (case mp_active m of
     None \<Rightarrow> Some m
   | Some i \<Rightarrow> do {
       s \<leftarrow> socket_at i m;
       rb \<leftarrow> ringbuffer_free (s_temp s) (mp_rb m);
       let s = s\<lparr>s_temp := None\<rparr>;
       if s_status s = SOCKET_CLOSED \<and> s_node s = None then do {
         let s = s\<lparr>s_status := SOCKET_INVALID,
                   s_fd := (case mp_free_socket m of Some j \<Rightarrow> int j | None \<Rightarrow> -1)\<rparr>;
         Some ((set_socket i s m)\<lparr>mp_rb := rb, mp_closed := mp_closed m - 1, mp_free_socket := Some i,
                                   mp_skip := 0, mp_active := None\<rparr>)
       } else do {
         (node, rb) \<leftarrow> (case s_node s of
             Some b \<Rightarrow> ringbuffer_yield b (mp_skip m) rb
           | None \<Rightarrow> Some (None, rb));
         Some ((set_socket i (s\<lparr>s_node := node\<rparr>) m)
                \<lparr>mp_rb := rb, mp_skip := 0, mp_active := (if node = None then None else Some i)\<rparr>)
       }
     })"

definition mread_closed :: "'w mread_pool \<Rightarrow> (bool \<times> 'w mread_pool) option" where
  "mread_closed m = (case mp_active m of
     None \<Rightarrow> Some (False, m)
   | Some i \<Rightarrow> do {
       s \<leftarrow> socket_at i m;
       if s_status s = SOCKET_CLOSED \<and> s_node s = None then do {
         m \<leftarrow> mread_yield m;
         Some (True, m)
       } else Some (False, m)
     })"

end
