(* ===== verification/MreadInv.thy ===== *)
theory MreadInv
  imports MreadPull
begin

text \<open>
  The invariant of the connection pool of \<open>gate/mread.c\<close>: the free list runs through unused slots only,
  \<open>closed\<close> counts the connections that are closed but not yet given back, and a slot that is not
  alive has nothing queued and no block in the buffer.  Every operation keeps it; what the ring
  buffer and the system answer does not matter.
\<close>

section \<open>The invariant\<close>

definition idle :: "socket \<Rightarrow> bool" where
  "idle s \<longleftrightarrow> s_client s = [] \<and> s_node s = None \<and> s_temp s = None"

abbreviation next_free :: "socket \<Rightarrow> nat option" where
  "next_free s \<equiv> (if s_fd s < 0 then None else Some (nat (s_fd s)))"

fun free_list :: "socket list \<Rightarrow> nat option \<Rightarrow> nat list \<Rightarrow> bool" where
  "free_list ss h [] \<longleftrightarrow> h = None"
| "free_list ss h (i # is) \<longleftrightarrow> h = Some i \<and> i < length ss \<and> s_status (ss ! i) = SOCKET_INVALID \<and>
     free_list ss (next_free (ss ! i)) is"

definition count_closed :: "socket list \<Rightarrow> int" where
  "count_closed ss = int (length (filter (\<lambda>s. s_status s = SOCKET_CLOSED) ss))"

definition pool_ok :: "'w mread_pool \<Rightarrow> bool" where
  "pool_ok m \<longleftrightarrow> length (mp_sockets m) = mp_max_connection m \<and>
     (\<exists>fs. free_list (mp_sockets m) (mp_free_socket m) fs \<and> distinct fs) \<and>
     mp_closed m = count_closed (mp_sockets m) \<and>
     (\<forall>s \<in> set (mp_sockets m). \<not> alive (s_status s) \<longrightarrow> idle s) \<and>
     (\<forall>i. mp_active m = Some i \<longrightarrow> i < mp_max_connection m \<and> s_status (mp_sockets m ! i) \<noteq> SOCKET_INVALID)"

lemma filter_update:
  "i < length xs \<Longrightarrow> int (length (filter P (xs[i := x]))) =
     int (length (filter P xs)) - (if P (xs ! i) then 1 else 0) + (if P x then 1 else 0)"
proof (induction xs arbitrary: i)
  case (Cons y ys)
  show ?case
  proof (cases i)
    case (Suc j)
    then show ?thesis using Cons.IH [of j] Cons.prems by (auto split: if_splits)
  qed simp
qed simp

lemma count_closed_update:
  "i < length ss \<Longrightarrow> count_closed (ss[i := s]) = count_closed ss
     - (if s_status (ss ! i) = SOCKET_CLOSED then 1 else 0) + (if s_status s = SOCKET_CLOSED then 1 else 0)"
  unfolding count_closed_def by (rule filter_update)

lemma free_list_update: "free_list ss h is \<Longrightarrow> i \<notin> set is \<Longrightarrow> free_list (ss[i := s]) h is"
  by (induction "is" arbitrary: h) auto

lemma free_list_invalid: "free_list ss h is \<Longrightarrow> i \<in> set is \<Longrightarrow> i < length ss \<and> s_status (ss ! i) = SOCKET_INVALID"
  by (induction "is" arbitrary: h) auto

lemma alive_iff: "alive st \<longleftrightarrow> st \<noteq> SOCKET_INVALID \<and> st \<noteq> SOCKET_CLOSED"
  by (cases st) auto

section \<open>Changing one slot\<close>

lemma socket_at_Some: "socket_at i m = Some s \<longleftrightarrow> i < length (mp_sockets m) \<and> s = mp_sockets m ! i"
  by (auto simp: socket_at_def)

lemma set_socket_fields [simp]:
  "mp_sockets (set_socket i s m) = (mp_sockets m)[i := s]"
  "mp_max_connection (set_socket i s m) = mp_max_connection m"
  "mp_closed (set_socket i s m) = mp_closed m"
  "mp_free_socket (set_socket i s m) = mp_free_socket m"
  "mp_active (set_socket i s m) = mp_active m"
  "mp_ev (set_socket i s m) = mp_ev m" "mp_queue_head (set_socket i s m) = mp_queue_head m"
  "mp_world (set_socket i s m) = mp_world m" "mp_rb (set_socket i s m) = mp_rb m" "mp_skip (set_socket i s m) = mp_skip m"
  by (simp_all add: set_socket_def)

lemma epoll_ctl_fields [simp]:
  "mp_sockets (snd (epoll_ctl os c fd m)) = mp_sockets m"
  "mp_max_connection (snd (epoll_ctl os c fd m)) = mp_max_connection m"
  "mp_closed (snd (epoll_ctl os c fd m)) = mp_closed m"
  "mp_free_socket (snd (epoll_ctl os c fd m)) = mp_free_socket m"
  "mp_active (snd (epoll_ctl os c fd m)) = mp_active m"
  "mp_ev (snd (epoll_ctl os c fd m)) = mp_ev m" "mp_queue_head (snd (epoll_ctl os c fd m)) = mp_queue_head m"
  "mp_rb (snd (epoll_ctl os c fd m)) = mp_rb m" "mp_skip (snd (epoll_ctl os c fd m)) = mp_skip m"
  by (simp_all add: epoll_ctl_def split_beta)

text \<open>The invariant only looks at five fields.\<close>

lemma pool_ok_cong:
  "mp_sockets m' = mp_sockets m \<Longrightarrow> mp_max_connection m' = mp_max_connection m \<Longrightarrow> mp_closed m' = mp_closed m \<Longrightarrow>
   mp_free_socket m' = mp_free_socket m \<Longrightarrow> mp_active m' = mp_active m \<or> mp_active m' = None \<Longrightarrow> pool_ok m \<Longrightarrow> pool_ok m'"
  unfolding pool_ok_def by auto

lemma pool_ok_ring [simp]:
  "pool_ok (m\<lparr>mp_world := w\<rparr>) = pool_ok m" "pool_ok (m\<lparr>mp_rb := rb\<rparr>) = pool_ok m"
  "pool_ok (m\<lparr>mp_skip := k\<rparr>) = pool_ok m" "pool_ok (m\<lparr>mp_queue_head := q\<rparr>) = pool_ok m" "pool_ok (m\<lparr>mp_ev := e\<rparr>) = pool_ok m"
  unfolding pool_ok_def by simp_all

lemma pool_ok_epoll [simp]: "pool_ok (snd (epoll_ctl os c fd m)) = pool_ok m"
  by (simp add: epoll_ctl_def split_beta)

lemma pool_ok_inactive: "pool_ok m \<Longrightarrow> pool_ok (m\<lparr>mp_active := None\<rparr>)"
  by (erule pool_ok_cong [rotated -1]) simp_all

lemma pool_ok_active:
  "pool_ok m \<Longrightarrow> i < mp_max_connection m \<Longrightarrow> s_status (mp_sockets m ! i) \<noteq> SOCKET_INVALID \<Longrightarrow> pool_ok (m\<lparr>mp_active := Some i\<rparr>)"
  unfolding pool_ok_def by auto

text \<open>A slot in use may change in any way, as long as it stays in use and \<open>closed\<close> follows.\<close>

lemma pool_ok_set:
  assumes ok: "pool_ok m" and i: "i < length (mp_sockets m)" and old: "s_status (mp_sockets m ! i) \<noteq> SOCKET_INVALID"
    and new: "s_status s \<noteq> SOCKET_INVALID" "\<not> alive (s_status s) \<Longrightarrow> idle s"
    and closed: "c = mp_closed m - (if s_status (mp_sockets m ! i) = SOCKET_CLOSED then 1 else 0)
       + (if s_status s = SOCKET_CLOSED then 1 else 0)"
  shows "pool_ok ((set_socket i s m)\<lparr>mp_closed := c\<rparr>)"
proof -
  obtain fs where fs: "free_list (mp_sockets m) (mp_free_socket m) fs" "distinct fs" using ok by (auto simp: pool_ok_def)
  have "i \<notin> set fs" using free_list_invalid [OF fs(1)] old by blast
  then have "free_list ((mp_sockets m)[i := s]) (mp_free_socket m) fs" by (rule free_list_update [OF fs(1)])
  moreover have "\<forall>s' \<in> set ((mp_sockets m)[i := s]). \<not> alive (s_status s') \<longrightarrow> idle s'"
    using ok new(2) set_update_subset_insert [of "mp_sockets m" i s] by (auto simp: pool_ok_def)
  ultimately show ?thesis
    using ok i new(1) fs(2) count_closed_update [OF i, of s] closed by (auto simp: pool_ok_def nth_list_update)
qed

lemma pool_ok_set_same:
  assumes "pool_ok m" "i < length (mp_sockets m)" "s_status (mp_sockets m ! i) \<noteq> SOCKET_INVALID"
    and "s_status s \<noteq> SOCKET_INVALID" "\<not> alive (s_status s) \<Longrightarrow> idle s"
    and "s_status s = SOCKET_CLOSED \<longleftrightarrow> s_status (mp_sockets m ! i) = SOCKET_CLOSED"
  shows "pool_ok (set_socket i s m)"
  using pool_ok_set [OF assms(1-5), of "mp_closed m"] assms(6) by (simp add: set_socket_def)

lemma pool_ok_idle: "pool_ok m \<Longrightarrow> i < length (mp_sockets m) \<Longrightarrow> \<not> alive (s_status (mp_sockets m ! i)) \<Longrightarrow> idle (mp_sockets m ! i)"
  by (auto simp: pool_ok_def)

section \<open>Closing\<close>

text \<open>What an operation on one slot leaves alone.\<close>

definition touches :: "nat \<Rightarrow> 'w mread_pool \<Rightarrow> 'w mread_pool \<Rightarrow> bool" where
  "touches i m m' \<longleftrightarrow> length (mp_sockets m') = length (mp_sockets m) \<and> mp_max_connection m' = mp_max_connection m \<and>
     mp_active m' = mp_active m \<and> mp_free_socket m' = mp_free_socket m \<and>
     mp_ev m' = mp_ev m \<and> mp_queue_head m' = mp_queue_head m \<and> mp_rb m' = mp_rb m \<and>
     (\<forall>j. j \<noteq> i \<longrightarrow> mp_sockets m' ! j = mp_sockets m ! j)"

lemma touches_refl [simp]: "touches i m m"
  by (simp add: touches_def)

lemma touches_trans: "touches i m m' \<Longrightarrow> touches i m' m'' \<Longrightarrow> touches i m m''"
  by (simp add: touches_def)

lemma touches_set: "touches i m (set_socket i s m)"
  by (simp add: touches_def)

lemma turn_off_ok:
  assumes "pool_ok m" "turn_off os i m = Some m'"
  shows "pool_ok m'" "touches i m m'" "\<exists>w. mp_sockets m' ! i = (mp_sockets m ! i)\<lparr>s_enablewrite := w\<rparr>"
    "mp_closed m' = mp_closed m"
proof -
  have i: "i < length (mp_sockets m)" using assms(2) by (auto simp: turn_off_def socket_at_Some bind_eq_Some_conv)
  let ?s = "mp_sockets m ! i"
  have s: "socket_at i m = Some ?s" using i by (simp add: socket_at_Some)
  have "pool_ok m' \<and> touches i m m' \<and> (\<exists>w. mp_sockets m' ! i = ?s\<lparr>s_enablewrite := w\<rparr>) \<and> mp_closed m' = mp_closed m"
  proof (cases "\<not> alive (s_status ?s) \<or> \<not> s_enablewrite ?s")
    case True
    then have "m' = m" using assms(2) s by (simp add: turn_off_def)
    then show ?thesis using assms(1) by (auto intro!: exI [of _ "s_enablewrite ?s"])
  next
    case False
    then have m': "m' = set_socket i (?s\<lparr>s_enablewrite := False\<rparr>) (snd (epoll_ctl os (Ctl_Mod (Client i) False) (s_fd ?s) m))"
      using assms(2) s by (simp add: turn_off_def)
    have "pool_ok m'" unfolding m' using assms(1) i False by (intro pool_ok_set_same) (simp_all add: alive_iff)
    then show ?thesis using i by (auto simp: m' touches_def)
  qed
  then show "pool_ok m'" "touches i m m'" "\<exists>w. mp_sockets m' ! i = ?s\<lparr>s_enablewrite := w\<rparr>" "mp_closed m' = mp_closed m"
    by simp_all
qed

lemma turn_off_returns: "i < length (mp_sockets m) \<Longrightarrow> \<exists>m'. turn_off os i m = Some m'"
  by (simp add: turn_off_def socket_at_def)

lemma turn_on_ok:
  assumes "pool_ok m" "turn_on os i m = Some m'"
  shows "pool_ok m'" "touches i m m'" "\<exists>w. mp_sockets m' ! i = (mp_sockets m ! i)\<lparr>s_enablewrite := w\<rparr>"
proof -
  have i: "i < length (mp_sockets m)" using assms(2) by (auto simp: turn_on_def socket_at_Some bind_eq_Some_conv)
  let ?s = "mp_sockets m ! i"
  have s: "socket_at i m = Some ?s" using i by (simp add: socket_at_Some)
  have "pool_ok m' \<and> touches i m m' \<and> (\<exists>w. mp_sockets m' ! i = ?s\<lparr>s_enablewrite := w\<rparr>)"
  proof (cases "\<not> alive (s_status ?s) \<or> s_enablewrite ?s")
    case True
    then have "m' = m" using assms(2) s by (simp add: turn_on_def)
    then show ?thesis using assms(1) by (auto intro!: exI [of _ "s_enablewrite ?s"])
  next
    case False
    then have m': "m' = set_socket i (?s\<lparr>s_enablewrite := True\<rparr>) (snd (epoll_ctl os (Ctl_Mod (Client i) True) (s_fd ?s) m))"
      using assms(2) s by (simp add: turn_on_def)
    have "pool_ok m'" unfolding m' using assms(1) i False by (intro pool_ok_set_same) (simp_all add: alive_iff)
    then show ?thesis using i by (auto simp: m' touches_def)
  qed
  then show "pool_ok m'" "touches i m m'" "\<exists>w. mp_sockets m' ! i = ?s\<lparr>s_enablewrite := w\<rparr>" by simp_all
qed

text \<open>\<open>try_close\<close> closes a connection that is half closed and has nothing left to send, and counts it.\<close>

lemma try_close_ok:
  assumes ok: "pool_ok m" and run: "try_close os i m = Some m'"
  shows "pool_ok m'" "touches i m m'"
    "if s_status (mp_sockets m ! i) = SOCKET_HALFCLOSE \<and> s_client (mp_sockets m ! i) = []
     then s_status (mp_sockets m' ! i) = SOCKET_CLOSED \<and> idle (mp_sockets m' ! i)
     else \<exists>w. mp_sockets m' ! i = (mp_sockets m ! i)\<lparr>s_enablewrite := w\<rparr>"
proof -
  let ?s = "mp_sockets m ! i"
  have i: "i < length (mp_sockets m)" using run by (auto simp: try_close_def socket_at_Some bind_eq_Some_conv)
  have s: "socket_at i m = Some ?s" using i by (simp add: socket_at_Some)
  obtain m1 where m1: "(if s_client ?s = [] then turn_off os i m else Some m) = Some m1"
    using turn_off_returns [OF i, of os] by (cases "s_client ?s = []") auto
  have t1: "pool_ok m1 \<and> touches i m m1 \<and> (\<exists>w. mp_sockets m1 ! i = ?s\<lparr>s_enablewrite := w\<rparr>)"
  proof (cases "s_client ?s = []")
    case True
    then have "turn_off os i m = Some m1" using m1 by simp
    then show ?thesis using turn_off_ok [OF ok] by blast
  next
    case False
    then show ?thesis using m1 ok by (auto intro!: exI [of _ "s_enablewrite ?s"])
  qed
  then obtain w where w: "mp_sockets m1 ! i = ?s\<lparr>s_enablewrite := w\<rparr>" by blast
  have i1: "i < length (mp_sockets m1)" using t1 i by (simp add: touches_def)
  then have s1: "socket_at i m1 = Some (?s\<lparr>s_enablewrite := w\<rparr>)" using w by (simp add: socket_at_Some)
  have "pool_ok m' \<and> touches i m m' \<and>
    (if s_status ?s = SOCKET_HALFCLOSE \<and> s_client ?s = []
     then s_status (mp_sockets m' ! i) = SOCKET_CLOSED \<and> idle (mp_sockets m' ! i)
     else \<exists>w. mp_sockets m' ! i = ?s\<lparr>s_enablewrite := w\<rparr>)"
  proof (cases "s_status ?s = SOCKET_HALFCLOSE \<and> s_client ?s = []")
    case True
    let ?c = "?s\<lparr>s_enablewrite := w, s_status := SOCKET_CLOSED, s_node := None, s_temp := None\<rparr>"
    define m2 where "m2 = snd (epoll_ctl os Ctl_Del (s_fd ?s) (set_socket i ?c m1))"
    have m': "m' = m2\<lparr>mp_world := os_close os (s_fd ?s) (mp_world m2), mp_closed := mp_closed m2 + 1\<rparr>"
      using run s m1 s1 True by (simp add: try_close_def m2_def Let_def)
    have "pool_ok ((set_socket i ?c m1)\<lparr>mp_closed := mp_closed m1 + 1\<rparr>)"
      using t1 i1 w True by (intro pool_ok_set) (simp_all add: idle_def)
    then have "pool_ok m'"
      by (rule pool_ok_cong [rotated -1]) (simp_all add: m' m2_def)
    moreover have "touches i m m'" using t1 by (simp add: m' m2_def touches_def)
    moreover have "mp_sockets m' ! i = ?c" using i1 by (simp add: m' m2_def)
    ultimately show ?thesis using True by (simp add: idle_def)
  next
    case False
    then have "m' = m1" using run s m1 s1 by (auto simp: try_close_def split: if_splits)
    then show ?thesis using t1 False by (simp, metis)
  qed
  then show "pool_ok m'" "touches i m m'"
    "if s_status ?s = SOCKET_HALFCLOSE \<and> s_client ?s = []
     then s_status (mp_sockets m' ! i) = SOCKET_CLOSED \<and> idle (mp_sockets m' ! i)
     else \<exists>w. mp_sockets m' ! i = ?s\<lparr>s_enablewrite := w\<rparr>"
    by simp_all
qed

lemma try_close_returns: "i < length (mp_sockets m) \<Longrightarrow> pool_ok m \<Longrightarrow> \<exists>m'. try_close os i m = Some m'"
proof -
  assume i: "i < length (mp_sockets m)" and ok: "pool_ok m"
  obtain m1 where m1: "turn_off os i m = Some m1" using turn_off_returns [OF i] by blast
  then have "i < length (mp_sockets m1)" using turn_off_ok(2) [OF ok m1] i by (simp add: touches_def)
  then show ?thesis using m1 i by (simp add: try_close_def socket_at_def Let_def)
qed

section \<open>The operations\<close>

lemma set_socket_self: "set_socket i (mp_sockets m ! i) m = m"
  by (simp add: set_socket_def)

lemma mread_close_client_ok:
  assumes ok: "pool_ok m" and run: "mread_close_client os i m = Some m'"
  shows "pool_ok m'" "touches i m m'"
proof -
  let ?s = "mp_sockets m ! i"
  have i: "i < length (mp_sockets m)" using run by (auto simp: mread_close_client_def socket_at_Some bind_eq_Some_conv)
  have "pool_ok m' \<and> touches i m m'"
  proof (cases "\<not> alive (s_status ?s) \<or> s_status ?s = SOCKET_HALFCLOSE")
    case True
    then show ?thesis using run ok i by (simp add: mread_close_client_def socket_at_def)
  next
    case False
    let ?m = "set_socket i (?s\<lparr>s_status := SOCKET_HALFCLOSE\<rparr>) m"
    have "pool_ok ?m" using ok i False by (intro pool_ok_set_same) (simp_all add: alive_iff)
    moreover have "try_close os i ?m = Some m'" using run i False by (simp add: mread_close_client_def socket_at_def)
    ultimately show ?thesis using try_close_ok(1,2) touches_trans [OF touches_set] by blast
  qed
  then show "pool_ok m'" "touches i m m'" by simp_all
qed

lemma force_close_client_ok:
  assumes ok: "pool_ok m" and run: "force_close_client os k m = Some m'"
  shows "pool_ok m'" "touches (nat k) m m'"
proof -
  let ?i = "nat k" let ?s = "mp_sockets m ! ?i"
  have i: "0 \<le> k" "?i < length (mp_sockets m)"
    using run by (auto simp: force_close_client_def socket_at_Some bind_eq_Some_conv)
  have "pool_ok m' \<and> touches ?i m m'"
  proof (cases "\<not> alive (s_status ?s) \<or> s_status ?s = SOCKET_HALFCLOSE")
    case True
    then show ?thesis using run ok i by (simp add: force_close_client_def socket_at_def)
  next
    case False
    let ?m = "(set_socket ?i (?s\<lparr>s_client := [], s_status := SOCKET_HALFCLOSE\<rparr>) m)
                \<lparr>mp_world := free_buffer os (s_client ?s) (mp_world m)\<rparr>"
    have "pool_ok (set_socket ?i (?s\<lparr>s_client := [], s_status := SOCKET_HALFCLOSE\<rparr>) m)"
      using ok i False by (intro pool_ok_set_same) (simp_all add: alive_iff)
    then have "pool_ok ?m" by simp
    moreover have "try_close os ?i ?m = Some m'" using run i False by (simp add: force_close_client_def socket_at_def)
    moreover have "touches ?i m ?m" by (simp add: touches_def)
    ultimately show ?thesis using try_close_ok(1,2) touches_trans by blast
  qed
  then show "pool_ok m'" "touches ?i m m'" by simp_all
qed

lemma mread_push_phases:
  assumes run: "mread_push os i b p m = Some m'" and i: "i < length (mp_sockets m)" and s: "s = mp_sockets m ! i"
    and st: "s_status s \<notin> {SOCKET_INVALID, SOCKET_CLOSED, SOCKET_HALFCLOSE}"
  obtains r w where "(if s_client s = [] then push_write os (s_fd s) b (mp_world m) else Some (Pending b, mp_world m)) = Some (r, w)"
    "(case r of Written \<Rightarrow> Some (m\<lparr>mp_world := os_free os p w\<rparr>)
       | Broken \<Rightarrow> try_close os i (set_socket i (s\<lparr>s_status := SOCKET_HALFCLOSE\<rparr>) (m\<lparr>mp_world := w\<rparr>))
       | Pending b \<Rightarrow> turn_on os i (set_socket i (s\<lparr>s_client := client_push b p (s_client s)\<rparr>) (m\<lparr>mp_world := w\<rparr>))) = Some m'"
proof -
  obtain r w where r: "(if s_client s = [] then push_write os (s_fd s) b (mp_world m) else Some (Pending b, mp_world m)) = Some (r, w)"
    "(let m = m\<lparr>mp_world := w\<rparr> in case r of Written \<Rightarrow> Some (m\<lparr>mp_world := os_free os p (mp_world m)\<rparr>)
       | Broken \<Rightarrow> try_close os i (set_socket i (s\<lparr>s_status := SOCKET_HALFCLOSE\<rparr>) m)
       | Pending b \<Rightarrow> turn_on os i (set_socket i (s\<lparr>s_client := client_push b p (s_client s)\<rparr>) m)) = Some m'"
    using run i st s unfolding mread_push_def by (auto simp: socket_at_def bind_eq_Some_conv simp del: Let_def)
  then show ?thesis using that by (cases r) simp_all
qed

lemma mread_push_ok:
  assumes ok: "pool_ok m" and run: "mread_push os i b p m = Some m'"
  shows "pool_ok m'" "touches i m m'"
proof -
  let ?s = "mp_sockets m ! i"
  have i: "i < length (mp_sockets m)" using run by (auto simp: mread_push_def socket_at_Some bind_eq_Some_conv)
  then have s: "socket_at i m = Some ?s" by (simp add: socket_at_Some)
  have "pool_ok m' \<and> touches i m m'"
  proof (cases "s_status ?s \<in> {SOCKET_INVALID, SOCKET_CLOSED, SOCKET_HALFCLOSE}")
    case True
    then have "m' = m\<lparr>mp_world := os_free os p (mp_world m)\<rparr>" using run s by (simp add: mread_push_def)
    then show ?thesis using ok by (simp add: touches_def)
  next
    case False
    then have al: "alive (s_status ?s)" "s_status ?s \<noteq> SOCKET_INVALID" "s_status ?s \<noteq> SOCKET_CLOSED" by (auto simp: alive_iff)
    obtain r w where rest: "(case r of Written \<Rightarrow> Some (m\<lparr>mp_world := os_free os p w\<rparr>)
       | Broken \<Rightarrow> try_close os i (set_socket i (?s\<lparr>s_status := SOCKET_HALFCLOSE\<rparr>) (m\<lparr>mp_world := w\<rparr>))
       | Pending b \<Rightarrow> turn_on os i (set_socket i (?s\<lparr>s_client := client_push b p (s_client ?s)\<rparr>) (m\<lparr>mp_world := w\<rparr>))) = Some m'"
      using mread_push_phases [OF run i refl False] by metis
    have t: "touches i m (set_socket i s' (m\<lparr>mp_world := w\<rparr>))" for s' by (simp add: touches_def)
    show ?thesis
    proof (cases r)
      case Written
      then show ?thesis using rest ok by (auto simp: touches_def)
    next
      case (Pending b')
      have "pool_ok (set_socket i (?s\<lparr>s_client := client_push b' p (s_client ?s)\<rparr>) (m\<lparr>mp_world := w\<rparr>))"
        using ok i al by (intro pool_ok_set_same) simp_all
      then show ?thesis using rest Pending turn_on_ok(1,2) touches_trans [OF t] by (simp, blast)
    next
      case Broken
      have "pool_ok (set_socket i (?s\<lparr>s_status := SOCKET_HALFCLOSE\<rparr>) (m\<lparr>mp_world := w\<rparr>))"
        using ok i al by (intro pool_ok_set_same) simp_all
      then show ?thesis using rest Broken try_close_ok(1,2) touches_trans [OF t] by (simp, blast)
    qed
  qed
  then show "pool_ok m'" "touches i m m'" by simp_all
qed

lemma client_send_nil: "client_send os fd c w = Some (c', w') \<Longrightarrow> c = [] \<Longrightarrow> c' = []"
  by simp

lemma write_event_ok:
  assumes ok: "pool_ok m" and run: "write_event os i m = Some m'" and st: "s_status (mp_sockets m ! i) \<noteq> SOCKET_CLOSED"
  shows "pool_ok m'" "touches i m m'"
proof -
  let ?s = "mp_sockets m ! i"
  have i: "i < length (mp_sockets m)" using run by (auto simp: write_event_def socket_at_Some bind_eq_Some_conv)
  obtain c w where c: "client_send os (s_fd ?s) (s_client ?s) (mp_world m) = Some (c, w)"
    and run': "try_close os i ((set_socket i (?s\<lparr>s_client := c\<rparr>) m)\<lparr>mp_world := w\<rparr>) = Some m'"
    using run i by (auto simp: write_event_def socket_at_def bind_eq_Some_conv)
  let ?m = "(set_socket i (?s\<lparr>s_client := c\<rparr>) m)\<lparr>mp_world := w\<rparr>"
  have "pool_ok ?m"
  proof (cases "s_status ?s = SOCKET_INVALID")
    case True
    then have "s_client ?s = []" using pool_ok_idle [OF ok i] by (simp add: idle_def)
    then have "?s\<lparr>s_client := c\<rparr> = ?s" using c by simp
    then show ?thesis using ok by (simp add: set_socket_self)
  next
    case False
    then have "pool_ok (set_socket i (?s\<lparr>s_client := c\<rparr>) m)"
      using ok i st by (intro pool_ok_set_same) (simp_all add: alive_iff)
    then show ?thesis by simp
  qed
  moreover have "touches i m ?m" by (simp add: touches_def)
  ultimately show "pool_ok m'" "touches i m m'" using try_close_ok(1,2) [OF _ run'] touches_trans by blast+
qed

section \<open>Polling\<close>

lemma read_events_ok:
  assumes "pool_ok m" "read_events os evs m = Some (r, m')"
  shows "pool_ok m' \<and> mp_max_connection m' = mp_max_connection m \<and> mp_free_socket m' = mp_free_socket m \<and>
    mp_ev m' = mp_ev m \<and> mp_rb m' = mp_rb m \<and>
    (\<forall>i. r = Some (Client i) \<longrightarrow> i < length (mp_sockets m') \<and> alive (s_status (mp_sockets m' ! i)) \<and>
       s_status (mp_sockets m' ! i) \<noteq> SOCKET_HALFCLOSE)"
  using assms
proof (induction evs arbitrary: m)
  case Nil
  then show ?case by simp
next
  case (Cons e evs)
  define m1 where "m1 = m\<lparr>mp_queue_head := Suc (mp_queue_head m)\<rparr>"
  have ok1: "pool_ok m1" using Cons.prems(1) by (simp add: m1_def)
  have same: "mp_max_connection m1 = mp_max_connection m" "mp_free_socket m1 = mp_free_socket m" "mp_ev m1 = mp_ev m" "mp_rb m1 = mp_rb m"
    by (simp_all add: m1_def)
  show ?case
  proof (cases "ev_target e")
    case Listen
    then have "r = Some Listen" "m' = m1" using Cons.prems(2) by (auto simp: m1_def)
    then show ?thesis using ok1 same by simp
  next
    case (Client i)
    obtain m2 where i: "i < length (mp_sockets m1)"
      and m2: "(if ev_out e \<and> s_status (mp_sockets m1 ! i) \<noteq> SOCKET_CLOSED then write_event os i m1 else Some m1) = Some m2"
      and rest: "do { s \<leftarrow> socket_at i m2;
         if ev_in e \<and> alive (s_status s) \<and> s_status s \<noteq> SOCKET_HALFCLOSE then Some (Some (Client i), m2)
         else read_events os evs m2 } = Some (r, m')"
      using Cons.prems(2) Client by (auto simp: Let_def m1_def [symmetric] bind_eq_Some_conv socket_at_Some)
    have ok2: "pool_ok m2" "touches i m1 m2"
      using m2 ok1 write_event_ok [OF ok1, of os i m2] by (auto split: if_splits)
    then have same2: "mp_max_connection m2 = mp_max_connection m" "mp_free_socket m2 = mp_free_socket m" "mp_ev m2 = mp_ev m" "mp_rb m2 = mp_rb m"
        "i < length (mp_sockets m2)"
      using same i by (simp_all add: touches_def)
    show ?thesis
    proof (cases "ev_in e \<and> alive (s_status (mp_sockets m2 ! i)) \<and> s_status (mp_sockets m2 ! i) \<noteq> SOCKET_HALFCLOSE")
      case True
      then have "r = Some (Client i)" "m' = m2" using rest same2(5) by (simp_all add: socket_at_def)
      then show ?thesis using ok2(1) same2 True by simp
    next
      case False
      then have "read_events os evs m2 = Some (r, m')" using rest same2(5) by (auto simp: socket_at_def)
      then show ?thesis using Cons.IH [OF ok2(1)] same2 by simp
    qed
  qed
qed

lemma alloc_socket_ok:
  assumes ok: "pool_ok m" and run: "alloc_socket m = Some (r, m')"
  shows "pool_ok m' \<and> mp_sockets m' = mp_sockets m \<and> mp_max_connection m' = mp_max_connection m \<and>
    (\<forall>i. r = Some i \<longrightarrow> i < length (mp_sockets m) \<and> s_status (mp_sockets m ! i) = SOCKET_INVALID \<and>
       (\<exists>fs. free_list (mp_sockets m) (mp_free_socket m') fs \<and> distinct fs \<and> i \<notin> set fs))"
proof (cases "mp_free_socket m")
  case None
  then show ?thesis using run ok by (simp add: alloc_socket_def)
next
  case (Some i)
  obtain fs where fs: "free_list (mp_sockets m) (Some i) fs" "distinct fs" using ok Some by (auto simp: pool_ok_def)
  then obtain fs' where fs': "fs = i # fs'" "i < length (mp_sockets m)" "s_status (mp_sockets m ! i) = SOCKET_INVALID"
      "free_list (mp_sockets m) (next_free (mp_sockets m ! i)) fs'" "distinct fs'" "i \<notin> set fs'"
    by (cases fs) auto
  then have m': "m' = m\<lparr>mp_free_socket := next_free (mp_sockets m ! i)\<rparr>" and r: "r = Some i"
    using run Some by (auto simp: alloc_socket_def socket_at_def split: if_splits)
  have "pool_ok m'" using ok fs' by (auto simp: pool_ok_def m')
  then show ?thesis using fs' r by (simp only: m') (auto split del: if_split)
qed

text \<open>The slot of a new connection: it was not in use, and it is not in the free list any more.\<close>

lemma pool_ok_claim:
  assumes ok: "pool_ok m" and i: "i < length (mp_sockets m)" "s_status (mp_sockets m ! i) = SOCKET_INVALID"
    and fs: "free_list (mp_sockets m) (mp_free_socket m) fs" "distinct fs" "i \<notin> set fs" and s: "alive (s_status s)"
  shows "pool_ok (set_socket i s m)"
proof -
  have "free_list ((mp_sockets m)[i := s]) (mp_free_socket m) fs" by (rule free_list_update [OF fs(1,3)])
  moreover have "\<forall>s' \<in> set ((mp_sockets m)[i := s]). \<not> alive (s_status s') \<longrightarrow> idle s'"
    using ok s set_update_subset_insert [of "mp_sockets m" i s] by (auto simp: pool_ok_def)
  moreover have "count_closed ((mp_sockets m)[i := s]) = count_closed (mp_sockets m)"
    using count_closed_update [OF i(1), of s] i(2) s by (auto simp: alive_iff)
  ultimately show ?thesis
    using ok i s fs(2) by (auto simp: pool_ok_def nth_list_update alive_iff)
qed

lemma add_client_ok:
  assumes ok: "pool_ok m" and run: "add_client os fd m = Some (r, m')"
  shows "pool_ok m' \<and> mp_max_connection m' = mp_max_connection m \<and> length (mp_sockets m') = length (mp_sockets m) \<and>
    (\<forall>i. r = Some i \<longrightarrow> i < length (mp_sockets m) \<and> s_status (mp_sockets m ! i) = SOCKET_INVALID \<and>
       s_status (mp_sockets m' ! i) = SOCKET_CONNECTED \<and> s_fd (mp_sockets m' ! i) = fd \<and>
       s_node (mp_sockets m' ! i) = None \<and> s_temp (mp_sockets m' ! i) = None \<and> s_client (mp_sockets m' ! i) = [] \<and>
       (\<forall>j. j \<noteq> i \<longrightarrow> mp_sockets m' ! j = mp_sockets m ! j)) \<and>
    (r = None \<longrightarrow> mp_sockets m' = mp_sockets m)"
proof -
  obtain a m1 where a: "alloc_socket m = Some (a, m1)" using run by (auto simp: add_client_def bind_eq_Some_conv)
  note al = alloc_socket_ok [OF ok a]
  show ?thesis
  proof (cases a)
    case None
    then show ?thesis using run a al by (auto simp: add_client_def)
  next
    case (Some i)
    obtain e m2 where e: "epoll_ctl os (Ctl_Add (Client i) False) fd m1 = (e, m2)" by fastforce
    have m2: "mp_sockets m2 = mp_sockets m" "mp_free_socket m2 = mp_free_socket m1" "mp_max_connection m2 = mp_max_connection m" "pool_ok m2"
      using al e epoll_ctl_fields [of os "Ctl_Add (Client i) False" fd m1] pool_ok_epoll [of os "Ctl_Add (Client i) False" fd m1]
      by simp_all
    show ?thesis
    proof (cases "e = -1")
      case True
      then show ?thesis using run a Some e m2 by (auto simp: add_client_def)
    next
      case False
      let ?s = "(mp_sockets m ! i)\<lparr>s_fd := fd, s_node := None, s_status := SOCKET_CONNECTED, s_enablewrite := False\<rparr>"
      have i: "i < length (mp_sockets m)" "s_status (mp_sockets m ! i) = SOCKET_INVALID" using al Some by auto
      obtain fs where fs: "free_list (mp_sockets m2) (mp_free_socket m2) fs" "distinct fs" "i \<notin> set fs" using al Some m2 by auto
      have run': "r = Some i" "m' = set_socket i ?s m2"
        using run a Some e False i m2 by (simp_all add: add_client_def socket_at_def split: prod.splits)
      have "pool_ok m'" unfolding run' using i m2 by (intro pool_ok_claim [OF m2(4) _ _ fs]) simp_all
      moreover have "idle (mp_sockets m ! i)" using pool_ok_idle [OF ok i(1)] i(2) by simp
      ultimately show ?thesis using run' i m2 by (simp add: idle_def)
    qed
  qed
qed

lemma accept_client_ok:
  assumes ok: "pool_ok m" and run: "accept_client os m = Some (r, m')"
  shows "pool_ok m' \<and> mp_max_connection m' = mp_max_connection m \<and> length (mp_sockets m') = length (mp_sockets m) \<and>
    (\<forall>i. r = Some i \<longrightarrow> i < length (mp_sockets m) \<and> s_status (mp_sockets m ! i) = SOCKET_INVALID \<and>
       s_status (mp_sockets m' ! i) = SOCKET_CONNECTED \<and> (\<forall>j. j \<noteq> i \<longrightarrow> mp_sockets m' ! j = mp_sockets m ! j))"
proof -
  obtain fd ip port w where acc: "os_accept os (mp_listen_fd m) (mp_world m) = ((fd, ip, port), w)" by (metis prod_cases3 surj_pair)
  show ?thesis
  proof (cases "0 \<le> fd")
    case False
    then show ?thesis using run acc ok by (auto simp: accept_client_def)
  next
    case True
    define m1 where "m1 = m\<lparr>mp_world := os_setsockopt os fd ''SO_KEEPALIVE'' (snd (set_nonblocking os fd w))\<rparr>"
    have ok1: "pool_ok m1" and same: "mp_sockets m1 = mp_sockets m" "mp_max_connection m1 = mp_max_connection m"
      using ok by (simp_all add: m1_def)
    obtain r1 m2 where r1: "add_client os fd m1 = Some (r1, m2)"
        and rest: "(case r1 of Some i \<Rightarrow> do { s \<leftarrow> socket_at i m2;
             Some (Some i, (set_socket i (s\<lparr>s_ip := ip, s_port := port\<rparr>) m2)\<lparr>mp_active := None\<rparr>) } | None \<Rightarrow> Some (None, m2)) = Some (r, m')"
      using run acc True by (auto simp: accept_client_def m1_def [symmetric] bind_eq_Some_conv)
    note ac = add_client_ok [OF ok1 r1]
    show ?thesis
    proof (cases r1)
      case None
      then show ?thesis using rest ac same by simp
    next
      case (Some i)
      let ?s = "(mp_sockets m2 ! i)\<lparr>s_ip := ip, s_port := port\<rparr>"
      have i: "i < length (mp_sockets m2)" "s_status (mp_sockets m2 ! i) = SOCKET_CONNECTED" using ac Some by auto
      then have m': "r = Some i" "m' = (set_socket i ?s m2)\<lparr>mp_active := None\<rparr>" using rest Some by (simp_all add: socket_at_def)
      have "pool_ok (set_socket i ?s m2)" using ac i by (intro pool_ok_set_same) simp_all
      then have "pool_ok m'" unfolding m' by (rule pool_ok_inactive)
      then show ?thesis using m' ac Some same i by simp
    qed
  qed
qed

lemma poll_loop_ok:
  assumes "poll_loop os m = Some y"
  shows "pool_ok m \<longrightarrow> pool_ok (snd y) \<and> mp_max_connection (snd y) = mp_max_connection m \<and>
    (\<forall>i. fst y = Some i \<longrightarrow> i < mp_max_connection m \<and> alive (s_status (mp_sockets (snd y) ! i)))"
  using assms
proof (induction rule: poll_loop.raw_induct [rotated 1, consumes 1])
  case (1 f os m y)
  have "pool_ok (snd y) \<and> mp_max_connection (snd y) = mp_max_connection m \<and>
    (\<forall>i. fst y = Some i \<longrightarrow> i < mp_max_connection m \<and> alive (s_status (mp_sockets (snd y) ! i)))" if ok: "pool_ok m"
  proof -
  obtain r m' where y: "y = (r, m')" by (cases y)
  obtain t m1 where t: "read_one os m = Some (t, m1)" using 1(2) by (auto simp: bind_eq_Some_conv)
  note re = read_events_ok [OF ok t [unfolded read_one_def]]
  show ?thesis
  proof (cases t)
    case None
    then show ?thesis using 1(2) y t re pool_ok_inactive by auto
  next
    case (Some k)
    show ?thesis
    proof (cases k)
      case Listen
      then obtain a m2 where a: "accept_client os m1 = Some (a, m2)"
        using 1(2) y t Some by (auto simp: bind_eq_Some_conv)
      note ac = accept_client_ok [OF conjunct1 [OF re] a]
      show ?thesis
      proof (cases a)
        case None
        then show ?thesis using 1(1) [of os m2 y] 1(2) y t Some Listen a ac re by auto
      next
        case (Some i)
        have "length (mp_sockets m2) = mp_max_connection m2" using ac by (simp add: pool_ok_def)
        then show ?thesis using Some 1(2) y t \<open>t = Some k\<close> Listen a ac re by auto
      qed
    next
      case (Client i)
      have i: "i < length (mp_sockets m1)" "alive (s_status (mp_sockets m1 ! i))" using re Some Client by auto
      have max: "length (mp_sockets m1) = mp_max_connection m1" using re by (simp add: pool_ok_def)
      let ?s = "(mp_sockets m1 ! i)\<lparr>s_status := (if s_status (mp_sockets m1 ! i) = SOCKET_CONNECTED then SOCKET_FIRST_POLLIN else SOCKET_POLLIN)\<rparr>"
      have run: "r = Some i" "m' = (set_socket i ?s m1)\<lparr>mp_active := Some i\<rparr>"
        using 1(2) y t Some Client i max by (auto simp: socket_at_def)
      have st: "alive (s_status ?s)" by simp
      have "pool_ok (set_socket i ?s m1)" using re i st by (intro pool_ok_set_same) (auto simp: alive_iff)
      then have "pool_ok m'" unfolding run using i max by (intro pool_ok_active) simp_all
      then show ?thesis using run i max re y by simp
    qed
  qed
  qed
  then show ?case by blast
qed

text \<open>Whenever \<open>closed\<close> is positive there is a closed connection to report: the assertion of \<open>_report_closed\<close> holds.\<close>

lemma report_closed_ok:
  assumes ok: "pool_ok m" and pos: "0 < mp_closed m"
  shows "\<exists>i. report_closed m = Some (i, m\<lparr>mp_active := Some i\<rparr>) \<and> i < mp_max_connection m \<and>
    s_status (mp_sockets m ! i) = SOCKET_CLOSED \<and> pool_ok (m\<lparr>mp_active := Some i\<rparr>)"
proof -
  have "filter (\<lambda>s. s_status s = SOCKET_CLOSED) (mp_sockets m) \<noteq> []"
    using ok pos by (auto simp: pool_ok_def count_closed_def)
  then obtain s where "s \<in> set (mp_sockets m)" "s_status s = SOCKET_CLOSED" by (auto simp: filter_empty_conv)
  then obtain j where j: "j < mp_max_connection m" "s_status (mp_sockets m ! j) = SOCKET_CLOSED"
    using ok by (metis in_set_conv_nth pool_ok_def)
  have "find (\<lambda>i. s_status (mp_sockets m ! i) = SOCKET_CLOSED) [0..<mp_max_connection m] \<noteq> None"
    using j by (auto simp: find_None_iff)
  then obtain i where i: "find (\<lambda>i. s_status (mp_sockets m ! i) = SOCKET_CLOSED) [0..<mp_max_connection m] = Some i" by blast
  then have "i < mp_max_connection m" "s_status (mp_sockets m ! i) = SOCKET_CLOSED" by (auto simp: find_Some_iff)
  then show ?thesis using i pool_ok_active [OF ok] by (simp add: report_closed_def)
qed

lemma poll_queue_ok:
  assumes ok: "pool_ok m" and run: "poll_queue os timeout m = Some (r, m')"
  shows "pool_ok m' \<and> mp_max_connection m' = mp_max_connection m \<and>
    (\<forall>i. r = Some i \<longrightarrow> i < mp_max_connection m \<and> s_status (mp_sockets m' ! i) \<noteq> SOCKET_INVALID)"
proof -
  have loop: ?thesis if "poll_loop os m1 = Some (r, m')" "pool_ok m1" "mp_max_connection m1 = mp_max_connection m" for m1
    using poll_loop_ok [OF that(1)] that(2,3) by (auto simp: alive_iff)
  show ?thesis
  proof (cases "length (mp_ev m) \<le> mp_queue_head m")
    case False
    then show ?thesis using loop [OF _ ok refl] run by (simp add: poll_queue_def)
  next
    case True
    show ?thesis
    proof (cases "0 < mp_closed m")
      case True
      then show ?thesis
        using report_closed_ok [OF ok True] run \<open>length (mp_ev m) \<le> mp_queue_head m\<close> by (auto simp: poll_queue_def)
    next
      case False
      obtain e m1 where m1: "read_queue os timeout m = (e, m1)" by fastforce
      have ok1: "pool_ok m1" "mp_max_connection m1 = mp_max_connection m"
        using m1 ok by (auto simp: read_queue_def Let_def split: prod.splits option.splits)
      show ?thesis
      proof (cases "e = -1")
        case True
        then have "r = None" "m' = m1\<lparr>mp_active := None\<rparr>"
          using run m1 False \<open>length (mp_ev m) \<le> mp_queue_head m\<close> by (simp_all add: poll_queue_def)
        then show ?thesis using pool_ok_inactive [OF ok1(1)] ok1(2) by simp
      next
        case e: False
        then show ?thesis
          using loop [OF _ ok1] run m1 False \<open>length (mp_ev m) \<le> mp_queue_head m\<close> by (simp add: poll_queue_def)
      qed
    qed
  qed
qed

lemma mread_poll_ok:
  assumes ok: "pool_ok m" and run: "mread_poll os timeout m = Some (r, m')"
  shows "pool_ok m' \<and> mp_max_connection m' = mp_max_connection m \<and>
    (\<forall>i. r = Some i \<longrightarrow> i < mp_max_connection m \<and> s_status (mp_sockets m' ! i) \<noteq> SOCKET_INVALID)"
proof -
  define m1 where "m1 = m\<lparr>mp_skip := 0\<rparr>"
  have ok1: "pool_ok m1" "mp_max_connection m1 = mp_max_connection m" using ok by (simp_all add: m1_def)
  have q: ?thesis if "poll_queue os timeout m1 = Some (r, m')" using poll_queue_ok [OF ok1(1) that] ok1(2) by simp
  show ?thesis
  proof (cases "mp_active m")
    case None
    then show ?thesis using q run by (simp add: mread_poll_def m1_def)
  next
    case (Some i)
    then have i: "i < mp_max_connection m" "s_status (mp_sockets m ! i) \<noteq> SOCKET_INVALID" "i < length (mp_sockets m)"
      using ok by (auto simp: pool_ok_def)
    show ?thesis
    proof (cases "s_status (mp_sockets m ! i) = SOCKET_READ")
      case True
      then have "r = Some i" "m' = m1" using run Some i by (simp_all add: mread_poll_def m1_def socket_at_def)
      then show ?thesis using ok1 i by (simp add: m1_def)
    next
      case False
      then show ?thesis using q run Some i by (simp add: mread_poll_def m1_def socket_at_def)
    qed
  qed
qed

section \<open>Giving back\<close>

lemma mread_yield_ok:
  assumes ok: "pool_ok m" and run: "mread_yield m = Some m'"
  shows "pool_ok m' \<and> mp_max_connection m' = mp_max_connection m"
proof (cases "mp_active m")
  case None
  then show ?thesis using run ok by (simp add: mread_yield_def)
next
  case (Some i)
  let ?s = "mp_sockets m ! i"
  have i: "i < length (mp_sockets m)" "s_status ?s \<noteq> SOCKET_INVALID" "i < mp_max_connection m"
    using ok Some by (auto simp: pool_ok_def)
  obtain rb where rb: "ringbuffer_free (s_temp ?s) (mp_rb m) = Some rb"
    using run Some i by (auto simp: mread_yield_def socket_at_def bind_eq_Some_conv)
  show ?thesis
  proof (cases "s_status ?s = SOCKET_CLOSED \<and> s_node ?s = None")
    case True
    define n where "n = ?s\<lparr>s_temp := None, s_status := SOCKET_INVALID, s_fd := (case mp_free_socket m of Some j \<Rightarrow> int j | None \<Rightarrow> -1)\<rparr>"
    have m': "m' = (set_socket i n m)\<lparr>mp_rb := rb, mp_closed := mp_closed m - 1, mp_free_socket := Some i,
                                   mp_skip := 0, mp_active := None\<rparr>"
      using run Some i rb True by (simp add: mread_yield_def socket_at_def n_def)
    have n: "s_status n = SOCKET_INVALID" "idle n" "next_free n = mp_free_socket m"
      using pool_ok_idle [OF ok i(1)] True by (simp_all add: n_def idle_def split: option.split)
    obtain fs where fs: "free_list (mp_sockets m) (mp_free_socket m) fs" "distinct fs" using ok by (auto simp: pool_ok_def)
    have "i \<notin> set fs" using free_list_invalid [OF fs(1)] i(2) by blast
    then have "free_list ((mp_sockets m)[i := n]) (mp_free_socket m) fs" by (rule free_list_update [OF fs(1)])
    then have "free_list ((mp_sockets m)[i := n]) (next_free n) fs" unfolding n(3) .
    then have free: "free_list (mp_sockets m') (mp_free_socket m') (i # fs)" "distinct (i # fs)"
      using i(1) n(1) fs(2) \<open>i \<notin> set fs\<close> by (auto simp: m' split: if_splits)
    have "count_closed ((mp_sockets m)[i := n]) = count_closed (mp_sockets m) - 1"
      using count_closed_update [OF i(1), of n] True n(1) by simp
    then have closed: "mp_closed m' = count_closed (mp_sockets m')" using ok by (simp add: m' pool_ok_def)
    have idle: "\<forall>s \<in> set (mp_sockets m'). \<not> alive (s_status s) \<longrightarrow> idle s"
      using ok n(2) set_update_subset_insert [of "mp_sockets m" i n] by (auto simp: pool_ok_def m')
    have "length (mp_sockets m') = mp_max_connection m'" "mp_active m' = None" "mp_max_connection m' = mp_max_connection m"
      using ok by (simp_all add: m' pool_ok_def)
    moreover have "\<exists>fs. free_list (mp_sockets m') (mp_free_socket m') fs \<and> distinct fs"
      using free by (rule exI [of _ "i # fs", OF conjI])
    ultimately show ?thesis using closed idle unfolding pool_ok_def by simp
  next
    case False
    obtain node rb2 where n: "(case s_node ?s of Some b \<Rightarrow> ringbuffer_yield b (mp_skip m) rb | None \<Rightarrow> Some (None, rb)) = Some (node, rb2)"
      using run Some i rb False by (auto simp: mread_yield_def socket_at_def bind_eq_Some_conv)
    let ?n = "?s\<lparr>s_temp := None, s_node := node\<rparr>"
    have m': "m' = (set_socket i ?n m)\<lparr>mp_rb := rb2, mp_skip := 0, mp_active := (if node = None then None else Some i)\<rparr>"
      using run Some i rb False n by (simp add: mread_yield_def socket_at_def)
    have "idle ?s" if "\<not> alive (s_status ?s)" using pool_ok_idle [OF ok i(1) that] .
    then have "alive (s_status ?s)" using False i(2) by (auto simp: alive_iff idle_def)
    then have X: "pool_ok (set_socket i ?n m)" using ok i by (intro pool_ok_set_same) simp_all
    have "pool_ok m'" by (rule pool_ok_cong [OF _ _ _ _ _ X]) (use Some in \<open>simp_all add: m'\<close>)
    then show ?thesis by (simp add: m')
  qed
qed

lemma mread_closed_ok:
  assumes ok: "pool_ok m" and run: "mread_closed m = Some (r, m')"
  shows "pool_ok m' \<and> mp_max_connection m' = mp_max_connection m"
proof (cases "mp_active m")
  case None
  then show ?thesis using run ok by (simp add: mread_closed_def)
next
  case (Some i)
  then have "i < length (mp_sockets m)" using ok by (auto simp: pool_ok_def)
  then show ?thesis
    using run ok Some mread_yield_ok [OF ok, of m'] by (auto simp: mread_closed_def socket_at_def bind_eq_Some_conv split: if_splits)
qed

end
