(* ===== verification/PullInv.thy ===== *)
theory PullInv
  imports MreadInv
begin

text \<open>
  \<open>mread_pull\<close> keeps the invariant of the connection pool, whatever the ring buffer and the system
  answer: connections may be closed to make room, but the pulled connection keeps its slot.
\<close>

section \<open>Slots stay in use\<close>

definition grows :: "'w mread_pool \<Rightarrow> 'w mread_pool \<Rightarrow> bool" where
  "grows m m' \<longleftrightarrow> pool_ok m' \<and> length (mp_sockets m') = length (mp_sockets m) \<and>
     mp_max_connection m' = mp_max_connection m \<and> mp_active m' = mp_active m"

lemma grows_trans: "grows m m' \<Longrightarrow> grows m' m'' \<Longrightarrow> grows m m''"
  by (simp add: grows_def)

lemma grows_refl: "pool_ok m \<Longrightarrow> grows m m"
  by (simp add: grows_def)

lemma grows_touches: "pool_ok m' \<Longrightarrow> touches i m m' \<Longrightarrow> grows m m'"
  by (simp add: grows_def touches_def)

lemma grows_ring [simp]:
  "grows m (m'\<lparr>mp_rb := rb\<rparr>) = grows m m'" "grows m (m'\<lparr>mp_world := w\<rparr>) = grows m m'" "grows m (m'\<lparr>mp_skip := k\<rparr>) = grows m m'"
  by (simp_all add: grows_def)

lemma grows_length: "grows m m' \<Longrightarrow> length (mp_sockets m') = length (mp_sockets m)"
  by (simp add: grows_def)

lemma grows_set:
  assumes "pool_ok m" "i < length (mp_sockets m)" "alive (s_status (mp_sockets m ! i))" "alive (s_status s)"
  shows "grows m (set_socket i s m)"
  using pool_ok_set_same [OF assms(1,2), of s] assms by (auto simp: grows_def alive_iff)

section \<open>The steps of a pull\<close>

lemma alloc_collect_grows:
  assumes "alloc_collect os i sz m = Some y"
  shows "pool_ok m \<longrightarrow> grows m (snd y) \<and> (fst y \<noteq> None \<longrightarrow> mp_sockets (snd y) ! i = mp_sockets m ! i)"
  using assms
proof (induction rule: alloc_collect.raw_induct [rotated 1, consumes 1])
  case (1 f os i sz m y)
  have "grows m (snd y) \<and> (fst y \<noteq> None \<longrightarrow> mp_sockets (snd y) ! i = mp_sockets m ! i)" if ok: "pool_ok m"
  proof -
    obtain blk rb where a: "ringbuffer_alloc sz (mp_rb m) = Some (blk, rb)" using 1(2) by (auto simp: bind_eq_Some_conv)
    show ?thesis
    proof (cases blk)
      case (Some b)
      then show ?thesis using 1(2) a ok by (auto simp: grows_refl)
    next
      case None
      obtain c rb2 m2 where c: "ringbuffer_collect rb = Some (c, rb2)"
        and m2: "force_close_client os c (m\<lparr>mp_rb := rb, mp_rb := rb2\<rparr>) = Some m2"
        and rest: "(if int i = c then Some (None, m2) else f os i sz m2) = Some y"
        using 1(2) a None by (auto simp: bind_eq_Some_conv)
      have ok0: "pool_ok (m\<lparr>mp_rb := rb, mp_rb := rb2\<rparr>)" using ok by simp
      note fc = force_close_client_ok [OF ok0 m2]
      have g: "grows m m2" using grows_touches [OF fc] by (simp add: grows_def)
      show ?thesis
      proof (cases "int i = c")
        case True
        then show ?thesis using rest g by auto
      next
        case False
        have "0 \<le> c" using m2 by (auto simp: force_close_client_def bind_eq_Some_conv)
        then have "nat c \<noteq> i" using False by auto
        then have "mp_sockets m2 ! i = mp_sockets m ! i" using fc(2) by (simp add: touches_def)
        then show ?thesis using 1(1) [of os i sz m2 y] rest False fc(1) grows_trans [OF g] by auto
      qed
    qed
  qed
  then show ?case by blast
qed

lemma skip_all_grows:
  assumes "skip_all os i m = Some m'"
  shows "pool_ok m \<longrightarrow> s_status (mp_sockets m ! i) \<noteq> SOCKET_INVALID \<longrightarrow> grows m m'"
  using assms
proof (induction rule: skip_all.raw_induct [rotated 1, consumes 1])
  case (1 f os i m m')
  have "grows m m'" if ok: "pool_ok m" and st: "s_status (mp_sockets m ! i) \<noteq> SOCKET_INVALID"
  proof -
    let ?s = "mp_sockets m ! i"
    have i: "i < length (mp_sockets m)" using 1(2) by (auto simp: bind_eq_Some_conv socket_at_Some)
    obtain r w where r: "os_read os (s_fd ?s) 1024 (mp_world m) = (r, w)" by fastforce
    show ?thesis
    proof (cases "r = Done []")
      case True
      let ?m = "(set_socket i (?s\<lparr>s_client := []\<rparr>) m)\<lparr>mp_world := free_buffer os (s_client ?s) w\<rparr>"
      have run: "f os i ?m = Some m'" using 1(2) i r True by (simp add: socket_at_def)
      have "idle (?s\<lparr>s_client := []\<rparr>)" if "\<not> alive (s_status ?s)" using pool_ok_idle [OF ok i that] by (simp add: idle_def)
      then have "pool_ok (set_socket i (?s\<lparr>s_client := []\<rparr>) m)" using ok i st by (intro pool_ok_set_same) simp_all
      then have okm: "pool_ok ?m" and "grows m ?m" by (simp_all add: grows_def)
      moreover have "s_status (mp_sockets ?m ! i) \<noteq> SOCKET_INVALID" using i st by simp
      ultimately show ?thesis using 1(1) [OF run] grows_trans by blast
    next
      case False
      show ?thesis
      proof (cases r)
        case (Fail e)
        then show ?thesis using 1(2) i r ok by (auto simp: socket_at_def grows_refl)
      next
        case (Done d)
        then have "m' = m\<lparr>mp_world := w\<rparr> \<or> f os i (m\<lparr>mp_world := w\<rparr>) = Some m'"
          using 1(2) i r False by (auto simp: socket_at_def split: if_splits)
        moreover have "pool_ok (m\<lparr>mp_world := w\<rparr>)" "s_status (mp_sockets (m\<lparr>mp_world := w\<rparr>) ! i) \<noteq> SOCKET_INVALID" "grows m (m\<lparr>mp_world := w\<rparr>)"
          using ok st by (simp_all add: grows_refl)
        ultimately show ?thesis using 1(1) [of os i "m\<lparr>mp_world := w\<rparr>" m'] grows_trans by blast
      qed
    qed
  qed
  then show ?case by blast
qed

lemma shrink_block_grows:
  assumes "pool_ok m" "shrink_block b sz m = Some m'"
  shows "grows m m'" "mp_sockets m' = mp_sockets m"
  using assms by (auto simp: shrink_block_def bind_eq_Some_conv grows_refl)

lemma set_status_grows:
  assumes "pool_ok m" "set_status i st m = Some m'" "alive (s_status (mp_sockets m ! i))" "alive st"
  shows "grows m m'" "mp_sockets m' ! i = (mp_sockets m ! i)\<lparr>s_status := st\<rparr>"
  using assms grows_set [OF assms(1) _ assms(3), of "(mp_sockets m ! i)\<lparr>s_status := st\<rparr>"]
  by (auto simp: set_status_def bind_eq_Some_conv socket_at_Some)

lemma link_node_grows:
  assumes "pool_ok m" "link_node i b m = Some m'" "alive (s_status (mp_sockets m ! i))"
  shows "grows m m'" "s_status (mp_sockets m' ! i) = s_status (mp_sockets m ! i)"
proof -
  let ?s = "mp_sockets m ! i"
  have i: "i < length (mp_sockets m)" using assms(2) by (auto simp: link_node_def socket_at_Some bind_eq_Some_conv)
  have "grows m m' \<and> s_status (mp_sockets m' ! i) = s_status ?s"
  proof (cases "s_node ?s")
    case None
    then obtain rb where "m' = set_socket i (?s\<lparr>s_node := Some b\<rparr>) (m\<lparr>mp_rb := rb\<rparr>)"
      using assms(2) i by (auto simp: link_node_def socket_at_def bind_eq_Some_conv)
    moreover have "grows (m\<lparr>mp_rb := rb\<rparr>) (set_socket i (?s\<lparr>s_node := Some b\<rparr>) (m\<lparr>mp_rb := rb\<rparr>))"
      using assms i by (intro grows_set) simp_all
    ultimately show ?thesis using i by (simp add: grows_def)
  next
    case (Some c)
    then show ?thesis using assms i by (auto simp: link_node_def socket_at_def bind_eq_Some_conv grows_refl)
  qed
  then show "grows m m'" "s_status (mp_sockets m' ! i) = s_status ?s" by simp_all
qed

lemma close_active_grows:
  assumes "pool_ok m" "close_active os i m = Some m'"
  shows "grows m m'"
proof -
  obtain rb where "force_close_client os (int i) (m\<lparr>mp_rb := rb\<rparr>) = Some m'"
    using assms(2) by (auto simp: close_active_def bind_eq_Some_conv)
  then show ?thesis using force_close_client_ok [of "m\<lparr>mp_rb := rb\<rparr>" os "int i" m'] assms(1) grows_touches [of m' i "m\<lparr>mp_rb := rb\<rparr>"]
    by (simp add: grows_def)
qed

lemma find_tgw_status:
  "find_tgw_header buf len s = Some (k, s') \<Longrightarrow> s_status s' = s_status s \<and> s_fd s' = s_fd s \<and> s_node s' = s_node s \<and>
     s_temp s' = s_temp s \<and> s_client s' = s_client s"
  by (auto simp: find_tgw_header_def set_address_def bind_eq_Some_conv Let_def split: if_splits option.splits prod.splits)

lemma strip_header_grows:
  assumes ok: "pool_ok m" and run: "strip_header i p n m = Some (k, h, m')" and st: "alive (s_status (mp_sockets m ! i))"
  shows "grows m m'" "s_status (mp_sockets m' ! i) = s_status (mp_sockets m ! i)"
proof -
  let ?s = "mp_sockets m ! i"
  have i: "i < length (mp_sockets m)" using run by (auto simp: strip_header_def socket_at_Some bind_eq_Some_conv)
  have "grows m m' \<and> s_status (mp_sockets m' ! i) = s_status ?s"
  proof (cases "s_status ?s = SOCKET_FIRST_POLLIN \<and> 0 < n")
    case False
    then show ?thesis using run i ok by (auto simp: strip_header_def socket_at_def grows_refl)
  next
    case True
    obtain l s' where l: "find_tgw_header (text_from (mp_rb m) p) n ?s = Some (l, s')"
      using run i True by (auto simp: strip_header_def socket_at_def bind_eq_Some_conv)
    note s' = find_tgw_status [OF l]
    have "grows m (set_socket i s' m)" using ok i st s' by (intro grows_set) simp_all
    moreover have "\<exists>rb. m' = (set_socket i s' m)\<lparr>mp_rb := rb\<rparr>"
      using run i True l by (auto simp: strip_header_def socket_at_def bind_eq_Some_conv Let_def split: if_splits
        intro: exI [of _ "mp_rb m"])
    ultimately show ?thesis using i s' by auto
  qed
  then show "grows m m'" "s_status (mp_sockets m' ! i) = s_status ?s" by simp_all
qed

lemma pull_read_grows:
  assumes ok: "pool_ok m" and run: "pull_read os i blk rd sz m = Some (ready, m')" and st: "alive (s_status (mp_sockets m ! i))"
  shows "grows m m'" "ready \<Longrightarrow> s_status (mp_sockets m' ! i) = SOCKET_READ"
proof -
  let ?s = "mp_sockets m ! i"
  have i: "i < length (mp_sockets m)" using run by (auto simp: pull_read_def socket_at_Some bind_eq_Some_conv)
  obtain r w where r: "read_retry os (s_fd ?s) rd (mp_world m) = Some (r, w)"
    using run i by (auto simp: pull_read_def socket_at_def bind_eq_Some_conv)
  define m1 where "m1 = m\<lparr>mp_world := w\<rparr>"
  have m1: "pool_ok m1" "grows m m1" "alive (s_status (mp_sockets m1 ! i))" using ok st by (simp_all add: m1_def grows_refl)
  have "grows m m' \<and> (ready \<longrightarrow> s_status (mp_sockets m' ! i) = SOCKET_READ)"
  proof (cases r)
    case (Fail e)
    obtain m2 where m2: "shrink_block blk 0 m1 = Some m2"
      and rest: "(if e = EWOULDBLOCK then set_status i SOCKET_SUSPEND m2 else close_active os i m2) = Some m'" "\<not> ready"
      using run i r Fail by (auto simp: pull_read_def socket_at_def m1_def [symmetric] bind_eq_Some_conv)
    note g2 = shrink_block_grows [OF m1(1) m2]
    have ok2: "pool_ok m2" "alive (s_status (mp_sockets m2 ! i))" using g2 m1(3) by (simp_all add: grows_def)
    have "grows m2 m'"
      using rest set_status_grows(1) [OF ok2(1) _ ok2(2)] close_active_grows [OF ok2(1)] by (auto split: if_splits)
    then show ?thesis using grows_trans [OF m1(2) grows_trans [OF g2(1)]] rest(2) by blast
  next
    case (Done d)
    obtain rb n h m2 where sh: "strip_header i (blk + HDR) (length d) (m1\<lparr>mp_rb := rb\<rparr>) = Some (n, h, m2)"
      and rest: "(if h \<and> n = 0 then do { m \<leftarrow> set_status i SOCKET_SUSPEND m2; Some (False, m) }
         else if 0 < n then do {
           m \<leftarrow> shrink_block blk (int n) m2;
           if int n < sz then do {
             m \<leftarrow> link_node i blk m;
             m \<leftarrow> set_status i SOCKET_SUSPEND m;
             Some (False, m)
           } else do { m \<leftarrow> set_status i SOCKET_READ m; Some (True, m) }
         } else do {
           m \<leftarrow> shrink_block blk 0 m2;
           m \<leftarrow> close_active os i m;
           Some (False, m)
         }) = Some (ready, m')"
      using run i r Done by (auto simp: pull_read_def socket_at_def m1_def [symmetric] bind_eq_Some_conv simp del: One_nat_def)
    have ok1: "pool_ok (m1\<lparr>mp_rb := rb\<rparr>)" "alive (s_status (mp_sockets (m1\<lparr>mp_rb := rb\<rparr>) ! i))" using m1 by simp_all
    note g2 = strip_header_grows [OF ok1(1) sh ok1(2)]
    have gm2: "grows m m2" using m1(2) g2(1) by (simp add: grows_def)
    have ok2: "pool_ok m2" "alive (s_status (mp_sockets m2 ! i))" using g2 ok1(2) by (simp_all add: grows_def)
    show ?thesis
    proof (cases "h \<and> n = 0")
      case True
      then show ?thesis using rest set_status_grows(1) [OF ok2(1) _ ok2(2)] grows_trans [OF gm2] by (auto simp: bind_eq_Some_conv)
    next
      case h: False
      obtain m3 where m3: "shrink_block blk (int n) m2 = Some m3" using rest h by (cases "n = 0") (auto simp: bind_eq_Some_conv)
      note g3 = shrink_block_grows [OF ok2(1) m3]
      have ok3: "pool_ok m3" "alive (s_status (mp_sockets m3 ! i))" and gm3: "grows m m3"
        using g3 ok2 grows_trans [OF gm2 g3(1)] by (simp_all add: grows_def)
      show ?thesis
      proof (cases "n = 0")
        case True
        then have "close_active os i m3 = Some m'" "\<not> ready" using rest h m3 by (auto simp: bind_eq_Some_conv)
        then show ?thesis using close_active_grows [OF ok3(1)] grows_trans [OF gm3] by blast
      next
        case False
        show ?thesis
        proof (cases "int n < sz")
          case True
          obtain m4 where m4: "link_node i blk m3 = Some m4" "set_status i SOCKET_SUSPEND m4 = Some m'" "\<not> ready"
            using rest h m3 False True by (auto simp: bind_eq_Some_conv)
          note g4 = link_node_grows [OF ok3(1) m4(1) ok3(2)]
          have "pool_ok m4" "alive (s_status (mp_sockets m4 ! i))" using g4 ok3(2) by (simp_all add: grows_def)
          then show ?thesis using set_status_grows(1) [OF _ m4(2)] grows_trans [OF gm3] grows_trans [OF g4(1)] m4(3) by auto
        next
          case f: False
          then have m': "set_status i SOCKET_READ m3 = Some m'" "ready" using rest h m3 False by (auto simp: bind_eq_Some_conv)
          then show ?thesis using set_status_grows [OF ok3(1) m'(1) ok3(2)] grows_trans [OF gm3] by auto
        qed
      qed
    qed
  qed
  then show "grows m m'" "ready \<Longrightarrow> s_status (mp_sockets m' ! i) = SOCKET_READ" by simp_all
qed

lemma pull_data_grows:
  assumes ok: "pool_ok m" and run: "pull_data os i sz m = Some (r, m')" and st: "alive (s_status (mp_sockets m ! i))"
  shows "grows m m'"
proof -
  let ?s = "mp_sockets m ! i"
  have i: "i < length (mp_sockets m)" using run by (auto simp: pull_data_def socket_at_Some bind_eq_Some_conv)
  obtain node real ret where d: "s_node ?s = Some node" "RingBuffer.ringbuffer_data (mp_rb m) node sz (mp_skip m) = Some (real, ret)"
    using run i by (auto simp: pull_data_def socket_at_def bind_eq_Some_conv)
  show ?thesis
  proof (cases ret)
    case (Some p)
    then show ?thesis using run i d ok by (auto simp: pull_data_def socket_at_def grows_refl)
  next
    case None
    obtain t m1 where t: "alloc_collect os i sz m = Some (t, m1)"
      and rest: "(case t of None \<Rightarrow> Some (None, m1) | Some t \<Rightarrow> do {
             rb \<leftarrow> put (t + 8) (int i) (mp_rb m1);
             s \<leftarrow> socket_at i m1;
             rb \<leftarrow> (case s_temp s of Some t' \<Rightarrow> ringbuffer_link t t' rb | None \<Rightarrow> Some rb);
             node \<leftarrow> s_node s;
             (p, rb) \<leftarrow> ringbuffer_copy node (mp_skip m1) t rb;
             Some (Some p, (set_socket i (s\<lparr>s_temp := Some t\<rparr>) m1)\<lparr>mp_rb := rb, mp_skip := wrap (mp_skip m1 + sz)\<rparr>) }) = Some (r, m')"
      using run i d None by (auto simp: pull_data_def socket_at_def bind_eq_Some_conv)
    have g: "grows m m1" and same: "t \<noteq> None \<Longrightarrow> mp_sockets m1 ! i = ?s" using alloc_collect_grows [OF t] ok by auto
    have ok1: "pool_ok m1" and i1: "i < length (mp_sockets m1)" using g i by (simp_all add: grows_def)
    show ?thesis
    proof (cases t)
      case None
      then show ?thesis using rest g by simp
    next
      case (Some b)
      then obtain rb where m': "m' = (set_socket i (?s\<lparr>s_temp := Some b\<rparr>) m1)\<lparr>mp_rb := rb, mp_skip := wrap (mp_skip m1 + sz)\<rparr>"
        using rest same i1 by (auto simp: socket_at_def bind_eq_Some_conv)
      have "grows m1 (set_socket i (?s\<lparr>s_temp := Some b\<rparr>) m1)" using ok1 i1 st same Some by (intro grows_set) simp_all
      then show ?thesis using grows_trans [OF g] unfolding m' by simp
    qed
  qed
qed

lemma mread_pull_grows:
  assumes ok: "pool_ok m" and run: "mread_pull os sz m = Some (r, m')"
  shows "grows m m'"
proof (cases "mp_active m")
  case None
  then show ?thesis using run ok by (simp add: mread_pull_def grows_refl)
next
  case (Some i)
  let ?s = "mp_sockets m ! i"
  have i: "i < length (mp_sockets m)" "s_status ?s \<noteq> SOCKET_INVALID" using ok Some by (auto simp: pool_ok_def)
  obtain n p where rr: "ringbuffer_read i sz m = Some (n, p)" using run Some i by (auto simp: mread_pull_def socket_at_def bind_eq_Some_conv)
  show ?thesis
  proof (cases p)
    case (Some q)
    then show ?thesis using run \<open>mp_active m = Some i\<close> i rr ok by (auto simp: mread_pull_def socket_at_def grows_refl)
  next
    case None
    consider "s_status ?s = SOCKET_READ" | "s_status ?s \<in> {SOCKET_CLOSED, SOCKET_SUSPEND}" | "s_status ?s = SOCKET_HALFCLOSE"
      | "s_status ?s \<in> {SOCKET_POLLIN, SOCKET_FIRST_POLLIN}" | "s_status ?s = SOCKET_CONNECTED"
      using i(2) by (cases "s_status ?s") auto
    then show ?thesis
    proof cases
      case 1
      then show ?thesis using run set_status_grows(1) [OF ok] \<open>mp_active m = Some i\<close> i rr None
        by (auto simp: mread_pull_def socket_at_def bind_eq_Some_conv)
    next
      case 2
      then show ?thesis using run \<open>mp_active m = Some i\<close> i rr None ok by (auto simp: mread_pull_def socket_at_def grows_refl)
    next
      case 3
      then obtain m1 where "skip_all os i m = Some m1" "m' = m1"
        using run \<open>mp_active m = Some i\<close> i rr None by (auto simp: mread_pull_def socket_at_def bind_eq_Some_conv)
      then show ?thesis using skip_all_grows ok i(2) by blast
    next
      case 5
      then show ?thesis using run \<open>mp_active m = Some i\<close> i rr None by (auto simp: mread_pull_def socket_at_def)
    next
      case 4
      then have st: "alive (s_status ?s)" "s_status ?s \<noteq> SOCKET_READ" "s_status ?s \<notin> {SOCKET_CLOSED, SOCKET_SUSPEND}"
          "s_status ?s \<noteq> SOCKET_HALFCLOSE" by auto
      obtain rd blk m1 where b: "alloc_collect os i rd m = Some (blk, m1)"
        and rest: "(case blk of None \<Rightarrow> Some (None, m1) | Some blk \<Rightarrow> do {
                 (ready, m) \<leftarrow> pull_read os i blk rd (wrap (sz - n)) m1;
                 if ready then do { m \<leftarrow> link_node i blk m; pull_data os i sz m } else Some (None, m) }) = Some (r, m')"
        using run st 4 \<open>mp_active m = Some i\<close> i rr None by (auto simp: mread_pull_def socket_at_def bind_eq_Some_conv Let_def)
      have g: "grows m m1" and same: "blk \<noteq> None \<Longrightarrow> mp_sockets m1 ! i = ?s" using alloc_collect_grows [OF b] ok by auto
      show ?thesis
      proof (cases blk)
        case None
        then show ?thesis using rest g by simp
      next
        case (Some k)
        have ok1: "pool_ok m1" "alive (s_status (mp_sockets m1 ! i))" using g same Some st by (simp_all add: grows_def)
        obtain ready m2 where m2: "pull_read os i k rd (wrap (sz - n)) m1 = Some (ready, m2)" using rest Some by (auto simp: bind_eq_Some_conv)
        note g2 = pull_read_grows [OF ok1(1) m2 ok1(2)]
        show ?thesis
        proof (cases ready)
          case False
          then show ?thesis using rest Some m2 grows_trans [OF g g2(1)] by simp
        next
          case True
          then obtain m3 where m3: "link_node i k m2 = Some m3" "pull_data os i sz m3 = Some (r, m')"
            using rest Some m2 by (auto simp: bind_eq_Some_conv)
          have ok2: "pool_ok m2" "alive (s_status (mp_sockets m2 ! i))" using g2 True by (simp_all add: grows_def)
          note g3 = link_node_grows [OF ok2(1) m3(1) ok2(2)]
          have "pool_ok m3" "alive (s_status (mp_sockets m3 ! i))" using g3 ok2 by (simp_all add: grows_def)
          then have "grows m3 m'" by (intro pull_data_grows [OF _ m3(2)])
          then show ?thesis using grows_trans [OF g grows_trans [OF g2(1) grows_trans [OF g3(1)]]] by blast
        qed
      qed
    qed
  qed
qed

section \<open>Creation\<close>

lemma create_sockets_free:
  assumes "create_sockets n = Some ss"
  shows "length ss = n" "0 < n" "free_list ss (Some 0) [0..<n]" "\<forall>s \<in> set ss. s_status s = SOCKET_INVALID \<and> idle s"
proof -
  show n: "0 < n" using assms by (simp add: create_sockets_def)
  show len: "length ss = n" using assms by (auto simp: create_sockets_def)
  have nth: "ss ! i = \<lparr>s_fd = (if i = n - 1 then -1 else int i + 1), s_node = None, s_temp = None, s_client = [], s_enablewrite = False,
                     s_status = SOCKET_INVALID, s_ip = [], s_port = 0\<rparr>" if "i < n" for i
    using assms that by (auto simp: create_sockets_def nth_list_update)
  then show "\<forall>s \<in> set ss. s_status s = SOCKET_INVALID \<and> idle s"
    using len by (auto simp: in_set_conv_nth idle_def)
  have "free_list ss (if k < n then Some k else None) [k..<n]" if "k \<le> n" for k
    using that
  proof (induction rule: inc_induct)
    case (step k)
    have "next_free (ss ! k) = (if Suc k < n then Some (Suc k) else None)" using nth [of k] step.hyps by auto
    then show ?case using step nth [of k] len by (simp add: upt_conv_Cons del: upt_Suc)
  qed simp
  from this [of 0] n show "free_list ss (Some 0) [0..<n]" by simp
qed

lemma mread_create_ok:
  assumes "mread_create os addr port n b w = Some (Some m, w')"
  shows "pool_ok m \<and> mp_max_connection m = n \<and> 0 < n"
proof -
  obtain ss where ss: "create_sockets n = Some ss" and m: "mp_sockets m = ss" "mp_max_connection m = n" "mp_closed m = 0"
      "mp_active m = None" "mp_free_socket m = Some 0"
    using assms by (auto simp: mread_create_def Let_def bind_eq_Some_conv split: prod.splits if_splits)
  note c = create_sockets_free [OF ss]
  have "count_closed ss = 0" using c(4) by (auto simp: count_closed_def filter_empty_conv)
  moreover have "\<exists>fs. free_list ss (Some 0) fs \<and> distinct fs" using c(3) by (rule exI [of _ "[0..<n]", OF conjI]) simp
  ultimately show ?thesis using c m unfolding pool_ok_def by simp
qed

section \<open>Reachable pools\<close>

inductive pool_reach :: "'w os \<Rightarrow> 'w mread_pool \<Rightarrow> bool" for os where
  create: "mread_create os addr port n b w = Some (Some m, w') \<Longrightarrow> pool_reach os m"
| push: "pool_reach os m \<Longrightarrow> mread_push os i buf ptr m = Some m' \<Longrightarrow> pool_reach os m'"
| poll: "pool_reach os m \<Longrightarrow> mread_poll os timeout m = Some (r, m') \<Longrightarrow> pool_reach os m'"
| pull: "pool_reach os m \<Longrightarrow> mread_pull os sz m = Some (p, m') \<Longrightarrow> pool_reach os m'"
| yield: "pool_reach os m \<Longrightarrow> mread_yield m = Some m' \<Longrightarrow> pool_reach os m'"
| closed: "pool_reach os m \<Longrightarrow> mread_closed m = Some (c, m') \<Longrightarrow> pool_reach os m'"
| close_client: "pool_reach os m \<Longrightarrow> mread_close_client os i m = Some m' \<Longrightarrow> pool_reach os m'"

lemma pool_reach_ok: "pool_reach os m \<Longrightarrow> pool_ok m"
proof (induction rule: pool_reach.induct)
  case (create addr port n b w m w')
  show ?case using mread_create_ok [OF create] by simp
next
  case (push m i buf ptr m')
  show ?case by (rule mread_push_ok(1) [OF push.IH push.hyps(2)])
next
  case (poll m timeout r m')
  show ?case using mread_poll_ok [OF poll.IH poll.hyps(2)] by simp
next
  case (pull m sz p m')
  show ?case using mread_pull_grows [OF pull.IH pull.hyps(2)] by (simp add: grows_def)
next
  case (yield m m')
  show ?case using mread_yield_ok [OF yield.IH yield.hyps(2)] by simp
next
  case (closed m c m')
  show ?case using mread_closed_ok [OF closed.IH closed.hyps(2)] by simp
next
  case (close_client m i m')
  show ?case by (rule mread_close_client_ok(1) [OF close_client.IH close_client.hyps(2)])
qed

text \<open>
  C17: In every state the operations of the connection pool can reach, whatever the system answers,
  the free list consists of unused slots only, \<open>closed\<close> is the number of closed connections (so the
  assertion of \<open>_report_closed\<close> never fails), slots that are not in use have nothing queued and no
  data, and the active connection is one in use.
\<close>

theorem mread_pool_invariant:
  assumes "pool_reach os m"
  shows "pool_ok m \<and> (0 < mp_closed m \<longrightarrow> (\<exists>i < mp_max_connection m. report_closed m = Some (i, m\<lparr>mp_active := Some i\<rparr>)))"
  using pool_reach_ok [OF assms] report_closed_ok by blast

text \<open>
  A new connection gets a slot that no other connection uses: the slot was free, it leaves the
  free list, and all other slots stay as they are.
\<close>

theorem accept_takes_free_slot:
  assumes "pool_reach os m" "accept_client os m = Some (Some i, m')"
  shows "s_status (mp_sockets m ! i) = SOCKET_INVALID \<and> s_status (mp_sockets m' ! i) = SOCKET_CONNECTED \<and>
    (\<forall>j. j \<noteq> i \<longrightarrow> mp_sockets m' ! j = mp_sockets m ! j) \<and>
    (\<exists>fs. free_list (mp_sockets m') (mp_free_socket m') fs \<and> i \<notin> set fs)"
proof -
  have ok: "pool_ok m" by (rule pool_reach_ok [OF assms(1)])
  note ac = accept_client_ok [OF ok assms(2)]
  then obtain fs where fs: "free_list (mp_sockets m') (mp_free_socket m') fs" by (auto simp: pool_ok_def)
  moreover have "i \<notin> set fs" using free_list_invalid [OF fs, of i] ac by auto
  ultimately show ?thesis using ac by blast
qed

end
