(* ===== verification/MreadSend.thy ===== *)
theory MreadSend
  imports PullInv
begin

text \<open>
  What the gate writes to a connection: the bytes given to \<open>mread_push\<close>, in that order, whatever
  part of them the system takes at a time.
\<close>

section \<open>The system's side\<close>

text \<open>
  \<open>sent w fd\<close> are the bytes the system has taken for \<open>fd\<close>: \<open>write\<close> takes a prefix of the buffer and says
  how long it is, and nothing when it fails; the other calls take nothing.
\<close>

definition records_writes :: "'w os \<Rightarrow> ('w \<Rightarrow> int \<Rightarrow> u8 list) \<Rightarrow> bool" where
  "records_writes os sent \<longleftrightarrow>
     (\<forall>fd b w n w'. os_write os fd b w = (Done n, w') \<longrightarrow> n \<le> length b \<and> sent w' = (sent w)(fd := sent w fd @ take n b)) \<and>
     (\<forall>fd b w e w'. os_write os fd b w = (Fail e, w') \<longrightarrow> sent w' = sent w) \<and>
     (\<forall>p w. sent (os_free os p w) = sent w) \<and> (\<forall>e c fd w. sent (snd (os_epoll_ctl os e c fd w)) = sent w) \<and>
     (\<forall>fd w. sent (os_close os fd w) = sent w)"

definition pending :: "send_buffer list \<Rightarrow> u8 list" where
  "pending c = concat (map sb_buff c)"

lemma pending_simps [simp]: "pending [] = []" "pending (sb # c) = sb_buff sb @ pending c"
  "pending (client_push b p c) = pending c @ b"
  by (simp_all add: pending_def client_push_def)

lemma free_buffer_sent [simp]: "records_writes os sent \<Longrightarrow> sent (free_buffer os c w) = sent w"
  unfolding free_buffer_def by (induction c arbitrary: w) (auto simp: records_writes_def)

lemma write_retry_sent:
  assumes "write_retry os fd b w = Some y"
  shows "records_writes os sent \<longrightarrow> (case y of
      (Done n, w') \<Rightarrow> n \<le> length b \<and> sent w' = (sent w)(fd := sent w fd @ take n b)
    | (Fail e, w') \<Rightarrow> e \<noteq> EINTR \<and> sent w' = sent w)"
  using assms
proof (induction rule: write_retry.raw_induct [rotated 1, consumes 1])
  case (1 f os fd b w y)
  obtain r w' where r: "os_write os fd b w = (r, w')" by fastforce
  show ?case
  proof (cases "r = Fail EINTR")
    case True
    then have run: "f os fd b w' = Some y" using 1(2) r by simp
    show ?thesis
    proof
      assume rec: "records_writes os sent"
      then have same: "sent w' = sent w" using r True by (auto simp: records_writes_def)
      show "case y of (Done n, w') \<Rightarrow> n \<le> length b \<and> sent w' = (sent w)(fd := sent w fd @ take n b)
        | (Fail e, w') \<Rightarrow> e \<noteq> EINTR \<and> sent w' = sent w"
        using 1(1) [OF run, THEN mp, OF rec] unfolding same .
    qed
  next
    case False
    then have "y = (r, w')" using 1(2) r by simp
    then show ?thesis using r False by (auto simp: records_writes_def split: sysret.split)
  qed
qed

lemma client_send_sent:
  assumes rec: "records_writes os sent"
  shows "client_send os fd c w = Some (c', w') \<Longrightarrow>
    (\<forall>fd'. fd' \<noteq> fd \<longrightarrow> sent w' fd' = sent w fd') \<and>
    (sent w' fd @ pending c' = sent w fd @ pending c \<or> c' = [] \<and> (\<exists>k. sent w' fd = sent w fd @ take k (pending c)))"
proof (induction c arbitrary: w)
  case Nil
  then show ?case by simp
next
  case (Cons sb c)
  obtain r w1 where r: "write_retry os fd (sb_buff sb) w = Some (r, w1)" using Cons.prems by (auto simp: bind_eq_Some_conv)
  note wr = write_retry_sent [OF r, of sent, THEN mp, OF rec]
  show ?case
  proof (cases r)
    case (Fail e)
    then have "sent w1 = sent w" using wr by simp
    moreover have "c' = sb # c \<and> w' = w1 \<or> c' = [] \<and> w' = free_buffer os (sb # c) w1"
      using Cons.prems r Fail by (auto split: if_splits)
    ultimately show ?thesis using rec by (auto intro!: exI [of _ 0])
  next
    case (Done n)
    then have n: "n \<le> length (sb_buff sb)" "sent w1 = (sent w)(fd := sent w fd @ take n (sb_buff sb))" using wr by simp_all
    show ?thesis
    proof (cases "n = length (sb_buff sb)")
      case False
      then have "c' = sb\<lparr>sb_buff := drop n (sb_buff sb)\<rparr> # c" "w' = w1" using Cons.prems r Done by (auto simp: bind_eq_Some_conv)
      then show ?thesis using n(2) by simp
    next
      case True
      then have run: "client_send os fd c (os_free os (sb_ptr sb) w1) = Some (c', w')" using Cons.prems r Done by simp
      have s: "sent (os_free os (sb_ptr sb) w1) = (sent w)(fd := sent w fd @ sb_buff sb)"
        using rec n True by (simp add: records_writes_def)
      have same: "sent (os_free os (sb_ptr sb) w1) fd = sent w fd @ sb_buff sb"
        "\<forall>fd'. fd' \<noteq> fd \<longrightarrow> sent (os_free os (sb_ptr sb) w1) fd' = sent w fd'" by (simp_all add: s)
      note IH = Cons.IH [OF run, unfolded same(1)]
      have others: "\<forall>fd'. fd' \<noteq> fd \<longrightarrow> sent w' fd' = sent w fd'" using IH same(2) by simp
      from IH consider "sent w' fd @ pending c' = (sent w fd @ sb_buff sb) @ pending c"
        | k where "c' = []" "sent w' fd = (sent w fd @ sb_buff sb) @ take k (pending c)" by blast
      then show ?thesis
      proof cases
        case 1
        then show ?thesis using others by simp
      next
        case 2
        then have "sent w' fd = sent w fd @ take (length (sb_buff sb) + k) (pending (sb # c))" by simp
        then show ?thesis using others 2(1) by blast
      qed
    qed
  qed
qed

lemma push_write_sent:
  assumes "push_write os fd b w = Some y"
  shows "records_writes os sent \<longrightarrow> (\<exists>k. sent (snd y) = (sent w)(fd := sent w fd @ take k b)) \<and>
    (fst y = Written \<longrightarrow> sent (snd y) fd = sent w fd @ b) \<and>
    (\<forall>b'. fst y = Pending b' \<longrightarrow> sent (snd y) fd @ b' = sent w fd @ b)"
  using assms
proof (induction rule: push_write.raw_induct [rotated 1, consumes 1])
  case (1 f os fd b w y)
  have "(\<exists>k. sent (snd y) = (sent w)(fd := sent w fd @ take k b)) \<and>
    (fst y = Written \<longrightarrow> sent (snd y) fd = sent w fd @ b) \<and>
    (\<forall>b'. fst y = Pending b' \<longrightarrow> sent (snd y) fd @ b' = sent w fd @ b)" if rec: "records_writes os sent"
  proof -
    obtain r w1 where r: "write_retry os fd b w = Some (r, w1)" using 1(2) by (auto simp: bind_eq_Some_conv)
    note wr = write_retry_sent [OF r, of sent, THEN mp, OF rec]
    show ?thesis
    proof (cases r)
      case (Fail e)
      then have s: "sent w1 = sent w" using wr by simp
      have y: "y = (if e = EWOULDBLOCK then Pending b else Broken, w1)" using 1(2) r Fail by simp
      show ?thesis unfolding y using s by (auto simp: fun_upd_idem intro!: exI [of _ 0])
    next
      case (Done n)
      then have n: "n \<le> length b" "sent w1 = (sent w)(fd := sent w fd @ take n b)" using wr by simp_all
      show ?thesis
      proof (cases "n = length b")
        case True
        then have y: "y = (Written, w1)" using 1(2) r Done by simp
        show ?thesis unfolding y using n True by (auto intro!: exI [of _ n])
      next
        case False
        then have run: "f os fd (drop n b) w1 = Some y" using 1(2) r Done by simp
        note IH = 1(1) [OF run, THEN mp, OF rec]
        obtain k where k: "sent (snd y) = (sent w1)(fd := sent w1 fd @ take k (drop n b))" using IH by blast
        have t: "take n b @ take k (drop n b) = take (n + k) b" by (simp add: take_add)
        have "sent (snd y) = (sent w)(fd := sent w fd @ take (n + k) b)" unfolding k n(2) by (simp add: t)
        moreover have "sent w1 fd @ drop n b = sent w fd @ b" unfolding n(2) by simp
        ultimately show ?thesis using IH by (metis append.assoc n(2) fun_upd_same append_take_drop_id)
      qed
    qed
  qed
  then show ?case by blast
qed

section \<open>Without write errors\<close>

text \<open>\<open>write\<close> fails at most because it is interrupted or there is no room.\<close>

definition no_write_error :: "'w os \<Rightarrow> bool" where
  "no_write_error os \<longleftrightarrow> (\<forall>fd b w. fst (os_write os fd b w) \<noteq> Fail EOTHER)"

lemma write_retry_from:
  assumes "write_retry os fd b w = Some y"
  shows "no_write_error os \<longrightarrow> fst y \<noteq> Fail EOTHER \<and> fst y \<noteq> Fail EINTR"
  using assms
proof (induction rule: write_retry.raw_induct [rotated 1, consumes 1])
  case (1 f os fd b w y)
  obtain r w' where r: "os_write os fd b w = (r, w')" by fastforce
  then have ne: "no_write_error os \<longrightarrow> r \<noteq> Fail EOTHER" unfolding no_write_error_def by (metis fst_conv)
  show ?case
  proof (cases "r = Fail EINTR")
    case True
    then have "f os fd b w' = Some y" using 1(2) r by simp
    then show ?thesis by (rule 1(1))
  next
    case False
    then have "y = (r, w')" using 1(2) r by simp
    then show ?thesis using ne False by simp
  qed
qed

lemma retry_fail: "write_retry os fd b w = Some (Fail e, w') \<Longrightarrow> no_write_error os \<Longrightarrow> e = EWOULDBLOCK"
  using write_retry_from [of os fd b w "(Fail e, w')"] by (cases e) auto

lemma client_send_stream:
  assumes rec: "records_writes os sent" and ne: "no_write_error os"
  shows "client_send os fd c w = Some (c', w') \<Longrightarrow> sent w' fd @ pending c' = sent w fd @ pending c"
proof (induction c arbitrary: w)
  case (Cons sb c)
  obtain r w1 where r: "write_retry os fd (sb_buff sb) w = Some (r, w1)" using Cons.prems by (auto simp: bind_eq_Some_conv)
  note wr = write_retry_sent [OF r, of sent, THEN mp, OF rec]
  show ?case
  proof (cases r)
    case (Fail e)
    then show ?thesis using wr Cons.prems r retry_fail [OF _ ne] by auto
  next
    case (Done n)
    then have n: "n \<le> length (sb_buff sb)" "sent w1 = (sent w)(fd := sent w fd @ take n (sb_buff sb))" using wr by simp_all
    show ?thesis
    proof (cases "n = length (sb_buff sb)")
      case False
      then have "c' = sb\<lparr>sb_buff := drop n (sb_buff sb)\<rparr> # c" "w' = w1" using Cons.prems r Done by (auto simp: bind_eq_Some_conv)
      then show ?thesis using n(2) by simp
    next
      case True
      then have run: "client_send os fd c (os_free os (sb_ptr sb) w1) = Some (c', w')" using Cons.prems r Done by simp
      have "sent (os_free os (sb_ptr sb) w1) fd = sent w fd @ sb_buff sb" using rec n True by (simp add: records_writes_def)
      then show ?thesis using Cons.IH [OF run] by simp
    qed
  qed
qed simp

lemma push_write_not_broken:
  assumes "push_write os fd b w = Some y"
  shows "no_write_error os \<longrightarrow> fst y \<noteq> Broken"
  using assms
proof (induction rule: push_write.raw_induct [rotated 1, consumes 1])
  case (1 f os fd b w y)
  obtain r w1 where r: "write_retry os fd b w = Some (r, w1)" using 1(2) by (auto simp: bind_eq_Some_conv)
  show ?case
  proof (cases r)
    case (Fail e)
    then show ?thesis using 1(2) r retry_fail [of os fd b w e w1] by auto
  next
    case (Done n)
    then show ?thesis using 1(1) [of os fd "drop n b" w1 y] 1(2) r by (cases "n = length b") auto
  qed
qed

lemma turn_off_sent: "records_writes os sent \<Longrightarrow> turn_off os i m = Some m' \<Longrightarrow> sent (mp_world m') = sent (mp_world m)"
  by (auto simp: turn_off_def bind_eq_Some_conv epoll_ctl_def records_writes_def split_beta split: if_splits)

lemma turn_on_sent: "records_writes os sent \<Longrightarrow> turn_on os i m = Some m' \<Longrightarrow> sent (mp_world m') = sent (mp_world m)"
  by (auto simp: turn_on_def bind_eq_Some_conv epoll_ctl_def records_writes_def split_beta split: if_splits)

lemma try_close_sent:
  assumes rec: "records_writes os sent" and run: "try_close os i m = Some m'"
  shows "sent (mp_world m') = sent (mp_world m)"
proof -
  obtain s m1 s1 where s: "socket_at i m = Some s" and m1: "(if s_client s = [] then turn_off os i m else Some m) = Some m1"
    and s1: "socket_at i m1 = Some s1"
    using run by (auto simp: try_close_def bind_eq_Some_conv)
  have w1: "sent (mp_world m1) = sent (mp_world m)" using m1 turn_off_sent [OF rec] by (auto split: if_splits)
  show ?thesis
  proof (cases "s_status s1 = SOCKET_HALFCLOSE \<and> s_client s1 = []")
    case True
    then show ?thesis using run s m1 s1 w1 rec by (auto simp: try_close_def epoll_ctl_def records_writes_def split_beta Let_def)
  next
    case False
    then have "m' = m1" using run s m1 s1 by (auto simp: try_close_def split: if_splits)
    then show ?thesis using w1 by simp
  qed
qed

section \<open>The stream of a connection\<close>

datatype send_op = Push "u8 list" nat | Writable

fun send_run :: "'w os \<Rightarrow> nat \<Rightarrow> send_op list \<Rightarrow> 'w mread_pool \<Rightarrow> 'w mread_pool option" where
  "send_run os i [] m = Some m"
| "send_run os i (Push b p # ops) m = do { m \<leftarrow> mread_push os i b p m; send_run os i ops m }"
| "send_run os i (Writable # ops) m = do { m \<leftarrow> write_event os i m; send_run os i ops m }"

fun pushed :: "send_op list \<Rightarrow> u8 list" where
  "pushed [] = []"
| "pushed (Push b p # ops) = b @ pushed ops"
| "pushed (Writable # ops) = pushed ops"

lemma mread_push_stream:
  assumes rec: "records_writes os sent" and ne: "no_write_error os" and ok: "pool_ok m"
    and st: "alive (s_status (mp_sockets m ! i))" "s_status (mp_sockets m ! i) \<noteq> SOCKET_HALFCLOSE"
    and run: "mread_push os i b p m = Some m'"
  shows "sent (mp_world m') (s_fd (mp_sockets m ! i)) @ pending (s_client (mp_sockets m' ! i)) =
      sent (mp_world m) (s_fd (mp_sockets m ! i)) @ pending (s_client (mp_sockets m ! i)) @ b"
    and "s_status (mp_sockets m' ! i) = s_status (mp_sockets m ! i)" "s_fd (mp_sockets m' ! i) = s_fd (mp_sockets m ! i)"
proof -
  let ?s = "mp_sockets m ! i" let ?fd = "s_fd (mp_sockets m ! i)"
  have i: "i < length (mp_sockets m)" using run by (auto simp: mread_push_def socket_at_Some bind_eq_Some_conv)
  obtain r w where r: "(if s_client ?s = [] then push_write os ?fd b (mp_world m) else Some (Pending b, mp_world m)) = Some (r, w)"
    and rest: "(case r of Written \<Rightarrow> Some (m\<lparr>mp_world := os_free os p w\<rparr>)
       | Broken \<Rightarrow> try_close os i (set_socket i (?s\<lparr>s_status := SOCKET_HALFCLOSE\<rparr>) (m\<lparr>mp_world := w\<rparr>))
       | Pending b \<Rightarrow> turn_on os i (set_socket i (?s\<lparr>s_client := client_push b p (s_client ?s)\<rparr>) (m\<lparr>mp_world := w\<rparr>))) = Some m'"
    by (rule mread_push_phases [OF run i refl]) (use st in \<open>auto simp: alive_iff\<close>)
  have "sent (mp_world m') ?fd @ pending (s_client (mp_sockets m' ! i)) = sent (mp_world m) ?fd @ pending (s_client ?s) @ b \<and>
    s_status (mp_sockets m' ! i) = s_status ?s \<and> s_fd (mp_sockets m' ! i) = ?fd"
  proof (cases r)
    case Broken
    then have "push_write os ?fd b (mp_world m) = Some (Broken, w)" using r by (auto split: if_splits)
    then show ?thesis using push_write_not_broken ne by fastforce
  next
    case Written
    then have c: "s_client ?s = []" and w: "sent w ?fd = sent (mp_world m) ?fd @ b"
      using r push_write_sent [of os ?fd b "mp_world m" "(Written, w)" sent] rec by (auto split: if_splits)
    then show ?thesis using rest Written rec by (auto simp: records_writes_def)
  next
    case (Pending b')
    have w: "sent w ?fd @ pending (s_client ?s) @ b' = sent (mp_world m) ?fd @ pending (s_client ?s) @ b"
      using r Pending push_write_sent [of os ?fd b "mp_world m" "(Pending b', w)" sent] rec by (auto split: if_splits)
    let ?m = "set_socket i (?s\<lparr>s_client := client_push b' p (s_client ?s)\<rparr>) (m\<lparr>mp_world := w\<rparr>)"
    have on: "turn_on os i ?m = Some m'" using rest Pending by simp
    have okm: "pool_ok ?m" using ok i st by (intro pool_ok_set_same) (simp_all add: alive_iff)
    have "sent (mp_world m') = sent w" using turn_on_sent [OF rec on] by simp
    then show ?thesis using turn_on_ok(3) [OF okm on] i w by auto
  qed
  then show "sent (mp_world m') ?fd @ pending (s_client (mp_sockets m' ! i)) = sent (mp_world m) ?fd @ pending (s_client ?s) @ b"
    "s_status (mp_sockets m' ! i) = s_status ?s" "s_fd (mp_sockets m' ! i) = ?fd" by simp_all
qed

lemma write_event_stream:
  assumes rec: "records_writes os sent" and ne: "no_write_error os" and ok: "pool_ok m"
    and st: "alive (s_status (mp_sockets m ! i))" "s_status (mp_sockets m ! i) \<noteq> SOCKET_HALFCLOSE"
    and run: "write_event os i m = Some m'"
  shows "sent (mp_world m') (s_fd (mp_sockets m ! i)) @ pending (s_client (mp_sockets m' ! i)) =
      sent (mp_world m) (s_fd (mp_sockets m ! i)) @ pending (s_client (mp_sockets m ! i))"
    and "s_status (mp_sockets m' ! i) = s_status (mp_sockets m ! i)" "s_fd (mp_sockets m' ! i) = s_fd (mp_sockets m ! i)"
proof -
  let ?s = "mp_sockets m ! i" let ?fd = "s_fd (mp_sockets m ! i)"
  have i: "i < length (mp_sockets m)" using run by (auto simp: write_event_def socket_at_Some bind_eq_Some_conv)
  obtain c w where c: "client_send os ?fd (s_client ?s) (mp_world m) = Some (c, w)"
    and run': "try_close os i ((set_socket i (?s\<lparr>s_client := c\<rparr>) m)\<lparr>mp_world := w\<rparr>) = Some m'"
    using run i by (auto simp: write_event_def socket_at_def bind_eq_Some_conv)
  let ?m = "(set_socket i (?s\<lparr>s_client := c\<rparr>) m)\<lparr>mp_world := w\<rparr>"
  have "pool_ok (set_socket i (?s\<lparr>s_client := c\<rparr>) m)" using ok i st by (intro pool_ok_set_same) (simp_all add: alive_iff)
  then have okm: "pool_ok ?m" by simp
  have s: "sent (mp_world m') = sent w" using try_close_sent [OF rec run'] by simp
  have t: "\<exists>e. mp_sockets m' ! i = (mp_sockets ?m ! i)\<lparr>s_enablewrite := e\<rparr>" using try_close_ok(3) [OF okm run'] i st by simp
  show "sent (mp_world m') ?fd @ pending (s_client (mp_sockets m' ! i)) = sent (mp_world m) ?fd @ pending (s_client ?s)"
    "s_status (mp_sockets m' ! i) = s_status ?s" "s_fd (mp_sockets m' ! i) = ?fd"
    using client_send_stream [OF rec ne c] s t i by auto
qed

text \<open>
  C18: The bytes a connection gets are the buffers that were pushed for it, in the order of the pushes
  and without a gap or a repetition, however the system splits the writes: what it has taken and what
  still waits are together always exactly what was pushed, as long as no write fails for another
  reason than lack of room.
\<close>

theorem mread_send_order:
  assumes "records_writes os sent" "no_write_error os" "pool_ok m"
    and "alive (s_status (mp_sockets m ! i))" "s_status (mp_sockets m ! i) \<noteq> SOCKET_HALFCLOSE"
    and "send_run os i ops m = Some m'"
  shows "sent (mp_world m') (s_fd (mp_sockets m ! i)) @ pending (s_client (mp_sockets m' ! i)) =
      sent (mp_world m) (s_fd (mp_sockets m ! i)) @ pending (s_client (mp_sockets m ! i)) @ pushed ops \<and> pool_ok m'"
  using assms(3-6)
proof (induction ops arbitrary: m rule: pushed.induct)
  case 1
  then show ?case by simp
next
  case (2 b p ops)
  then obtain m1 where m1: "mread_push os i b p m = Some m1" "send_run os i ops m1 = Some m'" by (auto simp: bind_eq_Some_conv)
  note p = mread_push_stream [OF assms(1,2) "2.prems"(1,2,3) m1(1)]
  have "pool_ok m1" by (rule mread_push_ok(1) [OF "2.prems"(1) m1(1)])
  from "2.IH" [OF this _ _ m1(2)] show ?case using "2.prems"(2,3) p by simp
next
  case (3 ops)
  then obtain m1 where m1: "write_event os i m = Some m1" "send_run os i ops m1 = Some m'" by (auto simp: bind_eq_Some_conv)
  note p = write_event_stream [OF assms(1,2) "3.prems"(1,2,3) m1(1)]
  have "s_status (mp_sockets m ! i) \<noteq> SOCKET_CLOSED" using "3.prems"(2) by (simp add: alive_iff)
  then have "pool_ok m1" by (rule write_event_ok(1) [OF "3.prems"(1) m1(1)])
  from "3.IH" [OF this _ _ m1(2)] show ?case using "3.prems"(2,3) p by simp
qed

end
