(* ===== verification/Gate.thy ===== *)
theory Gate
  imports MreadPull Server
begin

text \<open>
  \<open>gate/main.c\<close>: the gate service.  It polls the connection pool of \<open>gate/mread.c\<close>, gives every
  connection an id, cuts what a connection sends into packets (a length in front of each) and sends
  every packet to the service in charge of the connection; messages of type \<open>PTYPE_CLIENT\<close> are
  written to the connection they name.  The state is \<open>struct gate\<close> together with the node the service
  runs on; the build is the one of the theory \<open>Mread\<close> (no \<open>WEBSOCKET\<close>).
\<close>

unbundle bit_operations_syntax

section \<open>State\<close>

record connection =
  c_agent :: u32
  c_client :: u32
  c_connection_id :: nat
  c_uid :: i32

record 'w gate =
  g_pool :: "'w mread_pool"
  g_watchdog :: u32
  g_broker :: u32
  g_id_index :: i32
  g_cap :: nat
  g_max_connection :: nat
  g_client_tag :: i32
  g_header :: char
  g_header_size :: int
  g_agent :: "nat option list"
  g_map :: "connection list"

definition gate_conn :: "'w gate \<Rightarrow> nat \<Rightarrow> connection" where
  "gate_conn g c = g_map g ! c"

text \<open>The slot of a uid, \<open>uid & (g->cap - 1)\<close>, and the connection in it.\<close>

definition id_to_agent :: "'w gate \<Rightarrow> i32 \<Rightarrow> nat option" where
  "id_to_agent g uid =
     (case g_agent g ! slot_index uid (g_cap g) of
        Some c \<Rightarrow> if c_uid (gate_conn g c) = uid then Some c else None
      | None \<Rightarrow> None)"

definition forward_agent :: "i32 \<Rightarrow> u32 \<Rightarrow> u32 \<Rightarrow> 'w gate \<Rightarrow> 'w gate" where
  "forward_agent id' agentaddr clientaddr g =
     (case id_to_agent g id' of
        Some c \<Rightarrow> g\<lparr>g_map := (g_map g)[c := (gate_conn g c)\<lparr>c_agent := agentaddr, c_client := clientaddr\<rparr>]\<rparr>
      | None \<Rightarrow> g)"

definition gen_id :: "nat \<Rightarrow> 'w gate \<Rightarrow> (i32 \<times> 'w gate) option" where
  "gen_id connection_id g = do {
     let uid = g_id_index g + 1;
     i \<leftarrow> find (\<lambda>i. g_agent g ! slot_index (uid + of_nat i) (g_cap g) = None) [0..<g_cap g];
     let uid = uid + of_nat i;
     c_assert (connection_id < length (g_map g));
     Some (uid, g\<lparr>g_map := (g_map g)[connection_id := (gate_conn g connection_id)\<lparr>c_uid := uid\<rparr>],
                  g_agent := (g_agent g)[slot_index uid (g_cap g) := Some connection_id],
                  g_id_index := uid\<rparr>)
   }"

definition remove_id :: "i32 \<Rightarrow> 'w gate \<Rightarrow> 'w gate option" where
  "remove_id uid g =
     (case g_agent g ! slot_index uid (g_cap g) of
        Some c \<Rightarrow> do {
          c_assert (c_uid (gate_conn g c) = uid);
          Some (g\<lparr>g_map := (g_map g)[c := (gate_conn g c)\<lparr>c_uid := 0, c_agent := 0\<rparr>],
                  g_agent := (g_agent g)[slot_index uid (g_cap g) := None]\<rparr>)
        }
      | None \<Rightarrow> Some g)"

section \<open>Text commands\<close>

text \<open>
  The text of a command is the array \<open>tmp\<close> of \<open>sz + 1\<close> characters, the last one NUL, which \<open>_parm\<close> and
  \<open>strsep\<close> change in place.  \<open>cstr_at\<close> is the C string that starts at an index.
\<close>

definition cstr_at :: "string \<Rightarrow> nat \<Rightarrow> string option" where
  "cstr_at a p = (if CHR 0x00 \<in> set (drop p a) then Some (takeWhile (\<lambda>c. c \<noteq> CHR 0x00) (drop p a)) else None)"

text \<open>
  \<open>memcmp(command, lit, i) == 0\<close>, where \<open>i\<close> is the length of the first word.  The literal has
  \<open>length lit + 1\<close> bytes; a comparison that gets past them is an access outside.
\<close>

definition memcmp_word :: "string \<Rightarrow> string \<Rightarrow> nat \<Rightarrow> bool option" where
  "memcmp_word command lit i = do {
     let lit = lit @ [CHR 0x00];
     c_assert (i \<le> length lit \<or> take (length lit) command \<noteq> lit);
     Some (take i command = take i lit)
   }"

definition parm_shift :: "string \<Rightarrow> nat \<Rightarrow> nat \<Rightarrow> string" where
  "parm_shift msg sz command_sz =
     (let k = command_sz + length (takeWhile (\<lambda>c. c = CHR '' '') (drop command_sz (take sz msg)));
          m = sz - k
      in take m (drop k msg) @ CHR 0x00 # drop (m + 1) msg)"

text \<open>\<open>strsep(&p, " ")\<close> for the string at \<open>p\<close>: the changed array and what \<open>p\<close> is afterwards.\<close>

definition strsep :: "string \<Rightarrow> nat \<Rightarrow> string \<times> nat option" where
  "strsep a p =
     (let j = p + length (takeWhile (\<lambda>c. c \<noteq> CHR '' '' \<and> c \<noteq> CHR 0x00) (drop p a))
      in if j < length a \<and> a ! j = CHR '' '' then (a[j := CHR 0x00], Some (j + 1)) else (a, None))"

definition ctrl_forward :: "string \<Rightarrow> 'w gate \<Rightarrow> 'w gate option" where
  "ctrl_forward tmp g =
     (let (tmp, client) = strsep tmp 0 in
      case client of None \<Rightarrow> Some g | Some agent \<Rightarrow>
        let (tmp', client) = strsep tmp agent in do {
          idstr \<leftarrow> cstr_at tmp 0;
          case client of None \<Rightarrow> Some g | Some client \<Rightarrow> do {
            a \<leftarrow> cstr_at tmp' (agent + 1);
            c \<leftarrow> cstr_at tmp' (client + 1);
            Some (forward_agent (ucast (strtol10 idstr)) (ucast (strtoul16 a)) (ucast (strtoul16 c)) g)
          }
        })"

definition gate_ctrl ::
  "module_api \<Rightarrow> 'w os \<Rightarrow> nat \<Rightarrow> string \<Rightarrow> 'w gate \<times> node \<Rightarrow> ('w gate \<times> node) option" where
  "gate_ctrl api os ctx msg gn = (
     let (g, n) = gn; sz = length msg; tmp = msg @ [CHR 0x00] in
     if sz = 0 then Some (g, n) else
     let i = length (takeWhile (\<lambda>c. c \<noteq> CHR '' '') msg) in do {
       kick \<leftarrow> memcmp_word tmp ''kick'' i;
       if kick then do {
         t \<leftarrow> cstr_at (parm_shift tmp sz i) 0;
         case id_to_agent g (ucast (strtol10 t)) of
           Some c \<Rightarrow> do {
             m \<leftarrow> mread_close_client os (c_connection_id (gate_conn g c)) (g_pool g);
             Some (g\<lparr>g_pool := m\<rparr>, n)
           }
         | None \<Rightarrow> Some (g, n)
       } else do {
         forward \<leftarrow> memcmp_word tmp ''forward'' i;
         if forward then do { g \<leftarrow> ctrl_forward (parm_shift tmp sz i) g; Some (g, n) }
         else do {
           broker \<leftarrow> memcmp_word tmp ''broker'' i;
           if broker then do {
             t \<leftarrow> cstr_at (parm_shift tmp sz i) 0;
             (h, n) \<leftarrow> skynet_queryname api ctx t n;
             Some (g\<lparr>g_broker := h\<rparr>, n)
           } else do {
             start \<leftarrow> memcmp_word tmp ''start'' i;
             if start then do {
               (_, n) \<leftarrow> skynet_command api ctx ''TIMEOUT'' (Some ''0'') n;
               Some (g, n)
             } else do {
               t \<leftarrow> cstr_at tmp 0;
               n \<leftarrow> skynet_error api (Some ctx) (''[gate] Unkown command : '' @ t) n;
               Some (g, n)
             }
           }
         }
       }
     })"

section \<open>Messages to other services\<close>

text \<open>\<open>vsnprintf\<close> into 1024 bytes: the message has \<open>n\<close> bytes, of which the buffer holds at most 1023.\<close>

definition gate_report :: "module_api \<Rightarrow> nat \<Rightarrow> string \<Rightarrow> 'w gate \<times> node \<Rightarrow> ('w gate \<times> node) option" where
  "gate_report api ctx text' gn = do {
     let (g, n) = gn;
     if g_watchdog g = 0 then Some (g, n)
     else do {
       c_assert (length text' < 1024);
       (_, n) \<leftarrow> skynet_send api ctx 0 (g_watchdog g) PTYPE_TEXT 0 (PBytes text') (of_nat (length text')) n;
       Some (g, n)
     }
   }"

text \<open>\<open>len\<close> bytes of the buffer; a negative \<open>len\<close> is a huge \<open>size_t\<close>, which no copy survives.\<close>

definition data_at :: "ringbuffer \<Rightarrow> int \<Rightarrow> int \<Rightarrow> string option" where
  "data_at rb p len = do {
     c_assert (0 \<le> len \<and> 0 \<le> p \<and> p + len \<le> 4 * int (length (rb_mem rb)));
     Some (map (\<lambda>i. char_of_byte (byte (p + int i) rb)) [0..<nat len])
   }"

definition gate_forward ::
  "module_api \<Rightarrow> nat \<Rightarrow> i32 \<Rightarrow> int \<Rightarrow> int \<Rightarrow> 'w gate \<times> node \<Rightarrow> ('w gate \<times> node) option" where
  "gate_forward api ctx uid data len gn = (
     let (g, n) = gn in
     if g_broker g \<noteq> 0 then do {
       d \<leftarrow> data_at (mp_rb (g_pool g)) data len;
       (_, n) \<leftarrow> skynet_send api ctx 0 (g_broker g) (g_client_tag g) 0 (PBytes d) (of_int len) n;
       Some (g, n)
     } else
       case id_to_agent g uid of
         None \<Rightarrow> Some (g, n)
       | Some c \<Rightarrow>
           if c_agent (gate_conn g c) \<noteq> 0 then do {
             d \<leftarrow> data_at (mp_rb (g_pool g)) data len;
             (_, n) \<leftarrow> skynet_send api ctx (c_client (gate_conn g c)) (c_agent (gate_conn g c))
                         (g_client_tag g) 0 (PBytes d) (of_int len) n;
             Some (g, n)
           } else if g_watchdog g \<noteq> 0 then do {
             d \<leftarrow> data_at (mp_rb (g_pool g)) data len;
             let t = sprintf_d uid @ '' data '';
             (_, n) \<leftarrow> skynet_send api ctx 0 (g_watchdog g) (PTYPE_TEXT OR PTYPE_TAG_DONTCOPY) 0
                         (PBytes (t @ d)) (of_int len + of_nat (length t)) n;
             Some (g, n)
           } else Some (g, n))"

section \<open>The callback\<close>

definition gate_timeout :: "module_api \<Rightarrow> nat \<Rightarrow> string \<Rightarrow> 'w gate \<times> node \<Rightarrow> (int \<times> 'w gate \<times> node) option" where
  "gate_timeout api ctx ti gn = do {
     (_, n) \<leftarrow> skynet_command api ctx ''TIMEOUT'' (Some ti) (snd gn);
     Some (0, fst gn, n)
   }"

text \<open>A message of type \<open>PTYPE_CLIENT\<close>: the id of a connection in four bytes, and what to write to it.\<close>

definition le32 :: "u8 list \<Rightarrow> u32" where
  "le32 d = ucast (d ! 0) OR push_bit 8 (ucast (d ! 1)) OR push_bit 16 (ucast (d ! 2)) OR push_bit 24 (ucast (d ! 3))"

definition gate_client ::
  "module_api \<Rightarrow> 'w os \<Rightarrow> nat \<Rightarrow> nat \<Rightarrow> u32 \<Rightarrow> u8 list \<Rightarrow> 'w gate \<times> node \<Rightarrow> (int \<times> 'w gate \<times> node) option" where
  "gate_client api os ctx ptr source data gn = do {
     let (g, n) = gn;
     if length data \<le> 4 then do {
       n \<leftarrow> skynet_error api (Some ctx) (''Invalid client message from '' @ sprintf_x source) n;
       Some (0, g, n)
     } else case id_to_agent g (le32 data) of
         Some c \<Rightarrow> do {
           m \<leftarrow> mread_push os (c_connection_id (gate_conn g c)) (drop 4 data) ptr (g_pool g);
           Some (1, g\<lparr>g_pool := m\<rparr>, n)
         }
       | None \<Rightarrow> Some (0, g, n)
   }"

text \<open>
  What happens when \<open>mread_pull\<close> has returned \<open>NULL\<close>: the connection may be closed.  The test \<open>id\<close> is
  only made after the first of the two calls.
\<close>

definition gate_closed ::
  "module_api \<Rightarrow> nat \<Rightarrow> i32 \<Rightarrow> bool \<Rightarrow> 'w gate \<times> node \<Rightarrow> (int \<times> 'w gate \<times> node) option" where
  "gate_closed api ctx id' test gn = do {
     let (g, n) = gn;
     (closed, m) \<leftarrow> mread_closed (g_pool g);
     let g = g\<lparr>g_pool := m\<rparr>;
     gn \<leftarrow> (if closed \<and> (test \<longrightarrow> id' \<noteq> 0) then do {
              g \<leftarrow> remove_id id' g;
              gate_report api ctx (sprintf_d id' @ '' close'') (g, n)
            } else Some (g, n));
     gate_timeout api ctx ''0'' gn
   }"

definition policy_req :: string where "policy_req = ''<policy-file-request/>''"

text \<open>The quotation mark is character 34; the text ends with a NUL of its own.\<close>

definition policy_resp :: string where
  "policy_resp = ''<cross-domain-policy><allow-access-from domain='' @ [CHR 34, CHR ''*'', CHR 34] @ '' to-ports='' @
     [CHR 34, CHR ''*'', CHR 34] @ '' /></cross-domain-policy>'' @ [CHR 0x00]"

text \<open>The flash policy request (\<open>send\<close> without flags is \<open>write\<close>); the connection is closed in any case.\<close>

definition gate_policy :: "'w os \<Rightarrow> nat \<Rightarrow> int \<Rightarrow> 'w gate \<Rightarrow> 'w gate option" where
  "gate_policy os connection_id plen g = do {
     fd \<leftarrow> mread_socket connection_id (g_pool g);
     t \<leftarrow> data_at (mp_rb (g_pool g)) plen 22;
     let m = (if take 2 t = ''<p'' \<and> t = policy_req
              then (g_pool g)\<lparr>mp_world := snd (os_write os fd (map byte_of_char policy_resp) (mp_world (g_pool g)))\<rparr>
              else g_pool g);
     m \<leftarrow> mread_close_client os connection_id m;
     Some (g\<lparr>g_pool := m\<rparr>)
   }"

text \<open>The length of a packet, big-endian in the first two or four bytes; \<open>plen[0] << 24\<close> may be negative.\<close>

definition packet_length :: "int \<Rightarrow> ringbuffer \<Rightarrow> int \<Rightarrow> int option" where
  "packet_length header_size rb p = do {
     let b = (\<lambda>i. ucast (byte (p + i) rb) :: i32);
     c_assert (0 \<le> p \<and> p + (if header_size = 2 then 2 else 4) \<le> 4 * int (length (rb_mem rb)));
     if header_size = 2 then Some (sint (push_bit 8 (b 0) OR b 1))
     else Some (sint (push_bit 24 (b 0) OR push_bit 16 (b 1) OR push_bit 8 (b 2) OR b 3))
   }"

text \<open>A connection with an id and the pointer to the header of a packet: the packet itself.\<close>

definition gate_packet ::
  "module_api \<Rightarrow> 'w os \<Rightarrow> nat \<Rightarrow> i32 \<Rightarrow> int \<Rightarrow> 'w gate \<times> node \<Rightarrow> (int \<times> 'w gate \<times> node) option" where
  "gate_packet api os ctx id' plen gn = do {
     let (g, n) = gn;
     len \<leftarrow> packet_length (g_header_size g) (mp_rb (g_pool g)) plen;
     (data, m) \<leftarrow> mread_pull os len (g_pool g);
     let g = g\<lparr>g_pool := m\<rparr>;
     case data of
       None \<Rightarrow> gate_closed api ctx id' False (g, n)
     | Some data \<Rightarrow> do {
         (g, n) \<leftarrow> gate_forward api ctx id' data len (g, n);
         m \<leftarrow> mread_yield (g_pool g);
         gate_timeout api ctx ''0'' (g\<lparr>g_pool := m\<rparr>, n)
       }
   }"

text \<open>A connection that had no id yet gets one, and is announced to the watchdog.\<close>

definition gate_open :: "module_api \<Rightarrow> nat \<Rightarrow> nat \<Rightarrow> i32 \<Rightarrow> 'w gate \<times> node \<Rightarrow> (i32 \<times> 'w gate \<times> node) option" where
  "gate_open api ctx connection_id id' gn = do {
     let (g, n) = gn;
     if id' = 0 then do {
       (id', g) \<leftarrow> gen_id connection_id g;
       fd \<leftarrow> mread_socket connection_id (g_pool g);
       ip \<leftarrow> mread_client_ip connection_id (g_pool g);
       port \<leftarrow> mread_client_port connection_id (g_pool g);
       gn \<leftarrow> gate_report api ctx
         (sprintf_d id' @ '' open '' @ sprintf_d (of_int fd) @ '' '' @ ip @ '':'' @ sprintf_u (of_int port)) (g, n);
       Some (id', gn)
     } else Some (id', g, n)
   }"

definition gate_poll :: "module_api \<Rightarrow> 'w os \<Rightarrow> nat \<Rightarrow> 'w gate \<times> node \<Rightarrow> (int \<times> 'w gate \<times> node) option" where
  "gate_poll api os ctx gn = do {
     let (g, n) = gn;
     (r, m) \<leftarrow> mread_poll os 10 (g_pool g);
     let g = g\<lparr>g_pool := m\<rparr>;
     case r of
       None \<Rightarrow> gate_timeout api ctx ''1'' (g, n)
     | Some connection_id \<Rightarrow> do {
         c_assert (connection_id < length (g_map g));
         let id' = c_uid (gate_conn g connection_id);
         (plen, m) \<leftarrow> mread_pull os (g_header_size g) (g_pool g);
         let g = g\<lparr>g_pool := m\<rparr>;
         case plen of
           None \<Rightarrow> gate_closed api ctx id' True (g, n)
         | Some plen \<Rightarrow> do {
             (id', g, n) \<leftarrow> gate_open api ctx connection_id id' (g, n);
             g \<leftarrow> (if g_header g = CHR ''P'' then gate_policy os connection_id plen g else Some g);
             gate_packet api os ctx id' plen (g, n)
           }
       }
   }"

text \<open>\<open>ptr\<close> is the address of the message; the result 1 keeps it from being freed after the call.\<close>

definition gate_cb ::
  "module_api \<Rightarrow> 'w os \<Rightarrow> nat \<Rightarrow> nat \<Rightarrow> i32 \<Rightarrow> u32 \<Rightarrow> string \<Rightarrow> 'w gate \<times> node \<Rightarrow> (int \<times> 'w gate \<times> node) option" where
  "gate_cb api os ctx ptr ty source msg gn =
     (if ty = PTYPE_TEXT then do { gn \<leftarrow> gate_ctrl api os ctx msg gn; Some (0, gn) }
      else if ty = PTYPE_CLIENT then gate_client api os ctx ptr source (map byte_of_char msg) gn
      else do {
        c_assert (ty = PTYPE_RESPONSE);
        gate_poll api os ctx gn
      })"

section \<open>Start\<close>

text \<open>\<open>sscanf(parm, "%c %s %s %d %d %d")\<close> with the values that stay when a conversion fails.\<close>

definition scan_parm :: "string \<Rightarrow> nat \<times> char \<times> string \<times> string \<times> i32 \<times> i32 \<times> i32" where
  "scan_parm s = (case s of
     [] \<Rightarrow> (0, CHR 0x00, [], [], 0, 0, 0)
   | header # s \<Rightarrow> (case scan_s s of
       None \<Rightarrow> (1, header, [], [], 0, 0, 0)
     | Some (watchdog, s) \<Rightarrow> (case scan_s s of
         None \<Rightarrow> (2, header, watchdog, [], 0, 0, 0)
       | Some (binding, s) \<Rightarrow> (case scan_d s of
           None \<Rightarrow> (3, header, watchdog, binding, 0, 0, 0)
         | Some (tag, s) \<Rightarrow> (case scan_d s of
             None \<Rightarrow> (4, header, watchdog, binding, tag, 0, 0)
           | Some (max', s) \<Rightarrow> (case scan_d s of
               None \<Rightarrow> (5, header, watchdog, binding, tag, max', 0)
             | Some (buffer, s) \<Rightarrow> (6, header, watchdog, binding, tag, max', buffer)))))))"

text \<open>\<open>while (cap < max) cap *= 2\<close>, on 32-bit numbers.\<close>

partial_function (option) cap_loop :: "int \<Rightarrow> int \<Rightarrow> int option" where
  "cap_loop max' cap = (if cap < max' then cap_loop max' (wrap (cap * 2)) else Some cap)"

declare cap_loop.simps [code]

definition header_bytes :: "char \<Rightarrow> int" where
  "header_bytes h =
     (if h = CHR ''W'' then 2 else if h = CHR ''P'' then 23 else if h = CHR ''S'' then 2 else 4)"

definition gate_fail :: "module_api \<Rightarrow> nat \<Rightarrow> string \<Rightarrow> 'w \<times> node \<Rightarrow> (int \<times> 'w gate option \<times> 'w \<times> node) option" where
  "gate_fail api ctx line wn = do {
     n \<leftarrow> skynet_error api (Some ctx) line (snd wn);
     Some (1, None, fst wn, n)
   }"

definition gate_start ::
  "module_api \<Rightarrow> nat \<Rightarrow> nat \<Rightarrow> char \<Rightarrow> i32 \<Rightarrow> i32 \<Rightarrow> u32 \<Rightarrow> 'w mread_pool \<Rightarrow> 'w \<times> node \<Rightarrow>
     (int \<times> 'w gate option \<times> 'w \<times> node) option" where
  "gate_start api ctx cb header client_tag max' watchdog pool wn = do {
     cap \<leftarrow> cap_loop (sint max') 1;
     n \<leftarrow> (if header = CHR ''W''
            then skynet_error api (Some ctx)
              (''Not support websocket currently, add -DWEBSOCKET to makefile then execute '' @
               [CHR 0x27] @ ''make'' @ [CHR 0x27, CHR 0x0A]) (snd wn)
            else Some (snd wn));
     n \<leftarrow> skynet_callback ctx (Some cb) n;
     Some (0, Some \<lparr>g_pool = pool, g_watchdog = watchdog, g_broker = 0, g_id_index = 0, g_cap = nat cap,
             g_max_connection = unat max', g_client_tag = client_tag, g_header = header,
             g_header_size = header_bytes header, g_agent = replicate (nat cap) None,
             g_map = map (\<lambda>i. \<lparr>c_agent = 0, c_client = 0, c_connection_id = i, c_uid = 0\<rparr>) [0..<unat max']\<rparr>, fst wn, n)
   }"

text \<open>\<open>inet_addr\<close> is an argument, \<open>cb\<close> the callback as an address.\<close>

definition gate_init ::
  "module_api \<Rightarrow> 'w os \<Rightarrow> (string \<Rightarrow> u32) \<Rightarrow> nat \<Rightarrow> nat \<Rightarrow> string \<Rightarrow> 'w \<times> node \<Rightarrow>
     (int \<times> 'w gate option \<times> 'w \<times> node) option" where
  "gate_init api os inet_addr ctx cb parm wn = (
     let (k, header, watchdog, binding, client_tag, max', buffer) = scan_parm parm in
     if k < 4 then gate_fail api ctx (''Invalid gate parm '' @ parm) wn
     else if sint max' \<le> 0 then gate_fail api ctx ''Need max connection'' wn
     else if header \<notin> {CHR ''S'', CHR ''L'', CHR ''W'', CHR ''P''} then
       gate_fail api ctx (''Invalid data header style '' @ [CHR 0x27, header, CHR 0x27]) wn
     else
       let client_tag = (if client_tag = 0 then PTYPE_CLIENT else client_tag);
           host = takeWhile (\<lambda>c. c \<noteq> CHR '':'') binding;
           portstr = (if host = binding then binding else drop (length host + 1) binding);
           port = sint (ucast (strtol10 portstr) :: i32)
       in if port \<le> 0 then gate_fail api ctx (''Invalid gate address '' @ parm) wn
       else do {
         let addr = (if host = binding then 0 else inet_addr host);
         (pool, w) \<leftarrow> mread_create os addr port (unat max') (sint buffer) (fst wn);
         let wn = (w, snd wn);
         case pool of
           None \<Rightarrow> gate_fail api ctx (''Create gate '' @ parm @ '' failed'') wn
         | Some pool \<Rightarrow>
             if first_char watchdog = CHR ''!'' then gate_start api ctx cb header client_tag max' 0 pool wn
             else do {
               (h, n) \<leftarrow> skynet_queryname api ctx watchdog (snd wn);
               if h = 0 then gate_fail api ctx (''Invalid watchdog '' @ watchdog) (fst wn, n)
               else gate_start api ctx cb header client_tag max' h pool (fst wn, n)
             }
       })"

end
