(* ===== verification/GateIds.thy ===== *)
theory GateIds
  imports Gate Registry SlotTable
begin

text \<open>
  The ids of the connections of the gate: \<open>_gen_id\<close>, \<open>_remove_id\<close> and \<open>_id_to_agent\<close> are a registry in
  the sense of the theory \<open>Registry\<close>, like the handles of the node.
\<close>

section \<open>Invariant\<close>

definition uid_of :: "'w gate \<Rightarrow> nat \<Rightarrow> u32" where "uid_of g c = c_uid (gate_conn g c)"

definition gate_ok :: "'w gate \<Rightarrow> bool" where
  "gate_ok g \<longleftrightarrow> (\<exists>k \<le> 31. g_cap g = 2 ^ k) \<and> length (g_agent g) = g_cap g \<and>
     slots_ok (uid_of g) (g_agent g) \<and> (\<forall>c. Some c \<in> set (g_agent g) \<longrightarrow> c < length (g_map g)) \<and>
     length (g_map g) \<le> g_cap g"

lemma gate_index:
  assumes "gate_ok g"
  shows "slot_index u (g_cap g) = unat u mod length (g_agent g)" and "0 < length (g_agent g)"
  using assms slot_index_mod [of _ u] by (auto simp: gate_ok_def)

lemma id_to_agent_slots:
  assumes "gate_ok g"
  shows "id_to_agent g = slots_get (uid_of g) (g_agent g)"
proof
  fix u
  show "id_to_agent g u = slots_get (uid_of g) (g_agent g) u"
    by (auto simp: id_to_agent_def slots_get_def gate_index [OF assms] uid_of_def split: option.split)
qed

lemma id_to_agent_iff: "gate_ok g \<Longrightarrow> id_to_agent g u = Some c \<longleftrightarrow> Some c \<in> set (g_agent g) \<and> uid_of g c = u"
  using slots_get_set [of "uid_of g" "g_agent g"] gate_index(2) [of g]
  by (simp add: id_to_agent_slots gate_ok_def)

lemma ran_id_to_agent: "gate_ok g \<Longrightarrow> ran (id_to_agent g) = {c. Some c \<in> set (g_agent g)}"
  by (auto simp: ran_def id_to_agent_iff)

section \<open>Operations\<close>

lemma slots_distinct:
  assumes "slots_ok key slots" "i < length slots" "j < length slots" "slots ! i = Some c" "slots ! j = Some c"
  shows "i = j"
  using assms slots_ok_nth by metis

lemma gen_id_slot:
  assumes ok: "gate_ok g" and fresh: "c \<notin> ran (id_to_agent g)" and gen: "gen_id c g = Some (u, g')"
  obtains j where "j < length (g_agent g)" "g_agent g ! j = None" "unat u mod length (g_agent g) = j"
    "c < length (g_map g)"
    "g' = g\<lparr>g_map := (g_map g)[c := (gate_conn g c)\<lparr>c_uid := u\<rparr>], g_agent := (g_agent g)[j := Some c], g_id_index := u\<rparr>"
proof -
  obtain i where i: "find (\<lambda>i. g_agent g ! slot_index (g_id_index g + 1 + of_nat i) (g_cap g) = None) [0..<g_cap g] = Some i"
      and c: "c < length (g_map g)" and u: "u = g_id_index g + 1 + of_nat i"
      and g': "g' = g\<lparr>g_map := (g_map g)[c := (gate_conn g c)\<lparr>c_uid := u\<rparr>],
                  g_agent := (g_agent g)[slot_index u (g_cap g) := Some c], g_id_index := u\<rparr>"
    using gen by (auto simp: gen_id_def Let_def bind_eq_Some_conv)
  have "g_agent g ! slot_index u (g_cap g) = None"
    using find_Some_iff [THEN iffD1, OF i] u by auto
  moreover have "unat u mod length (g_agent g) < length (g_agent g)" using gate_index(2) [OF ok] by simp
  ultimately show ?thesis using that [OF _ _ refl c] g' by (simp add: gate_index(1) [OF ok])
qed

lemma gen_id_law:
  assumes ok: "gate_ok g" and fresh: "c \<notin> ran (id_to_agent g)" and gen: "gen_id c g = Some (u, g')"
  shows "gate_ok g' \<and> id_to_agent g u = None \<and> id_to_agent g' = (id_to_agent g)(u \<mapsto> c)"
proof -
  obtain j where j: "j < length (g_agent g)" "g_agent g ! j = None" "unat u mod length (g_agent g) = j"
    and c: "c < length (g_map g)"
    and g': "g' = g\<lparr>g_map := (g_map g)[c := (gate_conn g c)\<lparr>c_uid := u\<rparr>], g_agent := (g_agent g)[j := Some c], g_id_index := u\<rparr>"
    by (rule gen_id_slot [OF assms])
  have new: "Some c \<notin> set (g_agent g)" using fresh by (simp add: ran_id_to_agent [OF ok])
  have key: "uid_of g' d = (if d = c then u else uid_of g d)" for d
    using c by (simp add: g' uid_of_def gate_conn_def nth_list_update)
  have "slots_ok (uid_of g') (g_agent g)"
    using ok new by (subst slots_ok_cong [of "g_agent g" "uid_of g'" "uid_of g"]) (auto simp: key gate_ok_def)
  then have s: "slots_ok (uid_of g') (g_agent g')"
    using slots_ok_update [of "uid_of g'" "g_agent g" c j] j(3) by (simp add: g' key [simplified g'])
  have ok': "gate_ok g'"
    using ok s c set_update_subset_insert [of "g_agent g" j "Some c"] by (auto simp: gate_ok_def g')
  have cong: "slots_get (uid_of g') (g_agent g) x = slots_get (uid_of g) (g_agent g) x" for x
    using new by (intro slots_get_cong gate_index(2) [OF ok]) (auto simp: key)
  have upd: "slots_get (uid_of g') ((g_agent g)[j := Some c]) = (slots_get (uid_of g') (g_agent g))(u \<mapsto> c)"
       "slots_get (uid_of g') (g_agent g) u = None"
    using slots_get_update [OF \<open>slots_ok (uid_of g') (g_agent g)\<close> gate_index(2) [OF ok], of c] j by (auto simp: key)
  have "id_to_agent g' = slots_get (uid_of g') ((g_agent g)[j := Some c])"
    using id_to_agent_slots [OF ok'] by (simp add: g')
  then have "id_to_agent g' = (id_to_agent g)(u \<mapsto> c)" "id_to_agent g u = None"
    using upd cong by (simp_all add: id_to_agent_slots [OF ok] fun_eq_iff)
  with ok' show ?thesis by simp
qed

text \<open>There is always a free slot for a connection without an id: \<open>_gen_id\<close> does not reach its \<open>assert(0)\<close>.\<close>

lemma gen_id_returns:
  assumes ok: "gate_ok g" and fresh: "c \<notin> ran (id_to_agent g)" and c: "c < length (g_map g)"
  shows "\<exists>u g'. gen_id c g = Some (u, g')"
proof -
  let ?n = "g_cap g"
  have len: "length (g_agent g) = ?n" and max: "length (g_map g) \<le> ?n" using ok by (simp_all add: gate_ok_def)
  have "None \<in> set (g_agent g)"
  proof (rule ccontr)
    assume full: "None \<notin> set (g_agent g)"
    have "slots_ok (uid_of g) (g_agent g)" using ok by (simp add: gate_ok_def)
    then have "distinct (g_agent g)"
      using slots_full(1) [OF _ gate_index(2) [OF ok] full] by (metis distinct_map)
    then have "card (set (g_agent g)) = ?n" using len by (simp add: distinct_card)
    moreover have "set (g_agent g) \<subseteq> Some ` ({..<length (g_map g)} - {c})"
    proof
      fix x assume x: "x \<in> set (g_agent g)"
      then have "x \<noteq> None" using full by metis
      then obtain d where d: "x = Some d" by blast
      then have "d < length (g_map g)" "d \<noteq> c" using x ok fresh by (auto simp: gate_ok_def ran_id_to_agent)
      then show "x \<in> Some ` ({..<length (g_map g)} - {c})" using d by simp
    qed
    then have "card (set (g_agent g)) \<le> card (Some ` ({..<length (g_map g)} - {c}))" by (intro card_mono) simp_all
    moreover have "card (Some ` ({..<length (g_map g)} - {c})) = length (g_map g) - 1"
      using c by (simp add: card_image)
    ultimately show False using max c by simp
  qed
  then obtain j where j: "j < ?n" "g_agent g ! j = None" using len by (metis in_set_conv_nth)
  obtain k where k: "k \<le> 31" "?n = 2 ^ k" using ok by (auto simp: gate_ok_def)
  obtain i where i: "i < ?n" "(unat (g_id_index g + 1) + i) mod ?n = j" using slots_probe [OF j(1)] by blast
  have "slot_index (g_id_index g + 1 + of_nat i) ?n = j"
  proof -
    have "unat (g_id_index g + 1 + of_nat i) mod 2 ^ k = (unat (g_id_index g + 1) + i) mod 2 ^ 32 mod 2 ^ k"
      by (simp add: unat_word_ariths unat_of_nat mod_simps)
    then show ?thesis
      using i(2) k mod_mod_power [of k 32] slot_index_mod [of k] by simp
  qed
  then have "find (\<lambda>i. g_agent g ! slot_index (g_id_index g + 1 + of_nat i) ?n = None) [0..<?n] \<noteq> None"
    using i(1) j(2) by (auto simp: find_None_iff)
  then show ?thesis using c by (auto simp: gen_id_def Let_def)
qed

lemma remove_id_law:
  assumes ok: "gate_ok g" and rem: "remove_id u g = Some g'"
  shows "gate_ok g' \<and> id_to_agent g' = (id_to_agent g)(u := None)"
proof (cases "g_agent g ! slot_index u (g_cap g)")
  case None
  then have "g' = g" "id_to_agent g u = None" using rem by (simp_all add: remove_id_def id_to_agent_def)
  then show ?thesis using ok by (simp add: fun_upd_idem)
next
  case (Some c)
  let ?j = "unat u mod length (g_agent g)"
  have j: "slot_index u (g_cap g) = ?j" "?j < length (g_agent g)" using gate_index [OF ok] by simp_all
  have u: "uid_of g c = u" and g': "g' = g\<lparr>g_map := (g_map g)[c := (gate_conn g c)\<lparr>c_uid := 0, c_agent := 0\<rparr>],
                  g_agent := (g_agent g)[?j := None]\<rparr>"
    using rem Some j by (auto simp: remove_id_def uid_of_def)
  have key: "uid_of g' d = uid_of g d" if "d \<noteq> c" for d using that by (simp add: g' uid_of_def gate_conn_def)
  have gone: "Some c \<notin> set ((g_agent g)[?j := None])"
  proof
    assume "Some c \<in> set ((g_agent g)[?j := None])"
    then obtain i where i: "i < length (g_agent g)" "(g_agent g)[?j := None] ! i = Some c" by (auto simp: in_set_conv_nth)
    then have "i \<noteq> ?j" by auto
    then have "g_agent g ! i = Some c" using i by simp
    then show False using slots_distinct [of "uid_of g" "g_agent g" i ?j c] i(1) \<open>i \<noteq> ?j\<close> Some j ok by (simp add: gate_ok_def)
  qed
  have clear: "slots_ok (uid_of g) ((g_agent g)[?j := None])" using ok by (intro slots_ok_clear) (simp add: gate_ok_def)
  have cong: "slots_get (uid_of g') ((g_agent g)[?j := None]) x = slots_get (uid_of g) ((g_agent g)[?j := None]) x" for x
    using gone j(2) by (intro slots_get_cong) (auto intro!: key)
  have "slots_ok (uid_of g') ((g_agent g)[?j := None])"
    using clear gone by (subst slots_ok_cong [of _ "uid_of g'" "uid_of g"]) (auto intro!: key)
  moreover have "\<forall>d. Some d \<in> set ((g_agent g)[?j := None]) \<longrightarrow> d < length (g_map g)"
    using ok set_update_subset_insert [of "g_agent g" ?j None] by (auto simp: gate_ok_def)
  ultimately have ok': "gate_ok g'" using ok by (simp add: gate_ok_def g')
  have get: "slots_get (uid_of g) (g_agent g) u = Some c" using Some u j(1) by (simp add: slots_get_def)
  have "slots_ok (uid_of g) (g_agent g)" using ok by (simp add: gate_ok_def)
  have "slots_get (uid_of g) ((g_agent g)[?j := None]) = (slots_get (uid_of g) (g_agent g))(u := None)"
    by (rule slots_get_clear [OF \<open>slots_ok (uid_of g) (g_agent g)\<close> get gate_index(2) [OF ok]])
  moreover have "id_to_agent g' = slots_get (uid_of g') ((g_agent g)[?j := None])"
    unfolding id_to_agent_slots [OF ok'] by (simp add: g')
  ultimately have "id_to_agent g' = (id_to_agent g)(u := None)"
    using cong by (simp add: id_to_agent_slots [OF ok] fun_eq_iff)
  with ok' show ?thesis by simp
qed

lemma remove_id_returns: "gate_ok g \<Longrightarrow> id_to_agent g u = Some c \<Longrightarrow> \<exists>g'. remove_id u g = Some g'"
  by (auto simp: id_to_agent_def remove_id_def split: option.splits if_splits)

interpretation ids: registry gate_ok id_to_agent gen_id remove_id
proof unfold_locales
  show "gate_ok g' \<and> id_to_agent g u = None \<and> id_to_agent g' = (id_to_agent g)(u \<mapsto> c)"
    if "gate_ok g" "c \<notin> ran (id_to_agent g)" "gen_id c g = Some (u, g')" for g g' :: "'a gate" and c u
    by (rule gen_id_law [OF that])
  show "\<exists>g'. remove_id u g = Some g'" if "gate_ok g" "id_to_agent g u = Some c" for g :: "'a gate" and c u
    by (rule remove_id_returns [OF that])
  show "gate_ok g' \<and> id_to_agent g' = (id_to_agent g)(u := None)" if "gate_ok g" "remove_id u g = Some g'" for g g' :: "'a gate" and u
    by (rule remove_id_law [OF that])
  show "u = v" if "gate_ok g" "id_to_agent g u = Some c" "id_to_agent g v = Some c" for g :: "'a gate" and c u v
    using that by (simp add: id_to_agent_iff)
qed

text \<open>
  The gate gives every connection that has none an id: a free slot is always found, the id was
  not in use, it names exactly this connection from now on, and all other ids keep their meaning.
\<close>

theorem gen_id_correct:
  assumes "gate_ok g" "c < length (g_map g)" "c \<notin> ran (id_to_agent g)"
  shows "\<exists>u g'. gen_id c g = Some (u, g') \<and> gate_ok g' \<and> id_to_agent g u = None \<and>
    id_to_agent g' = (id_to_agent g)(u \<mapsto> c)"
  using gen_id_returns [OF assms(1,3,2)] ids.register_lookup [OF assms(1,3)] by blast

text \<open>
  C19: The id of a connection stays its own through any sequence of connections that are opened and
  closed: until exactly this id is removed it leads to the same connection, and it is not given to
  another one.
\<close>

theorem gate_id_stable:
  assumes "gate_ok g" "reg_run gen_id remove_id ops g = Some (us, g')" "id_to_agent g u = Some c"
    and "Retire u \<notin> set ops" "distinct (registered ops)" "set (registered ops) \<inter> ran (id_to_agent g) = {}"
  shows "id_to_agent g' u = Some c \<and> u \<notin> set us"
  using ids.lookup_stable [OF assms] by simp

text \<open>The \<open>forward\<close> command changes where a connection's packets go, not which connection an id names.\<close>

lemma forward_agent_ids:
  assumes "gate_ok g"
  shows "gate_ok (forward_agent u a c g) \<and> id_to_agent (forward_agent u a c g) = id_to_agent g"
proof (cases "id_to_agent g u")
  case (Some d)
  let ?g = "forward_agent u a c g"
  have d: "d < length (g_map g)" using Some assms by (simp add: id_to_agent_iff) (simp add: gate_ok_def)
  have key: "uid_of ?g = uid_of g"
    using Some d by (auto simp: forward_agent_def uid_of_def gate_conn_def nth_list_update fun_eq_iff)
  have ok: "gate_ok ?g" using assms Some key by (simp add: gate_ok_def forward_agent_def)
  have "g_agent ?g = g_agent g" using Some by (simp add: forward_agent_def)
  then show ?thesis using ok key by (simp add: id_to_agent_slots [OF assms] id_to_agent_slots [OF ok])
qed (use assms in \<open>simp add: forward_agent_def\<close>)

end
