(* ===== verification/GateDemo.thy ===== *)
theory GateDemo
  imports MreadSend GateIds ServerProps
begin

text \<open>
  A small system and a small pool on which the properties of the gate are applied, and runs that
  show what the gate does where it does not do what it means to.
\<close>

section \<open>A system\<close>

text \<open>The system takes \<open>w_room\<close> bytes for all connections together; it answers no read and no poll.\<close>

record world =
  w_sent :: "int \<Rightarrow> u8 list"
  w_room :: nat
  w_freed :: "nat list"

definition demo_write :: "int \<Rightarrow> u8 list \<Rightarrow> world \<Rightarrow> nat sysret \<times> world" where
  "demo_write fd b w =
     (if w_room w = 0 then (Fail EWOULDBLOCK, w)
      else let n = min (w_room w) (length b)
           in (Done n, w\<lparr>w_sent := (w_sent w)(fd := w_sent w fd @ take n b), w_room := w_room w - n\<rparr>))"

definition demo_os :: "world os" where
  "demo_os = \<lparr>os_socket = (\<lambda>w. (3, w)), os_getfl = (\<lambda>_ w. (0, w)), os_set_nonblock = (\<lambda>_ _ w. (0, w)),
     os_setsockopt = (\<lambda>_ _ w. w), os_bind = (\<lambda>_ _ _ w. (0, w)), os_listen = (\<lambda>_ _ w. (0, w)),
     os_accept = (\<lambda>_ w. ((7, ''127.0.0.1'', 4000), w)), os_epoll_create = (\<lambda>_ w. (4, w)), os_epoll_ctl = (\<lambda>_ _ _ w. (0, w)),
     os_epoll_wait = (\<lambda>_ _ _ w. (Some [], w)), os_write = demo_write, os_read = (\<lambda>_ _ w. (Fail EWOULDBLOCK, w)),
     os_close = (\<lambda>_ w. w), os_malloc = (\<lambda>n w. (replicate (nat n div 4) 0, w)),
     os_free = (\<lambda>p w. w\<lparr>w_freed := w_freed w @ [p]\<rparr>)\<rparr>"

lemma demo_records: "records_writes demo_os w_sent"
  by (auto simp: records_writes_def demo_os_def demo_write_def Let_def split: if_splits)

lemma demo_no_error: "no_write_error demo_os"
  by (simp add: no_write_error_def demo_os_def demo_write_def Let_def)

definition demo_world :: "nat \<Rightarrow> world" where
  "demo_world room = \<lparr>w_sent = (\<lambda>_. []), w_room = room, w_freed = []\<rparr>"

definition demo_socket :: socket where
  "demo_socket = \<lparr>s_fd = 7, s_node = None, s_temp = None, s_client = [], s_enablewrite = False,
     s_status = SOCKET_SUSPEND, s_ip = ''127.0.0.1'', s_port = 4000\<rparr>"

definition unused_socket :: socket where
  "unused_socket = \<lparr>s_fd = -1, s_node = None, s_temp = None, s_client = [], s_enablewrite = False,
     s_status = SOCKET_INVALID, s_ip = [], s_port = 0\<rparr>"

definition demo_pool :: "nat \<Rightarrow> world mread_pool" where
  "demo_pool room = \<lparr>mp_listen_fd = 3, mp_epoll_fd = 4, mp_max_connection = 2, mp_closed = 0, mp_active = None, mp_skip = 0,
     mp_sockets = [demo_socket, unused_socket], mp_free_socket = Some 1, mp_ev = [], mp_queue_head = 0,
     mp_rb = demo_rb, mp_world = demo_world room\<rparr>"

lemma demo_pool_ok: "pool_ok (demo_pool room)"
proof -
  have "free_list [demo_socket, unused_socket] (Some 1) [1]" by (simp add: unused_socket_def)
  then show ?thesis
    by (auto simp: pool_ok_def demo_pool_def count_closed_def demo_socket_def unused_socket_def idle_def intro!: exI [of _ "[1]"])
qed

section \<open>Witnesses\<close>

lemma demo_reach: "\<exists>m w. mread_create demo_os 0 8888 2 4096 (demo_world 9) = Some (Some m, w) \<and> pool_reach demo_os m"
proof -
  have "\<exists>m w. mread_create demo_os 0 8888 2 4096 (demo_world 9) = Some (Some m, w)"
    by (simp add: mread_create_def demo_os_def set_nonblocking_def create_sockets_def create_rb_def ringbuffer_new_def put_def
      valid_def upd_def align4_def READBLOCKSIZE_def Let_def)
  then obtain m w where "mread_create demo_os 0 8888 2 4096 (demo_world 9) = Some (Some m, w)" by blast
  then show ?thesis by (metis pool_reach.create)
qed

lemma mread_pool_invariant_witness: "\<exists>m. pool_reach demo_os m \<and> pool_ok m"
  using demo_reach mread_pool_invariant by blast

lemma accept_takes_free_slot_witness:
  "\<exists>m m'. pool_reach demo_os m \<and> accept_client demo_os m = Some (Some 0, m') \<and> s_status (mp_sockets m' ! 0) = SOCKET_CONNECTED"
proof -
  obtain m w where m: "mread_create demo_os 0 8888 2 4096 (demo_world 9) = Some (Some m, w)" "pool_reach demo_os m"
    using demo_reach by blast
  have "mp_sockets m = [\<lparr>s_fd = 1, s_node = None, s_temp = None, s_client = [], s_enablewrite = False,
                     s_status = SOCKET_INVALID, s_ip = [], s_port = 0\<rparr>, unused_socket]" "mp_free_socket m = Some 0"
    using m(1) by (auto simp: mread_create_def demo_os_def set_nonblocking_def create_sockets_def unused_socket_def
      Let_def bind_eq_Some_conv numeral_2_eq_2)
  then have "\<exists>m'. accept_client demo_os m = Some (Some 0, m')"
    by (simp add: accept_client_def add_client_def alloc_socket_def socket_at_def demo_os_def set_nonblocking_def epoll_ctl_def)
  then show ?thesis using accept_takes_free_slot [OF m(2)] m(2) by blast
qed

lemma mread_send_order_witness:
  "\<exists>m'. send_run demo_os 0 [Push [1, 2, 3] 5, Push [4] 6] (demo_pool 2) = Some m' \<and>
     w_sent (mp_world m') 7 @ pending (s_client (mp_sockets m' ! 0)) = [1, 2, 3, 4]"
proof -
  have s: "mp_sockets (demo_pool 2) ! 0 = demo_socket" "mp_world (demo_pool 2) = demo_world 2" by (simp_all add: demo_pool_def)
  have "\<exists>m'. send_run demo_os 0 [Push [1, 2, 3] 5, Push [4] 6] (demo_pool 2) = Some m'"
    by (simp add: demo_pool_def demo_socket_def demo_world_def mread_push_def socket_at_def push_write.simps write_retry.simps
      demo_os_def demo_write_def turn_on_def set_socket_def epoll_ctl_def client_push_def)
  then obtain m' where m': "send_run demo_os 0 [Push [1, 2, 3] 5, Push [4] 6] (demo_pool 2) = Some m'" by blast
  have "alive (s_status (mp_sockets (demo_pool 2) ! 0))" "s_status (mp_sockets (demo_pool 2) ! 0) \<noteq> SOCKET_HALFCLOSE"
    unfolding s by (simp_all add: demo_socket_def)
  from mread_send_order [OF demo_records demo_no_error demo_pool_ok this m', unfolded s]
  have "w_sent (mp_world m') 7 @ pending (s_client (mp_sockets m' ! 0)) = [1, 2, 3, 4]"
    by (simp add: demo_socket_def demo_world_def)
  then show ?thesis using m' by blast
qed

definition demo_gate :: "nat \<Rightarrow> i32 \<Rightarrow> world gate" where
  "demo_gate room index = \<lparr>g_pool = demo_pool room, g_watchdog = 0, g_broker = 0, g_id_index = index, g_cap = 2, g_max_connection = 2,
     g_client_tag = PTYPE_CLIENT, g_header = CHR ''S'', g_header_size = 2, g_agent = [None, None],
     g_map = map (\<lambda>i. \<lparr>c_agent = 0, c_client = 0, c_connection_id = i, c_uid = 0\<rparr>) [0, 1]\<rparr>"

lemma demo_gate_ok: "gate_ok (demo_gate room index)"
proof -
  have "g_cap (demo_gate room index) = 2 ^ 1" by (simp add: demo_gate_def)
  moreover have "slots_ok (uid_of (demo_gate room index)) [None, None]"
    using slots_ok_empty [of _ 2] by (simp add: numeral_2_eq_2)
  ultimately show ?thesis by (auto simp: gate_ok_def demo_gate_def intro!: exI [of _ 1])
qed

lemma demo_gate_empty: "id_to_agent (demo_gate room index) = (\<lambda>_. None)"
proof
  fix u
  have "id_to_agent (demo_gate room index) u = slots_get (uid_of (demo_gate room index)) (replicate 2 None) u"
    by (simp add: id_to_agent_slots [OF demo_gate_ok]) (simp add: demo_gate_def numeral_2_eq_2)
  then show "id_to_agent (demo_gate room index) u = None" by (simp add: slots_get_empty)
qed

lemma gen_id_correct_witness:
  "\<exists>u g. gen_id 1 (demo_gate 0 0) = Some (u, g) \<and> id_to_agent g u = Some 1"
  using gen_id_correct [OF demo_gate_ok, of 1 0 0] by (auto simp: demo_gate_empty) (auto simp: demo_gate_def)

lemma gate_id_stable_witness:
  "\<exists>u v g g'. gen_id 1 (demo_gate 0 0) = Some (u, g) \<and> gen_id 0 g = Some (v, g') \<and> id_to_agent g' u = Some 1 \<and> u \<noteq> v"
proof -
  have len: "length (g_map (demo_gate 0 0)) = 2" by (simp add: demo_gate_def)
  obtain u g where g: "gen_id 1 (demo_gate 0 0) = Some (u, g)" "gate_ok g" "id_to_agent g = [u \<mapsto> 1]"
    using gen_id_returns [OF demo_gate_ok, of 1 0 0] ids.register_lookup [OF demo_gate_ok, of 1 0 0] len
    by (fastforce simp: demo_gate_empty)
  then have new: "0 \<notin> ran (id_to_agent g)" by (auto simp: ran_def)
  have "length (g_map g) = 2" using g(1) len by (auto simp: gen_id_def Let_def bind_eq_Some_conv)
  then obtain v g' where g': "gen_id 0 g = Some (v, g')" using gen_id_returns [OF g(2) new] by auto
  then have run: "reg_run gen_id remove_id [Register 0] g = Some ([v], g')" by simp
  have "id_to_agent g' u = Some 1 \<and> u \<notin> set [v]"
    by (rule gate_id_stable [OF g(2) run]) (use g(3) new in auto)
  then show ?thesis using g(1) g' by auto
qed

section \<open>What the gate does not mean to do\<close>

text \<open>A connection that is half closed and whose peer has closed too: \<open>skip_all\<close> reads the end of the stream for ever.\<close>

lemma skip_all_ends:
  assumes "skip_all os i m = Some m'"
  shows "\<exists>w. fst (os_read os (s_fd (mp_sockets m ! i)) 1024 w) \<noteq> Done []"
  using assms
proof (induction rule: skip_all.raw_induct [rotated 1, consumes 1])
  case (1 f os i m m')
  let ?s = "mp_sockets m ! i"
  have i: "i < length (mp_sockets m)" using 1(2) by (auto simp: bind_eq_Some_conv socket_at_Some)
  obtain r w where w: "os_read os (s_fd ?s) 1024 (mp_world m) = (r, w)" by fastforce
  show ?case
  proof (cases "r = Done []")
    case True
    then have "f os i ((set_socket i (?s\<lparr>s_client := []\<rparr>) m)\<lparr>mp_world := free_buffer os (s_client ?s) w\<rparr>) = Some m'"
      using 1(2) i w by (simp add: socket_at_def)
    from 1(1) [OF this] show ?thesis using i by simp
  next
    case False
    then show ?thesis using w by (metis fst_conv)
  qed
qed

lemma skip_all_hangs:
  assumes "\<And>w. fst (os_read os (s_fd (mp_sockets m ! i)) 1024 w) = Done []"
  shows "skip_all os i m = None"
  using skip_all_ends [of os i m] assms by (cases "skip_all os i m") auto

text \<open>The first word of a command is compared with \<open>memcmp\<close> of its own length: any prefix of \<open>kick\<close> is \<open>kick\<close>.\<close>

lemma gate_kick_prefix:
  "gate_ctrl api os ctx ''k 5'' gn = gate_ctrl api os ctx ''kick 5'' gn"
  "gate_ctrl api os ctx '' 5'' gn = gate_ctrl api os ctx ''kick 5'' gn"
  by (simp_all add: gate_ctrl_def memcmp_word_def parm_shift_def cstr_at_def Let_def split_beta)

text \<open>After \<open>2 ^ 32\<close> connections a connection gets the id 0, which the callback takes for a connection without an id.\<close>

lemma gen_id_zero: "\<exists>g. gen_id 1 (demo_gate 0 (-1)) = Some (0, g) \<and> id_to_agent g 0 = Some 1 \<and> c_uid (gate_conn g 1) = 0"
proof -
  have "[0..<2] = [0, 1::nat]" by code_simp
  then show ?thesis by (simp add: gen_id_def demo_gate_def slot_index_def id_to_agent_def gate_conn_def Let_def)
qed

text \<open>A failing write in \<open>client_send\<close> drops what waits, but the connection goes on: the next push leaves a gap.\<close>

definition broken_os :: "world os" where
  "broken_os = demo_os\<lparr>os_write := (\<lambda>_ _ w. (Fail EOTHER, w))\<rparr>"

lemma write_error_drops:
  "client_send broken_os 7 [\<lparr>sb_buff = [1, 2], sb_ptr = 5\<rparr>] w = Some ([], w\<lparr>w_freed := w_freed w @ [5]\<rparr>)"
  by (simp add: write_retry.simps broken_os_def demo_os_def free_buffer_def)

text \<open>A failing write in \<open>mread_push\<close> closes the connection, but the buffer is neither queued nor given to \<open>free\<close>.\<close>

lemma push_error_leaks:
  "\<exists>m. mread_push broken_os 0 [1, 2] 5 (demo_pool 0) = Some m \<and> s_status (mp_sockets m ! 0) = SOCKET_CLOSED \<and>
     s_client (mp_sockets m ! 0) = [] \<and> w_freed (mp_world m) = []"
  by (simp add: demo_pool_def demo_socket_def demo_world_def mread_push_def socket_at_def push_write.simps write_retry.simps
    broken_os_def demo_os_def try_close_def turn_off_def set_socket_def epoll_ctl_def Let_def)

text \<open>
  Closing a connection with unread data (\<open>mread_close_client\<close>) forgets its blocks without freeing
  them.  They keep the number of the slot: when room is needed, \<open>ringbuffer_collect\<close> finds them, and
  the connection that uses the slot by then is closed.
\<close>

definition full_rb :: ringbuffer where
  "full_rb = demo_rb\<lparr>rb_mem := (rb_mem demo_rb)[2 := 0, 3 := -1]\<rparr>"

lemma close_leaks_blocks:
  "\<exists>m. mread_close_client demo_os 0 ((demo_pool 0)\<lparr>mp_sockets := [demo_socket\<lparr>s_node := Some 0\<rparr>, unused_socket], mp_rb := full_rb\<rparr>) = Some m \<and>
     s_node (mp_sockets m ! 0) = None \<and> mp_rb m = full_rb \<and> used full_rb 0"
  "\<exists>rb. ringbuffer_collect full_rb = Some (0, rb)"
proof -
  show "\<exists>m. mread_close_client demo_os 0 ((demo_pool 0)\<lparr>mp_sockets := [demo_socket\<lparr>s_node := Some 0\<rparr>, unused_socket], mp_rb := full_rb\<rparr>) = Some m \<and>
     s_node (mp_sockets m ! 0) = None \<and> mp_rb m = full_rb \<and> used full_rb 0"
    by (simp add: mread_close_client_def demo_pool_def demo_socket_def demo_os_def try_close_def turn_off_def set_socket_def
      epoll_ctl_def socket_at_def Let_def used_def full_rb_def demo_rb_eq cell_def HDR_def)
  have "(case ringbuffer_collect full_rb of Some (i, rb) \<Rightarrow> i = 0 | None \<Rightarrow> False)" by code_simp
  then show "\<exists>rb. ringbuffer_collect full_rb = Some (0, rb)" by (auto split: option.splits)
qed

text \<open>A packet length with the top bit set, which a client can send with the four-byte header, is negative.\<close>

lemma negative_length_crash:
  "len < 0 \<Longrightarrow> g_broker g \<noteq> 0 \<Longrightarrow> gate_forward api ctx u p len (g, n) = None"
  by (simp add: gate_forward_def data_at_def)

end
