(* ===== verification/Network.thy ===== *)
theory Network
  imports System Server
begin

text \<open>
  What the services that connect the nodes share (\<open>service-src/service_master.c\<close> and
  \<open>service_harbor.c\<close>): blocking TCP connections, packages with a length in front, numbers in network
  byte order, and the hash table of global names.  Bytes are characters, as in the messages of the
  node.
\<close>

unbundle bit_operations_syntax

section \<open>Connections\<close>

text \<open>
  The system calls, on a state of their own; \<open>net_write\<close> is \<open>writev\<close> or \<open>send\<close> of the given bytes.
\<close>

record 'w net =
  net_socket :: "'w \<Rightarrow> int \<times> 'w"
  net_inet_addr :: "string \<Rightarrow> u32"
  net_connect :: "int \<Rightarrow> u32 \<Rightarrow> u16 \<Rightarrow> 'w \<Rightarrow> int \<times> 'w"
  net_write :: "int \<Rightarrow> string \<Rightarrow> 'w \<Rightarrow> nat sysret \<times> 'w"
  net_close :: "int \<Rightarrow> 'w \<Rightarrow> 'w"

definition REMOTE_MAX :: nat where "REMOTE_MAX = 256"

text \<open>\<open>_connect_to\<close>: without a port the new socket is not closed.  The flag says that \<open>connect\<close> failed.\<close>

definition connect_to :: "'w net \<Rightarrow> string \<Rightarrow> 'w \<Rightarrow> int \<times> bool \<times> 'w" where
  "connect_to net ipaddress w =
     (let (fd, w) = net_socket net w;
          host = takeWhile (\<lambda>c. c \<noteq> CHR '':'') ipaddress
      in if host = ipaddress then (-1, False, w)
         else
           let port = ucast (strtol10 (drop (length host + 1) ipaddress));
               (r, w) = net_connect net fd (net_inet_addr net host) port w
           in if r = -1 then (-1, True, net_close net fd w) else (fd, False, w))"

text \<open>Write until the call is neither interrupted nor refused for lack of room; true when all bytes went out.\<close>

partial_function (option) write_all :: "'w net \<Rightarrow> int \<Rightarrow> string \<Rightarrow> 'w \<Rightarrow> (bool \<times> 'w) option" where
  "write_all net fd b w =
     (let (r, w) = net_write net fd b w
      in if r = Fail EINTR \<or> r = Fail EWOULDBLOCK then write_all net fd b w
         else Some (r = Done (length b), w))"

declare write_all.simps [code]

section \<open>Network byte order\<close>

definition byte_char :: "u32 \<Rightarrow> char" where "byte_char b = char_of (unat b)"

definition htonl :: "u32 \<Rightarrow> string" where
  "htonl x = map (\<lambda>k. byte_char (drop_bit k x AND 0xff)) [24, 16, 8, 0]"

definition ntohl :: "string \<Rightarrow> u32" where
  "ntohl s = foldl (\<lambda>a c. push_bit 8 a OR of_char c) 0 (take 4 s)"

definition send_package :: "'w net \<Rightarrow> int \<Rightarrow> string \<Rightarrow> 'w \<Rightarrow> (bool \<times> 'w) option" where
  "send_package net fd buffer w = write_all net fd (htonl (of_nat (length buffer)) @ buffer) w"

section \<open>Global names\<close>

definition HASH_SIZE :: nat where "HASH_SIZE = 4096"

text \<open>\<open>ptr[0] ^ ptr[1] ^ ptr[2] ^ ptr[3]\<close> of a name of 16 bytes, little endian.\<close>

definition name_word :: "string \<Rightarrow> nat \<Rightarrow> u32" where
  "name_word nm i = foldr (\<lambda>c a. push_bit 8 a OR of_char c) (take 4 (drop (4 * i) nm)) 0"

definition name_hash :: "string \<Rightarrow> u32" where
  "name_hash nm = name_word nm 0 XOR name_word nm 1 XOR name_word nm 2 XOR name_word nm 3"

text \<open>\<open>strncmp(a, b, GLOBALNAME_LENGTH) == 0\<close>.\<close>

definition same_name :: "string \<Rightarrow> string \<Rightarrow> bool" where
  "same_name a b \<longleftrightarrow> takeWhile (\<lambda>c. c \<noteq> CHR 0x00) (take GLOBALNAME_LENGTH a) =
                  takeWhile (\<lambda>c. c \<noteq> CHR 0x00) (take GLOBALNAME_LENGTH b)"

text \<open>A node of the hash table; the one of the harbor service has a queue besides.\<close>

record name_node =
  nn_key :: string
  nn_hash :: u32
  nn_value :: u32

type_synonym 'a name_map = "nat \<Rightarrow> 'a name_node_scheme list"

definition bucket :: "string \<Rightarrow> nat" where "bucket nm = unat (name_hash nm) mod HASH_SIZE"

definition matches :: "string \<Rightarrow> 'a name_node_scheme \<Rightarrow> bool" where
  "matches nm node \<longleftrightarrow> nn_hash node = name_hash nm \<and> same_name (nn_key node) nm"

definition search_name :: "'a name_map \<Rightarrow> string \<Rightarrow> 'a name_node_scheme option" where
  "search_name m nm = find (matches nm) (m (bucket nm))"

text \<open>A new node goes to the front of its bucket.\<close>

definition insert_node :: "string \<Rightarrow> 'a name_node_scheme \<Rightarrow> 'a name_map \<Rightarrow> 'a name_map" where
  "insert_node nm node m = m(bucket nm := node # m (bucket nm))"

text \<open>An assignment through the pointer that the search returned: the first matching node changes.\<close>

fun update_first :: "('b \<Rightarrow> bool) \<Rightarrow> ('b \<Rightarrow> 'b) \<Rightarrow> 'b list \<Rightarrow> 'b list" where
  "update_first P f [] = []"
| "update_first P f (x # xs) = (if P x then f x # xs else x # update_first P f xs)"

definition update_node :: "string \<Rightarrow> ('a name_node_scheme \<Rightarrow> 'a name_node_scheme) \<Rightarrow> 'a name_map \<Rightarrow> 'a name_map" where
  "update_node nm f m = m(bucket nm := update_first (matches nm) f (m (bucket nm)))"

section \<open>Lemmas\<close>

lemma htonl_length [simp]: "length (htonl x) = 4"
  by (simp add: htonl_def)

lemma of_char_byte_char: "b < 256 \<Longrightarrow> of_char (byte_char b) = b"
proof -
  assume "b < 256"
  then have "unat b < 256" by (simp add: word_less_nat_alt)
  then have n: "(of_char (char_of (unat b)) :: nat) = unat b" by simp
  have "of_char (byte_char b) = (of_nat (of_char (char_of (unat b)) :: nat) :: u32)"
    by (simp only: byte_char_def of_nat_of_char)
  then show ?thesis unfolding n by simp
qed

lemma and_255: "(y::u32) AND 0xff < 256" "(y::u32) AND 0xff = take_bit 8 y"
proof -
  show eq: "y AND 0xff = take_bit 8 y" by (simp add: take_bit_eq_mask mask_eq_exp_minus_1)
  have "unat (take_bit 8 y) = take_bit 8 (unat y)" by (rule unsigned_take_bit_eq)
  then have "unat (take_bit 8 y) < 2 ^ 8" by (simp del: power_numeral)
  then show "y AND 0xff < 256" unfolding eq by (simp add: word_less_nat_alt)
qed

lemma ntohl_htonl: "ntohl (htonl x @ s) = x"
proof -
  have "ntohl (htonl x @ s) = push_bit 8 (push_bit 8 (push_bit 8 (drop_bit 24 x AND 0xff) OR (drop_bit 16 x AND 0xff))
       OR (drop_bit 8 x AND 0xff)) OR (x AND 0xff)"
    by (simp add: ntohl_def htonl_def of_char_byte_char and_255(1))
  also have "\<dots> = x"
    unfolding and_255(2)
  proof (rule bit_word_eqI)
    fix n :: nat
    assume "n < LENGTH(32)"
    then consider "n < 8" | "8 \<le> n" "n < 16" | "16 \<le> n" "n < 24" | "24 \<le> n" "n < 32"
      by (cases "n < 8"; cases "n < 16"; cases "n < 24") auto
    then show "bit (push_bit 8 (push_bit 8 (push_bit 8 (take_bit 8 (drop_bit 24 x)) OR take_bit 8 (drop_bit 16 x))
       OR take_bit 8 (drop_bit 8 x)) OR take_bit 8 x) n = bit x n"
      by cases (auto simp: bit_simps)
  qed
  finally show ?thesis .
qed

end
