(* ===== verification/Master.thy ===== *)
theory Master
  imports Network
begin

text \<open>
  \<open>service-src/service_master.c\<close>: the service that keeps the addresses of all nodes (by harbor id) and
  the handles of all global names, and tells every node about changes.
\<close>

unbundle bit_operations_syntax

section \<open>State and operations\<close>

record 'w master =
  ms_remote_fd :: "int list"
  ms_remote_addr :: "string option list"
  ms_map :: "unit name_map"
  ms_world :: 'w

definition master_create :: "'w \<Rightarrow> 'w master" where
  "master_create w = \<lparr>ms_remote_fd = replicate REMOTE_MAX (-1), ms_remote_addr = replicate REMOTE_MAX None,
     ms_map = (\<lambda>_. []), ms_world = w\<rparr>"

text \<open>\<open>master_release\<close> closes the connections that are open; the rest of it frees memory.\<close>

definition master_release :: "'w net \<Rightarrow> 'w master \<Rightarrow> 'w" where
  "master_release net m = fold (\<lambda>fd w. if 0 \<le> fd then net_close net fd w else w) (ms_remote_fd m) (ms_world m)"

definition master_insert_name :: "string \<Rightarrow> 'w master \<Rightarrow> 'w master" where
  "master_insert_name nm m =
     m\<lparr>ms_map := insert_node nm \<lparr>nn_key = nm, nn_hash = name_hash nm, nn_value = 0\<rparr> (ms_map m)\<rparr>"

definition master_copy_name :: "string \<Rightarrow> string" where
  "master_copy_name buffer =
     (if length buffer < GLOBALNAME_LENGTH then buffer @ replicate (GLOBALNAME_LENGTH - length buffer) (CHR 0x00)
      else take GLOBALNAME_LENGTH buffer)"

text \<open>A package with the trailer of a remote message: source 0, a handle and session 0.\<close>

definition send_to :: "'w net \<Rightarrow> int \<Rightarrow> string \<Rightarrow> u32 \<Rightarrow> 'w \<Rightarrow> (bool \<times> 'w) option" where
  "send_to net fd buf handle w =
     write_all net fd (htonl (of_nat (length buf + 12)) @ buf @ htonl 0 @ htonl handle @ htonl 0) w"

text \<open>One turn of the loop of \<open>_broadcast\<close>.  The descriptor of a new connection is not kept.\<close>

definition broadcast_one ::
  "module_api \<Rightarrow> 'w net \<Rightarrow> nat \<Rightarrow> string \<Rightarrow> u32 \<Rightarrow> nat \<Rightarrow> 'w master \<times> node \<Rightarrow> ('w master \<times> node) option" where
  "broadcast_one api net ctx nm handle i mn = do {
     let (m, n) = mn;
     let fd = ms_remote_fd m ! i;
     if fd < 0 then Some (m, n)
     else do {
       (ok, w) \<leftarrow> send_to net fd nm handle (ms_world m);
       if ok then Some (m\<lparr>ms_world := w\<rparr>, n)
       else do {
         addr \<leftarrow> ms_remote_addr m ! i;
         let (fd, _, w) = connect_to net addr (net_close net fd w);
         let m = m\<lparr>ms_world := w\<rparr>;
         if fd < 0 then do {
           n \<leftarrow> skynet_error api (Some ctx)
             (''Reconnect to harbor '' @ print_base 10 i @ '' : '' @ addr @ '' faild'') n;
           Some (m\<lparr>ms_remote_fd := (ms_remote_fd m)[i := -1]\<rparr>, n)
         } else Some (m, n)
       }
     }
   }"

fun broadcast_loop ::
  "module_api \<Rightarrow> 'w net \<Rightarrow> nat \<Rightarrow> string \<Rightarrow> u32 \<Rightarrow> nat list \<Rightarrow> 'w master \<times> node \<Rightarrow> ('w master \<times> node) option" where
  "broadcast_loop api net ctx nm handle [] mn = Some mn"
| "broadcast_loop api net ctx nm handle (i # is) mn = do {
     mn \<leftarrow> broadcast_one api net ctx nm handle i mn;
     broadcast_loop api net ctx nm handle is mn
   }"

definition broadcast ::
  "module_api \<Rightarrow> 'w net \<Rightarrow> nat \<Rightarrow> string \<Rightarrow> u32 \<Rightarrow> 'w master \<times> node \<Rightarrow> ('w master \<times> node) option" where
  "broadcast api net ctx nm handle mn = broadcast_loop api net ctx nm handle [1..<REMOTE_MAX] mn"

definition request_name ::
  "module_api \<Rightarrow> 'w net \<Rightarrow> nat \<Rightarrow> string \<Rightarrow> 'w master \<times> node \<Rightarrow> ('w master \<times> node) option" where
  "request_name api net ctx buffer mn = (
     let nm = master_copy_name buffer in
     case search_name (ms_map (fst mn)) nm of
       None \<Rightarrow> Some mn
     | Some node \<Rightarrow> broadcast api net ctx nm (nn_value node) mn)"

definition set_name :: "string \<Rightarrow> u32 \<Rightarrow> 'w master \<Rightarrow> 'w master" where
  "set_name nm handle m =
     (let m = (if search_name (ms_map m) nm = None then master_insert_name nm m else m)
      in m\<lparr>ms_map := update_node nm (\<lambda>node. node\<lparr>nn_value := handle\<rparr>) (ms_map m)\<rparr>)"

definition update_name ::
  "module_api \<Rightarrow> 'w net \<Rightarrow> nat \<Rightarrow> u32 \<Rightarrow> string \<Rightarrow> 'w master \<times> node \<Rightarrow> ('w master \<times> node) option" where
  "update_name api net ctx handle buffer mn = (
     let nm = master_copy_name buffer in
     broadcast api net ctx nm handle (set_name nm handle (fst mn), snd mn))"

text \<open>The known addresses, sent to the node that has just said where it is (the results are not looked at).\<close>

fun send_addresses :: "'w net \<Rightarrow> int \<Rightarrow> nat \<Rightarrow> nat list \<Rightarrow> 'w master \<Rightarrow> 'w master option" where
  "send_addresses net fd harbor_id [] m = Some m"
| "send_addresses net fd harbor_id (i # is) m =
     (if i = harbor_id then send_addresses net fd harbor_id is m
      else case ms_remote_addr m ! i of
          None \<Rightarrow> send_addresses net fd harbor_id is m
        | Some addr \<Rightarrow> do {
            (_, w) \<leftarrow> send_to net fd addr (of_nat i) (ms_world m);
            send_addresses net fd harbor_id is (m\<lparr>ms_world := w\<rparr>)
          })"

definition update_address ::
  "module_api \<Rightarrow> 'w net \<Rightarrow> nat \<Rightarrow> nat \<Rightarrow> string \<Rightarrow> 'w master \<times> node \<Rightarrow> ('w master \<times> node) option" where
  "update_address api net ctx harbor_id buffer mn = do {
     let (m, n) = mn;
     let m = (if 0 \<le> ms_remote_fd m ! harbor_id
              then m\<lparr>ms_world := net_close net (ms_remote_fd m ! harbor_id) (ms_world m),
                     ms_remote_fd := (ms_remote_fd m)[harbor_id := -1]\<rparr>
              else m);
     let addr = takeWhile (\<lambda>c. c \<noteq> CHR 0x00) buffer;
     let m = m\<lparr>ms_remote_addr := (ms_remote_addr m)[harbor_id := Some addr]\<rparr>;
     let (fd, _, w) = connect_to net addr (ms_world m);
     let m = m\<lparr>ms_world := w\<rparr>;
     if fd < 0 then do {
       n \<leftarrow> skynet_error api (Some ctx) (''Can'' @ [CHR 0x27] @ ''t connect to harbor '' @ print_base 10 harbor_id @ '' : '' @ addr) n;
       Some (m, n)
     } else do {
       (m, n) \<leftarrow> broadcast api net ctx buffer (of_nat harbor_id)
         (m\<lparr>ms_remote_fd := (ms_remote_fd m)[harbor_id := fd]\<rparr>, n);
       m \<leftarrow> send_addresses net fd harbor_id [1..<REMOTE_MAX] m;
       Some (m, n)
     }
   }"

definition master_mainloop ::
  "module_api \<Rightarrow> 'w net \<Rightarrow> nat \<Rightarrow> i32 \<Rightarrow> u32 \<Rightarrow> string \<Rightarrow> 'w master \<times> node \<Rightarrow> (int \<times> 'w master \<times> node) option" where
  "master_mainloop api net ctx ty source msg mn = do {
     c_assert (4 \<le> length msg);
     if ty \<noteq> PTYPE_HARBOR then do {
       n \<leftarrow> skynet_error api (Some ctx)
         (''None harbor message recv from '' @ sprintf_x source @ '' (type = '' @ sprintf_d ty @ '')'') (snd mn);
       Some (0, fst mn, n)
     } else do {
       let handle = ntohl msg;
       let nm = drop 4 msg;
       mn \<leftarrow> (if handle = 0 then request_name api net ctx nm mn
              else if unat handle < REMOTE_MAX then update_address api net ctx (unat handle) nm mn
              else update_name api net ctx handle nm mn);
       Some (0, mn)
     }
   }"

text \<open>
  The start of the master and of the harbor service: a gate with this service as its broker.  The
  result is the gate, or the text of the error.
\<close>

definition launch_gate ::
  "module_api \<Rightarrow> nat \<Rightarrow> string \<Rightarrow> string \<Rightarrow> node \<Rightarrow> (u32 option \<times> node) option" where
  "launch_gate api ctx who args n = do {
     (gate_addr, n) \<leftarrow> skynet_command api ctx ''LAUNCH'' (Some args) n;
     case gate_addr of
       None \<Rightarrow> do { n \<leftarrow> skynet_error api (Some ctx) (who @ '' : launch gate failed'') n; Some (None, n) }
     | Some gate_addr \<Rightarrow> do {
         let gate = ucast (strtoul16 (tl gate_addr));
         if gate = 0 then do {
           n \<leftarrow> skynet_error api (Some ctx) (who @ '' : launch gate invalid '' @ gate_addr) n;
           Some (None, n)
         } else do {
           (self_addr, n) \<leftarrow> skynet_command api ctx ''REG'' None n;
           self_addr \<leftarrow> self_addr;
           let t = ''broker '' @ self_addr;
           (_, n) \<leftarrow> skynet_send api ctx 0 gate PTYPE_TEXT 0 (PBytes t) (of_nat (length t)) n;
           (_, n) \<leftarrow> skynet_send api ctx 0 gate PTYPE_TEXT 0 (PBytes ''start'') 5 n;
           Some (Some gate, n)
         }
       }
   }"

definition master_init :: "module_api \<Rightarrow> nat \<Rightarrow> nat \<Rightarrow> string \<Rightarrow> node \<Rightarrow> (int \<times> node) option" where
  "master_init api ctx cb args n = do {
     (gate, n) \<leftarrow> launch_gate api ctx ''Master''
       (''gate L ! '' @ args @ '' '' @ sprintf_d PTYPE_HARBOR @ '' '' @ print_base 10 REMOTE_MAX @ '' 0'') n;
     case gate of
       None \<Rightarrow> Some (1, n)
     | Some _ \<Rightarrow> do {
         n \<leftarrow> skynet_callback ctx (Some cb) n;
         Some (0, n)
       }
   }"

end
