(* ===== verification/HarborService.thy ===== *)
theory HarborService
  imports Master
begin

text \<open>
  \<open>service-src/service_harbor.c\<close>: the service of a node that sends messages to other nodes.  It asks
  the master for global names, keeps the messages for a name in a queue until the answer comes, and
  delivers what arrives from other nodes (through a gate, with type \<open>PTYPE_HARBOR\<close>).
\<close>

unbundle bit_operations_syntax

section \<open>The queue of messages for a name\<close>

record remote_message_header =
  rh_source :: u32
  rh_destination :: u32
  rh_session :: u32

text \<open>A buffer: the bytes of a message, and the header kept behind them until it is encoded.\<close>

record remote_msg =
  rm_data :: string
  rm_header :: remote_message_header

record msg_queue =
  hq_size :: nat
  hq_head :: nat
  hq_tail :: nat
  hq_data :: "remote_msg option list"

definition HARBOR_QUEUE_SIZE :: nat where "HARBOR_QUEUE_SIZE = 1024"

definition new_queue :: msg_queue where
  "new_queue = \<lparr>hq_size = HARBOR_QUEUE_SIZE, hq_head = 0, hq_tail = 0, hq_data = replicate HARBOR_QUEUE_SIZE None\<rparr>"

definition expand_msg_queue :: "msg_queue \<Rightarrow> msg_queue" where
  "expand_msg_queue q =
     \<lparr>hq_size = hq_size q * 2, hq_head = 0, hq_tail = hq_size q - 1,
      hq_data = map (\<lambda>i. hq_data q ! ((i + hq_head q) mod hq_size q)) [0..<hq_size q - 1] @ replicate (hq_size q + 1) None\<rparr>"

definition push_queue :: "remote_msg \<Rightarrow> msg_queue \<Rightarrow> msg_queue" where
  "push_queue m q =
     (let q = (if (hq_tail q + 1) mod hq_size q = hq_head q then expand_msg_queue q else q)
      in q\<lparr>hq_data := (hq_data q)[hq_tail q := Some m], hq_tail := (hq_tail q + 1) mod hq_size q\<rparr>)"

definition pop_queue :: "msg_queue \<Rightarrow> remote_msg option \<times> msg_queue" where
  "pop_queue q =
     (if hq_head q = hq_tail q then (None, q)
      else (hq_data q ! hq_head q, q\<lparr>hq_head := (hq_head q + 1) mod hq_size q\<rparr>))"

section \<open>State\<close>

record keyvalue = name_node +
  kv_queue :: "msg_queue option"

record 'w harbor =
  hb_id :: i32
  hb_map :: "\<lparr>kv_queue :: msg_queue option\<rparr> name_map"
  hb_master_fd :: int
  hb_master_addr :: string
  hb_remote_fd :: "int list"
  hb_remote_addr :: "string option list"
  hb_world :: 'w

definition harbor_create :: "'w \<Rightarrow> 'w harbor" where
  "harbor_create w = \<lparr>hb_id = 0, hb_map = (\<lambda>_. []), hb_master_fd = -1, hb_master_addr = [],
     hb_remote_fd = replicate REMOTE_MAX (-1), hb_remote_addr = replicate REMOTE_MAX None, hb_world = w\<rparr>"

text \<open>\<open>harbor_release\<close>: the connections to the master and to the nodes; the rest of it frees memory.\<close>

definition harbor_release :: "'w net \<Rightarrow> 'w harbor \<Rightarrow> 'w" where
  "harbor_release net h = fold (\<lambda>fd w. if 0 \<le> fd then net_close net fd w else w) (hb_master_fd h # hb_remote_fd h) (hb_world h)"

definition hash_insert :: "string \<Rightarrow> 'w harbor \<Rightarrow> 'w harbor" where
  "hash_insert nm h =
     h\<lparr>hb_map := insert_node nm \<lparr>nn_key = nm, nn_hash = name_hash nm, nn_value = 0, kv_queue = None\<rparr> (hb_map h)\<rparr>"

definition set_remote_fd :: "nat \<Rightarrow> int \<Rightarrow> 'w harbor \<Rightarrow> 'w harbor" where
  "set_remote_fd i fd h = h\<lparr>hb_remote_fd := (hb_remote_fd h)[i := fd]\<rparr>"

type_synonym 'w harbor_state = "'w harbor \<times> node"

section \<open>Connections to other nodes\<close>

definition harbor_connect ::
  "module_api \<Rightarrow> 'w net \<Rightarrow> nat \<Rightarrow> string \<Rightarrow> 'w harbor_state \<Rightarrow> (int \<times> 'w harbor_state) option" where
  "harbor_connect api net ctx ipaddress hn = do {
     let (fd, failed, w) = connect_to net ipaddress (hb_world (fst hn));
     n \<leftarrow> (if failed then skynet_error api (Some ctx) (''Connect to '' @ ipaddress @ '' error'') (snd hn) else Some (snd hn));
     Some (fd, (fst hn)\<lparr>hb_world := w\<rparr>, n)
   }"

definition close_fd :: "'w net \<Rightarrow> int \<Rightarrow> 'w harbor \<Rightarrow> 'w harbor" where
  "close_fd net fd h = h\<lparr>hb_world := net_close net fd (hb_world h)\<rparr>"

definition header_to_message :: "remote_message_header \<Rightarrow> string" where
  "header_to_message header = htonl (rh_source header) @ htonl (rh_destination header) @ htonl (rh_session header)"

definition message_to_header :: "string \<Rightarrow> remote_message_header" where
  "message_to_header msg =
     \<lparr>rh_source = ntohl msg, rh_destination = ntohl (drop 4 msg), rh_session = ntohl (drop 8 msg)\<rparr>"

definition send_remote :: "'w net \<Rightarrow> int \<Rightarrow> string \<Rightarrow> remote_message_header \<Rightarrow> 'w \<Rightarrow> (bool \<times> 'w) option" where
  "send_remote net fd buffer cookie w =
     write_all net fd (htonl (of_nat (length buffer + 12)) @ buffer @ header_to_message cookie) w"

text \<open>\<open>h->remote_addr[i]\<close> as an argument of \<open>_connect_to\<close>: it must not be \<open>NULL\<close>.\<close>

definition reconnect ::
  "module_api \<Rightarrow> 'w net \<Rightarrow> nat \<Rightarrow> int \<Rightarrow> nat \<Rightarrow> 'w harbor_state \<Rightarrow> (string \<times> 'w harbor_state) option" where
  "reconnect api net ctx fd i hn = do {
     addr \<leftarrow> hb_remote_addr (fst hn) ! i;
     (fd', h, n) \<leftarrow> harbor_connect api net ctx addr (close_fd net fd (fst hn), snd hn);
     Some (addr, set_remote_fd i fd' h, n)
   }"

definition update_remote_address ::
  "module_api \<Rightarrow> 'w net \<Rightarrow> nat \<Rightarrow> u32 \<Rightarrow> string \<Rightarrow> 'w harbor_state \<Rightarrow> 'w harbor_state option" where
  "update_remote_address api net ctx harbor_id ipaddr hn = do {
     let (h, n) = hn;
     if harbor_id = hb_id h then Some (h, n)
     else do {
       c_assert (0 < harbor_id \<and> unat harbor_id < REMOTE_MAX);
       let i = unat harbor_id;
       let h = (if 0 \<le> hb_remote_fd h ! i
                then (close_fd net (hb_remote_fd h ! i) h)\<lparr>hb_remote_addr := (hb_remote_addr h)[i := None]\<rparr> else h);
       (fd, h, n) \<leftarrow> harbor_connect api net ctx ipaddr (h, n);
       let h = set_remote_fd i fd h;
       Some (if 0 \<le> fd then h\<lparr>hb_remote_addr := (hb_remote_addr h)[i := Some ipaddr]\<rparr> else h, n)
     }
   }"

section \<open>Names\<close>

text \<open>
  The loop of \<open>_dispatch_queue\<close>.  \<open>fd\<close> is read before the loop: after a reconnection the rest still
  goes to the old descriptor, and the message whose sending failed is not sent again.
\<close>

partial_function (option) dispatch_loop ::
  "module_api \<Rightarrow> 'w net \<Rightarrow> nat \<Rightarrow> int \<Rightarrow> nat \<Rightarrow> u32 \<Rightarrow> msg_queue \<Rightarrow> 'w harbor_state \<Rightarrow> 'w harbor_state option" where
  "dispatch_loop api net ctx fd harbor_id handle q hn = (
     let (m, q) = pop_queue q in
     case m of
       None \<Rightarrow> Some hn
     | Some m \<Rightarrow> do {
         let cookie = (rm_header m)\<lparr>rh_destination := rh_destination (rm_header m) OR (handle AND HANDLE_MASK)\<rparr>;
         (ok, w) \<leftarrow> send_package net fd (rm_data m @ header_to_message cookie) (hb_world (fst hn));
         let hn = ((fst hn)\<lparr>hb_world := w\<rparr>, snd hn);
         if ok then dispatch_loop api net ctx fd harbor_id handle q hn
         else do {
           (addr, h, n) \<leftarrow> reconnect api net ctx fd harbor_id hn;
           if hb_remote_fd h ! harbor_id < 0 then do {
             n \<leftarrow> skynet_error api (Some ctx)
               (''Reconnect to harbor '' @ print_base 10 harbor_id @ '' '' @ addr @ '' failed'') n;
             Some (h, n)
           } else dispatch_loop api net ctx fd harbor_id handle q (h, n)
         }
       })"

declare dispatch_loop.simps [code]

definition harbor_of :: "u32 \<Rightarrow> nat" where "harbor_of handle = unat (drop_bit HANDLE_REMOTE_SHIFT handle)"

definition dispatch_queue ::
  "module_api \<Rightarrow> 'w net \<Rightarrow> nat \<Rightarrow> msg_queue \<Rightarrow> u32 \<Rightarrow> string \<Rightarrow> 'w harbor_state \<Rightarrow> 'w harbor_state option" where
  "dispatch_queue api net ctx q handle nm hn = do {
     let harbor_id = harbor_of handle;
     c_assert (harbor_id \<noteq> 0);
     let fd = hb_remote_fd (fst hn) ! harbor_id;
     if fd < 0 then do {
       n \<leftarrow> skynet_error api (Some ctx)
         (''Drop message to '' @ takeWhile (\<lambda>c. c \<noteq> CHR 0x00) (take GLOBALNAME_LENGTH nm) @
          '' (in harbor '' @ print_base 10 harbor_id @ '')'') (snd hn);
       Some (fst hn, n)
     } else dispatch_loop api net ctx fd harbor_id handle q hn
   }"

text \<open>The node of a name, a new one for a new name; and the value it gets.\<close>

definition have_node :: "string \<Rightarrow> 'w harbor \<Rightarrow> 'w harbor" where
  "have_node nm h = (if search_name (hb_map h) nm = None then hash_insert nm h else h)"

definition set_handle :: "string \<Rightarrow> u32 \<Rightarrow> 'w harbor \<Rightarrow> 'w harbor" where
  "set_handle nm handle h =
     (let h = have_node nm h in h\<lparr>hb_map := update_node nm (\<lambda>node. node\<lparr>nn_value := handle\<rparr>) (hb_map h)\<rparr>)"

definition set_queue :: "string \<Rightarrow> msg_queue option \<Rightarrow> 'w harbor \<Rightarrow> 'w harbor" where
  "set_queue nm q h = h\<lparr>hb_map := update_node nm (\<lambda>node. node\<lparr>kv_queue := q\<rparr>) (hb_map h)\<rparr>"

definition update_remote_name ::
  "module_api \<Rightarrow> 'w net \<Rightarrow> nat \<Rightarrow> string \<Rightarrow> u32 \<Rightarrow> 'w harbor_state \<Rightarrow> 'w harbor_state option" where
  "update_remote_name api net ctx nm handle hn = do {
     let (h, n) = hn;
     let h = set_handle nm handle h;
     node \<leftarrow> search_name (hb_map h) nm;
     case kv_queue node of
       None \<Rightarrow> Some (h, n)
     | Some q \<Rightarrow> do {
         (h, n) \<leftarrow> dispatch_queue api net ctx q handle nm (h, n);
         Some (set_queue nm None h, n)
       }
   }"

definition request_master ::
  "module_api \<Rightarrow> 'w net \<Rightarrow> nat \<Rightarrow> string \<Rightarrow> u32 \<Rightarrow> 'w harbor_state \<Rightarrow> 'w harbor_state option" where
  "request_master api net ctx nm handle hn = do {
     let (h, n) = hn;
     let buffer = htonl handle @ nm;
     (ok, w) \<leftarrow> send_package net (hb_master_fd h) buffer (hb_world h);
     let h = h\<lparr>hb_world := w\<rparr>;
     if ok then Some (h, n)
     else do {
       (fd, h, n) \<leftarrow> harbor_connect api net ctx (hb_master_addr h) (close_fd net (hb_master_fd h) h, n);
       let h = h\<lparr>hb_master_fd := fd\<rparr>;
       if fd < 0 then do {
         n \<leftarrow> skynet_error api (Some ctx) (''Reconnect to master server '' @ hb_master_addr h @ '' failed'') n;
         Some (h, n)
       } else do {
         (_, w) \<leftarrow> send_package net fd buffer (hb_world h);
         Some (h\<lparr>hb_world := w\<rparr>, n)
       }
     }
   }"

definition remote_register_name ::
  "module_api \<Rightarrow> 'w net \<Rightarrow> nat \<Rightarrow> string \<Rightarrow> u32 \<Rightarrow> 'w harbor_state \<Rightarrow> 'w harbor_state option" where
  "remote_register_name api net ctx nm handle hn = do {
     hn \<leftarrow> (if handle \<noteq> 0 then update_remote_name api net ctx nm handle hn else Some hn);
     request_master api net ctx (takeWhile (\<lambda>c. c \<noteq> CHR 0x00) (take GLOBALNAME_LENGTH nm)) handle hn
   }"

section \<open>Sending\<close>

text \<open>The result 1 says that the message was passed on to a local service, which frees it.\<close>

definition remote_send_handle ::
  "module_api \<Rightarrow> 'w net \<Rightarrow> nat \<Rightarrow> u32 \<Rightarrow> u32 \<Rightarrow> i32 \<Rightarrow> i32 \<Rightarrow> string \<Rightarrow> 'w harbor_state \<Rightarrow> (int \<times> 'w harbor_state) option" where
  "remote_send_handle api net ctx source destination ty session msg hn = do {
     let (h, n) = hn;
     let harbor_id = harbor_of destination;
     c_assert (harbor_id \<noteq> 0);
     if int harbor_id = sint (hb_id h) then do {
       (_, n) \<leftarrow> skynet_send api ctx source destination (ty OR PTYPE_TAG_DONTCOPY) session (PBytes msg) (of_nat (length msg)) n;
       Some (1, h, n)
     } else do {
       let fd = hb_remote_fd h ! harbor_id;
       if 0 \<le> fd then do {
         let cookie = \<lparr>rh_source = source, rh_destination = (destination AND HANDLE_MASK) OR push_bit HANDLE_REMOTE_SHIFT ty,
                       rh_session = session\<rparr>;
         (ok, w) \<leftarrow> send_remote net fd msg cookie (hb_world h);
         let h = h\<lparr>hb_world := w\<rparr>;
         if ok then Some (0, h, n)
         else do {
           (addr, h, n) \<leftarrow> reconnect api net ctx fd harbor_id (h, n);
           if hb_remote_fd h ! harbor_id < 0 then do {
             n \<leftarrow> skynet_error api (Some ctx)
               (''Reconnect to harbor '' @ print_base 10 harbor_id @ '' : '' @ addr @ '' failed'') n;
             Some (0, h, n)
           } else Some (0, h, n)
         }
       } else do {
         (h, n) \<leftarrow> request_master api net ctx [] (of_nat harbor_id) (h, n);
         n \<leftarrow> skynet_error api (Some ctx)
           (''Drop message to harbor '' @ print_base 10 harbor_id @ '' from '' @ sprintf_x source @ '' to '' @
            sprintf_x destination @ '' (session = '' @ sprintf_d session @ '', msgsz = '' @
            sprintf_d (of_nat (length msg)) @ '')'') n;
         Some (0, h, n)
       }
     }
   }"

definition remote_send_name ::
  "module_api \<Rightarrow> 'w net \<Rightarrow> nat \<Rightarrow> u32 \<Rightarrow> string \<Rightarrow> i32 \<Rightarrow> i32 \<Rightarrow> string \<Rightarrow> 'w harbor_state \<Rightarrow> (int \<times> 'w harbor_state) option" where
  "remote_send_name api net ctx source nm ty session msg hn = do {
     let (h, n) = hn;
     let h = have_node nm h;
     node \<leftarrow> search_name (hb_map h) nm;
     if nn_value node = 0 then do {
       let q = (case kv_queue node of Some q \<Rightarrow> q | None \<Rightarrow> new_queue);
       let header = \<lparr>rh_source = source, rh_destination = push_bit HANDLE_REMOTE_SHIFT ty, rh_session = session\<rparr>;
       let q = push_queue \<lparr>rm_data = msg, rm_header = header\<rparr> q;
       hn \<leftarrow> remote_register_name api net ctx nm 0 (set_queue nm (Some q) h, n);
       Some (0, hn)
     } else remote_send_handle api net ctx source (nn_value node) ty session msg (h, n)
   }"

section \<open>The callback\<close>

text \<open>What another node or the master has sent; \<open>msg\<close> ends with the twelve bytes of the header.\<close>

definition harbor_in ::
  "module_api \<Rightarrow> 'w net \<Rightarrow> nat \<Rightarrow> string \<Rightarrow> 'w harbor_state \<Rightarrow> (int \<times> 'w harbor_state) option" where
  "harbor_in api net ctx msg hn = do {
     c_assert (12 \<le> length msg);
     let sz = length msg - 12;
     let header = message_to_header (drop sz msg);
     if rh_source header = 0 then
       if unat (rh_destination header) < REMOTE_MAX then do {
         hn \<leftarrow> update_remote_address api net ctx (rh_destination header) (takeWhile (\<lambda>c. c \<noteq> CHR 0x00) (take sz msg)) hn;
         Some (0, hn)
       } else do {
         n \<leftarrow> (if GLOBALNAME_LENGTH < sz
                then skynet_error api (Some ctx)
                  (''Global name is too long '' @ takeWhile (\<lambda>c. c \<noteq> CHR 0x00) (take sz msg)) (snd hn)
                else Some (snd hn));
         c_assert (GLOBALNAME_LENGTH \<le> length msg);
         hn \<leftarrow> update_remote_name api net ctx (take GLOBALNAME_LENGTH msg) (rh_destination header) (fst hn, n);
         Some (0, hn)
       }
     else do {
       let destination = rh_destination header;
       let ty = drop_bit HANDLE_REMOTE_SHIFT destination OR PTYPE_TAG_DONTCOPY;
       let destination = (destination AND HANDLE_MASK) OR push_bit HANDLE_REMOTE_SHIFT (hb_id (fst hn));
       (_, n) \<leftarrow> skynet_send api ctx (rh_source header) destination ty (rh_session header) (PBytes (take sz msg)) (of_nat sz) (snd hn);
       Some (1, fst hn, n)
     }
   }"

text \<open>The bytes of a message that goes to another node.\<close>

definition message_bytes :: "payload \<Rightarrow> u64 \<Rightarrow> string option" where
  "message_bytes d sz = (case d of
     PNull \<Rightarrow> do { c_assert (sz = 0); Some [] }
   | PBytes s \<Rightarrow> do { c_assert (unat sz \<le> length s); Some (take (unat sz) s) }
   | _ \<Rightarrow> None)"

definition harbor_mainloop ::
  "module_api \<Rightarrow> 'w net \<Rightarrow> nat \<Rightarrow> i32 \<Rightarrow> i32 \<Rightarrow> u32 \<Rightarrow> payload \<Rightarrow> u64 \<Rightarrow> 'w harbor_state \<Rightarrow> (int \<times> 'w harbor_state) option" where
  "harbor_mainloop api net ctx ty session source msg sz hn =
     (if ty = PTYPE_HARBOR then
        (case msg of
           PBytes s \<Rightarrow> do { c_assert (length s = unat sz); harbor_in api net ctx s hn }
         | _ \<Rightarrow> None)
      else if ty = PTYPE_SYSTEM then
        (case msg of
           PRemoteName nm handle \<Rightarrow> do {
             c_assert (sz = sizeof_remote_name);
             hn \<leftarrow> remote_register_name api net ctx nm handle hn;
             Some (0, hn)
           }
         | _ \<Rightarrow> None)
      else
        (case msg of
           PRemoteMessage nm handle d dsz \<Rightarrow> do {
             b \<leftarrow> message_bytes d dsz;
             (r, h, n) \<leftarrow> (if handle = 0 then remote_send_name api net ctx source nm ty session b hn
                           else remote_send_handle api net ctx source handle ty session b hn);
             Some (0, h, if r \<noteq> 0 then n else free_data d n)
           }
         | _ \<Rightarrow> None))"

definition harbor_init ::
  "module_api \<Rightarrow> 'w net \<Rightarrow> nat \<Rightarrow> nat \<Rightarrow> string \<Rightarrow> string \<Rightarrow> i32 \<Rightarrow> 'w harbor_state \<Rightarrow> (int \<times> 'w harbor_state) option" where
  "harbor_init api net ctx cb master_addr local_addr harbor_id hn = do {
     (master_fd, h, n) \<leftarrow> harbor_connect api net ctx master_addr hn;
     if master_fd < 0 then do {
       n \<leftarrow> skynet_error api (Some ctx) (''Harbor : Connect to master '' @ master_addr @ '' faild'') n;
       Some (1, h, n)
     } else do {
       let h = h\<lparr>hb_master_addr := master_addr, hb_master_fd := master_fd\<rparr>;
       (gate, n) \<leftarrow> launch_gate api ctx ''Harbor''
         (''gate L ! '' @ local_addr @ '' '' @ sprintf_d PTYPE_HARBOR @ '' '' @ print_base 10 REMOTE_MAX @ '' 0'') n;
       case gate of
         None \<Rightarrow> Some (1, h, n)
       | Some _ \<Rightarrow> do {
           n \<leftarrow> skynet_callback ctx (Some cb) n;
           hn \<leftarrow> request_master api net ctx local_addr harbor_id (h\<lparr>hb_id := harbor_id\<rparr>, n);
           Some (0, hn)
         }
     }
   }"

end
