(* ===== verification/Directory.thy ===== *)
theory Directory
  imports Network
begin

text \<open>
  The interface of a table of names as the master and the harbor services use it, and what the hash
  table of \<open>Network\<close> provides of it.  Also the network on which every write succeeds, the case in which
  the properties of the two services say what goes out and in which order.
\<close>

section \<open>The interface\<close>

text \<open>\<open>same\<close> says which keys the provider takes for one name.\<close>

locale directory =
  fixes find_name :: "'s \<Rightarrow> 'k \<Rightarrow> 'v option"
    and bind_name :: "'k \<Rightarrow> 'v \<Rightarrow> 's \<Rightarrow> 's"
    and same :: "'k \<Rightarrow> 'k \<Rightarrow> bool"
  assumes find_bind: "find_name (bind_name k v s) k' = (if same k k' then Some v else find_name s k')"
begin

text \<open>The value of a name is the one it was given last.\<close>

lemma find_binds:
  "find_name (fold (\<lambda>(k, v). bind_name k v) kvs s) k' =
     (case find (\<lambda>(k, v). same k k') (rev kvs) of Some (k, v) \<Rightarrow> Some v | None \<Rightarrow> find_name s k')"
proof (induction kvs rule: rev_induct)
  case (snoc kv kvs)
  then show ?case by (cases kv) (simp add: find_bind)
qed simp

lemma unbound_binds:
  "\<forall>(k, v) \<in> set kvs. \<not> same k k' \<Longrightarrow> find_name (fold (\<lambda>(k, v). bind_name k v) kvs s) k' = find_name s k'"
proof -
  assume "\<forall>(k, v) \<in> set kvs. \<not> same k k'"
  then have "find (\<lambda>(k, v). same k k') (rev kvs) = None" by (auto simp: find_None_iff)
  then show ?thesis by (simp add: find_binds)
qed

end

section \<open>The hash table\<close>

definition same_entry :: "string \<Rightarrow> string \<Rightarrow> bool" where
  "same_entry a b \<longleftrightarrow> name_hash a = name_hash b \<and> same_name a b"

lemma same_entry_refl [simp]: "same_entry a a"
  by (simp add: same_entry_def same_name_def)

lemma same_entry_bucket: "same_entry a b \<Longrightarrow> bucket a = bucket b"
  by (simp add: same_entry_def bucket_def)

lemma matches_same: "matches a x \<Longrightarrow> matches b x \<longleftrightarrow> same_entry a b"
  by (auto simp: matches_def same_entry_def same_name_def)

lemma find_update_first:
  assumes "\<And>x. nn_key (f x) = nn_key x" "\<And>x. nn_hash (f x) = nn_hash x"
  shows "find (matches b) (update_first (matches a) f xs) =
    (if same_entry a b then map_option f (find (matches a) xs) else find (matches b) xs)"
proof (induction xs)
  case (Cons x xs)
  have m: "matches b (f x) = matches b x" by (simp add: matches_def assms)
  show ?case
  proof (cases "matches a x")
    case True
    then show ?thesis using m matches_same [OF True, of b] by simp
  next
    case False
    have "same_entry a b \<Longrightarrow> matches b x = matches a x"
      by (auto simp only: matches_def same_entry_def same_name_def)
    then show ?thesis using False Cons.IH by (cases "same_entry a b") simp_all
  qed
qed simp

lemma search_update_node:
  assumes "\<And>x. nn_key (f x) = nn_key x" "\<And>x. nn_hash (f x) = nn_hash x"
  shows "search_name (update_node a f m) b = (if same_entry a b then map_option f (search_name m a) else search_name m b)"
proof (cases "bucket a = bucket b")
  case True
  then show ?thesis
    using find_update_first [OF assms, of b a "m (bucket a)"] by (simp add: search_name_def update_node_def)
next
  case False
  then have "\<not> same_entry a b" using same_entry_bucket by blast
  with False show ?thesis by (simp add: search_name_def update_node_def)
qed

lemma search_insert_node:
  assumes "nn_key x = a" "nn_hash x = name_hash a"
  shows "search_name (insert_node a x m) b = (if same_entry a b then Some x else search_name m b)"
proof -
  have "matches a x" using assms by (simp add: matches_def same_name_def)
  then have m: "matches b x \<longleftrightarrow> same_entry a b" by (rule matches_same)
  show ?thesis
  proof (cases "bucket a = bucket b")
    case True
    then show ?thesis using m by (simp add: search_name_def insert_node_def)
  next
    case False
    then have "\<not> same_entry a b" using same_entry_bucket by blast
    with False show ?thesis by (simp add: search_name_def insert_node_def)
  qed
qed

lemma search_same: "same_entry a b \<Longrightarrow> search_name m a = search_name m b"
proof -
  assume s: "same_entry a b"
  then have "matches a = (matches b :: 'a name_node_scheme \<Rightarrow> bool)"
    by (intro ext) (auto simp: matches_def same_entry_def same_name_def)
  then show ?thesis using same_entry_bucket [OF s] by (simp add: search_name_def)
qed

text \<open>Names that are filled up with NULs are one name only if they are equal.\<close>

definition padded :: "string \<Rightarrow> string" where
  "padded s = s @ replicate (GLOBALNAME_LENGTH - length s) (CHR 0x00)"

definition valid_name :: "string \<Rightarrow> bool" where
  "valid_name s \<longleftrightarrow> length s \<le> GLOBALNAME_LENGTH \<and> CHR 0x00 \<notin> set s"

lemma takeWhile_padded: "valid_name s \<Longrightarrow> takeWhile (\<lambda>c. c \<noteq> CHR 0x00) (take GLOBALNAME_LENGTH (padded s)) = s"
proof -
  assume v: "valid_name s"
  then have t: "take GLOBALNAME_LENGTH (padded s) = padded s" by (simp add: padded_def valid_name_def)
  have "takeWhile (\<lambda>c. c \<noteq> CHR 0x00) (s @ replicate k (CHR 0x00)) = s" for k
    using v by (subst takeWhile_append2) (auto simp: valid_name_def takeWhile_eq_Nil_iff)
  then show ?thesis unfolding t by (simp add: padded_def)
qed

lemma padded_length: "valid_name s \<Longrightarrow> length (padded s) = GLOBALNAME_LENGTH"
  by (simp add: padded_def valid_name_def)

lemma same_padded: "valid_name a \<Longrightarrow> valid_name b \<Longrightarrow> same_entry (padded a) (padded b) \<longleftrightarrow> a = b"
  using takeWhile_padded by (auto simp: same_entry_def same_name_def)

section \<open>The network on which every write succeeds\<close>

text \<open>A package: its length in four bytes, then its bytes.\<close>

definition framed :: "string \<Rightarrow> string" where
  "framed s = htonl (of_nat (length s)) @ s"

lemma framed_read:
  "length s < 2 ^ 32 \<Longrightarrow> unat (ntohl (framed s)) = length s \<and> drop 4 (framed s) = s"
  by (simp add: framed_def ntohl_htonl unat_of_nat take_bit_nat_eq_self del: power_numeral)

definition reliable :: "'w net \<Rightarrow> bool" where
  "reliable net \<longleftrightarrow> (\<forall>fd b w. fst (net_write net fd b w) = Done (length b))"

fun writes :: "'w net \<Rightarrow> (int \<times> string) list \<Rightarrow> 'w \<Rightarrow> 'w" where
  "writes net [] w = w"
| "writes net ((fd, b) # bs) w = writes net bs (snd (net_write net fd b w))"

lemma writes_append: "writes net (xs @ ys) w = writes net ys (writes net xs w)"
  by (induction xs arbitrary: w) auto

lemma write_all_reliable: "reliable net \<Longrightarrow> write_all net fd b w = Some (True, writes net [(fd, b)] w)"
proof -
  assume "reliable net"
  then obtain w' where "net_write net fd b w = (Done (length b), w')"
    by (cases "net_write net fd b w") (metis fst_conv reliable_def)
  then show ?thesis by (subst write_all.simps) simp
qed

text \<open>A network that keeps everything that was written, to show that the hypothesis can hold.\<close>

definition recording_net :: "(int \<times> string) list net" where
  "recording_net = \<lparr>net_socket = (\<lambda>w. (3, w)), net_inet_addr = (\<lambda>_. 0), net_connect = (\<lambda>_ _ _ w. (0, w)),
     net_write = (\<lambda>fd b w. (Done (length b), w @ [(fd, b)])), net_close = (\<lambda>_ w. w)\<rparr>"

lemma recording_reliable [simp]: "reliable recording_net"
  by (simp add: recording_net_def reliable_def)

lemma recording_write [simp]: "net_write recording_net fd b w = (Done (length b), w @ [(fd, b)])"
  by (simp add: recording_net_def)

lemma recording_writes [simp]: "writes recording_net bs w = w @ bs"
  by (induction bs arbitrary: w) (auto simp: recording_net_def)

end
