(* ===== verification/HarborQueue.thy ===== *)
theory HarborQueue
  imports HarborService Directory Fifo
begin

text \<open>
  The circular buffer of \<open>service_harbor.c\<close> is a queue in the sense of \<open>Fifo\<close>: it grows before it is
  full, so one slot is always free.
\<close>

definition hq_len :: "msg_queue \<Rightarrow> nat" where
  "hq_len q = (hq_tail q + hq_size q - hq_head q) mod hq_size q"

definition hq_contents :: "msg_queue \<Rightarrow> remote_msg list" where
  "hq_contents q = map the (ring_seg (hq_data q) (hq_head q) (hq_len q))"

definition hq_ok :: "msg_queue \<Rightarrow> bool" where
  "hq_ok q \<longleftrightarrow> length (hq_data q) = hq_size q \<and> hq_head q < hq_size q \<and> hq_tail q < hq_size q \<and>
     None \<notin> set (ring_seg (hq_data q) (hq_head q) (hq_len q))"

lemma hq_len_eq:
  "hq_head q < hq_size q \<Longrightarrow> hq_tail q < hq_size q \<Longrightarrow>
     hq_len q = (if hq_head q \<le> hq_tail q then hq_tail q - hq_head q else hq_tail q + hq_size q - hq_head q)"
  by (auto simp: hq_len_def mod_if)

lemma hq_tail_eq:
  "hq_head q < hq_size q \<Longrightarrow> hq_tail q < hq_size q \<Longrightarrow> (hq_head q + hq_len q) mod hq_size q = hq_tail q"
  by (auto simp: hq_len_eq)

lemma hq_len_0: "hq_head q < hq_size q \<Longrightarrow> hq_tail q < hq_size q \<Longrightarrow> hq_len q = 0 \<longleftrightarrow> hq_head q = hq_tail q"
  by (auto simp: hq_len_eq)

lemma hq_cells: "hq_ok q \<Longrightarrow> ring_seg (hq_data q) (hq_head q) (hq_len q) = map Some (hq_contents q)"
  by (simp add: hq_ok_def hq_contents_def map_Some_the del: map_map)

lemma hq_okI:
  assumes "length (hq_data q) = hq_size q" "hq_head q < hq_size q" "hq_tail q < hq_size q"
    and "ring_seg (hq_data q) (hq_head q) (hq_len q) = map Some ms"
  shows "hq_ok q \<and> hq_contents q = ms"
  using assms by (auto simp: hq_ok_def hq_contents_def comp_def)

lemma new_queue_ok [simp]: "hq_ok new_queue" "hq_contents new_queue = []"
  by (simp_all add: hq_ok_def hq_contents_def new_queue_def hq_len_def HARBOR_QUEUE_SIZE_def)

text \<open>Where there is room, the message goes to the tail.\<close>

lemma hq_put:
  assumes ok: "hq_ok q" and room: "(hq_tail q + 1) mod hq_size q \<noteq> hq_head q"
    and q'_def: "q' = q\<lparr>hq_data := (hq_data q)[hq_tail q := Some m], hq_tail := (hq_tail q + 1) mod hq_size q\<rparr>"
  shows "hq_ok q' \<and> hq_contents q' = hq_contents q @ [m]"
proof -
  have b: "length (hq_data q) = hq_size q" "hq_head q < hq_size q" "hq_tail q < hq_size q"
    using ok by (auto simp: hq_ok_def)
  have n: "hq_len q < hq_size q" using b by (simp add: hq_len_def)
  have t: "(hq_tail q + 1) mod hq_size q < hq_size q" using b by simp
  have len: "hq_len q' = Suc (hq_len q)"
    using b room by (auto simp: q'_def hq_len_eq mod_if split: if_splits)
  have "ring_seg (hq_data q') (hq_head q') (hq_len q') = map Some (hq_contents q @ [m])"
    unfolding len using ring_seg_push_back [of "hq_len q" "hq_data q" "hq_head q" "Some m"] n b hq_tail_eq [OF b(2,3)] hq_cells [OF ok]
    by (simp add: q'_def)
  then show ?thesis using b t by (intro hq_okI) (simp_all add: q'_def)
qed

text \<open>The larger buffer holds the same messages and has room.\<close>

lemma hq_expand:
  assumes ok: "hq_ok q" and full: "(hq_tail q + 1) mod hq_size q = hq_head q"
  defines "q' \<equiv> expand_msg_queue q"
  shows "hq_ok q' \<and> hq_contents q' = hq_contents q \<and> (hq_tail q' + 1) mod hq_size q' \<noteq> hq_head q'"
proof -
  have b: "length (hq_data q) = hq_size q" "hq_head q < hq_size q" "hq_tail q < hq_size q"
    using ok by (auto simp: hq_ok_def)
  have n: "hq_len q = hq_size q - 1"
    using b full by (auto simp: hq_len_eq mod_if split: if_splits)
  have q': "length (hq_data q') = hq_size q'" "hq_head q' < hq_size q'" "hq_tail q' < hq_size q'"
    using b by (auto simp: q'_def expand_msg_queue_def)
  have len: "hq_len q' = hq_size q - 1"
    using b hq_len_eq [OF q'(2,3)] by (simp add: q'_def expand_msg_queue_def)
  have "ring_seg (hq_data q') (hq_head q') (hq_size q - 1) = ring_seg (hq_data q) (hq_head q) (hq_size q - 1)"
    using b by (intro nth_equalityI) (auto simp: q'_def expand_msg_queue_def ring_seg_nth nth_append add.commute)
  then have "ring_seg (hq_data q') (hq_head q') (hq_len q') = map Some (hq_contents q)"
    using hq_cells [OF ok] n len by simp
  moreover have "(hq_tail q' + 1) mod hq_size q' \<noteq> hq_head q'"
    using b by (simp add: q'_def expand_msg_queue_def)
  ultimately show ?thesis using hq_okI [OF q'(1-3)] by simp
qed

lemma push_queue_contents:
  assumes "hq_ok q"
  shows "hq_ok (push_queue m q) \<and> hq_contents (push_queue m q) = hq_contents q @ [m]"
proof (cases "(hq_tail q + 1) mod hq_size q = hq_head q")
  case True
  then show ?thesis
    using hq_put [of "expand_msg_queue q" _ m] hq_expand [OF assms True] by (simp add: push_queue_def Let_def)
next
  case False
  then show ?thesis using hq_put [OF assms False refl, of m] by (simp add: push_queue_def)
qed

lemma pop_queue_empty: "hq_ok q \<Longrightarrow> hq_contents q = [] \<Longrightarrow> pop_queue q = (None, q)"
  proof -
  assume ok: "hq_ok q" and "hq_contents q = []"
  then have "hq_len q = 0" by (metis hq_contents_def length_map length_ring_seg list.size(3))
  then show ?thesis using hq_len_0 [of q] ok by (simp add: pop_queue_def hq_ok_def)
qed

lemma pop_queue_nonempty:
  assumes ok: "hq_ok q" and c: "hq_contents q = m # ms"
  shows "\<exists>q'. pop_queue q = (Some m, q') \<and> hq_ok q' \<and> hq_contents q' = ms"
proof -
  have b: "length (hq_data q) = hq_size q" "hq_head q < hq_size q" "hq_tail q < hq_size q"
    using ok by (auto simp: hq_ok_def)
  obtain k where k: "hq_len q = Suc k"
    using c by (cases "hq_len q") (auto simp: hq_contents_def)
  have ne: "hq_head q \<noteq> hq_tail q" using hq_len_0 [OF b(2,3)] k by simp
  define q' where "q' = q\<lparr>hq_head := (hq_head q + 1) mod hq_size q\<rparr>"
  have h: "(hq_head q + 1) mod hq_size q < hq_size q" using b by simp
  have "hq_len q' = k"
    using b ne k by (auto simp: q'_def hq_len_eq mod_if split: if_splits)
  then have "ring_seg (hq_data q) (hq_head q) (hq_len q) = hq_data q ! hq_head q # ring_seg (hq_data q') (hq_head q') (hq_len q')"
    using ring_seg_Suc_front [of "hq_head q" "hq_data q" k] b k by (simp add: q'_def)
  then have "hq_data q ! hq_head q = Some m" "ring_seg (hq_data q') (hq_head q') (hq_len q') = map Some ms"
    using hq_cells [OF ok] c by auto
  then show ?thesis
    using ne b h hq_okI [of q' ms] by (auto simp: pop_queue_def q'_def)
qed

interpretation hqueue: fifo hq_ok hq_contents None push_queue pop_queue
proof
  show "hq_ok (push_queue x q)" if "hq_ok q" for q x
    using push_queue_contents [OF that] by blast
  show "hq_contents (push_queue x q) = hq_contents q @ [x]" if "hq_ok q" for q x
    using push_queue_contents [OF that] by blast
  show "hq_ok (snd (pop_queue q))" if "hq_ok q" for q
    using that pop_queue_empty [OF that] pop_queue_nonempty [OF that] by (cases "hq_contents q") fastforce+
  show "fst (pop_queue q) = None \<and> hq_contents (snd (pop_queue q)) = []" if "hq_ok q" "hq_contents q = []" for q
    using pop_queue_empty [OF that] that by simp
  show "fst (pop_queue q) = Some x \<and> hq_contents (snd (pop_queue q)) = xs" if "hq_ok q" "hq_contents q = x # xs" for q x xs
    using pop_queue_nonempty [OF that] by force
qed

end
