(* ===== verification/MasterProps.thy ===== *)
theory MasterProps
  imports Master Directory Delivery
begin

text \<open>
  Properties of the master: the hash table is a directory that answers with the value registered
  last, and on a network without errors every node that is connected hears of a change.
\<close>

section \<open>The names\<close>

lemma set_name_search:
  "map_option nn_value (search_name (ms_map (set_name a v m)) b) =
     (if same_entry a b then Some v else map_option nn_value (search_name (ms_map m) b))"
proof -
  define m1 where "m1 = (if search_name (ms_map m) a = None then master_insert_name a m else m)"
  have "set_name a v m = m1\<lparr>ms_map := update_node a (\<lambda>node. node\<lparr>nn_value := v\<rparr>) (ms_map m1)\<rparr>"
    by (simp add: set_name_def m1_def Let_def)
  then have s: "search_name (ms_map (set_name a v m)) b =
      (if same_entry a b then map_option (\<lambda>node. node\<lparr>nn_value := v\<rparr>) (search_name (ms_map m1) a)
       else search_name (ms_map m1) b)"
    by (simp add: search_update_node)
  have "search_name (ms_map m1) a \<noteq> None"
    by (auto simp: m1_def master_insert_name_def search_insert_node)
  moreover have "\<not> same_entry a b \<Longrightarrow> search_name (ms_map m1) b = search_name (ms_map m) b"
    by (simp add: m1_def master_insert_name_def search_insert_node)
  ultimately show ?thesis unfolding s by (auto simp: option.map_comp comp_def)
qed

definition master_find :: "'w master \<Rightarrow> string \<Rightarrow> u32 option" where
  "master_find m b = map_option nn_value (search_name (ms_map m) (master_copy_name b))"

definition master_bind :: "string \<Rightarrow> u32 \<Rightarrow> 'w master \<Rightarrow> 'w master" where
  "master_bind b v m = set_name (master_copy_name b) v m"

interpretation mnames: directory master_find master_bind "\<lambda>a b. same_entry (master_copy_name a) (master_copy_name b)"
  by unfold_locales (simp add: master_find_def master_bind_def set_name_search)

lemma master_copy_padded: "valid_name nm \<Longrightarrow> master_copy_name nm = padded nm"
  by (simp add: master_copy_name_def padded_def valid_name_def)

lemma master_find_world [simp]: "master_find (m\<lparr>ms_world := w\<rparr>) = master_find m"
  by (intro ext) (simp add: master_find_def)

lemma master_bind_world: "master_bind b v (m\<lparr>ms_world := w\<rparr>) = (master_bind b v m)\<lparr>ms_world := w\<rparr>"
  by (simp add: master_bind_def set_name_def master_insert_name_def Let_def)

lemma master_bind_fd [simp]: "ms_remote_fd (master_bind b v m) = ms_remote_fd m" "ms_world (master_bind b v m) = ms_world m"
  by (simp_all add: master_bind_def set_name_def master_insert_name_def Let_def)

section \<open>Announcements\<close>

definition notice :: "string \<Rightarrow> u32 \<Rightarrow> string" where
  "notice nm handle = nm @ htonl 0 @ htonl handle @ htonl 0"

text \<open>What a broadcast writes: the notice, to every connected node in turn.\<close>

definition announce :: "nat list \<Rightarrow> 'w master \<Rightarrow> string \<Rightarrow> u32 \<Rightarrow> (int \<times> string) list" where
  "announce is m nm handle =
     map (\<lambda>i. (ms_remote_fd m ! i, framed (notice nm handle))) (filter (\<lambda>i. 0 \<le> ms_remote_fd m ! i) is)"

lemma send_to_reliable:
  "reliable net \<Longrightarrow> send_to net fd b handle w = Some (True, writes net [(fd, framed (notice b handle))] w)"
  unfolding send_to_def by (subst write_all_reliable) (simp_all add: framed_def notice_def)

lemma broadcast_loop_reliable:
  "reliable net \<Longrightarrow> broadcast_loop api net ctx nm handle is (m, n) =
     Some (m\<lparr>ms_world := writes net (announce is m nm handle) (ms_world m)\<rparr>, n)"
proof (induction "is" arbitrary: m)
  case (Cons i "is")
  show ?case
  proof (cases "0 \<le> ms_remote_fd m ! i")
    case True
    then show ?thesis
      using Cons by (simp add: broadcast_one_def send_to_reliable announce_def)
  next
    case False
    then show ?thesis using Cons by (simp add: broadcast_one_def announce_def)
  qed
qed (simp add: announce_def)

lemma broadcast_reliable:
  "reliable net \<Longrightarrow> broadcast api net ctx nm handle (m, n) =
     Some (m\<lparr>ms_world := writes net (announce [1..<REMOTE_MAX] m nm handle) (ms_world m)\<rparr>, n)"
  unfolding broadcast_def by (rule broadcast_loop_reliable)

lemma update_name_reliable:
  "reliable net \<Longrightarrow> update_name api net ctx handle nm (m, n) =
     Some ((master_bind nm handle m)\<lparr>ms_world := writes net (announce [1..<REMOTE_MAX] m (master_copy_name nm) handle) (ms_world m)\<rparr>, n)"
proof -
  have fd: "announce is (set_name c v m) = announce is m" "ms_world (set_name c v m) = ms_world m" for "is" c v
    by (intro ext, simp_all add: announce_def set_name_def master_insert_name_def Let_def)
  assume "reliable net"
  then show ?thesis
    by (simp add: update_name_def Let_def broadcast_reliable master_bind_def fd)
qed

section \<open>A run of the master\<close>

fun master_run ::
  "module_api \<Rightarrow> 'w net \<Rightarrow> nat \<Rightarrow> string list \<Rightarrow> 'w master \<times> node \<Rightarrow> ('w master \<times> node) option" where
  "master_run api net ctx [] mn = Some mn"
| "master_run api net ctx (msg # msgs) mn = do {
     (_, mn) \<leftarrow> master_mainloop api net ctx PTYPE_HARBOR 0 msg mn;
     master_run api net ctx msgs mn
   }"

lemma mainloop_register:
  assumes "REMOTE_MAX \<le> unat v"
  shows "master_mainloop api net ctx PTYPE_HARBOR s (htonl v @ nm) mn =
    map_option (\<lambda>mn. (0, mn)) (update_name api net ctx v nm mn)"
proof -
  have "v \<noteq> 0" using assms by (auto simp: REMOTE_MAX_def)
  then show ?thesis
    using assms by (simp add: master_mainloop_def ntohl_htonl map_conv_bind_option comp_def)
qed

lemma master_run_registers:
  assumes "reliable net" "\<forall>(nm, v) \<in> set regs. REMOTE_MAX \<le> unat v"
  shows "\<exists>w. master_run api net ctx (map (\<lambda>(nm, v). htonl v @ nm) regs) (m, n) =
    Some ((fold (\<lambda>(nm, v). master_bind nm v) regs m)\<lparr>ms_world := w\<rparr>, n)"
  using assms(2)
proof (induction regs arbitrary: m)
  case Nil
  have "m = m\<lparr>ms_world := ms_world m\<rparr>" by simp
  then show ?case by (auto intro: exI [of _ "ms_world m"])
next
  case (Cons r regs)
  obtain nm v where r: "r = (nm, v)" by (cases r)
  define m1 where "m1 = (master_bind nm v m)\<lparr>ms_world :=
    writes net (announce [1..<REMOTE_MAX] m (master_copy_name nm) v) (ms_world m)\<rparr>"
  have step: "master_mainloop api net ctx PTYPE_HARBOR 0 (htonl v @ nm) (m, n) = Some (0, m1, n)"
    using Cons.prems r by (simp add: mainloop_register update_name_reliable [OF assms(1)] m1_def)
  obtain w where run: "master_run api net ctx (map (\<lambda>(nm, v). htonl v @ nm) regs) (m1, n) =
    Some ((fold (\<lambda>(nm, v). master_bind nm v) regs m1)\<lparr>ms_world := w\<rparr>, n)"
    using Cons.IH [of m1] Cons.prems by auto
  have "(fold (\<lambda>(nm, v). master_bind nm v) regs (x\<lparr>ms_world := u\<rparr>))\<lparr>ms_world := w\<rparr> =
      (fold (\<lambda>(nm, v). master_bind nm v) regs x)\<lparr>ms_world := w\<rparr>" for x :: "'a master" and u
    by (induction regs arbitrary: x) (auto simp: master_bind_world)
  then show ?case using step run r by (auto simp: m1_def)
qed

text \<open>
  C22: On a network without write errors, the master always comes to the end of any sequence of
  registrations, and then answers a request for a name with the handle that was registered last under
  this name, told to every connected node; for a name that nobody has registered it says nothing.
\<close>

theorem master_names_correct:
  assumes "reliable net" "\<forall>(nm, v) \<in> set regs. valid_name nm \<and> REMOTE_MAX \<le> unat v"
    and "valid_name nm" "ms_map m = (\<lambda>_. [])"
  shows "\<exists>m'. master_run api net ctx (map (\<lambda>(nm, v). htonl v @ nm) regs) (m, n) = Some (m', n) \<and>
    master_mainloop api net ctx PTYPE_HARBOR s (htonl 0 @ nm) (m', n) =
      Some (0, case find (\<lambda>(k, v). k = nm) (rev regs) of
          Some (_, v) \<Rightarrow> m'\<lparr>ms_world := writes net (announce [1..<REMOTE_MAX] m' (padded nm) v) (ms_world m')\<rparr>
        | None \<Rightarrow> m', n)"
proof -
  obtain w where run: "master_run api net ctx (map (\<lambda>(nm, v). htonl v @ nm) regs) (m, n) =
    Some ((fold (\<lambda>(nm, v). master_bind nm v) regs m)\<lparr>ms_world := w\<rparr>, n)"
    using master_run_registers [OF assms(1), of regs] assms(2) by blast
  define m' where "m' = (fold (\<lambda>(nm, v). master_bind nm v) regs m)\<lparr>ms_world := w\<rparr>"
  have none: "master_find m nm = None" by (simp add: master_find_def search_name_def assms(4))
  have "find (\<lambda>(k, v). same_entry (master_copy_name k) (master_copy_name nm)) (rev regs) =
      find (\<lambda>(k, v). k = nm) (rev regs)"
    using assms(2,3) by (intro find_cong) (auto simp: master_copy_padded same_padded)
  then have "master_find m' nm = (case find (\<lambda>(k, v). k = nm) (rev regs) of Some (k, v) \<Rightarrow> Some v | None \<Rightarrow> None)"
    using mnames.find_binds [of regs m nm, unfolded none] by (simp add: m'_def)
  then have "request_name api net ctx nm (m', n) = Some (case find (\<lambda>(k, v). k = nm) (rev regs) of
          Some (_, v) \<Rightarrow> m'\<lparr>ms_world := writes net (announce [1..<REMOTE_MAX] m' (padded nm) v) (ms_world m')\<rparr>
        | None \<Rightarrow> m', n)"
    using assms(1,3)
    by (auto simp: request_name_def Let_def master_find_def broadcast_reliable master_copy_padded split: option.splits)
  then show ?thesis
    using run [folded m'_def] by (intro exI [of _ m']) (simp add: master_mainloop_def ntohl_htonl)
qed

text \<open>Two nodes are connected; a service moves from one handle to another.\<close>

definition demo_master :: "(int \<times> string) list master" where
  "demo_master = (master_create [])\<lparr>ms_remote_fd := (replicate REMOTE_MAX (-1))[1 := 5, 2 := 6]\<rparr>"

lemma master_names_correct_witness:
  "\<exists>m'. master_run demo_api recording_net 0 (map (\<lambda>(nm, v). htonl v @ nm) [(''db'', 0x1000001), (''log'', 0x1000002), (''db'', 0x2000007)])
      (demo_master, demo_node) = Some (m', demo_node) \<and>
    master_mainloop demo_api recording_net 0 PTYPE_HARBOR 1 (htonl 0 @ ''db'') (m', demo_node) =
      Some (0, m'\<lparr>ms_world := ms_world m' @ announce [1..<REMOTE_MAX] m' (padded ''db'') 0x2000007\<rparr>, demo_node)"
  using master_names_correct [of recording_net "[(''db'', 0x1000001), (''log'', 0x1000002), (''db'', 0x2000007)]" "''db''"
      demo_master demo_api 0 demo_node 1]
  by (simp add: valid_name_def GLOBALNAME_LENGTH_def REMOTE_MAX_def demo_master_def master_create_def)

end
