(* ===== verification/HarborProps.thy ===== *)
theory HarborProps
  imports HarborQueue MasterProps
begin

text \<open>
  Properties of the harbor service: what leaves one node arrives at the other, messages for a name
  that is not known yet go out in order as soon as it is, and the names follow the master's notices.
\<close>

unbundle bit_operations_syntax

section \<open>Encoding\<close>

lemma header_roundtrip: "message_to_header (header_to_message hdr @ s) = hdr"
  using ntohl_htonl [of "rh_source hdr"] ntohl_htonl [of "rh_destination hdr"] ntohl_htonl [of "rh_session hdr"]
  by (simp add: message_to_header_def header_to_message_def)

lemma header_length [simp]: "length (header_to_message hdr) = 12"
  by (simp add: header_to_message_def)

text \<open>The header of a message of type \<open>ty\<close> for the service \<open>destination\<close>.\<close>

definition cookie :: "u32 \<Rightarrow> u32 \<Rightarrow> i32 \<Rightarrow> i32 \<Rightarrow> remote_message_header" where
  "cookie source destination ty session =
     \<lparr>rh_source = source, rh_destination = (destination AND HANDLE_MASK) OR push_bit HANDLE_REMOTE_SHIFT ty, rh_session = session\<rparr>"

definition remote_payload :: "u32 \<Rightarrow> u32 \<Rightarrow> i32 \<Rightarrow> i32 \<Rightarrow> string \<Rightarrow> string" where
  "remote_payload source destination ty session msg = msg @ header_to_message (cookie source destination ty session)"

lemma send_remote_reliable:
  "reliable net \<Longrightarrow> send_remote net fd msg c w = Some (True, writes net [(fd, framed (msg @ header_to_message c))] w)"
  unfolding send_remote_def by (subst write_all_reliable) (simp_all add: framed_def)

lemma send_package_reliable:
  "reliable net \<Longrightarrow> send_package net fd b w = Some (True, writes net [(fd, framed b)] w)"
  unfolding send_package_def by (subst write_all_reliable) (simp_all add: framed_def)

lemma handle_mask: "(x :: u32) AND HANDLE_MASK = take_bit 24 x"
  by (simp add: HANDLE_MASK_def take_bit_eq_mask mask_eq_exp_minus_1)

lemma type_field: "drop_bit HANDLE_REMOTE_SHIFT ((d AND HANDLE_MASK) OR push_bit HANDLE_REMOTE_SHIFT (ty :: u32)) = ty AND 0xff"
  unfolding handle_mask and_255(2) HANDLE_REMOTE_SHIFT_def by (rule bit_word_eqI) (auto simp: bit_simps)

lemma handle_field:
  "((d AND HANDLE_MASK) OR push_bit HANDLE_REMOTE_SHIFT (ty :: u32)) AND HANDLE_MASK = d AND HANDLE_MASK"
  unfolding handle_mask HANDLE_REMOTE_SHIFT_def by (rule bit_word_eqI) (auto simp: bit_simps)

lemma handle_split: "(d AND HANDLE_MASK) OR push_bit HANDLE_REMOTE_SHIFT (of_nat (harbor_of d)) = d"
proof -
  have "of_nat (harbor_of d) = drop_bit HANDLE_REMOTE_SHIFT d" by (simp add: harbor_of_def)
  then show ?thesis
    by (simp only: handle_mask HANDLE_REMOTE_SHIFT_def) (rule bit_word_eqI, rename_tac n, case_tac "n < 24", auto simp: bit_simps)
qed

lemma harbor_in_message:
  assumes "source \<noteq> 0" "ty AND 0xff = ty" "hb_id h = of_nat (harbor_of destination)"
  shows "harbor_in api net ctx (remote_payload source destination ty session msg) (h, n) = do {
    (_, n) \<leftarrow> skynet_send api ctx source destination (ty OR PTYPE_TAG_DONTCOPY) session (PBytes msg) (of_nat (length msg)) n;
    Some (1, h, n)
  }"
proof -
  define c where "c = cookie source destination ty session"
  have c: "rh_source c = source" "rh_session c = session" "drop_bit HANDLE_REMOTE_SHIFT (rh_destination c) = ty"
      "(rh_destination c AND HANDLE_MASK) OR push_bit HANDLE_REMOTE_SHIFT (hb_id h) = destination"
    unfolding c_def cookie_def remote_message_header.simps type_field handle_field assms(2,3) handle_split by simp_all
  have "message_to_header (header_to_message c) = c"
    using header_roundtrip [of c "[]"] by simp
  then show ?thesis
    using assms(1) unfolding remote_payload_def c_def [symmetric]
    by (simp add: harbor_in_def c)
qed

section \<open>A message to another node\<close>

lemma size_word: "n < 2 ^ 32 \<Longrightarrow> unat (of_nat n :: u64) = n"
proof -
  assume "n < 2 ^ 32"
  also have "(2 :: nat) ^ 32 < 2 ^ 64" by (rule power_strict_increasing) simp_all
  finally show ?thesis by (simp add: unat_of_nat take_bit_nat_eq_self del: power_numeral)
qed

text \<open>
  C20: A message that the harbor service of one node is given for a service of another node is written to the
  connection of that node as one package; from the bytes of this package, the harbor service over there
  sends the same message, with the same source, destination, type, session and contents, to its local
  service.
\<close>

theorem remote_message_roundtrip:
  assumes "reliable net" "ty \<noteq> PTYPE_HARBOR" "ty \<noteq> PTYPE_SYSTEM" "ty AND 0xff = ty" "source \<noteq> 0"
    and "harbor_of destination \<noteq> 0" "int (harbor_of destination) \<noteq> sint (hb_id h)"
    and "0 \<le> hb_remote_fd h ! harbor_of destination" "length msg + 12 < 2 ^ 32"
    and "hb_id h' = of_nat (harbor_of destination)"
  shows "\<exists>payload.
    harbor_mainloop api net ctx ty session source (PRemoteMessage nm destination (PBytes msg) (of_nat (length msg))) sz (h, n) =
      Some (0, h\<lparr>hb_world := writes net [(hb_remote_fd h ! harbor_of destination, framed payload)] (hb_world h)\<rparr>,
        free_data (PBytes msg) n) \<and>
    unat (ntohl (framed payload)) = length payload \<and> drop 4 (framed payload) = payload \<and>
    harbor_mainloop api' net' ctx' PTYPE_HARBOR session' source' (PBytes payload) (of_nat (length payload)) (h', n') = do {
      (_, n) \<leftarrow> skynet_send api' ctx' source destination (ty OR PTYPE_TAG_DONTCOPY) session (PBytes msg) (of_nat (length msg)) n';
      Some (1, h', n)
    }"
proof -
  let ?p = "remote_payload source destination ty session msg"
  have len: "length ?p < 2 ^ 32" using assms(9) by (simp add: remote_payload_def del: power_numeral)
  have sz: "unat (of_nat (length ?p) :: u64) = length ?p" "unat (of_nat (length msg) :: u64) = length msg"
    using size_word len assms(9) by simp_all
  have "destination \<noteq> 0" using assms(6) by (auto simp: harbor_of_def)
  then have "harbor_mainloop api net ctx ty session source (PRemoteMessage nm destination (PBytes msg) (of_nat (length msg))) sz (h, n) =
      Some (0, h\<lparr>hb_world := writes net [(hb_remote_fd h ! harbor_of destination, framed ?p)] (hb_world h)\<rparr>, free_data (PBytes msg) n)"
    using assms(1-3,6-8)
    by (simp add: harbor_mainloop_def message_bytes_def sz(2) remote_send_handle_def send_remote_reliable
        remote_payload_def cookie_def del: of_nat_eq_iff)
  then show ?thesis
    using framed_read [OF len] harbor_in_message [OF assms(5,4,10), of api' net' ctx' session msg n'] sz(1)
    by (intro exI [of _ ?p]) (simp add: harbor_mainloop_def)
qed

definition demo_harbor :: "i32 \<Rightarrow> (int \<times> string) list harbor" where
  "demo_harbor i = (harbor_create [])\<lparr>hb_id := i, hb_master_fd := 4, hb_remote_fd := (replicate REMOTE_MAX (-1))[2 := 9],
     hb_remote_addr := (replicate REMOTE_MAX None)[2 := Some ''10.0.0.2:2526'']\<rparr>"

lemma remote_message_roundtrip_witness:
  "\<exists>payload.
    harbor_mainloop demo_api recording_net 0 PTYPE_CLIENT 5 1 (PRemoteMessage [] 0x2000003 (PBytes ''hi'') 2) 0 (demo_harbor 1, demo_node) =
      Some (0, (demo_harbor 1)\<lparr>hb_world := [(9, framed payload)]\<rparr>, free_data (PBytes ''hi'') demo_node) \<and>
    drop 4 (framed payload) = payload \<and>
    harbor_mainloop demo_api recording_net 0 PTYPE_HARBOR 0 0 (PBytes payload) (of_nat (length payload)) (demo_harbor 2, demo_node) = do {
      (_, n) \<leftarrow> skynet_send demo_api 0 1 0x2000003 (PTYPE_CLIENT OR PTYPE_TAG_DONTCOPY) 5 (PBytes ''hi'') 2 demo_node;
      Some (1, demo_harbor 2, n)
    }"
proof -
  have hb: "harbor_of 0x2000003 = 2" by (simp add: harbor_of_def HANDLE_REMOTE_SHIFT_def)
  have t: "PTYPE_CLIENT \<noteq> PTYPE_HARBOR" "PTYPE_CLIENT \<noteq> PTYPE_SYSTEM" "PTYPE_CLIENT AND 0xff = PTYPE_CLIENT"
    by (simp_all add: PTYPE_CLIENT_def PTYPE_HARBOR_def PTYPE_SYSTEM_def)
  have fd: "hb_remote_fd (demo_harbor i) ! 2 = 9" "hb_id (demo_harbor i) = i" "hb_world (demo_harbor i) = []" for i
    by (simp_all add: demo_harbor_def REMOTE_MAX_def harbor_create_def)
  show ?thesis
    using remote_message_roundtrip [OF recording_reliable t, of 1 "0x2000003" "demo_harbor 1" "''hi''" "demo_harbor 2"
        demo_api 0 5 "[]" 0 demo_node demo_api recording_net 0 0 0 demo_node]
    by (simp add: hb fd) blast
qed

section \<open>Messages for a name\<close>

text \<open>The messages that wait for a name, oldest first.\<close>

definition waiting :: "string \<Rightarrow> 'w harbor \<Rightarrow> remote_msg list \<Rightarrow> bool" where
  "waiting nm h ms \<longleftrightarrow> (case search_name (hb_map h) nm of
     None \<Rightarrow> ms = []
   | Some node \<Rightarrow> nn_value node = 0 \<and> (case kv_queue node of None \<Rightarrow> ms = [] | Some q \<Rightarrow> hq_ok q \<and> hq_contents q = ms))"

lemma search_have_node:
  "search_name (hb_map (have_node nm h)) b = (case search_name (hb_map h) b of
     Some node \<Rightarrow> Some node
   | None \<Rightarrow> if same_entry nm b then Some \<lparr>nn_key = nm, nn_hash = name_hash nm, nn_value = 0, kv_queue = None\<rparr> else None)"
  using search_same [of nm b "hb_map h"]
  by (auto simp: have_node_def hash_insert_def search_insert_node split: option.splits)

lemma have_node_fields [simp]:
  "hb_id (have_node nm h) = hb_id h" "hb_remote_fd (have_node nm h) = hb_remote_fd h"
  "hb_master_fd (have_node nm h) = hb_master_fd h" "hb_world (have_node nm h) = hb_world h"
  "hb_master_addr (have_node nm h) = hb_master_addr h" "hb_remote_addr (have_node nm h) = hb_remote_addr h"
  by (simp_all add: have_node_def hash_insert_def)

text \<open>A change of the names only.\<close>

definition names_only :: "'w harbor \<Rightarrow> 'w harbor \<Rightarrow> bool" where
  "names_only h h' \<longleftrightarrow> h' = h\<lparr>hb_map := hb_map h', hb_world := hb_world h'\<rparr>"

lemma names_onlyD:
  assumes "names_only h h'"
  shows "hb_id h' = hb_id h" "hb_remote_fd h' = hb_remote_fd h" "hb_master_fd h' = hb_master_fd h"
  using assms harbor.select_convs unfolding names_only_def by (metis harbor.surjective harbor.update_convs)+

lemma names_only_trans: "names_only a b \<Longrightarrow> names_only b c \<Longrightarrow> names_only a c"
  by (cases a; cases b; cases c) (simp add: names_only_def)

definition name_msg :: "u32 \<Rightarrow> i32 \<Rightarrow> i32 \<Rightarrow> string \<Rightarrow> remote_msg" where
  "name_msg source ty session msg = \<lparr>rm_data = msg, rm_header =
     \<lparr>rh_source = source, rh_destination = push_bit HANDLE_REMOTE_SHIFT ty, rh_session = session\<rparr>\<rparr>"

lemma names_only_world: "names_only h (set_queue nm q (h\<lparr>hb_world := w\<rparr>))"
  by (simp add: names_only_def set_queue_def)

text \<open>The request for a name.\<close>

definition name_request :: "string \<Rightarrow> string" where
  "name_request nm = framed (htonl 0 @ takeWhile (\<lambda>c. c \<noteq> CHR 0x00) (take GLOBALNAME_LENGTH nm))"

lemma send_name_waits:
  assumes "reliable net" "waiting nm h ms"
  shows "\<exists>h'. remote_send_name api net ctx source nm ty session msg (h, n) = Some (0, h', n) \<and>
    waiting nm h' (ms @ [name_msg source ty session msg]) \<and> names_only h h' \<and>
    hb_world h' = writes net [(hb_master_fd h, name_request nm)] (hb_world h)"
proof -
  define h1 where "h1 = have_node nm h"
  obtain node where node: "search_name (hb_map h1) nm = Some node" "nn_value node = 0"
      "case kv_queue node of None \<Rightarrow> ms = [] | Some q \<Rightarrow> hq_ok q \<and> hq_contents q = ms"
    using assms(2) by (cases "search_name (hb_map h) nm") (auto simp: h1_def search_have_node waiting_def)
  define q where "q = push_queue (name_msg source ty session msg) (case kv_queue node of Some q \<Rightarrow> q | None \<Rightarrow> new_queue)"
  have q: "hq_ok q" "hq_contents q = ms @ [name_msg source ty session msg]"
    using node(3) push_queue_contents by (auto simp: q_def split: option.splits)
  define h2 where "h2 = set_queue nm (Some q) h1"
  define h' where "h' = h2\<lparr>hb_world := writes net [(hb_master_fd h, name_request nm)] (hb_world h)\<rparr>"
  have s: "search_name (hb_map h') nm = Some (node\<lparr>kv_queue := Some q\<rparr>)"
    using node(1) by (simp add: h'_def h2_def set_queue_def search_update_node)
  have "waiting nm h' (ms @ [name_msg source ty session msg])"
    using s q node(2) by (simp add: waiting_def)
  moreover have "remote_register_name api net ctx nm 0 (h2, n) = Some (h', n)"
    using send_package_reliable [OF assms(1)]
    by (simp add: remote_register_name_def request_master_def h'_def h2_def h1_def set_queue_def name_request_def)
  then have "remote_send_name api net ctx source nm ty session msg (h, n) = Some (0, h', n)"
    unfolding remote_send_name_def prod.case Let_def h1_def [symmetric] node(1) Option.bind.bind_lunit node(2)
      name_msg_def [symmetric] q_def [symmetric] h2_def [symmetric] by simp
  moreover have "names_only h h'" by (simp add: names_only_def h'_def h2_def set_queue_def h1_def have_node_def hash_insert_def)
  ultimately show ?thesis by (auto simp: h'_def)
qed

text \<open>What goes out for a message that has waited, once the handle of the name is known.\<close>

definition named_payload :: "u32 \<Rightarrow> remote_msg \<Rightarrow> string" where
  "named_payload handle m = rm_data m @ header_to_message
     ((rm_header m)\<lparr>rh_destination := rh_destination (rm_header m) OR (handle AND HANDLE_MASK)\<rparr>)"

lemma named_payload_msg:
  "named_payload handle (name_msg source ty session msg) = remote_payload source handle ty session msg"
  by (simp add: named_payload_def name_msg_def remote_payload_def cookie_def or.commute)

lemma dispatch_loop_reliable:
  assumes "reliable net" "hq_ok q"
  shows "dispatch_loop api net ctx fd i handle q (h, n) =
    Some (h\<lparr>hb_world := writes net (map (\<lambda>m. (fd, framed (named_payload handle m))) (hq_contents q)) (hb_world h)\<rparr>, n)"
  using assms(2)
proof (induction "hq_contents q" arbitrary: q h)
  case Nil
  then show ?case by (subst dispatch_loop.simps) (simp add: pop_queue_empty)
next
  case (Cons m ms)
  then obtain q' where q': "pop_queue q = (Some m, q')" "hq_ok q'" "hq_contents q' = ms"
    using pop_queue_nonempty [of q m ms] by auto
  show ?case
    unfolding dispatch_loop.simps [of _ _ _ _ _ _ q] q'(1) Cons.hyps(2) [symmetric]
    using Cons.hyps(1) [of q'] q'(2,3) by (simp add: send_package_reliable [OF assms(1)] named_payload_def)
qed

lemma set_handle_search:
  "search_name (hb_map (set_handle nm v h)) b = (if same_entry nm b
     then map_option (\<lambda>node. node\<lparr>nn_value := v\<rparr>) (search_name (hb_map (have_node nm h)) nm)
     else search_name (hb_map h) b)"
  by (simp add: set_handle_def Let_def search_update_node search_have_node split: option.splits)

lemma set_handle_fields [simp]:
  "hb_id (set_handle nm v h) = hb_id h" "hb_remote_fd (set_handle nm v h) = hb_remote_fd h"
  "hb_master_fd (set_handle nm v h) = hb_master_fd h" "hb_world (set_handle nm v h) = hb_world h"
  by (simp_all add: set_handle_def Let_def)

lemma names_only_set_handle: "names_only h (set_handle nm v h)"
  by (simp add: names_only_def set_handle_def Let_def have_node_def hash_insert_def)

lemma update_name_sends:
  assumes "reliable net" "waiting nm h ms" "harbor_of handle \<noteq> 0" "0 \<le> hb_remote_fd h ! harbor_of handle"
  shows "\<exists>h'. update_remote_name api net ctx nm handle (h, n) = Some (h', n) \<and> names_only h h' \<and>
    hb_world h' = writes net (map (\<lambda>m. (hb_remote_fd h ! harbor_of handle, framed (named_payload handle m))) ms) (hb_world h) \<and>
    (\<exists>node. search_name (hb_map h') nm = Some node \<and> nn_value node = handle \<and> kv_queue node = None)"
proof -
  define h1 where "h1 = set_handle nm handle h"
  obtain node0 where node0: "search_name (hb_map (have_node nm h)) nm = Some node0"
      "case kv_queue node0 of None \<Rightarrow> ms = [] | Some q \<Rightarrow> hq_ok q \<and> hq_contents q = ms"
    using assms(2) by (cases "search_name (hb_map h) nm") (auto simp: search_have_node waiting_def)
  then have node: "search_name (hb_map h1) nm = Some (node0\<lparr>nn_value := handle\<rparr>)"
    by (simp add: h1_def set_handle_search)
  show ?thesis
  proof (cases "kv_queue node0")
    case None
    then have "update_remote_name api net ctx nm handle (h, n) = Some (h1, n)"
      by (simp add: update_remote_name_def h1_def [symmetric] node)
    then show ?thesis using None node0(2) node by (simp add: h1_def names_only_set_handle)
  next
    case (Some q)
    define h2 where "h2 = h1\<lparr>hb_world :=
      writes net (map (\<lambda>m. (hb_remote_fd h ! harbor_of handle, framed (named_payload handle m))) ms) (hb_world h)\<rparr>"
    have q: "hq_ok q" "hq_contents q = ms" using node0(2) Some by simp_all
    have "dispatch_queue api net ctx q handle nm (h1, n) = Some (h2, n)"
      using assms(3,4) dispatch_loop_reliable [OF assms(1) q(1), of api ctx "hb_remote_fd h ! harbor_of handle" "harbor_of handle" handle h1 n] q(2)
      by (simp add: dispatch_queue_def Let_def h1_def h2_def)
    then have "update_remote_name api net ctx nm handle (h, n) = Some (set_queue nm None h2, n)"
      by (simp add: update_remote_name_def h1_def [symmetric] node Some)
    moreover have "search_name (hb_map (set_queue nm None h2)) nm = Some (node0\<lparr>nn_value := handle, kv_queue := None\<rparr>)"
      by (simp add: set_queue_def h2_def search_update_node node)
    moreover have "names_only h (set_queue nm None h2)"
      using names_only_trans [OF names_only_set_handle names_only_world] by (simp add: h2_def h1_def)
    ultimately show ?thesis by (simp add: set_queue_def h2_def)
  qed
qed

fun send_names ::
  "module_api \<Rightarrow> 'w net \<Rightarrow> nat \<Rightarrow> string \<Rightarrow> (u32 \<times> i32 \<times> i32 \<times> string) list \<Rightarrow> 'w harbor_state \<Rightarrow> 'w harbor_state option" where
  "send_names api net ctx nm [] hn = Some hn"
| "send_names api net ctx nm ((source, ty, session, msg) # ms) hn = do {
     (_, hn) \<leftarrow> remote_send_name api net ctx source nm ty session msg hn;
     send_names api net ctx nm ms hn
   }"

lemma send_names_wait:
  assumes "reliable net"
  shows "waiting nm h qs \<Longrightarrow> \<exists>h'. send_names api net ctx nm ms (h, n) = Some (h', n) \<and>
    waiting nm h' (qs @ map (\<lambda>(source, ty, session, msg). name_msg source ty session msg) ms) \<and> names_only h h' \<and>
    hb_world h' = writes net (map (\<lambda>_. (hb_master_fd h, name_request nm)) ms) (hb_world h)"
proof (induction ms arbitrary: h qs)
  case Nil
  then show ?case by (simp add: names_only_def)
next
  case (Cons m ms)
  obtain source ty session msg where m: "m = (source, ty, session, msg)" by (cases m)
  obtain h1 where h1: "remote_send_name api net ctx source nm ty session msg (h, n) = Some (0, h1, n)"
      "waiting nm h1 (qs @ [name_msg source ty session msg])" "names_only h h1"
      "hb_world h1 = writes net [(hb_master_fd h, name_request nm)] (hb_world h)"
    using send_name_waits [OF assms Cons.prems] by blast
  obtain h' where h': "send_names api net ctx nm ms (h1, n) = Some (h', n)"
      "waiting nm h' (qs @ name_msg source ty session msg # map (\<lambda>(source, ty, session, msg). name_msg source ty session msg) ms)"
      "names_only h1 h'" "hb_world h' = writes net (map (\<lambda>_. (hb_master_fd h1, name_request nm)) ms) (hb_world h1)"
    using Cons.IH [OF h1(2)] by auto
  show ?case
    using h1 h' names_only_trans [OF h1(3) h'(3)] names_onlyD(3) [OF h1(3)] by (simp add: m)
qed



section \<open>The names follow the master\<close>

definition harbor_find :: "'w harbor \<Rightarrow> string \<Rightarrow> u32 option" where
  "harbor_find h nm = map_option nn_value (search_name (hb_map h) nm)"

interpretation hnames: directory harbor_find set_handle same_entry
  by unfold_locales (auto simp: harbor_find_def set_handle_search search_have_node option.map_comp comp_def split: option.splits)

text \<open>No message waits for any name.\<close>

definition no_queues :: "'w harbor \<Rightarrow> bool" where
  "no_queues h \<longleftrightarrow> (\<forall>nm node. search_name (hb_map h) nm = Some node \<longrightarrow> kv_queue node = None)"

lemma no_queues_set_handle: "no_queues h \<Longrightarrow> no_queues (set_handle nm v h)"
  by (auto simp: no_queues_def set_handle_search search_have_node split: if_splits option.splits)

lemma harbor_in_name:
  assumes "no_queues h" "valid_name nm" "REMOTE_MAX \<le> unat v"
  shows "harbor_in api net ctx (notice (padded nm) v) (h, n) = Some (0, set_handle (padded nm) v h, n)"
proof -
  have hdr: "notice (padded nm) v = padded nm @ header_to_message \<lparr>rh_source = 0, rh_destination = v, rh_session = 0\<rparr>"
    by (simp add: notice_def header_to_message_def)
  have "message_to_header (header_to_message \<lparr>rh_source = 0, rh_destination = v, rh_session = 0\<rparr>) =
      \<lparr>rh_source = 0, rh_destination = v, rh_session = 0\<rparr>"
    using header_roundtrip [of _ "[]"] by simp
  moreover obtain node where "search_name (hb_map (set_handle (padded nm) v h)) (padded nm) = Some node" "kv_queue node = None"
    using no_queues_set_handle [OF assms(1), of "padded nm" v] hnames.find_bind [of "padded nm" v h "padded nm"]
    by (auto simp: harbor_find_def no_queues_def)
  ultimately show ?thesis
    using padded_length [OF assms(2)] assms(3) by (simp add: harbor_in_def hdr update_remote_name_def)
qed

fun harbor_run ::
  "module_api \<Rightarrow> 'w net \<Rightarrow> nat \<Rightarrow> string list \<Rightarrow> 'w harbor_state \<Rightarrow> 'w harbor_state option" where
  "harbor_run api net ctx [] hn = Some hn"
| "harbor_run api net ctx (msg # msgs) hn = do {
     (_, hn) \<leftarrow> harbor_in api net ctx msg hn;
     harbor_run api net ctx msgs hn
   }"

lemma harbor_run_names:
  assumes "\<forall>(nm, v) \<in> set regs. valid_name nm \<and> REMOTE_MAX \<le> unat v"
  shows "no_queues h \<Longrightarrow> harbor_run api net ctx (map (\<lambda>(nm, v). notice (padded nm) v) regs) (h, n) =
    Some (fold (\<lambda>(nm, v). set_handle (padded nm) v) regs h, n)"
  using assms
proof (induction regs arbitrary: h)
  case (Cons r regs)
  then show ?case by (cases r) (simp add: harbor_in_name no_queues_set_handle)
qed simp

lemma find_padded:
  "\<forall>(k, v) \<in> set regs. valid_name k \<Longrightarrow> valid_name nm \<Longrightarrow>
     find (\<lambda>(k, v). same_entry k (padded nm)) (map (\<lambda>(k, v). (padded k, v)) regs) =
     map_option (\<lambda>(k, v). (padded k, v)) (find (\<lambda>(k, v). k = nm) regs)"
  by (induction regs) (auto simp: same_padded)

text \<open>
  After any sequence of notices from the master, a message for a name is sent exactly as a message for
  the handle that was announced last under this name.
\<close>

theorem harbor_names_correct:
  assumes "\<forall>(nm, v) \<in> set regs. valid_name nm \<and> REMOTE_MAX \<le> unat v" "valid_name nm"
    and "find (\<lambda>(k, v). k = nm) (rev regs) = Some (k, handle)"
  shows "\<exists>h. harbor_run api net ctx (map (\<lambda>(nm, v). notice (padded nm) v) regs) (harbor_create w, n) = Some (h, n) \<and>
    remote_send_name api net ctx source (padded nm) ty session msg (h, n) =
      remote_send_handle api net ctx source handle ty session msg (h, n)"
proof -
  define h where "h = fold (\<lambda>(nm, v). set_handle (padded nm) v) regs (harbor_create w)"
  have f: "fold (\<lambda>(k, v). set_handle k v) (map (\<lambda>(nm, v). (padded nm, v)) regs) (harbor_create w) = h"
    by (simp add: h_def fold_map comp_def split_def)
  have "no_queues (harbor_create w)" by (simp add: no_queues_def harbor_create_def search_name_def)
  then have run: "harbor_run api net ctx (map (\<lambda>(nm, v). notice (padded nm) v) regs) (harbor_create w, n) = Some (h, n)"
    unfolding h_def by (rule harbor_run_names [OF assms(1)])
  have "find (\<lambda>(k, v). same_entry k (padded nm)) (rev (map (\<lambda>(nm, v). (padded nm, v)) regs)) = Some (padded k, handle)"
    using find_padded [of "rev regs" nm] assms by (auto simp: rev_map)
  then have "harbor_find h (padded nm) = Some handle"
    using hnames.find_binds [of "map (\<lambda>(nm, v). (padded nm, v)) regs" "harbor_create w" "padded nm"] unfolding f by simp
  moreover have "handle \<noteq> 0"
  proof -
    obtain i where "i < length (rev regs)" "rev regs ! i = (k, handle)"
      using assms(3) [unfolded find_Some_iff] by metis
    then have "(k, handle) \<in> set (rev regs)" by (metis nth_mem)
    then show ?thesis using assms(1) by (auto simp: REMOTE_MAX_def)
  qed
  ultimately have "remote_send_name api net ctx source (padded nm) ty session msg (h, n) =
      remote_send_handle api net ctx source handle ty session msg (h, n)"
    by (auto simp: remote_send_name_def have_node_def harbor_find_def)
  then show ?thesis using run by blast
qed

lemma harbor_names_correct_witness:
  "\<exists>h. harbor_run demo_api recording_net 0 (map (\<lambda>(nm, v). notice (padded nm) v) [(''db'', 0x2000003), (''log'', 0x1000002), (''db'', 0x3000001)])
      (harbor_create [], demo_node) = Some (h, demo_node) \<and>
    remote_send_name demo_api recording_net 0 1 (padded ''db'') PTYPE_TEXT 7 ''select'' (h, demo_node) =
      remote_send_handle demo_api recording_net 0 1 0x3000001 PTYPE_TEXT 7 ''select'' (h, demo_node)"
  by (rule harbor_names_correct) (simp_all add: valid_name_def GLOBALNAME_LENGTH_def REMOTE_MAX_def)

section \<open>Behaviour that the code does not mean\<close>

text \<open>
  A name that turns out to belong to this node itself: the descriptor of the own harbor id is never
  opened, so everything that waited for the name is dropped with an error message.
\<close>

lemma local_name_drops:
  assumes "harbor_of handle \<noteq> 0" "hb_remote_fd h ! harbor_of handle < 0"
    and "search_name (hb_map h) nm = Some node" "kv_queue node = Some q"
    and "skynet_error api (Some ctx) (''Drop message to '' @ takeWhile (\<lambda>c. c \<noteq> CHR 0x00) (take GLOBALNAME_LENGTH nm) @
           '' (in harbor '' @ print_base 10 (harbor_of handle) @ '')'') n = Some n'"
  shows "\<exists>h'. update_remote_name api net ctx nm handle (h, n) = Some (h', n') \<and> hb_world h' = hb_world h \<and>
    map_option kv_queue (search_name (hb_map h') nm) = Some None"
proof -
  define h1 where "h1 = set_handle nm handle h"
  have "search_name (hb_map h1) nm = Some (node\<lparr>nn_value := handle\<rparr>)"
    using assms(3) by (simp add: h1_def set_handle_search search_have_node)
  then have "update_remote_name api net ctx nm handle (h, n) = Some (set_queue nm None h1, n')"
    using assms(1,2,4,5) by (simp add: update_remote_name_def h1_def [symmetric] dispatch_queue_def Let_def)
      (simp add: h1_def)
  moreover have "map_option kv_queue (search_name (hb_map (set_queue nm None h1)) nm) = Some None"
    using assms(3) by (simp add: set_queue_def search_update_node h1_def set_handle_search search_have_node)
  ultimately show ?thesis by (simp add: set_queue_def h1_def)
qed

text \<open>The own address is never connected to.\<close>

lemma own_address_ignored:
  "update_remote_address api net ctx (hb_id h) ipaddr (h, n) = Some (h, n)"
  by (simp add: update_remote_address_def)

text \<open>
  A write error in the middle of \<open>_dispatch_queue\<close>: the message is lost although the connection could be
  opened again, and the next one goes to the descriptor that has just been closed.
\<close>

definition failing_net :: "(int \<times> string) list net" where
  "failing_net = recording_net\<lparr>net_write := (\<lambda>fd b w. if fd = 9 then (Fail EOTHER, w @ [(fd, [])]) else (Done (length b), w @ [(fd, b)]))\<rparr>"

lemma dispatch_after_error:
  "map_option (\<lambda>(h, n). (hb_world h, hb_remote_fd h ! 2))
     (dispatch_loop demo_api failing_net 0 9 2 0x2000003
       (push_queue (name_msg 1 0 8 ''second'') (push_queue (name_msg 1 0 7 ''first'') new_queue))
       (demo_harbor 1, demo_node)) = Some ([(9, []), (9, [])], 3)"
  by code_simp

text \<open>The connection that \<open>_broadcast\<close> opens again is not kept, and the notice is not repeated.\<close>

lemma broadcast_forgets:
  "map_option (\<lambda>(m, n). (ms_remote_fd m ! 2, ms_world m))
     (broadcast_one demo_api failing_net 0 (padded ''db'') 0x1000001 2
       ((master_create [])\<lparr>ms_remote_fd := (replicate REMOTE_MAX (-1))[2 := 9],
          ms_remote_addr := (replicate REMOTE_MAX None)[2 := Some ''10.0.0.2:2526'']\<rparr>, demo_node)) =
   Some (9, [(9, [])])"
  by code_simp

end
