(* ===== verification/SeriBuffer.thy ===== *)
theory SeriBuffer
  imports Prelude
begin

text \<open>
  The output buffer of \<open>lualib-src/lua-seri.c\<close>: a chain of blocks of 128 bytes whose first four bytes
  are the length, and its copy into one piece of memory at the end.  A byte that has not been written is
  \<open>None\<close>.  The chain is a list of blocks, \<open>current\<close> an index into it.  (\<open>wb_init\<close> with a block of its
  own and the reading of a chain by \<open>rb_read\<close> have no caller.)
\<close>

section \<open>Little endian numbers\<close>

text \<open>The bytes of an integer in memory.\<close>

fun le_bytes :: "nat \<Rightarrow> nat \<Rightarrow> u8 list" where
  "le_bytes 0 v = []"
| "le_bytes (Suc n) v = of_nat v # le_bytes n (v div 256)"

fun le_val :: "u8 list \<Rightarrow> nat" where
  "le_val [] = 0"
| "le_val (b # bs) = unat b + 256 * le_val bs"

lemma length_le_bytes [simp]: "length (le_bytes n v) = n"
  by (induction n arbitrary: v) auto

lemma le_val_bytes [simp]: "le_val (le_bytes n v) = v mod 256 ^ n"
proof (induction n arbitrary: v)
  case (Suc n)
  have "unat (of_nat v :: u8) = v mod 256" by (simp add: unat_of_nat)
  then show ?case using Suc by (simp add: mod_mult2_eq)
qed simp

section \<open>The chain of blocks\<close>

definition BLOCK_SIZE :: nat where "BLOCK_SIZE = 128"

record write_block =
  wb_blocks :: "u8 option list list"
  wb_len :: nat
  wb_current :: nat
  wb_ptr :: nat

definition blk_alloc :: "u8 option list" where
  "blk_alloc = replicate BLOCK_SIZE None"

text \<open>\<open>memcpy(b->current->buffer + b->ptr, buf, sz)\<close>\<close>

definition put_bytes :: "u8 list \<Rightarrow> write_block \<Rightarrow> write_block" where
  "put_bytes buf b =
     (let c = wb_blocks b ! wb_current b
      in b\<lparr>wb_blocks := (wb_blocks b)[wb_current b := take (wb_ptr b) c @ map Some buf @ drop (wb_ptr b + length buf) c]\<rparr>)"

text \<open>\<open>b->current = b->current->next = blk_alloc(); b->ptr = 0;\<close>\<close>

definition next_block :: "write_block \<Rightarrow> write_block" where
  "next_block b = b\<lparr>wb_blocks := take (wb_current b + 1) (wb_blocks b) @ [blk_alloc], wb_current := wb_current b + 1, wb_ptr := 0\<rparr>"

text \<open>\<open>wb_push\<close> from the second test on; \<open>goto _again\<close> is the recursion.\<close>

function wb_fill :: "u8 list \<Rightarrow> write_block \<Rightarrow> write_block" where
  "wb_fill buf b =
     (if wb_ptr b + length buf \<le> BLOCK_SIZE
      then (put_bytes buf b)\<lparr>wb_ptr := wb_ptr b + length buf, wb_len := wb_len b + length buf\<rparr>
      else
        let n = BLOCK_SIZE - wb_ptr b;
            b = (put_bytes (take n buf) b)\<lparr>wb_len := wb_len b + n\<rparr>
        in wb_fill (drop n buf) (next_block b))"
  by pat_completeness auto
termination wb_fill
  by (relation "measures [\<lambda>(buf, b). length buf, \<lambda>(buf, b). wb_ptr b]")
    (auto simp: next_block_def put_bytes_def BLOCK_SIZE_def)

declare wb_fill.simps [simp del]

definition wb_push :: "u8 list \<Rightarrow> write_block \<Rightarrow> write_block" where
  "wb_push buf b = wb_fill buf (if wb_ptr b = BLOCK_SIZE then next_block b else b)"

definition wb_init :: write_block where
  "wb_init = wb_push (le_bytes 4 0) \<lparr>wb_blocks = [blk_alloc], wb_len = 0, wb_current = 0, wb_ptr = 0\<rparr>"

definition wb_close :: "write_block \<Rightarrow> u8 option list list" where
  "wb_close b = wb_blocks (wb_push (le_bytes 4 (wb_len b)) (b\<lparr>wb_current := 0, wb_ptr := 0\<rparr>))"

text \<open>
  The copy of \<open>_seri\<close> and \<open>_seri_args\<close>: a missing block is a null pointer, an unwritten byte is
  undefined.
\<close>

fun seri_blocks :: "nat \<Rightarrow> u8 option list list \<Rightarrow> u8 option list option" where
  "seri_blocks len blks =
     (if len = 0 then Some []
      else case blks of
          [] \<Rightarrow> None
        | b # blks \<Rightarrow>
            if BLOCK_SIZE \<le> len then map_option (\<lambda>r. b @ r) (seri_blocks (len - BLOCK_SIZE) blks)
            else Some (take len b))"

declare seri_blocks.simps [simp del]

definition seri :: "u8 option list list \<Rightarrow> u8 list option" where
  "seri blks = do {
     b \<leftarrow> (case blks of b # _ \<Rightarrow> Some b | [] \<Rightarrow> None);
     n \<leftarrow> those (take 4 b);
     let len = unat (of_nat (le_val n) - 4 :: u32);
     cells \<leftarrow> (if len < BLOCK_SIZE - 4 then Some (take len (drop 4 b))
               else do {
                 r \<leftarrow> seri_blocks (len - (BLOCK_SIZE - 4)) (tl blks);
                 Some (drop 4 b @ r)
               });
     those cells
   }"

section \<open>The chain is the list of the bytes pushed\<close>

definition wb_ok :: "write_block \<Rightarrow> u8 list \<Rightarrow> bool" where
  "wb_ok b bs \<longleftrightarrow> (\<forall>c \<in> set (wb_blocks b). length c = BLOCK_SIZE) \<and> length (wb_blocks b) = wb_current b + 1 \<and>
     wb_ptr b \<le> BLOCK_SIZE \<and> wb_len b = length bs \<and> length bs = wb_current b * BLOCK_SIZE + wb_ptr b \<and>
     take (length bs) (concat (wb_blocks b)) = map Some bs"

lemma length_concat_blocks:
  "\<forall>c \<in> set bs. length c = BLOCK_SIZE \<Longrightarrow> length (concat bs) = length bs * BLOCK_SIZE"
  by (induction bs) auto

lemma last_block:
  assumes "length xs = k + 1"
  shows "xs = take k xs @ [xs ! k]"
  using assms by (metis Suc_eq_plus1 lessI take_Suc_conv_app_nth take_all le_refl)

lemma put_bytes_ok:
  assumes "wb_ok b bs" "wb_ptr b + length buf \<le> BLOCK_SIZE"
  shows "wb_ok ((put_bytes buf b)\<lparr>wb_ptr := wb_ptr b + length buf, wb_len := wb_len b + length buf\<rparr>) (bs @ buf)"
proof -
  define k where "k = wb_current b"
  define c where "c = wb_blocks b ! k"
  define c' where "c' = take (wb_ptr b) c @ map Some buf @ drop (wb_ptr b + length buf) c"
  have ok: "\<forall>c \<in> set (wb_blocks b). length c = BLOCK_SIZE" "length (wb_blocks b) = k + 1" "wb_len b = length bs"
      "length bs = k * BLOCK_SIZE + wb_ptr b" "take (length bs) (concat (wb_blocks b)) = map Some bs"
    using assms(1) by (auto simp: wb_ok_def k_def)
  have c: "length c = BLOCK_SIZE" using ok(1,2) by (simp add: c_def)
  have c': "length c' = BLOCK_SIZE" using c assms(2) by (simp add: c'_def)
  define p where "p = concat (take k (wb_blocks b))"
  have "length (take k (wb_blocks b)) = k" using ok(2) by simp
  then have p: "length p = k * BLOCK_SIZE"
    using ok(1) length_concat_blocks [of "take k (wb_blocks b)"] by (auto simp: p_def dest: in_set_takeD)
  have cat: "concat (wb_blocks b) = p @ c"
    using last_block [OF ok(2)] by (metis p_def c_def concat_append concat.simps append_Nil2)
  have upd: "(wb_blocks b)[k := c'] = take k (wb_blocks b) @ [c']"
    using last_block [OF ok(2)] ok(2) by (metis list_update_length length_take min.absorb4 less_add_one)
  then have cat': "concat ((wb_blocks b)[k := c']) = p @ c'" by (simp add: p_def)
  have pre: "map Some bs = p @ take (wb_ptr b) c"
    using ok(4,5) p cat by auto
  have "take (length (bs @ buf)) (p @ c') = map Some (bs @ buf)"
    using pre p ok(4) c assms(2) by (simp add: c'_def)
  then show ?thesis
    using ok(2,3,4) ok(1) c' assms(2) cat'
    by (auto simp: wb_ok_def put_bytes_def Let_def k_def [symmetric] c_def [symmetric] c'_def [symmetric] dest: set_update_subset_insert [THEN subsetD])
qed

lemma next_block_ok:
  assumes "wb_ok b bs" "wb_ptr b = BLOCK_SIZE"
  shows "wb_ok (next_block b) bs"
  using assms by (auto simp: wb_ok_def next_block_def blk_alloc_def length_concat_blocks)

lemma wb_fill_ok: "wb_ok b bs \<Longrightarrow> wb_ok (wb_fill buf b) (bs @ buf)"
proof (induction buf b arbitrary: bs rule: wb_fill.induct)
  case (1 buf b)
  show ?case
  proof (cases "wb_ptr b + length buf \<le> BLOCK_SIZE")
    case True
    then show ?thesis using put_bytes_ok [OF 1(2) True] by (subst wb_fill.simps) simp
  next
    case False
    define n where "n = BLOCK_SIZE - wb_ptr b"
    define b' where "b' = (put_bytes (take n buf) b)\<lparr>wb_len := wb_len b + n\<rparr>"
    have ptr: "wb_ptr b \<le> BLOCK_SIZE" using 1(2) by (simp add: wb_ok_def)
    then have n: "length (take n buf) = n" "wb_ptr b + n = BLOCK_SIZE" using False by (auto simp: n_def)
    have "b'\<lparr>wb_ptr := BLOCK_SIZE\<rparr> = (put_bytes (take n buf) b)\<lparr>wb_ptr := wb_ptr b + n, wb_len := wb_len b + n\<rparr>"
      by (rule write_block.equality) (simp_all add: b'_def n)
    then have "wb_ok (b'\<lparr>wb_ptr := BLOCK_SIZE\<rparr>) (bs @ take n buf)"
      using put_bytes_ok [OF 1(2), of "take n buf"] n by simp
    then have "wb_ok (next_block (b'\<lparr>wb_ptr := BLOCK_SIZE\<rparr>)) (bs @ take n buf)"
      by (rule next_block_ok) simp
    moreover have "next_block (b'\<lparr>wb_ptr := BLOCK_SIZE\<rparr>) = next_block b'" by (simp add: next_block_def)
    ultimately have "wb_ok (wb_fill (drop n buf) (next_block b')) ((bs @ take n buf) @ drop n buf)"
      using 1(1) [OF False n_def b'_def] by metis
    then show ?thesis
      using False by (subst wb_fill.simps) (simp add: Let_def n_def b'_def)
  qed
qed

lemma wb_push_ok: "wb_ok b bs \<Longrightarrow> wb_ok (wb_push buf b) (bs @ buf)"
  by (simp add: wb_push_def wb_fill_ok next_block_ok)

lemma wb_init_ok: "wb_ok wb_init (le_bytes 4 0)"
proof -
  have "wb_ok \<lparr>wb_blocks = [blk_alloc], wb_len = 0, wb_current = 0, wb_ptr = 0\<rparr> []"
    by (simp add: wb_ok_def blk_alloc_def)
  from wb_push_ok [OF this] show ?thesis by (simp add: wb_init_def)
qed

lemma those_map_Some [simp]: "those (map Some xs) = Some xs"
  by (induction xs) auto

section \<open>The copy at the end\<close>

lemma seri_blocks_concat:
  "\<forall>c \<in> set blks. length c = BLOCK_SIZE \<Longrightarrow> len \<le> length blks * BLOCK_SIZE \<Longrightarrow>
     seri_blocks len blks = Some (take len (concat blks))"
proof (induction len blks rule: seri_blocks.induct)
  case (1 len blks)
  show ?case
  proof (cases blks)
    case Nil
    then show ?thesis using 1(3) by (simp add: seri_blocks.simps)
  next
    case (Cons b bs)
    then show ?thesis using 1 by (subst seri_blocks.simps) (auto simp: BLOCK_SIZE_def)
  qed
qed

text \<open>
  Whatever is pushed, the copy made at the end is what was pushed, in order, without the length in
  front.
\<close>

lemma seri_close:
  assumes ok: "wb_ok b (le_bytes 4 0 @ bs)" and len: "length bs + 4 < 2 ^ 32"
  shows "seri (wb_close b) = Some bs"
proof -
  define hdr where "hdr = le_bytes 4 (wb_len b)"
  obtain b0 rest where blocks: "wb_blocks b = b0 # rest"
    using ok by (cases "wb_blocks b") (auto simp: wb_ok_def)
  have l: "\<forall>c \<in> set (b0 # rest). length c = BLOCK_SIZE" "length rest = wb_current b" "wb_len b = 4 + length bs"
      "4 + length bs \<le> (1 + length rest) * BLOCK_SIZE"
      "take (4 + length bs) (b0 @ concat rest) = map Some (le_bytes 4 0) @ map Some bs"
    using ok blocks by (auto simp: wb_ok_def)
  have b0: "length b0 = BLOCK_SIZE" using l(1) by simp
  have "wb_close b = (map Some hdr @ drop 4 b0) # rest"
    using b0 by (simp add: wb_close_def wb_push_def wb_fill.simps put_bytes_def blocks hdr_def [symmetric] BLOCK_SIZE_def)
      (simp add: hdr_def BLOCK_SIZE_def)
  moreover have "unat (of_nat (le_val hdr) - 4 :: u32) = length bs"
  proof -
    have "le_val hdr = 4 + length bs" using len l(3) by (simp add: hdr_def)
    then have "(of_nat (le_val hdr) - 4 :: u32) = of_nat (length bs)" by simp
    then show ?thesis using len by (simp add: unat_of_nat take_bit_nat_eq_self)
  qed
  moreover have "take (length bs) (drop 4 b0 @ concat rest) = map Some bs"
  proof -
    have "drop 4 (take (4 + length bs) (b0 @ concat rest)) = map Some bs" using l(5) by simp
    then show ?thesis using b0 by (simp add: drop_take BLOCK_SIZE_def)
  qed
  moreover have "length hdr = 4" by (simp add: hdr_def)
  moreover have "seri_blocks (length bs - (BLOCK_SIZE - 4)) rest = Some (take (length bs - (BLOCK_SIZE - 4)) (concat rest))"
    using l(1,4) by (intro seri_blocks_concat) (auto simp: BLOCK_SIZE_def)
  ultimately show ?thesis
    using b0 by (cases "length bs < BLOCK_SIZE - 4") (simp_all add: seri_def Let_def BLOCK_SIZE_def)
qed

end
