(* ===== verification/LuaNumber.thy ===== *)
theory LuaNumber
  imports Prelude
begin

text \<open>
  A \<open>lua_Number\<close> is a \<open>double\<close>; it is modelled by its 64 bits (IEEE 754).  What \<open>lua-seri.c\<close> does with
  it: the test whether it equals a 32-bit integer (\<open>(lua_Number)x == n\<close> after \<open>x = lua_tointeger\<close>; the
  comparison fails for every \<open>x\<close> unless the number is such an integer, and then \<open>x\<close> is it), the
  conversion back, and the equality of numbers as table keys.
\<close>

type_synonym double = u64

definition dbl_frac :: "double \<Rightarrow> nat" where "dbl_frac d = unat d mod 2 ^ 52"
definition dbl_exp :: "double \<Rightarrow> nat" where "dbl_exp d = unat d div 2 ^ 52 mod 2 ^ 11"
definition dbl_neg :: "double \<Rightarrow> bool" where "dbl_neg d \<longleftrightarrow> 2 ^ 63 \<le> unat d"

definition dbl :: "bool \<Rightarrow> nat \<Rightarrow> nat \<Rightarrow> double" where
  "dbl neg e f = of_nat ((if neg then 2 ^ 63 else 0) + e * 2 ^ 52 + f)"

definition dbl_nan :: "double \<Rightarrow> bool" where
  "dbl_nan d \<longleftrightarrow> dbl_exp d = 2 ^ 11 - 1 \<and> dbl_frac d \<noteq> 0"

definition dbl_zero :: "double \<Rightarrow> bool" where
  "dbl_zero d \<longleftrightarrow> dbl_exp d = 0 \<and> dbl_frac d = 0"

text \<open>\<open>==\<close>: zeros of both signs are equal, a NaN is equal to nothing.\<close>

definition dbl_eq :: "double \<Rightarrow> double \<Rightarrow> bool" where
  "dbl_eq a b \<longleftrightarrow> \<not> dbl_nan a \<and> \<not> dbl_nan b \<and> (a = b \<or> dbl_zero a \<and> dbl_zero b)"

text \<open>The value of a number that is an integer less than \<open>2 ^ 32\<close> in size.\<close>

definition dbl_to_int :: "double \<Rightarrow> int option" where
  "dbl_to_int d =
     (let e = dbl_exp d; f = dbl_frac d in
      if e = 0 then (if f = 0 then Some 0 else None)
      else if 1023 \<le> e \<and> e < 1023 + 32 then
        let k = 52 - (e - 1023); m = 2 ^ 52 + f
        in if m mod 2 ^ k = 0 then Some ((if dbl_neg d then -1 else 1) * int (m div 2 ^ k)) else None
      else None)"

definition dbl_to_int32 :: "double \<Rightarrow> i32 option" where
  "dbl_to_int32 d = (case dbl_to_int d of
     Some v \<Rightarrow> if - (2 ^ 31) \<le> v \<and> v < 2 ^ 31 then Some (of_int v) else None
   | None \<Rightarrow> None)"

text \<open>\<open>(int)d\<close>: the fraction is cut off; undefined when the result is no \<open>int\<close>.\<close>

definition dbl_trunc :: "double \<Rightarrow> i32 option" where
  "dbl_trunc d =
     (let e = dbl_exp d; q = (2 ^ 52 + dbl_frac d) div 2 ^ (52 - (e - 1023)); v = (if dbl_neg d then -1 else 1) * int q in
      if e < 1023 then Some 0
      else if e < 1023 + 32 \<and> - (2 ^ 31) \<le> v \<and> v < 2 ^ 31 then Some (of_int v)
      else None)"

text \<open>The greatest \<open>k\<close> with \<open>2 ^ k \<le> n\<close>.\<close>

fun ilog2 :: "nat \<Rightarrow> nat" where
  "ilog2 n = (if n < 2 then 0 else Suc (ilog2 (n div 2)))"

declare ilog2.simps [simp del]

definition int_to_dbl :: "int \<Rightarrow> double" where
  "int_to_dbl v =
     (if v = 0 then 0
      else let a = nat \<bar>v\<bar>; e = ilog2 a
           in dbl (v < 0) (1023 + e) ((a - 2 ^ e) * 2 ^ (52 - e)))"

section \<open>Lemmas\<close>

lemma ilog2_bounds: "0 < n \<Longrightarrow> 2 ^ ilog2 n \<le> n \<and> n < 2 ^ (ilog2 n + 1)"
proof (induction n rule: ilog2.induct)
  case (1 n)
  show ?case
  proof (cases "n < 2")
    case True
    then show ?thesis using 1(2) by (subst (1 2) ilog2.simps) simp
  next
    case False
    then have "ilog2 n = Suc (ilog2 (n div 2))" by (subst ilog2.simps) simp
    then show ?thesis using 1(1) [OF False] False by auto
  qed
qed

lemma ilog2_unique:
  assumes "2 ^ k \<le> n" "n < 2 ^ (k + 1)"
  shows "ilog2 n = k"
proof -
  have "0 < n" using assms(1) by (metis gr0I not_one_le_zero one_le_numeral one_le_power order_trans)
  note b = ilog2_bounds [OF this]
  have "(2::nat) ^ k < 2 ^ (ilog2 n + 1)" "(2::nat) ^ ilog2 n < 2 ^ (k + 1)"
    using b assms by linarith+
  then have "k < ilog2 n + 1" "ilog2 n < k + 1"
    by (auto intro: power_less_imp_less_exp [of "2::nat"] simp del: power_Suc)
  then show ?thesis by linarith
qed

lemma dbl_fields:
  assumes "e < 2 ^ 11" "f < 2 ^ 52"
  shows "dbl_exp (dbl neg e f) = e" "dbl_frac (dbl neg e f) = f" "dbl_neg (dbl neg e f) = neg"
proof -
  have le: "e * 2 ^ 52 + f < 2 ^ 63"
  proof -
    have "(e + 1) * 2 ^ 52 \<le> 2 ^ 11 * (2::nat) ^ 52" using assms(1) by (intro mult_right_mono) simp_all
    then show ?thesis using assms(2) by (simp flip: power_add)
  qed
  define n where "n = (if neg then 2 ^ 63 else 0) + e * 2 ^ 52 + f"
  have "n < 2 ^ 64" using le by (simp add: n_def)
  then have u: "unat (dbl neg e f) = n"
    unfolding dbl_def n_def [symmetric] by (simp add: unat_of_nat take_bit_nat_eq_self)
  have n: "n = ((if neg then 2 ^ 11 else 0) + e) * 2 ^ 52 + f" by (simp add: n_def)
  have "n div 2 ^ 52 = (if neg then 2 ^ 11 else 0) + e" "n mod 2 ^ 52 = f"
    using assms(2) unfolding n by (simp_all del: power_numeral)
  then show "dbl_exp (dbl neg e f) = e" "dbl_frac (dbl neg e f) = f"
    using assms(1) by (simp_all add: dbl_exp_def dbl_frac_def u)
  show "dbl_neg (dbl neg e f) = neg" using le by (simp add: dbl_neg_def u n_def)
qed

lemma three_digits: "(n :: nat) div (p * q) * (q * p) + n div p mod q * p + n mod p = n"
proof -
  have "n div p = n div (p * q) * q + n div p mod q"
    by (simp add: div_mult2_eq div_mult_mod_eq)
  then have "n = (n div (p * q) * q + n div p mod q) * p + n mod p"
    using div_mult_mod_eq [of n p] by simp
  then show ?thesis by (simp add: add_mult_distrib)
qed

lemma dbl_collapse: "dbl (dbl_neg d) (dbl_exp d) (dbl_frac d) = d"
proof -
  define n where "n = unat d"
  have "n < 2 ^ LENGTH(64)" unfolding n_def by (rule unsigned_less)
  then have n: "n < 2 ^ 64" by simp
  have "n div 2 ^ 63 = (if 2 ^ 63 \<le> n then 1 else 0)" using n by auto
  then have "(if 2 ^ 63 \<le> n then 2 ^ 63 else 0) = n div 2 ^ 63 * 2 ^ 63" by simp
  moreover have "n div 2 ^ 63 * 2 ^ 63 + n div 2 ^ 52 mod 2 ^ 11 * 2 ^ 52 + n mod 2 ^ 52 = n"
    using three_digits [of n "2 ^ 52" "2 ^ 11"] by (simp flip: power_add del: power_numeral)
  ultimately have "(if 2 ^ 63 \<le> n then 2 ^ 63 else 0) + n div 2 ^ 52 mod 2 ^ 11 * 2 ^ 52 + n mod 2 ^ 52 = n"
    by (simp only:)
  then have "dbl (2 ^ 63 \<le> n) (n div 2 ^ 52 mod 2 ^ 11) (n mod 2 ^ 52) = of_nat n"
    by (simp only: dbl_def)
  then show ?thesis by (simp only: dbl_neg_def dbl_exp_def dbl_frac_def n_def) simp
qed

lemma int_to_dbl_fields:
  assumes "v \<noteq> 0" "\<bar>v\<bar> < 2 ^ 32"
  defines "a \<equiv> nat \<bar>v\<bar>"
  defines "e \<equiv> ilog2 a"
  shows "dbl_exp (int_to_dbl v) = 1023 + e" "dbl_frac (int_to_dbl v) = (a - 2 ^ e) * 2 ^ (52 - e)"
    "dbl_neg (int_to_dbl v) \<longleftrightarrow> v < 0" "e < 32" "2 ^ e \<le> a"
proof -
  have a: "0 < a" "a < 2 ^ 32" using assms(1,2) by (auto simp: a_def)
  have b: "2 ^ e \<le> a" "a < 2 ^ (e + 1)" using ilog2_bounds [OF a(1)] by (auto simp: e_def)
  have "(2::nat) ^ e < 2 ^ 32" using b(1) a(2) by (rule le_less_trans)
  then show e: "e < 32" by (simp del: power_numeral)
  show "2 ^ e \<le> a" by (rule b)
  have "(a - 2 ^ e) * 2 ^ (52 - e) < 2 ^ e * 2 ^ (52 - e)"
    using b by (intro mult_strict_right_mono) auto
  then have f: "(a - 2 ^ e) * 2 ^ (52 - e) < 2 ^ 52" using e by (simp flip: power_add)
  have x: "1023 + e < 2 ^ 11" using e by simp
  have d: "int_to_dbl v = dbl (v < 0) (1023 + e) ((a - 2 ^ e) * 2 ^ (52 - e))"
    using assms(1) by (simp add: int_to_dbl_def Let_def a_def e_def)
  show "dbl_exp (int_to_dbl v) = 1023 + e" "dbl_frac (int_to_dbl v) = (a - 2 ^ e) * 2 ^ (52 - e)"
    "dbl_neg (int_to_dbl v) \<longleftrightarrow> v < 0"
    unfolding d by (rule dbl_fields [OF x f])+
qed

text \<open>An integer comes back as itself.\<close>

lemma dbl_to_int_int: "\<bar>v\<bar> < 2 ^ 32 \<Longrightarrow> dbl_to_int (int_to_dbl v) = Some v"
proof (cases "v = 0")
  case True
  then show ?thesis by (simp add: dbl_to_int_def int_to_dbl_def dbl_exp_def dbl_frac_def)
next
  case False
  assume v: "\<bar>v\<bar> < 2 ^ 32"
  define a where "a = nat \<bar>v\<bar>"
  define e where "e = ilog2 a"
  note f = int_to_dbl_fields [OF False v, folded a_def, folded e_def]
  have "2 ^ 52 + (a - 2 ^ e) * 2 ^ (52 - e) = a * 2 ^ (52 - e)"
  proof -
    have "2 ^ 52 = (2::nat) ^ e * 2 ^ (52 - e)" using f(4) by (simp flip: power_add)
    moreover have "2 ^ e * 2 ^ (52 - e) \<le> a * 2 ^ (52 - e)" using f(5) by (rule mult_le_mono1)
    ultimately show ?thesis by (simp only: diff_mult_distrib)
  qed
  then show ?thesis
    using f False by (simp add: dbl_to_int_def Let_def a_def)
qed

text \<open>A number that is an integer has its bits, except for the negative zero.\<close>

lemma int_to_dbl_int:
  assumes "dbl_to_int d = Some v"
  shows "int_to_dbl v = d \<or> v = 0 \<and> dbl_zero d"
proof (cases "dbl_exp d = 0")
  case True
  then show ?thesis using assms by (auto simp: dbl_to_int_def dbl_zero_def Let_def split: if_splits)
next
  case False
  define x where "x = dbl_exp d - 1023"
  define m where "m = 2 ^ 52 + dbl_frac d"
  define q where "q = m div 2 ^ (52 - x)"
  have x: "dbl_exp d = 1023 + x" "x < 32" and md: "m mod 2 ^ (52 - x) = 0"
      and v: "v = (if dbl_neg d then -1 else 1) * int q"
    using assms False by (auto simp: dbl_to_int_def Let_def x_def m_def q_def split: if_splits)
  have m: "m = q * 2 ^ (52 - x)" using div_mult_mod_eq [of m "2 ^ (52 - x)"] unfolding md q_def by simp
  have p: "(2::nat) ^ 52 = 2 ^ x * 2 ^ (52 - x)" using x(2) by (simp flip: power_add)
  have "dbl_frac d < 2 ^ 52" by (simp add: dbl_frac_def del: power_numeral)
  then have "m < 2 * 2 ^ 52" "2 ^ 52 \<le> m" by (simp_all add: m_def)
  then have "q * 2 ^ (52 - x) < 2 ^ (x + 1) * 2 ^ (52 - x)" "2 ^ x * 2 ^ (52 - x) \<le> q * 2 ^ (52 - x)"
    unfolding m p by (simp_all only: power_add power_one_right mult_ac)
  then have q: "2 ^ x \<le> q" "q < 2 ^ (x + 1)" by (simp_all only: mult_less_cancel2 mult_le_cancel2)
  then have e: "ilog2 q = x" by (rule ilog2_unique)
  have "0 < q" using q(1) by (metis gr0I not_one_le_zero one_le_numeral one_le_power order_trans)
  moreover have "(q - 2 ^ x) * 2 ^ (52 - x) = dbl_frac d"
    using m p by (simp add: m_def diff_mult_distrib)
  ultimately have "int_to_dbl v = dbl (dbl_neg d) (dbl_exp d) (dbl_frac d)"
    by (simp add: int_to_dbl_def v e x(1) Let_def del: power_numeral)
  then show ?thesis by (simp add: dbl_collapse)
qed

lemma int_to_dbl_not_nan: "\<bar>v\<bar> < 2 ^ 32 \<Longrightarrow> \<not> dbl_nan (int_to_dbl v)"
  using int_to_dbl_fields(1,4) [of v] by (cases "v = 0") (auto simp: dbl_nan_def int_to_dbl_def dbl_exp_def dbl_frac_def)

lemma sint_i32: "\<bar>sint (x :: i32)\<bar> < 2 ^ 32" "- (2 ^ 31) \<le> sint x" "sint x < 2 ^ 31"
  using sint_greater_eq [of x] sint_less [of x] by auto

lemma dbl_to_int32_int: "dbl_to_int32 (int_to_dbl (sint x)) = Some x"
  using dbl_to_int_int [OF sint_i32(1) [of x]] sint_i32(2,3) [of x] by (simp add: dbl_to_int32_def)

lemma dbl_to_int32_Some:
  assumes "dbl_to_int32 d = Some x"
  shows "dbl_to_int d = Some (sint x)" "int_to_dbl (sint x) = d \<or> x = 0 \<and> dbl_zero d"
proof -
  obtain v where v: "dbl_to_int d = Some v" "- (2 ^ 31) \<le> v" "v < 2 ^ 31" "x = of_int v"
    using assms by (auto simp: dbl_to_int32_def split: option.splits if_splits)
  have "sint x = v" using v(2,3) unfolding v(4) by (simp add: signed_of_int signed_take_bit_int_eq_self)
  then show "dbl_to_int d = Some (sint x)" "int_to_dbl (sint x) = d \<or> x = 0 \<and> dbl_zero d"
    using v int_to_dbl_int [OF v(1)] by auto
qed

lemma dbl_trunc_int32:
  assumes "dbl_to_int32 d = Some x"
  shows "dbl_trunc d = Some x"
proof -
  obtain v where v: "dbl_to_int d = Some v" "- (2 ^ 31) \<le> v" "v < 2 ^ 31" "x = of_int v"
    using assms by (auto simp: dbl_to_int32_def split: option.splits if_splits)
  show ?thesis
  proof (cases "dbl_exp d = 0")
    case True
    then show ?thesis using v(1,4) by (simp add: dbl_to_int_def dbl_trunc_def Let_def split: if_splits)
  next
    case False
    then have "1023 \<le> dbl_exp d" "dbl_exp d < 1023 + 32"
        "v = (if dbl_neg d then -1 else 1) * int ((2 ^ 52 + dbl_frac d) div 2 ^ (52 - (dbl_exp d - 1023)))"
      using v(1) by (auto simp: dbl_to_int_def Let_def split: if_splits)
    then show ?thesis using v(2-4) by (simp add: dbl_trunc_def Let_def)
  qed
qed

end
