(* ===== verification/Seri.thy ===== *)
theory Seri
  imports SeriBuffer LuaNumber
begin

text \<open>
  \<open>lualib-src/lua-seri.c\<close>: the serializer for the arguments of messages and calls between Lua services.

  A Lua value is a tree.  A table is the list of its entries in the order in which \<open>lua_next\<close> visits
  them; its length \<open>lua_rawlen\<close>, which Lua leaves open when the table has holes, is a parameter.  A
  table whose field \<open>__remote\<close> is a number stands for an object of another service and is represented
  by that number.  On the reading side, \<open>cached h\<close> says that the table of remote objects has one for
  the number \<open>h\<close>; otherwise a new object is made.  Memory is little endian.
\<close>

unbundle bit_operations_syntax

section \<open>Lua values\<close>

datatype lua_value =
    LNil
  | LBoolean bool
  | LNumber double
  | LString "u8 list"
  | LUserdata u64
  | LTable "(lua_value \<times> lua_value) list"
  | LRemote i32
  | LOther string

type_synonym lua_table = "(lua_value \<times> lua_value) list"

text \<open>Equality of keys.  Two tables of the model are two objects; so are two new remote objects.\<close>

fun key_eq :: "(i32 \<Rightarrow> bool) \<Rightarrow> lua_value \<Rightarrow> lua_value \<Rightarrow> bool" where
  "key_eq cached (LNumber a) (LNumber b) = dbl_eq a b"
| "key_eq cached (LTable _) _ = False"
| "key_eq cached (LOther _) _ = False"
| "key_eq cached (LRemote a) (LRemote b) = (a = b \<and> cached a)"
| "key_eq cached a b = (a = b)"

definition raw_get :: "(i32 \<Rightarrow> bool) \<Rightarrow> lua_value \<Rightarrow> lua_table \<Rightarrow> lua_value" where
  "raw_get cached k t = (case find (\<lambda>(k', _). key_eq cached k' k) t of Some (_, v) \<Rightarrow> v | None \<Rightarrow> LNil)"

fun raw_set :: "(i32 \<Rightarrow> bool) \<Rightarrow> lua_value \<Rightarrow> lua_value \<Rightarrow> lua_table \<Rightarrow> lua_table" where
  "raw_set cached k v [] = (if v = LNil then [] else [(k, v)])"
| "raw_set cached k v ((k', v') # t) =
     (if key_eq cached k' k then (if v = LNil then t else (k', v) # t) else (k', v') # raw_set cached k v t)"

definition int_key :: "int \<Rightarrow> lua_value" where "int_key i = LNumber (int_to_dbl i)"

definition raw_geti :: "lua_table \<Rightarrow> int \<Rightarrow> lua_value" where
  "raw_geti t i = raw_get (\<lambda>_. False) (int_key i) t"

datatype seri_error = TooDeep | Unsupported string | InvalidStream nat | BadIndex | Undefined

section \<open>Writing\<close>

definition TYPE_NIL :: u8 where "TYPE_NIL = 0"
definition TYPE_BOOLEAN :: u8 where "TYPE_BOOLEAN = 1"
definition TYPE_NUMBER :: u8 where "TYPE_NUMBER = 2"
definition TYPE_USERDATA :: u8 where "TYPE_USERDATA = 3"
definition TYPE_SHORT_STRING :: u8 where "TYPE_SHORT_STRING = 4"
definition TYPE_LONG_STRING :: u8 where "TYPE_LONG_STRING = 5"
definition TYPE_TABLE :: u8 where "TYPE_TABLE = 6"
definition TYPE_REMOTE :: u8 where "TYPE_REMOTE = 7"
definition MAX_COOKIE :: nat where "MAX_COOKIE = 32"
definition MAX_DEPTH :: nat where "MAX_DEPTH = 32"

definition combine_type :: "u8 \<Rightarrow> u8 \<Rightarrow> u8" where
  "combine_type t v = t OR push_bit 3 v"

definition wb_nil :: "write_block \<Rightarrow> write_block" where
  "wb_nil b = wb_push [TYPE_NIL] b"

definition wb_boolean :: "bool \<Rightarrow> write_block \<Rightarrow> write_block" where
  "wb_boolean x b = wb_push [combine_type TYPE_BOOLEAN (if x then 1 else 0)] b"

definition wb_integer :: "i32 \<Rightarrow> u8 \<Rightarrow> write_block \<Rightarrow> write_block" where
  "wb_integer v ty b =
     (if v = 0 then wb_push [combine_type ty 0] b
      else if sint v < 0 then wb_push (le_bytes 4 (unat v)) (wb_push [combine_type ty 4] b)
      else if sint v < 0x100 then wb_push (le_bytes 1 (unat v)) (wb_push [combine_type ty 1] b)
      else if sint v < 0x10000 then wb_push (le_bytes 2 (unat v)) (wb_push [combine_type ty 2] b)
      else wb_push (le_bytes 4 (unat v)) (wb_push [combine_type ty 4] b))"

definition wb_number :: "double \<Rightarrow> write_block \<Rightarrow> write_block" where
  "wb_number v b = wb_push (le_bytes 8 (unat v)) (wb_push [combine_type TYPE_NUMBER 8] b)"

definition wb_pointer :: "u64 \<Rightarrow> write_block \<Rightarrow> write_block" where
  "wb_pointer v b = wb_push (le_bytes 8 (unat v)) (wb_push [TYPE_USERDATA] b)"

definition wb_string :: "u8 list \<Rightarrow> write_block \<Rightarrow> write_block" where
  "wb_string str b =
     (let len = length str in
      if len < MAX_COOKIE then
        let b = wb_push [combine_type TYPE_SHORT_STRING (of_nat len)] b
        in if 0 < len then wb_push str b else b
      else
        let b = (if len < 0x10000
                 then wb_push (le_bytes 2 len) (wb_push [combine_type TYPE_LONG_STRING 2] b)
                 else wb_push (le_bytes 4 len) (wb_push [combine_type TYPE_LONG_STRING 4] b))
        in wb_push str b)"

text \<open>The beginning of \<open>wb_table_array\<close>: the number of elements, in the type byte or as a number of its own.\<close>

definition wb_table_size :: "nat \<Rightarrow> write_block \<Rightarrow> write_block" where
  "wb_table_size array_size b =
     (if MAX_COOKIE - 1 \<le> array_size
      then wb_integer (of_nat array_size) TYPE_NUMBER (wb_push [combine_type TYPE_TABLE (of_nat (MAX_COOKIE - 1))] b)
      else wb_push [combine_type TYPE_TABLE (of_nat array_size)] b)"

text \<open>The values that \<open>wb_table_array\<close> and \<open>wb_table_hash\<close> write, in their order.\<close>

definition array_items :: "nat \<Rightarrow> lua_table \<Rightarrow> lua_value list" where
  "array_items n t = map (\<lambda>i. raw_geti t (int i)) [1..<n + 1]"

definition in_array :: "nat \<Rightarrow> lua_value \<Rightarrow> bool" where
  "in_array n k = (case k of
     LNumber d \<Rightarrow> (case dbl_to_int32 d of Some x \<Rightarrow> 0 < sint x \<and> sint x \<le> int n | None \<Rightarrow> False)
   | _ \<Rightarrow> False)"

definition hash_items :: "nat \<Rightarrow> lua_table \<Rightarrow> lua_value list" where
  "hash_items n t = concat (map (\<lambda>(k, v). [k, v]) (filter (\<lambda>(k, _). \<not> in_array n k) t))"

lemma raw_get_in: "raw_get c k t = LNil \<or> (\<exists>k'. (k', raw_get c k t) \<in> set t \<and> key_eq c k' k)"
  by (induction t) (auto simp: raw_get_def split: if_splits)

lemma table_sizes:
  assumes "(k, v) \<in> set t"
  shows "size k < size (LTable t)" "size v < size (LTable t)"
proof -
  have "size_prod size size (k, v) \<le> size_list (size_prod size size) t"
    using assms by (induction t) auto
  then show "size k < size (LTable t)" "size v < size (LTable t)" by simp_all
qed

fun max_size :: "lua_value list \<Rightarrow> nat" where
  "max_size [] = 0"
| "max_size (v # vs) = max (size v) (max_size vs)"

lemma max_size_less: "0 < m \<Longrightarrow> (\<And>v. v \<in> set vs \<Longrightarrow> size v < m) \<Longrightarrow> max_size vs < m"
  by (induction vs) auto

lemma array_items_size: "max_size (array_items n t) < size (LTable t)"
proof (rule max_size_less)
  fix v
  assume "v \<in> set (array_items n t)"
  then obtain i where "v = raw_geti t i" by (auto simp: array_items_def)
  then show "size v < size (LTable t)"
    using raw_get_in [of "\<lambda>_. False" "int_key i" t] table_sizes by (auto simp: raw_geti_def)
qed simp

lemma hash_items_size: "max_size (hash_items n t) < size (LTable t)"
  by (rule max_size_less) (auto simp: hash_items_def dest: table_sizes)

text \<open>\<open>_pack_one\<close>, with \<open>wb_table\<close>; and the loops over several values.\<close>

function pack_one :: "(lua_table \<Rightarrow> nat) \<Rightarrow> lua_value \<Rightarrow> nat \<Rightarrow> write_block \<Rightarrow> seri_error + write_block"
  and pack_all :: "(lua_table \<Rightarrow> nat) \<Rightarrow> lua_value list \<Rightarrow> nat \<Rightarrow> write_block \<Rightarrow> seri_error + write_block" where
  "pack_one rawlen v depth b =
     (if depth > MAX_DEPTH then Inl TooDeep
      else case v of
          LNil \<Rightarrow> Inr (wb_nil b)
        | LNumber n \<Rightarrow> Inr (case dbl_to_int32 n of Some x \<Rightarrow> wb_integer x TYPE_NUMBER b | None \<Rightarrow> wb_number n b)
        | LBoolean x \<Rightarrow> Inr (wb_boolean x b)
        | LString str \<Rightarrow> Inr (wb_string str b)
        | LUserdata p \<Rightarrow> Inr (wb_pointer p b)
        | LRemote handle \<Rightarrow> Inr (wb_integer handle TYPE_REMOTE b)
        | LTable t \<Rightarrow>
            (case pack_all rawlen (array_items (rawlen t) t) (depth + 1) (wb_table_size (rawlen t) b) of
               Inl e \<Rightarrow> Inl e
             | Inr b \<Rightarrow> (case pack_all rawlen (hash_items (rawlen t) t) (depth + 1) b of
                   Inl e \<Rightarrow> Inl e
                 | Inr b \<Rightarrow> Inr (wb_nil b)))
        | LOther tname \<Rightarrow> Inl (Unsupported tname))"
| "pack_all rawlen [] depth b = Inr b"
| "pack_all rawlen (v # vs) depth b =
     (case pack_one rawlen v depth b of Inl e \<Rightarrow> Inl e | Inr b \<Rightarrow> pack_all rawlen vs depth b)"
  by pat_completeness auto
termination pack_one
  by (relation "measures [\<lambda>x. case x of Inl (_, v, _, _) \<Rightarrow> size v | Inr (_, vs, _, _) \<Rightarrow> max_size vs,
        \<lambda>x. case x of Inl _ \<Rightarrow> 0 | Inr (_, vs, _, _) \<Rightarrow> length vs + 1]")
    (use array_items_size hash_items_size in \<open>auto simp: max_def simp del: lua_value.size\<close>)

declare pack_one.simps [simp del]

text \<open>\<open>_luaseri_pack\<close> and \<open>_pack_args\<close>: all arguments, then the copy.\<close>

definition luaseri_pack :: "(lua_table \<Rightarrow> nat) \<Rightarrow> lua_value list \<Rightarrow> (seri_error + u8 list) option" where
  "luaseri_pack rawlen vs = (case pack_all rawlen vs 0 wb_init of
     Inl e \<Rightarrow> Some (Inl e)
   | Inr b \<Rightarrow> map_option Inr (seri (wb_close b)))"

section \<open>Reading\<close>

definition rb_read :: "nat \<Rightarrow> u8 list \<Rightarrow> (u8 list \<times> u8 list) option" where
  "rb_read n s = (if length s < n then None else Some (take n s, drop n s))"

text \<open>A number of \<open>n\<close> bytes, or the error of a stream that ends before.\<close>

definition read_val :: "nat \<Rightarrow> u8 list \<Rightarrow> seri_error + nat \<times> u8 list" where
  "read_val n s = (case rb_read n s of None \<Rightarrow> Inl (InvalidStream (length s)) | Some (x, s) \<Rightarrow> Inr (le_val x, s))"

definition get_integer :: "u8 \<Rightarrow> u8 list \<Rightarrow> seri_error + i32 \<times> u8 list" where
  "get_integer cookie s =
     (if cookie = 0 then Inr (0, s)
      else if cookie = 1 \<or> cookie = 2 \<or> cookie = 4
      then map_sum id (apfst of_nat) (read_val (unat cookie) s)
      else Inl (InvalidStream (length s)))"

definition get_number :: "u8 \<Rightarrow> u8 list \<Rightarrow> seri_error + double \<times> u8 list" where
  "get_number cookie s =
     (if cookie = 8 then map_sum id (apfst of_nat) (read_val 8 s)
      else map_sum id (apfst (\<lambda>x. int_to_dbl (sint x))) (get_integer cookie s))"

text \<open>
  \<open>_get_buffer\<close> does not look at the result of \<open>rb_read\<close>: when the stream is too short, a null
  pointer goes to \<open>lua_pushlstring\<close>.
\<close>

definition get_buffer :: "int \<Rightarrow> u8 list \<Rightarrow> seri_error + lua_value \<times> u8 list" where
  "get_buffer len s =
     (if len < 0 then Inl Undefined
      else case rb_read (nat len) s of
          None \<Rightarrow> Inl Undefined
        | Some (x, s) \<Rightarrow> Inr (LString x, s))"

definition push_simple :: "u8 \<Rightarrow> u8 \<Rightarrow> u8 list \<Rightarrow> seri_error + lua_value \<times> u8 list" where
  "push_simple ty cookie s =
     (if ty = TYPE_NIL then Inr (LNil, s)
      else if ty = TYPE_BOOLEAN then Inr (LBoolean (cookie \<noteq> 0), s)
      else if ty = TYPE_NUMBER then map_sum id (apfst LNumber) (get_number cookie s)
      else if ty = TYPE_USERDATA then map_sum id (apfst (\<lambda>x. LUserdata (of_nat x))) (read_val 8 s)
      else if ty = TYPE_SHORT_STRING then get_buffer (int (unat cookie)) s
      else if ty = TYPE_LONG_STRING then
        (if cookie = 2 \<or> cookie = 4 then
           (case read_val (unat cookie) s of
              Inl e \<Rightarrow> Inl e
            | Inr (len, s) \<Rightarrow> get_buffer (sint (of_nat len :: i32)) s)
         else Inl (InvalidStream (length s)))
      else map_sum id (apfst LRemote) (get_integer cookie s))"

text \<open>The beginning of \<open>_unpack_table\<close>: the number of array elements.\<close>

definition table_size :: "u8 \<Rightarrow> u8 list \<Rightarrow> seri_error + int \<times> u8 list" where
  "table_size cookie s =
     (if unat cookie = MAX_COOKIE - 1 then
        (case rb_read 1 s of
           None \<Rightarrow> Inl (InvalidStream (length s))
         | Some (t, s) \<Rightarrow>
             if hd t AND 7 \<noteq> TYPE_NUMBER then Inl (InvalidStream (length s))
             else case get_number (drop_bit 3 (hd t)) s of
                 Inl e \<Rightarrow> Inl e
               | Inr (d, s) \<Rightarrow> (case dbl_trunc d of Some x \<Rightarrow> Inr (sint x, s) | None \<Rightarrow> Inl Undefined))
      else Inr (int (unat cookie), s))"

text \<open>
  \<open>_unpack_one\<close> and the two loops of \<open>_unpack_table\<close> as one recursion: read one value; read the array
  elements from \<open>i\<close> to \<open>n\<close> into the table; read the other entries.  The result is \<open>None\<close> when it does
  not end.
\<close>

datatype task = One | Items int int lua_table | Pairs lua_table

definition bad_key :: "lua_value \<Rightarrow> bool" where
  "bad_key k = (case k of LNumber d \<Rightarrow> dbl_nan d | _ \<Rightarrow> False)"

partial_function (option) unpack ::
  "(i32 \<Rightarrow> bool) \<Rightarrow> task \<Rightarrow> u8 list \<Rightarrow> (seri_error + lua_value \<times> u8 list) option" where
  "unpack cached task s = (case task of
     One \<Rightarrow> (case rb_read 1 s of
         None \<Rightarrow> Some (Inl (InvalidStream (length s)))
       | Some (t, s) \<Rightarrow>
           if hd t AND 7 = TYPE_TABLE then
             (case table_size (drop_bit 3 (hd t)) s of
                Inl e \<Rightarrow> Some (Inl e)
              | Inr (n, s) \<Rightarrow> unpack cached (Items 1 n []) s)
           else Some (push_simple (hd t AND 7) (drop_bit 3 (hd t)) s))
   | Items i n t \<Rightarrow>
       if i \<le> n then do {
         r \<leftarrow> unpack cached One s;
         case r of
           Inl e \<Rightarrow> Some (Inl e)
         | Inr (v, s) \<Rightarrow> unpack cached (Items (i + 1) n (raw_set cached (int_key i) v t)) s
       } else unpack cached (Pairs t) s
   | Pairs t \<Rightarrow> do {
       r \<leftarrow> unpack cached One s;
       case r of
         Inl e \<Rightarrow> Some (Inl e)
       | Inr (k, s) \<Rightarrow>
           if k = LNil then Some (Inr (LTable t, s))
           else do {
             r \<leftarrow> unpack cached One s;
             case r of
               Inl e \<Rightarrow> Some (Inl e)
             | Inr (v, s) \<Rightarrow>
                 if bad_key k then Some (Inl BadIndex)
                 else unpack cached (Pairs (raw_set cached k v t)) s
           }
     })"

declare unpack.simps [code]

text \<open>The loop of \<open>_luaseri_unpack\<close> and \<open>_unpack_args\<close>.\<close>

partial_function (option) unpack_all :: "(i32 \<Rightarrow> bool) \<Rightarrow> u8 list \<Rightarrow> (seri_error + lua_value list) option" where
  "unpack_all cached s =
     (if s = [] then Some (Inr [])
      else do {
        r \<leftarrow> unpack cached One s;
        case r of
          Inl e \<Rightarrow> Some (Inl e)
        | Inr (v, s) \<Rightarrow> do {
            r \<leftarrow> unpack_all cached s;
            Some (map_sum id (\<lambda>vs. v # vs) r)
          }
      })"

declare unpack_all.simps [code]

end
