(* ===== verification/SeriRound.thy ===== *)
theory SeriRound
  imports SeriProps
begin

text \<open>
  The round trip of the serializer: what \<open>_luaseri_pack\<close> makes of a list of values, \<open>_luaseri_unpack\<close>
  reads back as copies of them.
\<close>

unbundle bit_operations_syntax

section \<open>Copies\<close>

text \<open>
  A copy: numbers are equal (only the sign of a zero may differ), tables have the same entries in any
  order.
\<close>

inductive same_value :: "lua_value \<Rightarrow> lua_value \<Rightarrow> bool" where
  same_nil: "same_value LNil LNil"
| same_boolean: "same_value (LBoolean x) (LBoolean x)"
| same_number: "a = b \<or> dbl_zero a \<and> dbl_zero b \<Longrightarrow> same_value (LNumber a) (LNumber b)"
| same_string: "same_value (LString s) (LString s)"
| same_userdata: "same_value (LUserdata p) (LUserdata p)"
| same_remote: "same_value (LRemote h) (LRemote h)"
| same_table: "mset t' = mset t \<Longrightarrow> list_all2 (rel_prod same_value same_value) t' u \<Longrightarrow>
    same_value (LTable t) (LTable u)"

inductive_simps same_value_simps [simp]:
  "same_value LNil w" "same_value (LBoolean x) w" "same_value (LNumber a) w" "same_value (LString s) w"
  "same_value (LUserdata p) w" "same_value (LRemote h) w" "same_value (LTable t) w" "same_value (LOther s) w"

text \<open>
  What a table of Lua satisfies: no nil and no NaN as a key, no nil as a value, no key twice.  Lengths
  are less than \<open>2 ^ 31\<close>, as the program keeps them in an \<open>int\<close>.
\<close>

definition distinct_keys :: "(i32 \<Rightarrow> bool) \<Rightarrow> lua_table \<Rightarrow> bool" where
  "distinct_keys cached t \<longleftrightarrow> sorted_wrt (\<lambda>(k, _) (k', _). \<not> key_eq cached k k') t"

inductive wf_value :: "(i32 \<Rightarrow> bool) \<Rightarrow> (lua_table \<Rightarrow> nat) \<Rightarrow> lua_value \<Rightarrow> bool" for cached rawlen where
  wf_nil: "wf_value cached rawlen LNil"
| wf_boolean: "wf_value cached rawlen (LBoolean x)"
| wf_number: "wf_value cached rawlen (LNumber d)"
| wf_string: "length s < 2 ^ 31 \<Longrightarrow> wf_value cached rawlen (LString s)"
| wf_userdata: "wf_value cached rawlen (LUserdata p)"
| wf_remote: "wf_value cached rawlen (LRemote h)"
| wf_table: "(\<And>k v. (k, v) \<in> set t \<Longrightarrow> wf_value cached rawlen k \<and> wf_value cached rawlen v \<and> k \<noteq> LNil \<and> \<not> bad_key k \<and> v \<noteq> LNil) \<Longrightarrow>
    distinct_keys cached t \<Longrightarrow> rawlen t < 2 ^ 31 \<Longrightarrow> wf_value cached rawlen (LTable t)"
| wf_other: "wf_value cached rawlen (LOther s)"

inductive_cases wf_tableE: "wf_value cached rawlen (LTable t)"
inductive_cases wf_stringE: "wf_value cached rawlen (LString s)"

section \<open>Keys\<close>

lemma dbl_eq_sym: "dbl_eq a b = dbl_eq b a"
  by (auto simp: dbl_eq_def)

lemma key_eq_sym: "key_eq c a b = key_eq c b a"
  by (cases a; cases b) (auto simp: dbl_eq_sym)

lemma key_eq_same:
  assumes "same_value a a'" "same_value b b'"
  shows "key_eq c a' b' = key_eq c a b"
  using assms by (cases a; cases b) (auto simp: dbl_eq_def dbl_nan_def dbl_zero_def)

lemma bad_key_same: "same_value k k' \<Longrightarrow> bad_key k' = bad_key k"
  by (cases k) (auto simp: bad_key_def dbl_nan_def dbl_zero_def)

lemma same_nil_iff: "same_value k k' \<Longrightarrow> k' = LNil \<longleftrightarrow> k = LNil"
  by (cases k) auto

lemma int_to_dbl_eq: "\<bar>i\<bar> < 2 ^ 32 \<Longrightarrow> dbl_eq d (int_to_dbl i) \<longleftrightarrow> dbl_to_int d = Some i"
proof -
  assume i: "\<bar>i\<bar> < 2 ^ 32"
  have z: "dbl_zero x \<longleftrightarrow> dbl_to_int x = Some 0" for x
  proof
    assume "dbl_to_int x = Some 0"
    from int_to_dbl_int [OF this] show "dbl_zero x"
      by (auto simp: int_to_dbl_def dbl_zero_def dbl_exp_def dbl_frac_def)
  qed (simp add: dbl_zero_def dbl_to_int_def)
  have n: "dbl_to_int x = Some j \<Longrightarrow> \<not> dbl_nan x" for x j
    by (auto simp: dbl_nan_def dbl_to_int_def Let_def split: if_splits)
  show ?thesis
  proof
    assume "dbl_eq d (int_to_dbl i)"
    then show "dbl_to_int d = Some i"
      using dbl_to_int_int [OF i] by (auto simp: dbl_eq_def z)
  next
    assume d: "dbl_to_int d = Some i"
    then show "dbl_eq d (int_to_dbl i)"
      using int_to_dbl_int [OF d] int_to_dbl_not_nan [OF i] n [OF d] dbl_to_int_int [OF i] by (auto simp: dbl_eq_def z)
  qed
qed

lemma int_key_eq: "\<bar>i\<bar> < 2 ^ 32 \<Longrightarrow> \<bar>j\<bar> < 2 ^ 32 \<Longrightarrow> key_eq c (int_key i) (int_key j) \<longleftrightarrow> i = j"
  using dbl_to_int_int [of i] by (simp add: int_key_def int_to_dbl_eq)

text \<open>A key of the array part is the number itself.\<close>

lemma key_eq_int_key:
  assumes "key_eq c k (int_key i)" "0 < i" "i < 2 ^ 32"
  shows "k = int_key i"
proof -
  obtain d where d: "k = LNumber d" "dbl_eq d (int_to_dbl i)"
    using assms(1) by (cases k) (auto simp: int_key_def)
  then have "dbl_to_int d = Some i" using assms(2,3) by (simp add: int_to_dbl_eq)
  from int_to_dbl_int [OF this] show ?thesis using assms(2) by (auto simp: d(1) int_key_def)
qed

lemma in_array_int_key:
  assumes "n < 2 ^ 31"
  shows "in_array n k \<longleftrightarrow> (\<exists>i. 0 < i \<and> i \<le> int n \<and> k = int_key i)"
proof
  assume "in_array n k"
  then obtain d x where k: "k = LNumber d" "dbl_to_int32 d = Some x" "0 < sint x" "sint x \<le> int n"
    by (auto simp: in_array_def split: lua_value.splits option.splits)
  from dbl_to_int32_Some(2) [OF k(2)] have "int_to_dbl (sint x) = d" using k(3) by auto
  then show "\<exists>i. 0 < i \<and> i \<le> int n \<and> k = int_key i" using k by (auto simp: int_key_def)
next
  assume "\<exists>i. 0 < i \<and> i \<le> int n \<and> k = int_key i"
  then obtain i where i: "0 < i" "i \<le> int n" "k = int_key i" by blast
  have "int n < 2 ^ 31" using assms by simp
  then have b: "i < 2 ^ 31" using i(2) by linarith
  have s: "sint (word_of_int i :: i32) = i"
    using i(1) b by (simp add: signed_of_int signed_take_bit_int_eq_self)
  have "dbl_to_int32 (int_to_dbl (sint (word_of_int i :: i32))) = Some (word_of_int i)"
    by (rule dbl_to_int32_int)
  then show "in_array n k" using i s by (simp add: in_array_def int_key_def)
qed

section \<open>Bytes\<close>

lemma combine_type_fields:
  assumes "ty AND 7 = ty" "unat c < 32"
  shows "combine_type ty c AND 7 = ty" "drop_bit 3 (combine_type ty c) = c"
proof -
  have "take_bit 5 (unat c) = unat c" using assms(2) by (simp add: take_bit_nat_eq_self)
  then have "take_bit 5 c = c" by (metis unsigned_take_bit_eq unsigned_word_eqI)
  then have c: "bit c n \<Longrightarrow> n < 5" for n by (metis bit_take_bit_iff)
  have seven: "(x :: u8) AND 7 = take_bit 3 x" for x by (simp add: take_bit_eq_mask mask_eq_exp_minus_1)
  then have t: "bit ty n \<Longrightarrow> n < 3" for n using assms(1) by (metis bit_take_bit_iff)
  have "take_bit 3 (combine_type ty c) = ty"
    by (rule bit_word_eqI) (auto simp: combine_type_def bit_simps dest: t)
  then show "combine_type ty c AND 7 = ty" by (simp add: seven)
  show "drop_bit 3 (combine_type ty c) = c"
    by (rule bit_word_eqI) (auto simp: combine_type_def bit_simps dest: t c)
qed

lemma combine_type_small: "combine_type ty 0 = ty"
  by (simp add: combine_type_def)

lemma read_val_bytes: "n < 256 ^ k \<Longrightarrow> read_val k (le_bytes k n @ s) = Inr (n, s)"
  by (simp add: read_val_def rb_read_def)

text \<open>\<open>e\<close> is what \<open>f\<close> appends.\<close>

definition appends :: "(write_block \<Rightarrow> write_block) \<Rightarrow> u8 list \<Rightarrow> bool" where
  "appends f e \<longleftrightarrow> (\<forall>b bs. wb_ok b bs \<longrightarrow> wb_ok (f b) (bs @ e))"

lemma appends_push: "appends (wb_push e) e"
  by (simp add: appends_def wb_push_ok)

lemma appends_comp: "appends f e \<Longrightarrow> appends g e' \<Longrightarrow> appends (\<lambda>b. g (f b)) (e @ e')"
  by (simp add: appends_def) (metis append_assoc)

lemma appends_two: "appends (\<lambda>b. wb_push e' (wb_push e b)) (e @ e')"
  by (rule appends_comp [OF appends_push appends_push])

lemma of_nat_le_val: "of_nat (unat v mod 256 ^ 4) = (v :: i32)"
proof -
  have "unat v < 2 ^ LENGTH(32)" by (rule unsigned_less)
  then show ?thesis by simp
qed

lemma wb_integer_reads:
  "\<exists>c e. appends (wb_integer v ty) (combine_type ty c # e) \<and> unat c < 32 \<and> c \<noteq> 8 \<and>
     (\<forall>s. get_integer c (e @ s) = Inr (v, s))"
proof -
  have l: "unat v < 256 ^ 4" using unsigned_less [of v, where ?'a = nat] by simp
  have u: "sint v = int (unat v)" if "\<not> sint v < 0" using that sint_nonneg [of v] by simp
  consider "v = 0" | "v \<noteq> 0" "sint v < 0 \<or> \<not> sint v < 0x10000" | "v \<noteq> 0" "\<not> sint v < 0" "sint v < 0x100"
    | "v \<noteq> 0" "\<not> sint v < 0" "\<not> sint v < 0x100" "sint v < 0x10000" by linarith
  then show ?thesis
  proof cases
    case 1
    have "wb_integer v ty = wb_push [combine_type ty 0]"
      using 1 by (auto simp: wb_integer_def fun_eq_iff)
    then show ?thesis
      using 1 by (intro exI [of _ 0] exI [of _ "[]"]) (simp add: appends_push get_integer_def)
  next
    case 2
    have "wb_integer v ty = (\<lambda>b. wb_push (le_bytes 4 (unat v)) (wb_push [combine_type ty 4] b))"
      using 2 by (auto simp: wb_integer_def fun_eq_iff)
    then show ?thesis
      using appends_two [of "le_bytes 4 (unat v)" "[combine_type ty 4]"] read_val_bytes [OF l]
      by (intro exI [of _ 4] exI [of _ "le_bytes 4 (unat v)"]) (simp add: get_integer_def)
  next
    case 3
    have "unat v < 256" using u [OF 3(2)] 3(3) by linarith
    then have "unat v < 256 ^ 1" by simp
    moreover have "wb_integer v ty = (\<lambda>b. wb_push (le_bytes 1 (unat v)) (wb_push [combine_type ty 1] b))"
      using 3 by (auto simp: wb_integer_def fun_eq_iff)
    ultimately show ?thesis
      using appends_two [of "le_bytes 1 (unat v)" "[combine_type ty 1]"] read_val_bytes [of "unat v" 1]
      by (intro exI [of _ 1] exI [of _ "le_bytes 1 (unat v)"]) (simp add: get_integer_def)
  next
    case 4
    have "unat v < 65536" using u [OF 4(2)] 4(4) by linarith
    then have "unat v < 256 ^ 2" by simp
    moreover have "wb_integer v ty = (\<lambda>b. wb_push (le_bytes 2 (unat v)) (wb_push [combine_type ty 2] b))"
      using 4 by (auto simp: wb_integer_def fun_eq_iff)
    ultimately show ?thesis
      using appends_two [of "le_bytes 2 (unat v)" "[combine_type ty 2]"] read_val_bytes [of "unat v" 2]
      by (intro exI [of _ 2] exI [of _ "le_bytes 2 (unat v)"]) (simp add: get_integer_def)
  qed
qed

section \<open>Reading what was written\<close>

text \<open>The reader makes \<open>w\<close> of the bytes \<open>e\<close>, whatever follows them.\<close>

definition reads :: "(i32 \<Rightarrow> bool) \<Rightarrow> u8 list \<Rightarrow> lua_value \<Rightarrow> bool" where
  "reads cached e w \<longleftrightarrow> (\<forall>s. unpack cached One (e @ s) = Some (Inr (w, s)))"

lemma reads_simple:
  assumes "ty AND 7 = ty" "unat c < 32" "ty \<noteq> TYPE_TABLE" "\<And>s. push_simple ty c (e @ s) = Inr (w, s)"
  shows "reads cached (combine_type ty c # e) w"
  unfolding reads_def by (subst unpack.simps) (simp add: rb_read_def combine_type_fields assms)

lemma reads_items:
  "list_all2 (reads cached) es ws \<Longrightarrow> int (length ws) = n + 1 - i \<Longrightarrow>
     unpack cached (Items i n t) (concat es @ s) =
     unpack cached (Pairs (fold (\<lambda>(j, w). raw_set cached (int_key j) w) (zip [i..n] ws) t)) s"
proof (induction es ws arbitrary: i t rule: list_all2_induct)
  case Nil
  then show ?case by (subst unpack.simps) simp
next
  case (Cons e es w ws)
  then have "i \<le> n" by simp
  moreover from this have "[i..n] = i # [i + 1..n]" by (simp add: upto_rec1)
  moreover have "unpack cached One (e @ concat es @ s) = Some (Inr (w, concat es @ s))"
    using Cons(1) by (simp add: reads_def)
  ultimately show ?case
    using Cons(3) [of "i + 1" "raw_set cached (int_key i) w t"] Cons(4) by (subst unpack.simps) simp
qed

lemma reads_pairs:
  "list_all2 (reads cached) es (concat (map (\<lambda>(k, v). [k, v]) kvs)) \<Longrightarrow> \<forall>(k, v) \<in> set kvs. k \<noteq> LNil \<and> \<not> bad_key k \<Longrightarrow>
     reads cached nil LNil \<Longrightarrow>
     unpack cached (Pairs t) (concat es @ nil @ s) = Some (Inr (LTable (fold (\<lambda>(k, v). raw_set cached k v) kvs t), s))"
proof (induction kvs arbitrary: es t)
  case Nil
  then show ?case by (subst unpack.simps) (simp add: reads_def)
next
  case (Cons kv kvs)
  obtain k v where kv: "kv = (k, v)" by (cases kv)
  obtain e e' es' where es: "es = e # e' # es'" "reads cached e k" "reads cached e' v"
      "list_all2 (reads cached) es' (concat (map (\<lambda>(k, v). [k, v]) kvs))"
    using Cons.prems(1) by (auto simp: kv list_all2_Cons2)
  have "unpack cached (Pairs (raw_set cached k v t)) (concat es' @ nil @ s) =
      Some (Inr (LTable (fold (\<lambda>(k, v). raw_set cached k v) kvs (raw_set cached k v t)), s))"
    using Cons.IH [OF es(4)] Cons.prems(2,3) by simp
  then show ?case
    using es(2,3) Cons.prems(2) by (subst unpack.simps) (simp add: kv es(1) reads_def)
qed

section \<open>The table that is built\<close>

lemma raw_set_new:
  "(\<And>k' v'. (k', v') \<in> set t \<Longrightarrow> \<not> key_eq c k' k) \<Longrightarrow> raw_set c k v t = (if v = LNil then t else t @ [(k, v)])"
  by (induction t) fastforce+

lemma fold_raw_set:
  assumes "distinct_keys c (t @ kvs)"
  shows "fold (\<lambda>(k, v). raw_set c k v) kvs t = t @ filter (\<lambda>(k, v). v \<noteq> LNil) kvs"
  using assms
proof (induction kvs arbitrary: t)
  case (Cons kv kvs)
  obtain k v where kv: "kv = (k, v)" by (cases kv)
  have "raw_set c k v t = (if v = LNil then t else t @ [(k, v)])"
    using Cons.prems by (intro raw_set_new) (auto simp: kv distinct_keys_def sorted_wrt_append)
  moreover have "distinct_keys c ((if v = LNil then t else t @ [(k, v)]) @ kvs)"
    using Cons.prems by (auto simp: kv distinct_keys_def sorted_wrt_append)
  ultimately show ?case using Cons.IH by (simp add: kv)
qed simp

lemma distinct_keys_same:
  "list_all2 (rel_prod same_value same_value) t u \<Longrightarrow> distinct_keys c t \<Longrightarrow> distinct_keys c u"
proof (induction rule: list_all2_induct)
  case (Cons x xs y ys)
  have "\<not> key_eq c (fst y) (fst y')" if y': "y' \<in> set ys" for y'
  proof -
    obtain j where j: "j < length ys" "y' = ys ! j" using y' by (auto simp: in_set_conv_nth)
    define x' where "x' = xs ! j"
    have x': "x' \<in> set xs" "same_value (fst x') (fst y')"
      using Cons(2) j by (auto simp: list_all2_conv_all_nth x'_def rel_prod_sel)
    have "\<not> key_eq c (fst x) (fst x')"
      using Cons.prems x'(1) by (auto simp: distinct_keys_def split_beta)
    then show ?thesis
      using key_eq_same [OF _ x'(2), of "fst x" "fst y" c] Cons(1) by (simp add: rel_prod_sel)
  qed
  moreover have "distinct_keys c ys" using Cons.IH Cons.prems by (simp add: distinct_keys_def)
  ultimately show ?case by (simp add: distinct_keys_def split_beta)
qed simp

text \<open>The array part and the rest, as entries.\<close>

definition array_entries :: "nat \<Rightarrow> lua_table \<Rightarrow> lua_table" where
  "array_entries n t = map (\<lambda>i. (int_key i, raw_geti t i)) [1..int n]"

definition hash_entries :: "nat \<Rightarrow> lua_table \<Rightarrow> lua_table" where
  "hash_entries n t = filter (\<lambda>(k, _). \<not> in_array n k) t"

lemma raw_geti_entry:
  assumes "distinct_keys c t" "(int_key i, v) \<in> set t" "0 < i" "i < 2 ^ 32"
  shows "raw_geti t i = v"
proof -
  have refl: "key_eq c' (int_key i) (int_key i)" for c' using assms(3,4) by (simp add: int_key_eq)
  have any: "key_eq (\<lambda>_. False) k (int_key i) = key_eq c k (int_key i)" for k by (cases k) (simp_all add: int_key_def)
  have "raw_get (\<lambda>_. False) (int_key i) t = v"
    using assms(1,2)
  proof (induction t)
    case (Cons kv t)
    obtain k v' where kv: "kv = (k, v')" by (cases kv)
    show ?case
    proof (cases "key_eq c k (int_key i)")
      case True
      then have "(int_key i, v) \<notin> set t" using Cons.prems(1) by (auto simp: distinct_keys_def kv)
      then have "int_key i = k" "v = v'" using Cons.prems(2) by (auto simp: kv)
      then show ?thesis using refl by (simp add: kv raw_get_def)
    next
      case False
      then have "(int_key i, v) \<in> set t" using Cons.prems(2) refl by (auto simp: kv)
      then show ?thesis
        using False Cons.IH Cons.prems(1) by (simp add: kv raw_get_def any distinct_keys_def)
    qed
  qed simp
  then show ?thesis by (simp add: raw_geti_def)
qed

lemma raw_geti_in:
  assumes "raw_geti t i \<noteq> LNil" "0 < i" "i < 2 ^ 32"
  shows "(int_key i, raw_geti t i) \<in> set t"
proof -
  obtain k' where "(k', raw_geti t i) \<in> set t" "key_eq (\<lambda>_. False) k' (int_key i)"
    using raw_get_in [of "\<lambda>_. False" "int_key i" t] assms(1) by (auto simp: raw_geti_def)
  then show ?thesis using key_eq_int_key assms(2,3) by metis
qed

lemma map_int_upt: "map int [1..<n + 1] = [1..int n]"
  by (induction n) (auto simp: upto_rec2)

lemma array_items_entries: "array_items n t = map snd (array_entries n t)"
  unfolding array_items_def array_entries_def map_int_upt [symmetric] by (simp del: upt_Suc)

lemma hash_items_entries: "hash_items n t = concat (map (\<lambda>(k, v). [k, v]) (hash_entries n t))"
  by (simp add: hash_items_def hash_entries_def)

lemma int_key_inj: "\<bar>i\<bar> < 2 ^ 32 \<Longrightarrow> \<bar>j\<bar> < 2 ^ 32 \<Longrightarrow> int_key i = int_key j \<longleftrightarrow> i = j"
  using int_key_eq [of i j "\<lambda>_. False"] int_key_eq [of i i "\<lambda>_. False"] by auto

lemma small_index: "n < 2 ^ 31 \<Longrightarrow> i \<in> set [1..int n] \<Longrightarrow> 0 < i \<and> i < 2 ^ 32 \<and> \<bar>i\<bar> < 2 ^ 32"
proof -
  assume n: "n < 2 ^ 31" and "i \<in> set [1..int n]"
  then have i: "1 \<le> i" "i \<le> int n" by simp_all
  have "int n < 2 ^ 31" using n by simp
  then show ?thesis using i by simp
qed

lemma distinct_entries:
  assumes "distinct_keys c t" "n < 2 ^ 31"
  shows "distinct_keys c (array_entries n t @ hash_entries n t)"
proof -
  have "sorted_wrt (<) [1..int n]" by simp
  then have "sorted_wrt (\<lambda>i j. \<not> key_eq c (int_key i) (int_key j)) [1..int n]"
    by (rule sorted_wrt_mono_rel [rotated]) (use small_index [OF assms(2)] in \<open>simp add: int_key_eq\<close>)
  then have "distinct_keys c (array_entries n t)"
    by (simp add: distinct_keys_def array_entries_def sorted_wrt_map)
  moreover have "distinct_keys c (hash_entries n t)"
    using assms(1) by (simp add: distinct_keys_def hash_entries_def sorted_wrt_filter)
  moreover have "\<not> key_eq c (int_key i) k" if "i \<in> set [1..int n]" "\<not> in_array n k" for i k
  proof
    assume "key_eq c (int_key i) k"
    then have "k = int_key i"
      using key_eq_int_key [of c k i] small_index [OF assms(2) that(1)] by (simp add: key_eq_sym [of c k])
    then show False using that in_array_int_key [OF assms(2)] by auto
  qed
  ultimately show ?thesis
    by (auto simp: distinct_keys_def sorted_wrt_append array_entries_def hash_entries_def)
qed

lemma distinct_filter_array:
  assumes "distinct_keys c t" "n < 2 ^ 31"
  shows "distinct (filter (\<lambda>(k, _). in_array n k) t)"
  using assms(1)
proof (induction t)
  case (Cons kv t)
  obtain k v where kv: "kv = (k, v)" by (cases kv)
  have "kv \<notin> set t" if k: "in_array n k"
  proof
    assume "kv \<in> set t"
    then have "\<not> key_eq c k k" using Cons.prems by (auto simp: kv distinct_keys_def)
    moreover obtain i where "0 < i" "i \<le> int n" "k = int_key i"
      using k in_array_int_key [OF assms(2)] by auto
    ultimately show False using small_index [OF assms(2), of i] by (simp add: int_key_eq)
  qed
  then show ?case using Cons by (auto simp: kv distinct_keys_def)
qed simp

text \<open>The entries that are written are those of the table.\<close>

lemma entries_perm:
  assumes "distinct_keys c t" "n < 2 ^ 31" "\<And>k v. (k, v) \<in> set t \<Longrightarrow> v \<noteq> LNil"
  shows "mset (filter (\<lambda>(_, v). v \<noteq> LNil) (array_entries n t) @ hash_entries n t) = mset t"
proof -
  let ?A = "filter (\<lambda>(_, v). v \<noteq> LNil) (array_entries n t)"
  let ?B = "filter (\<lambda>(k, _). in_array n k) t"
  have "inj_on (\<lambda>i. (int_key i, raw_geti t i)) (set [1..int n])"
    using small_index [OF assms(2)] by (auto intro!: inj_onI simp: int_key_inj)
  then have A: "distinct ?A" by (auto simp: array_entries_def distinct_map intro: inj_on_subset)
  have AB: "set ?A = set ?B"
  proof (rule set_eqI, rule iffI)
    fix x
    assume "x \<in> set ?A"
    then obtain i where i: "i \<in> set [1..int n]" "x = (int_key i, raw_geti t i)" "raw_geti t i \<noteq> LNil"
      by (auto simp: array_entries_def)
    have "x \<in> set t" using raw_geti_in [OF i(3)] small_index [OF assms(2) i(1)] i(2) by simp
    moreover have "in_array n (int_key i)"
      using i(1) unfolding in_array_int_key [OF assms(2)] by (intro exI [of _ i]) simp
    ultimately show "x \<in> set ?B" using i(2) by simp
  next
    fix x
    assume x: "x \<in> set ?B"
    obtain k v where kv: "x = (k, v)" by (cases x)
    have "in_array n k" "(k, v) \<in> set t" using x by (simp_all add: kv)
    then obtain i where i: "0 < i" "i \<le> int n" "k = int_key i"
      unfolding in_array_int_key [OF assms(2)] by blast
    then have "raw_geti t i = v"
      using raw_geti_entry [OF assms(1), of i v] small_index [OF assms(2), of i] \<open>(k, v) \<in> set t\<close> by simp
    moreover have "v \<noteq> LNil" using \<open>(k, v) \<in> set t\<close> by (rule assms(3))
    ultimately show "x \<in> set ?A" using i by (force simp: kv array_entries_def)
  qed
  have "mset ?A = mset ?B"
    by (rule iffD1 [OF set_eq_iff_mset_eq_distinct [OF A distinct_filter_array [OF assms(1,2)]] AB])
  moreover have "mset t = mset ?B + mset (hash_entries n t)"
    unfolding hash_entries_def by (induction t) auto
  ultimately show ?thesis by (simp only: mset_append)
qed

section \<open>The round trip\<close>

lemma list_all2_pairs:
  "list_all2 same_value (concat (map (\<lambda>(k, v). [k, v]) kvs)) ws \<Longrightarrow>
     \<exists>kvs'. ws = concat (map (\<lambda>(k, v). [k, v]) kvs') \<and> list_all2 (rel_prod same_value same_value) kvs kvs'"
proof (induction kvs arbitrary: ws)
  case (Cons kv kvs)
  obtain k v where kv: "kv = (k, v)" by (cases kv)
  obtain k' v' ws' where ws: "ws = k' # v' # ws'" "same_value k k'" "same_value v v'"
      "list_all2 same_value (concat (map (\<lambda>(k, v). [k, v]) kvs)) ws'"
    using Cons.prems by (auto simp: kv list_all2_Cons1)
  obtain kvs' where "ws' = concat (map (\<lambda>(k, v). [k, v]) kvs')" "list_all2 (rel_prod same_value same_value) kvs kvs'"
    using Cons.IH [OF ws(4)] by blast
  then show ?case using ws(1-3) by (intro exI [of _ "(k', v') # kvs'"]) (simp add: kv)
qed simp

lemma list_all2_nonnil:
  "list_all2 (rel_prod same_value same_value) t u \<Longrightarrow>
     list_all2 (rel_prod same_value same_value) (filter (\<lambda>(_, v). v \<noteq> LNil) t) (filter (\<lambda>(_, v). v \<noteq> LNil) u)"
  by (induction rule: list_all2_induct) (auto dest: same_nil_iff)

text \<open>What the reader builds from copies of the items is a copy of the table.\<close>

lemma built_table:
  assumes d: "distinct_keys c t" and n: "n < 2 ^ 31"
    and good: "\<And>k v. (k, v) \<in> set t \<Longrightarrow> k \<noteq> LNil \<and> \<not> bad_key k \<and> v \<noteq> LNil"
    and ws: "list_all2 same_value (array_items n t) ws" and vs: "list_all2 same_value (hash_items n t) vs"
  obtains kvs where "vs = concat (map (\<lambda>(k, v). [k, v]) kvs)" "\<forall>(k, v) \<in> set kvs. k \<noteq> LNil \<and> \<not> bad_key k"
    "same_value (LTable t) (LTable (fold (\<lambda>(k, v). raw_set c k v) kvs
       (fold (\<lambda>(j, w). raw_set c (int_key j) w) (zip [1..int n] ws) [])))"
proof -
  let ?R = "rel_prod same_value same_value"
  obtain kvs where kvs: "vs = concat (map (\<lambda>(k, v). [k, v]) kvs)" "list_all2 ?R (hash_entries n t) kvs"
    using list_all2_pairs vs unfolding hash_items_entries by blast
  define A where "A = map (\<lambda>(j, w). (int_key j, w)) (zip [1..int n] ws)"
  have len: "length ws = n" using list_all2_lengthD [OF ws] by (simp add: array_items_def del: upt_Suc)
  have key: "same_value (int_key i) (int_key i)" for i by (simp add: int_key_def)
  have "list_all2 ?R (array_entries n t) A"
    using ws len key by (auto simp: list_all2_conv_all_nth array_items_entries A_def array_entries_def)
  then have all: "list_all2 ?R (array_entries n t @ hash_entries n t) (A @ kvs)"
    using kvs(2) by (simp add: list_all2_appendI)
  then have dk: "distinct_keys c (A @ kvs)"
    using distinct_keys_same distinct_entries [OF d n] by blast
  have keys: "k \<noteq> LNil \<and> \<not> bad_key k \<and> v \<noteq> LNil" if kv: "(k, v) \<in> set kvs" for k v
  proof -
    obtain j where j: "j < length kvs" "kvs ! j = (k, v)" using kv by (auto simp: in_set_conv_nth)
    obtain k0 v0 where kv0: "hash_entries n t ! j = (k0, v0)" by (cases "hash_entries n t ! j")
    have "same_value k0 k" "same_value v0 v" "j < length (hash_entries n t)"
      using kvs(2) j kv0 by (auto simp: list_all2_conv_all_nth)
    moreover from this(3) have "(k0, v0) \<in> set t" using kv0 nth_mem [of j "hash_entries n t"] by (auto simp: hash_entries_def)
    ultimately show ?thesis using good same_nil_iff bad_key_same by metis
  qed
  have "fold (\<lambda>(j, w). raw_set c (int_key j) w) (zip [1..int n] ws) [] = fold (\<lambda>(k, v). raw_set c k v) A []"
  proof -
    have "(\<lambda>(j, w). raw_set c (int_key j) w) = (\<lambda>(k, v). raw_set c k v) \<circ> (\<lambda>(j, w). (int_key j, w))"
      by (auto simp: fun_eq_iff)
    then show ?thesis by (simp add: A_def fold_map)
  qed
  also have "\<dots> = filter (\<lambda>(_, v). v \<noteq> LNil) A"
    using dk by (subst fold_raw_set) (auto simp: distinct_keys_def sorted_wrt_append)
  finally have built: "fold (\<lambda>(k, v). raw_set c k v) kvs (fold (\<lambda>(j, w). raw_set c (int_key j) w) (zip [1..int n] ws) []) =
      filter (\<lambda>(_, v). v \<noteq> LNil) (A @ kvs)"
    using dk by (subst fold_raw_set)
      (auto simp: distinct_keys_def sorted_wrt_append sorted_wrt_filter)
  have hash: "filter (\<lambda>(_, v). v \<noteq> LNil) (hash_entries n t) = hash_entries n t"
    by (rule filter_True) (auto simp: hash_entries_def dest: good)
  have "mset (filter (\<lambda>(_, v). v \<noteq> LNil) (array_entries n t @ hash_entries n t)) = mset t"
    using entries_perm [OF d n] good hash by simp
  then have "same_value (LTable t) (LTable (filter (\<lambda>(_, v). v \<noteq> LNil) (A @ kvs)))"
    unfolding same_value_simps using list_all2_nonnil [OF all] by blast
  then show ?thesis using that [OF kvs(1)] keys built by auto
qed

lemmas type_defs = TYPE_NIL_def TYPE_BOOLEAN_def TYPE_NUMBER_def TYPE_USERDATA_def TYPE_SHORT_STRING_def
  TYPE_LONG_STRING_def TYPE_TABLE_def TYPE_REMOTE_def

lemma wb_nil_reads: "appends wb_nil [TYPE_NIL]" "reads cached [TYPE_NIL] LNil"
proof -
  have "wb_nil = wb_push [TYPE_NIL]" by (simp add: wb_nil_def fun_eq_iff)
  then show "appends wb_nil [TYPE_NIL]" using appends_push [of "[TYPE_NIL]"] by metis
  show "reads cached [TYPE_NIL] LNil"
    using reads_simple [of TYPE_NIL 0 "[]" LNil cached] by (simp add: combine_type_small push_simple_def type_defs)
qed

lemma wb_boolean_reads: "\<exists>e. appends (wb_boolean x) e \<and> reads cached e (LBoolean x)"
proof (intro exI conjI)
  show "appends (wb_boolean x) [combine_type TYPE_BOOLEAN (if x then 1 else 0)]"
    using appends_push by (simp add: appends_def wb_boolean_def)
  show "reads cached [combine_type TYPE_BOOLEAN (if x then 1 else 0)] (LBoolean x)"
    by (rule reads_simple) (simp_all add: type_defs push_simple_def)
qed

lemma wb_integer_number: "\<exists>e. appends (wb_integer x TYPE_NUMBER) e \<and> reads cached e (int_key (sint x))"
proof -
  obtain c e where e: "appends (wb_integer x TYPE_NUMBER) (combine_type TYPE_NUMBER c # e)" "unat c < 32" "c \<noteq> 8"
      "\<And>s. get_integer c (e @ s) = Inr (x, s)" using wb_integer_reads by blast
  have "reads cached (combine_type TYPE_NUMBER c # e) (int_key (sint x))"
    by (rule reads_simple) (simp_all add: type_defs push_simple_def get_number_def e int_key_def)
  then show ?thesis using e(1) by blast
qed

lemma wb_integer_remote: "\<exists>e. appends (wb_integer x TYPE_REMOTE) e \<and> reads cached e (LRemote x)"
proof -
  obtain c e where e: "appends (wb_integer x TYPE_REMOTE) (combine_type TYPE_REMOTE c # e)" "unat c < 32"
      "\<And>s. get_integer c (e @ s) = Inr (x, s)" using wb_integer_reads by blast
  have "reads cached (combine_type TYPE_REMOTE c # e) (LRemote x)"
    by (rule reads_simple) (simp_all add: type_defs push_simple_def e)
  then show ?thesis using e(1) by blast
qed

lemma bytes_of_u64: "unat (v :: u64) < 256 ^ 8"
  using unsigned_less [of v, where ?'a = nat] by simp

lemma wb_number_reads: "\<exists>e. appends (wb_number d) e \<and> reads cached e (LNumber d)"
proof (intro exI conjI)
  show "appends (wb_number d) ([combine_type TYPE_NUMBER 8] @ le_bytes 8 (unat d))"
    using appends_two [of "le_bytes 8 (unat d)" "[combine_type TYPE_NUMBER 8]"] by (simp add: appends_def wb_number_def)
  show "reads cached ([combine_type TYPE_NUMBER 8] @ le_bytes 8 (unat d)) (LNumber d)"
    unfolding append_Cons append_Nil
    by (rule reads_simple) (simp_all add: type_defs push_simple_def get_number_def read_val_bytes [OF bytes_of_u64])
qed

lemma wb_pointer_reads: "\<exists>e. appends (wb_pointer p) e \<and> reads cached e (LUserdata p)"
proof (intro exI conjI)
  show "appends (wb_pointer p) ([combine_type TYPE_USERDATA 0] @ le_bytes 8 (unat p))"
    using appends_two [of "le_bytes 8 (unat p)" "[combine_type TYPE_USERDATA 0]"] by (simp add: appends_def wb_pointer_def combine_type_small)
  show "reads cached ([combine_type TYPE_USERDATA 0] @ le_bytes 8 (unat p)) (LUserdata p)"
    unfolding append_Cons append_Nil
    by (rule reads_simple) (simp_all add: type_defs push_simple_def read_val_bytes [OF bytes_of_u64])
qed

lemma get_buffer_read: "n = int (length str) \<Longrightarrow> get_buffer n (str @ s) = Inr (LString str, s)"
  by (simp add: get_buffer_def rb_read_def)

lemma wb_string_reads:
  assumes "length str < 2 ^ 31"
  shows "\<exists>e. appends (wb_string str) e \<and> reads cached e (LString str)"
proof (cases "length str < MAX_COOKIE")
  case True
  have c: "unat (of_nat (length str) :: u8) = length str"
    using True by (simp add: MAX_COOKIE_def unat_of_nat take_bit_nat_eq_self)
  have "wb_string str = (if str = [] then wb_push [combine_type TYPE_SHORT_STRING (of_nat (length str))]
      else (\<lambda>b. wb_push str (wb_push [combine_type TYPE_SHORT_STRING (of_nat (length str))] b)))"
    using True by (auto simp: wb_string_def fun_eq_iff Let_def)
  then have "appends (wb_string str) (combine_type TYPE_SHORT_STRING (of_nat (length str)) # str)"
    using appends_push appends_two [of str "[combine_type TYPE_SHORT_STRING (of_nat (length str))]"] by simp
  moreover have "reads cached (combine_type TYPE_SHORT_STRING (of_nat (length str)) # str) (LString str)"
    using True c by (intro reads_simple) (simp_all add: type_defs push_simple_def get_buffer_read MAX_COOKIE_def)
  ultimately show ?thesis by blast
next
  case False
  have long: "\<exists>e. appends (wb_string str) e \<and> reads cached e (LString str)"
    if k: "k = 2 \<or> k = 4" "length str < 256 ^ k"
      "wb_string str = (\<lambda>b. wb_push str (wb_push (le_bytes k (length str)) (wb_push [combine_type TYPE_LONG_STRING (of_nat k)] b)))" for k
  proof (intro exI conjI)
    show "appends (wb_string str) (([combine_type TYPE_LONG_STRING (of_nat k)] @ le_bytes k (length str)) @ str)"
      unfolding k(3) by (rule appends_comp [OF appends_two appends_push])
    have u: "unat (of_nat k :: u8) = k" "(of_nat k :: u8) = 2 \<or> (of_nat k :: u8) = 4" "k < 32" using k(1) by auto
    have "sint (of_nat (length str) :: i32) = int (length str)"
      using assms by (simp add: signed_of_nat signed_take_bit_int_eq_self)
    then show "reads cached (([combine_type TYPE_LONG_STRING (of_nat k)] @ le_bytes k (length str)) @ str) (LString str)"
      using u k(1) unfolding append_Cons append_Nil
      by (intro reads_simple) (simp_all add: type_defs push_simple_def read_val_bytes [OF k(2)] get_buffer_read)
  qed
  show ?thesis
  proof (cases "length str < 0x10000")
    case True
    then show ?thesis using False by (intro long [of 2]) (auto simp: wb_string_def fun_eq_iff Let_def)
  next
    case neg: False
    then show ?thesis using False assms by (intro long [of 4]) (auto simp: wb_string_def fun_eq_iff Let_def)
  qed
qed

lemma wb_table_size_reads:
  assumes "n < 2 ^ 31"
  shows "\<exists>c e. appends (wb_table_size n) (combine_type TYPE_TABLE c # e) \<and> unat c < 32 \<and>
    (\<forall>s. table_size c (e @ s) = Inr (int n, s))"
proof (cases "MAX_COOKIE - 1 \<le> n")
  case False
  have c: "unat (of_nat n :: u8) = n" using False by (simp add: MAX_COOKIE_def unat_of_nat take_bit_nat_eq_self)
  have "wb_table_size n = wb_push [combine_type TYPE_TABLE (of_nat n)]"
    using False by (simp add: wb_table_size_def fun_eq_iff)
  then show ?thesis
    using False c by (intro exI [of _ "of_nat n"] exI [of _ "[]"]) (simp add: appends_push table_size_def MAX_COOKIE_def)
next
  case True
  define x :: i32 where "x = of_nat n"
  have x: "sint x = int n" unfolding x_def
    using assms by (simp add: signed_of_nat signed_take_bit_int_eq_self)
  obtain c e where e: "appends (wb_integer x TYPE_NUMBER) (combine_type TYPE_NUMBER c # e)" "unat c < 32" "c \<noteq> 8"
      "\<And>s. get_integer c (e @ s) = Inr (x, s)" using wb_integer_reads by blast
  have "wb_table_size n = (\<lambda>b. wb_integer x TYPE_NUMBER (wb_push [combine_type TYPE_TABLE 31] b))"
    using True by (simp add: wb_table_size_def fun_eq_iff MAX_COOKIE_def x_def)
  then have "appends (wb_table_size n) ([combine_type TYPE_TABLE 31] @ combine_type TYPE_NUMBER c # e)"
    using appends_comp [OF appends_push [of "[combine_type TYPE_TABLE 31]"] e(1)] by simp
  moreover have "table_size 31 ((combine_type TYPE_NUMBER c # e) @ s) = Inr (int n, s)" for s
    using combine_type_fields [of TYPE_NUMBER c] e(2-4) dbl_trunc_int32 [OF dbl_to_int32_int [of x]] x
    by (simp add: table_size_def MAX_COOKIE_def rb_read_def get_number_def type_defs)
  ultimately show ?thesis by (intro exI [of _ 31] exI [of _ "combine_type TYPE_NUMBER c # e"]) simp
qed

end
