(* ===== verification/SeriTrip.thy ===== *)
theory SeriTrip
  imports SeriRound
begin

text \<open>
  The round trip of whole messages: packing succeeds on everything that is not nested too deep and
  contains no function, thread or full userdata, and unpacking the result gives copies of all values.
\<close>

section \<open>One value\<close>

lemma array_items_wf:
  assumes "wf_value c rawlen (LTable t)" "v \<in> set (array_items n t)"
  shows "wf_value c rawlen v"
proof -
  obtain i where "v = raw_geti t i" using assms(2) by (auto simp: array_items_def)
  then have "v = LNil \<or> (\<exists>k. (k, v) \<in> set t)" using raw_get_in by (auto simp: raw_geti_def)
  then show ?thesis using assms(1) by (auto elim: wf_tableE intro: wf_nil)
qed

lemma hash_items_wf: "wf_value c rawlen (LTable t) \<Longrightarrow> v \<in> set (hash_items n t) \<Longrightarrow> wf_value c rawlen v"
  by (auto simp: hash_items_def elim: wf_tableE)

definition emits :: "(i32 \<Rightarrow> bool) \<Rightarrow> lua_value \<Rightarrow> u8 list \<Rightarrow> write_block \<Rightarrow> bool" where
  "emits c v bs b \<longleftrightarrow> (\<exists>e w. wb_ok b (bs @ e) \<and> reads c e w \<and> same_value v w)"

lemma emitsI: "\<exists>e. appends f e \<and> reads c e w \<Longrightarrow> wb_ok b bs \<Longrightarrow> b' = f b \<Longrightarrow> same_value v w \<Longrightarrow> emits c v bs b'"
  by (auto simp: emits_def appends_def)

text \<open>The table case: a header, the items, a nil.\<close>

lemma emits_table:
  assumes wf: "wf_value c rawlen (LTable t)" and b: "wb_ok b bs"
    and items: "\<And>bs. wb_ok (wb_table_size (rawlen t) b) bs \<Longrightarrow>
      \<exists>es ws. wb_ok b1 (bs @ concat es) \<and> list_all2 (reads c) es ws \<and> list_all2 same_value (array_items (rawlen t) t) ws"
    and hash: "\<And>bs. wb_ok b1 bs \<Longrightarrow>
      \<exists>es ws. wb_ok b2 (bs @ concat es) \<and> list_all2 (reads c) es ws \<and> list_all2 same_value (hash_items (rawlen t) t) ws"
  shows "emits c (LTable t) bs (wb_nil b2)"
proof -
  define n where "n = rawlen t"
  have t: "distinct_keys c t" "n < 2 ^ 31" "\<And>k v. (k, v) \<in> set t \<Longrightarrow> k \<noteq> LNil \<and> \<not> bad_key k \<and> v \<noteq> LNil"
    using wf by (auto simp: n_def elim: wf_tableE)
  obtain k e where hd: "appends (wb_table_size n) (combine_type TYPE_TABLE k # e)" "unat k < 32"
      "\<And>s. table_size k (e @ s) = Inr (int n, s)"
    using wb_table_size_reads [OF t(2)] by blast
  have "wb_ok (wb_table_size n b) (bs @ combine_type TYPE_TABLE k # e)" using hd(1) b by (simp add: appends_def)
  from items [OF this [unfolded n_def]] obtain es ws where arr: "wb_ok b1 ((bs @ combine_type TYPE_TABLE k # e) @ concat es)"
      "list_all2 (reads c) es ws" "list_all2 same_value (array_items n t) ws"
    by (auto simp: n_def)
  from hash [OF arr(1)] obtain fs vs where h: "wb_ok b2 (((bs @ combine_type TYPE_TABLE k # e) @ concat es) @ concat fs)"
      "list_all2 (reads c) fs vs" "list_all2 same_value (hash_items n t) vs"
    by (auto simp: n_def)
  obtain kvs where kvs: "vs = concat (map (\<lambda>(k, v). [k, v]) kvs)" "\<forall>(k, v) \<in> set kvs. k \<noteq> LNil \<and> \<not> bad_key k"
      "same_value (LTable t) (LTable (fold (\<lambda>(k, v). raw_set c k v) kvs
         (fold (\<lambda>(j, w). raw_set c (int_key j) w) (zip [1..int n] ws) [])))"
    by (rule built_table [OF t arr(3) h(3)])
  let ?e = "combine_type TYPE_TABLE k # e @ concat es @ concat fs @ [TYPE_NIL]"
  have ok: "wb_ok (wb_nil b2) (bs @ ?e)"
    using wb_nil_reads(1) [unfolded appends_def, rule_format, OF h(1)] by simp
  have len: "length ws = n"
    using list_all2_lengthD [OF arr(3)] by (simp add: array_items_def del: upt_Suc)
  have "unpack c One (?e @ s) = Some (Inr (LTable (fold (\<lambda>(k, v). raw_set c k v) kvs
         (fold (\<lambda>(j, w). raw_set c (int_key j) w) (zip [1..int n] ws) [])), s))" for s
  proof -
    have "unpack c One (?e @ s) = unpack c (Items 1 (int n) []) (concat es @ concat fs @ [TYPE_NIL] @ s)"
      using combine_type_fields [of TYPE_TABLE k] hd(2,3)
      by (subst unpack.simps) (simp add: rb_read_def type_defs)
    then show ?thesis
      unfolding reads_items [OF arr(2), of "int n" 1, simplified, OF len]
      using reads_pairs [OF h(2) [unfolded kvs(1)] kvs(2) wb_nil_reads(2)] by simp
  qed
  then have "reads c ?e (LTable (fold (\<lambda>(k, v). raw_set c k v) kvs
         (fold (\<lambda>(j, w). raw_set c (int_key j) w) (zip [1..int n] ws) [])))"
    by (simp add: reads_def)
  then show ?thesis using ok kvs(3) unfolding emits_def by blast
qed

lemma pack_reads:
  "pack_one rawlen v depth b = Inr b' \<Longrightarrow> wf_value c rawlen v \<Longrightarrow> wb_ok b bs \<Longrightarrow> emits c v bs b'"
  "pack_all rawlen vs depth b = Inr b' \<Longrightarrow> \<forall>v \<in> set vs. wf_value c rawlen v \<Longrightarrow> wb_ok b bs \<Longrightarrow>
     \<exists>es ws. wb_ok b' (bs @ concat es) \<and> list_all2 (reads c) es ws \<and> list_all2 same_value vs ws"
proof (induction rawlen v depth b and rawlen vs depth b arbitrary: b' bs and b' bs rule: pack_one_pack_all.induct)
  case (1 rawlen v depth b)
  have depth: "\<not> depth > MAX_DEPTH" using 1(3) by (subst (asm) pack_one.simps) (simp split: if_splits)
  note body = 1(3) [unfolded pack_one.simps [of rawlen v], simplified depth if_False]
  show ?case
  proof (cases v)
    case LNil
    have "\<exists>e. appends wb_nil e \<and> reads c e LNil" using wb_nil_reads by blast
    then show ?thesis by (rule emitsI [OF _ 1(5)]) (use LNil body in simp_all)
  next
    case (LBoolean x)
    show ?thesis by (rule emitsI [OF wb_boolean_reads 1(5)]) (use LBoolean body in simp_all)
  next
    case (LNumber d)
    show ?thesis
    proof (cases "dbl_to_int32 d")
      case None
      show ?thesis by (rule emitsI [OF wb_number_reads [of d] 1(5)]) (use LNumber None body in simp_all)
    next
      case (Some x)
      have "same_value (LNumber d) (int_key (sint x))"
        using dbl_to_int32_Some(2) [OF Some] by (auto simp: int_key_def int_to_dbl_def dbl_zero_def dbl_exp_def dbl_frac_def)
      then show ?thesis using LNumber Some body by (intro emitsI [OF wb_integer_number 1(5)]) simp_all
    qed
  next
    case (LString s)
    then have "length s < 2 ^ 31" using 1(4) by (auto elim: wf_stringE)
    then show ?thesis by (rule emitsI [OF wb_string_reads 1(5)]) (use LString body in simp_all)
  next
    case (LUserdata p)
    show ?thesis by (rule emitsI [OF wb_pointer_reads 1(5)]) (use LUserdata body in simp_all)
  next
    case (LRemote h)
    show ?thesis by (rule emitsI [OF wb_integer_remote 1(5)]) (use LRemote body in simp_all)
  next
    case (LOther s)
    then show ?thesis using body by simp
  next
    case (LTable t)
    obtain b1 where b1: "pack_all rawlen (array_items (rawlen t) t) (depth + 1) (wb_table_size (rawlen t) b) = Inr b1"
      using body LTable by (auto split: sum.splits)
    obtain b2 where b2: "pack_all rawlen (hash_items (rawlen t) t) (depth + 1) b1 = Inr b2" "b' = wb_nil b2"
      using body LTable b1 by (auto split: sum.splits)
    note wf = 1(4) [unfolded LTable]
    show ?thesis
      unfolding LTable b2(2)
    proof (rule emits_table [OF wf 1(5)])
      show "\<exists>es ws. wb_ok b1 (bs @ concat es) \<and> list_all2 (reads c) es ws \<and> list_all2 same_value (array_items (rawlen t) t) ws"
        if "wb_ok (wb_table_size (rawlen t) b) bs" for bs
        using 1(1) [OF depth LTable b1 _ that] array_items_wf [OF wf] by blast
      show "\<exists>es ws. wb_ok b2 (bs @ concat es) \<and> list_all2 (reads c) es ws \<and> list_all2 same_value (hash_items (rawlen t) t) ws"
        if "wb_ok b1 bs" for bs
        using 1(2) [OF depth LTable b1 b2(1) _ that] hash_items_wf [OF wf] by blast
    qed
  qed
next
  case (2 rawlen depth b)
  then show ?case by (auto intro!: exI [of _ "[]"])
next
  case (3 rawlen v vs depth b)
  obtain b1 where b1: "pack_one rawlen v depth b = Inr b1" "pack_all rawlen vs depth b1 = Inr b'"
    using 3(3) by (auto split: sum.splits)
  obtain e w where e: "wb_ok b1 (bs @ e)" "reads c e w" "same_value v w"
    using 3(1) [OF b1(1) _ 3(5)] 3(4) unfolding emits_def by (metis list.set_intros(1))
  obtain es ws where "wb_ok b' ((bs @ e) @ concat es)" "list_all2 (reads c) es ws" "list_all2 same_value vs ws"
    using 3(2) [OF b1(1) b1(2) _ e(1)] 3(4) by auto
  then show ?case using e(2,3) by (intro exI [of _ "e # es"] exI [of _ "w # ws"]) simp
qed

section \<open>Whole messages\<close>

lemma unpack_all_reads:
  "list_all2 (reads c) es ws \<Longrightarrow> unpack_all c (concat es) = Some (Inr ws)"
proof (induction rule: list_all2_induct)
  case Nil
  then show ?case by (subst unpack_all.simps) simp
next
  case (Cons e es w ws)
  have u: "unpack c One (e @ concat es) = Some (Inr (w, concat es))" using Cons(1) by (simp add: reads_def)
  have "e @ concat es \<noteq> []"
  proof
    assume "e @ concat es = []"
    then have "e = []" "concat es = []" by simp_all
    then have "unpack c One [] = Some (Inr (w, []))" using u by (simp only: append_Nil)
    then show False using unpack_total [of c One "[]"] by (simp add: shrinks_def)
  qed
  then show ?case using u Cons.IH by (subst unpack_all.simps) simp
qed

text \<open>No function, thread or full userdata, and at most 32 levels of tables.\<close>

inductive packable :: "nat \<Rightarrow> lua_value \<Rightarrow> bool" where
  packable_table: "depth \<le> MAX_DEPTH \<Longrightarrow> (\<And>k v. (k, v) \<in> set t \<Longrightarrow> packable (depth + 1) k \<and> packable (depth + 1) v) \<Longrightarrow>
    packable depth (LTable t)"
| packable_other: "depth \<le> MAX_DEPTH \<Longrightarrow> \<nexists>t. v = LTable t \<Longrightarrow> \<nexists>s. v = LOther s \<Longrightarrow> packable depth v"

inductive_cases packable_tableE: "packable depth (LTable t)"
inductive_cases packable_otherE: "packable depth (LOther s)"

text \<open>What Lua promises of the length of a table: zero, or an index whose value is not nil.\<close>

definition border :: "(lua_table \<Rightarrow> nat) \<Rightarrow> bool" where
  "border rawlen \<longleftrightarrow> (\<forall>t. rawlen t = 0 \<or> raw_geti t (int (rawlen t)) \<noteq> LNil)"

lemma packable_depth: "packable depth v \<Longrightarrow> depth \<le> MAX_DEPTH"
  by (cases rule: packable.cases) auto

lemma array_items_packable:
  assumes "border rawlen" "packable depth (LTable t)" "v \<in> set (array_items (rawlen t) t)"
  shows "packable (depth + 1) v"
proof -
  obtain i where i: "v = raw_geti t i" using assms(3) by (auto simp: array_items_def)
  have "rawlen t \<noteq> 0" using assms(3) by (cases "rawlen t") (auto simp: array_items_def)
  then have "raw_geti t (int (rawlen t)) \<noteq> LNil" using assms(1) unfolding border_def by metis
  then obtain k u where "(k, u) \<in> set t" using raw_get_in unfolding raw_geti_def by metis
  then have "packable (depth + 1) k" using assms(2) by (auto elim: packable_tableE)
  then have d: "depth + 1 \<le> MAX_DEPTH" by (rule packable_depth)
  show ?thesis
  proof (cases "v = LNil")
    case True
    then show ?thesis using d by (auto intro: packable_other)
  next
    case False
    then obtain k where "(k, v) \<in> set t" using raw_get_in i unfolding raw_geti_def by metis
    then show ?thesis using assms(2) by (auto elim: packable_tableE)
  qed
qed

lemma hash_items_packable: "packable depth (LTable t) \<Longrightarrow> v \<in> set (hash_items n t) \<Longrightarrow> packable (depth + 1) v"
  by (auto simp: hash_items_def elim: packable_tableE)

lemma pack_succeeds:
  "border rawlen \<Longrightarrow> packable depth v \<Longrightarrow> \<exists>b'. pack_one rawlen v depth b = Inr b'"
  "border rawlen \<Longrightarrow> \<forall>v \<in> set vs. packable depth v \<Longrightarrow> \<exists>b'. pack_all rawlen vs depth b = Inr b'"
proof (induction rawlen v depth b and rawlen vs depth b rule: pack_one_pack_all.induct)
  case (1 rawlen v depth b)
  have depth: "\<not> depth > MAX_DEPTH" using packable_depth [OF 1(4)] by simp
  show ?case
  proof (cases v)
    case (LTable t)
    note p = 1(4) [unfolded LTable]
    obtain b1 where b1: "pack_all rawlen (array_items (rawlen t) t) (depth + 1) (wb_table_size (rawlen t) b) = Inr b1"
      using 1(1) [OF depth LTable 1(3)] array_items_packable [OF 1(3) p] by blast
    obtain b2 where "pack_all rawlen (hash_items (rawlen t) t) (depth + 1) b1 = Inr b2"
      using 1(2) [OF depth LTable b1 1(3)] hash_items_packable [OF p] by blast
    then show ?thesis using depth LTable b1 by (subst pack_one.simps) simp
  next
    case (LOther s)
    then show ?thesis using 1(4) by (auto elim: packable_otherE)
  qed (use depth in \<open>simp_all add: pack_one.simps\<close>)
next
  case (3 rawlen v vs depth b)
  obtain b1 where b1: "pack_one rawlen v depth b = Inr b1" using 3(1,3,4) by auto
  then show ?case using 3(2) [OF b1 3(3)] 3(4) by simp
qed simp

text \<open>Packed values, read back.\<close>

lemma seri_copies:
  assumes "border rawlen" "\<forall>v \<in> set vs. packable 0 v" "\<forall>v \<in> set vs. wf_value cached rawlen v"
  shows "\<exists>b. pack_all rawlen vs 0 wb_init = Inr b \<and>
    (wb_len b < 2 ^ 31 \<longrightarrow> (\<exists>bytes ws. luaseri_pack rawlen vs = Some (Inr bytes) \<and> length bytes + 4 = wb_len b \<and>
       unpack_all cached bytes = Some (Inr ws) \<and> list_all2 same_value vs ws))"
proof -
  obtain b where b: "pack_all rawlen vs 0 wb_init = Inr b"
    using pack_succeeds(2) [OF assms(1,2)] by blast
  obtain es ws where e: "wb_ok b (le_bytes 4 0 @ concat es)" "list_all2 (reads cached) es ws" "list_all2 same_value vs ws"
    using pack_reads(2) [OF b assms(3) wb_init_ok] by blast
  have len: "wb_len b = 4 + length (concat es)" using e(1) by (simp add: wb_ok_def)
  have "luaseri_pack rawlen vs = Some (Inr (concat es))" if "wb_len b < 2 ^ 31"
  proof -
    have "length (concat es) + 4 < 2 ^ 32" using that len by simp
    from seri_close [OF e(1) this] show ?thesis by (simp add: luaseri_pack_def b)
  qed
  then show ?thesis using b len unpack_all_reads [OF e(2)] e(3) by auto
qed

text \<open>
  C23: Values that can be packed are packed without an error; as long as the bytes fit into an \<open>int\<close>, the
  buffer copies out completely and reading gives copies of all values, in order, and nothing else.
\<close>

theorem seri_roundtrip:
  assumes "border rawlen" "\<forall>v \<in> set vs. packable 0 v" "\<forall>v \<in> set vs. wf_value cached rawlen v"
  shows "\<exists>b. pack_all rawlen vs 0 wb_init = Inr b \<and>
    (wb_len b < 2 ^ 31 \<longrightarrow> (\<exists>bytes ws. luaseri_pack rawlen vs = Some (Inr bytes) \<and> length bytes + 4 = wb_len b \<and>
       unpack_all cached bytes = Some (Inr ws) \<and> list_all2 same_value vs ws))"
  using assms by (rule seri_copies)

end
