(* ===== verification/SeriTyped.thy ===== *)
theory SeriTyped
  imports SeriTrip
begin

text \<open>
  What the reader makes of arbitrary bytes: only values that Lua allows.  And the serializer on concrete
  values, where it works and where it does not.
\<close>

section \<open>Values that were read\<close>

inductive lua_ok :: "(i32 \<Rightarrow> bool) \<Rightarrow> lua_value \<Rightarrow> bool" for cached where
  ok_table: "(\<And>k v. (k, v) \<in> set t \<Longrightarrow> lua_ok cached k \<and> lua_ok cached v \<and> k \<noteq> LNil \<and> \<not> bad_key k \<and> v \<noteq> LNil) \<Longrightarrow>
    distinct_keys cached t \<Longrightarrow> lua_ok cached (LTable t)"
| ok_other: "\<nexists>t. v = LTable t \<Longrightarrow> lua_ok cached v"

inductive_cases ok_tableE: "lua_ok cached (LTable t)"

lemma raw_set_keys: "(k', v') \<in> set (raw_set c k v t) \<Longrightarrow> v' \<noteq> LNil \<and> v' = v \<and> (k' = k \<or> k' \<in> fst ` set t) \<or> (k', v') \<in> set t"
  by (induction t) (force split: if_splits)+

lemma raw_set_distinct: "distinct_keys c t \<Longrightarrow> distinct_keys c (raw_set c k v t)"
proof (induction t)
  case (Cons kv t)
  obtain k1 v1 where kv: "kv = (k1, v1)" by (cases kv)
  show ?case
  proof (cases "key_eq c k1 k")
    case True
    then show ?thesis using Cons.prems by (auto simp: kv distinct_keys_def)
  next
    case False
    have "\<not> key_eq c k1 k'" if "(k', v') \<in> set (raw_set c k v t)" for k' v'
      using raw_set_keys [OF that] False Cons.prems by (force simp: kv distinct_keys_def)
    then show ?thesis using Cons False by (auto simp: kv distinct_keys_def)
  qed
qed (simp add: distinct_keys_def)

lemma raw_set_ok:
  assumes "lua_ok c (LTable t)" "lua_ok c k" "lua_ok c v" "k \<noteq> LNil" "\<not> bad_key k"
  shows "lua_ok c (LTable (raw_set c k v t))"
proof (rule ok_table)
  show "distinct_keys c (raw_set c k v t)"
    using assms(1) by (auto elim: ok_tableE intro: raw_set_distinct)
  fix k' v'
  assume "(k', v') \<in> set (raw_set c k v t)"
  from raw_set_keys [OF this] show "lua_ok c k' \<and> lua_ok c v' \<and> k' \<noteq> LNil \<and> \<not> bad_key k' \<and> v' \<noteq> LNil"
    using assms by (auto elim!: ok_tableE)
qed

lemma push_simple_ok: "push_simple ty cookie s = Inr (v, s') \<Longrightarrow> lua_ok c v"
  by (rule ok_other) (auto simp: push_simple_def get_buffer_def map_sum_Inr split: if_splits sum.splits option.splits)

lemma int_key_ok: "lua_ok c (int_key i)"
  by (rule ok_other) (simp add: int_key_def)

fun task_ok :: "(i32 \<Rightarrow> bool) \<Rightarrow> task \<Rightarrow> bool" where
  "task_ok c One = True"
| "task_ok c (Items i n t) = (lua_ok c (LTable t) \<and> 0 < i \<and> n < 2 ^ 31)"
| "task_ok c (Pairs t) = lua_ok c (LTable t)"

lemma table_size_less: "table_size cookie s = Inr (n, s') \<Longrightarrow> n < 2 ^ 31"
proof -
  have "uint cookie < 2 ^ 31" using unsigned_less [of cookie, where ?'a = int] by simp
  moreover assume "table_size cookie s = Inr (n, s')"
  ultimately show ?thesis
    using sint_i32(3) by (auto simp: table_size_def split: if_splits option.splits sum.splits)
qed

lemma unpack_ok:
  "unpack c task s = Some r \<Longrightarrow> task_ok c task \<longrightarrow> (\<forall>v s'. r = Inr (v, s') \<longrightarrow> lua_ok c v)"
proof (induction rule: unpack.raw_induct [rotated 1, consumes 1])
  case (1 f c task s r)
  note IH = 1(1) and body = 1(2)
  show ?case
  proof (intro impI allI)
    fix v s'
    assume ok: "task_ok c task" and r: "r = Inr (v, s')"
    show "lua_ok c v"
    proof (cases task)
      case One
      obtain t s1 where t: "rb_read 1 s = Some (t, s1)" using body r One by (auto split: option.splits)
      show ?thesis
      proof (cases "hd t AND 7 = TYPE_TABLE")
        case True
        obtain n s2 where n: "table_size (drop_bit 3 (hd t)) s1 = Inr (n, s2)" "f c (Items 1 n []) s2 = Some r"
          using body r One t True by (auto split: sum.splits)
        have "lua_ok c (LTable [])" by (rule ok_table) (simp_all add: distinct_keys_def)
        then show ?thesis using IH [OF n(2)] r table_size_less [OF n(1)] by simp
      next
        case False
        then have "push_simple (hd t AND 7) (drop_bit 3 (hd t)) s1 = Inr (v, s')" using body r One t by simp
        then show ?thesis by (rule push_simple_ok)
      qed
    next
      case (Items i n t)
      show ?thesis
      proof (cases "i \<le> n")
        case True
        obtain y where y: "f c One s = Some y"
            "(case y of Inl e \<Rightarrow> Some (Inl e) | Inr (v, s) \<Rightarrow> f c (Items (i + 1) n (raw_set c (int_key i) v t)) s) = Some r"
          using body Items True by (auto simp: Option.bind_eq_Some_conv)
        then obtain w s1 where w: "f c One s = Some (Inr (w, s1))" "f c (Items (i + 1) n (raw_set c (int_key i) w t)) s1 = Some r"
          using r by (cases y) auto
        have i: "\<bar>i\<bar> < 2 ^ 32" using ok Items True by auto
        have "lua_ok c w" using IH [OF w(1)] by simp
        then have "lua_ok c (LTable (raw_set c (int_key i) w t))"
          using ok Items int_to_dbl_not_nan [OF i]
          by (intro raw_set_ok int_key_ok) (auto simp: int_key_def bad_key_def)
        then show ?thesis using IH [OF w(2)] r ok Items by simp
      next
        case False
        then have p: "f c (Pairs t) s = Some r" using body Items by simp
        show ?thesis using IH [OF p] ok Items r by simp
      qed
    next
      case (Pairs t)
      obtain y where y: "f c One s = Some y" using body Pairs by (auto simp: Option.bind_eq_Some_conv)
      then obtain k s1 where k: "f c One s = Some (Inr (k, s1))" using body r Pairs by (cases y) auto
      show ?thesis
      proof (cases "k = LNil")
        case True
        then show ?thesis using body r Pairs k ok by simp
      next
        case False
        obtain y1 where y1: "f c One s1 = Some y1"
          using body r Pairs k False by (auto simp: Option.bind_eq_Some_conv)
        then obtain w s2 where w: "f c One s1 = Some (Inr (w, s2))" "\<not> bad_key k" "f c (Pairs (raw_set c k w t)) s2 = Some r"
          using body r Pairs k False by (cases y1) (auto split: if_splits)
        have "lua_ok c k" "lua_ok c w" using IH [OF k] IH [OF w(1)] by simp_all
        then have "lua_ok c (LTable (raw_set c k w t))" using ok Pairs False w(2) by (intro raw_set_ok) simp_all
        then show ?thesis using IH [OF w(3)] r by simp
      qed
    qed
  qed
qed


section \<open>Examples\<close>

text \<open>A length as Lua could compute it: the elements before the first hole.\<close>

definition demo_len :: "lua_table \<Rightarrow> nat" where
  "demo_len t = length (takeWhile (\<lambda>i. raw_geti t i \<noteq> LNil) [1..int (length t)])"

lemma demo_len_border: "border demo_len"
proof -
  have "raw_geti t (int (demo_len t)) \<noteq> LNil" if n: "demo_len t \<noteq> 0" for t
  proof -
    let ?xs = "takeWhile (\<lambda>i. raw_geti t i \<noteq> LNil) [1..int (length t)]"
    have l: "demo_len t - 1 < length ?xs" using n by (simp add: demo_len_def)
    then have "?xs ! (demo_len t - 1) \<in> set ?xs" by (rule nth_mem)
    then have "raw_geti t (?xs ! (demo_len t - 1)) \<noteq> LNil" by (auto dest: set_takeWhileD)
    moreover have "demo_len t - 1 < length [1..int (length t)]"
      using l length_takeWhile_le [of "\<lambda>i. raw_geti t i \<noteq> LNil" "[1..int (length t)]"] by linarith
    then have "?xs ! (demo_len t - 1) = int (demo_len t)"
      using l n by (simp add: takeWhile_nth)
    ultimately show ?thesis by simp
  qed
  then show ?thesis unfolding border_def by blast
qed

text \<open>A string, a table with two elements and a field, the number 1.5, and an object of another service.\<close>

definition demo_table :: lua_table where
  "demo_table = [(int_key 1, LBoolean True), (LString [120, 121], LTable []), (int_key 2, LNumber 0x3FF8000000000000)]"

definition demo_values :: "lua_value list" where
  "demo_values = [LString [104, 105], LTable demo_table, LNumber 0x3FF8000000000000, LRemote 7]"

lemma demo_values_ok:
  "\<forall>v \<in> set demo_values. packable 0 v"
  "\<forall>v \<in> set demo_values. wf_value (\<lambda>_. False) demo_len v"
proof -
  have p: "packable d (LBoolean x)" "packable d (LNumber y)" "packable d (LString z)" "packable d (LRemote h)"
    if "d \<le> 32" for d x y z h
    using that by (auto intro!: packable_other simp: MAX_DEPTH_def)
  have "packable 1 (LTable [])" by (rule packable_table) (simp_all add: MAX_DEPTH_def)
  then have "packable 0 (LTable demo_table)"
    by (intro packable_table) (auto simp: demo_table_def int_key_def p)
  then show "\<forall>v \<in> set demo_values. packable 0 v" by (simp add: demo_values_def p)
  have k: "\<not> bad_key (int_key 1)" "\<not> bad_key (int_key 2)" "\<not> key_eq c (int_key 1) (int_key 2)" for c
    by (simp_all add: int_key_eq) (simp_all add: int_key_def bad_key_def int_to_dbl_not_nan)
  have "wf_value (\<lambda>_. False) demo_len (LTable [])"
    by (rule wf_table) (simp_all add: distinct_keys_def demo_len_def)
  moreover have "demo_len demo_table < 2 ^ 31"
    using length_takeWhile_le [of _ "[1..int (length demo_table)]"] unfolding demo_len_def
    by (rule le_less_trans) (simp add: demo_table_def)
  ultimately have "wf_value (\<lambda>_. False) demo_len (LTable demo_table)"
    using k by (intro wf_table)
      (auto simp: demo_table_def distinct_keys_def bad_key_def int_key_def intro: wf_value.intros)
  then show "\<forall>v \<in> set demo_values. wf_value (\<lambda>_. False) demo_len v"
    by (auto simp: demo_values_def intro: wf_value.intros)
qed

lemma wb_push_len:
  "wb_ptr b \<le> BLOCK_SIZE \<Longrightarrow> wb_len (wb_push e b) = wb_len b + length e"
  "wb_ptr b \<le> BLOCK_SIZE \<Longrightarrow> wb_ptr (wb_push e b) \<le> BLOCK_SIZE"
proof -
  have "wb_ptr b \<le> BLOCK_SIZE \<Longrightarrow> wb_len (wb_fill e b) = wb_len b + length e \<and> wb_ptr (wb_fill e b) \<le> BLOCK_SIZE" for b
  proof (induction e b rule: wb_fill.induct)
    case (1 e b)
    then show ?case
      by (subst (1 2) wb_fill.simps) (auto simp: Let_def next_block_def put_bytes_def)
  qed
  then show "wb_ptr b \<le> BLOCK_SIZE \<Longrightarrow> wb_len (wb_push e b) = wb_len b + length e"
    "wb_ptr b \<le> BLOCK_SIZE \<Longrightarrow> wb_ptr (wb_push e b) \<le> BLOCK_SIZE"
    by (simp_all add: wb_push_def next_block_def)
qed

lemma seri_roundtrip_witness:
  "\<exists>bytes ws. luaseri_pack demo_len demo_values = Some (Inr bytes) \<and>
     unpack_all (\<lambda>_. False) bytes = Some (Inr ws) \<and> list_all2 same_value demo_values ws"
proof -
  obtain b where b: "pack_all demo_len demo_values 0 wb_init = Inr b"
      "wb_len b < 2 ^ 31 \<longrightarrow> (\<exists>bytes ws. luaseri_pack demo_len demo_values = Some (Inr bytes) \<and> length bytes + 4 = wb_len b \<and>
       unpack_all (\<lambda>_. False) bytes = Some (Inr ws) \<and> list_all2 same_value demo_values ws)"
    using seri_roundtrip [OF demo_len_border demo_values_ok] by blast
  have ints: "key_eq c (LString x) (int_key i) = False" "LString x \<noteq> int_key i" for c x i by (simp_all add: int_key_def)
  have l: "demo_len demo_table = 2" "demo_len [] = 0"
    by (simp_all add: demo_len_def demo_table_def raw_geti_def raw_get_def int_key_eq ints upto_rec1)
  have a: "array_items 2 demo_table = [LBoolean True, LNumber 0x3FF8000000000000]"
    by (simp add: array_items_def demo_table_def raw_geti_def raw_get_def int_key_eq ints upt_rec)
  have i: "in_array 2 (int_key 1)" "in_array 2 (int_key 2)"
    by (simp_all add: in_array_int_key) (metis zero_less_one one_le_numeral, metis order_refl zero_less_numeral)
  have h: "hash_items 2 demo_table = [LString [120, 121], LTable []]"
    by (simp add: hash_items_def demo_table_def i) (simp add: in_array_def)
  have e: "array_items 0 [] = []" "hash_items n [] = []" for n by (simp_all add: array_items_def hash_items_def)
  have x: "dbl_to_int32 0x3FF8000000000000 = None"
    by (simp add: dbl_to_int32_def dbl_to_int_def dbl_exp_def dbl_frac_def Let_def)
  have "wb_ok wb_init (le_bytes 4 0)" by (rule wb_init_ok)
  then have "wb_len wb_init = 4" "wb_ptr wb_init \<le> BLOCK_SIZE" by (simp_all add: wb_ok_def)
  then have "wb_len b < 2 ^ 31"
    using b(1) by (auto simp: demo_values_def pack_one.simps l a h x MAX_DEPTH_def wb_table_size_def MAX_COOKIE_def
        wb_string_def wb_nil_def wb_boolean_def wb_number_def wb_integer_def Let_def e wb_push_len)
  then show ?thesis using b(2) by auto
qed


text \<open>A string that is cut off: \<open>_get_buffer\<close> passes a null pointer on.\<close>

lemma cut_string_undefined: "unpack_all cached [0x2c, 104, 105] = Some (Inl Undefined)"
  by (simp add: unpack_all.simps unpack.simps rb_read_def push_simple_def get_buffer_def type_defs)

text \<open>A long string with a length of \<open>2 ^ 31\<close> or more has a negative length.\<close>

lemma negative_string_undefined: "unpack_all cached [0x25, 0, 0, 0, 0x80] = Some (Inl Undefined)"
  by (simp add: unpack_all.simps unpack.simps rb_read_def push_simple_def get_buffer_def type_defs read_val_def)

end
