(* ===== verification/Liveness.thy ===== *)
theory Liveness
  imports Scheduler
begin

text \<open>
  Progress of the scheduler.  Left to themselves - no new message is sent, nobody exits, no callback
  takes the lock - the worker threads finish: every step uses up some of a finite amount of work, and
  a state in which no step is possible has no message waiting, except at a service that waits for
  the response it has locked itself for.
\<close>

section \<open>Worker steps and the work they have to do\<close>

text \<open>The actions that finish what is under way.\<close>

fun finishing :: "'d action \<Rightarrow> bool" where
  "finishing (CreateDone p) = True"
| "finishing (Launch p) = True"
| "finishing Fetch = True"
| "finishing (Grab p) = True"
| "finishing (Pop p) = True"
| "finishing (Return p) = True"
| "finishing (PushGlobal p) = True"
| "finishing (Leave p) = True"
| "finishing (SendPush p m) = True"
| "finishing (SendDone p) = True"
| "finishing _ = False"

inductive worker_step :: "'d sched \<Rightarrow> 'd sched \<Rightarrow> bool" where
  work: "finishing a \<Longrightarrow> enabled a s \<Longrightarrow> lawful a s \<Longrightarrow> sched_do a s = Some t \<Longrightarrow> worker_step s t"

inductive_cases worker_stepE: "worker_step s t"

text \<open>Every service is in the handle table: none has exited.\<close>

definition all_registered :: "'d sched \<Rightarrow> bool" where
  "all_registered s \<longleftrightarrow> (\<forall>p. s_mq s p \<noteq> None \<longrightarrow> s_reg s p)"

text \<open>
  The steps a message, a queue in the global queue and an activity still cause.  A message that is
  popped turns the \<open>Grabbed\<close> activity of its worker into \<open>Running\<close>; the queue goes back into the
  global queue after it.
\<close>

fun cost :: "'d activity \<Rightarrow> nat" where
  "cost (Creating p) = 8"
| "cost (Launching p) = 7"
| "cost (Fetched p) = 5"
| "cost (Grabbed p) = 4"
| "cost (Running p) = 8"
| "cost (Finishing p) = 7"
| "cost (Leaving p) = 1"
| "cost (Sending p m) = 18"
| "cost (Sent p) = 1"

definition waiting :: "'d sched \<Rightarrow> nat" where
  "waiting s = (\<Sum>p | s_mq s p \<noteq> None. length (mq_contents (the (s_mq s p))))"

definition remaining :: "'d sched \<Rightarrow> nat" where
  "remaining s = 10 * waiting s + 6 * length (gq_contents (s_gq s)) + sum_mset (image_mset cost (s_acts s))"

definition settled :: "'d sched \<Rightarrow> bool" where
  "settled s \<longleftrightarrow> s_acts s = {#} \<and> gq_contents (s_gq s) = [] \<and>
     (\<forall>p q. s_mq s p = Some q \<longrightarrow> mq_contents q = [] \<or> mq_in_global q = MQ_LOCKED \<and> mq_lock_session q \<noteq> 0)"

section \<open>Every step uses up work\<close>

lemma cost_become:
  assumes "x \<in># s_acts s"
  shows "sum_mset (image_mset cost (s_acts (become x ys s))) + cost x =
    sum_mset (image_mset cost (s_acts s)) + sum_mset (image_mset cost ys)"
  using multi_member_split [OF assms] by (auto simp: become_def)

lemma waiting_update:
  assumes "finite {p. s_mq s p \<noteq> None}" "s_mq s p = Some q" "s_mq t = (s_mq s)(p := Some q')"
  shows "waiting t + length (mq_contents q) = waiting s + length (mq_contents q')"
proof -
  define D where "D = {p. s_mq s p \<noteq> None}"
  have D: "finite D" "p \<in> D" "{p. s_mq t p \<noteq> None} = D" using assms by (auto simp: D_def)
  have "(\<Sum>x \<in> D - {p}. length (mq_contents (the (s_mq t x)))) = (\<Sum>x \<in> D - {p}. length (mq_contents (the (s_mq s x))))"
    using assms(3) by (intro sum.cong) auto
  moreover have "the (s_mq t p) = q'" "the (s_mq s p) = q" using assms(2,3) by simp_all
  ultimately show ?thesis
    unfolding waiting_def D(3) D_def [symmetric] by (simp add: sum.remove [OF D(1,2)])
qed

lemma waiting_same: "s_mq t = s_mq s \<Longrightarrow> waiting t = waiting s"
  by (simp add: waiting_def)

lemma gq_push_length: "gq_ok g \<Longrightarrow> length (gq_contents (skynet_globalmq_push p g)) \<le> Suc (length (gq_contents g))"
  unfolding length_gq_contents
  by (rule eq_refl, rule gq_len_Suc_tail) (simp_all add: gq_ok_def skynet_globalmq_push_def Let_def)

lemma push_length:
  assumes "skynet_mq_push p m (g, q) = Some (g', q')" "mq_ok q"
  shows "length (mq_contents q') = Suc (length (mq_contents q))" "g' = g \<or> g' = skynet_globalmq_push p g"
proof -
  note l = mq_store_contents [OF assms(2), of m] pushhead_store_contents [OF assms(2), of m]
  show "length (mq_contents q') = Suc (length (mq_contents q))"
    using assms(1) l by (auto simp: skynet_mq_push_def pushhead_def Let_def split: if_splits)
  show "g' = g \<or> g' = skynet_globalmq_push p g"
    using assms(1) by (auto simp: skynet_mq_push_def pushhead_def Let_def split: if_splits)
qed

lemma registered_ref:
  assumes "sched_inv s" "all_registered s" "x \<in># s_acts s" "ref_of x = Some p"
  shows "1 < s_ref s p"
proof -
  obtain q where q: "s_mq s p = Some q" "queue_inv s p q"
    using act_queue [OF assms(1,3), of p] assms(4) by blast
  moreover have "0 < held (\<lambda>x. ref_of x = Some p) s" using assms(3,4) by (intro held_pos)
  ultimately show ?thesis using assms(2) by (auto simp: queue_inv_def refs_def all_registered_def)
qed

lemma release_step:
  assumes "sched_inv s" "all_registered s" "x \<in># s_acts s" "ref_of x = Some p"
    and "release_ref p (become x ys s) = Some t" "sum_mset (image_mset cost ys) < cost x"
  shows "remaining t < remaining s \<and> all_registered t"
proof -
  have "s_ref s p \<noteq> 1" using registered_ref [OF assms(1-4)] by simp
  then have t: "t = (become x ys s)\<lparr>s_ref := (s_ref s)(p := s_ref s p - 1)\<rparr>"
    using assms(5) unfolding release_ref_def become_simps by (simp only: if_False option.inject)
  then have "waiting t = waiting s" by (intro waiting_same) simp
  then show ?thesis
    using cost_become [OF assms(3), of ys] assms(2,6) by (simp add: t remaining_def all_registered_def)
qed

text \<open>An operation on a queue that may put it into the global queue.\<close>

lemma queue_step:
  assumes inv: "sched_inv s" and reg: "all_registered s" and x: "x \<in># s_acts s" and q: "s_mq s p = Some q"
    and t: "t = become x ys (s\<lparr>s_gq := g, s_mq := (s_mq s)(p := Some q')\<rparr>)"
    and less: "10 * length (mq_contents q') + 6 * length (gq_contents g) + sum_mset (image_mset cost ys)
      < 10 * length (mq_contents q) + 6 * length (gq_contents (s_gq s)) + cost x"
  shows "remaining t < remaining s \<and> all_registered t"
proof -
  have "waiting t + length (mq_contents q) = waiting s + length (mq_contents q')"
    using sched_invD(3) [OF inv] q by (intro waiting_update) (simp_all add: t)
  moreover have "sum_mset (image_mset cost (s_acts t)) + cost x =
      sum_mset (image_mset cost (s_acts s)) + sum_mset (image_mset cost ys)"
    using cost_become [OF x, of ys] by (simp add: t become_def)
  moreover have "all_registered t" using reg q by (simp add: t all_registered_def)
  ultimately show ?thesis using less by (simp add: remaining_def t)
qed


lemma worker_decreases:
  assumes inv: "sched_inv s" and reg: "all_registered s"
    and a: "finishing a" "enabled a s" "sched_do a s = Some t"
  shows "remaining t < remaining s \<and> all_registered t"
proof (cases a)
  case (CreateDone p)
  then show ?thesis using a by (intro release_step [OF inv reg, of "Creating p" p "{#Launching p#}"]) auto
next
  case (Return p)
  then show ?thesis using a by (intro release_step [OF inv reg, of "Running p" p "{#Finishing p#}"]) auto
next
  case (Leave p)
  then show ?thesis using a by (intro release_step [OF inv reg, of "Leaving p" p "{#}"]) auto
next
  case (SendDone p)
  then show ?thesis using a by (intro release_step [OF inv reg, of "Sent p" p "{#}"]) auto
next
  case (Launch p)
  then have x: "Launching p \<in># s_acts s" using a by simp
  obtain q where q: "s_mq s p = Some q" using act_queue [OF inv x, of p] by auto
  have t: "t = become (Launching p) {#} (s\<lparr>s_gq := skynet_globalmq_push p (s_gq s), s_mq := (s_mq s)(p := Some q)\<rparr>)"
    using a(3) q Launch by (auto simp: on_mq_def skynet_mq_force_push_def become_def)
  show ?thesis
    using gq_push_length [OF sched_invD(2) [OF inv], of p] by (intro queue_step [OF inv reg x q t]) simp
next
  case Fetch
  obtain p ps where gq: "gq_contents (s_gq s) = p # ps"
    using a(2) Fetch gq_pop_empty [OF sched_invD(2) [OF inv]] by (cases "gq_contents (s_gq s)") auto
  obtain g where g: "skynet_globalmq_pop (s_gq s) = (Some p, g)" "gq_contents g = ps"
    using gq_pop_nonempty [OF sched_invD(2) [OF inv] gq] by (cases "skynet_globalmq_pop (s_gq s)") auto
  then have t: "t = s\<lparr>s_gq := g, s_acts := add_mset (Fetched p) (s_acts s)\<rparr>" using a(3) Fetch by simp
  then have "waiting t = waiting s" by (intro waiting_same) simp
  then show ?thesis using reg gq g(2) by (simp add: t remaining_def all_registered_def)
next
  case (Grab p)
  then have x: "Fetched p \<in># s_acts s" using a by simp
  have t: "t = become (Fetched p) {#Grabbed p#} (s\<lparr>s_ref := (s_ref s)(p := s_ref s p + 1)\<rparr>)" using a(3) Grab by simp
  then have "waiting t = waiting s" "s_acts t = s_acts (become (Fetched p) {#Grabbed p#} s)"
    by (auto intro!: waiting_same simp: become_def)
  then show ?thesis
    using cost_become [OF x, of "{#Grabbed p#}"] reg t by (simp add: remaining_def all_registered_def)
next
  case (Pop p)
  then have x: "Grabbed p \<in># s_acts s" using a by simp
  obtain q where q: "s_mq s p = Some q" "queue_inv s p q" using act_queue [OF inv x, of p] by auto
  then have ok: "mq_ok q" by (simp add: queue_inv_def queue_core_def)
  have t: "t = become (Grabbed p) ys (s\<lparr>s_gq := s_gq s, s_mq := (s_mq s)(p := Some q')\<rparr>)"
    if "skynet_mq_pop q = (r, m, q')" "ys = (if r = 0 then {#Running p#} else {#Leaving p#})" for r m q' ys
    using a(3) q(1) Pop that by simp
  show ?thesis
  proof (cases "mq_contents q")
    case Nil
    show ?thesis
      using mq_pop_empty [OF ok Nil] Nil by (intro queue_step [OF inv reg x q(1) t]) auto
  next
    case (Cons m ms)
    obtain q' where "skynet_mq_pop q = (0, Some m, q')" "mq_contents q' = ms"
      using mq_pop_nonempty [OF ok Cons] by metis
    then show ?thesis using Cons by (intro queue_step [OF inv reg x q(1) t]) auto
  qed
next
  case (PushGlobal p)
  then have x: "Finishing p \<in># s_acts s" using a by simp
  obtain q where q: "s_mq s p = Some q" using act_queue [OF inv x, of p] by auto
  obtain g q' where g: "skynet_mq_pushglobal p (s_gq s, q) = Some (g, q')"
    using a(3) q PushGlobal by (auto simp: on_mq_def become_def bind_eq_Some_conv)
  then have t: "t = become (Finishing p) {#} (s\<lparr>s_gq := g, s_mq := (s_mq s)(p := Some q')\<rparr>)"
    using a(3) q PushGlobal by (auto simp: on_mq_def become_def)
  have "(g = s_gq s \<or> g = skynet_globalmq_push p (s_gq s)) \<and> mq_contents q' = mq_contents q"
    using g by (auto simp: skynet_mq_pushglobal_def Let_def split: if_splits)
  then show ?thesis
    using gq_push_length [OF sched_invD(2) [OF inv], of p] by (intro queue_step [OF inv reg x q t]) auto
next
  case (SendPush p m)
  then have x: "Sending p m \<in># s_acts s" using a by simp
  obtain q where q: "s_mq s p = Some q" "queue_inv s p q" using act_queue [OF inv x, of p] by auto
  then have ok: "mq_ok q" by (simp add: queue_inv_def queue_core_def)
  obtain g q' where g: "skynet_mq_push p m (s_gq s, q) = Some (g, q')"
    using a(3) q SendPush by (auto simp: on_mq_def become_def bind_eq_Some_conv)
  then have t: "t = become (Sending p m) {#Sent p#} (s\<lparr>s_gq := g, s_mq := (s_mq s)(p := Some q')\<rparr>)"
    using a(3) q SendPush by (auto simp: on_mq_def become_def)
  show ?thesis
    using push_length [OF g ok] gq_push_length [OF sched_invD(2) [OF inv], of p]
    by (intro queue_step [OF inv reg x q(1) t]) auto
qed (use a in simp_all)

section \<open>A state without a worker step\<close>

lemma finishing_lawful:
  assumes inv: "sched_inv s" and reg: "all_registered s" and a: "finishing a" "enabled a s"
  shows "lawful a s"
proof (cases "drops a")
  case (Some p)
  then obtain x where "x \<in># s_acts s" "ref_of x = Some p"
    using a by (cases a) auto
  from registered_ref [OF inv reg this] show ?thesis by (simp add: lawful_def Some split: option.split)
qed (simp add: lawful_def)

lemma worker_step_iff:
  assumes "sched_inv s" "all_registered s"
  shows "(\<exists>t. worker_step s t) \<longleftrightarrow> (\<exists>a. finishing a \<and> enabled a s)"
proof
  assume "\<exists>a. finishing a \<and> enabled a s"
  then obtain a where a: "finishing a" "enabled a s" by blast
  then have law: "lawful a s" using finishing_lawful [OF assms] by blast
  have "\<forall>p n. a \<noteq> Lock p n" using a(1) by auto
  then show "\<exists>t. worker_step s t" using sched_progress [OF assms(1) a(2) law] worker_step.work [OF a law] by blast
qed (auto elim: worker_stepE)

text \<open>Whatever is under way has a next step.\<close>

lemma activity_enabled:
  assumes "sched_inv s" "all_registered s" "x \<in># s_acts s"
  shows "\<exists>a. finishing a \<and> enabled a s"
proof (cases x)
  case (Creating p)
  then show ?thesis using assms(3) by (intro exI [of _ "CreateDone p"]) simp
next
  case (Launching p)
  then show ?thesis using assms(3) by (intro exI [of _ "Launch p"]) simp
next
  case (Fetched p)
  then obtain q where "s_mq s p = Some q" using act_queue [OF assms(1,3), of p] by auto
  then show ?thesis using assms(2,3) Fetched by (intro exI [of _ "Grab p"]) (simp add: all_registered_def)
next
  case (Grabbed p)
  then show ?thesis using assms(3) by (intro exI [of _ "Pop p"]) simp
next
  case (Running p)
  then show ?thesis using assms(3) by (intro exI [of _ "Return p"]) simp
next
  case (Finishing p)
  then show ?thesis using assms(3) by (intro exI [of _ "PushGlobal p"]) simp
next
  case (Leaving p)
  then show ?thesis using assms(3) by (intro exI [of _ "Leave p"]) simp
next
  case (Sending p m)
  then show ?thesis using assms(3) by (intro exI [of _ "SendPush p m"]) simp
next
  case (Sent p)
  then show ?thesis using assms(3) by (intro exI [of _ "SendDone p"]) simp
qed

lemma stuck_settled:
  assumes inv: "sched_inv s" and reg: "all_registered s" and stuck: "\<nexists>t. worker_step s t"
  shows "settled s"
proof -
  have no: "\<not> enabled a s" if "finishing a" for a using stuck that worker_step_iff [OF inv reg] by blast
  have acts: "s_acts s = {#}" using activity_enabled [OF inv reg] no by (metis multiset_nonemptyE)
  have "fst (skynet_globalmq_pop (s_gq s)) = None" using no [of Fetch] by simp
  then have gq: "gq_contents (s_gq s) = []"
    using gq_pop_nonempty [OF sched_invD(2) [OF inv]] by (cases "gq_contents (s_gq s)") auto
  have "mq_contents q = [] \<or> mq_in_global q = MQ_LOCKED \<and> mq_lock_session q \<noteq> 0" if q: "s_mq s p = Some q" for p q
  proof -
    have core: "queue_core s p q" using sched_inv_queue [OF inv q] by (simp add: queue_inv_def)
    have "tokens s p = 0" "busy s p = 0" using acts gq by (simp_all add: count_defs)
    then show ?thesis using core unfolding queue_core_def MQ_LOCKED_def by (metis le_antisym less_numeral_extra(3) not_less_eq_eq zero_neq_one le_SucE numeral_3_eq_3 One_nat_def Suc_1 le_zero_eq numeral_2_eq_2)
  qed
  then show ?thesis using acts gq by (simp add: settled_def)
qed

section \<open>The workers finish\<close>

lemma worker_step_ok:
  assumes "worker_step s t" "sched_inv s" "all_registered s"
  shows "sched_inv t" "all_registered t" "remaining t < remaining s"
proof -
  obtain a where a: "finishing a" "enabled a s" "lawful a s" "sched_do a s = Some t"
    using assms(1) by (auto elim: worker_stepE)
  then have "sched_step s t" by (auto intro: sched_step.act)
  then show "sched_inv t" by (rule sched_step_inv) (rule assms(2))
  show "all_registered t" "remaining t < remaining s"
    using worker_decreases [OF assms(2,3) a(1,2,4)] by simp_all
qed

lemma worker_steps_ok:
  "worker_step\<^sup>*\<^sup>* s t \<Longrightarrow> sched_inv s \<Longrightarrow> all_registered s \<Longrightarrow> sched_inv t \<and> all_registered t"
  by (induction rule: rtranclp_induct) (auto dest: worker_step_ok)



end
