(* ===== verification/Varint.thy ===== *)
theory Varint
  imports Prelude
begin

text \<open>
  \<open>lua-protobuf/varint.c\<close>: numbers as groups of seven bits, the low ones first, the top bit of a byte
  set when more follow; and the zigzag encoding of signed numbers.  A write is the list of the bytes
  written, its length the result of the function.

  The shift \<open>(buffer[i] & 0x7f) << (7*(i-4))\<close> of the decoder is one of an \<open>int\<close>: it is undefined
  when the count reaches 32 or the result is no \<open>int\<close>, and so is then the result of the model.
\<close>

section \<open>Encoding\<close>

definition encode32 :: "u32 \<Rightarrow> u8 list" where
  "encode32 number =
     (if number < 0x80 then [ucast number]
      else let b0 = ucast (number OR 0x80) in
      if number < 0x4000 then [b0, ucast (drop_bit 7 number)]
      else let b1 = ucast (drop_bit 7 number OR 0x80) in
      if number < 0x200000 then [b0, b1, ucast (drop_bit 14 number)]
      else let b2 = ucast (drop_bit 14 number OR 0x80) in
      if number < 0x10000000 then [b0, b1, b2, ucast (drop_bit 21 number)]
      else [b0, b1, b2, ucast (drop_bit 21 number OR 0x80), ucast (drop_bit 28 number)])"

text \<open>The loop runs at least once.\<close>

function encode_loop :: "u64 \<Rightarrow> u8 list" where
  "encode_loop number =
     (let b = ucast (number OR 0x80); number = drop_bit 7 number
      in if 0x80 \<le> number then b # encode_loop number else [b, ucast number])"
  by pat_completeness auto
termination encode_loop
proof (relation "measure unat")
  fix number number' :: u64
  assume "number' = drop_bit 7 number" "0x80 \<le> number'"
  then have "128 \<le> unat number div 2 ^ 7" by (simp only: word_le_nat_alt unat_drop) simp
  then have "unat number div 2 ^ 7 < unat number" by (intro div_less_dividend) (auto intro: Nat.gr0I)
  then show "(number', number) \<in> measure unat" using \<open>number' = _\<close> by (simp only: in_measure unat_drop)
qed simp

declare encode_loop.simps [simp del]

definition encode :: "u64 \<Rightarrow> u8 list" where
  "encode number = (if number AND 0xffffffff = number then encode32 (ucast number) else encode_loop number)"

text \<open>\<open>n << 1\<close> of a negative number is undefined in C; it is taken as the machine does it.\<close>

definition zigzag32 :: "i32 \<Rightarrow> u8 list" where
  "zigzag32 n = encode32 (push_bit 1 n XOR signed_drop_bit 31 n)"

definition zigzag :: "i64 \<Rightarrow> u8 list" where
  "zigzag n = encode (push_bit 1 n XOR signed_drop_bit 63 n)"

section \<open>Decoding\<close>

record longlong =
  low :: u32
  hi :: u32

definition int_shl :: "nat \<Rightarrow> nat \<Rightarrow> nat option" where
  "int_shl v k = (if k < 32 \<and> v * 2 ^ k < 2 ^ 31 then Some (v * 2 ^ k) else None)"

function decode_high :: "u8 list \<Rightarrow> nat \<Rightarrow> u32 \<Rightarrow> u64 \<Rightarrow> (nat \<times> longlong) option" where
  "decode_high buffer i r lr =
     (if i < 10 then do {
        x \<leftarrow> int_shl (unat (buffer ! i AND 0x7f)) (7 * (i - 4));
        let lr = lr OR of_nat x;
        if buffer ! i AND 0x80 = 0
        then Some (i + 1, \<lparr>low = r OR push_bit 28 (ucast lr AND 0xf), hi = ucast (drop_bit 4 lr)\<rparr>)
        else decode_high buffer (i + 1) r lr
      }
      else Some (10, \<lparr>low = 0, hi = 0\<rparr>))"
  by pat_completeness auto
termination decode_high by (relation "measure (\<lambda>(_, i, _, _). 10 - i)") auto

declare decode_high.simps [simp del]

function decode_low :: "u8 list \<Rightarrow> nat \<Rightarrow> u32 \<Rightarrow> (nat \<times> longlong) option" where
  "decode_low buffer i r =
     (if i < 4 then
        (let r = r OR of_nat (unat (buffer ! i AND 0x7f) * 2 ^ (7 * i))
         in if buffer ! i AND 0x80 = 0 then Some (i + 1, \<lparr>low = r, hi = 0\<rparr>)
            else decode_low buffer (i + 1) r)
      else decode_high buffer 4 r 0)"
  by pat_completeness auto
termination decode_low by (relation "measure (\<lambda>(_, i, _). 4 - i)") auto

declare decode_low.simps [simp del]

text \<open>The argument is a buffer of ten bytes.\<close>

definition decode :: "u8 list \<Rightarrow> (nat \<times> longlong) option" where
  "decode buffer =
     (if buffer ! 0 AND 0x80 = 0 then Some (1, \<lparr>low = ucast (buffer ! 0), hi = 0\<rparr>)
      else decode_low buffer 1 (ucast (buffer ! 0 AND 0x7f)))"

definition dezigzag64 :: "longlong \<Rightarrow> longlong" where
  "dezigzag64 r =
     (let l = low r in
      \<lparr>low = (drop_bit 1 l OR push_bit 31 (hi r AND 1)) XOR - (l AND 1),
       hi = drop_bit 1 (hi r) XOR - (l AND 1)\<rparr>)"

definition dezigzag32 :: "longlong \<Rightarrow> longlong" where
  "dezigzag32 r = (let l = low r in \<lparr>low = drop_bit 1 l XOR - (l AND 1), hi = - drop_bit 31 l\<rparr>)"

section \<open>The encoding is base 128\<close>

text \<open>The reference: the digits of the number to the base 128.\<close>

fun base128 :: "nat \<Rightarrow> u8 list" where
  "base128 n = (if n < 128 then [of_nat n] else (of_nat n OR 0x80) # base128 (n div 128))"

declare base128.simps [simp del]

lemma base128_small: "n < 128 \<Longrightarrow> base128 n = [of_nat n]"
  by (subst base128.simps) simp

lemma base128_big: "\<not> n < 128 \<Longrightarrow> base128 n = (of_nat n OR 0x80) # base128 (n div 128)"
  by (subst base128.simps) simp

lemma ucast_unat: "(ucast (w :: 'a::len word) :: 'b::len word) = of_nat (unat w)"
  by simp

lemma ucast_or_80:
  "(ucast (w OR 0x80 :: u32) :: u8) = ucast w OR 0x80"
  "(ucast (v OR 0x80 :: u64) :: u8) = ucast v OR 0x80"
  by (simp_all add: unsigned_or_eq)

lemma encode32_base128: "encode32 number = base128 (unat number)"
proof -
  define n where "n = unat number"
  have less: "number < 0x80 \<longleftrightarrow> n < 128" "number < 0x4000 \<longleftrightarrow> n div 128 < 128"
      "number < 0x200000 \<longleftrightarrow> n div 128 div 128 < 128"
      "number < 0x10000000 \<longleftrightarrow> n div 128 div 128 div 128 < 128"
    by (simp_all add: n_def word_less_nat_alt div_less_iff_less_mult flip: div_mult2_eq)
  have bytes: "(ucast number :: u8) = of_nat n" "(ucast (drop_bit 7 number) :: u8) = of_nat (n div 128)"
      "(ucast (drop_bit 14 number) :: u8) = of_nat (n div 128 div 128)"
      "(ucast (drop_bit 21 number) :: u8) = of_nat (n div 128 div 128 div 128)"
      "(ucast (drop_bit 28 number) :: u8) = of_nat (n div 128 div 128 div 128 div 128)"
    unfolding ucast_unat unat_drop n_def by (simp_all flip: div_mult2_eq)
  have "n < 2 ^ 32" using unsigned_less [of number, where ?'a = nat] by (simp add: n_def)
  then have top: "n div 128 div 128 div 128 div 128 < 128" by (simp flip: div_mult2_eq add: less_mult_imp_div_less)
  consider "n < 128" | "\<not> n < 128" "n div 128 < 128" | "\<not> n < 128" "\<not> n div 128 < 128" "n div 128 div 128 < 128"
    | "\<not> n < 128" "\<not> n div 128 < 128" "\<not> n div 128 div 128 < 128" "n div 128 div 128 div 128 < 128"
    | "\<not> n < 128" "\<not> n div 128 < 128" "\<not> n div 128 div 128 < 128" "\<not> n div 128 div 128 div 128 < 128"
    by blast
  then show ?thesis
    unfolding encode32_def less ucast_or_80 bytes Let_def n_def [symmetric]
    by cases (simp_all only: if_True if_False simp_thms base128_small base128_big not_less [symmetric] top)
qed

lemma encode_loop_base128: "128 \<le> unat number \<Longrightarrow> encode_loop number = base128 (unat number)"
proof (induction number rule: encode_loop.induct)
  case (1 number)
  have le: "0x80 \<le> drop_bit 7 number \<longleftrightarrow> 128 \<le> unat number div 128"
    by (simp add: word_le_nat_alt unat_drop)
  have b: "(ucast (drop_bit 7 number) :: u8) = of_nat (unat number div 128)" unfolding ucast_unat unat_drop by simp
  show ?case
  proof (cases "128 \<le> unat number div 128")
    case True
    then have "encode_loop (drop_bit 7 number) = base128 (unat number div 128)"
      using 1(1) [OF refl refl] le by (simp add: unat_drop)
    then show ?thesis using 1(2) True le
      by (subst encode_loop.simps) (simp add: Let_def base128_big ucast_or_80)
  next
    case False
    then show ?thesis using 1(2) le b
      by (subst encode_loop.simps) (simp add: Let_def base128_big base128_small ucast_or_80)
  qed
qed

lemma fits32: "number AND 0xffffffff = number \<longleftrightarrow> unat number < 2 ^ 32" for number :: u64
proof -
  have "number AND 0xffffffff = take_bit 32 number" by (simp add: take_bit_eq_mask mask_eq_exp_minus_1)
  moreover have "take_bit 32 number = number \<longleftrightarrow> unat number < 2 ^ 32"
    by (metis take_bit_nat_eq_self_iff unsigned_take_bit_eq word_unat_eq_iff)
  ultimately show ?thesis by simp
qed

lemma encode_base128: "encode number = base128 (unat number)"
proof (cases "unat number < 2 ^ 32")
  case True
  then have "unat (ucast number :: u32) = unat number" by (simp add: unsigned_ucast_eq take_bit_nat_eq_self)
  then show ?thesis using True by (simp add: encode_def fits32 encode32_base128 del: power_numeral)
next
  case False
  then have "128 \<le> unat number" by simp
  then show ?thesis using False by (simp add: encode_def fits32 encode_loop_base128)
qed

text \<open>
  The two encoders, one unrolled for 32 bits and one a loop, both write the digits of the number to
  the base 128.
\<close>

theorem varint_is_base128: "encode32 n = base128 (unat n) \<and> encode number = base128 (unat number)"
  by (intro conjI encode32_base128 encode_base128)

section \<open>Decoding what was encoded\<close>

lemma length_base128: "0 < length (base128 n)"
  by (subst base128.simps) simp

lemma base128_digits:
  "i < length (base128 n) \<Longrightarrow>
     base128 n ! i = (if Suc i < length (base128 n) then of_nat (n div 128 ^ i) OR 0x80 else of_nat (n div 128 ^ i)) \<and>
     (Suc i < length (base128 n) \<longleftrightarrow> 128 \<le> n div 128 ^ i)"
proof (induction n arbitrary: i rule: base128.induct)
  case (1 n)
  show ?case
  proof (cases "n < 128")
    case True
    then show ?thesis using 1(2) by (simp add: base128_small)
  next
    case False
    then show ?thesis
      using 1(1) [OF False, of "i - 1"] 1(2) length_base128 [of "n div 128"]
      by (cases i) (auto simp: base128_big div_mult2_eq)
  qed
qed

lemma base128_lower: "i < length (base128 n) \<Longrightarrow> 0 < i \<Longrightarrow> 128 ^ i \<le> n"
  using base128_digits [of "i - 1" n] by (cases i) (auto simp: less_eq_div_iff_mult_less_eq)

lemma base128_upper: "n < 128 ^ length (base128 n)"
proof -
  define i where "i = length (base128 n) - 1"
  have i: "i < length (base128 n)" "length (base128 n) = Suc i" using length_base128 [of n] by (auto simp: i_def)
  have "n div 128 ^ i < 128" using base128_digits [OF i(1)] i(2) by simp
  then show ?thesis unfolding i(2) by (simp add: div_less_iff_less_mult mult.commute)
qed

lemma mask_7f: "b AND 0x7f = take_bit 7 b" for b :: u8
  by (simp add: take_bit_eq_mask mask_eq_exp_minus_1)

lemma and_80: "b AND 0x80 = 0 \<longleftrightarrow> \<not> bit b 7" for b :: u8
proof -
  have "(0x80 :: u8) = push_bit 7 1" by simp
  then show ?thesis by (simp only: and_exp_eq_0_iff_not_bit push_bit_of_1)
qed

lemma unat_take_of_nat: "unat (take_bit 7 (of_nat m :: u8)) = m mod 128"
  unfolding unsigned_take_bit_eq unsigned_of_nat by (simp add: take_bit_eq_mod mod_mod_cancel)

text \<open>What the decoder sees of a byte.\<close>

lemma digit_value:
  assumes "i < length (base128 n)"
  shows "unat (base128 n ! i AND 0x7f) = n div 128 ^ i mod 128"
    "base128 n ! i AND 0x80 = 0 \<longleftrightarrow> \<not> Suc i < length (base128 n)"
proof -
  note d = base128_digits [OF assms]
  have "(x OR 0x80 :: u8) AND 0x7f = x AND 0x7f" for x
    by (simp add: bit.conj_disj_distrib2)
  then have "take_bit 7 (x OR 0x80 :: u8) = take_bit 7 x" for x by (simp only: mask_7f)
  then show "unat (base128 n ! i AND 0x7f) = n div 128 ^ i mod 128"
    using d by (auto simp: mask_7f unat_take_of_nat)
  have "bit (x OR 0x80 :: u8) 7" for x by (simp add: bit_or_iff)
  moreover have "\<not> bit (of_nat m :: u8) 7" if "m < 128" for m
    using that by (simp only: bit_of_nat_iff) (simp add: bit_iff_odd)
  ultimately show "base128 n ! i AND 0x80 = 0 \<longleftrightarrow> \<not> Suc i < length (base128 n)"
    using d by (auto simp: and_80 not_le [symmetric])
qed

lemma or_digit:
  "(of_nat (n mod 128 ^ i) :: 'a::len word) OR of_nat (n div 128 ^ i mod 128 * 2 ^ (7 * i)) = of_nat (n mod 128 ^ Suc i)"
proof -
  have p: "(128 :: nat) ^ i = 2 ^ (7 * i)" "(128 :: nat) ^ Suc i = 2 ^ (7 * i + 7)" for i
    by (simp_all add: power_mult power_add)
  have "take_bit (7 * i) n OR push_bit (7 * i) (take_bit 7 (drop_bit (7 * i) n)) = take_bit (7 * i + 7) n"
    by (rule bit_eqI) (auto simp: bit_simps)
  then have "n mod 128 ^ i OR n div 128 ^ i mod 128 * 2 ^ (7 * i) = n mod 128 ^ Suc i"
    unfolding p(2) unfolding p(1) by (simp add: take_bit_eq_mod drop_bit_eq_div push_bit_eq_mult)
  then show ?thesis by (simp only: flip: of_nat_or_eq)
qed

lemma decode_low_digits:
  assumes "\<forall>j < length (base128 n). buffer ! j = base128 n ! j" "i < length (base128 n)" "0 < i" "i \<le> 4"
  shows "decode_low buffer i (of_nat (n mod 128 ^ i)) =
    (if length (base128 n) \<le> 4 then Some (length (base128 n), \<lparr>low = of_nat n, hi = 0\<rparr>)
     else decode_high buffer 4 (of_nat (n mod 128 ^ 4)) 0)"
  using assms
proof (induction "4 - i" arbitrary: i)
  case 0
  then show ?case by (subst decode_low.simps) simp
next
  case (Suc k)
  then have i: "i < 4" by simp
  note v = digit_value [OF Suc.prems(2)] base128_digits [OF Suc.prems(2)]
  have step: "(of_nat (n mod 128 ^ i) :: u32) OR of_nat (unat (base128 n ! i AND 0x7f) * 2 ^ (7 * i)) = of_nat (n mod 128 ^ Suc i)"
    using v(1) by (simp only: or_digit)
  show ?case
  proof (cases "Suc i < length (base128 n)")
    case True
    then show ?thesis
      using Suc.hyps(1) [of "Suc i"] Suc.hyps(2) Suc.prems i v(2)
      by (subst decode_low.simps) (simp add: step del: power_Suc of_nat_mult of_nat_mod)
  next
    case False
    then have l: "length (base128 n) = Suc i" using Suc.prems(2) by simp
    have "n div 128 ^ i < 128" using v(3) False by simp
    then have "n < 128 ^ Suc i" by (simp add: div_less_iff_less_mult mult.commute)
    then have "n mod 128 ^ Suc i = n" by (rule mod_less)
    then show ?thesis
      using Suc.prems i v(2) False
      by (subst decode_low.simps) (simp add: step l del: power_Suc of_nat_mult of_nat_mod)
  qed
qed

lemma decode_high_digits:
  assumes "\<forall>j < length (base128 n). buffer ! j = base128 n ! j" "i < length (base128 n)" "4 \<le> i" "n < 2 ^ 59"
  shows "decode_high buffer i r (of_nat (n div 128 ^ 4 mod 128 ^ (i - 4))) =
    Some (length (base128 n), \<lparr>low = r OR push_bit 28 (ucast (of_nat (n div 128 ^ 4) :: u64) AND 0xf),
      hi = ucast (drop_bit 4 (of_nat (n div 128 ^ 4) :: u64))\<rparr>)"
  using assms
proof (induction "10 - i" arbitrary: i)
  case 0
  then have "(128 :: nat) ^ 9 \<le> n" by (intro base128_lower) simp_all
  then show ?case using 0 by simp
next
  case (Suc k)
  define m where "m = n div 128 ^ 4"
  have pow: "(128 :: nat) ^ i = 128 ^ 4 * 128 ^ (i - 4)" using Suc.prems(3) by (metis power_add le_add_diff_inverse)
  have dv: "n div 128 ^ i = m div 128 ^ (i - 4)" unfolding pow m_def by (rule div_mult2_eq)
  note v = digit_value [OF Suc.prems(2)] base128_digits [OF Suc.prems(2)]
  have top: "128 ^ i \<le> n" using Suc.prems(2,3) by (intro base128_lower) simp_all
  have i8: "i \<le> 8"
  proof (rule ccontr)
    assume "\<not> i \<le> 8"
    then have "(128 :: nat) ^ 9 \<le> 128 ^ i" by (intro power_increasing) simp_all
    then show False using top Suc.prems(4) by simp
  qed
  have digit: "n div 128 ^ i mod 128 * 2 ^ (7 * (i - 4)) < 2 ^ 31"
  proof (cases "i = 8")
    case True
    have "n div 128 ^ 8 < 8" using Suc.prems(4) by (simp add: div_less_iff_less_mult)
    then show ?thesis by (simp add: True)
  next
    case False
    then have "(2 :: nat) ^ (7 * (i - 4)) \<le> 2 ^ 21" using i8 by (intro power_increasing) auto
    then have "n div 128 ^ i mod 128 * 2 ^ (7 * (i - 4)) \<le> 128 * 2 ^ 21" by (intro mult_le_mono) simp_all
    then show ?thesis by simp
  qed
  have shl: "int_shl (unat (base128 n ! i AND 0x7f)) (7 * (i - 4)) = Some (m div 128 ^ (i - 4) mod 128 * 2 ^ (7 * (i - 4)))"
    using digit i8 v(1) by (simp add: int_shl_def dv)
  have step: "(of_nat (m mod 128 ^ (i - 4)) :: u64) OR of_nat (m div 128 ^ (i - 4) mod 128 * 2 ^ (7 * (i - 4))) =
      of_nat (m mod 128 ^ Suc (i - 4))"
    by (rule or_digit)
  show ?case
  proof (cases "Suc i < length (base128 n)")
    case True
    then have nz: "base128 n ! i AND 0x80 \<noteq> 0" using v(2) by simp
    have e: "Suc i - 4 = Suc (i - 4)" using Suc.prems(3) by simp
    have "decode_high buffer (Suc i) r (of_nat (m mod 128 ^ Suc (i - 4))) =
        Some (length (base128 n), \<lparr>low = r OR push_bit 28 (ucast (of_nat m :: u64) AND 0xf),
          hi = ucast (drop_bit 4 (of_nat m :: u64))\<rparr>)"
      using Suc.hyps(1) [of "Suc i", unfolded e] Suc.hyps(2) Suc.prems True unfolding m_def by simp
    then show ?thesis
      using nz i8 Suc.prems(1,2) unfolding m_def [symmetric]
      by (subst decode_high.simps) (simp add: shl step Let_def del: power_Suc of_nat_mult of_nat_mod)
  next
    case False
    then have l: "length (base128 n) = Suc i" using Suc.prems(2) by simp
    have z: "base128 n ! i AND 0x80 = 0" using v(2) False by simp
    have "m div 128 ^ (i - 4) < 128" using v(3) False dv by simp
    then have "m < 128 ^ Suc (i - 4)" by (simp add: div_less_iff_less_mult mult.commute)
    then have "m mod 128 ^ Suc (i - 4) = m" by (rule mod_less)
    then show ?thesis
      using z i8 Suc.prems(1,2) unfolding m_def [symmetric]
      by (subst decode_high.simps) (simp add: shl step l Let_def del: power_Suc of_nat_mult of_nat_mod drop_bit_or)
  qed
qed

text \<open>A number as its two halves.\<close>

definition halves :: "u64 \<Rightarrow> longlong" where
  "halves v = \<lparr>low = ucast v, hi = ucast (drop_bit 32 v)\<rparr>"

lemma join_low: "(of_nat (n mod 128 ^ 4) :: u32) OR push_bit 28 (ucast (of_nat (n div 128 ^ 4) :: u64) AND 0xf) = of_nat n"
proof -
  have "(of_nat (take_bit 28 n) :: u32) OR push_bit 28 (take_bit 4 (ucast (of_nat (drop_bit 28 n) :: u64))) = of_nat n"
    by (rule bit_word_eqI) (auto simp: bit_simps)
  moreover have "(x AND 0xf) = take_bit 4 x" for x :: u32 by (simp add: take_bit_eq_mask mask_eq_exp_minus_1)
  moreover have "n mod 128 ^ 4 = take_bit 28 n" "n div 128 ^ 4 = drop_bit 28 n"
    by (simp_all add: take_bit_eq_mod drop_bit_eq_div)
  ultimately show ?thesis by simp
qed

lemma join_hi: "n < 2 ^ 64 \<Longrightarrow> (ucast (drop_bit 4 (of_nat (n div 128 ^ 4) :: u64)) :: u32) = of_nat (n div 2 ^ 32)"
proof -
  assume n: "n < 2 ^ 64"
  have "\<not> bit n (32 + k)" if "32 \<le> k" for k
  proof -
    have "n < 2 ^ (32 + k)" by (rule order_less_le_trans [OF n power_increasing]) (use that in simp_all)
    then show ?thesis by (simp add: bit_iff_odd)
  qed
  then have "(ucast (drop_bit 4 (of_nat (drop_bit 28 n) :: u64)) :: u32) = of_nat (drop_bit 32 n)"
    by (intro bit_word_eqI) (auto simp: bit_simps)
  then show ?thesis by (simp add: drop_bit_eq_div)
qed

text \<open>
  What the encoder writes, the decoder reads, for numbers below \<open>2 ^ 59\<close>, whatever follows in the
  buffer; larger ones make it shift out of the range of an \<open>int\<close>.
\<close>

theorem varint_roundtrip:
  assumes "unat number < 2 ^ 59"
  shows "decode (encode number @ rest) = Some (length (encode number), halves number)"
proof -
  define n where "n = unat number"
  have buf: "\<forall>j < length (base128 n). (encode number @ rest) ! j = base128 n ! j"
    by (simp add: nth_append encode_base128 n_def)
  have n: "n < 2 ^ 59" "n < 2 ^ 64" using assms by (simp_all add: n_def)
  note d = digit_value [OF length_base128, of n, simplified] base128_digits [OF length_base128, of n, simplified]
  have h: "halves number = \<lparr>low = of_nat n, hi = of_nat (n div 2 ^ 32)\<rparr>"
    unfolding halves_def ucast_unat unat_drop n_def ..
  have 0: "(encode number @ rest) ! 0 = base128 n ! 0" using buf length_base128 [of n] by blast
  have len: "length (encode number) = length (base128 n)" by (simp add: encode_base128 n_def)
  show ?thesis
  proof (cases "Suc 0 < length (base128 n)")
    case False
    then have "length (base128 n) = 1" using length_base128 [of n] by linarith
    moreover have "n < 128" using d(3) False by simp
    moreover have "(ucast (of_nat n :: u8) :: u32) = of_nat n" if "n < 128"
      using that by (simp add: unsigned_ucast_eq word_eq_iff_unsigned unsigned_of_nat take_bit_nat_eq_self)
    ultimately show ?thesis using d False 0 by (simp add: decode_def h len)
  next
    case True
    have "(ucast (base128 n ! 0 AND 0x7f) :: u32) = of_nat (n mod 128 ^ 1)" unfolding ucast_unat d(1) by simp
    then have "decode (encode number @ rest) = decode_low (encode number @ rest) 1 (of_nat (n mod 128 ^ 1))"
      using True d(2) 0 by (simp add: decode_def)
    also have "\<dots> = (if length (base128 n) \<le> 4 then Some (length (base128 n), \<lparr>low = of_nat n, hi = 0\<rparr>)
       else decode_high (encode number @ rest) 4 (of_nat (n mod 128 ^ 4)) 0)"
      using True by (intro decode_low_digits buf) simp_all
    also have "\<dots> = Some (length (base128 n), halves number)"
    proof (cases "length (base128 n) \<le> 4")
      case short: True
      then have "(128 :: nat) ^ length (base128 n) \<le> 128 ^ 4" by (intro power_increasing) simp_all
      then have "n < 2 ^ 32" using base128_upper [of n] by simp
      then show ?thesis using short by (simp add: h)
    next
      case False
      then have "decode_high (encode number @ rest) 4 (of_nat (n mod 128 ^ 4)) (of_nat (n div 128 ^ 4 mod 128 ^ (4 - 4))) =
          Some (length (base128 n), halves number)"
        unfolding h join_low [of n, symmetric] join_hi [OF n(2), symmetric]
        using n(1) by (intro decode_high_digits [OF buf]) simp_all
      then show ?thesis using False by simp
    qed
    finally show ?thesis by (simp add: len)
  qed
qed

lemma varint_roundtrip_witness: "decode [0x96, 0x01, 0xff] = Some (2, \<lparr>low = 150, hi = 0\<rparr>)"
proof -
  have "encode 150 = [0x96, 0x01]" by (simp add: encode_base128 base128.simps)
  then show ?thesis using varint_roundtrip [of 150 "[0xff]"] by (simp add: halves_def)
qed

section \<open>Zigzag\<close>

text \<open>The number the zigzag encoders write.\<close>

definition zig :: "i64 \<Rightarrow> u64" where "zig n = push_bit 1 n XOR signed_drop_bit 63 n"

text \<open>
  A signed number of 64 bits comes back from its zigzag encoding, and it is small in size when its
  encoding is: the numbers \<open>0, -1, 1, -2, ...\<close> become \<open>0, 1, 2, 3, ...\<close>.
\<close>

theorem zigzag_roundtrip: "zigzag n = encode (zig n) \<and> dezigzag64 (halves (zig n)) = halves n"
proof
  show "zigzag n = encode (zig n)" by (simp add: zigzag_def zig_def)
  have "bit (zig n) 0 = bit n 63" by (simp only: zig_def bit_simps) simp
  then have low1: "(ucast (zig n) :: u32) AND 1 = of_bool (bit n 63)"
    by (intro bit_word_eqI) (auto simp: bit_simps bit_1_iff)
  have zig: "bit (zig n) (Suc k) = (bit n k \<noteq> bit n 63)" if "k < 63" for k
    using that by (simp only: zig_def bit_simps) simp
  have hi: "(drop_bit 1 (ucast (drop_bit 32 (zig n)) :: u32)) XOR - of_bool (bit n 63) = ucast (drop_bit 32 n)"
  proof (rule bit_word_eqI)
    fix k
    assume "k < LENGTH(32)"
    then consider "k < 31" | "k = 31" by fastforce
    then show "bit ((drop_bit 1 (ucast (drop_bit 32 (zig n)) :: u32)) XOR - of_bool (bit n 63)) k = bit (ucast (drop_bit 32 n) :: u32) k"
      using zig [of "32 + k"] by cases (auto simp: bit_simps)
  qed
  have lo: "(drop_bit 1 (ucast (zig n) :: u32) OR push_bit 31 (ucast (drop_bit 32 (zig n)) AND 1)) XOR - of_bool (bit n 63) = ucast n"
  proof (rule bit_word_eqI)
    fix k
    assume "k < LENGTH(32)"
    then consider "k < 31" | "k = 31" by fastforce
    then show "bit ((drop_bit 1 (ucast (zig n) :: u32) OR push_bit 31 (ucast (drop_bit 32 (zig n)) AND 1)) XOR - of_bool (bit n 63)) k =
        bit (ucast n :: u32) k"
      using zig [of k] by cases (auto simp: bit_simps)
  qed
  show "dezigzag64 (halves (zig n)) = halves n"
    unfolding dezigzag64_def halves_def Let_def longlong.simps low1 hi lo ..
qed

end
