(* ===== verification/Services.thy ===== *)
theory Services
  imports Server
begin

text \<open>
  The small services of \<open>service-src\<close> and the logger of \<open>skynet-src/skynet_logger.c\<close>: their callbacks
  and starts on a node.  The callback of a service is called by \<open>dispatch_message\<close>; its result tells
  whether the service keeps the data.
\<close>

unbundle bit_operations_syntax

text \<open>The bytes a message points to, \<open>None\<close> when fewer are there than its size says.\<close>

definition payload_bytes :: "payload \<Rightarrow> u64 \<Rightarrow> string option" where
  "payload_bytes d sz = (case d of
     PBytes s \<Rightarrow> if unat sz \<le> length s then Some (take (unat sz) s) else None
   | PNull \<Rightarrow> if sz = 0 then Some [] else None
   | _ \<Rightarrow> None)"

text \<open>The characters of a C string in a message; without a NUL among them it is read past the end.\<close>

definition payload_text :: "payload \<Rightarrow> string option" where
  "payload_text d = (case d of
     PBytes s \<Rightarrow> if CHR 0x00 \<in> set s then Some (takeWhile (\<lambda>ch. ch \<noteq> CHR 0x00) s) else None
   | _ \<Rightarrow> None)"

section \<open>\<open>service_client.c\<close>\<close>

record client =
  cl_gate :: i32
  cl_id :: "u32 list"

definition client_create :: client where
  "client_create = \<lparr>cl_gate = 0, cl_id = replicate 4 0\<rparr>"

definition byte_to_char :: "'a::len word \<Rightarrow> char" where "byte_to_char b = char_of (unat b)"

text \<open>A packet for the gate: the id of the connection, the length in two bytes, the data.\<close>

definition client_packet :: "client \<Rightarrow> u64 \<Rightarrow> string \<Rightarrow> string" where
  "client_packet cl sz msg =
     map byte_to_char (cl_id cl) @ [byte_to_char (drop_bit 8 sz AND 0xff), byte_to_char (sz AND 0xff)] @ msg"

definition client_cb ::
  "module_api \<Rightarrow> nat \<Rightarrow> client \<Rightarrow> u32 \<Rightarrow> payload \<Rightarrow> u64 \<Rightarrow> node \<Rightarrow> (int \<times> node) option" where
  "client_cb api c cl source msg sz n =
     (if 65535 < sz then do {
        n \<leftarrow> skynet_error api (Some c) ''sz > 65535, drop message'' n;
        Some (0, n)
      } else do {
        bytes \<leftarrow> payload_bytes msg sz;
        (_, n) \<leftarrow> skynet_send api c source (cl_gate cl) (PTYPE_CLIENT OR PTYPE_TAG_DONTCOPY) 0
                    (PBytes (client_packet cl sz bytes)) (sz + 6) n;
        Some (0, n)
      })"

text \<open>\<open>sscanf(args, "%d %d %d")\<close>; what is not read stays 0.\<close>

definition scan_ddd :: "string \<Rightarrow> i32 \<times> i32 \<times> i32" where
  "scan_ddd args = (case scan_d args of
     None \<Rightarrow> (0, 0, 0)
   | Some (a, s) \<Rightarrow> (case scan_d s of
       None \<Rightarrow> (a, 0, 0)
     | Some (b, s) \<Rightarrow> (case scan_d s of
         None \<Rightarrow> (a, b, 0)
       | Some (c, _) \<Rightarrow> (a, b, c))))"

definition client_init :: "module_api \<Rightarrow> nat \<Rightarrow> nat \<Rightarrow> client \<Rightarrow> string \<Rightarrow> node \<Rightarrow> (int \<times> client \<times> node) option" where
  "client_init api c cb cl args n =
     (let (fd, gate, id') = scan_ddd args in
      if gate = 0 then do {
        n \<leftarrow> skynet_error api (Some c) (''Invalid init client '' @ args) n;
        Some (1, cl, n)
      } else do {
        n \<leftarrow> skynet_callback c (Some cb) n;
        Some (0, \<lparr>cl_gate = gate, cl_id = map (\<lambda>k. drop_bit k id' AND 0xff) [0, 8, 16, 24]\<rparr>, n)
      })"

section \<open>\<open>service_tunnel.c\<close>\<close>

text \<open>The user data of the callback is the destination.\<close>

definition tunnel_cb :: "u32 \<Rightarrow> nat \<Rightarrow> node \<Rightarrow> (int \<times> node) option" where
  "tunnel_cb dest c n = do {
     n \<leftarrow> skynet_forward c dest n;
     Some (0, n)
   }"

definition tunnel_init :: "module_api \<Rightarrow> nat \<Rightarrow> (u32 \<Rightarrow> nat) \<Rightarrow> string \<Rightarrow> node \<Rightarrow> (int \<times> node) option" where
  "tunnel_init api c cb args n = do {
     (dest, n) \<leftarrow> skynet_queryname api c args n;
     if dest = 0 then do {
       n \<leftarrow> skynet_error api (Some c) (''Can'' @ [CHR 0x27] @ ''t create tunnel to '' @ args) n;
       Some (1, n)
     } else do {
       n \<leftarrow> skynet_callback c (Some (cb dest)) n;
       Some (0, n)
     }
   }"

section \<open>Casts on a node\<close>

text \<open>
  \<open>skynet_multicast.c\<close> on the heap of a node, run without interruption: the message has an address,
  and is gone when its last reference is.
\<close>

definition mc_create :: "payload \<Rightarrow> u64 \<Rightarrow> u32 \<Rightarrow> node \<Rightarrow> nat \<times> node" where
  "mc_create msg sz source n =
     (node_next n, n\<lparr>node_mc := (node_mc n)(node_next n \<mapsto> skynet_multicast_create msg sz source),
                    node_next := node_next n + 1\<rparr>)"

definition mc_copy :: "nat \<Rightarrow> int \<Rightarrow> node \<Rightarrow> node option" where
  "mc_copy p copy n = do {
     mc \<leftarrow> node_mc n p;
     mc \<leftarrow> skynet_multicast_copy copy mc;
     let n = n\<lparr>node_mc := (node_mc n)(p := (if mc_freed mc then None else Some mc))\<rparr>;
     Some (if mc_freed mc then free_data (mc_msg mc) n else n)
   }"

text \<open>One destination; the flag says that it exists.\<close>

definition mc_send :: "module_api \<Rightarrow> u32 \<Rightarrow> nat \<Rightarrow> u32 \<Rightarrow> node \<Rightarrow> (bool \<times> node) option" where
  "mc_send api source p dest n = do {
     (r, n) \<leftarrow> handle_grab dest n;
     case r of
       None \<Rightarrow> Some (False, n)
     | Some c \<Rightarrow> do {
         n \<leftarrow> skynet_context_send c (PMulticast p) 0 source PTYPE_MULTICAST 0 n;
         (_, n) \<leftarrow> skynet_context_release api c n;
         Some (True, n)
       }
   }"

fun mc_loop :: "module_api \<Rightarrow> u32 \<Rightarrow> nat \<Rightarrow> u32 list \<Rightarrow> u32 list \<Rightarrow> node \<Rightarrow> (u32 list \<times> node) option" where
  "mc_loop api source p [] gone n = Some (gone, n)"
| "mc_loop api source p (d # ds) gone n = do {
     (there, n) \<leftarrow> mc_send api source p d n;
     mc_loop api source p ds (if there then gone else gone @ [d]) n
   }"

definition mc_cast :: "module_api \<Rightarrow> nat \<Rightarrow> nat \<Rightarrow> u32 list \<Rightarrow> node \<Rightarrow> node option" where
  "mc_cast api c p dests n = do {
     ctx \<leftarrow> node_ctx n c;
     n \<leftarrow> mc_copy p (int (length dests)) n;
     if length dests = 0 then Some n
     else do {
       (gone, n) \<leftarrow> mc_loop api (ctx_handle ctx) p dests [] n;
       if length gone \<noteq> 0 then mc_copy p (- int (length gone)) n else Some n
     }
   }"

text \<open>\<open>combine_queue\<close> reports the handles that were not in the group.\<close>

fun report_gone :: "module_api \<Rightarrow> nat \<Rightarrow> u32 list \<Rightarrow> node \<Rightarrow> node option" where
  "report_gone api c [] n = Some n"
| "report_gone api c (h # hs) n = do {
     n \<leftarrow> skynet_error api (Some c) (''Try to remove a none exist handle : '' @ sprintf_x h) n;
     report_gone api c hs n
   }"

definition mc_castgroup ::
  "module_api \<Rightarrow> nat \<Rightarrow> skynet_multicast_group \<Rightarrow> nat \<Rightarrow> node \<Rightarrow> (int \<times> skynet_multicast_group \<times> node) option" where
  "mc_castgroup api c g p n = do {
     (g, errs) \<leftarrow> combine_queue g;
     n \<leftarrow> report_gone api c errs n;
     (gone, n) \<leftarrow>
       (if 0 < grp_number g then do {
          ctx \<leftarrow> node_ctx n c;
          n \<leftarrow> mc_copy p (int (grp_number g)) n;
          mc_loop api (ctx_handle ctx) p (map the (take (grp_number g) (grp_data g))) [] n
        } else Some ([], n));
     let g = fold skynet_multicast_leavegroup gone g;
     n \<leftarrow> mc_copy p (- int (length gone)) n;
     Some (int (grp_number g) - int (length gone), g, n)
   }"

section \<open>\<open>service_multicast.c\<close>\<close>

text \<open>\<open>sscanf(msg, "%c %x")\<close>\<close>

definition scan_cx :: "string \<Rightarrow> char \<times> u32" where
  "scan_cx s = (case s of
     [] \<Rightarrow> (CHR 0x00, 0)
   | c # s \<Rightarrow> (case scan_x s of None \<Rightarrow> (c, 0) | Some (h, _) \<Rightarrow> (c, h)))"

definition multicast_maincb ::
  "module_api \<Rightarrow> nat \<Rightarrow> i32 \<Rightarrow> u32 \<Rightarrow> payload \<Rightarrow> u64 \<Rightarrow> skynet_multicast_group \<times> node \<Rightarrow>
     (int \<times> skynet_multicast_group \<times> node) option" where
  "multicast_maincb api c ty source msg sz gn = (case gn of (g, n) \<Rightarrow>
     if ty = PTYPE_SYSTEM then do {
       text' \<leftarrow> payload_text msg;
       let (cmd, handle) = scan_cx text';
       if handle = 0 then do {
         n \<leftarrow> skynet_error api (Some c) (''Invalid handle '' @ text') n;
         Some (0, g, n)
       }
       else if cmd = CHR ''E'' then Some (0, skynet_multicast_entergroup handle g, n)
       else if cmd = CHR ''L'' then Some (0, skynet_multicast_leavegroup handle g, n)
       else if cmd = CHR ''C'' then do {
         (_, n) \<leftarrow> skynet_command api c ''EXIT'' None n;
         Some (0, g, n)
       }
       else do {
         n \<leftarrow> skynet_error api (Some c) (''Invalid command '' @ text') n;
         Some (0, g, n)
       }
     } else
       let (mc, n) = mc_create msg (sz OR pack_type ty) source n in do {
         (_, g, n) \<leftarrow> mc_castgroup api c g mc n;
         Some (1, g, n)
       })"

definition multicast_init :: "nat \<Rightarrow> nat \<Rightarrow> node \<Rightarrow> (int \<times> node) option" where
  "multicast_init c cb n = do {
     n \<leftarrow> skynet_callback c (Some cb) n;
     Some (0, n)
   }"

section \<open>\<open>service_localcast.c\<close>\<close>

text \<open>A message that is no \<open>struct localcast\<close> is read as one: \<open>None\<close>.\<close>

definition localcast_maincb ::
  "module_api \<Rightarrow> nat \<Rightarrow> i32 \<Rightarrow> u32 \<Rightarrow> payload \<Rightarrow> node \<Rightarrow> (int \<times> node) option" where
  "localcast_maincb api c ty source msg n = (case msg of
     PLocalcast dests data size' \<Rightarrow>
       let (mc, n) = mc_create data (size' OR pack_type ty) source n in do {
         n \<leftarrow> mc_cast api c mc dests n;
         Some (0, n)
       }
   | _ \<Rightarrow> None)"

definition localcast_init :: "module_api \<Rightarrow> nat \<Rightarrow> nat \<Rightarrow> node \<Rightarrow> (int \<times> node) option" where
  "localcast_init api c cb n = do {
     n \<leftarrow> skynet_callback c (Some cb) n;
     (_, n) \<leftarrow> skynet_command api c ''REG'' (Some ''.cast'') n;
     Some (0, n)
   }"

section \<open>\<open>skynet_logger.c\<close>\<close>

text \<open>
  An open file is the text written to it; the one with name \<open>None\<close> is the standard output.  \<open>stamp\<close> is
  the date and time as \<open>localtime_r\<close> splits the clock: year, month (from 0), day, hour, minute, second.
\<close>

record logger =
  lg_handle :: "string option option"
  lg_pid :: i32
  lg_close :: bool

type_synonym stamp = "int \<times> int \<times> int \<times> int \<times> int \<times> int"
type_synonym files = "string option \<Rightarrow> string"

definition logger_create :: "i32 \<Rightarrow> logger" where
  "logger_create pid = \<lparr>lg_handle = None, lg_pid = pid, lg_close = False\<rparr>"

text \<open>\<open>%0kd\<close> of a number that is not negative.\<close>

definition sprintf_0 :: "nat \<Rightarrow> int \<Rightarrow> string" where
  "sprintf_0 k v = (let s = print_base 10 (nat v) in replicate (k - length s) (CHR ''0'') @ s)"

definition logger_line :: "stamp \<Rightarrow> i32 \<Rightarrow> u32 \<Rightarrow> string \<Rightarrow> string" where
  "logger_line tm pid source msg = (case tm of (year, mon, mday, hour, mi, sec) \<Rightarrow>
     ''['' @ sprintf_0 4 (year + 1900) @ ''-'' @ sprintf_0 2 (mon + 1) @ ''-'' @ sprintf_0 2 mday @ '' '' @
     sprintf_0 2 hour @ '':'' @ sprintf_0 2 mi @ '':'' @ sprintf_0 2 sec @ '' '' @ sprintf_d pid @ '' :'' @
     sprintf_x source @ ''] '' @ msg @ [CHR 0x0A])"

definition logger_cb :: "stamp \<Rightarrow> logger \<Rightarrow> u32 \<Rightarrow> payload \<Rightarrow> u64 \<Rightarrow> files \<Rightarrow> (int \<times> files) option" where
  "logger_cb tm lg source msg sz fs = do {
     f \<leftarrow> lg_handle lg;
     bytes \<leftarrow> payload_bytes msg sz;
     Some (0, fs(f := fs f @ logger_line tm (lg_pid lg) source bytes))
   }"

text \<open>\<open>fopen\<close> is an argument: whether the file can be opened.\<close>

definition logger_init ::
  "module_api \<Rightarrow> (string \<Rightarrow> bool) \<Rightarrow> nat \<Rightarrow> nat \<Rightarrow> logger \<Rightarrow> string option \<Rightarrow> node \<Rightarrow> (int \<times> logger \<times> node) option" where
  "logger_init api fopen c cb lg parm n =
     (case parm of
        Some f \<Rightarrow>
          if \<not> fopen f then Some (1, lg\<lparr>lg_handle := None\<rparr>, n)
          else do {
            n \<leftarrow> skynet_callback c (Some cb) n;
            (_, n) \<leftarrow> skynet_command api c ''REG'' (Some ''.logger'') n;
            Some (0, lg\<lparr>lg_handle := Some (Some f), lg_close := True\<rparr>, n)
          }
      | None \<Rightarrow> do {
          n \<leftarrow> skynet_callback c (Some cb) n;
          (_, n) \<leftarrow> skynet_command api c ''REG'' (Some ''.logger'') n;
          Some (0, lg\<lparr>lg_handle := Some None\<rparr>, n)
        })"

end
