(* ===== verification/ServiceProps.thy ===== *)
theory ServiceProps
  imports Services NodeInv
begin

text \<open>
  Properties of the small services: what a cast leaves in the queues of the receivers and in the
  reference count of the message, a tunnel that passes messages on unchanged, and the command that
  never ends a group.
\<close>

unbundle bit_operations_syntax

section \<open>Casts\<close>

definition mailbox :: "node \<Rightarrow> nat \<Rightarrow> message list" where
  "mailbox n c = (case node_ctx n c of
     Some ctx \<Rightarrow> (case node_mq n (ctx_queue ctx) of Some q \<Rightarrow> mq_contents q | None \<Rightarrow> [])
   | None \<Rightarrow> [])"

text \<open>What the receivers of a multicast message get.\<close>

definition cast_message :: "u32 \<Rightarrow> nat \<Rightarrow> message" where
  "cast_message source p = \<lparr>msg_source = source, msg_session = 0, msg_data = PMulticast p, msg_sz = 0 OR pack_type PTYPE_MULTICAST\<rparr>"

lemma push_session_0:
  assumes "queue_ok q" "msg_session m = 0"
  shows "\<exists>g' q'. skynet_mq_push p m (g, q) = Some (g', q') \<and> queue_ok q' \<and> mq_handle q' = mq_handle q \<and>
    mq_contents q' = mq_contents q @ [m]"
proof -
  obtain g' q' where p: "skynet_mq_push p m (g, q) = Some (g', q')" "queue_ok q'" "mq_handle q' = mq_handle q"
    using queue_push_ok [OF assms(1)] by metis
  have "mq_ok q" using assms(1) by (simp add: queue_ok_def)
  then have "mq_contents q' = mq_contents q @ [m]"
    using p(1) assms(2) mq_store_contents [of q m]
    by (auto simp: skynet_mq_push_def Let_def split: if_splits)
  then show ?thesis using p by blast
qed

lemma mc_send_dead: "node_ok n \<Longrightarrow> lookup_ctx n d = None \<Longrightarrow> mc_send api source p d n = Some (False, n)"
  by (simp add: mc_send_def handle_grab_def grab_lookup)

lemma mc_send_live:
  assumes "resolves n h c ctx q" "skynet_mq_push (ctx_queue ctx) (cast_message source p) (node_gmq n, q) = Some gq"
  shows "mc_send api source p h n = Some (True, put_queue n (ctx_queue ctx) gq)"
proof -
  obtain g q' where gq: "gq = (g, q')" by force
  let ?up = "ctx\<lparr>ctx_ref := ctx_ref ctx + 1\<rparr>"
  have r: "skynet_handle_grab h (node_handles n, ctx_handles n) = Some c" "node_ctx n c = Some ctx"
    "0 < ctx_ref ctx" "node_mq n (ctx_queue ctx) = Some q"
    using assms(1) by (auto simp: resolves_def)
  have grab: "handle_grab h n = Some (Some c, set_ctx c ?up n)"
    using r by (simp add: handle_grab_def skynet_context_grab_def)
  let ?n = "(set_ctx c ?up n)\<lparr>node_gmq := g, node_mq := (node_mq n)(ctx_queue ctx \<mapsto> q')\<rparr>"
  have "put_queue (set_ctx c ?up n) (ctx_queue ctx) gq = ?n" by (simp add: put_queue_def gq set_ctx_def)
  moreover have "skynet_context_send c (PMulticast p) 0 source PTYPE_MULTICAST 0 (set_ctx c ?up n) =
      Some (put_queue (set_ctx c ?up n) (ctx_queue ctx) gq)"
    using r(4) assms(2) context_send_live [of "set_ctx c ?up n" c ?up q source 0 "PMulticast p" 0 PTYPE_MULTICAST gq]
    by (simp add: set_ctx_def cast_message_def)
  moreover have "skynet_context_release api c ?n = Some (True, set_ctx c ctx ?n)"
    using r(3) by (simp add: skynet_context_release_def set_ctx_def)
  moreover have "set_ctx c ctx ?n = put_queue n (ctx_queue ctx) gq"
    using r(2) by (simp add: set_ctx_def put_queue_def gq fun_upd_idem)
  ultimately show ?thesis using grab by (simp add: mc_send_def)
qed

lemma mailbox_put:
  assumes "node_ok n" "node_ctx n c = Some ctx" "node_mq n (ctx_queue ctx) = Some q"
  shows "mailbox (put_queue n (ctx_queue ctx) (g, q')) c' = (if c' = c then mq_contents q' else mailbox n c')"
proof (cases "c' = c")
  case True
  then show ?thesis using assms(2) by (simp add: mailbox_def put_queue_def)
next
  case False
  then have "ctx_queue ctx' \<noteq> ctx_queue ctx" if "node_ctx n c' = Some ctx'" for ctx'
    using node_okD(3) [OF assms(1,2) that] by auto
  then show ?thesis using False by (cases "node_ctx n c'") (simp_all add: mailbox_def put_queue_def)
qed

lemma mc_loop_ok:
  assumes "node_ok n"
  shows "\<exists>n'. mc_loop api source p ds gone n = Some (gone @ filter (\<lambda>d. lookup_ctx n d = None) ds, n') \<and> node_ok n' \<and>
    same_services n n' \<and> node_mc n' = node_mc n \<and> node_freed n' = node_freed n \<and>
    (\<forall>c. mailbox n' c = mailbox n c @ replicate (count_list (map (lookup_ctx n) ds) (Some c)) (cast_message source p))"
  using assms
proof (induction ds arbitrary: gone n)
  case (Cons d ds)
  show ?case
  proof (cases "lookup_ctx n d")
    case None
    then show ?thesis using Cons.IH [OF Cons.prems, of "gone @ [d]"] mc_send_dead [OF Cons.prems None] by simp
  next
    case (Some c)
    obtain ctx q where c: "node_ctx n c = Some ctx" "ctx_handle ctx = d" "ctx_live n c ctx" "resolves n d c ctx q" "queue_ok q"
      by (rule lookup_live [OF Cons.prems Some])
    then have q: "node_mq n (ctx_queue ctx) = Some q" "mq_handle q = ctx_handle ctx"
      by (auto simp: resolves_def ctx_live_def)
    obtain g' q' where p: "skynet_mq_push (ctx_queue ctx) (cast_message source p) (node_gmq n, q) = Some (g', q')"
        "queue_ok q'" "mq_handle q' = mq_handle q" "mq_contents q' = mq_contents q @ [cast_message source p]"
      using push_session_0 [OF c(5), of "cast_message source p" "ctx_queue ctx" "node_gmq n"] by (auto simp: cast_message_def)
    define n1 where "n1 = put_queue n (ctx_queue ctx) (g', q')"
    have n1: "node_ok n1" "same_services n n1"
      using put_queue_ok [OF Cons.prems c(1) p(2)] p(3) q(2) by (simp_all add: n1_def)
    have l: "lookup_ctx n1 = lookup_ctx n" using same_services_handles [OF n1(2)] by simp
    have i: "mailbox n1 c' = (if c' = c then mailbox n c @ [cast_message source p] else mailbox n c')" for c'
      using mailbox_put [OF Cons.prems c(1) q(1)] p(4) q(1) c(1) by (simp add: n1_def mailbox_def)
    obtain n' where n': "mc_loop api source p ds gone n1 = Some (gone @ filter (\<lambda>d. lookup_ctx n d = None) ds, n')" "node_ok n'"
        "same_services n1 n'" "node_mc n' = node_mc n1" "node_freed n' = node_freed n1"
        "\<And>c. mailbox n' c = mailbox n1 c @ replicate (count_list (map (lookup_ctx n) ds) (Some c)) (cast_message source p)"
      using Cons.IH [OF n1(1), of gone] unfolding l by blast
    have "same_services n n'" by (rule same_services_trans [OF n1(2) n'(3)])
    then show ?thesis
      using n' mc_send_live [OF c(4) p(1)] Some i by (auto simp: n1_def put_queue_def)
  qed
qed (simp add: same_services_def)

lemma mailbox_cong: "node_ctx n' = node_ctx n \<Longrightarrow> node_mq n' = node_mq n \<Longrightarrow> mailbox n' = mailbox n"
proof (rule ext)
  fix c
  assume "node_ctx n' = node_ctx n" "node_mq n' = node_mq n"
  then show "mailbox n' c = mailbox n c" by (cases "node_ctx n c") (simp_all add: mailbox_def)
qed

lemma same_services_mc: "same_services n (n\<lparr>node_mc := mc\<rparr>)" "same_services n (free_data d n)"
  by (simp_all add: same_services_def free_data_def)

lemma mc_create_ok:
  assumes "node_ok n" "mc_create msg sz source n = (p, n')"
  shows "node_ok n' \<and> lookup_ctx n' = lookup_ctx n \<and> mailbox n' = mailbox n \<and> node_ctx n' = node_ctx n \<and> node_freed n' = node_freed n \<and>
    p = node_next n \<and> node_mc n' = (node_mc n)(p \<mapsto> skynet_multicast_create msg sz source)"
proof -
  have n': "n' = n\<lparr>node_mc := (node_mc n)(p \<mapsto> skynet_multicast_create msg sz source), node_next := p + 1\<rparr>" "p = node_next n"
    using assms(2) by (auto simp: mc_create_def)
  have h: "ctx_handles n' = ctx_handles n" by (rule ext) (simp add: ctx_handles_def n')
  have l: "lookup_ctx n' = lookup_ctx n" by (simp add: lookup_ctx_def h) (simp add: n')
  have "ctx_live n' c ctx" if "node_ctx n c = Some ctx" for c ctx
    using node_okD(2) [OF assms(1) that] by (auto simp: ctx_live_def n')
  moreover have "node_ctx n' = node_ctx n" "node_handles n' = node_handles n" by (simp_all add: n')
  ultimately have "node_ok n'" using assms(1) by (simp add: node_ok_def h l)
  moreover have "mailbox n' = mailbox n" by (rule mailbox_cong) (simp_all add: n')
  ultimately show ?thesis using n' l by simp
qed

lemma mc_copy_eq:
  assumes "node_mc n p = Some mc" "\<not> mc_freed mc"
  shows "mc_copy p k n = Some (if mc_ref mc + k = 0 then free_data (mc_msg mc) (n\<lparr>node_mc := (node_mc n)(p := None)\<rparr>)
    else n\<lparr>node_mc := (node_mc n)(p \<mapsto> mc\<lparr>mc_ref := mc_ref mc + k, mc_freed := False\<rparr>)\<rparr>)"
  using assms by (simp add: mc_copy_def skynet_multicast_copy_def)

lemma node_ok_same: "node_ok n \<Longrightarrow> same_services n n' \<Longrightarrow> node_mq n' = node_mq n \<Longrightarrow> node_ok n' \<and> lookup_ctx n' = lookup_ctx n \<and> mailbox n' = mailbox n"
  using node_ok_cong [of n n'] same_services_handles [of n n'] mailbox_cong [of n' n] by (simp add: same_services_def)

lemma mc_copy_ok:
  assumes "node_ok n" "node_mc n p = Some mc" "\<not> mc_freed mc"
  shows "\<exists>n'. mc_copy p k n = Some n' \<and> node_ok n' \<and> lookup_ctx n' = lookup_ctx n \<and> mailbox n' = mailbox n \<and> node_ctx n' = node_ctx n \<and>
    node_mc n' p = (if mc_ref mc + k = 0 then None else Some (mc\<lparr>mc_ref := mc_ref mc + k, mc_freed := False\<rparr>)) \<and>
    node_freed n' = node_freed n @ (if mc_ref mc + k = 0 then [mc_msg mc] else [])"
proof -
  define n' where "n' = (if mc_ref mc + k = 0 then free_data (mc_msg mc) (n\<lparr>node_mc := (node_mc n)(p := None)\<rparr>)
    else n\<lparr>node_mc := (node_mc n)(p \<mapsto> mc\<lparr>mc_ref := mc_ref mc + k, mc_freed := False\<rparr>)\<rparr>)"
  have "mc_copy p k n = Some n'" unfolding n'_def by (rule mc_copy_eq [OF assms(2,3)])
  moreover have "same_services n n'" "node_mq n' = node_mq n" by (simp_all add: n'_def same_services_def free_data_def)
  then have "node_ok n' \<and> lookup_ctx n' = lookup_ctx n \<and> mailbox n' = mailbox n" by (rule node_ok_same [OF assms(1)])
  moreover have "node_ctx n' = node_ctx n" by (simp add: n'_def free_data_def)
  moreover have "node_mc n' p = (if mc_ref mc + k = 0 then None else Some (mc\<lparr>mc_ref := mc_ref mc + k, mc_freed := False\<rparr>))"
    by (simp add: n'_def free_data_def)
  moreover have "node_freed n' = node_freed n @ (if mc_ref mc + k = 0 then [mc_msg mc] else [])"
    by (simp add: n'_def free_data_def)
  ultimately show ?thesis by blast
qed

text \<open>The whole of \<open>skynet_multicast_cast\<close> for a message with no references yet.\<close>

definition existing :: "node \<Rightarrow> u32 list \<Rightarrow> u32 list" where
  "existing n ds = filter (\<lambda>d. lookup_ctx n d \<noteq> None) ds"

lemma existing_length: "length (existing n ds) + length (filter (\<lambda>d. lookup_ctx n d = None) ds) = length ds"
  using sum_length_filter_compl [of "\<lambda>d. lookup_ctx n d \<noteq> None" ds] by (simp add: existing_def)

lemma mc_cast_ok:
  assumes ok: "node_ok n" and c: "node_ctx n c = Some ctx" and mc: "node_mc n p = Some mc" "mc_ref mc = 0" "\<not> mc_freed mc"
  shows "\<exists>n'. mc_cast api c p ds n = Some n' \<and> node_ok n' \<and> lookup_ctx n' = lookup_ctx n \<and>
    (\<forall>d. mailbox n' d = mailbox n d @ replicate (count_list (map (lookup_ctx n) ds) (Some d)) (cast_message (ctx_handle ctx) p)) \<and>
    node_mc n' p = (if existing n ds = [] then None else Some (mc\<lparr>mc_ref := int (length (existing n ds))\<rparr>)) \<and>
    node_freed n' = node_freed n @ (if existing n ds = [] then [mc_msg mc] else [])"
proof -
  obtain n1 where n1: "mc_copy p (int (length ds)) n = Some n1" "node_ok n1" "lookup_ctx n1 = lookup_ctx n"
      "mailbox n1 = mailbox n" "node_mc n1 p = (if ds = [] then None else Some (mc\<lparr>mc_ref := int (length ds), mc_freed := False\<rparr>))"
      "node_freed n1 = node_freed n @ (if ds = [] then [mc_msg mc] else [])"
    using mc_copy_ok [OF ok mc(1,3), of "int (length ds)"] mc(2) by auto
  let ?gone = "filter (\<lambda>d. lookup_ctx n d = None) ds"
  obtain n2 where n2: "mc_loop api (ctx_handle ctx) p ds [] n1 = Some (?gone, n2)" "node_ok n2" "same_services n1 n2"
      "node_mc n2 = node_mc n1" "node_freed n2 = node_freed n1"
      "\<And>d. mailbox n2 d = mailbox n1 d @ replicate (count_list (map (lookup_ctx n) ds) (Some d)) (cast_message (ctx_handle ctx) p)"
    using mc_loop_ok [OF n1(2), of api "ctx_handle ctx" p ds "[]"] n1(3) by auto
  have l2: "lookup_ctx n2 = lookup_ctx n" using same_services_handles [OF n2(3)] n1(3) by simp
  have same: "mc\<lparr>mc_ref := r, mc_freed := False\<rparr> = mc\<lparr>mc_ref := r\<rparr>" for r using mc(3) by (cases mc) simp
  consider "ds = []" | "ds \<noteq> []" "?gone = []" | "ds \<noteq> []" "?gone \<noteq> []" by blast
  then show ?thesis
  proof cases
    case 1
    then show ?thesis using n1 c by (simp add: mc_cast_def existing_def)
  next
    case 2
    then have "length (existing n ds) = length ds" using existing_length [of n ds] by simp
    moreover have "existing n ds \<noteq> []" using 2(1) calculation by (metis length_0_conv)
    ultimately show ?thesis using 2 n1 n2 l2 c same by (simp add: mc_cast_def)
  next
    case 3
    define mc2 where "mc2 = mc\<lparr>mc_ref := int (length ds), mc_freed := False\<rparr>"
    have mc2: "node_mc n2 p = Some mc2" using 3 n1(5) n2(4) by (simp add: mc2_def)
    have mc2': "mc_ref mc2 = int (length ds)" "\<not> mc_freed mc2" "mc_msg mc2 = mc_msg mc"
        "mc2\<lparr>mc_ref := r, mc_freed := False\<rparr> = mc\<lparr>mc_ref := r\<rparr>" for r
      using mc(3) by (cases mc; simp add: mc2_def)+
    have k: "int (length ds) + - int (length ?gone) = int (length (existing n ds))" using existing_length [of n ds] by linarith
    obtain n3 where n3: "mc_copy p (- int (length ?gone)) n2 = Some n3" "node_ok n3" "lookup_ctx n3 = lookup_ctx n2" "mailbox n3 = mailbox n2"
        "node_mc n3 p = (if existing n ds = [] then None else Some (mc\<lparr>mc_ref := int (length (existing n ds))\<rparr>))"
        "node_freed n3 = node_freed n2 @ (if existing n ds = [] then [mc_msg mc] else [])"
      using mc_copy_ok [OF n2(2) mc2 mc2'(2), of "- int (length ?gone)", unfolded mc2' k] by auto
    then show ?thesis using 3 n1 n2 l2 c by (simp add: mc_cast_def)
  qed
qed

text \<open>
  The \<open>localcast\<close> service sends one copy of the message to every destination that exists, as often as
  it is listed, and nothing to anybody else; the reference count is then the number of the copies, and
  the data is freed at once when there is none.
\<close>

theorem localcast_correct:
  assumes "node_ok n" "node_ctx n c = Some ctx"
  shows "\<exists>n'. localcast_maincb api c ty source (PLocalcast dests data size') n = Some (0, n') \<and>
    node_ok n' \<and> lookup_ctx n' = lookup_ctx n \<and>
    (\<forall>d. mailbox n' d = mailbox n d @ replicate (count_list (map (lookup_ctx n) dests) (Some d)) (cast_message (ctx_handle ctx) (node_next n))) \<and>
    node_mc n' (node_next n) =
      (if existing n dests = [] then None
       else Some \<lparr>mc_ref = int (length (existing n dests)), mc_msg = data, mc_sz = size' OR pack_type ty, mc_source = source, mc_freed = False\<rparr>) \<and>
    node_freed n' = node_freed n @ (if existing n dests = [] then [data] else [])"
proof -
  define mc where "mc = skynet_multicast_create data (size' OR pack_type ty) source"
  obtain p n1 where n1: "mc_create data (size' OR pack_type ty) source n = (p, n1)" by force
  note create = mc_create_ok [OF assms(1) n1, folded mc_def]
  have mc: "node_mc n1 p = Some mc" "mc_ref mc = 0" "\<not> mc_freed mc" using create by (simp_all add: mc_def skynet_multicast_create_def)
  have "existing n1 dests = existing n dests" using create by (simp add: existing_def)
  then show ?thesis
    using mc_cast_ok [of n1 c ctx p mc api dests] create mc assms(2) n1
    by (auto simp: localcast_maincb_def mc_def skynet_multicast_create_def)
qed

lemma localcast_correct_witness:
  "\<exists>n'. localcast_maincb demo_api 0 PTYPE_CLIENT 7 (PLocalcast [2, 9, 2] (PBytes ''hi'') 2) demo_node = Some (0, n') \<and>
     length (mailbox n' 2) = length (mailbox demo_node 2) + 2 \<and>
     map_option mc_ref (node_mc n' (node_next demo_node)) = Some 2"
proof -
  obtain ctx where ctx: "node_ctx demo_node 0 = Some ctx" using demo_facts(1) by (auto split: option.splits)
  have "lookup_ctx demo_node 2 = Some 2" "lookup_ctx demo_node 9 = None"
    using grab_lookup [OF demo_node_ok] demo_facts(3,4) by metis+
  then have "existing demo_node [2, 9, 2] = [2, 2]" "count_list (map (lookup_ctx demo_node) [2, 9, 2]) (Some 2) = 2"
    by (simp_all add: existing_def)
  then show ?thesis
    using localcast_correct [OF demo_node_ok ctx, of demo_api PTYPE_CLIENT 7 "[2, 9, 2]" "PBytes ''hi''" 2] by auto
qed

section \<open>The tunnel\<close>

text \<open>
  A message that is dispatched to a tunnel is put at the end of the queue of the tunnel's destination
  as it came: same sender, session, type, data and size.
\<close>

theorem tunnel_correct:
  assumes n: "node_ctx n c = Some ctx" "ctx_init ctx" "ctx_cb ctx = Some cb" "ctx_forward ctx = 0"
    and cb: "\<And>ty session source d sz n. api_callback api cb c ty session source d sz n = tunnel_cb dest c n"
    and m: "unpack_type (msg_sz m) \<noteq> PTYPE_MULTICAST"
    and dest: "dest \<noteq> 0" "dest AND NOT HANDLE_MASK = node_harbor n" "resolves n dest d dctx q"
    and q: "queue_ok q" "mq_lock_session q = 0"
  shows "\<exists>n'. dispatch_message api c m n = Some n' \<and> node_freed n' = node_freed n \<and> node_ctx n' = node_ctx n \<and>
    map_option mq_contents (node_mq n' (ctx_queue dctx)) = Some (mq_contents q @ [m])"
proof -
  define n1 where "n1 = set_ctx c (ctx\<lparr>ctx_forward := dest\<rparr>) n"
  have fwd: "skynet_forward c dest n = Some n1" using n by (simp add: skynet_forward_def n1_def)
  have undo: "set_ctx c ((ctx\<lparr>ctx_forward := dest\<rparr>)\<lparr>ctx_forward := 0\<rparr>) n1 = n"
  proof -
    have "(ctx\<lparr>ctx_forward := dest\<rparr>)\<lparr>ctx_forward := 0\<rparr> = ctx" using n(4) by (cases ctx) simp
    then show ?thesis using set_ctx_same [OF n(1)] by (simp add: n1_def)
  qed
  have "mq_ok q" using q(1) by (simp add: queue_ok_def)
  then obtain g' q' where p: "skynet_mq_push (ctx_queue dctx) m (node_gmq n, q) = Some (g', q')" "mq_contents q' = mq_contents q @ [m]"
    using queue_push_ok [OF q(1), of "ctx_queue dctx" m "node_gmq n"] mq_store_contents [of q m] q(2)
    by (auto simp: skynet_mq_push_def Let_def split: if_splits)
  have "send_message api dest m n = Some (put_queue n (ctx_queue dctx) (g', q'))"
    using dest(2) context_push_live [OF dest(3) p(1), of api]
    by (simp add: send_message_def skynet_harbor_message_isremote_def)
  moreover have "forwarding api c m n1 = map_option (\<lambda>n. (1, n)) (send_message api dest m n)"
    using dest(1) undo by (simp add: forwarding_def n1_def set_ctx_def map_conv_bind_option comp_def)
  ultimately have "dispatch_message api c m n = Some (put_queue n (ctx_queue dctx) (g', q'))"
    using n(1-3) m fwd by (simp add: dispatch_message_def cb tunnel_cb_def)
  then show ?thesis using p(2) by (simp add: put_queue_def)
qed

definition tunnel_api :: module_api where
  "tunnel_api = demo_api\<lparr>api_callback := (\<lambda>_ c _ _ _ _ _ n. tunnel_cb 2 c n)\<rparr>"

lemma tunnel_correct_witness:
  "\<exists>ctx n'. dispatch_message tunnel_api 0 (cast_message 9 0\<lparr>msg_data := PNull, msg_sz := 0\<rparr>)
       (set_ctx 0 ctx demo_node) = Some n' \<and>
     map_option mq_contents (node_mq n' 3) = Some [cast_message 9 0\<lparr>msg_data := PNull, msg_sz := 0\<rparr>]"
proof -
  let ?m = "cast_message 9 0\<lparr>msg_data := PNull, msg_sz := 0\<rparr>"
  obtain ctx0 where ctx0: "node_ctx demo_node 0 = Some ctx0" "ctx_ref ctx0 = 2"
    using demo_facts(1) by (auto split: option.splits)
  define ctx where "ctx = ctx0\<lparr>ctx_init := True, ctx_cb := Some 0, ctx_forward := 0\<rparr>"
  define n where "n = set_ctx 0 ctx demo_node"
  have n: "node_ok n" "lookup_ctx n = lookup_ctx demo_node"
    using set_ctx_ok [OF demo_node_ok ctx0(1), of ctx] ctx0(2) by (simp_all add: n_def ctx_def)
  have "lookup_ctx demo_node 2 = Some 2" using grab_lookup [OF demo_node_ok] demo_facts(3) by metis
  then have l: "lookup_ctx n 2 = Some 2" using n(2) by simp
  obtain dctx q where d: "node_ctx n 2 = Some dctx" "resolves n 2 2 dctx q" "queue_ok q"
    by (rule lookup_live [OF n(1) l])
  have dq: "ctx_queue dctx = 3"
    using d(1) demo_facts(2) by (auto simp: n_def set_ctx_def split: option.splits)
  then have q: "q = skynet_mq_create 2" using d(2) demo_queue by (simp add: resolves_def n_def set_ctx_def)
  have "\<exists>n'. dispatch_message tunnel_api 0 ?m n = Some n' \<and> node_freed n' = node_freed n \<and> node_ctx n' = node_ctx n \<and>
      map_option mq_contents (node_mq n' (ctx_queue dctx)) = Some (mq_contents q @ [?m])"
  proof (rule tunnel_correct [where ctx = ctx and cb = 0 and dest = 2 and d = 2])
    show "unpack_type (msg_sz ?m) \<noteq> PTYPE_MULTICAST" by (simp add: unpack_type_def PTYPE_MULTICAST_def)
    show "2 AND NOT HANDLE_MASK = node_harbor n" using demo_facts(6) by (simp add: n_def set_ctx_def HANDLE_MASK_def)
    show "mq_lock_session q = 0" by (simp add: q skynet_mq_create_def)
    show "ctx_init ctx" "ctx_cb ctx = Some 0" "ctx_forward ctx = 0" by (simp_all add: ctx_def)
    show "node_ctx n 0 = Some ctx" by (simp add: n_def set_ctx_def)
  qed (use d(2,3) in \<open>simp_all add: tunnel_api_def\<close>)
  moreover have "mq_contents q = []" by (simp add: q mq_create_ok)
  ultimately show ?thesis unfolding dq n_def by auto
qed

section \<open>The end of a group\<close>

text \<open>
  \<open>skynet_group_clear\<close> sends the command \<open>C\<close> without a handle.  The service takes the missing handle for
  an invalid one before it looks at the command: it reports an error and lives on.
\<close>

lemma group_clear_ignored:
  "multicast_maincb api c PTYPE_SYSTEM source (PBytes (''C'' @ [CHR 0x00])) 2 (g, n) =
     map_option (\<lambda>n. (0, g, n)) (skynet_error api (Some c) ''Invalid handle C'' n)"
proof -
  have "payload_text (PBytes (''C'' @ [CHR 0x00])) = Some ''C''" by (simp add: payload_text_def)
  moreover have "scan_cx ''C'' = (CHR ''C'', 0)" by (simp add: scan_cx_def scan_x_def parse_sign_def hex_prefix_def starts_digit_def)
  ultimately show ?thesis by (simp add: multicast_maincb_def map_conv_bind_option comp_def)
qed

end
