(* ===== verification/ClientGate.thy ===== *)
theory ClientGate
  imports Services GateDemo
begin

text \<open>
  The way of a message from a service to a connection of a gate: the service \<open>client\<close>
  (\<open>service-src/service_client.c\<close>) writes the id of the connection and the length in front, the gate
  (\<open>gate/main.c\<close>) takes the id off and hands the rest to \<open>mread_push\<close>.
\<close>

unbundle bit_operations_syntax

lemma byte_of_to_char: "byte_of_char (byte_to_char w) = ucast w" for w :: "'a::len word"
proof -
  have "(of_nat (take_bit 8 (unat w)) :: u8) = take_bit 8 (of_nat (unat w))" by (simp only: take_bit_of_nat)
  also have "\<dots> = of_nat (unat w)" by (rule take_bit_word_eq_self) simp
  finally have "(of_nat (unat w mod 256) :: u8) = of_nat (unat w)" by (simp only: take_bit_eq_mod) simp
  moreover have "of_char (char_of (unat w)) = (of_nat (unat w mod 256) :: u8)" by (metis of_char_of of_nat_of_char)
  ultimately show ?thesis by (simp add: byte_of_char_def byte_to_char_def)
qed

text \<open>The four bytes of an id, least significant first.\<close>

lemma le32_bytes: "le32 (map (\<lambda>k. ucast (drop_bit k (v :: u32) AND 0xff)) [0, 8, 16, 24] @ d) = v"
proof -
  have m: "(x :: u32) AND 0xff = take_bit 8 x" for x by (simp add: take_bit_eq_mask mask_eq_exp_minus_1)
  have "(ucast (ucast (take_bit 8 (drop_bit 0 v)) :: u8) :: u32) OR push_bit 8 (ucast (ucast (take_bit 8 (drop_bit 8 v)) :: u8)) OR
      push_bit 16 (ucast (ucast (take_bit 8 (drop_bit 16 v)) :: u8)) OR push_bit 24 (ucast (ucast (take_bit 8 (drop_bit 24 v)) :: u8)) = v"
    (is "?w = v")
  proof (rule bit_word_eqI)
    fix k
    assume "k < LENGTH(32)"
    then consider "k < 8" | "8 \<le> k" "k < 16" | "16 \<le> k" "k < 24" | "24 \<le> k" "k < 32" by fastforce
    then show "bit ?w k = bit v k" by cases (auto simp: bit_simps)
  qed
  then show ?thesis unfolding le32_def m by simp
qed

text \<open>The length of the data in two bytes, as a gate with the short header reads it.\<close>

lemma be16_bytes:
  assumes "sz \<le> 65535"
  shows "push_bit 8 (ucast (ucast (drop_bit 8 (sz :: u64) AND 0xff) :: u8)) OR ucast (ucast (sz AND 0xff) :: u8) = (ucast sz :: i32)"
proof -
  have m: "(x :: u64) AND 0xff = take_bit 8 x" for x by (simp add: take_bit_eq_mask mask_eq_exp_minus_1)
  have "unat sz < 2 ^ 16" using assms by (simp add: word_le_nat_alt)
  then have "take_bit 16 (unat sz) = unat sz" by (simp add: take_bit_nat_eq_self)
  then have s: "take_bit 16 sz = sz" by (metis unsigned_take_bit_eq word_unat_eq_iff)
  have low: "k < 16" if "bit sz k" for k using that by (subst (asm) s [symmetric]) (simp add: bit_take_bit_iff)
  show ?thesis unfolding m
  proof (rule bit_word_eqI)
    fix k
    show "bit (push_bit 8 (ucast (ucast (take_bit 8 (drop_bit 8 sz)) :: u8)) OR ucast (ucast (take_bit 8 sz) :: u8) :: i32) k = bit (ucast sz :: i32) k"
      using low [of k] by (cases "k < 8") (auto simp: bit_simps)
  qed
qed

text \<open>A gate whose connection 0 has the id 17.\<close>

definition client_gate :: "world gate" where
  "client_gate = (demo_gate 0 0)\<lparr>g_agent := [None, Some 0],
     g_map := (g_map (demo_gate 0 0))[0 := (gate_conn (demo_gate 0 0) 0)\<lparr>c_uid := 17\<rparr>]\<rparr>"

text \<open>The packet as the receiver behind the gate sees it: two bytes of length, then the data.\<close>

definition frame :: "u64 \<Rightarrow> string \<Rightarrow> u8 list" where
  "frame sz bytes = [ucast (drop_bit 8 sz AND 0xff), ucast (sz AND 0xff)] @ map byte_of_char bytes"

lemma map_byte_of_to_char: "map byte_of_char (map byte_to_char ws) = map ucast ws"
  by (simp add: byte_of_to_char)

lemma client_packet_bytes:
  assumes "cl_id cl = map (\<lambda>k. drop_bit k uid AND 0xff) [0, 8, 16, 24]"
  shows "map byte_of_char (client_packet cl sz bytes) =
    map (\<lambda>k. ucast (drop_bit k uid AND 0xff)) [0, 8, 16, 24] @ frame sz bytes"
  unfolding client_packet_def map_append map_byte_of_to_char assms by (simp add: frame_def byte_of_to_char)

text \<open>
  C27: What a \<open>client\<close> service is sent comes out of the gate at the connection the service was made for:
  the callback sends one packet to the gate, the gate finds the connection by the id in front of it and
  pushes the rest to that connection, a two-byte length, read back as the size of the message, and the
  data.
\<close>

theorem client_to_gate:
  assumes "scan_ddd args = (fd, gate, uid)" "gate \<noteq> 0" "node_ctx n c \<noteq> None"
    and msg: "payload_bytes msg sz = Some bytes" "sz \<le> 65535" and g: "id_to_agent g uid = Some k"
  shows "\<exists>cl n1. client_init api c cb cl0 args n = Some (0, cl, n1) \<and>
    client_cb api c cl source msg sz n2 = do {
      (_, n3) \<leftarrow> skynet_send api c source gate (PTYPE_CLIENT OR PTYPE_TAG_DONTCOPY) 0
        (PBytes (client_packet cl sz bytes)) (sz + 6) n2;
      Some (0, n3)
    } \<and>
    gate_cb api os gc ptr PTYPE_CLIENT src (client_packet cl sz bytes) (g, gn) = do {
      m \<leftarrow> mread_push os (c_connection_id (gate_conn g k)) (frame sz bytes) ptr (g_pool g);
      Some (1, g\<lparr>g_pool := m\<rparr>, gn)
    } \<and>
    push_bit 8 (ucast (frame sz bytes ! 0)) OR ucast (frame sz bytes ! 1) = (ucast sz :: i32)"
proof -
  define cl where "cl = \<lparr>cl_gate = gate, cl_id = map (\<lambda>k. drop_bit k uid AND 0xff) [0, 8, 16, 24]\<rparr>"
  obtain n1 where n1: "skynet_callback c (Some cb) n = Some n1"
    using assms(3) by (auto simp: skynet_callback_def)
  have init: "client_init api c cb cl0 args n = Some (0, cl, n1)"
    using assms(1,2) n1 by (simp add: client_init_def cl_def)
  let ?b = "map (\<lambda>k. ucast (drop_bit k uid AND 0xff)) [0, 8, 16, 24] :: u8 list"
  have bytes: "map byte_of_char (client_packet cl sz bytes) = ?b @ frame sz bytes"
    by (rule client_packet_bytes) (simp add: cl_def)
  have "length (?b @ frame sz bytes) = 6 + length bytes" "drop 4 (?b @ frame sz bytes) = frame sz bytes"
    by (simp_all add: frame_def)
  then have "gate_client api os gc ptr src (?b @ frame sz bytes) (g, gn) = do {
      m \<leftarrow> mread_push os (c_connection_id (gate_conn g k)) (frame sz bytes) ptr (g_pool g);
      Some (1, g\<lparr>g_pool := m\<rparr>, gn)
    }"
    unfolding gate_client_def le32_bytes using g by (simp del: list.map)
  then have "gate_cb api os gc ptr PTYPE_CLIENT src (client_packet cl sz bytes) (g, gn) = do {
      m \<leftarrow> mread_push os (c_connection_id (gate_conn g k)) (frame sz bytes) ptr (g_pool g);
      Some (1, g\<lparr>g_pool := m\<rparr>, gn)
    }"
    unfolding gate_cb_def bytes by (simp add: PTYPE_CLIENT_def PTYPE_TEXT_def del: list.map)
  moreover have "client_cb api c cl source msg sz n2 = do {
      (_, n3) \<leftarrow> skynet_send api c source gate (PTYPE_CLIENT OR PTYPE_TAG_DONTCOPY) 0
        (PBytes (client_packet cl sz bytes)) (sz + 6) n2;
      Some (0, n3)
    }"
    using msg(1) leD [OF msg(2)] by (simp add: client_cb_def cl_def)
  moreover have "push_bit 8 (ucast (frame sz bytes ! 0)) OR ucast (frame sz bytes ! 1) = (ucast sz :: i32)"
    using be16_bytes [OF msg(2)] by (simp add: frame_def)
  ultimately show ?thesis using init by blast
qed

lemma client_to_gate_witness:
  "\<exists>cl n1. client_init demo_api 0 5 client_create ''9 2 17'' demo_node = Some (0, cl, n1) \<and>
     gate_cb demo_api demo_os 2 1 PTYPE_CLIENT 1 (client_packet cl 2 ''hi'') (client_gate, demo_node) =
       map_option (\<lambda>m. (1, client_gate\<lparr>g_pool := m\<rparr>, demo_node)) (mread_push demo_os 0 [0, 2, 104, 105] 1 (demo_pool 0))"
proof -
  have s: "scan_ddd ''9 2 17'' = (9, 2, 17)" by code_simp
  have n: "node_ctx demo_node 0 \<noteq> None" using demo_facts(1) by (auto split: option.splits)
  have b: "payload_bytes (PBytes ''hi'') 2 = Some ''hi''" by (simp add: payload_bytes_def)
  have g: "id_to_agent client_gate 17 = Some 0" by code_simp
  have f: "frame 2 ''hi'' = [0, 2, 104, 105]" by code_simp
  have p: "c_connection_id (gate_conn client_gate 0) = 0" "g_pool client_gate = demo_pool 0" by (simp_all add: client_gate_def gate_conn_def demo_gate_def)
  show ?thesis
    using client_to_gate [OF s _ n b _ g, of demo_api 5 client_create 9 demo_node demo_os 2 1 1 demo_node]
    by (auto simp: f p map_conv_bind_option comp_def)
qed

end
