(* ===== verification/Connection.thy ===== *)
theory Connection
  imports Services Mread
begin

text \<open>
  The service that reads from sockets for other services: \<open>connection/connection.c\<close> (a queue in front of
  \<open>epoll\<close>) and \<open>connection/main.c\<close> (the table of connections, its commands and its poll loop), in the
  build for Linux.  A pointer to a \<open>struct connection\<close> is its index in \<open>conn\<close>, also as the \<open>data\<close> of an
  event; the system calls are the record \<open>os\<close> of \<open>Mread\<close>.  \<open>None\<close> is a failed assertion, an access
  outside an array or through a null pointer, or a poll loop that does not end.
\<close>

unbundle bit_operations_syntax

section \<open>\<open>connection.c\<close>\<close>

definition EPOLLQUEUE :: nat where "EPOLLQUEUE = 32"

text \<open>\<open>queue_len\<close> is the length of \<open>cp_ev\<close>.\<close>

record connection_pool =
  cp_epoll_fd :: int
  cp_ev :: "event list"
  cp_queue_head :: nat

definition connection_newpool :: "'w os \<Rightarrow> int \<Rightarrow> 'w \<Rightarrow> connection_pool option \<times> 'w" where
  "connection_newpool os mx w =
     (let (fd, w) = os_epoll_create os mx w in
      if fd = -1 then (None, w) else (Some \<lparr>cp_epoll_fd = fd, cp_ev = [], cp_queue_head = 0\<rparr>, w))"

definition connection_deletepool :: "'w os \<Rightarrow> connection_pool \<Rightarrow> 'w \<Rightarrow> 'w" where
  "connection_deletepool os pool w = os_close os (cp_epoll_fd pool) w"

definition connection_add :: "'w os \<Rightarrow> connection_pool \<Rightarrow> int \<Rightarrow> nat \<Rightarrow> 'w \<Rightarrow> int \<times> 'w" where
  "connection_add os pool fd ud w =
     (let (r, w) = os_epoll_ctl os (cp_epoll_fd pool) (Ctl_Add (Client ud) False) fd w
      in (if r = -1 then 1 else 0, w))"

definition connection_del :: "'w os \<Rightarrow> connection_pool \<Rightarrow> int \<Rightarrow> 'w \<Rightarrow> 'w" where
  "connection_del os pool fd w = snd (os_epoll_ctl os (cp_epoll_fd pool) Ctl_Del fd w)"

definition epoll_read_queue :: "'w os \<Rightarrow> int \<Rightarrow> connection_pool \<Rightarrow> 'w \<Rightarrow> int \<times> connection_pool \<times> 'w" where
  "epoll_read_queue os timeout pool w =
     (case os_epoll_wait os (cp_epoll_fd pool) EPOLLQUEUE timeout w of
        (None, w) \<Rightarrow> (-1, pool\<lparr>cp_ev := [], cp_queue_head := 0\<rparr>, w)
      | (Some evs, w) \<Rightarrow> (int (length evs), pool\<lparr>cp_ev := evs, cp_queue_head := 0\<rparr>, w))"

text \<open>The next connection with an event; only connections are registered.\<close>

definition event_slot :: "event \<Rightarrow> nat option" where
  "event_slot e = (case ev_target e of Client i \<Rightarrow> Some i | Listen \<Rightarrow> None)"

definition next_event :: "connection_pool \<Rightarrow> (nat \<times> connection_pool) option" where
  "next_event pool = do {
     i \<leftarrow> event_slot (cp_ev pool ! cp_queue_head pool);
     Some (i, pool\<lparr>cp_queue_head := cp_queue_head pool + 1\<rparr>)
   }"

definition connection_poll ::
  "'w os \<Rightarrow> int \<Rightarrow> connection_pool \<Rightarrow> 'w \<Rightarrow> (nat option \<times> connection_pool \<times> 'w) option" where
  "connection_poll os timeout pool w =
     (if length (cp_ev pool) \<le> cp_queue_head pool then
        (let (r, pool, w) = epoll_read_queue os timeout pool w in
         if r \<le> 0 then Some (None, pool, w)
         else do { (i, pool) \<leftarrow> next_event pool; Some (Some i, pool, w) })
      else do { (i, pool) \<leftarrow> next_event pool; Some (Some i, pool, w) })"

section \<open>The table of connections\<close>

definition DEFAULT_BUFFER_SIZE :: int where "DEFAULT_BUFFER_SIZE = 1024"
definition DEFAULT_CONNECTION :: int where "DEFAULT_CONNECTION = 16"

record conn =
  cn_fd :: int
  cn_address :: u32
  cn_close :: bool

record 'w connection_server =
  cs_max :: int
  cs_current :: int
  cs_pool :: "connection_pool option"
  cs_ctx :: nat
  cs_conn :: "conn list"
  cs_world :: 'w

definition free_conn :: conn where "free_conn = \<lparr>cn_fd = 0, cn_address = 0, cn_close = False\<rparr>"

definition connection_create :: "'w \<Rightarrow> 'w connection_server" where
  "connection_create w = \<lparr>cs_max = 0, cs_current = 0, cs_pool = None, cs_ctx = 0, cs_conn = [], cs_world = w\<rparr>"

definition connection_release :: "'w os \<Rightarrow> 'w connection_server \<Rightarrow> 'w" where
  "connection_release os s =
     (case cs_pool s of None \<Rightarrow> cs_world s | Some pool \<Rightarrow> connection_deletepool os pool (cs_world s))"

definition conn_at :: "nat \<Rightarrow> 'w connection_server \<Rightarrow> conn option" where
  "conn_at i s = (if i < length (cs_conn s) then Some (cs_conn s ! i) else None)"

definition set_conn :: "nat \<Rightarrow> conn \<Rightarrow> 'w connection_server \<Rightarrow> 'w connection_server" where
  "set_conn i c s = s\<lparr>cs_conn := (cs_conn s)[i := c]\<rparr>"

definition server_add :: "'w os \<Rightarrow> int \<Rightarrow> nat \<Rightarrow> 'w connection_server \<Rightarrow> 'w connection_server option" where
  "server_add os fd i s = do {
     pool \<leftarrow> cs_pool s;
     let (err, w) = connection_add os pool fd i (cs_world s);
     c_assert (err = 0);
     Some (s\<lparr>cs_world := w\<rparr>)
   }"

definition server_del :: "'w os \<Rightarrow> int \<Rightarrow> 'w connection_server \<Rightarrow> 'w connection_server option" where
  "server_del os fd s = do {
     pool \<leftarrow> cs_pool s;
     Some (s\<lparr>cs_world := connection_del os pool fd (cs_world s)\<rparr>)
   }"

text \<open>The pool is made anew for twice as many connections; the array is not.\<close>

fun expand_loop :: "'w os \<Rightarrow> nat list \<Rightarrow> 'w connection_server \<Rightarrow> 'w connection_server option" where
  "expand_loop os [] s = Some s"
| "expand_loop os (i # is) s = do {
     c \<leftarrow> conn_at i s;
     s \<leftarrow> server_add os (cn_fd c) i s;
     expand_loop os is s
   }"

definition expand_server :: "'w os \<Rightarrow> 'w connection_server \<Rightarrow> 'w connection_server option" where
  "expand_server os s = do {
     pool \<leftarrow> cs_pool s;
     let (pool, w) = connection_newpool os (cs_max s * 2) (connection_deletepool os pool (cs_world s));
     s \<leftarrow> expand_loop os [0..<nat (cs_max s)] (s\<lparr>cs_pool := pool, cs_world := w\<rparr>);
     Some (s\<lparr>cs_max := cs_max s * 2\<rparr>)
   }"

text \<open>The search of \<open>_add\<close> and \<open>_del\<close>: \<open>Some None\<close> when no connection fits.\<close>

fun find_conn :: "(conn \<Rightarrow> bool) \<Rightarrow> nat list \<Rightarrow> 'w connection_server \<Rightarrow> nat option option" where
  "find_conn P [] s = Some None"
| "find_conn P (i # is) s = do {
     c \<leftarrow> conn_at i s;
     if P c then Some (Some i) else find_conn P is s
   }"

definition add_connection :: "'w os \<Rightarrow> int \<Rightarrow> u32 \<Rightarrow> 'w connection_server \<Rightarrow> 'w connection_server option" where
  "add_connection os fd address s = do {
     let s = s\<lparr>cs_current := cs_current s + 1\<rparr>;
     s \<leftarrow> (if cs_max s < cs_current s then expand_server os s else Some s);
     found \<leftarrow> find_conn (\<lambda>c. cn_address c = 0) [0..<nat (cs_max s)] s;
     i \<leftarrow> found;
     server_add os fd i (set_conn i \<lparr>cn_fd = fd, cn_address = address, cn_close = False\<rparr> s)
   }"

type_synonym 'w connection_state = "'w connection_server \<times> node"

text \<open>A message without data to the owner of a connection: the connection is closed.\<close>

definition send_client ::
  "module_api \<Rightarrow> u32 \<Rightarrow> payload \<Rightarrow> u64 \<Rightarrow> 'w connection_state \<Rightarrow> 'w connection_state option" where
  "send_client api address d sz sn = (case sn of (s, n) \<Rightarrow> do {
     (_, n) \<leftarrow> skynet_send api (cs_ctx s) 0 address (PTYPE_CLIENT OR PTYPE_TAG_DONTCOPY) 0 d sz n;
     Some (s, n)
   })"

definition del_connection :: "module_api \<Rightarrow> 'w os \<Rightarrow> int \<Rightarrow> 'w connection_state \<Rightarrow> 'w connection_state option" where
  "del_connection api os fd sn = (case sn of (s, n) \<Rightarrow> do {
     found \<leftarrow> find_conn (\<lambda>c. cn_fd c = fd) [0..<nat (cs_max s)] s;
     case found of
       None \<Rightarrow> do {
         n \<leftarrow> skynet_error api (Some (cs_ctx s)) (''[connection] Delete invalid handle '' @ sprintf_d (of_int fd)) n;
         Some (s, n)
       }
     | Some i \<Rightarrow> do {
         c \<leftarrow> conn_at i s;
         (s, n) \<leftarrow> (if cn_close c then Some (s, n) else do {
           (s, n) \<leftarrow> send_client api (cn_address c) PNull 0 (s, n);
           s \<leftarrow> server_del os fd s;
           Some (s, n)
         });
         let s = set_conn i free_conn s;
         Some (s\<lparr>cs_world := os_close os fd (cs_world s), cs_current := cs_current s - 1\<rparr>, n)
       }
   })"

section \<open>Polling\<close>

definition poll_again :: "module_api \<Rightarrow> 'w connection_state \<Rightarrow> 'w connection_state option" where
  "poll_again api sn = (case sn of (s, n) \<Rightarrow> do {
     (_, n) \<leftarrow> skynet_command api (cs_ctx s) ''TIMEOUT'' (Some ''1'') n;
     Some (s, n)
   })"

definition read_buffer :: "u8 list \<Rightarrow> payload" where
  "read_buffer bytes = PBytes (map byte_to_char bytes)"

text \<open>
  What is done for one connection with an event; the flag tells to leave the loop.  A result of \<open>read\<close>
  that is no error is the bytes it put into the buffer.
\<close>

definition serve :: "module_api \<Rightarrow> 'w os \<Rightarrow> nat \<Rightarrow> 'w connection_state \<Rightarrow> (bool \<times> 'w connection_state) option" where
  "serve api os i sn = (case sn of (s, n) \<Rightarrow> do {
     c \<leftarrow> conn_at i s;
     let (r, w) = os_read os (cn_fd c) DEFAULT_BUFFER_SIZE (cs_world s);
     let s = s\<lparr>cs_world := w\<rparr>;
     case r of
       Fail _ \<Rightarrow> Some (False, s, n)
     | Done bytes \<Rightarrow>
         if bytes \<noteq> [] then do {
           sn \<leftarrow> send_client api (cn_address c) (read_buffer bytes) (of_nat (length bytes)) (s, n);
           Some (False, sn)
         }
         else if cn_close c then do {
           sn \<leftarrow> poll_again api (s, n);
           Some (True, sn)
         }
         else do {
           (s, n) \<leftarrow> send_client api (cn_address c) PNull 0 (set_conn i (c\<lparr>cn_close := True\<rparr>) s, n);
           s \<leftarrow> server_del os (cn_fd c) s;
           Some (False, s, n)
         }
   })"

partial_function (option) server_poll_loop ::
  "module_api \<Rightarrow> 'w os \<Rightarrow> int \<Rightarrow> 'w connection_state \<Rightarrow> 'w connection_state option" where
  "server_poll_loop api os timeout sn = (case sn of (s, n) \<Rightarrow> do {
     pool \<leftarrow> cs_pool s;
     (next, pool, w) \<leftarrow> connection_poll os timeout pool (cs_world s);
     let s = s\<lparr>cs_pool := Some pool, cs_world := w\<rparr>;
     case next of
       None \<Rightarrow> poll_again api (s, n)
     | Some i \<Rightarrow> do {
         (stop, sn) \<leftarrow> serve api os i (s, n);
         if stop then Some sn else server_poll_loop api os 0 sn
       }
   })"

definition poll_connections :: "module_api \<Rightarrow> 'w os \<Rightarrow> 'w connection_state \<Rightarrow> 'w connection_state option" where
  "poll_connections api os sn = server_poll_loop api os 100 sn"

section \<open>Commands\<close>

text \<open>
  \<open>strtol(s, &endptr, 10)\<close>: the number and how many characters were used, none when there is no number.
  A text without a NUL or another character that ends the number is read past its end.
\<close>

definition strtol_end :: "string \<Rightarrow> (i64 \<times> nat) option" where
  "strtol_end s =
     (let (neg, r) = parse_sign (dropWhile isspace s); rest = snd (parse_digits 10 0 r) in
      if rest = [] then None
      else if starts_digit 10 r then Some (strtol10 s, length s - length rest)
      else Some (0, 0))"

definition invalid_command :: "module_api \<Rightarrow> string \<Rightarrow> u32 \<Rightarrow> i32 \<Rightarrow> 'w connection_state \<Rightarrow> (int \<times> 'w connection_state) option" where
  "invalid_command api what source session sn = (case sn of (s, n) \<Rightarrow> do {
     n \<leftarrow> skynet_error api (Some (cs_ctx s))
       (''[connection] Invalid '' @ what @ ''command from '' @ sprintf_x source @ '' (session = '' @ sprintf_d session @ '')'') n;
     Some (0, s, n)
   })"

text \<open>\<open>(const char * )msg\<close>: the block of the message, which may be longer than \<open>sz\<close>.\<close>

definition block_of :: "payload \<Rightarrow> u64 \<Rightarrow> string option" where
  "block_of msg sz = (case msg of
     PBytes s \<Rightarrow> if unat sz \<le> length s \<and> 4 \<le> length s then Some s else None
   | _ \<Rightarrow> None)"

text \<open>The address behind the number, which ends at \<open>endptr\<close>; the two characters before it are skipped.\<close>

definition add_address :: "string \<Rightarrow> nat \<Rightarrow> int \<Rightarrow> u32" where
  "add_address msg endptr addr_sz =
     (let addr = take (nat (addr_sz - 1)) (drop (endptr + 1) msg) @ [CHR 0x00]
      in ucast (strtoul16 (drop 1 addr)))"

definition connection_main ::
  "module_api \<Rightarrow> 'w os \<Rightarrow> i32 \<Rightarrow> i32 \<Rightarrow> u32 \<Rightarrow> payload \<Rightarrow> u64 \<Rightarrow> 'w connection_state \<Rightarrow> (int \<times> 'w connection_state) option" where
  "connection_main api os ty session source msg sz sn =
     (if ty = PTYPE_RESPONSE then map_option (Pair 0) (poll_connections api os sn)
      else do {
        c_assert (ty = PTYPE_TEXT);
        block \<leftarrow> block_of msg sz;
        if take 4 block = ''ADD '' then do {
          (fd, used) \<leftarrow> strtol_end (drop 4 block);
          let addr_sz = sint (ucast (sz - of_nat (4 + used)) :: i32);
          if addr_sz \<le> 1 then invalid_command api ''ADD '' source session sn
          else
            let address = add_address block (4 + used) addr_sz in
            if address = 0 then invalid_command api ''ADD '' source session sn
            else (case sn of (s, n) \<Rightarrow> do {
              s \<leftarrow> add_connection os (sint (ucast fd :: i32)) address s;
              Some (0, s, n)
            })
        }
        else if take 4 block = ''DEL '' then do {
          (fd, _) \<leftarrow> strtol_end (drop 4 block);
          map_option (Pair 0) (del_connection api os (sint (ucast fd :: i32)) sn)
        }
        else invalid_command api '''' source session sn
      })"

definition connection_init ::
  "module_api \<Rightarrow> 'w os \<Rightarrow> nat \<Rightarrow> nat \<Rightarrow> string \<Rightarrow> 'w connection_state \<Rightarrow> (int \<times> 'w connection_state) option" where
  "connection_init api os c cb param sn = (case sn of (s, n) \<Rightarrow>
     let (pool, w) = connection_newpool os DEFAULT_CONNECTION (cs_world s); s = s\<lparr>cs_pool := pool, cs_world := w\<rparr> in
     if pool = None then Some (1, s, n)
     else
       let mx = sint (ucast (strtol10 param) :: i32); mx = (if mx = 0 then DEFAULT_CONNECTION else mx) in do {
         c_assert (0 \<le> mx);
         n \<leftarrow> skynet_callback c (Some cb) n;
         (_, n) \<leftarrow> skynet_command api c ''REG'' (Some ''.connection'') n;
         (_, n) \<leftarrow> skynet_command api c ''TIMEOUT'' (Some ''0'') n;
         Some (0, s\<lparr>cs_max := mx, cs_current := 0, cs_ctx := c, cs_conn := replicate (nat mx) free_conn\<rparr>, n)
       })"

end
