(* ===== verification/ConnectionProps.thy ===== *)
theory ConnectionProps
  imports Connection ServiceProps TimerSpec
begin

text \<open>
  The connection service keeps a table from descriptors to the services that own them: what its
  commands do to it, as calls and as the texts the services send.
\<close>

unbundle bit_operations_syntax

section \<open>The table\<close>

definition live_conns :: "'w connection_server \<Rightarrow> conn list" where
  "live_conns s = filter (\<lambda>c. cn_address c \<noteq> 0) (cs_conn s)"

definition conn_table :: "'w connection_server \<Rightarrow> int \<Rightarrow> u32 option" where
  "conn_table s = map_of (map (\<lambda>c. (cn_fd c, cn_address c)) (live_conns s))"

definition conn_ok :: "'w connection_server \<Rightarrow> bool" where
  "conn_ok s \<longleftrightarrow> cs_pool s \<noteq> None \<and> cs_max s = int (length (cs_conn s)) \<and> cs_current s = int (length (live_conns s)) \<and>
     distinct (map cn_fd (live_conns s)) \<and> 0 \<notin> cn_fd ` set (live_conns s) \<and>
     (\<forall>c \<in> set (cs_conn s). cn_address c = 0 \<longrightarrow> c = free_conn)"

lemma conn_okD:
  assumes "conn_ok s"
  shows "cs_pool s \<noteq> None" "nat (cs_max s) = length (cs_conn s)" "cs_max s = int (length (cs_conn s))"
    "cs_current s = int (length (live_conns s))" "distinct (map cn_fd (live_conns s))" "0 \<notin> cn_fd ` set (live_conns s)"
    "\<And>c. c \<in> set (cs_conn s) \<Longrightarrow> cn_address c = 0 \<Longrightarrow> c = free_conn"
  using assms by (auto simp: conn_ok_def)

lemma live_conns_cong: "cs_conn s' = cs_conn s \<Longrightarrow> live_conns s' = live_conns s \<and> conn_table s' = conn_table s"
  by (simp add: live_conns_def conn_table_def)

lemma conn_ok_cong:
  "conn_ok s \<Longrightarrow> cs_conn s' = cs_conn s \<Longrightarrow> cs_max s' = cs_max s \<Longrightarrow> cs_current s' = cs_current s \<Longrightarrow> cs_pool s' \<noteq> None \<Longrightarrow> conn_ok s'"
  by (simp add: conn_ok_def live_conns_def)

lemma find_conn_eq:
  "\<forall>i \<in> set is. i < length (cs_conn s) \<Longrightarrow> find_conn P is s = Some (find (\<lambda>i. P (cs_conn s ! i)) is)"
  by (induction "is") (auto simp: conn_at_def)

lemma find_SomeD: "find Q xs = Some x \<Longrightarrow> x \<in> set xs \<and> Q x"
  by (induction xs) (auto split: if_splits)

lemma find_all:
  assumes "nat (cs_max s) = length (cs_conn s)"
  shows "(find_conn P [0..<nat (cs_max s)] s = Some None \<and> (\<forall>c \<in> set (cs_conn s). \<not> P c)) \<or>
    (\<exists>i < length (cs_conn s). find_conn P [0..<nat (cs_max s)] s = Some (Some i) \<and> P (cs_conn s ! i))"
proof -
  let ?r = "find (\<lambda>i. P (cs_conn s ! i)) [0..<length (cs_conn s)]"
  have eq: "find_conn P [0..<nat (cs_max s)] s = Some ?r" using assms by (simp add: find_conn_eq)
  show ?thesis
  proof (cases ?r)
    case None
    then have "\<forall>i < length (cs_conn s). \<not> P (cs_conn s ! i)" by (simp add: find_None_iff)
    then have "\<forall>c \<in> set (cs_conn s). \<not> P c" by (simp add: all_set_conv_all_nth)
    then show ?thesis using eq unfolding None by blast
  next
    case (Some i)
    have "i < length (cs_conn s)" "P (cs_conn s ! i)" using find_SomeD [OF Some] by simp_all
    then show ?thesis using eq unfolding Some by blast
  qed
qed

text \<open>The slots before and after the one that changes.\<close>

lemma set_conn_split:
  assumes "i < length (cs_conn s)"
  shows "cs_conn s = take i (cs_conn s) @ cs_conn s ! i # drop (Suc i) (cs_conn s)"
    "cs_conn (set_conn i c s) = take i (cs_conn s) @ c # drop (Suc i) (cs_conn s)"
  using assms by (simp_all add: set_conn_def id_take_nth_drop [symmetric] upd_conv_take_nth_drop)

lemma map_of_middle:
  "x \<notin> fst ` set xs \<Longrightarrow> map_of (xs @ (x, y) # ys) = (map_of (xs @ ys))(x \<mapsto> y)"
  by (rule ext) (auto simp: map_add_def map_of_eq_None_iff [symmetric] split: option.splits)

lemma map_of_remove:
  "x \<notin> fst ` set xs \<Longrightarrow> x \<notin> fst ` set ys \<Longrightarrow> map_of (xs @ ys) = (map_of (xs @ (x, y) # ys))(x := None)"
  by (rule ext) (auto simp: map_add_def map_of_eq_None_iff [symmetric] split: option.splits)

lemma claim_slot:
  assumes "conn_ok s" "i < length (cs_conn s)" "cn_address (cs_conn s ! i) = 0"
    and "a \<noteq> 0" "fd \<noteq> 0" "fd \<notin> dom (conn_table s)"
    and "s' = (set_conn i \<lparr>cn_fd = fd, cn_address = a, cn_close = b\<rparr> s)\<lparr>cs_current := cs_current s + 1\<rparr>"
  shows "conn_ok s' \<and> conn_table s' = (conn_table s)(fd \<mapsto> a) \<and> length (live_conns s') = Suc (length (live_conns s))"
proof -
  let ?c = "\<lparr>cn_fd = fd, cn_address = a, cn_close = b\<rparr>"
  define xs where "xs = filter (\<lambda>c. cn_address c \<noteq> 0) (take i (cs_conn s))"
  define ys where "ys = filter (\<lambda>c. cn_address c \<noteq> 0) (drop (Suc i) (cs_conn s))"
  have conns: "cs_conn s' = take i (cs_conn s) @ ?c # drop (Suc i) (cs_conn s)"
    using set_conn_split(2) [OF assms(2)] by (simp add: assms(7))
  have us: "live_conns s = xs @ ys"
    unfolding live_conns_def xs_def ys_def by (subst set_conn_split(1) [OF assms(2)]) (simp add: assms(3))
  have us': "live_conns s' = xs @ ?c # ys" unfolding live_conns_def conns using assms(4) by (simp add: xs_def ys_def)
  have new: "fd \<notin> cn_fd ` set (xs @ ys)"
    using assms(6) us by (auto simp: conn_table_def dom_map_of_conv_image_fst image_image)
  note ok = conn_okD [OF assms(1)]
  have "set (cs_conn s') \<subseteq> insert ?c (set (cs_conn s))"
    unfolding conns using set_take_subset [of i "cs_conn s"] set_drop_subset [of "Suc i" "cs_conn s"] by auto
  then have "conn_ok s'"
    using ok new us us' assms(4,5) by (auto simp: conn_ok_def assms(7) set_conn_def)
  moreover have "conn_table s' = (conn_table s)(fd \<mapsto> a)"
    using new us us' map_of_middle [of fd "map (\<lambda>c. (cn_fd c, cn_address c)) xs" a "map (\<lambda>c. (cn_fd c, cn_address c)) ys"]
    by (simp add: conn_table_def image_image image_Un)
  ultimately show ?thesis using us us' by simp
qed

lemma release_slot:
  assumes "conn_ok s" "i < length (cs_conn s)" "cn_fd (cs_conn s ! i) = fd" "fd \<noteq> 0"
    and "s' = (set_conn i free_conn s)\<lparr>cs_current := cs_current s - 1, cs_world := w\<rparr>"
  shows "conn_ok s' \<and> conn_table s' = (conn_table s)(fd := None)"
proof -
  let ?c = "cs_conn s ! i"
  define xs where "xs = filter (\<lambda>c. cn_address c \<noteq> 0) (take i (cs_conn s))"
  define ys where "ys = filter (\<lambda>c. cn_address c \<noteq> 0) (drop (Suc i) (cs_conn s))"
  note ok = conn_okD [OF assms(1)]
  have "cn_address ?c \<noteq> 0" using ok(7) [of ?c] assms(2,3,4) by (auto simp: free_conn_def)
  then have us: "live_conns s = xs @ ?c # ys"
    unfolding live_conns_def xs_def ys_def by (subst set_conn_split(1) [OF assms(2)]) simp
  have conns: "cs_conn s' = take i (cs_conn s) @ free_conn # drop (Suc i) (cs_conn s)"
    using set_conn_split(2) [OF assms(2)] by (simp add: assms(5))
  have us': "live_conns s' = xs @ ys" unfolding live_conns_def conns by (simp add: xs_def ys_def free_conn_def)
  have apart: "fd \<notin> cn_fd ` set xs" "fd \<notin> cn_fd ` set ys" using ok(5) assms(3) unfolding us by auto
  have "set (cs_conn s') \<subseteq> insert free_conn (set (cs_conn s))"
    unfolding conns using set_take_subset [of i "cs_conn s"] set_drop_subset [of "Suc i" "cs_conn s"] by auto
  then have "conn_ok s'"
    using ok us us' by (auto simp: conn_ok_def assms(5) set_conn_def)
  moreover have "conn_table s' = (conn_table s)(fd := None)"
    using apart us us' assms(3)
      map_of_remove [of fd "map (\<lambda>c. (cn_fd c, cn_address c)) xs" "map (\<lambda>c. (cn_fd c, cn_address c)) ys" "cn_address ?c"]
    by (simp add: conn_table_def image_image)
  ultimately show ?thesis by simp
qed

section \<open>Commands\<close>

text \<open>The system takes every registration.\<close>

definition registers :: "'w os \<Rightarrow> bool" where
  "registers os \<longleftrightarrow> (\<forall>e op fd w. fst (os_epoll_ctl os e op fd w) \<noteq> -1)"

lemma server_add_eq:
  assumes "registers os" "cs_pool s \<noteq> None"
  shows "\<exists>w. server_add os fd i s = Some (s\<lparr>cs_world := w\<rparr>)"
  using assms
  by (cases "cs_pool s") (auto simp: server_add_def connection_add_def registers_def Let_def split: prod.splits, metis fst_conv)

lemma world_ok:
  "conn_ok s \<Longrightarrow> conn_ok (s\<lparr>cs_world := w\<rparr>) \<and> conn_table (s\<lparr>cs_world := w\<rparr>) = conn_table s \<and>
    live_conns (s\<lparr>cs_world := w\<rparr>) = live_conns s"
  by (simp add: conn_ok_def live_conns_def conn_table_def)

lemma add_connection_ok:
  assumes "conn_ok s" "registers os" "fd \<noteq> 0" "a \<noteq> 0" "fd \<notin> dom (conn_table s)"
    and room: "length (live_conns s) < length (cs_conn s)"
  shows "\<exists>s'. add_connection os fd a s = Some s' \<and> conn_ok s' \<and> conn_table s' = (conn_table s)(fd \<mapsto> a) \<and>
    cs_ctx s' = cs_ctx s \<and> length (cs_conn s') = length (cs_conn s) \<and> cs_pool s' = cs_pool s"
proof -
  note ok = conn_okD [OF assms(1)]
  define s1 where "s1 = s\<lparr>cs_current := cs_current s + 1\<rparr>"
  have s1: "nat (cs_max s1) = length (cs_conn s1)" "cs_conn s1 = cs_conn s" "\<not> cs_max s1 < cs_current s1"
    using ok(2,3,4) room by (simp_all add: s1_def)
  have "\<not> (\<forall>c \<in> set (cs_conn s). cn_address c \<noteq> 0)"
  proof
    assume "\<forall>c \<in> set (cs_conn s). cn_address c \<noteq> 0"
    then have "live_conns s = cs_conn s" unfolding live_conns_def by (rule filter_True)
    then show False using room by simp
  qed
  then obtain i where i: "i < length (cs_conn s)" "find_conn (\<lambda>c. cn_address c = 0) [0..<nat (cs_max s1)] s1 = Some (Some i)"
      "cn_address (cs_conn s ! i) = 0"
    using find_all [OF s1(1), of "\<lambda>c. cn_address c = 0"] unfolding s1(2) by blast
  let ?c = "\<lparr>cn_fd = fd, cn_address = a, cn_close = False\<rparr>"
  have set1: "set_conn i ?c s1 = (set_conn i ?c s)\<lparr>cs_current := cs_current s + 1\<rparr>"
    by (simp add: set_conn_def s1_def)
  have claim: "conn_ok (set_conn i ?c s1)" "conn_table (set_conn i ?c s1) = (conn_table s)(fd \<mapsto> a)"
    using claim_slot [OF assms(1) i(1,3) assms(4,3,5) set1] by simp_all
  obtain w where w: "server_add os fd i (set_conn i ?c s1) = Some ((set_conn i ?c s1)\<lparr>cs_world := w\<rparr>)"
    using server_add_eq [OF assms(2)] conn_okD(1) [OF claim(1)] by blast
  have "add_connection os fd a s = Some ((set_conn i ?c s1)\<lparr>cs_world := w\<rparr>)"
    unfolding add_connection_def s1_def [symmetric] using s1(3) i(2) w by simp
  moreover have "cs_ctx (set_conn i ?c s1) = cs_ctx s" "length (cs_conn (set_conn i ?c s1)) = length (cs_conn s)"
      "cs_pool (set_conn i ?c s1) = cs_pool s"
    by (simp_all add: set_conn_def s1_def)
  ultimately show ?thesis using world_ok [OF claim(1), of w] claim(2)
    by (intro exI [of _ "(set_conn i ?c s1)\<lparr>cs_world := w\<rparr>"]) simp
qed

section \<open>Sending to the owners\<close>

definition client_message :: "u32 \<Rightarrow> payload \<Rightarrow> u64 \<Rightarrow> message" where
  "client_message source d sz = \<lparr>msg_source = source, msg_session = 0, msg_data = d, msg_sz = sz OR pack_type PTYPE_CLIENT\<rparr>"

definition reachable_service :: "node \<Rightarrow> u32 \<Rightarrow> bool" where
  "reachable_service n a \<longleftrightarrow> a \<noteq> 0 \<and> \<not> skynet_harbor_message_isremote a n \<and> lookup_ctx n a \<noteq> None"

text \<open>What the service changes of the node besides the mailboxes of the owners: its own session counter and result, and the timer.\<close>

definition same_addresses :: "node \<Rightarrow> node \<Rightarrow> bool" where
  "same_addresses n n' \<longleftrightarrow> node_ok n' \<and> lookup_ctx n' = lookup_ctx n \<and> node_harbor n' = node_harbor n \<and>
     map_option ctx_handle \<circ> node_ctx n' = map_option ctx_handle \<circ> node_ctx n"

lemma same_addresses_trans: "same_addresses n n' \<Longrightarrow> same_addresses n' n'' \<Longrightarrow> same_addresses n n''"
  by (simp add: same_addresses_def)

lemma same_addresses_reach: "same_addresses n n' \<Longrightarrow> reachable_service n' = reachable_service n"
  by (rule ext) (simp add: same_addresses_def reachable_service_def skynet_harbor_message_isremote_def)

lemma client_delivers:
  assumes "node_ok n" "node_ctx n c = Some ctx" "reachable_service n a" "unpack_size sz = sz"
  shows "\<exists>n'. skynet_send api c 0 a (PTYPE_CLIENT OR PTYPE_TAG_DONTCOPY) 0 d sz n = Some (0, n') \<and>
    same_addresses n n' \<and> node_timer n' = node_timer n \<and>
    (\<forall>c'. mailbox n' c' = mailbox n c' @ (if lookup_ctx n a = Some c' then [client_message (ctx_handle ctx) d sz] else []))"
proof -
  obtain c2 where c2: "lookup_ctx n a = Some c2" using assms(3) by (auto simp: reachable_service_def)
  obtain ctx2 q where q: "node_ctx n c2 = Some ctx2" "ctx_handle ctx2 = a" "ctx_live n c2 ctx2" "resolves n a c2 ctx2 q" "queue_ok q"
    by (rule lookup_live [OF assms(1) c2])
  have hq: "node_mq n (ctx_queue ctx2) = Some q" "mq_handle q = ctx_handle ctx2" using q(3,4) by (auto simp: resolves_def ctx_live_def)
  define m where "m = client_message (ctx_handle ctx) d sz"
  obtain g' q' where p: "skynet_mq_push (ctx_queue ctx2) m (node_gmq n, q) = Some (g', q')" "queue_ok q'" "mq_handle q' = mq_handle q"
      "mq_contents q' = mq_contents q @ [m]"
    using push_session_0 [OF q(5), of m "ctx_queue ctx2" "node_gmq n"] by (auto simp: m_def client_message_def)
  define n' where "n' = put_queue n (ctx_queue ctx2) (g', q')"
  have n': "node_ok n'" "same_services n n'" using put_queue_ok [OF assms(1) q(1) p(2)] p(3) hq(2) by (simp_all add: n'_def)
  have args: "filter_args c (PTYPE_CLIENT OR PTYPE_TAG_DONTCOPY) 0 sz n = Some (0, sz OR pack_type PTYPE_CLIENT, n)"
    using assms(4) by (simp add: filter_args_def PTYPE_TAG_def PTYPE_CLIENT_def PTYPE_TAG_DONTCOPY_def PTYPE_TAG_ALLOCSESSION_def)
  have "skynet_send api c 0 a (PTYPE_CLIENT OR PTYPE_TAG_DONTCOPY) 0 d sz n = Some (0, n')"
    using args assms(2,3) context_push_live [OF q(4) p(1), of api]
    by (simp add: skynet_send_def reachable_service_def n'_def m_def client_message_def)
  moreover have "mailbox n' c' = mailbox n c' @ (if lookup_ctx n a = Some c' then [m] else [])" for c'
    using mailbox_put [OF assms(1) q(1) hq(1), of g' q' c'] p(4) hq(1) q(1) c2 by (auto simp: n'_def mailbox_def)
  moreover have "same_addresses n n'"
    using n' same_services_handles [OF n'(2)] by (simp add: same_addresses_def same_services_def)
  ultimately show ?thesis by (intro exI [of _ n']) (simp add: m_def n'_def put_queue_def)
qed

lemma sprintf_d_length: "length (sprintf_d (x AND 0x7fffffff)) + 1 \<le> 32"
proof -
  have m: "(0x7fffffff :: u32) = mask 31" by (simp add: mask_eq_exp_minus_1)
  have "0 \<le> sint (x AND 0x7fffffff)"
    using sint_eq_unat [of "x AND mask 31"] by (simp add: m unat_mask_mod del: power_numeral)
  moreover have "sint (x AND 0x7fffffff) < 10 ^ Suc 9" using sint_less [of "x AND 0x7fffffff"] by simp
  ultimately have "length (print_base 10 (nat (sint (x AND 0x7fffffff)))) \<le> Suc 9"
    by (intro print_base_length) (simp_all add: nat_less_iff)
  then show ?thesis using \<open>0 \<le> sint _\<close> by (simp add: sprintf_d_def)
qed

definition clock_runs :: "node \<Rightarrow> bool" where
  "clock_runs n \<longleftrightarrow> unat (time (node_timer n)) + 1 < 2 ^ 32"

lemma timer_add_1:
  assumes "unat (time T) + 1 < 2 ^ 32"
  shows "\<exists>T'. timer_add h s 1 T = Some T'"
proof -
  let ?n = "\<lparr>te_handle = h, te_session = s, expire = 1 + time T\<rparr>"
  have "unat (expire ?n) = unat (time T) + 1" using assms by (simp add: unat_word_ariths)
  then have "add_node ?n T \<noteq> None" using add_node_place [of T ?n] by simp
  then show ?thesis by (simp add: timer_add_def)
qed

lemma set_ctx_mailbox:
  assumes "node_ok n" "node_ctx n c = Some ctx" "ctx_handle ctx' = ctx_handle ctx" "ctx_queue ctx' = ctx_queue ctx" "0 < ctx_ref ctx'"
  shows "same_addresses n (set_ctx c ctx' n) \<and> mailbox (set_ctx c ctx' n) = mailbox n"
proof
  show "same_addresses n (set_ctx c ctx' n)"
    using set_ctx_ok [OF assms] assms(2,3) by (auto simp: same_addresses_def set_ctx_def)
  show "mailbox (set_ctx c ctx' n) = mailbox n"
  proof
    fix x
    show "mailbox (set_ctx c ctx' n) x = mailbox n x"
      using assms(2,4) by (cases "x = c"; cases "node_ctx n x") (simp_all add: mailbox_def set_ctx_def)
  qed
qed

lemma poll_again_ok:
  assumes "node_ok n" "node_ctx n (cs_ctx s) = Some ctx" "clock_runs n"
  shows "\<exists>n'. poll_again api (s, n) = Some (s, n') \<and> same_addresses n n' \<and> mailbox n' = mailbox n"
proof -
  let ?c = "cs_ctx s"
  define session where "session = (ctx_session_id ctx + 1) AND 0x7fffffff"
  define ctx1 where "ctx1 = ctx\<lparr>ctx_session_id := ctx_session_id ctx + 1\<rparr>"
  define n1 where "n1 = set_ctx ?c ctx1 n"
  have ref: "0 < ctx_ref ctx" using node_okD(2) [OF assms(1,2)] by (simp add: ctx_live_def)
  have new: "skynet_context_newsession ?c n = Some (session, n1)"
    using assms(2) by (simp add: skynet_context_newsession_def n1_def session_def ctx1_def Let_def)
  have n1: "same_addresses n n1" "mailbox n1 = mailbox n" "node_ctx n1 ?c = Some ctx1" "node_timer n1 = node_timer n" "node_ok n1"
    using set_ctx_mailbox [OF assms(1,2), of ctx1] ref by (simp_all add: n1_def ctx1_def same_addresses_def) (simp_all add: set_ctx_def)
  obtain T where T: "timer_add (ctx_handle ctx1) session 1 (node_timer n1) = Some T"
    using timer_add_1 [of "node_timer n1"] assms(3) n1(4) unfolding clock_runs_def by auto
  define n2 where "n2 = n1\<lparr>node_timer := T\<rparr>"
  have out: "node_timeout api (ctx_handle ctx1) 1 session n1 = Some (session, n2)"
    using T by (simp add: node_timeout_def skynet_timeout_def n2_def)
  have n2: "same_addresses n1 n2" "mailbox n2 = mailbox n1" "node_ctx n2 ?c = Some ctx1" "node_ok n2"
    using node_ok_cong [OF n1(5), of n2] mailbox_cong [of n2 n1] same_services_handles [of n1 n2] n1(3)
    by (simp_all add: same_addresses_def n2_def same_services_def)
  define n3 where "n3 = set_ctx ?c (ctx1\<lparr>ctx_result := sprintf_d session\<rparr>) n2"
  have ans: "answer ?c (sprintf_d session) n2 = Some (Some (sprintf_d session), n3)"
    using n2(3) sprintf_d_length by (simp add: answer_def n3_def session_def)
  have n3: "same_addresses n2 n3" "mailbox n3 = mailbox n2"
    using set_ctx_mailbox [OF n2(4,3), of "ctx1\<lparr>ctx_result := sprintf_d session\<rparr>"] ref by (simp_all add: n3_def ctx1_def)
  have one: "strtol10 ''1'' = 1" by (simp add: strtol10_def parse_sign_def isspace_def digit_value_def)
  have "poll_again api (s, n) = Some (s, n3)"
    using new n1(3) out ans by (simp add: poll_again_def skynet_command_def cmd_timeout_def one)
  then show ?thesis using n1 n2 n3 same_addresses_trans by (metis (no_types))
qed

text \<open>The error of an unknown descriptor, and a removal.\<close>

lemma error_addresses:
  assumes "node_ok n" "node_ctx n c \<noteq> None"
  shows "\<exists>n'. skynet_error api (Some c) line n = Some n' \<and> same_addresses n n'"
proof -
  obtain n' where n': "skynet_error api (Some c) line n = Some n'" "node_ok n'" "same_services n n'"
    using error_ok [OF assms(1), of "Some c" api line] assms(2) by auto
  then have "same_addresses n n'" using same_services_handles [OF n'(3)] by (simp add: same_addresses_def same_services_def)
  then show ?thesis using n'(1) by blast
qed

lemma del_connection_ok:
  assumes "conn_ok s" "fd \<noteq> 0" "node_ok n" "node_ctx n (cs_ctx s) \<noteq> None"
    and "\<forall>c \<in> set (live_conns s). reachable_service n (cn_address c)"
  shows "\<exists>s' n'. del_connection api os fd (s, n) = Some (s', n') \<and> conn_ok s' \<and> conn_table s' = (conn_table s)(fd := None) \<and>
    cs_ctx s' = cs_ctx s \<and> length (cs_conn s') = length (cs_conn s) \<and> cs_pool s' = cs_pool s \<and> same_addresses n n'"
proof -
  note ok = conn_okD [OF assms(1)]
  obtain ctx where ctx: "node_ctx n (cs_ctx s) = Some ctx" using assms(4) by blast
  consider "find_conn (\<lambda>c. cn_fd c = fd) [0..<nat (cs_max s)] s = Some None" "\<forall>c \<in> set (cs_conn s). cn_fd c \<noteq> fd"
    | i where "i < length (cs_conn s)" "find_conn (\<lambda>c. cn_fd c = fd) [0..<nat (cs_max s)] s = Some (Some i)" "cn_fd (cs_conn s ! i) = fd"
    using find_all [OF ok(2), of "\<lambda>c. cn_fd c = fd"] by blast
  then show ?thesis
  proof cases
    case 1
    have "conn_table s fd = None" using 1(2) by (auto simp: conn_table_def live_conns_def map_of_eq_None_iff)
    then have "(conn_table s)(fd := None) = conn_table s" by (simp add: fun_upd_idem)
    moreover obtain n' where "skynet_error api (Some (cs_ctx s)) (''[connection] Delete invalid handle '' @ sprintf_d (of_int fd)) n = Some n'"
        "same_addresses n n'"
      using error_addresses [OF assms(3,4)] by blast
    ultimately show ?thesis
      using 1(1) assms(1) by (intro exI [of _ s] exI [of _ n']) (simp add: del_connection_def)
  next
    case (2 i)
    let ?c = "cs_conn s ! i"
    have "cn_address ?c \<noteq> 0" using ok(7) [of ?c] 2 assms(2) by (auto simp: free_conn_def)
    then have reach: "reachable_service n (cn_address ?c)" using assms(5) 2(1) by (simp add: live_conns_def)
    obtain n' where n': "send_client api (cn_address ?c) PNull 0 (s, n) = Some (s, n')" "same_addresses n n'"
      using client_delivers [OF assms(3) ctx reach, of 0 api PNull] by (auto simp: send_client_def unpack_size_def)
    obtain pool where "cs_pool s = Some pool" using ok(1) by blast
    then obtain w where "server_del os fd s = Some (s\<lparr>cs_world := w\<rparr>)" by (simp add: server_del_def)
    then obtain w n' where first: "(if cn_close ?c then Some (s, n) else do {
           (s, n) \<leftarrow> send_client api (cn_address ?c) PNull 0 (s, n);
           s \<leftarrow> server_del os fd s;
           Some (s, n)
         }) = Some (s\<lparr>cs_world := w\<rparr>, n')" "same_addresses n n'"
      using n' assms(3) by (cases "cn_close ?c") (auto simp: same_addresses_def intro: that [of "cs_world s" n])
    define s' where "s' = (set_conn i free_conn s)\<lparr>cs_current := cs_current s - 1, cs_world := os_close os fd w\<rparr>"
    have "del_connection api os fd (s, n) = Some (s', n')"
      using 2 first(1) by (simp add: del_connection_def conn_at_def s'_def set_conn_def)
    moreover have "cs_ctx s' = cs_ctx s" "length (cs_conn s') = length (cs_conn s)" "cs_pool s' = cs_pool s"
      by (simp_all add: s'_def set_conn_def)
    ultimately show ?thesis
      using release_slot [OF assms(1) 2(1,3) assms(2) s'_def] first(2) by (intro exI [of _ s'] exI [of _ n']) simp
  qed
qed

section \<open>The texts of the commands\<close>

lemma decimal_plain:
  assumes "hex_digits s" "s \<noteq> []"
  shows "dropWhile isspace (s @ r) = s @ r" "parse_sign (s @ r) = (False, s @ r)"
proof -
  obtain c s' where s: "s = c # s'" using assms(2) by (cases s) auto
  have "\<not> isspace c" using hex_digits_plain(1) [OF assms(1)] s unfolding dropWhile_eq_self_iff by simp
  moreover have "c \<noteq> CHR ''-''" "c \<noteq> CHR ''+''" using hex_digits_plain(2) [OF assms(1)] s by (auto simp: parse_sign_def split: if_splits)
  ultimately show "dropWhile isspace (s @ r) = s @ r" "parse_sign (s @ r) = (False, s @ r)" using s by (simp_all add: parse_sign_def)
qed

lemma hex_digits_print: "1 < b \<Longrightarrow> b \<le> 16 \<Longrightarrow> hex_digits (print_base b n)"
  using print_base_digits [of b n] by (fastforce simp: hex_digits_def)

lemma parse_printed:
  assumes "1 < b" "b \<le> 16" "digit_value c = None"
  shows "parse_digits b 0 (print_base b n @ c # r) = (n, c # r)"
  using parse_digits_append [OF print_base_digits [OF assms(1,2)], of 0 n "c # r"] parse_print [OF assms(1,2)] assms(3)
  by simp

lemma strtol_end_printed:
  assumes "0 \<le> sint fd" "digit_value c = None"
  shows "\<exists>v. strtol_end (sprintf_d fd @ c # r) = Some (v, length (sprintf_d fd)) \<and> sint (ucast v :: i32) = sint fd"
proof -
  define n where "n = nat (sint fd)"
  have fd: "sprintf_d fd = print_base 10 n" "sint fd = int n" using assms(1) by (simp_all add: sprintf_d_def n_def)
  have "n < 2 ^ 31" using sint_less [of fd] fd(2) by simp
  note plain = decimal_plain [OF hex_digits_print [of 10 n] print_base_not_empty, of "c # r"]
  note parsed = parse_printed [of 10 c n r]
  have digit: "starts_digit 10 (print_base 10 n @ c # r)"
  proof -
    obtain x xs where x: "print_base 10 n = x # xs" using print_base_not_empty by (metis neq_Nil_conv)
    then show ?thesis using print_base_digits [of 10 n] by (auto simp: starts_digit_def)
  qed
  have "strtol10 (print_base 10 n @ c # r) = of_int (int n)"
    using \<open>n < 2 ^ 31\<close> by (simp add: strtol10_def plain parsed assms(2) Let_def)
  moreover have "sint (ucast (of_int (int n) :: i64) :: i32) = sint fd"
  proof -
    have "ucast (of_int (int n) :: i64) = (of_int (sint fd) :: i32)"
      unfolding fd(2) by (rule bit_word_eqI) (simp add: bit_simps)
    then show ?thesis by simp
  qed
  ultimately show ?thesis
    using digit by (simp add: strtol_end_def plain parsed assms(2) fd(1) Let_def)
qed

lemma hex_prefix_x: "hex_prefix t \<Longrightarrow> CHR ''x'' \<in> set t \<or> CHR ''X'' \<in> set t"
  by (auto simp: hex_prefix_def split: list.splits)

lemma strtoul_sprintf_x_end: "ucast (strtoul16 (sprintf_x a @ [CHR 0x00])) = a"
proof -
  have nul: "digit_value (CHR 0x00) = None" by (simp add: digit_value_def)
  let ?s = "print_base 16 (unat a)"
  note plain = decimal_plain [OF hex_digits_print [of 16 "unat a"] print_base_not_empty, of "[CHR 0x00]"]
  have "x \<noteq> CHR ''x'' \<and> x \<noteq> CHR ''X''" if "x \<in> set (?s @ [CHR 0x00])" for x
    using that hex_digits_print [of 16 "unat a"] by (auto simp: hex_digits_def digit_value_def Let_def split: if_splits)
  then have "\<not> hex_prefix (?s @ [CHR 0x00])" using hex_prefix_x [of "?s @ [CHR 0x00]"] by blast
  moreover have "unat a < 2 ^ 64" using unsigned_less [of a, where ?'a = nat] by simp
  ultimately have "strtoul16 (sprintf_x a @ [CHR 0x00]) = of_nat (unat a)"
    by (simp add: strtoul16_def sprintf_x_def plain parse_printed [of 16 "CHR 0x00"] nul Let_def)
  also have "\<dots> = ucast a" by simp
  finally show ?thesis by (simp only:) (rule bit_word_eqI, simp add: bit_simps)
qed

definition add_text :: "i32 \<Rightarrow> u32 \<Rightarrow> string" where "add_text fd a = ''ADD '' @ sprintf_d fd @ '' :'' @ sprintf_x a"
definition del_text :: "i32 \<Rightarrow> string" where "del_text fd = ''DEL '' @ sprintf_d fd"

text \<open>A text as \<open>skynet_send\<close> copies it: the characters, and a NUL that is not counted.\<close>

definition sent_text :: "string \<Rightarrow> payload" where "sent_text t = PBytes (t @ [CHR 0x00])"

lemma unat_small: "j < 2 ^ 31 \<Longrightarrow> unat (of_nat j :: u64) = j"
  by (simp add: unsigned_of_nat take_bit_nat_eq_self)

lemma sint_small: "j < 2 ^ 31 \<Longrightarrow> sint (ucast (of_nat j :: u64) :: i32) = int j"
proof -
  assume "j < 2 ^ 31"
  then have "unat (ucast (of_nat j :: u64) :: i32) = j" by (simp add: unsigned_ucast_eq unat_small take_bit_nat_eq_self)
  then show ?thesis using \<open>j < 2 ^ 31\<close> sint_eq_unat [of "ucast (of_nat j :: u64) :: i32"] by simp
qed

lemma main_add:
  assumes "0 \<le> sint fd" "a \<noteq> 0"
  shows "connection_main api os PTYPE_TEXT session source (sent_text (add_text fd a)) (of_nat (length (add_text fd a))) (s, n) =
    map_option (\<lambda>s. (0, s, n)) (add_connection os (sint fd) a s)"
proof -
  let ?x = "sprintf_x a @ [CHR 0x00]" and ?k = "length (sprintf_d fd)"
  obtain v where v: "strtol_end (sprintf_d fd @ CHR '' '' # CHR '':'' # ?x) = Some (v, ?k)" "sint (ucast v :: i32) = sint fd"
    using strtol_end_printed [OF assms(1), of "CHR '' ''" "CHR '':'' # ?x"] by (auto simp: digit_value_def)
  have len: "?k \<le> 10" "length (sprintf_x a) \<le> 8"
    using assms(1) sint_less [of fd] print_base_length [of 10 "nat (sint fd)" 9] sprintf_x_length [of a]
    by (simp_all add: sprintf_d_def)
  have block: "block_of (sent_text (add_text fd a)) (of_nat (length (add_text fd a))) =
      Some (''ADD '' @ sprintf_d fd @ CHR '' '' # CHR '':'' # ?x)"
    using unat_small [of "length (add_text fd a)"] len by (simp add: block_of_def sent_text_def add_text_def)
  have "(of_nat (length (add_text fd a)) :: u64) - of_nat (4 + ?k) = of_nat (2 + length (sprintf_x a))"
    by (simp add: add_text_def)
  then have "sint (ucast ((of_nat (length (add_text fd a)) :: u64) - of_nat (4 + ?k)) :: i32) = int (2 + length (sprintf_x a))"
    using sint_small [of "2 + length (sprintf_x a)"] len(2) by (simp only:) simp
  moreover have "drop (4 + ?k + 1) ((''ADD '' @ sprintf_d fd @ '' '') @ CHR '':'' # ?x) = CHR '':'' # ?x"
    by (subst drop_append) simp
  then have "add_address (''ADD '' @ sprintf_d fd @ CHR '' '' # CHR '':'' # ?x) (4 + ?k) (int (2 + length (sprintf_x a))) = a"
    using strtoul_sprintf_x_end [of a] by (simp add: add_address_def nat_add_distrib del: drop_append)
  moreover have "take 4 (''ADD '' @ sprintf_d fd @ CHR '' '' # CHR '':'' # ?x) = ''ADD ''"
      "drop 4 (''ADD '' @ sprintf_d fd @ CHR '' '' # CHR '':'' # ?x) = sprintf_d fd @ CHR '' '' # CHR '':'' # ?x" by simp_all
  ultimately show ?thesis
    unfolding connection_main_def block
    using v assms(2) by (simp add: PTYPE_TEXT_def PTYPE_RESPONSE_def Let_def map_conv_bind_option comp_def)
qed

lemma main_del:
  assumes "0 \<le> sint fd"
  shows "connection_main api os PTYPE_TEXT session source (sent_text (del_text fd)) (of_nat (length (del_text fd))) sn =
    map_option (Pair 0) (del_connection api os (sint fd) sn)"
proof -
  obtain v where v: "strtol_end (sprintf_d fd @ [CHR 0x00]) = Some (v, length (sprintf_d fd))" "sint (ucast v :: i32) = sint fd"
    using strtol_end_printed [OF assms(1), of "CHR 0x00" "[]"] by (auto simp: digit_value_def)
  have len: "length (sprintf_d fd) \<le> 10"
    using assms(1) sint_less [of fd] print_base_length [of 10 "nat (sint fd)" 9] by (simp add: sprintf_d_def)
  have block: "block_of (sent_text (del_text fd)) (of_nat (length (del_text fd))) = Some (''DEL '' @ sprintf_d fd @ [CHR 0x00])"
    using unat_small [of "length (del_text fd)"] len by (simp add: block_of_def sent_text_def del_text_def)
  show ?thesis
    unfolding connection_main_def block using v by (simp add: PTYPE_TEXT_def PTYPE_RESPONSE_def Let_def)
qed

text \<open>
  The commands of the connection service keep its table: \<open>ADD fd :address\<close>, as text, registers a new
  descriptor for the service with that address as long as there is room, and \<open>DEL fd\<close> removes it; all
  other descriptors stay with their owners.
\<close>

theorem connection_commands:
  assumes "conn_ok s" "registers os" "0 < sint fd" "node_ok n" "node_ctx n (cs_ctx s) \<noteq> None"
    and "\<forall>c \<in> set (live_conns s). reachable_service n (cn_address c)"
  shows "(a \<noteq> 0 \<and> sint fd \<notin> dom (conn_table s) \<and> length (live_conns s) < length (cs_conn s) \<longrightarrow>
      (\<exists>s'. connection_main api os PTYPE_TEXT session source (sent_text (add_text fd a)) (of_nat (length (add_text fd a))) (s, n) =
          Some (0, s', n) \<and> conn_ok s' \<and> conn_table s' = (conn_table s)(sint fd \<mapsto> a))) \<and>
    (\<exists>s' n'. connection_main api os PTYPE_TEXT session source (sent_text (del_text fd)) (of_nat (length (del_text fd))) (s, n) =
        Some (0, s', n') \<and> conn_ok s' \<and> conn_table s' = (conn_table s)(sint fd := None) \<and> same_addresses n n')"
proof (intro conjI impI)
  assume a: "a \<noteq> 0 \<and> sint fd \<notin> dom (conn_table s) \<and> length (live_conns s) < length (cs_conn s)"
  then show "\<exists>s'. connection_main api os PTYPE_TEXT session source (sent_text (add_text fd a)) (of_nat (length (add_text fd a))) (s, n) =
      Some (0, s', n) \<and> conn_ok s' \<and> conn_table s' = (conn_table s)(sint fd \<mapsto> a)"
    using add_connection_ok [OF assms(1,2), of "sint fd" a] main_add [of fd a api os session source s n] assms(3) by force
next
  show "\<exists>s' n'. connection_main api os PTYPE_TEXT session source (sent_text (del_text fd)) (of_nat (length (del_text fd))) (s, n) =
      Some (0, s', n') \<and> conn_ok s' \<and> conn_table s' = (conn_table s)(sint fd := None) \<and> same_addresses n n'"
    using del_connection_ok [OF assms(1) _ assms(4-6), of "sint fd" api os] main_del [of fd api os session source "(s, n)"] assms(3) by auto
qed

section \<open>Where the table goes wrong\<close>

text \<open>
  \<open>_expand\<close> makes room in the \<open>epoll\<close> set only: with every connection in use, one more makes \<open>_add\<close> run
  past the end of the array.
\<close>

lemma server_addD:
  assumes "server_add os fd i t = Some u"
  shows "cs_conn u = cs_conn t \<and> cs_max u = cs_max t"
proof -
  obtain pool where pool: "cs_pool t = Some pool" using assms by (cases "cs_pool t") (auto simp: server_add_def)
  obtain err w where "connection_add os pool fd i (cs_world t) = (err, w)" by force
  then show ?thesis using assms pool by (auto simp: server_add_def)
qed

lemma expand_loopD:
  "expand_loop os is t = Some t' \<Longrightarrow> cs_conn t' = cs_conn t \<and> cs_max t' = cs_max t"
proof (induction "is" arbitrary: t)
  case (Cons i "is")
  then obtain c :: conn and u where u: "server_add os (cn_fd c) i t = Some u" "expand_loop os is u = Some t'"
    by (auto simp: Option.bind_eq_Some_conv)
  show ?case using Cons.IH [OF u(2)] server_addD [OF u(1)] by simp
qed simp

lemma expand_serverD:
  assumes "expand_server os s = Some t"
  shows "cs_conn t = cs_conn s \<and> cs_max t = cs_max s * 2"
proof -
  obtain p where p: "cs_pool s = Some p" using assms by (cases "cs_pool s") (auto simp: expand_server_def)
  obtain pool w where "connection_newpool os (cs_max s * 2) (connection_deletepool os p (cs_world s)) = (pool, w)" by force
  then obtain u where "expand_loop os [0..<nat (cs_max s)] (s\<lparr>cs_pool := pool, cs_world := w\<rparr>) = Some u" "t = u\<lparr>cs_max := cs_max u * 2\<rparr>"
    using assms p by (auto simp: expand_server_def Option.bind_eq_Some_conv)
  then show ?thesis using expand_loopD by fastforce
qed

lemma search_overflow:
  assumes "\<forall>c \<in> set (cs_conn t). \<not> P c" "\<forall>i \<in> set xs. i < length (cs_conn t)"
  shows "find_conn P (xs @ length (cs_conn t) # is) t = None"
  using assms(2,1) by (induction xs) (auto simp: conn_at_def)

lemma expand_overflow:
  assumes "conn_ok s" "length (live_conns s) = length (cs_conn s)" "cs_conn s \<noteq> []"
  shows "add_connection os fd a s = None"
proof -
  note ok = conn_okD [OF assms(1)]
  have all: "\<forall>c \<in> set (cs_conn s). cn_address c \<noteq> 0"
  proof (intro ballI notI)
    fix c assume "c \<in> set (cs_conn s)" "cn_address c = 0"
    then show False using length_filter_less [of c "cs_conn s" "\<lambda>c. cn_address c \<noteq> 0"] assms(2) by (simp add: live_conns_def)
  qed
  define s1 where "s1 = s\<lparr>cs_current := cs_current s + 1\<rparr>"
  have "[0..<k + k] = [0..<k] @ k # [Suc k..<k + k]" if "0 < k" for k :: nat
    using that upt_add_eq_append [of 0 k k] upt_conv_Cons [of k "k + k"] by (simp del: upt_Suc)
  moreover have "nat (cs_max s * 2) = length (cs_conn s) + length (cs_conn s)" using ok(3) by simp
  ultimately have big: "[0..<nat (cs_max s * 2)] =
      [0..<length (cs_conn s)] @ length (cs_conn s) # [Suc (length (cs_conn s))..<length (cs_conn s) + length (cs_conn s)]"
    using assms(3) by simp
  have "(expand_server os s1 \<bind> (\<lambda>s. find_conn (\<lambda>c. cn_address c = 0) [0..<nat (cs_max s)] s \<bind> f s)) = None" for f
  proof (cases "expand_server os s1")
    case (Some t)
    then have "cs_conn t = cs_conn s \<and> cs_max t = cs_max s * 2" using expand_serverD [OF Some] by (simp add: s1_def)
    then show ?thesis using Some big all search_overflow [of t "\<lambda>c. cn_address c = 0" "[0..<length (cs_conn s)]"] by simp
  qed simp
  moreover have "cs_max s1 < cs_current s1" using ok(3,4) assms(2) by (simp add: s1_def)
  ultimately show ?thesis unfolding add_connection_def s1_def [symmetric] by simp
qed

end
