(* ===== verification/ConnectionPoll.thy ===== *)
theory ConnectionPoll
  imports ConnectionProps
begin

text \<open>
  The poll loop of the connection service: it passes on what it reads, in order, to the owners of the
  connections, and comes to an end when the system runs out of events.
\<close>

section \<open>Slots\<close>

definition slots :: "'w connection_server \<Rightarrow> (int \<times> u32) list" where
  "slots s = map (\<lambda>c. (cn_fd c, cn_address c)) (cs_conn s)"

definition closed_fds :: "'w connection_server \<Rightarrow> int set" where
  "closed_fds s = cn_fd ` {c \<in> set (cs_conn s). cn_close c}"

definition in_use :: "'w connection_server \<Rightarrow> nat \<Rightarrow> bool" where
  "in_use s i \<longleftrightarrow> i < length (cs_conn s) \<and> cn_address (cs_conn s ! i) \<noteq> 0"

lemma live_slots: "map (\<lambda>c. (cn_fd c, cn_address c)) (live_conns s) = filter (\<lambda>fa. snd fa \<noteq> 0) (slots s)"
  by (simp add: live_conns_def slots_def filter_map comp_def)

lemma same_slots:
  assumes "slots s' = slots s"
  shows "conn_table s' = conn_table s" "in_use s' = in_use s" "length (cs_conn s') = length (cs_conn s)"
    "length (live_conns s') = length (live_conns s)" "map cn_fd (live_conns s') = map cn_fd (live_conns s)"
    "cn_address ` set (live_conns s') = cn_address ` set (live_conns s)"
proof -
  have live: "map (\<lambda>c. (cn_fd c, cn_address c)) (live_conns s') = map (\<lambda>c. (cn_fd c, cn_address c)) (live_conns s)"
    by (simp add: live_slots assms)
  show "conn_table s' = conn_table s" by (simp add: conn_table_def live)
  show len: "length (cs_conn s') = length (cs_conn s)" using arg_cong [OF assms, of length] by (simp add: slots_def)
  show "in_use s' = in_use s"
  proof
    fix i
    have "i < length (cs_conn s) \<Longrightarrow> slots s' ! i = slots s ! i" using assms by simp
    then show "in_use s' i = in_use s i" using len by (auto simp: in_use_def slots_def)
  qed
  show "length (live_conns s') = length (live_conns s)" using arg_cong [OF live, of length] by simp
  show "map cn_fd (live_conns s') = map cn_fd (live_conns s)" using arg_cong [OF live, of "map fst"] by (simp add: comp_def)
  show "cn_address ` set (live_conns s') = cn_address ` set (live_conns s)"
    using arg_cong [OF live, of "set \<circ> map snd"] by (simp add: comp_def image_image)
qed

lemma slot_facts:
  assumes "conn_ok s" "in_use s i"
  shows "conn_table s (cn_fd (cs_conn s ! i)) = Some (cn_address (cs_conn s ! i))"
    "cn_fd (cs_conn s ! i) \<in> closed_fds s \<longleftrightarrow> cn_close (cs_conn s ! i)" "cs_conn s ! i \<in> set (live_conns s)"
proof -
  let ?c = "cs_conn s ! i"
  note ok = conn_okD [OF assms(1)]
  show live: "?c \<in> set (live_conns s)" using assms(2) by (simp add: in_use_def live_conns_def)
  show "conn_table s (cn_fd ?c) = Some (cn_address ?c)"
    unfolding conn_table_def using ok(5) live by (intro map_of_is_SomeI) (auto simp: comp_def)
  have "c = ?c" if "c \<in> set (cs_conn s)" "cn_close c" "cn_fd c = cn_fd ?c" for c
  proof -
    have "cn_address c \<noteq> 0" using ok(7) [OF that(1)] that(2) by (auto simp: free_conn_def)
    then have "c \<in> set (live_conns s)" using that(1) by (simp add: live_conns_def)
    then show ?thesis using ok(5) live that(3) by (auto simp: distinct_map dest: inj_onD)
  qed
  then show "cn_fd ?c \<in> closed_fds s \<longleftrightarrow> cn_close ?c"
    using assms(2) by (auto simp: closed_fds_def in_use_def)
qed

lemma close_slot:
  assumes "conn_ok s" "in_use s i" "c = cs_conn s ! i" "s' = set_conn i (c\<lparr>cn_close := True\<rparr>) s"
  shows "conn_ok s' \<and> slots s' = slots s \<and> closed_fds s' = insert (cn_fd c) (closed_fds s)"
proof -
  let ?c = "c\<lparr>cn_close := True\<rparr>"
  note ok = conn_okD [OF assms(1)]
  have i: "i < length (cs_conn s)" "cn_address c \<noteq> 0" using assms(2,3) by (auto simp: in_use_def)
  have conns: "cs_conn s' = (cs_conn s)[i := ?c]" by (simp add: assms(4) set_conn_def)
  have "slots s' = (slots s)[i := (cn_fd c, cn_address c)]" by (simp add: slots_def conns map_update)
  moreover have "slots s ! i = (cn_fd c, cn_address c)" using i(1) by (simp add: slots_def assms(3))
  ultimately have sl: "slots s' = slots s" by (metis list_update_id)
  have mem: "set (cs_conn s') \<subseteq> insert ?c (set (cs_conn s))" unfolding conns by (rule set_update_subset_insert)
  have "0 \<notin> cn_fd ` set (live_conns s')" using arg_cong [OF same_slots(5) [OF sl], of set] ok(6) by simp
  then have "conn_ok s'"
    using ok same_slots [OF sl] mem i(2) by (auto simp: conn_ok_def assms(4) set_conn_def)
  moreover have "closed_fds s' = insert (cn_fd c) (closed_fds s)"
  proof
    show "closed_fds s' \<subseteq> insert (cn_fd c) (closed_fds s)" using mem by (auto simp: closed_fds_def)
    have "?c \<in> {c \<in> set (cs_conn s'). cn_close c}" using i(1) by (simp add: conns set_update_memI)
    then have "cn_fd ?c \<in> closed_fds s'" unfolding closed_fds_def by (rule imageI)
    then have new: "cn_fd c \<in> closed_fds s'" by simp
    have "cn_fd d \<in> closed_fds s'" if d: "d \<in> set (cs_conn s)" "cn_close d" for d
    proof (cases "d = c")
      case True
      then show ?thesis using new by simp
    next
      case False
      obtain j where "j < length (cs_conn s)" "d = cs_conn s ! j" using d(1) by (auto simp: in_set_conv_nth)
      then have "d \<in> set (cs_conn s')" using False assms(3) by (cases "j = i") (auto simp: conns in_set_conv_nth intro: exI [of _ j])
      then show ?thesis using d(2) by (auto simp: closed_fds_def)
    qed
    then show "insert (cn_fd c) (closed_fds s) \<subseteq> closed_fds s'" using new by (auto simp: closed_fds_def)
  qed
  ultimately show ?thesis using sl by simp
qed

section \<open>The system the poll loop runs on\<close>

text \<open>
  What the loop relies on.  \<open>L\<close> is the log of what has been read from every descriptor; a read gives no
  more bytes than there is room for.
\<close>

definition logs :: "'w os \<Rightarrow> ('w \<Rightarrow> (int \<times> u8 list) list) \<Rightarrow> bool" where
  "logs os L \<longleftrightarrow>
     (\<forall>fd k w r w'. os_read os fd k w = (r, w') \<longrightarrow>
        (case r of Done b \<Rightarrow> L w' = L w @ [(fd, b)] \<and> int (length b) \<le> k | Fail _ \<Rightarrow> L w' = L w)) \<and>
     (\<forall>e k t w r w'. os_epoll_wait os e k t w = (r, w') \<longrightarrow> L w' = L w) \<and>
     (\<forall>e op fd w r w'. os_epoll_ctl os e op fd w = (r, w') \<longrightarrow> L w' = L w)"

text \<open>Events are reported for connections that are in the table only, and not for ever.\<close>

definition reports :: "'w os \<Rightarrow> (nat \<Rightarrow> bool) \<Rightarrow> bool" where
  "reports os U \<longleftrightarrow> (\<forall>e k t w evs w'. os_epoll_wait os e k t w = (Some evs, w') \<longrightarrow>
     (\<forall>ev \<in> set evs. \<exists>i. ev_target ev = Client i \<and> U i))"

definition runs_out :: "'w os \<Rightarrow> ('w \<Rightarrow> nat) \<Rightarrow> bool" where
  "runs_out os \<mu> \<longleftrightarrow>
     (\<forall>e k t w evs w'. os_epoll_wait os e k t w = (Some evs, w') \<longrightarrow> evs \<noteq> [] \<longrightarrow> \<mu> w' < \<mu> w) \<and>
     (\<forall>fd k w r w'. os_read os fd k w = (r, w') \<longrightarrow> \<mu> w' \<le> \<mu> w) \<and>
     (\<forall>e op fd w r w'. os_epoll_ctl os e op fd w = (r, w') \<longrightarrow> \<mu> w' \<le> \<mu> w)"

text \<open>
  What the owners are to get for a log: a message for every read, the one without data for the first
  end of the stream of a connection; at a second one the loop is left.
\<close>

fun owner_messages :: "u32 \<Rightarrow> (int \<Rightarrow> u32 option) \<Rightarrow> int set \<Rightarrow> (int \<times> u8 list) list \<Rightarrow> (u32 \<times> message) list" where
  "owner_messages source table closed [] = []"
| "owner_messages source table closed ((fd, b) # log) =
     (if b = [] \<and> fd \<in> closed then []
      else (the (table fd), client_message source (if b = [] then PNull else read_buffer b) (of_nat (length b)))
        # owner_messages source table (if b = [] then insert fd closed else closed) log)"

definition delivered :: "node \<Rightarrow> (u32 \<times> message) list \<Rightarrow> nat \<Rightarrow> message list" where
  "delivered n ms d = map snd (filter (\<lambda>(a, _). lookup_ctx n a = Some d) ms)"

definition serving :: "'w connection_server \<Rightarrow> node \<Rightarrow> bool" where
  "serving s n \<longleftrightarrow> conn_ok s \<and> node_ok n \<and> node_ctx n (cs_ctx s) \<noteq> None \<and> clock_runs n \<and>
     (\<forall>a \<in> cn_address ` set (live_conns s). reachable_service n a)"

definition server_handle :: "'w connection_server \<Rightarrow> node \<Rightarrow> u32" where
  "server_handle s n = (case node_ctx n (cs_ctx s) of Some ctx \<Rightarrow> ctx_handle ctx | None \<Rightarrow> 0)"

text \<open>What one turn of the loop leaves as it was.\<close>

definition table_kept :: "'w connection_server \<times> node \<Rightarrow> 'w connection_server \<times> node \<Rightarrow> bool" where
  "table_kept = (\<lambda>(s, n) (s', n'). slots s' = slots s \<and> cs_ctx s' = cs_ctx s \<and> conn_ok s' \<and> same_addresses n n')"

lemma table_kept_serving:
  assumes "table_kept (s, n) (s', n')" "serving s n" "clock_runs n'"
  shows "serving s' n'" "server_handle s' n' = server_handle s n" "conn_table s' = conn_table s" "in_use s' = in_use s"
    "delivered n' = delivered n"
proof -
  have k: "slots s' = slots s" "cs_ctx s' = cs_ctx s" "conn_ok s'" "same_addresses n n'" using assms(1) by (simp_all add: table_kept_def)
  have h: "map_option ctx_handle (node_ctx n' c) = map_option ctx_handle (node_ctx n c)" for c
    using k(4) by (simp add: same_addresses_def fun_eq_iff)
  have "node_ctx n' (cs_ctx s) \<noteq> None" using h [of "cs_ctx s"] assms(2) by (auto simp: serving_def)
  then show "serving s' n'"
    using assms(2,3) k same_slots(6) [OF k(1)] same_addresses_reach [OF k(4)] by (simp add: serving_def same_addresses_def)
  show "server_handle s' n' = server_handle s n"
    using h [of "cs_ctx s"] k(2) by (auto simp: server_handle_def split: option.splits)
  show "conn_table s' = conn_table s" "in_use s' = in_use s" using same_slots [OF k(1)] by simp_all
  show "delivered n' = delivered n" using k(4) by (intro ext) (simp add: delivered_def same_addresses_def)
qed

lemma table_kept_trans: "table_kept a b \<Longrightarrow> table_kept b c \<Longrightarrow> table_kept a c"
  by (cases a; cases b; cases c) (auto simp: table_kept_def intro: same_addresses_trans)

lemma send_client_ok:
  assumes "serving s n" "reachable_service n a" "unpack_size sz = sz"
  shows "\<exists>n'. send_client api a d sz (s, n) = Some (s, n') \<and> same_addresses n n' \<and> node_timer n' = node_timer n \<and>
    (\<forall>c. mailbox n' c = mailbox n c @ delivered n [(a, client_message (server_handle s n) d sz)] c)"
proof -
  obtain ctx where ctx: "node_ctx n (cs_ctx s) = Some ctx" using assms(1) by (auto simp: serving_def)
  then show ?thesis
    using client_delivers [OF _ ctx assms(2,3), of api d] assms(1)
    by (auto simp: serving_def send_client_def delivered_def server_handle_def)
qed

section \<open>One turn of the loop\<close>

lemma small_size: "k \<le> 1024 \<Longrightarrow> unpack_size (of_nat k) = of_nat k"
proof -
  assume "k \<le> 1024"
  then have "unat (of_nat k :: u64) = k" by (simp add: unsigned_of_nat take_bit_nat_eq_self)
  then have "(of_nat k :: u64) AND mask 24 = of_nat k"
    using \<open>k \<le> 1024\<close> by (intro word_unat_eq_iff [THEN iffD2]) (simp add: unat_mask_mod)
  then show ?thesis by (simp add: unpack_size_def HANDLE_MASK_def mask_eq_exp_minus_1)
qed

lemma world_keeps: "conn_ok s \<Longrightarrow> node_ok n \<Longrightarrow> table_kept (s, n) (s\<lparr>cs_world := w\<rparr>, n) \<and> closed_fds (s\<lparr>cs_world := w\<rparr>) = closed_fds s"
  using world_ok [of s w] by (simp add: table_kept_def slots_def same_addresses_def closed_fds_def)

definition turn :: "('w \<Rightarrow> (int \<times> u8 list) list) \<Rightarrow> ('w \<Rightarrow> nat) \<Rightarrow> 'w connection_server \<times> node \<Rightarrow> bool \<Rightarrow> 'w connection_server \<times> node \<Rightarrow> (int \<times> u8 list) list \<Rightarrow> bool" where
  "turn L \<mu> sn stop sn' l \<longleftrightarrow> table_kept sn sn' \<and> cs_pool (fst sn') = cs_pool (fst sn) \<and>
     L (cs_world (fst sn')) = L (cs_world (fst sn)) @ l \<and> \<mu> (cs_world (fst sn')) \<le> \<mu> (cs_world (fst sn)) \<and>
     (let ms = owner_messages (server_handle (fst sn) (snd sn)) (conn_table (fst sn)) in
       (\<forall>d. mailbox (snd sn') d = mailbox (snd sn) d @ delivered (snd sn) (ms (closed_fds (fst sn)) l) d) \<and>
       (\<not> stop \<longrightarrow> node_timer (snd sn') = node_timer (snd sn) \<and>
         (\<forall>log. ms (closed_fds (fst sn)) (l @ log) = ms (closed_fds (fst sn)) l @ ms (closed_fds (fst sn')) log)))"

lemma serve_data:
  assumes "serving s n" "in_use s i" "c = cs_conn s ! i" "bytes \<noteq> []" "length bytes \<le> 1024"
    and "L w = L (cs_world s) @ [(cn_fd c, bytes)]" "\<mu> w \<le> \<mu> (cs_world s)"
  shows "\<exists>n'. send_client api (cn_address c) (read_buffer bytes) (of_nat (length bytes)) (s\<lparr>cs_world := w\<rparr>, n) =
      Some (s\<lparr>cs_world := w\<rparr>, n') \<and>
    turn L \<mu> (s, n) False (s\<lparr>cs_world := w\<rparr>, n') [(cn_fd c, bytes)]"
proof -
  let ?s = "s\<lparr>cs_world := w\<rparr>"
  have ok: "conn_ok s" "node_ok n" using assms(1) by (simp_all add: serving_def)
  have k: "table_kept (s, n) (?s, n)" "closed_fds ?s = closed_fds s" using world_keeps [OF ok] by simp_all
  have sv: "serving ?s n" "server_handle ?s n = server_handle s n" using table_kept_serving [OF k(1) assms(1)] assms(1) by (simp_all add: serving_def)
  have reach: "reachable_service n (cn_address c)" using assms(1,3) slot_facts(3) [OF ok(1) assms(2)] by (auto simp: serving_def)
  obtain n' where n': "send_client api (cn_address c) (read_buffer bytes) (of_nat (length bytes)) (?s, n) = Some (?s, n')" "same_addresses n n'"
      "node_timer n' = node_timer n"
      "\<And>d. mailbox n' d = mailbox n d @ delivered n [(cn_address c, client_message (server_handle s n) (read_buffer bytes) (of_nat (length bytes)))] d"
    using send_client_ok [OF sv(1) reach small_size [OF assms(5)], of api "read_buffer bytes"] sv(2) by auto
  have "table_kept (s, n) (?s, n')" using k(1) n'(2) by (simp add: table_kept_def)
  then show ?thesis
    using n' assms(4,6,7) k(2) slot_facts(1) [OF ok(1) assms(2)] by (auto simp: turn_def assms(3) Let_def)
qed

lemma serve_end:
  assumes "serving s n" "in_use s i" "c = cs_conn s ! i" "\<not> cn_close c" "logs os L" "runs_out os \<mu>"
    and "L w = L (cs_world s) @ [(cn_fd c, [])]" "\<mu> w \<le> \<mu> (cs_world s)"
  shows "\<exists>s' n'. do {
           (s, n) \<leftarrow> send_client api (cn_address c) PNull 0 (set_conn i (c\<lparr>cn_close := True\<rparr>) (s\<lparr>cs_world := w\<rparr>), n);
           s \<leftarrow> server_del os (cn_fd c) s;
           Some (False, s, n)
         } = Some (False, s', n') \<and> turn L \<mu> (s, n) False (s', n') [(cn_fd c, [])]"
proof -
  let ?s = "set_conn i (c\<lparr>cn_close := True\<rparr>) (s\<lparr>cs_world := w\<rparr>)"
  have ok: "conn_ok s" "node_ok n" using assms(1) by (simp_all add: serving_def)
  have w: "conn_ok (s\<lparr>cs_world := w\<rparr>)" "in_use (s\<lparr>cs_world := w\<rparr>) i" "slots (s\<lparr>cs_world := w\<rparr>) = slots s"
      "closed_fds (s\<lparr>cs_world := w\<rparr>) = closed_fds s" "c = cs_conn (s\<lparr>cs_world := w\<rparr>) ! i"
    using world_ok [OF ok(1), of w] assms(2,3) by (simp_all add: in_use_def slots_def closed_fds_def)
  note cl = close_slot [OF w(1,2,5) refl]
  have k: "table_kept (s, n) (?s, n)" using cl w(3) ok(2) by (simp add: table_kept_def same_addresses_def set_conn_def)
  have sv: "serving ?s n" "server_handle ?s n = server_handle s n" using table_kept_serving [OF k assms(1)] assms(1) by (simp_all add: serving_def)
  have reach: "reachable_service n (cn_address c)" using assms(1,3) slot_facts(3) [OF ok(1) assms(2)] by (auto simp: serving_def)
  have z: "unpack_size 0 = 0" using small_size [of 0] by simp
  obtain n' where n': "send_client api (cn_address c) PNull 0 (?s, n) = Some (?s, n')" "same_addresses n n'"
      "node_timer n' = node_timer n" "\<And>d. mailbox n' d = mailbox n d @ delivered n [(cn_address c, client_message (server_handle s n) PNull 0)] d"
    using send_client_ok [OF sv(1) reach z, of api PNull] sv(2) by auto
  obtain pool where pool: "cs_pool s = Some pool" using conn_okD(1) [OF ok(1)] by blast
  define s' where "s' = ?s\<lparr>cs_world := connection_del os pool (cn_fd c) w\<rparr>"
  have del: "server_del os (cn_fd c) ?s = Some s'" using pool by (simp add: server_del_def s'_def set_conn_def)
  have k': "table_kept (s, n) (s', n')" "closed_fds s' = insert (cn_fd c) (closed_fds s)" "cs_pool s' = cs_pool s"
    using world_keeps [of ?s n' "connection_del os pool (cn_fd c) w"] k n'(2) cl w(4)
    by (auto simp: s'_def table_kept_def same_addresses_def set_conn_def)
  obtain r w' where ctl: "os_epoll_ctl os (cp_epoll_fd pool) Ctl_Del (cn_fd c) w = (r, w')" by force
  then have "L (cs_world s') = L w" "\<mu> (cs_world s') \<le> \<mu> w"
    using assms(5,6) by (auto simp: s'_def connection_del_def logs_def runs_out_def)
  then have "turn L \<mu> (s, n) False (s', n') [(cn_fd c, [])]"
    using n' k' assms(3,4,7,8) slot_facts(1,2) [OF ok(1) assms(2)] by (auto simp: turn_def Let_def)
  then show ?thesis using n'(1) del by auto
qed

lemma serve_ok:
  assumes "serving s n" "in_use s i" "logs os L" "runs_out os \<mu>"
  shows "\<exists>stop s' n' l. serve api os i (s, n) = Some (stop, s', n') \<and> turn L \<mu> (s, n) stop (s', n') l"
proof -
  let ?c = "cs_conn s ! i"
  have ok: "conn_ok s" "node_ok n" using assms(1) by (simp_all add: serving_def)
  have at: "conn_at i s = Some ?c" using assms(2) by (simp add: conn_at_def in_use_def)
  obtain r w where read: "os_read os (cn_fd ?c) DEFAULT_BUFFER_SIZE (cs_world s) = (r, w)" by force
  have le: "\<mu> w \<le> \<mu> (cs_world s)" using assms(4) read by (auto simp: runs_out_def)
  show ?thesis
  proof (cases r)
    case (Fail e)
    then have "L w = L (cs_world s)" using assms(3) read unfolding logs_def by fastforce
    moreover have "serve api os i (s, n) = Some (False, s\<lparr>cs_world := w\<rparr>, n)" using at read Fail by (simp add: serve_def)
    ultimately show ?thesis
      using le world_keeps [OF ok, of w]
      by (intro exI [of _ False] exI [of _ "s\<lparr>cs_world := w\<rparr>"] exI [of _ n] exI [of _ "[]"]) (simp add: turn_def Let_def delivered_def)
  next
    case (Done b)
    then have b: "L w = L (cs_world s) @ [(cn_fd ?c, b)]" "length b \<le> 1024"
      using assms(3) read unfolding logs_def by (fastforce simp: DEFAULT_BUFFER_SIZE_def)+
    consider "b \<noteq> []" | "b = []" "\<not> cn_close ?c" | "b = []" "cn_close ?c" by blast
    then show ?thesis
    proof cases
      case 1
      then show ?thesis
        using serve_data [OF assms(1,2) refl 1 b(2), of L w \<mu> api] b(1) le at read Done
        by (auto simp: serve_def intro!: exI [of _ False])
    next
      case 2
      then obtain s' n' where "do {
           (s, n) \<leftarrow> send_client api (cn_address ?c) PNull 0 (set_conn i (?c\<lparr>cn_close := True\<rparr>) (s\<lparr>cs_world := w\<rparr>), n);
           s \<leftarrow> server_del os (cn_fd ?c) s;
           Some (False, s, n)
         } = Some (False, s', n')" "turn L \<mu> (s, n) False (s', n') [(cn_fd ?c, [])]"
        using serve_end [OF assms(1,2) refl 2(2) assms(3,4), of w api] b(1) le by auto
      then show ?thesis
        using at read Done 2 by (intro exI [of _ False] exI [of _ s'] exI [of _ n'] exI conjI) (simp_all add: serve_def)
    next
      case 3
      let ?s = "s\<lparr>cs_world := w\<rparr>"
      have k: "table_kept (s, n) (?s, n)" using world_keeps [OF ok] by simp
      obtain ctx where ctx: "node_ctx n (cs_ctx ?s) = Some ctx" using assms(1) by (auto simp: serving_def)
      obtain n' where n': "poll_again api (?s, n) = Some (?s, n')" "same_addresses n n'" "mailbox n' = mailbox n"
        using poll_again_ok [OF ok(2) ctx] assms(1) by (auto simp: serving_def)
      have "turn L \<mu> (s, n) True (?s, n') [(cn_fd ?c, [])]"
        using n' k le b(1) 3 slot_facts(2) [OF ok(1) assms(2)] by (simp add: turn_def table_kept_def Let_def delivered_def)
      then show ?thesis using at read Done 3 n'(1) by (fastforce simp: serve_def)
    qed
  qed
qed

section \<open>The whole loop\<close>

definition queue_in_use :: "(nat \<Rightarrow> bool) \<Rightarrow> connection_pool \<Rightarrow> bool" where
  "queue_in_use U pool \<longleftrightarrow> (\<forall>ev \<in> set (drop (cp_queue_head pool) (cp_ev pool)). \<exists>i. ev_target ev = Client i \<and> U i)"

lemma next_event_ok:
  assumes "queue_in_use U pool" "cp_queue_head pool < length (cp_ev pool)"
  shows "\<exists>i pool'. next_event pool = Some (i, pool') \<and> U i \<and> queue_in_use U pool' \<and> cp_ev pool' = cp_ev pool \<and>
    cp_queue_head pool' = Suc (cp_queue_head pool)"
proof -
  have d: "drop (cp_queue_head pool) (cp_ev pool) = cp_ev pool ! cp_queue_head pool # drop (Suc (cp_queue_head pool)) (cp_ev pool)"
    using assms(2) by (rule Cons_nth_drop_Suc [symmetric])
  then obtain i where "ev_target (cp_ev pool ! cp_queue_head pool) = Client i" "U i" using assms(1) by (auto simp: queue_in_use_def)
  then show ?thesis using assms(1) d by (auto simp: next_event_def event_slot_def queue_in_use_def)
qed

definition left :: "connection_pool \<Rightarrow> nat" where "left pool = length (cp_ev pool) - cp_queue_head pool"

lemma connection_poll_ok:
  assumes "queue_in_use U pool" "reports os U" "runs_out os \<mu>" "logs os L"
  shows "\<exists>r pool' w'. connection_poll os t pool w = Some (r, pool', w') \<and> queue_in_use U pool' \<and> L w' = L w \<and>
    (\<forall>i. r = Some i \<longrightarrow> U i \<and> (\<mu> w' < \<mu> w \<or> (\<mu> w' = \<mu> w \<and> left pool' < left pool)))"
proof (cases "cp_queue_head pool < length (cp_ev pool)")
  case True
  then show ?thesis
    using next_event_ok [OF assms(1) True] by (auto simp: connection_poll_def left_def)
next
  case False
  obtain r w' where wait: "os_epoll_wait os (cp_epoll_fd pool) EPOLLQUEUE t w = (r, w')" by force
  have L: "L w' = L w" using assms(4) wait unfolding logs_def by blast
  show ?thesis
  proof (cases "r = None \<or> r = Some []")
    case True
    then show ?thesis using wait L False by (auto simp: connection_poll_def epoll_read_queue_def queue_in_use_def)
  next
    case more: False
    then obtain evs where r: "r = Some evs" "evs \<noteq> []" by auto
    let ?p = "pool\<lparr>cp_ev := evs, cp_queue_head := 0\<rparr>"
    have "\<forall>ev \<in> set evs. \<exists>i. ev_target ev = Client i \<and> U i" using assms(2) wait r(1) unfolding reports_def by blast
    then have "queue_in_use U ?p" by (simp add: queue_in_use_def)
    moreover have "\<mu> w' < \<mu> w" using assms(3) wait r unfolding runs_out_def by blast
    ultimately show ?thesis
      using next_event_ok [of U ?p] wait L r False by (auto simp: connection_poll_def epoll_read_queue_def)
  qed
qed

lemma server_poll_loop_ok:
  assumes "logs os L" "runs_out os \<mu>" "reports os U"
  shows "serving s n \<Longrightarrow> in_use s = U \<Longrightarrow> cs_pool s = Some pool \<Longrightarrow> queue_in_use U pool \<Longrightarrow>
    \<exists>s' n' log. server_poll_loop api os t (s, n) = Some (s', n') \<and> table_kept (s, n) (s', n') \<and> L (cs_world s') = L (cs_world s) @ log \<and>
      (\<forall>d. mailbox n' d = mailbox n d @
         delivered n (owner_messages (server_handle s n) (conn_table s) (closed_fds s) log) d)"
proof (induction "(\<mu> (cs_world s), left pool)" arbitrary: s n pool t rule: wf_induct_rule [OF wf_lex_prod [OF wf_less_than wf_less_than]])
  case 1
  obtain r pool1 w where poll: "connection_poll os t pool (cs_world s) = Some (r, pool1, w)" "queue_in_use U pool1" "L w = L (cs_world s)"
      "\<And>i. r = Some i \<Longrightarrow> U i \<and> (\<mu> w < \<mu> (cs_world s) \<or> (\<mu> w = \<mu> (cs_world s) \<and> left pool1 < left pool))"
    using connection_poll_ok [OF 1(5) assms(3,2,1)] by blast
  define s1 where "s1 = s\<lparr>cs_pool := Some pool1, cs_world := w\<rparr>"
  have k1: "table_kept (s, n) (s1, n)" "closed_fds s1 = closed_fds s"
    using 1(2) by (simp_all add: table_kept_def s1_def slots_def serving_def conn_ok_def live_conns_def same_addresses_def closed_fds_def)
  have clock: "clock_runs n" using 1(2) by (simp add: serving_def)
  note s1 = table_kept_serving [OF k1(1) 1(2) clock]
  show ?case
  proof (cases r)
    case None
    obtain ctx where ctx: "node_ctx n (cs_ctx s1) = Some ctx" using s1(1) by (auto simp: serving_def)
    obtain n' where n': "poll_again api (s1, n) = Some (s1, n')" "same_addresses n n'" "mailbox n' = mailbox n"
      using poll_again_ok [OF _ ctx clock] s1(1) by (auto simp: serving_def)
    have "server_poll_loop api os t (s, n) = Some (s1, n')"
      using poll(1) None n'(1) 1(4) by (subst server_poll_loop.simps) (simp add: s1_def)
    moreover have "table_kept (s, n) (s1, n')" using k1(1) n'(2) by (simp add: table_kept_def)
    ultimately show ?thesis
      using n'(3) poll(3) by (intro exI [of _ s1] exI [of _ n'] exI [of _ "[]"]) (simp add: delivered_def s1_def)
  next
    case (Some i)
    have U: "in_use s1 i" using poll(4) [OF Some] s1(4) 1(3) by simp
    obtain stop s2 n2 l where serve: "serve api os i (s1, n) = Some (stop, s2, n2)" "turn L \<mu> (s1, n) stop (s2, n2) l"
      using serve_ok [OF s1(1) U assms(1,2)] by blast
    have k2: "table_kept (s1, n) (s2, n2)" "cs_pool s2 = Some pool1" "L (cs_world s2) = L (cs_world s) @ l" "\<mu> (cs_world s2) \<le> \<mu> w"
      using serve(2) poll(3) by (simp_all add: turn_def s1_def Let_def)
    have box: "mailbox n2 d = mailbox n d @ delivered n (owner_messages (server_handle s n) (conn_table s) (closed_fds s) l) d" for d
      using serve(2) s1 k1(2) by (simp add: turn_def Let_def)
    have unfold: "server_poll_loop api os t (s, n) = (if stop then Some (s2, n2) else server_poll_loop api os 0 (s2, n2))"
      using poll(1) Some serve(1) 1(4) by (subst server_poll_loop.simps) (simp add: s1_def)
    note k = table_kept_trans [OF k1(1) k2(1)]
    show ?thesis
    proof (cases stop)
      case True
      then show ?thesis using unfold k box k2(3) by auto
    next
      case False
      have t: "node_timer n2 = node_timer n"
        "\<And>log. owner_messages (server_handle s n) (conn_table s) (closed_fds s) (l @ log) =
          owner_messages (server_handle s n) (conn_table s) (closed_fds s) l @ owner_messages (server_handle s n) (conn_table s) (closed_fds s2) log"
        using serve(2) False s1 k1(2) by (simp_all add: turn_def Let_def)
      have c2: "clock_runs n2" using clock t(1) by (simp add: clock_runs_def)
      note s2 = table_kept_serving [OF k 1(2) c2]
      have less: "((\<mu> (cs_world s2), left pool1), (\<mu> (cs_world s), left pool)) \<in> less_than <*lex*> less_than"
        using poll(4) [OF Some] k2(4) by auto
      obtain s' n' log where rest: "server_poll_loop api os 0 (s2, n2) = Some (s', n')" "table_kept (s2, n2) (s', n')" "L (cs_world s') = L (cs_world s2) @ log"
          "\<And>d. mailbox n' d = mailbox n2 d @ delivered n2 (owner_messages (server_handle s2 n2) (conn_table s2) (closed_fds s2) log) d"
        using 1(1) [OF less s2(1) _ k2(2) poll(2), of 0] s2(4) 1(3) by auto
      have "delivered n (xs @ ys) d = delivered n xs d @ delivered n ys d" for xs ys d by (simp add: delivered_def)
      then have "mailbox n' d = mailbox n d @ delivered n (owner_messages (server_handle s n) (conn_table s) (closed_fds s) (l @ log)) d" for d
        using box rest(4) s2 t(2) by simp
      then show ?thesis
        using unfold False rest(1,3) table_kept_trans [OF k rest(2)] k2(3) by (intro exI [of _ s'] exI [of _ n'] exI [of _ "l @ log"]) simp
    qed
  qed
qed


section \<open>A server at work\<close>

text \<open>A system with one event for slot 0 and a peer that always sends \<open>hi\<close>; its state is the events left and the log.\<close>

definition poll_os :: "(nat \<times> (int \<times> u8 list) list) os" where
  "poll_os = \<lparr>os_socket = (\<lambda>w. (3, w)), os_getfl = (\<lambda>_ w. (0, w)), os_set_nonblock = (\<lambda>_ _ w. (0, w)),
     os_setsockopt = (\<lambda>_ _ w. w), os_bind = (\<lambda>_ _ _ w. (0, w)), os_listen = (\<lambda>_ _ w. (0, w)),
     os_accept = (\<lambda>_ w. ((-1, ([], 0)), w)), os_epoll_create = (\<lambda>_ w. (5, w)), os_epoll_ctl = (\<lambda>_ _ _ w. (0, w)),
     os_epoll_wait = (\<lambda>_ _ _ (k, l). if k = 0 then (Some [], (k, l))
       else (Some [\<lparr>ev_target = Client 0, ev_out = False, ev_in = True\<rparr>], (k - 1, l))),
     os_write = (\<lambda>_ b w. (Done (length b), w)),
     os_read = (\<lambda>fd room (k, l). if room < 2 then (Fail EOTHER, (k, l)) else (Done [104, 105], (k, l @ [(fd, [104, 105])]))),
     os_close = (\<lambda>_ w. w), os_malloc = (\<lambda>_ w. ([], w)), os_free = (\<lambda>_ w. w)\<rparr>"

definition demo_server :: "(nat \<times> (int \<times> u8 list) list) connection_server" where
  "demo_server = \<lparr>cs_max = 2, cs_current = 1, cs_pool = Some \<lparr>cp_epoll_fd = 5, cp_ev = [], cp_queue_head = 0\<rparr>, cs_ctx = 0,
     cs_conn = [\<lparr>cn_fd = 7, cn_address = 2, cn_close = False\<rparr>, free_conn], cs_world = (1, [])\<rparr>"

lemma demo_server_ok: "conn_ok demo_server"
  by (simp add: conn_ok_def demo_server_def live_conns_def free_conn_def)

lemma demo_owner: "\<exists>ctx. node_ctx demo_node 0 = Some ctx" "reachable_service demo_node 2"
proof -
  show "\<exists>ctx. node_ctx demo_node 0 = Some ctx" using demo_facts(1) by (auto split: option.splits)
  have "lookup_ctx demo_node 2 = Some 2" using grab_lookup [OF demo_node_ok, of 2] demo_facts(3) by simp
  then show "reachable_service demo_node 2"
    using demo_facts(6) by (simp add: reachable_service_def skynet_harbor_message_isremote_def HANDLE_MASK_def)
qed

lemma demo_clock: "time (node_timer demo_node) = 0"
  by code_simp

lemma demo_serving: "serving demo_server demo_node"
  using demo_server_ok demo_node_ok demo_owner demo_clock
  by (auto simp: serving_def clock_runs_def demo_server_def live_conns_def free_conn_def)

lemma demo_system: "logs poll_os snd" "runs_out poll_os fst" "reports poll_os (in_use demo_server)" "registers poll_os"
  by (auto simp: logs_def runs_out_def reports_def registers_def poll_os_def in_use_def demo_server_def split: if_splits)

lemma connection_commands_witness:
  "(\<exists>s'. connection_main demo_api poll_os PTYPE_TEXT 0 1 (sent_text (add_text 8 2)) (of_nat (length (add_text 8 2))) (demo_server, demo_node) =
      Some (0, s', demo_node) \<and> conn_table s' = [7 \<mapsto> 2, 8 \<mapsto> 2]) \<and>
   (\<exists>s' n'. connection_main demo_api poll_os PTYPE_TEXT 0 1 (sent_text (del_text 8)) (of_nat (length (del_text 8))) (demo_server, demo_node) =
      Some (0, s', n') \<and> conn_table s' = [7 \<mapsto> 2])"
proof -
  have table: "conn_table demo_server = [7 \<mapsto> 2]" by (simp add: conn_table_def live_conns_def demo_server_def free_conn_def)
  have room: "length (live_conns demo_server) < length (cs_conn demo_server)" by (simp add: live_conns_def demo_server_def free_conn_def)
  have reach: "\<forall>c \<in> set (live_conns demo_server). reachable_service demo_node (cn_address c)"
    using demo_serving by (simp add: serving_def)
  have ctx: "node_ctx demo_node (cs_ctx demo_server) \<noteq> None" using demo_owner(1) by (auto simp: demo_server_def)
  show ?thesis
    using connection_commands [where api = demo_api and session = 0 and source = 1 and a = 2 and fd = 8,
        OF demo_server_ok demo_system(4) _ demo_node_ok ctx reach] table room
    by (simp add: fun_upd_idem) blast
qed


text \<open>\<open>DEL 0\<close> finds an unused slot: descriptor 0 is closed and one connection less is counted than there are.\<close>

lemma delete_zero:
  "\<exists>s' n'. del_connection demo_api poll_os 0 (demo_server, demo_node) = Some (s', n') \<and> conn_table s' = [7 \<mapsto> 2] \<and> cs_current s' = 0"
proof -
  obtain ctx where ctx: "node_ctx demo_node 0 = Some ctx" using demo_owner(1) by blast
  have "\<exists>r n'. skynet_send demo_api 0 0 0 (PTYPE_CLIENT OR PTYPE_TAG_DONTCOPY) 0 PNull 0 demo_node = Some (r, n')"
    using ctx by (simp add: skynet_send_def filter_args_def PTYPE_TAG_def PTYPE_CLIENT_def PTYPE_TAG_DONTCOPY_def PTYPE_TAG_ALLOCSESSION_def unpack_size_def)
  then obtain r n' where "skynet_send demo_api 0 0 0 (PTYPE_CLIENT OR PTYPE_TAG_DONTCOPY) 0 PNull 0 demo_node = Some (r, n')" by blast
  moreover have "find_conn (\<lambda>c. cn_fd c = 0) [0..<nat (cs_max demo_server)] demo_server = Some (Some 1)"
    by (simp add: demo_server_def conn_at_def free_conn_def upt_conv_Cons)
  ultimately show ?thesis
    by (simp add: del_connection_def) (simp add: demo_server_def conn_at_def free_conn_def send_client_def server_del_def set_conn_def
        conn_table_def live_conns_def)
qed

end
