(* ===== verification/Start.thy ===== *)
theory Start
  imports Server
begin

text \<open>
  The start of a node and its threads: \<open>skynet_start.c\<close>, and the configuration \<open>main\<close> of \<open>skynet_main.c\<close>
  builds from the environment.  The environment after the configuration file was run is an argument
  (it is a Lua program), and so are the clock readings.  A thread is the sequence of its rounds; the
  rounds of different threads are run one after the other, what happens inside one is the matter of
  \<open>Scheduler\<close>.  \<open>None\<close> is, as elsewhere, a failed assertion or an access that is undefined.
\<close>

unbundle bit_operations_syntax

section \<open>The configuration\<close>

text \<open>\<open>optint\<close> and \<open>optstring\<close>: the value of a key, which is set to the default when it has none.\<close>

definition optint :: "string \<Rightarrow> i32 \<Rightarrow> node \<Rightarrow> (i32 \<times> node) option" where
  "optint key opt n = (case node_env n key of
     None \<Rightarrow> do { n \<leftarrow> skynet_setenv key (sprintf_d opt) n; Some (opt, n) }
   | Some str \<Rightarrow> Some (ucast (strtol10 str), n))"

definition optstring :: "string \<Rightarrow> string option \<Rightarrow> node \<Rightarrow> (string option \<times> node) option" where
  "optstring key opt n = (case node_env n key of
     None \<Rightarrow> (case opt of
        None \<Rightarrow> Some (None, n)
      | Some v \<Rightarrow> do { n \<leftarrow> skynet_setenv key v n; Some (Some v, n) })
   | Some str \<Rightarrow> Some (Some str, n))"

record skynet_config =
  cf_thread :: i32
  cf_harbor :: i32
  cf_logger :: "string option"
  cf_module_path :: "string option"
  cf_master :: "string option"
  cf_local :: "string option"
  cf_start :: "string option"
  cf_standalone :: "string option"

definition main_config :: "node \<Rightarrow> (skynet_config \<times> node) option" where
  "main_config n = do {
     (_, n) \<leftarrow> optstring ''lua_path'' (Some ''./lualib/?.lua;./lualib/?/init.lua'') n;
     (_, n) \<leftarrow> optstring ''lua_cpath'' (Some ''./luaclib/?.so'') n;
     (_, n) \<leftarrow> optstring ''luaservice'' (Some ''./service/?.lua'') n;
     (thread, n) \<leftarrow> optint ''thread'' 8 n;
     (module_path, n) \<leftarrow> optstring ''cpath'' (Some ''./service/?.so'') n;
     (logger, n) \<leftarrow> optstring ''logger'' None n;
     (harbor, n) \<leftarrow> optint ''harbor'' 1 n;
     (master, n) \<leftarrow> optstring ''master'' (Some ''127.0.0.1:2012'') n;
     (start, n) \<leftarrow> optstring ''start'' (Some ''main.lua'') n;
     (local, n) \<leftarrow> optstring ''address'' (Some ''127.0.0.1:2525'') n;
     (standalone, n) \<leftarrow> optstring ''standalone'' None n;
     (_, n) \<leftarrow> optint ''runasdaemon'' 0 n;
     (_, n) \<leftarrow> optint ''nofile'' 20000 n;
     Some (\<lparr>cf_thread = thread, cf_harbor = harbor, cf_logger = logger, cf_module_path = module_path,
            cf_master = master, cf_local = local, cf_start = start, cf_standalone = standalone\<rparr>, n)
   }"

section \<open>The start\<close>

text \<open>How \<open>skynet_start\<close> ends: it returns to \<open>main\<close>, leaves the process, or starts the threads with their monitors.\<close>

datatype start_result = Start_Return | Start_Exit | Start_Threads "skynet_monitor list"

definition start_master :: "module_api \<Rightarrow> string \<Rightarrow> node \<Rightarrow> (int \<times> node) option" where
  "start_master api master n = do {
     (ctx, n) \<leftarrow> skynet_context_new api ''master'' (Some master) n;
     Some (if ctx = None then 1 else 0, n)
   }"

definition start_launcher :: "module_api \<Rightarrow> string option \<Rightarrow> node \<Rightarrow> node option" where
  "start_launcher api start n = do {
     (ctx, n) \<leftarrow> skynet_context_new api ''snlua'' (Some ''launcher'') n;
     case ctx of
       None \<Rightarrow> Some n
     | Some c \<Rightarrow> do {
         (_, n) \<leftarrow> skynet_command api c ''REG'' (Some ''.launcher'') n;
         (_, n) \<leftarrow> skynet_context_new api ''snlua'' start n;
         Some n
       }
   }"

definition start_monitors :: "i32 \<Rightarrow> skynet_monitor list" where
  "start_monitors thread = replicate (nat (sint thread)) skynet_monitor_new"

definition start_services :: "module_api \<Rightarrow> skynet_config \<Rightarrow> node \<Rightarrow> (start_result \<times> node) option" where
  "start_services api config n = do {
     (ctx, n) \<leftarrow> skynet_context_new api ''logger'' (cf_logger config) n;
     if ctx = None then Some (Start_Exit, n)
     else do {
       (ctx, n) \<leftarrow> skynet_context_new api ''localcast'' None n;
       if ctx = None then Some (Start_Exit, n)
       else do {
         n \<leftarrow> start_launcher api (cf_start config) n;
         Some (Start_Threads (start_monitors (cf_thread config)), n)
       }
     }
   }"

definition skynet_start ::
  "module_api \<Rightarrow> skynet_config \<Rightarrow> u32 \<times> u32 \<times> u64 \<Rightarrow> (string \<Rightarrow> string option) \<Rightarrow> (start_result \<times> node) option" where
  "skynet_start api config clock env = (case clock of (sec, cs, point) \<Rightarrow> do {
     path \<leftarrow> cf_module_path config;
     let n = (node_start (cf_harbor config) path sec cs point)\<lparr>node_env := env\<rparr>;
     (err, n) \<leftarrow> (case cf_standalone config of
        None \<Rightarrow> Some (0, n)
      | Some master \<Rightarrow> start_master api master n);
     if err \<noteq> 0 then Some (Start_Return, n)
     else do {
       master \<leftarrow> cf_master config;
       local \<leftarrow> cf_local config;
       (err, n) \<leftarrow> skynet_harbor_start api master local n;
       if err \<noteq> 0 then Some (Start_Return, n) else start_services api config n
     }
   })"

section \<open>The threads\<close>

text \<open>\<open>CHECK_ABORT\<close>: a thread ends when no service is left.\<close>

definition check_abort :: "node \<Rightarrow> bool" where "check_abort n \<longleftrightarrow> node_total n = 0"

text \<open>One round of each kind of thread; the flag tells that the thread ends.\<close>

fun monitor_scan :: "module_api \<Rightarrow> skynet_monitor list \<Rightarrow> node \<Rightarrow> (skynet_monitor list \<times> node) option" where
  "monitor_scan api [] n = Some ([], n)"
| "monitor_scan api (sm # ms) n = do {
     (sm, n) \<leftarrow> skynet_monitor_check api (sm, n);
     (ms, n) \<leftarrow> monitor_scan api ms n;
     Some (sm # ms, n)
   }"

definition monitor_round :: "module_api \<Rightarrow> skynet_monitor list \<Rightarrow> node \<Rightarrow> (bool \<times> skynet_monitor list \<times> node) option" where
  "monitor_round api ms n = do {
     (ms, n) \<leftarrow> monitor_scan api ms n;
     Some (check_abort n, ms, n)
   }"

definition timer_round :: "module_api \<Rightarrow> u64 \<Rightarrow> node \<Rightarrow> (bool \<times> node) option" where
  "timer_round api cp n = do {
     n \<leftarrow> node_updatetime api cp n;
     Some (check_abort n, n)
   }"

definition worker_round :: "module_api \<Rightarrow> skynet_monitor \<Rightarrow> node \<Rightarrow> (bool \<times> skynet_monitor \<times> node) option" where
  "worker_round api sm n = do {
     (r, sm, n) \<leftarrow> skynet_context_message_dispatch api (sm, n);
     Some (r \<noteq> 0 \<and> check_abort n, sm, n)
   }"

text \<open>The process: which threads still run, the monitors of the workers, the node.\<close>

datatype thread = Monitor | Timer u64 | Worker nat

record process =
  ps_monitor :: bool
  ps_timer :: bool
  ps_workers :: "bool list"
  ps_monitors :: "skynet_monitor list"
  ps_node :: node

definition start_process :: "skynet_monitor list \<Rightarrow> node \<Rightarrow> process" where
  "start_process ms n = \<lparr>ps_monitor = True, ps_timer = True, ps_workers = replicate (length ms) True, ps_monitors = ms, ps_node = n\<rparr>"

fun process_round :: "module_api \<Rightarrow> thread \<Rightarrow> process \<Rightarrow> process option" where
  "process_round api Monitor p =
     (if ps_monitor p then do {
        (stop, ms, n) \<leftarrow> monitor_round api (ps_monitors p) (ps_node p);
        Some (p\<lparr>ps_monitor := \<not> stop, ps_monitors := ms, ps_node := n\<rparr>)
      } else Some p)"
| "process_round api (Timer cp) p =
     (if ps_timer p then do {
        (stop, n) \<leftarrow> timer_round api cp (ps_node p);
        Some (p\<lparr>ps_timer := \<not> stop, ps_node := n\<rparr>)
      } else Some p)"
| "process_round api (Worker i) p =
     (if i < length (ps_workers p) \<and> ps_workers p ! i then do {
        (stop, sm, n) \<leftarrow> worker_round api (ps_monitors p ! i) (ps_node p);
        Some (p\<lparr>ps_workers := (ps_workers p)[i := \<not> stop], ps_monitors := (ps_monitors p)[i := sm], ps_node := n\<rparr>)
      } else Some p)"

text \<open>\<open>pthread_join\<close> of all threads returns.\<close>

definition joined :: "process \<Rightarrow> bool" where
  "joined p \<longleftrightarrow> \<not> ps_monitor p \<and> \<not> ps_timer p \<and> \<not> (\<exists>b \<in> set (ps_workers p). b)"

fun process_run :: "module_api \<Rightarrow> thread list \<Rightarrow> process \<Rightarrow> process option" where
  "process_run api [] p = Some p"
| "process_run api (t # ts) p = do { p \<leftarrow> process_round api t p; process_run api ts p }"

end
