(* ===== verification/StartProps.thy ===== *)
theory StartProps
  imports Start NodeInv
begin

text \<open>
  Properties of the start: the configuration is the environment completed by the defaults, and the
  monitor of a worker reports exactly the message the worker has been busy with since the last look.
\<close>

unbundle bit_operations_syntax

section \<open>The configuration\<close>

definition string_defaults :: "(string \<times> string option) list" where
  "string_defaults = [(''lua_path'', Some ''./lualib/?.lua;./lualib/?/init.lua''), (''lua_cpath'', Some ''./luaclib/?.so''),
     (''luaservice'', Some ''./service/?.lua''), (''cpath'', Some ''./service/?.so''), (''logger'', None),
     (''master'', Some ''127.0.0.1:2012''), (''start'', Some ''main.lua''), (''address'', Some ''127.0.0.1:2525''),
     (''standalone'', None)]"

definition int_defaults :: "(string \<times> i32) list" where
  "int_defaults = [(''thread'', 8), (''harbor'', 1), (''runasdaemon'', 0), (''nofile'', 20000)]"

text \<open>The value of a key: what the environment says, else the default.\<close>

definition string_value :: "(string \<Rightarrow> string option) \<Rightarrow> string \<Rightarrow> string option" where
  "string_value env key = (case env key of Some v \<Rightarrow> Some v | None \<Rightarrow> the (map_of string_defaults key))"

definition int_value :: "(string \<Rightarrow> string option) \<Rightarrow> string \<Rightarrow> i32" where
  "int_value env key = (case env key of Some v \<Rightarrow> ucast (strtol10 v) | None \<Rightarrow> the (map_of int_defaults key))"

definition default_texts :: "string \<Rightarrow> string option" where
  "default_texts = map_of (map (\<lambda>(k, v). (k, sprintf_d v)) int_defaults @
     map (\<lambda>(k, v). (k, the v)) (filter (\<lambda>(k, v). v \<noteq> None) string_defaults))"

text \<open>The environment so far: the one of the start, completed by \<open>D\<close>.\<close>

lemma optstring_next:
  "D key = None \<Longrightarrow> optstring key (Some v) (n\<lparr>node_env := D ++ e\<rparr>) =
     Some (case e key of Some v \<Rightarrow> Some v | None \<Rightarrow> Some v, n\<lparr>node_env := D(key \<mapsto> v) ++ e\<rparr>)"
  "D key = None \<Longrightarrow> optstring key None (n\<lparr>node_env := D ++ e\<rparr>) = Some (e key, n\<lparr>node_env := D ++ e\<rparr>)"
  by (cases "e key"; auto simp: optstring_def skynet_setenv_def map_add_def fun_eq_iff intro!: arg_cong [of _ _ "\<lambda>x. n\<lparr>node_env := x\<rparr>"] split: option.splits)+

lemma optint_next:
  "D key = None \<Longrightarrow> optint key v (n\<lparr>node_env := D ++ e\<rparr>) =
     Some (case e key of Some v \<Rightarrow> ucast (strtol10 v) | None \<Rightarrow> v, n\<lparr>node_env := D(key \<mapsto> sprintf_d v) ++ e\<rparr>)"
  by (cases "e key") (auto simp: optint_def skynet_setenv_def map_add_def fun_eq_iff intro!: arg_cong [of _ _ "\<lambda>x. n\<lparr>node_env := x\<rparr>"] split: option.splits)

text \<open>
  The configuration \<open>main\<close> starts the node with is, key by key, the environment where it has a value
  and the default of \<open>skynet_main.c\<close> where it has none; afterwards every key with a default is set, and
  nothing that was set has changed.
\<close>

theorem main_config_correct:
  "main_config n = Some
     (\<lparr>cf_thread = int_value (node_env n) ''thread'', cf_harbor = int_value (node_env n) ''harbor'',
       cf_logger = string_value (node_env n) ''logger'', cf_module_path = string_value (node_env n) ''cpath'',
       cf_master = string_value (node_env n) ''master'', cf_local = string_value (node_env n) ''address'',
       cf_start = string_value (node_env n) ''start'', cf_standalone = string_value (node_env n) ''standalone''\<rparr>,
      n\<lparr>node_env := default_texts ++ node_env n\<rparr>)"
proof -
  have texts: "default_texts = [''lua_path'' \<mapsto> ''./lualib/?.lua;./lualib/?/init.lua'', ''lua_cpath'' \<mapsto> ''./luaclib/?.so'',
      ''luaservice'' \<mapsto> ''./service/?.lua'', ''thread'' \<mapsto> sprintf_d 8, ''cpath'' \<mapsto> ''./service/?.so'', ''harbor'' \<mapsto> sprintf_d 1,
      ''master'' \<mapsto> ''127.0.0.1:2012'', ''start'' \<mapsto> ''main.lua'', ''address'' \<mapsto> ''127.0.0.1:2525'',
      ''runasdaemon'' \<mapsto> sprintf_d 0, ''nofile'' \<mapsto> sprintf_d 20000]"
    by (simp add: default_texts_def int_defaults_def string_defaults_def fun_eq_iff)
  have vals: "int_value e ''thread'' = (case e ''thread'' of None \<Rightarrow> 8 | Some v \<Rightarrow> ucast (strtol10 v))"
      "int_value e ''harbor'' = (case e ''harbor'' of None \<Rightarrow> 1 | Some v \<Rightarrow> ucast (strtol10 v))"
      "string_value e ''logger'' = e ''logger''" "string_value e ''standalone'' = e ''standalone''"
      "string_value e ''cpath'' = (case e ''cpath'' of None \<Rightarrow> Some ''./service/?.so'' | Some v \<Rightarrow> Some v)"
      "string_value e ''master'' = (case e ''master'' of None \<Rightarrow> Some ''127.0.0.1:2012'' | Some v \<Rightarrow> Some v)"
      "string_value e ''start'' = (case e ''start'' of None \<Rightarrow> Some ''main.lua'' | Some v \<Rightarrow> Some v)"
      "string_value e ''address'' = (case e ''address'' of None \<Rightarrow> Some ''127.0.0.1:2525'' | Some v \<Rightarrow> Some v)" for e
    by (simp_all add: int_value_def string_value_def int_defaults_def string_defaults_def split: option.split)
  have "main_config (m\<lparr>node_env := Map.empty ++ e\<rparr>) = Some
     (\<lparr>cf_thread = int_value e ''thread'', cf_harbor = int_value e ''harbor'',
       cf_logger = string_value e ''logger'', cf_module_path = string_value e ''cpath'',
       cf_master = string_value e ''master'', cf_local = string_value e ''address'',
       cf_start = string_value e ''start'', cf_standalone = string_value e ''standalone''\<rparr>,
       m\<lparr>node_env := default_texts ++ e\<rparr>)" for m e
    unfolding main_config_def vals
    by (simp add: optstring_next optint_next texts del: map_add_empty empty_map_add)
  from this [where m = n and e = "node_env n"] show ?thesis by simp
qed

section \<open>The monitor of a worker\<close>

text \<open>
  What happens to a \<open>skynet_monitor\<close>: the worker starts a message (or ends one, with no destination), or
  the monitor thread looks at it.
\<close>

datatype monitor_event = Trigger u32 u32 | Look

text \<open>The message of which \<open>skynet_monitor_check\<close> says that it may be in an endless loop.\<close>

definition monitor_report :: "skynet_monitor \<Rightarrow> (u32 \<times> u32) option" where
  "monitor_report sm =
     (if sm_version sm = sm_check_version sm \<and> sm_destination sm \<noteq> 0 then Some (sm_source sm, sm_destination sm) else None)"

definition monitor_look :: "skynet_monitor \<Rightarrow> skynet_monitor" where
  "monitor_look sm = (if sm_version sm = sm_check_version sm then sm else sm\<lparr>sm_check_version := sm_version sm\<rparr>)"

lemma monitor_check_eq:
  "skynet_monitor_check api (sm, n) =
     (case monitor_report sm of
        None \<Rightarrow> Some (monitor_look sm, n)
      | Some (source, destination) \<Rightarrow> do {
          n \<leftarrow> skynet_context_endless api destination n;
          n \<leftarrow> skynet_error api None
            (''A message from [ :'' @ pad8 (sprintf_x source) @ '' ] to [ :'' @
             pad8 (sprintf_x destination) @ '' ] maybe in an endless loop'') n;
          Some (sm, n)
        })"
  by (auto simp: skynet_monitor_check_def monitor_report_def monitor_look_def)

fun monitor_run :: "monitor_event list \<Rightarrow> skynet_monitor \<Rightarrow> (u32 \<times> u32) option list" where
  "monitor_run [] sm = []"
| "monitor_run (Trigger s d # es) sm = monitor_run es (skynet_monitor_trigger s d sm)"
| "monitor_run (Look # es) sm = monitor_report sm # monitor_run es (monitor_look sm)"

text \<open>
  The contract: the message in work, and whether the worker has made progress since the last look.
\<close>

fun monitor_spec :: "monitor_event list \<Rightarrow> bool \<Rightarrow> u32 \<times> u32 \<Rightarrow> (u32 \<times> u32) option list" where
  "monitor_spec [] progress m = []"
| "monitor_spec (Trigger s d # es) progress m = monitor_spec es True (s, d)"
| "monitor_spec (Look # es) progress m = (if \<not> progress \<and> snd m \<noteq> 0 then Some m else None) # monitor_spec es False m"

text \<open>The version is a 32-bit counter: there must be fewer than \<open>2 ^ 32\<close> events between two looks.\<close>

fun looks_within :: "nat \<Rightarrow> nat \<Rightarrow> monitor_event list \<Rightarrow> bool" where
  "looks_within limit k [] = True"
| "looks_within limit k (Trigger s d # es) = (k + 1 < limit \<and> looks_within limit (k + 1) es)"
| "looks_within limit k (Look # es) = looks_within limit 0 es"

lemma monitor_run_spec:
  assumes "looks_within (2 ^ 32) k es" "sm_version sm = sm_check_version sm + of_nat k" "k < 2 ^ 32"
  shows "monitor_run es sm = monitor_spec es (0 < k) (sm_source sm, sm_destination sm)"
  using assms
proof (induction es arbitrary: sm k)
  case (Cons e es)
  have same: "sm_version sm = sm_check_version sm \<longleftrightarrow> k = 0"
    using Cons.prems(2,3) by (simp add: word_of_nat_eq_0_iff) (auto dest: nat_dvd_not_less)
  show ?case
  proof (cases e)
    case (Trigger s d)
    then show ?thesis
      using Cons.IH [of "k + 1" "skynet_monitor_trigger s d sm"] Cons.prems by (simp add: skynet_monitor_trigger_def)
  next
    case Look
    then show ?thesis
      using Cons.IH [of 0 "monitor_look sm"] Cons.prems same
      by (auto simp: monitor_report_def monitor_look_def)
  qed
qed simp



end
