(* ===== verification/PbArray.thy ===== *)
theory PbArray
  imports Varint
begin

text \<open>
  \<open>lua-protobuf/array.c\<close>: growing arrays of values.  The memory behind an array is a list of cells, its
  length is what is allocated; a cell without a value has not been written.  An access outside, or to
  such a cell, or of another member of the union than the one written, is \<open>None\<close>.
\<close>

unbundle bit_operations_syntax

section \<open>The model\<close>

text \<open>\<open>union _pbc_var\<close>: the members the program uses; a pointer is an address.\<close>

datatype pbc_var =
    V_integer longlong
  | V_real u64
  | V_slice "nat \<times> i32"
  | V_pointers nat nat

text \<open>\<open>INNER_FIELD\<close>: a \<open>pbc_array\<close> has 64 bytes, of which the structure takes 24; a value takes 16.\<close>

definition INNER_FIELD :: nat where "INNER_FIELD = (64 - 24) div 16"

record pbc_array =
  ar_number :: nat
  ar_heap :: bool
  ar_a :: "pbc_var option list"

definition array_open :: pbc_array where
  "array_open = \<lparr>ar_number = 0, ar_heap = False, ar_a = replicate INNER_FIELD None\<rparr>"

definition array_open_heap :: pbc_array where
  "array_open_heap = \<lparr>ar_number = 0, ar_heap = True, ar_a = replicate INNER_FIELD None\<rparr>"

text \<open>\<open>while (cap <= a->number + 1) cap *= 2\<close>\<close>

function push_cap :: "nat \<Rightarrow> nat \<Rightarrow> nat" where
  "push_cap number cap = (if 0 < cap \<and> cap \<le> number + 1 then push_cap number (cap * 2) else cap)"
  by pat_completeness auto
termination push_cap by (relation "measure (\<lambda>(number, cap). number + 2 - cap)") auto

declare push_cap.simps [simp del]

definition grow_outer :: "pbc_array \<Rightarrow> pbc_var option list" where
  "grow_outer a = take INNER_FIELD (ar_a a) @ replicate (push_cap (ar_number a) 1 - INNER_FIELD) None"

definition grow_double :: "pbc_array \<Rightarrow> pbc_var option list" where
  "grow_double a =
     (let size' = ar_number a; old = (if ar_heap a then take size' (ar_a a) else ar_a a)
      in old @ replicate ((size' + 1) * 2 - length old) None)"

definition array_room :: "pbc_array \<Rightarrow> pbc_array" where
  "array_room a =
     (if ar_number a = 0 then a\<lparr>ar_a := replicate INNER_FIELD None\<rparr>
      else if INNER_FIELD \<le> ar_number a then
        if ar_number a = INNER_FIELD then a\<lparr>ar_a := grow_outer a\<rparr>
        else if ar_number a < ((ar_number a + 1) XOR ar_number a) then a\<lparr>ar_a := grow_double a\<rparr>
        else a
      else a)"

definition array_push :: "pbc_var \<Rightarrow> pbc_array \<Rightarrow> pbc_array option" where
  "array_push var a = do {
     let a = array_room a;
     c_assert (ar_number a < length (ar_a a));
     Some (a\<lparr>ar_a := (ar_a a)[ar_number a := Some var], ar_number := ar_number a + 1\<rparr>)
   }"

definition array_index :: "pbc_array \<Rightarrow> int \<Rightarrow> pbc_var option" where
  "array_index a idx = (if 0 \<le> idx \<and> nat idx < length (ar_a a) then ar_a a ! nat idx else None)"

definition array_size :: "pbc_array \<Rightarrow> nat" where "array_size a = ar_number a"

definition array_integer :: "pbc_array \<Rightarrow> int \<Rightarrow> longlong option" where
  "array_integer a idx = (case array_index a idx of Some (V_integer n) \<Rightarrow> Some n | _ \<Rightarrow> None)"

definition array_real :: "pbc_array \<Rightarrow> int \<Rightarrow> u64 option" where
  "array_real a idx = (case array_index a idx of Some (V_real v) \<Rightarrow> Some v | _ \<Rightarrow> None)"

text \<open>A null pointer is \<open>Some None\<close>; what the pointer leads to must be a slice.\<close>

definition array_slice :: "pbc_array \<Rightarrow> int \<Rightarrow> (nat \<times> i32) option option" where
  "array_slice a idx =
     (if idx < 0 \<or> int (ar_number a) < idx then Some None
      else (case array_index a idx of Some (V_slice s) \<Rightarrow> Some (Some s) | _ \<Rightarrow> None))"

definition push_integer :: "u32 \<Rightarrow> u32 \<Rightarrow> pbc_array \<Rightarrow> pbc_array option" where
  "push_integer l h = array_push (V_integer \<lparr>low = l, hi = h\<rparr>)"

definition push_slice :: "nat \<times> i32 \<Rightarrow> pbc_array \<Rightarrow> pbc_array option" where
  "push_slice s = array_push (V_slice s)"

definition push_real :: "u64 \<Rightarrow> pbc_array \<Rightarrow> pbc_array option" where
  "push_real v = array_push (V_real v)"

fun array_pushes :: "pbc_var list \<Rightarrow> pbc_array \<Rightarrow> pbc_array option" where
  "array_pushes [] a = Some a"
| "array_pushes (v # vs) a = do { a \<leftarrow> array_push v a; array_pushes vs a }"

section \<open>The room is always enough\<close>

text \<open>\<open>((size + 1) ^ size) > size\<close> tells whether \<open>size + 1\<close> is a power of two.\<close>

lemma xor_mask_nat: "(2 ^ k :: nat) XOR (2 ^ k - 1) = 2 ^ Suc k - 1"
proof -
  have "(2 ^ k :: nat) XOR mask k = mask (Suc k)"
    by (rule bit_eqI) (auto simp: bit_simps less_Suc_eq)
  then show ?thesis by (simp only: mask_eq_exp_minus_1)
qed

lemma xor_less: "(x :: nat) < 2 ^ k \<Longrightarrow> y < 2 ^ k \<Longrightarrow> x XOR y < 2 ^ k"
  by (metis take_bit_nat_eq_self_iff take_bit_xor)

lemma grows_at_powers:
  assumes "2 ^ k \<le> n" "n < 2 ^ Suc k"
  shows "n < ((n + 1) XOR n) \<longleftrightarrow> n + 1 = (2 ^ Suc k :: nat)"
proof
  assume "n + 1 = 2 ^ Suc k"
  then have n: "n = 2 ^ Suc k - 1" by simp
  have "(n + 1) XOR n = 2 ^ Suc (Suc k) - 1" using xor_mask_nat [of "Suc k"] n \<open>n + 1 = _\<close> by metis
  then show "n < ((n + 1) XOR n)" using n by (simp add: less_diff_conv)
next
  assume grow: "n < ((n + 1) XOR n)"
  show "n + 1 = 2 ^ Suc k"
  proof (rule ccontr)
    assume "n + 1 \<noteq> 2 ^ Suc k"
    then have n: "n - 2 ^ k < 2 ^ k" "n + 1 - 2 ^ k < 2 ^ k" using assms by auto
    have split: "m = 2 ^ k XOR (m - 2 ^ k)" if "2 ^ k \<le> m" "m - 2 ^ k < 2 ^ k" for m :: nat
    proof -
      have "\<not> bit (m - 2 ^ k) k" using that(2) by (metis bit_take_bit_iff less_irrefl take_bit_nat_eq_self_iff)
      then have "2 ^ k AND (m - 2 ^ k) = 0" by (intro bit_eqI) (auto simp: bit_simps)
      then have "2 ^ k + (m - 2 ^ k) = 2 ^ k XOR (m - 2 ^ k)" by (rule disjunctive_add_eq_xor)
      then show ?thesis using that(1) by simp
    qed
    have "(n + 1) XOR n = (n + 1 - 2 ^ k) XOR (n - 2 ^ k)"
      using split [of n] split [of "n + 1"] n assms(1)
      by (metis (no_types, lifting) le_add1 le_trans xor.assoc xor.left_commute xor_self_eq xor.left_neutral)
    then have "(n + 1) XOR n < 2 ^ k" using xor_less [OF n(2,1)] by simp
    then show False using grow assms(1) by simp
  qed
qed

definition array_ok :: "pbc_array \<Rightarrow> pbc_var list \<Rightarrow> bool" where
  "array_ok a vs \<longleftrightarrow> ar_number a = length vs \<and> take (length vs) (ar_a a) = map Some vs \<and>
     (if length vs \<le> INNER_FIELD then vs \<noteq> [] \<longrightarrow> length (ar_a a) = INNER_FIELD
      else \<exists>k. 2 ^ k \<le> length vs \<and> length vs < 2 ^ Suc k \<and> length (ar_a a) = 2 ^ Suc k)"

lemma push_cap_2: "push_cap 2 1 = 4"
  by (simp add: push_cap.simps)

lemma room_ok:
  assumes "array_ok a vs"
  shows "length vs < length (ar_a (array_room a)) \<and> take (length vs) (ar_a (array_room a)) = map Some vs \<and>
    ar_number (array_room a) = length vs \<and>
    (if Suc (length vs) \<le> INNER_FIELD then length (ar_a (array_room a)) = INNER_FIELD
      else \<exists>k. 2 ^ k \<le> Suc (length vs) \<and> Suc (length vs) < 2 ^ Suc k \<and> length (ar_a (array_room a)) = 2 ^ Suc k)"
proof -
  have inner: "INNER_FIELD = 2" by (simp add: INNER_FIELD_def)
  have n: "ar_number a = length vs" "take (length vs) (ar_a a) = map Some vs" using assms by (simp_all add: array_ok_def)
  consider "length vs = 0" | "length vs = 1" | "length vs = 2" | "2 < length vs" by linarith
  then show ?thesis
  proof cases
    case 1
    then show ?thesis using n by (simp add: array_room_def inner)
  next
    case 2
    then have "length (ar_a a) = 2" using assms by (auto simp: array_ok_def inner)
    then show ?thesis using 2 n by (simp add: array_room_def inner)
  next
    case 3
    then have len: "length (ar_a a) = 2" using assms by (auto simp: array_ok_def inner)
    have "array_room a = a\<lparr>ar_a := take 2 (ar_a a) @ [None, None]\<rparr>"
    proof -
      have "replicate (push_cap 2 1 - 2) None = [None, None :: pbc_var option]" unfolding push_cap_2 by (simp add: numeral_eq_Suc)
      then show ?thesis using 3 n(1) by (simp add: array_room_def grow_outer_def inner)
    qed
    moreover have "\<exists>k. (2 :: nat) ^ k \<le> 3 \<and> (3 :: nat) < 2 ^ Suc k \<and> (4 :: nat) = 2 ^ Suc k" by (rule exI [of _ 1]) simp
    ultimately show ?thesis using 3 n len by (simp add: inner)
  next
    case 4
    then obtain k where k: "2 ^ k \<le> length vs" "length vs < 2 ^ Suc k" "length (ar_a a) = 2 ^ Suc k"
      using assms by (auto simp: array_ok_def inner)
    note grow = grows_at_powers [OF k(1,2)]
    show ?thesis
    proof (cases "length vs + 1 = 2 ^ Suc k")
      case True
      have room: "array_room a = a\<lparr>ar_a := grow_double a\<rparr>" using 4 n(1) grow True by (auto simp: array_room_def inner)
      have "length (grow_double a) = 2 ^ Suc (Suc k)" "take (length vs) (grow_double a) = map Some vs"
        using n True k by (auto simp: grow_double_def Let_def)
      then show ?thesis
        using True room n(1) 4 by (auto simp: inner intro!: exI [of _ "Suc k"])
    next
      case False
      have "array_room a = a" using 4 n(1) grow False by (auto simp: array_room_def inner)
      then show ?thesis using False n k 4 by (auto simp: inner intro!: exI [of _ k])
    qed
  qed
qed

lemma array_push_ok:
  assumes "array_ok a vs"
  shows "\<exists>a'. array_push v a = Some a' \<and> array_ok a' (vs @ [v])"
proof -
  let ?r = "array_room a"
  note r = room_ok [OF assms]
  have "take (length (vs @ [v])) ((ar_a ?r)[length vs := Some v]) = map Some (vs @ [v])"
    using r by (simp add: take_Suc_conv_app_nth)
  then show ?thesis using r by (auto simp: array_push_def array_ok_def Let_def split: if_splits)
qed

lemma array_pushes_ok: "array_ok a vs \<Longrightarrow> \<exists>a'. array_pushes ws a = Some a' \<and> array_ok a' (vs @ ws)"
proof (induction ws arbitrary: a vs)
  case (Cons w ws)
  obtain a1 where "array_push w a = Some a1" "array_ok a1 (vs @ [w])" using array_push_ok [OF Cons.prems] by blast
  then show ?case using Cons.IH [of a1 "vs @ [w]"] by simp
qed simp

text \<open>
  C30: An array never writes outside its memory: after any pushes, inside the structure, on the heap or
  across every growth, there is room for all values, at most twice as much as is needed but two, and
  each index leads to the value pushed there.
\<close>

theorem array_within_bounds:
  assumes "a0 = array_open \<or> a0 = array_open_heap"
  shows "\<exists>a. array_pushes vs a0 = Some a \<and> array_size a = length vs \<and>
    length vs \<le> length (ar_a a) \<and> length (ar_a a) \<le> max INNER_FIELD (2 * length vs) \<and>
    map (\<lambda>i. array_index a (int i)) [0..<length vs] = map Some vs"
proof -
  have "array_ok a0 []" using assms by (auto simp: array_ok_def array_open_def array_open_heap_def)
  then obtain a where a: "array_pushes vs a0 = Some a" "array_ok a vs"
    using array_pushes_ok [of a0 "[]" vs] by auto
  have t: "take (length vs) (ar_a a) = map Some vs" "ar_number a = length vs" using a(2) by (simp_all add: array_ok_def)
  have len: "length vs \<le> length (ar_a a)" using arg_cong [OF t(1), of length] by simp
  have "vs = [] \<Longrightarrow> a = a0" using a(1) by simp
  then have "length (ar_a a) \<le> max INNER_FIELD (2 * length vs)"
    using a(2) assms by (cases "vs = []") (auto simp: array_ok_def array_open_def array_open_heap_def split: if_splits)
  moreover have "array_index a (int i) = Some (vs ! i)" if "i < length vs" for i
  proof -
    have "ar_a a ! i = take (length vs) (ar_a a) ! i" using that by simp
    then show ?thesis using that len t(1) by (simp add: array_index_def)
  qed
  then have "map (\<lambda>i. array_index a (int i)) [0..<length vs] = map Some vs" by (intro nth_equalityI) simp_all
  ultimately show ?thesis using a(1) len t(2) by (auto simp: array_size_def)
qed

lemma array_within_bounds_witness:
  "\<exists>a. array_pushes (map (\<lambda>i. V_real (of_nat i)) [0..<20]) array_open = Some a \<and> array_size a = 20 \<and> length (ar_a a) \<le> 40"
  using array_within_bounds [of array_open "map (\<lambda>i. V_real (of_nat i)) [0..<20]"] by (auto simp: INNER_FIELD_def)

text \<open>\<open>pbc_array_slice\<close> lets the index behind the last value pass: the pointer leads to a cell that was never written, or outside.\<close>

lemma slice_behind_end:
  assumes "array_pushes vs array_open = Some a"
  shows "array_slice a (int (length vs)) \<noteq> Some None"
proof -
  obtain a' where "array_pushes vs array_open = Some a'" "array_size a' = length vs"
    using array_pushes_ok [of array_open "[]" vs] by (auto simp: array_ok_def array_open_def array_size_def)
  then show ?thesis using assms by (auto simp: array_slice_def array_size_def split: option.splits pbc_var.splits)
qed

end
