(* ===== verification/PbChain.thy ===== *)
theory PbChain
  imports Prelude
begin

text \<open>
  What the three hash tables of \<open>lua-protobuf/map.c\<close> have in common.  A table is an array of slots; a slot
  whose hash is taken is the head of a chain (\<open>next\<close> is the index of the next slot plus one, 0 at the
  end), and a new entry is put into any free slot and linked behind the slot of its hash.  Chains of
  different hashes may run into each other.  Here are the search of a chain and, on the list of the
  \<open>next\<close> fields, the invariant that every entry is met on the way from the slot of its hash.
\<close>

section \<open>Searching a chain\<close>

text \<open>The loop of the queries: from a slot on, the first one that hits; a slot may not be comparable.\<close>

partial_function (option) slot_find :: "('s \<Rightarrow> bool option) \<Rightarrow> ('s \<Rightarrow> nat) \<Rightarrow> 's list \<Rightarrow> nat \<Rightarrow> nat option option" where
  "slot_find hit nx slots i =
     (if i < length slots then do {
        b \<leftarrow> hit (slots ! i);
        if b then Some (Some i)
        else if nx (slots ! i) = 0 then Some None
        else slot_find hit nx slots (nx (slots ! i) - 1)
      } else None)"

text \<open>The slots from \<open>i\<close> to the end of its chain.\<close>

fun chain :: "nat list \<Rightarrow> nat \<Rightarrow> nat list \<Rightarrow> bool" where
  "chain ns i [] = False"
| "chain ns i (j # js) = (j = i \<and> i < length ns \<and> (if ns ! i = 0 then js = [] else chain ns (ns ! i - 1) js))"

lemma chain_in_range: "chain ns i is \<Longrightarrow> \<forall>j \<in> set is. j < length ns"
  by (induction "is" arbitrary: i) (auto split: if_splits)

lemma chain_head: "chain ns i is \<Longrightarrow> i \<in> set is"
  by (cases "is") auto

lemma chain_unique: "chain ns i is \<Longrightarrow> chain ns i js \<Longrightarrow> is = js"
proof (induction "is" arbitrary: i js)
  case (Cons x "is")
  then show ?case by (cases js) (auto split: if_splits)
qed simp

lemma slot_find_chain:
  assumes "chain (map nx slots) i is" "\<forall>j \<in> set is. hit (slots ! j) = Some (P j)"
  shows "slot_find hit nx slots i = Some (find P is)"
  using assms
proof (induction "is" arbitrary: i)
  case (Cons j js)
  then have j: "j = i" "i < length slots" "hit (slots ! i) = Some (P i)" by auto
  show ?case
  proof (cases "P i \<or> nx (slots ! i) = 0")
    case True
    then show ?thesis using Cons.prems(1) j by (subst slot_find.simps) auto
  next
    case False
    then have "chain (map nx slots) (nx (slots ! i) - 1) js" using Cons.prems(1) j by simp
    then have "slot_find hit nx slots (nx (slots ! i) - 1) = Some (find P js)" using Cons by simp
    then show ?thesis using False j by (subst slot_find.simps) simp
  qed
qed simp

section \<open>Linking a slot\<close>

text \<open>Slot \<open>e\<close> is linked behind slot \<open>h\<close>.\<close>

definition link_behind :: "nat \<Rightarrow> nat \<Rightarrow> nat list \<Rightarrow> nat list" where
  "link_behind h e ns = (ns[e := ns ! h])[h := Suc e]"

definition behind :: "nat \<Rightarrow> nat \<Rightarrow> nat list \<Rightarrow> nat list" where
  "behind h e is = concat (map (\<lambda>j. if j = h then [h, e] else [j]) is)"

lemma behind_simps [simp]: "behind h e [] = []" "behind h e (j # js) = (if j = h then h # e # behind h e js else j # behind h e js)"
  by (simp_all add: behind_def)

lemma behind_other: "h \<notin> set is \<Longrightarrow> behind h e is = is"
  by (induction "is") auto

lemma set_behind: "set (behind h e is) = set is \<union> (if h \<in> set is then {e} else {})"
  by (induction "is") auto

lemma distinct_behind: "distinct is \<Longrightarrow> e \<notin> set is \<Longrightarrow> distinct (behind h e is)"
  by (induction "is") (auto simp: set_behind behind_other)

lemma chain_link_other:
  "chain ns i is \<Longrightarrow> e \<notin> set is \<Longrightarrow> h \<notin> set is \<Longrightarrow> chain (link_behind h e ns) i is"
  by (induction "is" arbitrary: i) (auto simp: link_behind_def split: if_splits)

lemma chain_link:
  assumes "h \<noteq> e" "h < length ns" "e < length ns"
  shows "chain ns i is \<Longrightarrow> distinct is \<Longrightarrow> e \<notin> set is \<Longrightarrow> chain (link_behind h e ns) i (behind h e is)"
proof (induction "is" arbitrary: i)
  case (Cons j js)
  then have j: "j = i" "i < length ns" "h \<noteq> e" "i \<noteq> e" using assms by auto
  show ?case
  proof (cases "i = h")
    case True
    then have "h \<notin> set js" using Cons.prems(2) j(1) by simp
    then have js: "ns ! h = 0 \<and> js = [] \<or> ns ! h \<noteq> 0 \<and> chain (link_behind h e ns) (ns ! h - 1) js"
      using Cons.prems True j(1) chain_link_other [of ns "ns ! h - 1" js e h] by (auto split: if_splits)
    have "link_behind h e ns ! h = Suc e" "link_behind h e ns ! e = ns ! h" using assms by (simp_all add: link_behind_def)
    then show ?thesis using True j js assms \<open>h \<notin> set js\<close> by (auto simp: behind_other link_behind_def)
  next
    case False
    then have "link_behind h e ns ! i = ns ! i" using j by (simp add: link_behind_def)
    then show ?thesis using Cons False j by (auto simp: link_behind_def split: if_splits)
  qed
qed simp

section \<open>The invariant\<close>

text \<open>
  \<open>occ\<close> tells which slots are taken, \<open>home\<close> the slot of the hash of their entries.
\<close>

definition chains_ok :: "(nat \<Rightarrow> bool) \<Rightarrow> (nat \<Rightarrow> nat) \<Rightarrow> nat list \<Rightarrow> bool" where
  "chains_ok occ home ns \<longleftrightarrow>
     (\<forall>i < length ns. \<not> occ i \<longrightarrow> ns ! i = 0) \<and>
     (\<forall>i < length ns. occ i \<longrightarrow> (\<exists>is. chain ns i is \<and> distinct is \<and> (\<forall>j \<in> set is. occ j))) \<and>
     (\<forall>i < length ns. occ i \<longrightarrow> home i < length ns \<and> occ (home i) \<and> (\<exists>is. chain ns (home i) is \<and> i \<in> set is))"

lemma chains_okD:
  assumes "chains_ok occ home ns" "i < length ns" "occ i"
  obtains "is" where "chain ns (home i) is" "distinct is" "\<forall>j \<in> set is. occ j" "i \<in> set is" "home i < length ns" "occ (home i)"
proof -
  obtain "is" where "is": "chain ns (home i) is" "i \<in> set is" "home i < length ns" "occ (home i)"
    using assms unfolding chains_ok_def by blast
  moreover obtain js where "chain ns (home i) js" "distinct js" "\<forall>j \<in> set js. occ j"
    using assms "is"(3,4) unfolding chains_ok_def by blast
  ultimately show thesis using that chain_unique by metis
qed

lemma chains_ok_chain:
  "chains_ok occ home ns \<Longrightarrow> i < length ns \<Longrightarrow> occ i \<Longrightarrow> \<exists>is. chain ns i is \<and> distinct is \<and> (\<forall>j \<in> set is. occ j)"
  unfolding chains_ok_def by blast

lemma chains_ok_empty: "chains_ok (\<lambda>_. False) home (replicate n 0)"
  by (simp add: chains_ok_def)

text \<open>An entry whose slot is free.\<close>

lemma chains_ok_take:
  assumes "chains_ok occ home ns" "h < length ns" "\<not> occ h" "home' h = h"
    and "\<And>i. i \<noteq> h \<Longrightarrow> home' i = home i" "\<And>i. occ' i \<longleftrightarrow> occ i \<or> i = h"
  shows "chains_ok occ' home' ns"
proof -
  have "ns ! h = 0" using assms(1-3) by (auto simp: chains_ok_def)
  then have h: "chain ns h [h]" using assms(2) by simp
  show ?thesis
    unfolding chains_ok_def
  proof (intro conjI allI impI)
    fix i assume i: "i < length ns"
    show "ns ! i = 0" if "\<not> occ' i" using that i assms(1,6) by (auto simp: chains_ok_def)
    show "\<exists>is. chain ns i is \<and> distinct is \<and> (\<forall>j \<in> set is. occ' j)" if "occ' i"
    proof (cases "i = h")
      case True
      then show ?thesis using \<open>ns ! h = 0\<close> assms(2,6) by (intro exI [of _ "[h]"]) simp
    next
      case False
      then have "occ i" using that assms(6) by simp
      then show ?thesis using chains_ok_chain [OF assms(1) i] assms(6) by auto
    qed
    assume occ: "occ' i"
    have *: "home' i < length ns \<and> occ' (home' i) \<and> (\<exists>is. chain ns (home' i) is \<and> i \<in> set is)"
    proof (cases "i = h")
      case True
      then show ?thesis using \<open>ns ! h = 0\<close> assms(2,4,6) by (auto intro!: exI [of _ "[h]"])
    next
      case False
      then have "occ i" using occ assms(6) by simp
      then obtain "is" where "chain ns (home i) is" "i \<in> set is" "home i < length ns" "occ (home i)"
        by (rule chains_okD [OF assms(1) i])
      then show ?thesis using False assms(5,6) by auto
    qed
    then show "home' i < length ns" "occ' (home' i)" "\<exists>is. chain ns (home' i) is \<and> i \<in> set is" by blast+
  qed
qed

text \<open>An entry whose slot is taken: it goes to the free slot \<open>e\<close>.\<close>

lemma chains_ok_link:
  assumes "chains_ok occ home ns" "h < length ns" "occ h" "e < length ns" "\<not> occ e" "home' e = h"
    and "\<And>i. i \<noteq> e \<Longrightarrow> home' i = home i" "\<And>i. occ' i \<longleftrightarrow> occ i \<or> i = e"
  shows "chains_ok occ' home' (link_behind h e ns)"
proof -
  let ?ns = "link_behind h e ns"
  have he: "h \<noteq> e" using assms(3,5) by auto
  have len: "length ?ns = length ns" by (simp add: link_behind_def)
  have linked: "chain ?ns i (behind h e is)" "distinct (behind h e is)" "\<forall>j \<in> set (behind h e is). occ' j"
    if "chain ns i is" "distinct is" "\<forall>j \<in> set is. occ j" for i "is"
  proof -
    have "e \<notin> set is" using that(3) assms(5) by auto
    then show "chain ?ns i (behind h e is)" "distinct (behind h e is)"
      using chain_link [OF he assms(2,4) that(1,2)] distinct_behind [OF that(2)] by simp_all
    show "\<forall>j \<in> set (behind h e is). occ' j" using that(3) assms(8) by (auto simp: set_behind split: if_splits)
  qed
  obtain hs where hs: "chain ns h hs" "distinct hs" "\<forall>j \<in> set hs. occ j"
    using chains_ok_chain [OF assms(1-3)] by blast
  obtain hs' where hs': "hs = h # hs'" using hs(1) by (cases hs) auto
  have beh: "behind h e hs = h # e # hs'" using hs(2) unfolding hs' by (simp add: behind_other)
  note l = linked [OF hs, unfolded beh]
  have "?ns ! h = Suc e" using assms(2) by (simp add: link_behind_def)
  then have e: "chain ?ns h (h # e # hs')" "chain ?ns e (e # hs')" "distinct (e # hs')" "\<forall>j \<in> set (e # hs'). occ' j"
    using l by (auto split: if_splits)
  show ?thesis
    unfolding chains_ok_def len
  proof (intro conjI allI impI)
    fix i assume i: "i < length ns"
    show "?ns ! i = 0" if "\<not> occ' i"
    proof -
      have "\<not> occ i" "i \<noteq> e" "i \<noteq> h" using that assms(3,8) by auto
      then show ?thesis using i assms(1) by (auto simp: link_behind_def chains_ok_def)
    qed
    show "\<exists>is. chain ?ns i is \<and> distinct is \<and> (\<forall>j \<in> set is. occ' j)" if "occ' i"
    proof (cases "i = e")
      case True
      then show ?thesis using e by blast
    next
      case False
      then have "occ i" using that assms(8) by simp
      then show ?thesis using chains_ok_chain [OF assms(1) i] linked by blast
    qed
    assume occ: "occ' i"
    have "home' i < length ns \<and> occ' (home' i) \<and> (\<exists>is. chain ?ns (home' i) is \<and> i \<in> set is)"
    proof (cases "i = e")
      case True
      have "\<exists>is. chain ?ns h is \<and> e \<in> set is" using e(1) by (rule exI [of _ "h # e # hs'", OF conjI]) simp
      then show ?thesis using True assms(2,3,6,8) by simp
    next
      case False
      then have "occ i" using occ assms(8) by simp
      then obtain "is" where "chain ns (home i) is" "distinct is" "\<forall>j \<in> set is. occ j" "i \<in> set is" "home i < length ns" "occ (home i)"
        by (rule chains_okD [OF assms(1) i])
      moreover from this have "i \<in> set (behind h e is)" by (simp add: set_behind)
      ultimately show ?thesis using linked [of "home i" "is"] False assms(7,8) by auto
    qed
    then show "home' i < length ns" "occ' (home' i)" "\<exists>is. chain ?ns (home' i) is \<and> i \<in> set is" by blast+
  qed
qed

section \<open>Finding an entry\<close>

text \<open>
  The search from slot \<open>h\<close> when \<open>h\<close> is taken: it meets the only slot that hits, if it is an entry of \<open>h\<close>.
\<close>

lemma slot_find_entry:
  assumes "chains_ok occ home (map nx slots)" "h < length slots" "occ h"
    and hit: "\<And>i. i < length slots \<Longrightarrow> occ i \<Longrightarrow> hit (slots ! i) = Some (P i)"
    and home: "\<And>i. i < length slots \<Longrightarrow> occ i \<Longrightarrow> P i \<Longrightarrow> home i = h"
    and one: "\<And>i j. i < length slots \<Longrightarrow> j < length slots \<Longrightarrow> occ i \<Longrightarrow> occ j \<Longrightarrow> P i \<Longrightarrow> P j \<Longrightarrow> i = j"
  shows "\<exists>r. slot_find hit nx slots h = Some r \<and>
    (case r of Some i \<Rightarrow> i < length slots \<and> occ i \<and> P i | None \<Rightarrow> (\<forall>i < length slots. occ i \<longrightarrow> \<not> P i))"
proof -
  obtain "is" where "is": "chain (map nx slots) h is" "distinct is" "\<forall>j \<in> set is. occ j"
    using chains_ok_chain [OF assms(1) _ assms(3)] assms(2) by auto
  have range: "\<forall>j \<in> set is. j < length slots" using chain_in_range [OF "is"(1)] by simp
  have find: "slot_find hit nx slots h = Some (find P is)"
    using "is"(3) range hit by (intro slot_find_chain [OF "is"(1)]) auto
  show ?thesis
  proof (cases "find P is")
    case None
    have "\<not> P i" if i: "i < length slots" "occ i" for i
    proof
      assume "P i"
      then have "home i = h" using home i by blast
      then have "i \<in> set is"
        using chains_okD [OF assms(1), of i thesis] i "is"(1) chain_unique by (metis chains_okD assms(1) length_map)
      then show False using None \<open>P i\<close> by (simp add: find_None_iff)
    qed
    then show ?thesis using find None by simp
  next
    case (Some i)
    then have "i \<in> set is" "P i" by (auto simp: find_Some_iff)
    then show ?thesis using find Some range "is"(3) by simp
  qed
qed

section \<open>Free slots\<close>

function scan_free :: "(nat \<Rightarrow> bool) \<Rightarrow> nat \<Rightarrow> nat \<Rightarrow> nat option" where
  "scan_free occ n i = (if i < n then if occ i then scan_free occ n (i + 1) else Some i else None)"
  by pat_completeness auto
termination scan_free by (relation "measure (\<lambda>(occ, n, i). n - i)") auto

declare scan_free.simps [simp del]

lemma scan_free_ok:
  "\<lbrakk>i \<le> j; j < n; \<not> occ j; \<forall>k < i. occ k\<rbrakk> \<Longrightarrow> \<exists>e. scan_free occ n i = Some e \<and> e < n \<and> \<not> occ e \<and> (\<forall>k < e. occ k)"
proof (induction occ n i rule: scan_free.induct)
  case (1 occ n i)
  show ?case
  proof (cases "occ i")
    case True
    then have "i \<noteq> j" using "1.prems"(3) by auto
    then have "i + 1 \<le> j" "\<forall>k < i + 1. occ k" using "1.prems" True by (auto simp: less_Suc_eq)
    then show ?thesis using "1.IH" "1.prems" True by (subst scan_free.simps) auto
  next
    case False
    then show ?thesis using "1.prems" by (subst scan_free.simps) auto
  qed
qed

end
