(* ===== verification/PbMap.thy ===== *)
theory PbMap
  imports PbChain
begin

text \<open>
  \<open>lua-protobuf/map.c\<close>: the hash tables of the protocol buffer library.  \<open>map_si\<close> (names to numbers) and
  \<open>map_ip\<close> (numbers to pointers) are built once from a table; \<open>map_sp\<close> (names to pointers) grows.  A
  null pointer is \<open>None\<close>; names are C strings.  A result \<open>None\<close> of an operation is a division by zero, an
  access outside the table or through a null pointer, or a search that does not end.
\<close>

unbundle bit_operations_syntax

section \<open>Hashing\<close>

text \<open>\<open>(size_t)name[i-1]\<close>, where \<open>char\<close> is signed.\<close>

definition char_word :: "char \<Rightarrow> u64" where "char_word c = scast (of_nat (of_char c) :: 8 word)"

function hash_loop :: "string \<Rightarrow> nat \<Rightarrow> nat \<Rightarrow> u64 \<Rightarrow> u64" where
  "hash_loop name step i h =
     (if 0 < step \<and> step \<le> i
      then hash_loop name step (i - step) (h XOR (push_bit 5 h + drop_bit 2 h + char_word (name ! (i - 1))))
      else h)"
  by pat_completeness auto
termination hash_loop by (relation "measure (\<lambda>(name, step, i, h). i)") auto

declare hash_loop.simps [simp del]

definition calc_hash :: "string \<Rightarrow> u64" where
  "calc_hash name = hash_loop name (length name div 2 ^ 5 + 1) (length name) (of_nat (length name))"

section \<open>Names to numbers\<close>

record si_slot =
  si_key :: "string option"
  si_hash :: u64
  si_id :: i32
  si_next :: nat

definition si_taken :: "si_slot list \<Rightarrow> nat \<Rightarrow> bool" where "si_taken slots i \<longleftrightarrow> si_key (slots ! i) \<noteq> None"

text \<open>One turn of the loop of \<open>_pbcM_si_new\<close>; the number is the variable \<open>empty\<close>.\<close>

definition si_add :: "i32 \<times> string \<Rightarrow> si_slot list \<times> nat \<Rightarrow> (si_slot list \<times> nat) option" where
  "si_add entry se = (case (entry, se) of ((id', key), (slots, free)) \<Rightarrow> do {
     c_assert (slots \<noteq> []);
     let hash_full = calc_hash key;
     let hash = unat hash_full mod length slots;
     let slot = slots ! hash;
     if si_key slot = None then Some (slots[hash := slot\<lparr>si_key := Some key, si_id := id', si_hash := hash_full\<rparr>], free)
     else do {
       free \<leftarrow> scan_free (si_taken slots) (length slots) free;
       let slots = slots[free := \<lparr>si_key = Some key, si_hash = hash_full, si_id = id', si_next = si_next slot\<rparr>];
       Some (slots[hash := slot\<lparr>si_next := free + 1\<rparr>], free)
     }
   })"

fun si_adds :: "(i32 \<times> string) list \<Rightarrow> si_slot list \<times> nat \<Rightarrow> (si_slot list \<times> nat) option" where
  "si_adds [] se = Some se"
| "si_adds (x # xs) se = do { se \<leftarrow> si_add x se; si_adds xs se }"

definition si_new :: "(i32 \<times> string) list \<Rightarrow> si_slot list option" where
  "si_new table = do {
     (slots, _) \<leftarrow> si_adds table (replicate (length table) \<lparr>si_key = None, si_hash = 0, si_id = 0, si_next = 0\<rparr>, 0);
     Some slots
   }"

text \<open>\<open>slot->hash == hash_full && strcmp(slot->key, key) == 0\<close>\<close>

definition same_key :: "u64 \<Rightarrow> string option \<Rightarrow> string \<Rightarrow> bool option" where
  "same_key hash slot_key key =
     (if hash \<noteq> calc_hash key then Some False else map_option (\<lambda>k. k = key) slot_key)"

definition si_query :: "si_slot list \<Rightarrow> string \<Rightarrow> i32 option option" where
  "si_query slots key = do {
     c_assert (slots \<noteq> []);
     r \<leftarrow> slot_find (\<lambda>s. same_key (si_hash s) (si_key s) key) si_next slots (unat (calc_hash key) mod length slots);
     Some (map_option (\<lambda>i. si_id (slots ! i)) r)
   }"

section \<open>Numbers to pointers\<close>

record 'p ip_slot =
  ip_id :: i32
  ip_pointer :: "'p option"
  ip_next :: nat

text \<open>With \<open>array\<close> the index is the number; its length is \<open>array_size\<close>.  Otherwise there are \<open>hash_size\<close> slots.\<close>

record 'p map_ip =
  ip_array :: "'p option list option"
  ip_hash_size :: nat
  ip_slots :: "'p ip_slot list"

definition ip_taken :: "'p ip_slot list \<Rightarrow> nat \<Rightarrow> bool" where "ip_taken slots i \<longleftrightarrow> ip_pointer (slots ! i) \<noteq> None"

definition ip_add :: "i32 \<times> 'p option \<Rightarrow> 'p ip_slot list \<times> nat \<Rightarrow> ('p ip_slot list \<times> nat) option" where
  "ip_add entry se = (case (entry, se) of ((id', pointer), (slots, free)) \<Rightarrow> do {
     c_assert (slots \<noteq> []);
     let hash = unat id' mod length slots;
     let slot = slots ! hash;
     if ip_pointer slot = None then Some (slots[hash := slot\<lparr>ip_pointer := pointer, ip_id := id'\<rparr>], free)
     else do {
       free \<leftarrow> scan_free (ip_taken slots) (length slots) free;
       let slots = slots[free := \<lparr>ip_id = id', ip_pointer = pointer, ip_next = ip_next slot\<rparr>];
       Some (slots[hash := slot\<lparr>ip_next := free + 1\<rparr>], free)
     }
   })"

fun ip_adds :: "(i32 \<times> 'p option) list \<Rightarrow> 'p ip_slot list \<times> nat \<Rightarrow> ('p ip_slot list \<times> nat) option" where
  "ip_adds [] se = Some se"
| "ip_adds (x # xs) se = do { se \<leftarrow> ip_add x se; ip_adds xs se }"

definition ip_new_hash :: "(i32 \<times> 'p option) list \<Rightarrow> 'p map_ip option" where
  "ip_new_hash table = do {
     (slots, _) \<leftarrow> ip_adds table (replicate (length table) \<lparr>ip_id = 0, ip_pointer = None, ip_next = 0\<rparr>, 0);
     Some \<lparr>ip_array = None, ip_hash_size = length table, ip_slots = slots\<rparr>
   }"

text \<open>The largest number, unless one is negative or larger than twice the size.\<close>

fun ip_max :: "int \<Rightarrow> int \<Rightarrow> (i32 \<times> 'p option) list \<Rightarrow> int option" where
  "ip_max size' max' [] = Some max'"
| "ip_max size' max' ((id', p) # xs) =
     (if sint id' < 0 then None
      else if max' < sint id' then (if size' * 2 < sint id' then None else ip_max size' (sint id') xs)
      else ip_max size' max' xs)"

fun ip_fill :: "(i32 \<times> 'p option) list \<Rightarrow> 'p option list \<Rightarrow> 'p option list" where
  "ip_fill [] array = array"
| "ip_fill ((id', p) # xs) array = ip_fill xs (array[nat (sint id') := p])"

definition ip_new :: "(i32 \<times> 'p option) list \<Rightarrow> 'p map_ip option" where
  "ip_new table = (case table of
     [] \<Rightarrow> None
   | (id', p) # xs \<Rightarrow>
       if int (length table) * 2 < sint id' \<or> sint id' < 0 then ip_new_hash table
       else (case ip_max (int (length table)) (sint id') xs of
          None \<Rightarrow> ip_new_hash table
        | Some max' \<Rightarrow> Some \<lparr>ip_array = Some (ip_fill table (replicate (nat (max' + 1)) None)),
                             ip_hash_size = length table, ip_slots = []\<rparr>))"

definition ip_query :: "'p map_ip \<Rightarrow> i32 \<Rightarrow> 'p option option" where
  "ip_query map' id' = (case ip_array map' of
     Some array \<Rightarrow> Some (if 0 \<le> sint id' \<and> sint id' < int (length array) then array ! nat (sint id') else None)
   | None \<Rightarrow> do {
       c_assert (ip_hash_size map' \<noteq> 0);
       r \<leftarrow> slot_find (\<lambda>s. Some (ip_id s = id')) ip_next (ip_slots map') (unat id' mod ip_hash_size map');
       Some (case r of Some i \<Rightarrow> ip_pointer (ip_slots map' ! i) | None \<Rightarrow> None)
     })"

text \<open>The entries of a map as \<open>_inject\<close> writes them into a table of \<open>hash_size\<close> zeroed entries.\<close>

definition ip_inject :: "'p map_ip \<Rightarrow> (i32 \<times> 'p option) list" where
  "ip_inject map' = (case ip_array map' of
     Some array \<Rightarrow>
       (let found = List.map_filter (\<lambda>i. map_option (\<lambda>p. (of_nat i, Some p)) (array ! i)) [0..<length array]
        in found @ replicate (ip_hash_size map' - length found) (0, None))
   | None \<Rightarrow> map (\<lambda>s. (ip_id s, ip_pointer s)) (ip_slots map'))"

definition ip_combine :: "'p map_ip \<Rightarrow> 'p map_ip \<Rightarrow> 'p map_ip option" where
  "ip_combine a b = ip_new (ip_inject a @ ip_inject b)"

section \<open>Names to pointers\<close>

record 'p sp_slot =
  sp_key :: "string option"
  sp_hash :: u64
  sp_pointer :: "'p option"
  sp_next :: nat

text \<open>\<open>cap\<close> is the number of slots.\<close>

record 'p map_sp =
  sp_size :: nat
  sp_slots :: "'p sp_slot list"

definition sp_empty :: "'p sp_slot" where
  "sp_empty = \<lparr>sp_key = None, sp_hash = 0, sp_pointer = None, sp_next = 0\<rparr>"

function pow_cap :: "int \<Rightarrow> nat \<Rightarrow> nat" where
  "pow_cap max' cap = (if 0 < cap \<and> int cap < max' then pow_cap max' (cap * 2) else cap)"
  by pat_completeness auto
termination pow_cap by (relation "measure (\<lambda>(max', cap). nat (max' - int cap))") auto

declare pow_cap.simps [simp del]

definition sp_new :: "int \<Rightarrow> 'p map_sp" where
  "sp_new max' = \<lparr>sp_size = 0, sp_slots = replicate (pow_cap max' 1) sp_empty\<rparr>"

definition sp_taken :: "'p sp_slot list \<Rightarrow> nat \<Rightarrow> bool" where "sp_taken slots i \<longleftrightarrow> sp_key (slots ! i) \<noteq> None"

definition sp_home :: "nat \<Rightarrow> u64 \<Rightarrow> nat" where "sp_home cap hash_full = unat hash_full AND (cap - 1)"

text \<open>\<open>while (map->slot[empty].key != NULL) empty = (empty + 1) & (map->cap-1)\<close>\<close>

partial_function (option) sp_probe :: "(nat \<Rightarrow> bool) \<Rightarrow> nat \<Rightarrow> nat \<Rightarrow> nat option" where
  "sp_probe occ cap i = (if occ i then sp_probe occ cap ((i + 1) AND (cap - 1)) else Some i)"

text \<open>An entry behind the slot of its hash, which is taken; the index of its slot.\<close>

definition sp_link :: "'p sp_slot \<Rightarrow> nat \<Rightarrow> 'p map_sp \<Rightarrow> (nat \<times> 'p map_sp) option" where
  "sp_link new hash m = do {
     let cap = length (sp_slots m);
     free \<leftarrow> sp_probe (sp_taken (sp_slots m)) cap ((hash + 1) AND (cap - 1));
     let slots = (sp_slots m)[free := new\<lparr>sp_next := sp_next (sp_slots m ! hash)\<rparr>];
     Some (free, m\<lparr>sp_slots := slots[hash := (slots ! hash)\<lparr>sp_next := free + 1\<rparr>], sp_size := sp_size m + 1\<rparr>)
   }"

text \<open>\<open>_pbcM_sp_insert_hash\<close> on a map that is not full.\<close>

definition sp_place :: "string option \<Rightarrow> u64 \<Rightarrow> 'p option \<Rightarrow> 'p map_sp \<Rightarrow> 'p map_sp option" where
  "sp_place key hash_full v m = do {
     c_assert (sp_size m < length (sp_slots m));
     let hash = sp_home (length (sp_slots m)) hash_full;
     let slot = sp_slots m ! hash;
     if sp_key slot = None then
       Some (m\<lparr>sp_slots := (sp_slots m)[hash := slot\<lparr>sp_key := key, sp_pointer := v, sp_hash := hash_full\<rparr>], sp_size := sp_size m + 1\<rparr>)
     else map_option snd (sp_link \<lparr>sp_key = key, sp_hash = hash_full, sp_pointer = v, sp_next = 0\<rparr> hash m)
   }"

fun sp_places :: "'p sp_slot list \<Rightarrow> 'p map_sp \<Rightarrow> 'p map_sp option" where
  "sp_places [] m = Some m"
| "sp_places (s # ss) m = do { m \<leftarrow> sp_place (sp_key s) (sp_hash s) (sp_pointer s) m; sp_places ss m }"

text \<open>Rehashing puts the first \<open>size\<close> slots into a map of twice the capacity, in which there is room for them.\<close>

definition sp_rehash :: "'p map_sp \<Rightarrow> 'p map_sp option" where
  "sp_rehash m = sp_places (take (sp_size m) (sp_slots m)) \<lparr>sp_size = 0, sp_slots = replicate (length (sp_slots m) * 2) sp_empty\<rparr>"

definition sp_insert_hash :: "string \<Rightarrow> u64 \<Rightarrow> 'p option \<Rightarrow> 'p map_sp \<Rightarrow> 'p map_sp option" where
  "sp_insert_hash key hash_full v m =
     (if sp_size m < length (sp_slots m) then sp_place (Some key) hash_full v m
      else do { m \<leftarrow> sp_rehash m; sp_place (Some key) hash_full v m })"

definition sp_insert :: "string \<Rightarrow> 'p option \<Rightarrow> 'p map_sp \<Rightarrow> 'p map_sp option" where
  "sp_insert key v m = sp_insert_hash key (calc_hash key) v m"

definition sp_hit :: "string \<Rightarrow> 'p sp_slot \<Rightarrow> bool option" where
  "sp_hit key s = same_key (sp_hash s) (sp_key s) key"

text \<open>
  \<open>_pbcM_sp_query_insert_hash\<close> up to its label \<open>_rehash\<close>: the slot of the name, a new one when there was
  none, or \<open>Some None\<close> when there is no room for one.
\<close>

definition sp_find_place :: "string \<Rightarrow> u64 \<Rightarrow> 'p map_sp \<Rightarrow> (nat \<times> 'p map_sp) option option" where
  "sp_find_place key hash_full m = do {
     let hash = sp_home (length (sp_slots m)) hash_full;
     let slot = sp_slots m ! hash;
     if sp_key slot = None then
       if length (sp_slots m) \<le> sp_size m then Some None
       else Some (Some (hash, m\<lparr>sp_slots := (sp_slots m)[hash := slot\<lparr>sp_key := Some key, sp_hash := hash_full\<rparr>], sp_size := sp_size m + 1\<rparr>))
     else do {
       found \<leftarrow> slot_find (sp_hit key) sp_next (sp_slots m) hash;
       case found of
         Some i \<Rightarrow> Some (Some (i, m))
       | None \<Rightarrow>
           if length (sp_slots m) \<le> sp_size m then Some None
           else map_option Some (sp_link \<lparr>sp_key = Some key, sp_hash = hash_full, sp_pointer = None, sp_next = 0\<rparr> hash m)
     }
   }"

definition sp_query_insert :: "string \<Rightarrow> 'p map_sp \<Rightarrow> (nat \<times> 'p map_sp) option" where
  "sp_query_insert key m = do {
     r \<leftarrow> sp_find_place key (calc_hash key) m;
     case r of
       Some im \<Rightarrow> Some im
     | None \<Rightarrow> do {
         m \<leftarrow> sp_rehash m;
         r \<leftarrow> sp_find_place key (calc_hash key) m;
         r
       }
   }"

definition sp_query :: "'p map_sp \<Rightarrow> string \<Rightarrow> 'p option option" where
  "sp_query m key = do {
     r \<leftarrow> slot_find (sp_hit key) sp_next (sp_slots m) (sp_home (length (sp_slots m)) (calc_hash key));
     Some (case r of Some i \<Rightarrow> sp_pointer (sp_slots m ! i) | None \<Rightarrow> None)
   }"

text \<open>What \<open>_pbcM_sp_foreach\<close> calls its function on, in order.\<close>

definition sp_foreach :: "'p map_sp \<Rightarrow> 'p list" where
  "sp_foreach m = List.map_filter sp_pointer (sp_slots m)"

text \<open>\<open>_pbcM_sp_next\<close>: the first slot with a pointer, or the next one behind the slot of a name.\<close>

definition sp_from :: "'p map_sp \<Rightarrow> nat \<Rightarrow> nat option" where
  "sp_from m i = find (\<lambda>j. sp_pointer (sp_slots m ! j) \<noteq> None) [i..<length (sp_slots m)]"

definition sp_find_next :: "'p map_sp \<Rightarrow> string \<Rightarrow> nat option option" where
  "sp_find_next m key = do {
     r \<leftarrow> slot_find (sp_hit key) sp_next (sp_slots m) (sp_home (length (sp_slots m)) (calc_hash key));
     Some (case r of Some i \<Rightarrow> sp_from m (i + 1) | None \<Rightarrow> None)
   }"

definition sp_next_entry :: "'p map_sp \<Rightarrow> string option \<Rightarrow> (string option \<times> 'p option) option" where
  "sp_next_entry m key = do {
     r \<leftarrow> (case key of None \<Rightarrow> Some (sp_from m 0) | Some k \<Rightarrow> sp_find_next m k);
     Some (case r of Some i \<Rightarrow> (sp_key (sp_slots m ! i), sp_pointer (sp_slots m ! i)) | None \<Rightarrow> (None, None))
   }"

end
