(* ===== verification/PbTable.thy ===== *)
theory PbTable
  imports PbChain "HOL-Library.Multiset"
begin

text \<open>
  What the three hash tables of \<open>map.c\<close> share, as the locale \<open>slot_table\<close>: a table of slots with chains
  (\<open>PbChain\<close>) is a map, a new entry extends it, in the slot of its hash or behind it, and a search finds
  the entry of a key.  \<open>PbMapProps\<close> interprets it on each table.
\<close>

section \<open>Entries\<close>

lemma map_filter_append: "List.map_filter f (xs @ ys) = List.map_filter f xs @ List.map_filter f ys"
  by (simp add: List.map_filter_def)

lemma set_map_filter_iff: "y \<in> set (List.map_filter f xs) \<longleftrightarrow> (\<exists>i < length xs. f (xs ! i) = Some y)"
  by (auto simp: List.map_filter_def in_set_conv_nth) force+

section \<open>The interface of a table of slots\<close>

text \<open>
  \<open>entry\<close> is the key and the value in a slot, \<open>nx\<close> its link, \<open>relink\<close> changes the link, \<open>home\<close> is the slot
  of the hash of a key in a table with that many slots, \<open>sized\<close> tells how many a table may have, and
  \<open>sound\<close> is what else holds of a slot (the hash it stores is that of its key).
\<close>

locale slot_table =
  fixes entry :: "'s \<Rightarrow> ('k \<times> 'v) option"
    and nx :: "'s \<Rightarrow> nat"
    and relink :: "nat \<Rightarrow> 's \<Rightarrow> 's"
    and home :: "nat \<Rightarrow> 'k \<Rightarrow> nat"
    and sized :: "nat \<Rightarrow> bool"
    and sound :: "'s \<Rightarrow> bool"
  assumes entry_relink: "entry (relink j s) = entry s"
    and nx_relink: "nx (relink j s) = j"
    and sound_relink: "sound (relink j s) = sound s"
    and home_less: "sized n \<Longrightarrow> home n k < n"
begin

definition taken :: "'s list \<Rightarrow> nat \<Rightarrow> bool" where "taken slots i \<longleftrightarrow> entry (slots ! i) \<noteq> None"
definition key_at :: "'s list \<Rightarrow> nat \<Rightarrow> 'k" where "key_at slots i = fst (the (entry (slots ! i)))"

definition table_map :: "'s list \<Rightarrow> 'k \<Rightarrow> 'v option" where
  "table_map slots = map_of (List.map_filter entry slots)"

definition table_ok :: "'s list \<Rightarrow> bool" where
  "table_ok slots \<longleftrightarrow> sized (length slots) \<and> (\<forall>i < length slots. sound (slots ! i)) \<and> distinct (map fst (List.map_filter entry slots)) \<and>
     chains_ok (taken slots) (\<lambda>i. home (length slots) (key_at slots i)) (map nx slots)"

lemma entries_update:
  assumes "h < length slots" "entry (slots ! h) = None" "entry s' = Some kv"
  shows "mset (List.map_filter entry (slots[h := s'])) = add_mset kv (mset (List.map_filter entry slots))"
proof -
  have slots: "slots = take h slots @ slots ! h # drop (Suc h) slots" using assms(1) by (rule id_take_nth_drop)
  have "List.map_filter entry slots = List.map_filter entry (take h slots) @ List.map_filter entry (drop (Suc h) slots)"
    using assms(2) by (subst slots) (simp add: map_filter_append map_filter_simps)
  moreover have "List.map_filter entry (slots[h := s']) =
      List.map_filter entry (take h slots) @ kv # List.map_filter entry (drop (Suc h) slots)"
    using assms(1,3) by (simp add: upd_conv_take_nth_drop map_filter_append map_filter_simps)
  ultimately show ?thesis by simp
qed

lemma entries_relink:
  "h < length slots \<Longrightarrow> List.map_filter entry (slots[h := relink k (slots ! h)]) = List.map_filter entry slots"
proof -
  assume h: "h < length slots"
  then have slots: "slots = take h slots @ slots ! h # drop (Suc h) slots" by (rule id_take_nth_drop)
  show ?thesis
    using h entry_relink [of k "slots ! h"]
    by (subst (2) slots) (simp add: upd_conv_take_nth_drop map_filter_append map_filter_simps del: append_take_drop_id)
qed

lemma map_of_add:
  assumes "mset ys = add_mset (k, v) (mset xs)" "distinct (map fst xs)" "k \<notin> fst ` set xs"
  shows "distinct (map fst ys) \<and> map_of ys = (map_of xs)(k \<mapsto> v)"
proof -
  have "mset (map fst ys) = mset (k # map fst xs)" using assms(1) by simp
  then have d: "distinct (map fst ys)" using assms(2,3) by (metis distinct.simps(2) list.set_map mset_eq_imp_distinct_iff)
  have "set ys = insert (k, v) (set xs)" using assms(1) by (metis set_mset_add_mset_insert set_mset_mset)
  then have "set ys = set ((k, v) # xs)" by simp
  moreover have "distinct (map fst ((k, v) # xs))" using assms(2,3) by simp
  ultimately have "map_of ys = map_of ((k, v) # xs)" using d by (intro map_of_eqI) (auto simp: map_of_eq_Some_iff)
  then show ?thesis using d by simp
qed

lemma fresh_key: "table_map slots k = None \<Longrightarrow> k \<notin> fst ` set (List.map_filter entry slots)"
  by (simp add: table_map_def map_of_eq_None_iff)

lemma entry_member: "i < length slots \<Longrightarrow> entry (slots ! i) = Some kv \<Longrightarrow> kv \<in> set (List.map_filter entry slots)"
  by (auto simp: set_map_filter_iff)

text \<open>A new entry in the slot of its hash, and one behind it.\<close>

lemma put_home:
  assumes ok: "table_ok slots" and k: "table_map slots k = None" and h: "h = home (length slots) k" "entry (slots ! h) = None"
    and s': "entry s' = Some (k, v)" "nx s' = nx (slots ! h)" "sound s'"
  shows "table_ok (slots[h := s']) \<and> table_map (slots[h := s']) = (table_map slots)(k \<mapsto> v)"
proof -
  let ?n = "length slots" and ?t = "slots[h := s']"
  have n: "sized ?n" "distinct (map fst (List.map_filter entry slots))" using ok by (simp_all add: table_ok_def)
  have lt: "h < ?n" using home_less [OF n(1)] h(1) by simp
  have "map nx ?t = map nx slots" using s'(2) lt by (metis list_update_id map_update nth_map)
  moreover have "chains_ok (taken ?t) (\<lambda>i. home ?n (key_at ?t i)) (map nx slots)"
  proof (rule chains_ok_take)
    show "chains_ok (taken slots) (\<lambda>i. home ?n (key_at slots i)) (map nx slots)" using ok by (simp add: table_ok_def)
    show "h < length (map nx slots)" "\<not> taken slots h" using lt h(2) by (simp_all add: taken_def)
    show "home ?n (key_at ?t h) = h" using lt s'(1) h(1) by (simp add: key_at_def)
    show "home ?n (key_at ?t i) = home ?n (key_at slots i)" if "i \<noteq> h" for i using that by (simp add: key_at_def)
    show "taken ?t i \<longleftrightarrow> taken slots i \<or> i = h" for i using lt s'(1) by (cases "i = h") (simp_all add: taken_def)
  qed
  moreover have "sound (?t ! i)" if "i < ?n" for i using that ok s'(3) by (cases "i = h") (simp_all add: table_ok_def)
  ultimately show ?thesis
    using map_of_add [OF entries_update [OF lt h(2) s'(1)] n(2) fresh_key [OF k]] n(1) by (simp add: table_ok_def table_map_def)
qed

lemma put_behind:
  assumes ok: "table_ok slots" and k: "table_map slots k = None" and h: "h = home (length slots) k" "entry (slots ! h) \<noteq> None"
    and e: "e < length slots" "entry (slots ! e) = None" and s': "entry s' = Some (k, v)" "nx s' = nx (slots ! h)" "sound s'"
    and t: "t = slots[e := s', h := relink (Suc e) (slots ! h)]"
  shows "table_ok t \<and> table_map t = (table_map slots)(k \<mapsto> v)"
proof -
  let ?n = "length slots" and ?m = "slots[e := s']"
  have n: "sized ?n" "distinct (map fst (List.map_filter entry slots))" using ok by (simp_all add: table_ok_def)
  have lt: "h < ?n" using home_less [OF n(1)] h(1) by simp
  have ne: "e \<noteq> h" using h(2) e(2) by auto
  have t': "t = ?m[h := relink (Suc e) (?m ! h)]" using ne by (simp add: t)
  have entries: "List.map_filter entry t = List.map_filter entry ?m" unfolding t' using lt by (intro entries_relink) simp
  have "map nx t = link_behind h e (map nx slots)"
    using lt e(1) ne s'(2) by (simp add: t link_behind_def map_update nx_relink)
  moreover have "chains_ok (taken t) (\<lambda>i. home ?n (key_at t i)) (link_behind h e (map nx slots))"
  proof (rule chains_ok_link)
    have at: "entry (t ! i) = (if i = e then Some (k, v) else entry (slots ! i))" for i
      using lt e(1) ne s'(1) by (cases "i = h") (simp_all add: t entry_relink nth_list_update)
    show "chains_ok (taken slots) (\<lambda>i. home ?n (key_at slots i)) (map nx slots)" using ok by (simp add: table_ok_def)
    show "h < length (map nx slots)" "e < length (map nx slots)" using lt e(1) by simp_all
    show "taken slots h" "\<not> taken slots e" using h(2) e(2) by (simp_all add: taken_def)
    show "home ?n (key_at t e) = h" using at h(1) by (simp add: key_at_def)
    show "home ?n (key_at t i) = home ?n (key_at slots i)" if "i \<noteq> e" for i using that at by (simp add: key_at_def)
    show "taken t i \<longleftrightarrow> taken slots i \<or> i = e" for i using at by (simp add: taken_def)
  qed
  moreover have "sound (t ! i)" if "i < ?n" for i
    using that ok s'(3) lt ne by (cases "i = e"; cases "i = h") (simp_all add: t table_ok_def sound_relink)
  moreover have "length t = ?n" by (simp add: t)
  ultimately show ?thesis
    using map_of_add [OF entries_update [OF e(1,2) s'(1)] n(2) fresh_key [OF k]] n(1) entries by (simp add: table_ok_def table_map_def)
qed

lemma count_entries: "length (List.map_filter entry slots) = card {i. i < length slots \<and> taken slots i}"
proof -
  have "length (List.map_filter entry slots) = length (filter (\<lambda>s. entry s \<noteq> None) slots)"
    by (simp add: List.map_filter_def)
  then show ?thesis by (simp add: length_filter_conv_card taken_def)
qed

lemma free_slot:
  assumes "length (List.map_filter entry slots) < length slots"
  obtains e where "e < length slots" "\<not> taken slots e"
proof -
  have "\<exists>e < length slots. \<not> taken slots e"
  proof (rule ccontr)
    assume "\<not> ?thesis"
    then have "{i. i < length slots \<and> taken slots i} = {..<length slots}" by auto
    then show False using assms count_entries by simp
  qed
  then show thesis using that by blast
qed

text \<open>A key is in one slot only.\<close>

lemma key_once_less:
  assumes "distinct (map fst (List.map_filter entry slots))" "i < j" "j < length slots"
    and "entry (slots ! i) = Some (k, v)" "entry (slots ! j) = Some (k, w)"
  shows False
proof -
  have "List.map_filter entry slots = List.map_filter entry (take j slots) @ List.map_filter entry (drop j slots)"
    using map_filter_append [of entry "take j slots" "drop j slots"] by simp
  moreover have "k \<in> fst ` set (List.map_filter entry (take j slots))"
    using entry_member [of i "take j slots" "(k, v)"] assms(2-4) by force
  moreover have "k \<in> fst ` set (List.map_filter entry (drop j slots))"
    using entry_member [of 0 "drop j slots" "(k, w)"] assms(3,5) by force
  ultimately show False using assms(1) by auto
qed

lemma key_once:
  "\<lbrakk>distinct (map fst (List.map_filter entry slots)); i < length slots; j < length slots;
    entry (slots ! i) = Some (k, v); entry (slots ! j) = Some (k, w)\<rbrakk> \<Longrightarrow> i = j"
  using key_once_less [of slots i j k v w] key_once_less [of slots j i k w v] by (cases i j rule: linorder_cases) auto

lemma taken_entry: "taken slots i \<Longrightarrow> key_at slots i = k \<Longrightarrow> \<exists>v. entry (slots ! i) = Some (k, v)"
  by (cases "entry (slots ! i)") (auto simp: taken_def key_at_def)

text \<open>The search for a key whose slot is taken.\<close>

lemma find_entry:
  assumes ok: "table_ok slots" and h: "h = home (length slots) k" "taken slots h"
    and hit: "\<And>i kv. i < length slots \<Longrightarrow> entry (slots ! i) = Some kv \<Longrightarrow> sound (slots ! i) \<Longrightarrow> hit (slots ! i) = Some (fst kv = k)"
  shows "\<exists>r. slot_find hit nx slots h = Some r \<and>
    (case r of Some i \<Rightarrow> i < length slots \<and> (\<exists>v. entry (slots ! i) = Some (k, v) \<and> table_map slots k = Some v)
     | None \<Rightarrow> table_map slots k = None)"
proof -
  let ?n = "length slots"
  have n: "sized ?n" "distinct (map fst (List.map_filter entry slots))"
    "chains_ok (taken slots) (\<lambda>i. home ?n (key_at slots i)) (map nx slots)" using ok by (simp_all add: table_ok_def)
  have lt: "h < ?n" using home_less [OF n(1)] h(1) by simp
  note one = key_once [OF n(2)]
  have "\<exists>r. slot_find hit nx slots h = Some r \<and>
    (case r of Some i \<Rightarrow> i < ?n \<and> taken slots i \<and> key_at slots i = k | None \<Rightarrow> (\<forall>i < ?n. taken slots i \<longrightarrow> key_at slots i \<noteq> k))"
  proof (rule slot_find_entry [OF n(3) lt h(2)])
    fix i assume i: "i < ?n" "taken slots i"
    then obtain v where "entry (slots ! i) = Some (key_at slots i, v)" using taken_entry by blast
    then show "hit (slots ! i) = Some (key_at slots i = k)" using hit [OF i(1)] i(1) ok by (simp add: table_ok_def)
    show "home ?n (key_at slots i) = h" if "key_at slots i = k" using that h(1) by simp
    fix j assume j: "j < ?n" "taken slots j" "key_at slots i = k" "key_at slots j = k"
    obtain v w where "entry (slots ! i) = Some (k, v)" "entry (slots ! j) = Some (k, w)"
      using taken_entry [OF i(2) j(3)] taken_entry [OF j(2) j(4)] by blast
    then show "i = j" using one i(1) j(1) by blast
  qed
  then obtain r where r: "slot_find hit nx slots h = Some r"
    "(case r of Some i \<Rightarrow> i < ?n \<and> taken slots i \<and> key_at slots i = k | None \<Rightarrow> (\<forall>i < ?n. taken slots i \<longrightarrow> key_at slots i \<noteq> k))"
    by blast
  show ?thesis
  proof (cases r)
    case None
    have "k \<notin> fst ` set (List.map_filter entry slots)"
    proof
      assume "k \<in> fst ` set (List.map_filter entry slots)"
      then obtain v where "(k, v) \<in> set (List.map_filter entry slots)" by auto
      then obtain i where "i < ?n" "entry (slots ! i) = Some (k, v)" by (auto simp: set_map_filter_iff)
      then have "i < ?n" "taken slots i" "key_at slots i = k" by (simp_all add: taken_def key_at_def)
      then show False using r(2) None by simp
    qed
    then show ?thesis using r(1) None by (simp add: table_map_def map_of_eq_None_iff)
  next
    case (Some i)
    then have "i < ?n" "taken slots i" "key_at slots i = k" using r(2) by simp_all
    then obtain v where i: "i < ?n" "entry (slots ! i) = Some (k, v)" using taken_entry by blast
    then have "table_map slots k = Some v" using entry_member [OF i] n(2) by (simp add: table_map_def map_of_is_SomeI)
    then show ?thesis using r(1) Some i by simp
  qed
qed

text \<open>A key whose slot is free is not in the table.\<close>

lemma home_free: "table_ok slots \<Longrightarrow> \<not> taken slots (home (length slots) k) \<Longrightarrow> table_map slots k = None"
proof (rule ccontr)
  assume ok: "table_ok slots" and free: "\<not> taken slots (home (length slots) k)" and "table_map slots k \<noteq> None"
  then obtain v where "(k, v) \<in> set (List.map_filter entry slots)" by (auto simp: table_map_def dest: map_of_SomeD)
  then obtain i where i: "i < length slots" "entry (slots ! i) = Some (k, v)" by (auto simp: set_map_filter_iff)
  then have "taken slots (home (length slots) (key_at slots i))"
    using ok by (auto simp: table_ok_def chains_ok_def taken_def)
  then show False using free i(2) by (simp add: key_at_def)
qed

lemma table_ok_blank:
  "sized n \<Longrightarrow> entry s = None \<Longrightarrow> nx s = 0 \<Longrightarrow> sound s \<Longrightarrow> table_ok (replicate n s) \<and> table_map (replicate n s) = Map.empty"
proof -
  assume "sized n" "entry s = None" "nx s = 0" "sound s"
  moreover have "List.map_filter entry (replicate n s) = []" using \<open>entry s = None\<close> by (induction n) (simp_all add: map_filter_simps)
  moreover have "chains_ok (taken (replicate n s)) f (replicate n 0)" for f
    using \<open>entry s = None\<close> by (simp add: chains_ok_def taken_def)
  ultimately show ?thesis by (simp add: table_ok_def table_map_def)
qed

text \<open>The search from a free slot.\<close>

lemma find_free:
  assumes "table_ok slots" "\<not> taken slots (home (length slots) k)"
  shows "hit (slots ! home (length slots) k) = Some b \<Longrightarrow>
    slot_find hit nx slots (home (length slots) k) = Some (if b then Some (home (length slots) k) else None)"
  using assms home_less [of "length slots" k]
  by (subst slot_find.simps) (auto simp: table_ok_def chains_ok_def taken_def)

text \<open>What a new entry does to the counts, and the search for a free slot from the bottom.\<close>

definition added :: "'s list \<Rightarrow> 'k \<Rightarrow> 'v \<Rightarrow> 's list \<Rightarrow> bool" where
  "added slots k v t \<longleftrightarrow> table_ok t \<and> table_map t = (table_map slots)(k \<mapsto> v) \<and> length t = length slots \<and>
     length (List.map_filter entry t) = Suc (length (List.map_filter entry slots)) \<and> (\<forall>i. taken slots i \<longrightarrow> taken t i)"

lemma added_home:
  assumes ok: "table_ok slots" and k: "table_map slots k = None" and h: "h = home (length slots) k" "\<not> taken slots h"
    and s': "entry s' = Some (k, v)" "nx s' = nx (slots ! h)" "sound s'"
  shows "added slots k v (slots[h := s'])"
proof -
  have lt: "h < length slots" using home_less ok h(1) by (simp add: table_ok_def)
  have free: "entry (slots ! h) = None" using h(2) by (cases "entry (slots ! h)") (simp_all add: taken_def)
  have "size (mset (List.map_filter entry (slots[h := s']))) = Suc (length (List.map_filter entry slots))"
    by (simp add: entries_update [OF lt free s'(1)] del: size_mset) simp
  moreover have "taken (slots[h := s']) i" if "taken slots i" for i
    using that s'(1) lt by (cases "i = h") (simp_all add: taken_def)
  ultimately show ?thesis using put_home [OF ok k h(1) free s'] by (simp add: added_def)
qed

lemma added_behind:
  assumes ok: "table_ok slots" and k: "table_map slots k = None" and h: "h = home (length slots) k" "taken slots h"
    and e: "e < length slots" "\<not> taken slots e" and s': "entry s' = Some (k, v)" "nx s' = nx (slots ! h)" "sound s'"
  shows "added slots k v (slots[e := s', h := relink (Suc e) (slots ! h)])"
proof -
  let ?t = "slots[e := s', h := relink (Suc e) (slots ! h)]"
  have lt: "h < length slots" using home_less ok h(1) by (simp add: table_ok_def)
  have free: "entry (slots ! e) = None" "entry (slots ! h) \<noteq> None"
    using h(2) e(2) by (cases "entry (slots ! e)", simp_all add: taken_def)
  then have ne: "e \<noteq> h" by auto
  have "List.map_filter entry ?t = List.map_filter entry (slots[e := s'])"
    using entries_relink [of h "slots[e := s']" "Suc e"] lt ne by simp
  then have "size (mset (List.map_filter entry ?t)) = Suc (length (List.map_filter entry slots))"
    by (simp add: entries_update [OF e(1) free(1) s'(1)] del: size_mset) simp
  moreover have "taken ?t i" if "taken slots i" for i
    using that s'(1) lt e(1) by (cases "i = h"; cases "i = e") (simp_all add: taken_def entry_relink)
  ultimately show ?thesis using put_behind [OF ok k h(1) free(2) e(1) free(1) s' refl] by (simp add: added_def)
qed

lemma scan_slot:
  assumes "length (List.map_filter entry slots) < length slots" "\<forall>i < e. taken slots i"
  obtains e' where "scan_free (taken slots) (length slots) e = Some e'" "e' < length slots" "\<not> taken slots e'" "\<forall>i < e'. taken slots i"
proof -
  obtain j where j: "j < length slots" "\<not> taken slots j" using assms(1) by (rule free_slot)
  then have "e \<le> j" using assms(2) by (meson not_le)
  then show thesis using scan_free_ok [OF _ j assms(2)] that by blast
qed

end

end
