(* ===== verification/PbMapProps.thy ===== *)
theory PbMapProps
  imports PbMap PbTable
begin

text \<open>
  The hash tables of \<open>map.c\<close> are maps: each is an interpretation of the locale \<open>slot_table\<close> of \<open>PbTable\<close>, and
  its operations refine lookup and update of a map.
\<close>

unbundle bit_operations_syntax

section \<open>Names to numbers\<close>

definition si_entry :: "si_slot \<Rightarrow> (string \<times> i32) option" where
  "si_entry s = map_option (\<lambda>k. (k, si_id s)) (si_key s)"

definition si_home :: "nat \<Rightarrow> string \<Rightarrow> nat" where "si_home n k = unat (calc_hash k) mod n"

definition si_sound :: "si_slot \<Rightarrow> bool" where
  "si_sound s \<longleftrightarrow> si_hash s = (case si_key s of Some k \<Rightarrow> calc_hash k | None \<Rightarrow> 0)"

interpretation names: slot_table si_entry si_next "\<lambda>j s. s\<lparr>si_next := j\<rparr>" si_home "\<lambda>n. 0 < n" si_sound
  by unfold_locales (simp_all add: si_entry_def si_home_def si_sound_def)

lemma si_taken_eq: "si_taken slots = names.taken slots"
  by (simp add: fun_eq_iff si_taken_def names.taken_def si_entry_def)

lemma si_add_ok:
  assumes "names.table_ok slots" "names.table_map slots k = None" "length (List.map_filter si_entry slots) < length slots"
    and "\<forall>i < e. names.taken slots i"
  shows "\<exists>t e'. si_add (n, k) (slots, e) = Some (t, e') \<and> names.added slots k n t \<and> (\<forall>i < e'. names.taken t i)"
proof -
  let ?h = "si_home (length slots) k"
  let ?new = "\<lambda>j. \<lparr>si_key = Some k, si_hash = calc_hash k, si_id = n, si_next = j\<rparr>"
  have ne: "slots \<noteq> []" using assms(3) by auto
  have new: "si_entry (?new j) = Some (k, n)" "si_next (?new j) = j" "si_sound (?new j)" for j
    by (simp_all add: si_entry_def si_sound_def)
  have upd: "s\<lparr>si_key := Some k, si_id := n, si_hash := calc_hash k\<rparr> = ?new (si_next s)" for s :: si_slot by (cases s) simp
  show ?thesis
  proof (cases "names.taken slots ?h")
    case False
    then have "si_add (n, k) (slots, e) = Some (slots[?h := ?new (si_next (slots ! ?h))], e)"
      using ne by (simp add: si_add_def c_assert_def si_home_def names.taken_def si_entry_def Let_def upd)
    moreover have "names.added slots k n (slots[?h := ?new (si_next (slots ! ?h))])"
      using False by (intro names.added_home [OF assms(1,2) refl] new)
    ultimately show ?thesis using assms(4) by (auto simp: names.added_def)
  next
    case True
    obtain e' where e': "scan_free (names.taken slots) (length slots) e = Some e'" "e' < length slots" "\<not> names.taken slots e'"
      "\<forall>i < e'. names.taken slots i" using assms(3,4) by (rule names.scan_slot)
    obtain k' where "si_key (slots ! ?h) = Some k'" using True by (auto simp: names.taken_def si_entry_def)
    with e' have "si_add (n, k) (slots, e) =
        Some (slots[e' := ?new (si_next (slots ! ?h)), ?h := (slots ! ?h)\<lparr>si_next := Suc e'\<rparr>], e')"
      using ne by (simp add: si_add_def c_assert_def si_home_def si_taken_eq Let_def)
    moreover have "names.added slots k n (slots[e' := ?new (si_next (slots ! ?h)), ?h := (slots ! ?h)\<lparr>si_next := Suc e'\<rparr>])"
      using True e' by (intro names.added_behind [OF assms(1,2) refl] new)
    ultimately show ?thesis using e'(4) by (auto simp: names.added_def)
  qed
qed

lemma si_adds_ok:
  "\<lbrakk>names.table_ok slots; length (List.map_filter si_entry slots) + length xs \<le> length slots; \<forall>i < e. names.taken slots i;
    distinct (map snd xs); \<forall>k \<in> snd ` set xs. names.table_map slots k = None\<rbrakk> \<Longrightarrow>
    \<exists>t e'. si_adds xs (slots, e) = Some (t, e') \<and> names.table_ok t \<and> length t = length slots \<and>
      names.table_map t = names.table_map slots ++ map_of (map (\<lambda>(n, k). (k, n)) xs)"
proof (induction xs arbitrary: slots e)
  case (Cons x xs)
  obtain n k where x: "x = (n, k)" by (cases x)
  obtain t e' where t: "si_add (n, k) (slots, e) = Some (t, e')" "names.added slots k n t" "\<forall>i < e'. names.taken t i"
    using si_add_ok [OF Cons.prems(1) _ _ Cons.prems(3), of k n] Cons.prems(2,5) by (auto simp: x)
  then have t': "names.table_ok t" "names.table_map t = (names.table_map slots)(k \<mapsto> n)" "length t = length slots"
    "length (List.map_filter si_entry t) = Suc (length (List.map_filter si_entry slots))" by (simp_all add: names.added_def)
  have "\<forall>k' \<in> snd ` set xs. names.table_map t k' = None" using Cons.prems(4,5) by (auto simp: t'(2) x)
  then obtain u e'' where u: "si_adds xs (t, e') = Some (u, e'')" "names.table_ok u" "length u = length t"
    "names.table_map u = names.table_map t ++ map_of (map (\<lambda>(n, k). (k, n)) xs)"
    using Cons.IH [OF t'(1) _ t(3)] Cons.prems(2,4) t'(3,4) by auto
  have "k \<notin> dom (map_of (map (\<lambda>(n, k). (k, n)) xs))" using Cons.prems(4) by (auto simp: x dom_map_of_conv_image_fst image_iff)
  then have "(names.table_map slots)(k \<mapsto> n) ++ map_of (map (\<lambda>(n, k). (k, n)) xs) =
      names.table_map slots ++ map_of (map (\<lambda>(n, k). (k, n)) (x # xs))" by (simp add: x map_add_upd_left)
  moreover have "si_adds (x # xs) (slots, e) = Some (u, e'')" using t(1) u(1) by (simp add: x)
  ultimately show ?case using u t' by (intro exI [of _ u] exI [of _ e''] conjI) (simp_all only:)
qed simp

lemma si_new_ok:
  assumes "table \<noteq> []" "distinct (map snd table)"
  shows "\<exists>slots. si_new table = Some slots \<and> names.table_ok slots \<and> length slots = length table \<and>
    names.table_map slots = map_of (map (\<lambda>(n, k). (k, n)) table)"
proof -
  let ?blank = "replicate (length table) \<lparr>si_key = None, si_hash = 0, si_id = 0, si_next = 0\<rparr>"
  have blank: "names.table_ok ?blank \<and> names.table_map ?blank = Map.empty"
    using assms(1) by (intro names.table_ok_blank) (simp_all add: si_entry_def si_sound_def)
  have none: "List.map_filter si_entry ?blank = []" by (simp add: List.map_filter_def si_entry_def)
  obtain t e' where "si_adds table (?blank, 0) = Some (t, e')" "names.table_ok t" "length t = length table"
    "names.table_map t = map_of (map (\<lambda>(n, k). (k, n)) table)"
    using si_adds_ok [of ?blank table 0] blank assms(2) by (auto simp: none)
  then show ?thesis by (simp add: si_new_def)
qed

lemma si_query_ok:
  assumes "names.table_ok slots" "calc_hash key \<noteq> 0"
  shows "si_query slots key = Some (names.table_map slots key)"
proof -
  let ?h = "si_home (length slots) key"
  let ?hit = "\<lambda>s. same_key (si_hash s) (si_key s) key"
  have ne: "slots \<noteq> []" using assms(1) by (auto simp: names.table_ok_def)
  have "\<exists>r. slot_find ?hit si_next slots ?h = Some r \<and> names.table_map slots key = map_option (\<lambda>i. si_id (slots ! i)) r"
  proof (cases "names.taken slots ?h")
    case True
    obtain r where "slot_find ?hit si_next slots ?h = Some r"
      "(case r of Some i \<Rightarrow> i < length slots \<and> (\<exists>v. si_entry (slots ! i) = Some (key, v) \<and> names.table_map slots key = Some v)
        | None \<Rightarrow> names.table_map slots key = None)"
      using names.find_entry [OF assms(1) refl True, of ?hit] by (force simp: si_entry_def si_sound_def same_key_def)
    then show ?thesis by (auto simp: si_entry_def split: option.splits)
  next
    case False
    then have "si_key (slots ! ?h) = None" by (simp add: names.taken_def si_entry_def)
    moreover have "?h < length slots" using ne by (simp add: si_home_def)
    ultimately have "si_hash (slots ! ?h) = 0" using assms(1) by (simp add: names.table_ok_def si_sound_def)
    then have "?hit (slots ! ?h) = Some False" using assms(2) by (simp add: same_key_def)
    from names.find_free [where hit = ?hit and b = False, OF assms(1) False this] show ?thesis using names.home_free [OF assms(1) False] by simp
  qed
  then show ?thesis using ne by (auto simp: si_query_def si_home_def)
qed

section \<open>Numbers to pointers\<close>

definition ip_entry :: "'p ip_slot \<Rightarrow> (i32 \<times> 'p) option" where
  "ip_entry s = map_option (\<lambda>p. (ip_id s, p)) (ip_pointer s)"

definition ip_home :: "nat \<Rightarrow> i32 \<Rightarrow> nat" where "ip_home n k = unat k mod n"

interpretation numbers: slot_table ip_entry ip_next "\<lambda>j s. s\<lparr>ip_next := j\<rparr>" ip_home "\<lambda>n. 0 < n" "\<lambda>_. True"
  by unfold_locales (simp_all add: ip_entry_def ip_home_def)

text \<open>A table of numbers and pointers, none of them null.\<close>

definition pointers :: "(i32 \<times> 'p) list \<Rightarrow> (i32 \<times> 'p option) list" where "pointers kvs = map (apsnd Some) kvs"

lemma length_pointers [simp]: "length (pointers kvs) = length kvs" by (simp add: pointers_def)

lemma ip_taken_eq: "ip_taken slots = numbers.taken slots"
  by (simp add: fun_eq_iff ip_taken_def numbers.taken_def ip_entry_def)

lemma ip_add_ok:
  assumes "numbers.table_ok slots" "numbers.table_map slots k = None" "length (List.map_filter ip_entry slots) < length slots"
    and "\<forall>i < e. numbers.taken slots i"
  shows "\<exists>t e'. ip_add (k, Some p) (slots, e) = Some (t, e') \<and> numbers.added slots k p t \<and> (\<forall>i < e'. numbers.taken t i)"
proof -
  let ?h = "ip_home (length slots) k"
  let ?new = "\<lambda>j. \<lparr>ip_id = k, ip_pointer = Some p, ip_next = j\<rparr>"
  have ne: "slots \<noteq> []" using assms(3) by auto
  have new: "ip_entry (?new j) = Some (k, p)" "ip_next (?new j) = j" True for j by (simp_all add: ip_entry_def)
  have upd: "s\<lparr>ip_pointer := Some p, ip_id := k\<rparr> = ?new (ip_next s)" for s :: "'a ip_slot" by (cases s) simp
  show ?thesis
  proof (cases "numbers.taken slots ?h")
    case False
    then have "ip_add (k, Some p) (slots, e) = Some (slots[?h := ?new (ip_next (slots ! ?h))], e)"
      using ne by (simp add: ip_add_def ip_home_def numbers.taken_def ip_entry_def Let_def upd)
    moreover have "numbers.added slots k p (slots[?h := ?new (ip_next (slots ! ?h))])"
      using False by (intro numbers.added_home [OF assms(1,2) refl] new)
    ultimately show ?thesis using assms(4) by (auto simp: numbers.added_def)
  next
    case True
    obtain e' where e': "scan_free (numbers.taken slots) (length slots) e = Some e'" "e' < length slots" "\<not> numbers.taken slots e'"
      "\<forall>i < e'. numbers.taken slots i" using assms(3,4) by (rule numbers.scan_slot)
    obtain q where "ip_pointer (slots ! ?h) = Some q" using True by (auto simp: numbers.taken_def ip_entry_def)
    with e' have "ip_add (k, Some p) (slots, e) =
        Some (slots[e' := ?new (ip_next (slots ! ?h)), ?h := (slots ! ?h)\<lparr>ip_next := Suc e'\<rparr>], e')"
      using ne by (simp add: ip_add_def ip_home_def ip_taken_eq Let_def)
    moreover have "numbers.added slots k p (slots[e' := ?new (ip_next (slots ! ?h)), ?h := (slots ! ?h)\<lparr>ip_next := Suc e'\<rparr>])"
      using True e' by (intro numbers.added_behind [OF assms(1,2) refl] new)
    ultimately show ?thesis using e'(4) by (auto simp: numbers.added_def)
  qed
qed

lemma ip_adds_ok:
  "\<lbrakk>numbers.table_ok slots; length (List.map_filter ip_entry slots) + length xs \<le> length slots; \<forall>i < e. numbers.taken slots i;
    distinct (map fst xs); \<forall>k \<in> fst ` set xs. numbers.table_map slots k = None\<rbrakk> \<Longrightarrow>
    \<exists>t e'. ip_adds (pointers xs) (slots, e) = Some (t, e') \<and> numbers.table_ok t \<and> length t = length slots \<and>
      length (List.map_filter ip_entry t) = length (List.map_filter ip_entry slots) + length xs \<and>
      numbers.table_map t = numbers.table_map slots ++ map_of xs"
proof (induction xs arbitrary: slots e)
  case (Cons x xs)
  obtain k p where x: "x = (k, p)" by (cases x)
  obtain t e' where t: "ip_add (k, Some p) (slots, e) = Some (t, e')" "numbers.added slots k p t" "\<forall>i < e'. numbers.taken t i"
    using ip_add_ok [OF Cons.prems(1) _ _ Cons.prems(3), of k p] Cons.prems(2,5) by (auto simp: x)
  then have t': "numbers.table_ok t" "numbers.table_map t = (numbers.table_map slots)(k \<mapsto> p)" "length t = length slots"
    "length (List.map_filter ip_entry t) = Suc (length (List.map_filter ip_entry slots))" by (simp_all add: numbers.added_def)
  have "\<forall>k' \<in> fst ` set xs. numbers.table_map t k' = None" using Cons.prems(4,5) by (auto simp: t'(2) x)
  then obtain u e'' where u: "ip_adds (pointers xs) (t, e') = Some (u, e'')" "numbers.table_ok u" "length u = length t"
    "length (List.map_filter ip_entry u) = length (List.map_filter ip_entry t) + length xs"
    "numbers.table_map u = numbers.table_map t ++ map_of xs"
    using Cons.IH [OF t'(1) _ t(3)] Cons.prems(2,4) t'(3,4) by auto
  have "k \<notin> dom (map_of xs)" using Cons.prems(4) by (simp add: x dom_map_of_conv_image_fst)
  then have "(numbers.table_map slots)(k \<mapsto> p) ++ map_of xs = numbers.table_map slots ++ map_of (x # xs)"
    by (simp add: x map_add_upd_left)
  moreover have "ip_adds (pointers (x # xs)) (slots, e) = Some (u, e'')" using t(1) u(1) by (simp add: x pointers_def)
  ultimately show ?case using u t' by (intro exI [of _ u] exI [of _ e''] conjI) (simp_all only: list.size)
qed (simp add: pointers_def)

text \<open>A map made from a table is right when it finds what the table says, and it is full.\<close>

definition ip_made :: "(i32 \<times> 'p) list \<Rightarrow> 'p map_ip \<Rightarrow> bool" where
  "ip_made kvs m \<longleftrightarrow> ip_hash_size m = length kvs \<and> (case ip_array m of
     None \<Rightarrow> numbers.table_ok (ip_slots m) \<and> length (ip_slots m) = length kvs \<and>
       length (List.map_filter ip_entry (ip_slots m)) = length kvs \<and> numbers.table_map (ip_slots m) = map_of kvs
   | Some array \<Rightarrow> (\<forall>k \<in> fst ` set kvs. 0 \<le> sint k \<and> sint k < int (length array)) \<and> length array \<le> 2 ^ 31 \<and>
       (\<forall>i < length array. array ! i = map_of kvs (of_nat i)))"

lemma ip_new_hash_ok:
  assumes "kvs \<noteq> []" "distinct (map fst kvs)"
  shows "\<exists>m. ip_new_hash (pointers kvs) = Some m \<and> ip_made kvs m"
proof -
  let ?blank = "replicate (length kvs) \<lparr>ip_id = 0, ip_pointer = None, ip_next = 0\<rparr> :: 'a ip_slot list"
  have blank: "numbers.table_ok ?blank \<and> numbers.table_map ?blank = Map.empty"
    using assms(1) by (intro numbers.table_ok_blank) (simp_all add: ip_entry_def)
  have none: "List.map_filter ip_entry ?blank = []" by (simp add: List.map_filter_def ip_entry_def)
  obtain t e' where "ip_adds (pointers kvs) (?blank, 0) = Some (t, e')" "numbers.table_ok t" "length t = length kvs"
    "length (List.map_filter ip_entry t) = length kvs" "numbers.table_map t = map_of kvs"
    using ip_adds_ok [of ?blank kvs 0] blank assms(2) by (auto simp: none)
  then show ?thesis by (simp add: ip_new_hash_def ip_made_def)
qed

lemma i32_sint_less: "sint (k :: i32) < 2 ^ 31" using sint_lt [of k] by simp

lemma i32_of_nat: "i < 2 ^ 31 \<Longrightarrow> sint (of_nat i :: i32) = int i"
  by (simp add: signed_of_nat signed_take_bit_int_eq_self)

lemma i32_nat_sint: "0 \<le> sint (k :: i32) \<Longrightarrow> of_nat (nat (sint k)) = k"
  by simp

lemma ip_max_bounds:
  "ip_max n m (pointers xs) = Some b \<Longrightarrow> m \<le> b \<and> (\<forall>k \<in> fst ` set xs. 0 \<le> sint k \<and> sint k \<le> b) \<and> (b = m \<or> b < 2 ^ 31)"
proof (induction xs arbitrary: m)
  case (Cons x xs)
  obtain k p where x: "x = (k, p)" by (cases x)
  have k: "0 \<le> sint k" "ip_max n (if m < sint k then sint k else m) (pointers xs) = Some b"
    using Cons.prems by (auto simp: x pointers_def split: if_splits)
  show ?case using Cons.IH [OF k(2)] k(1) i32_sint_less [of k] by (auto simp: x split: if_splits)
qed (simp add: pointers_def)

lemma ip_fill_nth:
  "\<lbrakk>distinct (map fst xs); \<forall>k \<in> fst ` set xs. 0 \<le> sint k \<and> sint k < int (length array); length array \<le> 2 ^ 31; i < length array\<rbrakk>
    \<Longrightarrow> ip_fill (pointers xs) array ! i = (case map_of xs (of_nat i) of Some p \<Rightarrow> Some p | None \<Rightarrow> array ! i)"
proof (induction xs arbitrary: array)
  case (Cons x xs)
  obtain k p where x: "x = (k, p)" by (cases x)
  have k: "0 \<le> sint k" "nat (sint k) < length array" using Cons.prems(2) by (auto simp: x)
  have "ip_fill (pointers (x # xs)) array ! i =
      (case map_of xs (of_nat i) of Some p \<Rightarrow> Some p | None \<Rightarrow> array[nat (sint k) := Some p] ! i)"
    using Cons.IH [of "array[nat (sint k) := Some p]"] Cons.prems by (simp add: x pointers_def)
  moreover have "k = of_nat i \<longleftrightarrow> nat (sint k) = i"
    using k(1) Cons.prems(3,4) i32_nat_sint [OF k(1)] i32_of_nat [of i] by auto
  moreover have "map_of xs k = None" using Cons.prems(1) by (simp add: x map_of_eq_None_iff)
  ultimately show ?case using k(2) by (auto simp: x nth_list_update split: option.splits)
qed (simp add: pointers_def)

lemma length_ip_fill [simp]: "length (ip_fill xs array) = length array"
  by (induction xs arbitrary: array) auto

lemma ip_new_ok:
  assumes "kvs \<noteq> []" "distinct (map fst kvs)"
  shows "\<exists>m. ip_new (pointers kvs) = Some m \<and> ip_made kvs m"
proof -
  obtain k p xs where kvs: "kvs = (k, p) # xs" using assms(1) by (cases kvs) auto
  have ps: "pointers kvs = (k, Some p) # pointers xs" by (simp add: kvs pointers_def)
  show ?thesis
  proof (cases "int (length kvs) * 2 < sint k \<or> sint k < 0 \<or> ip_max (int (length kvs)) (sint k) (pointers xs) = None")
    case True
    then have "ip_new (pointers kvs) = ip_new_hash (pointers kvs)"
      using ps by (auto simp: ip_new_def kvs)
    then show ?thesis using ip_new_hash_ok [OF assms] by simp
  next
    case False
    then obtain b where b: "ip_max (int (length kvs)) (sint k) (pointers xs) = Some b" by auto
    let ?array = "ip_fill (pointers kvs) (replicate (nat (b + 1)) None)"
    have new: "ip_new (pointers kvs) = Some \<lparr>ip_array = Some ?array, ip_hash_size = length kvs, ip_slots = []\<rparr>"
      using False b ps by (simp add: ip_new_def kvs)
    have bound: "0 \<le> b" "b < 2 ^ 31" "\<forall>k \<in> fst ` set kvs. 0 \<le> sint k \<and> sint k \<le> b"
      using ip_max_bounds [OF b] False i32_sint_less [of k] by (auto simp: kvs)
    then have range: "\<forall>k \<in> fst ` set kvs. 0 \<le> sint k \<and> sint k < int (nat (b + 1))" "nat (b + 1) \<le> 2 ^ 31" by auto
    have "?array ! i = map_of kvs (of_nat i)" if "i < nat (b + 1)" for i
      using ip_fill_nth [of kvs "replicate (nat (b + 1)) None" i] assms(2) range that by (simp split: option.splits)
    then show ?thesis using new range by (simp add: ip_made_def)
  qed
qed

lemma ip_query_ok:
  assumes "ip_made kvs m" "kvs \<noteq> []"
  shows "ip_query m k = Some (map_of kvs k)"
proof (cases "ip_array m")
  case (Some array)
  then have made: "\<forall>k \<in> fst ` set kvs. 0 \<le> sint k \<and> sint k < int (length array)" "\<forall>i < length array. array ! i = map_of kvs (of_nat i)"
    using assms(1) by (simp_all add: ip_made_def)
  show ?thesis
  proof (cases "0 \<le> sint k \<and> sint k < int (length array)")
    case True
    then have "array ! nat (sint k) = map_of kvs k" using made(2) by (simp add: nat_less_iff)
    then show ?thesis using True Some by (simp add: ip_query_def)
  next
    case False
    then have "k \<notin> fst ` set kvs" using made(1) by blast
    then have "map_of kvs k = None" by (simp add: map_of_eq_None_iff)
    then show ?thesis using False Some by (auto simp: ip_query_def)
  qed
next
  case None
  let ?slots = "ip_slots m" and ?hit = "\<lambda>s. Some (ip_id s = k)"
  have made: "numbers.table_ok ?slots" "numbers.table_map ?slots = map_of kvs" "ip_hash_size m = length ?slots" "?slots \<noteq> []"
    using assms None by (auto simp: ip_made_def)
  let ?h = "ip_home (length ?slots) k"
  have "\<exists>r. slot_find ?hit ip_next ?slots ?h = Some r \<and>
      map_of kvs k = (case r of Some i \<Rightarrow> ip_pointer (?slots ! i) | None \<Rightarrow> None)"
  proof (cases "numbers.taken ?slots ?h")
    case True
    obtain r where "slot_find ?hit ip_next ?slots ?h = Some r"
      "(case r of Some i \<Rightarrow> i < length ?slots \<and> (\<exists>v. ip_entry (?slots ! i) = Some (k, v) \<and> map_of kvs k = Some v)
        | None \<Rightarrow> map_of kvs k = None)"
      using numbers.find_entry [OF made(1) refl True, of ?hit] unfolding made(2) by (auto simp: ip_entry_def)
    then show ?thesis by (auto simp: ip_entry_def split: option.splits)
  next
    case False
    have "ip_pointer (?slots ! ?h) = None" using False by (simp add: numbers.taken_def ip_entry_def)
    moreover have "map_of kvs k = None" using numbers.home_free [OF made(1) False] made(2) by simp
    ultimately show ?thesis
      using numbers.find_free [where hit = ?hit, OF made(1) False refl] by (auto split: if_splits)
  qed
  then show ?thesis using made None by (auto simp: ip_query_def ip_home_def)
qed

text \<open>The entries \<open>_inject\<close> takes from a map are those of its table, in some order.\<close>

lemma distinct_keys: "distinct (map fst xs) \<Longrightarrow> distinct xs"
  by (simp add: distinct_map)

lemma same_set_same_mset: "set xs = set ys \<Longrightarrow> distinct (map fst xs) \<Longrightarrow> distinct (map fst ys) \<Longrightarrow> mset xs = mset ys"
  using set_eq_iff_mset_eq_distinct [of xs ys] distinct_keys by blast

lemma same_map_same_mset:
  assumes "distinct (map fst xs)" "distinct (map fst ys)" "map_of xs = map_of ys"
  shows "mset xs = mset ys"
proof -
  have "set xs = set ys" using assms by (metis map_of_eqI map_of_inject_set order_refl)
  then show ?thesis using assms(1,2) by (rule same_set_same_mset)
qed

lemma full_entries:
  "length (List.map_filter ip_entry slots) = length slots \<Longrightarrow>
    map (\<lambda>s. (ip_id s, ip_pointer s)) slots = pointers (List.map_filter ip_entry slots)"
proof (induction slots)
  case (Cons s slots)
  have "length (List.map_filter ip_entry slots) \<le> length slots" by (simp add: List.map_filter_def)
  then obtain p where "ip_pointer s = Some p" "ip_entry s = Some (ip_id s, p)"
    using Cons.prems by (cases "ip_pointer s") (simp_all add: map_filter_simps ip_entry_def [of s])
  then show ?case using Cons by (simp add: map_filter_simps pointers_def)
qed (simp add: pointers_def map_filter_simps)

definition array_pairs :: "'p option list \<Rightarrow> (i32 \<times> 'p) list" where
  "array_pairs array = List.map_filter (\<lambda>i. map_option (Pair (of_nat i)) (array ! i)) [0..<length array]"

lemma pointers_array:
  "List.map_filter (\<lambda>i. map_option (\<lambda>p. (of_nat i, Some p)) (array ! i)) [0..<length array] = pointers (array_pairs array)"
  by (auto simp: List.map_filter_def pointers_def array_pairs_def)

lemma array_pairs_iff:
  "(k, p) \<in> set (array_pairs array) \<longleftrightarrow> (\<exists>i < length array. k = of_nat i \<and> array ! i = Some p)"
  by (auto simp: array_pairs_def set_map_filter_iff)

lemma distinct_array_pairs:
  assumes "length array \<le> 2 ^ 31"
  shows "distinct (map fst (array_pairs array))"
proof -
  have "inj_on (\<lambda>i. of_nat i :: i32) {..<length array}"
    using assms i32_of_nat by (intro inj_on_inverseI [of _ "\<lambda>k. nat (sint k)"]) simp
  then have "inj_on (\<lambda>i. of_nat i :: i32) (set (filter (\<lambda>i. array ! i \<noteq> None) [0..<length array]))"
    by (rule inj_on_subset) auto
  moreover have "map fst (array_pairs array) = map of_nat (filter (\<lambda>i. array ! i \<noteq> None) [0..<length array])"
    unfolding array_pairs_def List.map_filter_def by (simp add: comp_def) auto
  ultimately show ?thesis by (simp only: distinct_map) simp
qed

lemma ip_inject_ok:
  assumes "ip_made kvs m" "distinct (map fst kvs)"
  obtains kvs' where "ip_inject m = pointers kvs'" "mset kvs' = mset kvs"
proof (cases "ip_array m")
  case None
  let ?slots = "ip_slots m"
  let ?kvs = "List.map_filter ip_entry ?slots"
  have made: "numbers.table_ok ?slots" "numbers.table_map ?slots = map_of kvs" "length ?kvs = length ?slots"
    using assms(1) None by (simp_all add: ip_made_def)
  have "ip_inject m = pointers ?kvs" using full_entries [OF made(3)] None by (simp add: ip_inject_def)
  moreover have "mset ?kvs = mset kvs"
    using made(1,2) assms(2) by (intro same_map_same_mset) (simp_all add: numbers.table_ok_def numbers.table_map_def)
  ultimately show thesis by (rule that)
next
  case (Some array)
  have made: "\<forall>k \<in> fst ` set kvs. 0 \<le> sint k \<and> sint k < int (length array)" "length array \<le> 2 ^ 31"
    "\<forall>i < length array. array ! i = map_of kvs (of_nat i)" "ip_hash_size m = length kvs"
    using assms(1) Some by (simp_all add: ip_made_def)
  have "(k, p) \<in> set (array_pairs array) \<longleftrightarrow> (k, p) \<in> set kvs" for k p
  proof
    assume "(k, p) \<in> set (array_pairs array)"
    then obtain i where "i < length array" "k = of_nat i" "array ! i = Some p" unfolding array_pairs_iff by blast
    then show "(k, p) \<in> set kvs" using made(3) by (simp add: map_of_SomeD)
  next
    assume kp: "(k, p) \<in> set kvs"
    then have "0 \<le> sint k \<and> sint k < int (length array)" using made(1) by force
    then have i: "nat (sint k) < length array" "k = of_nat (nat (sint k))" by auto
    then have "array ! nat (sint k) = Some p" using made(3) kp assms(2) by simp
    then show "(k, p) \<in> set (array_pairs array)" using i unfolding array_pairs_iff by blast
  qed
  then have "mset (array_pairs array) = mset kvs"
    by (intro same_set_same_mset distinct_array_pairs made(2) assms(2)) auto
  moreover from this have "length (array_pairs array) = length kvs" by (rule mset_eq_length)
  then have "ip_inject m = pointers (array_pairs array)"
    by (simp add: ip_inject_def Some Let_def pointers_array made(4))
  ultimately show thesis using that by blast
qed

lemma ip_combine_ok:
  assumes "ip_made ka a" "ip_made kb b" "distinct (map fst (ka @ kb))" "ka \<noteq> []"
  shows "\<exists>m kvs. ip_combine a b = Some m \<and> ip_made kvs m \<and> kvs \<noteq> [] \<and> map_of kvs = map_of (ka @ kb)"
proof -
  obtain ka' where a: "ip_inject a = pointers ka'" "mset ka' = mset ka" using assms(1,3) by (auto elim: ip_inject_ok)
  obtain kb' where b: "ip_inject b = pointers kb'" "mset kb' = mset kb" using assms(2,3) by (auto elim: ip_inject_ok)
  let ?kvs = "ka' @ kb'"
  have eq: "mset ?kvs = mset (ka @ kb)" using a(2) b(2) by simp
  then have d: "distinct (map fst ?kvs)" using assms(3) by (metis mset_eq_imp_distinct_iff mset_map)
  moreover have "?kvs \<noteq> []" using a(2) assms(4) by auto
  ultimately obtain m where m: "ip_new (pointers ?kvs) = Some m" "ip_made ?kvs m" using ip_new_ok by blast
  have "map_of ?kvs = map_of (ka @ kb)"
    using d assms(3) mset_eq_setD [OF eq] by (intro ext) (metis map_of_eq_Some_iff not_Some_eq)
  then show ?thesis using m a(1) b(1) \<open>?kvs \<noteq> []\<close> by (auto simp: ip_combine_def pointers_def)
qed

section \<open>Names to pointers\<close>

definition sp_entry :: "'p sp_slot \<Rightarrow> (string \<times> 'p option) option" where
  "sp_entry s = map_option (\<lambda>k. (k, sp_pointer s)) (sp_key s)"

definition sp_place_of :: "nat \<Rightarrow> string \<Rightarrow> nat" where "sp_place_of n k = sp_home n (calc_hash k)"

definition sp_sound :: "'p sp_slot \<Rightarrow> bool" where
  "sp_sound s \<longleftrightarrow> (case sp_key s of Some k \<Rightarrow> sp_hash s = calc_hash k | None \<Rightarrow> sp_hash s = 0 \<and> sp_pointer s = None)"

definition pow2 :: "nat \<Rightarrow> bool" where "pow2 n \<longleftrightarrow> (\<exists>j. n = 2 ^ j)"

lemma and_cap: "pow2 n \<Longrightarrow> i AND (n - 1) = i mod n"
  unfolding pow2_def by (metis mask_eq_exp_minus_1 take_bit_eq_mask take_bit_eq_mod)

lemma sp_home_mod: "pow2 n \<Longrightarrow> sp_home n h = unat h mod n"
  unfolding sp_home_def by (rule and_cap)

lemma pow2_double: "pow2 n \<Longrightarrow> pow2 (n * 2)"
proof -
  assume "pow2 n"
  then obtain j where "n = 2 ^ j" by (auto simp: pow2_def)
  then have "n * 2 = 2 ^ Suc j" by simp
  then show ?thesis unfolding pow2_def by blast
qed

lemma pow2_pos: "pow2 n \<Longrightarrow> 0 < n"
  by (auto simp: pow2_def)

interpretation ptrs: slot_table sp_entry sp_next "\<lambda>j s. s\<lparr>sp_next := j\<rparr>" sp_place_of pow2 sp_sound
  by unfold_locales (simp_all add: sp_entry_def sp_place_of_def sp_sound_def sp_home_mod pow2_pos split: option.split)

lemma sp_taken_eq: "sp_taken slots = ptrs.taken slots"
  by (simp add: fun_eq_iff sp_taken_def ptrs.taken_def sp_entry_def)

definition sp_ok :: "'p map_sp \<Rightarrow> bool" where
  "sp_ok m \<longleftrightarrow> ptrs.table_ok (sp_slots m) \<and> sp_size m = length (List.map_filter sp_entry (sp_slots m))"

definition sp_map :: "'p map_sp \<Rightarrow> string \<Rightarrow> 'p option option" where "sp_map m = ptrs.table_map (sp_slots m)"

lemma sp_probe_ok:
  "\<lbrakk>pow2 n; \<not> occ ((i + d) mod n); i < n\<rbrakk> \<Longrightarrow> \<exists>e < n. sp_probe occ n i = Some e \<and> \<not> occ e"
proof (induction d arbitrary: i)
  case 0
  then show ?case by (subst sp_probe.simps) auto
next
  case (Suc d)
  show ?case
  proof (cases "occ i")
    case True
    have "0 < n" using Suc.prems(3) by simp
    then have "\<exists>e < n. sp_probe occ n ((i + 1) mod n) = Some e \<and> \<not> occ e"
      using Suc.prems by (intro Suc.IH) (simp_all add: mod_simps)
    then show ?thesis using True by (subst sp_probe.simps) (simp add: and_cap [OF Suc.prems(1), simplified])
  qed (use Suc.prems in \<open>subst sp_probe.simps; auto\<close>)
qed

text \<open>A new entry behind a slot that is taken.\<close>

lemma sp_link_ok:
  assumes ok: "sp_ok m" "sp_map m k = None" "sp_size m < length (sp_slots m)"
    and h: "h = sp_place_of (length (sp_slots m)) k" "ptrs.taken (sp_slots m) h"
  shows "\<exists>e m'. sp_link \<lparr>sp_key = Some k, sp_hash = calc_hash k, sp_pointer = p, sp_next = 0\<rparr> h m = Some (e, m') \<and>
    sp_ok m' \<and> sp_map m' = (sp_map m)(k \<mapsto> p) \<and> length (sp_slots m') = length (sp_slots m) \<and>
    sp_size m' = Suc (sp_size m) \<and> e < length (sp_slots m') \<and> sp_entry (sp_slots m' ! e) = Some (k, p)"
proof -
  let ?slots = "sp_slots m" and ?n = "length (sp_slots m)"
  have t: "ptrs.table_ok ?slots" "pow2 ?n" using ok(1) by (simp_all add: sp_ok_def ptrs.table_ok_def)
  obtain j where j: "j < ?n" "\<not> ptrs.taken ?slots j" using ok(1,3) by (auto simp: sp_ok_def elim: ptrs.free_slot)
  let ?i = "(h + 1) mod ?n"
  have "0 < ?n" using t(2) by (rule pow2_pos)
  then have i: "?i < ?n" by simp
  have "(?i + (?n - ?i + j)) mod ?n = j" using i j(1) by simp
  then obtain e where e: "e < ?n" "sp_probe (ptrs.taken ?slots) ?n ?i = Some e" "\<not> ptrs.taken ?slots e"
    using sp_probe_ok [OF t(2) _ i, of "ptrs.taken ?slots" "?n - ?i + j"] j(2) by auto
  let ?new = "\<lparr>sp_key = Some k, sp_hash = calc_hash k, sp_pointer = p, sp_next = sp_next (?slots ! h)\<rparr>"
  let ?t = "?slots[e := ?new, h := (?slots ! h)\<lparr>sp_next := Suc e\<rparr>]"
  have ne: "e \<noteq> h" using e(3) h(2) by auto
  have "ptrs.added ?slots k p ?t"
    using ptrs.added_behind [where s' = ?new and v = p, OF t(1) _ h e(1,3)] ok(2) by (simp add: sp_map_def sp_entry_def sp_sound_def)
  moreover have "sp_link \<lparr>sp_key = Some k, sp_hash = calc_hash k, sp_pointer = p, sp_next = 0\<rparr> h m =
      Some (e, m\<lparr>sp_slots := ?t, sp_size := Suc (sp_size m)\<rparr>)"
    using e(2) ne by (simp add: sp_link_def and_cap [OF t(2), simplified] sp_taken_eq Let_def)
  moreover have "sp_entry (?t ! e) = Some (k, p)" using ne e(1) by (simp add: sp_entry_def)
  ultimately show ?thesis using e(1) ok(1) by (auto simp: ptrs.added_def sp_ok_def sp_map_def)
qed

lemma sp_place_ok:
  assumes ok: "sp_ok m" "sp_map m k = None" "sp_size m < length (sp_slots m)"
  shows "\<exists>m'. sp_place (Some k) (calc_hash k) p m = Some m' \<and> sp_ok m' \<and> sp_map m' = (sp_map m)(k \<mapsto> p) \<and>
    length (sp_slots m') = length (sp_slots m) \<and> sp_size m' = Suc (sp_size m)"
proof -
  let ?slots = "sp_slots m" and ?h = "sp_place_of (length (sp_slots m)) k"
  show ?thesis
  proof (cases "ptrs.taken ?slots ?h")
    case True
    then obtain k' where "sp_key (?slots ! ?h) = Some k'" by (auto simp: ptrs.taken_def sp_entry_def)
    then show ?thesis
      using sp_link_ok [OF ok refl True, of p] ok(3) by (auto simp: sp_place_def sp_place_of_def Let_def)
  next
    case False
    let ?new = "\<lparr>sp_key = Some k, sp_hash = calc_hash k, sp_pointer = p, sp_next = sp_next (?slots ! ?h)\<rparr>"
    have upd: "s\<lparr>sp_key := Some k, sp_pointer := p, sp_hash := calc_hash k\<rparr> =
      \<lparr>sp_key = Some k, sp_hash = calc_hash k, sp_pointer = p, sp_next = sp_next s\<rparr>" for s :: "'a sp_slot" by (cases s) simp
    have "ptrs.added ?slots k p (?slots[?h := ?new])"
      using ok(1,2) by (intro ptrs.added_home [OF _ _ refl False]) (simp_all add: sp_ok_def sp_map_def sp_entry_def sp_sound_def)
    moreover have "sp_place (Some k) (calc_hash k) p m = Some (m\<lparr>sp_slots := ?slots[?h := ?new], sp_size := Suc (sp_size m)\<rparr>)"
      using False ok(3) by (simp add: sp_place_def ptrs.taken_def sp_entry_def sp_place_of_def Let_def upd)
    ultimately show ?thesis using ok(1) by (auto simp: ptrs.added_def sp_ok_def sp_map_def)
  qed
qed

lemma sp_places_ok:
  "\<lbrakk>sp_ok m; \<forall>s \<in> set ss. sp_sound s \<and> sp_entry s \<noteq> None; distinct (map fst (List.map_filter sp_entry ss));
    \<forall>k \<in> fst ` set (List.map_filter sp_entry ss). sp_map m k = None; sp_size m + length ss \<le> length (sp_slots m)\<rbrakk> \<Longrightarrow>
    \<exists>m'. sp_places ss m = Some m' \<and> sp_ok m' \<and> sp_map m' = sp_map m ++ map_of (List.map_filter sp_entry ss) \<and>
      length (sp_slots m') = length (sp_slots m) \<and> sp_size m' = sp_size m + length ss"
proof (induction ss arbitrary: m)
  case (Cons s ss)
  obtain k where k: "sp_key s = Some k" "sp_hash s = calc_hash k" "sp_entry s = Some (k, sp_pointer s)"
    using Cons.prems(2) by (auto simp: sp_entry_def sp_sound_def)
  let ?es = "List.map_filter sp_entry ss"
  have es: "List.map_filter sp_entry (s # ss) = (k, sp_pointer s) # ?es" by (simp add: map_filter_simps k(3))
  obtain m1 where m1: "sp_place (Some k) (calc_hash k) (sp_pointer s) m = Some m1" "sp_ok m1"
    "sp_map m1 = (sp_map m)(k \<mapsto> sp_pointer s)" "length (sp_slots m1) = length (sp_slots m)" "sp_size m1 = Suc (sp_size m)"
    using sp_place_ok [of m k "sp_pointer s"] Cons.prems(1,4,5) unfolding es by auto
  have new: "k \<notin> fst ` set ?es" "distinct (map fst ?es)" using Cons.prems(3) unfolding es by simp_all
  have "\<forall>k' \<in> fst ` set ?es. sp_map m1 k' = None"
  proof
    fix k' assume "k' \<in> fst ` set ?es"
    then have "k' \<noteq> k" "sp_map m k' = None" using new(1) Cons.prems(4) by (auto simp only: es list.set image_insert)
    then show "sp_map m1 k' = None" by (simp add: m1(3))
  qed
  then obtain m2 where m2: "sp_places ss m1 = Some m2" "sp_ok m2" "sp_map m2 = sp_map m1 ++ map_of ?es"
    "length (sp_slots m2) = length (sp_slots m1)" "sp_size m2 = sp_size m1 + length ss"
    using Cons.IH [OF m1(2) _ new(2)] Cons.prems(2,5) m1(4,5) by auto
  have "(sp_map m)(k \<mapsto> sp_pointer s) ++ map_of ?es = sp_map m ++ map_of ((k, sp_pointer s) # ?es)"
    using new(1) by (simp add: map_add_upd_left dom_map_of_conv_image_fst)
  then have "sp_map m2 = sp_map m ++ map_of (List.map_filter sp_entry (s # ss))" unfolding es m2(3) m1(3) .
  moreover have "sp_places (s # ss) m = Some m2" using m1(1) m2(1) by (simp add: k)
  moreover have "length (sp_slots m2) = length (sp_slots m)" "sp_size m2 = sp_size m + length (s # ss)"
    using m1(4,5) m2(4,5) by simp_all
  ultimately show ?case using m2(2) by blast
qed (simp add: map_filter_simps)

lemma sp_blank_ok:
  assumes "pow2 n" "m = \<lparr>sp_size = 0, sp_slots = replicate n sp_empty\<rparr>"
  shows "sp_ok m \<and> sp_map m = Map.empty"
  using ptrs.table_ok_blank [of n "sp_empty :: 'a sp_slot"] assms
  by (simp add: sp_ok_def sp_map_def sp_empty_def sp_entry_def sp_sound_def List.map_filter_def)

lemma sp_new_ok: "m = sp_new n \<Longrightarrow> sp_ok m \<and> sp_map m = Map.empty"
proof -
  have "pow2 c \<Longrightarrow> pow2 (pow_cap n c)" for c
  proof (induction n c rule: pow_cap.induct)
    case (1 n c)
    have "pow2 (c * 2)" using "1.prems" by (rule pow2_double)
    then show ?case using 1 by (subst pow_cap.simps) auto
  qed
  moreover have "pow2 1" unfolding pow2_def by (rule exI [of _ 0]) simp
  ultimately have "pow2 (pow_cap n 1)" by blast
  then show "m = sp_new n \<Longrightarrow> sp_ok m \<and> sp_map m = Map.empty" using sp_blank_ok unfolding sp_new_def by blast
qed

lemma sp_full_entries:
  assumes "length slots \<le> length (List.map_filter sp_entry slots)"
  shows "\<forall>s \<in> set slots. sp_entry s \<noteq> None"
proof (intro ballI notI)
  fix s assume "s \<in> set slots" "sp_entry s = None"
  then have "length (filter (\<lambda>s. sp_entry s \<noteq> None) slots) < length slots"
    using length_filter_less [of s slots "\<lambda>s. sp_entry s \<noteq> None"] by blast
  then show False using assms by (simp add: List.map_filter_def)
qed

lemma sp_rehash_ok:
  assumes ok: "sp_ok m" and full: "length (sp_slots m) \<le> sp_size m"
  shows "\<exists>m'. sp_rehash m = Some m' \<and> sp_ok m' \<and> sp_map m' = sp_map m \<and> sp_size m' < length (sp_slots m')"
proof -
  let ?slots = "sp_slots m"
  define blank :: "'a map_sp" where "blank = \<lparr>sp_size = 0, sp_slots = replicate (length ?slots * 2) sp_empty\<rparr>"
  have t: "ptrs.table_ok ?slots" "pow2 (length ?slots)" "\<forall>i < length ?slots. sp_sound (?slots ! i)"
    "distinct (map fst (List.map_filter sp_entry ?slots))"
    using ok by (simp_all add: sp_ok_def ptrs.table_ok_def)
  have all: "\<forall>s \<in> set ?slots. sp_sound s \<and> sp_entry s \<noteq> None"
  proof
    fix s assume s: "s \<in> set ?slots"
    then obtain i where "i < length ?slots" "s = ?slots ! i" by (auto simp: in_set_conv_nth)
    moreover have "sp_entry s \<noteq> None" using sp_full_entries [of ?slots] s ok full by (simp add: sp_ok_def)
    ultimately show "sp_sound s \<and> sp_entry s \<noteq> None" using t(3) by blast
  qed
  have blank: "sp_ok blank" "sp_map blank = Map.empty"
    using sp_blank_ok [OF pow2_double [OF t(2)] blank_def] by simp_all
  have size: "sp_size blank = 0" "length (sp_slots blank) = length ?slots * 2" by (simp_all add: blank_def)
  obtain m' where m': "sp_places ?slots blank = Some m'" "sp_ok m'" "sp_map m' = map_of (List.map_filter sp_entry ?slots)"
    "length (sp_slots m') = length ?slots * 2" "sp_size m' = length ?slots"
  proof -
    have "\<exists>m'. sp_places ?slots blank = Some m' \<and> sp_ok m' \<and> sp_map m' = sp_map blank ++ map_of (List.map_filter sp_entry ?slots) \<and>
      length (sp_slots m') = length (sp_slots blank) \<and> sp_size m' = sp_size blank + length ?slots"
      using all t(4) by (intro sp_places_ok blank(1)) (simp_all add: blank(2) size)
    then show thesis using that unfolding blank(2) size by auto
  qed
  have "sp_rehash m = sp_places ?slots blank" using full by (simp add: sp_rehash_def blank_def)
  moreover have "0 < length ?slots" using t(2) by (rule pow2_pos)
  ultimately show ?thesis using m' by (simp add: sp_map_def ptrs.table_map_def)
qed

text \<open>The operations.\<close>

lemma sp_insert_ok:
  assumes ok: "sp_ok m" "sp_map m k = None"
  shows "\<exists>m'. sp_insert k p m = Some m' \<and> sp_ok m' \<and> sp_map m' = (sp_map m)(k \<mapsto> p)"
proof (cases "sp_size m < length (sp_slots m)")
  case True
  then show ?thesis using sp_place_ok [OF ok True, of p] by (auto simp: sp_insert_def sp_insert_hash_def)
next
  case False
  then obtain m1 where m1: "sp_rehash m = Some m1" "sp_ok m1" "sp_map m1 = sp_map m" "sp_size m1 < length (sp_slots m1)"
    using sp_rehash_ok [OF ok(1)] by auto
  then show ?thesis using sp_place_ok [OF m1(2) _ m1(4), of k p] ok(2) False by (auto simp: sp_insert_def sp_insert_hash_def)
qed

lemma sp_find_ok:
  assumes ok: "sp_ok m" and h: "h = sp_place_of (length (sp_slots m)) k" "ptrs.taken (sp_slots m) h"
  obtains r where "slot_find (sp_hit k) sp_next (sp_slots m) h = Some r"
    "case r of Some i \<Rightarrow> i < length (sp_slots m) \<and> sp_entry (sp_slots m ! i) = Some (k, sp_pointer (sp_slots m ! i)) \<and>
         sp_map m k = Some (sp_pointer (sp_slots m ! i)) | None \<Rightarrow> sp_map m k = None"
proof -
  have t: "ptrs.table_ok (sp_slots m)" using ok by (simp add: sp_ok_def)
  have hit: "sp_hit k s = Some (fst kv = k)" if "sp_entry s = Some kv" "sp_sound s" for s :: "'a sp_slot" and kv
    using that by (auto simp: sp_hit_def same_key_def sp_entry_def sp_sound_def)
  obtain r where "slot_find (sp_hit k) sp_next (sp_slots m) h = Some r"
    "case r of Some i \<Rightarrow> i < length (sp_slots m) \<and> (\<exists>v. sp_entry (sp_slots m ! i) = Some (k, v) \<and> ptrs.table_map (sp_slots m) k = Some v)
       | None \<Rightarrow> ptrs.table_map (sp_slots m) k = None"
    using ptrs.find_entry [OF t h, of "sp_hit k"] hit by blast
  then show thesis by (intro that [of r]) (auto simp: sp_map_def sp_entry_def split: option.splits)
qed

lemma sp_query_ok:
  assumes ok: "sp_ok m" and k: "calc_hash k \<noteq> 0"
  shows "sp_query m k = Some (case sp_map m k of Some p \<Rightarrow> p | None \<Rightarrow> None)"
proof (cases "ptrs.taken (sp_slots m) (sp_place_of (length (sp_slots m)) k)")
  case True
  let ?h = "sp_place_of (length (sp_slots m)) k"
  obtain r where r: "slot_find (sp_hit k) sp_next (sp_slots m) ?h = Some r"
    "case r of Some i \<Rightarrow> i < length (sp_slots m) \<and> sp_entry (sp_slots m ! i) = Some (k, sp_pointer (sp_slots m ! i)) \<and>
         sp_map m k = Some (sp_pointer (sp_slots m ! i)) | None \<Rightarrow> sp_map m k = None"
    using ok refl True by (rule sp_find_ok)
  then show ?thesis by (cases r) (simp_all add: sp_query_def sp_place_of_def)
next
  case False
  let ?h = "sp_place_of (length (sp_slots m)) k"
  have t: "ptrs.table_ok (sp_slots m)" using ok by (simp add: sp_ok_def)
  have "?h < length (sp_slots m)" using ptrs.home_less t by (simp add: ptrs.table_ok_def)
  then have "sp_hash (sp_slots m ! ?h) = 0"
    using t False by (auto simp: ptrs.table_ok_def sp_sound_def ptrs.taken_def sp_entry_def split: option.splits)
  then have "sp_hit k (sp_slots m ! ?h) = Some False" using k by (simp add: sp_hit_def same_key_def)
  then have "slot_find (sp_hit k) sp_next (sp_slots m) ?h = Some None"
    using ptrs.find_free [where hit = "sp_hit k" and b = False, OF t False] by simp
  moreover have "sp_map m k = None" using ptrs.home_free [OF t False] by (simp add: sp_map_def)
  ultimately show ?thesis by (simp add: sp_query_def sp_place_of_def)
qed

text \<open>
  \<open>sp_query_insert\<close>: the slot of the name, in a map where the name is new with a null pointer unless it
  was there.
\<close>

definition sp_grown :: "'p map_sp \<Rightarrow> string \<Rightarrow> nat \<times> 'p map_sp \<Rightarrow> bool" where
  "sp_grown m k im \<longleftrightarrow> (case im of (i, m') \<Rightarrow> sp_ok m' \<and> i < length (sp_slots m') \<and> sp_key (sp_slots m' ! i) = Some k \<and>
     sp_map m' k = Some (sp_pointer (sp_slots m' ! i)) \<and>
     sp_map m' = (if sp_map m k = None then (sp_map m)(k \<mapsto> None) else sp_map m))"

lemma sp_find_place_ok:
  assumes ok: "sp_ok m"
  shows "\<exists>r. sp_find_place k (calc_hash k) m = Some r \<and>
    (case r of Some im \<Rightarrow> sp_grown m k im | None \<Rightarrow> length (sp_slots m) \<le> sp_size m)"
proof (cases "ptrs.taken (sp_slots m) (sp_place_of (length (sp_slots m)) k)")
  case True
  let ?h = "sp_place_of (length (sp_slots m)) k"
  obtain k' where k': "sp_key (sp_slots m ! ?h) = Some k'" using True by (auto simp: ptrs.taken_def sp_entry_def)
  obtain r where r: "slot_find (sp_hit k) sp_next (sp_slots m) ?h = Some r"
    "case r of Some i \<Rightarrow> i < length (sp_slots m) \<and> sp_entry (sp_slots m ! i) = Some (k, sp_pointer (sp_slots m ! i)) \<and>
         sp_map m k = Some (sp_pointer (sp_slots m ! i)) | None \<Rightarrow> sp_map m k = None"
    using ok refl True by (rule sp_find_ok)
  have found: "sp_find_place k (calc_hash k) m = (case r of Some i \<Rightarrow> Some (Some (i, m))
     | None \<Rightarrow> if length (sp_slots m) \<le> sp_size m then Some None
        else map_option Some (sp_link \<lparr>sp_key = Some k, sp_hash = calc_hash k, sp_pointer = None, sp_next = 0\<rparr> ?h m))"
    using r(1) k' unfolding sp_find_place_def sp_place_of_def Let_def by (cases r) simp_all
  show ?thesis
  proof (cases r)
    case (Some i)
    then have "sp_grown m k (i, m)" using r(2) ok by (auto simp: sp_grown_def sp_entry_def)
    then show ?thesis using found Some by simp
  next
    case None
    then have new: "sp_map m k = None" using r(2) by simp
    show ?thesis
    proof (cases "length (sp_slots m) \<le> sp_size m")
      case False
      then have "sp_size m < length (sp_slots m)" by simp
      from sp_link_ok [OF ok new this refl True, of None] obtain e m' where
        l: "sp_link \<lparr>sp_key = Some k, sp_hash = calc_hash k, sp_pointer = None, sp_next = 0\<rparr> ?h m = Some (e, m')"
        "sp_ok m'" "sp_map m' = (sp_map m)(k \<mapsto> None)" "e < length (sp_slots m')" "sp_entry (sp_slots m' ! e) = Some (k, None)"
        by blast
      then have "sp_grown m k (e, m')" using new by (auto simp: sp_grown_def sp_entry_def)
      then show ?thesis using found None False l(1) by simp
    qed (use found None in simp)
  qed
next
  case False
  let ?slots = "sp_slots m" and ?h = "sp_place_of (length (sp_slots m)) k"
  let ?new = "\<lparr>sp_key = Some k, sp_hash = calc_hash k, sp_pointer = None, sp_next = sp_next (?slots ! ?h)\<rparr>"
  have t: "ptrs.table_ok ?slots" using ok by (simp add: sp_ok_def)
  have lt: "?h < length ?slots" using ptrs.home_less t by (simp add: ptrs.table_ok_def)
  have blank: "sp_key (?slots ! ?h) = None" using False by (simp add: ptrs.taken_def sp_entry_def)
  moreover have "sp_sound (?slots ! ?h)" using t lt by (simp add: ptrs.table_ok_def)
  ultimately have "sp_pointer (?slots ! ?h) = None" by (simp add: sp_sound_def)
  then have upd: "(?slots ! ?h)\<lparr>sp_key := Some k, sp_hash := calc_hash k\<rparr> = ?new" by (cases "?slots ! ?h") simp
  have new: "sp_map m k = None" using ptrs.home_free [OF t False] by (simp add: sp_map_def)
  show ?thesis
  proof (cases "length ?slots \<le> sp_size m")
    case True
    then show ?thesis using blank by (simp add: sp_find_place_def sp_place_of_def Let_def)
  next
    case room: False
    let ?m = "m\<lparr>sp_slots := ?slots[?h := ?new], sp_size := Suc (sp_size m)\<rparr>"
    have "ptrs.added ?slots k None (?slots[?h := ?new])"
      using new by (intro ptrs.added_home [OF t _ refl False]) (simp_all add: sp_map_def sp_entry_def sp_sound_def)
    then have "sp_grown m k (?h, ?m)" using ok lt new by (simp add: ptrs.added_def sp_grown_def sp_ok_def sp_map_def)
    moreover have "sp_find_place k (calc_hash k) m = Some (Some (?h, ?m))"
      using blank room upd by (simp add: sp_find_place_def sp_place_of_def Let_def)
    ultimately show ?thesis by simp
  qed
qed

lemma sp_query_insert_ok:
  assumes ok: "sp_ok m"
  shows "\<exists>im. sp_query_insert k m = Some im \<and> sp_grown m k im"
proof -
  obtain r where r: "sp_find_place k (calc_hash k) m = Some r"
    "case r of Some im \<Rightarrow> sp_grown m k im | None \<Rightarrow> length (sp_slots m) \<le> sp_size m"
    using sp_find_place_ok [OF ok] by blast
  show ?thesis
  proof (cases r)
    case (Some im)
    then show ?thesis using r by (simp add: sp_query_insert_def)
  next
    case None
    then obtain m1 where m1: "sp_rehash m = Some m1" "sp_ok m1" "sp_map m1 = sp_map m" "sp_size m1 < length (sp_slots m1)"
      using sp_rehash_ok [OF ok] r(2) by auto
    obtain r' where r': "sp_find_place k (calc_hash k) m1 = Some r'"
      "case r' of Some im \<Rightarrow> sp_grown m1 k im | None \<Rightarrow> length (sp_slots m1) \<le> sp_size m1"
      using sp_find_place_ok [OF m1(2)] by blast
    then obtain im where im: "r' = Some im" "sp_grown m1 k im" using m1(4) by (cases r') auto
    then have "sp_grown m k im" unfolding sp_grown_def m1(3) by simp
    then show ?thesis using r(1) None m1(1) r'(1) im(1) by (auto simp: sp_query_insert_def)
  qed
qed

section \<open>The tables are maps\<close>

text \<open>a table of names built from entries with different names answers every query with the number
  of the name, and that a name is missing, whatever the collisions; \<open>None\<close>, a comparison with a null
  pointer, is possible only for names whose hash is 0.\<close>

theorem map_si_correct:
  assumes "table \<noteq> []" "distinct (map snd table)"
  shows "\<exists>slots. si_new table = Some slots \<and>
    (\<forall>key. calc_hash key \<noteq> 0 \<longrightarrow> si_query slots key = Some (map_of (map (\<lambda>(n, k). (k, n)) table) key))"
proof -
  obtain slots where "si_new table = Some slots" "names.table_ok slots"
    "names.table_map slots = map_of (map (\<lambda>(n, k). (k, n)) table)" using si_new_ok [OF assms] by blast
  then show ?thesis using si_query_ok by auto
qed

theorem map_si_correct_witness:
  "\<exists>slots. si_new [(7, ''a''), (9, ''b'')] = Some slots \<and> si_query slots ''b'' = Some (Some 9) \<and> si_query slots ''c'' = Some None"
proof -
  have "calc_hash ''b'' \<noteq> 0" "calc_hash ''c'' \<noteq> 0" by code_simp+
  then show ?thesis using map_si_correct [of "[(7, ''a''), (9, ''b'')]"] by fastforce
qed

text \<open>a table of numbers, as an array or with slots, finds the pointer of every number it was made
  from and null for all others, and the combination of two tables with different numbers finds those of
  both.\<close>

theorem map_ip_correct:
  assumes "ka \<noteq> []" "kb \<noteq> []" "distinct (map fst (ka @ kb))"
  shows "\<exists>a b m. ip_new (pointers ka) = Some a \<and> ip_new (pointers kb) = Some b \<and> ip_combine a b = Some m \<and>
    (\<forall>n. ip_query a n = Some (map_of ka n) \<and> ip_query b n = Some (map_of kb n) \<and> ip_query m n = Some (map_of (ka @ kb) n))"
proof -
  have d: "distinct (map fst ka)" "distinct (map fst kb)" using assms(3) by simp_all
  obtain a where a: "ip_new (pointers ka) = Some a" "ip_made ka a" using ip_new_ok [OF assms(1) d(1)] by blast
  obtain b where b: "ip_new (pointers kb) = Some b" "ip_made kb b" using ip_new_ok [OF assms(2) d(2)] by blast
  obtain m kvs where m: "ip_combine a b = Some m" "ip_made kvs m" "kvs \<noteq> []" "map_of kvs = map_of (ka @ kb)"
    using ip_combine_ok [OF a(2) b(2) assms(3,1)] by blast
  show ?thesis
    using a(1) b(1) m(1) ip_query_ok [OF a(2) assms(1)] ip_query_ok [OF b(2) assms(2)] ip_query_ok [OF m(2,3), unfolded m(4)]
    by blast
qed

theorem map_ip_correct_witness:
  "\<exists>a b m. ip_new (pointers [(1, ''x''), (100, ''y'')]) = Some a \<and> ip_new (pointers [(2, ''z'')]) = Some b \<and>
    ip_combine a b = Some m \<and> ip_query m 100 = Some (Some ''y'') \<and> ip_query m 2 = Some (Some ''z'') \<and> ip_query m 3 = Some None"
  using map_ip_correct [of "[(1, ''x''), (100, ''y'')]" "[(2, ''z'')]"] by fastforce

text \<open>C31: a growing table of names is a map from names to pointers: an insertion of a name that is missing
  adds it (rehashing into twice the capacity when the table is full), a query reads the map, and
  \<open>sp_query_insert\<close> ends with the index of the slot of the name, which it adds with a null pointer when it
  was missing.\<close>

theorem map_sp_correct:
  assumes "sp_ok m" "sp_map m k = None" "calc_hash key \<noteq> 0"
  shows "(\<exists>m'. sp_insert k p m = Some m' \<and> sp_ok m' \<and> sp_map m' = (sp_map m)(k \<mapsto> p)) \<and>
    sp_query m key = Some (case sp_map m key of Some q \<Rightarrow> q | None \<Rightarrow> None) \<and>
    (\<exists>i m'. sp_query_insert key m = Some (i, m') \<and> sp_ok m' \<and> sp_key (sp_slots m' ! i) = Some key \<and>
       sp_map m' = (if sp_map m key = None then (sp_map m)(key \<mapsto> None) else sp_map m) \<and>
       sp_map m' key = Some (sp_pointer (sp_slots m' ! i)))"
proof -
  obtain i m' where "sp_query_insert key m = Some (i, m')" "sp_grown m key (i, m')"
    using sp_query_insert_ok [OF assms(1), of key] by force
  then have "\<exists>i m'. sp_query_insert key m = Some (i, m') \<and> sp_ok m' \<and> sp_key (sp_slots m' ! i) = Some key \<and>
       sp_map m' = (if sp_map m key = None then (sp_map m)(key \<mapsto> None) else sp_map m) \<and>
       sp_map m' key = Some (sp_pointer (sp_slots m' ! i))"
    unfolding sp_grown_def prod.case by blast
  then show ?thesis using sp_insert_ok [OF assms(1,2)] sp_query_ok [OF assms(1,3)] by blast
qed

theorem map_sp_correct_witness:
  "\<exists>m'. sp_insert ''a'' (Some (5::nat)) (sp_new 0) = Some m' \<and> sp_ok m' \<and> sp_map m' = [''a'' \<mapsto> Some 5]"
proof -
  have new: "sp_ok (sp_new 0 :: nat map_sp)" "sp_map (sp_new 0 :: nat map_sp) = Map.empty"
    using sp_new_ok [of "sp_new 0 :: nat map_sp" 0] by simp_all
  have "calc_hash ''b'' \<noteq> 0" by code_simp
  then show ?thesis using map_sp_correct [OF new(1), of "''a''" "''b''" "Some 5"] new(2) by simp
qed

text \<open>The name whose hash is 0 is compared with a null pointer when its slot is free.\<close>

lemma query_hash_zero: "calc_hash [] = 0 \<and> sp_query (sp_new 1 :: nat map_sp) [] = None"
proof
  show zero: "calc_hash [] = 0" by code_simp
  have "pow_cap 1 1 = 1" by code_simp
  then show "sp_query (sp_new 1 :: nat map_sp) [] = None"
    by (simp add: sp_query_def sp_new_def zero sp_home_def slot_find.simps sp_empty_def sp_hit_def same_key_def)
qed

end
