(* ===== verification/RemoteObj.thy ===== *)
theory RemoteObj
  imports Prelude "HOL-Library.Signed_Division"
begin

text \<open>
  The table of remote objects of \<open>lualib-src/lua-remoteobj.c\<close>: handles for objects that live in services.
  All services of the process share one table and change it without a lock, by
  \<open>__sync_add_and_fetch\<close> and \<open>__sync_bool_compare_and_swap\<close>.  Here are its operations as one service
  sees them; \<open>RemoteProps\<close> has them as steps of concurrent threads.  The number of slots is the length
  of the array, which \<open>remote_create\<close> makes \<open>MAX_REMOTE_OBJECT\<close> long.  \<open>None\<close> is an access outside the array.
\<close>

unbundle bit_operations_syntax

section \<open>The table\<close>

definition MAX_REMOTE_OBJECT :: nat where "MAX_REMOTE_OBJECT = 0x40000"

record remote_address =
  ra_handle :: i32
  ra_address :: u32

record remote_objects =
  ro_index :: i32
  ro_addr :: "remote_address list"

definition remote_create :: remote_objects where
  "remote_create = \<lparr>ro_index = 0,
     ro_addr = (replicate MAX_REMOTE_OBJECT \<lparr>ra_handle = 0, ra_address = 0\<rparr>)[0 := \<lparr>ra_handle = 0, ra_address = 0xffffffff\<rparr>]\<rparr>"

text \<open>\<open>handle % MAX_REMOTE_OBJECT\<close> as an index: the remainder has the sign of the handle.\<close>

definition remote_slot :: "nat \<Rightarrow> i32 \<Rightarrow> nat option" where
  "remote_slot n handle = (let i = sint handle smod int n in if 0 \<le> i \<and> i < int n then Some (nat i) else None)"

section \<open>The operations\<close>

definition remote_remove :: "u32 \<Rightarrow> remote_objects \<Rightarrow> remote_objects" where
  "remote_remove address r =
     r\<lparr>ro_addr := map (\<lambda>s. if ra_address s = address then s\<lparr>ra_address := 0\<rparr> else s) (ro_addr r)\<rparr>"

text \<open>The loop of \<open>_alloc\<close>; the number is how many turns are left.\<close>

fun alloc_turns :: "nat \<Rightarrow> u32 \<Rightarrow> remote_objects \<Rightarrow> (i32 \<times> remote_objects) option" where
  "alloc_turns 0 address r = Some (-1, r)"
| "alloc_turns (Suc k) address r = do {
     let handle = ro_index r + 1;
     let r = r\<lparr>ro_index := handle\<rparr>;
     i \<leftarrow> remote_slot (length (ro_addr r)) handle;
     if ra_address (ro_addr r ! i) = 0
     then Some (handle, r\<lparr>ro_addr := (ro_addr r)[i := \<lparr>ra_handle = handle, ra_address = address\<rparr>]\<rparr>)
     else alloc_turns k address r
   }"

definition remote_alloc :: "u32 \<Rightarrow> remote_objects \<Rightarrow> (i32 \<times> remote_objects) option" where
  "remote_alloc address r = alloc_turns (length (ro_addr r)) address r"

definition remote_bind :: "i32 \<Rightarrow> u32 \<Rightarrow> remote_objects \<Rightarrow> (u32 \<times> remote_objects) option" where
  "remote_bind handle address r = do {
     i \<leftarrow> remote_slot (length (ro_addr r)) handle;
     let slot = ro_addr r ! i;
     if ra_handle slot \<noteq> handle then Some (0, r)
     else Some (ra_address slot, r\<lparr>ro_addr := (ro_addr r)[i := slot\<lparr>ra_address := address\<rparr>]\<rparr>)
   }"

definition remote_query :: "i32 \<Rightarrow> remote_objects \<Rightarrow> u32 option" where
  "remote_query handle r = do {
     i \<leftarrow> remote_slot (length (ro_addr r)) handle;
     let slot = ro_addr r ! i;
     Some (if ra_handle slot = handle then ra_address slot else 0)
   }"

text \<open>
  What Lua sees of a service with the given address: \<open>lalloc\<close> and \<open>lbind\<close> raise an error (\<open>Inl\<close>), \<open>lquery\<close>
  returns nothing (\<open>Some None\<close>) when there is no such object.
\<close>

definition lalloc :: "u32 \<Rightarrow> remote_objects \<Rightarrow> ((string + i32) \<times> remote_objects) option" where
  "lalloc address r = do {
     (handle, r) \<leftarrow> remote_alloc address r;
     Some (if sint handle < 0 then Inl ''Too many remote object'' else Inr handle, r)
   }"

definition lbind :: "u32 \<Rightarrow> i32 \<Rightarrow> remote_objects \<Rightarrow> ((string + u32) \<times> remote_objects) option" where
  "lbind address handle r = do {
     (old, r) \<leftarrow> remote_bind handle address r;
     Some (if old = 0 then Inl ''handle is not exist'' else Inr old, r)
   }"

definition lquery :: "i32 \<Rightarrow> remote_objects \<Rightarrow> u32 option option" where
  "lquery handle r = do {
     address \<leftarrow> remote_query handle r;
     Some (if address = 0 then None else Some address)
   }"

section \<open>What the table is\<close>

text \<open>The objects: from handles to the services they live in.\<close>

definition remote_map :: "remote_objects \<Rightarrow> i32 \<Rightarrow> u32 option" where
  "remote_map r h =
     (let s = ro_addr r ! (nat (sint h) mod length (ro_addr r))
      in if 0 < sint h \<and> ra_handle s = h \<and> ra_address s \<noteq> 0 then Some (ra_address s) else None)"

text \<open>
  Slot 0 is never free, the handle in a slot belongs to it and is not newer than the index.
\<close>

definition slot_ok :: "i32 \<Rightarrow> nat \<Rightarrow> nat \<Rightarrow> remote_address \<Rightarrow> bool" where
  "slot_ok index n i s \<longleftrightarrow> 0 \<le> sint (ra_handle s) \<and> sint (ra_handle s) \<le> sint index \<and>
     (ra_handle s \<noteq> 0 \<longrightarrow> nat (sint (ra_handle s)) mod n = i) \<and> (ra_handle s = 0 \<longrightarrow> ra_address s = (if i = 0 then 0xffffffff else 0)) \<and>
     (i = 0 \<longrightarrow> ra_handle s = 0)"

definition remote_ok :: "remote_objects \<Rightarrow> bool" where
  "remote_ok r \<longleftrightarrow> ro_addr r \<noteq> [] \<and> 0 \<le> sint (ro_index r) \<and>
     (\<forall>i < length (ro_addr r). slot_ok (ro_index r) (length (ro_addr r)) i (ro_addr r ! i))"

lemma remote_slot_pos: "0 \<le> sint h \<Longrightarrow> 0 < n \<Longrightarrow> remote_slot n h = Some (nat (sint h) mod n)"
  by (simp add: remote_slot_def Let_def smod_int_range signed_modulo_int_def signed_divide_int_def sgn_if nat_mod_distrib)

lemma remote_okD:
  assumes "remote_ok r" "i < length (ro_addr r)"
  shows "slot_ok (ro_index r) (length (ro_addr r)) i (ro_addr r ! i)"
  using assms by (simp add: remote_ok_def)

lemma slot_ok_later: "slot_ok index n i s \<Longrightarrow> sint index \<le> sint index' \<Longrightarrow> slot_ok index' n i s"
  by (auto simp: slot_ok_def)

lemma sint_next: "0 \<le> sint (x :: i32) \<Longrightarrow> sint x < 2 ^ 31 - 1 \<Longrightarrow> sint (x + 1) = sint x + 1"
  by (simp add: sint_word_ariths signed_take_bit_int_eq_self)

section \<open>The operations on the map\<close>

text \<open>A turn of the allocation.\<close>

lemma alloc_turns_ok:
  "\<lbrakk>remote_ok r; a \<noteq> 0; sint (ro_index r) + int k < 2 ^ 31\<rbrakk> \<Longrightarrow>
    \<exists>h r'. alloc_turns k a r = Some (h, r') \<and> remote_ok r' \<and> length (ro_addr r') = length (ro_addr r) \<and>
      (if h = -1 then ro_addr r' = ro_addr r \<and>
         (\<forall>j. sint (ro_index r) < int j \<and> int j \<le> sint (ro_index r) + int k \<longrightarrow> ra_address (ro_addr r ! (j mod length (ro_addr r))) \<noteq> 0)
       else sint (ro_index r) < sint h \<and> nat (sint h) mod length (ro_addr r) \<noteq> 0 \<and>
         ra_address (ro_addr r ! (nat (sint h) mod length (ro_addr r))) = 0 \<and>
         ro_addr r' = (ro_addr r)[nat (sint h) mod length (ro_addr r) := \<lparr>ra_handle = h, ra_address = a\<rparr>])"
proof (induction k arbitrary: r)
  case (Suc k)
  let ?n = "length (ro_addr r)" and ?h = "ro_index r + 1" and ?r = "r\<lparr>ro_index := ro_index r + 1\<rparr>"
  have pos: "0 \<le> sint (ro_index r)" "0 < ?n" using Suc.prems(1) by (simp_all add: remote_ok_def)
  have h: "sint ?h = sint (ro_index r) + 1" using Suc.prems(3) pos(1) by (intro sint_next) simp_all
  let ?i = "nat (sint ?h) mod ?n"
  have i: "remote_slot ?n ?h = Some ?i" "?i < ?n" using h pos by (simp_all add: remote_slot_pos)
  have ok: "remote_ok ?r" using Suc.prems(1) h by (auto simp: remote_ok_def intro: slot_ok_later)
  show ?case
  proof (cases "ra_address (ro_addr r ! ?i) = 0")
    case True
    let ?s = "\<lparr>ra_handle = ?h, ra_address = a\<rparr>"
    let ?t = "?r\<lparr>ro_addr := (ro_addr r)[?i := ?s]\<rparr>"
    have "?i \<noteq> 0" using True remote_okD [OF Suc.prems(1), of 0] pos(2) by (intro notI) (simp add: slot_ok_def)
    have "sint ?h \<noteq> 0" "sint ?h \<noteq> sint (-1 :: i32)" using h pos(1) by simp_all
    then have "?h \<noteq> 0" "?h \<noteq> -1" by (metis signed_0, metis)
    have "slot_ok ?h ?n ?i ?s" using h pos(1) \<open>?i \<noteq> 0\<close> \<open>?h \<noteq> 0\<close> by (simp add: slot_ok_def)
    then have "remote_ok ?t" using ok h pos(1) by (auto simp: remote_ok_def nth_list_update)
    moreover have "alloc_turns (Suc k) a r = Some (?h, ?t)" using True i(1) by (simp add: Let_def)
    ultimately show ?thesis using True h \<open>?i \<noteq> 0\<close> \<open>?h \<noteq> -1\<close> by (intro exI [of _ ?h] exI [of _ ?t]) simp
  next
    case False
    then have eq: "alloc_turns (Suc k) a r = alloc_turns k a ?r" using i(1) by (simp add: Let_def)
    obtain h' r' where r': "alloc_turns k a ?r = Some (h', r')" "remote_ok r'" "length (ro_addr r') = ?n"
      "if h' = -1 then ro_addr r' = ro_addr r \<and>
         (\<forall>j. sint ?h < int j \<and> int j \<le> sint ?h + int k \<longrightarrow> ra_address (ro_addr r ! (j mod ?n)) \<noteq> 0)
       else sint ?h < sint h' \<and> nat (sint h') mod ?n \<noteq> 0 \<and> ra_address (ro_addr r ! (nat (sint h') mod ?n)) = 0 \<and>
         ro_addr r' = (ro_addr r)[nat (sint h') mod ?n := \<lparr>ra_handle = h', ra_address = a\<rparr>]"
    proof -
      have sel: "ro_addr ?r = ro_addr r" "ro_index ?r = ?h" by simp_all
      have "sint (ro_index ?r) + int k < 2 ^ 31" using Suc.prems(3) h by simp
      from Suc.IH [OF ok Suc.prems(2) this] show thesis using that unfolding sel by blast
    qed
    have "ra_address (ro_addr r ! (j mod ?n)) \<noteq> 0"
      if "h' = -1" "sint (ro_index r) < int j" "int j \<le> sint (ro_index r) + int (Suc k)" for j
    proof (cases "int j = sint ?h")
      case True
      then have "nat (sint ?h) = j" by simp
      then show ?thesis using False by simp
    next
      case False
      then show ?thesis using that r'(4) h by simp
    qed
    then show ?thesis using r' h unfolding eq by (intro exI [of _ h'] exI [of _ r']) auto
  qed
qed auto

lemma remote_map_slot:
  assumes "remote_ok r" "0 < sint h"
  shows "remote_slot (length (ro_addr r)) h = Some (nat (sint h) mod length (ro_addr r))"
    "nat (sint h) mod length (ro_addr r) < length (ro_addr r)"
  using assms by (simp_all add: remote_slot_pos remote_ok_def)

lemma remote_map_newer: "remote_ok r \<Longrightarrow> sint (ro_index r) < sint h \<Longrightarrow> remote_map r h = None"
proof -
  assume a: "remote_ok r" "sint (ro_index r) < sint h"
  then have "0 < sint h" by (simp add: remote_ok_def)
  from remote_okD [OF a(1) remote_map_slot(2) [OF a(1) this]] a(2) show ?thesis
    by (auto simp: remote_map_def slot_ok_def Let_def)
qed

lemma query_map: "remote_ok r \<Longrightarrow> 0 < sint h \<Longrightarrow> lquery h r = Some (remote_map r h)"
  by (simp add: lquery_def remote_query_def remote_map_def remote_map_slot Let_def)

lemma remove_map:
  assumes "remote_ok r" "a \<noteq> 0xffffffff" "a \<noteq> 0"
  shows "remote_ok (remote_remove a r) \<and> remote_map (remote_remove a r) = (\<lambda>h. if remote_map r h = Some a then None else remote_map r h)"
proof
  have "slot_ok index n i s \<Longrightarrow> ra_address s = a \<Longrightarrow> slot_ok index n i (s\<lparr>ra_address := 0\<rparr>)" for index n i s
    using assms(2,3) by (auto simp: slot_ok_def split: if_splits)
  then show "remote_ok (remote_remove a r)" using assms(1) by (simp add: remote_ok_def remote_remove_def)
  show "remote_map (remote_remove a r) = (\<lambda>h. if remote_map r h = Some a then None else remote_map r h)"
  proof
    fix h
    show "remote_map (remote_remove a r) h = (if remote_map r h = Some a then None else remote_map r h)"
    proof (cases "0 < sint h")
      case True
      from remote_map_slot(2) [OF assms(1) this] show ?thesis using assms(3) by (auto simp: remote_map_def remote_remove_def Let_def)
    qed (simp add: remote_map_def Let_def)
  qed
qed

text \<open>Handles of one slot.\<close>

lemma alloc_map:
  assumes ok: "remote_ok r" "remote_ok r'" and h: "sint (ro_index r) < sint h"
    and i: "nat (sint h) mod length (ro_addr r) \<noteq> 0" "ra_address (ro_addr r ! (nat (sint h) mod length (ro_addr r))) = 0" "a \<noteq> 0"
    and r': "ro_addr r' = (ro_addr r)[nat (sint h) mod length (ro_addr r) := \<lparr>ra_handle = h, ra_address = a\<rparr>]"
  shows "remote_map r' = (remote_map r)(h \<mapsto> a)"
proof
  fix k
  let ?n = "length (ro_addr r)"
  have pos: "0 < sint h" "0 < ?n" using ok(1) h by (simp_all add: remote_ok_def)
  show "remote_map r' k = ((remote_map r)(h \<mapsto> a)) k"
  proof (cases "0 < sint k \<and> nat (sint k) mod ?n = nat (sint h) mod ?n")
    case True
    then show ?thesis using pos i(2,3) by (auto simp: remote_map_def r' Let_def)
  next
    case False
    then show ?thesis using pos by (auto simp: remote_map_def r' Let_def)
  qed
qed

lemma alloc_correct:
  assumes "remote_ok r" "a \<noteq> 0" "sint (ro_index r) + int (length (ro_addr r)) < 2 ^ 31"
  shows "\<exists>x r'. lalloc a r = Some (x, r') \<and> remote_ok r' \<and>
    (case x of Inl e \<Rightarrow> remote_map r' = remote_map r \<and> (\<forall>i < length (ro_addr r). ra_address (ro_addr r ! i) \<noteq> 0)
     | Inr h \<Rightarrow> sint (ro_index r) < sint h \<and> remote_map r h = None \<and> remote_map r' = (remote_map r)(h \<mapsto> a))"
proof -
  let ?n = "length (ro_addr r)"
  have pos: "0 \<le> sint (ro_index r)" "0 < ?n" using assms(1) by (simp_all add: remote_ok_def)
  obtain h r' where r': "alloc_turns ?n a r = Some (h, r')" "remote_ok r'"
    "if h = -1 then ro_addr r' = ro_addr r \<and>
         (\<forall>j. sint (ro_index r) < int j \<and> int j \<le> sint (ro_index r) + int ?n \<longrightarrow> ra_address (ro_addr r ! (j mod ?n)) \<noteq> 0)
       else sint (ro_index r) < sint h \<and> nat (sint h) mod ?n \<noteq> 0 \<and> ra_address (ro_addr r ! (nat (sint h) mod ?n)) = 0 \<and>
         ro_addr r' = (ro_addr r)[nat (sint h) mod ?n := \<lparr>ra_handle = h, ra_address = a\<rparr>]"
    using alloc_turns_ok [OF assms] by blast
  show ?thesis
  proof (cases "h = -1")
    case True
    have "ra_address (ro_addr r ! i) \<noteq> 0" if i: "i < ?n" for i
    proof -
      let ?x = "nat (sint (ro_index r))"
      define j where "j = ?x + 1 + (i + (?n - (?x + 1) mod ?n)) mod ?n"
      have "j mod ?n = (?x + 1 + (i + (?n - (?x + 1) mod ?n))) mod ?n" unfolding j_def by (rule mod_add_right_eq)
      also have "?x + 1 + (i + (?n - (?x + 1) mod ?n)) = ((?x + 1) div ?n + 1) * ?n + i"
      proof -
        have "(?x + 1) mod ?n < ?n" using pos(2) by simp
        moreover have "(?x + 1) div ?n * ?n + (?x + 1) mod ?n = ?x + 1" by (rule div_mult_mod_eq)
        ultimately show ?thesis unfolding add_mult_distrib nat_mult_1 by arith
      qed
      also have "(((?x + 1) div ?n + 1) * ?n + i) mod ?n = i" using i by (simp only: mod_mult_self3 mod_less)
      finally have "j mod ?n = i" .
      moreover have "?x < j" "j \<le> ?x + ?n" using pos(2) by (simp_all add: j_def Suc_le_eq)
      ultimately show ?thesis using r'(3) True pos(1) by (auto simp: nat_less_iff dest!: spec [of _ j])
    qed
    then show ?thesis using r' True by (auto simp: lalloc_def remote_alloc_def remote_map_def)
  next
    case False
    then have h: "sint (ro_index r) < sint h" "nat (sint h) mod ?n \<noteq> 0" "ra_address (ro_addr r ! (nat (sint h) mod ?n)) = 0"
      "ro_addr r' = (ro_addr r)[nat (sint h) mod ?n := \<lparr>ra_handle = h, ra_address = a\<rparr>]" using r'(3) by simp_all
    have "remote_map r' = (remote_map r)(h \<mapsto> a)" by (rule alloc_map [OF assms(1) r'(2) h(1-3) assms(2) h(4)])
    moreover have "\<not> sint h < 0" using h(1) pos(1) by simp
    ultimately show ?thesis using r' h(1) remote_map_newer [OF assms(1) h(1)] by (simp add: lalloc_def remote_alloc_def)
  qed
qed

lemma bind_correct:
  assumes "remote_ok r" "remote_map r h = Some old" "a \<noteq> 0"
  shows "\<exists>r'. lbind a h r = Some (Inr old, r') \<and> remote_ok r' \<and> remote_map r' = (remote_map r)(h \<mapsto> a)"
proof -
  let ?n = "length (ro_addr r)" and ?i = "nat (sint h) mod length (ro_addr r)"
  let ?r = "r\<lparr>ro_addr := (ro_addr r)[?i := (ro_addr r ! ?i)\<lparr>ra_address := a\<rparr>]\<rparr>"
  have h: "0 < sint h" "ra_handle (ro_addr r ! ?i) = h" "ra_address (ro_addr r ! ?i) = old" "old \<noteq> 0"
    using assms(2) by (simp_all add: remote_map_def Let_def split: if_splits)
  note i = remote_map_slot [OF assms(1) h(1)]
  have "lbind a h r = Some (Inr old, ?r)" using h i by (simp add: lbind_def remote_bind_def Let_def)
  moreover have "slot_ok (ro_index r) ?n ?i ((ro_addr r ! ?i)\<lparr>ra_address := a\<rparr>)"
    using remote_okD [OF assms(1) i(2)] h by (auto simp: slot_ok_def)
  then have "remote_ok ?r" using assms(1) by (auto simp: remote_ok_def nth_list_update)
  moreover have "remote_map ?r k = ((remote_map r)(h \<mapsto> a)) k" for k
  proof (cases "0 < sint k \<and> nat (sint k) mod ?n = ?i")
    case True
    then show ?thesis using h assms(3) i(2) by (auto simp: remote_map_def Let_def)
  next
    case False
    then show ?thesis using h(1) by (auto simp: remote_map_def Let_def)
  qed
  ultimately show ?thesis by blast
qed

end
