(* ===== verification/RemoteProps.thy ===== *)
theory RemoteProps
  imports RemoteObj
begin

text \<open>
  Properties of the table of remote objects: for one service at a time it is a map from handles to
  services, and the services that allocate and remove at the same time do not disturb each other.
\<close>

unbundle bit_operations_syntax

section \<open>One operation at a time\<close>

definition demo_remote :: remote_objects where
  "demo_remote = \<lparr>ro_index = 1, ro_addr = [\<lparr>ra_handle = 0, ra_address = 0xffffffff\<rparr>, \<lparr>ra_handle = 1, ra_address = 7\<rparr>,
     \<lparr>ra_handle = 0, ra_address = 0\<rparr>]\<rparr>"

lemma demo_remote_ok: "remote_ok demo_remote" "remote_map demo_remote 1 = Some 7"
  by (auto simp: remote_ok_def demo_remote_def slot_ok_def remote_map_def less_Suc_eq)

text \<open>
  C33: The table of remote objects is a map from handles to services.  An allocation draws a handle that
  is newer than all others and leads to the service that asked, or fails and then no slot is free;
  binding a handle that exists gives it to the new service and returns the old one; a query reads the
  map; removal takes exactly the objects of the service out.
\<close>

theorem remote_objects_map:
  assumes "remote_ok r" "a \<noteq> 0" "a \<noteq> 0xffffffff" "sint (ro_index r) + int (length (ro_addr r)) < 2 ^ 31"
    and "remote_map r h = Some old"
  shows "(\<exists>x r'. lalloc a r = Some (x, r') \<and> remote_ok r' \<and>
      (case x of Inl e \<Rightarrow> remote_map r' = remote_map r \<and> {i. i < length (ro_addr r) \<and> ra_address (ro_addr r ! i) = 0} = {}
       | Inr k \<Rightarrow> sint (ro_index r) < sint k \<and> remote_map r k = None \<and> remote_map r' = (remote_map r)(k \<mapsto> a))) \<and>
    (\<exists>r'. lbind a h r = Some (Inr old, r') \<and> remote_ok r' \<and> remote_map r' = (remote_map r)(h \<mapsto> a)) \<and>
    lquery h r = Some (Some old) \<and>
    remote_ok (remote_remove a r) \<and>
    remote_map (remote_remove a r) = (\<lambda>k. if remote_map r k = Some a then None else remote_map r k)"
proof (intro conjI)
  obtain x r' where x: "lalloc a r = Some (x, r')" "remote_ok r'"
    "case x of Inl e \<Rightarrow> remote_map r' = remote_map r \<and> (\<forall>i < length (ro_addr r). ra_address (ro_addr r ! i) \<noteq> 0)
     | Inr k \<Rightarrow> sint (ro_index r) < sint k \<and> remote_map r k = None \<and> remote_map r' = (remote_map r)(k \<mapsto> a)"
    using alloc_correct [OF assms(1,2,4)] by blast
  then show "\<exists>x r'. lalloc a r = Some (x, r') \<and> remote_ok r' \<and>
      (case x of Inl e \<Rightarrow> remote_map r' = remote_map r \<and> {i. i < length (ro_addr r) \<and> ra_address (ro_addr r ! i) = 0} = {}
       | Inr k \<Rightarrow> sint (ro_index r) < sint k \<and> remote_map r k = None \<and> remote_map r' = (remote_map r)(k \<mapsto> a))"
    by (intro exI [of _ x] exI [of _ r']) (cases x; auto)
  show "\<exists>r'. lbind a h r = Some (Inr old, r') \<and> remote_ok r' \<and> remote_map r' = (remote_map r)(h \<mapsto> a)"
    using bind_correct [OF assms(1,5,2)] .
  have "0 < sint h" using assms(5) by (simp add: remote_map_def Let_def split: if_splits)
  then show "lquery h r = Some (Some old)" using query_map [OF assms(1)] assms(5) by simp
qed (use remove_map [OF assms(1,3,2)] in simp_all)

theorem remote_objects_map_witness:
  "(\<exists>r'. lbind 9 1 demo_remote = Some (Inr 7, r') \<and> remote_map r' = (remote_map demo_remote)(1 \<mapsto> 9)) \<and>
    lquery 1 demo_remote = Some (Some 7)"
proof -
  have "sint (ro_index demo_remote) + int (length (ro_addr demo_remote)) < 2 ^ 31" by (simp add: demo_remote_def)
  from remote_objects_map [OF demo_remote_ok(1) _ _ this demo_remote_ok(2), of 9] show ?thesis by auto
qed

section \<open>Many services at a time\<close>

text \<open>
  Where a thread is inside \<open>_alloc\<close> (with the turns that are left and the handle it has drawn) or
  \<open>_remove\<close> (with the slot it looks at).
\<close>

datatype remote_pc = R_idle | R_add nat | R_look nat i32 | R_cas nat i32 | R_store i32 | R_scan nat | R_clear nat

text \<open>
  One atomic access to the shared table by the thread of the service with this address; the flag tells an
  idle thread what to begin.
\<close>

fun remote_turn :: "u32 \<Rightarrow> bool \<Rightarrow> remote_pc \<Rightarrow> remote_objects \<Rightarrow> (remote_pc \<times> remote_objects) option" where
  "remote_turn address alloc R_idle r = Some (if alloc then R_add (length (ro_addr r)) else R_scan 0, r)"
| "remote_turn address alloc (R_add 0) r = Some (R_idle, r)"
| "remote_turn address alloc (R_add (Suc k)) r = Some (R_look k (ro_index r + 1), r\<lparr>ro_index := ro_index r + 1\<rparr>)"
| "remote_turn address alloc (R_look k h) r = do {
     i \<leftarrow> remote_slot (length (ro_addr r)) h;
     Some (if ra_address (ro_addr r ! i) = 0 then R_cas k h else R_add k, r)
   }"
| "remote_turn address alloc (R_cas k h) r = do {
     i \<leftarrow> remote_slot (length (ro_addr r)) h;
     let s = ro_addr r ! i;
     Some (if ra_address s = 0 then (R_store h, r\<lparr>ro_addr := (ro_addr r)[i := s\<lparr>ra_address := address\<rparr>]\<rparr>) else (R_add k, r))
   }"
| "remote_turn address alloc (R_store h) r = do {
     i \<leftarrow> remote_slot (length (ro_addr r)) h;
     Some (R_idle, r\<lparr>ro_addr := (ro_addr r)[i := (ro_addr r ! i)\<lparr>ra_handle := h\<rparr>]\<rparr>)
   }"
| "remote_turn address alloc (R_scan i) r =
     Some (if length (ro_addr r) \<le> i then R_idle
           else if ra_address (ro_addr r ! i) = address then R_clear i else R_scan (Suc i), r)"
| "remote_turn address alloc (R_clear i) r =
     (if i < length (ro_addr r) then Some (R_scan (Suc i), r\<lparr>ro_addr := (ro_addr r)[i := (ro_addr r ! i)\<lparr>ra_address := 0\<rparr>]\<rparr>)
      else None)"

text \<open>
  The threads, known by the addresses of their services, and the table.  \<open>rs_live\<close> is not in the program: the handles that \<open>_alloc\<close> has returned and
  whose service has not begun to remove its objects.
\<close>

record remote_sys =
  rs_objs :: remote_objects
  rs_pc :: "u32 \<Rightarrow> remote_pc"
  rs_live :: "i32 \<Rightarrow> u32 option"

definition live_after :: "u32 \<Rightarrow> remote_pc \<Rightarrow> remote_pc \<Rightarrow> (i32 \<Rightarrow> u32 option) \<Rightarrow> i32 \<Rightarrow> u32 option" where
  "live_after address pc pc' live = (case (pc, pc') of
     (R_store h, _) \<Rightarrow> live(h \<mapsto> address)
   | (R_idle, R_scan _) \<Rightarrow> (\<lambda>h. if live h = Some address then None else live h)
   | _ \<Rightarrow> live)"

definition remote_move :: "u32 \<Rightarrow> bool \<Rightarrow> remote_sys \<Rightarrow> remote_sys option" where
  "remote_move t alloc s = do {
     (pc', r) \<leftarrow> remote_turn t alloc (rs_pc s t) (rs_objs s);
     Some \<lparr>rs_objs = r, rs_pc = (rs_pc s)(t := pc'), rs_live = live_after t (rs_pc s t) pc' (rs_live s)\<rparr>
   }"

definition remote_init :: "remote_objects \<Rightarrow> remote_sys" where
  "remote_init r = \<lparr>rs_objs = r, rs_pc = (\<lambda>_. R_idle), rs_live = (\<lambda>_. None)\<rparr>"

text \<open>All interleavings, as long as the counter of handles has not wrapped.\<close>

inductive remote_reach :: "remote_objects \<Rightarrow> remote_sys \<Rightarrow> bool" for r where
  remote_start: "remote_reach r (remote_init r)"
| remote_step: "\<lbrakk>remote_reach r s; remote_move t alloc s = Some s'; t \<noteq> 0; sint (ro_index (rs_objs s)) < 2 ^ 31 - 1\<rbrakk>
    \<Longrightarrow> remote_reach r s'"

text \<open>The handle a thread has drawn.\<close>

fun pc_handle :: "remote_pc \<Rightarrow> i32 option" where
  "pc_handle (R_look k h) = Some h"
| "pc_handle (R_cas k h) = Some h"
| "pc_handle (R_store h) = Some h"
| "pc_handle _ = None"

abbreviation at_slot :: "remote_objects \<Rightarrow> i32 \<Rightarrow> nat" where "at_slot r h \<equiv> nat (sint h) mod length (ro_addr r)"

fun removing :: "remote_pc \<Rightarrow> bool" where
  "removing (R_scan i) = True"
| "removing (R_clear i) = True"
| "removing _ = False"

text \<open>The invariant: of a thread with address \<open>a\<close>, of the handles, and of all.\<close>

definition thread_ok :: "remote_objects \<Rightarrow> (i32 \<Rightarrow> u32 option) \<Rightarrow> u32 \<Rightarrow> remote_pc \<Rightarrow> bool" where
  "thread_ok r live a pc \<longleftrightarrow>
     (\<forall>h. pc_handle pc = Some h \<longrightarrow> 0 < sint h \<and> sint h \<le> sint (ro_index r) \<and> live h = None) \<and>
     (\<forall>h. pc = R_store h \<longrightarrow> ra_address (ro_addr r ! at_slot r h) = a \<and> (\<forall>k. live k \<noteq> None \<longrightarrow> at_slot r k \<noteq> at_slot r h)) \<and>
     (\<forall>i. pc = R_clear i \<longrightarrow> i < length (ro_addr r) \<and> ra_address (ro_addr r ! i) = a) \<and>
     (removing pc \<longrightarrow> (\<forall>h. live h \<noteq> Some a))"

definition live_ok :: "remote_objects \<Rightarrow> (i32 \<Rightarrow> u32 option) \<Rightarrow> bool" where
  "live_ok r live \<longleftrightarrow> 0 < length (ro_addr r) \<and> 0 \<le> sint (ro_index r) \<and>
     (\<forall>h a. live h = Some a \<longrightarrow> 0 < sint h \<and> sint h \<le> sint (ro_index r) \<and> a \<noteq> 0 \<and>
        ro_addr r ! at_slot r h = \<lparr>ra_handle = h, ra_address = a\<rparr>)"

definition remote_inv :: "remote_sys \<Rightarrow> bool" where
  "remote_inv s \<longleftrightarrow> live_ok (rs_objs s) (rs_live s) \<and>
     (\<forall>t. thread_ok (rs_objs s) (rs_live s) t (rs_pc s t)) \<and>
     (\<forall>t u h. pc_handle (rs_pc s t) = Some h \<longrightarrow> pc_handle (rs_pc s u) = Some h \<longrightarrow> t = u) \<and> rs_pc s 0 = R_idle"

lemma live_okD: "live_ok r live \<Longrightarrow> live h = Some a \<Longrightarrow>
    0 < sint h \<and> sint h \<le> sint (ro_index r) \<and> a \<noteq> 0 \<and> ro_addr r ! at_slot r h = \<lparr>ra_handle = h, ra_address = a\<rparr>"
  by (simp add: live_ok_def)

text \<open>What a turn does to the others: it draws a handle, takes or gives up addresses, or takes, names or clears a slot.\<close>

abbreviation take_slot :: "remote_objects \<Rightarrow> nat \<Rightarrow> u32 \<Rightarrow> remote_objects" where
  "take_slot r i a \<equiv> r\<lparr>ro_addr := (ro_addr r)[i := (ro_addr r ! i)\<lparr>ra_address := a\<rparr>]\<rparr>"

abbreviation name_slot :: "remote_objects \<Rightarrow> nat \<Rightarrow> i32 \<Rightarrow> remote_objects" where
  "name_slot r i h \<equiv> r\<lparr>ro_addr := (ro_addr r)[i := (ro_addr r ! i)\<lparr>ra_handle := h\<rparr>]\<rparr>"

lemma draw_ok:
  assumes "sint (ro_index r) \<le> sint x"
  shows "thread_ok r live a pc \<Longrightarrow> thread_ok (r\<lparr>ro_index := x\<rparr>) live a pc"
    and "live_ok r live \<Longrightarrow> live_ok (r\<lparr>ro_index := x\<rparr>) live"
  using assms by (fastforce simp: thread_ok_def, fastforce simp: live_ok_def)

lemma leave_ok:
  assumes "\<And>h. live' h = None \<or> live' h = live h"
  shows "thread_ok r live a pc \<Longrightarrow> thread_ok r live' a pc" and "live_ok r live \<Longrightarrow> live_ok r live'"
proof -
  have *: "live h = None \<Longrightarrow> live' h = None" "live' h = Some b \<Longrightarrow> live h = Some b" for h b using assms [of h] by auto
  then show "thread_ok r live a pc \<Longrightarrow> thread_ok r live' a pc" unfolding thread_ok_def by blast
  show "live_ok r live \<Longrightarrow> live_ok r live'" unfolding live_ok_def using *(2) by blast
qed

lemma live_slot_taken: "live_ok r live \<Longrightarrow> live k \<noteq> None \<Longrightarrow> ra_address (ro_addr r ! at_slot r k) \<noteq> 0"
  unfolding live_ok_def by auto

lemma take_ok:
  assumes live: "live_ok r live" and i: "i < length (ro_addr r)"
    and old: "ra_address (ro_addr r ! i) = b" "b \<noteq> 0 \<Longrightarrow> \<forall>h. live h \<noteq> Some b"
  shows "live_ok (take_slot r i x) live"
    and "thread_ok r live a pc \<Longrightarrow> a \<noteq> b \<Longrightarrow> thread_ok (take_slot r i x) live a pc"
proof -
  have apart: "at_slot r h \<noteq> i" if "live h = Some c" for h c
    using live_okD [OF live that] old that by (cases "b = 0") auto
  then have "ro_addr (take_slot r i x) ! at_slot r h = ro_addr r ! at_slot r h" if "live h = Some c" for h c
    using that nth_list_update_neq [of i "at_slot r h"] by fastforce
  then show "live_ok (take_slot r i x) live" using live unfolding live_ok_def by auto
  assume t: "thread_ok r live a pc" "a \<noteq> b"
  have "at_slot r h \<noteq> i" if "pc = R_store h" for h using t old(1) that unfolding thread_ok_def by auto
  moreover have "i \<noteq> j" if "pc = R_clear j" for j using t old(1) that unfolding thread_ok_def by auto
  ultimately show "thread_ok (take_slot r i x) live a pc"
    using t old(1) unfolding thread_ok_def by (cases pc) (auto simp: nth_list_update)
qed

lemma name_ok:
  assumes live: "live_ok r live" and t: "thread_ok r live a (R_store h)" "a \<noteq> 0"
  shows "live_ok (name_slot r (at_slot r h) h) (live(h \<mapsto> a))"
    and "\<lbrakk>thread_ok r live b pc; b \<noteq> a; pc_handle pc \<noteq> Some h\<rbrakk> \<Longrightarrow> thread_ok (name_slot r (at_slot r h) h) (live(h \<mapsto> a)) b pc"
proof -
  let ?i = "at_slot r h" and ?r = "name_slot r (at_slot r h) h"
  have i: "?i < length (ro_addr r)" using live by (simp add: live_ok_def)
  have h: "0 < sint h" "sint h \<le> sint (ro_index r)" "ra_address (ro_addr r ! ?i) = a" "\<And>k. live k \<noteq> None \<Longrightarrow> at_slot r k \<noteq> ?i"
    using t(1) by (simp_all add: thread_ok_def)
  have "ro_addr ?r ! at_slot ?r k = \<lparr>ra_handle = k, ra_address = c\<rparr>" if "(live(h \<mapsto> a)) k = Some c" for k c
  proof (cases "k = h")
    case True
    then show ?thesis using that i h(3) by (cases "ro_addr r ! ?i") simp
  next
    case False
    then have "live k = Some c" using that by simp
    then show ?thesis using live_okD [OF live] h(4) [of k] by simp
  qed
  then show "live_ok ?r (live(h \<mapsto> a))" using live h(1,2) t(2) unfolding live_ok_def by auto
  assume o: "thread_ok r live b pc" "b \<noteq> a" "pc_handle pc \<noteq> Some h"
  have "at_slot r k \<noteq> ?i" if "pc = R_store k" for k using o(1,2) h(3) that unfolding thread_ok_def by auto
  moreover have "ra_address (ro_addr ?r ! j) = ra_address (ro_addr r ! j)" for j using i by (simp add: nth_list_update)
  ultimately show "thread_ok ?r (live(h \<mapsto> a)) b pc" using o unfolding thread_ok_def by (cases pc) auto
qed

lemma remote_invI:
  assumes inv: "remote_inv s" and t: "t \<noteq> 0" and live: "live_ok r live"
    and other: "\<And>u. u \<noteq> t \<Longrightarrow> thread_ok r live u (rs_pc s u)" and own: "thread_ok r live t pc"
    and new: "\<And>u h. u \<noteq> t \<Longrightarrow> pc_handle pc = Some h \<Longrightarrow> pc_handle (rs_pc s u) \<noteq> Some h"
  shows "remote_inv \<lparr>rs_objs = r, rs_pc = (rs_pc s)(t := pc), rs_live = live\<rparr>"
  using assms unfolding remote_inv_def by (auto split: if_splits)

lemma remote_move_inv:
  assumes inv: "remote_inv s" and t: "t \<noteq> 0"
    and move: "remote_move t alloc s = Some s'" and small: "sint (ro_index (rs_objs s)) < 2 ^ 31 - 1"
  shows "remote_inv s'"
proof -
  let ?r = "rs_objs s" and ?live = "rs_live s" 
  have live: "live_ok ?r ?live" and ok: "\<And>u. thread_ok ?r ?live u (rs_pc s u)" and zero: "rs_pc s 0 = R_idle"
    and one: "\<And>u v h. pc_handle (rs_pc s u) = Some h \<Longrightarrow> pc_handle (rs_pc s v) = Some h \<Longrightarrow> u = v"
    using inv unfolding remote_inv_def by blast+
  have n: "0 < length (ro_addr ?r)" using live by (simp add: live_ok_def)
  have slot: "remote_slot (length (ro_addr ?r)) h = Some (at_slot ?r h)" "at_slot ?r h < length (ro_addr ?r)"
    if "pc_handle (rs_pc s t) = Some h" for h
    using ok [of t] that n by (auto simp: thread_ok_def remote_slot_pos)
  note ok' = ok [of t]
  note I = remote_invI [OF inv t]
  show ?thesis
  proof (cases "rs_pc s t")
    case R_idle
    show ?thesis
    proof (cases alloc)
      case True
      then have "s' = \<lparr>rs_objs = ?r, rs_pc = (rs_pc s)(t := R_add (length (ro_addr ?r))), rs_live = ?live\<rparr>"
        using move R_idle by (simp add: remote_move_def live_after_def)
      then show ?thesis using live ok by (auto intro!: I simp: thread_ok_def [of _ _ _ "R_add _"])
    next
      case False
      let ?left = "\<lambda>h. if ?live h = Some t then None else ?live h"
      have "s' = \<lparr>rs_objs = ?r, rs_pc = (rs_pc s)(t := R_scan 0), rs_live = ?left\<rparr>"
        using move R_idle False by (simp add: remote_move_def live_after_def)
      moreover have "live_ok ?r ?left" "\<And>u. thread_ok ?r ?left u (rs_pc s u)"
        using leave_ok [of ?left ?live] live ok by auto
      ultimately show ?thesis by (auto intro!: I simp: thread_ok_def [of _ _ _ "R_scan _"])
    qed
  next
    case (R_add k)
    show ?thesis
    proof (cases k)
      case 0
      then have "s' = \<lparr>rs_objs = ?r, rs_pc = (rs_pc s)(t := R_idle), rs_live = ?live\<rparr>"
        using move R_add by (simp add: remote_move_def live_after_def)
      then show ?thesis using live ok by (auto intro!: I simp: thread_ok_def [of _ _ _ R_idle])
    next
      case (Suc k')
      let ?h = "ro_index ?r + 1"
      let ?r' = "?r\<lparr>ro_index := ?h\<rparr>"
      have h: "0 \<le> sint (ro_index ?r)" "sint ?h = sint (ro_index ?r) + 1"
        using live small by (simp_all add: live_ok_def sint_next)
      have s': "s' = \<lparr>rs_objs = ?r', rs_pc = (rs_pc s)(t := R_look k' ?h), rs_live = ?live\<rparr>"
        using move R_add Suc by (simp add: remote_move_def live_after_def)
      have "?live ?h = None" using live_okD [OF live, of ?h] h by (cases "?live ?h") auto
      then have "thread_ok ?r' ?live t (R_look k' ?h)" using h by (simp add: thread_ok_def)
      moreover have "pc_handle (rs_pc s u) \<noteq> Some ?h" for u using ok [of u] h(2) by (auto simp: thread_ok_def)
      ultimately show ?thesis using draw_ok [of ?r ?h] live ok h(2) unfolding s' by (intro I) auto
    qed
  next
    case (R_look k h)
    have h: "pc_handle (rs_pc s t) = Some h" using R_look by simp
    let ?pc = "if ra_address (ro_addr ?r ! at_slot ?r h) = 0 then R_cas k h else R_add k"
    have s': "s' = \<lparr>rs_objs = ?r, rs_pc = (rs_pc s)(t := ?pc), rs_live = ?live\<rparr>"
      using move R_look slot(1) [OF h] by (simp add: remote_move_def live_after_def)
    have "thread_ok ?r ?live t ?pc" using ok' R_look by (simp add: thread_ok_def)
    moreover have "pc_handle ?pc = Some h' \<Longrightarrow> h' = h" for h' by (simp split: if_splits)
    ultimately show ?thesis using live ok one h unfolding s' by (intro I) blast+
  next
    case (R_cas k h)
    have h: "pc_handle (rs_pc s t) = Some h" using R_cas by simp
    let ?i = "at_slot ?r h"
    show ?thesis
    proof (cases "ra_address (ro_addr ?r ! ?i) = 0")
      case True
      let ?r' = "take_slot ?r ?i t"
      have s': "s' = \<lparr>rs_objs = ?r', rs_pc = (rs_pc s)(t := R_store h), rs_live = ?live\<rparr>"
        using move R_cas slot(1) [OF h] True by (simp add: remote_move_def live_after_def Let_def)
      note take = take_ok [OF live slot(2) [OF h] True]
      have "at_slot ?r k \<noteq> ?i" if "?live k \<noteq> None" for k using live_slot_taken [OF live that] True by auto
      then have "thread_ok ?r' ?live t (R_store h)" using ok' R_cas slot(2) [OF h] by (simp add: thread_ok_def)
      moreover have "thread_ok ?r' ?live u (rs_pc s u)" for u
        using take(2) [OF _ ok [of u]] zero by (cases "u = 0") (simp_all add: thread_ok_def [of _ _ _ R_idle])
      moreover have "pc_handle (rs_pc s u) \<noteq> Some h" if "u \<noteq> t" for u using one [of u h t] h that by blast
      ultimately show ?thesis using take(1) unfolding s' by (intro I) simp_all
    next
      case False
      then have "s' = \<lparr>rs_objs = ?r, rs_pc = (rs_pc s)(t := R_add k), rs_live = ?live\<rparr>"
        using move R_cas slot(1) [OF h] by (simp add: remote_move_def live_after_def Let_def)
      then show ?thesis using live ok by (auto intro!: I simp: thread_ok_def [of _ _ _ "R_add _"])
    qed
  next
    case (R_store h)
    have h: "pc_handle (rs_pc s t) = Some h" using R_store by simp
    have s': "s' = \<lparr>rs_objs = name_slot ?r (at_slot ?r h) h, rs_pc = (rs_pc s)(t := R_idle), rs_live = ?live(h \<mapsto> t)\<rparr>"
      using move R_store slot(1) [OF h] by (simp add: remote_move_def live_after_def)
    note name = name_ok [OF live ok' [unfolded R_store] t]
    have "thread_ok (name_slot ?r (at_slot ?r h) h) (?live(h \<mapsto> t)) u (rs_pc s u)" if u: "u \<noteq> t" for u
    proof (rule name(2) [OF ok u])
      show "pc_handle (rs_pc s u) \<noteq> Some h" using one [of u h t] h u by blast
    qed
    then show ?thesis using name(1) unfolding s' by (intro I) (auto simp: thread_ok_def [of _ _ _ R_idle])
  next
    case (R_scan i)
    let ?pc = "if length (ro_addr ?r) \<le> i then R_idle else if ra_address (ro_addr ?r ! i) = t then R_clear i else R_scan (Suc i)"
    have s': "s' = \<lparr>rs_objs = ?r, rs_pc = (rs_pc s)(t := ?pc), rs_live = ?live\<rparr>"
      using move R_scan by (simp add: remote_move_def live_after_def)
    have "thread_ok ?r ?live t ?pc" using ok' R_scan by (simp add: thread_ok_def)
    moreover have "pc_handle ?pc = None" by simp
    ultimately show ?thesis using live ok unfolding s' by (intro I) auto
  next
    case (R_clear i)
    let ?r' = "take_slot ?r i 0"
    have i: "i < length (ro_addr ?r)" "ra_address (ro_addr ?r ! i) = t" "\<forall>h. ?live h \<noteq> Some t"
      using ok' R_clear by (simp_all add: thread_ok_def)
    have s': "s' = \<lparr>rs_objs = ?r', rs_pc = (rs_pc s)(t := R_scan (Suc i)), rs_live = ?live\<rparr>"
      using move R_clear i(1) by (simp add: remote_move_def live_after_def)
    note take = take_ok [OF live i(1,2), where x = 0]
    have "thread_ok ?r' ?live t (R_scan (Suc i))" using i(3) by (simp add: thread_ok_def)
    then show ?thesis using take i(3) ok unfolding s' by (intro I) auto
  qed
qed

lemma remote_reach_inv:
  assumes "remote_reach r s" "remote_ok r"
  shows "remote_inv s"
  using assms(1)
proof induction
  case remote_start
  show ?case using assms(2) by (simp add: remote_inv_def remote_init_def live_ok_def thread_ok_def remote_ok_def)
next
  case (remote_step s t alloc s')
  then show ?case using remote_move_inv by blast
qed

text \<open>
  C32: Services that allocate and remove remote objects at the same time, without any lock, do not disturb
  each other: in every interleaving of their accesses to the table, a handle that \<open>_alloc\<close> has returned
  leads to the service that asked for it until that service removes its objects, and two threads never
  hold the same slot or the same handle.
\<close>

theorem remote_concurrent:
  assumes "remote_reach r s" "remote_ok r"
  shows "(rs_live s h = Some a \<longrightarrow> remote_query h (rs_objs s) = Some a) \<and>
    (pc_handle (rs_pc s t) = Some k \<and> pc_handle (rs_pc s u) = Some k \<longrightarrow> t = u) \<and>
    (rs_pc s t = R_store h1 \<and> rs_pc s u = R_store h2 \<and> t \<noteq> u \<longrightarrow>
       remote_slot (length (ro_addr (rs_objs s))) h1 \<noteq> remote_slot (length (ro_addr (rs_objs s))) h2)"
proof (intro conjI impI; (elim conjE)?)
  have inv: "remote_inv s" by (rule remote_reach_inv [OF assms])
  then have live: "live_ok (rs_objs s) (rs_live s)" and ok: "\<And>t. thread_ok (rs_objs s) (rs_live s) t (rs_pc s t)"
    unfolding remote_inv_def by blast+
  have n: "0 < length (ro_addr (rs_objs s))" using live by (simp add: live_ok_def)
  show "remote_query h (rs_objs s) = Some a" if "rs_live s h = Some a"
    using live_okD [OF live that] n by (simp add: remote_query_def remote_slot_pos Let_def)
  have one: "pc_handle (rs_pc s t) = Some k \<Longrightarrow> pc_handle (rs_pc s u) = Some k \<Longrightarrow> t = u"
    using inv unfolding remote_inv_def by metis
  then show "t = u" if "pc_handle (rs_pc s t) = Some k" "pc_handle (rs_pc s u) = Some k" using that by simp
  assume store: "rs_pc s t = R_store h1" "rs_pc s u = R_store h2" "t \<noteq> u"
  then show "remote_slot (length (ro_addr (rs_objs s))) h1 \<noteq> remote_slot (length (ro_addr (rs_objs s))) h2"
  proof -
    have "0 < sint h1" "ra_address (ro_addr (rs_objs s) ! at_slot (rs_objs s) h1) = t" using ok [of t] store(1) by (simp_all add: thread_ok_def)
    moreover have "0 < sint h2" "ra_address (ro_addr (rs_objs s) ! at_slot (rs_objs s) h2) = u" using ok [of u] store(2) by (simp_all add: thread_ok_def)
    ultimately have "at_slot (rs_objs s) h1 \<noteq> at_slot (rs_objs s) h2" using store(3) by metis
    then show ?thesis using \<open>0 < sint h1\<close> \<open>0 < sint h2\<close> n by (simp add: remote_slot_pos)
  qed
qed

text \<open>A schedule: which service has its turn, and whether it allocates when it is idle.\<close>

fun remote_run :: "(u32 \<times> bool) list \<Rightarrow> remote_sys \<Rightarrow> remote_sys option" where
  "remote_run [] s = Some s"
| "remote_run ((t, alloc) # ts) s = do {
     c_assert (t \<noteq> 0 \<and> sint (ro_index (rs_objs s)) < 2 ^ 31 - 1);
     s \<leftarrow> remote_move t alloc s;
     remote_run ts s
   }"

lemma remote_run_reach: "remote_reach r s \<Longrightarrow> remote_run ts s = Some s' \<Longrightarrow> remote_reach r s'"
proof (induction ts arbitrary: s)
  case (Cons x ts)
  obtain t alloc where x: "x = (t, alloc)" by (cases x)
  obtain s1 where s1: "remote_move t alloc s = Some s1" "t \<noteq> 0" "sint (ro_index (rs_objs s)) < 2 ^ 31 - 1" "remote_run ts s1 = Some s'"
    using Cons.prems(2) by (cases "remote_move t alloc s") (auto simp: x)
  show ?case using Cons.IH [OF remote_reach.remote_step [OF Cons.prems(1) s1(1-3)] s1(4)] .
qed simp

text \<open>Two services that draw handles in turn: both have theirs in the end.\<close>

definition demo_schedule :: "(u32 \<times> bool) list" where
  "demo_schedule = [(7, True), (8, True), (7, True), (8, True), (7, True), (8, True), (7, True), (8, True), (7, True), (8, True)]"

definition demo_empty :: remote_objects where
  "demo_empty = \<lparr>ro_index = 0, ro_addr = [\<lparr>ra_handle = 0, ra_address = 0xffffffff\<rparr>, \<lparr>ra_handle = 0, ra_address = 0\<rparr>,
     \<lparr>ra_handle = 0, ra_address = 0\<rparr>]\<rparr>"

lemma demo_empty_ok: "remote_ok demo_empty"
  by (auto simp: remote_ok_def demo_empty_def slot_ok_def less_Suc_eq)

lemma turn_add:
  "0 < k \<Longrightarrow> remote_turn a b (R_add k) r = Some (R_look (k - 1) (ro_index r + 1), r\<lparr>ro_index := ro_index r + 1\<rparr>)"
  by (cases k) simp_all

lemma demo_schedule_live:
  "\<exists>s. remote_run demo_schedule (remote_init demo_empty) = Some s \<and> rs_live s 1 = Some 7 \<and> rs_live s 2 = Some 8"
proof -
  have slots: "remote_slot 3 1 = Some 1" "remote_slot 3 2 = Some 2" by code_simp+
  show ?thesis
    by (simp add: demo_schedule_def remote_init_def demo_empty_def remote_move_def live_after_def slots Let_def turn_add numeral_3_eq_3 [symmetric])
qed

theorem remote_concurrent_witness:
  "\<exists>s. remote_run demo_schedule (remote_init demo_empty) = Some s \<and> remote_query 1 (rs_objs s) = Some 7 \<and>
     remote_query 2 (rs_objs s) = Some 8"
proof -
  obtain s where s: "remote_run demo_schedule (remote_init demo_empty) = Some s" "rs_live s 1 = Some 7" "rs_live s 2 = Some 8"
    using demo_schedule_live by blast
  note reach = remote_run_reach [OF remote_start s(1)]
  have "remote_query 1 (rs_objs s) = Some 7" using remote_concurrent [OF reach demo_empty_ok, of 1 7] s(2) by blast
  moreover have "remote_query 2 (rs_objs s) = Some 8" using remote_concurrent [OF reach demo_empty_ok, of 2 8] s(3) by blast
  ultimately show ?thesis using s(1) by blast
qed

section \<open>Defects\<close>

text \<open>
  Binding a handle whose object was removed reports that it does not exist, but puts the service into the
  slot: the slot is taken again and the handle leads to the service.
\<close>

lemma bind_removed:
  "let r = remote_remove 7 demo_remote in lquery 1 r = Some None \<and>
     (\<exists>r'. lbind 9 1 r = Some (Inl ''handle is not exist'', r') \<and> lquery 1 r' = Some (Some 9))"
proof -
  have slot: "remote_slot 3 1 = Some 1" by code_simp
  then show ?thesis
    by (simp add: Let_def demo_remote_def remote_remove_def lquery_def remote_query_def lbind_def remote_bind_def numeral_3_eq_3 [symmetric])
qed

text \<open>The handle 0 leads to a service 0xffffffff, and a negative handle to memory before the table.\<close>

lemma query_zero: "lquery 0 demo_remote = Some (Some 0xffffffff) \<and> lquery (-1) demo_remote = None"
proof -
  have "remote_slot 3 0 = Some 0" "remote_slot 3 (-1) = None" by code_simp+
  then show ?thesis by (simp add: demo_remote_def lquery_def remote_query_def Let_def numeral_3_eq_3 [symmetric])
qed

text \<open>After 2147483647 handles the counter is negative, and so is the index.\<close>

lemma alloc_wraps: "remote_alloc 9 (demo_remote\<lparr>ro_index := 0x7fffffff\<rparr>) = None"
proof -
  have "remote_slot (Suc (Suc (Suc 0))) 2147483648 = None" by code_simp
  then show ?thesis by (simp add: remote_alloc_def demo_remote_def)
qed

text \<open>
  \<open>_alloc\<close> names a slot after it has taken it: until then the handle of the object that was there before
  leads to the new one, and binding it takes the new object away from its service.
\<close>

lemma alloc_bind_race:
  "let r = demo_empty\<lparr>ro_index := 4, ro_addr := [\<lparr>ra_handle = 0, ra_address = 0xffffffff\<rparr>, \<lparr>ra_handle = 1, ra_address = 0\<rparr>, \<lparr>ra_handle = 2, ra_address = 5\<rparr>]\<rparr> in
     \<exists>r1 r2 r3. remote_turn 7 True (R_cas 2 4) r = Some (R_store 4, r1) \<and>
       lbind 9 1 r1 = Some (Inr 7, r2) \<and> remote_turn 7 True (R_store 4) r2 = Some (R_idle, r3) \<and> lquery 4 r3 = Some (Some 9)"
proof -
  have "remote_slot 3 1 = Some 1" "remote_slot 3 4 = Some 1" by code_simp+
  then show ?thesis
    by (simp add: Let_def demo_empty_def lquery_def remote_query_def lbind_def remote_bind_def numeral_3_eq_3 [symmetric])
qed

end
