(* ===== verification/Trace.thy ===== *)
theory Trace
  imports Prelude
begin

text \<open>
  \<open>lualib-src/trace_service.c\<close>: how much processor time a request takes that is handled in pieces.  The
  piece that runs is \<open>current\<close>; while its request waits for the answer with a session it is in a
  list of the slot of the session.  The lists are linked through the heap, which is explicit here: an
  address without a \<open>trace_info\<close> is not allocated.  The readings of the clock are arguments.  \<open>None\<close> is
  a failed assertion, an access to memory that is not allocated, or a second \<open>free\<close>.
\<close>

unbundle bit_operations_syntax

section \<open>The model\<close>

definition TRACE_SLOTS :: nat where "TRACE_SLOTS = 32"
definition NANOSEC :: int where "NANOSEC = 1000000000"

type_synonym timespec = "int \<times> int"

text \<open>\<open>diff_time\<close>: adds the time from \<open>ti\<close> to now to the seconds and nanoseconds.\<close>

definition diff_time :: "timespec \<Rightarrow> timespec \<Rightarrow> u32 \<times> u32 \<Rightarrow> (u32 \<times> u32) option" where
  "diff_time now ti t = do {
     let diffsec = (of_int (fst now - fst ti) :: i32);
     c_assert (0 \<le> sint diffsec);
     let diffnsec = (of_int (snd now - snd ti) :: i32);
     let (diffsec, diffnsec) = (if sint diffnsec < 0 then (diffsec - 1, diffnsec + of_int NANOSEC) else (diffsec, diffnsec));
     let nsec = snd t + ucast diffnsec;
     let (sec, nsec) = (if of_int NANOSEC < nsec then (fst t + 1, nsec - of_int NANOSEC) else (fst t, nsec));
     Some (sec + ucast diffsec, nsec)
   }"

record trace_info =
  ti_session :: i32
  ti_prev :: "nat option"
  ti_next :: "nat option"
  ti_start :: timespec
  ti_time :: "u32 \<times> u32"

record trace_pool =
  tp_current :: "nat option"
  tp_slot :: "nat option list"
  tp_heap :: "nat \<Rightarrow> trace_info option"
  tp_fresh :: nat

definition trace_create :: trace_pool where
  "trace_create = \<lparr>tp_current = None, tp_slot = replicate TRACE_SLOTS None, tp_heap = (\<lambda>_. None), tp_fresh = 0\<rparr>"

definition set_info :: "nat \<Rightarrow> (trace_info \<Rightarrow> trace_info) \<Rightarrow> trace_pool \<Rightarrow> trace_pool option" where
  "set_info t f p = do {
     x \<leftarrow> tp_heap p t;
     Some (p\<lparr>tp_heap := (tp_heap p)(t \<mapsto> f x)\<rparr>)
   }"

definition trace_new :: "timespec \<Rightarrow> trace_pool \<Rightarrow> nat option \<times> trace_pool" where
  "trace_new now p = (case tp_current p of
     Some _ \<Rightarrow> (None, p)
   | None \<Rightarrow>
       (let t = tp_fresh p
        in (Some t, p\<lparr>tp_current := Some t, tp_fresh := t + 1,
              tp_heap := (tp_heap p)(t \<mapsto> \<lparr>ti_session = 0, ti_prev = None, ti_next = None, ti_start = now, ti_time = (0, 0)\<rparr>)\<rparr>)))"

definition trace_hash :: "i32 \<Rightarrow> nat" where "trace_hash session = nat (sint session mod int TRACE_SLOTS)"

definition trace_register :: "i32 \<Rightarrow> trace_pool \<Rightarrow> trace_pool option" where
  "trace_register session p = (case tp_current p of
     None \<Rightarrow> Some p
   | Some t \<Rightarrow> do {
       x \<leftarrow> tp_heap p t;
       c_assert (ti_session x = 0 \<and> 0 < sint session);
       let hash = trace_hash session;
       let head = tp_slot p ! hash;
       p \<leftarrow> set_info t (\<lambda>x. x\<lparr>ti_session := session, ti_prev := None, ti_next := head\<rparr>) p;
       p \<leftarrow> (case head of None \<Rightarrow> Some p | Some h \<Rightarrow> set_info h (\<lambda>x. x\<lparr>ti_prev := Some t\<rparr>) p);
       Some (p\<lparr>tp_slot := (tp_slot p)[hash := Some t]\<rparr>)
     })"

definition trace_yield :: "timespec \<Rightarrow> trace_pool \<Rightarrow> (nat option \<times> trace_pool) option" where
  "trace_yield now p = (case tp_current p of
     None \<Rightarrow> Some (None, p)
   | Some t \<Rightarrow> do {
       x \<leftarrow> tp_heap p t;
       time \<leftarrow> diff_time now (ti_start x) (ti_time x);
       p \<leftarrow> set_info t (\<lambda>x. x\<lparr>ti_time := time\<rparr>) p;
       if ti_session x = 0 then Some (Some t, p) else Some (None, p\<lparr>tp_current := None\<rparr>)
     })"

text \<open>The search of \<open>trace_switch\<close>: the info with the session and the one before it.\<close>

partial_function (option) trace_find ::
  "(nat \<Rightarrow> trace_info option) \<Rightarrow> i32 \<Rightarrow> nat option \<Rightarrow> nat option \<Rightarrow> (nat \<times> nat option) option option" where
  "trace_find heap session prev t =
     (if t = None then Some None
      else do {
        x \<leftarrow> heap (the t);
        if ti_session x = session then Some (Some (the t, prev)) else trace_find heap session t (ti_next x)
      })"

definition trace_switch :: "i32 \<Rightarrow> timespec \<Rightarrow> trace_pool \<Rightarrow> trace_pool option" where
  "trace_switch session now p = do {
     c_assert (tp_current p = None \<and> 0 < sint session);
     let hash = trace_hash session;
     r \<leftarrow> trace_find (tp_heap p) session None (tp_slot p ! hash);
     case r of
       None \<Rightarrow> Some p
     | Some (t, prev) \<Rightarrow> do {
         x \<leftarrow> tp_heap p t;
         p \<leftarrow> set_info t (\<lambda>x. x\<lparr>ti_session := 0\<rparr>) (p\<lparr>tp_current := Some t\<rparr>);
         p \<leftarrow> (case prev of
                None \<Rightarrow> Some (p\<lparr>tp_slot := (tp_slot p)[hash := ti_next x]\<rparr>)
              | Some q \<Rightarrow> set_info q (\<lambda>y. y\<lparr>ti_next := ti_next x\<rparr>) p);
         p \<leftarrow> (case ti_next x of None \<Rightarrow> Some p | Some s \<Rightarrow> set_info s (\<lambda>y. y\<lparr>ti_prev := prev\<rparr>) p);
         set_info t (\<lambda>x. x\<lparr>ti_start := now\<rparr>) p
       }
   }"

definition trace_free :: "nat \<Rightarrow> trace_pool \<Rightarrow> trace_pool option" where
  "trace_free t p = (if tp_heap p t = None then None else Some (p\<lparr>tp_heap := (tp_heap p)(t := None)\<rparr>))"

text \<open>The time \<open>trace_delete\<close> returns, in seconds and nanoseconds: the code makes one \<open>double\<close> of both.\<close>

definition trace_delete :: "nat option \<Rightarrow> trace_pool \<Rightarrow> ((u32 \<times> u32) option \<times> trace_pool) option" where
  "trace_delete t p = do {
     c_assert (tp_current p = t);
     let p = p\<lparr>tp_current := None\<rparr>;
     case t of
       None \<Rightarrow> Some (None, p)
     | Some i \<Rightarrow> do {
         x \<leftarrow> tp_heap p i;
         p \<leftarrow> trace_free i p;
         Some (Some (ti_time x), p)
       }
   }"

partial_function (option) free_slot_chain :: "nat option \<Rightarrow> trace_pool \<Rightarrow> trace_pool option" where
  "free_slot_chain t p =
     (if t = None then Some p
      else do {
        x \<leftarrow> tp_heap p (the t);
        p \<leftarrow> trace_free (the t) p;
        free_slot_chain (ti_next x) p
      })"

fun free_slots :: "nat option list \<Rightarrow> trace_pool \<Rightarrow> trace_pool option" where
  "free_slots [] p = Some p"
| "free_slots (t # ts) p = do { p \<leftarrow> free_slot_chain t p; free_slots ts p }"

definition trace_release :: "trace_pool \<Rightarrow> trace_pool option" where
  "trace_release p = do {
     p \<leftarrow> free_slots (tp_slot p) p;
     case tp_current p of None \<Rightarrow> Some p | Some t \<Rightarrow> trace_free t p
   }"

end
