(* ===== verification/TraceProps.thy ===== *)
theory TraceProps
  imports Trace
begin

text \<open>
  The lists of waiting requests in the heap, and what the operations of \<open>trace_service.c\<close> do to them: a
  request that waits with a session is resumed by that session, with the time it has used so far.
\<close>

unbundle bit_operations_syntax

section \<open>Time\<close>

definition nanoseconds :: "u32 \<times> u32 \<Rightarrow> int" where "nanoseconds t = uint (fst t) * NANOSEC + uint (snd t)"

lemma nsec_less: "0 \<le> a \<Longrightarrow> a < NANOSEC \<Longrightarrow> 0 \<le> b \<Longrightarrow> b < NANOSEC \<Longrightarrow> sint (of_int (a - b) :: i32) = a - b"
  by (simp add: NANOSEC_def signed_of_int signed_take_bit_int_eq_self del: of_int_diff)

lemma uint_add: "0 \<le> n \<Longrightarrow> uint a + n < 2 ^ 32 \<Longrightarrow> uint (a + of_int n :: u32) = uint a + n"
  by (simp add: uint_word_ariths unsigned_of_int take_bit_eq_mod mod_simps)

text \<open>The time that is added is exactly the time between the readings.\<close>

lemma diff_time_exact:
  assumes clock: "0 \<le> snd ti" "snd ti < NANOSEC" "0 \<le> snd now" "snd now < NANOSEC" "fst ti \<le> fst now" "fst now - fst ti < 2 ^ 31 - 1"
    and order: "fst ti = fst now \<Longrightarrow> snd ti \<le> snd now"
    and acc: "uint (snd t) \<le> NANOSEC" "uint (fst t) + (fst now - fst ti) + 1 < 2 ^ 32"
  shows "\<exists>t'. diff_time now ti t = Some t' \<and> uint (snd t') \<le> NANOSEC \<and>
    nanoseconds t' = nanoseconds t + (fst now * NANOSEC + snd now) - (fst ti * NANOSEC + snd ti)"
proof -
  define D where "D = fst now - fst ti"
  define N where "N = snd now - snd ti"
  have D: "0 \<le> D" "D < 2 ^ 31 - 1" "sint (of_int D :: i32) = D" "D = 0 \<Longrightarrow> 0 \<le> N"
    using clock(5,6) order by (auto simp: D_def N_def signed_of_int signed_take_bit_int_eq_self simp del: of_int_diff)
  have N: "- NANOSEC < N" "N < NANOSEC" "sint (of_int N :: i32) = N"
    using clock(1-4) nsec_less [of "snd now" "snd ti"] by (auto simp: N_def simp del: of_int_diff)
  define d where "d = (if N < 0 then D - 1 else D)"
  define n where "n = (if N < 0 then N + NANOSEC else N)"
  have "N < 0 \<Longrightarrow> 1 \<le> D" using D(1,4) by (cases "D = 0") auto
  then have dn: "0 \<le> d" "d \<le> D" "0 \<le> n" "n < NANOSEC" "d * NANOSEC + n = D * NANOSEC + N"
    using D(1) N by (auto simp: d_def n_def algebra_simps)
  have words: "(if N < 0 then (of_int D - 1, of_int N + of_int NANOSEC) else (of_int D, of_int N)) = (of_int d :: i32, of_int n :: i32)"
    by (simp add: d_def n_def)
  let ?m = "snd t + of_int n" and ?c = "of_int NANOSEC :: u32"
  have c: "uint ?c = NANOSEC" by (simp add: NANOSEC_def)
  have m: "uint ?m = uint (snd t) + n" using dn(3,4) acc(1) by (intro uint_add) (simp_all add: NANOSEC_def)
  have diff: "diff_time now ti t =
      Some (if NANOSEC < uint ?m then (fst t + 1 + of_int d, ?m - ?c) else (fst t + of_int d, ?m))"
    unfolding diff_time_def Let_def D_def [symmetric] N_def [symmetric] D(3) N(3) words
    using D(1) c by (simp add: word_less_def)
  have "uint (fst t + of_int (1 + d)) = uint (fst t) + (1 + d)"
    by (rule uint_add) (use dn(1,2) acc(2) D_def in linarith)+
  then have "uint (fst t + 1 + of_int d) = uint (fst t) + (1 + d)" by (simp add: add.assoc)
  moreover have "uint (fst t + of_int d) = uint (fst t) + d"
    by (rule uint_add) (use dn(1,2) acc(2) D_def in linarith)+
  moreover have "NANOSEC < uint ?m \<Longrightarrow> uint (?m - ?c) = uint ?m - NANOSEC"
    using uint_sub_lem [of ?c ?m] c by simp
  ultimately show ?thesis
    using dn m acc(1) c unfolding diff by (auto simp: nanoseconds_def D_def N_def algebra_simps)
qed

section \<open>Lists in the heap\<close>

fun tlist :: "(nat \<Rightarrow> trace_info option) \<Rightarrow> nat option \<Rightarrow> nat option \<Rightarrow> nat list \<Rightarrow> bool" where
  "tlist H q t [] = (t = None)"
| "tlist H q t (i # is) = (t = Some i \<and> (case H i of None \<Rightarrow> False | Some x \<Rightarrow> ti_prev x = q \<and> tlist H (Some i) (ti_next x) is))"

lemma tlist_cong: "\<forall>i \<in> set is. H' i = H i \<Longrightarrow> tlist H' q t is = tlist H q t is"
  by (induction "is" arbitrary: q t) (auto split: option.splits)

lemma tlist_heap: "tlist H q t is \<Longrightarrow> i \<in> set is \<Longrightarrow> \<exists>x. H i = Some x"
  by (induction "is" arbitrary: q t) (auto split: option.splits)

text \<open>The first element gets another predecessor.\<close>

definition reprev :: "nat option \<Rightarrow> nat option \<Rightarrow> (nat \<Rightarrow> trace_info option) \<Rightarrow> nat \<Rightarrow> trace_info option" where
  "reprev t q H = (case t of None \<Rightarrow> H | Some i \<Rightarrow> H(i := map_option (\<lambda>x. x\<lparr>ti_prev := q\<rparr>) (H i)))"

lemma tlist_reprev: "tlist H r t is \<Longrightarrow> distinct is \<Longrightarrow> tlist (reprev t q H) q t is"
proof (cases "is")
  case (Cons i js)
  moreover assume "tlist H r t is" "distinct is"
  ultimately show ?thesis
    using tlist_cong [of js "reprev t q H" H] by (auto simp: reprev_def split: option.splits)
qed (simp add: reprev_def)

lemma tlist_append: "tlist H q t (as @ i # bs) \<Longrightarrow> \<exists>x. H i = Some x \<and> ti_prev x = (if as = [] then q else Some (last as)) \<and> tlist H (Some i) (ti_next x) bs"
  by (induction as arbitrary: q t) (auto split: option.splits)

definition renext :: "nat option \<Rightarrow> nat option \<Rightarrow> (nat \<Rightarrow> trace_info option) \<Rightarrow> nat \<Rightarrow> trace_info option" where
  "renext q t H = (case q of None \<Rightarrow> H | Some i \<Rightarrow> H(i := map_option (\<lambda>x. x\<lparr>ti_next := t\<rparr>) (H i)))"

text \<open>An element in the middle is taken out.\<close>

lemma tlist_unlink:
  assumes "tlist H q t (as @ i # bs)" "distinct (as @ i # bs)" "as \<noteq> []" "H i = Some x"
  shows "tlist (reprev (ti_next x) (Some (last as)) (renext (Some (last as)) (ti_next x) H)) q t (as @ bs)"
  using assms
proof (induction as arbitrary: q t)
  case (Cons a as)
  let ?H = "reprev (ti_next x) (Some (last (a # as))) (renext (Some (last (a # as))) (ti_next x) H)"
  obtain y where y: "H a = Some y" "ti_prev y = q" "t = Some a" "tlist H (Some a) (ti_next y) (as @ i # bs)"
    using Cons.prems(1) by (auto split: option.splits)
  have next': "ti_next x = Some b \<Longrightarrow> b \<noteq> a" for b
  proof -
    assume "ti_next x = Some b"
    then have "b \<in> set bs" using tlist_append [OF y(4)] Cons.prems(4) by (cases bs) auto
    then show "b \<noteq> a" using Cons.prems(2) by auto
  qed
  show ?case
  proof (cases "as = []")
    case True
    let ?K = "renext (Some a) (ti_next x) H"
    have "ti_next y = Some i" "tlist H (Some i) (ti_next x) bs" using y(4) True Cons.prems(4) by auto
    moreover have "tlist ?K (Some i) (ti_next x) bs"
      using calculation(2) Cons.prems(2) by (subst tlist_cong [of _ _ H]) (auto simp: renext_def)
    then have "tlist (reprev (ti_next x) (Some a) ?K) (Some a) (ti_next x) bs"
      using Cons.prems(2) by (intro tlist_reprev) auto
    moreover have "reprev (ti_next x) (Some a) ?K a = Some (y\<lparr>ti_next := ti_next x\<rparr>)"
      using next' y(1) by (auto simp: reprev_def renext_def split: option.splits)
    ultimately show ?thesis using True y by simp
  next
    case False
    have "tlist ?H (Some a) (ti_next y) (as @ bs)" using Cons.IH [OF y(4)] Cons.prems(2,4) False by simp
    moreover have "?H a = Some y" using next' y(1) Cons.prems(2) False by (auto simp: reprev_def renext_def split: option.splits)
    ultimately show ?thesis using y by simp
  qed
qed simp

lemma tlist_remove:
  assumes l: "tlist H None t (as @ i # bs)" "distinct (as @ i # bs)" "H i = Some x"
    and prev: "prev = (if as = [] then None else Some (last as))"
  shows "tlist (reprev (ti_next x) prev (renext prev (ti_next x) H)) None (if as = [] then ti_next x else t) (as @ bs)"
proof (cases "as = []")
  case True
  then show ?thesis using l prev by (auto simp: renext_def intro!: tlist_reprev)
next
  case False
  then show ?thesis using tlist_unlink [OF l(1,2) False l(3)] prev by simp
qed

text \<open>The search.\<close>

lemma trace_find_none: "tlist H q t is \<Longrightarrow> \<forall>i \<in> set is. ti_session (the (H i)) \<noteq> s \<Longrightarrow> trace_find H s q t = Some None"
proof (induction "is" arbitrary: q t)
  case Nil
  then show ?case by (subst trace_find.simps) simp
next
  case (Cons i "is")
  then obtain x where "t = Some i" "H i = Some x" "tlist H (Some i) (ti_next x) is" by (auto split: option.splits)
  then show ?case using Cons by (subst trace_find.simps) simp
qed

lemma trace_find_some:
  "tlist H q t (as @ i # bs) \<Longrightarrow> \<forall>j \<in> set as. ti_session (the (H j)) \<noteq> s \<Longrightarrow> ti_session (the (H i)) = s \<Longrightarrow>
    trace_find H s q t = Some (Some (i, if as = [] then q else Some (last as)))"
proof (induction as arbitrary: q t)
  case Nil
  then show ?case by (subst trace_find.simps) (auto split: option.splits)
next
  case (Cons a as)
  then obtain x where x: "t = Some a" "H a = Some x" "tlist H (Some a) (ti_next x) (as @ i # bs)" by (auto split: option.splits)
  then have "trace_find H s q t = trace_find H s (Some a) (ti_next x)" using Cons.prems(2) by (subst trace_find.simps) simp
  then show ?case using Cons.IH [OF x(3)] Cons.prems(2,3) by simp
qed

section \<open>The pool\<close>

text \<open>
  \<open>chain\<close> has the addresses in the list of every slot.  Infos that wait have sessions of their slot; the
  current one is in no list.
\<close>

definition pool_shape :: "trace_pool \<Rightarrow> (nat \<Rightarrow> nat list) \<Rightarrow> bool" where
  "pool_shape p ch \<longleftrightarrow> length (tp_slot p) = TRACE_SLOTS \<and>
     (\<forall>h < TRACE_SLOTS. tlist (tp_heap p) None (tp_slot p ! h) (ch h) \<and> distinct (ch h) \<and>
        (\<forall>i \<in> set (ch h). 0 < sint (ti_session (the (tp_heap p i))) \<and> trace_hash (ti_session (the (tp_heap p i))) = h)) \<and>
     (\<forall>i. tp_heap p i \<noteq> None \<longrightarrow> i < tp_fresh p)"

text \<open>The requests that wait with a session, the last one registered first.\<close>

definition waiting_for :: "trace_pool \<Rightarrow> (nat \<Rightarrow> nat list) \<Rightarrow> i32 \<Rightarrow> nat list" where
  "waiting_for p ch s = filter (\<lambda>i. ti_session (the (tp_heap p i)) = s) (ch (trace_hash s))"

lemma trace_hash_less: "trace_hash s < TRACE_SLOTS"
  by (simp add: trace_hash_def TRACE_SLOTS_def)

lemma pool_create: "pool_shape trace_create (\<lambda>_. [])"
  by (simp add: pool_shape_def trace_create_def)

text \<open>What is known of an info, apart from its links.\<close>

definition info_of :: "trace_pool \<Rightarrow> nat \<Rightarrow> (i32 \<times> timespec \<times> u32 \<times> u32) option" where
  "info_of p i = map_option (\<lambda>x. (ti_session x, ti_start x, ti_time x)) (tp_heap p i)"

lemma session_info: "info_of p i = info_of p' i \<Longrightarrow> ti_session (the (tp_heap p i)) = ti_session (the (tp_heap p' i))"
  by (cases "tp_heap p i"; cases "tp_heap p' i") (auto simp: info_of_def)

lemma relinked:
  "map_option (\<lambda>x. (ti_session x, ti_start x, ti_time x)) (reprev a b H i) = map_option (\<lambda>x. (ti_session x, ti_start x, ti_time x)) (H i)"
  "map_option (\<lambda>x. (ti_session x, ti_start x, ti_time x)) (renext a b H i) = map_option (\<lambda>x. (ti_session x, ti_start x, ti_time x)) (H i)"
  by (cases a; cases "H i"; auto simp: reprev_def renext_def)+

lemma relinked_update: "j \<noteq> i \<Longrightarrow> reprev a b (renext c d (H(i := y))) j = reprev a b (renext c d H) j"
  by (auto simp: reprev_def renext_def split: option.splits)

lemma relinked_outside: "a \<noteq> Some j \<Longrightarrow> reprev a b H j = H j" "a \<noteq> Some j \<Longrightarrow> renext a b H j = H j"
  by (auto simp: reprev_def renext_def split: option.splits)

lemma shape_slot:
  assumes "pool_shape p ch" "h < TRACE_SLOTS"
  shows "tlist (tp_heap p) None (tp_slot p ! h) (ch h)" "distinct (ch h)"
    "i \<in> set (ch h) \<Longrightarrow> 0 < sint (ti_session (the (tp_heap p i))) \<and> trace_hash (ti_session (the (tp_heap p i))) = h"
  using assms by (simp_all add: pool_shape_def)

lemma waiting_split:
  assumes "waiting_for p ch s = i # rest"
  obtains as bs where "ch (trace_hash s) = as @ i # bs" "\<forall>j \<in> set as. ti_session (the (tp_heap p j)) \<noteq> s"
    "ti_session (the (tp_heap p i)) = s" "rest = filter (\<lambda>i. ti_session (the (tp_heap p i)) = s) bs"
  using assms unfolding waiting_for_def by (auto simp: filter_eq_Cons_iff)

lemma trace_switch_ok:
  assumes shape: "pool_shape p ch" and idle: "tp_current p = None" and s: "0 < sint s" and wait: "waiting_for p ch s = i # rest"
  obtains p' ch' x where "trace_switch s now p = Some p'" "tp_current p' = Some i" "pool_shape p' ch'"
    "info_of p i = Some (s, x)" "info_of p' i = Some (0, now, snd x)" "\<And>j. j \<noteq> i \<Longrightarrow> info_of p' j = info_of p j"
    "\<And>u. waiting_for p' ch' u = (if u = s then rest else waiting_for p ch u)" "\<And>h. h < TRACE_SLOTS \<Longrightarrow> i \<notin> set (ch' h)"
proof -
  let ?h = "trace_hash s" and ?H = "tp_heap p"
  obtain as bs where ab: "ch ?h = as @ i # bs" "\<forall>j \<in> set as. ti_session (the (?H j)) \<noteq> s" "ti_session (the (?H i)) = s"
    "rest = filter (\<lambda>i. ti_session (the (?H i)) = s) bs" using wait by (rule waiting_split)
  note slot = shape_slot [OF shape trace_hash_less [of s]]
  have l: "tlist ?H None (tp_slot p ! ?h) (as @ i # bs)" "distinct (as @ i # bs)" using slot(1,2) ab(1) by simp_all
  obtain x where x: "?H i = Some x" "tlist ?H (Some i) (ti_next x) bs" using tlist_append [OF l(1)] by auto
  define prev where "prev = (if as = [] then None else Some (last as))"
  let ?K = "reprev (ti_next x) prev (renext prev (ti_next x) (?H(i \<mapsto> x\<lparr>ti_session := 0\<rparr>)))"
  define H' where "H' = ?K(i := map_option (\<lambda>x. x\<lparr>ti_start := now\<rparr>) (?K i))"
  define p' where "p' = p\<lparr>tp_current := Some i, tp_slot := (if as = [] then (tp_slot p)[?h := ti_next x] else tp_slot p), tp_heap := H'\<rparr>"
  define ch' where "ch' = ch(?h := as @ bs)"
  have far: "prev \<noteq> Some i" "ti_next x \<noteq> Some i"
  proof -
    show "prev \<noteq> Some i" using l(2) by (auto simp: prev_def)
    show "ti_next x \<noteq> Some i" using x(2) l(2) by (cases bs) auto
  qed
  have K: "?K i = Some (x\<lparr>ti_session := 0\<rparr>)" using far by (simp add: relinked_outside)
  have run: "trace_switch s now p = Some p'"
  proof -
    have find: "trace_find ?H s None (tp_slot p ! ?h) = Some (Some (i, prev))"
      using trace_find_some [OF l(1) ab(2,3)] by (simp add: prev_def)
    have p_next: "\<exists>y. ?H q = Some y" if "prev = Some q" for q
      using tlist_heap [OF l(1), of q] that by (auto simp: prev_def split: if_splits)
    have n_next: "\<exists>y. ?H q = Some y" if "ti_next x = Some q" for q
      using x(2) that by (cases bs) (auto split: option.splits)
    show ?thesis
    proof (cases prev)
      case None
      then have as: "as = []" by (simp add: prev_def split: if_splits)
      show ?thesis
        using find idle s x(1) None as K n_next far
        by (cases "ti_next x") (auto simp: trace_switch_def set_info_def Let_def p'_def H'_def reprev_def renext_def)
    next
      case (Some q)
      then have as: "as \<noteq> []" by (simp add: prev_def split: if_splits)
      obtain y where y: "?H q = Some y" using p_next [OF Some] by blast
      show ?thesis
        using find idle s x(1) Some as K n_next far y
        by (cases "ti_next x") (auto simp: trace_switch_def set_info_def Let_def p'_def H'_def reprev_def renext_def)
    qed
  qed
  have info: "info_of p' j = (if j = i then Some (0, now, ti_time x) else info_of p j)" for j
    using K by (simp add: info_of_def p'_def H'_def relinked)
  have i_out: "i \<notin> set (ch' h)" if "h < TRACE_SLOTS" for h
    using that l(2) shape_slot(3) [OF shape that, of i] ab(3) by (auto simp: ch'_def)
  have outside: "H' j = ?H j" if "j \<notin> set (as @ i # bs)" for j
  proof -
    have "prev \<noteq> Some j" "ti_next x \<noteq> Some j" using that x(2) by (auto simp: prev_def) (cases bs; auto)+
    then show ?thesis using that by (simp add: H'_def relinked_outside)
  qed
  have session: "ti_session (the (H' j)) = ti_session (the (?H j))" if "j \<noteq> i" for j
    using session_info [of p' j p] info [of j] that by (simp add: p'_def)
  have "pool_shape p' ch'"
    unfolding pool_shape_def
  proof (intro conjI allI impI ballI)
    show "length (tp_slot p') = TRACE_SLOTS" using shape by (simp add: p'_def pool_shape_def)
    show "j < tp_fresh p'" if "tp_heap p' j \<noteq> None" for j
    proof -
      have "?H j \<noteq> None" using info [of j] that x(1) by (cases "j = i"; cases "?H j") (auto simp: info_of_def)
      then show ?thesis using shape by (simp add: pool_shape_def p'_def)
    qed
    fix h assume h: "h < TRACE_SLOTS"
    show "tlist (tp_heap p') None (tp_slot p' ! h) (ch' h)"
    proof (cases "h = ?h")
      case True
      have "tlist H' None (if as = [] then ti_next x else tp_slot p ! ?h) (as @ bs)"
        using tlist_remove [OF l x(1) prev_def] l(2)
        by (subst tlist_cong [of _ _ "reprev (ti_next x) prev (renext prev (ti_next x) ?H)"]) (auto simp: H'_def relinked_update)
      moreover have "trace_hash s < length (tp_slot p)" using shape trace_hash_less [of s] by (simp add: pool_shape_def)
      ultimately show ?thesis using True by (cases "as = []") (simp_all add: p'_def ch'_def)
    next
      case False
      have "\<forall>j \<in> set (ch h). H' j = ?H j"
      proof
        fix j assume "j \<in> set (ch h)"
        then have "j \<notin> set (as @ i # bs)" using shape_slot(3) [OF shape h, of j] slot(3) [of j] False ab(1) by auto
        then show "H' j = ?H j" by (rule outside)
      qed
      from tlist_cong [OF this] show ?thesis using shape_slot(1) [OF shape h] False by (simp add: p'_def ch'_def)
    qed
    show "distinct (ch' h)" using shape_slot(2) [OF shape h] l(2) by (auto simp: ch'_def)
    show "0 < sint (ti_session (the (tp_heap p' j)))" "trace_hash (ti_session (the (tp_heap p' j))) = h" if j: "j \<in> set (ch' h)" for j
    proof -
      have "j \<noteq> i" using j i_out [OF h] by auto
      moreover have "j \<in> set (ch h)" using j ab(1) by (auto simp: ch'_def split: if_splits)
      ultimately show "0 < sint (ti_session (the (tp_heap p' j)))" "trace_hash (ti_session (the (tp_heap p' j))) = h"
        using shape_slot(3) [OF shape h, of j] session by (simp_all add: p'_def)
    qed
  qed
  moreover have "waiting_for p' ch' u = (if u = s then rest else waiting_for p ch u)" for u
  proof -
    have "waiting_for p' ch' u = filter (\<lambda>j. ti_session (the (?H j)) = u) (ch' (trace_hash u))"
      unfolding waiting_for_def
    proof (rule filter_cong [OF refl])
      fix j assume "j \<in> set (ch' (trace_hash u))"
      then have "j \<noteq> i" using i_out [OF trace_hash_less] by auto
      then show "(ti_session (the (tp_heap p' j)) = u) = (ti_session (the (?H j)) = u)" using session by (simp add: p'_def)
    qed
    then show ?thesis using ab by (auto simp: ch'_def waiting_for_def)
  qed
  moreover have "info_of p i = Some (s, ti_start x, ti_time x)" using x(1) ab(3) by (simp add: info_of_def)
  ultimately show thesis using run info i_out by (intro that [of p' ch' "(ti_start x, ti_time x)"]) (simp_all add: p'_def)
qed

lemma trace_register_ok:
  assumes shape: "pool_shape p ch" and cur: "tp_current p = Some i" and i: "info_of p i = Some (0, st)"
    and out: "\<And>h. h < TRACE_SLOTS \<Longrightarrow> i \<notin> set (ch h)" and s: "0 < sint s"
  obtains p' ch' where "trace_register s p = Some p'" "tp_current p' = Some i" "pool_shape p' ch'" "info_of p' i = Some (s, st)"
    "\<And>j. j \<noteq> i \<Longrightarrow> info_of p' j = info_of p j" "\<And>u. waiting_for p' ch' u = (if u = s then i # waiting_for p ch s else waiting_for p ch u)"
proof -
  let ?h = "trace_hash s" and ?H = "tp_heap p"
  let ?head = "tp_slot p ! trace_hash s"
  obtain x where x: "?H i = Some x" "ti_session x = 0" "(ti_start x, ti_time x) = st"
    using i by (cases "?H i") (auto simp: info_of_def)
  note slot = shape_slot [OF shape trace_hash_less [of s]]
  define H' where "H' = reprev ?head (Some i) (?H(i \<mapsto> x\<lparr>ti_session := s, ti_prev := None, ti_next := ?head\<rparr>))"
  define p' where "p' = p\<lparr>tp_heap := H', tp_slot := (tp_slot p)[?h := Some i]\<rparr>"
  define ch' where "ch' = ch(?h := i # ch ?h)"
  have head: "?head = None \<and> ch ?h = [] \<or> (\<exists>k ks y. ?head = Some k \<and> ch ?h = k # ks \<and> ?H k = Some y)"
    using slot(1) by (cases "ch ?h") (auto split: option.splits)
  have far: "?head \<noteq> Some i" using head out [OF trace_hash_less, of s] by auto
  have run: "trace_register s p = Some p'"
    using head x far cur s by (auto simp: trace_register_def set_info_def Let_def p'_def H'_def reprev_def)
  have info: "info_of p' j = (if j = i then Some (s, st) else info_of p j)" for j
    using x(3) by (auto simp: info_of_def p'_def H'_def relinked)
  have session: "ti_session (the (H' j)) = ti_session (the (?H j))" if "j \<noteq> i" for j
    using session_info [of p' j p] info [of j] that by (simp add: p'_def)
  have outside: "H' j = ?H j" if "j \<noteq> i" "j \<notin> set (ch ?h)" for j
    using that head by (auto simp: H'_def reprev_def split: option.splits)
  have at_i: "H' i = Some (x\<lparr>ti_session := s, ti_prev := None, ti_next := ?head\<rparr>)" using far by (simp add: H'_def relinked_outside)
  have "pool_shape p' ch'"
    unfolding pool_shape_def
  proof (intro conjI allI impI ballI)
    show "length (tp_slot p') = TRACE_SLOTS" using shape by (simp add: p'_def pool_shape_def)
    show "j < tp_fresh p'" if "tp_heap p' j \<noteq> None" for j
    proof -
      have "?H j \<noteq> None" using info [of j] that x(1) by (cases "j = i"; cases "?H j") (auto simp: info_of_def)
      then show ?thesis using shape by (simp add: pool_shape_def p'_def)
    qed
    fix h assume h: "h < TRACE_SLOTS"
    show "tlist (tp_heap p') None (tp_slot p' ! h) (ch' h)"
    proof (cases "h = ?h")
      case True
      have "tlist (?H(i \<mapsto> x\<lparr>ti_session := s, ti_prev := None, ti_next := ?head\<rparr>)) None ?head (ch ?h)"
        using slot(1) out [OF trace_hash_less, of s] by (subst tlist_cong [of _ _ ?H]) auto
      then have "tlist H' (Some i) ?head (ch ?h)" unfolding H'_def using slot(2) by (rule tlist_reprev)
      then show ?thesis using True shape at_i trace_hash_less [of s] by (simp add: p'_def ch'_def pool_shape_def)
    next
      case False
      have "\<forall>j \<in> set (ch h). H' j = ?H j"
      proof
        fix j assume j: "j \<in> set (ch h)"
        then have "j \<notin> set (ch ?h)" "j \<noteq> i" using shape_slot(3) [OF shape h, of j] slot(3) [of j] False out [OF h] by auto
        then show "H' j = ?H j" by (intro outside)
      qed
      from tlist_cong [OF this] show ?thesis using shape_slot(1) [OF shape h] False by (simp add: p'_def ch'_def)
    qed
    show "distinct (ch' h)" using shape_slot(2) [OF shape h] out [OF h] by (auto simp: ch'_def)
    show "0 < sint (ti_session (the (tp_heap p' j)))" "trace_hash (ti_session (the (tp_heap p' j))) = h" if j: "j \<in> set (ch' h)" for j
      using j s shape_slot(3) [OF shape h, of j] session [of j] at_i out [OF h]
      by (cases "j = i"; auto simp: p'_def ch'_def split: if_splits)+
  qed
  moreover have "waiting_for p' ch' u = (if u = s then i # waiting_for p ch s else waiting_for p ch u)" for u
  proof -
    have "filter (\<lambda>j. ti_session (the (H' j)) = u) (ch (trace_hash u)) = waiting_for p ch u"
      unfolding waiting_for_def
    proof (rule filter_cong [OF refl])
      fix j assume "j \<in> set (ch (trace_hash u))"
      then have "j \<noteq> i" using out [OF trace_hash_less] by auto
      then show "(ti_session (the (H' j)) = u) = (ti_session (the (tp_heap p j)) = u)" using session by simp
    qed
    then show ?thesis using at_i unfolding waiting_for_def [of p' ch'] by (auto simp: ch'_def p'_def)
  qed
  ultimately show thesis using run info cur by (intro that [of p' ch']) (simp_all add: p'_def)
qed

lemma trace_yield_ok:
  assumes shape: "pool_shape p ch" and cur: "tp_current p = Some i" and i: "info_of p i = Some (s, st, tm)" "s \<noteq> 0"
    and time: "diff_time now st tm = Some tm'"
  obtains p' where "trace_yield now p = Some (None, p')" "tp_current p' = None" "pool_shape p' ch" "info_of p' i = Some (s, st, tm')"
    "\<And>j. j \<noteq> i \<Longrightarrow> info_of p' j = info_of p j" "\<And>u. waiting_for p' ch u = waiting_for p ch u"
proof -
  let ?H = "tp_heap p"
  obtain x where x: "?H i = Some x" "ti_session x = s" "ti_start x = st" "ti_time x = tm"
    using i by (cases "?H i") (auto simp: info_of_def)
  define p' where "p' = p\<lparr>tp_heap := ?H(i \<mapsto> x\<lparr>ti_time := tm'\<rparr>), tp_current := None\<rparr>"
  have "tlist (tp_heap p') q t is = tlist ?H q t is" for q t "is"
    using x(1) by (induction "is" arbitrary: q t) (auto simp: p'_def split: option.splits)
  moreover have session: "ti_session (the (tp_heap p' j)) = ti_session (the (?H j))" for j using x(1) by (simp add: p'_def)
  moreover have "?H j \<noteq> None" if "tp_heap p' j \<noteq> None" for j using that x(1) by (cases "j = i") (simp_all add: p'_def)
  ultimately have "pool_shape p' ch" using shape unfolding pool_shape_def by (simp add: p'_def [symmetric]) (simp add: p'_def)
  moreover have "trace_yield now p = Some (None, p')"
    using cur x i(2) time by (simp add: trace_yield_def set_info_def p'_def)
  moreover have "info_of p' j = (if j = i then Some (s, st, tm') else info_of p j)" for j
    using x by (simp add: info_of_def p'_def)
  moreover have "waiting_for p' ch u = waiting_for p ch u" for u by (simp add: waiting_for_def session)
  ultimately show thesis by (intro that [of p']) (simp_all add: p'_def)
qed

section \<open>A piece of a request\<close>

text \<open>
  C34: A request that waits with a session is resumed when the answer with that session arrives: the one
  that was registered last; when it registers for the next answer and the piece ends, it waits
  with the new session, its time has grown by exactly the time of the piece, and all other requests
  wait as before with the time they had.
\<close>

theorem trace_piece:
  assumes "pool_shape p ch" "tp_current p = None" "0 < sint s" "0 < sint s'" "waiting_for p ch s = i # rest"
    and "0 \<le> snd t0" "snd t0 < NANOSEC" "0 \<le> snd t1" "snd t1 < NANOSEC"
    and "(fst t0 = fst t1 \<and> snd t0 \<le> snd t1) \<or> (fst t0 < fst t1 \<and> fst t1 - fst t0 < 2 ^ 31 - 1)"
    and "info_of p i = Some (s, st, tm)" "uint (snd tm) \<le> NANOSEC" "uint (fst tm) + (fst t1 - fst t0) + 1 < 2 ^ 32"
  shows "\<exists>p1 p2 p3 ch3 tm'. trace_switch s t0 p = Some p1 \<and> trace_register s' p1 = Some p2 \<and> trace_yield t1 p2 = Some (None, p3) \<and>
    pool_shape p3 ch3 \<and> tp_current p3 = None \<and>
    waiting_for p3 ch3 = (let w = (waiting_for p ch)(s := rest) in w(s' := i # w s')) \<and>
    info_of p3 i = Some (s', t0, tm') \<and> uint (snd tm') \<le> NANOSEC \<and>
    nanoseconds tm' = nanoseconds tm + (fst t1 * NANOSEC + snd t1) - (fst t0 * NANOSEC + snd t0) \<and>
    (\<lambda>j. if j = i then None else info_of p3 j) = (\<lambda>j. if j = i then None else info_of p j)"
proof -
  obtain p1 ch1 x where 1: "trace_switch s t0 p = Some p1" "tp_current p1 = Some i" "pool_shape p1 ch1"
    "info_of p i = Some (s, x)" "info_of p1 i = Some (0, t0, snd x)" "\<And>j. j \<noteq> i \<Longrightarrow> info_of p1 j = info_of p j"
    "\<And>u. waiting_for p1 ch1 u = (if u = s then rest else waiting_for p ch u)" "\<And>h. h < TRACE_SLOTS \<Longrightarrow> i \<notin> set (ch1 h)"
    by (rule trace_switch_ok [where now = t0, OF assms(1-3,5)]) (rule that)
  have "snd x = tm" using 1(4) assms(11) by auto
  obtain p2 ch2 where 2: "trace_register s' p1 = Some p2" "tp_current p2 = Some i" "pool_shape p2 ch2" "info_of p2 i = Some (s', t0, snd x)"
    "\<And>j. j \<noteq> i \<Longrightarrow> info_of p2 j = info_of p1 j" "\<And>u. waiting_for p2 ch2 u = (if u = s' then i # waiting_for p1 ch1 s' else waiting_for p1 ch1 u)"
    by (rule trace_register_ok [OF 1(3,2,5,8) assms(4)]) (assumption, rule that)
  obtain tm' where tm': "diff_time t1 t0 tm = Some tm'" "uint (snd tm') \<le> NANOSEC"
    "nanoseconds tm' = nanoseconds tm + (fst t1 * NANOSEC + snd t1) - (fst t0 * NANOSEC + snd t0)"
    using diff_time_exact [OF assms(6-9) _ _ _ assms(12,13)] assms(10) by fastforce
  have "s' \<noteq> 0" using assms(4) by auto
  obtain p3 where 3: "trace_yield t1 p2 = Some (None, p3)" "tp_current p3 = None" "pool_shape p3 ch2" "info_of p3 i = Some (s', t0, tm')"
    "\<And>j. j \<noteq> i \<Longrightarrow> info_of p3 j = info_of p2 j" "\<And>u. waiting_for p3 ch2 u = waiting_for p2 ch2 u"
    by (rule trace_yield_ok [OF 2(3,2,4) \<open>s' \<noteq> 0\<close> tm'(1) [folded \<open>snd x = tm\<close>]]) (rule that)
  have "waiting_for p3 ch2 = (let w = (waiting_for p ch)(s := rest) in w(s' := i # w s'))"
    by (auto simp: fun_eq_iff 3(6) 2(6) 1(7) Let_def)
  moreover have "(\<lambda>j. if j = i then None else info_of p3 j) = (\<lambda>j. if j = i then None else info_of p j)"
    using 1(6) 2(5) 3(5) by auto
  ultimately show ?thesis using 1(1) 2(1) 3(1-4) tm'(2,3) by blast
qed

definition demo_trace :: trace_pool where
  "demo_trace = \<lparr>tp_current = None, tp_slot = (replicate 32 None)[5 := Some 0],
     tp_heap = [0 \<mapsto> \<lparr>ti_session = 5, ti_prev = None, ti_next = None, ti_start = (1, 0), ti_time = (2, 3)\<rparr>], tp_fresh = 1\<rparr>"

lemma demo_trace_shape: "pool_shape demo_trace (\<lambda>h. if h = 5 then [0] else [])"
  by (auto simp: pool_shape_def demo_trace_def TRACE_SLOTS_def trace_hash_def)

theorem trace_piece_witness:
  "\<exists>p1 p2 p3. trace_switch 5 (10, 7) demo_trace = Some p1 \<and> trace_register 6 p1 = Some p2 \<and> trace_yield (11, 2) p2 = Some (None, p3) \<and>
    map_option (\<lambda>x. nanoseconds (snd (snd x))) (info_of p3 0) = Some 2999999998"
proof -
  have "waiting_for demo_trace (\<lambda>h. if h = 5 then [0] else []) 5 = [0]"
    by (simp add: waiting_for_def demo_trace_def trace_hash_def TRACE_SLOTS_def)
  from trace_piece [OF demo_trace_shape _ _ _ this, of 6 "(10, 7)" "(11, 2)" "(1, 0)" "(2, 3)"]
  show ?thesis by (auto simp: demo_trace_def info_of_def nanoseconds_def NANOSEC_def)
qed

section \<open>Defects\<close>

text \<open>
  A pool that is released while the current request has registered frees it twice: it is in a list and
  current.
\<close>

lemma release_twice:
  "(let p = snd (trace_new (0, 0) trace_create) in do { p \<leftarrow> trace_register 1 p; trace_release p }) = None"
  by (simp add: trace_new_def trace_create_def trace_register_def set_info_def trace_release_def free_slot_chain.simps
      trace_free_def trace_hash_def TRACE_SLOTS_def numeral_eq_Suc Let_def)

text \<open>The nanoseconds can reach a whole second without being carried.\<close>

lemma nanoseconds_not_carried: "diff_time (0, 1) (0, 0) (0, 999999999) = Some (0, 1000000000)"
  by code_simp

end
