(* ===== verification/LuaService.thy ===== *)
theory LuaService
  imports Services SeriTyped
begin

text \<open>
  How Lua reaches the node: the interface functions of \<open>lualib-src/lua-skynet.c\<close> that send and command, and
  the service \<open>service-src/service_lua.c\<close> that runs a Lua program, from its start to the arguments of the
  program.  The arguments of an interface function are given after Lua has converted them; what the
  interpreter does itself (loading a file, running a function) is an argument.  Memory that may hold
  bytes after a NUL is a list of characters; reading past its end is \<open>None\<close>.
\<close>

unbundle bit_operations_syntax

section \<open>Sending from Lua\<close>

text \<open>The first argument of \<open>skynet.send\<close>, and its message.\<close>

datatype lua_address = Addr_number u32 | Addr_name string | Addr_other
datatype lua_data = Data_string string | Data_block payload i32 | Data_nil | Data_other

text \<open>The session: \<open>nil\<close> asks for a new one.\<close>

definition lua_session :: "i32 \<Rightarrow> i32 option \<Rightarrow> i32 \<times> i32" where
  "lua_session ty session = (case session of None \<Rightarrow> (ty OR PTYPE_TAG_ALLOCSESSION, 0) | Some s \<Rightarrow> (ty, s))"

definition session_result :: "i32 \<times> node \<Rightarrow> (string + i32) \<times> node" where
  "session_result sn = (case sn of (session, n) \<Rightarrow>
     (if sint session < 0 then Inl (''skynet.send session ('' @ sprintf_d session @ '') < 0'') else Inr session, n))"

definition lua_sendname ::
  "module_api \<Rightarrow> nat \<Rightarrow> string \<Rightarrow> i32 \<Rightarrow> i32 option \<Rightarrow> lua_data \<Rightarrow> node \<Rightarrow> ((string + i32) \<times> node) option" where
  "lua_sendname api c dest ty session data n = (case lua_session ty session of (ty, session) \<Rightarrow> (case data of
     Data_string s \<Rightarrow> map_option session_result (skynet_sendname api c dest ty session (PBytes s) (of_nat (length s)) n)
   | Data_nil \<Rightarrow> map_option session_result (skynet_sendname api c dest ty session PNull 0 n)
   | Data_block msg size' \<Rightarrow>
       map_option session_result (skynet_sendname api c dest (ty OR PTYPE_TAG_DONTCOPY) session msg (scast size') n)
   | Data_other \<Rightarrow> None))"

text \<open>The message of \<open>_send\<close> and \<open>_redirect\<close>: an empty string is a null pointer.\<close>

definition lua_send_data ::
  "module_api \<Rightarrow> nat \<Rightarrow> u32 \<Rightarrow> u32 \<Rightarrow> i32 \<Rightarrow> i32 \<Rightarrow> lua_data \<Rightarrow> node \<Rightarrow> ((string + i32) \<times> node) option" where
  "lua_send_data api c source dest ty session data n = (case data of
     Data_string s \<Rightarrow>
       map_option (map_prod Inr id)
         (skynet_send api c source dest ty session (if s = [] then PNull else PBytes s) (of_nat (length s)) n)
   | Data_block msg size' \<Rightarrow>
       map_option (map_prod Inr id) (skynet_send api c source dest (ty OR PTYPE_TAG_DONTCOPY) session msg (scast size') n)
   | _ \<Rightarrow> Some (Inl ''invalid param'', n))"

definition lua_send ::
  "module_api \<Rightarrow> nat \<Rightarrow> lua_address \<Rightarrow> i32 \<Rightarrow> i32 option \<Rightarrow> lua_data \<Rightarrow> node \<Rightarrow> ((string + i32) \<times> node) option" where
  "lua_send api c addr ty session data n =
     (let go = (\<lambda>dest n. case lua_session ty session of (ty, session) \<Rightarrow> do {
        (r, n) \<leftarrow> lua_send_data api c 0 dest ty session data n;
        Some (case r of Inl e \<Rightarrow> (Inl e, n) | Inr session \<Rightarrow> session_result (session, n))
      })
      in case addr of
        Addr_number dest \<Rightarrow> go dest n
      | Addr_name nm \<Rightarrow>
          if first_char nm = CHR ''.'' \<or> first_char nm = CHR '':'' then do {
            (dest, n) \<leftarrow> skynet_queryname api c nm n;
            if dest = 0 then Some (Inl (''Invalid name '' @ nm), n) else go dest n
          }
          else if isdigit (first_char nm)
          then Some (Inl (''Invalid name '' @ nm @ '': must not start with a digit''), n)
          else lua_sendname api c nm ty session data n
      | Addr_other \<Rightarrow> Some (Inl ''address must be number or string'', n))"

definition lua_redirect ::
  "module_api \<Rightarrow> nat \<Rightarrow> u32 \<Rightarrow> u32 \<Rightarrow> i32 \<Rightarrow> i32 \<Rightarrow> lua_data \<Rightarrow> node \<Rightarrow> ((string + unit) \<times> node) option" where
  "lua_redirect api c dest source ty session data n = do {
     (r, n) \<leftarrow> lua_send_data api c source dest ty session data n;
     Some (map_sum id (\<lambda>_. ()) r, n)
   }"

definition lua_genid :: "module_api \<Rightarrow> nat \<Rightarrow> node \<Rightarrow> (i32 \<times> node) option" where
  "lua_genid api c n = skynet_send api c 0 0 PTYPE_TAG_ALLOCSESSION 0 PNull 0 n"

definition lua_forward :: "nat \<Rightarrow> u32 \<Rightarrow> node \<Rightarrow> node option" where "lua_forward c dest n = skynet_forward c dest n"

definition lua_harbor :: "u32 \<Rightarrow> node \<Rightarrow> i32 \<times> bool" where
  "lua_harbor handle n = (case skynet_isremote handle n of (remote, h) \<Rightarrow> (h, remote))"

definition lua_tostring :: "payload \<Rightarrow> u64 \<Rightarrow> string option" where "lua_tostring msg sz = payload_bytes msg sz"

section \<open>Commands from Lua\<close>

text \<open>An \<open>int\<close> in memory.\<close>

definition int_bytes :: "nat \<Rightarrow> string" where "int_bytes v = map byte_to_char (le_bytes 4 v)"

definition int_at :: "string \<Rightarrow> int option" where
  "int_at mem = (if length mem < 4 then None
     else Some (sint (of_nat (le_val (map (\<lambda>c. of_nat (of_char c)) (take 4 mem))) :: i32)))"

text \<open>
  The parameter \<open>_command\<close> makes of the strings after the command and of further values, which only
  follow two strings: they are packed, with their size in front.
\<close>

definition command_parm ::
  "(lua_table \<Rightarrow> nat) \<Rightarrow> string \<Rightarrow> string list \<Rightarrow> lua_value list \<Rightarrow> (seri_error + string option) option" where
  "command_parm rawlen cmd args vs = (case args of
     [] \<Rightarrow> Some (Inr None)
   | [a] \<Rightarrow> Some (Inr (Some a))
   | a # b # _ \<Rightarrow>
       if vs = [] then do {
         c_assert (cmd = ''LAUNCH'');
         Some (Inr (Some (a @ '' '' @ b)))
       } else do {
         r \<leftarrow> luaseri_pack rawlen vs;
         Some (map_sum id (\<lambda>buffer. Some (a @ '' '' @ b @ '' '' @ int_bytes (length buffer) @ map byte_to_char buffer)) r)
       })"

definition lua_command ::
  "module_api \<Rightarrow> nat \<Rightarrow> (lua_table \<Rightarrow> nat) \<Rightarrow> string \<Rightarrow> string list \<Rightarrow> lua_value list \<Rightarrow> node \<Rightarrow>
   ((seri_error + string option) \<times> node) option" where
  "lua_command api c rawlen cmd args vs n = do {
     parm \<leftarrow> command_parm rawlen cmd args vs;
     case parm of
       Inl e \<Rightarrow> Some (Inl e, n)
     | Inr p \<Rightarrow> do {
         (result, n) \<leftarrow> skynet_command api c cmd p n;
         Some (Inr result, n)
       }
   }"

section \<open>The start of a Lua service\<close>

text \<open>
  The message \<open>snlua_init\<close> makes of its arguments in memory: the C string, or up to the end of the packed
  values when there is a space in it.
\<close>

definition plain_char :: "char \<Rightarrow> bool" where "plain_char ch \<longleftrightarrow> ch \<noteq> CHR '' '' \<and> ch \<noteq> CHR 0x00"

definition snlua_message :: "string \<Rightarrow> string option" where
  "snlua_message mem = (let nm = takeWhile plain_char mem in case drop (length nm) mem of
     [] \<Rightarrow> None
   | ch # parm \<Rightarrow>
       if ch = CHR 0x00 then Some (nm @ [ch])
       else do {
         len \<leftarrow> int_at parm;
         let sz = int (length nm + 1) + len + 4;
         c_assert (0 \<le> sz \<and> sz \<le> int (length mem));
         Some (take (nat sz) mem)
       })"

definition snlua_init :: "module_api \<Rightarrow> nat \<Rightarrow> nat \<Rightarrow> string \<Rightarrow> node \<Rightarrow> (int \<times> node) option" where
  "snlua_init api c launch mem n = do {
     msg \<leftarrow> snlua_message mem;
     n \<leftarrow> skynet_callback c (Some launch) n;
     (self, n) \<leftarrow> skynet_command api c ''REG'' None n;
     self \<leftarrow> self;
     (_, n) \<leftarrow> skynet_send api c 0 (ucast (strtoul16 (tl self))) PTYPE_TAG_DONTCOPY 0 (PBytes msg) (of_nat (length msg)) n;
     Some (0, n)
   }"

text \<open>\<open>strsep(filename, " \r\n")\<close> on the message: the nm of the program, and the memory behind it.\<close>

definition name_char :: "char \<Rightarrow> bool" where
  "name_char ch \<longleftrightarrow> ch \<noteq> CHR '' '' \<and> ch \<noteq> CHR 0x0D \<and> ch \<noteq> CHR 0x0A \<and> ch \<noteq> CHR 0x00"

definition service_name :: "string \<Rightarrow> (string \<times> string option) option" where
  "service_name msg = (let nm = takeWhile name_char msg in case drop (length nm) msg of
     [] \<Rightarrow> None
   | ch # parm \<Rightarrow> Some (nm, if ch = CHR 0x00 then None else Some parm))"

text \<open>The arguments of the program that \<open>_init\<close> unpacks.\<close>

definition service_arguments :: "(i32 \<Rightarrow> bool) \<Rightarrow> string option \<Rightarrow> (seri_error + lua_value list) option" where
  "service_arguments cached parm = (case parm of
     None \<Rightarrow> Some (Inr [])
   | Some mem \<Rightarrow> do {
       len \<leftarrow> int_at mem;
       let data = drop 4 mem;
       c_assert (0 \<le> len \<and> len \<le> int (length data));
       unpack_all cached (map (\<lambda>c. of_nat (of_char c)) (take (nat len) data))
     })"

section \<open>Finding the program\<close>

text \<open>The file of a service under one entry of the path; without a place for the name the process ends.\<close>

definition service_file :: "string \<Rightarrow> string \<Rightarrow> string option" where
  "service_file path nm = (case dropWhile (\<lambda>ch. ch \<noteq> CHR ''?'') path of
     [] \<Rightarrow> None
   | _ # rest \<Rightarrow> Some (takeWhile (\<lambda>ch. ch \<noteq> CHR ''?'') path @ nm @ rest))"

text \<open>The directory of the file, with its last slash: it becomes \<open>SERVICE_PATH\<close> and the front of \<open>package.path\<close>.\<close>

definition service_dir :: "string \<Rightarrow> string" where
  "service_dir file = rev (dropWhile (\<lambda>ch. ch \<noteq> CHR ''/'') (rev file))"

datatype load_result = Load_exit | Load_missing | Load_error string | Load_done string "(string \<times> string) option"

text \<open>\<open>_try_load\<close>: \<open>opens\<close> tells whether a file can be opened, \<open>loads\<close> whether Lua compiles it.\<close>

definition try_load :: "(string \<Rightarrow> bool) \<Rightarrow> (string \<Rightarrow> bool) \<Rightarrow> string \<Rightarrow> string \<Rightarrow> string \<Rightarrow> load_result" where
  "try_load opens loads package_path path nm = (case service_file path nm of
     None \<Rightarrow> Load_exit
   | Some file \<Rightarrow>
       if \<not> opens file then Load_missing
       else if \<not> loads file then Load_error file
       else Load_done file (if service_dir file = [] then None
              else Some (service_dir file, service_dir file @ ''?.lua;'' @ package_path)))"

text \<open>\<open>_load\<close>: the entries of the path in order, up to the first one whose file opens.\<close>

function load_service :: "(string \<Rightarrow> bool) \<Rightarrow> (string \<Rightarrow> bool) \<Rightarrow> string \<Rightarrow> string \<Rightarrow> string \<Rightarrow> load_result" where
  "load_service opens loads package_path nm path =
     (if path = [] then Load_missing
      else
        (let entry = takeWhile (\<lambda>ch. ch \<noteq> CHR '';'') path
         in case try_load opens loads package_path entry nm of
              Load_missing \<Rightarrow> load_service opens loads package_path nm (drop (length entry + 1) path)
            | r \<Rightarrow> r))"
  by pat_completeness auto
termination load_service
  by (relation "measure (\<lambda>(opens, loads, package_path, nm, path). length path)") auto

declare load_service.simps [simp del]

text \<open>\<open>_launch\<close>: the first message; \<open>failed\<close> is what \<open>_init\<close> returned.\<close>

definition snlua_launch :: "module_api \<Rightarrow> nat \<Rightarrow> bool \<Rightarrow> node \<Rightarrow> node option" where
  "snlua_launch api c failed n = do {
     n \<leftarrow> skynet_callback c None n;
     if failed then do {
       (_, n) \<leftarrow> skynet_sendname api c ''.launcher'' 0 0 (PBytes ''0'') 1 n;
       (_, n) \<leftarrow> skynet_command api c ''EXIT'' None n;
       Some n
     } else Some n
   }"

end
