(* ===== verification/LuaProps.thy ===== *)
theory LuaProps
  imports LuaService
begin

text \<open>
  The way of the arguments of a new Lua service, from \<open>skynet.newservice\<close> in one service to the program of the
  other, and the search for the program.
\<close>

unbundle bit_operations_syntax

lemma of_char_byte: "of_nat (of_char (byte_to_char (b :: u8))) = b"
proof -
  have "unat b < 2 ^ LENGTH(8)" by (rule unsigned_less)
  then have "unat b mod 256 = unat b" by simp
  then show ?thesis by (simp add: byte_to_char_def)
qed

lemma map_of_char_byte: "map (\<lambda>c. of_nat (of_char c)) (map byte_to_char (bs :: u8 list)) = bs"
  by (induction bs) (simp_all add: of_char_byte del: of_nat_of_char)

lemma length_int_bytes [simp]: "length (int_bytes v) = 4"
  by (simp add: int_bytes_def)

lemma int_at_bytes: "v < 2 ^ 31 \<Longrightarrow> int_at (int_bytes v @ mem) = Some (int v)"
  unfolding int_at_def int_bytes_def
  by (simp add: map_of_char_byte signed_of_nat signed_take_bit_int_eq_self del: map_map of_nat_of_char)

lemma takeWhile_name: "(\<And>c. c \<in> set nm \<Longrightarrow> P c) \<Longrightarrow> \<not> P d \<Longrightarrow> takeWhile P (nm @ d # rest) = nm"
  by (induction nm) auto

lemma launch_arguments:
  assumes "luaseri_pack rawlen vs = Some (Inr bytes)" "vs \<noteq> []" "length bytes < 2 ^ 30" "length nm < 2 ^ 30" "set nm \<subseteq> Collect name_char"
  shows "\<exists>args rest. command_parm rawlen ''LAUNCH'' [''snlua'', nm] vs = Some (Inr (Some (''snlua '' @ args))) \<and>
    strsep (''snlua '' @ args) = (''snlua'', Some args) \<and> snlua_message args = Some args \<and>
    service_name args = Some (nm, Some rest) \<and> service_arguments cached (Some rest) = unpack_all cached bytes"
proof (intro exI conjI)
  let ?rest = "int_bytes (length bytes) @ map byte_to_char bytes"
  let ?args = "nm @ CHR '' '' # ?rest"
  have len: "int_at (int_bytes (length bytes) @ mem) = Some (int (length bytes))" for mem
    using assms(3) by (intro int_at_bytes) simp
  have plain: "takeWhile plain_char ?args = nm" "takeWhile name_char ?args = nm"
    using assms(5) by (auto intro!: takeWhile_name simp: plain_char_def name_char_def)
  show "command_parm rawlen ''LAUNCH'' [''snlua'', nm] vs = Some (Inr (Some (''snlua '' @ ?args)))"
    using assms(1,2) by (simp add: command_parm_def)
  show "strsep (''snlua '' @ ?args) = (''snlua'', Some ?args)" by (simp add: strsep_def separator_def)
  show "snlua_message ?args = Some ?args"
    using plain(1) len by (simp add: snlua_message_def Let_def)
  show "service_name ?args = Some (nm, Some ?rest)" using plain(2) by (simp add: service_name_def Let_def)
  show "service_arguments cached (Some ?rest) = unpack_all cached bytes"
    using len map_of_char_byte [of bytes] by (simp add: service_arguments_def Let_def del: map_map of_nat_of_char) 
qed



section \<open>The search for the program\<close>

text \<open>The entries of a path that \<open>_load\<close> goes through: a last empty one is not one.\<close>

fun path_entries :: "string \<Rightarrow> string list" where
  "path_entries [] = []"
| "path_entries (ch # path) = (let rest = path_entries path in
     if ch = CHR '';'' then [] # rest
     else (case path of [] \<Rightarrow> [[ch]] | d # _ \<Rightarrow> (case rest of e # es \<Rightarrow> (ch # e) # es | [] \<Rightarrow> [[ch]])))"

lemma path_entries_Nil [simp]: "path_entries path = [] \<longleftrightarrow> path = []"
  by (cases path) (auto simp: Let_def split: list.splits)

lemma path_entries_step:
  "path \<noteq> [] \<Longrightarrow> path_entries path = takeWhile (\<lambda>ch. ch \<noteq> CHR '';'') path #
     path_entries (drop (length (takeWhile (\<lambda>ch. ch \<noteq> CHR '';'') path) + 1) path)"
proof (induction path)
  case (Cons ch path)
  show ?case
  proof (cases path)
    case (Cons d ds)
    then show ?thesis using Cons.IH by (auto simp: Let_def split: list.splits)
  qed (simp add: Let_def)
qed simp

text \<open>The first entry whose file opens decides; a bad entry in front of it ends the process.\<close>

fun first_program :: "(string \<Rightarrow> bool) \<Rightarrow> string \<Rightarrow> string list \<Rightarrow> string option option" where
  "first_program opens nm [] = Some None"
| "first_program opens nm (e # es) = do {
     file \<leftarrow> service_file e nm;
     if opens file then Some (Some file) else first_program opens nm es
   }"

text \<open>
  The program of a Lua service is searched for along the path as documented.  The templates between the
  semicolons are tried in order, with the name for the first question mark; the first file that opens is
  the one that is loaded, also when it does not compile; the search reports a missing file only when no
  template gives a file that opens, and a template without a question mark in front of it ends the
  process.
\<close>

theorem load_service_correct:
  "load_service opens loads package_path nm path = (case first_program opens nm (path_entries path) of
     None \<Rightarrow> Load_exit
   | Some None \<Rightarrow> Load_missing
   | Some (Some file) \<Rightarrow> if loads file
       then Load_done file (if service_dir file = [] then None
         else Some (service_dir file, service_dir file @ ''?.lua;'' @ package_path))
       else Load_error file)"
proof (induction opens loads package_path nm path rule: load_service.induct)
  case (1 opens loads package_path nm path)
  show ?case
  proof (cases "path = []")
    case False
    then show ?thesis using 1
      by (subst load_service.simps) (auto simp: path_entries_step try_load_def Let_def split: option.splits)
  qed (simp add: load_service.simps)
qed

text \<open>The length of the packed values is read from plain text when the name is followed by a space.\<close>

lemma plain_arguments_length: "snlua_message (''main.lua 1'' @ [CHR 0x00]) = None"
  by (simp add: snlua_message_def plain_char_def int_at_def)

lemma plain_arguments_huge: "snlua_message (''main.lua 1234'' @ [CHR 0x00]) = None"
  by (simp add: snlua_message_def plain_char_def int_at_def c_assert_def Let_def)

text \<open>\<open>_sendname\<close> takes \<open>nil\<close> for an empty message, \<open>_send\<close> to any other address does not.\<close>

lemma send_nil_differs:
  "lua_send api c (Addr_number dest) ty (Some s) Data_nil n = Some (Inl ''invalid param'', n)"
  "first_char nm = CHR ''a'' \<Longrightarrow> lua_send api c (Addr_name nm) ty (Some s) Data_nil n =
     map_option session_result (skynet_sendname api c nm ty s PNull 0 n)"
  by (simp_all add: lua_send_def lua_session_def lua_send_data_def lua_sendname_def isdigit_def)

end
