(* ===== verification/PbWire.thy ===== *)
theory PbWire
  imports PbArray
begin

text \<open>
  \<open>lua-protobuf/context.c\<close>: a message taken apart.  The bytes of the message are a list; a pointer into it is
  an offset.  \<open>temp\<close> is the array of ten bytes on the stack into which the end of the message is copied, with
  whatever was in it before.  \<open>None\<close> is an access outside of an array, or undefined behaviour of the decoder.
\<close>

unbundle bit_operations_syntax

section \<open>One field\<close>

definition WT_VARINT :: u32 where "WT_VARINT = 0"
definition WT_BIT64 :: u32 where "WT_BIT64 = 1"
definition WT_LEND :: u32 where "WT_LEND = 2"
definition WT_BIT32 :: u32 where "WT_BIT32 = 5"

lemmas wt_defs = WT_VARINT_def WT_BIT64_def WT_LEND_def WT_BIT32_def

text \<open>\<open>struct atom\<close>; the union has a slice after \<open>WT_LEND\<close>, a number otherwise.\<close>

datatype atom_v = A_slice i32 i32 | A_integer longlong

record atom =
  wire_id :: u32
  at_v :: atom_v

definition le_word :: "u8 list \<Rightarrow> u32" where
  "le_word bs = ucast (bs ! 0) OR push_bit 8 (ucast (bs ! 1)) OR push_bit 16 (ucast (bs ! 2)) OR push_bit 24 (ucast (bs ! 3))"

text \<open>A number at an offset with \<open>cap\<close> bytes left: with fewer than ten they are copied first.\<close>

definition varint_at :: "u8 list \<Rightarrow> u8 list \<Rightarrow> nat \<Rightarrow> i32 \<Rightarrow> (u8 list \<times> nat \<times> longlong) option" where
  "varint_at temp mem pos cap =
     (if 10 \<le> sint cap then do {
        c_assert (pos + 10 \<le> length mem);
        (len, r) \<leftarrow> decode (drop pos mem);
        Some (temp, len, r)
      } else do {
        c_assert (0 \<le> sint cap \<and> pos + nat (sint cap) \<le> length mem);
        let temp = take (nat (sint cap)) (drop pos mem) @ drop (nat (sint cap)) temp;
        (len, r) \<leftarrow> decode temp;
        Some (temp, len, r)
      })"

text \<open>The switch of \<open>wiretype_decode\<close>, behind the key: the value and its length, \<open>Some None\<close> is the null pointer.\<close>

definition decode_payload :: "u8 list \<Rightarrow> u8 list \<Rightarrow> u32 \<Rightarrow> nat \<Rightarrow> i32 \<Rightarrow> i32 \<Rightarrow> (atom_v \<times> nat) option option" where
  "decode_payload temp mem wiretype pos cap start =
     (if wiretype = WT_VARINT then do {
        (temp, len, v) \<leftarrow> varint_at temp mem pos cap;
        if sint cap < 10 \<and> sint cap < int len then Some None else Some (Some (A_integer v, len))
      }
      else if wiretype = WT_BIT64 then
        if sint cap < 8 then Some None
        else do {
          c_assert (pos + 8 \<le> length mem);
          Some (Some (A_integer \<lparr>low = le_word (drop pos mem), hi = le_word (drop (pos + 4) mem)\<rparr>, 8))
        }
      else if wiretype = WT_LEND then do {
        (temp, len, r) \<leftarrow> varint_at temp mem pos cap;
        if cap < of_nat len + low r \<or> hi r \<noteq> 0 then Some None
        else Some (Some (A_slice (start + of_nat len) (start + of_nat len + low r), len + unat (low r)))
      }
      else if wiretype = WT_BIT32 then
        if sint cap < 4 then Some None
        else do {
          c_assert (pos + 4 \<le> length mem);
          Some (Some (A_integer \<lparr>low = le_word (drop pos mem), hi = 0\<rparr>, 4))
        }
      else Some None)"

definition wiretype_decode :: "u8 list \<Rightarrow> u8 list \<Rightarrow> nat \<Rightarrow> i32 \<Rightarrow> i32 \<Rightarrow> (atom \<times> nat) option option" where
  "wiretype_decode temp mem pos cap start = do {
     (temp, len, r) \<leftarrow> varint_at temp mem pos cap;
     if (sint cap < 10 \<and> sint cap < int len) \<or> hi r \<noteq> 0 then Some None
     else do {
       v \<leftarrow> decode_payload temp mem (low r AND 7) (pos + len) (cap - of_nat len) (start + of_nat len);
       Some (map_option (\<lambda>(v, l). (\<lparr>wire_id = low r, at_v = v\<rparr>, len + l)) v)
     }
   }"

section \<open>A whole message\<close>

text \<open>A context has 256 bytes, of which the structure takes 24; an atom takes 12.\<close>

definition INNER_ATOM :: nat where "INNER_ATOM = (256 - 24) div 12"

text \<open>\<open>ctx->a\<close> leads to the atoms inside the context or to allocated ones; a cell without an atom has not been written.\<close>

record pbc_context =
  cx_number :: i32
  cx_a :: "atom option list"

text \<open>
  The loops of \<open>_pbcC_open\<close>, from offset \<open>pos\<close> with the atoms read so far: they return what they have and
  whether the next field was bad.
\<close>

function open_inner ::
  "u8 list \<Rightarrow> u8 list \<Rightarrow> nat \<Rightarrow> i32 \<Rightarrow> i32 \<Rightarrow> atom list \<Rightarrow> (bool \<times> nat \<times> i32 \<times> i32 \<times> atom list) option" where
  "open_inner temp mem pos size' start as =
     (if INNER_ATOM \<le> length as \<or> size' = 0 then Some (False, pos, size', start, as)
      else do {
        r \<leftarrow> wiretype_decode temp mem pos size' start;
        case r of
          None \<Rightarrow> Some (True, pos, size', start, as)
        | Some (a, adv) \<Rightarrow> open_inner temp mem (pos + adv) (size' - of_nat adv) (start + of_nat adv) (as @ [a])
      })"
  by pat_completeness auto
termination open_inner by (relation "measure (\<lambda>(_, _, _, _, _, as). INNER_ATOM - length as)") auto

declare open_inner.simps [simp del]

partial_function (option) open_heap ::
  "u8 list \<Rightarrow> u8 list \<Rightarrow> nat \<Rightarrow> i32 \<Rightarrow> i32 \<Rightarrow> nat \<Rightarrow> atom option list \<Rightarrow> (bool \<times> nat \<times> atom option list) option" where
  "open_heap temp mem pos size' start i a =
     (if sint size' \<le> 0 then Some (False, i, a)
      else if length a \<le> i then open_heap temp mem pos size' start i (a @ replicate 64 None)
      else do {
        r \<leftarrow> wiretype_decode temp mem pos size' start;
        if r = None then Some (True, i, a)
        else (case the r of (x, adv) \<Rightarrow>
          open_heap temp mem (pos + adv) (size' - of_nat adv) (start + of_nat adv) (i + 1) (a[i := Some x]))
      })"

text \<open>
  \<open>_pbcC_open\<close>: the result is the number of atoms, or its negation when the message is bad; the number
  of the context is only set when it is good.
\<close>

definition pbcC_open :: "u8 list \<Rightarrow> u8 list option \<Rightarrow> i32 \<Rightarrow> pbc_context \<Rightarrow> (i32 \<times> pbc_context) option" where
  "pbcC_open temp buffer size' ctx =
     (if buffer = None \<or> size' = 0 then Some (0, ctx\<lparr>cx_number := 0, cx_a := []\<rparr>)
      else do {
        (bad, pos, size', start, as) \<leftarrow> open_inner temp (the buffer) 0 size' 0 [];
        let i = length as;
        let inner = map Some as @ replicate (INNER_ATOM - i) None;
        if bad then Some (- of_nat i, ctx\<lparr>cx_a := inner\<rparr>)
        else if 0 < sint size' then do {
          (bad, i, a) \<leftarrow> open_heap temp (the buffer) pos size' start i (replicate 64 None);
          if bad then Some (- of_nat i, ctx\<lparr>cx_a := a\<rparr>)
          else Some (of_nat i, ctx\<lparr>cx_number := of_nat i, cx_a := inner @ drop INNER_ATOM a\<rparr>)
        }
        else Some (of_nat i, ctx\<lparr>cx_number := of_nat i, cx_a := inner\<rparr>)
      })"

section \<open>Packed fields\<close>

definition PTYPE_DOUBLE :: nat where "PTYPE_DOUBLE = 1"
definition PTYPE_FLOAT :: nat where "PTYPE_FLOAT = 2"
definition PTYPE_INT64 :: nat where "PTYPE_INT64 = 3"
definition PTYPE_UINT64 :: nat where "PTYPE_UINT64 = 4"
definition PTYPE_INT32 :: nat where "PTYPE_INT32 = 5"
definition PTYPE_FIXED64 :: nat where "PTYPE_FIXED64 = 6"
definition PTYPE_FIXED32 :: nat where "PTYPE_FIXED32 = 7"
definition PTYPE_BOOL :: nat where "PTYPE_BOOL = 8"
definition PTYPE_STRING :: nat where "PTYPE_STRING = 9"
definition PTYPE_MESSAGE :: nat where "PTYPE_MESSAGE = 11"
definition PTYPE_BYTES :: nat where "PTYPE_BYTES = 12"
definition PTYPE_UINT32 :: nat where "PTYPE_UINT32 = 13"
definition PTYPE_ENUM :: nat where "PTYPE_ENUM = 14"
definition PTYPE_SFIXED32 :: nat where "PTYPE_SFIXED32 = 15"
definition PTYPE_SFIXED64 :: nat where "PTYPE_SFIXED64 = 16"
definition PTYPE_SINT32 :: nat where "PTYPE_SINT32 = 17"
definition PTYPE_SINT64 :: nat where "PTYPE_SINT64 = 18"

lemmas ptype_defs = PTYPE_DOUBLE_def PTYPE_FLOAT_def PTYPE_INT64_def PTYPE_UINT64_def PTYPE_INT32_def PTYPE_FIXED64_def
  PTYPE_FIXED32_def PTYPE_BOOL_def PTYPE_STRING_def PTYPE_MESSAGE_def PTYPE_BYTES_def PTYPE_UINT32_def PTYPE_ENUM_def
  PTYPE_SFIXED32_def PTYPE_SFIXED64_def PTYPE_SINT32_def PTYPE_SINT64_def

text \<open>\<open>_decode_varint\<close>: the length is not compared with what is left.\<close>

definition decode_varint :: "u8 list \<Rightarrow> u8 list \<Rightarrow> nat \<Rightarrow> i32 \<Rightarrow> (atom \<times> nat) option" where
  "decode_varint temp mem pos size' = do {
     (temp, len, v) \<leftarrow> varint_at temp mem pos size';
     Some (\<lparr>wire_id = WT_VARINT, at_v = A_integer v\<rparr>, len)
   }"

function packed_inner :: "u8 list \<Rightarrow> u8 list \<Rightarrow> nat \<Rightarrow> i32 \<Rightarrow> atom list \<Rightarrow> (nat \<times> i32 \<times> atom list) option" where
  "packed_inner temp mem pos size' as =
     (if INNER_ATOM \<le> length as \<or> size' = 0 then Some (pos, size', as)
      else do {
        (a, len) \<leftarrow> decode_varint temp mem pos size';
        packed_inner temp mem (pos + len) (size' - of_nat len) (as @ [a])
      })"
  by pat_completeness auto
termination packed_inner by (relation "measure (\<lambda>(_, _, _, _, as). INNER_ATOM - length as)") auto

declare packed_inner.simps [simp del]

text \<open>
  The second loop writes to \<open>a[i]\<close>, which are the atoms inside the context: behind the last of them there is no
  memory of the context.
\<close>

partial_function (option) packed_heap ::
  "u8 list \<Rightarrow> u8 list \<Rightarrow> nat \<Rightarrow> i32 \<Rightarrow> nat \<Rightarrow> atom option list \<Rightarrow> atom option list \<Rightarrow>
   (nat \<times> atom option list \<times> atom option list) option" where
  "packed_heap temp mem pos size' i inner a =
     (if sint size' \<le> 0 then Some (i, inner, a)
      else if length a \<le> i then packed_heap temp mem pos size' i inner (a @ replicate 64 None)
      else do {
        (x, len) \<leftarrow> decode_varint temp mem pos size';
        c_assert (i < length inner);
        packed_heap temp mem (pos + len) (size' - of_nat len) (i + 1) (inner[i := Some x]) a
      })"

definition open_packed_varint :: "u8 list \<Rightarrow> u8 list \<Rightarrow> i32 \<Rightarrow> pbc_context \<Rightarrow> (i32 \<times> pbc_context) option" where
  "open_packed_varint temp mem size' ctx = do {
     (pos, size', as) \<leftarrow> packed_inner temp mem 0 size' [];
     let inner = map Some as @ replicate (INNER_ATOM - length as) None;
     if size' = 0 then Some (of_nat (length as), ctx\<lparr>cx_number := of_nat (length as), cx_a := inner\<rparr>)
     else do {
       (i, inner, a) \<leftarrow> packed_heap temp mem pos size' (length as) inner (replicate 64 None);
       Some (of_nat i, ctx\<lparr>cx_number := of_nat i, cx_a := inner @ drop INNER_ATOM a\<rparr>)
     }
   }"

definition packed_atoms64 :: "u8 list \<Rightarrow> nat \<Rightarrow> atom list" where
  "packed_atoms64 mem n = map (\<lambda>i. \<lparr>wire_id = WT_BIT64,
     at_v = A_integer \<lparr>low = le_word (drop (8 * i) mem), hi = le_word (drop (8 * i + 4) mem)\<rparr>\<rparr>) [0..<n]"

definition packed_atoms32 :: "u8 list \<Rightarrow> nat \<Rightarrow> atom list" where
  "packed_atoms32 mem n = map (\<lambda>i. \<lparr>wire_id = WT_BIT32, at_v = A_integer \<lparr>low = le_word (drop (4 * i) mem), hi = 0\<rparr>\<rparr>) [0..<n]"

definition pbcC_open_packed :: "u8 list \<Rightarrow> nat \<Rightarrow> u8 list option \<Rightarrow> i32 \<Rightarrow> pbc_context \<Rightarrow> (i32 \<times> pbc_context) option" where
  "pbcC_open_packed temp ptype buffer size' ctx =
     (let ctx = ctx\<lparr>cx_number := 0, cx_a := []\<rparr> in
      if buffer = None \<or> size' = 0 then Some (0, ctx)
      else if ptype \<in> {PTYPE_INT64, PTYPE_UINT64, PTYPE_INT32, PTYPE_BOOL, PTYPE_UINT32, PTYPE_ENUM, PTYPE_SINT32, PTYPE_SINT64}
      then open_packed_varint temp (the buffer) size' ctx
      else if ptype \<in> {PTYPE_DOUBLE, PTYPE_FIXED64, PTYPE_SFIXED64, PTYPE_FLOAT, PTYPE_FIXED32, PTYPE_SFIXED32} then do {
        let k = (if ptype \<in> {PTYPE_DOUBLE, PTYPE_FIXED64, PTYPE_SFIXED64} then 8 else 4);
        let number = (if 0 \<le> sint size' then sint size' div k else - (- sint size' div k));
        let n = nat number;
        c_assert (nat k * n \<le> length (the buffer));
        let as = (if k = 8 then packed_atoms64 (the buffer) n else packed_atoms32 (the buffer) n);
        Some (of_int number, ctx\<lparr>cx_number := of_int number, cx_a := map Some as @ replicate (INNER_ATOM - n) None\<rparr>)
      }
      else Some (0, ctx))"

end
