(* ===== verification/PbWmessage.thy ===== *)
theory PbWmessage
  imports PbWire PbMap LuaNumber
begin

text \<open>
  \<open>lua-protobuf/wmessage.c\<close>: messages that are written.  A message has a buffer that grows, arrays of the
  values of its packed fields, and its sub-messages, which are appended when the buffer is taken.
  Messages and packed arrays have addresses, since the caller keeps the ones of sub-messages.  The
  schema is the record \<open>pbc_env\<close>, with the hash tables of the field names.  \<open>None\<close> is a write behind the end
  of the buffer, a read behind the end of a string, of a cell never written, or an \<open>int\<close> that
  overflows.  The conversion of a \<open>double\<close> to a \<open>float\<close> is the argument \<open>to_float\<close>.
\<close>

unbundle bit_operations_syntax

section \<open>Schema and messages\<close>

definition LABEL_OPTIONAL :: nat where "LABEL_OPTIONAL = 0"
definition LABEL_PACKED :: nat where "LABEL_PACKED = 3"

text \<open>The default of a field: the bits of a number, the number and name of an enumeration, or a string and its length.\<close>

datatype default_v = D_number u64 | D_enum u32 string | D_string string i32

record pbc_field =
  fd_id :: u32
  fd_type :: nat
  fd_label :: nat
  fd_default :: default_v
  fd_enum :: "si_slot list"
  fd_message :: nat

record pbc_env =
  pe_names :: "nat \<Rightarrow> nat map_sp"
  pe_fields :: "nat \<Rightarrow> pbc_field"

record pbc_packed =
  pk_id :: u32
  pk_ptype :: nat
  pk_data :: pbc_array

record pbc_wmessage =
  wm_type :: nat
  wm_buffer :: "u8 option list"
  wm_ptr :: nat
  wm_sub :: pbc_array
  wm_packed :: "nat map_sp option"

record pbc_world =
  ww_messages :: "pbc_wmessage list"
  ww_packed :: "pbc_packed list"
  ww_error :: string

definition WMESSAGE_SIZE :: nat where "WMESSAGE_SIZE = 64"

definition wmessage_new :: "nat \<Rightarrow> pbc_world \<Rightarrow> nat \<times> pbc_world" where
  "wmessage_new type w = (length (ww_messages w), w\<lparr>ww_messages := ww_messages w @
     [\<lparr>wm_type = type, wm_buffer = replicate WMESSAGE_SIZE None, wm_ptr = 0, wm_sub = array_open_heap, wm_packed = None\<rparr>]\<rparr>)"

section \<open>The buffer\<close>

text \<open>\<open>do cap = cap * 2; while (sz > cap);\<close>\<close>

function expand_cap :: "nat \<Rightarrow> nat \<Rightarrow> nat option" where
  "expand_cap sz cap =
     (if cap = 0 \<or> 2 ^ 31 \<le> cap * 2 then None
      else if cap * 2 < sz then expand_cap sz (cap * 2) else Some (cap * 2))"
  by pat_completeness auto
termination expand_cap
proof (relation "measure (\<lambda>(_, cap). 2 ^ 31 - cap)")
  fix sz cap :: nat
  assume "\<not> (cap = 0 \<or> 2 ^ 31 \<le> cap * 2)"
  then have "2 ^ 31 - cap * 2 < 2 ^ 31 - cap" by (intro diff_less_mono2) linarith+
  then show "((sz, cap * 2), sz, cap) \<in> measure (\<lambda>(_, cap). 2 ^ 31 - cap)" by simp
qed simp

declare expand_cap.simps [simp del]

definition expand :: "nat \<Rightarrow> pbc_wmessage \<Rightarrow> pbc_wmessage option" where
  "expand sz m =
     (if length (wm_buffer m) < wm_ptr m + sz then do {
        cap \<leftarrow> expand_cap (wm_ptr m + sz) (length (wm_buffer m));
        Some (m\<lparr>wm_buffer := take (wm_ptr m) (wm_buffer m) @ replicate (cap - wm_ptr m) None\<rparr>)
      } else Some m)"

text \<open>Bytes written at an offset, and at the end, which moves.\<close>

definition write_at :: "nat \<Rightarrow> u8 list \<Rightarrow> pbc_wmessage \<Rightarrow> pbc_wmessage option" where
  "write_at i bs m = (if length (wm_buffer m) < i + length bs then None
     else Some (m\<lparr>wm_buffer := take i (wm_buffer m) @ map Some bs @ drop (i + length bs) (wm_buffer m)\<rparr>))"

definition wput :: "u8 list \<Rightarrow> pbc_wmessage \<Rightarrow> pbc_wmessage option" where
  "wput bs m = map_option (\<lambda>m. m\<lparr>wm_ptr := wm_ptr m + length bs\<rparr>) (write_at (wm_ptr m) bs m)"

definition int32_encode :: "u32 \<Rightarrow> u8 list" where
  "int32_encode v = map (\<lambda>k. ucast (drop_bit k v AND 0xff)) [0, 8, 16, 24]"

definition int64_encode :: "u32 \<Rightarrow> u32 \<Rightarrow> u8 list" where "int64_encode l h = int32_encode l @ int32_encode h"

definition double_encode :: "double \<Rightarrow> u8 list" where
  "double_encode v = map (\<lambda>k. ucast (drop_bit k v AND 0xff)) [0, 8, 16, 24, 32, 40, 48, 56]"

definition float_encode :: "u32 \<Rightarrow> u8 list" where "float_encode v = int32_encode v"

definition join :: "u32 \<Rightarrow> u32 \<Rightarrow> u64" where "join l h = ucast l OR push_bit 32 (ucast h)"

section \<open>Strings in memory\<close>

text \<open>\<open>strlen\<close>, \<open>strcmp(v, s) == 0\<close> and \<open>strncmp(v, s, len) == 0\<close> for memory \<open>v\<close> and a C string \<open>s\<close>.\<close>

definition mem_strlen :: "string \<Rightarrow> nat option" where
  "mem_strlen v = (if CHR 0x00 \<in> set v then Some (length (takeWhile (\<lambda>ch. ch \<noteq> CHR 0x00) v)) else None)"

fun mem_strcmp :: "string \<Rightarrow> string \<Rightarrow> bool option" where
  "mem_strcmp [] s = None"
| "mem_strcmp (c # v) [] = Some (c = CHR 0x00)"
| "mem_strcmp (c # v) (d # s) = (if c = d then mem_strcmp v s else Some False)"

fun mem_strncmp :: "nat \<Rightarrow> string \<Rightarrow> string \<Rightarrow> bool option" where
  "mem_strncmp 0 v s = Some True"
| "mem_strncmp (Suc n) [] s = None"
| "mem_strncmp (Suc n) (c # v) [] = Some (c = CHR 0x00)"
| "mem_strncmp (Suc n) (c # v) (d # s) = (if c = d then mem_strncmp n v s else Some False)"

definition char_at :: "string \<Rightarrow> nat \<Rightarrow> char option" where "char_at v i = (if i < length v then Some (v ! i) else None)"

text \<open>The name of a value of an enumeration: a terminated copy when the string is not terminated after \<open>len\<close>.\<close>

definition enum_name :: "bool \<Rightarrow> nat \<Rightarrow> string \<Rightarrow> string option" where
  "enum_name varlen len v = do {
     copy \<leftarrow> (if \<not> varlen then Some True else map_option (\<lambda>ch. ch \<noteq> CHR 0x00) (char_at v len));
     let v = (if copy then take len v @ [CHR 0x00] else v);
     c_assert (copy \<longrightarrow> len + 1 \<le> length v);
     n \<leftarrow> mem_strlen v;
     Some (take n v)
   }"

section \<open>Writing fields\<close>

definition set_message :: "nat \<Rightarrow> pbc_wmessage \<Rightarrow> pbc_world \<Rightarrow> pbc_world" where
  "set_message i m w = w\<lparr>ww_messages := (ww_messages w)[i := m]\<rparr>"

definition find_field :: "pbc_env \<Rightarrow> pbc_wmessage \<Rightarrow> string \<Rightarrow> nat option option" where
  "find_field env m key = sp_query (pe_names env (wm_type m)) key"

text \<open>\<open>_get_packed\<close>: the address of the array of a packed field.\<close>

definition get_packed :: "pbc_field \<Rightarrow> string \<Rightarrow> nat \<Rightarrow> pbc_world \<Rightarrow> (nat \<times> pbc_world) option" where
  "get_packed f key i w = do {
     c_assert (i < length (ww_messages w));
     let m = ww_messages w ! i;
     let packed = (case wm_packed m of None \<Rightarrow> sp_new 4 | Some packed \<Rightarrow> packed);
     (j, packed) \<leftarrow> sp_query_insert key packed;
     let slot = sp_slots packed ! j;
     case sp_pointer slot of
       Some p \<Rightarrow> Some (p, set_message i (m\<lparr>wm_packed := Some packed\<rparr>) w)
     | None \<Rightarrow>
         (let p = length (ww_packed w);
              packed = packed\<lparr>sp_slots := (sp_slots packed)[j := slot\<lparr>sp_pointer := Some p\<rparr>]\<rparr>
          in Some (p, set_message i (m\<lparr>wm_packed := Some packed\<rparr>)
               (w\<lparr>ww_packed := ww_packed w @ [\<lparr>pk_id = fd_id f, pk_ptype = fd_type f, pk_data = array_open_heap\<rparr>]\<rparr>)))
   }"

definition packed_push :: "pbc_field \<Rightarrow> string \<Rightarrow> pbc_var \<Rightarrow> nat \<Rightarrow> pbc_world \<Rightarrow> pbc_world option" where
  "packed_push f key var i w = do {
     (p, w) \<leftarrow> get_packed f key i w;
     let packed = ww_packed w ! p;
     data \<leftarrow> array_push var (pk_data packed);
     Some (w\<lparr>ww_packed := (ww_packed w)[p := packed\<lparr>pk_data := data\<rparr>]\<rparr>)
   }"

definition packed_integer :: "pbc_field \<Rightarrow> string \<Rightarrow> u32 \<Rightarrow> u32 \<Rightarrow> nat \<Rightarrow> pbc_world \<Rightarrow> pbc_world option" where
  "packed_integer f key l h i w = packed_push f key (V_integer \<lparr>low = l, hi = h\<rparr>) i w"

definition packed_real :: "pbc_field \<Rightarrow> string \<Rightarrow> double \<Rightarrow> nat \<Rightarrow> pbc_world \<Rightarrow> pbc_world option" where
  "packed_real f key v i w = packed_push f key (V_real v) i w"

text \<open>What the switch of \<open>pbc_wmessage_integer\<close> writes: the type of the wire and the bytes behind the key.\<close>

definition integer_bytes :: "nat \<Rightarrow> u32 \<Rightarrow> u32 \<Rightarrow> (u32 \<times> u8 list) option" where
  "integer_bytes ty l h =
     (if ty \<in> {PTYPE_INT64, PTYPE_UINT64, PTYPE_INT32} then Some (WT_VARINT, encode (join l h))
      else if ty \<in> {PTYPE_UINT32, PTYPE_ENUM, PTYPE_BOOL} then Some (WT_VARINT, encode32 l)
      else if ty \<in> {PTYPE_FIXED64, PTYPE_SFIXED64} then Some (WT_BIT64, int64_encode l h)
      else if ty \<in> {PTYPE_FIXED32, PTYPE_SFIXED32} then Some (WT_BIT32, int32_encode l)
      else if ty = PTYPE_SINT32 then Some (WT_VARINT, zigzag32 l)
      else if ty = PTYPE_SINT64 then Some (WT_VARINT, zigzag (join l h))
      else None)"

text \<open>A key and what follows it.\<close>

definition write_field :: "pbc_field \<Rightarrow> (u32 \<times> u8 list) option \<Rightarrow> pbc_wmessage \<Rightarrow> pbc_wmessage option" where
  "write_field f x m = (case x of
     None \<Rightarrow> Some m
   | Some (wt, bs) \<Rightarrow> do {
       m \<leftarrow> wput (encode32 (push_bit 3 (fd_id f) OR wt)) m;
       wput bs m
     })"

definition is_default :: "pbc_field \<Rightarrow> u32 \<Rightarrow> u32 \<Rightarrow> bool option" where
  "is_default f l h =
     (if fd_label f \<noteq> LABEL_OPTIONAL then Some False
      else if fd_type f = PTYPE_ENUM then (case fd_default f of D_enum e _ \<Rightarrow> Some (l = e) | _ \<Rightarrow> None)
      else (case fd_default f of D_number d \<Rightarrow> Some (l = ucast d \<and> h = ucast (drop_bit 32 d)) | _ \<Rightarrow> None))"

definition wmessage_integer :: "pbc_env \<Rightarrow> nat \<Rightarrow> string \<Rightarrow> u32 \<Rightarrow> u32 \<Rightarrow> pbc_world \<Rightarrow> (int \<times> pbc_world) option" where
  "wmessage_integer env i key l h w = do {
     c_assert (i < length (ww_messages w));
     let m = ww_messages w ! i;
     r \<leftarrow> find_field env m key;
     case r of
       None \<Rightarrow> Some (-1, w\<lparr>ww_error := ''wmessage_interger query key error''\<rparr>)
     | Some fi \<Rightarrow> do {
         let f = pe_fields env fi;
         if fd_label f = LABEL_PACKED then map_option (Pair 0) (packed_integer f key l h i w)
         else do {
           d \<leftarrow> is_default f l h;
           if d then Some (0, w)
           else do {
             m \<leftarrow> expand 20 m;
             m \<leftarrow> write_field f (integer_bytes (fd_type f) l h) m;
             Some (0, set_message i m w)
           }
         }
       }
   }"

definition real_bytes :: "(double \<Rightarrow> u32) \<Rightarrow> nat \<Rightarrow> double \<Rightarrow> (u32 \<times> u8 list) option" where
  "real_bytes to_float ty v =
     (if ty = PTYPE_FLOAT then Some (WT_BIT32, float_encode (to_float v))
      else if ty = PTYPE_DOUBLE then Some (WT_BIT64, double_encode v)
      else None)"

definition wmessage_real :: "(double \<Rightarrow> u32) \<Rightarrow> pbc_env \<Rightarrow> nat \<Rightarrow> string \<Rightarrow> double \<Rightarrow> pbc_world \<Rightarrow> (int \<times> pbc_world) option" where
  "wmessage_real to_float env i key v w = do {
     c_assert (i < length (ww_messages w));
     let m = ww_messages w ! i;
     r \<leftarrow> find_field env m key;
     case r of
       None \<Rightarrow> Some (-1, w\<lparr>ww_error := ''wmessage_real query key error''\<rparr>)
     | Some fi \<Rightarrow> do {
         let f = pe_fields env fi;
         if fd_label f = LABEL_PACKED then map_option (Pair 0) (packed_real f key v i w)
         else do {
           d \<leftarrow> (if fd_label f \<noteq> LABEL_OPTIONAL then Some False
                 else (case fd_default f of D_number d \<Rightarrow> Some (dbl_eq v d) | _ \<Rightarrow> None));
           if d then Some (0, w)
           else do {
             m \<leftarrow> expand 18 m;
             m \<leftarrow> write_field f (real_bytes to_float (fd_type f) v) m;
             Some (0, set_message i m w)
           }
         }
       }
   }"

text \<open>
  The string may be the default of an optional field.  \<open>strncmp\<close> compares up to a NUL in both; the
  character of the default at \<open>len\<close> is read then, wherever it is.
\<close>

definition string_default :: "pbc_field \<Rightarrow> string \<Rightarrow> nat \<Rightarrow> bool option" where
  "string_default f v len =
     (if fd_label f \<noteq> LABEL_OPTIONAL then Some False
      else if fd_type f = PTYPE_ENUM then (case fd_default f of
        D_enum _ nm \<Rightarrow> do {
          eq \<leftarrow> mem_strncmp len v nm;
          if eq then map_option (\<lambda>ch. ch = CHR 0x00) (char_at (nm @ [CHR 0x00]) len) else Some False
        }
      | _ \<Rightarrow> None)
      else if fd_type f = PTYPE_STRING then (case fd_default f of
        D_string s l \<Rightarrow> if int len = sint l then mem_strcmp v s else Some False
      | _ \<Rightarrow> None)
      else Some False)"

definition wmessage_string :: "pbc_env \<Rightarrow> nat \<Rightarrow> string \<Rightarrow> string \<Rightarrow> i32 \<Rightarrow> pbc_world \<Rightarrow> (int \<times> pbc_world) option" where
  "wmessage_string env i key v len w = do {
     c_assert (i < length (ww_messages w));
     let m = ww_messages w ! i;
     r \<leftarrow> find_field env m key;
     case r of
       None \<Rightarrow> Some (-1, w\<lparr>ww_error := ''wmessage_string query key error''\<rparr>)
     | Some fi \<Rightarrow> do {
         let f = pe_fields env fi;
         let varlen = (sint len \<le> 0);
         len \<leftarrow> (if varlen then map_option (\<lambda>n. n + nat (- sint len)) (mem_strlen v) else Some (nat (sint len)));
         c_assert (len < 2 ^ 31);
         if fd_label f = LABEL_PACKED then
           if fd_type f = PTYPE_ENUM then do {
             nm \<leftarrow> enum_name varlen len v;
             e \<leftarrow> si_query (fd_enum f) nm;
             case e of
               None \<Rightarrow> Some (-1, w\<lparr>ww_error := ''wmessage_string packed invalid enum''\<rparr>)
             | Some e \<Rightarrow> map_option (Pair 0) (packed_integer f key e 0 i w)
           } else Some (0, w)
         else do {
           d \<leftarrow> string_default f v len;
           if d then Some (0, w)
           else do {
             m \<leftarrow> expand 20 m;
             if fd_type f = PTYPE_ENUM then do {
               nm \<leftarrow> enum_name varlen len v;
               e \<leftarrow> si_query (fd_enum f) nm;
               case e of
                 None \<Rightarrow> Some (-1, (set_message i m w)\<lparr>ww_error := ''wmessage_string invalid enum''\<rparr>)
               | Some e \<Rightarrow> do {
                   m \<leftarrow> write_field f (Some (WT_VARINT, encode32 e)) m;
                   Some (0, set_message i m w)
                 }
             }
             else if fd_type f \<in> {PTYPE_STRING, PTYPE_BYTES} then do {
               m \<leftarrow> write_field f (Some (WT_LEND, encode32 (of_nat len))) m;
               m \<leftarrow> expand len m;
               c_assert (len \<le> length v);
               m \<leftarrow> wput (map of_char (take len v)) m;
               Some (0, set_message i m w)
             }
             else Some (0, set_message i m w)
           }
         }
       }
   }"

text \<open>A sub-message; the null pointer is the result \<open>Some None\<close>.\<close>

definition wmessage_message :: "pbc_env \<Rightarrow> nat \<Rightarrow> string \<Rightarrow> pbc_world \<Rightarrow> (nat option \<times> pbc_world) option" where
  "wmessage_message env i key w = do {
     c_assert (i < length (ww_messages w));
     r \<leftarrow> find_field env (ww_messages w ! i) key;
     case r of
       None \<Rightarrow> Some (None, w\<lparr>ww_error := ''wmessage_message query key error''\<rparr>)
     | Some fi \<Rightarrow> do {
         let (j, w) = wmessage_new (fd_message (pe_fields env fi)) w;
         let m = ww_messages w ! i;
         sub \<leftarrow> array_push (V_pointers j fi) (wm_sub m);
         Some (Some j, set_message i (m\<lparr>wm_sub := sub\<rparr>) w)
       }
   }"

section \<open>Taking the buffer\<close>

fun write_elements :: "nat \<Rightarrow> (pbc_var \<Rightarrow> u8 list option) \<Rightarrow> pbc_var option list \<Rightarrow> nat \<Rightarrow> pbc_wmessage \<Rightarrow> pbc_wmessage option" where
  "write_elements stride enc [] i m = Some m"
| "write_elements stride enc (x # xs) i m = do {
     v \<leftarrow> x;
     bs \<leftarrow> enc v;
     m \<leftarrow> write_at (wm_ptr m + i * stride) bs m;
     write_elements stride enc xs (i + 1) m
   }"

definition elements :: "pbc_array \<Rightarrow> pbc_var option list" where
  "elements a = map (\<lambda>i. array_index a (int i)) [0..<array_size a]"

text \<open>\<open>_pack_packed_64\<close> and \<open>_pack_packed_32\<close>: both write element \<open>i\<close> at \<open>m->ptr + i * 8\<close>.\<close>

definition real_of :: "pbc_var \<Rightarrow> double option" where "real_of v = (case v of V_real x \<Rightarrow> Some x | _ \<Rightarrow> None)"

definition integer_of :: "pbc_var \<Rightarrow> longlong option" where "integer_of v = (case v of V_integer x \<Rightarrow> Some x | _ \<Rightarrow> None)"

definition pack_packed_64 :: "pbc_packed \<Rightarrow> pbc_wmessage \<Rightarrow> pbc_wmessage option" where
  "pack_packed_64 p m = do {
     let len = array_size (pk_data p) * 8;
     m \<leftarrow> expand (10 + len) m;
     m \<leftarrow> wput (encode32 (of_nat len)) m;
     m \<leftarrow> write_elements 8
            (\<lambda>v. if pk_ptype p = PTYPE_DOUBLE then map_option double_encode (real_of v)
                 else map_option (\<lambda>x. int64_encode (low x) (hi x)) (integer_of v)) (elements (pk_data p)) 0 m;
     Some (m\<lparr>wm_ptr := wm_ptr m + len\<rparr>)
   }"

definition pack_packed_32 :: "(double \<Rightarrow> u32) \<Rightarrow> pbc_packed \<Rightarrow> pbc_wmessage \<Rightarrow> pbc_wmessage option" where
  "pack_packed_32 to_float p m = do {
     let len = array_size (pk_data p) * 4;
     m \<leftarrow> expand (10 + len) m;
     m \<leftarrow> wput (encode32 (of_nat len)) m;
     m \<leftarrow> write_elements 8
            (\<lambda>v. if pk_ptype p = PTYPE_FLOAT then map_option (\<lambda>x. float_encode (to_float x)) (real_of v)
                 else map_option (\<lambda>x. int32_encode (low x)) (integer_of v)) (elements (pk_data p)) 0 m;
     Some (m\<lparr>wm_ptr := wm_ptr m + len\<rparr>)
   }"

definition varint_bytes :: "nat \<Rightarrow> longlong \<Rightarrow> u8 list" where
  "varint_bytes ty x =
     (if ty \<in> {PTYPE_INT64, PTYPE_UINT64} then encode (join (low x) (hi x))
      else if ty \<in> {PTYPE_INT32, PTYPE_BOOL, PTYPE_UINT32, PTYPE_ENUM} then encode32 (low x)
      else if ty = PTYPE_SINT32 then zigzag32 (low x)
      else zigzag (join (low x) (hi x)))"

fun write_varints :: "nat \<Rightarrow> pbc_var option list \<Rightarrow> pbc_wmessage \<Rightarrow> pbc_wmessage option" where
  "write_varints ty [] m = Some m"
| "write_varints ty (x # xs) m = do {
     v \<leftarrow> x;
     n \<leftarrow> integer_of v;
     m \<leftarrow> expand 10 m;
     m \<leftarrow> wput (varint_bytes ty n) m;
     write_varints ty xs m
   }"

text \<open>
  \<open>_pack_packed_varint\<close>: the length is guessed at two bytes for each value, and written again when it was
  wrong; the values move when it takes another number of bytes.
\<close>

definition fix_length :: "nat \<Rightarrow> nat \<Rightarrow> nat \<Rightarrow> pbc_wmessage \<Rightarrow> pbc_wmessage option" where
  "fix_length offset len len_len m = do {
     let end_len = wm_ptr m - (offset + len_len);
     if end_len = len then Some m
     else do {
       let temp = encode32 (of_nat end_len);
       let end_len_len = length temp;
       m \<leftarrow> (if end_len_len = len_len then Some m
             else do {
               m \<leftarrow> expand end_len_len m;
               let b = wm_buffer m;
               c_assert (offset + end_len_len + end_len \<le> length b);
               let moved = take end_len (drop (offset + len_len) b);
               Some (m\<lparr>wm_buffer := take (offset + end_len_len) b @ moved @ drop (offset + end_len_len + end_len) b,
                 wm_ptr := wm_ptr m + end_len_len - len_len\<rparr>)
             });
       write_at offset temp m
     }
   }"

definition pack_packed_varint :: "pbc_packed \<Rightarrow> pbc_wmessage \<Rightarrow> (bool \<times> pbc_wmessage) option" where
  "pack_packed_varint p m = do {
     let n = array_size (pk_data p);
     let offset = wm_ptr m;
     let len = (if pk_ptype p = PTYPE_BOOL then n else n * 2);
     m \<leftarrow> expand (10 + len) m;
     let head = encode32 (of_nat len);
     m \<leftarrow> wput head m;
     if pk_ptype p \<in> {PTYPE_INT64, PTYPE_UINT64, PTYPE_INT32, PTYPE_BOOL, PTYPE_UINT32, PTYPE_ENUM, PTYPE_SINT32, PTYPE_SINT64}
     then do {
       m \<leftarrow> write_varints (pk_ptype p) (elements (pk_data p)) m;
       m \<leftarrow> fix_length offset len (length head) m;
       Some (True, m)
     }
     else do {
       m \<leftarrow> wput (replicate n 0) m;
       m \<leftarrow> fix_length offset len (length head) m;
       Some (False, m)
     }
   }"

definition pack_packed :: "(double \<Rightarrow> u32) \<Rightarrow> nat \<Rightarrow> nat \<Rightarrow> pbc_world \<Rightarrow> pbc_world option" where
  "pack_packed to_float i pi w = do {
     let p = ww_packed w ! pi;
     m \<leftarrow> expand 10 (ww_messages w ! i);
     m \<leftarrow> wput (encode32 (push_bit 3 (pk_id p) OR WT_LEND)) m;
     if pk_ptype p \<in> {PTYPE_DOUBLE, PTYPE_FIXED64, PTYPE_SFIXED64} then map_option (\<lambda>m. set_message i m w) (pack_packed_64 p m)
     else if pk_ptype p \<in> {PTYPE_FLOAT, PTYPE_FIXED32, PTYPE_SFIXED32} then
       map_option (\<lambda>m. set_message i m w) (pack_packed_32 to_float p m)
     else do {
       (ok, m) \<leftarrow> pack_packed_varint p m;
       let w = set_message i m w;
       Some (if ok then w else w\<lparr>ww_error := ''wmessage type error when pack packed''\<rparr>)
     }
   }"

fun pack_all_packed :: "(double \<Rightarrow> u32) \<Rightarrow> nat \<Rightarrow> nat list \<Rightarrow> pbc_world \<Rightarrow> pbc_world option" where
  "pack_all_packed to_float i [] w = Some w"
| "pack_all_packed to_float i (p # ps) w = do { w \<leftarrow> pack_packed to_float i p w; pack_all_packed to_float i ps w }"

text \<open>The slice a caller gets: every byte has been written.\<close>

definition slice_of :: "pbc_wmessage \<Rightarrow> u8 list option" where
  "slice_of m = those (take (wm_ptr m) (wm_buffer m))"

definition append_sub :: "pbc_field \<Rightarrow> u8 list \<Rightarrow> pbc_wmessage \<Rightarrow> pbc_wmessage option" where
  "append_sub f bs m = do {
     m \<leftarrow> expand (20 + length bs) m;
     m \<leftarrow> wput (encode32 (push_bit 3 (fd_id f) OR WT_LEND)) m;
     m \<leftarrow> wput (encode32 (of_nat (length bs))) m;
     wput bs m
   }"

text \<open>
  \<open>pbc_wmessage_buffer\<close>: the packed fields first, then the sub-messages, whose buffers are taken in turn.  The
  second argument is the number of the sub-message that is next, \<open>None\<close> at the start.
\<close>

partial_function (option) wmessage_buffer ::
  "(double \<Rightarrow> u32) \<Rightarrow> pbc_env \<Rightarrow> nat \<Rightarrow> nat option \<Rightarrow> pbc_world \<Rightarrow> (u8 list \<times> pbc_world) option" where
  "wmessage_buffer to_float env i next w =
     (if \<not> i < length (ww_messages w) then None
      else if next = None then do {
        w \<leftarrow> (case wm_packed (ww_messages w ! i) of None \<Rightarrow> Some w | Some packed \<Rightarrow> pack_all_packed to_float i (sp_foreach packed) w);
        wmessage_buffer to_float env i (Some 0) w
      }
      else if array_size (wm_sub (ww_messages w ! i)) \<le> the next then do {
        bs \<leftarrow> slice_of (ww_messages w ! i);
        Some (bs, w)
      }
      else do {
        v \<leftarrow> array_index (wm_sub (ww_messages w ! i)) (int (the next));
        (j, fi) \<leftarrow> (case v of V_pointers j fi \<Rightarrow> Some (j, fi) | _ \<Rightarrow> None);
        (bs, w) \<leftarrow> wmessage_buffer to_float env j None w;
        m \<leftarrow> append_sub (pe_fields env fi) bs (ww_messages w ! i);
        wmessage_buffer to_float env i (Some (the next + 1)) (set_message i m w)
      })"

end
