(* ===== verification/PbWireProps.thy ===== *)
theory PbWireProps
  imports PbWire
begin

text \<open>
  The format of messages, as what it means: a message is a list of fields with their numbers.
  \<open>_pbcC_open\<close> finds exactly the fields of such a message.
\<close>

unbundle bit_operations_syntax

section \<open>The format\<close>

datatype wfield = F_varint u64 | F_bit64 longlong | F_bytes "u8 list" | F_bit32 u32

fun wire_type :: "wfield \<Rightarrow> u32" where
  "wire_type (F_varint v) = WT_VARINT"
| "wire_type (F_bit64 v) = WT_BIT64"
| "wire_type (F_bytes bs) = WT_LEND"
| "wire_type (F_bit32 v) = WT_BIT32"

definition bytes32 :: "u32 \<Rightarrow> u8 list" where "bytes32 v = map (\<lambda>k. ucast (drop_bit k v AND 0xff)) [0, 8, 16, 24]"

fun payload :: "wfield \<Rightarrow> u8 list" where
  "payload (F_varint v) = encode v"
| "payload (F_bit64 v) = bytes32 (low v) @ bytes32 (hi v)"
| "payload (F_bytes bs) = encode32 (of_nat (length bs)) @ bs"
| "payload (F_bit32 v) = bytes32 v"

definition wire :: "u32 \<times> wfield \<Rightarrow> u8 list" where
  "wire kf = encode32 (fst kf) @ payload (snd kf)"

text \<open>The key of a field carries its type; numbers stay below the bound of the decoder.\<close>

fun field_ok :: "u32 \<times> wfield \<Rightarrow> bool" where
  "field_ok (k, f) \<longleftrightarrow> k AND 7 = wire_type f \<and> (case f of F_varint v \<Rightarrow> unat v < 2 ^ 59 | F_bytes bs \<Rightarrow> length bs < 2 ^ 31 | _ \<Rightarrow> True)"

text \<open>The atom of a field that begins at an offset.\<close>

fun field_v :: "nat \<Rightarrow> wfield \<Rightarrow> atom_v" where
  "field_v pos (F_varint v) = A_integer (halves v)"
| "field_v pos (F_bit64 v) = A_integer v"
| "field_v pos (F_bytes bs) = (let p = pos + length (encode32 (of_nat (length bs))) in A_slice (of_nat p) (of_nat (p + length bs)))"
| "field_v pos (F_bit32 v) = A_integer \<lparr>low = v, hi = 0\<rparr>"

definition field_atom :: "nat \<Rightarrow> u32 \<times> wfield \<Rightarrow> atom" where
  "field_atom pos kf = \<lparr>wire_id = fst kf, at_v = field_v (pos + length (encode32 (fst kf))) (snd kf)\<rparr>"

fun field_atoms :: "nat \<Rightarrow> (u32 \<times> wfield) list \<Rightarrow> atom list" where
  "field_atoms pos [] = []"
| "field_atoms pos (kf # fs) = field_atom pos kf # field_atoms (pos + length (wire kf)) fs"

lemma length_field_atoms [simp]: "length (field_atoms pos fs) = length fs"
  by (induction fs arbitrary: pos) simp_all

section \<open>Reading one field\<close>

lemma encode32_encode: "encode32 k = encode (ucast k)"
proof -
  have "unat k < 2 ^ LENGTH(32)" by (rule unsigned_less)
  then have "unat (ucast k :: u64) = unat k" by (simp add: unsigned_ucast_eq take_bit_nat_eq_self)
  then show ?thesis by (simp add: encode32_base128 encode_base128)
qed

lemma base128_nonempty: "base128 n \<noteq> []" using length_base128 [of n] by force

lemma length_encode32_pos: "0 < length (encode32 k)"
  by (simp add: encode32_base128 base128_nonempty)

lemma wire_pos: "0 < length (wire kf)"
  using length_encode32_pos [of "fst kf"] by (simp add: wire_def)

text \<open>What is left of a message of less than 2 GB, as an \<open>int\<close>.\<close>

lemma sint_of_nat_31: "n < 2 ^ 31 \<Longrightarrow> sint (of_nat n :: i32) = int n"
  by (simp add: signed_of_nat signed_take_bit_int_eq_self)

lemma varint_at_encoded:
  assumes "unat v < 2 ^ 59" "length temp = 10" "length (encode v @ rest) < 2 ^ 31"
  shows "\<exists>temp'. length temp' = 10 \<and>
    varint_at temp (pre @ encode v @ rest) (length pre) (of_nat (length (encode v @ rest))) = Some (temp', length (encode v), halves v)"
proof -
  let ?n = "length (encode v @ rest)"
  have cap: "sint (of_nat ?n :: i32) = int ?n" using assms(3) by (rule sint_of_nat_31)
  show ?thesis
  proof (cases "10 \<le> ?n")
    case True
    then show ?thesis
      using varint_roundtrip [OF assms(1), of rest] assms(2) unfolding varint_at_def cap
      by (intro exI [of _ temp]) simp
  next
    case False
    let ?temp = "encode v @ rest @ drop ?n temp"
    have "decode ?temp = Some (length (encode v), halves v)" by (rule varint_roundtrip [OF assms(1)])
    then show ?thesis
      using False assms(2) unfolding varint_at_def cap by (intro exI [of _ ?temp]) (simp add: nat_int_add Let_def)
  qed
qed

lemma le_word_bytes32: "le_word (bytes32 v @ rest) = v"
proof -
  have m: "(x :: u32) AND 0xff = take_bit 8 x" for x by (simp add: take_bit_eq_mask mask_eq_exp_minus_1)
  have "(ucast (ucast (take_bit 8 (drop_bit 0 v)) :: u8) :: u32) OR push_bit 8 (ucast (ucast (take_bit 8 (drop_bit 8 v)) :: u8)) OR
      push_bit 16 (ucast (ucast (take_bit 8 (drop_bit 16 v)) :: u8)) OR push_bit 24 (ucast (ucast (take_bit 8 (drop_bit 24 v)) :: u8)) = v"
    (is "?w = v")
  proof (rule bit_word_eqI)
    fix k
    assume "k < LENGTH(32)"
    then consider "k < 8" | "8 \<le> k" "k < 16" | "16 \<le> k" "k < 24" | "24 \<le> k" "k < 32" by fastforce
    then show "bit ?w k = bit v k" by cases (auto simp: bit_simps)
  qed
  then show ?thesis unfolding le_word_def bytes32_def m by simp
qed

lemma length_bytes32 [simp]: "length (bytes32 v) = 4" by (simp add: bytes32_def)

lemma halves_ucast: "halves (ucast (k :: u32)) = \<lparr>low = k, hi = 0\<rparr>"
proof -
  have "drop_bit 32 (ucast k :: u64) = 0" by (rule bit_word_eqI) (auto simp: bit_simps dest: bit_imp_le_length)
  moreover have "ucast (ucast k :: u64) = k" by (rule bit_word_eqI) (auto simp: bit_simps)
  ultimately show ?thesis by (simp add: halves_def)
qed

lemma unat_ucast_32: "unat (ucast (k :: u32) :: u64) < 2 ^ 59"
proof -
  have k: "unat k < 2 ^ LENGTH(32)" by (rule unsigned_less)
  then have "unat (ucast k :: u64) = unat k" by (simp add: unsigned_ucast_eq take_bit_nat_eq_self)
  also have "\<dots> < 2 ^ 59" by (rule less_trans [OF k]) simp
  finally show ?thesis .
qed

lemma of_nat_minus: "b \<le> a \<Longrightarrow> (of_nat a :: i32) - of_nat b = of_nat (a - b)"
  by (simp add: of_nat_diff)

lemma varint32_at_encoded:
  assumes "length temp = 10" "length (encode32 k @ rest) < 2 ^ 31"
  shows "\<exists>temp'. length temp' = 10 \<and> varint_at temp (pre @ encode32 k @ rest) (length pre) (of_nat (length (encode32 k @ rest))) =
    Some (temp', length (encode32 k), \<lparr>low = k, hi = 0\<rparr>)"
  using varint_at_encoded [OF unat_ucast_32 [of k] assms(1), of rest pre] assms(2) by (simp only: encode32_encode halves_ucast)

lemma unat_31: "m < 2 ^ 31 \<Longrightarrow> unat (of_nat m :: i32) = m"
  by (simp add: unsigned_of_nat take_bit_nat_eq_self)

lemma decode_payload_varint:
  assumes "unat v < 2 ^ 59" "length temp = 10" "length (encode v @ rest) < 2 ^ 31"
  shows "decode_payload temp (pre @ encode v @ rest) WT_VARINT (length pre) (of_nat (length (encode v @ rest))) start =
    Some (Some (A_integer (halves v), length (encode v)))"
proof -
  obtain temp' where "varint_at temp (pre @ encode v @ rest) (length pre) (of_nat (length (encode v @ rest))) = Some (temp', length (encode v), halves v)"
    using varint_at_encoded [OF assms, of pre] by blast
  then show ?thesis
    unfolding decode_payload_def sint_of_nat_31 [OF assms(3)] by simp
qed

lemma decode_payload_bytes:
  assumes "length temp = 10" "b = encode32 (of_nat (length bs))" "length (b @ bs @ rest) < 2 ^ 31"
  shows "decode_payload temp (pre @ b @ bs @ rest) WT_LEND (length pre) (of_nat (length (b @ bs @ rest))) (of_nat (length pre)) =
    Some (Some (A_slice (of_nat (length pre + length b)) (of_nat (length pre + length b + length bs)), length b + length bs))"
proof -
  obtain temp' where v: "varint_at temp (pre @ b @ bs @ rest) (length pre) (of_nat (length (b @ bs @ rest))) =
      Some (temp', length b, \<lparr>low = of_nat (length bs), hi = 0\<rparr>)"
    using varint32_at_encoded [OF assms(1), of "of_nat (length bs)" "bs @ rest" pre] assms(2,3) by metis
  have "length b + length bs < 2 ^ 31" "length bs < 2 ^ 31" using assms(3) by simp_all
  then have "\<not> (of_nat (length (b @ bs @ rest)) :: i32) < of_nat (length b + length bs)" "unat (of_nat (length bs) :: i32) = length bs"
    using assms(3) by (simp_all add: word_less_nat_alt unat_31 del: of_nat_add)
  moreover have "WT_LEND \<noteq> WT_VARINT" "WT_LEND \<noteq> WT_BIT64" by (simp_all add: wt_defs)
  ultimately show ?thesis unfolding decode_payload_def v by (simp add: add.assoc del: length_append)
qed

lemma decode_payload_bit64:
  assumes "length (bytes32 l @ bytes32 h @ rest) < 2 ^ 31"
  shows "decode_payload temp (pre @ bytes32 l @ bytes32 h @ rest) WT_BIT64 (length pre) (of_nat (length (bytes32 l @ bytes32 h @ rest))) start =
    Some (Some (A_integer \<lparr>low = l, hi = h\<rparr>, 8))"
proof -
  have "\<not> sint (of_nat (length (bytes32 l @ bytes32 h @ rest)) :: i32) < 8" unfolding sint_of_nat_31 [OF assms] by simp
  moreover have "WT_BIT64 \<noteq> WT_VARINT" by (simp add: wt_defs)
  moreover have "drop (length pre + 4) (pre @ bytes32 l @ bytes32 h @ rest) = bytes32 h @ rest" by simp
  ultimately show ?thesis unfolding decode_payload_def by (simp add: le_word_bytes32 del: of_nat_add)
qed

lemma decode_payload_bit32:
  assumes "length (bytes32 v @ rest) < 2 ^ 31"
  shows "decode_payload temp (pre @ bytes32 v @ rest) WT_BIT32 (length pre) (of_nat (length (bytes32 v @ rest))) start =
    Some (Some (A_integer \<lparr>low = v, hi = 0\<rparr>, 4))"
proof -
  have "\<not> sint (of_nat (length (bytes32 v @ rest)) :: i32) < 4" unfolding sint_of_nat_31 [OF assms] by simp
  moreover have "WT_BIT32 \<noteq> WT_VARINT" "WT_BIT32 \<noteq> WT_BIT64" "WT_BIT32 \<noteq> WT_LEND" by (simp_all add: wt_defs)
  ultimately show ?thesis unfolding decode_payload_def by (simp add: le_word_bytes32 del: of_nat_add)
qed

lemma decode_payload_field:
  assumes "case f of F_varint v \<Rightarrow> unat v < 2 ^ 59 | F_bytes bs \<Rightarrow> length bs < 2 ^ 31 | _ \<Rightarrow> True"
    and "length temp = 10" "length (payload f @ rest) < 2 ^ 31"
  shows "decode_payload temp (pre @ payload f @ rest) (wire_type f) (length pre) (of_nat (length (payload f @ rest))) (of_nat (length pre)) =
    Some (Some (field_v (length pre) f, length (payload f)))"
proof (cases f)
  case (F_varint v)
  then show ?thesis using decode_payload_varint [OF _ assms(2), of v rest pre] assms(1,3) by simp
next
  case (F_bit64 v)
  then show ?thesis using decode_payload_bit64 [of "low v" "hi v" rest] assms(3) by simp
next
  case (F_bytes bs)
  then show ?thesis using decode_payload_bytes [OF assms(2) refl, of bs rest pre] assms(3) by (simp add: Let_def add.assoc)
next
  case (F_bit32 v)
  then show ?thesis using decode_payload_bit32 [of v rest] assms(3) by simp
qed

text \<open>The key is read and its type taken from it; what is left is the payload.\<close>

lemma wiretype_decode_field:
  assumes "field_ok kf" "length temp = 10" "length (wire kf @ rest) < 2 ^ 31"
  shows "wiretype_decode temp (pre @ wire kf @ rest) (length pre) (of_nat (length (wire kf @ rest))) (of_nat (length pre)) =
    Some (Some (field_atom (length pre) kf, length (wire kf)))"
proof -
  obtain k f where kf: "kf = (k, f)" by (cases kf)
  let ?l = "length (encode32 k)" and ?n = "length (payload f @ rest)"
  have n: "length (wire kf @ rest) = ?l + ?n" by (simp add: kf wire_def)
  have len: "?l + ?n < 2 ^ 31" "?n < 2 ^ 31" using assms(3) unfolding n by simp_all
  obtain temp' where t: "length temp' = 10"
      "varint_at temp (pre @ encode32 k @ payload f @ rest) (length pre) (of_nat (?l + ?n)) = Some (temp', ?l, \<lparr>low = k, hi = 0\<rparr>)"
    using varint32_at_encoded [OF assms(2), of k "payload f @ rest" pre] len(1) by auto
  have f: "k AND 7 = wire_type f" "case f of F_varint v \<Rightarrow> unat v < 2 ^ 59 | F_bytes bs \<Rightarrow> length bs < 2 ^ 31 | _ \<Rightarrow> True"
    using assms(1) by (simp_all add: kf)
  have cap: "sint (of_nat (?l + ?n) :: i32) = int (?l + ?n)" by (rule sint_of_nat_31 [OF len(1)])
  have sub: "of_nat (?l + ?n) - of_nat ?l = (of_nat ?n :: i32)" by simp
  have p: "decode_payload temp' (pre @ encode32 k @ payload f @ rest) (wire_type f) (length pre + ?l) (of_nat ?n)
      (of_nat (length pre) + of_nat ?l) = Some (Some (field_v (length pre + ?l) f, length (payload f)))"
    using decode_payload_field [OF f(2) t(1) len(2), of "pre @ encode32 k"] by simp
  have mem: "pre @ wire kf @ rest = pre @ encode32 k @ payload f @ rest" by (simp add: kf wire_def)
  have "wiretype_decode temp (pre @ encode32 k @ payload f @ rest) (length pre) (of_nat (?l + ?n)) (of_nat (length pre)) =
      Some (Some (\<lparr>wire_id = k, at_v = field_v (length pre + ?l) f\<rparr>, ?l + length (payload f)))"
    unfolding wiretype_decode_def t(2) cap sub Option.bind.simps prod.case longlong.simps f(1) p by simp
  then show ?thesis unfolding mem n by (simp add: kf field_atom_def wire_def)
qed

section \<open>Reading a whole message\<close>

definition wires :: "(u32 \<times> wfield) list \<Rightarrow> u8 list" where "wires fs = concat (map wire fs)"

lemma wires_simps [simp]: "wires [] = []" "wires (kf # fs) = wire kf @ wires fs" by (simp_all add: wires_def)

lemma wires_append: "wires (fs @ gs) = wires fs @ wires gs" by (simp add: wires_def)

lemma wires_pos: "fs \<noteq> [] \<Longrightarrow> 0 < length (wires fs)"
proof (induction fs)
  case (Cons kf fs)
  show ?case using wire_pos [of kf] by simp
qed simp

lemma of_nat_wires_zero: "length (wires fs) < 2 ^ 31 \<Longrightarrow> (of_nat (length (wires fs)) :: i32) = 0 \<longleftrightarrow> fs = []"
  using unat_31 [of "length (wires fs)"] wire_pos by (cases fs) (auto simp: unat_eq_0 [symmetric])

lemma step_size: "(of_nat (length (wires (kf # fs))) :: i32) - of_nat (length (wire kf)) = of_nat (length (wires fs))"
  by simp

lemma step_start: "(of_nat pos :: i32) + of_nat (length (wire kf)) = of_nat (pos + length (wire kf))"
  by simp

lemma open_inner_fields:
  assumes "\<forall>kf \<in> set fs. field_ok kf" "length temp = 10" "length (wires fs) < 2 ^ 31"
  shows "open_inner temp (pre @ wires fs) (length pre) (of_nat (length (wires fs))) (of_nat (length pre)) as =
    (let now = take (INNER_ATOM - length as) fs; later = drop (INNER_ATOM - length as) fs
     in Some (False, length (pre @ wires now), of_nat (length (wires later)), of_nat (length (pre @ wires now)),
          as @ field_atoms (length pre) now))"
  using assms(1,3)
proof (induction fs arbitrary: pre as)
  case (Cons kf fs)
  show ?case
  proof (cases "INNER_ATOM \<le> length as")
    case False
    then obtain m where m: "INNER_ATOM - length as = Suc m" "INNER_ATOM - length (as @ [field_atom (length pre) kf]) = m"
      by (metis Suc_diff_Suc Suc_eq_plus1 diff_diff_left length_append_singleton linorder_not_less add.commute plus_1_eq_Suc)
    have nz: "(of_nat (length (wires (kf # fs))) :: i32) \<noteq> 0" using of_nat_wires_zero [OF Cons.prems(2)] by simp
    have d: "wiretype_decode temp (pre @ wires (kf # fs)) (length pre) (of_nat (length (wires (kf # fs)))) (of_nat (length pre)) =
        Some (Some (field_atom (length pre) kf, length (wire kf)))"
      using wiretype_decode_field [OF _ assms(2), of kf "wires fs" pre] Cons.prems by simp
    have p: "pre @ wires (kf # fs) = (pre @ wire kf) @ wires fs" "length pre + length (wire kf) = length (pre @ wire kf)" by simp_all
    have ih: "open_inner temp ((pre @ wire kf) @ wires fs) (length (pre @ wire kf)) (of_nat (length (wires fs)))
        (of_nat (length (pre @ wire kf))) (as @ [field_atom (length pre) kf]) =
      (let now = take m fs; later = drop m fs
       in Some (False, length ((pre @ wire kf) @ wires now), of_nat (length (wires later)), of_nat (length ((pre @ wire kf) @ wires now)),
          (as @ [field_atom (length pre) kf]) @ field_atoms (length (pre @ wire kf)) now))"
      using Cons.IH [of "pre @ wire kf" "as @ [field_atom (length pre) kf]"] Cons.prems unfolding m(2) by simp
    have "open_inner temp (pre @ wires (kf # fs)) (length pre) (of_nat (length (wires (kf # fs)))) (of_nat (length pre)) as =
        open_inner temp ((pre @ wire kf) @ wires fs) (length (pre @ wire kf)) (of_nat (length (wires fs)))
          (of_nat (length (pre @ wire kf))) (as @ [field_atom (length pre) kf])"
      using False nz d step_size [of kf fs] step_start [of "length pre" kf] unfolding p
      by (subst open_inner.simps) (simp del: wires_simps of_nat_add)
    then show ?thesis unfolding ih m(1) by (simp add: Let_def)
  qed (simp add: open_inner.simps)
qed (simp add: open_inner.simps)

lemma open_heap_fields:
  assumes "\<forall>kf \<in> set fs. field_ok kf" "length temp = 10" "length (wires fs) < 2 ^ 31" "i \<le> length a"
  shows "\<exists>a'. open_heap temp (pre @ wires fs) (length pre) (of_nat (length (wires fs))) (of_nat (length pre)) i a = Some (False, i + length fs, a') \<and>
    i + length fs \<le> length a' \<and> (\<forall>j < length fs. a' ! (i + j) = Some (field_atoms (length pre) fs ! j))  \<and> (\<forall>j < i. a' ! j = a ! j)"
  using assms(1,3,4)
proof (induction fs arbitrary: pre i a)
  case Nil
  then show ?case by (simp add: open_heap.simps)
next
  case (Cons kf fs)
  define b where "b = (if length a \<le> i then a @ replicate 64 None else a)"
  have b: "i < length b" "\<And>j. j < i \<Longrightarrow> b ! j = a ! j" using Cons.prems(3) by (auto simp: b_def nth_append)
  let ?run = "\<lambda>a. open_heap temp (pre @ wires (kf # fs)) (length pre) (of_nat (length (wires (kf # fs)))) (of_nat (length pre)) i a"
  have pos: "\<not> sint (of_nat (length (wires (kf # fs))) :: i32) \<le> 0"
    unfolding sint_of_nat_31 [OF Cons.prems(2)] using wire_pos [of kf] by (simp del: length_greater_0_conv)
  have d: "wiretype_decode temp (pre @ wires (kf # fs)) (length pre) (of_nat (length (wires (kf # fs)))) (of_nat (length pre)) =
      Some (Some (field_atom (length pre) kf, length (wire kf)))"
    using wiretype_decode_field [OF _ assms(2), of kf "wires fs" pre] Cons.prems by simp
  have p: "pre @ wires (kf # fs) = (pre @ wire kf) @ wires fs" "length pre + length (wire kf) = length (pre @ wire kf)" by simp_all
  let ?x = "field_atom (length pre) kf"
  have go: "?run b = open_heap temp ((pre @ wire kf) @ wires fs) (length (pre @ wire kf)) (of_nat (length (wires fs)))
        (of_nat (length (pre @ wire kf))) (i + 1) (b[i := Some ?x])"
    using pos b(1) d step_size [of kf fs] step_start [of "length pre" kf] unfolding p
    by (subst open_heap.simps) (simp del: wires_simps of_nat_add)
  have "?run a = ?run b"
  proof (cases "length a \<le> i")
    case True
    then show ?thesis using pos by (subst open_heap.simps) (simp add: b_def del: wires_simps)
  qed (simp add: b_def)
  moreover obtain a' where "open_heap temp ((pre @ wire kf) @ wires fs) (length (pre @ wire kf)) (of_nat (length (wires fs)))
        (of_nat (length (pre @ wire kf))) (i + 1) (b[i := Some ?x]) = Some (False, i + 1 + length fs, a')"
      "i + 1 + length fs \<le> length a'" "\<forall>j < length fs. a' ! (i + 1 + j) = Some (field_atoms (length (pre @ wire kf)) fs ! j)"
      "\<forall>j < i + 1. a' ! j = b[i := Some ?x] ! j"
    using Cons.IH [of "i + 1" "b[i := Some ?x]" "pre @ wire kf"] Cons.prems b(1) by auto
  moreover have "a' ! (i + j) = Some (field_atoms (length pre) (kf # fs) ! j)" if "j < length (kf # fs)"
      "\<forall>j < length fs. a' ! (i + 1 + j) = Some (field_atoms (length (pre @ wire kf)) fs ! j)"
      "\<forall>j < i + 1. a' ! j = b[i := Some ?x] ! j" for j a'
    using that b(1) by (cases j) auto
  ultimately show ?case using b(2) unfolding go by (intro exI [of _ a']) auto
qed

lemma field_atoms_append: "field_atoms pos (fs @ gs) = field_atoms pos fs @ field_atoms (pos + length (wires fs)) gs"
  by (induction fs arbitrary: pos) (simp_all add: add.assoc)

lemma pbcC_open_fields:
  assumes "fs \<noteq> []" "\<forall>kf \<in> set fs. field_ok kf" "length temp = 10" "length (wires fs) < 2 ^ 31"
  shows "\<exists>ctx'. pbcC_open temp (Some (wires fs)) (of_nat (length (wires fs))) ctx = Some (of_nat (length fs), ctx') \<and>
    cx_number ctx' = of_nat (length fs) \<and> take (length fs) (cx_a ctx') = map Some (field_atoms 0 fs)"
proof -
  define now later where "now = take INNER_ATOM fs" and "later = drop INNER_ATOM fs"
  have fs: "fs = now @ later" by (simp add: now_def later_def)
  have nz: "(of_nat (length (wires fs)) :: i32) \<noteq> 0" using of_nat_wires_zero [OF assms(4)] assms(1) by simp
  have len: "length (wires later) < 2 ^ 31" using assms(4) by (simp add: fs wires_append)
  have i: "length now \<le> INNER_ATOM" by (simp add: now_def)
  let ?inner = "map Some (field_atoms 0 now) @ replicate (INNER_ATOM - length now) None"
  have inner: "open_inner temp (wires fs) 0 (of_nat (length (wires fs))) 0 [] =
      Some (False, length (wires now), of_nat (length (wires later)), of_nat (length (wires now)), field_atoms 0 now)"
    using open_inner_fields [OF assms(2-4), of "[]" "[]"] by (simp add: Let_def now_def later_def)
  show ?thesis
  proof (cases "later = []")
    case True
    then show ?thesis
      using nz inner i fs by (simp add: pbcC_open_def Let_def)
  next
    case False
    then have full: "length now = INNER_ATOM" by (auto simp: now_def later_def)
    have pos: "0 < sint (of_nat (length (wires later)) :: i32)"
      unfolding sint_of_nat_31 [OF len] using wires_pos [OF False] by linarith
    have "length now \<le> length (replicate 64 None :: atom option list)" by (simp add: full INNER_ATOM_def)
    from open_heap_fields [OF _ assms(3) len this, of "wires now"] assms(2)
    obtain a where a: "open_heap temp (wires fs) (length (wires now)) (of_nat (length (wires later))) (of_nat (length (wires now)))
        (length now) (replicate 64 None) = Some (False, length fs, a)"
      "length fs \<le> length a" "\<forall>j < length later. a ! (length now + j) = Some (field_atoms (length (wires now)) later ! j)"
      by (auto simp: fs wires_append)
    have "take (length later) (drop INNER_ATOM a) = map Some (field_atoms (length (wires now)) later)"
      using a(2,3) fs full by (intro nth_equalityI) auto
    then have "take (length fs) (?inner @ drop INNER_ATOM a) = map Some (field_atoms 0 fs)"
      using fs full by (simp add: field_atoms_append)
    then show ?thesis
      using nz inner pos a(1) by (simp add: pbcC_open_def Let_def)
  qed
qed

end
