(* ===== verification/PbWmessageProps.thy ===== *)
theory PbWmessageProps
  imports PbWmessage PbWireProps PbMapProps
begin

text \<open>
  What is written to a message is what is read from it: the buffer always has room, and \<open>_pbcC_open\<close> takes
  the bytes apart into the fields that were written, in their order.
\<close>

unbundle bit_operations_syntax

section \<open>The buffer\<close>

text \<open>The bytes written to a message.\<close>

definition written :: "pbc_wmessage \<Rightarrow> u8 list \<Rightarrow> bool" where
  "written m bs \<longleftrightarrow> wm_ptr m = length bs \<and> length bs \<le> length (wm_buffer m) \<and> take (length bs) (wm_buffer m) = map Some bs \<and>
     wm_buffer m \<noteq> []"

definition room :: "nat \<Rightarrow> pbc_wmessage \<Rightarrow> bool" where "room n m \<longleftrightarrow> wm_ptr m + n \<le> length (wm_buffer m)"

text \<open>Everything but the buffer and its pointer is as it was.\<close>

definition same_rest :: "pbc_wmessage \<Rightarrow> pbc_wmessage \<Rightarrow> bool" where
  "same_rest m m' \<longleftrightarrow> wm_type m' = wm_type m \<and> wm_sub m' = wm_sub m \<and> wm_packed m' = wm_packed m"

lemma same_rest_refl [simp]: "same_rest m m" by (simp add: same_rest_def)

lemma same_rest_trans: "same_rest m m' \<Longrightarrow> same_rest m' m'' \<Longrightarrow> same_rest m m''" by (simp add: same_rest_def)

lemma expand_cap_ok: "0 < cap \<Longrightarrow> cap < sz \<Longrightarrow> sz < 2 ^ 30 \<Longrightarrow> \<exists>c. expand_cap sz cap = Some c \<and> sz \<le> c"
proof (induction sz cap rule: expand_cap.induct)
  case (1 sz cap)
  have no: "\<not> (cap = 0 \<or> 2 ^ 31 \<le> cap * 2)" using 1(2-4) by auto
  then show ?case
    using 1 by (cases "cap * 2 < sz") (subst expand_cap.simps, simp)+
qed

lemma expand_ok:
  assumes "written m bs" "length bs + n < 2 ^ 30"
  shows "\<exists>m'. expand n m = Some m' \<and> written m' bs \<and> room n m' \<and> same_rest m m'"
proof (cases "length (wm_buffer m) < wm_ptr m + n")
  case True
  have m: "wm_ptr m = length bs" "take (length bs) (wm_buffer m) = map Some bs" "wm_buffer m \<noteq> []"
    using assms(1) by (simp_all add: written_def)
  obtain c where c: "expand_cap (wm_ptr m + n) (length (wm_buffer m)) = Some c" "wm_ptr m + n \<le> c"
    using expand_cap_ok [of "length (wm_buffer m)" "wm_ptr m + n"] True assms(2) m by auto
  let ?m = "m\<lparr>wm_buffer := take (wm_ptr m) (wm_buffer m) @ replicate (c - wm_ptr m) None\<rparr>"
  have "0 < c" using c(2) True by simp
  then have "written ?m bs" using m c(2) by (auto simp: written_def)
  then show ?thesis using True c m by (simp add: expand_def room_def same_rest_def)
next
  case False
  then show ?thesis using assms(1) by (simp add: expand_def room_def)
qed

lemma wput_ok:
  assumes "written m bs" "room n m" "length xs \<le> n"
  shows "\<exists>m'. wput xs m = Some m' \<and> written m' (bs @ xs) \<and> room (n - length xs) m' \<and> same_rest m m'"
proof -
  have m: "wm_ptr m = length bs" "take (length bs) (wm_buffer m) = map Some bs" "length bs + n \<le> length (wm_buffer m)" "wm_buffer m \<noteq> []"
    using assms(1,2) by (simp_all add: written_def room_def)
  let ?m = "m\<lparr>wm_buffer := map Some bs @ map Some xs @ drop (length bs + length xs) (wm_buffer m), wm_ptr := length bs + length xs\<rparr>"
  have "wput xs m = Some ?m" using m assms(3) by (simp add: wput_def write_at_def)
  moreover have "written ?m (bs @ xs)" using m assms(3) by (auto simp: written_def)
  moreover have "room (n - length xs) ?m" using m assms(3) by (simp add: room_def)
  ultimately show ?thesis by (simp add: same_rest_def)
qed

section \<open>A field\<close>

lemma length_base128_le: "n < 128 ^ k \<Longrightarrow> 0 < k \<Longrightarrow> length (base128 n) \<le> k"
proof (rule ccontr)
  assume "n < 128 ^ k" "0 < k" "\<not> length (base128 n) \<le> k"
  then show False using base128_lower [of k n] by simp
qed

lemma length_encode32_le: "length (encode32 k) \<le> 5"
proof -
  have "unat k < 2 ^ LENGTH(32)" by (rule unsigned_less)
  then have "unat k < 128 ^ 5" by simp
  then show ?thesis unfolding encode32_base128 by (rule length_base128_le) simp
qed

lemma length_encode_le: "length (encode v) \<le> 10"
proof -
  have "unat v < 2 ^ LENGTH(64)" by (rule unsigned_less)
  then have "unat v < 128 ^ 10" by simp
  then show ?thesis unfolding encode_base128 by (rule length_base128_le) simp
qed

lemma wire_type_less: "wire_type f AND 7 = wire_type f" by (cases f) (simp_all add: wt_defs)

definition field_key :: "pbc_field \<Rightarrow> wfield \<Rightarrow> u32" where "field_key f v = push_bit 3 (fd_id f) OR wire_type v"

lemma field_key_type: "field_key f v AND 7 = wire_type v"
proof -
  have m: "x AND 7 = take_bit 3 x" for x :: u32 by (simp add: take_bit_eq_mask mask_eq_exp_minus_1)
  have "take_bit 3 (push_bit 3 (fd_id f)) = 0" by (rule bit_word_eqI) (auto simp: bit_simps)
  then show ?thesis using wire_type_less [of v] unfolding field_key_def m by (simp add: take_bit_or)
qed

text \<open>The number of a field of less than 29 bits comes back from its key.\<close>

lemma field_key_id: "unat (fd_id f) < 2 ^ 29 \<Longrightarrow> drop_bit 3 (field_key f v) = fd_id f"
proof -
  assume "unat (fd_id f) < 2 ^ 29"
  then have "take_bit 29 (fd_id f) = fd_id f" by (metis take_bit_nat_eq_self_iff unsigned_take_bit_eq word_unat_eq_iff)
  then have id: "bit (fd_id f) k \<Longrightarrow> k < 29" for k by (metis bit_take_bit_iff)
  have "take_bit 3 (wire_type v) = wire_type v"
    using wire_type_less [of v] by (simp add: take_bit_eq_mask mask_eq_exp_minus_1)
  then have "bit (wire_type v) k \<Longrightarrow> k < 3" for k by (metis bit_take_bit_iff)
  then have wt: "\<not> bit (wire_type v) (3 + k)" for k by (meson not_add_less1)
  show ?thesis
    unfolding field_key_def by (rule bit_word_eqI) (use id wt in \<open>auto simp: bit_simps\<close>)
qed

lemma write_field_ok:
  assumes "written m bs" "room n m" "length (encode32 (push_bit 3 (fd_id f) OR wt)) + length xs \<le> n"
  shows "\<exists>m'. write_field f (Some (wt, xs)) m = Some m' \<and> written m' (bs @ encode32 (push_bit 3 (fd_id f) OR wt) @ xs) \<and> same_rest m m'"
proof -
  let ?k = "encode32 (push_bit 3 (fd_id f) OR wt)"
  have l: "length ?k \<le> n" "length xs \<le> n - length ?k" using assms(3) by simp_all
  obtain m1 where m1: "wput ?k m = Some m1" "written m1 (bs @ ?k)" "room (n - length ?k) m1" "same_rest m m1"
    using wput_ok [OF assms(1,2) l(1)] by blast
  obtain m2 where m2: "wput xs m1 = Some m2" "written m2 ((bs @ ?k) @ xs)" "same_rest m1 m2"
    using wput_ok [OF m1(2,3) l(2)] by blast
  show ?thesis
    using m1(1) m2 same_rest_trans [OF m1(4) m2(3)] by (simp add: write_field_def)
qed

text \<open>The room that the functions ask for is enough for a key and a number.\<close>

lemma expand_write_field:
  assumes "written m bs" "length bs + n < 2 ^ 30" "length xs + 5 \<le> n"
  shows "\<exists>m1 m'. expand n m = Some m1 \<and> write_field f (Some (wt, xs)) m1 = Some m' \<and>
    written m' (bs @ encode32 (push_bit 3 (fd_id f) OR wt) @ xs) \<and> same_rest m m'"
proof -
  obtain m1 where m1: "expand n m = Some m1" "written m1 bs" "room n m1" "same_rest m m1"
    using expand_ok [OF assms(1,2)] by blast
  have "length (encode32 (push_bit 3 (fd_id f) OR wt)) + length xs \<le> n"
    using length_encode32_le [of "push_bit 3 (fd_id f) OR wt"] assms(3) by simp
  from write_field_ok [OF m1(2,3) this] show ?thesis using m1(1,4) same_rest_trans by blast
qed

section \<open>Requests\<close>

datatype pbc_put = Put_integer string u32 u32 | Put_real string double | Put_string string string

text \<open>A string is given with its length, as Lua has it: a NUL follows.\<close>

fun put :: "(double \<Rightarrow> u32) \<Rightarrow> pbc_env \<Rightarrow> nat \<Rightarrow> pbc_put \<Rightarrow> pbc_world \<Rightarrow> (int \<times> pbc_world) option" where
  "put to_float env i (Put_integer key l h) w = wmessage_integer env i key l h w"
| "put to_float env i (Put_real key v) w = wmessage_real to_float env i key v w"
| "put to_float env i (Put_string key v) w = wmessage_string env i key (v @ [CHR 0x00]) (of_nat (length v)) w"

fun puts :: "(double \<Rightarrow> u32) \<Rightarrow> pbc_env \<Rightarrow> nat \<Rightarrow> pbc_put list \<Rightarrow> pbc_world \<Rightarrow> pbc_world option" where
  "puts to_float env i [] w = Some w"
| "puts to_float env i (p # ps) w = do {
     (r, w) \<leftarrow> put to_float env i p w;
     c_assert (r = 0);
     puts to_float env i ps w
   }"

text \<open>What the schema makes of a request: the value on the wire, if the types fit.\<close>

definition integer_value :: "nat \<Rightarrow> u32 \<Rightarrow> u32 \<Rightarrow> wfield option" where
  "integer_value ty l h =
     (if ty \<in> {PTYPE_INT64, PTYPE_UINT64, PTYPE_INT32} then Some (F_varint (join l h))
      else if ty \<in> {PTYPE_UINT32, PTYPE_ENUM, PTYPE_BOOL} then Some (F_varint (ucast l))
      else if ty \<in> {PTYPE_FIXED64, PTYPE_SFIXED64} then Some (F_bit64 \<lparr>low = l, hi = h\<rparr>)
      else if ty \<in> {PTYPE_FIXED32, PTYPE_SFIXED32} then Some (F_bit32 l)
      else if ty = PTYPE_SINT32 then Some (F_varint (ucast (push_bit 1 l XOR signed_drop_bit 31 l)))
      else if ty = PTYPE_SINT64 then Some (F_varint (zig (join l h)))
      else None)"

definition real_value :: "(double \<Rightarrow> u32) \<Rightarrow> nat \<Rightarrow> double \<Rightarrow> wfield option" where
  "real_value to_float ty v =
     (if ty = PTYPE_FLOAT then Some (F_bit32 (to_float v))
      else if ty = PTYPE_DOUBLE then Some (F_bit64 (halves v))
      else None)"

fun put_key :: "pbc_put \<Rightarrow> string" where
  "put_key (Put_integer key l h) = key"
| "put_key (Put_real key v) = key"
| "put_key (Put_string key v) = key"

fun put_value :: "(double \<Rightarrow> u32) \<Rightarrow> pbc_field \<Rightarrow> pbc_put \<Rightarrow> wfield option" where
  "put_value to_float f (Put_integer key l h) = integer_value (fd_type f) l h"
| "put_value to_float f (Put_real key v) = real_value to_float (fd_type f) v"
| "put_value to_float f (Put_string key v) = (if fd_type f \<in> {PTYPE_STRING, PTYPE_BYTES} then Some (F_bytes (map of_char v)) else None)"

text \<open>The schema: the field of a request.\<close>

definition put_field :: "pbc_env \<Rightarrow> nat \<Rightarrow> pbc_put \<Rightarrow> pbc_field option" where
  "put_field env ty p = (case sp_query (pe_names env ty) (put_key p) of Some (Some fi) \<Rightarrow> Some (pe_fields env fi) | _ \<Rightarrow> None)"

text \<open>The defaults fit the types of the fields.\<close>

definition default_ok :: "pbc_field \<Rightarrow> bool" where
  "default_ok f \<longleftrightarrow> (case fd_default f of
     D_enum e nm \<Rightarrow> fd_type f = PTYPE_ENUM
   | D_string s l \<Rightarrow> fd_type f \<in> {PTYPE_STRING, PTYPE_BYTES} \<and> CHR 0x00 \<notin> set s \<and> int (length s) = sint l
   | D_number d \<Rightarrow> fd_type f \<noteq> PTYPE_ENUM \<and> fd_type f \<notin> {PTYPE_STRING, PTYPE_BYTES})"

text \<open>An optional field is left out when it has its default, but bytes are always written.\<close>

fun at_default :: "pbc_field \<Rightarrow> pbc_put \<Rightarrow> bool" where
  "at_default f (Put_integer key l h) = (case fd_default f of D_enum e _ \<Rightarrow> l = e | D_number d \<Rightarrow> d = join l h | _ \<Rightarrow> False)"
| "at_default f (Put_real key v) = (case fd_default f of D_number d \<Rightarrow> dbl_eq v d | _ \<Rightarrow> False)"
| "at_default f (Put_string key v) = (case fd_default f of D_string s _ \<Rightarrow> fd_type f = PTYPE_STRING \<and> v = s | _ \<Rightarrow> False)"

definition put_ok :: "(double \<Rightarrow> u32) \<Rightarrow> pbc_env \<Rightarrow> nat \<Rightarrow> pbc_put \<Rightarrow> bool" where
  "put_ok to_float env ty p \<longleftrightarrow> (case put_field env ty p of
     None \<Rightarrow> False
   | Some f \<Rightarrow> fd_label f \<noteq> LABEL_PACKED \<and> default_ok f \<and>
       (case put_value to_float f p of
          None \<Rightarrow> False
        | Some v \<Rightarrow> field_ok (field_key f v, v) \<and> (case p of Put_string key s \<Rightarrow> s \<noteq> [] | _ \<Rightarrow> True)))"

definition put_wires :: "(double \<Rightarrow> u32) \<Rightarrow> pbc_env \<Rightarrow> nat \<Rightarrow> pbc_put \<Rightarrow> (u32 \<times> wfield) list" where
  "put_wires to_float env ty p = (let f = the (put_field env ty p); v = the (put_value to_float f p)
     in if fd_label f = LABEL_OPTIONAL \<and> at_default f p then [] else [(field_key f v, v)])"

section \<open>A request appends its field\<close>

lemma int32_encode_bytes32: "int32_encode v = bytes32 v" by (simp add: int32_encode_def bytes32_def)

lemma low_byte: "k + 8 \<le> 32 \<Longrightarrow> (ucast (drop_bit k (ucast (v :: u64) :: u32) AND 0xff) :: u8) = ucast (drop_bit k v AND 0xff)"
proof -
  assume k: "k + 8 \<le> 32"
  have m: "x AND 0xff = take_bit 8 x" "y AND 0xff = take_bit 8 y" for x :: u64 and y :: u32
    by (simp_all add: take_bit_eq_mask mask_eq_exp_minus_1)
  show ?thesis unfolding m by (rule bit_word_eqI) (use k in \<open>auto simp: bit_simps\<close>)
qed

lemma double_encode_halves: "double_encode v = bytes32 (low (halves v)) @ bytes32 (hi (halves v))"
proof -
  have "bytes32 (ucast v) = map (\<lambda>k. ucast (drop_bit k v AND 0xff)) [0, 8, 16, 24]" for v :: u64
    by (simp only: bytes32_def list.map low_byte)
  then show ?thesis by (simp add: halves_def double_encode_def)
qed

lemma integer_bytes_value: "integer_bytes ty l h = map_option (\<lambda>v. (wire_type v, payload v)) (integer_value ty l h)"
  unfolding integer_value_def integer_bytes_def if_distrib [of "map_option (\<lambda>v. (wire_type v, payload v))"]
    option.map wire_type.simps payload.simps longlong.simps
  by (intro if_cong refl) (simp_all add: encode32_encode int64_encode_def int32_encode_bytes32 zigzag32_def zigzag_def zig_def)

lemma real_bytes_value: "real_bytes to_float ty x = map_option (\<lambda>v. (wire_type v, payload v)) (real_value to_float ty x)"
  by (simp add: real_value_def real_bytes_def float_encode_def int32_encode_bytes32 double_encode_halves)

lemma halves_join: "halves (join l h) = \<lparr>low = l, hi = h\<rparr>"
proof -
  have "(ucast (join l h) :: u32) = l" unfolding join_def by (rule bit_word_eqI) (auto simp: bit_simps)
  moreover have "(ucast (drop_bit 32 (join l h)) :: u32) = h"
    unfolding join_def by (rule bit_word_eqI) (auto simp: bit_simps dest: bit_imp_le_length)
  ultimately show ?thesis by (simp add: halves_def)
qed

lemma join_halves: "join (ucast v) (ucast (drop_bit 32 v)) = v"
  unfolding join_def by (rule bit_word_eqI) (auto simp: bit_simps)

lemma join_eq: "l = ucast d \<and> h = ucast (drop_bit 32 d) \<longleftrightarrow> d = join l h"
  using halves_join [of l h] join_halves [of d] by (auto simp: halves_def)

lemma mem_strcmp_string: "CHR 0x00 \<notin> set s \<Longrightarrow> length v = length s \<Longrightarrow> mem_strcmp (v @ [CHR 0x00]) s = Some (v = s)"
proof (induction v arbitrary: s)
  case (Cons c v)
  then show ?case by (cases s) auto
qed simp

text \<open>The guards of the three functions agree with the specification.\<close>

lemma is_default_spec:
  assumes "default_ok f" "integer_value (fd_type f) l h \<noteq> None"
  shows "is_default f l h = Some (fd_label f = LABEL_OPTIONAL \<and> at_default f (Put_integer key l h))"
proof -
  have "fd_type f \<notin> {PTYPE_STRING, PTYPE_BYTES}" using assms(2) by (auto simp: integer_value_def ptype_defs)
  then show ?thesis using assms(1) join_eq [of l _ h] by (cases "fd_default f") (auto simp: is_default_def default_ok_def)
qed

lemma string_default_spec:
  assumes "default_ok f" "fd_type f \<in> {PTYPE_STRING, PTYPE_BYTES}"
  shows "string_default f (v @ [CHR 0x00]) (length v) = Some (fd_label f = LABEL_OPTIONAL \<and> at_default f (Put_string key v))"
proof -
  obtain s l where s: "fd_default f = D_string s l" "CHR 0x00 \<notin> set s" "int (length s) = sint l"
    using assms(1,2) by (cases "fd_default f") (auto simp: default_ok_def ptype_defs)
  have "fd_type f \<noteq> PTYPE_ENUM" using assms(2) by (auto simp: ptype_defs)
  then show ?thesis using s mem_strcmp_string [OF s(2), of v] by (auto simp: string_default_def simp flip: s(3))
qed

lemma small_payload: "(case v of F_bytes bs \<Rightarrow> False | _ \<Rightarrow> True) \<Longrightarrow> length (payload v) \<le> 10"
  using length_encode_le by (cases v) simp_all

lemma integer_value_small: "integer_value ty l h = Some v \<Longrightarrow> length (payload v) \<le> 10"
  by (rule small_payload) (auto simp: integer_value_def split: if_splits)

lemma real_value_small: "real_value to_float ty x = Some v \<Longrightarrow> length (payload v) \<le> 8"
  by (auto simp: real_value_def split: if_splits)

text \<open>What a request does to the message \<open>m\<close> with the bytes \<open>bs\<close>.\<close>

definition appends_wires :: "nat \<Rightarrow> pbc_world \<Rightarrow> u8 list \<Rightarrow> (u32 \<times> wfield) list \<Rightarrow> (int \<times> pbc_world) option \<Rightarrow> bool" where
  "appends_wires i w bs fs r \<longleftrightarrow> (\<exists>m'. r = Some (0, set_message i m' w) \<and> written m' (bs @ wires fs) \<and>
     same_rest (ww_messages w ! i) m')"

lemma appends_none: "i < length (ww_messages w) \<Longrightarrow> written (ww_messages w ! i) bs \<Longrightarrow> appends_wires i w bs [] (Some (0, w))"
  by (auto simp: appends_wires_def set_message_def intro!: exI [of _ "ww_messages w ! i"])

lemma put_scalar:
  assumes "i < length (ww_messages w)" "written (ww_messages w ! i) bs" "length bs + n < 2 ^ 30" "length (payload v) + 5 \<le> n"
  shows "appends_wires i w bs [(field_key f v, v)] (do {
     m \<leftarrow> expand n (ww_messages w ! i);
     m \<leftarrow> write_field f (Some (wire_type v, payload v)) m;
     Some (0, set_message i m w)
   })"
  using expand_write_field [OF assms(2-4), of f "wire_type v"]
  by (auto simp: appends_wires_def wire_def field_key_def)

lemma put_string:
  assumes "i < length (ww_messages w)" "written (ww_messages w ! i) bs" "length bs + length v + 40 < 2 ^ 30"
  shows "appends_wires i w bs [(field_key f (F_bytes (map of_char v)), F_bytes (map of_char v))] (do {
     m \<leftarrow> expand 20 (ww_messages w ! i);
     m \<leftarrow> write_field f (Some (WT_LEND, encode32 (of_nat (length v)))) m;
     m \<leftarrow> expand (length v) m;
     c_assert (length v \<le> length (v @ [CHR 0x00]));
     m \<leftarrow> wput (map of_char (take (length v) (v @ [CHR 0x00]))) m;
     Some (0, set_message i m w)
   })"
proof -
  let ?n = "encode32 (of_nat (length v))" and ?k = "encode32 (push_bit 3 (fd_id f) OR WT_LEND)"
  have l: "length ?n + 5 \<le> 20" "length ?n \<le> 5" "length ?k \<le> 5"
    using length_encode32_le [of "of_nat (length v)"] length_encode32_le [of "push_bit 3 (fd_id f) OR WT_LEND"] by simp_all
  obtain m1 m2 where m: "expand 20 (ww_messages w ! i) = Some m1" "write_field f (Some (WT_LEND, ?n)) m1 = Some m2"
      "written m2 (bs @ ?k @ ?n)" "same_rest (ww_messages w ! i) m2"
    using expand_write_field [OF assms(2) _ l(1), of f WT_LEND] assms(3) by auto
  have "length (bs @ ?k @ ?n) + length v < 2 ^ 30" using assms(3) l by simp
  from expand_ok [OF m(3) this] obtain m3 where m3: "expand (length v) m2 = Some m3" "written m3 (bs @ ?k @ ?n)" "room (length v) m3"
    "same_rest m2 m3" by blast
  obtain m4 where m4: "wput (map of_char v) m3 = Some m4" "written m4 ((bs @ ?k @ ?n) @ map of_char v)" "same_rest m3 m4"
    using wput_ok [OF m3(2,3), of "map of_char v"] by auto
  have "same_rest (ww_messages w ! i) m4" using m(4) m3(4) m4(3) same_rest_trans by blast
  then show ?thesis using m(1,2) m3(1) m4 by (auto simp: appends_wires_def wire_def field_key_def)
qed

lemma put_appends:
  assumes "put_ok to_float env ty p" "i < length (ww_messages w)" "wm_type (ww_messages w ! i) = ty" "written (ww_messages w ! i) bs"
    and "length bs + length (wires (put_wires to_float env ty p)) + 64 < 2 ^ 30"
  shows "appends_wires i w bs (put_wires to_float env ty p) (put to_float env i p w)"
proof -
  obtain f where f: "put_field env ty p = Some f" using assms(1) by (auto simp: put_ok_def split: option.splits)
  then obtain fi where fi: "find_field env (ww_messages w ! i) (put_key p) = Some (Some fi)" "f = pe_fields env fi"
    by (auto simp: put_field_def find_field_def assms(3) split: option.splits)
  obtain v where v: "put_value to_float f p = Some v" using assms(1) f by (auto simp: put_ok_def split: option.splits)
  have ok: "fd_label f \<noteq> LABEL_PACKED" "default_ok f" "field_ok (field_key f v, v)"
      "case p of Put_string key s \<Rightarrow> s \<noteq> [] | _ \<Rightarrow> True"
    using assms(1) f v by (auto simp: put_ok_def)
  have wires: "put_wires to_float env ty p = (if fd_label f = LABEL_OPTIONAL \<and> at_default f p then [] else [(field_key f v, v)])"
    by (simp add: put_wires_def f v)
  show ?thesis
  proof (cases p)
    case (Put_integer key l h)
    have iv: "integer_value (fd_type f) l h = Some v" using v by (simp add: Put_integer)
    have d: "is_default f l h = Some (fd_label f = LABEL_OPTIONAL \<and> at_default f p)"
      using is_default_spec [OF ok(2), of l h key] iv by (simp add: Put_integer)
    have "length (payload v) + 5 \<le> 20" using integer_value_small [OF iv] by simp
    from put_scalar [OF assms(2,4) _ this, of f] show ?thesis
      using fi ok(1) d appends_none [OF assms(2,4)] assms(5) integer_bytes_value [of "fd_type f" l h] iv
      unfolding wires by (simp add: Put_integer wmessage_integer_def assms(2) Let_def)
  next
    case (Put_real key x)
    have rv: "real_value to_float (fd_type f) x = Some v" using v by (simp add: Put_real)
    then have ty: "fd_type f \<noteq> PTYPE_ENUM" "fd_type f \<notin> {PTYPE_STRING, PTYPE_BYTES}"
      by (auto simp: real_value_def ptype_defs split: if_splits)
    then obtain d where d: "fd_default f = D_number d" using ok(2) by (cases "fd_default f") (auto simp: default_ok_def)
    have "length (payload v) + 5 \<le> 18" using real_value_small [OF rv] by simp
    from put_scalar [OF assms(2,4) _ this, of f] show ?thesis
      using fi ok(1) d appends_none [OF assms(2,4)] assms(5) real_bytes_value [of to_float "fd_type f" x] rv
      unfolding wires by (simp add: Put_real wmessage_real_def assms(2) Let_def)
  next
    case (Put_string key s)
    have sv: "fd_type f \<in> {PTYPE_STRING, PTYPE_BYTES}" "v = F_bytes (map of_char s)" using v by (auto simp: Put_string split: if_splits)
    have ne: "fd_type f \<noteq> PTYPE_ENUM" using sv(1) by (auto simp: ptype_defs)
    have len: "length s < 2 ^ 31" using ok(3) sv(2) by simp
    have pos: "s \<noteq> []" using ok(4) by (simp add: Put_string)
    have sl: "sint (of_nat (length s) :: i32) = int (length s)" by (rule sint_of_nat_31 [OF len])
    have d: "string_default f (s @ [CHR 0x00]) (length s) = Some (fd_label f = LABEL_OPTIONAL \<and> at_default f p)"
      using string_default_spec [OF ok(2) sv(1), of s key] by (simp add: Put_string)
    have f': "fd_label f \<noteq> LABEL_PACKED" "pe_fields env fi = f" using ok(1) fi(2) by simp_all
    show ?thesis
    proof (cases "fd_label f = LABEL_OPTIONAL \<and> at_default f p")
      case True
      then show ?thesis
        using fi(1) f' d appends_none [OF assms(2,4)] len pos unfolding wires
        by (simp add: Put_string wmessage_string_def assms(2) sl Let_def)
    next
      case False
      then have "length bs + length s + 40 < 2 ^ 30" using assms(5) unfolding wires if_not_P [OF False] by (simp add: wire_def sv(2))
      moreover have "string_default f (s @ [CHR 0x00]) (length s) = Some False" using d False by simp
      ultimately show ?thesis
        using put_string [OF assms(2,4), of s f] fi(1) f' len pos ne sv unfolding wires if_not_P [OF False]
        by (simp add: Put_string wmessage_string_def assms(2) sl Let_def)
    qed
  qed
qed

section \<open>The fields come back\<close>

text \<open>What an atom says, as \<open>read_value\<close> of \<open>rmessage.c\<close> takes it from the union and the buffer.\<close>

definition atom_field :: "u8 list \<Rightarrow> atom \<Rightarrow> u32 \<times> wfield" where
  "atom_field mem a = (wire_id a, case at_v a of
     A_slice s e \<Rightarrow> F_bytes (take (nat (sint e - sint s)) (drop (nat (sint s)) mem))
   | A_integer x \<Rightarrow>
       if wire_id a AND 7 = WT_VARINT then F_varint (join (low x) (hi x))
       else if wire_id a AND 7 = WT_BIT64 then F_bit64 x
       else F_bit32 (low x))"

lemma atom_field_wire:
  assumes "field_ok kf" "length (pre @ wire kf @ rest) < 2 ^ 31"
  shows "atom_field (pre @ wire kf @ rest) (field_atom (length pre) kf) = kf"
proof -
  obtain k v where kf: "kf = (k, v)" by (cases kf)
  have ty: "k AND 7 = wire_type v" using assms(1) by (simp add: kf)
  show ?thesis
  proof (cases v)
    case (F_bytes bs)
    let ?b = "encode32 (of_nat (length bs))"
    let ?p = "length pre + length (encode32 k) + length ?b"
    have "?p + length bs < 2 ^ 31" using assms(2) by (simp add: kf wire_def F_bytes)
    then have "sint (of_nat ?p :: i32) = int ?p" "sint (of_nat (?p + length bs) :: i32) = int (?p + length bs)"
      by (simp_all only: sint_of_nat_31 add_lessD1 [of ?p "length bs"])
    moreover have "take (length bs) (drop ?p (pre @ wire kf @ rest)) = bs" by (simp add: kf wire_def F_bytes)
    ultimately show ?thesis
      by (simp add: kf field_atom_def atom_field_def F_bytes Let_def nat_diff_distrib del: of_nat_add)
  next
    case (F_varint x)
    then show ?thesis using ty join_halves [of x] by (simp add: kf field_atom_def atom_field_def halves_def)
  qed (use ty in \<open>simp_all add: kf field_atom_def atom_field_def wt_defs\<close>)
qed

lemma atom_fields_wires:
  "\<lbrakk>\<forall>kf \<in> set fs. field_ok kf; length (pre @ wires fs) < 2 ^ 31\<rbrakk> \<Longrightarrow> map (atom_field (pre @ wires fs)) (field_atoms (length pre) fs) = fs"
proof (induction fs arbitrary: pre)
  case (Cons kf fs)
  have "map (atom_field ((pre @ wire kf) @ wires fs)) (field_atoms (length (pre @ wire kf)) fs) = fs"
    using Cons.prems by (intro Cons.IH) simp_all
  then show ?case using atom_field_wire [of kf pre "wires fs"] Cons.prems by simp
qed simp

lemma put_wires_ok: "put_ok to_float env ty p \<Longrightarrow> \<forall>kf \<in> set (put_wires to_float env ty p). field_ok kf"
  by (auto simp: put_ok_def put_wires_def Let_def split: option.splits)

lemma puts_append:
  assumes "\<forall>p \<in> set ps. put_ok to_float env ty p" "i < length (ww_messages w)" "wm_type (ww_messages w ! i) = ty"
    and "written (ww_messages w ! i) bs" "length bs + length (wires (concat (map (put_wires to_float env ty) ps))) + 64 < 2 ^ 30"
  shows "\<exists>w'. puts to_float env i ps w = Some w' \<and> i < length (ww_messages w') \<and> same_rest (ww_messages w ! i) (ww_messages w' ! i) \<and>
    written (ww_messages w' ! i) (bs @ wires (concat (map (put_wires to_float env ty) ps)))"
  using assms
proof (induction ps arbitrary: w bs)
  case (Cons p ps)
  let ?f = "put_wires to_float env ty p" and ?fs = "concat (map (put_wires to_float env ty) ps)"
  have "appends_wires i w bs ?f (put to_float env i p w)"
    using Cons.prems by (intro put_appends) (simp_all add: wires_append)
  then obtain m' where m': "put to_float env i p w = Some (0, set_message i m' w)" "written m' (bs @ wires ?f)"
    "same_rest (ww_messages w ! i) m'" by (auto simp: appends_wires_def)
  let ?w = "set_message i m' w"
  have w: "i < length (ww_messages ?w)" "ww_messages ?w ! i = m'" using Cons.prems(2) by (simp_all add: set_message_def)
  obtain w' where "puts to_float env i ps ?w = Some w'" "i < length (ww_messages w')" "same_rest m' (ww_messages w' ! i)"
    "written (ww_messages w' ! i) ((bs @ wires ?f) @ wires ?fs)"
    using Cons.IH [of ?w "bs @ wires ?f"] Cons.prems m'(2,3) w by (auto simp: wires_append same_rest_def)
  then show ?case using m'(1,3) same_rest_trans by (auto simp: wires_append)
qed simp

lemma slice_of_written: "written m bs \<Longrightarrow> slice_of m = Some bs"
proof -
  have "those (map Some bs) = Some bs" by (induction bs) simp_all
  then show "written m bs \<Longrightarrow> slice_of m = Some bs" by (simp add: slice_of_def written_def)
qed


text \<open>A message with a number and a name.\<close>

definition demo_fields :: "nat \<Rightarrow> pbc_field" where
  "demo_fields k = (if k = 0
     then \<lparr>fd_id = 1, fd_type = PTYPE_UINT32, fd_label = LABEL_OPTIONAL, fd_default = D_number 0, fd_enum = [], fd_message = 0\<rparr>
     else \<lparr>fd_id = 2, fd_type = PTYPE_STRING, fd_label = 1, fd_default = D_string [] 0, fd_enum = [], fd_message = 0\<rparr>)"

definition demo_env :: pbc_env where
  "demo_env = \<lparr>pe_names = (\<lambda>_. the (sp_insert ''name'' (Some 1) (the (sp_insert ''id'' (Some 0) (sp_new 4))))), pe_fields = demo_fields\<rparr>"

lemma demo_env_query:
  "sp_query (pe_names demo_env 0) ''id'' = Some (Some 0)" "sp_query (pe_names demo_env 0) ''name'' = Some (Some 1)"
proof -
  have new: "sp_ok (sp_new 4 :: nat map_sp)" "sp_map (sp_new 4 :: nat map_sp) = Map.empty"
    using sp_new_ok [of "sp_new 4 :: nat map_sp" 4] by simp_all
  obtain m1 where m1: "sp_insert ''id'' (Some 0) (sp_new 4 :: nat map_sp) = Some m1" "sp_ok m1" "sp_map m1 = [''id'' \<mapsto> Some 0]"
    using sp_insert_ok [OF new(1), of "''id''" "Some 0"] new(2) by auto
  obtain m2 where m2: "sp_insert ''name'' (Some 1) m1 = Some m2" "sp_ok m2" "sp_map m2 = [''id'' \<mapsto> Some 0, ''name'' \<mapsto> Some 1]"
    using sp_insert_ok [OF m1(2), of "''name''" "Some 1"] m1(3) by auto
  have "calc_hash ''id'' \<noteq> 0" "calc_hash ''name'' \<noteq> 0" by code_simp+
  then show "sp_query (pe_names demo_env 0) ''id'' = Some (Some 0)" "sp_query (pe_names demo_env 0) ''name'' = Some (Some 1)"
    using sp_query_ok [OF m2(2)] m1(1) m2(1,3) by (simp_all add: demo_env_def)
qed


section \<open>Where the format goes wrong\<close>

text \<open>A length near \<open>2 ^ 32\<close> passes the test \<open>cap < len + r.low\<close>, which wraps: the next field is read 4 GB further on.\<close>

lemma open_length_wraps:
  assumes "length temp = 10"
  shows "pbcC_open temp (Some (encode32 10 @ encode32 0xfffffffb @ [0])) (of_nat (length (encode32 10 @ encode32 0xfffffffb @ [0]))) ctx = None"
proof -
  let ?mem = "encode32 10 @ encode32 0xfffffffb @ [0]"
  have len: "length (encode32 10) = 1" "length (encode32 0xfffffffb) = 5" by (simp_all add: encode32_def)
  obtain t1 where t1: "length t1 = 10" "varint_at temp ?mem 0 7 = Some (t1, 1, \<lparr>low = 10, hi = 0\<rparr>)"
    using varint32_at_encoded [OF assms, of 10 "encode32 0xfffffffb @ [0]" "[]"] by (auto simp: len)
  obtain t2 where t2: "varint_at t1 ?mem 1 6 = Some (t2, 5, \<lparr>low = 0xfffffffb, hi = 0\<rparr>)"
    using varint32_at_encoded [OF t1(1), of "0xfffffffb" "[0]" "encode32 10"] by (auto simp: len)
  have d: "\<exists>v. wiretype_decode temp ?mem 0 7 0 = Some (Some (v, 4294967297))"
    using t2 by (simp add: wiretype_decode_def t1(2) decode_payload_def wt_defs)
  have "varint_at temp ?mem 4294967297 6 = None" by (simp add: varint_at_def len)
  then have "wiretype_decode temp ?mem 4294967297 6 1 = None" by (simp add: wiretype_decode_def)
  then have "open_inner temp ?mem 4294967297 6 1 [v] = None" for v by (simp add: open_inner.simps INNER_ATOM_def)
  moreover have w: "(- 4294967290 :: i32) = 6" "(4294967297 :: i32) = 1" by simp_all
  ultimately have "open_inner temp ?mem 0 7 0 [] = None" using d by (subst open_inner.simps) (auto simp: INNER_ATOM_def w)
  then show ?thesis by (simp add: pbcC_open_def len)
qed

text \<open>A packed field of twenty numbers is written behind the atoms inside the context.\<close>

lemma packed_overflow: "pbcC_open_packed (replicate 10 0) PTYPE_INT32 (Some (replicate 20 1)) 20 ctx = None"
proof -
  have "packed_inner (replicate 10 0) (replicate 20 1) 0 20 [] = Some (19, 1, replicate 19 \<lparr>wire_id = 0, at_v = A_integer \<lparr>low = 1, hi = 0\<rparr>\<rparr>)"
    by code_simp
  moreover have "packed_heap (replicate 10 0) (replicate 20 1) 19 1 19 (map Some (replicate 19 x)) (replicate 64 None) = None" for x
    by (subst packed_heap.simps) (simp add: decode_varint_def varint_at_def decode_def)
  ultimately show ?thesis
    by (simp add: pbcC_open_packed_def open_packed_varint_def INNER_ATOM_def ptype_defs Let_def replicate_0 del: replicate_Suc)
qed

text \<open>A packed field whose last number is cut off makes the number of bytes left negative, and the copy of them fail.\<close>

lemma packed_cut_off: "pbcC_open_packed (replicate 10 1) PTYPE_INT32 (Some [0x80]) 1 ctx = None"
  by code_simp

text \<open>Packed values of 32 bits are written eight bytes apart: the bytes between them are what was in memory.\<close>

lemma packed_32_gaps:
  "(do {
     a \<leftarrow> push_integer 1 0 array_open_heap;
     a \<leftarrow> push_integer 2 0 a;
     m \<leftarrow> pack_packed_32 (\<lambda>_. 0) \<lparr>pk_id = 1, pk_ptype = PTYPE_FIXED32, pk_data = a\<rparr>
       \<lparr>wm_type = 0, wm_buffer = replicate WMESSAGE_SIZE None, wm_ptr = 0, wm_sub = array_open_heap, wm_packed = None\<rparr>;
     slice_of m
   }) = None"
  by code_simp

end
