(* ===== verification/Base64.thy ===== *)
theory Base64
  imports Prelude
begin

text \<open>
  \<open>gate/base64.c\<close>, with which the gate answers a websocket handshake: the encoder, the decoder, and
  that the second takes back what the first has written.
\<close>

unbundle bit_operations_syntax

section \<open>Encoding\<close>

definition BASE64_CHARS :: string where
  "BASE64_CHARS = ''ABCDEFGHIJKLMNOPQRSTUVWXYZabcdefghijklmnopqrstuvwxyz0123456789+/''"

text \<open>Three bytes as four characters; the numbers are below \<open>2 ^ 24\<close>.\<close>

definition encode_triple :: "u8 \<Rightarrow> u8 \<Rightarrow> u8 \<Rightarrow> string" where
  "encode_triple a b c =
     (let v = (unat a * 256 + unat b) * 256 + unat c
      in map (\<lambda>k. BASE64_CHARS ! (v div 64 ^ k mod 64)) [3, 2, 1, 0])"

text \<open>The loop over full triples, and the last one or two bytes.\<close>

fun encode_bytes :: "u8 list \<Rightarrow> string" where
  "encode_bytes [] = []"
| "encode_bytes [a] = (encode_triple a 0 0)[3 := CHR ''='', 2 := CHR ''='']"
| "encode_bytes [a, b] = (encode_triple a b 0)[3 := CHR ''='']"
| "encode_bytes (a # b # c # bs) = encode_triple a b c @ encode_bytes bs"

text \<open>
  \<open>base64_encode\<close>: 0 when the target is too small, or 1 and the text.  A target of no length passes the test,
  since \<open>targetlen - 1\<close> is unsigned, and is written behind its end.
\<close>

definition base64_encode :: "u8 list \<Rightarrow> nat \<Rightarrow> (int \<times> string) option" where
  "base64_encode source targetlen =
     (if targetlen = 0 then None
      else if targetlen - 1 < (length source + 2) div 3 * 4 then Some (0, [])
      else Some (1, encode_bytes source))"

section \<open>Decoding\<close>

definition char_value :: "char \<Rightarrow> int" where
  "char_value ch =
     (let n = of_char ch :: int in
      if 65 \<le> n \<and> n \<le> 90 then n - 65
      else if 97 \<le> n \<and> n \<le> 122 then n - 97 + 26
      else if 48 \<le> n \<and> n \<le> 57 then n - 48 + 2 * 26
      else if ch = CHR ''+'' then 2 * 26 + 10
      else if ch = CHR ''/'' then 2 * 26 + 11
      else -1)"

text \<open>
  The check of the four characters from the last to the first: the values with 0 for the padding, and the
  number of bytes, or \<open>None\<close> for a bad character.
\<close>

fun check_chars :: "char list \<Rightarrow> bool \<Rightarrow> int \<Rightarrow> (int list \<times> int) option" where
  "check_chars [] only_equals n = Some ([], n)"
| "check_chars (ch # rest) only_equals n =
     (if char_value ch < 0 then
        if only_equals \<and> ch = CHR ''='' then map_option (\<lambda>(vs, n). (vs @ [0], n)) (check_chars rest True (n - 1))
        else None
      else map_option (\<lambda>(vs, n). (vs @ [char_value ch], n)) (check_chars rest False n))"

definition decode_triple :: "char list \<Rightarrow> u8 list" where
  "decode_triple quad = (case check_chars (rev quad) True 3 of
     None \<Rightarrow> []
   | Some (vs, n) \<Rightarrow>
       (let n = nat n;
            v = ((vs ! 0 * 64 + vs ! 1) * 64 + vs ! 2) * 64 + vs ! 3
        in map (\<lambda>i. of_int (v div 256 ^ (2 - i) mod 256)) [0..<n]))"

text \<open>The next character that counts; \<open>None\<close> is a read behind the end.\<close>

definition next_char :: "string \<Rightarrow> (char \<times> string) option" where
  "next_char s = (case dropWhile (\<lambda>ch. ch \<noteq> CHR ''='' \<and> char_value ch < 0) s of [] \<Rightarrow> None | ch # s \<Rightarrow> Some (ch, s))"

fun next_chars :: "nat \<Rightarrow> string \<Rightarrow> (char list \<times> string) option" where
  "next_chars 0 s = Some ([], s)"
| "next_chars (Suc n) s = do {
     (ch, s) \<leftarrow> next_char s;
     (chs, s) \<leftarrow> next_chars n s;
     Some (ch # chs, s)
   }"

lemma next_char_less: "next_char s = Some (ch, t) \<Longrightarrow> length t < length s"
proof -
  assume "next_char s = Some (ch, t)"
  then have "dropWhile (\<lambda>ch. ch \<noteq> CHR ''='' \<and> char_value ch < 0) s = ch # t" by (auto simp: next_char_def split: list.splits)
  then have "length (ch # t) \<le> length s" by (metis length_dropWhile_le)
  then show ?thesis by simp
qed

lemma next_chars_less: "next_chars (Suc n) s = Some (chs, t) \<Longrightarrow> length t < length s"
proof (induction n arbitrary: s chs)
  case 0
  then show ?case by (auto simp: bind_eq_Some_conv dest: next_char_less)
next
  case (Suc n)
  then obtain ch u chs' where "next_char s = Some (ch, u)" "next_chars (Suc n) u = Some (chs', t)"
    by (auto simp: bind_eq_Some_conv simp del: next_chars.simps(2) simp: next_chars.simps(2) [of "Suc n"])
  then show ?case using Suc.IH next_char_less by (meson less_trans)
qed

text \<open>The loop of \<open>base64_decode\<close>: the bytes, or \<open>Some None\<close> when they do not fit.\<close>

function decode_loop :: "string \<Rightarrow> nat \<Rightarrow> u8 list option option" where
  "decode_loop s targetlen = (case next_chars 4 s of
     None \<Rightarrow> None
   | Some (quad, s) \<Rightarrow>
       (let tmp = decode_triple quad in
        if targetlen < length tmp then Some None
        else if length tmp = 3 then map_option (map_option ((@) tmp)) (decode_loop s (targetlen - 3))
        else Some (Some tmp)))"
  by pat_completeness auto
termination decode_loop
  by (relation "measure (\<lambda>(s, _). length s)") (auto simp: numeral_eq_Suc simp del: next_chars.simps dest!: next_chars_less)

declare decode_loop.simps [simp del]

definition base64_decode :: "string \<Rightarrow> nat \<Rightarrow> u8 list option option" where
  "base64_decode source targetlen = decode_loop (source @ ''===='') targetlen"

section \<open>Characters and digits\<close>

lemma char_value_chars: "n < 64 \<Longrightarrow> char_value (BASE64_CHARS ! n) = int n"
proof -
  have "list_all (\<lambda>n. char_value (BASE64_CHARS ! n) = int n) [0..<64]" by code_simp
  then show "n < 64 \<Longrightarrow> char_value (BASE64_CHARS ! n) = int n" by (simp add: list_all_iff)
qed

lemma char_value_equals: "char_value (CHR ''='') = -1" by code_simp

lemma next_char_simps [simp]:
  "n < 64 \<Longrightarrow> next_char (BASE64_CHARS ! n # s) = Some (BASE64_CHARS ! n, s)" "next_char (CHR ''='' # s) = Some (CHR ''='', s)"
  by (simp_all add: next_char_def char_value_chars)

lemma next_chars_4:
  "\<lbrakk>next_char (a # s) = Some (a, s); next_char (b # t) = Some (b, t); next_char (c # u) = Some (c, u); next_char (d # v) = Some (d, v);
    s = b # t; t = c # u; u = d # v\<rbrakk> \<Longrightarrow> next_chars 4 (a # s) = Some ([a, b, c, d], v)"
  by (simp add: numeral_eq_Suc)

text \<open>Four digits to the base 64 that are three to the base 256.\<close>

lemma digits_64: "v < 64 ^ 4 \<Longrightarrow> ((v div 64 ^ 3 mod 64 * 64 + v div 64 ^ 2 mod 64) * 64 + v div 64 ^ 1 mod 64) * 64 + v div 64 ^ 0 mod 64 = (v :: nat)"
proof -
  assume v: "v < 64 ^ 4"
  define p q r where "p = v div 64" and "q = p div 64" and "r = q div 64"
  have "v div 64 ^ 2 = q" "v div 64 ^ 3 = r" by (simp_all add: p_def q_def r_def flip: div_mult2_eq)
  moreover have "r < 64" using v by (simp add: p_def q_def r_def div_less_iff_less_mult flip: div_mult2_eq)
  moreover have "64 * p + v mod 64 = v" "64 * q + p mod 64 = p" "64 * r + q mod 64 = q" by (simp_all add: p_def q_def r_def)
  ultimately show ?thesis by (simp add: p_def [symmetric])
qed

lemma three_bytes:
  assumes "v = (unat (a :: u8) * 256 + unat (b :: u8)) * 256 + unat (c :: u8)"
  shows "v < 64 ^ 4" "v div 256 ^ 2 mod 256 = unat a" "v div 256 ^ 1 mod 256 = unat b" "v div 256 ^ 0 mod 256 = unat c"
proof -
  have u: "unat a < 256" "unat b < 256" "unat c < 256" using unsigned_less [of a] unsigned_less [of b] unsigned_less [of c] by simp_all
  show "v < 64 ^ 4" using u unfolding assms by simp
  have b: "v div 256 = unat a * 256 + unat b" using u(3) unfolding assms by simp
  have a: "v div 256 ^ 2 = unat a" using u(2) b by (simp add: power2_eq_square div_mult2_eq)
  show "v div 256 ^ 2 mod 256 = unat a" using a u(1) by simp
  show "v div 256 ^ 1 mod 256 = unat b" using b u(2) by simp
  have "v mod 256 = unat c mod 256" unfolding assms by (rule mod_mult_self3)
  then show "v div 256 ^ 0 mod 256 = unat c" using u(3) by simp
qed

text \<open>What a quadruple of characters decodes to, when the last ones are padding.\<close>

lemma decode_triple_digits:
  assumes "v = (unat a * 256 + unat b) * 256 + unat c"
    and "quad = map (\<lambda>k. BASE64_CHARS ! (v div 64 ^ k mod 64)) [3, 2, 1, 0]"
  shows "decode_triple quad = [a, b, c]"
    and "c = 0 \<Longrightarrow> decode_triple (quad[3 := CHR ''='']) = [a, b]"
    and "c = 0 \<Longrightarrow> b = 0 \<Longrightarrow> decode_triple (quad[3 := CHR ''='', 2 := CHR ''='']) = [a]"
proof -
  note b = three_bytes [OF assms(1)]
  define d where "d = (\<lambda>k. v div 64 ^ k mod 64)"
  have q: "quad = [BASE64_CHARS ! d 3, BASE64_CHARS ! d 2, BASE64_CHARS ! d 1, BASE64_CHARS ! d 0]"
    unfolding assms(2) d_def by simp
  have small: "d k < 64" for k by (simp add: d_def)
  have sum: "((int (d 3) * 64 + int (d 2)) * 64 + int (d 1)) * 64 + int (d 0) = int v"
  proof -
    have "((d 3 * 64 + d 2) * 64 + d 1) * 64 + d 0 = v" unfolding d_def by (rule digits_64 [OF b(1)])
    from arg_cong [OF this, of int] show ?thesis by simp
  qed
  have bytes: "of_int (int v div 256 ^ 2 mod 256) = a" "of_int (int v div 256 ^ 1 mod 256) = b" "of_int (int v div 256 ^ 0 mod 256) = c"
    using arg_cong [OF b(2), of int] arg_cong [OF b(3), of int] arg_cong [OF b(4), of int]
    by (simp_all only: zdiv_int zmod_int of_nat_power of_nat_numeral) simp_all
  have up: "[0..<3] = [0, 1, 2 :: nat]" "[0..<2] = [0, 1 :: nat]" by (simp_all add: numeral_eq_Suc)
  show "decode_triple quad = [a, b, c]"
    unfolding decode_triple_def q using small sum bytes up by (simp add: char_value_chars Let_def)
  { assume "c = 0"
    then have v: "v = (unat a * 256 + unat b) * 256" using assms(1) by simp
    then have z: "d 0 = 0" by (simp add: d_def)
    then have "decode_triple (quad[3 := CHR ''='']) = [of_int (int v div 256 ^ 2 mod 256), of_int (int v div 256 ^ 1 mod 256)]"
      unfolding decode_triple_def q using small sum up by (simp add: char_value_chars char_value_equals Let_def)
    then show "decode_triple (quad[3 := CHR ''='']) = [a, b]" using bytes by simp
    assume "b = 0"
    then have "v = unat a * 65536" using v by simp
    then have "d 1 = 0" by (simp add: d_def)
    then have "decode_triple (quad[3 := CHR ''='', 2 := CHR ''='']) = [of_int (int v div 256 ^ 2 mod 256)]"
      unfolding decode_triple_def q using small sum z by (simp add: char_value_chars char_value_equals Let_def)
    then show "decode_triple (quad[3 := CHR ''='', 2 := CHR ''='']) = [a]" using bytes by simp
  }
qed

section \<open>Round trip\<close>

text \<open>Four characters of the alphabet or padding are taken as they are.\<close>

definition plain64 :: "char \<Rightarrow> bool" where "plain64 ch \<longleftrightarrow> ch = CHR ''='' \<or> 0 \<le> char_value ch"

lemma next_chars_plain: "list_all plain64 quad \<Longrightarrow> next_chars (length quad) (quad @ s) = Some (quad, s)"
  by (induction quad) (auto simp: next_char_def plain64_def)

lemma encode_triple_plain: "length (encode_triple a b c) = 4" "list_all plain64 (encode_triple a b c)"
  by (simp_all add: encode_triple_def Let_def plain64_def char_value_chars)

lemma plain64_update: "list_all plain64 quad \<Longrightarrow> list_all plain64 (quad[i := CHR ''=''])"
  using set_update_subset_insert [of quad i "CHR ''=''"] by (auto simp: list_all_iff plain64_def)

lemma decode_loop_step:
  assumes "length quad = 4" "list_all plain64 quad" "decode_triple quad = tmp" "length tmp \<le> n"
  shows "decode_loop (quad @ s) n =
    (if length tmp = 3 then map_option (map_option ((@) tmp)) (decode_loop s (n - 3)) else Some (Some tmp))"
  using next_chars_plain [OF assms(2), of s] assms by (subst decode_loop.simps) (simp add: Let_def)

lemma decode_triple_encoded:
  "decode_triple (encode_triple a b c) = [a, b, c]"
  "decode_triple ((encode_triple a b 0)[3 := CHR ''='']) = [a, b]"
  "decode_triple ((encode_triple a 0 0)[3 := CHR ''='', 2 := CHR ''='']) = [a]"
  using decode_triple_digits [OF refl refl] by (simp_all add: encode_triple_def Let_def)

lemma decode_encoded: "length bs \<le> n \<Longrightarrow> decode_loop (encode_bytes bs @ ''===='') n = Some (Some bs)"
proof (induction bs arbitrary: n rule: encode_bytes.induct)
  case 1
  have "decode_triple ''===='' = []" by code_simp
  then show ?case using decode_loop_step [of "''===='' " "[]" n "[]"] by (simp add: plain64_def)
next
  case (2 a)
  then show ?case
    using decode_loop_step [OF _ plain64_update [OF plain64_update [OF encode_triple_plain(2)]] decode_triple_encoded(3)]
    by (simp add: encode_triple_plain)
next
  case (3 a b)
  then show ?case
    using decode_loop_step [OF _ plain64_update [OF encode_triple_plain(2)] decode_triple_encoded(2)]
    by (simp add: encode_triple_plain)
next
  case (4 a b c bs)
  then show ?case
    using decode_loop_step [OF encode_triple_plain decode_triple_encoded(1)] by simp
qed

lemma length_encode_bytes: "length (encode_bytes bs) = (length bs + 2) div 3 * 4"
proof -
  have "(5 + n) div 3 = Suc (Suc (Suc n) div 3)" for n :: nat by presburger
  then show ?thesis by (induction bs rule: encode_bytes.induct) (simp_all add: encode_triple_plain)
qed

text \<open>
  C37: Base64 text decodes to the bytes it was made of.  When the target has room for the text and its NUL,
  the encoder succeeds and writes exactly the length it has tested; decoding the text into room for the
  bytes gives exactly these bytes, whatever the padding.
\<close>

theorem base64_roundtrip:
  assumes "(length bs + 2) div 3 * 4 < targetlen" "length bs \<le> n"
  shows "\<exists>t. base64_encode bs targetlen = Some (1, t) \<and> length t < targetlen \<and> base64_decode t n = Some (Some bs)"
  using assms decode_encoded [of bs n] by (simp add: base64_encode_def base64_decode_def length_encode_bytes)

lemma base64_roundtrip_witness:
  "\<exists>t. base64_encode [104, 105, 0, 255] 9 = Some (1, t) \<and> length t < 9 \<and> base64_decode t 4 = Some (Some [104, 105, 0, 255])"
  using base64_roundtrip [of "[104, 105, 0, 255]" 9 4] by simp

end
