(* ===== verification/Sha1.thy ===== *)
theory Sha1
  imports Prelude
begin

text \<open>
  \<open>gate/sha1.c\<close>, the digest of the websocket handshake, and the standard it follows.  A context takes the
  message in pieces.  The masks with \<open>0xFFFFFFFF\<close> do nothing to words of 32 bits.  \<open>None\<close> is an access
  outside the block of 64 bytes.
\<close>

unbundle bit_operations_syntax

section \<open>The program\<close>

record sha1_context =
  s1_digest :: "u32 list"
  s1_low :: u32
  s1_high :: u32
  s1_block :: "u8 list"
  s1_index :: nat
  s1_computed :: bool
  s1_corrupted :: bool

definition circular_shift :: "nat \<Rightarrow> u32 \<Rightarrow> u32" where
  "circular_shift bits w = push_bit bits w OR drop_bit (32 - bits) w"

definition sha1_reset :: "sha1_context \<Rightarrow> sha1_context" where
  "sha1_reset c = c\<lparr>s1_low := 0, s1_high := 0, s1_index := 0,
     s1_digest := [0x67452301, 0xEFCDAB89, 0x98BADCFE, 0x10325476, 0xC3D2E1F0], s1_computed := False, s1_corrupted := False\<rparr>"

definition block_word :: "u8 list \<Rightarrow> nat \<Rightarrow> u32" where
  "block_word m t = push_bit 24 (ucast (m ! (t * 4))) OR push_bit 16 (ucast (m ! (t * 4 + 1))) OR
     push_bit 8 (ucast (m ! (t * 4 + 2))) OR ucast (m ! (t * 4 + 3))"

definition message_words :: "u8 list \<Rightarrow> u32 list" where
  "message_words m =
     fold (\<lambda>t W. W @ [circular_shift 1 (W ! (t - 3) XOR W ! (t - 8) XOR W ! (t - 14) XOR W ! (t - 16))]) [16..<80]
       (map (block_word m) [0..<16])"

type_synonym word_buffers = "u32 \<times> u32 \<times> u32 \<times> u32 \<times> u32"

text \<open>The body of the four loops: they differ in the function and the constant.\<close>

definition sha1_step :: "(u32 \<Rightarrow> u32 \<Rightarrow> u32 \<Rightarrow> u32) \<Rightarrow> u32 \<Rightarrow> u32 \<Rightarrow> word_buffers \<Rightarrow> word_buffers" where
  "sha1_step f k w s = (case s of (A, B, C, D, E) \<Rightarrow>
     (circular_shift 5 A + f B C D + E + w + k, A, circular_shift 30 B, C, D))"

definition process_block :: "sha1_context \<Rightarrow> sha1_context" where
  "process_block c =
     (let W = message_words (s1_block c);
          h = s1_digest c;
          s = (h ! 0, h ! 1, h ! 2, h ! 3, h ! 4);
          s = fold (\<lambda>t. sha1_step (\<lambda>B C D. (B AND C) OR ((NOT B) AND D)) 0x5A827999 (W ! t)) [0..<20] s;
          s = fold (\<lambda>t. sha1_step (\<lambda>B C D. B XOR C XOR D) 0x6ED9EBA1 (W ! t)) [20..<40] s;
          s = fold (\<lambda>t. sha1_step (\<lambda>B C D. (B AND C) OR (B AND D) OR (C AND D)) 0x8F1BBCDC (W ! t)) [40..<60] s;
          s = fold (\<lambda>t. sha1_step (\<lambda>B C D. B XOR C XOR D) 0xCA62C1D6 (W ! t)) [60..<80] s
      in case s of (A, B, C, D, E) \<Rightarrow>
           c\<lparr>s1_digest := [h ! 0 + A, h ! 1 + B, h ! 2 + C, h ! 3 + D, h ! 4 + E], s1_index := 0\<rparr>)"

text \<open>\<open>Message_Block[Message_Block_Index++] = b\<close>\<close>

definition put_byte :: "u8 \<Rightarrow> sha1_context \<Rightarrow> sha1_context option" where
  "put_byte b c = (if s1_index c < 64 then Some (c\<lparr>s1_block := (s1_block c)[s1_index c := b], s1_index := s1_index c + 1\<rparr>) else None)"

fun put_bytes64 :: "u8 list \<Rightarrow> sha1_context \<Rightarrow> sha1_context option" where
  "put_bytes64 [] c = Some c"
| "put_bytes64 (b # bs) c = do { c \<leftarrow> put_byte b c; put_bytes64 bs c }"

definition count_length :: "sha1_context \<Rightarrow> sha1_context" where
  "count_length c =
     (let c = c\<lparr>s1_low := s1_low c + 8\<rparr>
      in if s1_low c = 0 then
           (let c = c\<lparr>s1_high := s1_high c + 1\<rparr> in if s1_high c = 0 then c\<lparr>s1_corrupted := True\<rparr> else c)
         else c)"

fun input_loop :: "u8 list \<Rightarrow> sha1_context \<Rightarrow> sha1_context option" where
  "input_loop [] c = Some c"
| "input_loop (b # bs) c =
     (if s1_corrupted c then Some c
      else do {
        c \<leftarrow> put_byte b c;
        let c = count_length c;
        input_loop bs (if s1_index c = 64 then process_block c else c)
      })"

text \<open>One call; the length of the piece is below \<open>2 ^ 32\<close> by its type.\<close>

definition sha1_input :: "u8 list \<Rightarrow> sha1_context \<Rightarrow> sha1_context option" where
  "sha1_input message c =
     (if message = [] then Some c
      else if s1_computed c \<or> s1_corrupted c then Some (c\<lparr>s1_corrupted := True\<rparr>)
      else input_loop message c)"

definition length_bytes :: "sha1_context \<Rightarrow> u8 list" where
  "length_bytes c = map (\<lambda>k. ucast (drop_bit k (s1_high c) AND 0xFF)) [24, 16, 8, 0] @ map (\<lambda>k. ucast (drop_bit k (s1_low c) AND 0xFF)) [24, 16, 8, 0]"

definition pad_message :: "sha1_context \<Rightarrow> sha1_context option" where
  "pad_message c = do {
     c \<leftarrow> (if 55 < s1_index c then do {
             c \<leftarrow> put_byte 0x80 c;
             c \<leftarrow> put_bytes64 (replicate (64 - s1_index c) 0) c;
             let c = process_block c;
             put_bytes64 (replicate (56 - s1_index c) 0) c
           } else do {
             c \<leftarrow> put_byte 0x80 c;
             put_bytes64 (replicate (56 - s1_index c) 0) c
           });
     Some (process_block (c\<lparr>s1_block := take 56 (s1_block c) @ length_bytes c\<rparr>))
   }"

definition sha1_result :: "sha1_context \<Rightarrow> (int \<times> sha1_context) option" where
  "sha1_result c =
     (if s1_corrupted c then Some (0, c)
      else if s1_computed c then Some (1, c)
      else do {
        c \<leftarrow> pad_message c;
        Some (1, c\<lparr>s1_computed := True\<rparr>)
      })"

fun sha1_inputs :: "u8 list list \<Rightarrow> sha1_context \<Rightarrow> sha1_context option" where
  "sha1_inputs [] c = Some c"
| "sha1_inputs (m # ms) c = do { c \<leftarrow> sha1_input m c; sha1_inputs ms c }"

section \<open>The standard\<close>

definition sha1_f :: "nat \<Rightarrow> u32 \<Rightarrow> u32 \<Rightarrow> u32 \<Rightarrow> u32" where
  "sha1_f t x y z =
     (if t < 20 then (x AND y) OR (NOT x AND z)
      else if t < 40 then x XOR y XOR z
      else if t < 60 then (x AND y) OR (x AND z) OR (y AND z)
      else x XOR y XOR z)"

definition sha1_k :: "nat \<Rightarrow> u32" where
  "sha1_k t = (if t < 20 then 0x5A827999 else if t < 40 then 0x6ED9EBA1 else if t < 60 then 0x8F1BBCDC else 0xCA62C1D6)"

fun sha1_w :: "u8 list \<Rightarrow> nat \<Rightarrow> u32" where
  "sha1_w m t = (if t < 16 then block_word m t
     else word_rotl 1 (sha1_w m (t - 3) XOR sha1_w m (t - 8) XOR sha1_w m (t - 14) XOR sha1_w m (t - 16)))"

declare sha1_w.simps [simp del]

definition sha1_round :: "u8 list \<Rightarrow> nat \<Rightarrow> word_buffers \<Rightarrow> word_buffers" where
  "sha1_round m t s = (case s of (a, b, c, d, e) \<Rightarrow>
     (word_rotl 5 a + sha1_f t b c d + e + sha1_k t + sha1_w m t, a, word_rotl 30 b, c, d))"

definition sha1_compress :: "u8 list \<Rightarrow> u32 list \<Rightarrow> u32 list" where
  "sha1_compress m h = (case fold (sha1_round m) [0..<80] (h ! 0, h ! 1, h ! 2, h ! 3, h ! 4) of
     (a, b, c, d, e) \<Rightarrow> map2 (+) [a, b, c, d, e] h)"

definition sha1_padded :: "u8 list \<Rightarrow> u8 list" where
  "sha1_padded m = m @ [0x80] @ replicate ((119 - length m mod 64) mod 64) 0 @
     map (\<lambda>i. of_nat (8 * length m div 256 ^ (7 - i))) [0..<8]"

definition chunk :: "u8 list \<Rightarrow> nat \<Rightarrow> u8 list" where "chunk m i = take 64 (drop (64 * i) m)"

definition sha1_initial :: "u32 list" where
  "sha1_initial = [0x67452301, 0xEFCDAB89, 0x98BADCFE, 0x10325476, 0xC3D2E1F0]"

definition sha1_blocks :: "u8 list \<Rightarrow> nat \<Rightarrow> u32 list" where
  "sha1_blocks m n = fold (\<lambda>i. sha1_compress (chunk m i)) [0..<n] sha1_initial"

definition sha1_digest :: "u8 list \<Rightarrow> u32 list" where
  "sha1_digest m = sha1_blocks (sha1_padded m) (length (sha1_padded m) div 64)"

section \<open>One block\<close>

lemma circular_shift_rotl: "0 < n \<Longrightarrow> n < 32 \<Longrightarrow> circular_shift n w = word_rotl n w"
proof (rule bit_word_eqI)
  fix k
  assume n: "0 < n" "n < 32" and k: "k < LENGTH(32)"
  show "bit (circular_shift n w) k = bit (word_rotl n w) k"
  proof (cases "n \<le> k")
    case True
    then have "(k + (32 - n)) mod 32 = k - n" using n k by (simp add: mod_if)
    moreover have "\<not> bit w (32 - n + k)" using True k by (auto dest: bit_imp_le_length)
    ultimately show ?thesis using True n k by (simp add: circular_shift_def bit_simps bit_word_rotl_iff)
  next
    case False
    then have "(k + (32 - n)) mod 32 = 32 - n + k" using n k by simp
    then show ?thesis using False n k by (simp add: circular_shift_def bit_simps bit_word_rotl_iff)
  qed
qed

lemma message_words_w: "message_words m = map (sha1_w m) [0..<80]"
proof -
  have "fold (\<lambda>t W. W @ [circular_shift 1 (W ! (t - 3) XOR W ! (t - 8) XOR W ! (t - 14) XOR W ! (t - 16))]) [16..<16 + k]
      (map (block_word m) [0..<16]) = map (sha1_w m) [0..<16 + k]" for k
  proof (induction k)
    case 0
    have "block_word m t = sha1_w m t" if "t < 16" for t using that by (simp add: sha1_w.simps)
    then show ?case by simp
  next
    case (Suc k)
    have up: "[16..<16 + Suc k] = [16..<16 + k] @ [16 + k]" "[0..<16 + Suc k] = [0..<16 + k] @ [16 + k]"
      by (simp_all only: add_Suc_right upt_Suc if_True le_add1 zero_le)
    let ?W = "map (sha1_w m) [0..<16 + k]"
    have nth: "?W ! j = sha1_w m j" if "j < 16 + k" for j using that by (simp del: upt_Suc upt_rec_numeral)
    have w: "circular_shift 1 (?W ! (16 + k - 3) XOR ?W ! (16 + k - 8) XOR ?W ! (16 + k - 14) XOR ?W ! (16 + k - 16)) = sha1_w m (16 + k)"
    proof -
      have "\<not> 16 + k < 16" by simp
      then have "sha1_w m (16 + k) = word_rotl 1 (sha1_w m (16 + k - 3) XOR sha1_w m (16 + k - 8) XOR sha1_w m (16 + k - 14) XOR sha1_w m (16 + k - 16))"
        by (subst sha1_w.simps) (simp only: if_False)
      moreover have "16 + k - 3 < 16 + k" "16 + k - 8 < 16 + k" "16 + k - 14 < 16 + k" "16 + k - 16 < 16 + k" by simp_all
      moreover have "circular_shift 1 v = word_rotl 1 v" for v by (rule circular_shift_rotl) simp_all
      ultimately show ?thesis by (simp only: nth)
    qed
    show ?case unfolding up fold_append map_append comp_apply Suc fold_simps list.map w ..
  qed
  note all = this
  have "16 + 64 = (80 :: nat)" by simp
  then show ?thesis using all [of 64] by (simp only: message_words_def)
qed

lemma sha1_step_round:
  assumes "t < 80"
  shows "sha1_step (sha1_f t) (sha1_k t) (message_words m ! t) = sha1_round m t"
  using assms by (auto simp: fun_eq_iff sha1_step_def sha1_round_def message_words_w circular_shift_rotl ac_simps simp del: upt_Suc upt_rec_numeral)

lemma upt_split: "a \<le> b \<Longrightarrow> b \<le> c \<Longrightarrow> [a..<c] = [a..<b] @ [b..<(c :: nat)]"
  by (metis le_iff_add upt_add_eq_append)

lemma fold_rounds:
  assumes "\<And>t. a \<le> t \<Longrightarrow> t < b \<Longrightarrow> sha1_f t = f \<and> sha1_k t = k" "b \<le> 80"
  shows "fold (\<lambda>t. sha1_step f k (message_words m ! t)) [a..<b] s = fold (sha1_round m) [a..<b] s"
proof (rule fold_cong [OF refl refl])
  fix t
  assume "t \<in> set [a..<b]"
  then show "sha1_step f k (message_words m ! t) = sha1_round m t"
    using assms sha1_step_round [of t m] by fastforce
qed

lemma process_block_compress:
  assumes "length (s1_digest c) = 5"
  shows "process_block c = c\<lparr>s1_digest := sha1_compress (s1_block c) (s1_digest c), s1_index := 0\<rparr>"
proof -
  let ?W = "message_words (s1_block c)"
  have rounds: "fold (\<lambda>t. sha1_step (\<lambda>B C D. (B AND C) OR ((NOT B) AND D)) 0x5A827999 (?W ! t)) [0..<20] s = fold (sha1_round (s1_block c)) [0..<20] s"
    "fold (\<lambda>t. sha1_step (\<lambda>B C D. B XOR C XOR D) 0x6ED9EBA1 (?W ! t)) [20..<40] s = fold (sha1_round (s1_block c)) [20..<40] s"
    "fold (\<lambda>t. sha1_step (\<lambda>B C D. (B AND C) OR (B AND D) OR (C AND D)) 0x8F1BBCDC (?W ! t)) [40..<60] s = fold (sha1_round (s1_block c)) [40..<60] s"
    "fold (\<lambda>t. sha1_step (\<lambda>B C D. B XOR C XOR D) 0xCA62C1D6 (?W ! t)) [60..<80] s = fold (sha1_round (s1_block c)) [60..<80] s" for s
    by (rule fold_rounds; auto simp: fun_eq_iff sha1_f_def sha1_k_def)+
  have up: "[0..<80] = [0..<20] @ [20..<40] @ [40..<60] @ [60..<(80::nat)]"
    using upt_split [of 0 20 80] upt_split [of 20 40 80] upt_split [of 40 60 80] by (simp del: upt_rec_numeral)
  obtain h0 h1 h2 h3 h4 where "s1_digest c = [h0, h1, h2, h3, h4]" using assms by (auto simp: length_Suc_conv numeral_eq_Suc)
  then show ?thesis
    unfolding process_block_def sha1_compress_def Let_def rounds up fold_append comp_apply
    by (simp add: ac_simps split: prod.split del: upt_Suc upt_rec_numeral)
qed

section \<open>A message in pieces\<close>

lemma length_sha1_blocks: "length (sha1_blocks m n) = 5"
proof -
  have "length (sha1_compress b h) = 5" if "length h = 5" for b h
    using that by (simp add: sha1_compress_def split: prod.split)
  then have "length (fold (\<lambda>i. sha1_compress (chunk m i)) is h) = 5" if "length h = 5" for "is" h
    using that by (induction "is" arbitrary: h) simp_all
  then show ?thesis by (simp add: sha1_blocks_def sha1_initial_def)
qed

lemma sha1_blocks_Suc: "sha1_blocks m (Suc n) = sha1_compress (chunk m n) (sha1_blocks m n)"
  by (simp add: sha1_blocks_def)

lemma sha1_blocks_append: "64 * n \<le> length m \<Longrightarrow> sha1_blocks (m @ x) n = sha1_blocks m n"
proof -
  assume "64 * n \<le> length m"
  then have "chunk (m @ x) i = chunk m i" if "i < n" for i using that by (simp add: chunk_def)
  then show ?thesis unfolding sha1_blocks_def by (intro fold_cong) auto
qed

text \<open>The context has taken in the bytes \<open>msg\<close>: the full blocks are in the digest, the rest is in the block.\<close>

definition absorbed :: "sha1_context \<Rightarrow> u8 list \<Rightarrow> bool" where
  "absorbed c msg \<longleftrightarrow> length (s1_block c) = 64 \<and> (\<exists>n. length msg = 64 * n + s1_index c \<and>
     take (s1_index c) (s1_block c) = drop (64 * n) msg \<and> s1_digest c = sha1_blocks msg n)"

definition same_count :: "sha1_context \<Rightarrow> sha1_context \<Rightarrow> bool" where
  "same_count c c' \<longleftrightarrow> s1_low c' = s1_low c \<and> s1_high c' = s1_high c \<and> s1_computed c' = s1_computed c \<and> s1_corrupted c' = s1_corrupted c"

lemma same_count_trans: "same_count a b \<Longrightarrow> same_count b c \<Longrightarrow> same_count a c" by (simp add: same_count_def)

lemma put_byte_absorbed:
  assumes "absorbed c msg" "s1_index c < 64"
  shows "\<exists>c'. put_byte b c = Some c' \<and> absorbed c' (msg @ [b]) \<and> s1_index c' = s1_index c + 1 \<and> same_count c c'"
proof -
  obtain n where n: "length (s1_block c) = 64" "length msg = 64 * n + s1_index c" "take (s1_index c) (s1_block c) = drop (64 * n) msg"
    "s1_digest c = sha1_blocks msg n" using assms(1) by (auto simp: absorbed_def)
  let ?c = "c\<lparr>s1_block := (s1_block c)[s1_index c := b], s1_index := s1_index c + 1\<rparr>"
  have "absorbed ?c (msg @ [b])"
    using n assms(2) sha1_blocks_append [of n msg "[b]"] by (auto simp: absorbed_def take_Suc_conv_app_nth intro!: exI [of _ n])
  then show ?thesis using assms(2) by (simp add: put_byte_def same_count_def)
qed

lemma put_bytes64_absorbed:
  "\<lbrakk>absorbed c msg; s1_index c + length bs \<le> 64\<rbrakk> \<Longrightarrow>
    \<exists>c'. put_bytes64 bs c = Some c' \<and> absorbed c' (msg @ bs) \<and> s1_index c' = s1_index c + length bs \<and> same_count c c'"
proof (induction bs arbitrary: c msg)
  case Nil
  then show ?case by (simp add: same_count_def)
next
  case (Cons b bs)
  obtain c1 where c1: "put_byte b c = Some c1" "absorbed c1 (msg @ [b])" "s1_index c1 = s1_index c + 1" "same_count c c1"
    using put_byte_absorbed [OF Cons.prems(1), of b] Cons.prems(2) by auto
  then show ?case using Cons.IH [OF c1(2)] Cons.prems(2) same_count_trans [OF c1(4)] by fastforce
qed

lemma process_absorbed:
  assumes "absorbed c msg" "s1_index c = 64"
  shows "absorbed (process_block c) msg \<and> s1_index (process_block c) = 0 \<and> same_count c (process_block c)"
proof -
  obtain n where n: "length (s1_block c) = 64" "length msg = 64 * n + 64" "s1_block c = drop (64 * n) msg" "s1_digest c = sha1_blocks msg n"
    using assms by (auto simp: absorbed_def)
  have "process_block c = c\<lparr>s1_digest := sha1_compress (s1_block c) (s1_digest c), s1_index := 0\<rparr>"
    by (rule process_block_compress) (simp add: n(4) length_sha1_blocks)
  moreover have "sha1_blocks msg (Suc n) = sha1_compress (s1_block c) (s1_digest c)"
    using n by (simp add: sha1_blocks_Suc chunk_def)
  ultimately show ?thesis using n by (auto simp: absorbed_def same_count_def intro!: exI [of _ "Suc n"])
qed

text \<open>The length in bits, in two words.\<close>

definition counted :: "sha1_context \<Rightarrow> nat \<Rightarrow> bool" where
  "counted c l \<longleftrightarrow> s1_low c = of_nat (8 * l) \<and> s1_high c = of_nat (l div 2 ^ 29) \<and> \<not> s1_computed c \<and> \<not> s1_corrupted c"

lemma count_length_ok:
  assumes "counted c l" "l + 1 < 2 ^ 61"
  shows "counted (count_length c) (l + 1) \<and> s1_block (count_length c) = s1_block c \<and> s1_index (count_length c) = s1_index c \<and>
    s1_digest (count_length c) = s1_digest c"
proof -
  have low: "s1_low c + 8 = of_nat (8 * (l + 1))" using assms(1) by (simp add: counted_def)
  have "(of_nat (8 * (l + 1)) :: u32) = 0 \<longleftrightarrow> 8 * 2 ^ 29 dvd 8 * (l + 1)"
    by (simp only: word_of_nat_eq_0_iff) simp
  then have zero: "s1_low c + 8 = 0 \<longleftrightarrow> (l + 1) mod 2 ^ 29 = 0"
    unfolding low by (simp only: nat_mult_dvd_cancel_disj mod_eq_0_iff_dvd) simp
  have suc: "(l + 1) div 2 ^ 29 = (if (l + 1) mod 2 ^ 29 = 0 then l div 2 ^ 29 + 1 else l div 2 ^ 29)"
    using div_Suc [of l "2 ^ 29"] by simp
  have high: "s1_high c + 1 = of_nat ((l + 1) div 2 ^ 29)" "s1_high c + 1 \<noteq> 0" if "(l + 1) mod 2 ^ 29 = 0"
  proof -
    show h: "s1_high c + 1 = of_nat ((l + 1) div 2 ^ 29)" using assms(1) suc that by (simp add: counted_def)
    have "(l + 1) div 2 ^ 29 < 2 ^ 32" using assms(2) by (simp add: div_less_iff_less_mult)
    moreover have "0 < (l + 1) div 2 ^ 29" using suc that by simp
    ultimately have "unat (of_nat ((l + 1) div 2 ^ 29) :: u32) \<noteq> 0" by (simp add: unsigned_of_nat take_bit_nat_eq_self)
    then show "s1_high c + 1 \<noteq> 0" unfolding h by (metis unsigned_0)
  qed
  show ?thesis
  proof (cases "(l + 1) mod 2 ^ 29 = 0")
    case True
    then show ?thesis using high [OF True] zero low assms(1) by (simp add: count_length_def counted_def Let_def)
  next
    case False
    then have "s1_low c + 8 \<noteq> 0" unfolding zero .
    then have "count_length c = c\<lparr>s1_low := s1_low c + 8\<rparr>" by (simp add: count_length_def Let_def)
    then show ?thesis using False suc assms(1) low by (simp add: counted_def del: of_nat_mult of_nat_add of_nat_Suc)
  qed
qed

definition taken_in :: "sha1_context \<Rightarrow> u8 list \<Rightarrow> bool" where
  "taken_in c msg \<longleftrightarrow> absorbed c msg \<and> counted c (length msg) \<and> s1_index c < 64"

lemma input_loop_ok: "taken_in c msg \<Longrightarrow> length msg + length bs < 2 ^ 61 \<Longrightarrow> \<exists>c'. input_loop bs c = Some c' \<and> taken_in c' (msg @ bs)"
proof (induction bs arbitrary: c msg)
  case (Cons b bs)
  have c: "absorbed c msg" "counted c (length msg)" "s1_index c < 64" using Cons.prems(1) by (simp_all add: taken_in_def)
  obtain c1 where c1: "put_byte b c = Some c1" "absorbed c1 (msg @ [b])" "s1_index c1 = s1_index c + 1" "same_count c c1"
    using put_byte_absorbed [OF c(1,3)] by blast
  have "counted c1 (length msg)" using c(2) c1(4) by (simp add: counted_def same_count_def)
  note count = count_length_ok [OF this]
  let ?c2 = "count_length c1"
  let ?c3 = "if s1_index ?c2 = 64 then process_block ?c2 else ?c2"
  have c2: "counted ?c2 (length (msg @ [b]))" "absorbed ?c2 (msg @ [b])" "s1_index ?c2 \<le> 64"
    using count Cons.prems(2) c1(2,3) c(3) by (simp_all add: absorbed_def)
  have "taken_in ?c3 (msg @ [b])"
  proof (cases "s1_index ?c2 = 64")
    case True
    then show ?thesis using process_absorbed [OF c2(2) True] c2(1) by (simp add: taken_in_def counted_def same_count_def)
  next
    case False
    then show ?thesis using c2 by (simp add: taken_in_def)
  qed
  moreover have "input_loop (b # bs) c = input_loop bs ?c3" using c(2) c1(1) by (simp add: counted_def Let_def)
  ultimately show ?case using Cons.IH [of ?c3 "msg @ [b]"] Cons.prems(2) by simp
qed simp

lemma sha1_inputs_ok:
  "taken_in c msg \<Longrightarrow> length msg + length (concat ms) < 2 ^ 61 \<Longrightarrow> \<exists>c'. sha1_inputs ms c = Some c' \<and> taken_in c' (msg @ concat ms)"
proof (induction ms arbitrary: c msg)
  case (Cons m ms)
  obtain c1 where c1: "input_loop m c = Some c1" "taken_in c1 (msg @ m)"
    using input_loop_ok [OF Cons.prems(1), of m] Cons.prems(2) by auto
  have "sha1_input m c = Some c1"
    using c1(1) Cons.prems(1) by (cases "m = []") (auto simp: sha1_input_def taken_in_def counted_def)
  then show ?case using Cons.IH [OF c1(2)] Cons.prems(2) by simp
qed simp

section \<open>The padding\<close>

lemma zeros_needed: "i < 64 \<Longrightarrow> (119 - i) mod 64 = (if 55 < i then 119 - i else 55 - (i :: nat))"
proof (cases "55 < i")
  case False
  then have "119 - i = 55 - i + 64" by simp
  then show ?thesis using False by (simp only: mod_add_self2) simp
qed simp

lemma byte_of_word: "k + 8 \<le> 32 \<Longrightarrow> (ucast (drop_bit k (of_nat y :: u32) AND 0xFF) :: u8) = of_nat (y div 2 ^ k)"
proof -
  assume k: "k + 8 \<le> 32"
  have m: "x AND 0xFF = take_bit 8 x" for x :: u32 by (simp add: take_bit_eq_mask mask_eq_exp_minus_1)
  have "(ucast (take_bit 8 (drop_bit k (of_nat y :: u32))) :: u8) = of_nat (drop_bit k y)"
    by (rule bit_word_eqI) (use k in \<open>auto simp: bit_simps\<close>)
  then show ?thesis by (simp only: m drop_bit_eq_div)
qed

lemma length_bytes_ok:
  assumes "counted c l"
  shows "length_bytes c = map (\<lambda>i. of_nat (8 * l div 256 ^ (7 - i))) [0..<8]"
proof -
  have h: "s1_high c = of_nat (8 * l div 2 ^ 32)" "s1_low c = of_nat (8 * l)" using assms by (simp_all add: counted_def)
  have up: "[0..<8] = [0, 1, 2, 3, 4, 5, 6, 7 :: nat]" by (simp add: upt_rec)
  have p: "(256 :: nat) ^ k = 2 ^ (8 * k)" for k by (simp add: power_mult)
  have d: "8 * l div 2 ^ 32 div 2 ^ k = 8 * l div 2 ^ (32 + k)" for k by (simp only: power_add div_mult2_eq)
  have byte: "(ucast (drop_bit k (s1_high c) AND 0xFF) :: u8) = of_nat (8 * l div 2 ^ (32 + k))"
    "(ucast (drop_bit k (s1_low c) AND 0xFF) :: u8) = of_nat (8 * l div 2 ^ k)" if "k + 8 \<le> 32" for k
    unfolding h using that by (simp_all only: byte_of_word d)
  have n: "32 + 24 = (56 :: nat)" "32 + 16 = (48 :: nat)" "32 + 8 = (40 :: nat)" "32 + 0 = (32 :: nat)" by simp_all
  have le: "24 + 8 \<le> (32 :: nat)" "16 + 8 \<le> (32 :: nat)" "8 + 8 \<le> (32 :: nat)" "0 + 8 \<le> (32 :: nat)" by simp_all
  have i: "map (\<lambda>i. 8 * (7 - i)) [0..<8] = [56, 48, 40, 32, 24, 16, 8, 0 :: nat]" unfolding up by simp
  have "length_bytes c = map (\<lambda>k. of_nat (8 * l div 2 ^ k)) [56, 48, 40, 32, 24, 16, 8, 0]"
    unfolding length_bytes_def list.map append.simps
      byte(1) [OF le(1), unfolded n] byte(1) [OF le(2), unfolded n] byte(1) [OF le(3), unfolded n] byte(1) [OF le(4), unfolded n]
      byte(2) [OF le(1)] byte(2) [OF le(2)] byte(2) [OF le(3)] byte(2) [OF le(4)]
    by (rule refl)
  also have "\<dots> = map (\<lambda>i. of_nat (8 * l div 256 ^ (7 - i))) [0..<8]"
    unfolding i [symmetric] by (simp only: map_map comp_def p)
  finally show ?thesis .
qed

lemma chunk_last: "length a = 64 * n + 56 \<Longrightarrow> length b = 8 \<Longrightarrow> chunk (a @ b) n = drop (64 * n) a @ b"
  by (simp add: chunk_def)

lemma pad_message_ok:
  assumes "taken_in c msg"
  shows "\<exists>c'. pad_message c = Some c' \<and> s1_digest c' = sha1_digest msg"
proof -
  let ?k = "(119 - length msg mod 64) mod 64"
  have c: "absorbed c msg" "counted c (length msg)" "s1_index c < 64" using assms by (simp_all add: taken_in_def)
  have i: "length msg mod 64 = s1_index c" using c(1,3) by (auto simp: absorbed_def)
  note k = zeros_needed [OF c(3)]
  obtain c1 where c1: "put_byte 0x80 c = Some c1" "absorbed c1 (msg @ [0x80])" "s1_index c1 = s1_index c + 1" "same_count c c1"
    using put_byte_absorbed [OF c(1,3)] by blast
  have "\<exists>c2. (if 55 < s1_index c then do {
             c \<leftarrow> put_byte 0x80 c;
             c \<leftarrow> put_bytes64 (replicate (64 - s1_index c) 0) c;
             let c = process_block c;
             put_bytes64 (replicate (56 - s1_index c) 0) c
           } else do {
             c \<leftarrow> put_byte 0x80 c;
             put_bytes64 (replicate (56 - s1_index c) 0) c
           }) = Some c2 \<and> absorbed c2 (msg @ [0x80] @ replicate ?k 0) \<and> s1_index c2 = 56 \<and> same_count c c2"
  proof (cases "55 < s1_index c")
    case True
    obtain c2 where c2: "put_bytes64 (replicate (64 - s1_index c1) 0) c1 = Some c2"
      "absorbed c2 ((msg @ [0x80]) @ replicate (64 - s1_index c1) 0)" "s1_index c2 = 64" "same_count c1 c2"
      using put_bytes64_absorbed [OF c1(2), of "replicate (64 - s1_index c1) 0"] c1(3) c(3) by auto
    note p = process_absorbed [OF c2(2,3)]
    obtain c3 where c3: "put_bytes64 (replicate 56 0) (process_block c2) = Some c3"
      "absorbed c3 (((msg @ [0x80]) @ replicate (64 - s1_index c1) 0) @ replicate 56 0)" "s1_index c3 = 56" "same_count (process_block c2) c3"
      using put_bytes64_absorbed [OF conjunct1 [OF p], of "replicate 56 0"] p by auto
    have "?k = (64 - s1_index c1) + 56" using k True c1(3) c(3) by (simp add: i)
    then have "absorbed c3 (msg @ [0x80] @ replicate ?k 0)" using c3(2) by (simp add: replicate_add)
    moreover have "same_count c c3" using c1(4) c2(4) c3(4) p same_count_trans by blast
    ultimately show ?thesis using True c1(1) c2(1) c3(1,3) p by (simp add: Let_def)
  next
    case False
    obtain c2 where c2: "put_bytes64 (replicate (56 - s1_index c1) 0) c1 = Some c2"
      "absorbed c2 ((msg @ [0x80]) @ replicate (56 - s1_index c1) 0)" "s1_index c2 = 56" "same_count c1 c2"
      using put_bytes64_absorbed [OF c1(2), of "replicate (56 - s1_index c1) 0"] c1(3) False by auto
    have "?k = 56 - s1_index c1" using k False c1(3) by (simp add: i)
    then show ?thesis using False c1(1) c2 same_count_trans [OF c1(4) c2(4)] by simp
  qed
  then obtain c2 where c2: "pad_message c = Some (process_block (c2\<lparr>s1_block := take 56 (s1_block c2) @ length_bytes c2\<rparr>))"
      "absorbed c2 (msg @ [0x80] @ replicate ?k 0)" "s1_index c2 = 56" "same_count c c2"
    unfolding pad_message_def by auto
  let ?len = "map (\<lambda>i. of_nat (8 * length msg div 256 ^ (7 - i))) [0..<8] :: u8 list"
  have "counted c2 (length msg)" using c(2) c2(4) by (simp add: counted_def same_count_def)
  then have len: "length_bytes c2 = ?len" by (rule length_bytes_ok)
  have padded: "sha1_padded msg = (msg @ [0x80] @ replicate ?k 0) @ ?len" by (simp add: sha1_padded_def)
  obtain n where n: "length (s1_block c2) = 64" "length (msg @ [0x80] @ replicate ?k 0) = 64 * n + 56"
      "take 56 (s1_block c2) = drop (64 * n) (msg @ [0x80] @ replicate ?k 0)" "s1_digest c2 = sha1_blocks (msg @ [0x80] @ replicate ?k 0) n"
    using c2(2,3) by (auto simp: absorbed_def)
  have "process_block (c2\<lparr>s1_block := take 56 (s1_block c2) @ ?len\<rparr>) =
      c2\<lparr>s1_block := take 56 (s1_block c2) @ ?len, s1_digest := sha1_compress (take 56 (s1_block c2) @ ?len) (s1_digest c2), s1_index := 0\<rparr>"
    by (subst process_block_compress) (simp_all add: n(4) length_sha1_blocks)
  moreover have "length (sha1_padded msg) = 64 * Suc n" using n(2) unfolding padded by simp
  moreover have "chunk (sha1_padded msg) n = take 56 (s1_block c2) @ ?len"
    unfolding padded n(3) by (rule chunk_last [OF n(2)]) simp
  moreover have "sha1_blocks (sha1_padded msg) n = s1_digest c2"
    unfolding padded n(4) by (rule sha1_blocks_append) (use n(2) in simp)
  ultimately have "s1_digest (process_block (c2\<lparr>s1_block := take 56 (s1_block c2) @ ?len\<rparr>)) = sha1_digest msg"
    by (simp add: sha1_digest_def sha1_blocks_Suc)
  then show ?thesis using c2(1) len by simp
qed

lemma sha1_pieces:
  assumes "length (s1_block c) = 64" "length (concat ms) < 2 ^ 61"
  shows "\<exists>c1 c2. sha1_inputs ms (sha1_reset c) = Some c1 \<and> sha1_result c1 = Some (1, c2) \<and> s1_digest c2 = sha1_digest (concat ms)"
proof -
  have "taken_in (sha1_reset c) []"
    using assms(1) by (simp add: taken_in_def absorbed_def counted_def sha1_reset_def sha1_blocks_def sha1_initial_def)
  then obtain c1 where c1: "sha1_inputs ms (sha1_reset c) = Some c1" "taken_in c1 (concat ms)"
    using sha1_inputs_ok [of "sha1_reset c" "[]" ms] assms(2) by auto
  obtain c2 where "pad_message c1 = Some c2" "s1_digest c2 = sha1_digest (concat ms)" using pad_message_ok [OF c1(2)] by blast
  then show ?thesis using c1 by (auto simp: sha1_result_def taken_in_def counted_def)
qed

text \<open>
  C38: The program computes SHA-1.  However a message of less than \<open>2 ^ 61\<close> bytes is cut into pieces, empty ones
  included, and whatever was in the context before: after \<open>SHA1Reset\<close> and the input of the pieces
  \<open>SHA1Result\<close> succeeds without leaving the block, and the digest is the one the standard defines for the
  message as a whole, with the padding, the message schedule and the 80 rounds of the standard.
\<close>

theorem sha1_is_standard:
  assumes "length (s1_block c) = 64" "length (concat ms) < 2 ^ 61"
  shows "\<exists>c1 c2. sha1_inputs ms (sha1_reset c) = Some c1 \<and> sha1_result c1 = Some (1, c2) \<and> s1_digest c2 = sha1_digest (concat ms)"
  using assms by (rule sha1_pieces)

definition fresh_context :: sha1_context where
  "fresh_context = \<lparr>s1_digest = [0, 0, 0, 0, 0], s1_low = 0, s1_high = 0, s1_block = replicate 64 0xCD, s1_index = 7,
     s1_computed = True, s1_corrupted = True\<rparr>"

theorem sha1_is_standard_witness:
  "\<exists>c1 c2. sha1_inputs [[0x61, 0x62], [], [0x63]] (sha1_reset fresh_context) = Some c1 \<and> sha1_result c1 = Some (1, c2) \<and>
     s1_digest c2 = sha1_digest [0x61, 0x62, 0x63]"
  using sha1_is_standard [of fresh_context "[[0x61, 0x62], [], [0x63]]"] by (simp add: fresh_context_def)

end
