(* ===== verification/Websocket.thy ===== *)
theory Websocket
  imports Gate Base64 Sha1 "HOL-Library.Sublist"
begin

text \<open>
  The websocket handshake of \<open>gate/websocket.c\<close> and the place of \<open>gate/mread.c\<close> that answers it, compiled
  with \<open>-DWEBSOCKET\<close>: a header of the request is found, the request is recognised, and the answer
  holds the digest of the key.  What stands in the answer is stated with the standard SHA-1.
\<close>

unbundle bit_operations_syntax

section \<open>Headers\<close>

definition c_string :: "string \<Rightarrow> string" where "c_string s = takeWhile (\<lambda>c. c \<noteq> CHR 0x00) s"

text \<open>
  \<open>get_header_value\<close>: the result and the C string left in \<open>dst\<close>.  The characters up to the next carriage return
  are copied: one must come before \<open>dst\<close> is full (the \<open>assert\<close>) and before the copy of the request ends.
\<close>

definition get_header_value :: "string \<Rightarrow> string \<Rightarrow> nat \<Rightarrow> (int \<times> string) option" where
  "get_header_value data key dstlen =
     (let src = data @ [CHR 0x00] in
      case strstr (key @ '': '') (c_string src) of
        None \<Rightarrow> Some (-1, [])
      | Some start \<Rightarrow> (case strstr '': '' start of
          None \<Rightarrow> Some (-1, [])
        | Some start \<Rightarrow> do {
            let room = take (dstlen - 1) (drop (length (c_string src) - length start + 2) src);
            c_assert (CHR 0x0D \<in> set room);
            Some (0, c_string (takeWhile (\<lambda>c. c \<noteq> CHR 0x0D) room))
          }))"

definition to_lower :: "char \<Rightarrow> char" where
  "to_lower c = (if CHR ''A'' \<le> c \<and> c \<le> CHR ''Z'' then char_of (of_char c + 32 :: nat) else c)"

definition strcasestr :: "string \<Rightarrow> string \<Rightarrow> bool" where
  "strcasestr n s \<longleftrightarrow> strstr (map to_lower n) (map to_lower s) \<noteq> None"

definition is_websocket_header :: "string \<Rightarrow> bool option" where
  "is_websocket_header data = do {
     (r, value) \<leftarrow> get_header_value data ''Connection'' 512;
     if r = 0 \<and> strstr ''Upgrade'' value \<noteq> None then do {
       (r, value) \<leftarrow> get_header_value data ''Upgrade'' 512;
       Some (r = 0 \<and> strcasestr ''WebSocket'' value)
     } else Some False
   }"

section \<open>The answer\<close>

definition ws_guid :: string where "ws_guid = ''258EAFA5-E914-47DA-95CA-C5AB0DC85B11''"

definition crlf :: string where "crlf = [CHR 0x0D, CHR 0x0A]"

definition ws_answer :: "string \<Rightarrow> string \<Rightarrow> string" where
  "ws_answer upgrade accept = ''HTTP/1.1 101 Switching Protocols'' @ crlf @ ''Upgrade: '' @ upgrade @ crlf @
     ''Connection: Upgrade'' @ crlf @ ''Sec-WebSocket-Accept: '' @ accept @ crlf @ crlf"

text \<open>
  \<open>generate_websocket_resp\<close>; \<open>sha\<close> is what is on the stack in the place of the context.  The digest is measured
  with \<open>strlen\<close>, and the target is at least one byte long.
\<close>

definition generate_websocket_resp :: "sha1_context \<Rightarrow> string \<Rightarrow> nat \<Rightarrow> string option option" where
  "generate_websocket_resp sha req destlen = do {
     (_, upgrade) \<leftarrow> get_header_value req ''Upgrade'' 64;
     (_, key) \<leftarrow> get_header_value req ''Sec-WebSocket-Key'' 256;
     if key \<noteq> [] then do {
       c_assert (length key + length ws_guid < 256);
       c \<leftarrow> sha1_input (map byte_of_char (key @ ws_guid)) (sha1_reset sha);
       (_, c) \<leftarrow> sha1_result c;
       let key_sha1 = concat (map (\<lambda>i. map (\<lambda>j. ucast (drop_bit 24 (push_bit (8 * j) (s1_digest c ! i)))) [0..<4]) [0..<5]);
       (_, key_base64) \<leftarrow> base64_encode (takeWhile (\<lambda>b. b \<noteq> 0) key_sha1) 128;
       Some (Some (take (destlen - 1) (ws_answer upgrade key_base64)))
     } else Some None
   }"

text \<open>
  The first data of a connection (\<open>bytes\<close> of them at \<open>buffer\<close>, in the block \<open>blk\<close>): true when it was taken for a
  handshake, whether it could be answered or not.  The messages on the terminal are left out.
\<close>

definition pull_handshake ::
  "'w os \<Rightarrow> sha1_context \<Rightarrow> nat \<Rightarrow> int \<Rightarrow> nat \<Rightarrow> 'w mread_pool \<Rightarrow> (bool \<times> 'w mread_pool) option" where
  "pull_handshake os sha i blk bytes m = do {
     s \<leftarrow> socket_at i m;
     let req = take bytes (text_from (mp_rb m) (blk + HDR));
     if s_status s = SOCKET_FIRST_POLLIN \<and> 0 < bytes then do {
       ws \<leftarrow> is_websocket_header req;
       if ws then do {
         m \<leftarrow> shrink_block blk 0 m;
         resp \<leftarrow> generate_websocket_resp sha (take bytes (text_from (mp_rb m) (blk + HDR))) 1024;
         case resp of
           Some resp \<Rightarrow> do {
             let (r, w) = os_write os (s_fd s) (map byte_of_char resp) (mp_world m);
             let m = m\<lparr>mp_world := w\<rparr>;
             m \<leftarrow> (if r = Done (length resp) then set_status i SOCKET_SUSPEND m else close_active os i m);
             Some (True, m)
           }
         | None \<Rightarrow> do { m \<leftarrow> close_active os i m; Some (True, m) }
       } else Some (False, m)
     } else Some (False, m)
   }"

section \<open>Searching\<close>

lemma strstr_prefix: "strstr n (c # s) = (if prefix n (c # s) then Some (c # s) else strstr n s)"
  by (metis append_eq_conv_conj prefix_def strstr.simps(2))

lemma strstr_hit: "n \<noteq> [] \<Longrightarrow> strstr n (n @ s) = Some (n @ s)"
  by (cases n) (simp_all add: strstr_prefix)

lemma prefix_cut: "c \<notin> set n \<Longrightarrow> prefix n (a @ c # b) \<longleftrightarrow> prefix n a"
  by (auto simp: prefix_append prefix_Cons)

declare strstr.simps(2) [simp del]

text \<open>A text is searched line by line.\<close>

lemma strstr_line:
  assumes "c \<notin> set n" "n \<noteq> []"
  shows "strstr n (a @ c # b) = (case strstr n a of Some r \<Rightarrow> Some (r @ c # b) | None \<Rightarrow> strstr n b)"
proof (induction a)
  case Nil
  have "\<not> prefix n (c # b)" using assms by (cases n) auto
  then show ?case using assms(2) by (simp add: strstr_prefix)
next
  case (Cons d a)
  then show ?case using prefix_cut [OF assms(1), of "d # a" b] by (simp add: strstr_prefix)
qed

lemma strstr_cons: "n \<noteq> [] \<Longrightarrow> c \<notin> set n \<Longrightarrow> strstr n (c # s) = strstr n s"
  using strstr_line [of c n "[]" s] by simp

section \<open>Requests\<close>

text \<open>
  A request as it is meant: a first line, and headers with a name and a value.  The search for a name is a
  search for characters: a request is \<open>plain\<close> for a name if they do not occur elsewhere.
\<close>

definition header_line :: "string \<times> string \<Rightarrow> string" where "header_line h = fst h @ '': '' @ snd h"

definition request_text :: "string \<Rightarrow> (string \<times> string) list \<Rightarrow> string" where
  "request_text first hs = first @ crlf @ concat (map (\<lambda>h. header_line h @ crlf) hs) @ crlf"

definition plain_text :: "string \<Rightarrow> bool" where
  "plain_text s \<longleftrightarrow> list_all (\<lambda>c. c \<notin> {CHR 0x00, CHR 0x0A, CHR 0x0D}) s"

definition plain_request :: "string \<Rightarrow> (string \<times> string) list \<Rightarrow> bool" where
  "plain_request first hs \<longleftrightarrow> plain_text first \<and> list_all (\<lambda>(n, v). plain_text n \<and> plain_text v) hs"

definition plain_for :: "string \<Rightarrow> string \<Rightarrow> (string \<times> string) list \<Rightarrow> bool" where
  "plain_for key first hs \<longleftrightarrow> strstr (key @ '': '') first = None \<and>
     list_all (\<lambda>h. fst h \<noteq> key \<longrightarrow> strstr (key @ '': '') (header_line h) = None) hs"

definition header_name :: "string \<Rightarrow> bool" where
  "header_name key \<longleftrightarrow> plain_text key \<and> CHR '':'' \<notin> set key"

lemma plain_text_simps [simp]:
  "plain_text []" "plain_text (c # s) \<longleftrightarrow> c \<notin> {CHR 0x00, CHR 0x0A, CHR 0x0D} \<and> plain_text s"
  "plain_text (s @ t) \<longleftrightarrow> plain_text s \<and> plain_text t"
  by (auto simp: plain_text_def)

lemma plain_text_notin: "plain_text s \<Longrightarrow> CHR 0x00 \<notin> set s \<and> CHR 0x0A \<notin> set s \<and> CHR 0x0D \<notin> set s"
  by (auto simp: plain_text_def list_all_iff)

lemma c_string_append: "CHR 0x00 \<notin> set s \<Longrightarrow> c_string (s @ CHR 0x00 # t) = s"
  unfolding c_string_def by (subst takeWhile_append2) auto

lemma c_string_plain: "CHR 0x00 \<notin> set s \<Longrightarrow> c_string s = s"
  by (auto simp: c_string_def takeWhile_eq_all_conv)

lemma request_no_nul: "plain_request first hs \<Longrightarrow> CHR 0x00 \<notin> set (request_text first hs)"
proof -
  assume r: "plain_request first hs"
  have "list_all (\<lambda>(n, v). plain_text n \<and> plain_text v) hs \<Longrightarrow> CHR 0x00 \<notin> set (concat (map (\<lambda>h. header_line h @ crlf) hs))"
    by (induction hs) (auto simp: header_line_def crlf_def dest: plain_text_notin)
  then show ?thesis using r plain_text_notin [of first] by (auto simp: plain_request_def request_text_def crlf_def)
qed

lemma strstr_crlf:
  "plain_text n \<Longrightarrow> n \<noteq> [] \<Longrightarrow> strstr n (a @ crlf @ b) = (case strstr n a of Some r \<Rightarrow> Some (r @ crlf @ b) | None \<Rightarrow> strstr n b)"
  using strstr_line [of "CHR 0x0D" n a] strstr_cons [of n "CHR 0x0A" b] by (auto simp: crlf_def dest: plain_text_notin split: option.split)

text \<open>What is found is the first header of that name, and the value is what follows up to the end of the line.\<close>

lemma strstr_headers:
  assumes "header_name key" "list_all (\<lambda>h. fst h \<noteq> key \<longrightarrow> strstr (key @ '': '') (header_line h) = None) hs"
  shows "case map_of hs key of
      None \<Rightarrow> strstr (key @ '': '') (concat (map (\<lambda>h. header_line h @ crlf) hs) @ crlf) = None
    | Some v \<Rightarrow> \<exists>rest. strstr (key @ '': '') (concat (map (\<lambda>h. header_line h @ crlf) hs) @ crlf) = Some (key @ '': '' @ v @ crlf @ rest)"
  using assms(2)
proof (induction hs)
  case Nil
  have "strstr (key @ '': '') ([] @ crlf @ []) = None"
    using assms(1) by (subst strstr_crlf) (auto simp: header_name_def)
  then show ?case by simp
next
  case (Cons h hs)
  let ?n = "key @ '': ''"
  have "plain_text ?n" "?n \<noteq> []" using assms(1) by (simp_all add: header_name_def)
  note line = strstr_crlf [OF this, of "header_line h" "concat (map (\<lambda>h. header_line h @ crlf) hs) @ crlf"]
  show ?case
  proof (cases "fst h = key")
    case True
    then have "strstr ?n (header_line h) = Some (key @ '': '' @ snd h)"
      using strstr_hit [of ?n "snd h"] by (simp add: header_line_def)
    then show ?thesis using True line by (cases h) auto
  next
    case False
    then have "strstr ?n (header_line h) = None" using Cons.prems by simp
    then have "strstr ?n (concat (map (\<lambda>h. header_line h @ crlf) (h # hs)) @ crlf) = strstr ?n (concat (map (\<lambda>h. header_line h @ crlf) hs) @ crlf)"
      using line by simp
    moreover have "map_of (h # hs) key = map_of hs key" using False by (cases h) simp
    ultimately show ?thesis using Cons by (simp only: list.pred_inject)
  qed
qed

lemma strstr_suffix: "strstr n s = Some r \<Longrightarrow> \<exists>a. s = a @ r"
proof (induction s)
  case Nil
  then show ?case by (simp split: if_splits)
next
  case (Cons c s)
  then show ?case by (fastforce simp: strstr_prefix split: if_splits intro: exI [of _ "[]"] exI [of _ "c # _"])
qed

lemma strstr_colon: "CHR '':'' \<notin> set key \<Longrightarrow> strstr '': '' (key @ '': '' @ s) = Some ('': '' @ s)"
  by (induction key) (auto simp: strstr_prefix)

text \<open>
  The value of a header.  For a request made of a first line and headers, in whose text the name of the
  header does not occur elsewhere: \<open>get_header_value\<close> returns -1 and the empty string when there is no such header,
  otherwise the value of the first one, as it was sent, when it is shorter than the room for it; a longer
  value fails the assertion and ends the process.
\<close>

lemma header_value:
  assumes "plain_request first hs" "plain_for key first hs" "header_name key" "0 < dstlen"
  shows "get_header_value (request_text first hs) key dstlen = (case map_of hs key of
      None \<Rightarrow> Some (-1, [])
    | Some v \<Rightarrow> if length v < dstlen - 1 then Some (0, v) else None)"
proof -
  let ?n = "key @ '': ''" and ?t = "request_text first hs" and ?hs = "concat (map (\<lambda>h. header_line h @ crlf) hs) @ crlf"
  have nul: "c_string (?t @ [CHR 0x00]) = ?t" using c_string_append [OF request_no_nul [OF assms(1)]] .
  have "plain_text ?n" "?n \<noteq> []" using assms(3) by (simp_all add: header_name_def)
  then have search: "strstr ?n ?t = strstr ?n ?hs"
    using assms(2) strstr_crlf [of ?n first ?hs] by (simp add: request_text_def plain_for_def)
  have headers: "list_all (\<lambda>h. fst h \<noteq> key \<longrightarrow> strstr ?n (header_line h) = None) hs" using assms(2) by (simp add: plain_for_def)
  show ?thesis
  proof (cases "map_of hs key")
    case None
    then show ?thesis using strstr_headers [OF assms(3) headers] by (simp add: get_header_value_def nul search)
  next
    case (Some v)
    then obtain rest where found: "strstr ?n ?t = Some (key @ '': '' @ v @ crlf @ rest)"
      using strstr_headers [OF assms(3) headers] search by auto
    obtain a where a: "?t = a @ key @ '': '' @ v @ crlf @ rest" using strstr_suffix [OF found] by blast
    have v: "plain_text v" using map_of_SomeD [OF Some] assms(1) by (auto simp: plain_request_def list_all_iff)
    have colon: "strstr '': '' (key @ '': '' @ v @ crlf @ rest) = Some ('': '' @ v @ crlf @ rest)"
      using strstr_colon assms(3) by (simp add: header_name_def)
    have pos: "length ?t - length ('': '' @ v @ crlf @ rest) + 2 = length (a @ key @ '': '')" unfolding a by simp
    have whole: "?t @ [CHR 0x00] = (a @ key @ '': '') @ v @ crlf @ rest @ [CHR 0x00]" unfolding a by simp
    have room: "drop (length ?t - length ('': '' @ v @ crlf @ rest) + 2) (?t @ [CHR 0x00]) = v @ crlf @ rest @ [CHR 0x00]"
      unfolding pos whole by (simp only: append_eq_conv_conj [THEN iffD1, THEN conjunct2, symmetric])
    have cut: "takeWhile (\<lambda>c. c \<noteq> CHR 0x0D) (v @ CHR 0x0D # t) = v" for t
      using plain_text_notin [OF v] by (subst takeWhile_append2) auto
    have "get_header_value ?t key dstlen = do {
        c_assert (CHR 0x0D \<in> set (take (dstlen - 1) (v @ crlf @ rest @ [CHR 0x00])));
        Some (0, c_string (takeWhile (\<lambda>c. c \<noteq> CHR 0x0D) (take (dstlen - 1) (v @ crlf @ rest @ [CHR 0x00]))))}"
      unfolding get_header_value_def Let_def nul found option.case colon room ..
    also have "\<dots> = (if length v < dstlen - 1 then Some (0, v) else None)"
    proof (cases "length v < dstlen - 1")
      case True
      then obtain k where "dstlen - 1 = length v + Suc k" by (metis add_Suc_right less_imp_Suc_add)
      then have "take (dstlen - 1) (v @ crlf @ rest @ [CHR 0x00]) = v @ CHR 0x0D # take k (CHR 0x0A # rest @ [CHR 0x00])"
        by (simp add: crlf_def)
      then show ?thesis using True cut c_string_plain plain_text_notin [OF v] by (simp add: c_assert_def)
    next
      case False
      then have "take (dstlen - 1) (v @ crlf @ rest @ [CHR 0x00]) = take (dstlen - 1) v" by simp
      then show ?thesis using False plain_text_notin [OF v] in_set_takeD [of "CHR 0x0D" "dstlen - 1" v] by (auto simp: c_assert_def)
    qed
    finally show ?thesis using Some by simp
  qed
qed

definition demo_headers :: "(string \<times> string) list" where
  "demo_headers = [(''Host'', ''server''), (''Upgrade'', ''websocket''), (''Connection'', ''keep-alive, Upgrade''),
     (''Sec-WebSocket-Key'', ''dGhlIHNhbXBsZSBub25jZQ==''), (''Upgrade'', ''other'')]"

lemma demo_headers_plain:
  "plain_request ''GET /chat HTTP/1.1'' demo_headers" "plain_for ''Upgrade'' ''GET /chat HTTP/1.1'' demo_headers"
  "plain_for ''Connection'' ''GET /chat HTTP/1.1'' demo_headers" "plain_for ''Sec-WebSocket-Key'' ''GET /chat HTTP/1.1'' demo_headers"
  "header_name ''Upgrade''" "header_name ''Connection''" "header_name ''Sec-WebSocket-Key''"
  by code_simp+

section \<open>The handshake\<close>

definition digest_bytes :: "u32 list \<Rightarrow> u8 list" where
  "digest_bytes d = concat (map (\<lambda>h. map (\<lambda>j. of_nat (unat h div 256 ^ (3 - j))) [0..<4]) d)"

text \<open>The text that proves that the key was seen: up to the first zero byte of the digest.\<close>

definition ws_accept :: "string \<Rightarrow> string" where
  "ws_accept key = encode_bytes (takeWhile (\<lambda>b. b \<noteq> 0) (digest_bytes (sha1_digest (map byte_of_char (key @ ws_guid)))))"

lemma digest_byte:
  "j < 4 \<Longrightarrow> (ucast (drop_bit 24 (push_bit (8 * j) (h :: u32))) :: u8) = of_nat (unat h div 256 ^ (3 - j))"
proof -
  assume j: "j < 4"
  have "(256 :: nat) ^ k = 2 ^ (8 * k)" for k by (simp add: power_mult)
  moreover have "8 * (3 - j) = 24 - 8 * j" using j by simp
  ultimately have "(256 :: nat) ^ (3 - j) = 2 ^ (24 - 8 * j)" by (simp only:)
  then have "unat h div 256 ^ (3 - j) = drop_bit (24 - 8 * j) (unat h)" by (simp add: drop_bit_eq_div)
  moreover have "(ucast (drop_bit 24 (push_bit (8 * j) h)) :: u8) = of_nat (drop_bit (24 - 8 * j) (unat h))"
    by (rule bit_word_eqI) (use j in \<open>auto simp: bit_simps\<close>)
  ultimately show ?thesis by simp
qed

lemma digest_bytes_loop:
  assumes "length d = 5"
  shows "concat (map (\<lambda>i. map (\<lambda>j. ucast (drop_bit 24 (push_bit (8 * j) (d ! i)))) [0..<4]) [0..<5]) = digest_bytes d"
proof -
  have "map (\<lambda>j. ucast (drop_bit 24 (push_bit (8 * j) h)) :: u8) [0..<4] = map (\<lambda>j. of_nat (unat h div 256 ^ (3 - j))) [0..<4]" for h :: u32
    by (rule map_cong [OF refl]) (simp only: set_upt atLeastLessThan_iff digest_byte)
  then have "map (\<lambda>i. map (\<lambda>j. ucast (drop_bit 24 (push_bit (8 * j) (d ! i))) :: u8) [0..<4]) [0..<5] =
      map (\<lambda>h. map (\<lambda>j. of_nat (unat h div 256 ^ (3 - j))) [0..<4]) (map ((!) d) [0..<5])"
    unfolding map_map comp_def by (simp only:)
  moreover have "map ((!) d) [0..<5] = d" using assms map_nth by metis
  ultimately show ?thesis by (simp only: digest_bytes_def)
qed

lemma length_digest_bytes: "length (digest_bytes d) = 4 * length d"
  unfolding digest_bytes_def by (induction d) simp_all

lemma length_ws_answer: "length u < 63 \<Longrightarrow> length a < 64 \<Longrightarrow> length (ws_answer u a) < 1024"
  by (simp add: ws_answer_def crlf_def)

text \<open>From the key to the text, by the code; the digest has 20 bytes.\<close>

lemma ws_accept_ok:
  assumes "length (s1_block sha) = 64" "length key < 256"
  shows "\<exists>c c'. sha1_input (map byte_of_char (key @ ws_guid)) (sha1_reset sha) = Some c \<and> sha1_result c = Some (1, c') \<and>
    base64_encode (takeWhile (\<lambda>b. b \<noteq> 0) (concat (map (\<lambda>i. map (\<lambda>j. ucast (drop_bit 24 (push_bit (8 * j) (s1_digest c' ! i)))) [0..<4]) [0..<5]))) 128 =
      Some (1, ws_accept key)"
proof -
  let ?m = "map byte_of_char (key @ ws_guid)"
  have "length (concat [?m]) < 2 ^ 61" using assms(2) by (simp add: ws_guid_def)
  then obtain c c' where c: "sha1_inputs [?m] (sha1_reset sha) = Some c" "sha1_result c = Some (1, c')" "s1_digest c' = sha1_digest ?m"
    using sha1_pieces [OF assms(1), of "[?m]"] by auto
  have "length (s1_digest c') = 5" unfolding c(3) sha1_digest_def by (rule length_sha1_blocks)
  note loop = digest_bytes_loop [OF this, unfolded c(3)]
  have "length (takeWhile (\<lambda>b. b \<noteq> 0) (digest_bytes (sha1_digest ?m))) \<le> 20"
    using length_takeWhile_le [of "\<lambda>b. b \<noteq> 0" "digest_bytes (sha1_digest ?m)"]
    by (simp add: length_digest_bytes sha1_digest_def length_sha1_blocks)
  then have "base64_encode (takeWhile (\<lambda>b. b \<noteq> 0) (digest_bytes (sha1_digest ?m))) 128 = Some (1, ws_accept key)"
    unfolding base64_encode_def ws_accept_def by (simp add: not_less)
  then show ?thesis using c loop by (auto simp: bind_eq_Some_conv)
qed

lemma handshake:
  assumes "plain_request first hs"
    and "list_all (\<lambda>n. plain_for n first hs) [''Connection'', ''Upgrade'', ''Sec-WebSocket-Key'']"
    and "map_of hs ''Connection'' = Some c" "length c < 511" "strstr ''Upgrade'' c \<noteq> None"
    and "map_of hs ''Upgrade'' = Some u" "length u < 63" "strcasestr ''WebSocket'' u"
    and "map_of hs ''Sec-WebSocket-Key'' = Some key" "key \<noteq> []" "length key < 220"
    and "length (s1_block sha) = 64"
  shows "is_websocket_header (request_text first hs) = Some True \<and>
    generate_websocket_resp sha (request_text first hs) 1024 = Some (Some (ws_answer u (ws_accept key)))"
proof -
  have names: "header_name ''Connection''" "header_name ''Upgrade''" "header_name ''Sec-WebSocket-Key''" by code_simp+
  note val = header_value [OF assms(1)]
  have vals: "get_header_value (request_text first hs) ''Connection'' 512 = Some (0, c)"
    "get_header_value (request_text first hs) ''Upgrade'' 512 = Some (0, u)"
    "get_header_value (request_text first hs) ''Upgrade'' 64 = Some (0, u)"
    "get_header_value (request_text first hs) ''Sec-WebSocket-Key'' 256 = Some (0, key)"
    using val [OF _ names(1), of 512] val [OF _ names(2), of 512] val [OF _ names(2), of 64] val [OF _ names(3), of 256] assms by simp_all
  obtain x y where sha: "sha1_input (map byte_of_char (key @ ws_guid)) (sha1_reset sha) = Some x" "sha1_result x = Some (1, y)"
    "base64_encode (takeWhile (\<lambda>b. b \<noteq> 0) (concat (map (\<lambda>i. map (\<lambda>j. ucast (drop_bit 24 (push_bit (8 * j) (s1_digest y ! i)))) [0..<4]) [0..<5]))) 128 =
      Some (1, ws_accept key)" using ws_accept_ok [of sha key] assms(11,12) by auto
  have "length key + length ws_guid < 256" using assms(11) by (simp add: ws_guid_def)
  moreover have "length (ws_accept key) < 64"
    using length_takeWhile_le [of "\<lambda>b. b \<noteq> 0" "digest_bytes (sha1_digest (map byte_of_char (key @ ws_guid)))"]
    by (simp add: ws_accept_def length_encode_bytes length_digest_bytes sha1_digest_def length_sha1_blocks)
  moreover note length_ws_answer [OF assms(7) this]
  ultimately have "generate_websocket_resp sha (request_text first hs) 1024 = Some (Some (ws_answer u (ws_accept key)))"
    unfolding generate_websocket_resp_def vals Let_def using assms(10) sha by (simp add: c_assert_def del: map_append upt_rec_numeral)
  moreover have "is_websocket_header (request_text first hs) = Some True"
    unfolding is_websocket_header_def vals using assms(5,8) by simp
  ultimately show ?thesis by simp
qed

text \<open>In the pool: the answer is written at once, and the connection waits for frames.\<close>

lemma pull_handshake_answers:
  assumes "plain_request first hs"
    and "list_all (\<lambda>n. plain_for n first hs) [''Connection'', ''Upgrade'', ''Sec-WebSocket-Key'']"
    and "map_of hs ''Connection'' = Some c" "length c < 511" "strstr ''Upgrade'' c \<noteq> None"
    and "map_of hs ''Upgrade'' = Some u" "length u < 63" "strcasestr ''WebSocket'' u"
    and "map_of hs ''Sec-WebSocket-Key'' = Some key" "key \<noteq> []" "length key < 220"
    and "length (s1_block sha) = 64"
    and "socket_at i m = Some s" "s_status s = SOCKET_FIRST_POLLIN" "0 < bytes"
    and "take bytes (text_from (mp_rb m) (blk + HDR)) = request_text first hs"
    and "os_write os (s_fd s) (map byte_of_char (ws_answer u (ws_accept key))) (mp_world m) = (Done (length (ws_answer u (ws_accept key))), w)"
  shows "pull_handshake os sha i blk bytes m =
    Some (True, set_socket i (s\<lparr>s_status := SOCKET_SUSPEND\<rparr>) (m\<lparr>mp_rb := (mp_rb m)\<lparr>rb_head := blk\<rparr>, mp_world := w\<rparr>))"
proof -
  have same: "text_from ((mp_rb m)\<lparr>rb_head := blk\<rparr>) p = text_from (mp_rb m) p" for p by (simp add: text_from_def byte_def)
  have "shrink_block blk 0 m = Some (m\<lparr>mp_rb := (mp_rb m)\<lparr>rb_head := blk\<rparr>\<rparr>)" by (simp add: shrink_block_def ringbuffer_shrink_def)
  moreover have "set_status i SOCKET_SUSPEND (m\<lparr>mp_rb := (mp_rb m)\<lparr>rb_head := blk\<rparr>, mp_world := w\<rparr>) =
      Some (set_socket i (s\<lparr>s_status := SOCKET_SUSPEND\<rparr>) (m\<lparr>mp_rb := (mp_rb m)\<lparr>rb_head := blk\<rparr>, mp_world := w\<rparr>))"
    using assms(13) by (auto simp: set_status_def socket_at_def split: if_splits)
  ultimately show ?thesis using handshake [OF assms(1-12)] assms(13-17)
    by (simp add: pull_handshake_def same Let_def)
qed



section \<open>Requests that are not meant\<close>

text \<open>A key of 220 to 254 characters is written behind the end of \<open>key\<close>.\<close>

lemma long_key_overflow:
  assumes "plain_request first hs" "plain_for ''Upgrade'' first hs" "plain_for ''Sec-WebSocket-Key'' first hs"
    and "map_of hs ''Upgrade'' = Some u" "length u < 63" "map_of hs ''Sec-WebSocket-Key'' = Some key" "220 \<le> length key" "length key < 255"
  shows "generate_websocket_resp sha (request_text first hs) destlen = None"
proof -
  have names: "header_name ''Upgrade''" "header_name ''Sec-WebSocket-Key''" by code_simp+
  have "get_header_value (request_text first hs) ''Upgrade'' 64 = Some (0, u)"
    "get_header_value (request_text first hs) ''Sec-WebSocket-Key'' 256 = Some (0, key)"
    using header_value [OF assms(1,2) names(1), of 64] header_value [OF assms(1,3) names(2), of 256] assms(4-8) by simp_all
  moreover have "\<not> length key + length ws_guid < 256" "key \<noteq> []" using assms(7) by (auto simp: ws_guid_def)
  ultimately show ?thesis by (simp add: generate_websocket_resp_def c_assert_def)
qed

text \<open>A value that is not ended by a carriage return is read behind the end of the copy of the request; names are found inside of names.\<close>

lemma open_value_overread: "get_header_value ''Upgrade: websocket'' ''Upgrade'' 64 = None"
  by code_simp

lemma name_in_name: "get_header_value (''X-Upgrade: no'' @ crlf @ ''Upgrade: websocket'' @ crlf) ''Upgrade'' 64 = Some (0, ''no'')"
  by code_simp

end
