(* ===== verification/WsFrame.thy ===== *)
theory WsFrame
  imports Websocket
begin

text \<open>
  The frames of a websocket connection in \<open>gate/main.c\<close> compiled with \<open>-DWEBSOCKET\<close>: the head that is put in
  front of what a client service sends, the reader of what the connection sends, with the mask taken off in
  place, and the callback with both.  A frame the gate writes is stated to be read back by the rules for frames.
\<close>

unbundle bit_operations_syntax

section \<open>Writing\<close>

text \<open>
  The first six bytes of the message are the id and two bytes of room; the head goes where it ends before the
  data.  A message of five bytes has no room for it.
\<close>

definition ws_client_frame :: "u8 list \<Rightarrow> u8 list option" where
  "ws_client_frame data = do {
     let data_len = int (length data) - 4 - 2;
     c_assert (0 \<le> data_len);
     let head_len = (if 125 < data_len then 4 else 2 :: nat);
     Some ([0x82, if 125 < data_len then 126 else of_int data_len] @
       (if head_len = 4 then [of_int (data_len div 2 ^ 8 mod 2 ^ 8), of_int (data_len mod 2 ^ 8)] else []) @ drop 6 data)
   }"

definition gate_ws_client ::
  "module_api \<Rightarrow> 'w os \<Rightarrow> nat \<Rightarrow> nat \<Rightarrow> u32 \<Rightarrow> u8 list \<Rightarrow> 'w gate \<times> node \<Rightarrow> (int \<times> 'w gate \<times> node) option" where
  "gate_ws_client api os ctx ptr source data gn = (
     let (g, n) = gn in
     if g_header g \<noteq> CHR ''W'' \<or> length data \<le> 4 then gate_client api os ctx ptr source data gn
     else case id_to_agent g (le32 data) of
         Some c \<Rightarrow> do {
           f \<leftarrow> ws_client_frame data;
           m \<leftarrow> mread_push os (c_connection_id (gate_conn g c)) f ptr (g_pool g);
           Some (1, g\<lparr>g_pool := m\<rparr>, n)
         }
       | None \<Rightarrow> Some (0, g, n))"

section \<open>Reading\<close>

text \<open>The fields of \<open>struct ws_frame_header\<close>, two bytes in the order of the bits.\<close>

definition ws_fin :: "ringbuffer \<Rightarrow> int \<Rightarrow> bool" where "ws_fin rb p = bit (byte p rb) 7"
definition ws_mask :: "ringbuffer \<Rightarrow> int \<Rightarrow> bool" where "ws_mask rb p = bit (byte (p + 1) rb) 7"
definition ws_payload_len :: "ringbuffer \<Rightarrow> int \<Rightarrow> int" where "ws_payload_len rb p = uint (byte (p + 1) rb AND 0x7f)"

text \<open>
  The length of the data, when it has arrived.  Of the eight bytes of a long length the first four
  are taken, as a number with sign.
\<close>

definition ws_data_len :: "'w os \<Rightarrow> int \<Rightarrow> 'w mread_pool \<Rightarrow> (int option \<times> 'w mread_pool) option" where
  "ws_data_len os header m = (
     let k = ws_payload_len (mp_rb m) header in
     if k = 126 \<or> k = 127 then do {
       (plen, m) \<leftarrow> mread_pull os (if k = 126 then 2 else 8) m;
       case plen of
         None \<Rightarrow> Some (None, m)
       | Some plen \<Rightarrow> do { len \<leftarrow> packet_length (if k = 126 then 2 else 4) (mp_rb m) plen; Some (Some len, m) }
     } else Some (Some k, m))"

fun ws_unmask :: "int \<Rightarrow> int \<Rightarrow> nat \<Rightarrow> nat \<Rightarrow> ringbuffer \<Rightarrow> ringbuffer option" where
  "ws_unmask data mask' i 0 rb = Some rb"
| "ws_unmask data mask' i (Suc n) rb =
     (if byte_valid (data + int i) rb \<and> byte_valid (mask' + int (i mod 4)) rb
      then ws_unmask data mask' (Suc i) n
        (set_byte (data + int i) (byte (data + int i) rb XOR byte (mask' + int (i mod 4)) rb) rb)
      else None)"

text \<open>A frame without a mask: the pointer \<open>mask\<close> has no value, and the first byte that needs it is undefined.\<close>

definition ws_take_mask ::
  "module_api \<Rightarrow> 'w os \<Rightarrow> nat \<Rightarrow> int \<Rightarrow> 'w mread_pool \<times> node \<Rightarrow> (int option option \<times> 'w mread_pool \<times> node) option" where
  "ws_take_mask api os ctx header mn = (
     let (m, n) = mn in
     if ws_mask (mp_rb m) header then do {
       (mask', m) \<leftarrow> mread_pull os 4 m;
       Some (map_option Some mask', m, n)
     } else do {
       n \<leftarrow> skynet_error api (Some ctx) (''Client websocket message has no mask.'' @ [CHR 0x0A]) n;
       Some (Some None, m, n)
     })"

definition gate_ws_packet ::
  "module_api \<Rightarrow> 'w os \<Rightarrow> nat \<Rightarrow> nat \<Rightarrow> i32 \<Rightarrow> int \<Rightarrow> 'w gate \<times> node \<Rightarrow> (int \<times> 'w gate \<times> node) option" where
  "gate_ws_packet api os ctx connection_id id' header gn = do {
     let (g, n) = gn;
     c_assert (g_header_size g = 2);
     c_assert (byte_valid header (mp_rb (g_pool g)) \<and> byte_valid (header + 1) (mp_rb (g_pool g)));
     if \<not> ws_fin (mp_rb (g_pool g)) header then do {
       n \<leftarrow> skynet_error api (Some ctx) ''Websocket error, header->fin == 0'' n;
       m \<leftarrow> mread_close_client os connection_id (g_pool g);
       gate_timeout api ctx ''0'' (g\<lparr>g_pool := m\<rparr>, n)
     } else do {
       (data_len, m) \<leftarrow> ws_data_len os header (g_pool g);
       case data_len of
         None \<Rightarrow> gate_closed api ctx id' False (g\<lparr>g_pool := m\<rparr>, n)
       | Some data_len \<Rightarrow> do {
           (mask', m, n) \<leftarrow> ws_take_mask api os ctx header (m, n);
           case mask' of
             None \<Rightarrow> gate_closed api ctx id' False (g\<lparr>g_pool := m\<rparr>, n)
           | Some mask' \<Rightarrow> do {
               (data, m) \<leftarrow> mread_pull os data_len m;
               case data of
                 None \<Rightarrow> gate_closed api ctx id' False (g\<lparr>g_pool := m\<rparr>, n)
               | Some data \<Rightarrow> do {
                   rb \<leftarrow> (if data_len \<le> 0 then Some (mp_rb m)
                          else do { mask' \<leftarrow> mask'; ws_unmask data mask' 0 (nat data_len) (mp_rb m) });
                   (g, n) \<leftarrow> gate_forward api ctx id' data data_len (g\<lparr>g_pool := m\<lparr>mp_rb := rb\<rparr>\<rparr>, n);
                   m \<leftarrow> mread_yield (g_pool g);
                   gate_timeout api ctx ''0'' (g\<lparr>g_pool := m\<rparr>, n)
                 }
             }
         }
     }
   }"

definition gate_ws_poll :: "module_api \<Rightarrow> 'w os \<Rightarrow> nat \<Rightarrow> 'w gate \<times> node \<Rightarrow> (int \<times> 'w gate \<times> node) option" where
  "gate_ws_poll api os ctx gn = (
     let (g, n) = gn in
     if g_header g \<noteq> CHR ''W'' then gate_poll api os ctx gn
     else do {
       (r, m) \<leftarrow> mread_poll os 10 (g_pool g);
       let g = g\<lparr>g_pool := m\<rparr>;
       case r of
         None \<Rightarrow> gate_timeout api ctx ''1'' (g, n)
       | Some connection_id \<Rightarrow> do {
           c_assert (connection_id < length (g_map g));
           let id' = c_uid (gate_conn g connection_id);
           (plen, m) \<leftarrow> mread_pull os (g_header_size g) (g_pool g);
           let g = g\<lparr>g_pool := m\<rparr>;
           case plen of
             None \<Rightarrow> gate_closed api ctx id' True (g, n)
           | Some plen \<Rightarrow> do {
               (id', g, n) \<leftarrow> gate_open api ctx connection_id id' (g, n);
               gate_ws_packet api os ctx connection_id id' plen (g, n)
             }
         }
     })"

definition gate_ws_cb ::
  "module_api \<Rightarrow> 'w os \<Rightarrow> nat \<Rightarrow> nat \<Rightarrow> i32 \<Rightarrow> u32 \<Rightarrow> string \<Rightarrow> 'w gate \<times> node \<Rightarrow> (int \<times> 'w gate \<times> node) option" where
  "gate_ws_cb api os ctx ptr ty source msg gn =
     (if ty = PTYPE_TEXT then do { gn \<leftarrow> gate_ctrl api os ctx msg gn; Some (0, gn) }
      else if ty = PTYPE_CLIENT then gate_ws_client api os ctx ptr source (map byte_of_char msg) gn
      else do {
        c_assert (ty = PTYPE_RESPONSE);
        gate_ws_poll api os ctx gn
      })"

text \<open>For any other kind of gate this build behaves as the default one.\<close>

lemma ws_build_same: "g_header (fst gn) \<noteq> CHR ''W'' \<Longrightarrow> gate_ws_cb api os ctx ptr ty source msg gn = gate_cb api os ctx ptr ty source msg gn"
  by (cases gn) (simp add: gate_ws_cb_def gate_cb_def gate_ws_client_def gate_ws_poll_def)

section \<open>The rules for frames\<close>

text \<open>
  A frame at the front of a stream, unmasked: the first byte, the data and what follows, by the rules of
  the protocol with lengths of 7, 16 and 64 bits.
\<close>

definition big_endian :: "u8 list \<Rightarrow> nat" where "big_endian bs = foldl (\<lambda>v b. 256 * v + unat b) 0 bs"

definition take_data :: "u8 \<Rightarrow> nat \<Rightarrow> u8 list \<Rightarrow> (u8 \<times> u8 list \<times> u8 list) option" where
  "take_data first n bs = (if n \<le> length bs then Some (first, take n bs, drop n bs) else None)"

definition read_frame :: "u8 list \<Rightarrow> (u8 \<times> u8 list \<times> u8 list) option" where
  "read_frame bs = (case bs of
     first # len # bs \<Rightarrow>
       if unat len = 126 then if length bs < 2 then None else take_data first (big_endian (take 2 bs)) (drop 2 bs)
       else if unat len = 127 then if length bs < 8 then None else take_data first (big_endian (take 8 bs)) (drop 8 bs)
       else if unat len < 126 then take_data first (unat len) bs else None
   | _ \<Rightarrow> None)"

lemma ws_client_frame_small: "length data = 6 + n \<Longrightarrow> n < 126 \<Longrightarrow> ws_client_frame data = Some (0x82 # of_nat n # drop 6 data)"
  by (simp add: ws_client_frame_def c_assert_def Let_def)

lemma high_low_bytes:
  "(of_int (int n div 2 ^ 8 mod 2 ^ 8) :: u8) = of_nat (n div 256 mod 256)" "(of_int (int n mod 2 ^ 8) :: u8) = of_nat (n mod 256)"
proof -
  have "int n div 2 ^ 8 mod 2 ^ 8 = int (n div 256 mod 256)" "int n mod 2 ^ 8 = int (n mod 256)" by (simp_all add: zdiv_int zmod_int)
  then show "(of_int (int n div 2 ^ 8 mod 2 ^ 8) :: u8) = of_nat (n div 256 mod 256)" "(of_int (int n mod 2 ^ 8) :: u8) = of_nat (n mod 256)"
    by (simp_all only: of_int_of_nat_eq)
qed

lemma ws_client_frame_large:
  assumes "length data = 6 + n" "126 \<le> n"
  shows "ws_client_frame data = Some (0x82 # 126 # of_nat (n div 256 mod 256) # of_nat (n mod 256) # drop 6 data)"
proof -
  have n: "int (length data) - 4 - 2 = int n" "125 < int n" "0 \<le> int n" using assms by simp_all
  show ?thesis unfolding ws_client_frame_def n(1) Let_def c_assert_def high_low_bytes using n(2,3) by simp
qed

lemma ws_client_frame_room: "length data < 6 \<Longrightarrow> ws_client_frame data = None"
  by (simp add: ws_client_frame_def c_assert_def Let_def)

lemma big_endian_16: "big_endian [of_nat (n div 256 mod 256), of_nat (n mod 256)] = n mod 65536"
proof -
  have b: "unat (of_nat (k mod 256) :: u8) = k mod 256" for k by (simp add: unsigned_of_nat take_bit_eq_mod)
  have "n mod 65536 = 256 * (n div 256 mod 256) + n mod 256" using mod_mult2_eq [of n 256 256] by simp
  then show ?thesis unfolding big_endian_def foldl.simps b by simp
qed

lemma read_written_frame:
  assumes "length data = 6 + n" "ws_client_frame data = Some f"
  shows "read_frame (f @ rest) = take_data 0x82 (n mod 65536) (drop 6 data @ rest)"
proof (cases "n < 126")
  case True
  then have "unat (of_nat n :: u8) = n" "n mod 65536 = n" by (simp_all add: unsigned_of_nat take_bit_nat_eq_self)
  then show ?thesis using ws_client_frame_small [OF assms(1) True] assms(2) True by (auto simp: read_frame_def)
next
  case False
  then have "f = 0x82 # 126 # of_nat (n div 256 mod 256) # of_nat (n mod 256) # drop 6 data"
    using ws_client_frame_large [OF assms(1)] assms(2) by simp
  then show ?thesis by (simp add: read_frame_def big_endian_16)
qed

text \<open>
  C40: The gate writes frames that are read back.  What a client service sends for a connection, behind the
  four bytes of the id and two bytes of room, is framed unless there is no data room at all; for less than
  64 KiB a reader of the stream by the rules of the protocol gets one complete binary frame, the data as they
  were and exactly the bytes that follow.
\<close>

theorem ws_frame_roundtrip:
  assumes "6 \<le> length data" "length data < 65536 + 6"
  shows "\<exists>f. ws_client_frame data = Some f \<and> read_frame (f @ rest) = Some (0x82, drop 6 data, rest)"
proof -
  obtain n where n: "length data = 6 + n" using le_Suc_ex [OF assms(1)] by blast
  obtain f where f: "ws_client_frame data = Some f"
    using ws_client_frame_small [OF n] ws_client_frame_large [OF n] by (meson not_less)
  have "n mod 65536 = n" using n assms(2) by simp
  then show ?thesis using read_written_frame [OF n f] f n by (simp add: take_data_def)
qed

theorem ws_frame_roundtrip_witness:
  "\<exists>f. ws_client_frame (replicate 206 7) = Some f \<and> read_frame (f @ [1, 2]) = Some (0x82, drop 6 (replicate 206 7), [1, 2])"
  by (rule ws_frame_roundtrip) simp_all

text \<open>A longer message is announced with the lowest 16 bits of its length: the rest is read as further frames.\<close>

lemma long_frame_cut:
  assumes "length data = 6 + n" "65536 \<le> n"
  shows "\<exists>f. ws_client_frame data = Some f \<and>
    read_frame (f @ rest) = Some (0x82, take (n mod 65536) (drop 6 data), drop (n mod 65536) (drop 6 data) @ rest)"
proof -
  have "ws_client_frame data = Some (0x82 # 126 # of_nat (n div 256 mod 256) # of_nat (n mod 256) # drop 6 data)" (is "_ = Some ?f")
    using ws_client_frame_large [OF assms(1)] assms(2) by simp
  moreover have "n mod 65536 \<le> n" by simp
  ultimately show ?thesis using read_written_frame [OF assms(1), of ?f rest] assms(1) by (simp add: take_data_def)
qed

section \<open>The mask\<close>

lemma same_lane: "j < 8 \<Longrightarrow> 8 * a + j < 8 * b + 8 \<and> 8 * b \<le> 8 * a + j \<longleftrightarrow> a = (b :: nat)"
  by auto

lemma bit_insert_byte:
  assumes "i < 32"
  shows "bit ((w AND NOT (push_bit k 0xff)) OR push_bit k (ucast (b :: u8)) :: u32) i = (if k \<le> i \<and> i < k + 8 then bit b (i - k) else bit w i)"
proof -
  have m: "(0xff :: u32) = mask 8" by (simp add: mask_eq_exp_minus_1)
  have "\<not> bit b (i - k)" if "k + 8 \<le> i" using that bit_imp_le_length [of b "i - k"] by auto
  then show ?thesis unfolding m using assms by (auto simp: bit_simps)
qed

lemma bit_byte: "j < 8 \<Longrightarrow> bit (byte q rb) j = bit (rb_mem rb ! nat (q div 4)) (8 * nat (q mod 4) + j)"
  by (simp add: byte_def bit_simps add.commute)

lemma byte_set_byte:
  assumes "byte_valid p rb" "0 \<le> q"
  shows "byte q (set_byte p b rb) = (if q = p then b else byte q rb)"
proof (rule bit_word_eqI)
  fix j
  assume "j < LENGTH(8)"
  then have j: "j < 8" by simp
  have p: "0 \<le> p" "nat (p div 4) < length (rb_mem rb)" using assms(1) by (simp_all add: byte_valid_def)
  show "bit (byte q (set_byte p b rb)) j = bit (if q = p then b else byte q rb) j"
  proof (cases "q div 4 = p div 4")
    case True
    have eq: "q = p \<longleftrightarrow> nat (q mod 4) = nat (p mod 4)" using True by (metis div_mult_mod_eq nat_eq_iff pos_mod_sign zero_less_numeral)
    have i: "8 * nat (q mod 4) + j < 32" using j by simp
    have cell: "rb_mem (set_byte p b rb) ! nat (q div 4) =
        (rb_mem rb ! nat (p div 4) AND NOT (push_bit (8 * nat (p mod 4)) 0xff)) OR push_bit (8 * nat (p mod 4)) (ucast b)"
      using True p(2) by (simp add: set_byte_def Let_def)
    have "bit (byte q (set_byte p b rb)) j = (if q = p then bit b (8 * nat (q mod 4) + j - 8 * nat (p mod 4)) else bit (byte q rb) j)"
      unfolding bit_byte [OF j] cell bit_insert_byte [OF i] using same_lane [OF j, of "nat (q mod 4)" "nat (p mod 4)"] eq True by auto
    then show ?thesis by simp
  next
    case False
    then have "nat (q div 4) \<noteq> nat (p div 4)" using p(1) assms(2) by (simp add: eq_nat_nat_iff pos_imp_zdiv_nonneg_iff)
    then show ?thesis using False by (auto simp: byte_def set_byte_def Let_def)
  qed
qed

lemma byte_valid_set_byte [simp]: "byte_valid q (set_byte p b rb) = byte_valid q rb"
  by (simp add: byte_valid_def set_byte_def Let_def)

text \<open>
  Taking off the mask: when the data and the mask are in the buffer and apart, the data are combined
  with the four bytes of the mask in turn, and nothing else in the buffer changes.
\<close>

lemma ws_unmask_from:
  assumes "\<And>j. j < n \<Longrightarrow> byte_valid (data + int (i + j)) rb" "\<And>j. j < 4 \<Longrightarrow> byte_valid (msk + int j) rb"
    and "msk + 4 \<le> data \<or> data + int (i + n) \<le> msk" "0 \<le> data"
  shows "\<exists>rb'. ws_unmask data msk i n rb = Some rb' \<and> (\<forall>q. byte_valid q rb' = byte_valid q rb) \<and> (\<forall>q. 0 \<le> q \<longrightarrow> byte q rb' =
    (if data + int i \<le> q \<and> q < data + int (i + n) then byte q rb XOR byte (msk + (q - data) mod 4) rb else byte q rb))"
  using assms
proof (induction n arbitrary: i rb)
  case 0
  then show ?case by auto
next
  case (Suc n)
  let ?p = "data + int i" and ?m = "msk + int (i mod 4)"
  let ?b = "byte ?p rb XOR byte ?m rb"
  let ?rb = "set_byte ?p ?b rb"
  have v: "byte_valid ?p rb" "byte_valid ?m rb" using Suc.prems(1) [of 0] Suc.prems(2) [of "i mod 4"] by simp_all
  have m0: "0 \<le> msk" using Suc.prems(2) [of 0] by (simp add: byte_valid_def)
  have "byte_valid (data + int (Suc i + j)) ?rb" if "j < n" for j using Suc.prems(1) [of "Suc j"] that by simp
  then obtain rb' where rb': "ws_unmask data msk (Suc i) n ?rb = Some rb'" "\<forall>q. byte_valid q rb' = byte_valid q ?rb"
    "\<forall>q. 0 \<le> q \<longrightarrow> byte q rb' = (if data + int (Suc i) \<le> q \<and> q < data + int (Suc i + n) then byte q ?rb XOR byte (msk + (q - data) mod 4) ?rb else byte q ?rb)"
    using Suc.IH [of "Suc i" ?rb] Suc.prems(2-4) by auto
  have mask_kept: "byte (msk + (q - data) mod 4) ?rb = byte (msk + (q - data) mod 4) rb" for q
  proof -
    have "0 \<le> (q - data) mod 4" "(q - data) mod 4 < 4" by simp_all
    then have "msk + (q - data) mod 4 \<noteq> ?p" using Suc.prems(3) by auto
    then show ?thesis using byte_set_byte [OF v(1)] m0 by simp
  qed
  have "byte q rb' = (if data + int i \<le> q \<and> q < data + int (i + Suc n) then byte q rb XOR byte (msk + (q - data) mod 4) rb else byte q rb)"
    if q: "0 \<le> q" for q
  proof (cases "q = ?p")
    case True
    then have "(q - data) mod 4 = int (i mod 4)" by (simp add: zmod_int)
    then show ?thesis using rb'(3) q byte_set_byte [OF v(1) q, of ?b] True by simp
  next
    case False
    then have "data + int (Suc i) \<le> q \<longleftrightarrow> data + int i \<le> q" by auto
    then show ?thesis using rb'(3) q byte_set_byte [OF v(1) q, of ?b] False mask_kept by simp
  qed
  then show ?case using rb'(1,2) v by simp
qed

text \<open>A frame with data and no mask: the pointer that is used has never been set.\<close>

lemma no_mask:
  assumes "\<not> ws_mask (mp_rb m) header" "ws_take_mask api os ctx header (m, n) = Some (mask', m', n')"
  shows "mask' = Some None"
  using assms by (auto simp: ws_take_mask_def bind_eq_Some_conv)

text \<open>Only the upper half of a length of 64 bits is used: 100 KiB are read as nothing.\<close>

lemma long_length_lost:
  "packet_length 4 \<lparr>rb_size = 16, rb_head = 0, rb_mem = [0x00000000, 0x00900100, 0, 0]\<rparr> 0 = Some 0"
  by code_simp

end
